(* ===== verification/Prelude.thy ===== *)
theory Prelude
  imports Main "HOL-Library.Word" "HOL-Library.Monad_Syntax" "HOL-Library.Signed_Division"
begin

text \<open>
  Shared ground of the development: the C integer conversions, the rounding macros of
  \<^verbatim>\<open>macros.h\<close>, the interrupt flag that most SDK functions save and restore, and
  generic facts about them.

  Machine integers. An address, a size or a counter of the C code is an \<open>int\<close>, and each C
  operation that can leave the range of its type is followed by the conversion to that type
  (\<open>u32\<close>, \<open>s32\<close>, \<open>u16\<close>, ...), so the wrap-around is written out where it happens.
  Bit masks that are only used as masks are \<open>32 word\<close> values.  A pointer to an object that
  the code only links and compares is \<open>'a option\<close>, with \<open>None\<close> for NULL.

  A function whose C counterpart may dereference NULL or loop forever returns an \<open>option\<close>;
  \<open>None\<close> means that the C code has no defined result.
\<close>

section \<open>Fact collections\<close>

named_theorems conv_simps "conversions to a C integer type that change nothing"
named_theorems links_simps "reads of a link field after a write to one"

section \<open>C integer conversions\<close>

type_synonym 'a ptr = "'a option"

definition u8 :: "int \<Rightarrow> int" where
  "u8 x = x mod 2 ^ 8"

definition u16 :: "int \<Rightarrow> int" where
  "u16 x = x mod 2 ^ 16"

definition u32 :: "int \<Rightarrow> int" where
  "u32 x = x mod 2 ^ 32"

definition s32 :: "int \<Rightarrow> int" where
  "s32 x = (x + 2 ^ 31) mod 2 ^ 32 - 2 ^ 31"

definition s64 :: "int \<Rightarrow> int" where
  "s64 x = (x + 2 ^ 63) mod 2 ^ 64 - 2 ^ 63"

lemma u8_id [conv_simps]: "0 \<le> x \<Longrightarrow> x < 2 ^ 8 \<Longrightarrow> u8 x = x"
  by (simp add: u8_def)

lemma u16_id [conv_simps]: "0 \<le> x \<Longrightarrow> x < 2 ^ 16 \<Longrightarrow> u16 x = x"
  by (simp add: u16_def)

lemma u32_id [conv_simps]: "0 \<le> x \<Longrightarrow> x < 2 ^ 32 \<Longrightarrow> u32 x = x"
  by (simp add: u32_def)

lemma s32_id [conv_simps]: "- (2 ^ 31) \<le> x \<Longrightarrow> x < 2 ^ 31 \<Longrightarrow> s32 x = x"
  by (simp add: s32_def)

lemma s64_id [conv_simps]: "- (2 ^ 63) \<le> x \<Longrightarrow> x < 2 ^ 63 \<Longrightarrow> s64 x = x"
  by (simp add: s64_def)

lemma u32_range: "0 \<le> u32 x" "u32 x < 2 ^ 32"
  by (simp_all add: u32_def)

lemma s32_range: "- (2 ^ 31) \<le> s32 x" "s32 x < 2 ^ 31"
  by (simp_all add: s32_def)

lemma u32_u32 [simp]: "u32 (u32 x) = u32 x"
  by (simp add: u32_def)

lemma u32_of_s32 [simp]: "u32 (s32 x) = u32 x"
proof -
  have "u32 (s32 x) = ((x + 2 ^ 31) mod 2 ^ 32 - 2 ^ 31) mod 2 ^ 32"
    by (simp add: u32_def s32_def)
  also have "\<dots> = (x + 2 ^ 31 - 2 ^ 31) mod 2 ^ 32"
    by (rule mod_diff_left_eq)
  finally show ?thesis by (simp add: u32_def)
qed

text \<open>C division and remainder truncate; on a non-negative dividend they are the floor ones.\<close>

lemma sdiv_nonneg [conv_simps]: "0 \<le> (a::int) \<Longrightarrow> 0 < b \<Longrightarrow> a sdiv b = a div b"
  by (cases "a = 0") (simp_all add: signed_divide_int_def)

lemma smod_nonneg [conv_simps]: "0 \<le> (a::int) \<Longrightarrow> 0 < b \<Longrightarrow> a smod b = a mod b"
  by (cases "a = 0") (simp_all add: signed_modulo_int_def)

section \<open>The rounding macros\<close>

text \<open>
  \<^verbatim>\<open>ROUND_UP(x, a)\<close> is \<open>(x + a - 1) & -a\<close> and \<^verbatim>\<open>ROUND_DOWN(x, a)\<close> is \<open>x & -a\<close>;
  the pointer versions use \<open>~(a - 1)\<close>, the same mask.  In every use here the operand is
  unsigned, or is converted to unsigned by the macro, so the mask is taken on 32 bits.
\<close>

definition ROUND_UP :: "int \<Rightarrow> int \<Rightarrow> int" where
  "ROUND_UP x a = and (u32 (x + a - 1)) (u32 (- a))"

definition ROUND_DOWN :: "int \<Rightarrow> int \<Rightarrow> int" where
  "ROUND_DOWN x a = and (u32 x) (u32 (- a))"


lemma u32_take_bit: "u32 x = take_bit 32 x"
  by (simp add: u32_def take_bit_eq_mod)

lemma and_neg_exp: "and (x::int) (- (2 ^ k)) = x - x mod 2 ^ k"
proof -
  have "push_bit k (drop_bit k x) = and x (not (mask k))"
    by (rule bit_eqI) (auto simp: bit_simps)
  moreover have "push_bit k (drop_bit k x) + take_bit k x = x"
    by (rule bits_ident)
  ultimately show ?thesis
    by (simp add: minus_exp_eq_not_mask take_bit_eq_mod)
qed

lemma and_u32_neg_exp:
  assumes "0 \<le> y" "y < 2 ^ 32"
  shows "and (u32 y) (u32 (- (2 ^ k))) = y - y mod 2 ^ k"
proof -
  have "and (u32 y) (u32 (- (2 ^ k))) = u32 (and y (- (2 ^ k)))"
    by (simp add: u32_take_bit)
  also have "\<dots> = u32 (y - y mod 2 ^ k)"
    by (simp only: and_neg_exp)
  also have "\<dots> = y - y mod 2 ^ k"
    using assms by (intro u32_id) (auto simp: zmod_le_nonneg_dividend intro: le_less_trans [rotated])
  finally show ?thesis .
qed

lemma ROUND_DOWN_exp:
  "0 \<le> x \<Longrightarrow> x < 2 ^ 32 \<Longrightarrow> ROUND_DOWN x (2 ^ k) = x - x mod 2 ^ k"
  by (simp add: ROUND_DOWN_def and_u32_neg_exp)

lemma ROUND_UP_exp:
  assumes "0 \<le> x" "x + 2 ^ k - 1 < 2 ^ 32"
  shows "ROUND_UP x (2 ^ k) = (x + 2 ^ k - 1) - (x + 2 ^ k - 1) mod 2 ^ k"
proof -
  have "0 \<le> x + 2 ^ k - 1"
    using assms(1) zero_less_power [of "2::int" k] by linarith
  then show ?thesis
    using assms(2) by (simp add: ROUND_UP_def and_u32_neg_exp)
qed

lemma ROUND_DOWN_bounds:
  assumes "0 \<le> x" "x < 2 ^ 32"
  shows "ROUND_DOWN x (2 ^ k) \<le> x" "x < ROUND_DOWN x (2 ^ k) + 2 ^ k"
    "0 \<le> ROUND_DOWN x (2 ^ k)" "2 ^ k dvd ROUND_DOWN x (2 ^ k)"
  using assms pos_mod_bound [of "2 ^ k" x]
  by (auto simp: ROUND_DOWN_exp zmod_le_nonneg_dividend dvd_minus_mod simp del: pos_mod_bound)

lemma ROUND_UP_bounds:
  assumes "0 \<le> x" "x + 2 ^ k - 1 < 2 ^ 32"
  shows "x \<le> ROUND_UP x (2 ^ k)" "ROUND_UP x (2 ^ k) < x + 2 ^ k"
    "2 ^ k dvd ROUND_UP x (2 ^ k)"
proof -
  have bounds: "(x + 2 ^ k - 1) mod 2 ^ k < 2 ^ k" "0 \<le> (x + 2 ^ k - 1) mod 2 ^ k"
    by simp_all
  show "x \<le> ROUND_UP x (2 ^ k)" "ROUND_UP x (2 ^ k) < x + 2 ^ k"
    unfolding ROUND_UP_exp [OF assms] using bounds by linarith+
  show "2 ^ k dvd ROUND_UP x (2 ^ k)"
    using assms by (simp add: ROUND_UP_exp dvd_minus_mod)
qed

lemmas ROUND_UP_4 = ROUND_UP_exp [where k = 2, simplified]
lemmas ROUND_UP_4_bounds = ROUND_UP_bounds [where k = 2, simplified]
lemmas ROUND_DOWN_4_bounds = ROUND_DOWN_bounds [where k = 2, simplified]
lemmas ROUND_UP_32_bounds = ROUND_UP_bounds [where k = 5, simplified]
lemmas ROUND_DOWN_32_bounds = ROUND_DOWN_bounds [where k = 5, simplified]

section \<open>The interrupt flag\<close>

text \<open>
  \<^verbatim>\<open>OSDisableInterrupts\<close> clears the external-interrupt bit and returns its old value;
  \<^verbatim>\<open>OSRestoreInterrupts\<close> writes a saved value back and returns the one it replaces.  The
  state records of the components that bracket their work with the two extend \<open>irq\<close>.
\<close>

record irq =
  irq_enabled :: bool

definition OSDisableInterrupts :: "'a irq_scheme \<Rightarrow> bool \<times> 'a irq_scheme" where
  "OSDisableInterrupts s = (irq_enabled s, s\<lparr>irq_enabled := False\<rparr>)"

definition OSRestoreInterrupts :: "bool \<Rightarrow> 'a irq_scheme \<Rightarrow> 'a irq_scheme" where
  "OSRestoreInterrupts enabled s = s\<lparr>irq_enabled := enabled\<rparr>"

lemma irq_bracket [simp]:
  "fst (OSDisableInterrupts s) = irq_enabled s"
  "irq_enabled (snd (OSDisableInterrupts s)) = False"
  "irq_enabled (OSRestoreInterrupts e s) = e"
  by (simp_all add: OSDisableInterrupts_def OSRestoreInterrupts_def)

section \<open>Lists and options\<close>

definition hd_opt :: "'a list \<Rightarrow> 'a option" where
  "hd_opt xs = (case xs of [] \<Rightarrow> None | x # _ \<Rightarrow> Some x)"

definition last_opt :: "'a list \<Rightarrow> 'a option" where
  "last_opt xs = (if xs = [] then None else Some (last xs))"

lemma hd_opt_simps [simp]: "hd_opt [] = None" "hd_opt (x # xs) = Some x"
  by (simp_all add: hd_opt_def)

lemma last_opt_simps [simp]: "last_opt [] = None" "last_opt (xs @ [x]) = Some x"
  by (simp_all add: last_opt_def)

lemma hd_opt_eq_None [simp]: "hd_opt xs = None \<longleftrightarrow> xs = []"
  by (cases xs) simp_all

lemma last_opt_eq_None [simp]: "last_opt xs = None \<longleftrightarrow> xs = []"
  by (simp add: last_opt_def)

lemma hd_opt_append: "hd_opt (xs @ ys) = (if xs = [] then hd_opt ys else hd_opt xs)"
  by (cases xs) simp_all

lemma last_opt_append: "last_opt (xs @ ys) = (if ys = [] then last_opt xs else last_opt ys)"
  by (simp add: last_opt_def)

lemma last_opt_Cons: "last_opt (x # xs) = (if xs = [] then Some x else last_opt xs)"
  by (simp add: last_opt_def)

lemma hd_opt_SomeD: "hd_opt xs = Some x \<Longrightarrow> \<exists>ys. xs = x # ys"
  by (cases xs) simp_all

end
