(* ===== verification/DList.thy ===== *)
theory DList
  imports Prelude
begin

text \<open>
  Intrusive doubly linked lists, as the SDK writes them over and over: objects carry
  \<^verbatim>\<open>next\<close> and \<^verbatim>\<open>prev\<close> pointers and a queue header carries \<^verbatim>\<open>head\<close> and
  \<^verbatim>\<open>tail\<close>.  A pair of link fields of a C struct is a \<open>links\<close> record of two
  functions, a header is a \<open>queue\<close> record.  The four fragments below are the ones that
  appear inline in \<^verbatim>\<open>OSThread.c\<close>, \<^verbatim>\<open>OSMutex.c\<close> and \<^verbatim>\<open>OSAlarm.c\<close>.

  \<open>dlist L q xs\<close> says that header \<open>q\<close> and links \<open>L\<close> represent the list \<open>xs\<close>.
  The lemmas give, for each fragment, the list it leaves and what it does not touch, and for
  the two traversal loops their value on a represented list.  The locale
  \<open>intrusive_list\<close> is the contract of such a list, proved here for the fragments and
  later for the SDK's other list modules.
\<close>

section \<open>Links, headers, fragments\<close>

record 'a links =
  lnext :: "'a \<Rightarrow> 'a option"
  lprev :: "'a \<Rightarrow> 'a option"

record 'a queue =
  qhead :: "'a option"
  qtail :: "'a option"

definition set_next :: "'a \<Rightarrow> 'a option \<Rightarrow> 'a links \<Rightarrow> 'a links" where
  "set_next x v L = L\<lparr>lnext := (lnext L)(x := v)\<rparr>"

definition set_prev :: "'a \<Rightarrow> 'a option \<Rightarrow> 'a links \<Rightarrow> 'a links" where
  "set_prev x v L = L\<lparr>lprev := (lprev L)(x := v)\<rparr>"

lemma set_next_sel [simp]:
  "lnext (set_next x v L) y = (if y = x then v else lnext L y)"
  "lprev (set_next x v L) y = lprev L y"
  by (simp_all add: set_next_def)

lemma set_prev_sel [simp]:
  "lprev (set_prev x v L) y = (if y = x then v else lprev L y)"
  "lnext (set_prev x v L) y = lnext L y"
  by (simp_all add: set_prev_def)

definition empty_queue :: "'a queue" where
  "empty_queue = \<lparr>qhead = None, qtail = None\<rparr>"

text \<open>Append at the tail: the fragment of \<^verbatim>\<open>SetRun\<close>, of the active list and of
  \<^verbatim>\<open>OSLockMutex\<close>.\<close>

definition q_append :: "'a \<Rightarrow> 'a links \<times> 'a queue \<Rightarrow> 'a links \<times> 'a queue" where
  "q_append x = (\<lambda>(L, q).
     let tail = qtail q;
         (L, q) = (case tail of None \<Rightarrow> (L, q\<lparr>qhead := Some x\<rparr>)
                   | Some t \<Rightarrow> (set_next t (Some x) L, q));
         L = set_prev x tail L;
         L = set_next x None L
     in (L, q\<lparr>qtail := Some x\<rparr>))"

text \<open>Unlink an element from wherever it stands.\<close>

definition q_unlink :: "'a \<Rightarrow> 'a links \<times> 'a queue \<Rightarrow> 'a links \<times> 'a queue" where
  "q_unlink x = (\<lambda>(L, q).
     let next = lnext L x;
         prev = lprev L x;
         (L, q) = (case next of None \<Rightarrow> (L, q\<lparr>qtail := prev\<rparr>)
                   | Some n \<Rightarrow> (set_prev n prev L, q))
     in (case prev of None \<Rightarrow> (L, q\<lparr>qhead := next\<rparr>)
         | Some p \<Rightarrow> (set_next p next L, q)))"

text \<open>Insert \<open>x\<close> in front of the element \<open>it\<close>.\<close>

definition q_insert_before ::
  "'a \<Rightarrow> 'a \<Rightarrow> 'a links \<times> 'a queue \<Rightarrow> 'a links \<times> 'a queue" where
  "q_insert_before it x = (\<lambda>(L, q).
     let L = set_next x (Some it) L;
         itPrev = lprev L it;
         L = set_prev it (Some x) L;
         L = set_prev x itPrev L
     in (case itPrev of None \<Rightarrow> (L, q\<lparr>qhead := Some x\<rparr>)
         | Some p \<Rightarrow> (set_next p (Some x) L, q)))"

text \<open>Drop the head \<open>h\<close> of a queue.\<close>

definition q_pop_head :: "'a \<Rightarrow> 'a links \<times> 'a queue \<Rightarrow> 'a links \<times> 'a queue" where
  "q_pop_head h = (\<lambda>(L, q).
     let next = lnext L h;
         (L, q) = (case next of None \<Rightarrow> (L, q\<lparr>qtail := None\<rparr>)
                   | Some n \<Rightarrow> (set_prev n None L, q))
     in (L, q\<lparr>qhead := next\<rparr>))"

section \<open>Traversal loops\<close>

text \<open>
  \<^verbatim>\<open>for (it = p; it != NULL && !stop(it); it = it->next) {}\<close>: the outer option is
  None when the loop never ends, the inner one is the final value of \<^verbatim>\<open>it\<close>.
\<close>

partial_function (option) seek ::
  "('a \<Rightarrow> 'a option) \<Rightarrow> ('a \<Rightarrow> bool) \<Rightarrow> 'a option \<Rightarrow> 'a option option" where
  "seek nx stop p = (case p of None \<Rightarrow> Some None
     | Some x \<Rightarrow> if stop x then Some (Some x) else seek nx stop (nx x))"

text \<open>
  A loop whose body updates an accumulator and may break out (second component True).
\<close>

partial_function (option) scan ::
  "('a \<Rightarrow> 'a option) \<Rightarrow> ('a \<Rightarrow> 'c \<Rightarrow> 'c \<times> bool) \<Rightarrow> 'a option \<Rightarrow> 'c \<Rightarrow> 'c option" where
  "scan nx body p acc = (case p of None \<Rightarrow> Some acc
     | Some x \<Rightarrow> (case body x acc of (acc', brk) \<Rightarrow>
         if brk then Some acc' else scan nx body (nx x) acc'))"

fun scan_list :: "('a \<Rightarrow> 'c \<Rightarrow> 'c \<times> bool) \<Rightarrow> 'a list \<Rightarrow> 'c \<Rightarrow> 'c" where
  "scan_list body [] acc = acc"
| "scan_list body (x # xs) acc =
     (case body x acc of (acc', brk) \<Rightarrow> if brk then acc' else scan_list body xs acc')"

section \<open>Represented lists\<close>

text \<open>
  \<open>dlseg L p b xs t n\<close>: from pointer \<open>p\<close>, whose predecessor is \<open>b\<close>, the elements
  \<open>xs\<close> are linked; the last one (or \<open>b\<close>) is \<open>t\<close> and the pointer after it is \<open>n\<close>.
\<close>

fun dlseg :: "'a links \<Rightarrow> 'a option \<Rightarrow> 'a option \<Rightarrow> 'a list \<Rightarrow> 'a option \<Rightarrow> 'a option \<Rightarrow> bool"
where
  "dlseg L p b [] t n \<longleftrightarrow> p = n \<and> t = b"
| "dlseg L p b (x # xs) t n \<longleftrightarrow>
     p = Some x \<and> lprev L x = b \<and> dlseg L (lnext L x) (Some x) xs t n"

definition dlist :: "'a links \<Rightarrow> 'a queue \<Rightarrow> 'a list \<Rightarrow> bool" where
  "dlist L q xs \<longleftrightarrow> distinct xs \<and> dlseg L (qhead q) None xs (qtail q) None"

lemma dlseg_append:
  "dlseg L p b (xs @ ys) t n \<longleftrightarrow> (\<exists>m c. dlseg L p b xs c m \<and> dlseg L m c ys t n)"
  by (induction xs arbitrary: p b) auto

lemma dlseg_last:
  "dlseg L p b xs t n \<Longrightarrow> t = (if xs = [] then b else Some (last xs))"
  by (induction xs arbitrary: p b) auto

lemma dlseg_first:
  "dlseg L p b xs t n \<Longrightarrow> p = (if xs = [] then n else Some (hd xs))"
  by (cases xs) auto

lemma dlseg_cong:
  assumes "\<And>x. x \<in> set xs \<Longrightarrow> lnext L' x = lnext L x \<and> lprev L' x = lprev L x"
  shows "dlseg L' p b xs t n = dlseg L p b xs t n"
  using assms by (induction xs arbitrary: p b) auto

lemma dlseg_set_next_frame [simp]:
  "x \<notin> set xs \<Longrightarrow> dlseg (set_next x v L) p b xs t n = dlseg L p b xs t n"
  by (rule dlseg_cong) auto

lemma dlseg_set_prev_frame [simp]:
  "x \<notin> set xs \<Longrightarrow> dlseg (set_prev x v L) p b xs t n = dlseg L p b xs t n"
  by (rule dlseg_cong) auto

text \<open>A segment in which the last link, or the first back link, is redirected.\<close>

lemma dlseg_set_last_next:
  "dlseg L p b (xs @ [x]) t n \<Longrightarrow> distinct (xs @ [x])
   \<Longrightarrow> dlseg (set_next x v L) p b (xs @ [x]) t v"
  by (auto simp: dlseg_append)

lemma dlseg_set_first_prev:
  "dlseg L p b (x # xs) t n \<Longrightarrow> x \<notin> set xs
   \<Longrightarrow> dlseg (set_prev x v L) p v (x # xs) t n"
  by simp

lemma dlist_distinct: "dlist L q xs \<Longrightarrow> distinct xs"
  by (simp add: dlist_def)

lemma dlist_head: "dlist L q xs \<Longrightarrow> qhead q = hd_opt xs"
  by (auto simp: dlist_def hd_opt_def dest: dlseg_first split: list.splits)

lemma dlist_tail: "dlist L q xs \<Longrightarrow> qtail q = last_opt xs"
  by (auto simp: dlist_def last_opt_def dest: dlseg_last)

lemma dlist_empty [simp]: "dlist L empty_queue []"
  by (simp add: dlist_def empty_queue_def)

lemma dlist_Nil: "dlist L q [] \<longleftrightarrow> qhead q = None \<and> qtail q = None"
  by (simp add: dlist_def)

lemma dlist_neighbours:
  assumes "dlist L q (us @ x # vs)"
  shows "lprev L x = last_opt us" "lnext L x = hd_opt vs"
  using assms
  by (auto simp: dlist_def dlseg_append last_opt_def dest: dlseg_last dlseg_first
      split: list.splits if_splits)
    (cases vs; auto dest: dlseg_first)+

lemma dlist_frame:
  assumes "dlist L r ys"
    and "\<And>y. y \<in> set ys \<Longrightarrow> lnext L' y = lnext L y \<and> lprev L' y = lprev L y"
  shows "dlist L' r ys"
  using assms dlseg_cong [of ys L' L] by (simp add: dlist_def)

lemma dlist_unique: "dlist L q xs \<Longrightarrow> dlist L q ys \<Longrightarrow> xs = ys"
proof -
  have "dlseg L p b xs t None \<Longrightarrow> dlseg L p b ys t None \<Longrightarrow> xs = ys" for p b t
  proof (induction xs arbitrary: p b ys)
    case Nil
    then show ?case by (cases ys) auto
  next
    case (Cons x xs)
    then show ?case by (cases ys) auto
  qed
  then show "dlist L q xs \<Longrightarrow> dlist L q ys \<Longrightarrow> xs = ys"
    by (auto simp: dlist_def)
qed

section \<open>The fragments on represented lists\<close>

lemma q_append_dlist:
  assumes q: "dlist L q xs" and x: "x \<notin> set xs" and res: "q_append x (L, q) = (L', q')"
  shows "dlist L' q' (xs @ [x])"
proof (cases xs rule: rev_cases)
  case Nil
  with q x res show ?thesis
    by (auto simp: q_append_def dlist_def Let_def)
next
  case (snoc ws w)
  then have "qtail q = Some w"
    using dlist_tail [OF q] by simp
  with q x res snoc show ?thesis
    by (auto simp: q_append_def dlist_def Let_def dlseg_append)
qed

lemma q_append_frame:
  assumes "dlist L q xs" "q_append x (L, q) = (L', q')" "y \<notin> set xs" "y \<noteq> x"
  shows "lnext L' y = lnext L y \<and> lprev L' y = lprev L y"
  using assms dlist_tail [OF assms(1)]
  by (auto simp: q_append_def Let_def last_opt_def split: option.splits if_splits)

lemma q_unlink_dlist:
  assumes q: "dlist L q (us @ x # vs)" and res: "q_unlink x (L, q) = (L', q')"
  shows "dlist L' q' (us @ vs)"
proof -
  from q have nb: "lprev L x = last_opt us" "lnext L x = hd_opt vs"
    by (rule dlist_neighbours)+
  have d: "distinct (us @ x # vs)"
    using q by (rule dlist_distinct)
  show ?thesis
  proof (cases us rule: rev_cases)
    case Nil
    then show ?thesis
      using q res nb d
      by (cases vs) (auto simp: q_unlink_def dlist_def Let_def)
  next
    case (snoc ws w)
    then show ?thesis
      using q res nb d
      by (cases vs) (auto simp: q_unlink_def dlist_def Let_def dlseg_append)
  qed
qed

lemma q_unlink_frame:
  assumes "dlist L q (us @ x # vs)" "q_unlink x (L, q) = (L', q')" "y \<notin> set (us @ x # vs)"
  shows "lnext L' y = lnext L y \<and> lprev L' y = lprev L y"
proof -
  from assms(1) have nb: "lprev L x = last_opt us" "lnext L x = hd_opt vs"
    by (rule dlist_neighbours)+
  then show ?thesis
    using assms(2,3)
    by (cases vs) (auto simp: q_unlink_def Let_def last_opt_def split: if_splits)
qed

lemma q_insert_before_dlist:
  assumes q: "dlist L q (us @ it # vs)" and x: "x \<notin> set (us @ it # vs)"
    and res: "q_insert_before it x (L, q) = (L', q')"
  shows "dlist L' q' (us @ x # it # vs)"
proof -
  from q have nb: "lprev L it = last_opt us"
    by (rule dlist_neighbours)
  have d: "distinct (us @ it # vs)"
    using q by (rule dlist_distinct)
  show ?thesis
  proof (cases us rule: rev_cases)
    case Nil
    then show ?thesis
      using q x res nb d by (auto simp: q_insert_before_def dlist_def Let_def)
  next
    case (snoc ws w)
    then show ?thesis
      using q x res nb d by (auto simp: q_insert_before_def dlist_def Let_def dlseg_append)
  qed
qed

lemma q_insert_before_frame:
  assumes "dlist L q (us @ it # vs)" "x \<notin> set (us @ it # vs)"
    "q_insert_before it x (L, q) = (L', q')" "y \<notin> set (us @ it # vs)" "y \<noteq> x"
  shows "lnext L' y = lnext L y \<and> lprev L' y = lprev L y"
proof -
  from assms(1) have "lprev L it = last_opt us"
    by (rule dlist_neighbours)
  then show ?thesis
    using assms(2-5)
    by (auto simp: q_insert_before_def Let_def last_opt_def split: if_splits)
qed

lemma q_pop_head_dlist:
  assumes q: "dlist L q (h # vs)" and res: "q_pop_head h (L, q) = (L', q')"
  shows "dlist L' q' vs"
proof -
  from q have "lnext L h = hd_opt vs"
    using dlist_neighbours(2) [of L q "[]" h vs] by simp
  then show ?thesis
    using q res by (cases vs) (auto simp: q_pop_head_def dlist_def Let_def)
qed

lemma q_pop_head_frame:
  assumes "dlist L q (h # vs)" "q_pop_head h (L, q) = (L', q')" "y \<notin> set vs"
  shows "lnext L' y = lnext L y \<and> lprev L' y = lprev L y"
proof -
  from assms(1) have "lnext L h = hd_opt vs"
    using dlist_neighbours(2) [of L q "[]" h vs] by simp
  then show ?thesis
    using assms(2,3) by (cases vs) (auto simp: q_pop_head_def Let_def)
qed

section \<open>The loops on represented lists\<close>

lemma seek_dlseg:
  "dlseg L p b xs t None \<Longrightarrow> seek (lnext L) stop p = Some (find stop xs)"
proof (induction xs arbitrary: p b)
  case Nil
  then show ?case by (simp add: seek.simps)
next
  case (Cons x xs)
  then show ?case by (auto simp: seek.simps [of _ _ "Some x"])
qed

lemma seek_dlist: "dlist L q xs \<Longrightarrow> seek (lnext L) stop (qhead q) = Some (find stop xs)"
  by (auto simp: dlist_def intro: seek_dlseg)

lemma scan_dlseg:
  "dlseg L p b xs t None \<Longrightarrow> scan (lnext L) body p acc = Some (scan_list body xs acc)"
proof (induction xs arbitrary: p b acc)
  case Nil
  then show ?case by (simp add: scan.simps)
next
  case (Cons x xs)
  then show ?case by (auto simp: scan.simps [of _ _ "Some x"] split: prod.splits)
qed

lemma scan_dlist:
  "dlist L q xs \<Longrightarrow> scan (lnext L) body (qhead q) acc = Some (scan_list body xs acc)"
  by (auto simp: dlist_def intro: scan_dlseg)

text \<open>A traversal from the tail along the back links.\<close>

lemma scan_dlseg_rev:
  "dlseg L p None xs t n \<Longrightarrow> scan (lprev L) body t acc = Some (scan_list body (rev xs) acc)"
proof (induction xs arbitrary: t n acc rule: rev_induct)
  case Nil
  then show ?case by (simp add: scan.simps)
next
  case (snoc x xs)
  then have t: "t = Some x" "dlseg L p None xs (lprev L x) (Some x)"
    by (auto simp: dlseg_append)
  show ?case
    unfolding t(1) using snoc.IH [OF t(2)] by (subst scan.simps) (auto split: prod.splits)
qed

lemma scan_dlist_rev:
  "dlist L q xs \<Longrightarrow> scan (lprev L) body (qtail q) acc = Some (scan_list body (rev xs) acc)"
  by (auto simp: dlist_def intro: scan_dlseg_rev)

lemma find_split:
  "find P xs = Some x \<longleftrightarrow> (\<exists>us vs. xs = us @ x # vs \<and> P x \<and> (\<forall>u \<in> set us. \<not> P u))"
proof (induction xs)
  case Nil
  then show ?case by simp
next
  case (Cons y ys)
  show ?case
  proof (cases "P y")
    case True
    then show ?thesis by (auto simp: Cons_eq_append_conv)
  next
    case False
    with Cons show ?thesis
      by (auto simp: Cons_eq_append_conv) (metis set_ConsD)
  qed
qed

lemma find_None_all: "find P xs = None \<longleftrightarrow> (\<forall>x \<in> set xs. \<not> P x)"
  by (induction xs) auto

section \<open>The contract of an intrusive list\<close>

text \<open>
  A list module lets its client add an element that is not in the list, remove one that is,
  and read the first.  \<open>rep s xs\<close> is the provider's representation predicate.
\<close>

locale intrusive_list =
  fixes rep :: "'s \<Rightarrow> 'a list \<Rightarrow> bool"
    and add :: "'a \<Rightarrow> 's \<Rightarrow> 's"
    and del :: "'a \<Rightarrow> 's \<Rightarrow> 's"
    and first :: "'s \<Rightarrow> 'a option"
  assumes rep_distinct: "rep s xs \<Longrightarrow> distinct xs"
    and rep_add: "rep s xs \<Longrightarrow> x \<notin> set xs \<Longrightarrow> rep (add x s) (xs @ [x])"
    and rep_del: "rep s (us @ x # vs) \<Longrightarrow> rep (del x s) (us @ vs)"
    and rep_first: "rep s xs \<Longrightarrow> first s = hd_opt xs"
begin

lemma rep_add_all:
  "rep s xs \<Longrightarrow> distinct ys \<Longrightarrow> set xs \<inter> set ys = {} \<Longrightarrow> rep (fold add ys s) (xs @ ys)"
proof (induction ys arbitrary: s xs)
  case Nil
  then show ?case by simp
next
  case (Cons y ys)
  then have "rep (add y s) (xs @ [y])"
    by (auto intro: rep_add)
  with Cons.IH [of "add y s" "xs @ [y]"] Cons.prems show ?case
    by auto
qed

lemma rep_del_mem: "rep s xs \<Longrightarrow> x \<in> set xs \<Longrightarrow> rep (del x s) (remove1 x xs)"
proof -
  assume rep: "rep s xs" and "x \<in> set xs"
  then obtain us vs where xs: "xs = us @ x # vs" "x \<notin> set us"
    using split_list_first by metis
  with rep rep_del [of s us x vs] show ?thesis
    by (simp add: remove1_append)
qed

lemma add_del_cancel: "rep s xs \<Longrightarrow> x \<notin> set xs \<Longrightarrow> rep (del x (add x s)) xs"
  using rep_del [of "add x s" xs x "[]"] rep_add [of s xs x] by simp

lemma rep_drain: "rep s xs \<Longrightarrow> rep (fold del xs s) []"
proof (induction xs arbitrary: s)
  case Nil
  then show ?case by simp
next
  case (Cons x xs)
  then show ?case
    using rep_del [of s "[]" x xs] by simp
qed

lemma first_in_order:
  assumes "rep s []" "distinct (x # ys)"
  shows "first (fold add (x # ys) s) = Some x"
    and "first (del x (fold add (x # ys) s)) = hd_opt ys"
proof -
  from assms have r: "rep (fold add (x # ys) s) (x # ys)"
    using rep_add_all [of s "[]" "x # ys"] by simp
  then show "first (fold add (x # ys) s) = Some x"
    using rep_first by fastforce
  from r have "rep (del x (fold add (x # ys) s)) ys"
    using rep_del [of _ "[]" x ys] by simp
  then show "first (del x (fold add (x # ys) s)) = hd_opt ys"
    by (rule rep_first)
qed

end

interpretation qfrag: intrusive_list
  "\<lambda>(L, q). dlist L q" q_append q_unlink "\<lambda>(L, q). qhead q"
proof
  show "(case s of (L, q) \<Rightarrow> dlist L q) xs \<Longrightarrow> distinct xs" for s and xs :: "'a list"
    by (auto dest: dlist_distinct)
  show "(case s of (L, q) \<Rightarrow> dlist L q) xs \<Longrightarrow> x \<notin> set xs
    \<Longrightarrow> (case q_append x s of (L, q) \<Rightarrow> dlist L q) (xs @ [x])" for s and xs :: "'a list" and x
    by (cases s; cases "q_append x s") (auto intro: q_append_dlist)
  show "(case s of (L, q) \<Rightarrow> dlist L q) (us @ x # vs)
    \<Longrightarrow> (case q_unlink x s of (L, q) \<Rightarrow> dlist L q) (us @ vs)" for s and us vs :: "'a list" and x
    by (cases s; cases "q_unlink x s") (auto intro: q_unlink_dlist)
  show "(case s of (L, q) \<Rightarrow> dlist L q) xs \<Longrightarrow> (case s of (L, q) \<Rightarrow> qhead q) = hd_opt xs"
    for s and xs :: "'a list"
    by (auto dest: dlist_head)
qed

end
