(* ===== verification/MemList.thy ===== *)
theory MemList
  imports DList
begin

text \<open>
  \<^verbatim>\<open>mem/mem_list.c\<close>: the MEM library's list.  Unlike the kernel's queues it keeps a
  16-bit length, and it finds the link of an object at a byte offset that the list itself
  records, so one object can stand in several lists.  Objects are addresses; \<open>nodes\<close>
  maps the address of a \<^verbatim>\<open>MEMLink\<close> to its contents.

  The lemmas show that append, remove and iteration implement the \<open>intrusive_list\<close>
  contract and that the length field counts the elements modulo \<open>2 ^ 16\<close>.
\<close>

record MEMLink =
  ml_prev :: "int option"
  ml_next :: "int option"

record MEMList =
  list_head :: "int option"
  list_tail :: "int option"
  list_length :: int
  list_offset :: int

type_synonym nodes = "int \<Rightarrow> MEMLink"

definition OBJECT_GET_NODE :: "MEMList \<Rightarrow> int \<Rightarrow> int" where
  "OBJECT_GET_NODE l obj = obj + list_offset l"

text \<open>Assignments to \<^verbatim>\<open>node->next\<close> and \<^verbatim>\<open>node->prev\<close>.\<close>

definition node_set_next :: "int \<Rightarrow> int option \<Rightarrow> nodes \<Rightarrow> nodes" where
  "node_set_next n v N = N(n := (N n)\<lparr>ml_next := v\<rparr>)"

definition node_set_prev :: "int \<Rightarrow> int option \<Rightarrow> nodes \<Rightarrow> nodes" where
  "node_set_prev n v N = N(n := (N n)\<lparr>ml_prev := v\<rparr>)"

definition MEMInitList :: "int \<Rightarrow> MEMList" where
  "MEMInitList offset =
     \<lparr>list_head = None, list_tail = None, list_length = 0, list_offset = u16 offset\<rparr>"

definition SetFirstObject :: "int \<Rightarrow> nodes \<times> MEMList \<Rightarrow> nodes \<times> MEMList" where
  "SetFirstObject obj = (\<lambda>(N, l).
     let node = OBJECT_GET_NODE l obj;
         N = node_set_next node None N;
         N = node_set_prev node None N
     in (N, l\<lparr>list_head := Some obj, list_tail := Some obj,
              list_length := u16 (list_length l + 1)\<rparr>))"

text \<open>The tail is dereferenced without a check: a list with a head has a tail (see
  \<open>memlist_rep\<close>), and \<open>the\<close> stands for that read.\<close>

definition MEMAppendListObject :: "int \<Rightarrow> nodes \<times> MEMList \<Rightarrow> nodes \<times> MEMList" where
  "MEMAppendListObject obj = (\<lambda>(N, l).
     if list_head l = None then SetFirstObject obj (N, l)
     else
       let node = OBJECT_GET_NODE l obj;
           N = node_set_prev node (list_tail l) N;
           N = node_set_next node None N;
           tail = OBJECT_GET_NODE l (the (list_tail l));
           N = node_set_next tail (Some obj) N
       in (N, l\<lparr>list_tail := Some obj, list_length := u16 (list_length l + 1)\<rparr>))"

definition MEMRemoveListObject :: "int \<Rightarrow> nodes \<times> MEMList \<Rightarrow> nodes \<times> MEMList" where
  "MEMRemoveListObject obj = (\<lambda>(N, l).
     let node = OBJECT_GET_NODE l obj;
         (N, l) = (case ml_prev (N node) of
             None \<Rightarrow> (N, l\<lparr>list_head := ml_next (N node)\<rparr>)
           | Some p \<Rightarrow> (let pn = OBJECT_GET_NODE l p
                       in (node_set_next pn (ml_next (N node)) N, l)));
         (N, l) = (case ml_next (N node) of
             None \<Rightarrow> (N, l\<lparr>list_tail := ml_prev (N node)\<rparr>)
           | Some n \<Rightarrow> (let nn = OBJECT_GET_NODE l n
                       in (node_set_prev nn (ml_prev (N node)) N, l)));
         N = node_set_prev node None N;
         N = node_set_next node None N
     in (N, l\<lparr>list_length := u16 (list_length l - 1)\<rparr>))"

definition MEMGetNextListObject :: "nodes \<Rightarrow> MEMList \<Rightarrow> int option \<Rightarrow> int option" where
  "MEMGetNextListObject N l obj =
     (case obj of None \<Rightarrow> list_head l | Some x \<Rightarrow> ml_next (N (OBJECT_GET_NODE l x)))"

section \<open>What a list represents\<close>

definition mem_links :: "int \<Rightarrow> nodes \<Rightarrow> int links" where
  "mem_links off N =
     \<lparr>lnext = (\<lambda>x. ml_next (N (x + off))), lprev = (\<lambda>x. ml_prev (N (x + off)))\<rparr>"

definition mem_queue :: "MEMList \<Rightarrow> int queue" where
  "mem_queue l = \<lparr>qhead = list_head l, qtail = list_tail l\<rparr>"

definition memlist_rep :: "nodes \<times> MEMList \<Rightarrow> int list \<Rightarrow> bool" where
  "memlist_rep = (\<lambda>(N, l) xs.
     dlist (mem_links (list_offset l) N) (mem_queue l) xs \<and> list_length l = u16 (int (length xs)))"

lemma u16_add_mod: "u16 (u16 x + y) = u16 (x + y)"
  by (simp add: u16_def mod_add_left_eq)

lemma u16_add_mod2: "u16 (y + u16 x) = u16 (y + x)"
  by (simp add: u16_def mod_add_right_eq)

lemma u16_diff_mod: "u16 (u16 x - y) = u16 (x - y)"
  by (simp add: u16_def mod_diff_left_eq)

lemma mem_links_sel [simp]:
  "lnext (mem_links off N) x = ml_next (N (x + off))"
  "lprev (mem_links off N) x = ml_prev (N (x + off))"
  by (simp_all add: mem_links_def)

lemma mem_queue_sel [simp]:
  "qhead (mem_queue l) = list_head l" "qtail (mem_queue l) = list_tail l"
  by (simp_all add: mem_queue_def)

lemma memlist_rep_dlist:
  "memlist_rep (N, l) xs \<Longrightarrow> dlist (mem_links (list_offset l) N) (mem_queue l) xs"
  by (simp add: memlist_rep_def)

lemma memlist_rep_length: "memlist_rep (N, l) xs \<Longrightarrow> list_length l = u16 (int (length xs))"
  by (simp add: memlist_rep_def)

lemma MEMInitList_rep: "memlist_rep (N, MEMInitList off) []"
  by (simp add: memlist_rep_def MEMInitList_def dlist_Nil u16_def)

lemma mem_links_set [simp]:
  "mem_links off (node_set_next (x + off) v N) = set_next x v (mem_links off N)"
  "mem_links off (node_set_prev (x + off) v N) = set_prev x v (mem_links off N)"
  by (auto simp: mem_links_def node_set_next_def node_set_prev_def set_next_def set_prev_def
      fun_eq_iff)

lemma node_sel [simp]:
  "ml_next (node_set_next n v N m) = (if m = n then v else ml_next (N m))"
  "ml_prev (node_set_next n v N m) = ml_prev (N m)"
  "ml_prev (node_set_prev n v N m) = (if m = n then v else ml_prev (N m))"
  "ml_next (node_set_prev n v N m) = ml_next (N m)"
  by (simp_all add: node_set_next_def node_set_prev_def)

text \<open>
  Append and remove are the kernel's fragments, seen through \<open>mem_links\<close>; remove also
  clears the links of the element it takes out.
\<close>

lemma MEMAppendListObject_links:
  assumes "memlist_rep (N, l) xs" "obj \<notin> set xs"
    "MEMAppendListObject obj (N, l) = (N', l')"
    "q_append obj (mem_links (list_offset l) N, mem_queue l) = (L, q)"
  shows "dlist (mem_links (list_offset l) N') (mem_queue l') zs = dlist L q zs"
    "list_offset l' = list_offset l" "list_length l' = u16 (list_length l + 1)"
proof -
  have d: "dlist (mem_links (list_offset l) N) (mem_queue l) xs"
    using assms(1) by (rule memlist_rep_dlist)
  have h: "list_head l = hd_opt xs" "list_tail l = last_opt xs"
    using dlist_head [OF d] dlist_tail [OF d] by simp_all
  have "lnext (mem_links (list_offset l) N') y = lnext L y \<and>
        lprev (mem_links (list_offset l) N') y = lprev L y \<and> mem_queue l' = q" for y
    using assms(2-4) h
    by (cases xs rule: rev_cases)
      (auto simp: MEMAppendListObject_def SetFirstObject_def OBJECT_GET_NODE_def q_append_def
        Let_def mem_queue_def hd_opt_append split: if_splits)
  then show "dlist (mem_links (list_offset l) N') (mem_queue l') zs = dlist L q zs"
    using dlist_frame by metis
  show "list_offset l' = list_offset l" "list_length l' = u16 (list_length l + 1)"
    using assms(3)
    by (auto simp: MEMAppendListObject_def SetFirstObject_def Let_def split: if_splits)
qed

lemma MEMAppendListObject_rep:
  assumes "memlist_rep s xs" "obj \<notin> set xs"
  shows "memlist_rep (MEMAppendListObject obj s) (xs @ [obj])"
proof -
  obtain N l where s: "s = (N, l)" by (cases s)
  obtain N' l' where r: "MEMAppendListObject obj (N, l) = (N', l')"
    by (cases "MEMAppendListObject obj (N, l)")
  obtain L q where a: "q_append obj (mem_links (list_offset l) N, mem_queue l) = (L, q)"
    by (cases "q_append obj (mem_links (list_offset l) N, mem_queue l)")
  have rep: "memlist_rep (N, l) xs" using assms(1) s by simp
  note eqs = MEMAppendListObject_links [OF rep assms(2) r a]
  have "dlist L q (xs @ [obj])"
    using q_append_dlist [OF memlist_rep_dlist [OF rep] assms(2) a] .
  then show ?thesis
    using r s eqs memlist_rep_length [OF rep]
    by (simp add: memlist_rep_def u16_add_mod2 add.commute [of _ 1])
qed

lemma MEMRemoveListObject_links:
  assumes "memlist_rep (N, l) (us @ obj # vs)"
    "MEMRemoveListObject obj (N, l) = (N', l')"
    "q_unlink obj (mem_links (list_offset l) N, mem_queue l) = (L, q)"
  shows "dlist (mem_links (list_offset l) N') (mem_queue l') (us @ vs) = dlist L q (us @ vs)"
    "list_offset l' = list_offset l" "list_length l' = u16 (list_length l - 1)"
proof -
  have d: "dlist (mem_links (list_offset l) N) (mem_queue l) (us @ obj # vs)"
    using assms(1) by (rule memlist_rep_dlist)
  have nb: "ml_prev (N (obj + list_offset l)) = last_opt us"
    "ml_next (N (obj + list_offset l)) = hd_opt vs"
    using dlist_neighbours [OF d] by simp_all
  have dist: "distinct (us @ obj # vs)"
    using d by (rule dlist_distinct)
  have "mem_queue l' = q"
    using assms(2,3) nb dist
    by (cases us rule: rev_cases; cases vs)
      (auto simp: MEMRemoveListObject_def OBJECT_GET_NODE_def q_unlink_def Let_def mem_queue_def)
  moreover have "lnext (mem_links (list_offset l) N') y = lnext L y \<and>
        lprev (mem_links (list_offset l) N') y = lprev L y" if "y \<in> set (us @ vs)" for y
    using assms(2,3) nb dist that
    by (cases us rule: rev_cases; cases vs)
      (auto simp: MEMRemoveListObject_def OBJECT_GET_NODE_def q_unlink_def Let_def)
  ultimately show "dlist (mem_links (list_offset l) N') (mem_queue l') (us @ vs) = dlist L q (us @ vs)"
    using dlist_frame by metis
  show "list_offset l' = list_offset l" "list_length l' = u16 (list_length l - 1)"
    using assms(2) nb
    by (auto simp: MEMRemoveListObject_def Let_def split: option.splits)
qed

lemma MEMRemoveListObject_rep:
  assumes "memlist_rep s (us @ obj # vs)"
  shows "memlist_rep (MEMRemoveListObject obj s) (us @ vs)"
proof -
  obtain N l where s: "s = (N, l)" by (cases s)
  obtain N' l' where r: "MEMRemoveListObject obj (N, l) = (N', l')"
    by (cases "MEMRemoveListObject obj (N, l)")
  obtain L q where a: "q_unlink obj (mem_links (list_offset l) N, mem_queue l) = (L, q)"
    by (cases "q_unlink obj (mem_links (list_offset l) N, mem_queue l)")
  have rep: "memlist_rep (N, l) (us @ obj # vs)" using assms s by simp
  note eqs = MEMRemoveListObject_links [OF rep r a]
  have "dlist L q (us @ vs)"
    using q_unlink_dlist [OF memlist_rep_dlist [OF rep] a] .
  then show ?thesis
    using r s eqs memlist_rep_length [OF rep]
    by (simp add: memlist_rep_def u16_diff_mod)
qed

lemma MEMGetNextListObject_rep:
  assumes "memlist_rep (N, l) (us @ x # vs)"
  shows "MEMGetNextListObject N l (Some x) = hd_opt vs"
    "MEMGetNextListObject N l None = hd_opt (us @ [x])"
  using dlist_neighbours(2) [OF memlist_rep_dlist [OF assms]]
    dlist_head [OF memlist_rep_dlist [OF assms]]
  by (auto simp: MEMGetNextListObject_def OBJECT_GET_NODE_def hd_opt_append)

interpretation memlist: intrusive_list memlist_rep MEMAppendListObject MEMRemoveListObject
  "\<lambda>(N, l). MEMGetNextListObject N l None"
proof
  show "memlist_rep s xs \<Longrightarrow> distinct xs" for s xs
    by (cases s) (auto dest: memlist_rep_dlist dlist_distinct)
  show "memlist_rep s xs \<Longrightarrow> x \<notin> set xs \<Longrightarrow> memlist_rep (MEMAppendListObject x s) (xs @ [x])"
    for s xs x
    by (rule MEMAppendListObject_rep)
  show "memlist_rep s (us @ x # vs) \<Longrightarrow> memlist_rep (MEMRemoveListObject x s) (us @ vs)"
    for s us x vs
    by (rule MEMRemoveListObject_rep)
  show "memlist_rep s xs \<Longrightarrow> (case s of (N, l) \<Rightarrow> MEMGetNextListObject N l None) = hd_opt xs"
    for s xs
    by (cases s) (use dlist_head memlist_rep_dlist in \<open>fastforce simp: MEMGetNextListObject_def\<close>)
qed

end
