(* ===== verification/Thread.thy ===== *)
theory Thread
  imports DList
begin

text \<open>
  \<^verbatim>\<open>os/OSThread.c\<close>, the scheduler: run queues, priorities, context switch, suspend and
  resume, sleep and wakeup.  The state is one \<open>kernel\<close> record, shared with the mutexes and
  the thread life cycle (theories \<open>Mutex\<close> and \<open>ThreadLife\<close>).

  A thread, a mutex and a thread queue are named by \<open>tid\<close>, \<open>mid\<close> and \<open>qid\<close> in
  place of their addresses.  Every function here runs with interrupts disabled from its first
  statement to its last, so one call is one step of the model, and the saved flag is not part
  of the state: it lives on the stack of the thread that is switched away.  A function that
  switches threads returns the state in which the chosen thread runs; what the caller does
  after that point happens when it is dispatched again, and is a separate definition where it
  is more than a return.
\<close>

section \<open>Data\<close>

type_synonym tid = nat
type_synonym mid = nat

datatype OSThreadState = EXITED | READY | RUNNING | SLEEPING | MORIBUND

text \<open>The address of an \<^verbatim>\<open>OSThreadQueue\<close>: \<^verbatim>\<open>&RunQueue[i]\<close>, a thread's
  \<^verbatim>\<open>joinQueue\<close>, a mutex's \<^verbatim>\<open>queue\<close>, the two queues of a message queue, or another.\<close>

datatype qid = RunQ int | JoinQ tid | MutexQ mid | SendQ nat | RecvQ nat | OtherQ nat

fun is_runq :: "qid \<Rightarrow> bool" where
  "is_runq (RunQ _) = True"
| "is_runq _ = False"

text \<open>The part of a context that thread creation fills in.\<close>

record OSContext =
  c_srr0 :: int
  c_srr1 :: int
  c_sp :: int
  c_lr :: int
  c_gpr3 :: int
  c_mode :: int
  c_state :: int
  c_fpscr :: int
  c_fprs :: "int list"
  c_psfs :: "int list"

record OSThread =
  t_context :: OSContext
  t_state :: OSThreadState
  t_flags :: int
  t_suspend :: int
  t_priority :: int
  t_base :: int
  t_val :: int
  t_queue :: "qid option"
  t_mutex :: "mid option"
  t_mutexQueue :: "mid queue"
  t_stackBegin :: int
  t_stackEnd :: int
  t_error :: int
  t_specific :: "int list"

record OSMutex =
  m_thread :: "tid option"
  m_lock :: int

text \<open>The context that is current: a thread's, the idle loop's or an exception handler's.\<close>

datatype ctx = ThreadCtx tid | IdleCtx | HandlerCtx

text \<open>
  \<open>qlinks\<close> holds the \<^verbatim>\<open>next\<close>/\<^verbatim>\<open>prev\<close> fields of the threads, \<open>alinks\<close> their
  \<^verbatim>\<open>nextActive\<close>/\<^verbatim>\<open>prevActive\<close>, \<open>mlinks\<close> the \<^verbatim>\<open>next\<close>/\<^verbatim>\<open>prev\<close> of the mutexes;
  \<open>active\<close> is \<^verbatim>\<open>OS_THREAD_QUEUE\<close>.  \<open>switch_cb\<close> is None for the default callback,
  which does nothing; \<open>switch_log\<close> lists the calls of a registered one, latest first.
\<close>

record kernel =
  threads :: "tid \<Rightarrow> OSThread"
  mutexes :: "mid \<Rightarrow> OSMutex"
  queues :: "qid \<Rightarrow> tid queue"
  qlinks :: "tid links"
  active :: "tid queue"
  alinks :: "tid links"
  mlinks :: "mid links"
  current :: "tid option"
  cur_ctx :: ctx
  Reschedule :: int
  RunQueueHint :: bool
  RunQueueBits :: "32 word"
  switch_cb :: "nat option"
  switch_log :: "(nat \<times> tid option \<times> tid option) list"
  kmem :: "int \<Rightarrow> int"
  fp_handler :: bool
  fpscr_enable :: int

definition OS_PRIORITY_MIN :: int where "OS_PRIORITY_MIN = 0"
definition OS_PRIORITY_MAX :: int where "OS_PRIORITY_MAX = 31"

definition upd :: "tid \<Rightarrow> (OSThread \<Rightarrow> OSThread) \<Rightarrow> kernel \<Rightarrow> kernel" where
  "upd t f s = s\<lparr>threads := (threads s)(t := f (threads s t))\<rparr>"

abbreviation set_state :: "tid \<Rightarrow> OSThreadState \<Rightarrow> kernel \<Rightarrow> kernel" where
  "set_state t v \<equiv> upd t (t_state_update (\<lambda>_. v))"

abbreviation set_priority :: "tid \<Rightarrow> int \<Rightarrow> kernel \<Rightarrow> kernel" where
  "set_priority t v \<equiv> upd t (t_priority_update (\<lambda>_. v))"

abbreviation set_queue :: "tid \<Rightarrow> qid option \<Rightarrow> kernel \<Rightarrow> kernel" where
  "set_queue t v \<equiv> upd t (t_queue_update (\<lambda>_. v))"

abbreviation set_suspend :: "tid \<Rightarrow> int \<Rightarrow> kernel \<Rightarrow> kernel" where
  "set_suspend t v \<equiv> upd t (t_suspend_update (\<lambda>_. v))"

abbreviation set_mutex :: "tid \<Rightarrow> mid option \<Rightarrow> kernel \<Rightarrow> kernel" where
  "set_mutex t v \<equiv> upd t (t_mutex_update (\<lambda>_. v))"

text \<open>Apply a list fragment to the threads' links and one queue header.\<close>

definition on_queue ::
  "(tid links \<times> tid queue \<Rightarrow> tid links \<times> tid queue) \<Rightarrow> qid \<Rightarrow> kernel \<Rightarrow> kernel" where
  "on_queue f q s = (case f (qlinks s, queues s q) of
     (L, qq) \<Rightarrow> s\<lparr>qlinks := L, queues := (queues s)(q := qq)\<rparr>)"

definition OSInitThreadQueue :: "qid \<Rightarrow> kernel \<Rightarrow> kernel" where
  "OSInitThreadQueue q s = s\<lparr>queues := (queues s)(q := empty_queue)\<rparr>"

definition OSInitMutexQueue :: "tid \<Rightarrow> kernel \<Rightarrow> kernel" where
  "OSInitMutexQueue t = upd t (t_mutexQueue_update (\<lambda>_. empty_queue))"

section \<open>Callback, current thread, scheduler lock\<close>

definition OSSetSwitchThreadCallback :: "nat option \<Rightarrow> kernel \<Rightarrow> nat option \<times> kernel" where
  "OSSetSwitchThreadCallback newCb s = (switch_cb s, s\<lparr>switch_cb := newCb\<rparr>)"

definition OSGetCurrentThread :: "kernel \<Rightarrow> tid option" where
  "OSGetCurrentThread s = current s"

definition OSSetCurrentThread :: "tid option \<Rightarrow> kernel \<Rightarrow> kernel" where
  "OSSetCurrentThread t s =
     (let s = (case switch_cb s of None \<Rightarrow> s
               | Some cb \<Rightarrow> s\<lparr>switch_log := (cb, OSGetCurrentThread s, t) # switch_log s\<rparr>)
      in s\<lparr>current := t\<rparr>)"

definition OSSwitchThread :: "tid \<Rightarrow> kernel \<Rightarrow> kernel" where
  "OSSwitchThread t s = (OSSetCurrentThread (Some t) s)\<lparr>cur_ctx := ThreadCtx t\<rparr>"

definition OSIsThreadTerminated :: "tid \<Rightarrow> kernel \<Rightarrow> bool" where
  "OSIsThreadTerminated t s \<longleftrightarrow>
     t_state (threads s t) = MORIBUND \<or> t_state (threads s t) = EXITED"

definition OSIsThreadActive :: "tid \<Rightarrow> kernel \<Rightarrow> bool option" where
  "OSIsThreadActive t s =
     (if t_state (threads s t) = EXITED then Some False
      else map_option (\<lambda>r. r \<noteq> None) (seek (lnext (alinks s)) (\<lambda>it. t = it) (qhead (active s))))"

definition OSDisableScheduler :: "kernel \<Rightarrow> int \<times> kernel" where
  "OSDisableScheduler s = (Reschedule s, s\<lparr>Reschedule := s32 (Reschedule s + 1)\<rparr>)"

definition OSEnableScheduler :: "kernel \<Rightarrow> int \<times> kernel" where
  "OSEnableScheduler s = (Reschedule s, s\<lparr>Reschedule := s32 (Reschedule s - 1)\<rparr>)"

section \<open>Run queues and priorities\<close>

definition prio_bit :: "int \<Rightarrow> 32 word" where
  "prio_bit p = push_bit (nat (OS_PRIORITY_MAX - p)) 1"

text \<open>The PowerPC instruction: the number of zero bits above the highest set bit.\<close>

definition cntlzw :: "32 word \<Rightarrow> int" where
  "cntlzw w = (case find (\<lambda>i. bit w (31 - i)) [0..<32] of None \<Rightarrow> 32 | Some i \<Rightarrow> int i)"

definition SetRun :: "tid \<Rightarrow> kernel \<Rightarrow> kernel" where
  "SetRun t s =
     (let p = t_priority (threads s t);
          s = set_queue t (Some (RunQ p)) s;
          s = on_queue (q_append t) (RunQ p) s
      in s\<lparr>RunQueueBits := or (RunQueueBits s) (prio_bit p), RunQueueHint := True\<rparr>)"

definition UnsetRun :: "tid \<Rightarrow> kernel \<Rightarrow> kernel option" where
  "UnsetRun t s = (case t_queue (threads s t) of None \<Rightarrow> None
     | Some q \<Rightarrow>
        (let s = on_queue (q_unlink t) q s;
             s = (if qhead (queues s q) = None
                  then s\<lparr>RunQueueBits :=
                         and (RunQueueBits s) (not (prio_bit (t_priority (threads s t))))\<rparr>
                  else s)
         in Some (set_queue t None s)))"

definition OSGetEffectivePriority :: "tid \<Rightarrow> kernel \<Rightarrow> int option" where
  "OSGetEffectivePriority t s =
     scan (lnext (mlinks s))
       (\<lambda>m prio. case qhead (queues s (MutexQ m)) of None \<Rightarrow> (prio, False)
          | Some w \<Rightarrow> (if t_priority (threads s w) < prio then t_priority (threads s w) else prio,
                       False))
       (qhead (t_mutexQueue (threads s t))) (t_base (threads s t))"

text \<open>
  Insertion into a wait queue behind every thread of the same or a higher priority, the loop
  and two branches that \<^verbatim>\<open>SetEffectivePriority\<close>, \<^verbatim>\<open>OSResumeThread\<close> and
  \<^verbatim>\<open>OSSleepThread\<close> each spell out.
\<close>

definition insert_by_priority :: "tid \<Rightarrow> qid \<Rightarrow> kernel \<Rightarrow> kernel option" where
  "insert_by_priority t q s =
     (case seek (lnext (qlinks s))
             (\<lambda>it. \<not> t_priority (threads s it) \<le> t_priority (threads s t)) (qhead (queues s q)) of
        None \<Rightarrow> None
      | Some None \<Rightarrow> Some (on_queue (q_append t) q s)
      | Some (Some it) \<Rightarrow> Some (on_queue (q_insert_before it t) q s))"

text \<open>The result is the owner of the mutex the thread waits for, whose priority may change
  too.\<close>

definition SetEffectivePriority :: "tid \<Rightarrow> int \<Rightarrow> kernel \<Rightarrow> (tid option \<times> kernel) option" where
  "SetEffectivePriority t prio s =
     (case t_state (threads s t) of
        READY \<Rightarrow> do {
          s \<leftarrow> UnsetRun t s;
          let s = set_priority t prio s;
          let s = set_queue t (Some (RunQ prio)) s;
          Some (None, SetRun t s)
        }
      | SLEEPING \<Rightarrow> do {
          q \<leftarrow> t_queue (threads s t);
          let s = on_queue (q_unlink t) q s;
          let s = set_priority t prio s;
          s \<leftarrow> insert_by_priority t q s;
          Some (case t_mutex (threads s t) of None \<Rightarrow> None
                | Some m \<Rightarrow> m_thread (mutexes s m), s)
        }
      | RUNNING \<Rightarrow> Some (None, set_priority t prio (s\<lparr>RunQueueHint := True\<rparr>))
      | _ \<Rightarrow> Some (None, s))"

partial_function (option) UpdatePriority :: "tid \<Rightarrow> kernel \<Rightarrow> kernel option" where
  "UpdatePriority t s =
     (if t_suspend (threads s t) > 0 then Some s
      else do {
        prio \<leftarrow> OSGetEffectivePriority t s;
        if t_priority (threads s t) = prio then Some s
        else do {
          r \<leftarrow> SetEffectivePriority t prio s;
          (case fst r of None \<Rightarrow> Some (snd r) | Some t' \<Rightarrow> UpdatePriority t' (snd r))
        }
      })"

partial_function (option) OSPromoteThread :: "tid \<Rightarrow> int \<Rightarrow> kernel \<Rightarrow> kernel option" where
  "OSPromoteThread t prio s =
     (if t_suspend (threads s t) > 0 then Some s
      else if t_priority (threads s t) \<le> prio then Some s
      else do {
        r \<leftarrow> SetEffectivePriority t prio s;
        (case fst r of None \<Rightarrow> Some (snd r) | Some t' \<Rightarrow> OSPromoteThread t' prio (snd r))
      })"

text \<open>\<^verbatim>\<open>UpdatePriority(thread->mutex->thread)\<close>, where the owner is dereferenced.\<close>

definition UpdateOwner :: "tid \<Rightarrow> kernel \<Rightarrow> kernel option" where
  "UpdateOwner t s = (case t_mutex (threads s t) of None \<Rightarrow> Some s
     | Some m \<Rightarrow> (case m_thread (mutexes s m) of None \<Rightarrow> None | Some owner \<Rightarrow> UpdatePriority owner s))"

section \<open>Choosing the next thread\<close>

text \<open>The end of \<^verbatim>\<open>SelectThread\<close>, from \<^verbatim>\<open>RunQueueHint = FALSE\<close> on.\<close>

definition Dispatch :: "kernel \<Rightarrow> kernel option" where
  "Dispatch s =
     (let s = s\<lparr>RunQueueHint := False\<rparr>;
          prio = cntlzw (RunQueueBits s);
          q = RunQ prio
      in case qhead (queues s q) of None \<Rightarrow> None
         | Some h \<Rightarrow>
            (let next = lnext (qlinks s) h;
                 s = on_queue (q_pop_head h) q s;
                 s = (if next = None
                      then s\<lparr>RunQueueBits := and (RunQueueBits s) (not (prio_bit prio))\<rparr>
                      else s);
                 s = set_queue h None s;
                 s = set_state h RUNNING s
             in Some (OSSwitchThread h s)))"

text \<open>
  With no thread ready \<^verbatim>\<open>SelectThread\<close> runs its idle loop: it waits with interrupts
  enabled until a handler has set a bit.  The model stops in the idle state, and
  \<open>IdleLoop\<close> is one round of that loop.
\<close>

definition SelectThread :: "bool \<Rightarrow> kernel \<Rightarrow> kernel option" where
  "SelectThread b s =
     (if Reschedule s > 0 then Some s
      else case OSGetCurrentThread s of
        None \<Rightarrow> Some s
      | Some t \<Rightarrow>
         if cur_ctx s \<noteq> ThreadCtx t then Some s
         else if t_state (threads s t) = RUNNING \<and> \<not> b
              \<and> t_priority (threads s t) \<le> cntlzw (RunQueueBits s) then Some s
         else
           let s = (if t_state (threads s t) = RUNNING then SetRun t (set_state t READY s) else s)
           in if RunQueueBits s = 0
              then Some ((OSSetCurrentThread None s)\<lparr>cur_ctx := IdleCtx\<rparr>)
              else Dispatch s)"

definition IdleLoop :: "kernel \<Rightarrow> kernel option" where
  "IdleLoop s = (if RunQueueBits s = 0 then Some s else Dispatch s)"

definition OSReschedule :: "kernel \<Rightarrow> kernel option" where
  "OSReschedule s = (if RunQueueHint s then SelectThread False s else Some s)"

definition OSYieldThread :: "kernel \<Rightarrow> kernel option" where
  "OSYieldThread s = SelectThread True s"

section \<open>Suspend, resume, sleep, wakeup\<close>

definition OSResumeThread :: "tid \<Rightarrow> kernel \<Rightarrow> (int \<times> kernel) option" where
  "OSResumeThread t s =
     (let suspend = t_suspend (threads s t);
          s = set_suspend t (s32 (suspend - 1)) s
      in if t_suspend (threads s t) < 0 then Some (suspend, set_suspend t 0 s)
         else if t_suspend (threads s t) = 0 then do {
           s \<leftarrow> (case t_state (threads s t) of
               READY \<Rightarrow> do {
                 p \<leftarrow> OSGetEffectivePriority t s;
                 Some (SetRun t (set_priority t p s))
               }
             | SLEEPING \<Rightarrow> do {
                 q \<leftarrow> t_queue (threads s t);
                 let s = on_queue (q_unlink t) q s;
                 p \<leftarrow> OSGetEffectivePriority t s;
                 let s = set_priority t p s;
                 s \<leftarrow> insert_by_priority t q s;
                 UpdateOwner t s
               }
             | _ \<Rightarrow> Some s);
           s \<leftarrow> OSReschedule s;
           Some (suspend, s)
         }
         else Some (suspend, s))"

definition OSSuspendThread :: "tid \<Rightarrow> kernel \<Rightarrow> (int \<times> kernel) option" where
  "OSSuspendThread t s =
     (let suspend = t_suspend (threads s t);
          s = set_suspend t (s32 (suspend + 1)) s
      in if suspend = 0 then do {
           s \<leftarrow> (case t_state (threads s t) of
               RUNNING \<Rightarrow> Some (set_state t READY (s\<lparr>RunQueueHint := True\<rparr>))
             | READY \<Rightarrow> UnsetRun t s
             | SLEEPING \<Rightarrow> do {
                 q \<leftarrow> t_queue (threads s t);
                 let s = on_queue (q_unlink t) q s;
                 let s = set_priority t (OS_PRIORITY_MAX + 1) s;
                 let s = on_queue (q_append t) q s;
                 UpdateOwner t s
               }
             | _ \<Rightarrow> Some s);
           s \<leftarrow> OSReschedule s;
           Some (suspend, s)
         }
         else Some (suspend, s))"

definition OSSleepThread :: "qid \<Rightarrow> kernel \<Rightarrow> kernel option" where
  "OSSleepThread q s = do {
     t \<leftarrow> OSGetCurrentThread s;
     let s = set_state t SLEEPING s;
     let s = set_queue t (Some q) s;
     s \<leftarrow> insert_by_priority t q s;
     OSReschedule (s\<lparr>RunQueueHint := True\<rparr>)
   }"

partial_function (option) wakeup_loop :: "qid \<Rightarrow> kernel \<Rightarrow> kernel option" where
  "wakeup_loop q s = (case qhead (queues s q) of None \<Rightarrow> Some s
     | Some h \<Rightarrow>
        (let s = on_queue (q_pop_head h) q s;
             s = set_state h READY s;
             s = (if t_suspend (threads s h) \<le> 0 then SetRun h s else s)
         in wakeup_loop q s))"

definition OSWakeupThread :: "qid \<Rightarrow> kernel \<Rightarrow> kernel option" where
  "OSWakeupThread q s = do { s \<leftarrow> wakeup_loop q s; OSReschedule s }"

definition OSSetThreadPriority :: "tid \<Rightarrow> int \<Rightarrow> kernel \<Rightarrow> (bool \<times> kernel) option" where
  "OSSetThreadPriority t prio s =
     (if prio < OS_PRIORITY_MIN \<or> prio > OS_PRIORITY_MAX then Some (False, s)
      else if t_base (threads s t) \<noteq> prio then do {
        s \<leftarrow> UpdatePriority t (upd t (t_base_update (\<lambda>_. prio)) s);
        s \<leftarrow> OSReschedule s;
        Some (True, s)
      }
      else Some (True, s))"

end
