(* ===== verification/ThreadInv.thy ===== *)
theory ThreadInv
  imports Thread
begin

text \<open>
  The scheduler invariant and what each building block of \<open>Thread\<close> does to it.
  \<open>sched_inv X s Q\<close> says that the linked run and wait queues of \<open>s\<close> represent the lists
  \<open>Q\<close>, and how the lists agree with the threads' fields and with \<^verbatim>\<open>RunQueueBits\<close>; the
  threads in \<open>X\<close> are in transit between two queues in the middle of an operation.
\<close>

section \<open>Field access\<close>

lemma upd_sel [simp]:
  "threads (upd t f s) u = (if u = t then f (threads s t) else threads s u)"
  "mutexes (upd t f s) = mutexes s" "queues (upd t f s) = queues s"
  "qlinks (upd t f s) = qlinks s" "active (upd t f s) = active s"
  "alinks (upd t f s) = alinks s" "mlinks (upd t f s) = mlinks s"
  "current (upd t f s) = current s" "cur_ctx (upd t f s) = cur_ctx s"
  "Reschedule (upd t f s) = Reschedule s" "RunQueueHint (upd t f s) = RunQueueHint s"
  "RunQueueBits (upd t f s) = RunQueueBits s" "switch_cb (upd t f s) = switch_cb s"
  by (simp_all add: upd_def)

lemma on_queue_sel [simp]:
  "threads (on_queue f q s) = threads s" "mutexes (on_queue f q s) = mutexes s"
  "active (on_queue f q s) = active s" "alinks (on_queue f q s) = alinks s"
  "mlinks (on_queue f q s) = mlinks s" "current (on_queue f q s) = current s"
  "cur_ctx (on_queue f q s) = cur_ctx s" "Reschedule (on_queue f q s) = Reschedule s"
  "RunQueueHint (on_queue f q s) = RunQueueHint s"
  "RunQueueBits (on_queue f q s) = RunQueueBits s" "switch_cb (on_queue f q s) = switch_cb s"
  by (simp_all add: on_queue_def split: prod.splits)

lemma on_queue_links:
  assumes "f (qlinks s, queues s q) = (L, qq)"
  shows "qlinks (on_queue f q s) = L"
    "queues (on_queue f q s) r = (if r = q then qq else queues s r)"
  using assms by (simp_all add: on_queue_def)

section \<open>Queues represent lists\<close>

definition queues_ok :: "kernel \<Rightarrow> (qid \<Rightarrow> tid list) \<Rightarrow> bool" where
  "queues_ok s Q \<longleftrightarrow>
     (\<forall>q. dlist (qlinks s) (queues s q) (Q q)) \<and>
     (\<forall>q. \<forall>t \<in> set (Q q). t_queue (threads s t) = Some q)"

lemma queues_okD:
  "queues_ok s Q \<Longrightarrow> dlist (qlinks s) (queues s q) (Q q)"
  "queues_ok s Q \<Longrightarrow> t \<in> set (Q q) \<Longrightarrow> t_queue (threads s t) = Some q"
  by (auto simp: queues_ok_def)

lemma queues_ok_unique: "queues_ok s Q \<Longrightarrow> t \<in> set (Q q) \<Longrightarrow> t \<in> set (Q r) \<Longrightarrow> q = r"
  by (metis queues_okD(2) option.inject)

lemma queues_ok_distinct: "queues_ok s Q \<Longrightarrow> distinct (Q q)"
  using queues_okD(1) dlist_distinct by blast

lemma queues_ok_head: "queues_ok s Q \<Longrightarrow> qhead (queues s q) = hd_opt (Q q)"
  using queues_okD(1) dlist_head by blast

lemma queues_ok_cong:
  assumes "queues_ok s Q" "qlinks s' = qlinks s" "queues s' = queues s"
    "\<And>t q. t \<in> set (Q q) \<Longrightarrow> t_queue (threads s' t) = t_queue (threads s t)"
  shows "queues_ok s' Q"
  using assms by (auto simp: queues_ok_def)

text \<open>One rule for the four fragments: they act on one queue and on its elements' links.\<close>

lemma queues_ok_fragment:
  assumes ok: "queues_ok s Q"
    and f: "f (qlinks s, queues s q) = (L, qq)"
    and here: "dlist L qq ys"
    and frame: "\<And>y. y \<notin> set (Q q) \<Longrightarrow> y \<notin> set ys
      \<Longrightarrow> lnext L y = lnext (qlinks s) y \<and> lprev L y = lprev (qlinks s) y"
    and new: "\<And>y. y \<in> set ys \<Longrightarrow> t_queue (threads s y) = Some q"
    and free: "\<And>y r. y \<in> set ys \<Longrightarrow> y \<in> set (Q r) \<Longrightarrow> q = r"
  shows "queues_ok (on_queue f q s) (Q(q := ys))"
proof -
  have "dlist L (queues s r) (Q r)" if "r \<noteq> q" for r
  proof (rule dlist_frame [OF queues_okD(1) [OF ok]])
    fix y
    assume "y \<in> set (Q r)"
    then have "y \<notin> set (Q q)" "y \<notin> set ys"
      using that queues_ok_unique [OF ok] free by blast+
    then show "lnext L y = lnext (qlinks s) y \<and> lprev L y = lprev (qlinks s) y"
      by (rule frame)
  qed
  then show ?thesis
    using here new queues_okD(2) [OF ok] on_queue_links [where f = f, OF f]
    by (auto simp: queues_ok_def)
qed

lemma queues_ok_append:
  assumes ok: "queues_ok s Q" and t: "t_queue (threads s t) = Some q" "\<And>r. t \<notin> set (Q r)"
  shows "queues_ok (on_queue (q_append t) q s) (Q(q := Q q @ [t]))"
proof -
  obtain L qq where f: "q_append t (qlinks s, queues s q) = (L, qq)"
    by (cases "q_append t (qlinks s, queues s q)")
  note d = queues_okD(1) [OF ok, of q]
  show ?thesis
    by (rule queues_ok_fragment [where f = "q_append t", OF ok f q_append_dlist [OF d t(2) f]])
      (use q_append_frame [OF d f] t queues_okD(2) [OF ok] queues_ok_unique [OF ok] in auto)
qed

lemma queues_ok_unlink:
  assumes ok: "queues_ok s Q" and q: "Q q = us @ t # vs"
  shows "queues_ok (on_queue (q_unlink t) q s) (Q(q := us @ vs))"
proof -
  obtain L qq where f: "q_unlink t (qlinks s, queues s q) = (L, qq)"
    by (cases "q_unlink t (qlinks s, queues s q)")
  have d: "dlist (qlinks s) (queues s q) (us @ t # vs)"
    using queues_okD(1) [OF ok, of q] q by simp
  show ?thesis
    by (rule queues_ok_fragment [where f = "q_unlink t", OF ok f q_unlink_dlist [OF d f]])
      (use q_unlink_frame [OF d f] q queues_okD(2) [OF ok, of _ q]
         queues_ok_unique [OF ok, of _ q] in auto)
qed

lemma queues_ok_pop:
  assumes ok: "queues_ok s Q" and q: "Q q = t # vs"
  shows "queues_ok (on_queue (q_pop_head t) q s) (Q(q := vs))"
proof -
  obtain L qq where f: "q_pop_head t (qlinks s, queues s q) = (L, qq)"
    by (cases "q_pop_head t (qlinks s, queues s q)")
  have d: "dlist (qlinks s) (queues s q) (t # vs)"
    using queues_okD(1) [OF ok, of q] q by simp
  show ?thesis
    by (rule queues_ok_fragment [where f = "q_pop_head t", OF ok f q_pop_head_dlist [OF d f]])
      (use q_pop_head_frame [OF d f] q queues_okD(2) [OF ok, of _ q]
         queues_ok_unique [OF ok, of _ q] in auto)
qed

text \<open>Insertion by priority puts the thread behind everyone who is not less urgent.\<close>

definition prio_insert :: "kernel \<Rightarrow> tid \<Rightarrow> tid list \<Rightarrow> tid list" where
  "prio_insert s t xs =
     takeWhile (\<lambda>x. t_priority (threads s x) \<le> t_priority (threads s t)) xs @ t #
     dropWhile (\<lambda>x. t_priority (threads s x) \<le> t_priority (threads s t)) xs"

lemma set_prio_insert [simp]: "set (prio_insert s t xs) = insert t (set xs)"
  unfolding prio_insert_def using takeWhile_dropWhile_id [of _ xs]
  by (metis (no_types, lifting) Un_insert_right list.simps(15) set_append)

lemma insert_by_priority_ok:
  assumes ok: "queues_ok s Q" and t: "t_queue (threads s t) = Some q" "\<And>r. t \<notin> set (Q r)"
  obtains s' where "insert_by_priority t q s = Some s'"
    "queues_ok s' (Q(q := prio_insert s t (Q q)))"
    "\<exists>f. s' = on_queue f q s"
proof -
  let ?P = "\<lambda>x. t_priority (threads s x) \<le> t_priority (threads s t)"
  note d = queues_okD(1) [OF ok, of q]
  have seek: "seek (lnext (qlinks s)) (\<lambda>it. \<not> ?P it) (qhead (queues s q)) =
      Some (find (\<lambda>it. \<not> ?P it) (Q q))"
    by (rule seek_dlist [OF d])
  show thesis
  proof (cases "find (\<lambda>it. \<not> ?P it) (Q q)")
    case None
    then have "prio_insert s t (Q q) = Q q @ [t]"
      unfolding prio_insert_def find_None_all by (simp add: takeWhile_eq_all_conv [THEN iffD2] dropWhile_eq_Nil_conv [THEN iffD2])
    then show thesis
      using queues_ok_append [OF ok t] seek None
      by (intro that [of "on_queue (q_append t) q s"]) (auto simp: insert_by_priority_def)
  next
    case (Some it)
    then obtain us vs where q: "Q q = us @ it # vs" "\<not> ?P it" "\<forall>u \<in> set us. ?P u"
      unfolding find_split by auto
    then have ins: "prio_insert s t (Q q) = us @ t # it # vs"
      by (simp add: prio_insert_def takeWhile_append dropWhile_append)
    obtain L qq where f: "q_insert_before it t (qlinks s, queues s q) = (L, qq)"
      by (cases "q_insert_before it t (qlinks s, queues s q)")
    have d': "dlist (qlinks s) (queues s q) (us @ it # vs)" and nt: "t \<notin> set (us @ it # vs)"
      using d q t(2) [of q] by simp_all
    have free: "q = r" if "y \<in> set (us @ t # it # vs)" "y \<in> set (Q r)" for y r
      using that t(2) [of r] queues_ok_unique [OF ok, of y q r] q(1) by auto
    have frame: "lnext L y = lnext (qlinks s) y \<and> lprev L y = lprev (qlinks s) y"
      if "y \<notin> set (Q q)" "y \<notin> set (us @ t # it # vs)" for y
      using q_insert_before_frame [OF d' nt f, of y] that by simp
    have new: "t_queue (threads s y) = Some q" if "y \<in> set (us @ t # it # vs)" for y
      using that t(1) queues_okD(2) [OF ok, of y q] q(1) by auto
    have "queues_ok (on_queue (q_insert_before it t) q s) (Q(q := us @ t # it # vs))"
      by (rule queues_ok_fragment [where f = "q_insert_before it t",
            OF ok f q_insert_before_dlist [OF d' nt f] frame new free])
    then show thesis
      using seek Some ins
      by (intro that [of "on_queue (q_insert_before it t) q s"]) (auto simp: insert_by_priority_def)
  qed
qed

lemma sorted_prio_insert:
  "sorted (map (\<lambda>x. t_priority (threads s x)) xs)
   \<Longrightarrow> sorted (map (\<lambda>x. t_priority (threads s x)) (prio_insert s t xs))"
proof (induction xs)
  case Nil
  then show ?case by (simp add: prio_insert_def)
next
  case (Cons x xs)
  show ?case
  proof (cases "t_priority (threads s x) \<le> t_priority (threads s t)")
    case True
    then have "prio_insert s t (x # xs) = x # prio_insert s t xs"
      by (simp add: prio_insert_def)
    with True Cons show ?thesis by auto
  next
    case False
    with Cons.prems show ?thesis by (force simp: prio_insert_def)
  qed
qed


section \<open>The run-queue bit mask\<close>

lemma bit_prio_bit:
  assumes "0 \<le> p" "p \<le> 31" "0 \<le> r" "r \<le> 31"
  shows "bit (prio_bit p) (nat (31 - r)) \<longleftrightarrow> r = p"
proof -
  have "bit (prio_bit p) (nat (31 - r)) \<longleftrightarrow> nat (31 - r) = nat (31 - p)"
    using assms by (auto simp: prio_bit_def OS_PRIORITY_MAX_def bit_simps)
  then show ?thesis using assms by auto
qed

lemma bits_set:
  assumes "0 \<le> p" "p \<le> 31" "0 \<le> r" "r \<le> 31"
  shows "bit (or w (prio_bit p)) (nat (31 - r)) \<longleftrightarrow> bit w (nat (31 - r)) \<or> r = p"
  using assms by (simp add: bit_or_iff bit_prio_bit)

lemma bits_clear:
  assumes "0 \<le> p" "p \<le> 31" "0 \<le> r" "r \<le> 31"
  shows "bit (and w (not (prio_bit p))) (nat (31 - r)) \<longleftrightarrow> bit w (nat (31 - r)) \<and> r \<noteq> p"
  using assms by (auto simp: bit_and_iff bit_not_iff bit_prio_bit)

lemma cntlzw_zero: "cntlzw w = 32 \<longleftrightarrow> w = 0"
proof
  assume "cntlzw w = 32"
  then have none: "find (\<lambda>i. bit w (31 - i)) [0..<32] = None"
    by (auto simp: cntlzw_def find_Some_iff split: option.splits)
  have "\<not> bit w n" if "n < 32" for n
    using none that by (auto simp: find_None_iff dest: spec [of _ "31 - n"])
  then show "w = 0"
    by (intro bit_word_eqI) auto
next
  assume "w = 0"
  then show "cntlzw w = 32"
    by (auto simp: cntlzw_def find_Some_iff split: option.splits)
qed

lemma cntlzw_first:
  assumes "w \<noteq> 0"
  shows "0 \<le> cntlzw w" "cntlzw w \<le> 31" "bit w (nat (31 - cntlzw w))"
    "\<And>r. 0 \<le> r \<Longrightarrow> r < cntlzw w \<Longrightarrow> \<not> bit w (nat (31 - r))"
proof -
  from assms have "cntlzw w \<noteq> 32" by (simp add: cntlzw_zero)
  then obtain i where i: "find (\<lambda>i. bit w (31 - i)) [0..<32] = Some i"
    by (auto simp: cntlzw_def split: option.splits)
  then have c: "cntlzw w = int i" by (simp add: cntlzw_def)
  from i have f: "i < 32" "bit w (31 - i)" "\<And>j. j < i \<Longrightarrow> \<not> bit w (31 - j)"
    by (auto simp: find_Some_iff)
  show "0 \<le> cntlzw w" "cntlzw w \<le> 31" using c f(1) by simp_all
  have "nat (31 - int i) = 31 - i" using f(1) by simp
  then show "bit w (nat (31 - cntlzw w))" using c f(2) by simp
  show "\<not> bit w (nat (31 - r))" if "0 \<le> r" "r < cntlzw w" for r
  proof -
    have "nat r < i" "nat (31 - r) = 31 - nat r" using that c f(1) by auto
    then show ?thesis using f(3) [of "nat r"] by simp
  qed
qed

section \<open>The invariant\<close>

definition prio_ok :: "OSThread \<Rightarrow> bool" where
  "prio_ok th \<longleftrightarrow> 0 \<le> t_base th \<and> t_base th \<le> 31 \<and> 0 \<le> t_suspend th \<and>
     0 \<le> t_priority th \<and> t_priority th \<le> 32 \<and> (t_suspend th \<le> 0 \<longrightarrow> t_priority th \<le> 31)"

definition placed :: "kernel \<Rightarrow> (qid \<Rightarrow> tid list) \<Rightarrow> tid \<Rightarrow> bool" where
  "placed s Q t \<longleftrightarrow>
     (t_state (threads s t) = READY \<and> t_suspend (threads s t) \<le> 0
        \<longrightarrow> t \<in> set (Q (RunQ (t_priority (threads s t))))) \<and>
     (t_state (threads s t) = SLEEPING \<longrightarrow> (\<exists>q. \<not> is_runq q \<and> t \<in> set (Q q))) \<and>
     (t_state (threads s t) = RUNNING \<longrightarrow> current s = Some t \<and> t_suspend (threads s t) \<le> 0)"

definition sched_inv :: "tid set \<Rightarrow> kernel \<Rightarrow> (qid \<Rightarrow> tid list) \<Rightarrow> bool" where
  "sched_inv X s Q \<longleftrightarrow>
     queues_ok s Q \<and>
     (\<forall>p. \<forall>t \<in> set (Q (RunQ p)). t_state (threads s t) = READY \<and> t_suspend (threads s t) \<le> 0 \<and>
        t_priority (threads s t) = p \<and> 0 \<le> p \<and> p \<le> 31) \<and>
     (\<forall>q. \<not> is_runq q \<longrightarrow> (\<forall>t \<in> set (Q q). t_state (threads s t) = SLEEPING)) \<and>
     (\<forall>q. sorted (map (\<lambda>t. t_priority (threads s t)) (Q q))) \<and>
     (\<forall>p. 0 \<le> p \<and> p \<le> 31 \<longrightarrow> bit (RunQueueBits s) (nat (31 - p)) = (Q (RunQ p) \<noteq> [])) \<and>
     (\<forall>t. t \<notin> X \<longrightarrow> placed s Q t \<and> prio_ok (threads s t))"

definition unqueued :: "(qid \<Rightarrow> tid list) \<Rightarrow> tid \<Rightarrow> bool" where
  "unqueued Q t \<longleftrightarrow> (\<forall>q. t \<notin> set (Q q))"

lemma sched_invD:
  assumes "sched_inv X s Q"
  shows "queues_ok s Q"
    and "t \<in> set (Q (RunQ p)) \<Longrightarrow> t_state (threads s t) = READY \<and> t_suspend (threads s t) \<le> 0 \<and>
        t_priority (threads s t) = p \<and> 0 \<le> p \<and> p \<le> 31"
    and "\<not> is_runq q \<Longrightarrow> t \<in> set (Q q) \<Longrightarrow> t_state (threads s t) = SLEEPING"
    and "sorted (map (\<lambda>t. t_priority (threads s t)) (Q q))"
    and "0 \<le> p \<Longrightarrow> p \<le> 31 \<Longrightarrow> bit (RunQueueBits s) (nat (31 - p)) = (Q (RunQ p) \<noteq> [])"
    and "t \<notin> X \<Longrightarrow> placed s Q t"
    and "t \<notin> X \<Longrightarrow> prio_ok (threads s t)"
  using assms unfolding sched_inv_def by blast+

lemma sched_inv_weaken: "sched_inv X s Q \<Longrightarrow> X \<subseteq> Y \<Longrightarrow> sched_inv Y s Q"
  unfolding sched_inv_def by blast

text \<open>The invariant reads these fields only.\<close>

lemma sched_inv_cong:
  assumes "sched_inv X s Q" "threads s' = threads s" "queues s' = queues s"
    "qlinks s' = qlinks s" "RunQueueBits s' = RunQueueBits s" "current s' = current s"
  shows "sched_inv X s' Q"
  using assms unfolding sched_inv_def placed_def queues_ok_def by simp

lemma sched_inv_misc [simp]:
  "sched_inv X (s\<lparr>RunQueueHint := h\<rparr>) Q = sched_inv X s Q"
  "sched_inv X (s\<lparr>Reschedule := r\<rparr>) Q = sched_inv X s Q"
  "sched_inv X (s\<lparr>mutexes := m\<rparr>) Q = sched_inv X s Q"
  "sched_inv X (s\<lparr>mlinks := l\<rparr>) Q = sched_inv X s Q"
  "sched_inv X (s\<lparr>cur_ctx := c\<rparr>) Q = sched_inv X s Q"
  by (auto elim!: sched_inv_cong)

text \<open>A thread in transit can be changed freely.\<close>

lemma sched_inv_upd:
  assumes inv: "sched_inv X s Q" and t: "t \<in> X" "unqueued Q t"
  shows "sched_inv X (upd t f s) Q"
proof -
  have other: "threads (upd t f s) u = threads s u" if "u \<in> set (Q q)" for u q
    using t(2) that by (auto simp: unqueued_def)
  have "queues_ok (upd t f s) Q"
    by (rule queues_ok_cong [OF sched_invD(1) [OF inv]]) (simp_all add: other del: upd_sel(1))
  moreover have "sorted (map (\<lambda>u. t_priority (threads (upd t f s) u)) (Q q))" for q
  proof -
    have "map (\<lambda>u. t_priority (threads (upd t f s) u)) (Q q) =
        map (\<lambda>u. t_priority (threads s u)) (Q q)"
      using other [of _ q] by (simp del: upd_sel(1))
    then show ?thesis using sched_invD(4) [OF inv, of q] by (simp only:)
  qed
  moreover have "placed (upd t f s) Q u \<and> prio_ok (threads (upd t f s) u)" if "u \<notin> X" for u
    using that t(1) sched_invD(6,7) [OF inv, of u] by (auto simp: placed_def)
  ultimately show ?thesis
    using sched_invD(2-5) [OF inv] unfolding sched_inv_def by (simp add: other del: upd_sel(1))
qed

text \<open>Any change that the invariant does not see.\<close>

lemma sched_inv_upd_same:
  assumes inv: "sched_inv X s Q"
    and "t_queue (f (threads s t)) = t_queue (threads s t)"
    "t_state (f (threads s t)) = t_state (threads s t)"
    "t_suspend (f (threads s t)) = t_suspend (threads s t)"
    "t_priority (f (threads s t)) = t_priority (threads s t)"
    "t_base (f (threads s t)) = t_base (threads s t)"
  shows "sched_inv X (upd t f s) Q"
proof -
  have same: "t_queue (threads (upd t f s) u) = t_queue (threads s u)"
    "t_state (threads (upd t f s) u) = t_state (threads s u)"
    "t_suspend (threads (upd t f s) u) = t_suspend (threads s u)"
    "t_priority (threads (upd t f s) u) = t_priority (threads s u)"
    "t_base (threads (upd t f s) u) = t_base (threads s u)" for u
    using assms(2-) by auto
  have "queues_ok (upd t f s) Q"
    by (rule queues_ok_cong [OF sched_invD(1) [OF inv]]) (simp_all add: same del: upd_sel(1))
  then show ?thesis
    using inv unfolding sched_inv_def placed_def prio_ok_def same by simp
qed


lemma sched_invI:
  assumes "queues_ok s Q"
    and "\<And>p t. t \<in> set (Q (RunQ p)) \<Longrightarrow> t_state (threads s t) = READY \<and>
        t_suspend (threads s t) \<le> 0 \<and> t_priority (threads s t) = p \<and> 0 \<le> p \<and> p \<le> 31"
    and "\<And>q t. \<not> is_runq q \<Longrightarrow> t \<in> set (Q q) \<Longrightarrow> t_state (threads s t) = SLEEPING"
    and "\<And>q. \<not> is_runq q \<Longrightarrow> sorted (map (\<lambda>t. t_priority (threads s t)) (Q q))"
    and "\<And>p. 0 \<le> p \<Longrightarrow> p \<le> 31 \<Longrightarrow> bit (RunQueueBits s) (nat (31 - p)) = (Q (RunQ p) \<noteq> [])"
    and "\<And>t. t \<notin> X \<Longrightarrow> placed s Q t"
    and "\<And>t. t \<notin> X \<Longrightarrow> prio_ok (threads s t)"
  shows "sched_inv X s Q"
proof -
  have "sorted (map (\<lambda>t. t_priority (threads s t)) (Q q))" for q
  proof (cases "is_runq q")
    case True
    then obtain p where q: "q = RunQ p" by (cases q) auto
    have "map (\<lambda>t. t_priority (threads s t)) (Q q) = map (\<lambda>_. p) (Q q)"
      using assms(2) q by simp
    then show ?thesis by (simp add: map_replicate_const)
  next
    case False
    then show ?thesis by (rule assms(4))
  qed
  with assms show ?thesis unfolding sched_inv_def by simp
qed

section \<open>The building blocks\<close>

lemma placed_mono:
  assumes "placed s Q u" "threads s' u = threads s u" "current s' = current s"
    "\<And>q. u \<in> set (Q q) \<Longrightarrow> u \<in> set (Q' q)"
  shows "placed s' Q' u"
  using assms unfolding placed_def by metis

lemma unqueued_remove:
  assumes "queues_ok s Q" "Q q = us @ t # vs"
  shows "unqueued (Q(q := us @ vs)) t"
  using queues_ok_distinct [OF assms(1), of q] queues_ok_unique [OF assms(1), of t q] assms(2)
  by (auto simp: unqueued_def)

text \<open>A sleeping thread leaves its wait queue.\<close>

lemma sched_inv_leave:
  assumes inv: "sched_inv X s Q" and q: "Q q = us @ t # vs" "\<not> is_runq q"
  shows "sched_inv (insert t X) (on_queue (q_unlink t) q s) (Q(q := us @ vs))"
proof (rule sched_invI)
  let ?s = "on_queue (q_unlink t) q s" and ?Q = "Q(q := us @ vs)"
  show "queues_ok ?s ?Q"
    using queues_ok_unlink [OF sched_invD(1) [OF inv] q(1)] .
  show "t_state (threads ?s u) = READY \<and> t_suspend (threads ?s u) \<le> 0 \<and>
      t_priority (threads ?s u) = p \<and> 0 \<le> p \<and> p \<le> 31" if "u \<in> set (?Q (RunQ p))" for p u
    using that q(2) sched_invD(2) [OF inv, of u p] by (auto split: if_splits)
  show "t_state (threads ?s u) = SLEEPING" if "\<not> is_runq r" "u \<in> set (?Q r)" for r u
    using that sched_invD(3) [OF inv, of r u] q(1) by (auto split: if_splits)
  show "sorted (map (\<lambda>u. t_priority (threads ?s u)) (?Q r))" for r
    using sched_invD(4) [OF inv, of r] q(1) by (auto simp: sorted_append)
  show "bit (RunQueueBits ?s) (nat (31 - p)) = (?Q (RunQ p) \<noteq> [])" if "0 \<le> p" "p \<le> 31" for p
    using sched_invD(5) [OF inv that] q(2) by auto
  show "placed ?s ?Q u" if "u \<notin> insert t X" for u
    by (rule placed_mono [OF sched_invD(6) [OF inv, of u]]) (use that q in auto)
  show "prio_ok (threads ?s u)" if "u \<notin> insert t X" for u
    using that sched_invD(7) [OF inv, of u] by simp
qed

lemma sched_inv_pop:
  assumes inv: "sched_inv X s Q" and q: "Q q = t # vs" "\<not> is_runq q"
  shows "sched_inv (insert t X) (on_queue (q_pop_head t) q s) (Q(q := vs))"
proof -
  let ?s = "on_queue (q_pop_head t) q s" and ?u = "on_queue (q_unlink t) q s"
  have ok: "queues_ok ?s (Q(q := vs))"
    using queues_ok_pop [OF sched_invD(1) [OF inv] q(1)] .
  have "sched_inv (insert t X) ?u (Q(q := vs))"
    using sched_inv_leave [OF inv, of q "[]" t vs] q by simp
  then show ?thesis
    using ok unfolding sched_inv_def placed_def by simp
qed

text \<open>A ready thread leaves its run queue.\<close>

lemma UnsetRun_inv:
  assumes inv: "sched_inv X s Q" and t: "t \<in> set (Q (RunQ p))"
  obtains s' us vs where "UnsetRun t s = Some s'" "Q (RunQ p) = us @ t # vs"
    "sched_inv (insert t X) s' (Q(RunQ p := us @ vs))" "unqueued (Q(RunQ p := us @ vs)) t"
    "threads s' = (threads s)(t := (threads s t)\<lparr>t_queue := None\<rparr>)"
    "current s' = current s" "mutexes s' = mutexes s" "mlinks s' = mlinks s"
    "RunQueueHint s' = RunQueueHint s" "cur_ctx s' = cur_ctx s" "Reschedule s' = Reschedule s"
proof -
  obtain us vs where q: "Q (RunQ p) = us @ t # vs"
    using t by (auto dest: split_list)
  let ?Q = "Q(RunQ p := us @ vs)"
  let ?s1 = "on_queue (q_unlink t) (RunQ p) s"
  define s2 where "s2 = (if qhead (queues ?s1 (RunQ p)) = None
      then ?s1\<lparr>RunQueueBits := and (RunQueueBits ?s1) (not (prio_bit p))\<rparr> else ?s1)"
  note tp = sched_invD(2) [OF inv t]
  have tq: "t_queue (threads s t) = Some (RunQ p)"
    using queues_okD(2) [OF sched_invD(1) [OF inv] t] .
  have ok1: "queues_ok ?s1 ?Q"
    using queues_ok_unlink [OF sched_invD(1) [OF inv] q] .
  have empty: "qhead (queues ?s1 (RunQ p)) = None \<longleftrightarrow> us @ vs = []"
    using queues_ok_head [OF ok1, of "RunQ p"] by simp
  have sel2: "threads s2 = threads s" "current s2 = current s" "mutexes s2 = mutexes s"
    "mlinks s2 = mlinks s" "RunQueueHint s2 = RunQueueHint s" "cur_ctx s2 = cur_ctx s"
    "Reschedule s2 = Reschedule s"
    by (simp_all add: s2_def)
  have un: "unqueued ?Q t"
    using unqueued_remove [OF sched_invD(1) [OF inv] q] .
  have "sched_inv (insert t X) s2 ?Q"
  proof (rule sched_invI)
    show "queues_ok s2 ?Q"
      by (rule queues_ok_cong [OF ok1]) (simp_all add: s2_def)
    show "t_state (threads s2 u) = READY \<and> t_suspend (threads s2 u) \<le> 0 \<and>
        t_priority (threads s2 u) = r \<and> 0 \<le> r \<and> r \<le> 31" if "u \<in> set (?Q (RunQ r))" for r u
      using that sched_invD(2) [OF inv, of u r] q by (auto simp: sel2 split: if_splits)
    show "t_state (threads s2 u) = SLEEPING" if "\<not> is_runq r" "u \<in> set (?Q r)" for r u
      using that sched_invD(3) [OF inv, of r u] by (auto simp: sel2 split: if_splits)
    show "sorted (map (\<lambda>u. t_priority (threads s2 u)) (?Q r))" if "\<not> is_runq r" for r
      using sched_invD(4) [OF inv, of r] that by (auto simp: sel2)
    show "bit (RunQueueBits s2) (nat (31 - r)) = (?Q (RunQ r) \<noteq> [])" if r: "0 \<le> r" "r \<le> 31" for r
      using sched_invD(5) [OF inv r] q empty bits_clear [OF _ _ r, of p] tp
      by (auto simp: s2_def)
    show "placed s2 ?Q u" if "u \<notin> insert t X" for u
      by (rule placed_mono [OF sched_invD(6) [OF inv, of u]]) (use that q sel2 in auto)
    show "prio_ok (threads s2 u)" if "u \<notin> insert t X" for u
      using that sched_invD(7) [OF inv, of u] by (simp add: sel2)
  qed
  then have "sched_inv (insert t X) (set_queue t None s2) ?Q"
    by (rule sched_inv_upd) (use un in auto)
  moreover have "UnsetRun t s = Some (set_queue t None s2)"
    using tq tp by (simp add: UnsetRun_def s2_def Let_def)
  moreover have "threads (set_queue t None s2) = (threads s)(t := (threads s t)\<lparr>t_queue := None\<rparr>)"
    by (simp add: upd_def sel2)
  ultimately show thesis
    using q un that [of "set_queue t None s2" us vs] by (simp add: sel2)
qed

text \<open>A thread in transit becomes ready.\<close>

lemma SetRun_inv:
  assumes inv: "sched_inv X s Q" and t: "t \<in> X" "unqueued Q t"
    and th: "t_state (threads s t) = READY" "t_suspend (threads s t) \<le> 0" "prio_ok (threads s t)"
    and p: "p = t_priority (threads s t)"
  shows "sched_inv (X - {t}) (SetRun t s) (Q(RunQ p := Q (RunQ p) @ [t]))"
proof -
  let ?Q = "Q(RunQ p := Q (RunQ p) @ [t])"
  let ?s1 = "set_queue t (Some (RunQ p)) s"
  let ?s2 = "on_queue (q_append t) (RunQ p) ?s1"
  have S: "SetRun t s = ?s2\<lparr>RunQueueBits := or (RunQueueBits s) (prio_bit p), RunQueueHint := True\<rparr>"
    by (simp add: SetRun_def p Let_def)
  have pr: "0 \<le> p" "p \<le> 31" using th(2,3) p by (simp_all add: prio_ok_def)
  have inv1: "sched_inv X ?s1 Q" by (rule sched_inv_upd [OF inv t])
  have ok2: "queues_ok ?s2 ?Q"
    by (rule queues_ok_append [OF sched_invD(1) [OF inv1]]) (use t(2) in \<open>auto simp: unqueued_def\<close>)
  show ?thesis
    unfolding S
  proof (rule sched_invI)
    let ?s = "?s2\<lparr>RunQueueBits := or (RunQueueBits s) (prio_bit p), RunQueueHint := True\<rparr>"
    have thr: "threads ?s = (threads s)(t := (threads s t)\<lparr>t_queue := Some (RunQ p)\<rparr>)"
      by (simp add: upd_def)
    have cur: "current ?s = current s" by simp
    have old: "threads ?s u = threads s u" if "u \<in> set (Q r)" for u r
      using that t(2) thr by (auto simp: unqueued_def)
    have new: "t_state (threads ?s t) = READY" "t_suspend (threads ?s t) \<le> 0"
      "t_priority (threads ?s t) = p" "prio_ok (threads ?s t)"
      using th p by (simp_all add: thr prio_ok_def)
    show "queues_ok ?s ?Q" by (rule queues_ok_cong [OF ok2]) simp_all
    show "t_state (threads ?s u) = READY \<and> t_suspend (threads ?s u) \<le> 0 \<and>
        t_priority (threads ?s u) = r \<and> 0 \<le> r \<and> r \<le> 31" if u: "u \<in> set (?Q (RunQ r))" for r u
    proof (cases "u \<in> set (Q (RunQ r))")
      case True
      then show ?thesis using sched_invD(2) [OF inv True] old [OF True] by simp
    next
      case False
      with u have "u = t" "r = p" by (auto split: if_splits)
      then show ?thesis using new pr by blast
    qed
    show "t_state (threads ?s u) = SLEEPING" if "\<not> is_runq r" "u \<in> set (?Q r)" for r u
    proof -
      have "u \<in> set (Q r)" using that by (auto split: if_splits)
      then show ?thesis using sched_invD(3) [OF inv that(1)] old by simp
    qed
    show "sorted (map (\<lambda>u. t_priority (threads ?s u)) (?Q r))" if "\<not> is_runq r" for r
      using sched_invD(4) [OF inv1, of r] that by (cases "r = RunQ p") auto
    show "bit (RunQueueBits ?s) (nat (31 - r)) = (?Q (RunQ r) \<noteq> [])" if r: "0 \<le> r" "r \<le> 31" for r
      using sched_invD(5) [OF inv r] bits_set [OF pr r] by simp
    show "placed ?s ?Q u" if "u \<notin> X - {t}" for u
    proof (cases "u = t")
      case True
      then show ?thesis using new by (simp add: placed_def del: upd_sel)
    next
      case False
      with that have "placed s Q u" using sched_invD(6) [OF inv] by blast
      then show ?thesis
        by (rule placed_mono) (use False thr cur in auto)
    qed
    show "prio_ok (threads ?s u)" if "u \<notin> X - {t}" for u
      using that sched_invD(7) [OF inv, of u] new thr by (cases "u = t") auto
  qed
qed

text \<open>A thread in transit goes to sleep in a wait queue.\<close>

lemma insert_by_priority_inv:
  assumes inv: "sched_inv X s Q" and t: "t \<in> X" "unqueued Q t"
    and th: "t_state (threads s t) = SLEEPING" "prio_ok (threads s t)"
      "t_queue (threads s t) = Some q" and q: "\<not> is_runq q"
  obtains s' where "insert_by_priority t q s = Some s'"
    "sched_inv (X - {t}) s' (Q(q := prio_insert s t (Q q)))" "\<exists>f. s' = on_queue f q s"
proof -
  obtain s' where s': "insert_by_priority t q s = Some s'"
    "queues_ok s' (Q(q := prio_insert s t (Q q)))" and f: "\<exists>f. s' = on_queue f q s"
    by (rule insert_by_priority_ok [OF sched_invD(1) [OF inv] th(3)])
      (use t(2) in \<open>auto simp: unqueued_def\<close>)
  let ?Q = "Q(q := prio_insert s t (Q q))"
  have sel: "threads s' = threads s" "RunQueueBits s' = RunQueueBits s" "current s' = current s"
    using f by auto
  have "sched_inv (X - {t}) s' ?Q"
  proof (rule sched_invI)
    show "queues_ok s' ?Q" by (rule s')
    show "t_state (threads s' u) = READY \<and> t_suspend (threads s' u) \<le> 0 \<and>
        t_priority (threads s' u) = r \<and> 0 \<le> r \<and> r \<le> 31" if "u \<in> set (?Q (RunQ r))" for r u
      using that sched_invD(2) [OF inv, of u r] q by (auto simp: sel split: if_splits)
    show "t_state (threads s' u) = SLEEPING" if "\<not> is_runq r" "u \<in> set (?Q r)" for r u
      using that sched_invD(3) [OF inv, of r u] th by (auto simp: sel split: if_splits)
    show "sorted (map (\<lambda>u. t_priority (threads s' u)) (?Q r))" for r
      using sched_invD(4) [OF inv, of r] sorted_prio_insert [of s "Q q" t] by (auto simp: sel)
    show "bit (RunQueueBits s') (nat (31 - r)) = (?Q (RunQ r) \<noteq> [])" if "0 \<le> r" "r \<le> 31" for r
      using sched_invD(5) [OF inv that] q by (auto simp: sel)
    show "placed s' ?Q u" if "u \<notin> X - {t}" for u
    proof (cases "u = t")
      case True
      then have "u \<in> set (?Q q)" by simp
      with True show ?thesis using th q unfolding placed_def sel by fastforce
    next
      case False
      with that have p: "placed s Q u" using sched_invD(6) [OF inv, of u] by blast
      have mono: "set (Q r) \<subseteq> set (?Q r)" for r by auto
      show ?thesis using p mono unfolding placed_def sel by blast
    qed
    show "prio_ok (threads s' u)" if "u \<notin> X - {t}" for u
      using that sched_invD(7) [OF inv, of u] th by (cases "u = t") (auto simp: sel)
  qed
  then show thesis using s' f that by blast
qed


lemma sched_inv_settle:
  assumes "sched_inv X s Q" "placed s Q t" "prio_ok (threads s t)"
  shows "sched_inv (X - {t}) s Q"
  using assms unfolding sched_inv_def by blast

lemma unqueued_other_state:
  assumes "sched_inv X s Q" "t_state (threads s t) \<noteq> READY" "t_state (threads s t) \<noteq> SLEEPING"
  shows "unqueued Q t"
  unfolding unqueued_def
proof
  fix q
  show "t \<notin> set (Q q)"
    using sched_invD(2) [OF assms(1)] sched_invD(3) [OF assms(1), of q t] assms(2,3)
    by (cases q) auto
qed

lemma unqueued_suspended:
  assumes "sched_inv X s Q" "t_state (threads s t) = READY" "0 < t_suspend (threads s t)"
  shows "unqueued Q t"
  unfolding unqueued_def
proof
  fix q
  show "t \<notin> set (Q q)"
    using sched_invD(2) [OF assms(1)] sched_invD(3) [OF assms(1), of q t] assms(2,3)
    by (cases q) force+
qed

text \<open>Appending at the tail of a wait queue, when everyone in it is at least as urgent.\<close>

lemma sleep_append_inv:
  assumes inv: "sched_inv X s Q" and t: "t \<in> X" "unqueued Q t"
    and th: "t_state (threads s t) = SLEEPING" "prio_ok (threads s t)"
      "t_queue (threads s t) = Some q" and q: "\<not> is_runq q"
    and le: "\<And>u. u \<in> set (Q q) \<Longrightarrow> t_priority (threads s u) \<le> t_priority (threads s t)"
  shows "sched_inv (X - {t}) (on_queue (q_append t) q s) (Q(q := Q q @ [t]))"
proof -
  have "find (\<lambda>it. \<not> t_priority (threads s it) \<le> t_priority (threads s t)) (Q q) = None"
    using le by (simp add: find_None_all)
  then have "insert_by_priority t q s = Some (on_queue (q_append t) q s)"
    using seek_dlist [OF queues_okD(1) [OF sched_invD(1) [OF inv], of q]]
    by (simp add: insert_by_priority_def)
  moreover have "prio_insert s t (Q q) = Q q @ [t]"
    using le by (simp add: prio_insert_def takeWhile_eq_all_conv [THEN iffD2] dropWhile_eq_Nil_conv [THEN iffD2])
  ultimately show ?thesis
    by (metis insert_by_priority_inv [OF inv t th q] option.inject)
qed

section \<open>Dispatching\<close>

lemma ready_iff_bits:
  assumes "sched_inv X s Q"
  shows "RunQueueBits s = 0 \<longleftrightarrow> (\<forall>p. Q (RunQ p) = [])"
proof
  assume z: "RunQueueBits s = 0"
  show "\<forall>p. Q (RunQ p) = []"
  proof
    fix p
    show "Q (RunQ p) = []"
    proof (rule ccontr)
      assume "Q (RunQ p) \<noteq> []"
      then obtain t where "t \<in> set (Q (RunQ p))" by (cases "Q (RunQ p)") auto
      then have "0 \<le> p" "p \<le> 31" using sched_invD(2) [OF assms] by blast+
      then show False using sched_invD(5) [OF assms] z \<open>Q (RunQ p) \<noteq> []\<close> by simp
    qed
  qed
next
  assume e: "\<forall>p. Q (RunQ p) = []"
  show "RunQueueBits s = 0"
  proof (rule ccontr)
    assume "RunQueueBits s \<noteq> 0"
    note c = cntlzw_first [OF this]
    then have "Q (RunQ (cntlzw (RunQueueBits s))) \<noteq> []"
      using sched_invD(5) [OF assms c(1,2)] by simp
    then show False using e by simp
  qed
qed

text \<open>
  \<open>top_ready Q p\<close>: run queue \<open>p\<close> is the most urgent one that is not empty.
\<close>

definition top_ready :: "(qid \<Rightarrow> tid list) \<Rightarrow> int \<Rightarrow> bool" where
  "top_ready Q p \<longleftrightarrow> Q (RunQ p) \<noteq> [] \<and> (\<forall>r. Q (RunQ r) \<noteq> [] \<longrightarrow> p \<le> r)"

lemma top_ready_cntlzw:
  assumes inv: "sched_inv X s Q" and nz: "RunQueueBits s \<noteq> 0"
  shows "top_ready Q (cntlzw (RunQueueBits s))"
proof -
  note c = cntlzw_first [OF nz]
  have "cntlzw (RunQueueBits s) \<le> r" if ne: "Q (RunQ r) \<noteq> []" for r
  proof (rule ccontr)
    assume "\<not> cntlzw (RunQueueBits s) \<le> r"
    moreover obtain t where "t \<in> set (Q (RunQ r))" using ne by (cases "Q (RunQ r)") auto
    then have "0 \<le> r" "r \<le> 31" using sched_invD(2) [OF inv] by blast+
    ultimately show False
      using c(4) [of r] sched_invD(5) [OF inv, of r] ne by simp
  qed
  then show ?thesis
    using sched_invD(5) [OF inv c(1,2)] c(3) by (simp add: top_ready_def)
qed

lemma Dispatch_inv:
  assumes inv: "sched_inv {} s Q" and nz: "RunQueueBits s \<noteq> 0"
    and idle: "\<And>t. t_state (threads s t) \<noteq> RUNNING"
  obtains p h vs s' where "Dispatch s = Some s'" "top_ready Q p" "Q (RunQ p) = h # vs"
    "sched_inv {} s' (Q(RunQ p := vs))" "current s' = Some h" "cur_ctx s' = ThreadCtx h"
    "threads s' = (threads s)(h := (threads s h)\<lparr>t_queue := None, t_state := RUNNING\<rparr>)"
    "RunQueueHint s' = False" "Reschedule s' = Reschedule s"
    "mutexes s' = mutexes s" "mlinks s' = mlinks s"
proof -
  let ?p = "cntlzw (RunQueueBits s)"
  note c = cntlzw_first [OF nz]
  have top: "top_ready Q ?p" by (rule top_ready_cntlzw [OF inv nz])
  then obtain h vs where q: "Q (RunQ ?p) = h # vs"
    by (auto simp: top_ready_def neq_Nil_conv)
  let ?Q = "Q(RunQ ?p := vs)"
  let ?s0 = "s\<lparr>RunQueueHint := False\<rparr>"
  let ?s1 = "on_queue (q_pop_head h) (RunQ ?p) ?s0"
  define s2 where "s2 = (if lnext (qlinks s) h = None
      then ?s1\<lparr>RunQueueBits := and (RunQueueBits ?s1) (not (prio_bit ?p))\<rparr> else ?s1)"
  have inv0: "sched_inv {} ?s0 Q" using inv by simp
  have ok1: "queues_ok ?s1 ?Q"
    using queues_ok_pop [OF sched_invD(1) [OF inv0] q] .
  have empty: "lnext (qlinks s) h = None \<longleftrightarrow> vs = []"
    using dlist_neighbours(2) [of "qlinks s" "queues s (RunQ ?p)" "[]" h vs]
      queues_okD(1) [OF sched_invD(1) [OF inv], of "RunQ ?p"] q by simp
  have sel2: "threads s2 = threads s" "current s2 = current s" "mutexes s2 = mutexes s"
    "mlinks s2 = mlinks s" "Reschedule s2 = Reschedule s" "RunQueueHint s2 = False"
    by (simp_all add: s2_def)
  have un: "unqueued ?Q h"
    using unqueued_remove [OF sched_invD(1) [OF inv], of "RunQ ?p" "[]" h vs] q by simp
  have inv2: "sched_inv {h} s2 ?Q"
  proof (rule sched_invI)
    show "queues_ok s2 ?Q" by (rule queues_ok_cong [OF ok1]) (simp_all add: s2_def)
    show "t_state (threads s2 u) = READY \<and> t_suspend (threads s2 u) \<le> 0 \<and>
        t_priority (threads s2 u) = r \<and> 0 \<le> r \<and> r \<le> 31" if "u \<in> set (?Q (RunQ r))" for r u
      using that sched_invD(2) [OF inv, of u r] q by (auto simp: sel2 split: if_splits)
    show "t_state (threads s2 u) = SLEEPING" if "\<not> is_runq r" "u \<in> set (?Q r)" for r u
      using that sched_invD(3) [OF inv, of r u] by (auto simp: sel2 split: if_splits)
    show "sorted (map (\<lambda>u. t_priority (threads s2 u)) (?Q r))" if "\<not> is_runq r" for r
      using sched_invD(4) [OF inv, of r] that by (auto simp: sel2)
    show "bit (RunQueueBits s2) (nat (31 - r)) = (?Q (RunQ r) \<noteq> [])" if r: "0 \<le> r" "r \<le> 31" for r
      using sched_invD(5) [OF inv r] q empty bits_clear [OF c(1,2) r] by (auto simp: s2_def)
    show "placed s2 ?Q u" if "u \<notin> {h}" for u
      by (rule placed_mono [OF sched_invD(6) [OF inv, of u]]) (use that q sel2 in auto)
    show "prio_ok (threads s2 u)" for u
      using sched_invD(7) [OF inv, of u] by (simp add: sel2)
  qed
  let ?s4 = "set_state h RUNNING (set_queue h None s2)"
  let ?s5 = "OSSwitchThread h ?s4"
  have "sched_inv {h} ?s4 ?Q"
    using inv2 un by (intro sched_inv_upd) auto
  then have "queues_ok ?s4 ?Q" and inv4: "sched_inv {h} ?s4 ?Q"
    by (auto dest: sched_invD(1))
  have thr5: "threads ?s5 = (threads s)(h := (threads s h)\<lparr>t_queue := None, t_state := RUNNING\<rparr>)"
    by (simp add: OSSwitchThread_def OSSetCurrentThread_def sel2 upd_def split: option.splits)
  have sel5: "current ?s5 = Some h" "cur_ctx ?s5 = ThreadCtx h" "RunQueueHint ?s5 = False"
    "Reschedule ?s5 = Reschedule s" "mutexes ?s5 = mutexes s" "mlinks ?s5 = mlinks s"
    "threads ?s5 = threads ?s4" "queues ?s5 = queues ?s4" "qlinks ?s5 = qlinks ?s4"
    "RunQueueBits ?s5 = RunQueueBits ?s4"
    by (simp_all add: OSSwitchThread_def OSSetCurrentThread_def sel2 Let_def split: option.splits)
  have susp: "t_suspend (threads s h) \<le> 0" "prio_ok (threads s h)"
    using sched_invD(2) [OF inv, of h ?p] sched_invD(7) [OF inv, of h] q by auto
  have "sched_inv {} ?s5 ?Q"
  proof (rule sched_invI)
    show "queues_ok ?s5 ?Q"
      by (rule queues_ok_cong [OF sched_invD(1) [OF inv4]]) (simp_all add: sel5 del: upd_sel)
    show "placed ?s5 ?Q u" for u
    proof (cases "u = h")
      case True
      then show ?thesis using susp sel5(1) by (simp add: placed_def thr5)
    next
      case False
      then show ?thesis
        using sched_invD(6) [OF inv2, of u] idle [of u] unfolding placed_def by (simp add: thr5 sel2)
    qed
    show "prio_ok (threads ?s5 u)" for u
      using sched_invD(7) [OF inv, of u] by (cases "u = h") (auto simp: thr5 prio_ok_def)
  qed (use sched_invD(2-5) [OF inv4] in \<open>simp_all only: sel5\<close>)
  moreover have "Dispatch s = Some ?s5"
    using queues_ok_head [OF sched_invD(1) [OF inv], of "RunQ ?p"] q
    by (simp add: Dispatch_def Let_def s2_def)
  ultimately show thesis
    using that top q sel5 thr5 by blast
qed

end
