(* ===== verification/ThreadProps.thy ===== *)
theory ThreadProps
  imports ThreadInv
begin

text \<open>
  What the scheduler's entry points do: the choice of the next thread, waking a queue, going
  to sleep.  The lemmas run the operations of \<open>Thread\<close> on states that satisfy
  \<open>sched_inv\<close>, show that they return, and give the lists their queues represent afterwards.
\<close>

section \<open>Choosing the next thread\<close>

text \<open>
  \<open>dispatched s Q\<close>: the processor runs a thread no less urgent than any ready one, or it
  idles and no thread is ready.
\<close>

definition dispatched :: "kernel \<Rightarrow> (qid \<Rightarrow> tid list) \<Rightarrow> bool" where
  "dispatched s Q = (case current s of
     None \<Rightarrow> cur_ctx s = IdleCtx \<and> (\<forall>p. Q (RunQ p) = [])
   | Some h \<Rightarrow> cur_ctx s = ThreadCtx h \<and> t_state (threads s h) = RUNNING \<and>
       (\<forall>p. Q (RunQ p) \<noteq> [] \<longrightarrow> t_priority (threads s h) \<le> p))"

text \<open>What a choice of thread leaves alone.\<close>

definition same_sched :: "OSThread \<Rightarrow> OSThread \<Rightarrow> bool" where
  "same_sched th th' \<longleftrightarrow> t_suspend th' = t_suspend th \<and> t_priority th' = t_priority th \<and>
     t_base th' = t_base th \<and> t_mutex th' = t_mutex th \<and> t_mutexQueue th' = t_mutexQueue th \<and>
     t_flags th' = t_flags th \<and> t_val th' = t_val th"

lemma same_sched_refl [simp]: "same_sched th th"
  by (simp add: same_sched_def)

lemma same_sched_trans: "same_sched a b \<Longrightarrow> same_sched b c \<Longrightarrow> same_sched a c"
  by (simp add: same_sched_def)

definition keeps_waits :: "kernel \<Rightarrow> (qid \<Rightarrow> tid list) \<Rightarrow> kernel \<Rightarrow> (qid \<Rightarrow> tid list) \<Rightarrow> bool" where
  "keeps_waits s Q s' Q' \<longleftrightarrow> (\<forall>q. \<not> is_runq q \<longrightarrow> Q' q = Q q) \<and>
     (\<forall>t. same_sched (threads s t) (threads s' t)) \<and>
     mutexes s' = mutexes s \<and> mlinks s' = mlinks s \<and> Reschedule s' = Reschedule s"

lemma keeps_waits_refl [simp]: "keeps_waits s Q s Q"
  by (simp add: keeps_waits_def)

lemma keeps_waits_trans:
  "keeps_waits s Q s' Q' \<Longrightarrow> keeps_waits s' Q' s'' Q'' \<Longrightarrow> keeps_waits s Q s'' Q''"
  unfolding keeps_waits_def using same_sched_trans by metis

lemma OSSetCurrentThread_sel [simp]:
  "threads (OSSetCurrentThread t s) = threads s" "current (OSSetCurrentThread t s) = t"
  "queues (OSSetCurrentThread t s) = queues s" "qlinks (OSSetCurrentThread t s) = qlinks s"
  "RunQueueBits (OSSetCurrentThread t s) = RunQueueBits s"
  "mutexes (OSSetCurrentThread t s) = mutexes s" "mlinks (OSSetCurrentThread t s) = mlinks s"
  "Reschedule (OSSetCurrentThread t s) = Reschedule s"
  by (simp_all add: OSSetCurrentThread_def Let_def split: option.splits)

lemma SetRun_sel [simp]:
  "threads (SetRun t s) = (threads s)(t := (threads s t)\<lparr>t_queue := Some (RunQ (t_priority (threads s t)))\<rparr>)"
  "current (SetRun t s) = current s" "mutexes (SetRun t s) = mutexes s"
  "mlinks (SetRun t s) = mlinks s" "Reschedule (SetRun t s) = Reschedule s"
  "cur_ctx (SetRun t s) = cur_ctx s" "RunQueueHint (SetRun t s) = True"
  by (simp_all add: SetRun_def Let_def upd_def)

text \<open>With no thread running, the most urgent one gets the processor, or it idles.\<close>

lemma choose_inv:
  assumes inv: "sched_inv {} s Q" and idle: "\<And>t. t_state (threads s t) \<noteq> RUNNING"
  obtains s' Q' where
    "(if RunQueueBits s = 0 then Some ((OSSetCurrentThread None s)\<lparr>cur_ctx := IdleCtx\<rparr>)
      else Dispatch s) = Some s'"
    "sched_inv {} s' Q'" "dispatched s' Q'" "keeps_waits s Q s' Q'"
proof (cases "RunQueueBits s = 0")
  case True
  let ?s = "(OSSetCurrentThread None s)\<lparr>cur_ctx := IdleCtx\<rparr>"
  have "placed ?s Q t" for t
    using sched_invD(6) [OF inv, of t] idle [of t] by (simp add: placed_def)
  then have "sched_inv {} ?s Q"
    using inv unfolding sched_inv_def queues_ok_def by simp
  moreover have "\<forall>p. Q (RunQ p) = []"
    using ready_iff_bits [OF inv] True by simp
  ultimately show thesis
    using True by (intro that [of ?s Q]) (simp_all add: dispatched_def keeps_waits_def)
next
  case False
  obtain p h vs s' where d: "Dispatch s = Some s'" "top_ready Q p" "Q (RunQ p) = h # vs"
    "sched_inv {} s' (Q(RunQ p := vs))" "current s' = Some h" "cur_ctx s' = ThreadCtx h"
    "threads s' = (threads s)(h := (threads s h)\<lparr>t_queue := None, t_state := RUNNING\<rparr>)"
    "RunQueueHint s' = False" "Reschedule s' = Reschedule s"
    "mutexes s' = mutexes s" "mlinks s' = mlinks s"
    by (rule Dispatch_inv [OF inv False idle])
  have "t_priority (threads s h) = p"
    using sched_invD(2) [OF inv, of h p] d(3) by simp
  then have "dispatched s' (Q(RunQ p := vs))"
    using d(2,5-7) by (auto simp: dispatched_def top_ready_def)
  moreover have "keeps_waits s Q s' (Q(RunQ p := vs))"
    using d by (auto simp: keeps_waits_def same_sched_def)
  ultimately show thesis
    using False d(1,4) by (intro that) auto
qed

lemma SelectThread_inv:
  assumes inv: "sched_inv {} s Q" and cur: "current s = Some t" "cur_ctx s = ThreadCtx t"
    and enabled: "Reschedule s \<le> 0"
  obtains s' Q' where "SelectThread b s = Some s'" "sched_inv {} s' Q'" "dispatched s' Q'"
    "keeps_waits s Q s' Q'"
proof -
  let ?early = "t_state (threads s t) = RUNNING \<and> \<not> b \<and>
    t_priority (threads s t) \<le> cntlzw (RunQueueBits s)"
  show thesis
  proof (cases ?early)
    case True
    have "t_priority (threads s t) \<le> p" if ne: "Q (RunQ p) \<noteq> []" for p
    proof -
      have "RunQueueBits s \<noteq> 0" using ready_iff_bits [OF inv] ne by auto
      then have "cntlzw (RunQueueBits s) \<le> p"
        using top_ready_cntlzw [OF inv] ne by (simp add: top_ready_def)
      with True show ?thesis by simp
    qed
    with True cur inv enabled show thesis
      by (intro that [of s Q]) (simp_all add: SelectThread_def OSGetCurrentThread_def dispatched_def)
  next
    case early: False
    show thesis
    proof (cases "t_state (threads s t) = RUNNING")
      case True
      let ?s1 = "set_state t READY s"
      let ?p = "t_priority (threads s t)"
      let ?s2 = "SetRun t ?s1" and ?Q = "Q(RunQ ?p := Q (RunQ ?p) @ [t])"
      have un: "unqueued Q t" by (rule unqueued_other_state [OF inv]) (simp_all add: True)
      have "sched_inv {t} ?s1 Q"
        by (rule sched_inv_upd) (use inv un in \<open>auto intro: sched_inv_weaken\<close>)
      moreover have pok: "prio_ok (threads ?s1 t)"
        using sched_invD(7) [OF inv, of t] by (simp add: prio_ok_def)
      moreover have "t_state (threads ?s1 t) = READY" "t_suspend (threads ?s1 t) \<le> 0"
        "?p = t_priority (threads ?s1 t)"
        using sched_invD(6) [OF inv, of t] True by (simp_all add: placed_def)
      ultimately have "sched_inv ({t} - {t}) ?s2 ?Q"
        by (intro SetRun_inv un) simp_all
      then have inv2: "sched_inv {} ?s2 ?Q" by (simp only: Diff_cancel)
      have idle: "t_state (threads ?s2 u) \<noteq> RUNNING" for u
        using sched_invD(6) [OF inv, of u] cur(1) by (auto simp: placed_def)
      obtain s' Q' where c: "(if RunQueueBits ?s2 = 0
          then Some ((OSSetCurrentThread None ?s2)\<lparr>cur_ctx := IdleCtx\<rparr>) else Dispatch ?s2) = Some s'"
        "sched_inv {} s' Q'" "dispatched s' Q'" "keeps_waits ?s2 ?Q s' Q'"
        by (rule choose_inv [OF inv2 idle])
      have "\<not> (\<not> b \<and> t_priority (threads s t) \<le> cntlzw (RunQueueBits s))"
        using early True by simp
      then have "SelectThread b s = Some s'"
        using c(1) True cur enabled unfolding SelectThread_def OSGetCurrentThread_def Let_def
        by (cases b) (simp_all del: SetRun_sel upd_sel split: if_splits)
      moreover have "keeps_waits s Q ?s2 ?Q"
        by (auto simp: keeps_waits_def same_sched_def)
      then have "keeps_waits s Q s' Q'"
        using c(4) by (rule keeps_waits_trans)
      ultimately show thesis using c(2,3) that by blast
    next
      case False
      have idle: "t_state (threads s u) \<noteq> RUNNING" for u
        using sched_invD(6) [OF inv, of u] False cur(1) by (auto simp: placed_def)
      obtain s' Q' where c: "(if RunQueueBits s = 0
          then Some ((OSSetCurrentThread None s)\<lparr>cur_ctx := IdleCtx\<rparr>) else Dispatch s) = Some s'"
        "sched_inv {} s' Q'" "dispatched s' Q'" "keeps_waits s Q s' Q'"
        by (rule choose_inv [OF inv idle])
      have "SelectThread b s = Some s'"
        using c(1) False cur enabled by (simp add: SelectThread_def OSGetCurrentThread_def Let_def)
      then show thesis using c(2-4) that by blast
    qed
  qed
qed

text \<open>With the scheduler locked or from an exception handler nothing happens.\<close>

lemma SelectThread_deferred:
  assumes "0 < Reschedule s \<or> current s = None \<or> (\<exists>t. current s = Some t \<and> cur_ctx s \<noteq> ThreadCtx t)"
  shows "SelectThread b s = Some s"
  using assms by (auto simp: SelectThread_def OSGetCurrentThread_def)

lemma OSReschedule_inv:
  assumes inv: "sched_inv {} s Q"
  obtains s' Q' where "OSReschedule s = Some s'" "sched_inv {} s' Q'" "keeps_waits s Q s' Q'"
    "RunQueueHint s \<Longrightarrow> Reschedule s \<le> 0 \<Longrightarrow> current s = Some t \<Longrightarrow> cur_ctx s = ThreadCtx t
      \<Longrightarrow> dispatched s' Q'"
proof (cases "RunQueueHint s \<and> Reschedule s \<le> 0 \<and> (\<exists>u. current s = Some u \<and> cur_ctx s = ThreadCtx u)")
  case True
  then obtain u where u: "current s = Some u" "cur_ctx s = ThreadCtx u" "Reschedule s \<le> 0"
    by auto
  obtain s' Q' where "SelectThread False s = Some s'" "sched_inv {} s' Q'" "dispatched s' Q'"
    "keeps_waits s Q s' Q'"
    by (rule SelectThread_inv [OF inv u])
  with True show thesis by (intro that) (auto simp: OSReschedule_def)
next
  case False
  then have "OSReschedule s = Some s"
    using SelectThread_deferred [of s False] by (cases "current s") (auto simp: OSReschedule_def)
  with inv False show thesis by (intro that [of s Q]) auto
qed

section \<open>Waking a queue\<close>

definition woken :: "kernel \<Rightarrow> tid list \<Rightarrow> qid \<Rightarrow> (qid \<Rightarrow> tid list) \<Rightarrow> qid \<Rightarrow> tid list" where
  "woken s ws q Q r = (if r = q then [] else case r of
     RunQ p \<Rightarrow> Q r @ filter (\<lambda>t. t_suspend (threads s t) \<le> 0 \<and> t_priority (threads s t) = p) ws
   | _ \<Rightarrow> Q r)"

lemma wakeup_step_inv:
  assumes inv: "sched_inv {} s Q" and q: "Q q = h # vs" "\<not> is_runq q"
  defines "s2 \<equiv> set_state h READY (on_queue (q_pop_head h) q s)"
  defines "s3 \<equiv> (if t_suspend (threads s2 h) \<le> 0 then SetRun h s2 else s2)"
  defines "p \<equiv> t_priority (threads s h)"
  shows "sched_inv {} s3 (if t_suspend (threads s h) \<le> 0
      then Q(q := vs, RunQ p := Q (RunQ p) @ [h]) else Q(q := vs))"
proof -
  have sl: "t_state (threads s h) = SLEEPING"
    using sched_invD(3) [OF inv q(2), of h] q(1) by simp
  have un: "unqueued (Q(q := vs)) h"
    using unqueued_remove [OF sched_invD(1) [OF inv], of q "[]" h vs] q by simp
  have "sched_inv {h} (on_queue (q_pop_head h) q s) (Q(q := vs))"
    using sched_inv_pop [OF inv q] by simp
  then have inv2: "sched_inv {h} s2 (Q(q := vs))"
    unfolding s2_def by (rule sched_inv_upd) (use un in auto)
  have pok: "prio_ok (threads s2 h)"
    using sched_invD(7) [OF inv, of h] by (simp add: s2_def prio_ok_def)
  show ?thesis
  proof (cases "t_suspend (threads s h) \<le> 0")
    case True
    have neq: "q \<noteq> RunQ p" using q(2) by auto
    have pq: "p = t_priority (threads s2 h)" by (simp add: p_def s2_def)
    have "sched_inv ({h} - {h}) (SetRun h s2) ((Q(q := vs))(RunQ p := (Q(q := vs)) (RunQ p) @ [h]))"
      by (rule SetRun_inv [OF inv2 _ un _ _ pok pq]) (use True in \<open>simp_all add: s2_def\<close>)
    then show ?thesis using True neq by (simp add: s3_def s2_def)
  next
    case False
    then have "sched_inv ({h} - {h}) s2 (Q(q := vs))"
      by (intro sched_inv_settle [OF inv2 _ pok]) (simp add: placed_def s2_def)
    then show ?thesis using False by (simp add: s3_def s2_def)
  qed
qed

lemma wakeup_loop_inv:
  assumes "sched_inv {} s Q" "\<not> is_runq q"
  shows "\<exists>s'. wakeup_loop q s = Some s' \<and> sched_inv {} s' (woken s (Q q) q Q) \<and>
    (\<forall>t. same_sched (threads s t) (threads s' t)) \<and>
    (\<forall>t \<in> set (Q q). t_state (threads s' t) = READY) \<and>
    (\<forall>t. t \<notin> set (Q q) \<longrightarrow> threads s' t = threads s t) \<and>
    current s' = current s \<and> cur_ctx s' = cur_ctx s \<and> Reschedule s' = Reschedule s \<and>
    mutexes s' = mutexes s \<and> mlinks s' = mlinks s \<and>
    RunQueueHint s' = (RunQueueHint s \<or> (\<exists>t \<in> set (Q q). t_suspend (threads s t) \<le> 0))"
  using assms
proof (induction "Q q" arbitrary: s Q)
  case Nil
  then have "wakeup_loop q s = Some s"
    using queues_ok_head [OF sched_invD(1) [OF Nil.prems(1)], of q] by (simp add: wakeup_loop.simps)
  moreover have "woken s [] q Q = Q"
    using Nil.hyps by (auto simp: woken_def fun_eq_iff split: qid.splits)
  ultimately show ?case using Nil by (metis empty_iff empty_set same_sched_refl)
next
  case (Cons h vs)
  note q = Cons.hyps(2) [symmetric]
  let ?s2 = "set_state h READY (on_queue (q_pop_head h) q s)"
  let ?s3 = "if t_suspend (threads ?s2 h) \<le> 0 then SetRun h ?s2 else ?s2"
  let ?p = "t_priority (threads s h)"
  let ?Q = "if t_suspend (threads s h) \<le> 0
      then Q(q := vs, RunQ ?p := Q (RunQ ?p) @ [h]) else Q(q := vs)"
  have step: "wakeup_loop q s = wakeup_loop q ?s3"
    using queues_ok_head [OF sched_invD(1) [OF Cons.prems(1)], of q] q
    by (simp add: wakeup_loop.simps [of q s] Let_def)
  have qv: "vs = ?Q q" using Cons.prems(2) by auto
  have ss: "same_sched (threads s t) (threads ?s3 t)" for t
    by (simp add: same_sched_def)
  have hv: "h \<notin> set vs"
    using queues_ok_distinct [OF sched_invD(1) [OF Cons.prems(1)], of q] q by simp
  have sus: "t_suspend (threads ?s3 t) = t_suspend (threads s t)"
    "t_priority (threads ?s3 t) = t_priority (threads s t)" for t
    using ss [of t] by (simp_all add: same_sched_def del: upd_sel SetRun_sel)
  have w: "woken ?s3 vs q ?Q = woken s (h # vs) q Q"
    unfolding woken_def fun_eq_iff sus using Cons.prems(2) by (auto split: qid.splits)
  obtain s' where s': "wakeup_loop q ?s3 = Some s'" "sched_inv {} s' (woken ?s3 (?Q q) q ?Q)"
    "\<forall>t. same_sched (threads ?s3 t) (threads s' t)"
    "\<forall>t \<in> set (?Q q). t_state (threads s' t) = READY"
    "\<forall>t. t \<notin> set (?Q q) \<longrightarrow> threads s' t = threads ?s3 t"
    "current s' = current ?s3" "cur_ctx s' = cur_ctx ?s3" "Reschedule s' = Reschedule ?s3"
    "mutexes s' = mutexes ?s3" "mlinks s' = mlinks ?s3"
    "RunQueueHint s' = (RunQueueHint ?s3 \<or> (\<exists>t \<in> set (?Q q). t_suspend (threads ?s3 t) \<le> 0))"
    using Cons.hyps(1) [OF qv wakeup_step_inv [OF Cons.prems(1) q Cons.prems(2)] Cons.prems(2)]
    by blast
  have st: "t_state (threads s' t) = READY" if "t \<in> set (h # vs)" for t
    using that s'(4,5) hv qv by (cases "t = h") auto
  have other: "threads s' t = threads s t" if "t \<notin> set (h # vs)" for t
    using that s'(5) qv by simp
  show ?case
    unfolding step s'(1) q
  proof (intro exI [of _ s'] conjI ballI allI impI)
    show "sched_inv {} s' (woken s (h # vs) q Q)" using s'(2) w qv by (simp only:)
    show "same_sched (threads s t) (threads s' t)" for t
      using ss [of t] s'(3) same_sched_trans by blast
    show "t_state (threads s' t) = READY" if "t \<in> set (h # vs)" for t by (rule st [OF that])
    show "threads s' t = threads s t" if "t \<notin> set (h # vs)" for t by (rule other [OF that])
    show "RunQueueHint s' = (RunQueueHint s \<or> (\<exists>t \<in> set (h # vs). t_suspend (threads s t) \<le> 0))"
      unfolding s'(11) sus qv [symmetric] by simp
  qed (simp_all add: s' del: upd_sel(1) SetRun_sel(1))
qed


lemma OSWakeupThread_inv:
  assumes inv: "sched_inv {} s Q" and q: "\<not> is_runq q"
  obtains s' Q' where "OSWakeupThread q s = Some s'" "sched_inv {} s' Q'" "Q' q = []"
    "\<And>r. \<not> is_runq r \<Longrightarrow> r \<noteq> q \<Longrightarrow> Q' r = Q r"
    "\<And>t. same_sched (threads s t) (threads s' t)"
    "mutexes s' = mutexes s" "mlinks s' = mlinks s" "Reschedule s' = Reschedule s"
    "\<And>t. t \<in> set (Q q) \<Longrightarrow> t_suspend (threads s t) \<le> 0 \<Longrightarrow> Reschedule s \<le> 0 \<Longrightarrow>
       current s = Some u \<Longrightarrow> cur_ctx s = ThreadCtx u \<Longrightarrow> dispatched s' Q'"
proof -
  obtain s1 where s1: "wakeup_loop q s = Some s1" "sched_inv {} s1 (woken s (Q q) q Q)"
    "\<forall>t. same_sched (threads s t) (threads s1 t)"
    "current s1 = current s" "cur_ctx s1 = cur_ctx s" "Reschedule s1 = Reschedule s"
    "mutexes s1 = mutexes s" "mlinks s1 = mlinks s"
    "RunQueueHint s1 = (RunQueueHint s \<or> (\<exists>t \<in> set (Q q). t_suspend (threads s t) \<le> 0))"
    using wakeup_loop_inv [OF inv q] by blast
  obtain s' Q' where s': "OSReschedule s1 = Some s'" "sched_inv {} s' Q'"
    "keeps_waits s1 (woken s (Q q) q Q) s' Q'"
    "RunQueueHint s1 \<Longrightarrow> Reschedule s1 \<le> 0 \<Longrightarrow> current s1 = Some u \<Longrightarrow> cur_ctx s1 = ThreadCtx u
      \<Longrightarrow> dispatched s' Q'"
    using OSReschedule_inv [OF s1(2)] by metis
  have w: "Q' r = woken s (Q q) q Q r" if "\<not> is_runq r" for r
    using s'(3) that by (simp add: keeps_waits_def)
  show thesis
  proof (rule that)
    show "OSWakeupThread q s = Some s'" using s1(1) s'(1) by (simp add: OSWakeupThread_def)
    show "sched_inv {} s' Q'" by (rule s'(2))
    show "Q' q = []" using w [OF q] by (simp add: woken_def)
    show "Q' r = Q r" if "\<not> is_runq r" "r \<noteq> q" for r
      using w [OF that(1)] that by (cases r) (simp_all add: woken_def)
    show "same_sched (threads s t) (threads s' t)" for t
      using s1(3) s'(3) same_sched_trans unfolding keeps_waits_def by blast
    show "mutexes s' = mutexes s" "mlinks s' = mlinks s" "Reschedule s' = Reschedule s"
      using s'(3) s1(6-8) by (simp_all add: keeps_waits_def)
    show "dispatched s' Q'" if "t \<in> set (Q q)" "t_suspend (threads s t) \<le> 0" "Reschedule s \<le> 0"
      "current s = Some u" "cur_ctx s = ThreadCtx u" for t
    proof (rule s'(4))
      show "RunQueueHint s1" using s1(9) that(1,2) by blast
    qed (use that s1(4-6) in simp_all)
  qed
qed

section \<open>Going to sleep\<close>

lemma OSSleepThread_inv:
  assumes inv: "sched_inv {} s Q" and q: "\<not> is_runq q" and t: "current s = Some t"
    "t_state (threads s t) = RUNNING"
  obtains s' Q' where "OSSleepThread q s = Some s'" "sched_inv {} s' Q'"
    "Q' q = prio_insert s t (Q q)" "\<And>r. \<not> is_runq r \<Longrightarrow> r \<noteq> q \<Longrightarrow> Q' r = Q r"
    "\<And>u. same_sched (threads s u) (threads s' u)"
    "mutexes s' = mutexes s" "mlinks s' = mlinks s" "Reschedule s' = Reschedule s"
    "Reschedule s \<le> 0 \<Longrightarrow> cur_ctx s = ThreadCtx t \<Longrightarrow> dispatched s' Q' \<and> current s' \<noteq> Some t"
proof -
  have un: "unqueued Q t" by (rule unqueued_other_state [OF inv]) (simp_all add: t)
  let ?s1 = "set_queue t (Some q) (set_state t SLEEPING s)"
  have inv1: "sched_inv {t} ?s1 Q"
    using un inv by (intro sched_inv_upd) (auto intro: sched_inv_weaken)
  have pok: "prio_ok (threads ?s1 t)"
    using sched_invD(7) [OF inv, of t] by (simp add: prio_ok_def)
  obtain s2 where s2: "insert_by_priority t q ?s1 = Some s2"
    "sched_inv ({t} - {t}) s2 (Q(q := prio_insert ?s1 t (Q q)))" "\<exists>f. s2 = on_queue f q ?s1"
    by (rule insert_by_priority_inv [OF inv1 _ un _ pok _ q]) simp_all
  have ins: "prio_insert ?s1 t (Q q) = prio_insert s t (Q q)"
  proof -
    have "t_priority (threads ?s1 u) = t_priority (threads s u)" for u by simp
    then show ?thesis by (simp only: prio_insert_def)
  qed
  let ?Q2 = "Q(q := prio_insert s t (Q q))"
  let ?s3 = "s2\<lparr>RunQueueHint := True\<rparr>"
  have inv3: "sched_inv {} ?s3 ?Q2" using s2(2) by (simp add: ins)
  have sel: "threads ?s3 = threads ?s1" "current ?s3 = current s" "cur_ctx ?s3 = cur_ctx s"
    "Reschedule ?s3 = Reschedule s" "mutexes ?s3 = mutexes s" "mlinks ?s3 = mlinks s"
    using s2(3) by auto
  obtain s' Q' where s': "OSReschedule ?s3 = Some s'" "sched_inv {} s' Q'"
    "keeps_waits ?s3 ?Q2 s' Q'"
    "RunQueueHint ?s3 \<Longrightarrow> Reschedule ?s3 \<le> 0 \<Longrightarrow> current ?s3 = Some t \<Longrightarrow> cur_ctx ?s3 = ThreadCtx t
      \<Longrightarrow> dispatched s' Q'"
    using OSReschedule_inv [OF inv3] by metis
  have w: "Q' r = ?Q2 r" if "\<not> is_runq r" for r
    using s'(3) that by (simp add: keeps_waits_def)
  show thesis
  proof (rule that)
    show "OSSleepThread q s = Some s'"
      using s2(1) s'(1) t(1) by (simp add: OSSleepThread_def OSGetCurrentThread_def Let_def)
    show "sched_inv {} s' Q'" by (rule s'(2))
    show "Q' q = prio_insert s t (Q q)" using w [OF q] by simp
    show "Q' r = Q r" if "\<not> is_runq r" "r \<noteq> q" for r using w that by simp
    show "same_sched (threads s u) (threads s' u)" for u
    proof -
      have "same_sched (threads s u) (threads ?s3 u)" unfolding sel by (simp add: same_sched_def)
      then show ?thesis using s'(3) same_sched_trans unfolding keeps_waits_def by blast
    qed
    show "mutexes s' = mutexes s" "mlinks s' = mlinks s" "Reschedule s' = Reschedule s"
      using s'(3) by (simp_all add: keeps_waits_def sel)
    show "dispatched s' Q' \<and> current s' \<noteq> Some t" if "Reschedule s \<le> 0" "cur_ctx s = ThreadCtx t"
    proof
      show d: "dispatched s' Q'" by (rule s'(4)) (use that sel t in auto)
      show "current s' \<noteq> Some t"
      proof
        assume "current s' = Some t"
        then have "t_state (threads s' t) = RUNNING" using d by (simp add: dispatched_def)
        moreover have "t \<in> set (Q' q)" using w [OF q] by simp
        ultimately show False using sched_invD(3) [OF s'(2) q, of t] by simp
      qed
    qed
  qed
qed

end
