(* ===== verification/Mutex.thy ===== *)
theory Mutex
  imports Thread
begin

text \<open>
  \<^verbatim>\<open>os/OSMutex.c\<close>: recursive mutexes with priority inheritance.  A thread's
  \<^verbatim>\<open>mutexQueue\<close> lists the mutexes it owns; \<open>mlinks\<close> of the kernel state holds
  their links.

  \<^verbatim>\<open>OSLockMutex\<close> is a loop with a sleep in it.  \<open>LockMutex_try\<close> is one round of the
  loop: True when it ends the loop, False when the thread went to sleep in the mutex's queue.
  \<open>LockMutex_resume\<close> is what the same thread runs when it is dispatched again: it clears
  \<^verbatim>\<open>currThread->mutex\<close> and starts the next round.
\<close>

definition upd_mutex :: "mid \<Rightarrow> (OSMutex \<Rightarrow> OSMutex) \<Rightarrow> kernel \<Rightarrow> kernel" where
  "upd_mutex m f s = s\<lparr>mutexes := (mutexes s)(m := f (mutexes s m))\<rparr>"

definition on_mutexQueue ::
  "(mid links \<times> mid queue \<Rightarrow> mid links \<times> mid queue) \<Rightarrow> tid \<Rightarrow> kernel \<Rightarrow> kernel" where
  "on_mutexQueue f t s = (case f (mlinks s, t_mutexQueue (threads s t)) of
     (L, mq) \<Rightarrow> upd t (t_mutexQueue_update (\<lambda>_. mq)) (s\<lparr>mlinks := L\<rparr>))"

definition OSInitMutex :: "mid \<Rightarrow> kernel \<Rightarrow> kernel" where
  "OSInitMutex m s =
     upd_mutex m (\<lambda>mx. mx\<lparr>m_thread := None, m_lock := 0\<rparr>) (OSInitThreadQueue (MutexQ m) s)"

text \<open>Taking a free mutex, the same in \<^verbatim>\<open>OSLockMutex\<close> and \<^verbatim>\<open>OSTryLockMutex\<close>.\<close>

definition acquire :: "mid \<Rightarrow> tid \<Rightarrow> kernel \<Rightarrow> kernel" where
  "acquire m t s =
     (let s = upd_mutex m (m_thread_update (\<lambda>_. Some t)) s;
          s = upd_mutex m (\<lambda>mx. mx\<lparr>m_lock := s32 (m_lock mx + 1)\<rparr>) s
      in on_mutexQueue (q_append m) t s)"

definition LockMutex_try :: "mid \<Rightarrow> kernel \<Rightarrow> (bool \<times> kernel) option" where
  "LockMutex_try m s = do {
     t \<leftarrow> OSGetCurrentThread s;
     (case m_thread (mutexes s m) of
        None \<Rightarrow> Some (True, acquire m t s)
      | Some owner \<Rightarrow>
          if owner = t
          then Some (True, upd_mutex m (\<lambda>mx. mx\<lparr>m_lock := s32 (m_lock mx + 1)\<rparr>) s)
          else do {
            let s = set_mutex t (Some m) s;
            s \<leftarrow> OSPromoteThread owner (t_priority (threads s t)) s;
            s \<leftarrow> OSSleepThread (MutexQ m) s;
            Some (False, s)
          })
   }"

definition LockMutex_resume :: "mid \<Rightarrow> kernel \<Rightarrow> (bool \<times> kernel) option" where
  "LockMutex_resume m s = do {
     t \<leftarrow> OSGetCurrentThread s;
     LockMutex_try m (set_mutex t None s)
   }"

definition OSTryLockMutex :: "mid \<Rightarrow> kernel \<Rightarrow> (bool \<times> kernel) option" where
  "OSTryLockMutex m s =
     (case m_thread (mutexes s m) of
        None \<Rightarrow> (case OSGetCurrentThread s of None \<Rightarrow> None | Some t \<Rightarrow> Some (True, acquire m t s))
      | Some owner \<Rightarrow>
          if OSGetCurrentThread s = Some owner
          then Some (True, upd_mutex m (\<lambda>mx. mx\<lparr>m_lock := s32 (m_lock mx + 1)\<rparr>) s)
          else Some (False, s))"

text \<open>
  The comparison \<^verbatim>\<open>mutex->thread == currThread\<close> also holds when both are NULL; then the
  unlock of a mutex nobody owns reads through NULL once the count drops to zero.
\<close>

definition OSUnlockMutex :: "mid \<Rightarrow> kernel \<Rightarrow> kernel option" where
  "OSUnlockMutex m s =
     (if m_thread (mutexes s m) \<noteq> OSGetCurrentThread s then Some s
      else
        let s = upd_mutex m (\<lambda>mx. mx\<lparr>m_lock := s32 (m_lock mx - 1)\<rparr>) s
        in if m_lock (mutexes s m) \<noteq> 0 then Some s
           else do {
             t \<leftarrow> OSGetCurrentThread s;
             let s = on_mutexQueue (q_unlink m) t s;
             let s = upd_mutex m (m_thread_update (\<lambda>_. None)) s;
             s \<leftarrow> (if t_priority (threads s t) < t_base (threads s t)
                   then do {
                     p \<leftarrow> OSGetEffectivePriority t s;
                     Some (set_priority t p s)
                   }
                   else Some s);
             OSWakeupThread (MutexQ m) s
           })"

text \<open>
  \<^verbatim>\<open>__OSUnlockAllMutex\<close> releases every mutex of a thread.  Each \<^verbatim>\<open>OSWakeupThread\<close>
  in the loop may switch threads, and then the rest of the loop runs only when the caller is
  dispatched again; since the loop's whole state is the queue, it goes on by calling the same
  function once more.  The result is True when the loop ran to its end.
\<close>

partial_function (option) OSUnlockAllMutex :: "tid \<Rightarrow> kernel \<Rightarrow> (bool \<times> kernel) option" where
  "OSUnlockAllMutex t s = (case qhead (t_mutexQueue (threads s t)) of None \<Rightarrow> Some (True, s)
     | Some m \<Rightarrow> do {
         let s1 = on_mutexQueue (q_pop_head m) t s;
         let s1 = upd_mutex m (\<lambda>mx. mx\<lparr>m_lock := 0\<rparr>) s1;
         let s1 = upd_mutex m (m_thread_update (\<lambda>_. None)) s1;
         s1 \<leftarrow> OSWakeupThread (MutexQ m) s1;
         if current s1 \<noteq> current s then Some (False, s1) else OSUnlockAllMutex t s1
       })"

end
