(* ===== verification/Priority.thy ===== *)
theory Priority
  imports ThreadProps Mutex
begin

text \<open>
  Priority inheritance: \<^verbatim>\<open>__OSGetEffectivePriority\<close>, \<^verbatim>\<open>SetEffectivePriority\<close>,
  \<^verbatim>\<open>UpdatePriority\<close> and \<^verbatim>\<open>__OSPromoteThread\<close> on consistent states.

  \<open>waits_for\<close> is the step from a thread to the owner of the mutex it sleeps on, and
  \<open>wait_chain s t ts\<close> says that the chain from \<open>t\<close> ends after the threads \<open>ts\<close>; the
  two loops terminate along it.  \<open>mutex_inv\<close> relates the owners' mutex lists with the
  mutexes, and \<open>inherits\<close> says that a thread has the priority it should have.
\<close>

section \<open>Wait chains\<close>

definition waits_for :: "kernel \<Rightarrow> tid \<Rightarrow> tid option" where
  "waits_for s t = (if t_state (threads s t) = SLEEPING then
     (case t_mutex (threads s t) of None \<Rightarrow> None | Some m \<Rightarrow> m_thread (mutexes s m)) else None)"

inductive wait_chain :: "kernel \<Rightarrow> tid \<Rightarrow> tid list \<Rightarrow> bool" for s where
  chain_end: "waits_for s t = None \<Longrightarrow> wait_chain s t [t]"
| chain_step: "waits_for s t = Some u \<Longrightarrow> wait_chain s u us \<Longrightarrow> wait_chain s t (t # us)"

inductive_cases wait_chainE: "wait_chain s t ts"

lemma wait_chain_unique: "wait_chain s t ts \<Longrightarrow> wait_chain s t us \<Longrightarrow> ts = us"
proof (induction arbitrary: us rule: wait_chain.induct)
  case (chain_end t)
  from chain_end.prems show ?case
    by (rule wait_chainE) (use chain_end.hyps in auto)
next
  case (chain_step t u us')
  from chain_step.prems chain_step.hyps(1) obtain vs where "us = t # vs" "wait_chain s u vs"
    by (auto elim: wait_chainE)
  with chain_step.IH [of vs] show ?case by simp
qed

lemma wait_chain_hd: "wait_chain s t ts \<Longrightarrow> \<exists>us. ts = t # us"
  by (auto elim: wait_chainE)

lemma wait_chain_suffix: "wait_chain s t ts \<Longrightarrow> u \<in> set ts \<Longrightarrow> \<exists>us vs. ts = us @ vs \<and> wait_chain s u vs"
proof (induction rule: wait_chain.induct)
  case (chain_end t)
  then have "[t] = [] @ [t] \<and> wait_chain s u [t]"
    using wait_chain.chain_end [of s t] by simp
  then show ?case by blast
next
  case (chain_step t v us)
  show ?case
  proof (cases "u = t")
    case True
    with chain_step.hyps show ?thesis
      by (intro exI [of _ "[]"] exI [of _ "t # us"]) (auto intro: wait_chain.chain_step)
  next
    case False
    with chain_step.prems have "u \<in> set us" by simp
    then obtain xs vs where "us = xs @ vs" "wait_chain s u vs"
      using chain_step.IH by blast
    then show ?thesis by (intro exI [of _ "t # xs"] exI [of _ vs]) simp
  qed
qed

lemma wait_chain_distinct: "wait_chain s t ts \<Longrightarrow> distinct ts"
proof (induction rule: wait_chain.induct)
  case (chain_end t)
  then show ?case by simp
next
  case (chain_step t u us)
  have "t \<notin> set us"
  proof
    assume "t \<in> set us"
    then obtain xs vs where v: "us = xs @ vs" "wait_chain s t vs"
      using wait_chain_suffix [OF chain_step.hyps(2)] by blast
    have "vs = t # us"
      using wait_chain_unique [OF v(2) wait_chain.chain_step [OF chain_step.hyps]] .
    then have "length us = length xs + Suc (length us)" using v(1) by simp
    then show False by simp
  qed
  with chain_step.IH show ?case by simp
qed

lemma wait_chain_cong:
  assumes "wait_chain s t ts" "\<And>u. waits_for s' u = waits_for s u"
  shows "wait_chain s' t ts"
  using assms(1) by induction (auto intro: wait_chain.intros simp: assms(2))

section \<open>Changing one thread's priority\<close>

text \<open>Equal but for the priority and the queue field.\<close>

definition same_but_prio :: "OSThread \<Rightarrow> OSThread \<Rightarrow> bool" where
  "same_but_prio th th' \<longleftrightarrow> t_state th' = t_state th \<and> t_suspend th' = t_suspend th \<and>
     t_base th' = t_base th \<and> t_mutex th' = t_mutex th \<and>
     t_mutexQueue th' = t_mutexQueue th \<and> t_flags th' = t_flags th"

lemma same_but_prio_refl [simp]: "same_but_prio th th"
  by (simp add: same_but_prio_def)

lemma same_but_prio_trans: "same_but_prio a b \<Longrightarrow> same_but_prio b c \<Longrightarrow> same_but_prio a c"
  by (simp add: same_but_prio_def)

definition alive :: "OSThread \<Rightarrow> bool" where
  "alive th \<longleftrightarrow> t_state th \<noteq> MORIBUND \<and> t_state th \<noteq> EXITED"

text \<open>One change of priority: \<open>s\<close>, \<open>Q\<close> before and \<open>s'\<close>, \<open>Q'\<close> after.\<close>

definition reprioritised ::
  "tid \<Rightarrow> int \<Rightarrow> kernel \<Rightarrow> (qid \<Rightarrow> tid list) \<Rightarrow> kernel \<Rightarrow> (qid \<Rightarrow> tid list) \<Rightarrow> bool" where
  "reprioritised t p s Q s' Q' \<longleftrightarrow>
     (\<forall>u. same_but_prio (threads s u) (threads s' u)) \<and>
     (\<forall>u. u \<noteq> t \<longrightarrow> threads s' u = threads s u) \<and>
     t_priority (threads s' t) = (if alive (threads s t) then p else t_priority (threads s t)) \<and>
     mutexes s' = mutexes s \<and> mlinks s' = mlinks s \<and> current s' = current s \<and>
     cur_ctx s' = cur_ctx s \<and> Reschedule s' = Reschedule s \<and>
     (\<forall>q. \<not> is_runq q \<and> t \<notin> set (Q q) \<longrightarrow> Q' q = Q q) \<and>
     (\<forall>q. \<not> is_runq q \<longrightarrow> set (Q' q) = set (Q q))"

lemma SetEffectivePriority_inv:
  assumes inv: "sched_inv {} s Q" and sus: "t_suspend (threads s t) \<le> 0"
    and p: "0 \<le> p" "p \<le> 31"
  obtains s' Q' where "SetEffectivePriority t p s = Some (waits_for s t, s')"
    "sched_inv {} s' Q'" "reprioritised t p s Q s' Q'"
proof (cases "t_state (threads s t)")
  case READY
  have tq: "t \<in> set (Q (RunQ (t_priority (threads s t))))"
    using sched_invD(6) [OF inv, of t] READY sus by (simp add: placed_def)
  obtain s1 us vs where u: "UnsetRun t s = Some s1" "Q (RunQ (t_priority (threads s t))) = us @ t # vs"
    "sched_inv (insert t {}) s1 (Q(RunQ (t_priority (threads s t)) := us @ vs))"
    "unqueued (Q(RunQ (t_priority (threads s t)) := us @ vs)) t"
    "threads s1 = (threads s)(t := (threads s t)\<lparr>t_queue := None\<rparr>)"
    "current s1 = current s" "mutexes s1 = mutexes s" "mlinks s1 = mlinks s"
    "RunQueueHint s1 = RunQueueHint s" "cur_ctx s1 = cur_ctx s" "Reschedule s1 = Reschedule s"
    by (rule UnsetRun_inv [OF inv tq])
  let ?Q1 = "Q(RunQ (t_priority (threads s t)) := us @ vs)"
  let ?s2 = "set_queue t (Some (RunQ p)) (set_priority t p s1)"
  have inv2: "sched_inv {t} ?s2 ?Q1"
    using u(3,4) by (intro sched_inv_upd) simp_all
  have pok: "prio_ok (threads ?s2 t)"
    using sched_invD(7) [OF inv, of t] p by (simp add: prio_ok_def u(5))
  have "sched_inv ({t} - {t}) (SetRun t ?s2) (?Q1(RunQ p := ?Q1 (RunQ p) @ [t]))"
    by (rule SetRun_inv [OF inv2 _ u(4) _ _ pok]) (use READY sus in \<open>simp_all add: u(5)\<close>)
  then have "sched_inv {} (SetRun t ?s2) (?Q1(RunQ p := ?Q1 (RunQ p) @ [t]))"
    by (simp only: Diff_cancel)
  moreover have "SetEffectivePriority t p s = Some (waits_for s t, SetRun t ?s2)"
    using READY u(1) by (simp add: SetEffectivePriority_def waits_for_def Let_def)
  moreover have "reprioritised t p s Q (SetRun t ?s2) (?Q1(RunQ p := ?Q1 (RunQ p) @ [t]))"
    using READY u(6-) by (auto simp: reprioritised_def same_but_prio_def u(5) alive_def)
  ultimately show thesis using that by blast
next
  case SLEEPING
  then obtain q where q: "\<not> is_runq q" "t \<in> set (Q q)"
    using sched_invD(6) [OF inv, of t] by (auto simp: placed_def)
  then obtain us vs where sp: "Q q = us @ t # vs" by (auto dest: split_list)
  have tq: "t_queue (threads s t) = Some q"
    using queues_okD(2) [OF sched_invD(1) [OF inv] q(2)] .
  let ?s1 = "on_queue (q_unlink t) q s" and ?Q1 = "Q(q := us @ vs)"
  let ?s2 = "set_priority t p ?s1"
  have un: "unqueued ?Q1 t" using unqueued_remove [OF sched_invD(1) [OF inv] sp] .
  have "sched_inv {t} ?s1 ?Q1"
    using sched_inv_leave [OF inv sp q(1)] by simp
  then have inv2: "sched_inv {t} ?s2 ?Q1"
    by (rule sched_inv_upd) (use un in auto)
  have pok: "prio_ok (threads ?s2 t)"
    using sched_invD(7) [OF inv, of t] p by (simp add: prio_ok_def)
  obtain s' where s': "insert_by_priority t q ?s2 = Some s'"
    "sched_inv ({t} - {t}) s' (?Q1(q := prio_insert ?s2 t (?Q1 q)))" "\<exists>f. s' = on_queue f q ?s2"
    by (rule insert_by_priority_inv [OF inv2 _ un _ pok _ q(1)])
      (use SLEEPING tq in simp_all)
  have "SetEffectivePriority t p s = Some (waits_for s t, s')"
    using SLEEPING tq s'(1,3) by (auto simp: SetEffectivePriority_def waits_for_def Let_def split: option.splits)
  moreover have "reprioritised t p s Q s' (?Q1(q := prio_insert ?s2 t (?Q1 q)))"
    using SLEEPING s'(3) sp q(2)
    by (auto simp: reprioritised_def same_but_prio_def alive_def)
  ultimately show thesis using s'(2) that by simp
next
  case RUNNING
  have un: "unqueued Q t" by (rule unqueued_other_state [OF inv]) (simp_all add: RUNNING)
  let ?s = "set_priority t p (s\<lparr>RunQueueHint := True\<rparr>)"
  have "sched_inv {t} ?s Q"
    by (rule sched_inv_upd) (use inv un in \<open>auto intro: sched_inv_weaken\<close>)
  moreover have "placed ?s Q t" "prio_ok (threads ?s t)"
    using sched_invD(6,7) [OF inv, of t] RUNNING p by (simp_all add: placed_def prio_ok_def)
  ultimately have "sched_inv ({t} - {t}) ?s Q" by (rule sched_inv_settle)
  moreover have "reprioritised t p s Q ?s Q"
    using RUNNING by (auto simp: reprioritised_def same_but_prio_def alive_def)
  ultimately show thesis
    using RUNNING by (intro that [of ?s Q]) (simp_all add: SetEffectivePriority_def waits_for_def)
next
  case EXITED
  then show thesis
    using inv by (intro that [of s Q])
      (simp_all add: SetEffectivePriority_def waits_for_def reprioritised_def alive_def)
next
  case MORIBUND
  then show thesis
    using inv by (intro that [of s Q])
      (simp_all add: SetEffectivePriority_def waits_for_def reprioritised_def alive_def)
qed

lemma reprioritised_waits_for: "reprioritised t p s Q s' Q' \<Longrightarrow> waits_for s' u = waits_for s u"
  by (simp add: reprioritised_def same_but_prio_def waits_for_def split: option.splits)


text \<open>A sequence of such changes, of any threads.\<close>

definition only_prios ::
  "kernel \<Rightarrow> (qid \<Rightarrow> tid list) \<Rightarrow> kernel \<Rightarrow> (qid \<Rightarrow> tid list) \<Rightarrow> bool" where
  "only_prios s Q s' Q' \<longleftrightarrow>
     (\<forall>u. same_but_prio (threads s u) (threads s' u)) \<and>
     mutexes s' = mutexes s \<and> mlinks s' = mlinks s \<and> current s' = current s \<and>
     cur_ctx s' = cur_ctx s \<and> Reschedule s' = Reschedule s \<and>
     (\<forall>q. \<not> is_runq q \<longrightarrow> set (Q' q) = set (Q q))"

lemma only_prios_refl [simp]: "only_prios s Q s Q"
  by (simp add: only_prios_def)

lemma only_prios_trans:
  "only_prios s Q s1 Q1 \<Longrightarrow> only_prios s1 Q1 s2 Q2 \<Longrightarrow> only_prios s Q s2 Q2"
  unfolding only_prios_def using same_but_prio_trans by metis

lemma reprioritised_only_prios: "reprioritised t p s Q s' Q' \<Longrightarrow> only_prios s Q s' Q'"
  by (simp add: reprioritised_def only_prios_def)

lemma only_prios_waits_for: "only_prios s Q s' Q' \<Longrightarrow> waits_for s' u = waits_for s u"
  by (simp add: only_prios_def same_but_prio_def waits_for_def split: option.splits)

section \<open>Promotion\<close>

text \<open>
  The threads that a promotion to \<open>prio\<close> reaches: along the chain, up to the first that is
  suspended or already as urgent.
\<close>

definition promoted :: "kernel \<Rightarrow> int \<Rightarrow> tid list \<Rightarrow> tid set" where
  "promoted s prio ts = {u \<in> set (takeWhile (\<lambda>u. t_suspend (threads s u) \<le> 0 \<and>
     prio < t_priority (threads s u)) ts). alive (threads s u)}"

lemma promoted_simps:
  "promoted s prio [] = {}"
  "promoted s prio (u # us) = (if t_suspend (threads s u) \<le> 0 \<and> prio < t_priority (threads s u)
     then (if alive (threads s u) then {u} else {}) \<union> promoted s prio us else {})"
  by (auto simp: promoted_def)

lemma promoted_cong:
  "(\<And>u. u \<in> set us \<Longrightarrow> threads s' u = threads s u) \<Longrightarrow> promoted s' prio us = promoted s prio us"
  by (induction us) (simp_all add: promoted_simps)

lemma OSPromoteThread_inv:
  assumes "wait_chain s t ts" "sched_inv {} s Q" and p: "0 \<le> prio" "prio \<le> 31"
  shows "\<exists>s' Q'. OSPromoteThread t prio s = Some s' \<and> sched_inv {} s' Q' \<and> only_prios s Q s' Q' \<and>
    (\<forall>u. t_priority (threads s' u) =
       (if u \<in> promoted s prio ts then prio else t_priority (threads s u)))"
  using assms(1,2)
proof (induction ts arbitrary: s t Q rule: list.induct)
  case Nil
  then show ?case by (auto elim: wait_chainE)
next
  case (Cons x us)
  then have x: "x = t" using wait_chain_hd by blast
  show ?case
  proof (cases "t_suspend (threads s t) \<le> 0 \<and> prio < t_priority (threads s t)")
    case False
    then have "OSPromoteThread t prio s = Some s"
      by (auto simp: OSPromoteThread.simps [of t])
    with False Cons.prems(2) x show ?thesis
      by (intro exI [of _ s] exI [of _ Q]) (auto simp: promoted_simps)
  next
    case True
    obtain s1 Q1 where s1: "SetEffectivePriority t prio s = Some (waits_for s t, s1)"
      "sched_inv {} s1 Q1" "reprioritised t prio s Q s1 Q1"
      using SetEffectivePriority_inv [OF Cons.prems(2) _ p] True by blast
    have step: "OSPromoteThread t prio s =
        (case waits_for s t of None \<Rightarrow> Some s1 | Some u \<Rightarrow> OSPromoteThread u prio s1)"
      using True s1(1) by (simp add: OSPromoteThread.simps [of t] split: option.splits)
    note op = reprioritised_only_prios [OF s1(3)]
    have pr: "t_priority (threads s1 u) = (if u = t \<and> alive (threads s t) then prio else t_priority (threads s u))" for u
      using s1(3) by (cases "u = t") (auto simp: reprioritised_def)
    show ?thesis
    proof (cases "waits_for s t")
      case None
      then have "us = []" using Cons.prems(1) by (auto elim: wait_chainE)
      with None step s1(2) op pr True x show ?thesis
        by (intro exI [of _ s1] exI [of _ Q1]) (auto simp: promoted_simps)
    next
      case (Some v)
      then have v: "wait_chain s v us" using Cons.prems(1) x by (auto elim: wait_chainE)
      have nt: "t \<notin> set us" using wait_chain_distinct [OF Cons.prems(1)] x by simp
      have v1: "wait_chain s1 v us"
        using wait_chain_cong [OF v] only_prios_waits_for [OF op] by blast
      obtain s' Q' where s': "OSPromoteThread v prio s1 = Some s'" "sched_inv {} s' Q'"
        "only_prios s1 Q1 s' Q'"
        "\<forall>u. t_priority (threads s' u) =
           (if u \<in> promoted s1 prio us then prio else t_priority (threads s1 u))"
        using Cons.IH [OF v1 s1(2)] by blast
      have "promoted s1 prio us = promoted s prio us"
        by (rule promoted_cong) (use nt s1(3) in \<open>auto simp: reprioritised_def\<close>)
      then have "t_priority (threads s' u) =
          (if u \<in> promoted s prio (x # us) then prio else t_priority (threads s u))" for u
        using s'(4) pr True x by (auto simp: promoted_simps)
      with step Some s' only_prios_trans [OF op s'(3)] show ?thesis
        by (intro exI [of _ s'] exI [of _ Q']) simp
    qed
  qed
qed

section \<open>Mutex ownership and inherited priorities\<close>

definition mutex_inv :: "kernel \<Rightarrow> (qid \<Rightarrow> tid list) \<Rightarrow> (tid \<Rightarrow> mid list) \<Rightarrow> bool" where
  "mutex_inv s Q M \<longleftrightarrow>
     (\<forall>t. dlist (mlinks s) (t_mutexQueue (threads s t)) (M t)) \<and>
     (\<forall>t m. m \<in> set (M t) \<longleftrightarrow> m_thread (mutexes s m) = Some t) \<and>
     (\<forall>t m. t \<in> set (Q (MutexQ m)) \<longrightarrow> t_mutex (threads s t) = Some m) \<and>
     (\<forall>t m. t_state (threads s t) = SLEEPING \<and> t_mutex (threads s t) = Some m
        \<longrightarrow> t \<in> set (Q (MutexQ m))) \<and>
     (\<forall>m. Q (MutexQ m) \<noteq> [] \<longrightarrow> m_thread (mutexes s m) \<noteq> None)"

lemma mutex_invD:
  assumes "mutex_inv s Q M"
  shows "dlist (mlinks s) (t_mutexQueue (threads s t)) (M t)"
    "m \<in> set (M t) \<longleftrightarrow> m_thread (mutexes s m) = Some t"
    "t \<in> set (Q (MutexQ m)) \<Longrightarrow> t_mutex (threads s t) = Some m"
    "t_state (threads s t) = SLEEPING \<Longrightarrow> t_mutex (threads s t) = Some m \<Longrightarrow> t \<in> set (Q (MutexQ m))"
    "Q (MutexQ m) \<noteq> [] \<Longrightarrow> m_thread (mutexes s m) \<noteq> None"
  using assms unfolding mutex_inv_def by blast+

lemma mutex_inv_only_prios:
  assumes "mutex_inv s Q M" "only_prios s Q s' Q'"
  shows "mutex_inv s' Q' M"
proof -
  have set: "set (Q' (MutexQ m)) = set (Q (MutexQ m))" for m
    using assms(2) by (simp add: only_prios_def)
  have ne: "Q' (MutexQ m) \<noteq> [] \<Longrightarrow> Q (MutexQ m) \<noteq> []" for m
    using set [of m] by (metis set_empty)
  have th: "t_state (threads s' t) = t_state (threads s t)" "t_mutex (threads s' t) = t_mutex (threads s t)"
    "t_mutexQueue (threads s' t) = t_mutexQueue (threads s t)" for t
    using assms(2) by (simp_all add: only_prios_def same_but_prio_def)
  have mx: "mutexes s' = mutexes s" "mlinks s' = mlinks s"
    using assms(2) by (simp_all add: only_prios_def)
  show ?thesis
    unfolding mutex_inv_def th mx set using mutex_invD [OF assms(1)] ne by blast
qed

text \<open>The base priority lowered by the first waiter of every owned mutex.\<close>

definition eff_prio :: "kernel \<Rightarrow> (qid \<Rightarrow> tid list) \<Rightarrow> mid list \<Rightarrow> int \<Rightarrow> int" where
  "eff_prio s Q ms b = fold (\<lambda>m p. case Q (MutexQ m) of [] \<Rightarrow> p
     | w # _ \<Rightarrow> if t_priority (threads s w) < p then t_priority (threads s w) else p) ms b"

lemma eff_prio_simps [simp]:
  "eff_prio s Q [] b = b"
  "eff_prio s Q (m # ms) b = eff_prio s Q ms (case Q (MutexQ m) of [] \<Rightarrow> b
     | w # _ \<Rightarrow> if t_priority (threads s w) < b then t_priority (threads s w) else b)"
  by (simp_all add: eff_prio_def)

lemma OSGetEffectivePriority_eff:
  assumes inv: "sched_inv X s Q" and m: "mutex_inv s Q M"
  shows "OSGetEffectivePriority t s = Some (eff_prio s Q (M t) (t_base (threads s t)))"
proof -
  have "scan_list (\<lambda>m prio. case qhead (queues s (MutexQ m)) of None \<Rightarrow> (prio, False)
          | Some w \<Rightarrow> (if t_priority (threads s w) < prio then t_priority (threads s w) else prio,
                       False)) ms b = eff_prio s Q ms b" for ms b
  proof (induction ms arbitrary: b)
    case Nil
    then show ?case by simp
  next
    case (Cons m ms)
    then show ?case
      using queues_ok_head [OF sched_invD(1) [OF inv], of "MutexQ m"]
      by (cases "Q (MutexQ m)") simp_all
  qed
  then show ?thesis
    unfolding OSGetEffectivePriority_def scan_dlist [OF mutex_invD(1) [OF m, of t]] by (simp only:)
qed

text \<open>
  It is the least of the base priority and of the priorities of all threads that wait for one
  of the mutexes.
\<close>

definition waiter_prios :: "kernel \<Rightarrow> (qid \<Rightarrow> tid list) \<Rightarrow> mid list \<Rightarrow> int set" where
  "waiter_prios s Q ms = {t_priority (threads s w) | w m. m \<in> set ms \<and> w \<in> set (Q (MutexQ m))}"

lemma eff_prio_min:
  assumes sorted: "\<And>m. sorted (map (\<lambda>w. t_priority (threads s w)) (Q (MutexQ m)))"
  shows "eff_prio s Q ms b \<le> b \<and> (\<forall>p \<in> waiter_prios s Q ms. eff_prio s Q ms b \<le> p) \<and>
    eff_prio s Q ms b \<in> insert b (waiter_prios s Q ms)"
proof (induction ms arbitrary: b)
  case Nil
  then show ?case by (simp add: waiter_prios_def)
next
  case (Cons m ms)
  define b' where "b' = (case Q (MutexQ m) of [] \<Rightarrow> b
     | w # _ \<Rightarrow> if t_priority (threads s w) < b then t_priority (threads s w) else b)"
  have e: "eff_prio s Q (m # ms) b = eff_prio s Q ms b'" by (simp add: b'_def)
  have w: "waiter_prios s Q (m # ms) =
      (\<lambda>w. t_priority (threads s w)) ` set (Q (MutexQ m)) \<union> waiter_prios s Q ms"
    by (auto simp: waiter_prios_def)
  have b': "b' \<le> b" "b' \<in> insert b ((\<lambda>w. t_priority (threads s w)) ` set (Q (MutexQ m)))"
    "\<forall>x \<in> set (Q (MutexQ m)). b' \<le> t_priority (threads s x)"
    using sorted [of m] by (cases "Q (MutexQ m)"; force simp: b'_def)+
  show ?case
    unfolding e w using Cons.IH [of b'] b' by force
qed

lemma eff_prio_bounds:
  assumes "\<And>m. sorted (map (\<lambda>w. t_priority (threads s w)) (Q (MutexQ m)))"
  shows "eff_prio s Q ms b \<le> b" "p \<in> waiter_prios s Q ms \<Longrightarrow> eff_prio s Q ms b \<le> p"
    "eff_prio s Q ms b \<in> insert b (waiter_prios s Q ms)"
  using eff_prio_min [where Q = Q and s = s and ms = ms and b = b, OF assms] by blast+

lemma eff_prio_cong:
  assumes "\<And>m. m \<in> set ms \<Longrightarrow> Q' (MutexQ m) = Q (MutexQ m)"
    "\<And>m w. m \<in> set ms \<Longrightarrow> w \<in> set (Q (MutexQ m)) \<Longrightarrow> t_priority (threads s' w) = t_priority (threads s w)"
  shows "eff_prio s' Q' ms b = eff_prio s Q ms b"
  using assms
proof (induction ms arbitrary: b)
  case Nil
  then show ?case by simp
next
  case (Cons m ms)
  have q: "Q' (MutexQ m) = Q (MutexQ m)"
    using Cons.prems(1) by simp
  have p: "t_priority (threads s' w) = t_priority (threads s w)" if "w \<in> set (Q (MutexQ m))" for w
    using Cons.prems(2) [of m w] that by simp
  have "eff_prio s' Q' ms c = eff_prio s Q ms c" for c
    by (rule Cons.IH) (use Cons.prems in auto)
  then show ?case using q p by (cases "Q (MutexQ m)") simp_all
qed


text \<open>A thread has the priority it should have.\<close>

definition inherits :: "kernel \<Rightarrow> (qid \<Rightarrow> tid list) \<Rightarrow> (tid \<Rightarrow> mid list) \<Rightarrow> tid \<Rightarrow> bool" where
  "inherits s Q M t \<longleftrightarrow> (alive (threads s t) \<and> t_suspend (threads s t) \<le> 0 \<longrightarrow>
     t_priority (threads s t) = eff_prio s Q (M t) (t_base (threads s t)))"

lemma eff_prio_range:
  assumes "sched_inv {} s Q"
  shows "0 \<le> eff_prio s Q ms (t_base (threads s t))" "eff_prio s Q ms (t_base (threads s t)) \<le> 31"
proof -
  note b = eff_prio_bounds [where s = s and Q = Q and ms = ms and b = "t_base (threads s t)",
      OF sched_invD(4) [OF assms]]
  have "0 \<le> p" if "p \<in> waiter_prios s Q ms" for p
    using that sched_invD(7) [OF assms] by (auto simp: waiter_prios_def prio_ok_def)
  then show "0 \<le> eff_prio s Q ms (t_base (threads s t))"
    using b(3) sched_invD(7) [OF assms, of t] by (auto simp: prio_ok_def)
  show "eff_prio s Q ms (t_base (threads s t)) \<le> 31"
    using b(1) sched_invD(7) [OF assms, of t] by (auto simp: prio_ok_def)
qed

lemma waiting_owner:
  assumes "sched_inv {} s Q" "mutex_inv s Q M" "t \<in> set (Q (MutexQ m))"
  shows "waits_for s t = m_thread (mutexes s m)"
  using sched_invD(3) [OF assms(1), of "MutexQ m" t] mutex_invD(3) [OF assms(2,3)] assms(3)
  by (simp add: waits_for_def)

text \<open>A change of one thread's priority leaves every effective priority but its owner's.\<close>

lemma eff_prio_reprioritised:
  assumes inv: "sched_inv {} s Q" and m: "mutex_inv s Q M" and r: "reprioritised t p s Q s' Q'"
    and v: "waits_for s t \<noteq> Some v"
  shows "eff_prio s' Q' (M v) b = eff_prio s Q (M v) b"
proof (rule eff_prio_cong)
  have nt: "t \<notin> set (Q (MutexQ n))" if "n \<in> set (M v)" for n
    using waiting_owner [OF inv m, of t n] mutex_invD(2) [OF m, of n v] that v by auto
  show "Q' (MutexQ n) = Q (MutexQ n)" if "n \<in> set (M v)" for n
    using nt [OF that] r by (simp add: reprioritised_def)
  show "t_priority (threads s' w) = t_priority (threads s w)"
    if "n \<in> set (M v)" "w \<in> set (Q (MutexQ n))" for n w
    using nt [OF that(1)] that(2) r by (cases "w = t") (auto simp: reprioritised_def)
qed

lemma UpdatePriority_inv:
  assumes "wait_chain s t ts" "sched_inv {} s Q" "mutex_inv s Q M"
    "\<And>u. u \<noteq> t \<Longrightarrow> inherits s Q M u"
  shows "\<exists>s' Q'. UpdatePriority t s = Some s' \<and> sched_inv {} s' Q' \<and> mutex_inv s' Q' M \<and>
    (\<forall>u. inherits s' Q' M u) \<and> only_prios s Q s' Q'"
  using assms
proof (induction ts arbitrary: s t Q rule: list.induct)
  case Nil
  then show ?case by (auto elim: wait_chainE)
next
  case (Cons x us)
  note chain = Cons.prems(1) and inv = Cons.prems(2) and mi = Cons.prems(3)
  have x: "x = t" using wait_chain_hd [OF chain] by blast
  let ?e = "eff_prio s Q (M t) (t_base (threads s t))"
  note eff = OSGetEffectivePriority_eff [OF inv mi, of t]
  show ?case
  proof (cases "t_suspend (threads s t) > 0 \<or> t_priority (threads s t) = ?e")
    case True
    then have "UpdatePriority t s = Some s" by (auto simp: UpdatePriority.simps [of t] eff)
    moreover have "inherits s Q M u" for u
      using True Cons.prems(4) [of u] by (cases "u = t") (auto simp: inherits_def)
    ultimately show ?thesis using inv mi by (intro exI [of _ s] exI [of _ Q]) simp
  next
    case False
    note er = eff_prio_range [OF inv, where ms = "M t" and t = t]
    obtain s1 Q1 where s1: "SetEffectivePriority t ?e s = Some (waits_for s t, s1)"
      "sched_inv {} s1 Q1" "reprioritised t ?e s Q s1 Q1"
      using SetEffectivePriority_inv [where t = t, OF inv _ er] False by auto
    note op = reprioritised_only_prios [OF s1(3)]
    have step: "UpdatePriority t s =
        (case waits_for s t of None \<Rightarrow> Some s1 | Some u \<Rightarrow> UpdatePriority u s1)"
      using False s1(1) by (auto simp: UpdatePriority.simps [of t] eff split: option.splits)
    have mi1: "mutex_inv s1 Q1 M" by (rule mutex_inv_only_prios [OF mi op])
    have nt: "t \<notin> set us" using wait_chain_distinct [OF chain] x by simp
    have self: "waits_for s t \<noteq> Some t"
    proof
      assume s: "waits_for s t = Some t"
      then have "wait_chain s t us" using chain x by (auto elim: wait_chainE)
      then show False using nt wait_chain_hd [of s t us] by auto
    qed
    have keep: "inherits s1 Q1 M u" if "waits_for s t \<noteq> Some u" for u
    proof (cases "u = t")
      case True
      have "same_but_prio (threads s t) (threads s1 t)"
        "t_priority (threads s1 t) = (if alive (threads s t) then ?e else t_priority (threads s t))"
        using s1(3) by (simp_all add: reprioritised_def)
      moreover have "eff_prio s1 Q1 (M t) b = eff_prio s Q (M t) b" for b
        by (rule eff_prio_reprioritised [OF inv mi s1(3) self])
      ultimately show ?thesis
        unfolding inherits_def True by (simp add: same_but_prio_def alive_def)
    next
      case False
      then have "threads s1 u = threads s u" using s1(3) by (simp add: reprioritised_def)
      moreover have "eff_prio s1 Q1 (M u) b = eff_prio s Q (M u) b" for b
        by (rule eff_prio_reprioritised [OF inv mi s1(3) that])
      ultimately show ?thesis
        using Cons.prems(4) [OF False] unfolding inherits_def by simp
    qed
    show ?thesis
    proof (cases "waits_for s t")
      case None
      with step s1(2) op mi1 keep show ?thesis
        by (intro exI [of _ s1] exI [of _ Q1]) simp
    next
      case (Some v)
      then have "wait_chain s v us" using chain x by (auto elim: wait_chainE)
      then have v1: "wait_chain s1 v us"
        using wait_chain_cong only_prios_waits_for [OF op] by blast
      have "inherits s1 Q1 M u" if "u \<noteq> v" for u using keep [of u] that Some by simp
      then obtain s' Q' where s': "UpdatePriority v s1 = Some s'" "sched_inv {} s' Q'"
        "mutex_inv s' Q' M" "\<forall>u. inherits s' Q' M u" "only_prios s1 Q1 s' Q'"
        using Cons.IH [OF v1 s1(2) mi1] by blast
      with step Some only_prios_trans [OF op s'(5)] show ?thesis
        by (intro exI [of _ s'] exI [of _ Q']) simp
    qed
  qed
qed

end
