(* ===== verification/Message.thy ===== *)
theory Message
  imports ThreadProps
begin

text \<open>
  \<^verbatim>\<open>os/OSMessage.c\<close>: bounded message queues.  A queue is a ring buffer and two thread
  queues, \<open>SendQ n\<close> and \<open>RecvQ n\<close> of the kernel for queue \<open>n\<close>.  The three
  operations loop around a sleep; one call of the model is one round of the loop, and a
  thread that was put to sleep calls the operation again when it is dispatched.

  \<open>ring\<close> reads the messages of a ring buffer in order.  The locale \<open>bounded_deque\<close> is
  the contract of a bounded queue with insertion at both ends, interpreted on the ring.
\<close>

section \<open>Ring buffers\<close>

record mqueue =
  mq_buffer :: "int \<Rightarrow> int"
  mq_capacity :: int
  mq_front :: int
  mq_size :: int

text \<open>The bodies of the three operations after their waiting loops.\<close>

definition mq_put :: "int \<Rightarrow> mqueue \<Rightarrow> mqueue" where
  "mq_put mesg q =
     (let mesgId = s32 (mq_front q + mq_size q) smod mq_capacity q;
          q = q\<lparr>mq_buffer := (mq_buffer q)(mesgId := mesg)\<rparr>
      in q\<lparr>mq_size := s32 (mq_size q + 1)\<rparr>)"

definition mq_jam :: "int \<Rightarrow> mqueue \<Rightarrow> mqueue" where
  "mq_jam mesg q =
     (let lastMesg = s32 (s32 (mq_front q + mq_capacity q) - 1) smod mq_capacity q;
          q = q\<lparr>mq_front := lastMesg\<rparr>;
          q = q\<lparr>mq_buffer := (mq_buffer q)(lastMesg := mesg)\<rparr>
      in q\<lparr>mq_size := s32 (mq_size q + 1)\<rparr>)"

definition mq_get :: "mqueue \<Rightarrow> int \<times> mqueue" where
  "mq_get q =
     (let mesg = mq_buffer q (mq_front q);
          q = q\<lparr>mq_front := s32 (mq_front q + 1)\<rparr>;
          q = q\<lparr>mq_front := mq_front q smod mq_capacity q\<rparr>;
          q = q\<lparr>mq_size := s32 (mq_size q - 1)\<rparr>
      in (mesg, q))"

section \<open>The operations\<close>

record mstate =
  mqueues :: "nat \<Rightarrow> mqueue"
  kern :: kernel

datatype attempt = Done bool | Asleep

definition OS_MSG_BLOCKING :: int where "OS_MSG_BLOCKING = 1"

definition on_kern :: "(kernel \<Rightarrow> kernel option) \<Rightarrow> mstate \<Rightarrow> mstate option" where
  "on_kern f s = map_option (\<lambda>k. s\<lparr>kern := k\<rparr>) (f (kern s))"

definition set_mq :: "nat \<Rightarrow> mqueue \<Rightarrow> mstate \<Rightarrow> mstate" where
  "set_mq n q s = s\<lparr>mqueues := (mqueues s)(n := q)\<rparr>"

definition OSInitMessageQueue :: "nat \<Rightarrow> (int \<Rightarrow> int) \<Rightarrow> int \<Rightarrow> mstate \<Rightarrow> mstate" where
  "OSInitMessageQueue n buffer capacity s =
     (let s = s\<lparr>kern := OSInitThreadQueue (SendQ n) (kern s)\<rparr>;
          s = s\<lparr>kern := OSInitThreadQueue (RecvQ n) (kern s)\<rparr>
      in set_mq n \<lparr>mq_buffer = buffer, mq_capacity = capacity, mq_front = 0, mq_size = 0\<rparr> s)"

definition OSSendMessage :: "nat \<Rightarrow> int \<Rightarrow> int \<Rightarrow> mstate \<Rightarrow> (attempt \<times> mstate) option" where
  "OSSendMessage n mesg flags s =
     (if mq_capacity (mqueues s n) \<le> mq_size (mqueues s n)
      then (if and flags OS_MSG_BLOCKING = 0 then Some (Done False, s)
            else map_option (\<lambda>s. (Asleep, s)) (on_kern (OSSleepThread (SendQ n)) s))
      else map_option (\<lambda>s. (Done True, s))
             (on_kern (OSWakeupThread (RecvQ n)) (set_mq n (mq_put mesg (mqueues s n)) s)))"

text \<open>The message is also returned when the C code drops it because \<^verbatim>\<open>mesg\<close> is NULL.\<close>

definition OSReceiveMessage :: "nat \<Rightarrow> int \<Rightarrow> mstate \<Rightarrow> (attempt \<times> int option \<times> mstate) option" where
  "OSReceiveMessage n flags s =
     (if mq_size (mqueues s n) = 0
      then (if and flags OS_MSG_BLOCKING = 0 then Some (Done False, None, s)
            else map_option (\<lambda>s. (Asleep, None, s)) (on_kern (OSSleepThread (RecvQ n)) s))
      else (case mq_get (mqueues s n) of (mesg, q) \<Rightarrow>
              map_option (\<lambda>s. (Done True, Some mesg, s))
                (on_kern (OSWakeupThread (SendQ n)) (set_mq n q s))))"

definition OSJamMessage :: "nat \<Rightarrow> int \<Rightarrow> int \<Rightarrow> mstate \<Rightarrow> (attempt \<times> mstate) option" where
  "OSJamMessage n mesg flags s =
     (if mq_capacity (mqueues s n) \<le> mq_size (mqueues s n)
      then (if and flags OS_MSG_BLOCKING = 0 then Some (Done False, s)
            else map_option (\<lambda>s. (Asleep, s)) (on_kern (OSSleepThread (SendQ n)) s))
      else map_option (\<lambda>s. (Done True, s))
             (on_kern (OSWakeupThread (RecvQ n)) (set_mq n (mq_jam mesg (mqueues s n)) s)))"

section \<open>The ring holds a list\<close>

declare smod_nonneg [simp]

definition ring_ok :: "mqueue \<Rightarrow> bool" where
  "ring_ok q \<longleftrightarrow> 0 < mq_capacity q \<and> mq_capacity q \<le> 2 ^ 30 \<and> 0 \<le> mq_front q \<and>
     mq_front q < mq_capacity q \<and> 0 \<le> mq_size q \<and> mq_size q \<le> mq_capacity q"

definition ring :: "mqueue \<Rightarrow> int list" where
  "ring q = map (\<lambda>i. mq_buffer q ((mq_front q + int i) mod mq_capacity q)) [0..<nat (mq_size q)]"

definition ring_rep :: "mqueue \<Rightarrow> int list \<Rightarrow> bool" where
  "ring_rep q xs \<longleftrightarrow> ring_ok q \<and> ring q = xs"

lemma ring_length: "ring_rep q xs \<Longrightarrow> int (length xs) = mq_size q"
  by (auto simp: ring_rep_def ring_def ring_ok_def)

lemma ring_slots_distinct:
  assumes "0 < (c::int)" "0 \<le> i" "i < j" "j < c + i"
  shows "(f + i) mod c \<noteq> (f + j) mod c"
proof
  assume "(f + i) mod c = (f + j) mod c"
  then have "c dvd (f + j) - (f + i)"
    by (metis mod_eq_dvd_iff)
  then have "c dvd j - i" by simp
  then have "c \<le> j - i" using assms by (intro zdvd_imp_le) auto
  then show False using assms by simp
qed

lemma ring_put:
  assumes "ring_rep q xs" "int (length xs) < mq_capacity q"
  shows "ring_rep (mq_put m q) (xs @ [m])" "mq_capacity (mq_put m q) = mq_capacity q"
proof -
  note ok = assms(1) [unfolded ring_rep_def ring_ok_def]
  have sz: "mq_size q < mq_capacity q" using assms ring_length by auto
  have id: "s32 (mq_front q + mq_size q) smod mq_capacity q = (mq_front q + mq_size q) mod mq_capacity q"
    using ok sz by (simp add: s32_id)
  have s1: "s32 (mq_size q + 1) = mq_size q + 1"
    using ok sz by (intro s32_id) auto
  have old: "mq_buffer (mq_put m q) ((mq_front q + int i) mod mq_capacity q) =
      mq_buffer q ((mq_front q + int i) mod mq_capacity q)" if "i < nat (mq_size q)" for i
    using ring_slots_distinct [of "mq_capacity q" "int i" "mq_size q" "mq_front q"] that ok sz
    by (simp add: mq_put_def Let_def id)
  have f: "mq_front (mq_put m q) = mq_front q" "mq_capacity (mq_put m q) = mq_capacity q"
    "mq_size (mq_put m q) = mq_size q + 1"
    by (simp_all add: mq_put_def Let_def s1)
  have n: "nat (mq_size q + 1) = Suc (nat (mq_size q))" using ok by (simp add: nat_add_distrib)
  have "ring (mq_put m q) = ring q @ [m]"
    unfolding ring_def f n using old ok by (simp add: mq_put_def Let_def id)
  then show "ring_rep (mq_put m q) (xs @ [m])"
    using ok sz f by (simp add: ring_rep_def ring_ok_def)
  show "mq_capacity (mq_put m q) = mq_capacity q" by (rule f)
qed

lemma ring_get:
  assumes "ring_rep q (x # xs)"
  shows "fst (mq_get q) = x" "ring_rep (snd (mq_get q)) xs"
    "mq_capacity (snd (mq_get q)) = mq_capacity q"
proof -
  note ok = assms(1) [unfolded ring_rep_def ring_ok_def]
  have sz: "0 < mq_size q" using ring_length [OF assms] by simp
  have n: "nat (mq_size q) = Suc (nat (mq_size q - 1))" using sz by simp
  have r: "ring q = mq_buffer q (mq_front q) #
      map (\<lambda>i. mq_buffer q ((mq_front q + int (Suc i)) mod mq_capacity q)) [0..<nat (mq_size q - 1)]"
    unfolding ring_def n upt_conv_Cons [OF zero_less_Suc] map_Suc_upt [symmetric] using ok by simp
  have c: "s32 (mq_front q + 1) = mq_front q + 1" "s32 (mq_size q - 1) = mq_size q - 1"
    using ok sz by (auto intro!: s32_id)
  have g: "mq_get q = (mq_buffer q (mq_front q),
      q\<lparr>mq_front := (mq_front q + 1) mod mq_capacity q, mq_size := mq_size q - 1\<rparr>)"
    using ok by (simp add: mq_get_def Let_def c)
  have "(mq_front q + int (Suc i)) mod mq_capacity q =
      ((mq_front q + 1) mod mq_capacity q + int i) mod mq_capacity q" for i
    by (simp add: mod_simps algebra_simps)
  then have "ring (snd (mq_get q)) = tl (ring q)"
    unfolding r g by (simp add: ring_def)
  then show "ring_rep (snd (mq_get q)) xs"
    using ok sz unfolding g by (simp add: ring_rep_def ring_ok_def)
  show "fst (mq_get q) = x"
    using ok r g by simp
  show "mq_capacity (snd (mq_get q)) = mq_capacity q" by (simp add: g)
qed

lemma ring_jam:
  assumes "ring_rep q xs" "int (length xs) < mq_capacity q"
  shows "ring_rep (mq_jam m q) (m # xs)" "mq_capacity (mq_jam m q) = mq_capacity q"
proof -
  note ok = assms(1) [unfolded ring_rep_def ring_ok_def]
  have sz: "mq_size q < mq_capacity q" using assms ring_length by auto
  let ?l = "(mq_front q - 1) mod mq_capacity q"
  have "(mq_front q + mq_capacity q - 1) mod mq_capacity q = ?l"
    by (metis add.commute add_diff_eq mod_add_self1)
  moreover have "s32 (s32 (mq_front q + mq_capacity q) - 1) = mq_front q + mq_capacity q - 1"
    using ok by (simp add: s32_id)
  ultimately have id: "s32 (s32 (mq_front q + mq_capacity q) - 1) smod mq_capacity q = ?l"
    using ok by simp
  have s1: "s32 (mq_size q + 1) = mq_size q + 1"
    using ok sz by (intro s32_id) auto
  have j: "mq_jam m q = q\<lparr>mq_front := ?l, mq_buffer := (mq_buffer q)(?l := m), mq_size := mq_size q + 1\<rparr>"
    by (simp add: mq_jam_def Let_def id s1)
  have n: "nat (mq_size q + 1) = Suc (nat (mq_size q))" using ok by (simp add: nat_add_distrib)
  have sh: "(?l + int (Suc i)) mod mq_capacity q = (mq_front q + int i) mod mq_capacity q" for i
    by (simp add: mod_add_left_eq)
  have other: "(mq_front q + int i) mod mq_capacity q \<noteq> ?l" if "i < nat (mq_size q)" for i
  proof -
    have "1 + int i < mq_capacity q" using that sz by linarith
    then show ?thesis
      using ring_slots_distinct [of "mq_capacity q" 0 "1 + int i" "mq_front q - 1"] ok by simp
  qed
  have "ring (mq_jam m q) = m # ring q"
    unfolding ring_def j using ok
    by (simp add: n upt_conv_Cons map_Suc_upt [symmetric] sh other del: upt_Suc of_nat_Suc)
  then show "ring_rep (mq_jam m q) (m # xs)"
    using ok sz j by (simp add: ring_rep_def ring_ok_def)
  show "mq_capacity (mq_jam m q) = mq_capacity q" by (simp add: j)
qed


section \<open>The contract of a bounded queue\<close>

locale bounded_deque =
  fixes rep :: "'q \<Rightarrow> 'a list \<Rightarrow> bool" and cap :: "'q \<Rightarrow> int"
    and put :: "'a \<Rightarrow> 'q \<Rightarrow> 'q" and jam :: "'a \<Rightarrow> 'q \<Rightarrow> 'q" and get :: "'q \<Rightarrow> 'a \<times> 'q"
  assumes put_rep: "rep q xs \<Longrightarrow> int (length xs) < cap q \<Longrightarrow> rep (put x q) (xs @ [x])"
    and put_cap: "rep q xs \<Longrightarrow> int (length xs) < cap q \<Longrightarrow> cap (put x q) = cap q"
    and jam_rep: "rep q xs \<Longrightarrow> int (length xs) < cap q \<Longrightarrow> rep (jam x q) (x # xs)"
    and jam_cap: "rep q xs \<Longrightarrow> int (length xs) < cap q \<Longrightarrow> cap (jam x q) = cap q"
    and get_rep: "rep q (x # xs) \<Longrightarrow> fst (get q) = x \<and> rep (snd (get q)) xs"
    and get_cap: "rep q (x # xs) \<Longrightarrow> cap (snd (get q)) = cap q"
begin

fun get_all :: "nat \<Rightarrow> 'q \<Rightarrow> 'a list" where
  "get_all 0 q = []"
| "get_all (Suc n) q = (case get q of (x, q) \<Rightarrow> x # get_all n q)"

lemma get_all_rep: "rep q xs \<Longrightarrow> get_all (length xs) q = xs"
proof (induction xs arbitrary: q)
  case Nil
  then show ?case by simp
next
  case (Cons x xs)
  then show ?case using get_rep [OF Cons.prems] by (auto split: prod.splits)
qed

lemma put_all_rep:
  "rep q xs \<Longrightarrow> int (length xs + length ys) \<le> cap q
   \<Longrightarrow> rep (fold put ys q) (xs @ ys) \<and> cap (fold put ys q) = cap q"
proof (induction ys arbitrary: q xs)
  case Nil
  then show ?case by simp
next
  case (Cons y ys)
  have room: "int (length xs) < cap q" using Cons.prems(2) by simp
  have "rep (fold put ys (put y q)) ((xs @ [y]) @ ys) \<and> cap (fold put ys (put y q)) = cap (put y q)"
    by (rule Cons.IH [OF put_rep [OF Cons.prems(1) room]])
      (use Cons.prems(2) put_cap [OF Cons.prems(1) room] in simp)
  then show ?case using put_cap [OF Cons.prems(1) room] by simp
qed

lemma fifo:
  assumes "rep q []" "int (length ys) \<le> cap q"
  shows "get_all (length ys) (fold put ys q) = ys"
  using put_all_rep [OF assms(1), of ys] assms(2) get_all_rep by simp

lemma jam_overtakes:
  assumes "rep q xs" "int (length xs) < cap q"
  shows "fst (get (jam x q)) = x"
  using get_rep [OF jam_rep [OF assms]] by simp

end

interpretation ringq: bounded_deque ring_rep mq_capacity mq_put mq_jam mq_get
  by unfold_locales (simp_all add: ring_put ring_jam ring_get)

end
