(* ===== verification/ThreadLife.thy ===== *)
theory ThreadLife
  imports Mutex
begin

text \<open>
  \<^verbatim>\<open>os/OSThread.c\<close>, the life of a thread: kernel start, creation, exit, cancel, join and
  detach.  Of a context only what \<^verbatim>\<open>OSCreateThread\<close> writes is modelled; saving and
  loading registers is not, and neither is \<^verbatim>\<open>OS_CURRENT_FPU_CONTEXT\<close>.

  \<^verbatim>\<open>OSJoinThread\<close> sleeps in the middle, so it has a \<open>JoinThread_begin\<close> and a
  \<open>JoinThread_resume\<close>; \<^verbatim>\<open>OSExitThread\<close> and \<^verbatim>\<open>OSCancelThread\<close> may lose the
  processor inside \<^verbatim>\<open>__OSUnlockAllMutex\<close>, and the model stops there.
\<close>

definition OS_THREAD_DETACHED :: int where "OS_THREAD_DETACHED = 1"
definition OS_THREAD_STACK_MAGIC :: int where "OS_THREAD_STACK_MAGIC = 0xDEADBABE"

definition is_detached :: "OSThread \<Rightarrow> bool" where
  "is_detached th \<longleftrightarrow> and (t_flags th) OS_THREAD_DETACHED \<noteq> 0"

section \<open>Contexts and stacks\<close>

definition OSClearContext :: "OSContext \<Rightarrow> OSContext" where
  "OSClearContext c = c\<lparr>c_mode := 0, c_state := 0\<rparr>"

definition OSInitContext :: "int \<Rightarrow> int \<Rightarrow> OSContext \<Rightarrow> OSContext" where
  "OSInitContext pc sp c =
     OSClearContext (c\<lparr>c_srr0 := pc, c_sp := sp, c_srr1 := 0x9032, c_gpr3 := 0\<rparr>)"

definition write32 :: "int \<Rightarrow> int \<Rightarrow> kernel \<Rightarrow> kernel" where
  "write32 a v s = s\<lparr>kmem := (kmem s)(a := v)\<rparr>"

text \<open>The word fill of \<^verbatim>\<open>OSClearStack\<close>: from \<open>p\<close> up to the stack pointer.\<close>

function fill_words :: "int \<Rightarrow> int \<Rightarrow> int \<Rightarrow> (int \<Rightarrow> int) \<Rightarrow> (int \<Rightarrow> int)" where
  "fill_words p lim v M = (if p < lim then fill_words (p + 4) lim v (M(p := v)) else M)"
  by pat_completeness auto
termination
  by (relation "measure (\<lambda>(p, lim, v, M). nat (lim - p))") auto

declare fill_words.simps [simp del]

definition OSClearStack :: "int \<Rightarrow> int \<Rightarrow> kernel \<Rightarrow> kernel option" where
  "OSClearStack sp val s = do {
     t \<leftarrow> OSGetCurrentThread s;
     let longVal = u32 (val * 2 ^ 24 + val * 2 ^ 16 + val * 2 ^ 8 + val);
     Some (s\<lparr>kmem := fill_words (t_stackEnd (threads s t) + 4) sp longVal (kmem s)\<rparr>)
   }"

section \<open>The active list\<close>

definition on_active :: "(tid links \<times> tid queue \<Rightarrow> tid links \<times> tid queue) \<Rightarrow> kernel \<Rightarrow> kernel" where
  "on_active f s = (case f (alinks s, active s) of (L, a) \<Rightarrow> s\<lparr>alinks := L, active := a\<rparr>)"

text \<open>
  Kernel start: thread \<open>t\<close> is \<^verbatim>\<open>DefaultThread\<close>; the stack bounds are the linker's
  symbols and \<open>sp\<close> is the stack pointer at the call.
\<close>

definition OSThreadInit :: "tid \<Rightarrow> int \<Rightarrow> int \<Rightarrow> int \<Rightarrow> kernel \<Rightarrow> kernel option" where
  "OSThreadInit t stack_addr stack_end sp s = do {
     let s = upd t (\<lambda>th. th\<lparr>t_state := RUNNING, t_flags := OS_THREAD_DETACHED, t_base := 16,
                            t_priority := 16, t_suspend := 0, t_val := 0xFFFFFFFF,
                            t_mutex := None\<rparr>) s;
     let s = OSInitThreadQueue (JoinQ t) s;
     let s = OSInitMutexQueue t s;
     let s = upd t (t_context_update OSClearContext) s;
     let s = s\<lparr>cur_ctx := ThreadCtx t\<rparr>;
     let s = upd t (\<lambda>th. th\<lparr>t_stackBegin := stack_addr, t_stackEnd := stack_end\<rparr>) s;
     let s = write32 stack_end OS_THREAD_STACK_MAGIC s;
     let s = OSSetCurrentThread (Some t) s;
     s \<leftarrow> OSClearStack sp 0 s;
     let s = s\<lparr>RunQueueBits := 0, RunQueueHint := False\<rparr>;
     let s = fold (\<lambda>i. OSInitThreadQueue (RunQ (int i))) [0..<32] s;
     let s = s\<lparr>active := empty_queue\<rparr>;
     let s = on_active (q_append t) s;
     Some (s\<lparr>Reschedule := 0\<rparr>)
   }"

text \<open>
  \<open>exit_pc\<close> is the address of \<^verbatim>\<open>OSExitThread\<close>, where the thread function returns to.
\<close>

definition OSCreateThread ::
  "int \<Rightarrow> tid \<Rightarrow> int \<Rightarrow> int \<Rightarrow> int \<Rightarrow> int \<Rightarrow> int \<Rightarrow> int \<Rightarrow> kernel \<Rightarrow> bool \<times> kernel" where
  "OSCreateThread exit_pc t func funcArg stackBegin stackSize prio flags s =
     (if prio < OS_PRIORITY_MIN \<or> prio > OS_PRIORITY_MAX then (False, s)
      else
        let s = upd t (\<lambda>th. th\<lparr>t_state := READY, t_flags := and flags OS_THREAD_DETACHED,
                               t_base := prio, t_priority := prio, t_suspend := 1,
                               t_val := 0xFFFFFFFF, t_mutex := None\<rparr>) s;
            s = OSInitThreadQueue (JoinQ t) s;
            s = OSInitMutexQueue t s;
            sp = ROUND_DOWN stackBegin 8;
            s = write32 (u32 (sp - 8)) 0 s;
            s = write32 (u32 (sp - 4)) 0 s;
            s = upd t (t_context_update (OSInitContext func (u32 (sp - 8)))) s;
            s = upd t (t_context_update (\<lambda>c. c\<lparr>c_lr := exit_pc, c_gpr3 := funcArg\<rparr>)) s;
            stackEnd = u32 (stackBegin - stackSize);
            s = upd t (\<lambda>th. th\<lparr>t_stackBegin := stackBegin, t_stackEnd := stackEnd\<rparr>) s;
            s = write32 stackEnd OS_THREAD_STACK_MAGIC s;
            s = upd t (\<lambda>th. th\<lparr>t_error := 0, t_specific := [0, 0]\<rparr>) s;
            s = (if fp_handler s
                 then upd t (t_context_update (\<lambda>c. c\<lparr>c_srr1 := or (c_srr1 c) 0x900,
                        c_state := or (c_state c) 1,
                        c_fpscr := or (and (fpscr_enable s) 0xF8) 4,
                        c_fprs := replicate 32 0xFFFFFFFFFFFFFFFF,
                        c_psfs := replicate 32 0xFFFFFFFFFFFFFFFF\<rparr>)) s
                 else s)
        in (True, on_active (q_append t) s))"

definition OSExitThread :: "int \<Rightarrow> kernel \<Rightarrow> kernel option" where
  "OSExitThread val s = do {
     t \<leftarrow> OSGetCurrentThread s;
     let s = upd t (t_context_update OSClearContext) s;
     let s = (if is_detached (threads s t)
              then set_state t EXITED (on_active (q_unlink t) s)
              else upd t (t_val_update (\<lambda>_. val)) (set_state t MORIBUND s));
     r \<leftarrow> OSUnlockAllMutex t s;
     (if \<not> fst r then Some (snd r)
      else do {
        s' \<leftarrow> OSWakeupThread (JoinQ t) (snd r);
        if current s' \<noteq> current s then Some s'
        else OSReschedule (s'\<lparr>RunQueueHint := True\<rparr>)
      })
   }"

text \<open>The part of \<^verbatim>\<open>OSCancelThread\<close> after the switch over the thread's state.\<close>

definition CancelThread_finish :: "tid \<Rightarrow> kernel \<Rightarrow> (bool \<times> kernel) option" where
  "CancelThread_finish t s = do {
     r \<leftarrow> OSUnlockAllMutex t s;
     (if \<not> fst r then Some (False, snd r)
      else do {
        s' \<leftarrow> OSWakeupThread (JoinQ t) (snd r);
        s' \<leftarrow> OSReschedule s';
        Some (True, s')
      })
   }"

definition OSCancelThread :: "tid \<Rightarrow> kernel \<Rightarrow> (bool \<times> kernel) option" where
  "OSCancelThread t s =
     (if t_state (threads s t) = EXITED \<or> t_state (threads s t) = MORIBUND then Some (True, s)
      else do {
        s \<leftarrow> (case t_state (threads s t) of
            READY \<Rightarrow> if t_suspend (threads s t) \<le> 0 then UnsetRun t s else Some s
          | RUNNING \<Rightarrow> Some (s\<lparr>RunQueueHint := True\<rparr>)
          | SLEEPING \<Rightarrow> do {
              q \<leftarrow> t_queue (threads s t);
              let s = on_queue (q_unlink t) q s;
              let s = set_queue t None s;
              (if t_suspend (threads s t) \<le> 0 then UpdateOwner t s else Some s)
            }
          | _ \<Rightarrow> Some s);
        let s = upd t (t_context_update OSClearContext) s;
        let s = (if is_detached (threads s t)
                 then set_state t EXITED (on_active (q_unlink t) s)
                 else set_state t MORIBUND s);
        CancelThread_finish t s
      })"

text \<open>
  Join: None in the third component means that the caller sleeps in the join queue; otherwise
  it is the result, with the value read from the thread when there is one.
\<close>

definition JoinThread_collect :: "tid \<Rightarrow> kernel \<Rightarrow> (bool \<times> int option) \<times> kernel" where
  "JoinThread_collect t s =
     (if t_state (threads s t) = MORIBUND
      then ((True, Some (t_val (threads s t))), set_state t EXITED (on_active (q_unlink t) s))
      else ((False, None), s))"

definition JoinThread_begin :: "tid \<Rightarrow> kernel \<Rightarrow> ((bool \<times> int option) option \<times> kernel) option" where
  "JoinThread_begin t s =
     (if \<not> is_detached (threads s t) \<and> t_state (threads s t) \<noteq> MORIBUND
         \<and> qhead (queues s (JoinQ t)) = None
      then do { s \<leftarrow> OSSleepThread (JoinQ t) s; Some (None, s) }
      else case JoinThread_collect t s of (r, s) \<Rightarrow> Some (Some r, s))"

definition JoinThread_resume :: "tid \<Rightarrow> kernel \<Rightarrow> ((bool \<times> int option) \<times> kernel) option" where
  "JoinThread_resume t s = do {
     alive \<leftarrow> OSIsThreadActive t s;
     Some (if alive then JoinThread_collect t s else ((False, None), s))
   }"

definition OSDetachThread :: "tid \<Rightarrow> kernel \<Rightarrow> kernel option" where
  "OSDetachThread t s =
     (let s = upd t (t_flags_update (\<lambda>f. or f OS_THREAD_DETACHED)) s;
          s = (if t_state (threads s t) = MORIBUND
               then set_state t EXITED (on_active (q_unlink t) s) else s)
      in OSWakeupThread (JoinQ t) s)"

end
