(* ===== verification/KernelProps.thy ===== *)
theory KernelProps
  imports Priority Message ThreadLife
begin

text \<open>
  The properties of the kernel components (scheduler, mutexes, messages) as the manifest
  states them, and one concrete kernel state, \<open>demo\<close>, on which they are applied.
\<close>

section \<open>A concrete state\<close>

text \<open>
  Thread 0 runs.  Thread 1 sleeps on queue \<open>OtherQ 0\<close>.  Thread 2 is ready and owns mutex 0,
  on which thread 3 sleeps, so thread 2 has inherited priority 10.
\<close>

definition blank_thread :: OSThread where
  "blank_thread = \<lparr>t_context = \<lparr>c_srr0 = 0, c_srr1 = 0, c_sp = 0, c_lr = 0, c_gpr3 = 0, c_mode = 0,
     c_state = 0, c_fpscr = 0, c_fprs = [], c_psfs = []\<rparr>, t_state = EXITED, t_flags = 0,
     t_suspend = 0, t_priority = 16, t_base = 16, t_val = 0, t_queue = None, t_mutex = None,
     t_mutexQueue = empty_queue, t_stackBegin = 0, t_stackEnd = 0, t_error = 0, t_specific = []\<rparr>"

definition demo_threads :: "tid \<Rightarrow> OSThread" where
  "demo_threads = (\<lambda>_. blank_thread)(
     0 := blank_thread\<lparr>t_state := RUNNING, t_base := 5, t_priority := 5\<rparr>,
     1 := blank_thread\<lparr>t_state := SLEEPING, t_base := 8, t_priority := 8, t_queue := Some (OtherQ 0)\<rparr>,
     2 := blank_thread\<lparr>t_state := READY, t_base := 20, t_priority := 10, t_queue := Some (RunQ 10),
            t_mutexQueue := \<lparr>qhead = Some 0, qtail = Some 0\<rparr>\<rparr>,
     3 := blank_thread\<lparr>t_state := SLEEPING, t_base := 10, t_priority := 10,
            t_queue := Some (MutexQ 0), t_mutex := Some 0\<rparr>)"

definition demoQ :: "qid \<Rightarrow> tid list" where
  "demoQ = (\<lambda>_. [])(OtherQ 0 := [1], RunQ 10 := [2], MutexQ 0 := [3])"

definition demoM :: "tid \<Rightarrow> mid list" where
  "demoM = (\<lambda>_. [])(2 := [0])"

definition demo :: kernel where
  "demo = \<lparr>threads = demo_threads,
     mutexes = (\<lambda>_. \<lparr>m_thread = None, m_lock = 0\<rparr>)(0 := \<lparr>m_thread = Some 2, m_lock = 1\<rparr>),
     queues = (\<lambda>q. \<lparr>qhead = hd_opt (demoQ q), qtail = hd_opt (demoQ q)\<rparr>),
     qlinks = \<lparr>lnext = \<lambda>_. None, lprev = \<lambda>_. None\<rparr>,
     active = empty_queue, alinks = \<lparr>lnext = \<lambda>_. None, lprev = \<lambda>_. None\<rparr>,
     mlinks = \<lparr>lnext = \<lambda>_. None, lprev = \<lambda>_. None\<rparr>,
     current = Some 0, cur_ctx = ThreadCtx 0, Reschedule = 0, RunQueueHint = False,
     RunQueueBits = prio_bit 10, switch_cb = None, switch_log = [], kmem = \<lambda>_. 0,
     fp_handler = False, fpscr_enable = 0\<rparr>"

lemma demo_sel [simp]:
  "threads demo = demo_threads" "current demo = Some 0" "cur_ctx demo = ThreadCtx 0"
  "Reschedule demo = 0" "RunQueueHint demo = False" "RunQueueBits demo = prio_bit 10"
  "mutexes demo = (\<lambda>_. \<lparr>m_thread = None, m_lock = 0\<rparr>)(0 := \<lparr>m_thread = Some 2, m_lock = 1\<rparr>)"
  "queues demo q = \<lparr>qhead = hd_opt (demoQ q), qtail = hd_opt (demoQ q)\<rparr>"
  "qlinks demo = \<lparr>lnext = \<lambda>_. None, lprev = \<lambda>_. None\<rparr>"
  "mlinks demo = \<lparr>lnext = \<lambda>_. None, lprev = \<lambda>_. None\<rparr>"
  by (simp_all add: demo_def)

lemma demo_thread [simp]:
  "t_state (demo_threads t) = (if t = 0 then RUNNING else if t = 1 \<or> t = 3 then SLEEPING
     else if t = 2 then READY else EXITED)"
  "t_priority (demo_threads t) = (if t = 0 then 5 else if t = 1 then 8
     else if t = 2 \<or> t = 3 then 10 else 16)"
  "t_base (demo_threads t) = (if t = 0 then 5 else if t = 1 then 8
     else if t = 2 then 20 else if t = 3 then 10 else 16)"
  "t_suspend (demo_threads t) = 0"
  "t_mutex (demo_threads t) = (if t = 3 then Some 0 else None)"
  "t_queue (demo_threads t) = (if t = 1 then Some (OtherQ 0) else if t = 2 then Some (RunQ 10)
     else if t = 3 then Some (MutexQ 0) else None)"
  "t_mutexQueue (demo_threads t) =
     (if t = 2 then \<lparr>qhead = Some 0, qtail = Some 0\<rparr> else empty_queue)"
  "t_flags (demo_threads t) = 0"
  by (simp_all add: demo_threads_def blank_thread_def)

lemma demoQ_cases:
  "demoQ q = (if q = OtherQ 0 then [1] else if q = RunQ 10 then [2] else if q = MutexQ 0 then [3] else [])"
  by (simp add: demoQ_def)

lemma demo_inv: "sched_inv {} demo demoQ"
proof (rule sched_invI)
  show "queues_ok demo demoQ"
    by (auto simp: queues_ok_def demoQ_cases dlist_def empty_queue_def)
  show "bit (RunQueueBits demo) (nat (31 - p)) = (demoQ (RunQ p) \<noteq> [])" if "0 \<le> p" "p \<le> 31" for p
    using bit_prio_bit [of 10 p] that by (auto simp: demoQ_cases)
  show "placed demo demoQ t" for t
  proof -
    have "\<exists>q. \<not> is_runq q \<and> t \<in> set (demoQ q)" if "t = 1 \<or> t = 3"
      using that by (intro exI [of _ "if t = 1 then OtherQ 0 else MutexQ 0"]) (auto simp: demoQ_cases)
    then show ?thesis unfolding placed_def by (auto simp: demoQ_cases)
  qed
  show "prio_ok (threads demo t)" for t by (simp add: prio_ok_def)
qed (auto simp: demoQ_cases split: if_splits)

lemma demo_mutex_inv: "mutex_inv demo demoQ demoM"
  by (auto simp: mutex_inv_def demoM_def demoQ_cases dlist_def empty_queue_def)

lemma demo_chain: "wait_chain demo 3 [3, 2]"
  by (auto intro!: wait_chain.intros simp: waits_for_def)


section \<open>The scheduler\<close>

text \<open>C1. Choosing a thread.  With the scheduler enabled and a thread's context current,
  \<^verbatim>\<open>SelectThread\<close> returns, keeps the scheduler invariant and every wait queue, and
  leaves a running thread at least as urgent as every ready one, or an idle processor with no
  ready thread.\<close>

theorem SelectThread_most_urgent:
  assumes "sched_inv {} s Q" "current s = Some t" "cur_ctx s = ThreadCtx t" "Reschedule s \<le> 0"
  shows "\<exists>s' Q'. SelectThread b s = Some s' \<and> sched_inv {} s' Q' \<and> keeps_waits s Q s' Q' \<and>
    (case current s' of
       None \<Rightarrow> cur_ctx s' = IdleCtx \<and>
         (\<forall>u. \<not> (t_state (threads s' u) = READY \<and> t_suspend (threads s' u) \<le> 0))
     | Some h \<Rightarrow> cur_ctx s' = ThreadCtx h \<and> t_state (threads s' h) = RUNNING \<and>
         (\<forall>u. t_state (threads s' u) = READY \<and> t_suspend (threads s' u) \<le> 0
            \<longrightarrow> t_priority (threads s' h) \<le> t_priority (threads s' u)))"
proof -
  obtain s' Q' where s': "SelectThread b s = Some s'" "sched_inv {} s' Q'" "dispatched s' Q'"
    "keeps_waits s Q s' Q'"
    by (rule SelectThread_inv [OF assms])
  have "u \<in> set (Q' (RunQ (t_priority (threads s' u))))"
    if "t_state (threads s' u) = READY" "t_suspend (threads s' u) \<le> 0" for u
    using sched_invD(6) [OF s'(2), of u] that by (simp add: placed_def)
  then have ne: "Q' (RunQ (t_priority (threads s' u))) \<noteq> []"
    if "t_state (threads s' u) = READY" "t_suspend (threads s' u) \<le> 0" for u
    using that by fastforce
  show ?thesis
    using s' ne by (intro exI [of _ s'] exI [of _ Q']) (auto simp: dispatched_def split: option.splits)
qed

theorem SelectThread_most_urgent_witness:
  "\<exists>s' Q'. SelectThread True demo = Some s' \<and> sched_inv {} s' Q' \<and> keeps_waits demo demoQ s' Q' \<and>
    (case current s' of
       None \<Rightarrow> cur_ctx s' = IdleCtx \<and>
         (\<forall>u. \<not> (t_state (threads s' u) = READY \<and> t_suspend (threads s' u) \<le> 0))
     | Some h \<Rightarrow> cur_ctx s' = ThreadCtx h \<and> t_state (threads s' h) = RUNNING \<and>
         (\<forall>u. t_state (threads s' u) = READY \<and> t_suspend (threads s' u) \<le> 0
            \<longrightarrow> t_priority (threads s' h) \<le> t_priority (threads s' u)))"
  by (rule SelectThread_most_urgent [OF demo_inv, where t = 0]) simp_all

text \<open>C3. Waking a queue.  The loop of \<^verbatim>\<open>OSWakeupThread\<close> ends, empties the queue and
  makes every thread in it ready; those that are not suspended stand at the end of the run
  queue of their priority, in the order in which they waited.  The scheduler invariant
  holds.\<close>

theorem wakeup_loop_wakes_all:
  assumes "sched_inv {} s Q" "\<not> is_runq q"
  shows "\<exists>s' Q'. wakeup_loop q s = Some s' \<and> sched_inv {} s' Q' \<and> Q' q = [] \<and>
    (\<forall>t \<in> set (Q q). t_state (threads s' t) = READY) \<and>
    (\<forall>t. t \<notin> set (Q q) \<longrightarrow> threads s' t = threads s t) \<and>
    (\<forall>p. Q' (RunQ p) = Q (RunQ p) @
       filter (\<lambda>t. t_suspend (threads s t) \<le> 0 \<and> t_priority (threads s t) = p) (Q q)) \<and>
    (\<forall>r. \<not> is_runq r \<and> r \<noteq> q \<longrightarrow> Q' r = Q r)"
proof -
  have "woken s (Q q) q Q r = Q r" if "\<not> is_runq r" "r \<noteq> q" for r
    using that by (cases r) (simp_all add: woken_def)
  moreover have "woken s (Q q) q Q (RunQ p) = Q (RunQ p) @
       filter (\<lambda>t. t_suspend (threads s t) \<le> 0 \<and> t_priority (threads s t) = p) (Q q)" for p
    using assms(2) by (auto simp: woken_def)
  moreover have "woken s (Q q) q Q q = []" by (simp add: woken_def)
  ultimately show ?thesis
    using wakeup_loop_inv [OF assms] by blast
qed

theorem wakeup_loop_wakes_all_witness:
  "\<exists>s' Q'. wakeup_loop (OtherQ 0) demo = Some s' \<and> sched_inv {} s' Q' \<and> Q' (OtherQ 0) = [] \<and>
    (\<forall>t \<in> set (demoQ (OtherQ 0)). t_state (threads s' t) = READY) \<and>
    (\<forall>t. t \<notin> set (demoQ (OtherQ 0)) \<longrightarrow> threads s' t = threads demo t) \<and>
    (\<forall>p. Q' (RunQ p) = demoQ (RunQ p) @
       filter (\<lambda>t. t_suspend (threads demo t) \<le> 0 \<and> t_priority (threads demo t) = p) (demoQ (OtherQ 0))) \<and>
    (\<forall>r. \<not> is_runq r \<and> r \<noteq> OtherQ 0 \<longrightarrow> Q' r = demoQ r)"
  by (rule wakeup_loop_wakes_all [OF demo_inv]) simp

text \<open>Going to sleep.  \<^verbatim>\<open>OSSleepThread\<close> puts the running thread into the wait
  queue behind every waiter of the same or a higher priority and before the others, keeps the
  other wait queues and the invariant, and gives the processor to another thread.\<close>

theorem OSSleepThread_queues_by_priority:
  assumes "sched_inv {} s Q" "\<not> is_runq q" "current s = Some t" "cur_ctx s = ThreadCtx t"
    "t_state (threads s t) = RUNNING" "Reschedule s \<le> 0"
  shows "\<exists>s' Q' us vs. OSSleepThread q s = Some s' \<and> sched_inv {} s' Q' \<and>
    Q q = us @ vs \<and> Q' q = us @ t # vs \<and>
    (\<forall>u \<in> set us. t_priority (threads s' u) \<le> t_priority (threads s' t)) \<and>
    (\<forall>u \<in> set vs. t_priority (threads s' t) < t_priority (threads s' u)) \<and>
    (\<forall>r. \<not> is_runq r \<and> r \<noteq> q \<longrightarrow> Q' r = Q r) \<and>
    t_state (threads s' t) = SLEEPING \<and> current s' \<noteq> Some t"
proof -
  obtain s' Q' where s': "OSSleepThread q s = Some s'" "sched_inv {} s' Q'"
    "Q' q = prio_insert s t (Q q)" "\<And>r. \<not> is_runq r \<Longrightarrow> r \<noteq> q \<Longrightarrow> Q' r = Q r"
    "\<And>u. same_sched (threads s u) (threads s' u)"
    "Reschedule s \<le> 0 \<Longrightarrow> cur_ctx s = ThreadCtx t \<Longrightarrow> dispatched s' Q' \<and> current s' \<noteq> Some t"
    using OSSleepThread_inv [OF assms(1,2,3,5)] by metis
  let ?P = "\<lambda>x. t_priority (threads s x) \<le> t_priority (threads s t)"
  have pr: "t_priority (threads s' u) = t_priority (threads s u)" for u
    using s'(5) [of u] by (simp add: same_sched_def)
  have us: "\<forall>u \<in> set (takeWhile ?P (Q q)). ?P u" by (auto dest: set_takeWhileD)
  have vs: "\<forall>u \<in> set (dropWhile ?P (Q q)). t_priority (threads s t) < t_priority (threads s u)"
  proof (cases "dropWhile ?P (Q q)")
    case Nil
    show ?thesis unfolding Nil by simp
  next
    case (Cons v ws)
    then have "\<not> ?P v" using hd_dropWhile [of ?P "Q q"] by simp
    moreover have "sorted (map (\<lambda>u. t_priority (threads s u)) (takeWhile ?P (Q q) @ v # ws))"
      using sched_invD(4) [OF assms(1), of q] by (metis Cons takeWhile_dropWhile_id)
    ultimately show ?thesis using Cons by (auto simp: sorted_append)
  qed
  have sl: "t_state (threads s' t) = SLEEPING"
    using sched_invD(3) [OF s'(2) assms(2), of t] s'(3) by simp
  show ?thesis
  proof (intro exI conjI)
    show "Q q = takeWhile ?P (Q q) @ dropWhile ?P (Q q)" by simp
    show "Q' q = takeWhile ?P (Q q) @ t # dropWhile ?P (Q q)"
      using s'(3) by (simp add: prio_insert_def)
    show "current s' \<noteq> Some t" using s'(6) [OF assms(6,4)] by blast
  qed (use s' us vs pr sl in auto)
qed

theorem OSSleepThread_queues_by_priority_witness:
  "\<exists>s' Q' us vs. OSSleepThread (OtherQ 0) demo = Some s' \<and> sched_inv {} s' Q' \<and>
    demoQ (OtherQ 0) = us @ vs \<and> Q' (OtherQ 0) = us @ 0 # vs \<and>
    (\<forall>u \<in> set us. t_priority (threads s' u) \<le> t_priority (threads s' 0)) \<and>
    (\<forall>u \<in> set vs. t_priority (threads s' 0) < t_priority (threads s' u)) \<and>
    (\<forall>r. \<not> is_runq r \<and> r \<noteq> OtherQ 0 \<longrightarrow> Q' r = demoQ r) \<and>
    t_state (threads s' 0) = SLEEPING \<and> current s' \<noteq> Some 0"
  by (rule OSSleepThread_queues_by_priority [OF demo_inv]) simp_all

section \<open>Priority inheritance\<close>

text \<open>\<^verbatim>\<open>__OSGetEffectivePriority\<close> returns the least of the thread's base priority
  and the priorities of all threads that wait for a mutex it owns.\<close>

theorem OSGetEffectivePriority_least:
  assumes "sched_inv {} s Q" "mutex_inv s Q M"
  shows "\<exists>p. OSGetEffectivePriority t s = Some p \<and> p \<le> t_base (threads s t) \<and>
    (\<forall>m w. m_thread (mutexes s m) = Some t \<and> w \<in> set (Q (MutexQ m)) \<longrightarrow> p \<le> t_priority (threads s w)) \<and>
    (p = t_base (threads s t) \<or>
      (\<exists>m w. m_thread (mutexes s m) = Some t \<and> w \<in> set (Q (MutexQ m)) \<and> p = t_priority (threads s w)))"
proof -
  let ?p = "eff_prio s Q (M t) (t_base (threads s t))"
  have own: "m \<in> set (M t) \<longleftrightarrow> m_thread (mutexes s m) = Some t" for m
    by (rule mutex_invD(2) [OF assms(2)])
  note b = eff_prio_bounds [where s = s and Q = Q and ms = "M t" and b = "t_base (threads s t)",
      OF sched_invD(4) [OF assms(1)]]
  have "?p \<le> t_priority (threads s w)"
    if "m_thread (mutexes s m) = Some t" "w \<in> set (Q (MutexQ m))" for m w
    using that own b(2) by (auto simp: waiter_prios_def)
  moreover have "?p = t_base (threads s t) \<or>
      (\<exists>m w. m_thread (mutexes s m) = Some t \<and> w \<in> set (Q (MutexQ m)) \<and> ?p = t_priority (threads s w))"
    using b(3) own by (auto simp: waiter_prios_def)
  ultimately show ?thesis
    using b(1) OSGetEffectivePriority_eff [OF assms] by blast
qed

theorem OSGetEffectivePriority_least_witness:
  "\<exists>p. OSGetEffectivePriority 2 demo = Some p \<and> p \<le> t_base (threads demo 2) \<and>
    (\<forall>m w. m_thread (mutexes demo m) = Some 2 \<and> w \<in> set (demoQ (MutexQ m))
       \<longrightarrow> p \<le> t_priority (threads demo w)) \<and>
    (p = t_base (threads demo 2) \<or>
      (\<exists>m w. m_thread (mutexes demo m) = Some 2 \<and> w \<in> set (demoQ (MutexQ m)) \<and>
         p = t_priority (threads demo w)))"
  by (rule OSGetEffectivePriority_least [OF demo_inv demo_mutex_inv])

text \<open>\<^verbatim>\<open>__OSPromoteThread\<close> along a chain of waiting threads that ends: it returns,
  keeps the invariant, and gives the new priority to exactly the threads of the chain before
  the first that is suspended or already as urgent; nothing else of a thread changes but its
  place in its queue.\<close>

theorem OSPromoteThread_chain:
  assumes "wait_chain s t ts" "sched_inv {} s Q" "0 \<le> prio" "prio \<le> 31"
  shows "\<exists>s' Q'. OSPromoteThread t prio s = Some s' \<and> sched_inv {} s' Q' \<and> only_prios s Q s' Q' \<and>
    (\<forall>u. t_priority (threads s' u) =
       (if alive (threads s u) \<and> u \<in> set (takeWhile (\<lambda>v. t_suspend (threads s v) \<le> 0 \<and>
             prio < t_priority (threads s v)) ts)
        then prio else t_priority (threads s u)))"
proof -
  have "u \<in> promoted s prio ts \<longleftrightarrow> alive (threads s u) \<and>
      u \<in> set (takeWhile (\<lambda>v. t_suspend (threads s v) \<le> 0 \<and> prio < t_priority (threads s v)) ts)" for u
    by (auto simp: promoted_def)
  then show ?thesis using OSPromoteThread_inv [OF assms] by simp
qed

theorem OSPromoteThread_chain_witness:
  "\<exists>s' Q'. OSPromoteThread 3 7 demo = Some s' \<and> sched_inv {} s' Q' \<and> only_prios demo demoQ s' Q' \<and>
    (\<forall>u. t_priority (threads s' u) =
       (if alive (threads demo u) \<and> u \<in> set (takeWhile (\<lambda>v. t_suspend (threads demo v) \<le> 0 \<and>
             7 < t_priority (threads demo v)) [3, 2])
        then 7 else t_priority (threads demo u)))"
  by (rule OSPromoteThread_chain [OF demo_chain demo_inv]) simp_all

text \<open>C2. \<^verbatim>\<open>UpdatePriority\<close> restores priority inheritance.  When every thread but \<open>t\<close>
  has the priority that its base priority and its waiters give it and the chain from \<open>t\<close>
  ends, the call returns, keeps both invariants, and afterwards every thread has the priority
  it should have.\<close>

theorem UpdatePriority_restores_inheritance:
  assumes "wait_chain s t ts" "sched_inv {} s Q" "mutex_inv s Q M" "\<forall>u. u \<noteq> t \<longrightarrow> inherits s Q M u"
  shows "\<exists>s' Q'. UpdatePriority t s = Some s' \<and> sched_inv {} s' Q' \<and> mutex_inv s' Q' M \<and>
    (\<forall>u. inherits s' Q' M u) \<and> only_prios s Q s' Q'"
  using UpdatePriority_inv [OF assms(1-3)] assms(4) by blast

definition demo2 :: kernel where
  "demo2 = upd 3 (t_base_update (\<lambda>_. 7)) demo"

lemma demo2_inv: "sched_inv {} demo2 demoQ"
proof (rule sched_invI)
  have same: "t_queue (threads demo2 t) = t_queue (threads demo t)"
    "t_state (threads demo2 t) = t_state (threads demo t)"
    "t_suspend (threads demo2 t) = t_suspend (threads demo t)"
    "t_priority (threads demo2 t) = t_priority (threads demo t)" for t
    by (simp_all add: demo2_def)
  have cur: "current demo2 = current demo" "RunQueueBits demo2 = RunQueueBits demo"
    "qlinks demo2 = qlinks demo" "queues demo2 = queues demo"
    by (simp_all add: demo2_def)
  show "queues_ok demo2 demoQ"
    by (rule queues_ok_cong [OF sched_invD(1) [OF demo_inv] cur(3,4)]) (rule same)
  show "placed demo2 demoQ t" for t
    using sched_invD(6) [OF demo_inv, of t] unfolding placed_def same cur by blast
  show "bit (RunQueueBits demo2) (nat (31 - p)) = (demoQ (RunQ p) \<noteq> [])" if "0 \<le> p" "p \<le> 31" for p
    unfolding cur by (rule sched_invD(5) [OF demo_inv that])
  show "prio_ok (threads demo2 t)" for t by (simp add: demo2_def prio_ok_def)
  show "t_state (threads demo2 t) = READY \<and> t_suspend (threads demo2 t) \<le> 0 \<and>
      t_priority (threads demo2 t) = p \<and> 0 \<le> p \<and> p \<le> 31" if "t \<in> set (demoQ (RunQ p))" for p t
    unfolding same by (rule sched_invD(2) [OF demo_inv that])
  show "t_state (threads demo2 t) = SLEEPING" if "\<not> is_runq q" "t \<in> set (demoQ q)" for q t
    unfolding same by (rule sched_invD(3) [OF demo_inv that])
  show "sorted (map (\<lambda>t. t_priority (threads demo2 t)) (demoQ q))" for q
    unfolding same by (rule sched_invD(4) [OF demo_inv])
qed

lemma demo2_mutex_inv: "mutex_inv demo2 demoQ demoM"
  by (auto simp: mutex_inv_def demoM_def demoQ_cases dlist_def empty_queue_def demo2_def)

lemma demo2_inherits: "u \<noteq> 3 \<longrightarrow> inherits demo2 demoQ demoM u"
  by (simp add: inherits_def demo2_def demoM_def eff_prio_def demoQ_cases)

lemma demo2_chain: "wait_chain demo2 3 [3, 2]"
  by (auto intro!: wait_chain.intros simp: waits_for_def demo2_def)

theorem UpdatePriority_restores_inheritance_witness:
  "\<not> inherits demo2 demoQ demoM 3 \<and>
   (\<exists>s' Q'. UpdatePriority 3 demo2 = Some s' \<and> sched_inv {} s' Q' \<and> mutex_inv s' Q' demoM \<and>
    (\<forall>u. inherits s' Q' demoM u) \<and> only_prios demo2 demoQ s' Q')"
proof
  show "\<not> inherits demo2 demoQ demoM 3"
    by (simp add: inherits_def demo2_def demoM_def alive_def)
  show "\<exists>s' Q'. UpdatePriority 3 demo2 = Some s' \<and> sched_inv {} s' Q' \<and> mutex_inv s' Q' demoM \<and>
    (\<forall>u. inherits s' Q' demoM u) \<and> only_prios demo2 demoQ s' Q'"
    by (rule UpdatePriority_restores_inheritance [OF demo2_chain demo2_inv demo2_mutex_inv])
      (blast intro: demo2_inherits [rule_format])
qed


section \<open>Message queues\<close>

text \<open>\<^verbatim>\<open>OSSendMessage\<close> on every branch.  With room it appends the message, wakes
  every receiver and returns TRUE; when the queue is full it changes nothing and returns FALSE,
  or, blocking, leaves the queue as it is and puts the caller to sleep among the senders.\<close>

theorem OSSendMessage_branches:
  assumes ring: "ring_rep (mqueues s n) xs" and inv: "sched_inv {} (kern s) Q"
  shows "(int (length xs) < mq_capacity (mqueues s n) \<longrightarrow>
      (\<exists>s' Q'. OSSendMessage n m flags s = Some (Done True, s') \<and>
         ring_rep (mqueues s' n) (xs @ [m]) \<and> (\<forall>k. k \<noteq> n \<longrightarrow> mqueues s' k = mqueues s k) \<and>
         sched_inv {} (kern s') Q' \<and> Q' (RecvQ n) = [])) \<and>
    (mq_capacity (mqueues s n) \<le> int (length xs) \<and> and flags OS_MSG_BLOCKING = 0 \<longrightarrow>
      OSSendMessage n m flags s = Some (Done False, s)) \<and>
    (mq_capacity (mqueues s n) \<le> int (length xs) \<and> and flags OS_MSG_BLOCKING \<noteq> 0 \<and>
        current (kern s) = Some t \<and> t_state (threads (kern s) t) = RUNNING \<longrightarrow>
      (\<exists>s' Q'. OSSendMessage n m flags s = Some (Asleep, s') \<and> mqueues s' = mqueues s \<and>
         sched_inv {} (kern s') Q' \<and> t \<in> set (Q' (SendQ n))))"
proof (intro conjI impI)
  note len = ring_length [OF ring]
  {
    assume room: "int (length xs) < mq_capacity (mqueues s n)"
    obtain k Q' where "OSWakeupThread (RecvQ n) (kern s) = Some k" "sched_inv {} k Q'" "Q' (RecvQ n) = []"
      using OSWakeupThread_inv [OF inv, of "RecvQ n"] by (metis is_runq.simps(5))
    then show "\<exists>s' Q'. OSSendMessage n m flags s = Some (Done True, s') \<and>
         ring_rep (mqueues s' n) (xs @ [m]) \<and> (\<forall>k. k \<noteq> n \<longrightarrow> mqueues s' k = mqueues s k) \<and>
         sched_inv {} (kern s') Q' \<and> Q' (RecvQ n) = []"
      using ring_put(1) [OF ring room, of m] room len
      by (intro exI [of _ "(set_mq n (mq_put m (mqueues s n)) s)\<lparr>kern := k\<rparr>"] exI [of _ Q'])
        (simp add: OSSendMessage_def on_kern_def set_mq_def)
  }
  show "OSSendMessage n m flags s = Some (Done False, s)"
    if "mq_capacity (mqueues s n) \<le> int (length xs) \<and> and flags OS_MSG_BLOCKING = 0"
    using that len by (simp add: OSSendMessage_def)
  {
    assume full: "mq_capacity (mqueues s n) \<le> int (length xs) \<and> and flags OS_MSG_BLOCKING \<noteq> 0 \<and>
        current (kern s) = Some t \<and> t_state (threads (kern s) t) = RUNNING"
    obtain k Q' where "OSSleepThread (SendQ n) (kern s) = Some k" "sched_inv {} k Q'"
      "Q' (SendQ n) = prio_insert (kern s) t (Q (SendQ n))"
      using OSSleepThread_inv [OF inv, of "SendQ n" t] full by (metis is_runq.simps(4))
    then show "\<exists>s' Q'. OSSendMessage n m flags s = Some (Asleep, s') \<and> mqueues s' = mqueues s \<and>
         sched_inv {} (kern s') Q' \<and> t \<in> set (Q' (SendQ n))"
      using full len
      by (intro exI [of _ "s\<lparr>kern := k\<rparr>"] exI [of _ Q']) (simp add: OSSendMessage_def on_kern_def)
  }
qed

definition demo_ms :: mstate where
  "demo_ms = \<lparr>mqueues = \<lambda>_. \<lparr>mq_buffer = (\<lambda>_. 7), mq_capacity = 2, mq_front = 1, mq_size = 1\<rparr>,
     kern = demo\<rparr>"

lemma demo_ring: "ring_rep (mqueues demo_ms 0) [7]"
  by (simp add: ring_rep_def ring_ok_def ring_def demo_ms_def)

lemma demo_ms_inv: "sched_inv {} (kern demo_ms) demoQ"
  using demo_inv by (simp add: demo_ms_def)

theorem OSSendMessage_branches_witness:
  "\<exists>s' Q'. OSSendMessage 0 42 0 demo_ms = Some (Done True, s') \<and> ring_rep (mqueues s' 0) [7, 42] \<and>
     sched_inv {} (kern s') Q' \<and> Q' (RecvQ 0) = []"
  using OSSendMessage_branches [OF demo_ring demo_ms_inv, of 42 0 0] by (auto simp: demo_ms_def)

text \<open>\<^verbatim>\<open>OSReceiveMessage\<close> on every branch.  It removes and returns the oldest
  message and wakes every sender; on an empty queue it returns FALSE and changes nothing, or,
  blocking, puts the caller to sleep among the receivers.\<close>

theorem OSReceiveMessage_branches:
  assumes ring: "ring_rep (mqueues s n) xs" and inv: "sched_inv {} (kern s) Q"
  shows "(\<forall>x ys. xs = x # ys \<longrightarrow>
      (\<exists>s' Q'. OSReceiveMessage n flags s = Some (Done True, Some x, s') \<and>
         ring_rep (mqueues s' n) ys \<and> (\<forall>k. k \<noteq> n \<longrightarrow> mqueues s' k = mqueues s k) \<and>
         sched_inv {} (kern s') Q' \<and> Q' (SendQ n) = [])) \<and>
    (xs = [] \<and> and flags OS_MSG_BLOCKING = 0 \<longrightarrow>
      OSReceiveMessage n flags s = Some (Done False, None, s)) \<and>
    (xs = [] \<and> and flags OS_MSG_BLOCKING \<noteq> 0 \<and> current (kern s) = Some t \<and>
        t_state (threads (kern s) t) = RUNNING \<longrightarrow>
      (\<exists>s' Q'. OSReceiveMessage n flags s = Some (Asleep, None, s') \<and> mqueues s' = mqueues s \<and>
         sched_inv {} (kern s') Q' \<and> t \<in> set (Q' (RecvQ n))))"
proof (intro conjI allI impI)
  note len = ring_length [OF ring]
  {
    fix x ys
    assume xs: "xs = x # ys"
    obtain k Q' where "OSWakeupThread (SendQ n) (kern s) = Some k" "sched_inv {} k Q'" "Q' (SendQ n) = []"
      using OSWakeupThread_inv [OF inv, of "SendQ n"] by (metis is_runq.simps(4))
    then show "\<exists>s' Q'. OSReceiveMessage n flags s = Some (Done True, Some x, s') \<and>
         ring_rep (mqueues s' n) ys \<and> (\<forall>k. k \<noteq> n \<longrightarrow> mqueues s' k = mqueues s k) \<and>
         sched_inv {} (kern s') Q' \<and> Q' (SendQ n) = []"
      using ring_get [OF ring [unfolded xs]] len xs
      by (intro exI [of _ "(set_mq n (snd (mq_get (mqueues s n))) s)\<lparr>kern := k\<rparr>"] exI [of _ Q'])
        (simp add: OSReceiveMessage_def on_kern_def set_mq_def case_prod_beta)
  }
  show "OSReceiveMessage n flags s = Some (Done False, None, s)"
    if "xs = [] \<and> and flags OS_MSG_BLOCKING = 0"
    using that len by (simp add: OSReceiveMessage_def)
  {
    assume empty: "xs = [] \<and> and flags OS_MSG_BLOCKING \<noteq> 0 \<and> current (kern s) = Some t \<and>
        t_state (threads (kern s) t) = RUNNING"
    obtain k Q' where "OSSleepThread (RecvQ n) (kern s) = Some k" "sched_inv {} k Q'"
      "Q' (RecvQ n) = prio_insert (kern s) t (Q (RecvQ n))"
      using OSSleepThread_inv [OF inv, of "RecvQ n" t] empty by (metis is_runq.simps(5))
    then show "\<exists>s' Q'. OSReceiveMessage n flags s = Some (Asleep, None, s') \<and> mqueues s' = mqueues s \<and>
         sched_inv {} (kern s') Q' \<and> t \<in> set (Q' (RecvQ n))"
      using empty len
      by (intro exI [of _ "s\<lparr>kern := k\<rparr>"] exI [of _ Q']) (simp add: OSReceiveMessage_def on_kern_def)
  }
qed

theorem OSReceiveMessage_branches_witness:
  "\<exists>s' Q'. OSReceiveMessage 0 1 demo_ms = Some (Done True, Some 7, s') \<and> ring_rep (mqueues s' 0) [] \<and>
     sched_inv {} (kern s') Q' \<and> Q' (SendQ 0) = []"
  using OSReceiveMessage_branches [OF demo_ring demo_ms_inv, of 1 0] by (auto simp: demo_ms_def)

text \<open>C4. A message queue is first in, first out: whatever is put into an empty ring of
  sufficient capacity, wherever its front stands, is taken out in the same order; and a message
  that is jammed into a queue with room is the next one out.\<close>

theorem message_ring_order:
  assumes "ring_rep q []" "int (length ys) \<le> mq_capacity q"
    "ring_rep r xs" "int (length xs) < mq_capacity r"
  shows "ringq.get_all (length ys) (fold mq_put ys q) = ys \<and>
    fst (mq_get (mq_jam m r)) = m \<and> ringq.get_all (length xs) (snd (mq_get (mq_jam m r))) = xs"
proof (intro conjI)
  show "ringq.get_all (length ys) (fold mq_put ys q) = ys"
    by (rule ringq.fifo [OF assms(1,2)])
  have "ring_rep (mq_jam m r) (m # xs)" by (rule ring_jam(1) [OF assms(3,4)])
  then show "fst (mq_get (mq_jam m r)) = m" "ringq.get_all (length xs) (snd (mq_get (mq_jam m r))) = xs"
    using ring_get(1,2) ringq.get_all_rep by blast+
qed

theorem message_ring_order_witness:
  "ringq.get_all 3 (fold mq_put [1, 2, 3] \<lparr>mq_buffer = (\<lambda>_. 0), mq_capacity = 3, mq_front = 2, mq_size = 0\<rparr>)
     = [1, 2, 3] \<and> fst (mq_get (mq_jam 9 (mqueues demo_ms 0))) = 9"
proof -
  have "ring_rep \<lparr>mq_buffer = (\<lambda>_. 0), mq_capacity = 3, mq_front = 2, mq_size = 0\<rparr> []"
    by (simp add: ring_rep_def ring_ok_def ring_def)
  from message_ring_order [OF this, of "[1, 2, 3]", OF _ demo_ring, of 9] show ?thesis
    by (simp add: demo_ms_def numeral_3_eq_3)
qed

end
