(* ===== verification/Alarm.thy ===== *)
theory Alarm
  imports KernelProps
begin

text \<open>
  \<^verbatim>\<open>os/OSAlarm.c\<close> and \<^verbatim>\<open>OSSleepTicks\<close>: one-shot and periodic alarms in a list
  ordered by end time, and the decrementer that is programmed for the first of them.

  Alarms are named by \<open>aid\<close> in place of addresses.  The time base is a sequence of readings,
  \<open>clock n\<close> being the \<open>n\<close>-th, so that two reads in one function may differ.  A handler is
  named by a number; running it is a parameter, \<open>run\<close>.  The exception entry code (register
  saves in assembly) is not modelled, and \<^verbatim>\<open>OSLoadContext\<close>, which does not return, ends the
  handler.
\<close>

type_synonym aid = nat

record OSAlarm =
  al_handler :: "nat option"
  al_tag :: int
  al_end :: int
  al_period :: int
  al_start :: int
  al_userData :: int

record astate = irq +
  alarms :: "aid \<Rightarrow> OSAlarm"
  al_links :: "aid links"
  AlarmQueue :: "aid queue"
  clock :: "nat \<Rightarrow> int"
  reads :: nat
  system_time :: int
  decrementer :: int
  decr_installed :: bool
  shutdown_registered :: bool
  a_kern :: kernel

definition upd_alarm :: "aid \<Rightarrow> (OSAlarm \<Rightarrow> OSAlarm) \<Rightarrow> astate \<Rightarrow> astate" where
  "upd_alarm a f s = s\<lparr>alarms := (alarms s)(a := f (alarms s a))\<rparr>"

definition on_alarms :: "(aid links \<times> aid queue \<Rightarrow> aid links \<times> aid queue) \<Rightarrow> astate \<Rightarrow> astate" where
  "on_alarms f s = (case f (al_links s, AlarmQueue s) of (L, q) \<Rightarrow> s\<lparr>al_links := L, AlarmQueue := q\<rparr>)"

section \<open>Time\<close>

definition OSGetTime :: "astate \<Rightarrow> int \<times> astate" where
  "OSGetTime s = (clock s (reads s), s\<lparr>reads := Suc (reads s)\<rparr>)"

definition OSGetSystemTime :: "astate \<Rightarrow> int \<times> astate" where
  "OSGetSystemTime s =
     (case OSDisableInterrupts s of (enabled, s) \<Rightarrow>
      case OSGetTime s of (now, s) \<Rightarrow>
        (s64 (now + system_time s), OSRestoreInterrupts enabled s))"

definition OSTimeToSystemTime :: "int \<Rightarrow> astate \<Rightarrow> int \<times> astate" where
  "OSTimeToSystemTime time s =
     (case OSDisableInterrupts s of (enabled, s) \<Rightarrow>
        (s64 (system_time s + time), OSRestoreInterrupts enabled s))"

definition PPCMtdec :: "int \<Rightarrow> astate \<Rightarrow> astate" where
  "PPCMtdec v s = s\<lparr>decrementer := u32 v\<rparr>"

definition SetTimer :: "aid \<Rightarrow> astate \<Rightarrow> astate" where
  "SetTimer a s =
     (case OSGetSystemTime s of (now, s) \<Rightarrow>
      let timeLeft = s64 (al_end (alarms s a) - now)
      in if timeLeft < 0 then PPCMtdec 0 s
         else if timeLeft < 0x80000000 then PPCMtdec timeLeft s
         else PPCMtdec 0x7FFFFFFF s)"

section \<open>Setting and cancelling\<close>

definition OSInitAlarm :: "astate \<Rightarrow> astate" where
  "OSInitAlarm s =
     (if \<not> decr_installed s
      then s\<lparr>AlarmQueue := empty_queue, decr_installed := True, shutdown_registered := True\<rparr>
      else s)"

definition OSCreateAlarm :: "aid \<Rightarrow> astate \<Rightarrow> astate" where
  "OSCreateAlarm a = upd_alarm a (\<lambda>al. al\<lparr>al_handler := None, al_tag := 0\<rparr>)"

text \<open>The end time of a periodic alarm: the first multiple of the period after now.\<close>

definition periodic_end :: "OSAlarm \<Rightarrow> int \<Rightarrow> int" where
  "periodic_end al time =
     (if al_start al < time
      then s64 (al_start al + al_period al * (s64 (time - al_start al) sdiv al_period al + 1))
      else al_start al)"

text \<open>
  A periodic alarm is inserted with end time 0 and recomputes it.  \<open>link_alarm\<close> is the search
  for the place and the linking: in front of the first alarm that ends later, or at the tail.
\<close>

definition link_alarm :: "aid \<Rightarrow> int \<Rightarrow> astate \<Rightarrow> astate option" where
  "link_alarm a e s = do {
     it \<leftarrow> seek (lnext (al_links s)) (\<lambda>it. \<not> al_end (alarms s it) \<le> e) (qhead (AlarmQueue s));
     (case it of
        Some i \<Rightarrow>
          (let first = (lprev (al_links s) i = None);
               s = on_alarms (q_insert_before i a) s
           in Some (if first then SetTimer a s else s))
      | None \<Rightarrow>
          (let first = (qtail (AlarmQueue s) = None);
               s = on_alarms (q_append a) s
           in Some (if first then SetTimer a s else s)))
   }"

definition InsertAlarm :: "aid \<Rightarrow> int \<Rightarrow> nat option \<Rightarrow> astate \<Rightarrow> astate option" where
  "InsertAlarm a endTime handler s =
     (case (if al_period (alarms s a) > 0
            then (case OSGetSystemTime s of (time, s) \<Rightarrow> (periodic_end (alarms s a) time, s))
            else (endTime, s)) of (e, s) \<Rightarrow>
      link_alarm a e (upd_alarm a (\<lambda>al. al\<lparr>al_handler := handler, al_end := e\<rparr>) s))"

definition OSSetAlarm :: "aid \<Rightarrow> int \<Rightarrow> nat option \<Rightarrow> astate \<Rightarrow> astate option" where
  "OSSetAlarm a tick handler s = do {
     let (enabled, s) = OSDisableInterrupts s;
     let s = upd_alarm a (al_period_update (\<lambda>_. 0)) s;
     let (now, s) = OSGetSystemTime s;
     s \<leftarrow> InsertAlarm a (s64 (now + tick)) handler s;
     Some (OSRestoreInterrupts enabled s)
   }"

definition OSSetPeriodicAlarm :: "aid \<Rightarrow> int \<Rightarrow> int \<Rightarrow> nat option \<Rightarrow> astate \<Rightarrow> astate option" where
  "OSSetPeriodicAlarm a tick period handler s = do {
     let (enabled, s) = OSDisableInterrupts s;
     let s = upd_alarm a (al_period_update (\<lambda>_. period)) s;
     let (start, s) = OSTimeToSystemTime tick s;
     let s = upd_alarm a (al_start_update (\<lambda>_. start)) s;
     s \<leftarrow> InsertAlarm a 0 handler s;
     Some (OSRestoreInterrupts enabled s)
   }"

definition OSCancelAlarm :: "aid \<Rightarrow> astate \<Rightarrow> astate" where
  "OSCancelAlarm a s =
     (case OSDisableInterrupts s of (enabled, s) \<Rightarrow>
      if al_handler (alarms s a) = None then OSRestoreInterrupts enabled s
      else
        let next = lnext (al_links s) a;
            first = (lprev (al_links s) a = None);
            s = on_alarms (q_unlink a) s;
            s = (if first then (case next of None \<Rightarrow> s | Some n \<Rightarrow> SetTimer n s) else s);
            s = upd_alarm a (al_handler_update (\<lambda>_. None)) s
        in OSRestoreInterrupts enabled s)"

definition OSSetAlarmTag :: "aid \<Rightarrow> int \<Rightarrow> astate \<Rightarrow> astate" where
  "OSSetAlarmTag a tag = upd_alarm a (al_tag_update (\<lambda>_. tag))"

definition OSSetAlarmUserData :: "aid \<Rightarrow> int \<Rightarrow> astate \<Rightarrow> astate" where
  "OSSetAlarmUserData a d = upd_alarm a (al_userData_update (\<lambda>_. d))"

definition OSGetAlarmUserData :: "aid \<Rightarrow> astate \<Rightarrow> int" where
  "OSGetAlarmUserData a s = al_userData (alarms s a)"

section \<open>The decrementer exception\<close>

text \<open>
  \<open>ctx\<close> is the interrupted context.  The result is None when a handler is called through
  NULL or fails.
\<close>

definition DecrementerExceptionCallback ::
  "(nat \<Rightarrow> aid \<Rightarrow> astate \<Rightarrow> astate option) \<Rightarrow> ctx \<Rightarrow> astate \<Rightarrow> astate option" where
  "DecrementerExceptionCallback run ctx s =
     (case OSGetSystemTime s of (time, s) \<Rightarrow>
      case qhead (AlarmQueue s) of
        None \<Rightarrow> Some s
      | Some a \<Rightarrow>
         if time < al_end (alarms s a) then Some (SetTimer a s)
         else do {
           let s = on_alarms (q_pop_head a) s;
           let handler = al_handler (alarms s a);
           let s = upd_alarm a (al_handler_update (\<lambda>_. None)) s;
           s \<leftarrow> (if al_period (alarms s a) > 0 then InsertAlarm a 0 handler s else Some s);
           let s = (case qhead (AlarmQueue s) of None \<Rightarrow> s | Some h \<Rightarrow> SetTimer h s);
           let s = s\<lparr>a_kern := snd (OSDisableScheduler (a_kern s))\<rparr>;
           let s = s\<lparr>a_kern := (a_kern s)\<lparr>cur_ctx := HandlerCtx\<rparr>\<rparr>;
           h \<leftarrow> handler;
           s \<leftarrow> run h a s;
           let s = s\<lparr>a_kern := (a_kern s)\<lparr>cur_ctx := ctx\<rparr>\<rparr>;
           let s = s\<lparr>a_kern := snd (OSEnableScheduler (a_kern s))\<rparr>;
           k \<leftarrow> OSReschedule (a_kern s);
           Some (s\<lparr>a_kern := k\<rparr>)
         })"

text \<open>
  The shutdown function: cancel every alarm that is not one of the DVD driver's.  \<open>iter\<close> and
  \<open>next\<close> run one apart, because a cancelled alarm may be reused.
\<close>

partial_function (option) cancel_all ::
  "(aid \<Rightarrow> bool) \<Rightarrow> aid option \<Rightarrow> aid option \<Rightarrow> astate \<Rightarrow> astate option" where
  "cancel_all isDVD iter next s = (case iter of None \<Rightarrow> Some s
     | Some i \<Rightarrow>
        (let s = (if isDVD i then s else OSCancelAlarm i s);
             next' = (case next of None \<Rightarrow> None | Some n \<Rightarrow> lnext (al_links s) n)
         in cancel_all isDVD next next' s))"

definition OnReset :: "(aid \<Rightarrow> bool) \<Rightarrow> bool \<Rightarrow> astate \<Rightarrow> (bool \<times> astate) option" where
  "OnReset isDVD final s =
     (if final
      then do {
        let iter = qhead (AlarmQueue s);
        s \<leftarrow> cancel_all isDVD iter (case iter of None \<Rightarrow> None | Some i \<Rightarrow> lnext (al_links s) i) s;
        Some (True, s)
      }
      else Some (True, s))"

section \<open>Sleeping for a time\<close>

text \<open>
  \<^verbatim>\<open>OSSleepTicks\<close>: \<open>addr\<close> gives the address of a thread, \<open>a\<close> is the alarm on the
  caller's stack and \<open>h\<close> names \<^verbatim>\<open>SleepAlarmHandler\<close>.  The part after the suspension is
  \<open>SleepTicks_resume\<close>.
\<close>

definition SleepAlarmHandler :: "(int \<Rightarrow> tid) \<Rightarrow> aid \<Rightarrow> astate \<Rightarrow> astate option" where
  "SleepAlarmHandler thread_at a s =
     map_option (\<lambda>r. s\<lparr>a_kern := snd r\<rparr>) (OSResumeThread (thread_at (OSGetAlarmUserData a s)) (a_kern s))"

definition SleepTicks_begin :: "(tid \<Rightarrow> int) \<Rightarrow> nat \<Rightarrow> aid \<Rightarrow> int \<Rightarrow> astate \<Rightarrow> astate option" where
  "SleepTicks_begin addr h a ticks s =
     (case OSDisableInterrupts s of (enabled, s) \<Rightarrow>
      case current (a_kern s) of
        None \<Rightarrow> Some (OSRestoreInterrupts enabled s)
      | Some t \<Rightarrow> do {
          let s = OSCreateAlarm a s;
          let s = OSSetAlarmTag a (addr t) s;
          let s = OSSetAlarmUserData a (addr t) s;
          s \<leftarrow> OSSetAlarm a ticks (Some h) s;
          r \<leftarrow> OSSuspendThread t (a_kern s);
          Some (s\<lparr>a_kern := snd r\<rparr>)
        })"

definition SleepTicks_resume :: "aid \<Rightarrow> bool \<Rightarrow> astate \<Rightarrow> astate" where
  "SleepTicks_resume a enabled s = OSRestoreInterrupts enabled (OSCancelAlarm a s)"


section \<open>The alarm list is ordered\<close>

lemma upd_alarm_sel [simp]:
  "alarms (upd_alarm a f s) b = (if b = a then f (alarms s a) else alarms s b)"
  "al_links (upd_alarm a f s) = al_links s" "AlarmQueue (upd_alarm a f s) = AlarmQueue s"
  "clock (upd_alarm a f s) = clock s" "reads (upd_alarm a f s) = reads s"
  "irq_enabled (upd_alarm a f s) = irq_enabled s"
  by (simp_all add: upd_alarm_def)

lemma on_alarms_sel [simp]:
  "alarms (on_alarms f s) = alarms s" "irq_enabled (on_alarms f s) = irq_enabled s"
  by (simp_all add: on_alarms_def split: prod.splits)

lemma irq_frame [simp]:
  "alarms (snd (OSDisableInterrupts s)) = alarms s"
  "al_links (snd (OSDisableInterrupts s)) = al_links s"
  "AlarmQueue (snd (OSDisableInterrupts s)) = AlarmQueue s"
  "alarms (OSRestoreInterrupts e s) = alarms s"
  "al_links (OSRestoreInterrupts e s) = al_links s"
  "AlarmQueue (OSRestoreInterrupts e s) = AlarmQueue s"
  by (simp_all add: OSDisableInterrupts_def OSRestoreInterrupts_def)

lemma OSGetSystemTime_sel [simp]:
  "alarms (snd (OSGetSystemTime s)) = alarms s" "al_links (snd (OSGetSystemTime s)) = al_links s"
  "AlarmQueue (snd (OSGetSystemTime s)) = AlarmQueue s"
  "irq_enabled (snd (OSGetSystemTime s)) = irq_enabled s"
  "a_kern (snd (OSGetSystemTime s)) = a_kern s"
  by (simp_all add: OSGetSystemTime_def OSGetTime_def OSDisableInterrupts_def OSRestoreInterrupts_def)

lemma SetTimer_sel [simp]:
  "alarms (SetTimer a s) = alarms s" "al_links (SetTimer a s) = al_links s"
  "AlarmQueue (SetTimer a s) = AlarmQueue s" "irq_enabled (SetTimer a s) = irq_enabled s"
  by (simp_all add: SetTimer_def PPCMtdec_def Let_def case_prod_beta)

definition alarm_inv :: "astate \<Rightarrow> aid list \<Rightarrow> bool" where
  "alarm_inv s xs \<longleftrightarrow> dlist (al_links s) (AlarmQueue s) xs \<and>
     sorted (map (\<lambda>a. al_end (alarms s a)) xs) \<and> (\<forall>a \<in> set xs. al_handler (alarms s a) \<noteq> None)"

lemma alarm_inv_cong:
  assumes "alarm_inv s xs" "al_links s' = al_links s" "AlarmQueue s' = AlarmQueue s" "alarms s' = alarms s"
  shows "alarm_inv s' xs"
  using assms by (simp add: alarm_inv_def)

text \<open>Behind the alarms that end no later, in front of the others.\<close>

definition al_insert :: "astate \<Rightarrow> aid \<Rightarrow> int \<Rightarrow> aid list \<Rightarrow> aid list" where
  "al_insert s a e xs = takeWhile (\<lambda>x. al_end (alarms s x) \<le> e) xs @ a #
     dropWhile (\<lambda>x. al_end (alarms s x) \<le> e) xs"

lemma sorted_al_insert:
  assumes "sorted (map f xs)" "\<And>x. x \<in> set xs \<Longrightarrow> g x = f x" "g a = e"
  shows "sorted (map g (takeWhile (\<lambda>x. f x \<le> e) xs @ a # dropWhile (\<lambda>x. f x \<le> e) xs))"
  using assms(1,2)
proof (induction xs)
  case Nil
  then show ?case by simp
next
  case (Cons x xs)
  have IH: "sorted (map g (takeWhile (\<lambda>x. f x \<le> e) xs @ a # dropWhile (\<lambda>x. f x \<le> e) xs))"
    using Cons by simp
  have ge: "f x \<le> g y" if "y \<in> set xs" for y using Cons.prems that by simp
  have gx: "g x = f x" using Cons.prems(2) by simp
  show ?case
  proof (cases "f x \<le> e")
    case True
    have "f x \<le> g y" if "y \<in> set (takeWhile (\<lambda>x. f x \<le> e) xs @ a # dropWhile (\<lambda>x. f x \<le> e) xs)" for y
      using that ge True assms(3) by (auto dest: set_takeWhileD set_dropWhileD)
    then show ?thesis using IH True gx by auto
  next
    case False
    have "sorted (map g xs)" using Cons.prems by (metis (no_types, lifting) list.set_intros(2) map_eq_conv sorted_simps(2) list.map(2))
    moreover have "g a \<le> g y" if "y \<in> set xs" for y using ge [OF that] False assms(3) by simp
    ultimately show ?thesis using False gx ge assms(3) by auto
  qed
qed

lemma alarm_insert_dlist:
  assumes d: "dlist (al_links s) (AlarmQueue s) xs" and a: "a \<notin> set xs"
    and e: "\<And>x. x \<in> set xs \<Longrightarrow> al_end (alarms s x) = al_end (alarms s0 x)"
  obtains f first where
    "link_alarm a e s = Some (if first then SetTimer a (on_alarms f s) else on_alarms f s)"
    "dlist (al_links (on_alarms f s)) (AlarmQueue (on_alarms f s)) (al_insert s0 a e xs)"
    "first \<longleftrightarrow> hd (al_insert s0 a e xs) = a"
proof -
  have seek: "seek (lnext (al_links s)) (\<lambda>it. \<not> al_end (alarms s it) \<le> e) (qhead (AlarmQueue s)) =
      Some (find (\<lambda>it. \<not> al_end (alarms s it) \<le> e) xs)"
    by (rule seek_dlist [OF d])
  show thesis
  proof (cases "find (\<lambda>it. \<not> al_end (alarms s it) \<le> e) xs")
    case None
    then have ins: "al_insert s0 a e xs = xs @ [a]"
      unfolding find_None_all al_insert_def using e
      by (simp add: takeWhile_eq_all_conv [THEN iffD2] dropWhile_eq_Nil_conv [THEN iffD2])
    obtain L q where f: "q_append a (al_links s, AlarmQueue s) = (L, q)"
      by (cases "q_append a (al_links s, AlarmQueue s)")
    have "dlist (al_links (on_alarms (q_append a) s)) (AlarmQueue (on_alarms (q_append a) s)) (xs @ [a])"
      using q_append_dlist [OF d a f] by (simp add: on_alarms_def f)
    moreover have "qtail (AlarmQueue s) = None \<longleftrightarrow> hd (xs @ [a]) = a"
      using dlist_tail [OF d] a by (cases xs) auto
    ultimately show thesis
      using seek None ins by (intro that [of "qtail (AlarmQueue s) = None" "q_append a"]) (simp_all add: link_alarm_def)
  next
    case (Some i)
    then obtain us vs where x: "xs = us @ i # vs" "\<not> al_end (alarms s i) \<le> e"
      "\<forall>u \<in> set us. \<not> \<not> al_end (alarms s u) \<le> e"
      unfolding find_split by auto
    then have ins: "al_insert s0 a e xs = us @ a # i # vs"
      using e by (simp add: al_insert_def takeWhile_append dropWhile_append)
    obtain L q where f: "q_insert_before i a (al_links s, AlarmQueue s) = (L, q)"
      by (cases "q_insert_before i a (al_links s, AlarmQueue s)")
    have d': "dlist (al_links s) (AlarmQueue s) (us @ i # vs)" using d x by simp
    have "dlist (al_links (on_alarms (q_insert_before i a) s)) (AlarmQueue (on_alarms (q_insert_before i a) s))
        (us @ a # i # vs)"
      using q_insert_before_dlist [OF d' _ f] a x(1) by (simp add: on_alarms_def f)
    moreover have "lprev (al_links s) i = None \<longleftrightarrow> hd (us @ a # i # vs) = a"
      using dlist_neighbours(1) [OF d'] a x(1) by (cases us) auto
    ultimately show thesis
      using seek Some ins by (intro that [of "lprev (al_links s) i = None" "q_insert_before i a"]) (simp_all add: link_alarm_def)
  qed
qed

definition new_end :: "aid \<Rightarrow> int \<Rightarrow> astate \<Rightarrow> int" where
  "new_end a e s = (if al_period (alarms s a) > 0
     then periodic_end (alarms s a) (fst (OSGetSystemTime s)) else e)"

lemma InsertAlarm_inv:
  fixes e0 :: int
  assumes inv: "alarm_inv s xs" and a: "a \<notin> set xs" and h: "h \<noteq> None"
  defines "e \<equiv> new_end a e0 s"
  shows "\<exists>s'. InsertAlarm a e0 h s = Some s' \<and> alarm_inv s' (al_insert s a e xs) \<and>
    alarms s' = (alarms s)(a := (alarms s a)\<lparr>al_handler := h, al_end := e\<rparr>) \<and>
    irq_enabled s' = irq_enabled s"
proof -
  let ?p = "al_period (alarms s a) > 0"
  define s1 where "s1 = upd_alarm a (\<lambda>al. al\<lparr>al_handler := h, al_end := e\<rparr>)
      (if ?p then snd (OSGetSystemTime s) else s)"
  have s1: "al_links s1 = al_links s" "AlarmQueue s1 = AlarmQueue s" "irq_enabled s1 = irq_enabled s"
    "alarms s1 = (alarms s)(a := (alarms s a)\<lparr>al_handler := h, al_end := e\<rparr>)"
    by (auto simp: s1_def fun_eq_iff)
  have d: "dlist (al_links s1) (AlarmQueue s1) xs"
    using inv by (simp add: alarm_inv_def s1)
  have e': "al_end (alarms s1 x) = al_end (alarms s x)" if "x \<in> set xs" for x
    using that a by (auto simp: s1)
  obtain f first where f:
    "link_alarm a e s1 = Some (if first then SetTimer a (on_alarms f s1) else on_alarms f s1)"
    "dlist (al_links (on_alarms f s1)) (AlarmQueue (on_alarms f s1)) (al_insert s a e xs)"
    by (rule alarm_insert_dlist [OF d a e'])
  let ?s' = "if first then SetTimer a (on_alarms f s1) else on_alarms f s1"
  have "InsertAlarm a e0 h s = Some ?s'"
    using f(1) unfolding InsertAlarm_def e_def new_end_def s1_def case_prod_beta
    by (cases ?p) (simp_all del: upd_alarm_sel)
  moreover have al: "alarms ?s' = alarms s1" by simp
  have "sorted (map (\<lambda>x. al_end (alarms ?s' x)) (al_insert s a e xs))"
    unfolding al al_insert_def
    by (rule sorted_al_insert) (use inv e' in \<open>auto simp: alarm_inv_def s1\<close>)
  then have "alarm_inv ?s' (al_insert s a e xs)"
    using f(2) inv h unfolding alarm_inv_def al
    by (auto simp: al_insert_def s1 dest: set_takeWhileD set_dropWhileD)
  moreover have "irq_enabled ?s' = irq_enabled s" by (simp add: s1(3))
  ultimately show ?thesis using al s1(4) by metis
qed

lemma al_insert_split:
  assumes "sorted (map (\<lambda>x. al_end (alarms s x)) xs)"
  obtains us vs where "xs = us @ vs" "al_insert s a e xs = us @ a # vs"
    "\<forall>u \<in> set us. al_end (alarms s u) \<le> e" "\<forall>v \<in> set vs. e < al_end (alarms s v)"
proof -
  let ?P = "\<lambda>x. al_end (alarms s x) \<le> e"
  have "e < al_end (alarms s v)" if v: "v \<in> set (dropWhile ?P xs)" for v
  proof -
    obtain w ws where w: "dropWhile ?P xs = w # ws" using v by (cases "dropWhile ?P xs") auto
    have "\<not> ?P w" using w hd_dropWhile [of ?P xs] by simp
    moreover have "sorted (map (\<lambda>x. al_end (alarms s x)) (takeWhile ?P xs @ w # ws))"
      using assms by (metis w takeWhile_dropWhile_id)
    ultimately show ?thesis using v w by (auto simp: sorted_append)
  qed
  then show thesis
    by (intro that [of "takeWhile ?P xs" "dropWhile ?P xs"])
      (auto simp: al_insert_def dest: set_takeWhileD)
qed

section \<open>Properties\<close>

definition system_now :: "astate \<Rightarrow> int" where
  "system_now s = s64 (clock s (reads s) + system_time s)"

lemma OSGetSystemTime_now: "fst (OSGetSystemTime s) = system_now s"
  by (simp add: OSGetSystemTime_def OSGetTime_def OSDisableInterrupts_def system_now_def)

text \<open>C8. \<^verbatim>\<open>OSSetAlarm\<close> keeps the alarm list ordered by end time: the alarm gets the
  end time now plus \<open>tick\<close> and stands behind the alarms that end no later and in front of the
  others; no other alarm changes and the interrupt flag is as before.\<close>

theorem OSSetAlarm_keeps_order:
  assumes "alarm_inv s xs" "a \<notin> set xs"
  shows "\<exists>s' us vs. OSSetAlarm a tick (Some h) s = Some s' \<and> xs = us @ vs \<and>
    alarm_inv s' (us @ a # vs) \<and> al_end (alarms s' a) = s64 (system_now s + tick) \<and>
    al_handler (alarms s' a) = Some h \<and>
    (\<forall>u \<in> set us. al_end (alarms s' u) \<le> al_end (alarms s' a)) \<and>
    (\<forall>v \<in> set vs. al_end (alarms s' a) < al_end (alarms s' v)) \<and>
    (\<forall>b. b \<noteq> a \<longrightarrow> alarms s' b = alarms s b) \<and> irq_enabled s' = irq_enabled s"
proof -
  define s0 where "s0 = upd_alarm a (al_period_update (\<lambda>_. 0)) (snd (OSDisableInterrupts s))"
  define s1 where "s1 = snd (OSGetSystemTime s0)"
  have now: "fst (OSGetSystemTime s0) = system_now s"
    by (simp add: OSGetSystemTime_now system_now_def s0_def upd_alarm_def OSDisableInterrupts_def)
  have other: "alarms s1 b = alarms s b" if "b \<noteq> a" for b using that by (simp add: s1_def s0_def)
  have inv1: "alarm_inv s1 xs"
  proof -
    have "map (\<lambda>a. al_end (alarms s1 a)) xs = map (\<lambda>a. al_end (alarms s a)) xs"
      by (rule map_cong [OF refl]) (metis assms(2) other)
    then have "sorted (map (\<lambda>a. al_end (alarms s1 a)) xs)"
      using assms(1) by (simp only: alarm_inv_def)
    moreover have "al_handler (alarms s1 x) \<noteq> None" if "x \<in> set xs" for x
      using that assms other [of x] by (metis alarm_inv_def)
    moreover have "dlist (al_links s1) (AlarmQueue s1) xs"
      using assms(1) by (simp add: alarm_inv_def s1_def s0_def)
    ultimately show ?thesis unfolding alarm_inv_def by blast
  qed
  have per: "al_period (alarms s1 a) \<le> 0" by (simp add: s1_def s0_def)
  define e where "e = s64 (system_now s + tick)"
  have "new_end a e s1 = e" using per by (simp add: new_end_def)
  then obtain s2 where s2: "InsertAlarm a e (Some h) s1 = Some s2"
    "alarm_inv s2 (al_insert s1 a e xs)"
    "alarms s2 = (alarms s1)(a := (alarms s1 a)\<lparr>al_handler := Some h, al_end := e\<rparr>)"
    using InsertAlarm_inv [OF inv1 assms(2), of "Some h" e] by auto
  have "sorted (map (\<lambda>x. al_end (alarms s1 x)) xs)" using inv1 by (simp add: alarm_inv_def)
  then obtain us vs where uv: "xs = us @ vs" "al_insert s1 a e xs = us @ a # vs"
    "\<forall>u \<in> set us. al_end (alarms s1 u) \<le> e" "\<forall>v \<in> set vs. e < al_end (alarms s1 v)"
    by (rule al_insert_split)
  let ?s = "OSRestoreInterrupts (irq_enabled s) s2"
  have al: "alarms ?s = (alarms s1)(a := (alarms s1 a)\<lparr>al_handler := Some h, al_end := e\<rparr>)"
    using s2(3) by simp
  have na: "u \<noteq> a" if "u \<in> set us \<or> u \<in> set vs" for u using that uv(1) assms(2) by auto
  show ?thesis
  proof (intro exI conjI)
    have "OSSetAlarm a tick (Some h) s =
        map_option (OSRestoreInterrupts (irq_enabled s)) (InsertAlarm a e (Some h) s1)"
      unfolding OSSetAlarm_def Let_def case_prod_beta irq_bracket s0_def [symmetric]
        s1_def [symmetric] now e_def
      by (cases "InsertAlarm a (s64 (system_now s + tick)) (Some h) s1") simp_all
    then show "OSSetAlarm a tick (Some h) s = Some ?s" by (simp only: s2(1) option.map)
    show "xs = us @ vs" by (rule uv(1))
    show "alarm_inv ?s (us @ a # vs)"
      by (rule alarm_inv_cong [of s2]) (use s2(2) uv(2) in simp_all)
    show "\<forall>u \<in> set us. al_end (alarms ?s u) \<le> al_end (alarms ?s a)"
      "\<forall>v \<in> set vs. al_end (alarms ?s a) < al_end (alarms ?s v)"
      unfolding al using uv(3,4) na by simp_all
    show "\<forall>b. b \<noteq> a \<longrightarrow> alarms ?s b = alarms s b"
      unfolding al using other by simp
    show "al_end (alarms ?s a) = s64 (system_now s + tick)" "al_handler (alarms ?s a) = Some h"
      unfolding al by (simp_all add: e_def)
    show "irq_enabled ?s = irq_enabled s" by simp
  qed
qed

definition demo_alarms :: astate where
  "demo_alarms = \<lparr>irq_enabled = True,
     alarms = (\<lambda>a. \<lparr>al_handler = (if a < 2 then Some 0 else None), al_tag = 0, al_end = 100 + 10 * int a,
        al_period = 0, al_start = 0, al_userData = 0\<rparr>),
     al_links = \<lparr>lnext = (\<lambda>_. None)(0 := Some 1), lprev = (\<lambda>_. None)(1 := Some 0)\<rparr>,
     AlarmQueue = \<lparr>qhead = Some 0, qtail = Some 1\<rparr>, clock = (\<lambda>n. 50 + int n), reads = 0,
     system_time = 0, decrementer = 0, decr_installed = True, shutdown_registered = True, a_kern = demo\<rparr>"

lemma demo_alarms_inv: "alarm_inv demo_alarms [0, 1]"
  by (simp add: alarm_inv_def demo_alarms_def dlist_def)

theorem OSSetAlarm_keeps_order_witness:
  "\<exists>s' us vs. OSSetAlarm 2 55 (Some 0) demo_alarms = Some s' \<and> [0, 1] = us @ vs \<and>
    alarm_inv s' (us @ 2 # vs) \<and> al_end (alarms s' 2) = 105"
  using OSSetAlarm_keeps_order [OF demo_alarms_inv, of 2 55 0]
  by (auto simp: system_now_def demo_alarms_def s64_def)

text \<open>C9. The end time of a periodic alarm that has started is the first instant of its
  period strictly after now.\<close>

theorem periodic_end_next:
  assumes "0 < al_period al" "al_start al < time" "- (2 ^ 61) \<le> al_start al"
    "time < 2 ^ 61" "al_period al < 2 ^ 61"
  shows "time < periodic_end al time \<and> periodic_end al time \<le> time + al_period al \<and>
    al_period al dvd periodic_end al time - al_start al"
proof -
  let ?d = "time - al_start al" and ?p = "al_period al"
  have d: "s64 ?d = ?d" using assms by (intro s64_id) auto
  have q: "?d sdiv ?p = ?d div ?p" using assms by (intro sdiv_nonneg) auto
  have dm: "?p * (?d div ?p) + ?d mod ?p = ?d" by simp
  have m: "0 \<le> ?d mod ?p" "?d mod ?p < ?p" using assms(1) by simp_all
  let ?e = "al_start al + ?p * (?d div ?p + 1)"
  have e: "?e = time - ?d mod ?p + ?p" using dm by (simp add: algebra_simps)
  have "periodic_end al time = ?e"
    using assms m unfolding periodic_end_def d q e by (simp add: s64_def)
  moreover have "?p dvd ?e - al_start al" by simp
  ultimately show ?thesis using e m by auto
qed

theorem periodic_end_next_witness:
  "periodic_end \<lparr>al_handler = None, al_tag = 0, al_end = 0, al_period = 10, al_start = 3, al_userData = 0\<rparr> 33 = 43"
  using periodic_end_next [of "\<lparr>al_handler = None, al_tag = 0, al_end = 0, al_period = 10, al_start = 3, al_userData = 0\<rparr>" 33]
  by (simp add: periodic_end_def s64_def conv_simps)

text \<open>\<^verbatim>\<open>OSCancelAlarm\<close> takes a set alarm out of the list wherever it stands, clears
  its handler, leaves the order of the others and the interrupt flag, and does nothing for an
  alarm that is not set.\<close>

theorem OSCancelAlarm_removes:
  assumes "alarm_inv s (us @ a # vs)"
  shows "alarm_inv (OSCancelAlarm a s) (us @ vs) \<and>
    al_handler (alarms (OSCancelAlarm a s) a) = None \<and>
    irq_enabled (OSCancelAlarm a s) = irq_enabled s \<and>
    alarms (OSCancelAlarm a (OSCancelAlarm a s)) = alarms (OSCancelAlarm a s) \<and>
    al_links (OSCancelAlarm a (OSCancelAlarm a s)) = al_links (OSCancelAlarm a s) \<and>
    AlarmQueue (OSCancelAlarm a (OSCancelAlarm a s)) = AlarmQueue (OSCancelAlarm a s)"
proof -
  have d: "dlist (al_links s) (AlarmQueue s) (us @ a # vs)" and h: "al_handler (alarms s a) \<noteq> None"
    using assms by (auto simp: alarm_inv_def)
  obtain L q where f: "q_unlink a (al_links s, AlarmQueue s) = (L, q)"
    by (cases "q_unlink a (al_links s, AlarmQueue s)")
  have na: "a \<notin> set (us @ vs)" using dlist_distinct [OF d] by simp
  let ?s = "OSCancelAlarm a s"
  have lq: "al_links ?s = L" "AlarmQueue ?s = q" "alarms ?s = (alarms s)(a := (alarms s a)\<lparr>al_handler := None\<rparr>)"
    "irq_enabled ?s = irq_enabled s"
    using h f by (auto simp: OSCancelAlarm_def OSDisableInterrupts_def OSRestoreInterrupts_def Let_def
        on_alarms_def upd_alarm_def fun_eq_iff split: option.splits)
  have "map (\<lambda>x. al_end (alarms ?s x)) (us @ vs) = map (\<lambda>x. al_end (alarms s x)) (us @ vs)"
    unfolding lq using na by (intro map_cong) auto
  moreover have "sorted (map (\<lambda>x. al_end (alarms s x)) (us @ vs))"
    using assms by (auto simp: alarm_inv_def sorted_append)
  ultimately have "sorted (map (\<lambda>x. al_end (alarms ?s x)) (us @ vs))" by (simp only:)
  moreover have "\<forall>x \<in> set (us @ vs). al_handler (alarms ?s x) \<noteq> None"
    unfolding lq using assms na by (auto simp: alarm_inv_def)
  moreover have "dlist (al_links ?s) (AlarmQueue ?s) (us @ vs)"
    unfolding lq by (rule q_unlink_dlist [OF d f])
  ultimately have "alarm_inv ?s (us @ vs)" unfolding alarm_inv_def by blast
  moreover have twice: "OSCancelAlarm a ?s = OSRestoreInterrupts (irq_enabled ?s) (snd (OSDisableInterrupts ?s))"
    using lq(3) by (simp add: OSCancelAlarm_def [of a ?s] OSDisableInterrupts_def)
  ultimately show ?thesis using lq by simp
qed

theorem OSCancelAlarm_removes_witness:
  "alarm_inv (OSCancelAlarm 0 demo_alarms) [1] \<and> al_handler (alarms (OSCancelAlarm 0 demo_alarms) 0) = None"
  using OSCancelAlarm_removes [of demo_alarms "[]" 0 "[1]"] demo_alarms_inv by simp

end
