(* ===== verification/Calendar.thy ===== *)
theory Calendar
  imports Prelude
begin

text \<open>
  \<^verbatim>\<open>os/OSTime.c\<close>: conversion between the time base and calendar dates.  \<open>bus\<close> is
  \<^verbatim>\<open>OS_BUS_CLOCK_SPEED\<close>, a word that the system menu leaves in low memory; the time base
  runs at a quarter of it.  Days are counted from 1 January of year 0; 0 ticks is the start of
  the year 2000.  The two assembly routines that read the time base are not modelled here.

  Sums and products are written with the conversion to the type they are computed in
  (\<^verbatim>\<open>s32\<close> for days and years, \<^verbatim>\<open>s64\<close> for ticks) wherever they can
  leave it.  The exact counts the code stands for, \<open>leap_days\<close> and \<open>cal_days\<close>, are definitions of
  their own; the code's \<open>GetLeapDays\<close> and \<open>days_before\<close> agree with them as long as nothing wraps, which
  is for the first 5.8 million years.
\<close>

section \<open>The code\<close>

record OSCalendarTime =
  cal_sec :: int
  cal_min :: int
  cal_hour :: int
  cal_mday :: int
  cal_month :: int
  cal_year :: int
  cal_wday :: int
  cal_yday :: int
  cal_msec :: int
  cal_usec :: int

definition YearDays :: "int list" where
  "YearDays = [0, 31, 59, 90, 120, 151, 181, 212, 243, 273, 304, 334]"

definition LeapYearDays :: "int list" where
  "LeapYearDays = [0, 31, 60, 91, 121, 152, 182, 213, 244, 274, 305, 335]"

definition BIAS :: int where "BIAS = 0xB2575"

definition OS_TIME_SPEED :: "int \<Rightarrow> int" where
  "OS_TIME_SPEED bus = bus div 4"

definition OS_TICKS_TO_SEC :: "int \<Rightarrow> int \<Rightarrow> int" where
  "OS_TICKS_TO_SEC bus x = x sdiv OS_TIME_SPEED bus"

definition OS_TICKS_TO_MSEC :: "int \<Rightarrow> int \<Rightarrow> int" where
  "OS_TICKS_TO_MSEC bus x = x sdiv (OS_TIME_SPEED bus div 1000)"

definition OS_TICKS_TO_USEC :: "int \<Rightarrow> int \<Rightarrow> int" where
  "OS_TICKS_TO_USEC bus x = (x * 8) sdiv (OS_TIME_SPEED bus div 125000)"

definition OS_SEC_TO_TICKS :: "int \<Rightarrow> int \<Rightarrow> int" where
  "OS_SEC_TO_TICKS bus x = x * OS_TIME_SPEED bus"

definition OS_MSEC_TO_TICKS :: "int \<Rightarrow> int \<Rightarrow> int" where
  "OS_MSEC_TO_TICKS bus x = x * (OS_TIME_SPEED bus div 1000)"

definition OS_USEC_TO_TICKS :: "int \<Rightarrow> int \<Rightarrow> int" where
  "OS_USEC_TO_TICKS bus x = (x * (OS_TIME_SPEED bus div 125000)) sdiv 8"

definition IsLeapYear :: "int \<Rightarrow> bool" where
  "IsLeapYear year \<longleftrightarrow> (year smod 4 = 0 \<and> year smod 100 \<noteq> 0) \<or> year smod 400 = 0"

definition month_table :: "int \<Rightarrow> int list" where
  "month_table year = (if IsLeapYear year then LeapYearDays else YearDays)"

definition GetYearDays :: "int \<Rightarrow> int \<Rightarrow> int" where
  "GetYearDays year mon = month_table year ! nat mon"

definition GetLeapDays :: "int \<Rightarrow> int" where
  "GetLeapDays year =
     (if year < 1 then 0 else s32 (year + 3) sdiv 4 - (year - 1) sdiv 100 + (year - 1) sdiv 400)"

text \<open>\<^verbatim>\<open>totalDays\<close> of \<^verbatim>\<open>GetDates\<close>, an \<^verbatim>\<open>s32\<close>.\<close>

definition days_before :: "int \<Rightarrow> int" where
  "days_before year = s32 (year * 365 + GetLeapDays year)"

text \<open>The loop of \<^verbatim>\<open>GetDates\<close> over the years.\<close>

partial_function (option) find_year :: "int \<Rightarrow> int \<Rightarrow> int option" where
  "find_year days year =
     (if days < days_before year then find_year days (s32 (year - 1)) else Some year)"

declare find_year.simps [code]

text \<open>The loop over the months, from December down; None is a read in front of the table.\<close>

fun find_month :: "int list \<Rightarrow> int \<Rightarrow> nat \<Rightarrow> nat option" where
  "find_month p days 0 = None"
| "find_month p days (Suc m) = (if days < p ! m then find_month p days m else Some m)"

definition GetDates :: "int \<Rightarrow> OSCalendarTime \<Rightarrow> OSCalendarTime option" where
  "GetDates days cal =
     (let cal = cal\<lparr>cal_wday := s32 (days + 6) smod 7\<rparr>
      in case find_year days (days sdiv 365) of None \<Rightarrow> None
         | Some year \<Rightarrow>
             (let days = s32 (days - days_before year);
                  cal = cal\<lparr>cal_year := year, cal_yday := days\<rparr>
              in map_option (\<lambda>month. cal\<lparr>cal_month := int month,
                     cal_mday := s32 (days - month_table year ! month + 1)\<rparr>)
                   (find_month (month_table year) days 12)))"

definition OSTicksToCalendarTime :: "int \<Rightarrow> int \<Rightarrow> OSCalendarTime \<Rightarrow> OSCalendarTime option" where
  "OSTicksToCalendarTime bus ticks cal =
     (let d = ticks smod OS_SEC_TO_TICKS bus 1;
          d = (if d < 0 then d + OS_SEC_TO_TICKS bus 1 else d);
          cal = cal\<lparr>cal_usec := s32 (OS_TICKS_TO_USEC bus d smod 1000)\<rparr>;
          cal = cal\<lparr>cal_msec := s32 (OS_TICKS_TO_MSEC bus d smod 1000)\<rparr>;
          ticks = s64 (ticks - d);
          days = s32 (OS_TICKS_TO_SEC bus ticks sdiv 86400 + BIAS);
          secs = s32 (OS_TICKS_TO_SEC bus ticks smod 86400);
          (days, secs) = (if secs < 0 then (s32 (days - 1), s32 (secs + 86400)) else (days, secs))
      in map_option (\<lambda>cal. cal\<lparr>cal_hour := secs sdiv 60 sdiv 60,
             cal_min := (secs sdiv 60) smod 60, cal_sec := secs smod 60\<rparr>)
           (GetDates days cal))"

definition OSCalendarTimeToTicks :: "int \<Rightarrow> OSCalendarTime \<Rightarrow> int" where
  "OSCalendarTimeToTicks bus cal =
     (let ovMon = cal_month cal sdiv 12;
          month = cal_month cal - ovMon * 12;
          (month, ovMon) = (if month < 0 then (month + 12, ovMon - 1) else (month, ovMon));
          year = s32 (cal_year cal + ovMon);
          seconds = s64 (31536000 * year
            + 86400 * s32 (cal_mday cal + GetLeapDays year + GetYearDays year month - 1)
            + 3600 * cal_hour cal + 60 * cal_min cal + cal_sec cal - 0xEB1E1BF80)
      in s64 (OS_SEC_TO_TICKS bus seconds + OS_MSEC_TO_TICKS bus (cal_msec cal)
            + OS_USEC_TO_TICKS bus (cal_usec cal)))"

section \<open>Years and months\<close>

lemma sdiv_pos_floor: "0 \<le> (a::int) \<Longrightarrow> 0 < b \<Longrightarrow> a sdiv b = a div b"
  by (rule sdiv_nonneg)

lemma div_pred:
  assumes "0 < (n::int)"
  shows "y div n = (y - 1) div n + (if n dvd y then 1 else 0)"
proof (cases "n dvd y")
  case True
  then obtain k where y: "y = n * k" by auto
  have "(n * k - 1) div n = k - 1"
    using assms by (intro int_div_pos_eq [where r = "n - 1"]) (auto simp: algebra_simps)
  then show ?thesis using True y assms by simp
next
  case False
  define q r where "q = y div n" and "r = y mod n"
  have "0 \<le> y mod n" "y mod n < n" "y mod n \<noteq> 0"
    using False assms by (simp_all add: dvd_eq_mod_eq_0)
  then have r: "0 < r" "r < n" by (simp_all add: r_def)
  have y: "y = n * q + r" by (simp add: q_def r_def)
  have "(y - 1) div n = q"
    using r y by (intro int_div_pos_eq [where r = "r - 1"]) auto
  then show ?thesis using False by (simp add: q_def)
qed

lemma smod_0_iff: "(a::int) smod b = 0 \<longleftrightarrow> b dvd a"
  by (cases "a = 0") (auto simp: signed_modulo_int_def sgn_0_0 dvd_eq_mod_eq_0 [symmetric])

lemma IsLeapYear_iff: "IsLeapYear y \<longleftrightarrow> (4 dvd y \<and> \<not> 100 dvd y) \<or> 400 dvd y"
  by (simp add: IsLeapYear_def smod_0_iff)

text \<open>The exact counts: leap years before a year, and days before it.\<close>

definition leap_days :: "int \<Rightarrow> int" where
  "leap_days year =
     (if year < 1 then 0 else (year + 3) sdiv 4 - (year - 1) sdiv 100 + (year - 1) sdiv 400)"

definition year_length :: "int \<Rightarrow> int" where
  "year_length y = 365 + (if IsLeapYear y then 1 else 0)"

definition cal_days :: "int \<Rightarrow> int" where
  "cal_days year = (\<Sum>y < nat year. year_length (int y))"

lemma leap_days_step:
  "leap_days (y + 1) = leap_days y + (if 0 \<le> y \<and> IsLeapYear y then 1 else 0)"
proof (cases "1 \<le> y")
  case True
  have i4: "(4::int) dvd y" if "100 dvd y" using that by (rule dvd_trans [rotated]) simp
  have i100: "(100::int) dvd y" if "400 dvd y" using that by (rule dvd_trans [rotated]) simp
  have e1: "leap_days (y + 1) = (y + 4) div 4 - y div 100 + y div 400"
    using True by (simp add: leap_days_def sdiv_nonneg)
  have e0: "leap_days y = (y + 3) div 4 - (y - 1) div 100 + (y - 1) div 400"
    using True by (simp add: leap_days_def sdiv_nonneg)
  have s4: "(y + 4) div 4 = (y + 3) div 4 + (if 4 dvd y then 1 else 0)"
    using div_pred [of 4 "y + 4"] by simp
  have s100: "y div 100 = (y - 1) div 100 + (if 100 dvd y then 1 else 0)"
    by (rule div_pred) simp
  have s400: "y div 400 = (y - 1) div 400 + (if 400 dvd y then 1 else 0)"
    by (rule div_pred) simp
  show ?thesis
    unfolding e1 e0 s4 s100 s400 IsLeapYear_iff
    using i4 i100 True by (cases "4 dvd y"; cases "100 dvd y"; cases "400 dvd y") simp_all
next
  case False
  then show ?thesis by (cases "y = 0") (auto simp: leap_days_def IsLeapYear_iff sdiv_nonneg)
qed

lemma cal_days_step:
  assumes "0 \<le> y"
  shows "cal_days (y + 1) = cal_days y + year_length y"
proof -
  have "nat (y + 1) = Suc (nat y)" using assms by simp
  then show ?thesis using assms by (simp add: cal_days_def)
qed

lemma cal_days_leap:
  assumes "0 \<le> y"
  shows "cal_days y = y * 365 + leap_days y"
  using assms
proof (induction y rule: int_ge_induct)
  case base
  then show ?case by (simp add: cal_days_def leap_days_def)
next
  case (step y)
  then show ?case by (simp add: cal_days_step leap_days_step year_length_def)
qed

lemma cal_days_mono:
  assumes "0 \<le> y"
  shows "y * 365 \<le> cal_days y"
  using assms
proof (induction y rule: int_ge_induct)
  case base
  then show ?case by (simp add: cal_days_def)
next
  case (step y)
  then show ?case by (simp add: cal_days_step year_length_def)
qed

text \<open>The last year whose first day has a number below \<open>2 ^ 31\<close> lies above this bound.\<close>

abbreviation last_year :: int where
  "last_year \<equiv> 5879452"

lemma days_before_exact:
  assumes "0 \<le> y" "y \<le> last_year"
  shows "GetLeapDays y = leap_days y" "days_before y = cal_days y" "cal_days y < 2 ^ 31"
proof -
  have s: "s32 (y + 3) = y + 3" using assms by (intro s32_id) simp_all
  then show g: "GetLeapDays y = leap_days y" by (simp add: GetLeapDays_def leap_days_def)
  have "leap_days y \<le> (y + 3) div 4"
  proof (cases "y < 1")
    case True
    then show ?thesis using assms by (simp add: leap_days_def)
  next
    case False
    then have "leap_days y = (y + 3) div 4 - (y - 1) div 100 + (y - 1) div 400"
      by (simp add: leap_days_def sdiv_nonneg)
    moreover have "(y - 1) div 400 \<le> (y - 1) div 100" using False by (intro zdiv_mono2) simp_all
    ultimately show ?thesis by simp
  qed
  then have "cal_days y \<le> y * 365 + (y + 3) div 4" using cal_days_leap [OF assms(1)] by simp
  then show b: "cal_days y < 2 ^ 31" using assms by simp
  have "0 \<le> cal_days y" using cal_days_mono [OF assms(1)] assms(1) by simp
  then show "days_before y = cal_days y"
    using b by (simp add: days_before_def g cal_days_leap [OF assms(1)] s32_id)
qed

lemma find_year_result:
  assumes "0 \<le> y" "y \<le> last_year" "0 \<le> days"
  shows "\<exists>r. find_year days y = Some r \<and> 0 \<le> r \<and> r \<le> y \<and> cal_days r \<le> days \<and>
    (r < y \<longrightarrow> days < cal_days (r + 1))"
  using assms(1,2)
proof (induction y rule: int_ge_induct)
  case base
  have "\<not> days < days_before 0" using assms(3) days_before_exact [of 0] by (simp add: cal_days_def)
  then have "find_year days 0 = Some 0" by (subst find_year.simps) simp
  then show ?case using assms(3) by (simp add: cal_days_def)
next
  case (step y)
  have e: "days_before (y + 1) = cal_days (y + 1)" using step by (intro days_before_exact) simp_all
  show ?case
  proof (cases "days < cal_days (y + 1)")
    case True
    have "s32 (y + 1 - 1) = y" using step by (simp add: s32_id)
    then have f: "find_year days (y + 1) = find_year days y"
      using True e by (subst find_year.simps) simp
    obtain r where r: "find_year days y = Some r" "0 \<le> r" "r \<le> y" "cal_days r \<le> days"
      "r < y \<longrightarrow> days < cal_days (r + 1)" using step by auto
    then have "days < cal_days (r + 1)" using True by (cases "r = y") auto
    then show ?thesis unfolding f using r by auto
  next
    case False
    then have "find_year days (y + 1) = Some (y + 1)" using e by (subst find_year.simps) simp
    then show ?thesis using step False by auto
  qed
qed

text \<open>The days \<^verbatim>\<open>GetDates\<close> can resolve before its sums wrap.\<close>

abbreviation last_day :: int where
  "last_day \<equiv> 2146000000"

lemma find_year_day:
  assumes "0 \<le> days" "days < last_day"
  obtains y where "find_year days (days sdiv 365) = Some y" "0 \<le> y" "y \<le> last_year"
    "0 \<le> days - cal_days y" "days - cal_days y < year_length y"
proof -
  have q: "days sdiv 365 = days div 365" using assms(1) by (intro sdiv_nonneg) auto
  have b: "0 \<le> days div 365" "days div 365 \<le> last_year" using assms by auto
  obtain y where y: "find_year days (days div 365) = Some y" "0 \<le> y" "y \<le> days div 365"
    "cal_days y \<le> days" "y < days div 365 \<longrightarrow> days < cal_days (y + 1)"
    using find_year_result [OF b assms(1)] by blast
  have "days < cal_days (y + 1)"
  proof (cases "y < days div 365")
    case True
    then show ?thesis using y by blast
  next
    case False
    then have e: "y = days div 365" using y by simp
    have "days < (days div 365 + 1) * 365" by presburger
    also have "\<dots> \<le> cal_days (days div 365 + 1)" using b by (intro cal_days_mono) simp
    finally show ?thesis by (simp add: e)
  qed
  then have "days - cal_days y < year_length y" using cal_days_step [OF y(2)] by simp
  then show thesis using that y b q by auto
qed

lemma month_tables:
  "length (month_table y) = 12" "month_table y ! 0 = 0" "sorted (month_table y)"
  "distinct (month_table y)"
  by (simp_all add: month_table_def YearDays_def LeapYearDays_def)

lemma find_month_result:
  assumes "p ! 0 \<le> days" "0 < n"
  shows "\<exists>m. find_month p days n = Some m \<and> m < n \<and> p ! m \<le> days \<and> (Suc m < n \<longrightarrow> days < p ! Suc m)"
  using assms(2)
proof (induction n)
  case 0
  then show ?case by simp
next
  case (Suc n)
  show ?case
  proof (cases "days < p ! n")
    case True
    then have "0 < n" using assms(1) by (cases n) auto
    with Suc.IH obtain m where m: "find_month p days n = Some m" "m < n" "p ! m \<le> days"
      "Suc m < n \<longrightarrow> days < p ! Suc m" by auto
    then have "days < p ! Suc m" using True by (cases "Suc m = n") auto
    then show ?thesis using m True by auto
  next
    case False
    then show ?thesis by auto
  qed
qed

text \<open>Days of a month, by the calendar.\<close>

definition month_length :: "int \<Rightarrow> nat \<Rightarrow> int" where
  "month_length y m = (if m \<in> {3, 5, 8, 10} then 30 else if m \<noteq> 1 then 31
     else if IsLeapYear y then 29 else 28)"

lemma month_table_step: "m < 11 \<Longrightarrow> month_table y ! Suc m = month_table y ! m + month_length y m"
  by (cases "IsLeapYear y")
    (auto simp: month_table_def YearDays_def LeapYearDays_def month_length_def less_Suc_eq numeral_eq_Suc)

lemma month_table_last: "month_table y ! 11 = 334 + (if IsLeapYear y then 1 else 0)"
  by (simp add: month_table_def YearDays_def LeapYearDays_def)


lemma GetDates_result:
  assumes "0 \<le> days" "days < last_day"
  obtains y m where "GetDates days cal = Some (cal\<lparr>cal_wday := (days + 6) mod 7, cal_year := y,
      cal_yday := days - cal_days y, cal_month := int m,
      cal_mday := days - cal_days y - month_table y ! m + 1\<rparr>)"
    "0 \<le> y" "y \<le> last_year" "m < 12" "0 \<le> days - cal_days y" "days - cal_days y < year_length y"
    "month_table y ! m \<le> days - cal_days y"
    "days - cal_days y < month_table y ! m + month_length y m"
proof -
  obtain y where y: "find_year days (days sdiv 365) = Some y" "0 \<le> y" "y \<le> last_year"
    "0 \<le> days - cal_days y" "days - cal_days y < year_length y"
    by (rule find_year_day [OF assms])
  have z: "month_table y ! 0 \<le> days - cal_days y" using y(4) month_tables(2) by simp
  obtain m where m: "find_month (month_table y) (days - cal_days y) 12 = Some m" "m < 12"
    "month_table y ! m \<le> days - cal_days y"
    "Suc m < 12 \<longrightarrow> days - cal_days y < month_table y ! Suc m"
    using find_month_result [OF z, of 12] by auto
  have up: "days - cal_days y < month_table y ! m + month_length y m"
  proof (cases "m < 11")
    case True
    then show ?thesis using m(4) month_table_step [OF True, of y] by simp
  next
    case False
    then have "m = 11" using m(2) by simp
    then show ?thesis
      using y(5) month_table_last [of y] by (auto simp: year_length_def month_length_def split: if_splits)
  qed
  have ml: "month_length y m \<le> 31" by (simp add: month_length_def)
  have wd: "s32 (days + 6) smod 7 = (days + 6) mod 7"
    using assms by (simp add: s32_id smod_nonneg)
  have yd: "s32 (days - cal_days y) = days - cal_days y" using y assms cal_days_mono [OF y(2)] by (intro s32_id) auto
  have md: "s32 (days - cal_days y - month_table y ! m + 1) = days - cal_days y - month_table y ! m + 1"
    using up ml m(3) by (intro s32_id) auto
  have "GetDates days cal = Some (cal\<lparr>cal_wday := (days + 6) mod 7, cal_year := y,
      cal_yday := days - cal_days y, cal_month := int m,
      cal_mday := days - cal_days y - month_table y ! m + 1\<rparr>)"
    by (simp add: GetDates_def Let_def y(1) days_before_exact(2) [OF y(2,3)] wd yd md m(1))
  then show thesis using that y m up by blast
qed

text \<open>Where the 32-bit sums wrap there is no date any more: the number of days before the year comes
  out negative, the loop over the years ends at once, and the loop over the months runs past the front
  of the table.\<close>

lemma GetDates_wraps: "GetDates 2147483647 cal = None" "s32 (2147483647 + 6) smod 7 < 0"
proof -
  have "GetLeapDays 5883516 = 1426752" by (simp add: GetLeapDays_def s32_def signed_divide_int_def)
  then have d: "days_before 5883516 = - 2146057204" by (simp add: days_before_def s32_def)
  have "find_year 2147483647 5883516 = Some 5883516" by (subst find_year.simps) (simp add: d)
  moreover have "(2147483647::int) sdiv 365 = 5883516" by (simp add: signed_divide_int_def)
  moreover have "month_table 5883516 = LeapYearDays"
    by (simp add: month_table_def IsLeapYear_def signed_modulo_int_def)
  moreover have "s32 (2147483647 - - 2146057204) = - 1426445" by (simp add: s32_def)
  ultimately show "GetDates 2147483647 cal = None"
    by (simp add: GetDates_def d LeapYearDays_def numeral_eq_Suc)
  show "s32 (2147483647 + 6) smod 7 < 0" by (simp add: s32_def signed_modulo_int_def)
qed

section \<open>Ticks and dates\<close>

lemma smod_floor: "0 < (b::int) \<Longrightarrow> (if a smod b < 0 then a smod b + b else a smod b) = a mod b"
proof -
  assume b: "0 < b"
  show ?thesis
  proof (cases "0 \<le> a")
    case True
    then show ?thesis using b by (simp add: smod_nonneg not_less)
  next
    case False
    then have s: "a smod b = - ((- a) mod b)" using b by (simp add: signed_modulo_int_def)
    have m: "0 \<le> (- a) mod b" "(- a) mod b < b" using b by simp_all
    have "a mod b = (if (- a) mod b = 0 then 0 else b - (- a) mod b)"
      using zmod_zminus1_eq_if [of "- a" b] by simp
    then show ?thesis using s m by auto
  qed
qed

lemma sdiv_floor: "0 < (b::int) \<Longrightarrow> (if a smod b < 0 then a sdiv b - 1 else a sdiv b) = a div b"
proof -
  assume b: "0 < b"
  have e: "b * (a sdiv b) = a - a smod b" "b * (a div b) = a - a mod b"
    by (simp_all only: minus_smod_eq_mult_sdiv minus_mod_eq_mult_div)
  have "b * (a div b) = b * (if a smod b < 0 then a sdiv b - 1 else a sdiv b)"
  proof (cases "a smod b < 0")
    case True
    then have "a mod b = a smod b + b" using smod_floor [OF b, of a] by simp
    then show ?thesis using True e by (simp add: right_diff_distrib)
  next
    case False
    then have "a mod b = a smod b" using smod_floor [OF b, of a] by simp
    then show ?thesis using False e by simp
  qed
  then show ?thesis using b by simp
qed

lemma div_bounds:
  assumes "0 < (b::int)"
  shows "b * (a div b) \<le> a" "a < b * (a div b) + b"
proof -
  have "b * (a div b) + a mod b = a" by simp
  moreover have "0 \<le> a mod b" "a mod b < b" using assms by simp_all
  ultimately show "b * (a div b) \<le> a" "a < b * (a div b) + b" by linarith+
qed

lemma div_unique_bounds: "0 < (b::int) \<Longrightarrow> b * q \<le> a \<Longrightarrow> a < b * q + b \<Longrightarrow> a div b = q"
  by (rule int_div_pos_eq [where r = "a - b * q"]) auto

text \<open>The sub-second part survives up to the resolution of a microsecond.\<close>

lemma subsecond_loss:
  fixes d :: int
  assumes "0 \<le> d" "d < 60750000"
  defines "m \<equiv> d div 60750 mod 1000" and "u \<equiv> d * 8 div 486 mod 1000"
  shows "m * 60750 + u * 486 div 8 \<le> d" "d \<le> m * 60750 + u * 486 div 8 + 61"
    "0 \<le> m" "m < 1000" "0 \<le> u" "u < 1000"
proof -
  define U where "U = d * 8 div 486"
  have U: "486 * U \<le> d * 8" "d * 8 < 486 * U + 486"
    unfolding U_def by (rule div_bounds; simp)+
  define M where "M = d div 60750"
  have M: "60750 * M \<le> d" "d < 60750 * M + 60750"
    unfolding M_def by (rule div_bounds; simp)+
  have "0 \<le> M" "M < 1000" using M assms(1,2) by linarith+
  then have m: "m = M" unfolding m_def M_def [symmetric] by simp
  have m': "60750 * m \<le> d" "d < 60750 * m + 60750" using M m by simp_all
  have "1000 * m \<le> U" "U < 1000 * m + 1000" using U m' by linarith+
  then have "U div 1000 = m" by (intro div_unique_bounds) simp_all
  then have u: "u = U - 1000 * m"
    unfolding u_def U_def [symmetric] using minus_mult_div_eq_mod [of U 1000] by simp
  define x where "x = u * 486 div 8"
  have x: "8 * x \<le> u * 486" "u * 486 < 8 * x + 8"
    unfolding x_def by (rule div_bounds; simp)+
  show "m * 60750 + u * 486 div 8 \<le> d" "d \<le> m * 60750 + u * 486 div 8 + 61"
    unfolding x_def [symmetric] using x u U by linarith+
qed (simp_all add: m_def u_def)

lemma subsecond_fields:
  fixes d :: int
  assumes d: "0 \<le> d" "d < 60750000"
  defines "m \<equiv> d div 60750 mod 1000" and "u \<equiv> d * 8 div 486 mod 1000"
  shows "s32 (d * 8 sdiv 486 smod 1000) = u" "s32 (d sdiv 60750 smod 1000) = m"
proof -
  have "0 \<le> d * 8" using d(1) by simp
  then have a: "d * 8 sdiv 486 = d * 8 div 486" "d sdiv 60750 = d div 60750"
    by (rule sdiv_nonneg, simp) (rule sdiv_nonneg, use d(1) in simp_all)
  have b: "0 \<le> d * 8 div 486" "0 \<le> d div 60750"
    using d(1) by (simp_all add: pos_imp_zdiv_nonneg_iff)
  have c: "d * 8 div 486 smod 1000 = u" "d div 60750 smod 1000 = m"
    unfolding u_def m_def using b by (auto intro!: smod_nonneg)
  show "s32 (d * 8 sdiv 486 smod 1000) = u" "s32 (d sdiv 60750 smod 1000) = m"
    unfolding a c using subsecond_loss [OF d, folded m_def u_def] by (auto intro!: s32_id)
qed

text \<open>The correction of a truncated division to the day it belongs to.\<close>

lemma day_seconds:
  assumes "- 63113904000 \<le> S" "S < 2 ^ 36"
  defines "days \<equiv> S div 86400 + BIAS" and "secs \<equiv> S mod 86400"
  shows "(if s32 (S smod 86400) < 0
      then (s32 (s32 (S sdiv 86400 + BIAS) - 1), s32 (s32 (S smod 86400) + 86400))
      else (s32 (S sdiv 86400 + BIAS), s32 (S smod 86400))) = (days, secs)"
proof -
  have secs: "0 \<le> secs" "secs < 86400" by (simp_all add: secs_def)
  have "S = 86400 * (days - BIAS) + secs" unfolding days_def secs_def by simp
  then have days: "0 \<le> days" "days < 2 ^ 21" using assms(1,2) secs by (simp_all add: BIAS_def)
  have f1: "(if S smod 86400 < 0 then S smod 86400 + 86400 else S smod 86400) = secs"
    unfolding secs_def by (rule smod_floor) simp
  have f2: "(if S smod 86400 < 0 then S sdiv 86400 - 1 else S sdiv 86400) = days - BIAS"
    unfolding days_def using sdiv_floor [of 86400 S] by simp
  have r: "s32 (S smod 86400) = S smod 86400"
    using f1 secs by (intro s32_id) (auto split: if_splits)
  have q: "s32 (S sdiv 86400 + BIAS) = S sdiv 86400 + BIAS"
    using f2 days by (intro s32_id) (auto split: if_splits)
  show ?thesis
    unfolding r q using f1 f2 secs days by (cases "S smod 86400 < 0") (auto simp: s32_id)
qed

lemma clock_fields:
  assumes "0 \<le> (secs::int)"
  shows "secs sdiv 60 sdiv 60 = secs div 3600" "(secs sdiv 60) smod 60 = secs div 60 mod 60"
    "secs smod 60 = secs mod 60"
    "3600 * (secs div 3600) + 60 * (secs div 60 mod 60) + secs mod 60 = secs"
proof -
  have h: "secs div 60 div 60 = secs div 3600" by (simp add: zdiv_zmult2_eq [symmetric])
  have m: "0 \<le> secs div 60" using assms by (simp add: pos_imp_zdiv_nonneg_iff)
  have s: "secs sdiv 60 = secs div 60" using assms by (rule sdiv_nonneg) simp
  show "secs sdiv 60 sdiv 60 = secs div 3600" unfolding s using m h by (simp add: sdiv_nonneg)
  show "(secs sdiv 60) smod 60 = secs div 60 mod 60" unfolding s using m by (simp add: smod_nonneg)
  show "secs smod 60 = secs mod 60" using assms by (simp add: smod_nonneg)
  have "60 * (secs div 60) + secs mod 60 = secs" by simp
  moreover have "60 * (secs div 60 div 60) + secs div 60 mod 60 = secs div 60" by simp
  ultimately show "3600 * (secs div 3600) + 60 * (secs div 60 mod 60) + secs mod 60 = secs"
    unfolding h by linarith
qed

text \<open>C10. The date of a day number from year 0 on, for the 2146000000 days (5.8 million years) in
  which the 32-bit sums of the code do not wrap, is valid and unique: \<^verbatim>\<open>GetDates\<close>
  returns, the month and the day of the month are in the ranges of that year's calendar, the
  date stands for exactly the day number it was computed from (the sum of the lengths of the years
  and months before it), and the day of the year and of the week agree with it.\<close>

theorem GetDates_valid:
  assumes "0 \<le> days" "days < 2146000000"
  shows "\<exists>c. GetDates days cal = Some c \<and> 0 \<le> cal_year c \<and> 0 \<le> cal_month c \<and> cal_month c < 12 \<and>
    1 \<le> cal_mday c \<and> cal_mday c \<le> month_length (cal_year c) (nat (cal_month c)) \<and>
    days = cal_days (cal_year c) + GetYearDays (cal_year c) (cal_month c) + cal_mday c - 1 \<and>
    cal_yday c = days - cal_days (cal_year c) \<and> cal_wday c = (days + 6) mod 7"
proof -
  obtain y m where "GetDates days cal = Some (cal\<lparr>cal_wday := (days + 6) mod 7, cal_year := y,
      cal_yday := days - cal_days y, cal_month := int m,
      cal_mday := days - cal_days y - month_table y ! m + 1\<rparr>)"
    "0 \<le> y" "y \<le> last_year" "m < 12" "0 \<le> days - cal_days y" "days - cal_days y < year_length y"
    "month_table y ! m \<le> days - cal_days y"
    "days - cal_days y < month_table y ! m + month_length y m"
    by (rule GetDates_result [OF assms])
  then show ?thesis by (simp add: GetYearDays_def)
qed

definition no_date :: OSCalendarTime where
  "no_date = \<lparr>cal_sec = 0, cal_min = 0, cal_hour = 0, cal_mday = 0, cal_month = 0, cal_year = 0,
     cal_wday = 0, cal_yday = 0, cal_msec = 0, cal_usec = 0\<rparr>"

theorem GetDates_valid_witness:
  "\<exists>c. GetDates 730544 no_date = Some c \<and> 0 \<le> cal_year c \<and> 0 \<le> cal_month c \<and> cal_month c < 12 \<and>
    1 \<le> cal_mday c \<and> cal_mday c \<le> month_length (cal_year c) (nat (cal_month c)) \<and>
    730544 = cal_days (cal_year c) + GetYearDays (cal_year c) (cal_month c) + cal_mday c - 1 \<and>
    cal_yday c = 730544 - cal_days (cal_year c) \<and> cal_wday c = (730544 + 6) mod 7"
  by (rule GetDates_valid) simp_all

text \<open>C11. Converting a tick count to a date and back, at the Wii's bus clock of 243 MHz and
  for every time from year 0 to far in the future: the conversion returns a date in range, and
  converting it back gives the tick count again up to the microsecond resolution of the date
  (a loss of at most 61 ticks, never a gain).\<close>

theorem calendar_roundtrip:
  assumes "- 3834169668000000000 \<le> ticks" "ticks < 2 ^ 61"
  shows "\<exists>c. OSTicksToCalendarTime 243000000 ticks cal = Some c \<and>
    0 \<le> cal_sec c \<and> cal_sec c < 60 \<and> 0 \<le> cal_min c \<and> cal_min c < 60 \<and>
    0 \<le> cal_hour c \<and> cal_hour c < 24 \<and> 0 \<le> cal_msec c \<and> cal_msec c < 1000 \<and>
    0 \<le> cal_usec c \<and> cal_usec c < 1000 \<and>
    OSCalendarTimeToTicks 243000000 c \<le> ticks \<and> ticks \<le> OSCalendarTimeToTicks 243000000 c + 61"
proof -
  define d where "d = ticks mod 60750000"
  define S where "S = ticks div 60750000"
  define days where "days = S div 86400 + BIAS"
  define secs where "secs = S mod 86400"
  have t: "ticks = 60750000 * S + d" by (simp add: d_def S_def)
  have d: "0 \<le> d" "d < 60750000" by (simp_all add: d_def)
  have S: "- 63113904000 \<le> S" "S < 2 ^ 36" using assms t d by simp_all
  have secs: "0 \<le> secs" "secs < 86400" by (simp_all add: secs_def)
  have Sd: "S = 86400 * (days - BIAS) + secs" unfolding days_def secs_def by simp
  have days: "0 \<le> days" "days < 2 ^ 21" using S Sd secs by (simp_all add: BIAS_def)
  have speed: "OS_TIME_SPEED 243000000 = 60750000" by (simp add: OS_TIME_SPEED_def)
  note per = OS_SEC_TO_TICKS_def OS_MSEC_TO_TICKS_def OS_USEC_TO_TICKS_def OS_TICKS_TO_SEC_def
    OS_TICKS_TO_MSEC_def OS_TICKS_TO_USEC_def speed
  have per1: "OS_SEC_TO_TICKS 243000000 1 = 60750000" "OS_TICKS_TO_SEC 243000000 x = x sdiv 60750000"
    "OS_TICKS_TO_MSEC 243000000 x = x sdiv 60750" "OS_TICKS_TO_USEC 243000000 x = x * 8 sdiv 486" for x
    by (simp_all add: per)
  define m where "m = d div 60750 mod 1000"
  define u where "u = d * 8 div 486 mod 1000"
  note sub = subsecond_loss [OF d, folded m_def u_def]
  have dd: "(if ticks smod 60750000 < 0 then ticks smod 60750000 + 60750000 else ticks smod 60750000) = d"
    unfolding d_def by (rule smod_floor) simp
  have Sq: "s64 (ticks - d) sdiv 60750000 = S"
  proof -
    have "s64 (ticks - d) = ticks - d" using assms d by (intro s64_id) auto
    also have "\<dots> = 60750000 * S" using t by simp
    finally show ?thesis by (simp add: signed_divide_int_def abs_mult mult_sgn_abs sgn_mult)
  qed
  note uu = subsecond_fields [OF d, folded m_def u_def]
  note ds = day_seconds [OF S, folded days_def secs_def]
  let ?cal = "cal\<lparr>cal_usec := u, cal_msec := m\<rparr>"
  obtain y k where g: "GetDates days ?cal = Some (?cal\<lparr>cal_wday := (days + 6) mod 7, cal_year := y,
      cal_yday := days - cal_days y, cal_month := int k,
      cal_mday := days - cal_days y - month_table y ! k + 1\<rparr>)"
    "0 \<le> y" "y \<le> last_year" "k < 12" "0 \<le> days - cal_days y" "days - cal_days y < year_length y"
    "month_table y ! k \<le> days - cal_days y"
    "days - cal_days y < month_table y ! k + month_length y k"
    by (rule GetDates_result [OF days(1)]) (use days(2) in simp_all)
  let ?c = "?cal\<lparr>cal_wday := (days + 6) mod 7, cal_year := y,
      cal_yday := days - cal_days y, cal_month := int k,
      cal_mday := days - cal_days y - month_table y ! k + 1,
      cal_hour := secs sdiv 60 sdiv 60, cal_min := (secs sdiv 60) smod 60, cal_sec := secs smod 60\<rparr>"
  have fwd: "OSTicksToCalendarTime 243000000 ticks cal = Some ?c"
    unfolding OSTicksToCalendarTime_def per1 Let_def dd Sq uu ds g(1) prod.case option.map by simp
  note hms = clock_fields [OF secs(1)]
  have yb: "y * 365 \<le> days" using cal_days_mono [OF g(2)] g(5) by simp
  have sy: "s32 y = y" using yb g(2) days by (intro s32_id) auto
  note cd = cal_days_leap [OF g(2)] days_before_exact(1) [OF g(2,3)]
  have md: "days - cal_days y - month_table y ! k + 1 + GetLeapDays y + GetYearDays y (int k) - 1
      = days - y * 365"
    by (simp add: cd GetYearDays_def)
  have "s32 (days - y * 365) = days - y * 365"
    using yb g(2) days by (intro s32_id) auto
  then have "31536000 * y + 86400 * s32 (days - cal_days y - month_table y ! k + 1 + GetLeapDays y
      + GetYearDays y (int k) - 1) + 3600 * (secs div 3600) + 60 * (secs div 60 mod 60) + secs mod 60
      - 0xEB1E1BF80 = S"
    using Sd hms(4) unfolding md by (simp add: BIAS_def)
  moreover have "s64 S = S" using S by (intro s64_id) auto
  ultimately have bk: "OSCalendarTimeToTicks 243000000 ?c =
      s64 (S * 60750000 + m * 60750 + u * 486 sdiv 8)"
    unfolding OSCalendarTimeToTicks_def Let_def per hms
    using g(4) sy by (simp add: sdiv_nonneg)
  have "u * 486 sdiv 8 = u * 486 div 8" using sub by (intro sdiv_nonneg) auto
  moreover have "s64 (S * 60750000 + m * 60750 + u * 486 div 8) = S * 60750000 + m * 60750 + u * 486 div 8"
    using assms sub t by (intro s64_id) auto
  ultimately have "OSCalendarTimeToTicks 243000000 ?c \<le> ticks"
    "ticks \<le> OSCalendarTimeToTicks 243000000 ?c + 61"
    unfolding bk using sub t by simp_all
  moreover have "0 \<le> secs div 3600" "secs div 3600 < 24"
    using secs by (simp_all add: pos_imp_zdiv_nonneg_iff div_less_iff_less_mult)
  moreover have "0 \<le> secs mod 60" "secs mod 60 < 60" "0 \<le> secs div 60 mod 60" "secs div 60 mod 60 < 60"
    by simp_all
  moreover have "cal_sec ?c = secs mod 60" "cal_min ?c = secs div 60 mod 60"
    "cal_hour ?c = secs div 3600" "cal_msec ?c = m" "cal_usec ?c = u"
    by (simp_all add: hms)
  ultimately show ?thesis using fwd sub(3-6) by metis
qed

theorem calendar_roundtrip_witness:
  "\<exists>c. OSTicksToCalendarTime 243000000 (-1) no_date = Some c \<and>
    0 \<le> cal_sec c \<and> cal_sec c < 60 \<and> 0 \<le> cal_min c \<and> cal_min c < 60 \<and>
    0 \<le> cal_hour c \<and> cal_hour c < 24 \<and> 0 \<le> cal_msec c \<and> cal_msec c < 1000 \<and>
    0 \<le> cal_usec c \<and> cal_usec c < 1000 \<and>
    OSCalendarTimeToTicks 243000000 c \<le> -1 \<and> -1 \<le> OSCalendarTimeToTicks 243000000 c + 61"
  by (rule calendar_roundtrip) simp_all

end
