(* ===== verification/OSAlloc.thy ===== *)
theory OSAlloc
  imports DList
begin

text \<open>
  \<^verbatim>\<open>os/OSAlloc.c\<close>: the kernel's heaps.  A heap is a free list, ordered by address, and a
  used list, both through the cell headers that stand in front of every block.  \<open>cells\<close> maps
  the address of a header to its contents and \<open>HeapArray\<close> the index of a heap to its
  descriptor; pointers are \<open>int option\<close>.

  \<open>free_rep\<close> and \<open>used_rep\<close> read the lists of a heap; \<open>alloc_spec\<close> and \<open>free_spec\<close>
  are what allocation and release do to them.
\<close>

section \<open>The code\<close>

record OSHeapCell =
  c_prev :: "int option"
  c_next :: "int option"
  c_size :: int

record OSHeapDescriptor =
  hd_size :: int
  hd_freeList :: "int option"
  hd_usedList :: "int option"

record alloc_state =
  CurrHeap :: int
  ArenaStart :: int
  ArenaEnd :: int
  NumHeaps :: int
  HeapArray :: "int \<Rightarrow> OSHeapDescriptor"
  cells :: "int \<Rightarrow> OSHeapCell"

type_synonym cellmap = "int \<Rightarrow> OSHeapCell"

definition CELL_SIZE :: int where "CELL_SIZE = 0x20"

definition HD_SIZE :: int where "HD_SIZE = 0xC"

definition set_cnext :: "int \<Rightarrow> int option \<Rightarrow> cellmap \<Rightarrow> cellmap" where
  "set_cnext a v C = C(a := (C a)\<lparr>c_next := v\<rparr>)"

definition set_cprev :: "int \<Rightarrow> int option \<Rightarrow> cellmap \<Rightarrow> cellmap" where
  "set_cprev a v C = C(a := (C a)\<lparr>c_prev := v\<rparr>)"

definition set_csize :: "int \<Rightarrow> int \<Rightarrow> cellmap \<Rightarrow> cellmap" where
  "set_csize a v C = C(a := (C a)\<lparr>c_size := v\<rparr>)"

definition upd_heap :: "int \<Rightarrow> (OSHeapDescriptor \<Rightarrow> OSHeapDescriptor) \<Rightarrow> alloc_state \<Rightarrow> alloc_state" where
  "upd_heap h f s = s\<lparr>HeapArray := (HeapArray s)(h := f (HeapArray s h))\<rparr>"

definition DLAddFront :: "int option \<Rightarrow> int \<Rightarrow> cellmap \<Rightarrow> int option \<times> cellmap" where
  "DLAddFront list child C =
     (let C = set_cnext child list C;
          C = set_cprev child None C;
          C = (case list of None \<Rightarrow> C | Some l \<Rightarrow> set_cprev l (Some child) C)
      in (Some child, C))"

definition DLExtract :: "int option \<Rightarrow> int \<Rightarrow> cellmap \<Rightarrow> int option \<times> cellmap" where
  "DLExtract list child C =
     (let C = (case c_next (C child) of None \<Rightarrow> C | Some n \<Rightarrow> set_cprev n (c_prev (C child)) C)
      in case c_prev (C child) of
           None \<Rightarrow> (c_next (C child), C)
         | Some p \<Rightarrow> (list, set_cnext p (c_next (C child)) C))"

text \<open>The search loop of \<^verbatim>\<open>DLInsert\<close>: the neighbours of the place for \<open>child\<close>.\<close>

partial_function (option) insert_point ::
  "cellmap \<Rightarrow> int \<Rightarrow> int option \<Rightarrow> int option \<Rightarrow> (int option \<times> int option) option" where
  "insert_point C child p q = (case q of None \<Rightarrow> Some (p, None)
     | Some n \<Rightarrow> if child \<le> n then Some (p, q) else insert_point C child q (c_next (C n)))"

text \<open>The linking after the search, with the two merges of adjacent cells.\<close>

definition link_next :: "int \<Rightarrow> int option \<Rightarrow> int option \<Rightarrow> cellmap \<Rightarrow> int option \<times> cellmap" where
  "link_next child prev next C =
     (let C = set_cnext child next C;
          C = set_cprev child prev C
      in case next of None \<Rightarrow> (next, C)
         | Some n \<Rightarrow>
            (let C = set_cprev n (Some child) C
             in if child + c_size (C child) = n
                then
                  let C = set_csize child (s32 (c_size (C child) + c_size (C n))) C;
                      next = c_next (C n);
                      C = set_cnext child next C;
                      C = (case next of None \<Rightarrow> C | Some n' \<Rightarrow> set_cprev n' (Some child) C)
                  in (next, C)
                else (Some n, C)))"

definition link_prev :: "int option \<Rightarrow> int \<Rightarrow> int option \<Rightarrow> int option \<times> cellmap \<Rightarrow> int option \<times> cellmap" where
  "link_prev list child prev = (\<lambda>(next, C).
     case prev of
       None \<Rightarrow> (Some child, C)
     | Some p \<Rightarrow>
         (let C = set_cnext p (Some child) C;
              C = (if p + c_size (C p) = child
                   then
                     let C = set_csize p (s32 (c_size (C p) + c_size (C child))) C;
                         C = set_cnext p next C
                     in (case next of None \<Rightarrow> C | Some n \<Rightarrow> set_cprev n (Some p) C)
                   else C)
          in (list, C)))"

definition insert_between ::
  "int option \<Rightarrow> int \<Rightarrow> int option \<Rightarrow> int option \<Rightarrow> cellmap \<Rightarrow> int option \<times> cellmap" where
  "insert_between list child prev next C = link_prev list child prev (link_next child prev next C)"

definition DLInsert :: "int option \<Rightarrow> int \<Rightarrow> cellmap \<Rightarrow> (int option \<times> cellmap) option" where
  "DLInsert list child C =
     map_option (\<lambda>(prev, next). insert_between list child prev next C) (insert_point C child None list)"

text \<open>
  The split of a free cell: \<open>cell\<close> keeps \<open>sz\<close> bytes and the rest becomes a free cell in
  its place.  The result is the head of the free list and the cells.
\<close>

definition carve :: "int option \<Rightarrow> int \<Rightarrow> int \<Rightarrow> int \<Rightarrow> cellmap \<Rightarrow> int option \<times> cellmap" where
  "carve freeList cell sz avail C =
     (let C = set_csize cell sz C;
          adj = cell + sz;
          C = set_csize adj (s32 avail) C;
          C = set_cprev adj (c_prev (C cell)) C;
          C = set_cnext adj (c_next (C cell)) C;
          C = (case c_next (C adj) of None \<Rightarrow> C | Some n \<Rightarrow> set_cprev n (Some adj) C)
      in (case c_prev (C adj) of
            Some p \<Rightarrow> (freeList, set_cnext p (Some adj) C)
          | None \<Rightarrow> (Some adj, C)))"

text \<open>The result of an allocation is the address of the block, None for NULL.\<close>

definition OSAllocFromHeap :: "int \<Rightarrow> int \<Rightarrow> alloc_state \<Rightarrow> (int option \<times> alloc_state) option" where
  "OSAllocFromHeap handle sz s =
     (let sz = s32 (ROUND_UP (u32 (sz + CELL_SIZE)) 32)
      in map_option (\<lambda>found. case found of
           None \<Rightarrow> (None, s)
         | Some cell \<Rightarrow>
             (let avail = u32 (c_size (cells s cell) - sz);
                  freeList = hd_freeList (HeapArray s handle);
                  (l, C) = (if avail < 64 then DLExtract freeList cell (cells s)
                            else carve freeList cell sz avail (cells s));
                  s = upd_heap handle (hd_freeList_update (\<lambda>_. l)) (s\<lparr>cells := C\<rparr>);
                  (l, C) = DLAddFront (hd_usedList (HeapArray s handle)) cell (cells s);
                  s = upd_heap handle (hd_usedList_update (\<lambda>_. l)) (s\<lparr>cells := C\<rparr>)
              in (Some (cell + CELL_SIZE), s)))
         (seek (\<lambda>c. c_next (cells s c)) (\<lambda>c. sz \<le> c_size (cells s c)) (hd_freeList (HeapArray s handle))))"

definition OSFreeToHeap :: "int \<Rightarrow> int \<Rightarrow> alloc_state \<Rightarrow> alloc_state option" where
  "OSFreeToHeap handle p s =
     (let cell = p - CELL_SIZE
      in case DLExtract (hd_usedList (HeapArray s handle)) cell (cells s) of (l, C) \<Rightarrow>
           (let s = upd_heap handle (hd_usedList_update (\<lambda>_. l)) (s\<lparr>cells := C\<rparr>)
            in map_option (\<lambda>(l, C). upd_heap handle (hd_freeList_update (\<lambda>_. l)) (s\<lparr>cells := C\<rparr>))
                 (DLInsert (hd_freeList (HeapArray s handle)) cell (cells s))))"

definition OSSetCurrentHeap :: "int \<Rightarrow> alloc_state \<Rightarrow> int \<times> alloc_state" where
  "OSSetCurrentHeap handle s = (CurrHeap s, s\<lparr>CurrHeap := handle\<rparr>)"

definition OSInitAlloc :: "int \<Rightarrow> int \<Rightarrow> int \<Rightarrow> alloc_state \<Rightarrow> int \<times> alloc_state" where
  "OSInitAlloc start end_addr numHeaps s =
     (let headerSize = u32 (numHeaps * HD_SIZE);
          s = s\<lparr>NumHeaps := numHeaps\<rparr>;
          s = fold (\<lambda>i. upd_heap (int i) (\<lambda>hd. hd\<lparr>hd_size := -1, hd_usedList := None, hd_freeList := None\<rparr>))
                [0..<nat (NumHeaps s)] s;
          s = s\<lparr>CurrHeap := -1\<rparr>;
          s = s\<lparr>ArenaStart := ROUND_UP (u32 (start + headerSize)) 32\<rparr>;
          s = s\<lparr>ArenaEnd := ROUND_DOWN end_addr 32\<rparr>
      in (ArenaStart s, s))"

definition OSCreateHeap :: "int \<Rightarrow> int \<Rightarrow> alloc_state \<Rightarrow> int \<times> alloc_state" where
  "OSCreateHeap start end_addr s =
     (let start = ROUND_UP start 32;
          end_addr = ROUND_DOWN end_addr 32
      in case find (\<lambda>i. hd_size (HeapArray s (int i)) < 0) [0..<nat (NumHeaps s)] of
           None \<Rightarrow> (-1, s)
         | Some i \<Rightarrow>
             (let handle = int i;
                  s = upd_heap handle (hd_size_update (\<lambda>_. s32 (end_addr - start))) s;
                  C = set_cprev start None (cells s);
                  C = set_cnext start None C;
                  C = set_csize start (hd_size (HeapArray s handle)) C;
                  s = s\<lparr>cells := C\<rparr>;
                  s = upd_heap handle (\<lambda>hd. hd\<lparr>hd_freeList := Some start, hd_usedList := None\<rparr>) s
              in (handle, s)))"


section \<open>Cell lists\<close>

definition clinks :: "cellmap \<Rightarrow> int links" where
  "clinks C = \<lparr>lnext = \<lambda>a. c_next (C a), lprev = \<lambda>a. c_prev (C a)\<rparr>"

definition sizes_ok :: "cellmap \<Rightarrow> (int \<times> int) list \<Rightarrow> bool" where
  "sizes_ok C xs \<longleftrightarrow> (\<forall>x \<in> set xs. c_size (C (fst x)) = snd x)"

text \<open>From pointer \<open>l\<close> a list of cells with the given addresses and sizes is linked.\<close>

definition cell_list :: "cellmap \<Rightarrow> int option \<Rightarrow> (int \<times> int) list \<Rightarrow> bool" where
  "cell_list C l xs \<longleftrightarrow> distinct (map fst xs) \<and> (\<exists>t. dlseg (clinks C) l None (map fst xs) t None) \<and>
     sizes_ok C xs"

lemma cset_sel [simp]:
  "c_next (set_cnext a v C b) = (if b = a then v else c_next (C b))"
  "c_prev (set_cnext a v C b) = c_prev (C b)" "c_size (set_cnext a v C b) = c_size (C b)"
  "c_prev (set_cprev a v C b) = (if b = a then v else c_prev (C b))"
  "c_next (set_cprev a v C b) = c_next (C b)" "c_size (set_cprev a v C b) = c_size (C b)"
  "c_size (set_csize a n C b) = (if b = a then n else c_size (C b))"
  "c_next (set_csize a n C b) = c_next (C b)" "c_prev (set_csize a n C b) = c_prev (C b)"
  by (simp_all add: set_cnext_def set_cprev_def set_csize_def)

lemma cset_other [simp]:
  "b \<noteq> a \<Longrightarrow> set_cnext a v C b = C b" "b \<noteq> a \<Longrightarrow> set_cprev a v C b = C b"
  "b \<noteq> a \<Longrightarrow> set_csize a n C b = C b"
  by (simp_all add: set_cnext_def set_cprev_def set_csize_def)

lemma sizes_ok_simps [simp]:
  "sizes_ok C []" "sizes_ok C (x # xs) \<longleftrightarrow> c_size (C (fst x)) = snd x \<and> sizes_ok C xs"
  "sizes_ok C (xs @ ys) \<longleftrightarrow> sizes_ok C xs \<and> sizes_ok C ys"
  by (auto simp: sizes_ok_def)

lemma sizes_ok_cong:
  "sizes_ok C xs \<Longrightarrow> (\<And>a. a \<in> fst ` set xs \<Longrightarrow> c_size (C' a) = c_size (C a)) \<Longrightarrow> sizes_ok C' xs"
  by (simp add: sizes_ok_def)

lemma sizes_ok_set [simp]:
  "sizes_ok (set_cnext a v C) xs = sizes_ok C xs" "sizes_ok (set_cprev a v C) xs = sizes_ok C xs"
  by (simp_all add: sizes_ok_def)

lemma sizes_ok_set_csize [simp]:
  "a \<notin> fst ` set xs \<Longrightarrow> sizes_ok (set_csize a n C) xs = sizes_ok C xs"
  by (force simp: sizes_ok_def)

lemma clinks_sel [simp]: "lnext (clinks C) a = c_next (C a)" "lprev (clinks C) a = c_prev (C a)"
  by (simp_all add: clinks_def)

lemma clinks_set [simp]:
  "clinks (set_cnext a v C) = set_next a v (clinks C)"
  "clinks (set_cprev a v C) = set_prev a v (clinks C)"
  "clinks (set_csize a n C) = clinks C"
  by (auto simp: clinks_def set_next_def set_prev_def set_cnext_def set_cprev_def set_csize_def fun_eq_iff)

lemma cell_list_cong:
  assumes "cell_list C l xs" "\<And>a. a \<in> fst ` set xs \<Longrightarrow> C' a = C a"
  shows "cell_list C' l xs"
proof -
  have "dlseg (clinks C') l None (map fst xs) t None = dlseg (clinks C) l None (map fst xs) t None" for t
    by (rule dlseg_cong) (use assms(2) in auto)
  moreover have "sizes_ok C' xs"
    using assms by (simp add: cell_list_def sizes_ok_def)
  ultimately show ?thesis using assms(1) unfolding cell_list_def by simp
qed

lemma cell_list_hd: "cell_list C l xs \<Longrightarrow> l = hd_opt (map fst xs)"
  by (cases xs) (auto simp: cell_list_def)

lemma cell_list_neighbours:
  assumes "cell_list C l (us @ (a, k) # vs)"
  shows "c_prev (C a) = last_opt (map fst us)" "c_next (C a) = hd_opt (map fst vs)" "c_size (C a) = k"
proof -
  obtain t where t: "dlseg (clinks C) l None (map fst us @ a # map fst vs) t None"
    using assms by (auto simp: cell_list_def)
  have d: "dlist (clinks C) \<lparr>qhead = l, qtail = t\<rparr> (map fst us @ a # map fst vs)"
    using t assms by (simp add: dlist_def cell_list_def)
  show "c_prev (C a) = last_opt (map fst us)" "c_next (C a) = hd_opt (map fst vs)"
    using dlist_neighbours [OF d] by simp_all
  show "c_size (C a) = k" using assms by (simp add: cell_list_def)
qed

lemma DLAddFront_list:
  assumes l: "cell_list C l xs" and a: "a \<notin> fst ` set xs"
  shows "\<exists>C'. DLAddFront l a C = (Some a, C') \<and> cell_list C' (Some a) ((a, c_size (C a)) # xs) \<and>
    (\<forall>b. c_size (C' b) = c_size (C b)) \<and> (\<forall>b. b \<noteq> a \<and> b \<notin> fst ` set xs \<longrightarrow> C' b = C b)"
proof (cases xs)
  case Nil
  then show ?thesis
    using l by (auto simp: DLAddFront_def cell_list_def Let_def)
next
  case (Cons x ys)
  then have lx: "l = Some (fst x)" using cell_list_hd [OF l] by simp
  show ?thesis
    using l a Cons unfolding lx
    by (auto simp: DLAddFront_def cell_list_def Let_def image_iff split_beta)
qed

lemma DLExtract_list:
  assumes l: "cell_list C l (us @ (a, k) # vs)"
  shows "\<exists>l' C'. DLExtract l a C = (l', C') \<and> cell_list C' l' (us @ vs) \<and>
    (\<forall>b. c_size (C' b) = c_size (C b)) \<and>
    (\<forall>b. b \<notin> fst ` set (us @ vs) \<longrightarrow> C' b = C b)"
proof -
  note nb = cell_list_neighbours [OF l]
  have d: "distinct (map fst us @ a # map fst vs)" using l by (simp add: cell_list_def)
  obtain t where t: "dlseg (clinks C) l None (map fst us @ a # map fst vs) t None"
    using l by (auto simp: cell_list_def)
  show ?thesis
  proof (cases us rule: rev_cases)
    case Nil
    then show ?thesis
      using l t nb d
      by (cases vs) (auto simp: DLExtract_def cell_list_def Let_def split_beta)
  next
    case (snoc ws w)
    then show ?thesis
      using l t nb d
      by (cases vs) (auto simp: DLExtract_def cell_list_def Let_def split_beta dlseg_append)
  qed
qed


text \<open>Insertion with the two merges, on lists.\<close>

fun merge_next :: "int \<Rightarrow> int \<Rightarrow> (int \<times> int) list \<Rightarrow> (int \<times> int) list" where
  "merge_next a k [] = [(a, k)]"
| "merge_next a k ((b, n) # r) = (if a + k = b then (a, s32 (k + n)) # r else (a, k) # (b, n) # r)"

fun merge_prev :: "int \<times> int \<Rightarrow> (int \<times> int) list \<Rightarrow> (int \<times> int) list" where
  "merge_prev (p, n) [] = [(p, n)]"
| "merge_prev (p, n) ((a, k) # r) = (if p + n = a then (p, s32 (n + k)) # r else (p, n) # (a, k) # r)"

definition join :: "(int \<times> int) list \<Rightarrow> int \<Rightarrow> int \<Rightarrow> (int \<times> int) list \<Rightarrow> (int \<times> int) list" where
  "join us a k vs = (if us = [] then merge_next a k vs
     else butlast us @ merge_prev (last us) (merge_next a k vs))"

lemma link_next_list:
  assumes d: "dlseg (clinks C) (hd_opt (map fst vs)) b (map fst vs) t None"
    and vs: "distinct (map fst vs)" "a \<notin> fst ` set vs" "sizes_ok C vs" "c_size (C a) = k"
  shows "\<exists>C' t'. link_next a prev (hd_opt (map fst vs)) C = (hd_opt (tl (map fst (merge_next a k vs))), C') \<and>
    dlseg (clinks C') (Some a) prev (map fst (merge_next a k vs)) t' None \<and>
    sizes_ok C' (merge_next a k vs) \<and> (\<forall>x. x \<noteq> a \<and> x \<notin> fst ` set vs \<longrightarrow> C' x = C x)"
proof (cases vs)
  case Nil
  then show ?thesis
    using assms by (auto simp: link_next_def Let_def)
next
  case (Cons v ws)
  obtain c n where v: "v = (c, n)" by (cases v)
  show ?thesis
  proof (cases "a + k = c")
    case False
    then show ?thesis
      using assms Cons v by (auto simp: link_next_def Let_def)
  next
    case True
    then show ?thesis
      using assms Cons v
      by (cases ws) (auto simp: link_next_def Let_def)
  qed
qed

lemma link_prev_list:
  assumes us: "dlseg (clinks C) l None (map fst us @ [p]) b nx0"
    and zs: "dlseg (clinks C) (Some a) (Some p) (a # map fst zs) t None"
    and dist: "distinct (map fst us @ p # a # map fst zs)"
    and sz: "sizes_ok C (us @ (p, m) # (a, k) # zs)"
  shows "\<exists>C' t'. link_prev l a (Some p) (hd_opt (map fst zs), C) = (l, C') \<and>
    dlseg (clinks C') l None (map fst (us @ merge_prev (p, m) ((a, k) # zs))) t' None \<and>
    sizes_ok C' (us @ merge_prev (p, m) ((a, k) # zs)) \<and>
    (\<forall>x. x \<notin> fst ` set (us @ (p, m) # (a, k) # zs) \<longrightarrow> C' x = C x)"
proof (cases "p + m = a")
  case False
  then show ?thesis
    using assms by (auto simp: link_prev_def Let_def dlseg_append)
next
  case True
  then show ?thesis
    using assms
    by (cases zs) (auto simp: link_prev_def Let_def dlseg_append)
qed


section \<open>Insertion in address order\<close>

definition free_spec :: "int \<Rightarrow> int \<Rightarrow> (int \<times> int) list \<Rightarrow> (int \<times> int) list" where
  "free_spec a k fz = join (takeWhile (\<lambda>x. fst x < a) fz) a k (dropWhile (\<lambda>x. fst x < a) fz)"

lemma merge_next_Cons:
  assumes "distinct (map fst vs)" "a \<notin> fst ` set vs"
  obtains k' zs where "merge_next a k vs = (a, k') # zs" "set zs \<subseteq> set vs"
    "distinct (map fst zs)" "a \<notin> fst ` set zs"
proof (cases vs)
  case Nil
  then show ?thesis by (intro that [of k "[]"]) simp_all
next
  case (Cons v ws)
  obtain b n where v: "v = (b, n)" by (cases v)
  show ?thesis
  proof (cases "a + k = b")
    case True
    then show ?thesis using assms Cons v by (intro that [of "s32 (k + n)" ws]) auto
  next
    case False
    then show ?thesis using assms Cons v by (intro that [of k vs]) simp_all
  qed
qed

lemma insert_point_seg:
  "dlseg (clinks C) q b (map fst fz) t None \<Longrightarrow>
   insert_point C a p q = Some (if takeWhile (\<lambda>x. fst x < a) fz = [] then p
       else Some (fst (last (takeWhile (\<lambda>x. fst x < a) fz))),
     hd_opt (map fst (dropWhile (\<lambda>x. fst x < a) fz)))"
proof (induction fz arbitrary: p q b)
  case Nil
  then show ?case by (simp add: insert_point.simps)
next
  case (Cons x xs)
  then have q: "q = Some (fst x)" and
    seg: "dlseg (clinks C) (c_next (C (fst x))) (Some (fst x)) (map fst xs) t None" by simp_all
  show ?case
  proof (cases "a \<le> fst x")
    case True
    then show ?thesis unfolding q by (simp add: insert_point.simps [of C a p "Some (fst x)"])
  next
    case False
    then show ?thesis
      unfolding q using Cons.IH [OF seg, of q] q
      by (simp add: insert_point.simps [of C a p "Some (fst x)"])
  qed
qed

lemma DLInsert_list:
  assumes l: "cell_list C l fz" and a: "a \<notin> fst ` set fz" "c_size (C a) = k"
  shows "\<exists>l' C'. DLInsert l a C = Some (l', C') \<and> cell_list C' l' (free_spec a k fz) \<and>
    (\<forall>x. x \<noteq> a \<and> x \<notin> fst ` set fz \<longrightarrow> C' x = C x)"
proof -
  define us where "us = takeWhile (\<lambda>x. fst x < a) fz"
  define vs where "vs = dropWhile (\<lambda>x. fst x < a) fz"
  have fz: "fz = us @ vs" by (simp add: us_def vs_def)
  obtain t where seg: "dlseg (clinks C) l None (map fst us @ map fst vs) t None"
    and dist: "distinct (map fst us @ map fst vs)" and sz: "sizes_ok C us" "sizes_ok C vs"
    using l fz by (auto simp: cell_list_def)
  obtain q c where seg1: "dlseg (clinks C) l None (map fst us) c q"
    and seg2: "dlseg (clinks C) q c (map fst vs) t None"
    using seg by (auto simp: dlseg_append)
  have q: "q = hd_opt (map fst vs)" using dlseg_first [OF seg2] by (cases vs) auto
  have nx: "insert_point C a None l = Some (if us = [] then None else Some (fst (last us)), q)"
    using insert_point_seg [of C l None fz t a None, folded us_def vs_def] seg q fz by simp
  have ins: "DLInsert l a C = Some (insert_between l a (if us = [] then None else Some (fst (last us))) q C)"
    by (simp add: DLInsert_def nx)
  have av: "distinct (map fst vs)" "a \<notin> fst ` set vs" and au: "a \<notin> fst ` set us"
    using dist a fz by auto
  obtain C1 t1 where n: "link_next a (if us = [] then None else Some (fst (last us))) q C =
      (hd_opt (tl (map fst (merge_next a k vs))), C1)"
    "dlseg (clinks C1) (Some a) (if us = [] then None else Some (fst (last us))) (map fst (merge_next a k vs)) t1 None"
    "sizes_ok C1 (merge_next a k vs)" "\<forall>x. x \<noteq> a \<and> x \<notin> fst ` set vs \<longrightarrow> C1 x = C x"
    using link_next_list [OF seg2 [unfolded q] av sz(2) a(2)] unfolding q by blast
  obtain k' zs where mn: "merge_next a k vs = (a, k') # zs" "set zs \<subseteq> set vs"
    "distinct (map fst zs)" "a \<notin> fst ` set zs"
    by (rule merge_next_Cons [OF av])
  show ?thesis
  proof (cases us rule: rev_cases)
    case Nil
    then have "insert_between l a None q C = (Some a, C1)"
      using n(1) by (simp add: insert_between_def link_prev_def)
    moreover have "cell_list C1 (Some a) (free_spec a k fz)"
      using n(2,3) Nil mn unfolding free_spec_def us_def [symmetric] vs_def [symmetric]
      by (auto simp: cell_list_def join_def)
    ultimately show ?thesis using ins Nil n(4) fz by auto
  next
    case (snoc ws p)
    obtain pa pm where p: "p = (pa, pm)" by (cases p)
    have disj: "fst ` set us \<inter> fst ` set vs = {}" using dist by simp
    have frame: "C1 x = C x" if "x \<in> fst ` set us" for x
    proof -
      have "x \<noteq> a" "x \<notin> fst ` set vs" using that disj au by blast+
      then show ?thesis using n(4) by blast
    qed
    have s1: "dlseg (clinks C1) l None (map fst ws @ [pa]) c q"
      using seg1 snoc p frame by (subst dlseg_cong [of _ _ "clinks C"]) auto
    have s2: "dlseg (clinks C1) (Some a) (Some pa) (a # map fst zs) t1 None"
      using n(2) mn snoc p by simp
    have dz: "distinct (map fst ws @ pa # a # map fst zs)"
    proof -
      have "fst ` set zs \<subseteq> fst ` set vs" using mn(2) by (rule image_mono)
      then have "fst ` set us \<inter> fst ` set zs = {}" using disj by blast
      then show ?thesis using dist mn(3,4) au snoc p by auto
    qed
    have sz1: "sizes_ok C1 (ws @ (pa, pm) # (a, k') # zs)"
    proof -
      have "sizes_ok C1 us" by (rule sizes_ok_cong [OF sz(1)]) (simp only: frame)
      then show ?thesis using n(3) mn(1) snoc p by simp
    qed
    obtain C' t' where r: "link_prev l a (Some pa) (hd_opt (map fst zs), C1) = (l, C')"
      "dlseg (clinks C') l None (map fst (ws @ merge_prev (pa, pm) ((a, k') # zs))) t' None"
      "sizes_ok C' (ws @ merge_prev (pa, pm) ((a, k') # zs))"
      "\<forall>x. x \<notin> fst ` set (ws @ (pa, pm) # (a, k') # zs) \<longrightarrow> C' x = C1 x"
      using link_prev_list [OF s1 s2 dz sz1] by blast
    have "insert_between l a (Some (fst p)) q C = (l, C')"
      using n(1) r(1) mn snoc p by (simp add: insert_between_def)
    moreover have fs: "free_spec a k fz = ws @ merge_prev (pa, pm) ((a, k') # zs)"
      unfolding free_spec_def us_def [symmetric] vs_def [symmetric] using snoc p mn by (simp add: join_def)
    moreover have "distinct (map fst (free_spec a k fz))" using dz unfolding fs by auto
    moreover have "C' x = C x" if "x \<noteq> a" "x \<notin> fst ` set fz" for x
    proof -
      have "fst ` set zs \<subseteq> fst ` set vs" using mn(2) by (rule image_mono)
      then have "x \<notin> fst ` set (ws @ (pa, pm) # (a, k') # zs)" "x \<notin> fst ` set vs"
        using that snoc p fz by auto
      then show ?thesis using r(4) n(4) that(1) by metis
    qed
    ultimately show ?thesis using ins snoc r(2,3) by (auto simp: cell_list_def)
  qed
qed


section \<open>Allocation and release on lists\<close>

fun alloc_spec :: "int \<Rightarrow> (int \<times> int) list \<Rightarrow> (int \<times> int \<times> (int \<times> int) list) option" where
  "alloc_spec sz [] = None"
| "alloc_spec sz ((a, n) # r) =
     (if sz \<le> n
      then Some (if n - sz < 64 then (a, n, r) else (a, sz, (a + sz, n - sz) # r))
      else map_option (\<lambda>(b, k, r'). (b, k, (a, n) # r')) (alloc_spec sz r))"

text \<open>
  The free list is ordered and two free cells never touch; used cells overlap neither each
  other nor a free cell; everything lies in the heap.
\<close>

definition apart :: "int \<times> int \<Rightarrow> int \<times> int \<Rightarrow> bool" where
  "apart x y \<longleftrightarrow> fst x + snd x \<le> fst y \<or> fst y + snd y \<le> fst x"

definition gap :: "int \<times> int \<Rightarrow> int \<times> int \<Rightarrow> bool" where
  "gap x y \<longleftrightarrow> fst x + snd x < fst y"

definition layout :: "int \<Rightarrow> int \<Rightarrow> (int \<times> int) list \<Rightarrow> (int \<times> int) list \<Rightarrow> bool" where
  "layout lo hi fz uz \<longleftrightarrow> sorted_wrt gap fz \<and> sorted_wrt apart uz \<and>
     (\<forall>x \<in> set fz. \<forall>y \<in> set uz. apart x y) \<and>
     (\<forall>x \<in> set fz \<union> set uz. 32 \<le> snd x \<and> lo \<le> fst x \<and> fst x + snd x \<le> hi) \<and> hi - lo < 2 ^ 31"

definition heap_inv ::
  "alloc_state \<Rightarrow> int \<Rightarrow> int \<Rightarrow> int \<Rightarrow> (int \<times> int) list \<Rightarrow> (int \<times> int) list \<Rightarrow> bool" where
  "heap_inv s h lo hi fz uz \<longleftrightarrow>
     cell_list (cells s) (hd_freeList (HeapArray s h)) fz \<and>
     cell_list (cells s) (hd_usedList (HeapArray s h)) uz \<and> layout lo hi fz uz"

definition heap_total :: "(int \<times> int) list \<Rightarrow> (int \<times> int) list \<Rightarrow> int" where
  "heap_total fz uz = sum_list (map snd fz) + sum_list (map snd uz)"

lemma alloc_spec_split:
  assumes "alloc_spec sz fz = Some (a, k, fz')"
  obtains us n vs where "fz = us @ (a, n) # vs" "sz \<le> n" "\<forall>x \<in> set us. snd x < sz"
    "k = (if n - sz < 64 then n else sz)"
    "fz' = (if n - sz < 64 then us @ vs else us @ (a + sz, n - sz) # vs)"
  using assms
proof (induction fz arbitrary: fz' thesis)
  case Nil
  then show ?case by simp
next
  case (Cons x xs)
  obtain b m where x: "x = (b, m)" by (cases x)
  show ?case
  proof (cases "sz \<le> m")
    case True
    with Cons.prems(2) x show ?thesis
      by (intro Cons.prems(1) [of "[]" m xs]) (auto split: if_splits)
  next
    case False
    then obtain r where r: "alloc_spec sz xs = Some (a, k, r)" "fz' = (b, m) # r"
      using Cons.prems(2) x by auto
    from Cons.IH [OF _ r(1)] obtain us n vs where "xs = us @ (a, n) # vs" "sz \<le> n"
      "\<forall>x \<in> set us. snd x < sz" "k = (if n - sz < 64 then n else sz)"
      "r = (if n - sz < 64 then us @ vs else us @ (a + sz, n - sz) # vs)" by metis
    with False r(2) x show ?thesis
      by (intro Cons.prems(1) [of "(b, m) # us" n vs]) auto
  qed
qed

lemma alloc_spec_None: "alloc_spec sz fz = None \<longleftrightarrow> (\<forall>x \<in> set fz. snd x < sz)"
  by (induction fz) (auto simp: not_le split: if_splits)

text \<open>Releasing what was just allocated gives the old free list back.\<close>

lemma free_alloc_spec:
  assumes al: "alloc_spec sz fz = Some (a, k, fz')"
    and srt: "sorted_wrt gap fz" and pos: "\<forall>x \<in> set fz. 0 \<le> snd x" "0 < sz"
    and small: "\<forall>x \<in> set fz. snd x < 2 ^ 31"
  shows "free_spec a k fz' = fz"
proof -
  obtain us n vs where sp: "fz = us @ (a, n) # vs" "sz \<le> n"
    "k = (if n - sz < 64 then n else sz)"
    "fz' = (if n - sz < 64 then us @ vs else us @ (a + sz, n - sz) # vs)"
    by (rule alloc_spec_split [OF al])
  have u1: "fst x + snd x < a" if "x \<in> set us" for x
    using srt that unfolding sp(1) by (simp add: sorted_wrt_append gap_def)
  have u2: "fst x < a" if "x \<in> set us" for x
  proof -
    have "0 \<le> snd x" using pos(1) that unfolding sp(1) by simp
    then show ?thesis using u1 [OF that] by linarith
  qed
  note u = u1 u2
  have v1: "a + n < fst x" if "x \<in> set vs" for x
    using srt that unfolding sp(1) by (simp add: sorted_wrt_append gap_def)
  have v2: "a < fst x" if "x \<in> set vs" for x
    using v1 [OF that] sp(2) pos(2) by linarith
  note v = v1 v2
  have tv: "takeWhile (\<lambda>x. fst x < a) vs = []" "dropWhile (\<lambda>x. fst x < a) vs = vs"
    using v by (cases vs; force)+
  have m: "merge_next a n vs = (a, n) # vs"
  proof (cases vs)
    case Nil
    then show ?thesis by simp
  next
    case (Cons x xs)
    obtain b j where x: "x = (b, j)" by (cases x)
    have "a + n < b" using v1 [of x] Cons x by simp
    then show ?thesis using Cons x by simp
  qed
  have whole: "join us a n vs = fz"
  proof (cases us rule: rev_cases)
    case Nil
    then show ?thesis using m sp(1) by (simp add: join_def)
  next
    case (snoc ws w)
    obtain c d where w: "w = (c, d)" by (cases w)
    then have "c + d \<noteq> a" using u1 [of w] snoc by simp
    then show ?thesis using m sp(1) snoc w by (simp add: join_def)
  qed
  have tw: "takeWhile (\<lambda>x. fst x < a) (us @ ys) = us @ takeWhile (\<lambda>x. fst x < a) ys"
    "dropWhile (\<lambda>x. fst x < a) (us @ ys) = dropWhile (\<lambda>x. fst x < a) ys" for ys :: "(int \<times> int) list"
    using u2 by (simp_all add: takeWhile_append2 dropWhile_append2)
  show ?thesis
  proof (cases "n - sz < 64")
    case True
    then show ?thesis
      using sp(3,4) tw tv whole by (simp add: free_spec_def)
  next
    case False
    have n: "s32 n = n" using small pos sp(1) by (intro s32_id) auto
    have "free_spec a k fz' = join us a sz ((a + sz, n - sz) # vs)"
      using sp(3,4) tw pos(2) False by (simp add: free_spec_def)
    also have "\<dots> = join us a n vs"
      using n m by (simp add: join_def)
    finally show ?thesis using whole by simp
  qed
qed


lemma carve_list:
  assumes l: "cell_list C l (us @ (a, n) # vs)" and sz: "a + sz \<noteq> a" "a + sz \<notin> fst ` set (us @ vs)"
    and m: "s32 avail = avail"
  shows "\<exists>l' C'. carve l a sz avail C = (l', C') \<and> cell_list C' l' (us @ (a + sz, avail) # vs) \<and>
    c_size (C' a) = sz \<and> (\<forall>x. x \<notin> fst ` set (us @ vs) \<and> x \<noteq> a \<and> x \<noteq> a + sz \<longrightarrow> C' x = C x)"
proof -
  note nb = cell_list_neighbours [OF l]
  have d: "distinct (map fst us @ a # map fst vs)" using l by (simp add: cell_list_def)
  obtain t where t: "dlseg (clinks C) l None (map fst us @ a # map fst vs) t None"
    using l by (auto simp: cell_list_def)
  show ?thesis
  proof (cases us rule: rev_cases)
    case Nil
    then show ?thesis
      using l t nb d sz m
      by (cases vs) (auto simp: carve_def cell_list_def Let_def split_beta image_Un)
  next
    case (snoc ws w)
    then show ?thesis
      using l t nb d sz m
      by (cases vs) (auto simp: carve_def cell_list_def Let_def split_beta dlseg_append image_Un)
  qed
qed


section \<open>Operations on a heap\<close>

lemma seek_cells:
  assumes "cell_list C l xs"
  shows "seek (\<lambda>c. c_next (C c)) stop l = Some (map_option fst (find (stop \<circ> fst) xs))"
proof -
  obtain t where "dlseg (clinks C) l None (map fst xs) t None"
    using assms by (auto simp: cell_list_def)
  then have "seek (lnext (clinks C)) stop l = Some (find stop (map fst xs))"
    by (rule seek_dlseg)
  moreover have "lnext (clinks C) = (\<lambda>c. c_next (C c))" by (simp add: clinks_def)
  moreover have "find stop (map fst xs) = map_option fst (find (stop \<circ> fst) xs)"
    by (induction xs) auto
  ultimately show ?thesis by simp
qed

lemma find_cong_list: "(\<And>x. x \<in> set xs \<Longrightarrow> P x = Q x) \<Longrightarrow> find P xs = find Q xs"
  by (induction xs) auto

lemma find_fit:
  assumes "cell_list C l fz"
  shows "seek (\<lambda>c. c_next (C c)) (\<lambda>c. sz \<le> c_size (C c)) l = Some (map_option fst (find (\<lambda>x. sz \<le> snd x) fz))"
proof -
  have "find ((\<lambda>c. sz \<le> c_size (C c)) \<circ> fst) fz = find (\<lambda>x. sz \<le> snd x) fz"
    by (rule find_cong_list) (use assms in \<open>simp add: cell_list_def sizes_ok_def\<close>)
  then show ?thesis by (simp add: seek_cells [OF assms])
qed

lemma alloc_spec_find:
  "(case alloc_spec sz fz of None \<Rightarrow> find (\<lambda>x. sz \<le> snd x) fz = None
    | Some (a, k, r) \<Rightarrow> map_option fst (find (\<lambda>x. sz \<le> snd x) fz) = Some a)"
  by (induction fz) (auto split: option.splits if_splits)

text \<open>The bytes a request takes: its header, rounded up to 32.\<close>

definition block_size :: "int \<Rightarrow> int" where
  "block_size sz = (sz + 63) div 32 * 32"

lemma block_size_code:
  assumes "0 \<le> sz" "sz < 2 ^ 31 - 64"
  shows "s32 (ROUND_UP (u32 (sz + CELL_SIZE)) 32) = block_size sz"
proof -
  have u: "u32 (sz + CELL_SIZE) = sz + 32"
    using assms by (simp add: CELL_SIZE_def u32_id)
  have "ROUND_UP (sz + 32) 32 = sz + 63 - (sz + 63) mod 32"
    using ROUND_UP_exp [of "sz + 32" 5] assms by (simp add: algebra_simps)
  also have "\<dots> = block_size sz"
    by (simp add: block_size_def minus_mod_eq_div_mult)
  finally have r: "ROUND_UP (sz + 32) 32 = block_size sz" .
  have "0 \<le> block_size sz" "block_size sz \<le> sz + 63"
    using assms(1) by (simp_all add: block_size_def minus_mod_eq_div_mult [symmetric])
  then show ?thesis
    unfolding u r using assms by (intro s32_id) auto
qed

lemma block_size_bounds: "0 \<le> sz \<Longrightarrow> 32 \<le> block_size sz" "0 \<le> sz \<Longrightarrow> sz + 32 \<le> block_size sz"
  unfolding block_size_def by presburger+


section \<open>The layout is kept\<close>

lemma alloc_spec_layout:
  assumes al: "alloc_spec sz fz = Some (a, k, fz')" and ly: "layout lo hi fz uz" and sz: "32 \<le> sz"
  shows "layout lo hi fz' ((a, k) # uz)" "heap_total fz' ((a, k) # uz) = heap_total fz uz" "sz \<le> k"
proof -
  obtain us n vs where sp: "fz = us @ (a, n) # vs" "sz \<le> n"
    "k = (if n - sz < 64 then n else sz)"
    "fz' = (if n - sz < 64 then us @ vs else us @ (a + sz, n - sz) # vs)"
    by (rule alloc_spec_split [OF al])
  show "heap_total fz' ((a, k) # uz) = heap_total fz uz" "sz \<le> k"
    using sp by (auto simp: heap_total_def)
  have b: "64 \<le> n - sz \<or> n - sz < 64" by linarith
  have srt: "sorted_wrt gap us" "sorted_wrt gap vs" "\<forall>x \<in> set us. gap x (a, n)"
    "\<forall>y \<in> set vs. gap (a, n) y" "\<forall>x \<in> set us. \<forall>y \<in> set vs. gap x y"
    using ly unfolding layout_def sp(1) by (auto simp: sorted_wrt_append)
  have sub: "apart (a, n) x \<Longrightarrow> apart (a, k) x" "apart (a, n) x \<Longrightarrow> apart (a + sz, n - sz) x" for x
    using sp(2,3) sz by (auto simp: apart_def)
  have gs: "gap (a, n) x \<Longrightarrow> apart x (a, k)" "gap x (a, n) \<Longrightarrow> apart x (a, k)"
    "gap x (a, n) \<Longrightarrow> gap x (a + sz, n - sz)" "gap (a, n) x \<Longrightarrow> gap (a + sz, n - sz) x" for x
    using sp(2,3) sz by (auto simp: apart_def gap_def)
  have g: "sorted_wrt gap fz'"
    using srt gs(3,4) unfolding sp(4) by (simp add: sorted_wrt_append)
  have u: "sorted_wrt apart ((a, k) # uz)"
    using ly sub(1) unfolding layout_def sp(1) by simp
  have x: "\<forall>x \<in> set fz'. \<forall>y \<in> set ((a, k) # uz). apart x y"
  proof (intro ballI)
    fix x y assume x: "x \<in> set fz'" and y: "y \<in> set ((a, k) # uz)"
    have "x \<in> set us \<or> x \<in> set vs \<or> x = (a + sz, n - sz) \<and> k = sz"
      using x sp(3,4) by (auto split: if_splits)
    then show "apart x y"
    proof (elim disjE)
      assume r: "x = (a + sz, n - sz) \<and> k = sz"
      show ?thesis
      proof (cases "y = (a, k)")
        case True
        then show ?thesis using r by (simp add: apart_def)
      next
        case False
        then have "apart (a, n) y" using y ly unfolding layout_def sp(1) by simp
        then show ?thesis using r sub(2) by simp
      qed
    next
      assume r: "x \<in> set us"
      then have "apart x (a, k)" using srt(3) gs(2) by blast
      then show ?thesis using r y ly unfolding layout_def sp(1) by (cases "y = (a, k)"; simp)
    next
      assume r: "x \<in> set vs"
      then have "apart x (a, k)" using srt(4) gs(1) by blast
      then show ?thesis using r y ly unfolding layout_def sp(1) by (cases "y = (a, k)"; simp)
    qed
  qed
  have bnd: "32 \<le> n \<and> lo \<le> a \<and> a + n \<le> hi" using ly unfolding layout_def sp(1) by simp
  have "\<forall>x \<in> set fz' \<union> set ((a, k) # uz). 32 \<le> snd x \<and> lo \<le> fst x \<and> fst x + snd x \<le> hi"
    using ly bnd sp(2,3) sz unfolding layout_def sp(1) sp(4) by auto
  then show "layout lo hi fz' ((a, k) # uz)"
    using g u x ly unfolding layout_def by simp
qed


text \<open>What a release does to the list, merges included.\<close>

lemma free_spec_cases:
  assumes us: "\<forall>x \<in> set us. fst x + snd x \<le> a" "sorted_wrt gap us"
    and vs: "\<forall>x \<in> set vs. a + k \<le> fst x" "sorted_wrt gap vs"
    and pos: "\<forall>x \<in> set us \<union> set vs. 0 < snd x" "0 < k"
    and fit: "\<forall>x \<in> set us \<union> set vs. lo \<le> fst x \<and> fst x + snd x \<le> hi" "lo \<le> a" "a + k \<le> hi"
      "hi - lo < 2 ^ 31"
  obtains us' b m vs' where "join us a k vs = us' @ (b, m) # vs'"
    "us = us' @ (if b = a then [] else [(b, a - b)])"
    "vs = (if b + m = a + k then [] else [(a + k, b + m - a - k)]) @ vs'"
    "b \<le> a" "a + k \<le> b + m" "\<forall>x \<in> set us'. gap x (b, m)" "\<forall>x \<in> set vs'. gap (b, m) x"
proof -
  obtain c ws where n: "merge_next a k vs = (a, c) # ws" "k \<le> c"
    "vs = (if c = k then [] else [(a + k, c - k)]) @ ws" "\<forall>x \<in> set ws. gap (a, c) x" "a + c \<le> hi"
  proof (cases vs)
    case Nil
    then show ?thesis using fit by (intro that [of k "[]"]) simp_all
  next
    case (Cons x xs)
    obtain b n where x: "x = (b, n)" by (cases x)
    show ?thesis
    proof (cases "a + k = b")
      case True
      moreover have "s32 (k + n) = k + n" using fit pos Cons x True by (intro s32_id) auto
      ultimately show ?thesis
        using Cons x vs pos fit by (intro that [of "k + n" xs]) (auto simp: gap_def)
    next
      case False
      then show ?thesis
        using Cons x vs pos fit by (intro that [of k vs]) (auto simp: gap_def)
    qed
  qed
  show ?thesis
  proof (cases us rule: rev_cases)
    case Nil
    then show ?thesis using n by (intro that [of "[]" a c ws]) (auto simp: join_def)
  next
    case (snoc ts w)
    obtain p d where w: "w = (p, d)" by (cases w)
    show ?thesis
    proof (cases "p + d = a")
      case True
      moreover have "s32 (d + c) = d + c"
        using fit pos snoc w n(2,5) True by (intro s32_id) auto
      ultimately show ?thesis
        using snoc w n us pos
        by (intro that [of ts p "d + c" ws]) (auto simp: join_def gap_def sorted_wrt_append)
    next
      case False
      then have "p + d < a" using us(1) snoc w by force
      then show ?thesis
        using False snoc w n us pos
        by (intro that [of us a c ws]) (auto simp: join_def gap_def sorted_wrt_append)
    qed
  qed
qed


lemma layout_used_perm: "layout lo hi fz uz \<Longrightarrow> uz = ys @ y # zs \<Longrightarrow> layout lo hi fz (ys @ zs)"
  by (auto simp: layout_def sorted_wrt_append)

lemma apart_sym: "apart x y = apart y x"
  by (auto simp: apart_def)

lemma apart_join:
  "apart (a, k) y \<Longrightarrow> apart (b, m) y \<Longrightarrow> b = a + k \<Longrightarrow> 0 < snd y \<Longrightarrow> apart (a, k + m) y"
  by (auto simp: apart_def)

lemma free_spec_layout:
  assumes ly: "layout lo hi fz (ys @ (a, k) # zs)"
  shows "layout lo hi (free_spec a k fz) (ys @ zs)"
    "heap_total (free_spec a k fz) (ys @ zs) = heap_total fz (ys @ (a, k) # zs)"
proof -
  define us where "us = takeWhile (\<lambda>x. fst x < a) fz"
  define vs where "vs = dropWhile (\<lambda>x. fst x < a) fz"
  have fz: "us @ vs = fz" by (simp add: us_def vs_def)
  have pos: "\<forall>x \<in> set us \<union> set vs. 0 < snd x" "0 < k" and
    fit: "\<forall>x \<in> set us \<union> set vs. lo \<le> fst x \<and> fst x + snd x \<le> hi" "lo \<le> a" "a + k \<le> hi" "hi - lo < 2 ^ 31"
  proof -
    have bd: "\<forall>x \<in> set us \<union> set vs \<union> set (ys @ (a, k) # zs). 32 \<le> snd x \<and> lo \<le> fst x \<and> fst x + snd x \<le> hi"
      using ly unfolding layout_def fz [symmetric] by simp
    have p: "0 < snd x" if "x \<in> set us \<union> set vs \<union> set (ys @ (a, k) # zs)" for x
      using bspec [OF bd that] by linarith
    show "\<forall>x \<in> set us \<union> set vs. 0 < snd x" by (intro ballI p) simp
    show "0 < k" using p [of "(a, k)"] by simp
    show "\<forall>x \<in> set us \<union> set vs. lo \<le> fst x \<and> fst x + snd x \<le> hi" using bd by simp
    show "lo \<le> a" "a + k \<le> hi" using bd by simp_all
    show "hi - lo < 2 ^ 31" using ly by (simp add: layout_def)
  qed
  have ap: "\<forall>x \<in> set us \<union> set vs. apart x (a, k)" and
    srt: "sorted_wrt gap us" "sorted_wrt gap vs" "\<forall>x \<in> set us. \<forall>y \<in> set vs. gap x y"
    using ly unfolding layout_def fz [symmetric] by (simp_all add: sorted_wrt_append)
  have lt: "\<forall>x \<in> set us. fst x < a" unfolding us_def by (auto dest: set_takeWhileD)
  have ge: "a \<le> fst x" if "x \<in> set vs" for x
  proof (cases vs)
    case (Cons v ws)
    have "a \<le> fst v" using hd_dropWhile [of "\<lambda>x. fst x < a" fz] Cons unfolding vs_def by force
    moreover have "x = v \<or> gap v x" using srt(2) that Cons by auto
    ultimately show ?thesis using pos Cons by (auto simp: gap_def)
  qed (use that in simp)
  have us: "\<forall>x \<in> set us. fst x + snd x \<le> a"
  proof (intro ballI)
    fix x assume "x \<in> set us"
    then have "apart x (a, k)" "fst x < a" using ap lt by simp_all
    then show "fst x + snd x \<le> a" using pos(2) by (simp add: apart_def)
  qed
  have vs: "\<forall>x \<in> set vs. a + k \<le> fst x"
  proof (intro ballI)
    fix x assume "x \<in> set vs"
    then have "apart x (a, k)" "a \<le> fst x" "0 < snd x" using ap ge pos(1) by simp_all
    then show "a + k \<le> fst x" by (simp add: apart_def)
  qed
  obtain us' b m vs' where r: "join us a k vs = us' @ (b, m) # vs'"
    "us = us' @ (if b = a then [] else [(b, a - b)])"
    "vs = (if b + m = a + k then [] else [(a + k, b + m - a - k)]) @ vs'"
    "b \<le> a" "a + k \<le> b + m" "\<forall>x \<in> set us'. gap x (b, m)" "\<forall>x \<in> set vs'. gap (b, m) x"
    by (rule free_spec_cases [OF us srt(1) vs srt(2) pos fit])
  have fs: "free_spec a k fz = us' @ (b, m) # vs'"
    unfolding free_spec_def us_def [symmetric] vs_def [symmetric] by (rule r(1))
  have sub: "set us' \<subseteq> set us" "set vs' \<subseteq> set vs" using r(2,3) by auto
  have g: "sorted_wrt gap (us' @ (b, m) # vs')"
  proof -
    have "sorted_wrt gap us'" "sorted_wrt gap vs'"
      using srt(1,2) unfolding r(2,3) by (simp_all only: sorted_wrt_append)
    moreover have "\<forall>x \<in> set us'. \<forall>y \<in> set vs'. gap x y" using srt(3) sub by blast
    ultimately show ?thesis using r(6,7) by (simp add: sorted_wrt_append)
  qed
  have used: "apart (b, m) y" if "y \<in> set (ys @ zs)" for y
  proof -
    have py: "0 < snd y" and ay: "apart (a, k) y" and fy: "\<forall>x \<in> set us \<union> set vs. apart x y"
    proof -
      have "32 \<le> snd y" using ly that unfolding layout_def by simp
      then show "0 < snd y" by simp
      show "\<forall>x \<in> set us \<union> set vs. apart x y" using ly that unfolding layout_def fz [symmetric] by simp
      show "apart (a, k) y"
        using ly that apart_sym [of y "(a, k)"] unfolding layout_def by (auto simp: sorted_wrt_append)
    qed
    have "apart (b, a + k - b) y"
    proof (cases "b = a")
      case False
      then have "apart (b, a - b) y" using fy r(2) by simp
      from apart_join [OF this ay _ py] show ?thesis by (simp add: algebra_simps)
    qed (use ay in simp)
    show ?thesis
    proof (cases "b + m = a + k")
      case True
      then have "a + k - b = m" by simp
      with \<open>apart (b, a + k - b) y\<close> show ?thesis by simp
    next
      case False
      then have "apart (a + k, b + m - a - k) y" using fy r(3) by simp
      from apart_join [OF \<open>apart (b, a + k - b) y\<close> this _ py] show ?thesis by simp
    qed
  qed
  have bm: "32 \<le> m" "lo \<le> b" "b + m \<le> hi"
  proof -
    have "32 \<le> k" using ly unfolding layout_def by simp
    then show "32 \<le> m" using r(4,5) by linarith
    show "lo \<le> b" using fit(1,2) r(2) by (cases "b = a") simp_all
    show "b + m \<le> hi" using fit(1,3) r(3) by (cases "b + m = a + k") simp_all
  qed
  have "sorted_wrt apart (ys @ zs)" using ly unfolding layout_def by (simp add: sorted_wrt_append)
  moreover have "\<forall>x \<in> set (us' @ (b, m) # vs'). \<forall>y \<in> set (ys @ zs). apart x y"
    using ly used sub unfolding layout_def fz [symmetric] by auto
  moreover have "\<forall>x \<in> set (us' @ (b, m) # vs') \<union> set (ys @ zs). 32 \<le> snd x \<and> lo \<le> fst x \<and> fst x + snd x \<le> hi"
  proof -
    have "set us' \<union> set vs' \<union> set (ys @ zs) \<subseteq> set fz \<union> set (ys @ (a, k) # zs)" using sub fz by auto
    then show ?thesis using ly bm unfolding layout_def by auto
  qed
  ultimately show "layout lo hi (free_spec a k fz) (ys @ zs)"
    using g fit(4) unfolding fs layout_def by simp
  show "heap_total (free_spec a k fz) (ys @ zs) = heap_total fz (ys @ (a, k) # zs)"
  proof -
    have "sum_list (map snd us) = sum_list (map snd us') + (a - b)" by (subst r(2)) simp
    moreover have "sum_list (map snd vs) = (b + m - a - k) + sum_list (map snd vs')" by (subst r(3)) simp
    moreover have "sum_list (map snd fz) = sum_list (map snd us) + sum_list (map snd vs)"
      unfolding fz [symmetric] by simp
    ultimately show ?thesis unfolding fs heap_total_def by simp
  qed
qed


section \<open>The operations refine the lists\<close>

lemma apart_fst: "apart x y \<Longrightarrow> 0 < snd x \<Longrightarrow> 0 < snd y \<Longrightarrow> fst x \<noteq> fst y"
  by (auto simp: apart_def)

lemma layout_disjoint: "layout lo hi fz uz \<Longrightarrow> fst ` set fz \<inter> fst ` set uz = {}"
proof -
  assume l: "layout lo hi fz uz"
  have "fst x \<noteq> fst y" if "x \<in> set fz" "y \<in> set uz" for x y
  proof (rule apart_fst)
    show "apart x y" "0 < snd x" "0 < snd y" using l that by (force simp: layout_def)+
  qed
  then show ?thesis by blast
qed

lemma layout_bound:
  assumes "layout lo hi fz uz" "x \<in> set fz \<union> set uz"
  shows "32 \<le> snd x" "snd x < 2 ^ 31"
proof -
  have "32 \<le> snd x \<and> lo \<le> fst x \<and> fst x + snd x \<le> hi" "hi - lo < 2 ^ 31"
    using assms unfolding layout_def by blast+
  then show "32 \<le> snd x" "snd x < 2 ^ 31" by linarith+
qed

lemma upd_heap_sel [simp]:
  "HeapArray (upd_heap h f s) j = (if j = h then f (HeapArray s h) else HeapArray s j)"
  "cells (upd_heap h f s) = cells s" "NumHeaps (upd_heap h f s) = NumHeaps s"
  by (simp_all add: upd_heap_def)

text \<open>Taking the cell \<open>a\<close> out of the free list, whole or in part.\<close>

lemma take_cell:
  assumes fl: "cell_list C l fz" and ly: "layout lo hi fz uz"
    and al: "alloc_spec sz fz = Some (a, k, fz')" and sz: "32 \<le> sz"
  shows "\<exists>l' C'. (if u32 (c_size (C a) - sz) < 64 then DLExtract l a C
      else carve l a sz (u32 (c_size (C a) - sz)) C) = (l', C') \<and>
    cell_list C' l' fz' \<and> c_size (C' a) = k \<and> (\<forall>x \<in> fst ` set uz. C' x = C x)"
proof -
  obtain us n vs where sp: "fz = us @ (a, n) # vs" "sz \<le> n"
    "k = (if n - sz < 64 then n else sz)"
    "fz' = (if n - sz < 64 then us @ vs else us @ (a + sz, n - sz) # vs)"
    by (rule alloc_spec_split [OF al])
  have n: "c_size (C a) = n" "n < 2 ^ 31"
    using fl layout_bound [OF ly, of "(a, n)"] sp(1) by (simp_all add: cell_list_def)
  then have u: "u32 (c_size (C a) - sz) = n - sz" using sp(2) sz by (simp add: u32_id)
  note ly' = alloc_spec_layout [OF al ly sz]
  have dj: "fst ` set fz' \<inter> fst ` set ((a, k) # uz) = {}" by (rule layout_disjoint [OF ly'(1)])
  have dj': "a \<notin> fst ` set uz" using layout_disjoint [OF ly] sp(1) by auto
  note fl' = fl [unfolded sp(1)]
  show ?thesis
  proof (cases "n - sz < 64")
    case True
    obtain l' C' where "DLExtract l a C = (l', C')" "cell_list C' l' (us @ vs)"
      "\<forall>b. c_size (C' b) = c_size (C b)" "\<forall>b. b \<notin> fst ` set (us @ vs) \<longrightarrow> C' b = C b"
      using DLExtract_list [OF fl'] by blast
    moreover have e: "fz' = us @ vs" "k = n" using True sp by simp_all
    moreover have "x \<notin> fst ` set (us @ vs)" if "x \<in> fst ` set uz" for x
      using dj that unfolding e by auto
    ultimately show ?thesis using True u n(1) by simp
  next
    case False
    have "a + sz \<notin> fst ` set (us @ vs)"
    proof -
      have "sorted_wrt gap fz'" using ly'(1) by (simp add: layout_def)
      then have g: "\<forall>x \<in> set us. gap x (a + sz, n - sz)" "\<forall>x \<in> set vs. gap (a + sz, n - sz) x"
        using False sp(4) by (simp_all add: sorted_wrt_append)
      have "fst x \<noteq> a + sz" if "x \<in> set (us @ vs)" for x
      proof -
        have "x \<in> set fz \<union> set uz" using that sp(1) by auto
        then have "32 \<le> snd x" by (rule layout_bound(1) [OF ly])
        moreover have "gap x (a + sz, n - sz) \<or> gap (a + sz, n - sz) x" using g that by auto
        ultimately show ?thesis using False by (simp add: gap_def) linarith
      qed
      then show ?thesis by (metis imageE)
    qed
    moreover have "s32 (n - sz) = n - sz" using False n sz by (intro s32_id) auto
    ultimately obtain l' C' where "carve l a sz (n - sz) C = (l', C')"
      "cell_list C' l' (us @ (a + sz, n - sz) # vs)" "c_size (C' a) = sz"
      "\<forall>x. x \<notin> fst ` set (us @ vs) \<and> x \<noteq> a \<and> x \<noteq> a + sz \<longrightarrow> C' x = C x"
      using carve_list [OF fl', of sz "n - sz"] sz by fastforce
    moreover have e: "fz' = us @ (a + sz, n - sz) # vs" "k = sz" using False sp by simp_all
    moreover have "x \<notin> fst ` set (us @ vs) \<and> x \<noteq> a \<and> x \<noteq> a + sz" if "x \<in> fst ` set uz" for x
    proof -
      have "x \<notin> fst ` set fz'" "x \<noteq> a" using dj dj' that by (simp_all only: disjoint_iff) auto
      then show ?thesis unfolding e by simp
    qed
    ultimately show ?thesis using False u by simp
  qed
qed


lemma OSAllocFromHeap_cases:
  assumes inv: "heap_inv s h lo hi fz uz" and sz: "0 \<le> sz" "sz < 2 ^ 31 - 64"
  shows "alloc_spec (block_size sz) fz = None \<Longrightarrow> OSAllocFromHeap h sz s = Some (None, s)"
    "alloc_spec (block_size sz) fz = Some (a, k, fz') \<Longrightarrow>
      \<exists>s'. OSAllocFromHeap h sz s = Some (Some (a + 32), s') \<and> heap_inv s' h lo hi fz' ((a, k) # uz) \<and>
        (\<forall>j. j \<noteq> h \<longrightarrow> HeapArray s' j = HeapArray s j)"
proof -
  let ?b = "block_size sz"
  have fl: "cell_list (cells s) (hd_freeList (HeapArray s h)) fz"
    and ul: "cell_list (cells s) (hd_usedList (HeapArray s h)) uz" and ly: "layout lo hi fz uz"
    using inv by (simp_all add: heap_inv_def)
  note bs = block_size_code [OF sz] and b32 = block_size_bounds(1) [OF sz(1)]
  note fnd = find_fit [OF fl, of ?b]
  show "OSAllocFromHeap h sz s = Some (None, s)" if "alloc_spec ?b fz = None"
    using that alloc_spec_find [of ?b fz] fnd by (simp add: OSAllocFromHeap_def bs)
  assume al: "alloc_spec ?b fz = Some (a, k, fz')"
  have fa: "map_option fst (find (\<lambda>x. ?b \<le> snd x) fz) = Some a"
    using alloc_spec_find [of ?b fz] al by simp
  obtain l1 C1 where t: "(if u32 (c_size (cells s a) - ?b) < 64 then DLExtract (hd_freeList (HeapArray s h)) a (cells s)
      else carve (hd_freeList (HeapArray s h)) a ?b (u32 (c_size (cells s a) - ?b)) (cells s)) = (l1, C1)"
    "cell_list C1 l1 fz'" "c_size (C1 a) = k" "\<forall>x \<in> fst ` set uz. C1 x = cells s x"
    using take_cell [OF fl ly al b32] by blast
  note ly' = alloc_spec_layout(1) [OF al ly b32]
  have dj: "a \<notin> fst ` set fz'" "fst ` set fz' \<inter> fst ` set uz = {}" "a \<notin> fst ` set uz"
  proof -
    show "a \<notin> fst ` set fz'" "fst ` set fz' \<inter> fst ` set uz = {}"
      using layout_disjoint [OF ly'] by auto
    have "a \<in> fst ` set fz" using fa by (auto simp: find_split)
    then show "a \<notin> fst ` set uz" using layout_disjoint [OF ly] by blast
  qed
  have ul1: "cell_list C1 (hd_usedList (HeapArray s h)) uz"
    by (rule cell_list_cong [OF ul]) (use t(4) in blast)
  obtain C2 where u: "DLAddFront (hd_usedList (HeapArray s h)) a C1 = (Some a, C2)"
    "cell_list C2 (Some a) ((a, k) # uz)" "\<forall>b. b \<noteq> a \<and> b \<notin> fst ` set uz \<longrightarrow> C2 b = C1 b"
    using DLAddFront_list [OF ul1 dj(3)] t(3) by auto
  have fl2: "cell_list C2 l1 fz'"
  proof (rule cell_list_cong [OF t(2)])
    fix x assume "x \<in> fst ` set fz'"
    then have "x \<noteq> a" "x \<notin> fst ` set uz" using dj by blast+
    then show "C2 x = C1 x" using u(3) by simp
  qed
  define s' where "s' = upd_heap h (hd_usedList_update (\<lambda>_. Some a))
      (upd_heap h (hd_freeList_update (\<lambda>_. l1)) (s\<lparr>cells := C1\<rparr>)\<lparr>cells := C2\<rparr>)"
  have "OSAllocFromHeap h sz s = Some (Some (a + 32), s')"
    using fnd fa t(1) u(1) by (auto simp: OSAllocFromHeap_def bs [unfolded CELL_SIZE_def] s'_def CELL_SIZE_def Let_def upd_heap_def)
  moreover have "heap_inv s' h lo hi fz' ((a, k) # uz)"
    using fl2 u(2) ly' by (simp add: heap_inv_def s'_def upd_heap_def)
  moreover have "\<forall>j. j \<noteq> h \<longrightarrow> HeapArray s' j = HeapArray s j"
    by (simp add: s'_def upd_heap_def)
  ultimately show "\<exists>s'. OSAllocFromHeap h sz s = Some (Some (a + 32), s') \<and>
      heap_inv s' h lo hi fz' ((a, k) # uz) \<and> (\<forall>j. j \<noteq> h \<longrightarrow> HeapArray s' j = HeapArray s j)"
    by blast
qed

lemma OSFreeToHeap_result:
  assumes inv: "heap_inv s h lo hi fz (ys @ (a, k) # zs)"
  shows "\<exists>s'. OSFreeToHeap h (a + 32) s = Some s' \<and> heap_inv s' h lo hi (free_spec a k fz) (ys @ zs) \<and>
    (\<forall>j. j \<noteq> h \<longrightarrow> HeapArray s' j = HeapArray s j)"
proof -
  have fl: "cell_list (cells s) (hd_freeList (HeapArray s h)) fz"
    and ul: "cell_list (cells s) (hd_usedList (HeapArray s h)) (ys @ (a, k) # zs)"
    and ly: "layout lo hi fz (ys @ (a, k) # zs)"
    using inv by (simp_all add: heap_inv_def)
  have dj: "fst ` set fz \<inter> fst ` set (ys @ (a, k) # zs) = {}" by (rule layout_disjoint [OF ly])
  obtain l1 C1 where e: "DLExtract (hd_usedList (HeapArray s h)) a (cells s) = (l1, C1)"
    "cell_list C1 l1 (ys @ zs)" "\<forall>b. c_size (C1 b) = c_size (cells s b)"
    "\<forall>b. b \<notin> fst ` set (ys @ zs) \<longrightarrow> C1 b = cells s b"
    using DLExtract_list [OF ul] by blast
  have fl1: "cell_list C1 (hd_freeList (HeapArray s h)) fz"
  proof (rule cell_list_cong [OF fl])
    fix x assume "x \<in> fst ` set fz"
    then have "x \<notin> fst ` set (ys @ zs)" using dj by auto
    then show "C1 x = cells s x" using e(4) by simp
  qed
  have "c_size (C1 a) = k" using e(3) cell_list_neighbours(3) [OF ul] by simp
  moreover have "a \<notin> fst ` set fz" using dj by auto
  ultimately obtain l2 C2 where i: "DLInsert (hd_freeList (HeapArray s h)) a C1 = Some (l2, C2)"
    "cell_list C2 l2 (free_spec a k fz)" "\<forall>x. x \<noteq> a \<and> x \<notin> fst ` set fz \<longrightarrow> C2 x = C1 x"
    using DLInsert_list [OF fl1] by blast
  have ul2: "cell_list C2 l1 (ys @ zs)"
  proof (rule cell_list_cong [OF e(2)])
    fix x assume x: "x \<in> fst ` set (ys @ zs)"
    then have "x \<noteq> a" using ul by (auto simp: cell_list_def)
    moreover have "x \<notin> fst ` set fz" using dj x by auto
    ultimately show "C2 x = C1 x" using i(3) by simp
  qed
  define s' where "s' = upd_heap h (hd_freeList_update (\<lambda>_. l2))
      (upd_heap h (hd_usedList_update (\<lambda>_. l1)) (s\<lparr>cells := C1\<rparr>)\<lparr>cells := C2\<rparr>)"
  have "OSFreeToHeap h (a + 32) s = Some s'"
    using e(1) i(1) by (simp add: OSFreeToHeap_def CELL_SIZE_def s'_def upd_heap_def)
  moreover have "heap_inv s' h lo hi (free_spec a k fz) (ys @ zs)"
    using i(2) ul2 free_spec_layout(1) [OF ly] by (simp add: heap_inv_def s'_def upd_heap_def)
  ultimately show ?thesis by (auto simp: s'_def upd_heap_def)
qed


text \<open>A new heap is one free cell from the rounded start to the rounded end.\<close>

lemma OSCreateHeap_inv:
  assumes r: "OSCreateHeap start end_addr s = (h, s')" "h \<noteq> -1"
    and lim: "0 \<le> start" "start + 31 < 2 ^ 32" "end_addr < 2 ^ 32" "start + 63 \<le> end_addr - 31"
      "end_addr - start < 2 ^ 31"
  shows "heap_inv s' h (ROUND_UP start 32) (ROUND_DOWN end_addr 32)
    [(ROUND_UP start 32, ROUND_DOWN end_addr 32 - ROUND_UP start 32)] []"
proof -
  let ?a = "ROUND_UP start 32" and ?e = "ROUND_DOWN end_addr 32"
  obtain i where i: "find (\<lambda>i. hd_size (HeapArray s (int i)) < 0) [0..<nat (NumHeaps s)] = Some i" "h = int i"
    using r by (auto simp: OSCreateHeap_def Let_def split: option.splits)
  have a: "start \<le> ?a" "?a < start + 32" using ROUND_UP_32_bounds [of start] lim by simp_all
  have e: "?e \<le> end_addr" "end_addr < ?e + 32" using ROUND_DOWN_32_bounds [of end_addr] lim by simp_all
  have sz: "s32 (?e - ?a) = ?e - ?a" using a e lim by (intro s32_id) auto
  show ?thesis
    using r(1) i a e lim sz
    by (auto simp: OSCreateHeap_def Let_def heap_inv_def layout_def cell_list_def upd_heap_def)
qed

section \<open>Properties\<close>

definition heap_zero :: alloc_state where
  "heap_zero = \<lparr>CurrHeap = 0, ArenaStart = 0, ArenaEnd = 0, NumHeaps = 0,
     HeapArray = \<lambda>_. \<lparr>hd_size = 0, hd_freeList = None, hd_usedList = None\<rparr>,
     cells = \<lambda>_. \<lparr>c_prev = None, c_next = None, c_size = 0\<rparr>\<rparr>"

definition demo_heap :: alloc_state where
  "demo_heap = snd (OSCreateHeap 0x80010000 0x80020000 (snd (OSInitAlloc 0x80001000 0x81000000 2 heap_zero)))"

lemma demo_heap_inv: "heap_inv demo_heap 0 0x80010000 0x80020000 [(0x80010000, 0x10000)] []"
proof -
  define s where "s = snd (OSInitAlloc 0x80001000 0x81000000 2 heap_zero)"
  have "NumHeaps s = 2" "hd_size (HeapArray s 0) = -1"
    by (simp_all add: s_def OSInitAlloc_def Let_def heap_zero_def upt_rec)
  then have "find (\<lambda>i. hd_size (HeapArray s (int i)) < 0) [0..<nat (NumHeaps s)] = Some 0"
    by (simp add: upt_rec)
  then have "fst (OSCreateHeap 0x80010000 0x80020000 s) = 0"
    by (simp add: OSCreateHeap_def Let_def)
  then have "OSCreateHeap 0x80010000 0x80020000 s = (0, demo_heap)"
    by (simp add: demo_heap_def s_def prod_eq_iff)
  from OSCreateHeap_inv [OF this] show ?thesis
    by (simp add: ROUND_UP_def ROUND_DOWN_def u32_def)
qed

text \<open>C5. Allocation refines its specification on lists.  On a heap whose free and used lists
  are \<open>fz\<close> and \<open>uz\<close>, \<^verbatim>\<open>OSAllocFromHeap\<close> returns: NULL and an unchanged
  heap when no free cell has room, and otherwise the block after the header of the first free
  cell that has; that cell is split when at least 64 bytes are left and moves to the front of the
  used list; the lists stay well formed (ordered, disjoint, inside the heap), the block has room
  for the request, no byte of the heap is lost, and no other heap changes.\<close>

theorem OSAllocFromHeap_refines:
  assumes "heap_inv s h lo hi fz uz" "0 \<le> sz" "sz < 2 ^ 31 - 64"
  shows "case alloc_spec (block_size sz) fz of
      None \<Rightarrow> OSAllocFromHeap h sz s = Some (None, s)
    | Some (a, k, fz') \<Rightarrow> sz + 32 \<le> k \<and> heap_total fz' ((a, k) # uz) = heap_total fz uz \<and>
        (\<exists>s'. OSAllocFromHeap h sz s = Some (Some (a + 32), s') \<and> heap_inv s' h lo hi fz' ((a, k) # uz) \<and>
           (\<forall>j. j \<noteq> h \<longrightarrow> HeapArray s' j = HeapArray s j))"
proof (cases "alloc_spec (block_size sz) fz")
  case None
  then show ?thesis using OSAllocFromHeap_cases(1) [OF assms] by simp
next
  case (Some r)
  obtain a k fz' where r: "r = (a, k, fz')" by (cases r)
  have ly: "layout lo hi fz uz" using assms(1) by (simp add: heap_inv_def)
  show ?thesis
    using alloc_spec_layout(2,3) [OF Some [unfolded r] ly block_size_bounds(1) [OF assms(2)]]
      OSAllocFromHeap_cases(2) [OF assms Some [unfolded r]] block_size_bounds(2) [OF assms(2)] Some
    by (simp add: r)
qed

theorem OSAllocFromHeap_refines_witness:
  "\<exists>s'. OSAllocFromHeap 0 100 demo_heap = Some (Some 0x80010020, s') \<and>
     heap_inv s' 0 0x80010000 0x80020000 [(0x800100A0, 0xFF60)] [(0x80010000, 0xA0)]"
  using OSAllocFromHeap_refines [OF demo_heap_inv, of 100] by (auto simp: block_size_def)

text \<open>C7. Releasing a used block returns, takes the block off the used list and puts it into
  the free list at its place by address, merged with the free cells that touch it on either side:
  afterwards no two free cells touch, nothing overlaps, and no byte of the heap is lost.\<close>

theorem OSFreeToHeap_coalesces:
  assumes "heap_inv s h lo hi fz (ys @ (a, k) # zs)"
  shows "\<exists>s'. OSFreeToHeap h (a + 32) s = Some s' \<and> heap_inv s' h lo hi (free_spec a k fz) (ys @ zs) \<and>
    heap_total (free_spec a k fz) (ys @ zs) = heap_total fz (ys @ (a, k) # zs) \<and>
    (\<forall>j. j \<noteq> h \<longrightarrow> HeapArray s' j = HeapArray s j)"
  using OSFreeToHeap_result [OF assms] free_spec_layout(2) [of lo hi fz ys a k zs] assms
  by (simp add: heap_inv_def)

theorem OSFreeToHeap_coalesces_witness:
  "\<exists>s s'. heap_inv s 0 0x80010000 0x80020000 [(0x800100A0, 0xFF60)] [(0x80010000, 0xA0)] \<and>
     OSFreeToHeap 0 0x80010020 s = Some s' \<and> heap_inv s' 0 0x80010000 0x80020000 [(0x80010000, 0x10000)] []"
proof -
  obtain s where s: "heap_inv s 0 0x80010000 0x80020000 [(0x800100A0, 0xFF60)] [(0x80010000, 0xA0)]"
    using OSAllocFromHeap_cases(2) [OF demo_heap_inv, of 100] by (auto simp: block_size_def)
  then have i: "heap_inv s 0 0x80010000 0x80020000 [(0x800100A0, 0xFF60)] ([] @ (0x80010000, 0xA0) # [])"
    by simp
  have "free_spec 0x80010000 0xA0 [(0x800100A0, 0xFF60)] = [(0x80010000, 0x10000)]"
    by (simp add: free_spec_def join_def s32_def)
  then show ?thesis
    using OSFreeToHeap_coalesces [OF i] s by auto
qed

text \<open>C6. Allocating a block and releasing it again gives back exactly the free list and the
  used list the heap had before, whether or not the allocation split a cell.\<close>

theorem heap_alloc_free_roundtrip:
  assumes "heap_inv s h lo hi fz uz" "0 \<le> sz" "sz < 2 ^ 31 - 64" "OSAllocFromHeap h sz s = Some (Some p, s')"
  shows "\<exists>s''. OSFreeToHeap h p s' = Some s'' \<and> heap_inv s'' h lo hi fz uz"
proof -
  have ly: "layout lo hi fz uz" using assms(1) by (simp add: heap_inv_def)
  obtain a k fz' where al: "alloc_spec (block_size sz) fz = Some (a, k, fz')"
    using OSAllocFromHeap_cases(1) [OF assms(1-3)] assms(4)
    by (cases "alloc_spec (block_size sz) fz") auto
  with OSAllocFromHeap_cases(2) [OF assms(1-3) al] assms(4)
  have p: "p = a + 32" "heap_inv s' h lo hi fz' ([] @ (a, k) # uz)" by auto
  have "free_spec a k fz' = fz"
  proof (rule free_alloc_spec [OF al])
    show "sorted_wrt gap fz" using ly by (simp add: layout_def)
    show "\<forall>x \<in> set fz. 0 \<le> snd x" "\<forall>x \<in> set fz. snd x < 2 ^ 31"
      using layout_bound [OF ly] by fastforce+
    show "0 < block_size sz" using block_size_bounds(1) [OF assms(2)] by simp
  qed
  then show ?thesis using OSFreeToHeap_result [OF p(2)] p(1) by auto
qed

theorem heap_alloc_free_roundtrip_witness:
  "\<exists>s' s''. OSAllocFromHeap 0 100 demo_heap = Some (Some 0x80010020, s') \<and>
     OSFreeToHeap 0 0x80010020 s' = Some s'' \<and> heap_inv s'' 0 0x80010000 0x80020000 [(0x80010000, 0x10000)] []"
proof -
  obtain s' where "OSAllocFromHeap 0 100 demo_heap = Some (Some 0x80010020, s')"
    using OSAllocFromHeap_cases(2) [OF demo_heap_inv, of 100] by (auto simp: block_size_def)
  then show ?thesis
    using heap_alloc_free_roundtrip [OF demo_heap_inv, of 100] by auto
qed

end
