(* ===== verification/IpcResult.thy ===== *)
theory IpcResult
  imports Prelude
begin

text \<open>
  The result codes of the IO processor (\<^verbatim>\<open>IPC/ipcclt.h\<close>), shared by the heaps of its
  client, the requests to the disc drive and the NAND library.
\<close>

definition IPC_RESULT_OK :: int where "IPC_RESULT_OK = 0"
definition IPC_RESULT_ACCESS :: int where "IPC_RESULT_ACCESS = -102"
definition IPC_RESULT_CORRUPT :: int where "IPC_RESULT_CORRUPT = -103"
definition IPC_RESULT_ECC_CRIT :: int where "IPC_RESULT_ECC_CRIT = -114"
definition IPC_RESULT_EXISTS :: int where "IPC_RESULT_EXISTS = -105"
definition IPC_RESULT_INVALID :: int where "IPC_RESULT_INVALID = -101"
definition IPC_RESULT_MAXBLOCKS :: int where "IPC_RESULT_MAXBLOCKS = -108"
definition IPC_RESULT_MAXFD :: int where "IPC_RESULT_MAXFD = -109"
definition IPC_RESULT_MAXFILES :: int where "IPC_RESULT_MAXFILES = -107"
definition IPC_RESULT_NOEXISTS :: int where "IPC_RESULT_NOEXISTS = -106"
definition IPC_RESULT_NOTEMPTY :: int where "IPC_RESULT_NOTEMPTY = -115"
definition IPC_RESULT_OPENFD :: int where "IPC_RESULT_OPENFD = -111"
definition IPC_RESULT_BUSY :: int where "IPC_RESULT_BUSY = -118"
definition IPC_RESULT_FATAL_ERROR :: int where "IPC_RESULT_FATAL_ERROR = -119"
definition IPC_RESULT_ACCESS_INTERNAL :: int where "IPC_RESULT_ACCESS_INTERNAL = -1"
definition IPC_RESULT_EXISTS_INTERNAL :: int where "IPC_RESULT_EXISTS_INTERNAL = -2"
definition IPC_RESULT_INVALID_INTERNAL :: int where "IPC_RESULT_INVALID_INTERNAL = -4"
definition IPC_RESULT_NOEXISTS_INTERNAL :: int where "IPC_RESULT_NOEXISTS_INTERNAL = -6"
definition IPC_RESULT_BUSY_INTERNAL :: int where "IPC_RESULT_BUSY_INTERNAL = -8"
definition IPC_RESULT_ECC_CRIT_INTERNAL :: int where "IPC_RESULT_ECC_CRIT_INTERNAL = -12"
definition IPC_RESULT_ALLOC_FAILED :: int where "IPC_RESULT_ALLOC_FAILED = -22"
definition IPC_RESULT_CONN_MAX_INTERNAL :: int where "IPC_RESULT_CONN_MAX_INTERNAL = -5"

lemmas ipc_results =
    IPC_RESULT_OK_def IPC_RESULT_ACCESS_def IPC_RESULT_CORRUPT_def IPC_RESULT_ECC_CRIT_def
  IPC_RESULT_EXISTS_def IPC_RESULT_INVALID_def IPC_RESULT_MAXBLOCKS_def IPC_RESULT_MAXFD_def
  IPC_RESULT_MAXFILES_def IPC_RESULT_NOEXISTS_def IPC_RESULT_NOTEMPTY_def IPC_RESULT_OPENFD_def
  IPC_RESULT_BUSY_def IPC_RESULT_FATAL_ERROR_def IPC_RESULT_ACCESS_INTERNAL_def
  IPC_RESULT_EXISTS_INTERNAL_def IPC_RESULT_INVALID_INTERNAL_def IPC_RESULT_NOEXISTS_INTERNAL_def
  IPC_RESULT_BUSY_INTERNAL_def IPC_RESULT_ECC_CRIT_INTERNAL_def IPC_RESULT_ALLOC_FAILED_def

end
