(* ===== verification/IpcHeap.thy ===== *)
theory IpcHeap
  imports OSAlloc IpcResult
begin

text \<open>
  \<^verbatim>\<open>ipc/memory.c\<close>: the heaps from which IPC requests are allocated.  A heap is a free
  list of chunks ordered by address; every chunk starts with a 16-byte header.  \<open>chunks\<close> maps
  the address of a header to its contents, and \<open>ipc_heaps\<close> is the table of eight heaps.
  Allocation is best fit, with an alignment of at least 32; when the block does not follow the
  chunk's header directly a second header of kind \<^verbatim>\<open>FORALIGN\<close> in front of it leads back.

  Addresses are 16-byte aligned in every use, so two headers either coincide or do not overlap.
  A free list is related to a list of (address, size) pairs by \<open>cell_list\<close>, through
  \<open>as_cells\<close>, and the list lemmas are those of \<^verbatim>\<open>OSAlloc\<close>.
\<close>

section \<open>The code\<close>

definition IPC_HEAP_MAX :: int where "IPC_HEAP_MAX = 8"

definition IPC_HEAP_CHUNK_FREE :: int where "IPC_HEAP_CHUNK_FREE = 0xBABE0000"
definition IPC_HEAP_CHUNK_USED :: int where "IPC_HEAP_CHUNK_USED = 0xBABE0001"
definition IPC_HEAP_CHUNK_FORALIGN :: int where "IPC_HEAP_CHUNK_FORALIGN = 0xBABE0002"

record IPCHeapChunk =
  ic_magic :: int
  ic_size :: int
  ic_prev :: "int option"
  ic_next :: "int option"

text \<open>\<open>ih_start\<close> is 0 for a free entry of the table.\<close>

record IPCHeapDesc =
  ih_start :: int
  ih_size :: int
  ih_head :: "int option"

type_synonym chunkmap = "int \<Rightarrow> IPCHeapChunk"

record ipc_state = irq +
  ipc_heaps :: "int \<Rightarrow> IPCHeapDesc"
  chunks :: chunkmap

definition CHUNK :: int where "CHUNK = 0x10"

definition set_magic :: "int \<Rightarrow> int \<Rightarrow> chunkmap \<Rightarrow> chunkmap" where
  "set_magic c v C = C(c := (C c)\<lparr>ic_magic := v\<rparr>)"

definition set_isize :: "int \<Rightarrow> int \<Rightarrow> chunkmap \<Rightarrow> chunkmap" where
  "set_isize c v C = C(c := (C c)\<lparr>ic_size := v\<rparr>)"

definition set_iprev :: "int \<Rightarrow> int option \<Rightarrow> chunkmap \<Rightarrow> chunkmap" where
  "set_iprev c v C = C(c := (C c)\<lparr>ic_prev := v\<rparr>)"

definition set_inext :: "int \<Rightarrow> int option \<Rightarrow> chunkmap \<Rightarrow> chunkmap" where
  "set_inext c v C = C(c := (C c)\<lparr>ic_next := v\<rparr>)"

definition set_opt :: "(int \<Rightarrow> chunkmap \<Rightarrow> chunkmap) \<Rightarrow> int option \<Rightarrow> chunkmap \<Rightarrow> chunkmap" where
  "set_opt f p C = (case p of None \<Rightarrow> C | Some c \<Rightarrow> f c C)"

text \<open>A chunk absorbs its successor when it ends where the successor starts.\<close>

definition iosCoalesceChunk :: "int option \<Rightarrow> chunkmap \<Rightarrow> chunkmap" where
  "iosCoalesceChunk chunk C = (case chunk of None \<Rightarrow> C | Some c \<Rightarrow>
     (case ic_next (C c) of None \<Rightarrow> C | Some n \<Rightarrow>
        if n \<noteq> u32 (c + ic_size (C c) + CHUNK) then C
        else
          let C = set_inext c (ic_next (C n)) C;
              C = set_opt (\<lambda>m. set_iprev m (Some c)) (ic_next (C c)) C
          in set_isize c (u32 (ic_size (C c) + (ic_size (C n) + CHUNK))) C))"

text \<open>The result is None when \<open>base\<close> is NULL, which the code would write through.\<close>

definition iosCreateHeap :: "int \<Rightarrow> int \<Rightarrow> 'a ipc_state_scheme \<Rightarrow> (int \<times> 'a ipc_state_scheme) option" where
  "iosCreateHeap base sz s =
     (case OSDisableInterrupts s of (enabled, s) \<Rightarrow>
      map_option (\<lambda>(ret, s). (ret, OSRestoreInterrupts enabled s))
       (if base mod 32 \<noteq> 0 then Some (IPC_RESULT_INVALID_INTERNAL, s)
        else (case find (\<lambda>i. ih_start (ipc_heaps s (int i)) = 0) [0..<nat IPC_HEAP_MAX] of
          None \<Rightarrow> Some (IPC_RESULT_CONN_MAX_INTERNAL, s)
        | Some i \<Rightarrow>
            if base = 0 then None
            else
              let s = s\<lparr>ipc_heaps := (ipc_heaps s)(int i :=
                        (ipc_heaps s (int i))\<lparr>ih_start := base, ih_size := sz, ih_head := Some base\<rparr>)\<rparr>;
                  C = set_magic base IPC_HEAP_CHUNK_FREE (chunks s);
                  C = set_isize base (u32 (sz - CHUNK)) C;
                  C = set_iprev base None C;
                  C = set_inext base None C
              in Some (int i, s\<lparr>chunks := C\<rparr>))))"

text \<open>The bytes to skip after a header so that a block is aligned.\<close>

definition unalign :: "int \<Rightarrow> int \<Rightarrow> int" where
  "unalign align mem = and (align - 1) (u32 (align - and mem (align - 1)))"

text \<open>The loop that looks for the best chunk: an exact fit ends it.\<close>

definition fit_body :: "chunkmap \<Rightarrow> int \<Rightarrow> int \<Rightarrow> int \<Rightarrow> int option \<Rightarrow> int option \<times> bool" where
  "fit_body C sz align chunk best =
     (let chunkUnalign = unalign align (chunk + CHUNK)
      in if ic_size (C chunk) = sz \<and> chunkUnalign = 0 then (Some chunk, True)
         else if ic_size (C chunk) < u32 (sz + chunkUnalign) then (best, False)
         else if best = None \<or> ic_size (C chunk) < ic_size (C (the best)) then (Some chunk, False)
         else (best, False))"

text \<open>Cutting off what the allocation does not need.\<close>

definition split_chunk :: "int \<Rightarrow> int \<Rightarrow> int \<Rightarrow> chunkmap \<Rightarrow> chunkmap" where
  "split_chunk best sz un C =
     (if ic_size (C best) > u32 (sz + un + CHUNK)
      then
        let rest = best + sz + un + CHUNK;
            C = set_magic rest IPC_HEAP_CHUNK_FREE C;
            C = set_isize rest (u32 (ic_size (C best) - sz - un - CHUNK)) C;
            C = set_inext rest (ic_next (C best)) C;
            C = set_opt (\<lambda>n. set_iprev n (Some rest)) (ic_next (C rest)) C;
            C = set_inext best (Some rest) C
        in set_isize best (u32 (sz + un)) C
      else C)"

definition unlink_chunk :: "int \<Rightarrow> int option \<Rightarrow> chunkmap \<Rightarrow> int option \<times> chunkmap" where
  "unlink_chunk best head C =
     (let (head, C) = (case ic_prev (C best) of
            Some p \<Rightarrow> (head, set_inext p (ic_next (C best)) C)
          | None \<Rightarrow> (ic_next (C best), C));
          C = set_opt (\<lambda>n. set_iprev n (ic_prev (C best))) (ic_next (C best)) C;
          C = set_inext best None C
      in (head, set_iprev best None C))"

text \<open>The outer option is None when the search never ends, the inner one for NULL.\<close>

definition iosAlloc :: "int \<Rightarrow> int \<Rightarrow> int \<Rightarrow> 'a ipc_state_scheme \<Rightarrow> (int option \<times> 'a ipc_state_scheme) option" where
  "iosAlloc handle sz align s =
     (case OSDisableInterrupts s of (enabled, s) \<Rightarrow>
      map_option (\<lambda>(block, s). (block, OSRestoreInterrupts enabled s))
       (if sz = 0 \<or> align = 0 then Some (None, s)
        else if and align (align - 1) \<noteq> 0 then Some (None, s)
        else
          let align = (if align < 32 then 32 else align);
              sz = ROUND_UP sz 32
          in if handle < 0 \<or> handle \<ge> IPC_HEAP_MAX \<or> ih_start (ipc_heaps s handle) = 0 then Some (None, s)
             else map_option (\<lambda>best. case best of
                 None \<Rightarrow> (None, s)
               | Some best \<Rightarrow>
                  (let un = unalign align (best + CHUNK);
                       C = split_chunk best sz un (chunks s);
                       C = set_magic best IPC_HEAP_CHUNK_USED C;
                       (head, C) = unlink_chunk best (ih_head (ipc_heaps s handle)) C;
                       block = best + un + CHUNK;
                       C = (if un \<noteq> 0
                            then set_iprev (block - CHUNK) (Some best) (set_magic (block - CHUNK) IPC_HEAP_CHUNK_FORALIGN C)
                            else C)
                   in (Some block,
                       s\<lparr>ipc_heaps := (ipc_heaps s)(handle := (ipc_heaps s handle)\<lparr>ih_head := head\<rparr>),
                         chunks := C\<rparr>)))
               (scan (\<lambda>c. ic_next (chunks s c)) (fit_body (chunks s) sz align) (ih_head (ipc_heaps s handle)) None)))"

definition iosAllocAligned :: "int \<Rightarrow> int \<Rightarrow> int \<Rightarrow> 'a ipc_state_scheme \<Rightarrow> (int option \<times> 'a ipc_state_scheme) option" where
  "iosAllocAligned handle sz align s = iosAlloc handle sz align s"

text \<open>The last free chunk in front of the released one, or the head.\<close>

definition link_free :: "int option \<Rightarrow> int \<Rightarrow> int option \<Rightarrow> chunkmap \<Rightarrow> int option \<times> chunkmap" where
  "link_free it chunk head C =
     (case it of
        Some i \<Rightarrow>
          if chunk > i
          then
            let C = set_iprev chunk (Some i) C;
                C = set_inext chunk (ic_next (C i)) C;
                C = set_inext i (Some chunk) C
            in (head, set_opt (\<lambda>n. set_iprev n (Some chunk)) (ic_next (C chunk)) C)
          else
            let C = set_inext chunk head C;
                C = set_iprev chunk None C
            in (Some chunk, set_opt (\<lambda>n. set_iprev n (Some chunk)) (ic_next (C chunk)) C)
      | None \<Rightarrow>
          let C = set_inext chunk head C;
              C = set_iprev chunk None C
          in (Some chunk, set_opt (\<lambda>n. set_iprev n (Some chunk)) (ic_next (C chunk)) C))"

text \<open>The chunk a block belongs to; None when the FORALIGN header leads to NULL.\<close>

definition real_chunk :: "int \<Rightarrow> chunkmap \<Rightarrow> int option" where
  "real_chunk chunk C =
     (if ic_magic (C chunk) = IPC_HEAP_CHUNK_FORALIGN then ic_prev (C chunk) else Some chunk)"

definition iosFree :: "int \<Rightarrow> int option \<Rightarrow> 'a ipc_state_scheme \<Rightarrow> (int \<times> 'a ipc_state_scheme) option" where
  "iosFree handle block s =
     (case OSDisableInterrupts s of (enabled, s) \<Rightarrow>
      map_option (\<lambda>(ret, s). (ret, OSRestoreInterrupts enabled s))
       (case block of None \<Rightarrow> Some (IPC_RESULT_INVALID_INTERNAL, s) | Some block \<Rightarrow>
        if handle < 0 \<or> handle \<ge> IPC_HEAP_MAX \<or> ih_start (ipc_heaps s handle) = 0
        then Some (IPC_RESULT_INVALID_INTERNAL, s)
        else
          let desc = ipc_heaps s handle
          in if block < ih_start desc + CHUNK then Some (IPC_RESULT_INVALID_INTERNAL, s)
             else if block > ih_start desc + ih_size desc then Some (IPC_RESULT_INVALID_INTERNAL, s)
             else (case real_chunk (block - CHUNK) (chunks s) of None \<Rightarrow> None | Some chunk \<Rightarrow>
               if ic_magic (chunks s chunk) \<noteq> IPC_HEAP_CHUNK_USED then Some (IPC_RESULT_INVALID_INTERNAL, s)
               else
                 let C = set_magic chunk IPC_HEAP_CHUNK_FREE (chunks s)
                 in map_option (\<lambda>it.
                      (let (head, C) = link_free it chunk (ih_head desc) C;
                           C = iosCoalesceChunk (Some chunk) C;
                           C = iosCoalesceChunk (ic_prev (C chunk)) C
                       in (IPC_RESULT_OK,
                           s\<lparr>ipc_heaps := (ipc_heaps s)(handle := desc\<lparr>ih_head := head\<rparr>), chunks := C\<rparr>)))
                     (seek (\<lambda>c. ic_next (C c))
                        (\<lambda>c. case ic_next (C c) of None \<Rightarrow> True | Some n \<Rightarrow> n > chunk) (ih_head desc)))))"


section \<open>Chunk lists as cell lists\<close>

definition as_cells :: "chunkmap \<Rightarrow> cellmap" where
  "as_cells C = (\<lambda>c. \<lparr>c_prev = ic_prev (C c), c_next = ic_next (C c), c_size = ic_size (C c)\<rparr>)"

lemma as_cells_sel [simp]:
  "c_prev (as_cells C c) = ic_prev (C c)" "c_next (as_cells C c) = ic_next (C c)"
  "c_size (as_cells C c) = ic_size (C c)"
  by (simp_all add: as_cells_def)

lemma as_cells_set [simp]:
  "as_cells (set_magic c v C) = as_cells C" "as_cells (set_isize c n C) = set_csize c n (as_cells C)"
  "as_cells (set_iprev c p C) = set_cprev c p (as_cells C)"
  "as_cells (set_inext c p C) = set_cnext c p (as_cells C)"
  by (auto simp: as_cells_def set_magic_def set_isize_def set_iprev_def set_inext_def set_csize_def
      set_cprev_def set_cnext_def)

lemma ic_set [simp]:
  "ic_magic (set_magic c v C x) = (if x = c then v else ic_magic (C x))"
  "ic_magic (set_isize c n C x) = ic_magic (C x)" "ic_magic (set_iprev c p C x) = ic_magic (C x)"
  "ic_magic (set_inext c p C x) = ic_magic (C x)"
  "ic_size (set_magic c v C x) = ic_size (C x)" "ic_size (set_isize c n C x) = (if x = c then n else ic_size (C x))"
  "ic_size (set_iprev c p C x) = ic_size (C x)" "ic_size (set_inext c p C x) = ic_size (C x)"
  "ic_prev (set_magic c v C x) = ic_prev (C x)" "ic_prev (set_isize c n C x) = ic_prev (C x)"
  "ic_prev (set_iprev c p C x) = (if x = c then p else ic_prev (C x))" "ic_prev (set_inext c p C x) = ic_prev (C x)"
  "ic_next (set_magic c v C x) = ic_next (C x)" "ic_next (set_isize c n C x) = ic_next (C x)"
  "ic_next (set_iprev c p C x) = ic_next (C x)" "ic_next (set_inext c p C x) = (if x = c then p else ic_next (C x))"
  by (simp_all add: set_magic_def set_isize_def set_iprev_def set_inext_def)

lemma set_opt_simps [simp]: "set_opt f None C = C" "set_opt f (Some c) C = f c C"
  by (simp_all add: set_opt_def)

section \<open>Alignment\<close>

lemma and_mask_mod: "and (x::int) (2 ^ k - 1) = x mod 2 ^ k"
  by (simp add: take_bit_eq_mask [symmetric] mask_eq_exp_minus_1 [symmetric] take_bit_eq_mod)

lemma power_of_two:
  assumes "0 < (a::int)" "and a (a - 1) = 0"
  shows "\<exists>k. a = 2 ^ k"
  using assms
proof (induction "nat a" arbitrary: a rule: less_induct)
  case less
  show ?case
  proof (cases "odd a")
    case True
    then have "and a (a - 1) = 2 * and (a div 2) (a div 2)"
      by (subst and_rec) (auto elim!: oddE)
    with less.prems True have "a div 2 = 0" by simp
    with True less.prems(1) have "a = 1" by presburger
    then show ?thesis by (intro exI [of _ 0]) simp
  next
    case False
    then obtain b where b: "a = 2 * b" by blast
    have "(2 * b - 1) div 2 = b - 1" by presburger
    then have "and a (a - 1) = 2 * and b (b - 1)" unfolding b by (subst and_rec) simp
    with less.prems have "and b (b - 1) = 0" by simp
    then obtain k where "b = 2 ^ k" using less.hyps [of b] less.prems(1) b by auto
    then show ?thesis unfolding b by (intro exI [of _ "Suc k"]) simp
  qed
qed

lemma unalign_exp:
  assumes "0 \<le> mem" "k < 32"
  shows "unalign (2 ^ k) mem = (- mem) mod 2 ^ k"
proof -
  have m: "0 \<le> mem mod 2 ^ k" "mem mod 2 ^ k < 2 ^ k" by simp_all
  have "(2::int) ^ k < 2 ^ 32" using assms(2) by (rule power_strict_increasing) simp
  then have "u32 (2 ^ k - mem mod 2 ^ k) = 2 ^ k - mem mod 2 ^ k"
    using m by (intro u32_id) linarith+
  then have "unalign (2 ^ k) mem = and (2 ^ k - mem mod 2 ^ k) (2 ^ k - 1)"
    unfolding unalign_def and_mask_mod [of mem] by (simp only: and.commute)
  also have "\<dots> = (2 ^ k - mem mod 2 ^ k) mod 2 ^ k" by (rule and_mask_mod)
  also have "\<dots> = (- mem) mod 2 ^ k"
    by (simp add: mod_minus_eq)
  finally show ?thesis .
qed

lemma unalign_bounds:
  assumes "0 \<le> mem" "k < 32"
  shows "0 \<le> unalign (2 ^ k) mem" "unalign (2 ^ k) mem < 2 ^ k" "(2 ^ k) dvd mem + unalign (2 ^ k) mem"
proof -
  show "0 \<le> unalign (2 ^ k) mem" "unalign (2 ^ k) mem < 2 ^ k"
    by (simp_all add: unalign_exp [OF assms])
  have "(mem + (- mem) mod 2 ^ k) mod 2 ^ k = 0" by (simp add: mod_add_right_eq)
  then show "(2 ^ k) dvd mem + unalign (2 ^ k) mem"
    by (simp add: unalign_exp [OF assms] dvd_eq_mod_eq_0)
qed


section \<open>Best fit\<close>

definition fits :: "int \<Rightarrow> int \<Rightarrow> int \<times> int \<Rightarrow> bool" where
  "fits sz align x \<longleftrightarrow> sz + unalign align (fst x + CHUNK) \<le> snd x"

text \<open>What the loop looks for: a fitting chunk, none of the fitting chunks being smaller.\<close>

definition best_of :: "int \<Rightarrow> int \<Rightarrow> (int \<times> int) list \<Rightarrow> int option \<Rightarrow> bool" where
  "best_of sz align fz r \<longleftrightarrow> (case r of
     None \<Rightarrow> \<forall>x \<in> set fz. \<not> fits sz align x
   | Some b \<Rightarrow> \<exists>n. (b, n) \<in> set fz \<and> fits sz align (b, n) \<and> (\<forall>x \<in> set fz. fits sz align x \<longrightarrow> n \<le> snd x))"

lemma fit_loop:
  assumes "\<And>x. x \<in> set (us @ fz) \<Longrightarrow> ic_size (C (fst x)) = snd x"
    and "\<And>x. x \<in> set (us @ fz) \<Longrightarrow> 0 \<le> unalign align (fst x + CHUNK) \<and> u32 (sz + unalign align (fst x + CHUNK)) = sz + unalign align (fst x + CHUNK)"
    and "best_of sz align us acc"
  shows "best_of sz align (us @ fz) (scan_list (fit_body C sz align) (map fst fz) acc)"
  using assms
proof (induction fz arbitrary: us acc)
  case Nil
  then show ?case by simp
next
  case (Cons x xs)
  obtain c n where x: "x = (c, n)" by (cases x)
  let ?u = "unalign align (c + CHUNK)"
  have cn: "ic_size (C c) = n" "0 \<le> ?u" "u32 (sz + ?u) = sz + ?u"
    using Cons.prems(1,2) [of x] x by simp_all
  show ?case
  proof (cases "n = sz \<and> ?u = 0")
    case True
    then have "fit_body C sz align c acc = (Some c, True)" using cn by (simp add: fit_body_def)
    moreover have "\<forall>y \<in> set (us @ x # xs). fits sz align y \<longrightarrow> sz \<le> snd y"
    proof (intro ballI impI)
      fix y assume "y \<in> set (us @ x # xs)" "fits sz align y"
      then show "sz \<le> snd y" using Cons.prems(2) [of y] unfolding fits_def by linarith
    qed
    moreover have "(c, sz) \<in> set (us @ x # xs)" "fits sz align (c, sz)"
      using True x by (simp_all add: fits_def)
    ultimately have "best_of sz align (us @ x # xs) (Some c)"
      unfolding best_of_def by (simp only: option.case snd_conv) blast
    then show ?thesis using \<open>fit_body C sz align c acc = (Some c, True)\<close> x by simp
  next
    case False
    have "best_of sz align (us @ [x]) (fst (fit_body C sz align c acc)) \<and> \<not> snd (fit_body C sz align c acc)"
    proof (cases acc)
      case None
      have "fit_body C sz align c acc = (if n < sz + ?u then None else Some c, False)"
        using False cn None by (auto simp: fit_body_def Let_def)
      moreover have "best_of sz align (us @ [x]) (if n < sz + ?u then None else Some c)"
        using Cons.prems(3) None x by (auto simp: best_of_def fits_def)
      ultimately show ?thesis by simp
    next
      case (Some b)
      then obtain m where m: "(b, m) \<in> set us" "fits sz align (b, m)" "\<forall>y \<in> set us. fits sz align y \<longrightarrow> m \<le> snd y"
        using Cons.prems(3) by (auto simp: best_of_def)
      then have bm: "ic_size (C b) = m" using Cons.prems(1) [of "(b, m)"] by simp
      show ?thesis
      proof (cases "n < sz + ?u \<or> m \<le> n")
        case True
        then have "fit_body C sz align c acc = (acc, False)"
          using False cn Some bm by (auto simp: fit_body_def Let_def)
        moreover have "best_of sz align (us @ [x]) (Some b)"
          using m True x by (auto simp: best_of_def fits_def)
        ultimately show ?thesis using Some by simp
      next
        case c: False
        then have "fit_body C sz align c acc = (Some c, False)"
          using False cn Some bm by (auto simp: fit_body_def Let_def)
        moreover have "best_of sz align (us @ [x]) (Some c)"
        proof -
          have "\<forall>y \<in> set (us @ [x]). fits sz align y \<longrightarrow> n \<le> snd y"
          proof (intro ballI impI)
            fix y assume y: "y \<in> set (us @ [x])" "fits sz align y"
            show "n \<le> snd y"
            proof (cases "y \<in> set us")
              case True
              then have "m \<le> snd y" using m(3) y(2) by blast
              then show ?thesis using c by linarith
            qed (use y x in simp)
          qed
          moreover have "fits sz align (c, n)" using c by (simp add: fits_def)
          ultimately show ?thesis using x by (auto simp: best_of_def)
        qed
        ultimately show ?thesis by simp
      qed
    qed
    then show ?thesis
      using Cons.IH [of "us @ [x]" "fst (fit_body C sz align c acc)"] Cons.prems(1,2) x
      by (auto split: prod.splits)
  qed
qed

lemma scan_cells:
  assumes "cell_list (as_cells C) l fz"
  shows "scan (\<lambda>c. ic_next (C c)) body l acc = Some (scan_list body (map fst fz) acc)"
proof -
  obtain t where "dlseg (clinks (as_cells C)) l None (map fst fz) t None"
    using assms by (auto simp: cell_list_def)
  then have "scan (lnext (clinks (as_cells C))) body l acc = Some (scan_list body (map fst fz) acc)"
    by (rule scan_dlseg)
  moreover have "lnext (clinks (as_cells C)) = (\<lambda>c. ic_next (C c))" by (simp add: clinks_def)
  ultimately show ?thesis by simp
qed


section \<open>Allocation\<close>

text \<open>
  \<open>ipc_layout\<close>: the chunks of the free list lie in the heap, in address order, with their
  headers, and are not adjacent; all of them are marked free.
\<close>

definition igap :: "int \<times> int \<Rightarrow> int \<times> int \<Rightarrow> bool" where
  "igap x y \<longleftrightarrow> fst x + snd x + CHUNK < fst y"

definition ipc_heap_inv :: "'a ipc_state_scheme \<Rightarrow> int \<Rightarrow> (int \<times> int) list \<Rightarrow> bool" where
  "ipc_heap_inv s h fz \<longleftrightarrow> 0 \<le> h \<and> h < IPC_HEAP_MAX \<and>
     (let d = ipc_heaps s h in 0 < ih_start d \<and> ih_start d + ih_size d < 2 ^ 32 \<and>
       cell_list (as_cells (chunks s)) (ih_head d) fz \<and> sorted_wrt igap fz \<and>
       (\<forall>x \<in> set fz. 0 \<le> snd x \<and> 32 dvd fst x \<and> ih_start d \<le> fst x \<and> fst x + snd x + CHUNK \<le> ih_start d + ih_size d \<and>
          ic_magic (chunks s (fst x)) = IPC_HEAP_CHUNK_FREE))"

definition take_spec :: "int \<Rightarrow> int \<Rightarrow> int \<Rightarrow> (int \<times> int) list" where
  "take_spec b n m = (if n > m + CHUNK then [(b + m + CHUNK, n - m - CHUNK)] else [])"

lemma split_unlink_list:
  assumes l: "cell_list (as_cells C) hd0 (us @ (b, n) # vs)"
    and r: "b + sz + un + CHUNK \<notin> fst ` set (us @ (b, n) # vs)"
    and rng: "0 \<le> sz" "0 \<le> un" "sz + un \<le> n" "n + CHUNK < 2 ^ 32"
  shows "\<exists>hd1 C'. unlink_chunk b hd0 (set_magic b v (split_chunk b sz un C)) = (hd1, C') \<and>
    cell_list (as_cells C') hd1 (us @ take_spec b n (sz + un) @ vs) \<and>
    ic_magic (C' b) = v \<and> ic_prev (C' b) = None \<and>
    ic_size (C' b) = (if n > sz + un + CHUNK then sz + un else n) \<and>
    (\<forall>x \<in> set (take_spec b n (sz + un)). ic_magic (C' (fst x)) = IPC_HEAP_CHUNK_FREE) \<and>
    (\<forall>x. x \<noteq> b \<and> x \<noteq> b + sz + un + CHUNK \<longrightarrow> ic_magic (C' x) = ic_magic (C x))"
proof -
  have nb: "ic_prev (C b) = last_opt (map fst us)" "ic_next (C b) = hd_opt (map fst vs)" "ic_size (C b) = n"
    using cell_list_neighbours [OF l] by simp_all
  have d: "distinct (map fst us @ b # map fst vs)" using l by (simp add: cell_list_def)
  obtain t where t: "dlseg (clinks (as_cells C)) hd0 None (map fst us @ b # map fst vs) t None"
    using l by (auto simp: cell_list_def)
  have w: "u32 (sz + un + CHUNK) = sz + un + CHUNK \<or> \<not> n > sz + un + CHUNK"
    "u32 (n - sz - un - CHUNK) = n - sz - un - CHUNK \<or> \<not> n > sz + un + CHUNK"
    "u32 (sz + un) = sz + un" "n > u32 (sz + un + CHUNK) \<longleftrightarrow> n > sz + un + CHUNK"
    using rng by (auto simp: CHUNK_def u32_id)
  show ?thesis
  proof (cases us rule: rev_cases)
    case Nil
    then show ?thesis
      using l t nb d r w
      by (cases vs) (auto simp: unlink_chunk_def split_chunk_def take_spec_def cell_list_def Let_def split_beta image_Un algebra_simps)
  next
    case (snoc ws x)
    then show ?thesis
      using l t nb d r w
      by (cases vs) (auto simp: unlink_chunk_def split_chunk_def take_spec_def cell_list_def Let_def split_beta dlseg_append image_Un algebra_simps)
  qed
qed


text \<open>Only the headers in the free list change, and the header of the rest.\<close>

lemma chunk_other:
  "x \<noteq> c \<Longrightarrow> set_magic c v C x = C x" "x \<noteq> c \<Longrightarrow> set_isize c n C x = C x"
  "x \<noteq> c \<Longrightarrow> set_iprev c p C x = C x" "x \<noteq> c \<Longrightarrow> set_inext c p C x = C x"
  by (simp_all add: set_magic_def set_isize_def set_iprev_def set_inext_def)

lemma split_unlink_frame:
  assumes l: "cell_list (as_cells C) hd0 (us @ (b, n) # vs)"
    and u: "unlink_chunk b hd0 (set_magic b v (split_chunk b sz un C)) = (hd1, C')"
    and rng: "0 \<le> sz" "0 \<le> un" "sz + un \<le> n" "n + CHUNK < 2 ^ 32"
    and x: "x \<notin> fst ` set (us @ (b, n) # vs)" "x \<notin> fst ` set (take_spec b n (sz + un))"
  shows "C' x = C x"
proof -
  have nb: "ic_prev (C b) = last_opt (map fst us)" "ic_next (C b) = hd_opt (map fst vs)" "ic_size (C b) = n"
    using cell_list_neighbours [OF l] by simp_all
  have "n > u32 (sz + un + CHUNK) \<longrightarrow> x \<noteq> b + sz + un + CHUNK"
    using x(2) rng u32_id [of "sz + un + CHUNK"] by (auto simp: take_spec_def CHUNK_def u32_def split: if_splits)
  moreover have "x \<noteq> b" "\<And>y. last_opt (map fst us) = Some y \<Longrightarrow> x \<noteq> y" "\<And>y. hd_opt (map fst vs) = Some y \<Longrightarrow> x \<noteq> y"
    using x by (auto simp: last_opt_def hd_opt_def last_map split: if_splits list.splits)
  ultimately show ?thesis
    using u x nb
    by (auto simp: unlink_chunk_def split_chunk_def Let_def split_beta chunk_other set_opt_def split: option.splits if_splits)
qed

lemma igap_take:
  assumes "igap (b, n) x" "0 \<le> m" "m \<le> n" "y \<in> set (take_spec b n m)"
  shows "igap y x"
  using assms by (auto simp: take_spec_def igap_def split: if_splits)

lemma igap_take':
  assumes "igap x (b, n)" "0 \<le> m" "y \<in> set (take_spec b n m)"
  shows "igap x y"
  using assms by (auto simp: take_spec_def igap_def CHUNK_def split: if_splits)

lemma sorted_take:
  assumes "sorted_wrt igap (us @ (b, n) # vs)" "0 \<le> m" "m \<le> n"
  shows "sorted_wrt igap (us @ take_spec b n m @ vs)"
proof -
  have m: "sorted_wrt igap (take_spec b n m)" by (simp add: take_spec_def)
  have s: "sorted_wrt igap us" "sorted_wrt igap vs" "\<forall>x \<in> set us. \<forall>y \<in> set vs. igap x y"
    "\<forall>x \<in> set us. igap x (b, n)" "\<forall>x \<in> set vs. igap (b, n) x"
    using assms(1) by (auto simp: sorted_wrt_append)
  have "igap x y" if "x \<in> set us" "y \<in> set (take_spec b n m @ vs)" for x y
    using that s(3,4) igap_take' [OF _ assms(2), of x b n y] by auto
  moreover have "igap x y" if "x \<in> set (take_spec b n m)" "y \<in> set vs" for x y
    using that s(5) igap_take [OF _ assms(2,3), of b y x] by auto
  ultimately show ?thesis using m s(1,2) by (simp add: sorted_wrt_append)
qed

text \<open>An address strictly inside a free chunk is not the address of a free chunk.\<close>

lemma inside_chunk:
  assumes "sorted_wrt igap (us @ (b, n) # vs)" "\<forall>x \<in> set (us @ (b, n) # vs). 0 \<le> snd x"
    "b < a" "a \<le> b + n + CHUNK"
  shows "a \<notin> fst ` set (us @ (b, n) # vs)"
proof -
  have "fst x < b" if "x \<in> set us" for x
  proof -
    have "igap x (b, n)" "0 \<le> snd x" using assms(1,2) that by (auto simp: sorted_wrt_append)
    then show ?thesis by (simp add: igap_def CHUNK_def)
  qed
  moreover have "a < fst x" if "x \<in> set vs" for x
  proof -
    have "igap (b, n) x" using assms(1) that by (auto simp: sorted_wrt_append)
    then show ?thesis using assms(4) by (simp add: igap_def)
  qed
  ultimately show ?thesis using assms(3) by force
qed

definition ios_size :: "int \<Rightarrow> int" where
  "ios_size sz = (sz + 31) div 32 * 32"

lemma ios_size_code: "0 \<le> sz \<Longrightarrow> sz + 31 < 2 ^ 32 \<Longrightarrow> ROUND_UP sz 32 = ios_size sz"
  using ROUND_UP_exp [of sz 5] by (simp add: ios_size_def minus_mod_eq_div_mult)

lemma ios_size_bounds: "sz \<le> ios_size sz" "ios_size sz \<le> sz + 31" "32 dvd ios_size sz"
proof -
  have "ios_size sz = sz + 31 - (sz + 31) mod 32" by (simp add: ios_size_def minus_mod_eq_div_mult)
  moreover have "0 \<le> (sz + 31) mod 32" "(sz + 31) mod 32 < 32" by simp_all
  ultimately show "sz \<le> ios_size sz" "ios_size sz \<le> sz + 31" by linarith+
  show "32 dvd ios_size sz" by (simp add: ios_size_def)
qed

definition ios_align :: "nat \<Rightarrow> int" where
  "ios_align k = 2 ^ max k 5"

lemma ios_align_code: "(if (2::int) ^ k < 32 then 32 else 2 ^ k) = ios_align k"
proof (cases "k < 5")
  case True
  then have "(2::int) ^ k < 2 ^ 5" by (rule power_strict_increasing) simp
  then show ?thesis using True by (simp add: ios_align_def)
next
  case False
  then have "(2::int) ^ 5 \<le> 2 ^ k" by (intro power_increasing) simp_all
  then show ?thesis using False by (simp add: ios_align_def max_def)
qed

lemma power_and_pred: "and ((2::int) ^ k) (2 ^ k - 1) = 0"
  by (simp add: and_mask_mod)

text \<open>The offset of a block from a 32-aligned chunk.\<close>

lemma ios_unalign:
  assumes "0 \<le> b" "32 dvd b" "k < 32"
  defines "un \<equiv> unalign (ios_align k) (b + CHUNK)"
  shows "16 \<le> un" "un < ios_align k" "ios_align k dvd b + un + CHUNK" "32 dvd b + un + CHUNK"
proof -
  have m: "0 \<le> b + CHUNK" "max k 5 < 32" using assms by (simp_all add: CHUNK_def)
  note u = unalign_bounds [OF m, folded ios_align_def un_def]
  show "un < ios_align k" "ios_align k dvd b + un + CHUNK" using u by (simp_all add: algebra_simps)
  have "(2::int) ^ 5 dvd ios_align k" unfolding ios_align_def by (rule le_imp_power_dvd) simp
  then show d: "32 dvd b + un + CHUNK" using \<open>ios_align k dvd b + un + CHUNK\<close> by (auto intro: dvd_trans)
  have "32 dvd un + 16"
  proof -
    have "32 dvd b + (un + 16)" using d by (simp add: CHUNK_def algebra_simps)
    then show ?thesis using assms(2) dvd_add_right_iff by blast
  qed
  then show "16 \<le> un" using zdvd_imp_le [of 32 "un + 16"] u(1) by simp
qed


lemma iosAlloc_scan:
  assumes sz: "0 < sz" "sz + 31 < 2 ^ 32" and k: "k < 32" and h: "0 \<le> h" "h < IPC_HEAP_MAX" "0 < ih_start (ipc_heaps s h)"
  shows "iosAlloc h sz (2 ^ k) s = map_option (\<lambda>best. case best of
      None \<Rightarrow> (None, s)
    | Some best \<Rightarrow>
       (let un = unalign (ios_align k) (best + CHUNK);
            C = set_magic best IPC_HEAP_CHUNK_USED (split_chunk best (ios_size sz) un (chunks s));
            (head, C) = unlink_chunk best (ih_head (ipc_heaps s h)) C;
            block = best + un + CHUNK;
            C = (if un \<noteq> 0 then set_iprev (block - CHUNK) (Some best) (set_magic (block - CHUNK) IPC_HEAP_CHUNK_FORALIGN C) else C)
        in (Some block, s\<lparr>ipc_heaps := (ipc_heaps s)(h := (ipc_heaps s h)\<lparr>ih_head := head\<rparr>), chunks := C\<rparr>)))
    (scan (\<lambda>c. ic_next (chunks s c)) (fit_body (chunks s) (ios_size sz) (ios_align k)) (ih_head (ipc_heaps s h)) None)"
proof -
  have z: "ROUND_UP sz 32 = ios_size sz" using sz by (intro ios_size_code) simp_all
  have "\<not> (h < 0 \<or> h \<ge> IPC_HEAP_MAX \<or> ih_start (ipc_heaps s h) = 0)" using h by simp
  then show ?thesis
    using sz h
    by (auto simp: iosAlloc_def OSDisableInterrupts_def OSRestoreInterrupts_def z power_and_pred
        ios_align_code Let_def option.map_comp o_def case_prod_beta intro!: option.map_cong split: option.splits)
qed


lemma best_chunk:
  assumes inv: "ipc_heap_inv s h fz" and z: "0 \<le> z" "z + ios_align k < 2 ^ 32" and k: "k < 32"
  shows "\<exists>r. scan (\<lambda>c. ic_next (chunks s c)) (fit_body (chunks s) z (ios_align k)) (ih_head (ipc_heaps s h)) None = Some r \<and>
    best_of z (ios_align k) fz r"
proof -
  have cl: "cell_list (as_cells (chunks s)) (ih_head (ipc_heaps s h)) fz"
    and el: "\<forall>x \<in> set fz. ih_start (ipc_heaps s h) \<le> fst x \<and> 32 dvd fst x" and st: "0 < ih_start (ipc_heaps s h)"
    using inv by (simp_all add: ipc_heap_inv_def Let_def)
  have "best_of z (ios_align k) ([] @ fz) (scan_list (fit_body (chunks s) z (ios_align k)) (map fst fz) None)"
  proof (rule fit_loop)
    fix x assume x: "x \<in> set ([] @ fz)"
    then show "ic_size (chunks s (fst x)) = snd x" using cl by (simp add: cell_list_def sizes_ok_def)
    have "0 \<le> fst x" "32 dvd fst x" using el x st by auto
    from ios_unalign(1,2) [OF this k]
    show "0 \<le> unalign (ios_align k) (fst x + CHUNK) \<and>
        u32 (z + unalign (ios_align k) (fst x + CHUNK)) = z + unalign (ios_align k) (fst x + CHUNK)"
      using z by (auto intro!: u32_id)
  qed (simp add: best_of_def)
  then have "best_of z (ios_align k) fz (scan_list (fit_body (chunks s) z (ios_align k)) (map fst fz) None)"
    by simp
  with scan_cells [OF cl, of "fit_body (chunks s) z (ios_align k)" None] show ?thesis by blast
qed

lemma iosAlloc_keeps:
  assumes inv: "ipc_heap_inv s h (us @ (b, n) # vs)" and z: "0 \<le> z" "32 dvd z" and un: "16 \<le> un" "z + un \<le> n" "32 dvd b + un + CHUNK"
    and hd1: "cell_list (as_cells C1) hd1 (us @ take_spec b n (z + un) @ vs)"
    and fm: "\<forall>x \<in> set (take_spec b n (z + un)). ic_magic (C1 (fst x)) = IPC_HEAP_CHUNK_FREE"
    and mg: "\<forall>x. x \<noteq> b \<and> x \<noteq> b + z + un + CHUNK \<longrightarrow> ic_magic (C1 x) = ic_magic (chunks s x)"
    and C2: "C2 = set_iprev (b + un) (Some b) (set_magic (b + un) IPC_HEAP_CHUNK_FORALIGN C1)"
    and s': "s' = s\<lparr>ipc_heaps := (ipc_heaps s)(h := (ipc_heaps s h)\<lparr>ih_head := hd1\<rparr>), chunks := C2\<rparr>"
  shows "ipc_heap_inv s' h (us @ take_spec b n (z + un) @ vs)"
proof -
  let ?d = "ipc_heaps s h" and ?new = "us @ take_spec b n (z + un) @ vs"
  have el: "\<forall>x \<in> set (us @ (b, n) # vs). 0 \<le> snd x \<and> 32 dvd fst x \<and> ih_start ?d \<le> fst x \<and>
      fst x + snd x + CHUNK \<le> ih_start ?d + ih_size ?d \<and> ic_magic (chunks s (fst x)) = IPC_HEAP_CHUNK_FREE"
    and srt: "sorted_wrt igap (us @ (b, n) # vs)" and cl: "cell_list (as_cells (chunks s)) (ih_head ?d) (us @ (b, n) # vs)"
    using inv by (simp_all add: ipc_heap_inv_def Let_def)
  have pos: "\<forall>x \<in> set (us @ (b, n) # vs). 0 \<le> snd x" using el by blast
  have ins: "b + un \<notin> fst ` set (us @ (b, n) # vs)"
    by (rule inside_chunk [OF srt pos]) (use un z in \<open>simp_all add: CHUNK_def\<close>)
  have ins2: "b + un \<notin> fst ` set ?new"
    using ins z un by (auto simp: take_spec_def CHUNK_def split: if_splits)
  have "cell_list (as_cells C2) hd1 ?new"
  proof (rule cell_list_cong [OF hd1])
    fix a assume "a \<in> fst ` set ?new"
    then have "a \<noteq> b + un" using ins2 by blast
    then show "as_cells C2 a = as_cells C1 a" unfolding C2 by simp
  qed
  moreover have "sorted_wrt igap ?new"
    by (rule sorted_take [OF srt]) (use z un in simp_all)
  moreover have "0 \<le> snd x \<and> 32 dvd fst x \<and> ih_start ?d \<le> fst x \<and>
      fst x + snd x + CHUNK \<le> ih_start ?d + ih_size ?d \<and> ic_magic (C2 (fst x)) = IPC_HEAP_CHUNK_FREE" if x: "x \<in> set ?new" for x
  proof (cases "x \<in> set (take_spec b n (z + un))")
    case True
    then have e: "x = (b + (z + un) + CHUNK, n - (z + un) - CHUNK)" "z + un + CHUNK < n"
      by (auto simp: take_spec_def split: if_splits)
    have "32 dvd (b + un + CHUNK) + z" using un(3) z(2) by (rule dvd_add)
    then have "32 dvd fst x" using e(1) by (simp add: algebra_simps)
    moreover have "fst x \<noteq> b + un" using e z by (simp add: CHUNK_def)
    moreover have "ic_magic (C1 (fst x)) = IPC_HEAP_CHUNK_FREE" using fm True by blast
    ultimately show ?thesis using e el z un unfolding C2 by (simp add: CHUNK_def)
  next
    case False
    then have xo: "x \<in> set us \<union> set vs" using x by auto
    have "fst x \<noteq> b" using cl xo by (auto simp: cell_list_def)
    moreover have "fst x \<noteq> b + z + un + CHUNK"
    proof -
      have "b + (z + un + CHUNK) \<notin> fst ` set (us @ (b, n) # vs)"
        by (rule inside_chunk [OF srt pos]) (use un z in \<open>simp_all add: CHUNK_def\<close>)
      moreover have "fst x \<in> fst ` set (us @ (b, n) # vs)" using xo by auto
      ultimately have "fst x \<noteq> b + (z + un + CHUNK)" by metis
      then show ?thesis by (simp add: add.assoc)
    qed
    moreover have "fst x \<noteq> b + un"
    proof -
      have "fst x \<in> fst ` set (us @ (b, n) # vs)" using xo by auto
      then show ?thesis using ins by metis
    qed
    ultimately show ?thesis using mg el xo unfolding C2 by simp
  qed
  ultimately show ?thesis using inv unfolding s' ipc_heap_inv_def by (simp add: Let_def)
qed


text \<open>An allocation: no chunk fits, or the best one is used.\<close>

lemma iosAlloc_result:
  assumes inv: "ipc_heap_inv s h fz" and sz: "0 < sz" "sz + 31 + ios_align k < 2 ^ 32" and k: "k < 32"
  shows "(iosAlloc h sz (2 ^ k) s = Some (None, s) \<and> (\<forall>x \<in> set fz. \<not> fits (ios_size sz) (ios_align k) x)) \<or>
    (\<exists>us b n vs un s'. fz = us @ (b, n) # vs \<and> un = unalign (ios_align k) (b + CHUNK) \<and>
       fits (ios_size sz) (ios_align k) (b, n) \<and>
       (\<forall>x \<in> set fz. fits (ios_size sz) (ios_align k) x \<longrightarrow> n \<le> snd x) \<and>
       iosAlloc h sz (2 ^ k) s = Some (Some (b + un + CHUNK), s') \<and>
       ipc_heap_inv s' h (us @ take_spec b n (ios_size sz + un) @ vs) \<and>
       real_chunk (b + un) (chunks s') = Some b \<and> ic_magic (chunks s' b) = IPC_HEAP_CHUNK_USED \<and>
       ic_size (chunks s' b) = (if n > ios_size sz + un + CHUNK then ios_size sz + un else n) \<and>
       ih_start (ipc_heaps s' h) = ih_start (ipc_heaps s h) \<and> ih_size (ipc_heaps s' h) = ih_size (ipc_heaps s h) \<and>
       (\<forall>x. x \<notin> insert (b + un) (fst ` set (take_spec b n (ios_size sz + un)) \<union> fst ` set fz) \<longrightarrow> chunks s' x = chunks s x) \<and>
       (\<exists>d. s' = s\<lparr>ipc_heaps := (ipc_heaps s)(h := d), chunks := chunks s'\<rparr>))"
proof -
  have h: "0 \<le> h" "h < IPC_HEAP_MAX" "0 < ih_start (ipc_heaps s h)"
    and cl: "cell_list (as_cells (chunks s)) (ih_head (ipc_heaps s h)) fz" and srt: "sorted_wrt igap fz"
    and el: "\<forall>x \<in> set fz. 0 \<le> snd x \<and> 32 dvd fst x \<and> 0 < fst x \<and> fst x + snd x + CHUNK < 2 ^ 32"
    using inv by (auto simp: ipc_heap_inv_def Let_def)
  have apos: "0 < ios_align k" by (simp add: ios_align_def)
  have zb: "0 \<le> ios_size sz" "ios_size sz + ios_align k < 2 ^ 32" "sz + 31 < 2 ^ 32"
    using ios_size_bounds [of sz] sz apos by linarith+
  obtain r where r: "scan (\<lambda>c. ic_next (chunks s c)) (fit_body (chunks s) (ios_size sz) (ios_align k))
      (ih_head (ipc_heaps s h)) None = Some r" "best_of (ios_size sz) (ios_align k) fz r"
    using best_chunk [OF inv zb(1,2) k] by blast
  note step = iosAlloc_scan [OF sz(1) zb(3) k h, unfolded r(1)]
  show ?thesis
  proof (cases r)
    case None
    then show ?thesis using step r(2) by (simp add: best_of_def)
  next
    case (Some b)
    then obtain n where n: "(b, n) \<in> set fz" "fits (ios_size sz) (ios_align k) (b, n)"
      "\<forall>x \<in> set fz. fits (ios_size sz) (ios_align k) x \<longrightarrow> n \<le> snd x"
      using r(2) by (auto simp: best_of_def)
    obtain us vs where fz: "fz = us @ (b, n) # vs" using n(1) by (meson split_list)
    define un where "un = unalign (ios_align k) (b + CHUNK)"
    have b: "0 \<le> b" "32 dvd b" "n + CHUNK < 2 ^ 32" using el n(1) by fastforce+
    note un = ios_unalign [OF b(1,2) k, folded un_def]
    have fit: "ios_size sz + un \<le> n" using n(2) by (simp add: fits_def un_def)
    have pos: "\<forall>x \<in> set (us @ (b, n) # vs). 0 \<le> snd x" using el unfolding fz by blast
    have nin: "b + ios_size sz + un + CHUNK \<notin> fst ` set (us @ (b, n) # vs)"
    proof (rule inside_chunk [OF srt [unfolded fz] pos])
      show "b < b + ios_size sz + un + CHUNK" "b + ios_size sz + un + CHUNK \<le> b + n + CHUNK"
        using un(1) zb(1) fit by (simp_all add: CHUNK_def)
    qed
    have un0: "0 \<le> un" using un(1) by simp
    obtain hd1 C1 where u: "unlink_chunk b (ih_head (ipc_heaps s h))
        (set_magic b IPC_HEAP_CHUNK_USED (split_chunk b (ios_size sz) un (chunks s))) = (hd1, C1)"
      "cell_list (as_cells C1) hd1 (us @ take_spec b n (ios_size sz + un) @ vs)"
      "ic_magic (C1 b) = IPC_HEAP_CHUNK_USED"
      "ic_size (C1 b) = (if n > ios_size sz + un + CHUNK then ios_size sz + un else n)"
      "\<forall>x \<in> set (take_spec b n (ios_size sz + un)). ic_magic (C1 (fst x)) = IPC_HEAP_CHUNK_FREE"
      "\<forall>x. x \<noteq> b \<and> x \<noteq> b + ios_size sz + un + CHUNK \<longrightarrow> ic_magic (C1 x) = ic_magic (chunks s x)"
      using split_unlink_list [OF cl [unfolded fz] nin zb(1) un0 fit b(3), of IPC_HEAP_CHUNK_USED] by blast
    note fr = split_unlink_frame [OF cl [unfolded fz] u(1) zb(1) un0 fit b(3), folded fz]
    define C2 where "C2 = set_iprev (b + un) (Some b) (set_magic (b + un) IPC_HEAP_CHUNK_FORALIGN C1)"
    define s' where "s' = s\<lparr>ipc_heaps := (ipc_heaps s)(h := (ipc_heaps s h)\<lparr>ih_head := hd1\<rparr>), chunks := C2\<rparr>"
    have "iosAlloc h sz (2 ^ k) s = Some (Some (b + un + CHUNK), s')"
      using un(1) by (simp add: step Some un_def [symmetric] Let_def u(1) s'_def C2_def)
    moreover have "ipc_heap_inv s' h (us @ take_spec b n (ios_size sz + un) @ vs)"
      by (rule iosAlloc_keeps [OF inv [unfolded fz] zb(1) ios_size_bounds(3) un(1) fit un(4) u(2,5,6) C2_def s'_def])
    moreover have "real_chunk (b + un) (chunks s') = Some b" "ic_magic (chunks s' b) = IPC_HEAP_CHUNK_USED"
      "ic_size (chunks s' b) = ic_size (C1 b)"
      "ih_start (ipc_heaps s' h) = ih_start (ipc_heaps s h)" "ih_size (ipc_heaps s' h) = ih_size (ipc_heaps s h)"
      using u(3) un(1) by (simp_all add: s'_def C2_def real_chunk_def)
    moreover have "chunks s' x = chunks s x"
      if "x \<notin> insert (b + un) (fst ` set (take_spec b n (ios_size sz + un)) \<union> fst ` set fz)" for x
      using that fr [of x] by (simp add: s'_def C2_def chunk_other)
    moreover have "\<exists>d. s' = s\<lparr>ipc_heaps := (ipc_heaps s)(h := d), chunks := chunks s'\<rparr>"
      unfolding s'_def by (rule exI [of _ "(ipc_heaps s h)\<lparr>ih_head := hd1\<rparr>"]) simp
    ultimately show ?thesis using fz n(2,3) un_def u(4)
      by (intro disjI2 exI [of _ us] exI [of _ b] exI [of _ n] exI [of _ vs] exI [of _ un] exI [of _ s']) simp
  qed
qed


section \<open>Release\<close>

fun imerge :: "int \<Rightarrow> int \<Rightarrow> (int \<times> int) list \<Rightarrow> (int \<times> int) list" where
  "imerge c n [] = [(c, n)]"
| "imerge c n ((b, m) # r) =
     (if b = u32 (c + n + CHUNK) then (c, u32 (n + (m + CHUNK))) # r else (c, n) # (b, m) # r)"

lemma coalesce_list:
  assumes l: "cell_list (as_cells C) l (us @ (c, n) # vs)"
  shows "cell_list (as_cells (iosCoalesceChunk (Some c) C)) l (us @ imerge c n vs) \<and>
    (\<forall>x. ic_magic (iosCoalesceChunk (Some c) C x) = ic_magic (C x)) \<and>
    (\<forall>x. x \<notin> fst ` set vs \<longrightarrow> ic_prev (iosCoalesceChunk (Some c) C x) = ic_prev (C x))"
proof (cases vs)
  case Nil
  have "ic_next (C c) = None" using cell_list_neighbours(2) [OF l] Nil by simp
  then show ?thesis using l Nil by (simp add: iosCoalesceChunk_def)
next
  case (Cons v ws)
  obtain b m where v: "v = (b, m)" by (cases v)
  have nb: "ic_next (C c) = Some b" "ic_size (C c) = n" "ic_size (C b) = m"
    using cell_list_neighbours(2,3) [OF l] cell_list_neighbours(3) [of "as_cells C" l "us @ [(c, n)]" b m ws] l Cons v
    by simp_all
  have bn: "ic_next (C b) = hd_opt (map fst ws)"
    using cell_list_neighbours(2) [of "as_cells C" l "us @ [(c, n)]" b m ws] l Cons v by simp
  show ?thesis
  proof (cases "b = u32 (c + n + CHUNK)")
    case False
    then show ?thesis using l Cons v nb by (simp add: iosCoalesceChunk_def)
  next
    case True
    then show ?thesis using l Cons v nb bn
      by (cases ws) (auto simp: iosCoalesceChunk_def cell_list_def Let_def dlseg_append)
  qed
qed

lemma coalesce_frame:
  assumes l: "cell_list (as_cells C) l (us @ (c, n) # vs)" and x: "x \<notin> insert c (fst ` set vs)"
  shows "iosCoalesceChunk (Some c) C x = C x"
proof -
  have nb: "ic_next (C c) = hd_opt (map fst vs)"
    using cell_list_neighbours(2) [OF l] by simp
  have nb2: "ic_next (C (fst v)) = hd_opt (map fst ws)" if "vs = v # ws" for v ws
    using cell_list_neighbours(2) [of "as_cells C" l "us @ [(c, n)]" "fst v" "snd v" ws] l that by simp
  show ?thesis
    using nb nb2 x
    by (cases vs; cases "tl vs")
      (auto simp: iosCoalesceChunk_def Let_def chunk_other set_opt_def split: option.splits)
qed

text \<open>Where the loop of \<^verbatim>\<open>iosFree\<close> stops: the last chunk in front, or the head.\<close>

definition free_after :: "int \<Rightarrow> (int \<times> int) list \<Rightarrow> int option" where
  "free_after c fz = (let us = takeWhile (\<lambda>x. fst x < c) fz in
     if us = [] then hd_opt (map fst fz) else Some (fst (last us)))"

lemma link_free_list:
  assumes l: "cell_list (as_cells C) hd0 (us @ vs)" and c: "c \<notin> fst ` set (us @ vs)"
    and it: "it = (if us = [] then hd_opt (map fst vs) else Some (fst (last us)))"
    and us: "us \<noteq> [] \<longrightarrow> fst (last us) < c" and vs: "vs \<noteq> [] \<longrightarrow> c < fst (hd vs)"
  shows "\<exists>hd1 C'. link_free it c hd0 C = (hd1, C') \<and>
    cell_list (as_cells C') hd1 (us @ (c, ic_size (C c)) # vs) \<and>
    (\<forall>x. ic_magic (C' x) = ic_magic (C x)) \<and> ic_prev (C' c) = last_opt (map fst us) \<and>
    (\<forall>x. x \<noteq> c \<and> x \<notin> fst ` set vs \<longrightarrow> ic_prev (C' x) = ic_prev (C x))"
proof -
  have d: "distinct (map fst us @ map fst vs)" using l by (simp add: cell_list_def)
  obtain t where t: "dlseg (clinks (as_cells C)) hd0 None (map fst us @ map fst vs) t None"
    using l by (auto simp: cell_list_def)
  show ?thesis
  proof (cases us rule: rev_cases)
    case Nil
    then show ?thesis
      using l t d c it vs
      by (cases vs) (auto simp: link_free_def cell_list_def Let_def image_Un)
  next
    case (snoc ws w)
    then show ?thesis
      using l t d c it us vs
      by (cases vs) (auto simp: link_free_def cell_list_def Let_def dlseg_append image_Un)
  qed
qed

lemma link_free_frame:
  assumes l: "cell_list (as_cells C) hd0 (us @ vs)" and c: "c \<notin> fst ` set (us @ vs)"
    and it: "it = (if us = [] then hd_opt (map fst vs) else Some (fst (last us)))"
    and us: "us \<noteq> [] \<longrightarrow> fst (last us) < c" and vs: "vs \<noteq> [] \<longrightarrow> c < fst (hd vs)"
    and f: "link_free it c hd0 C = (hd1, C')" and x: "x \<notin> insert c (fst ` set (us @ vs))"
  shows "C' x = C x"
proof (cases us rule: rev_cases)
  case Nil
  have "hd0 = hd_opt (map fst vs)" using cell_list_hd [OF l] Nil by simp
  then show ?thesis
    using f it Nil vs x by (cases vs) (auto simp: link_free_def Let_def chunk_other)
next
  case (snoc ws w)
  have "ic_next (C (fst w)) = hd_opt (map fst vs)"
    using cell_list_neighbours(2) [of "as_cells C" hd0 ws "fst w" "snd w" vs] l snoc by simp
  then show ?thesis
    using f it snoc us x by (cases vs) (auto simp: link_free_def Let_def chunk_other)
qed

lemma imerge_ok:
  assumes "0 \<le> n" "0 \<le> c" "\<forall>v \<in> set vs. 0 \<le> snd v \<and> c + n + CHUNK \<le> fst v \<and> fst v + snd v + CHUNK \<le> hi"
    "c + n + CHUNK \<le> hi" "hi < 2 ^ 32" "sorted_wrt igap vs"
  shows "\<exists>n' vs'. imerge c n vs = (c, n') # vs' \<and> n \<le> n' \<and> set vs' \<subseteq> set vs \<and>
    sorted_wrt igap ((c, n') # vs') \<and> c + n' + CHUNK \<le> hi \<and>
    n' + CHUNK + sum_list (map (\<lambda>x. snd x + CHUNK) vs') = n + CHUNK + sum_list (map (\<lambda>x. snd x + CHUNK) vs)"
proof (cases vs)
  case Nil
  then show ?thesis using assms by simp
next
  case (Cons v ws)
  obtain b m where v: "v = (b, m)" by (cases v)
  have bm: "0 \<le> m" "c + n + CHUNK \<le> b" "b + m + CHUNK \<le> hi" "sorted_wrt igap ws" "\<forall>x \<in> set ws. igap (b, m) x"
    using assms Cons v by auto
  have u: "u32 (c + n + CHUNK) = c + n + CHUNK" using assms by (intro u32_id) (auto simp: CHUNK_def)
  show ?thesis
  proof (cases "b = c + n + CHUNK")
    case False
    then have lt: "c + n + CHUNK < b" using bm by simp
    have "igap (c, n) x" if "x \<in> set vs" for x
      using that Cons v lt bm(1,5) by (auto simp: igap_def CHUNK_def)
    then show ?thesis using False u Cons v assms(4,6) by auto
  next
    case True
    have "u32 (n + (m + CHUNK)) = n + (m + CHUNK)"
      using bm assms True by (intro u32_id) (auto simp: CHUNK_def)
    moreover have "\<forall>x \<in> set ws. igap (c, n + (m + CHUNK)) x"
      using bm(5) True by (simp add: igap_def algebra_simps)
    ultimately show ?thesis
      using True u Cons v bm by (auto simp: CHUNK_def)
  qed
qed


lemma seek_after:
  assumes l: "cell_list (as_cells C) l (us @ vs)" and us: "\<forall>x \<in> set us. fst x < c" and vs: "\<forall>x \<in> set vs. c < fst x"
  shows "seek (\<lambda>c. ic_next (C c)) (\<lambda>x. case ic_next (C x) of None \<Rightarrow> True | Some n \<Rightarrow> n > c) l =
    Some (if us = [] then hd_opt (map fst vs) else Some (fst (last us)))"
proof -
  let ?stop = "\<lambda>x. case ic_next (C x) of None \<Rightarrow> True | Some n \<Rightarrow> n > c"
  have sk: "seek (\<lambda>c. ic_next (C c)) ?stop l = Some (map_option fst (find (?stop \<circ> fst) (us @ vs)))"
    using seek_cells [OF l, of ?stop] by simp
  show ?thesis
  proof (cases us rule: rev_cases)
    case Nil
    show ?thesis
    proof (cases vs)
      case (Cons v ws)
      have "ic_next (C (fst v)) = hd_opt (map fst ws)"
        using cell_list_neighbours(2) [of "as_cells C" l "[]" "fst v" "snd v" ws] l Nil Cons by simp
      then have "?stop (fst v)" using vs Cons by (cases ws) auto
      then show ?thesis using sk Nil Cons by simp
    qed (use sk Nil in simp)
  next
    case (snoc ws w)
    have "ic_next (C (fst w)) = hd_opt (map fst vs)"
      using cell_list_neighbours(2) [of "as_cells C" l ws "fst w" "snd w" vs] l snoc by simp
    then have w: "?stop (fst w)" using vs by (cases vs) auto
    have "\<not> ?stop (fst x)" if "x \<in> set ws" for x
    proof -
      have "\<exists>as bs. ws = as @ x # bs" using that by (rule split_list)
      then obtain as bs where ab: "ws = as @ x # bs" by blast
      then have "ic_next (C (fst x)) = hd_opt (map fst (bs @ w # vs))"
        using cell_list_neighbours(2) [of "as_cells C" l as "fst x" "snd x" "bs @ w # vs"] l snoc by simp
      then show ?thesis using us snoc ab by (cases bs) auto
    qed
    then have "find (?stop \<circ> fst) (us @ vs) = Some w"
      unfolding find_split using w snoc by (intro exI [of _ ws] exI [of _ vs]) auto
    then show ?thesis using sk snoc by simp
  qed
qed

text \<open>A used chunk of the heap: marked, aligned, inside, apart from the free chunks.\<close>

definition used_chunk :: "'a ipc_state_scheme \<Rightarrow> int \<Rightarrow> (int \<times> int) list \<Rightarrow> int \<Rightarrow> int \<Rightarrow> bool" where
  "used_chunk s h fz c n \<longleftrightarrow> ic_magic (chunks s c) = IPC_HEAP_CHUNK_USED \<and> ic_size (chunks s c) = n \<and>
     0 \<le> n \<and> 32 dvd c \<and> ih_start (ipc_heaps s h) \<le> c \<and>
     c + n + CHUNK \<le> ih_start (ipc_heaps s h) + ih_size (ipc_heaps s h) \<and>
     (\<forall>x \<in> set fz. fst x + snd x + CHUNK \<le> c \<or> c + n + CHUNK \<le> fst x)"

definition ipc_bytes :: "(int \<times> int) list \<Rightarrow> int" where
  "ipc_bytes fz = sum_list (map (\<lambda>x. snd x + CHUNK) fz)"

lemma ipc_bytes_simps [simp]:
  "ipc_bytes [] = 0" "ipc_bytes (x # xs) = snd x + CHUNK + ipc_bytes xs"
  "ipc_bytes (xs @ ys) = ipc_bytes xs + ipc_bytes ys"
  by (simp_all add: ipc_bytes_def)

text \<open>Linking and the two merges, on lists.\<close>

definition ifree_spec :: "int \<Rightarrow> int \<Rightarrow> (int \<times> int) list \<Rightarrow> (int \<times> int) list \<Rightarrow> (int \<times> int) list" where
  "ifree_spec c n us vs = (if us = [] then imerge c n vs
     else butlast us @ imerge (fst (last us)) (snd (last us)) (imerge c n vs))"

text \<open>A range of addresses clear of the chunks before a release, and of the released chunk, is
  clear of the chunks after it.\<close>

definition clear_of :: "int \<Rightarrow> int \<Rightarrow> int \<times> int \<Rightarrow> bool" where
  "clear_of lo hi x \<longleftrightarrow> fst x + snd x + CHUNK \<le> lo \<or> hi \<le> fst x"

lemma imerge_clear:
  assumes "0 \<le> n" "0 \<le> c" "c + n + CHUNK < 2 ^ 32" "\<forall>v\<in>set vs. 0 \<le> snd v" "lo < hi"
    and "clear_of lo hi (c, n)" "\<forall>v\<in>set vs. clear_of lo hi v"
  shows "\<forall>x\<in>set (imerge c n vs). 0 \<le> snd x \<and> clear_of lo hi x"
proof (cases vs)
  case (Cons v ws)
  obtain b m where v: "v = (b, m)" by (cases v)
  have u: "u32 (c + n + CHUNK) = c + n + CHUNK" using assms by (intro u32_id) (auto simp: CHUNK_def)
  have "0 \<le> u32 (n + (m + CHUNK))" "u32 (n + (m + CHUNK)) \<le> n + (m + CHUNK)"
    using assms Cons v by (auto simp: u32_def CHUNK_def intro: zmod_le_nonneg_dividend)
  then show ?thesis using assms Cons v u by (auto simp: clear_of_def)
qed (use assms in \<open>simp add: clear_of_def\<close>)

lemma ifree_spec_clear:
  assumes "0 \<le> n" "0 \<le> c" "c + n + CHUNK < 2 ^ 32" "lo < hi" "clear_of lo hi (c, n)"
    and el: "\<forall>v\<in>set (us @ vs). 0 \<le> snd v \<and> 0 \<le> fst v \<and> fst v + snd v + CHUNK < 2 ^ 32 \<and> clear_of lo hi v"
  shows "\<forall>x\<in>set (ifree_spec c n us vs). clear_of lo hi x"
proof -
  have m: "\<forall>x\<in>set (imerge c n vs). 0 \<le> snd x \<and> clear_of lo hi x"
    by (rule imerge_clear) (use assms in auto)
  show ?thesis
  proof (cases us rule: rev_cases)
    case (snoc ws w)
    have "\<forall>x\<in>set (imerge (fst w) (snd w) (imerge c n vs)). 0 \<le> snd x \<and> clear_of lo hi x"
      by (rule imerge_clear) (use el m assms(4) snoc in auto)
    then show ?thesis using el snoc by (auto simp: ifree_spec_def)
  qed (use m in \<open>simp add: ifree_spec_def\<close>)
qed

lemma ifree_spec_ok:
  assumes srt: "sorted_wrt igap (us @ vs)" and n: "0 \<le> n" "0 \<le> c" "c + n + CHUNK \<le> hi" "hi < 2 ^ 32"
    and el: "\<forall>x \<in> set (us @ vs). 0 \<le> snd x \<and> 0 \<le> fst x \<and> fst x + snd x + CHUNK \<le> hi"
    and us: "\<forall>x \<in> set us. fst x + snd x + CHUNK \<le> c" and vs: "\<forall>x \<in> set vs. c + n + CHUNK \<le> fst x"
  shows "sorted_wrt igap (ifree_spec c n us vs) \<and> ipc_bytes (ifree_spec c n us vs) = ipc_bytes (us @ vs) + n + CHUNK \<and>
    (\<forall>x \<in> set (ifree_spec c n us vs). 0 \<le> snd x \<and> fst x + snd x + CHUNK \<le> hi) \<and>
    fst ` set (ifree_spec c n us vs) \<subseteq> insert c (fst ` set (us @ vs))"
proof -
  have s: "sorted_wrt igap us" "sorted_wrt igap vs" "\<forall>x \<in> set us. \<forall>y \<in> set vs. igap x y"
    using srt by (simp_all add: sorted_wrt_append)
  obtain n' vs' where m: "imerge c n vs = (c, n') # vs'" "n \<le> n'" "set vs' \<subseteq> set vs"
    "sorted_wrt igap ((c, n') # vs')" "c + n' + CHUNK \<le> hi"
    "n' + CHUNK + ipc_bytes vs' = n + CHUNK + ipc_bytes vs"
    using imerge_ok [OF n(1,2) _ n(3,4) s(2)] el vs unfolding ipc_bytes_def by auto
  show ?thesis
  proof (cases us rule: rev_cases)
    case Nil
    then show ?thesis using m n(1) el by (auto simp: ifree_spec_def)
  next
    case (snoc ws w)
    obtain p d where w: "w = (p, d)" by (cases w)
    have pd: "0 \<le> d" "0 \<le> p" "p + d + CHUNK \<le> hi" "p + d + CHUNK \<le> c"
      using el us snoc w by simp_all
    have "\<forall>v \<in> set ((c, n') # vs'). 0 \<le> snd v \<and> p + d + CHUNK \<le> fst v \<and> fst v + snd v + CHUNK \<le> hi"
    proof (intro ballI)
      fix v assume "v \<in> set ((c, n') # vs')"
      then consider "v = (c, n')" | "v \<in> set vs" using m(3) by auto
      then show "0 \<le> snd v \<and> p + d + CHUNK \<le> fst v \<and> fst v + snd v + CHUNK \<le> hi"
      proof cases
        case 1
        then show ?thesis using pd(4) m(2,5) n(1) by simp
      next
        case 2
        then have "0 \<le> snd v" "c + n + CHUNK \<le> fst v" "fst v + snd v + CHUNK \<le> hi" using el vs by auto
        then show ?thesis using pd(4) n(1) by (simp add: CHUNK_def)
      qed
    qed
    from imerge_ok [OF pd(1,2) this pd(3) n(4) m(4)]
    obtain d' zs where q: "imerge p d ((c, n') # vs') = (p, d') # zs" "d \<le> d'" "set zs \<subseteq> set ((c, n') # vs')"
      "sorted_wrt igap ((p, d') # zs)" "p + d' + CHUNK \<le> hi"
      "d' + CHUNK + ipc_bytes zs = d + CHUNK + ipc_bytes ((c, n') # vs')"
      unfolding ipc_bytes_def by auto
    have r: "ifree_spec c n us vs = ws @ (p, d') # zs" using snoc w m(1) q(1) by (simp add: ifree_spec_def)
    have "igap x y" if "x \<in> set ws" "y \<in> set ((p, d') # zs)" for x y
    proof -
      have xp: "igap x (p, d)" "0 \<le> d" using s(1) that(1) snoc w pd(1) by (auto simp: sorted_wrt_append)
      show ?thesis
      proof (cases "y = (p, d')")
        case False
        then have "igap (p, d') y" using q(4) that(2) by auto
        then show ?thesis using xp q(2) by (simp add: igap_def CHUNK_def)
      qed (use xp in \<open>simp add: igap_def\<close>)
    qed
    moreover have "sorted_wrt igap ws" using s(1) snoc by (simp add: sorted_wrt_append)
    ultimately have "sorted_wrt igap (ifree_spec c n us vs)" unfolding r using q(4) by (simp add: sorted_wrt_append)
    moreover have "ipc_bytes (ifree_spec c n us vs) = ipc_bytes (us @ vs) + n + CHUNK"
      unfolding r using q(6) m(6) snoc w by simp
    moreover have "\<forall>x \<in> set (ifree_spec c n us vs). 0 \<le> snd x \<and> fst x + snd x + CHUNK \<le> hi"
    proof (intro ballI)
      fix x assume "x \<in> set (ifree_spec c n us vs)"
      then consider "x = (p, d')" | "x = (c, n')" | "x \<in> set (us @ vs)"
        unfolding r using q(3) m(3) snoc by auto
      then show "0 \<le> snd x \<and> fst x + snd x + CHUNK \<le> hi"
        by cases (use q(2,5) pd(1) m(2,5) n(1) el in auto)
    qed
    moreover have "fst ` set (ifree_spec c n us vs) \<subseteq> insert c (fst ` set (us @ vs))"
    proof -
      have "fst ` set zs \<subseteq> fst ` insert (c, n') (set vs)" by (rule image_mono) (use q(3) m(3) in auto)
      then show ?thesis unfolding r using snoc w by auto
    qed
    ultimately show ?thesis by blast
  qed
qed


lemma imerge_fst: "fst ` set (imerge c n vs) \<subseteq> insert c (fst ` set vs)"
  by (cases vs) (auto split: if_splits)

text \<open>Release on lists: the state after a valid release, and the headers it does not touch.\<close>

lemma iosFree_result:
  assumes inv: "ipc_heap_inv s h fz" and u: "used_chunk s h fz c n" and rc: "real_chunk (p - CHUNK) (chunks s) = Some c"
    and p: "ih_start (ipc_heaps s h) + CHUNK \<le> p" "p \<le> ih_start (ipc_heaps s h) + ih_size (ipc_heaps s h)"
  shows "\<exists>s' fz'. iosFree h (Some p) s = Some (IPC_RESULT_OK, s') \<and> ipc_heap_inv s' h fz' \<and>
    ipc_bytes fz' = ipc_bytes fz + n + CHUNK \<and> ic_magic (chunks s' c) = IPC_HEAP_CHUNK_FREE \<and>
    ih_start (ipc_heaps s' h) = ih_start (ipc_heaps s h) \<and> ih_size (ipc_heaps s' h) = ih_size (ipc_heaps s h) \<and>
    (\<forall>x. x \<noteq> c \<longrightarrow> ic_magic (chunks s' x) = ic_magic (chunks s x)) \<and>
    (\<forall>x. x \<noteq> c \<and> x \<notin> fst ` set fz \<longrightarrow> chunks s' x = chunks s x) \<and>
    (\<exists>d. s' = s\<lparr>ipc_heaps := (ipc_heaps s)(h := d), chunks := chunks s'\<rparr>) \<and>
    (\<forall>lo hi. lo < hi \<and> clear_of lo hi (c, n) \<and> (\<forall>x \<in> set fz. clear_of lo hi x) \<longrightarrow> (\<forall>x \<in> set fz'. clear_of lo hi x))"
proof -
  let ?d = "ipc_heaps s h"
  define us where "us = takeWhile (\<lambda>x. fst x < c) fz"
  define vs where "vs = dropWhile (\<lambda>x. fst x < c) fz"
  have fz: "us @ vs = fz" by (simp add: us_def vs_def)
  define C where "C = set_magic c IPC_HEAP_CHUNK_FREE (chunks s)"
  have h: "0 \<le> h" "h < IPC_HEAP_MAX" "0 < ih_start ?d" "ih_start ?d + ih_size ?d < 2 ^ 32"
    and cl: "cell_list (as_cells (chunks s)) (ih_head ?d) fz" and srt: "sorted_wrt igap fz"
    and el: "\<forall>x \<in> set fz. 0 \<le> snd x \<and> 32 dvd fst x \<and> ih_start ?d \<le> fst x \<and>
      fst x + snd x + CHUNK \<le> ih_start ?d + ih_size ?d \<and> ic_magic (chunks s (fst x)) = IPC_HEAP_CHUNK_FREE"
    using inv by (auto simp: ipc_heap_inv_def Let_def)
  have cu: "ic_magic (chunks s c) = IPC_HEAP_CHUNK_USED" "ic_size (chunks s c) = n" "0 \<le> n" "32 dvd c"
    "ih_start ?d \<le> c" "c + n + CHUNK \<le> ih_start ?d + ih_size ?d"
    "\<forall>x \<in> set fz. fst x + snd x + CHUNK \<le> c \<or> c + n + CHUNK \<le> fst x"
    using u by (simp_all add: used_chunk_def)
  have lt: "fst x + snd x + CHUNK \<le> c" "fst x < c" if "x \<in> set us" for x
  proof -
    have "fst x < c" "x \<in> set fz" using that unfolding us_def by (auto dest: set_takeWhileD)
    then show "fst x + snd x + CHUNK \<le> c" "fst x < c" using cu(3,7) by (auto simp: CHUNK_def)
  qed
  have ge: "c + n + CHUNK \<le> fst x" "c < fst x" if xv: "x \<in> set vs" for x
  proof -
    obtain v ws where v: "vs = v # ws" using xv by (cases vs) auto
    have "\<not> fst v < c" using hd_dropWhile [of "\<lambda>x. fst x < c" fz] v unfolding vs_def by force
    moreover have vf: "v \<in> set fz" using v fz by auto
    ultimately have cv: "c + n + CHUNK \<le> fst v" using cu(7) el by (fastforce simp: CHUNK_def)
    have "x = v \<or> igap v x" using srt xv v unfolding fz [symmetric] by (auto simp: sorted_wrt_append)
    then show "c + n + CHUNK \<le> fst x" using cv el vf by (auto simp: igap_def CHUNK_def)
    then show "c < fst x" using cu(3) by (simp add: CHUNK_def)
  qed
  have cn: "c \<notin> fst ` set (us @ vs)" using lt(2) ge(2) by force
  have clC: "cell_list (as_cells C) (ih_head ?d) (us @ vs)" using cl fz unfolding C_def by simp
  define it where "it = (if us = [] then hd_opt (map fst vs) else Some (fst (last us)))"
  have sk: "seek (\<lambda>c. ic_next (C c)) (\<lambda>x. case ic_next (C x) of None \<Rightarrow> True | Some n \<Rightarrow> n > c) (ih_head ?d) = Some it"
    unfolding it_def by (rule seek_after [OF clC]) (use lt ge in auto)
  obtain hd1 C1 where k1: "link_free it c (ih_head ?d) C = (hd1, C1)"
    "cell_list (as_cells C1) hd1 (us @ (c, ic_size (C c)) # vs)" "\<forall>x. ic_magic (C1 x) = ic_magic (C x)"
    "ic_prev (C1 c) = last_opt (map fst us)"
    "\<forall>x. x \<noteq> c \<and> x \<notin> fst ` set vs \<longrightarrow> ic_prev (C1 x) = ic_prev (C x)"
    using link_free_list [OF clC cn it_def] lt ge by (metis last_in_set hd_in_set)
  have nC: "ic_size (C c) = n" using cu(2) by (simp add: C_def)
  note k1' = k1(2) [unfolded nC]
  define C2 where "C2 = iosCoalesceChunk (Some c) C1"
  note c2 = coalesce_list [OF k1', folded C2_def]
  define C3 where "C3 = iosCoalesceChunk (ic_prev (C2 c)) C2"
  have pv: "ic_prev (C2 c) = last_opt (map fst us)" using c2 k1(4) cn by auto
  have c3: "cell_list (as_cells C3) hd1 (ifree_spec c n us vs) \<and> (\<forall>x. ic_magic (C3 x) = ic_magic (C2 x)) \<and>
    (\<forall>x. x \<notin> insert c (fst ` set vs) \<longrightarrow> ic_prev (C3 x) = ic_prev (C2 x))"
  proof (cases us rule: rev_cases)
    case Nil
    then show ?thesis using c2 pv unfolding C3_def by (simp add: iosCoalesceChunk_def ifree_spec_def)
  next
    case (snoc ws w)
    have "cell_list (as_cells C2) hd1 (ws @ (fst w, snd w) # imerge c n vs)" using c2 snoc by simp
    note c = coalesce_list [OF this]
    have "x \<notin> fst ` set (imerge c n vs)" if "x \<notin> insert c (fst ` set vs)" for x
      using imerge_fst [of c n vs] that by blast
    then show ?thesis
      using c pv snoc unfolding C3_def by (simp add: ifree_spec_def)
  qed
  define s' where "s' = s\<lparr>ipc_heaps := (ipc_heaps s)(h := ?d\<lparr>ih_head := hd1\<rparr>), chunks := C3\<rparr>"
  have run: "iosFree h (Some p) s = Some (IPC_RESULT_OK, s')"
    using h p rc cu(1) sk k1(1)
    by (simp add: iosFree_def OSDisableInterrupts_def OSRestoreInterrupts_def Let_def C_def [symmetric]
        C2_def [symmetric] C3_def [symmetric] s'_def)
  have ok: "sorted_wrt igap (ifree_spec c n us vs) \<and> ipc_bytes (ifree_spec c n us vs) = ipc_bytes (us @ vs) + n + CHUNK \<and>
    (\<forall>x \<in> set (ifree_spec c n us vs). 0 \<le> snd x \<and> fst x + snd x + CHUNK \<le> ih_start ?d + ih_size ?d) \<and>
    fst ` set (ifree_spec c n us vs) \<subseteq> insert c (fst ` set (us @ vs))"
    by (rule ifree_spec_ok) (use srt fz cu h el lt(1) ge(1) in auto)
  have mg: "ic_magic (C3 x) = (if x = c then IPC_HEAP_CHUNK_FREE else ic_magic (chunks s x))" for x
    using c3 c2 k1(3) by (simp add: C_def)
  have new: "ipc_heap_inv s' h (ifree_spec c n us vs)"
  proof -
    have "32 dvd fst x \<and> ih_start ?d \<le> fst x \<and> ic_magic (C3 (fst x)) = IPC_HEAP_CHUNK_FREE"
      if "x \<in> set (ifree_spec c n us vs)" for x
    proof -
      have "fst x = c \<or> fst x \<in> fst ` set fz" using ok that fz by auto
      then show ?thesis using el cu(4,5) mg by auto
    qed
    then show ?thesis using h c3 ok by (simp add: ipc_heap_inv_def Let_def s'_def)
  qed
  have frame: "chunks s' x = chunks s x" if x: "x \<noteq> c" "x \<notin> fst ` set fz" for x
  proof -
    have v: "x \<notin> insert c (fst ` set vs)" "x \<notin> insert c (fst ` set (us @ vs))" using x fz by auto
    have e1: "C1 x = C x" using link_free_frame [OF clC cn it_def _ _ k1(1) v(2)] lt ge by (metis last_in_set hd_in_set)
    have e2: "C2 x = C1 x" unfolding C2_def by (rule coalesce_frame [OF k1' v(1)])
    have "C3 x = C2 x"
    proof (cases us rule: rev_cases)
      case Nil
      then show ?thesis using pv unfolding C3_def by (simp add: iosCoalesceChunk_def)
    next
      case (snoc ws w)
      have "cell_list (as_cells C2) hd1 (ws @ (fst w, snd w) # imerge c n vs)" using c2 snoc by simp
      moreover have "x \<notin> insert (fst w) (fst ` set (imerge c n vs))"
        using imerge_fst [of c n vs] v snoc by auto
      ultimately have "iosCoalesceChunk (Some (fst w)) C2 x = C2 x" by (rule coalesce_frame)
      then show ?thesis using pv snoc unfolding C3_def by simp
    qed
    then show ?thesis using e1 e2 x(1) by (simp add: s'_def C_def chunk_other)
  qed
  have rest: "\<exists>d. s' = s\<lparr>ipc_heaps := (ipc_heaps s)(h := d), chunks := chunks s'\<rparr>"
    unfolding s'_def by (rule exI [of _ "?d\<lparr>ih_head := hd1\<rparr>"]) simp
  have clear: "\<forall>x \<in> set (ifree_spec c n us vs). clear_of lo hi x"
    if "lo < hi \<and> clear_of lo hi (c, n) \<and> (\<forall>x \<in> set fz. clear_of lo hi x)" for lo hi
  proof (rule ifree_spec_clear)
    show "c + n + CHUNK < 2 ^ 32" using cu(6) h(4) by simp
    show "\<forall>v\<in>set (us @ vs). 0 \<le> snd v \<and> 0 \<le> fst v \<and> fst v + snd v + CHUNK < 2 ^ 32 \<and> clear_of lo hi v"
      using that el h(3,4) fz by auto
  qed (use that cu(3,5) h(3) in auto)
  have bytes: "ipc_bytes (ifree_spec c n us vs) = ipc_bytes fz + n + CHUNK" using ok fz by simp
  have magic: "ic_magic (chunks s' c) = IPC_HEAP_CHUNK_FREE" "x \<noteq> c \<Longrightarrow> ic_magic (chunks s' x) = ic_magic (chunks s x)" for x
    using mg by (simp_all add: s'_def)
  have "ih_start (ipc_heaps s' h) = ih_start ?d" "ih_size (ipc_heaps s' h) = ih_size ?d" by (simp_all add: s'_def)
  with run new bytes magic frame rest clear show ?thesis
    by (intro exI [of _ s'] exI [of _ "ifree_spec c n us vs"]) blast
qed


section \<open>Properties\<close>

text \<open>A new heap is one free chunk.\<close>

lemma iosCreateHeap_inv:
  assumes "iosCreateHeap base sz s = Some (h, s')" "0 \<le> h" "0 < base" "CHUNK \<le> sz" "base + sz < 2 ^ 32"
  shows "ipc_heap_inv s' h [(base, sz - CHUNK)]"
proof -
  have d: "32 dvd base"
    using assms(1,2) by (auto simp: iosCreateHeap_def OSDisableInterrupts_def IPC_RESULT_INVALID_INTERNAL_def
        dvd_eq_mod_eq_0 split: if_splits)
  obtain i where i: "find (\<lambda>i. ih_start (ipc_heaps s (int i)) = 0) [0..<nat IPC_HEAP_MAX] = Some i" "h = int i"
    using assms(1-3) d by (auto simp: iosCreateHeap_def OSDisableInterrupts_def IPC_RESULT_CONN_MAX_INTERNAL_def
        Let_def split: option.splits)
  have "i < nat IPC_HEAP_MAX"
    using i(1) by (auto simp: find_Some_iff)
  then have "h < IPC_HEAP_MAX" using i(2) by simp
  moreover have "u32 (sz - CHUNK) = sz - CHUNK" using assms(3-5) by (intro u32_id) (auto simp: CHUNK_def)
  ultimately show ?thesis
    using assms d i by (auto simp: iosCreateHeap_def OSDisableInterrupts_def OSRestoreInterrupts_def
        ipc_heap_inv_def cell_list_def Let_def)
qed

definition ipc_zero :: ipc_state where
  "ipc_zero = \<lparr>irq_enabled = True, ipc_heaps = \<lambda>_. \<lparr>ih_start = 0, ih_size = 0, ih_head = None\<rparr>,
     chunks = \<lambda>_. \<lparr>ic_magic = 0, ic_size = 0, ic_prev = None, ic_next = None\<rparr>\<rparr>"

definition demo_ipc :: ipc_state where
  "demo_ipc = snd (the (iosCreateHeap 0x93400000 0x1000 ipc_zero))"

lemma demo_find: "find (\<lambda>i. ih_start (ipc_heaps ipc_zero (int i)) = 0) [0..<nat IPC_HEAP_MAX] = Some 0"
  by (simp add: IPC_HEAP_MAX_def upt_rec ipc_zero_def)

lemma demo_ipc_create: "iosCreateHeap 0x93400000 0x1000 ipc_zero = Some (0, demo_ipc)"
  using demo_find by (simp add: demo_ipc_def iosCreateHeap_def OSDisableInterrupts_def Let_def)

lemma demo_ipc_inv: "ipc_heap_inv demo_ipc 0 [(0x93400000, 0xFF0)]"
  using iosCreateHeap_inv [OF demo_ipc_create] by (simp add: CHUNK_def)

lemma demo_ipc_start: "ih_start (ipc_heaps demo_ipc 0) = 0x93400000" "ih_size (ipc_heaps demo_ipc 0) = 0x1000"
  using demo_find
  by (simp_all add: demo_ipc_def iosCreateHeap_def OSDisableInterrupts_def OSRestoreInterrupts_def Let_def)

text \<open>C12. \<^verbatim>\<open>__iosAlloc\<close> with a power of two as alignment, on a heap with free list
  \<open>fz\<close>: it returns, either NULL with nothing changed, and then no free chunk has room for
  the rounded size and the alignment gap; or a block of the smallest chunk that has room.  The
  block is aligned, lies inside the chunk, has the size asked for, its header leads back to the
  chunk, which is marked used, and the heap is well formed without it: the unused end of the
  chunk stays in its place in the free list when it can hold a header.\<close>

theorem iosAlloc_best_fit:
  assumes inv: "ipc_heap_inv s h fz" and sz: "0 < sz" "sz + 31 + ios_align k < 2 ^ 32" and k: "k < 32"
  shows "(iosAlloc h sz (2 ^ k) s = Some (None, s) \<and> (\<forall>x \<in> set fz. \<not> fits (ios_size sz) (ios_align k) x)) \<or>
    (\<exists>us b n vs block s'. fz = us @ (b, n) # vs \<and>
       fits (ios_size sz) (ios_align k) (b, n) \<and>
       (\<forall>x \<in> set fz. fits (ios_size sz) (ios_align k) x \<longrightarrow> n \<le> snd x) \<and>
       iosAlloc h sz (2 ^ k) s = Some (Some block, s') \<and> 2 ^ k dvd block \<and> 32 dvd block \<and>
       b + CHUNK < block \<and> block + sz \<le> b + CHUNK + n \<and>
       ipc_heap_inv s' h (us @ take_spec b n (ios_size sz + (block - CHUNK - b)) @ vs) \<and>
       real_chunk (block - CHUNK) (chunks s') = Some b \<and> ic_magic (chunks s' b) = IPC_HEAP_CHUNK_USED)"
proof (rule disjE [OF iosAlloc_result [OF assms]], goal_cases)
  case 1
  then show ?case by blast
next
  case 2
  then obtain us b n vs un s' where r: "fz = us @ (b, n) # vs" "un = unalign (ios_align k) (b + CHUNK)"
    "fits (ios_size sz) (ios_align k) (b, n)"
    "\<forall>x \<in> set fz. fits (ios_size sz) (ios_align k) x \<longrightarrow> n \<le> snd x"
    "iosAlloc h sz (2 ^ k) s = Some (Some (b + un + CHUNK), s')"
    "ipc_heap_inv s' h (us @ take_spec b n (ios_size sz + un) @ vs)"
    "real_chunk (b + un) (chunks s') = Some b" "ic_magic (chunks s' b) = IPC_HEAP_CHUNK_USED"
    by blast
  have b: "0 \<le> b" "32 dvd b" using inv r(1) by (auto simp: ipc_heap_inv_def Let_def)
  note un = ios_unalign [OF b k, folded r(2)]
  have "(2::int) ^ k dvd ios_align k" unfolding ios_align_def by (rule le_imp_power_dvd) simp
  then have "2 ^ k dvd b + un + CHUNK" using un(3) by (rule dvd_trans)
  moreover have "b + un + CHUNK + sz \<le> b + CHUNK + n"
    using r(3) ios_size_bounds(1) [of sz] unfolding fits_def by (simp add: r(2))
  ultimately show ?case
    using r un(1,4) by (intro disjI2 exI [of _ us] exI [of _ b] exI [of _ n] exI [of _ vs]
        exI [of _ "b + un + CHUNK"] exI [of _ s']) (simp add: CHUNK_def)
qed

theorem iosAlloc_best_fit_witness:
  "\<exists>block s'. iosAlloc 0 100 (2 ^ 6) demo_ipc = Some (Some block, s') \<and> 2 ^ 6 dvd block \<and>
     real_chunk (block - CHUNK) (chunks s') = Some 0x93400000"
proof -
  have "fits (ios_size 100) (ios_align 6) (0x93400000, 0xFF0)"
    using unalign_bounds(2) [of "0x93400000 + CHUNK" 6]
    by (simp add: fits_def ios_size_def ios_align_def CHUNK_def)
  then show ?thesis
    using iosAlloc_best_fit [OF demo_ipc_inv, of 100 6] by (auto simp: ios_align_def Cons_eq_append_conv)
qed

text \<open>C13. \<^verbatim>\<open>iosFree\<close> of a block whose chunk is in use succeeds: the chunk returns to
  the free list, merged with the free chunks it touches, the heap stays well formed and gets
  back exactly the bytes of the chunk with its header.  Releasing the same block once more is
  refused with \<^verbatim>\<open>IPC_RESULT_INVALID_INTERNAL\<close> and changes nothing.\<close>

theorem iosFree_once:
  assumes "ipc_heap_inv s h fz" "used_chunk s h fz c n" "real_chunk (p - CHUNK) (chunks s) = Some c"
    "ih_start (ipc_heaps s h) + CHUNK \<le> p" "p \<le> ih_start (ipc_heaps s h) + ih_size (ipc_heaps s h)"
  shows "\<exists>s' fz'. iosFree h (Some p) s = Some (IPC_RESULT_OK, s') \<and> ipc_heap_inv s' h fz' \<and>
    ipc_bytes fz' = ipc_bytes fz + n + CHUNK \<and>
    iosFree h (Some p) s' = Some (IPC_RESULT_INVALID_INTERNAL, s')"
proof -
  obtain s' fz' where r: "iosFree h (Some p) s = Some (IPC_RESULT_OK, s')" "ipc_heap_inv s' h fz'"
    "ipc_bytes fz' = ipc_bytes fz + n + CHUNK" "ic_magic (chunks s' c) = IPC_HEAP_CHUNK_FREE"
    "ih_start (ipc_heaps s' h) = ih_start (ipc_heaps s h)" "ih_size (ipc_heaps s' h) = ih_size (ipc_heaps s h)"
    "\<forall>x. x \<noteq> c \<longrightarrow> ic_magic (chunks s' x) = ic_magic (chunks s x)"
    "\<forall>x. x \<noteq> c \<and> x \<notin> fst ` set fz \<longrightarrow> chunks s' x = chunks s x"
    using iosFree_result [OF assms] by blast
  have fr: "\<forall>x \<in> fst ` set fz. ic_magic (chunks s x) = IPC_HEAP_CHUNK_FREE" and
    h: "0 \<le> h" "h < IPC_HEAP_MAX" "0 < ih_start (ipc_heaps s h)"
    using assms(1) by (auto simp: ipc_heap_inv_def Let_def)
  note mg = IPC_HEAP_CHUNK_FREE_def IPC_HEAP_CHUNK_USED_def IPC_HEAP_CHUNK_FORALIGN_def
  have "real_chunk (p - CHUNK) (chunks s') = Some c"
  proof (cases "p - CHUNK = c")
    case True
    then show ?thesis using r(4) by (simp add: real_chunk_def mg)
  next
    case False
    then have f: "ic_magic (chunks s (p - CHUNK)) = IPC_HEAP_CHUNK_FORALIGN" "ic_prev (chunks s (p - CHUNK)) = Some c"
      using assms(3) by (auto simp: real_chunk_def split: if_splits)
    then have "p - CHUNK \<notin> fst ` set fz" using fr by (auto simp: mg)
    then show ?thesis using f r(7,8) False by (simp add: real_chunk_def)
  qed
  then have "iosFree h (Some p) s' = Some (IPC_RESULT_INVALID_INTERNAL, s')"
    using assms(4,5) h r(4,5,6)
    by (simp add: iosFree_def OSDisableInterrupts_def OSRestoreInterrupts_def Let_def mg)
  then show ?thesis using r by blast
qed


lemma demo_ipc_alloc:
  "\<exists>s'. iosAlloc 0 100 (2 ^ 5) demo_ipc = Some (Some 0x93400020, s') \<and>
     ipc_heap_inv s' 0 [(0x934000A0, 0xF50)] \<and> used_chunk s' 0 [(0x934000A0, 0xF50)] 0x93400000 0x90 \<and>
     real_chunk 0x93400010 (chunks s') = Some 0x93400000 \<and>
     ih_start (ipc_heaps s' 0) = 0x93400000 \<and> ih_size (ipc_heaps s' 0) = 0x1000"
proof -
  have u: "unalign (ios_align 5) (0x93400000 + CHUNK) = 16"
    by (simp add: unalign_def ios_align_def CHUNK_def u32_def)
  have u2: "unalign 32 0x93400010 = 16" by (simp add: unalign_def u32_def)
  have z: "ios_size 100 = 128" by (simp add: ios_size_def)
  have f: "fits (ios_size 100) (ios_align 5) (0x93400000, 0xFF0)"
    unfolding fits_def z fst_conv u by simp
  obtain s' where r: "iosAlloc 0 100 (2 ^ 5) demo_ipc = Some (Some (0x93400000 + 16 + CHUNK), s')"
    "ipc_heap_inv s' 0 (take_spec 0x93400000 0xFF0 (128 + 16))" "real_chunk (0x93400000 + 16) (chunks s') = Some 0x93400000"
    "ic_magic (chunks s' 0x93400000) = IPC_HEAP_CHUNK_USED" "ic_size (chunks s' 0x93400000) = 128 + 16"
    "ih_start (ipc_heaps s' 0) = 0x93400000" "ih_size (ipc_heaps s' 0) = 0x1000"
    using iosAlloc_result [OF demo_ipc_inv, of 100 5] f
    by (auto simp: ios_align_def Cons_eq_append_conv z u2 CHUNK_def demo_ipc_start)
  have t: "take_spec 0x93400000 0xFF0 (128 + 16) = [(0x934000A0, 0xF50)]"
    by (simp add: take_spec_def CHUNK_def)
  show ?thesis
    using r unfolding t by (simp add: used_chunk_def CHUNK_def)
qed

theorem iosFree_once_witness:
  "\<exists>s s'. iosAlloc 0 100 (2 ^ 5) demo_ipc = Some (Some 0x93400020, s) \<and>
     iosFree 0 (Some 0x93400020) s = Some (IPC_RESULT_OK, s') \<and>
     iosFree 0 (Some 0x93400020) s' = Some (IPC_RESULT_INVALID_INTERNAL, s')"
proof -
  obtain s where s: "iosAlloc 0 100 (2 ^ 5) demo_ipc = Some (Some 0x93400020, s)"
    "ipc_heap_inv s 0 [(0x934000A0, 0xF50)]" "used_chunk s 0 [(0x934000A0, 0xF50)] 0x93400000 0x90"
    "real_chunk 0x93400010 (chunks s) = Some 0x93400000" "ih_start (ipc_heaps s 0) = 0x93400000"
    "ih_size (ipc_heaps s 0) = 0x1000"
    using demo_ipc_alloc by blast
  then show ?thesis
    using iosFree_once [OF s(2,3), of "0x93400020"] by (auto simp: CHUNK_def)
qed

text \<open>The rounding of the size in \<^verbatim>\<open>__iosAlloc\<close> is not checked for overflow: a
  request of nearly 4 GB on a heap of 4 KB is rounded to 0 bytes and succeeds, where a request of
  the heap's size fails.\<close>

theorem iosAlloc_size_wraps:
  "(\<exists>s'. iosAlloc 0 0xFFFFFFF0 32 demo_ipc = Some (Some 0x93400020, s')) \<and>
   iosAlloc 0 0x1000 32 demo_ipc = Some (None, demo_ipc)"
proof
  have u: "unalign 32 (0x93400000 + CHUNK) = 16"
    by (simp add: unalign_def CHUNK_def u32_def)
  have r: "ROUND_UP 0xFFFFFFF0 32 = 0" by (simp add: ROUND_UP_def u32_def)
  have cl: "cell_list (as_cells (chunks demo_ipc)) (ih_head (ipc_heaps demo_ipc 0)) [(0x93400000, 0xFF0)]"
    using demo_ipc_inv by (simp add: ipc_heap_inv_def Let_def)
  have sz: "ic_size (chunks demo_ipc 0x93400000) = 0xFF0" using cl by (simp add: cell_list_def)
  have "scan (\<lambda>c. ic_next (chunks demo_ipc c)) (fit_body (chunks demo_ipc) 0 32)
      (ih_head (ipc_heaps demo_ipc 0)) None = Some (Some 0x93400000)"
    unfolding scan_cells [OF cl] using sz u by (simp add: fit_body_def u32_def)
  then show "\<exists>s'. iosAlloc 0 0xFFFFFFF0 32 demo_ipc = Some (Some 0x93400020, s')"
    using demo_ipc_start u r
    by (simp add: iosAlloc_def OSDisableInterrupts_def Let_def IPC_HEAP_MAX_def CHUNK_def split: prod.splits)
  have "\<not> fits (ios_size 0x1000) (ios_align 5) (0x93400000, 0xFF0)"
    using u by (simp add: fits_def ios_size_def ios_align_def CHUNK_def)
  then show "iosAlloc 0 0x1000 32 demo_ipc = Some (None, demo_ipc)"
    using iosAlloc_result [OF demo_ipc_inv, of "0x1000" 5] by (auto simp: ios_align_def Cons_eq_append_conv)
qed

end
