(* ===== verification/IpcBlocks.thy ===== *)
theory IpcBlocks
  imports IpcHeap
begin

text \<open>
  The blocks that are handed out by a heap of \<^verbatim>\<open>ipc/memory.c\<close>.  A live block is
  \<open>(p, z, c, n)\<close>: the address and the size the caller knows, the chunk it is cut from and
  the size of that.  \<open>live_heap\<close> says that free chunks and live blocks tile the heap.  The
  locale \<open>block_heap\<close> is what a client relies on; it is interpreted on
  \<^verbatim>\<open>iosAllocAligned\<close> and \<^verbatim>\<open>iosFree\<close>.
\<close>

section \<open>Live blocks\<close>

type_synonym live_block = "int \<times> int \<times> int \<times> int"

text \<open>The chunks of two blocks are apart.\<close>

definition blocks_apart :: "live_block \<Rightarrow> live_block \<Rightarrow> bool" where
  "blocks_apart = (\<lambda>(p, z, c, n) (p', z', c', n'). c + n + CHUNK \<le> c' \<or> c' + n' + CHUNK \<le> c)"

definition live_ok :: "'a ipc_state_scheme \<Rightarrow> int \<Rightarrow> (int \<times> int) list \<Rightarrow> live_block \<Rightarrow> bool" where
  "live_ok s h fz = (\<lambda>(p, z, c, n). used_chunk s h fz c n \<and> ic_magic (chunks s (p - CHUNK)) = IPC_HEAP_CHUNK_FORALIGN \<and>
     ic_prev (chunks s (p - CHUNK)) = Some c \<and> c + CHUNK + CHUNK \<le> p \<and> 0 < z \<and> p + z \<le> c + n + CHUNK \<and> 32 dvd p)"

definition live_heap :: "'a ipc_state_scheme \<Rightarrow> int \<Rightarrow> (int \<times> int) list \<Rightarrow> live_block list \<Rightarrow> bool" where
  "live_heap s h fz us \<longleftrightarrow> ipc_heap_inv s h fz \<and> (\<forall>u\<in>set us. live_ok s h fz u) \<and> sorted_wrt blocks_apart us \<and>
     ipc_bytes fz + (\<Sum>(p, z, c, n)\<leftarrow>us. n + CHUNK) = ih_size (ipc_heaps s h)"

lemma blocks_apart_sym: "blocks_apart u v \<longleftrightarrow> blocks_apart v u"
  by (auto simp: blocks_apart_def split: prod.splits)

lemma blocks_apart_delete: "sorted_wrt blocks_apart (us @ u # vs) \<Longrightarrow> sorted_wrt blocks_apart (us @ vs) \<and> (\<forall>v\<in>set (us @ vs). blocks_apart u v)"
  by (auto simp: sorted_wrt_append blocks_apart_sym)

text \<open>The header of a block lies in its chunk, so an operation that only writes the headers of
  other chunks leaves it alone.\<close>

lemma live_ok_frame:
  assumes l: "live_ok s h fz (p, z, c, n)" and d: "ih_start (ipc_heaps t h) = ih_start (ipc_heaps s h)" "ih_size (ipc_heaps t h) = ih_size (ipc_heaps s h)"
    and ch: "\<And>x. c \<le> x \<Longrightarrow> x < c + n + CHUNK \<Longrightarrow> chunks t x = chunks s x"
    and ap: "\<And>x. x \<in> set fz' \<Longrightarrow> fst x + snd x + CHUNK \<le> c \<or> c + n + CHUNK \<le> fst x"
  shows "live_ok t h fz' (p, z, c, n)"
proof -
  have "chunks t c = chunks s c" "chunks t (p - CHUNK) = chunks s (p - CHUNK)"
    using l by (auto simp: live_ok_def used_chunk_def CHUNK_def intro!: ch)
  then show ?thesis using l d ap by (auto simp: live_ok_def used_chunk_def)
qed

section \<open>Allocation\<close>

lemma free_chunk_bounds:
  assumes "ipc_heap_inv s h (us @ (b, n) # vs)" "x \<in> set (us @ vs)"
  shows "fst x + snd x + CHUNK < b \<or> b + n + CHUNK < fst x"
  using assms by (auto simp: ipc_heap_inv_def Let_def sorted_wrt_append igap_def)

lemma live_alloc:
  assumes live: "live_heap s h fz us" and sz: "0 < sz" "sz + 31 + ios_align k < 2 ^ 32" and k: "k < 32"
  shows "iosAlloc h sz (2 ^ k) s = Some (None, s) \<or>
    (\<exists>p t fz' c n. iosAlloc h sz (2 ^ k) s = Some (Some p, t) \<and> live_heap t h fz' ((p, sz, c, n) # us) \<and>
      2 ^ k dvd p \<and> (\<exists>d. t = s\<lparr>ipc_heaps := (ipc_heaps s)(h := d), chunks := chunks t\<rparr>) \<and>
      ih_start (ipc_heaps t h) = ih_start (ipc_heaps s h) \<and> ih_size (ipc_heaps t h) = ih_size (ipc_heaps s h))"
proof (rule disjE [OF iosAlloc_result [OF _ sz k]])
  show inv: "ipc_heap_inv s h fz" using live by (simp add: live_heap_def)
  assume "iosAlloc h sz (2 ^ k) s = Some (None, s) \<and> (\<forall>x \<in> set fz. \<not> fits (ios_size sz) (ios_align k) x)"
  then show ?thesis by blast
next
  assume "\<exists>ls b n rs un t. fz = ls @ (b, n) # rs \<and> un = unalign (ios_align k) (b + CHUNK) \<and>
       fits (ios_size sz) (ios_align k) (b, n) \<and>
       (\<forall>x \<in> set fz. fits (ios_size sz) (ios_align k) x \<longrightarrow> n \<le> snd x) \<and>
       iosAlloc h sz (2 ^ k) s = Some (Some (b + un + CHUNK), t) \<and>
       ipc_heap_inv t h (ls @ take_spec b n (ios_size sz + un) @ rs) \<and>
       real_chunk (b + un) (chunks t) = Some b \<and> ic_magic (chunks t b) = IPC_HEAP_CHUNK_USED \<and>
       ic_size (chunks t b) = (if n > ios_size sz + un + CHUNK then ios_size sz + un else n) \<and>
       ih_start (ipc_heaps t h) = ih_start (ipc_heaps s h) \<and> ih_size (ipc_heaps t h) = ih_size (ipc_heaps s h) \<and>
       (\<forall>x. x \<notin> insert (b + un) (fst ` set (take_spec b n (ios_size sz + un)) \<union> fst ` set fz) \<longrightarrow> chunks t x = chunks s x) \<and>
       (\<exists>d. t = s\<lparr>ipc_heaps := (ipc_heaps s)(h := d), chunks := chunks t\<rparr>)"
  then obtain ls b n rs un t where fz: "fz = ls @ (b, n) # rs" and un: "un = unalign (ios_align k) (b + CHUNK)"
    and fit: "fits (ios_size sz) (ios_align k) (b, n)" and run: "iosAlloc h sz (2 ^ k) s = Some (Some (b + un + CHUNK), t)"
    and inv': "ipc_heap_inv t h (ls @ take_spec b n (ios_size sz + un) @ rs)" and rc: "real_chunk (b + un) (chunks t) = Some b"
    and mg: "ic_magic (chunks t b) = IPC_HEAP_CHUNK_USED"
    and isz: "ic_size (chunks t b) = (if n > ios_size sz + un + CHUNK then ios_size sz + un else n)"
    and hp: "ih_start (ipc_heaps t h) = ih_start (ipc_heaps s h)" "ih_size (ipc_heaps t h) = ih_size (ipc_heaps s h)"
    and fr: "\<And>x. x \<notin> insert (b + un) (fst ` set (take_spec b n (ios_size sz + un)) \<union> fst ` set fz) \<Longrightarrow> chunks t x = chunks s x"
    and rest: "\<exists>d. t = s\<lparr>ipc_heaps := (ipc_heaps s)(h := d), chunks := chunks t\<rparr>"
    by blast
  let ?z = "ios_size sz" and ?fz' = "ls @ take_spec b n (ios_size sz + un) @ rs"
  have inv: "ipc_heap_inv s h (ls @ (b, n) # rs)" using live fz by (simp add: live_heap_def)
  have b: "0 \<le> b" "32 dvd b" "0 \<le> n" "ih_start (ipc_heaps s h) \<le> b" "b + n + CHUNK \<le> ih_start (ipc_heaps s h) + ih_size (ipc_heaps s h)"
    using inv by (auto simp: ipc_heap_inv_def Let_def)
  note u = ios_unalign [OF b(1,2) k, folded un]
  have z: "sz \<le> ?z" "0 < ?z" using ios_size_bounds(1) [of sz] sz(1) by simp_all
  have fit': "?z + un \<le> n" using fit by (simp add: fits_def un)
  obtain m where m: "m = (if n > ?z + un + CHUNK then ?z + un else n)" by blast
  have mb: "?z + un \<le> m" "m \<le> n" using fit' m by (auto simp: CHUNK_def)
  note fcb = free_chunk_bounds [OF inv]
  have new: "live_ok t h ?fz' (b + un + CHUNK, sz, b, m)"
  proof -
    have neq: "b + un \<noteq> b" using u(1) by simp
    then have "ic_magic (chunks t (b + un)) = IPC_HEAP_CHUNK_FORALIGN" "ic_prev (chunks t (b + un)) = Some b"
      using rc by (auto simp: real_chunk_def split: if_splits)
    moreover have "fst x + snd x + CHUNK \<le> b \<or> b + m + CHUNK \<le> fst x" if "x \<in> set ?fz'" for x
      using that fcb [of x] mb m by (auto simp: take_spec_def split: if_splits)
    ultimately show ?thesis
      using mg isz m hp b u mb z sz(1) by (auto simp: live_ok_def used_chunk_def CHUNK_def)
  qed
  have old: "live_ok t h ?fz' v \<and> blocks_apart (b + un + CHUNK, sz, b, m) v" if v: "v \<in> set us" for v
  proof -
    obtain p z' c n' where v': "v = (p, z', c, n')" by (cases v)
    have ok: "live_ok s h fz (p, z', c, n')" using live v v' by (auto simp: live_heap_def)
    then have out: "fst x + snd x + CHUNK \<le> c \<or> c + n' + CHUNK \<le> fst x" if "x \<in> set fz" for x
      using that by (auto simp: live_ok_def used_chunk_def)
    have bc: "b + n + CHUNK \<le> c \<or> c + n' + CHUNK \<le> b" using out [of "(b, n)"] fz by simp
    have szs: "0 \<le> snd x" if "x \<in> set fz" for x
      using that live by (auto simp: live_heap_def ipc_heap_inv_def Let_def)
    have "live_ok t h ?fz' (p, z', c, n')"
    proof (rule live_ok_frame [OF ok hp])
      fix x assume x: "c \<le> x" "x < c + n' + CHUNK"
      have "x \<notin> fst ` set fz" using out szs x by (fastforce simp: CHUNK_def)
      moreover have "x \<noteq> b + un" "x \<notin> fst ` set (take_spec b n (?z + un))"
        using bc x fit' z u(1) by (auto simp: take_spec_def CHUNK_def)
      ultimately show "chunks t x = chunks s x" using fr [of x] by blast
    next
      fix x assume "x \<in> set ?fz'"
      then show "fst x + snd x + CHUNK \<le> c \<or> c + n' + CHUNK \<le> fst x"
        using out [of x] bc fit' z u(1) fz by (auto simp: take_spec_def CHUNK_def split: if_splits)
    qed
    moreover have "blocks_apart (b + un + CHUNK, sz, b, m) v" using bc mb by (auto simp: blocks_apart_def v')
    ultimately show ?thesis using v' by simp
  qed
  have "ipc_bytes ?fz' + (m + CHUNK) = ipc_bytes fz"
    using m fit' by (auto simp: fz take_spec_def)
  then have "live_heap t h ?fz' ((b + un + CHUNK, sz, b, m) # us)"
    using live inv' new old hp by (auto simp: live_heap_def)
  moreover have "2 ^ k dvd b + un + CHUNK"
  proof -
    have "(2::int) ^ k dvd ios_align k" unfolding ios_align_def by (rule le_imp_power_dvd) simp
    then show ?thesis using u(3) by (rule dvd_trans)
  qed
  ultimately show ?thesis using run rest hp by blast
qed

section \<open>Release\<close>

lemma live_free:
  assumes live: "live_heap s h fz us" and us: "us = as @ (p, z, c, n) # bs"
  shows "\<exists>t fz'. iosFree h (Some p) s = Some (IPC_RESULT_OK, t) \<and> live_heap t h fz' (as @ bs) \<and>
    (\<exists>d. t = s\<lparr>ipc_heaps := (ipc_heaps s)(h := d), chunks := chunks t\<rparr>) \<and>
    ih_start (ipc_heaps t h) = ih_start (ipc_heaps s h) \<and> ih_size (ipc_heaps t h) = ih_size (ipc_heaps s h)"
proof -
  have inv: "ipc_heap_inv s h fz" and ok: "live_ok s h fz (p, z, c, n)"
    using live us by (auto simp: live_heap_def)
  have others: "sorted_wrt blocks_apart (as @ bs)" "\<forall>v\<in>set (as @ bs). blocks_apart (p, z, c, n) v"
    using live us blocks_apart_delete [of as "(p, z, c, n)" bs] by (auto simp: live_heap_def)
  have u: "used_chunk s h fz c n" and rc: "real_chunk (p - CHUNK) (chunks s) = Some c"
    using ok by (auto simp: live_ok_def real_chunk_def)
  have p: "ih_start (ipc_heaps s h) + CHUNK \<le> p" "p \<le> ih_start (ipc_heaps s h) + ih_size (ipc_heaps s h)"
    using ok by (auto simp: live_ok_def used_chunk_def CHUNK_def)
  show ?thesis
    using iosFree_result [OF inv u rc p]
  proof (elim exE conjE, goal_cases)
    case (1 t fz' d)
    note run = 1(1) and inv' = 1(2) and bytes = 1(3) and hp = 1(5,6) and fr = 1(8) and cl = 1(9)
    have rest: "\<exists>d. t = s\<lparr>ipc_heaps := (ipc_heaps s)(h := d), chunks := chunks t\<rparr>" using 1(10) by blast
    have szs: "0 \<le> snd x" if "x \<in> set fz" for x
      using that inv by (auto simp: ipc_heap_inv_def Let_def)
    have "live_ok t h fz' v" if v: "v \<in> set (as @ bs)" for v
    proof -
      obtain p' z' c' n' where v': "v = (p', z', c', n')" by (cases v)
      have ok': "live_ok s h fz (p', z', c', n')" using live v v' us by (auto simp: live_heap_def)
      have ap: "c + n + CHUNK \<le> c' \<or> c' + n' + CHUNK \<le> c"
        using bspec [OF others(2) v] v' by (simp add: blocks_apart_def)
      have n0: "0 \<le> n" "0 \<le> n'" using ok ok' by (auto simp: live_ok_def used_chunk_def)
      have out: "\<forall>x\<in>set fz. clear_of c' (c' + n' + CHUNK) x"
        using ok' by (auto simp: live_ok_def used_chunk_def clear_of_def)
      have "live_ok t h fz' (p', z', c', n')"
      proof (rule live_ok_frame [OF ok' hp])
        fix x assume x: "c' \<le> x" "x < c' + n' + CHUNK"
        have "x \<noteq> c" using ap x n0 by (auto simp: CHUNK_def)
        moreover have "x \<notin> fst ` set fz" using out szs x by (fastforce simp: clear_of_def CHUNK_def)
        ultimately show "chunks t x = chunks s x" using fr by blast
      next
        fix x assume "x \<in> set fz'"
        then have "clear_of c' (c' + n' + CHUNK) x"
          using cl ap n0 out by (auto simp: clear_of_def CHUNK_def)
        then show "fst x + snd x + CHUNK \<le> c' \<or> c' + n' + CHUNK \<le> fst x" by (simp add: clear_of_def)
      qed
      then show ?thesis using v' by simp
    qed
    then have "live_heap t h fz' (as @ bs)"
      using live inv' others(1) bytes hp us by (auto simp: live_heap_def)
    with run rest hp show ?case by blast
  qed
qed

section \<open>The interface\<close>

text \<open>What a client sees of a heap: the blocks it holds, as (address, size).  \<open>rest\<close> is the
  part of the state that the heap does not touch.\<close>

definition blocks_ok :: "(int \<times> int) list \<Rightarrow> bool" where
  "blocks_ok L \<longleftrightarrow> sorted_wrt (\<lambda>x y. fst x + snd x \<le> fst y \<or> fst y + snd y \<le> fst x) L \<and> (\<forall>x\<in>set L. 0 < snd x)"

lemma blocks_ok_distinct: "blocks_ok L \<Longrightarrow> distinct (map fst L)"
  by (induction L) (force simp: blocks_ok_def)+

lemma blocks_ok_distinct': "blocks_ok L \<Longrightarrow> distinct L"
  by (drule blocks_ok_distinct) (simp add: distinct_map)

lemma remove1_nth: "distinct L \<Longrightarrow> i < length L \<Longrightarrow> remove1 (L ! i) L = take i L @ drop (Suc i) L"
proof (induction L arbitrary: i)
  case (Cons x xs)
  then show ?case by (cases i) auto
qed simp

text \<open>A client at work: it asks for blocks and gives back one of those it holds.  The result is
  None when a call does not return or a release is refused.\<close>

datatype heap_op = Take int | Give nat

fun block_run :: "(int \<Rightarrow> 's \<Rightarrow> (int option \<times> 's) option) \<Rightarrow> (int \<Rightarrow> 's \<Rightarrow> (int \<times> 's) option) \<Rightarrow> heap_op list \<Rightarrow> 's \<Rightarrow> (int \<times> int) list \<Rightarrow> ('s \<times> (int \<times> int) list) option" where
  "block_run alloc release [] s L = Some (s, L)"
| "block_run alloc release (Take z # ops) s L =
     (case alloc z s of None \<Rightarrow> None
      | Some (None, s) \<Rightarrow> block_run alloc release ops s L
      | Some (Some p, s) \<Rightarrow> block_run alloc release ops s ((p, z) # L))"
| "block_run alloc release (Give i # ops) s L =
     (if i < length L
      then (case release (fst (L ! i)) s of None \<Rightarrow> None
            | Some (r, s) \<Rightarrow> if r = IPC_RESULT_OK then block_run alloc release ops s (take i L @ drop (Suc i) L) else None)
      else block_run alloc release ops s L)"

locale block_heap =
  fixes alloc :: "int \<Rightarrow> 's \<Rightarrow> (int option \<times> 's) option" and release :: "int \<Rightarrow> 's \<Rightarrow> (int \<times> 's) option"
    and live :: "'s \<Rightarrow> (int \<times> int) list \<Rightarrow> bool" and rest :: "'s \<Rightarrow> 'r" and limit :: int
  assumes alloc_law: "live s L \<Longrightarrow> 0 < z \<Longrightarrow> z < limit \<Longrightarrow> \<exists>r t. alloc z s = Some (r, t) \<and> rest t = rest s \<and>
      (case r of None \<Rightarrow> live t L | Some p \<Rightarrow> live t ((p, z) # L))"
    and release_law: "live s L \<Longrightarrow> (p, z) \<in> set L \<Longrightarrow>
      \<exists>t. release p s = Some (IPC_RESULT_OK, t) \<and> rest t = rest s \<and> live t (remove1 (p, z) L)"
    and live_law: "live s L \<Longrightarrow> blocks_ok L"
begin

text \<open>A block that was just handed out is none of the blocks in use.\<close>

lemma alloc_fresh:
  assumes "live s L" "0 < z" "z < limit" "alloc z s = Some (Some p, t)"
  shows "p \<notin> fst ` set L"
proof -
  have "live t ((p, z) # L)" using alloc_law [OF assms(1-3)] assms(4) by auto
  from blocks_ok_distinct [OF live_law [OF this]] show ?thesis by simp
qed

lemma run_live:
  assumes "live s L" "\<forall>z. Take z \<in> set ops \<longrightarrow> 0 < z \<and> z < limit"
  shows "\<exists>t L'. block_run alloc release ops s L = Some (t, L') \<and> live t L' \<and> rest t = rest s"
  using assms
proof (induction ops arbitrary: s L)
  case (Cons op ops)
  have ok: "\<forall>z. Take z \<in> set ops \<longrightarrow> 0 < z \<and> z < limit" using Cons.prems(2) by simp
  show ?case
  proof (cases op)
    case (Take z)
    then have "0 < z" "z < limit" using Cons.prems(2) by auto
    from alloc_law [OF Cons.prems(1) this] obtain r t where r: "alloc z s = Some (r, t)" "rest t = rest s"
      "case r of None \<Rightarrow> live t L | Some p \<Rightarrow> live t ((p, z) # L)" by blast
    then show ?thesis using Cons.IH [OF _ ok] Take by (cases r) fastforce+
  next
    case (Give i)
    show ?thesis
    proof (cases "i < length L")
      case True
      have d: "distinct L" by (rule blocks_ok_distinct' [OF live_law [OF Cons.prems(1)]])
      have "(fst (L ! i), snd (L ! i)) \<in> set L" using True by simp
      from release_law [OF Cons.prems(1) this] obtain t where t: "release (fst (L ! i)) s = Some (IPC_RESULT_OK, t)"
        "rest t = rest s" "live t (take i L @ drop (Suc i) L)"
        using remove1_nth [OF d True] by auto
      then show ?thesis using Cons.IH [OF t(3) ok] Give True by auto
    qed (use Cons.IH [OF Cons.prems(1) ok] Give in simp)
  qed
qed simp

end

section \<open>The heaps of the code\<close>

definition block_of :: "live_block \<Rightarrow> int \<times> int" where
  "block_of = (\<lambda>(p, z, c, n). (p, z))"

definition ipc_live :: "int \<Rightarrow> int \<Rightarrow> int \<Rightarrow> 'a ipc_state_scheme \<Rightarrow> (int \<times> int) list \<Rightarrow> bool" where
  "ipc_live h base sz s L \<longleftrightarrow> (\<exists>fz us. live_heap s h fz us \<and> L = map block_of us) \<and>
     ih_start (ipc_heaps s h) = base \<and> ih_size (ipc_heaps s h) = sz"

definition heap_rest :: "'a ipc_state_scheme \<Rightarrow> 'a ipc_state_scheme" where
  "heap_rest s = s\<lparr>ipc_heaps := (\<lambda>_. \<lparr>ih_start = 0, ih_size = 0, ih_head = None\<rparr>),
     chunks := (\<lambda>_. \<lparr>ic_magic = 0, ic_size = 0, ic_prev = None, ic_next = None\<rparr>)\<rparr>"

lemma heap_restI: "t = s\<lparr>ipc_heaps := H, chunks := C\<rparr> \<Longrightarrow> heap_rest t = heap_rest s"
  by (simp add: heap_rest_def)

lemma live_heap_blocks: "live_heap s h fz us \<Longrightarrow> blocks_ok (map block_of us)"
proof -
  assume l: "live_heap s h fz us"
  have "sorted_wrt (\<lambda>u v. fst (block_of u) + snd (block_of u) \<le> fst (block_of v) \<or> fst (block_of v) + snd (block_of v) \<le> fst (block_of u)) us"
  proof (rule sorted_wrt_mono_rel)
    show "sorted_wrt blocks_apart us" using l by (simp add: live_heap_def)
    fix u v assume uv: "u \<in> set us" "v \<in> set us" "blocks_apart u v"
    then have "live_ok s h fz u" "live_ok s h fz v" using l by (auto simp: live_heap_def)
    then show "fst (block_of u) + snd (block_of u) \<le> fst (block_of v) \<or> fst (block_of v) + snd (block_of v) \<le> fst (block_of u)"
      using uv(3) by (auto simp: blocks_apart_def live_ok_def block_of_def CHUNK_def split: prod.splits)
  qed
  moreover have "\<forall>u\<in>set us. 0 < snd (block_of u)"
    using l by (auto simp: live_heap_def live_ok_def block_of_def)
  ultimately show ?thesis by (simp add: blocks_ok_def sorted_wrt_map)
qed

interpretation ipc: block_heap "\<lambda>z. iosAllocAligned h z 32" "\<lambda>p. iosFree h (Some p)" "ipc_live h base sz" heap_rest "2 ^ 32 - 63" for h base sz
proof
  fix s :: "'a ipc_state_scheme" and L and z :: int
  assume "ipc_live h base sz s L" and z: "0 < z" "z < 2 ^ 32 - 63"
  then obtain fz us where l: "live_heap s h fz us" "L = map block_of us"
      "ih_start (ipc_heaps s h) = base" "ih_size (ipc_heaps s h) = sz" by (auto simp: ipc_live_def)
  have "z + 31 + ios_align 5 < 2 ^ 32" using z(2) by (simp add: ios_align_def)
  from live_alloc [OF l(1) z(1) this]
  consider "iosAllocAligned h z 32 s = Some (None, s)"
    | p t fz' c n d where "iosAllocAligned h z 32 s = Some (Some p, t)" "live_heap t h fz' ((p, z, c, n) # us)"
        "t = s\<lparr>ipc_heaps := (ipc_heaps s)(h := d), chunks := chunks t\<rparr>"
        "ih_start (ipc_heaps t h) = ih_start (ipc_heaps s h)" "ih_size (ipc_heaps t h) = ih_size (ipc_heaps s h)"
    by (auto simp: iosAllocAligned_def)
  then show "\<exists>r t. iosAllocAligned h z 32 s = Some (r, t) \<and> heap_rest t = heap_rest s \<and>
      (case r of None \<Rightarrow> ipc_live h base sz t L | Some p \<Rightarrow> ipc_live h base sz t ((p, z) # L))"
  proof cases
    case 1
    then show ?thesis using l by (intro exI [of _ None] exI [of _ s]) (auto simp: ipc_live_def)
  next
    case 2
    have "map block_of ((p, z, c, n) # us) = (p, z) # L" using l(2) by (simp add: block_of_def)
    then have "ipc_live h base sz t ((p, z) # L)" using 2(2,4,5) l(3,4) unfolding ipc_live_def by metis
    then show ?thesis using 2(1) heap_restI [OF 2(3)] by (intro exI [of _ "Some p"] exI [of _ t]) simp
  qed
next
  fix s :: "'a ipc_state_scheme" and L p z
  assume "ipc_live h base sz s L" and p: "(p, z) \<in> set L"
  then obtain fz us where l: "live_heap s h fz us" "L = map block_of us"
      "ih_start (ipc_heaps s h) = base" "ih_size (ipc_heaps s h) = sz" by (auto simp: ipc_live_def)
  have d: "distinct L" unfolding l(2) by (rule blocks_ok_distinct' [OF live_heap_blocks [OF l(1)]])
  obtain i where i: "i < length us" "block_of (us ! i) = (p, z)" using p l(2) by (auto simp: in_set_conv_nth)
  obtain p' z' c n where u: "us ! i = (p', z', c, n)" by (cases "us ! i")
  have "us = take i us @ (p, z, c, n) # drop (Suc i) us" using id_take_nth_drop [OF i(1)] i(2) u by (simp add: block_of_def)
  from live_free [OF l(1) this] obtain t fz' H where t: "iosFree h (Some p) s = Some (IPC_RESULT_OK, t)"
    "live_heap t h fz' (take i us @ drop (Suc i) us)" "t = s\<lparr>ipc_heaps := H, chunks := chunks t\<rparr>"
    "ih_start (ipc_heaps t h) = ih_start (ipc_heaps s h)" "ih_size (ipc_heaps t h) = ih_size (ipc_heaps s h)" by blast
  have "remove1 (L ! i) L = take i L @ drop (Suc i) L" by (rule remove1_nth) (use d l i in simp_all)
  then have "remove1 (p, z) L = map block_of (take i us @ drop (Suc i) us)"
    using l(2) i by (simp add: take_map drop_map)
  then have "ipc_live h base sz t (remove1 (p, z) L)" using t(2,4,5) l(3,4) unfolding ipc_live_def by metis
  then show "\<exists>t. iosFree h (Some p) s = Some (IPC_RESULT_OK, t) \<and> heap_rest t = heap_rest s \<and> ipc_live h base sz t (remove1 (p, z) L)"
    using t(1) heap_restI [OF t(3)] by blast
next
  fix s :: "'a ipc_state_scheme" and L
  assume "ipc_live h base sz s L"
  then show "blocks_ok L" using live_heap_blocks by (auto simp: ipc_live_def)
qed

text \<open>A heap without live blocks is one free chunk.\<close>

lemma no_blocks_one_chunk:
  assumes live: "live_heap s h fz []" and sz: "0 < ih_size (ipc_heaps s h)"
  shows "fz = [(ih_start (ipc_heaps s h), ih_size (ipc_heaps s h) - CHUNK)]"
proof -
  have inv: "ipc_heap_inv s h fz" and total: "ipc_bytes fz = ih_size (ipc_heaps s h)"
    using live by (auto simp: live_heap_def)
  have span: "ipc_bytes zs \<le> hi - lo \<and> (length zs > 1 \<longrightarrow> ipc_bytes zs < hi - lo)"
    if "sorted_wrt igap zs" "zs \<noteq> []" "\<forall>x\<in>set zs. lo \<le> fst x \<and> fst x + snd x + CHUNK \<le> hi" for zs lo hi
    using that
  proof (induction zs arbitrary: lo)
    case (Cons x xs)
    show ?case
    proof (cases xs)
      case (Cons y ys)
      have "\<forall>z\<in>set xs. fst x + snd x + CHUNK + 1 \<le> fst z \<and> fst z + snd z + CHUNK \<le> hi"
        using Cons.prems by (auto simp: igap_def)
      then have "ipc_bytes xs \<le> hi - (fst x + snd x + CHUNK + 1)"
        using Cons.IH [of "fst x + snd x + CHUNK + 1"] Cons.prems(1) Cons by simp
      then show ?thesis using Cons.prems(3) by simp
    qed (use Cons.prems in simp)
  qed simp
  let ?st = "ih_start (ipc_heaps s h)" and ?n = "ih_size (ipc_heaps s h)"
  have ne: "fz \<noteq> []" using total sz by auto
  have el: "sorted_wrt igap fz" "\<forall>x\<in>set fz. ?st \<le> fst x \<and> fst x + snd x + CHUNK \<le> ?st + ?n"
    using inv by (auto simp: ipc_heap_inv_def Let_def)
  have "length fz = 1"
    using span [OF el(1) ne el(2)] total ne by (cases fz; cases "tl fz") auto
  then obtain x where x: "fz = [x]" by (auto simp: length_Suc_conv)
  show ?thesis using el(2) total by (cases x) (simp add: x)
qed

lemma iosCreateHeap_live:
  assumes "iosCreateHeap base sz s = Some (h, s')" "0 \<le> h" "0 < base" "CHUNK \<le> sz" "base + sz < 2 ^ 32"
  shows "ipc_live h base sz s' []"
proof -
  have "ih_start (ipc_heaps s' h) = base \<and> ih_size (ipc_heaps s' h) = sz"
    using assms(1,2) by (auto simp: iosCreateHeap_def OSDisableInterrupts_def OSRestoreInterrupts_def
        IPC_RESULT_INVALID_INTERNAL_def IPC_RESULT_CONN_MAX_INTERNAL_def Let_def split: option.splits if_splits)
  then show ?thesis
    using iosCreateHeap_inv [OF assms] by (force simp: ipc_live_def live_heap_def)
qed

text \<open>C14. Whatever blocks a client takes from a new heap and gives back, in whatever order, every
  call returns and every release succeeds.  The blocks it holds have the size asked for, lie in
  the heap behind its first header, are aligned to 32 bytes and do not overlap; and when it holds
  none the heap is again one free chunk with all its bytes, so nothing is lost to fragmentation
  in the long run.\<close>

theorem ipc_heap_run:
  assumes create: "iosCreateHeap base sz s0 = Some (h, s)" "0 \<le> h" "0 < base" "CHUNK < sz" "base + sz < 2 ^ 32"
    and ops: "\<forall>z. Take z \<in> set ops \<longrightarrow> 0 < z \<and> z < 2 ^ 32 - 63"
  shows "\<exists>t L. block_run (\<lambda>z. iosAllocAligned h z 32) (\<lambda>p. iosFree h (Some p)) ops s [] = Some (t, L)
    \<and> blocks_ok L \<and> (\<forall>(p, z)\<in>set L. base + CHUNK < p \<and> p + z \<le> base + sz \<and> 32 dvd p)
    \<and> (L = [] \<longrightarrow> ih_head (ipc_heaps t h) = Some base \<and> ic_size (chunks t base) = sz - CHUNK \<and> ic_next (chunks t base) = None)"
proof -
  have "ipc_live h base sz s []" using create by (intro iosCreateHeap_live) auto
  from ipc.run_live [OF this ops] obtain t L where
    run: "block_run (\<lambda>z. iosAllocAligned h z 32) (\<lambda>p. iosFree h (Some p)) ops s [] = Some (t, L)" and
    live: "ipc_live h base sz t L" by blast
  obtain fz us where us: "live_heap t h fz us" "L = map block_of us"
      "ih_start (ipc_heaps t h) = base" "ih_size (ipc_heaps t h) = sz" using live by (auto simp: ipc_live_def)
  have "\<forall>(p, z)\<in>set L. base + CHUNK < p \<and> p + z \<le> base + sz \<and> 32 dvd p"
    using us by (force simp: live_heap_def live_ok_def used_chunk_def block_of_def CHUNK_def)
  moreover have "ih_head (ipc_heaps t h) = Some base \<and> ic_size (chunks t base) = sz - CHUNK \<and> ic_next (chunks t base) = None"
    if "L = []"
  proof -
    have l: "live_heap t h fz []" using that us by simp
    then have "cell_list (as_cells (chunks t)) (ih_head (ipc_heaps t h)) [(base, sz - CHUNK)]"
      using no_blocks_one_chunk [OF l] us(3,4) create(4) by (simp add: live_heap_def ipc_heap_inv_def Let_def CHUNK_def)
    then show ?thesis
      using cell_list_neighbours [of "as_cells (chunks t)" "ih_head (ipc_heaps t h)" "[]" base "sz - CHUNK" "[]"] cell_list_hd
      by fastforce
  qed
  ultimately show ?thesis using run ipc.live_law [OF live] by blast
qed

theorem ipc_heap_run_witness:
  "\<exists>t. block_run (\<lambda>z. iosAllocAligned 0 z 32) (\<lambda>p. iosFree 0 (Some p)) [Take 100, Give 0] demo_ipc [] = Some (t, [])
    \<and> ih_head (ipc_heaps t 0) = Some 0x93400000 \<and> ic_size (chunks t 0x93400000) = 0xFF0"
proof -
  obtain s1 where s1: "iosAlloc 0 100 (2 ^ 5) demo_ipc = Some (Some 0x93400020, s1)" using demo_ipc_alloc by blast
  have "\<exists>t L. block_run (\<lambda>z. iosAllocAligned 0 z 32) (\<lambda>p. iosFree 0 (Some p)) [Take 100, Give 0] demo_ipc [] = Some (t, L)
    \<and> blocks_ok L \<and> (\<forall>(p, z)\<in>set L. 0x93400000 + CHUNK < p \<and> p + z \<le> 0x93400000 + 0x1000 \<and> 32 dvd p)
    \<and> (L = [] \<longrightarrow> ih_head (ipc_heaps t 0) = Some 0x93400000 \<and> ic_size (chunks t 0x93400000) = 0x1000 - CHUNK \<and> ic_next (chunks t 0x93400000) = None)"
    by (rule ipc_heap_run [OF demo_ipc_create]) (simp_all add: CHUNK_def)
  then obtain t L where t: "block_run (\<lambda>z. iosAllocAligned 0 z 32) (\<lambda>p. iosFree 0 (Some p)) [Take 100, Give 0] demo_ipc [] = Some (t, L)"
    "L = [] \<longrightarrow> ih_head (ipc_heaps t 0) = Some 0x93400000 \<and> ic_size (chunks t 0x93400000) = 0x1000 - CHUNK" by blast
  moreover have "L = []"
    using t(1) s1 by (auto simp: iosAllocAligned_def split: option.splits prod.splits if_splits)
  ultimately show ?thesis by (auto simp: CHUNK_def)
qed

end
