(* ===== verification/HeapCommon.thy ===== *)
theory HeapCommon
  imports MemList
begin

text \<open>
  \<^verbatim>\<open>mem/mem_heapCommon.c\<close> and the inline functions of \<^verbatim>\<open>mem_heapCommon.h\<close>: what the
  frame heap and the expandable heap share.  Every heap starts with a \<^verbatim>\<open>MEMiHeapHead\<close>; the
  heads are linked, through \<^verbatim>\<open>mem_list.c\<close>, into a forest in which a heap created inside
  another heap's range is its child.

  \<open>mheads\<close> maps the address of a head to its contents, \<open>mnodes\<close> the address of a link to
  its contents (the link of a head is at offset 4), \<open>mbytes\<close> the bytes of client memory.
  A heap's mutex is the number of times the caller holds it, \<open>hh_lock\<close>, and so is the root
  mutex; waiting for another thread is the business of \<^verbatim>\<open>OSLockMutex\<close>.
\<close>

section \<open>The code\<close>

record MEMiHeapHead =
  hh_magic :: int
  hh_list :: MEMList
  hh_start :: int
  hh_end :: int
  hh_lock :: int
  hh_attribute :: int

record mem_state = irq +
  mheads :: "int \<Rightarrow> MEMiHeapHead"
  mnodes :: nodes
  mbytes :: "int \<Rightarrow> int"
  sRootListInitialized :: bool
  sRootList :: MEMList
  root_lock :: int

definition HEAP_HEAD_SIZE :: int where "HEAP_HEAD_SIZE = 0x3C"
definition HEAP_LINK_OFFSET :: int where "HEAP_LINK_OFFSET = 4"

definition MEM_HEAP_OPT_CLEAR_ALLOC :: int where "MEM_HEAP_OPT_CLEAR_ALLOC = 1"
definition MEM_HEAP_OPT_CAN_LOCK :: int where "MEM_HEAP_OPT_CAN_LOCK = 4"

definition upd_head :: "int \<Rightarrow> (MEMiHeapHead \<Rightarrow> MEMiHeapHead) \<Rightarrow> 'a mem_state_scheme \<Rightarrow> 'a mem_state_scheme" where
  "upd_head h f s = s\<lparr>mheads := (mheads s)(h := f (mheads s h))\<rparr>"

definition AddU32ToPtr :: "int \<Rightarrow> int \<Rightarrow> int" where
  "AddU32ToPtr p ofs = u32 (p + ofs)"

definition SubU32ToPtr :: "int \<Rightarrow> int \<Rightarrow> int" where
  "SubU32ToPtr p ofs = u32 (p - ofs)"

definition GetOffsetFromPtr :: "int \<Rightarrow> int \<Rightarrow> int" where
  "GetOffsetFromPtr start end_ptr = s32 (u32 (end_ptr - start))"

text \<open>\<^verbatim>\<open>opt\<close> is the low byte of \<^verbatim>\<open>attribute\<close>.\<close>

definition GetOptForHeap :: "int \<Rightarrow> 'a mem_state_scheme \<Rightarrow> int" where
  "GetOptForHeap h s = u8 (hh_attribute (mheads s h))"

definition SetOptForHeap :: "int \<Rightarrow> int \<Rightarrow> 'a mem_state_scheme \<Rightarrow> 'a mem_state_scheme" where
  "SetOptForHeap h opt = upd_head h (\<lambda>hd. hd\<lparr>hh_attribute := hh_attribute hd div 256 * 256 + u8 opt\<rparr>)"

definition LockHeap :: "int \<Rightarrow> 'a mem_state_scheme \<Rightarrow> 'a mem_state_scheme" where
  "LockHeap h s =
     (if and (GetOptForHeap h s) MEM_HEAP_OPT_CAN_LOCK \<noteq> 0
      then upd_head h (\<lambda>hd. hd\<lparr>hh_lock := hh_lock hd + 1\<rparr>) s else s)"

definition UnlockHeap :: "int \<Rightarrow> 'a mem_state_scheme \<Rightarrow> 'a mem_state_scheme" where
  "UnlockHeap h s =
     (if and (GetOptForHeap h s) MEM_HEAP_OPT_CAN_LOCK \<noteq> 0
      then upd_head h (\<lambda>hd. hd\<lparr>hh_lock := hh_lock hd - 1\<rparr>) s else s)"

definition FillAllocMemory :: "int \<Rightarrow> int \<Rightarrow> int \<Rightarrow> 'a mem_state_scheme \<Rightarrow> 'a mem_state_scheme" where
  "FillAllocMemory h memBlock sz s =
     (if and (GetOptForHeap h s) MEM_HEAP_OPT_CLEAR_ALLOC \<noteq> 0
      then s\<lparr>mbytes := (\<lambda>a. if memBlock \<le> a \<and> a < memBlock + sz then 0 else mbytes s a)\<rparr>
      else s)"

definition MEMGetHeapTotalSize :: "int \<Rightarrow> 'a mem_state_scheme \<Rightarrow> int" where
  "MEMGetHeapTotalSize h s = GetOffsetFromPtr h (hh_end (mheads s h))"

definition MEMGetHeapEndAddress :: "int \<Rightarrow> 'a mem_state_scheme \<Rightarrow> int" where
  "MEMGetHeapEndAddress h s = hh_end (mheads s h)"

text \<open>
  The search through a list of heaps, and through the children of the heap it finds.  The outer
  option is None when a list is cyclic.
\<close>

partial_function (option) FindContainHeap ::
  "'a mem_state_scheme \<Rightarrow> MEMList \<Rightarrow> int option \<Rightarrow> int \<Rightarrow> int option option" where
  "FindContainHeap s l prev memBlock =
     (case MEMGetNextListObject (mnodes s) l prev of
        None \<Rightarrow> Some None
      | Some heap \<Rightarrow>
          if hh_start (mheads s heap) \<le> memBlock \<and> memBlock < hh_end (mheads s heap)
          then do {
            recursive \<leftarrow> FindContainHeap s (hh_list (mheads s heap)) None memBlock;
            Some (case recursive of Some r \<Rightarrow> Some r | None \<Rightarrow> Some heap)
          }
          else FindContainHeap s l (Some heap) memBlock)"

declare FindContainHeap.simps [code]

definition MEMFindContainHeap :: "'a mem_state_scheme \<Rightarrow> int \<Rightarrow> int option option" where
  "MEMFindContainHeap s memBlock = FindContainHeap s (sRootList s) None memBlock"

text \<open>The list a heap belongs to: that of the heap around it, or (None) the root list.\<close>

definition FindListContainHeap :: "'a mem_state_scheme \<Rightarrow> int \<Rightarrow> int option option" where
  "FindListContainHeap s heap = FindContainHeap s (sRootList s) None heap"

definition on_list :: "int option \<Rightarrow> (nodes \<times> MEMList \<Rightarrow> nodes \<times> MEMList) \<Rightarrow> 'a mem_state_scheme \<Rightarrow> 'a mem_state_scheme" where
  "on_list owner f s = (case owner of
     None \<Rightarrow> (case f (mnodes s, sRootList s) of (N, l) \<Rightarrow> s\<lparr>mnodes := N, sRootList := l\<rparr>)
   | Some h \<Rightarrow> (case f (mnodes s, hh_list (mheads s h)) of (N, l) \<Rightarrow>
       upd_head h (hh_list_update (\<lambda>_. l)) (s\<lparr>mnodes := N\<rparr>)))"

definition MEMiInitHeapHead :: "int \<Rightarrow> int \<Rightarrow> int \<Rightarrow> int \<Rightarrow> int \<Rightarrow> 'a mem_state_scheme \<Rightarrow> 'a mem_state_scheme option" where
  "MEMiInitHeapHead heap magic start end_ptr opt s = do {
     let s = upd_head heap (\<lambda>hd. hd\<lparr>hh_magic := magic, hh_start := start, hh_end := end_ptr, hh_attribute := 0\<rparr>) s;
     let s = SetOptForHeap heap opt s;
     let s = upd_head heap (hh_list_update (\<lambda>_. MEMInitList HEAP_LINK_OFFSET)) s;
     let s = (if \<not> sRootListInitialized s
              then s\<lparr>sRootList := MEMInitList HEAP_LINK_OFFSET, root_lock := 0, sRootListInitialized := True\<rparr>
              else s);
     let s = upd_head heap (hh_lock_update (\<lambda>_. 0)) s;
     let s = s\<lparr>root_lock := root_lock s + 1\<rparr>;
     owner \<leftarrow> FindListContainHeap s heap;
     let s = on_list owner (MEMAppendListObject heap) s;
     Some (s\<lparr>root_lock := root_lock s - 1\<rparr>)
   }"

definition MEMiFinalizeHeap :: "int \<Rightarrow> 'a mem_state_scheme \<Rightarrow> 'a mem_state_scheme option" where
  "MEMiFinalizeHeap heap s = do {
     let s = s\<lparr>root_lock := root_lock s + 1\<rparr>;
     owner \<leftarrow> FindListContainHeap s heap;
     let s = on_list owner (MEMRemoveListObject heap) s;
     let s = s\<lparr>root_lock := root_lock s - 1\<rparr>;
     Some (upd_head heap (hh_magic_update (\<lambda>_. 0)) s)
   }"

section \<open>The forest of heaps\<close>

datatype htree = HT (hroot: int) (hsubs: "htree list")

text \<open>A list of heaps represents a list of trees.\<close>

fun tree_rep :: "'a mem_state_scheme \<Rightarrow> htree \<Rightarrow> bool" where
  "tree_rep s (HT h ts) \<longleftrightarrow> memlist_rep (mnodes s, hh_list (mheads s h)) (map hroot ts) \<and>
     (\<forall>t \<in> set ts. tree_rep s t)"

definition forest_rep :: "'a mem_state_scheme \<Rightarrow> MEMList \<Rightarrow> htree list \<Rightarrow> bool" where
  "forest_rep s l ts \<longleftrightarrow> memlist_rep (mnodes s, l) (map hroot ts) \<and> (\<forall>t \<in> set ts. tree_rep s t)"

definition in_heap :: "'a mem_state_scheme \<Rightarrow> int \<Rightarrow> int \<Rightarrow> bool" where
  "in_heap s m h \<longleftrightarrow> hh_start (mheads s h) \<le> m \<and> m < hh_end (mheads s h)"

text \<open>The innermost heap around an address, first in list order.\<close>

fun innermost :: "'a mem_state_scheme \<Rightarrow> int \<Rightarrow> htree \<Rightarrow> int option" and
  innermost_list :: "'a mem_state_scheme \<Rightarrow> int \<Rightarrow> htree list \<Rightarrow> int option" where
  "innermost s m (HT h ts) =
     (if in_heap s m h then (case innermost_list s m ts of Some r \<Rightarrow> Some r | None \<Rightarrow> Some h) else None)"
| "innermost_list s m [] = None"
| "innermost_list s m (t # ts) = (case innermost s m t of Some r \<Rightarrow> Some r | None \<Rightarrow> innermost_list s m ts)"


lemma innermost_None: "innermost s m t = None \<longleftrightarrow> \<not> in_heap s m (hroot t)"
  by (cases t) (auto split: option.splits)

lemma innermost_list_None: "innermost_list s m ts = None \<longleftrightarrow> (\<forall>t \<in> set ts. \<not> in_heap s m (hroot t))"
proof (induction ts)
  case (Cons t ts)
  then show ?case using innermost_None [of s m t] by (cases "innermost s m t") auto
qed simp

lemma MEMGetNextListObject_after:
  assumes "memlist_rep (N, l) (us @ vs)"
  shows "MEMGetNextListObject N l (last_opt us) = hd_opt vs"
proof (cases us rule: rev_cases)
  case Nil
  have "qhead (mem_queue l) = hd_opt vs"
    using dlist_head [OF memlist_rep_dlist [OF assms]] Nil by simp
  then show ?thesis using Nil by (simp add: MEMGetNextListObject_def mem_queue_def)
next
  case (snoc ws w)
  then show ?thesis using MEMGetNextListObject_rep(1) [of N l ws w vs] assms by simp
qed

lemma FindContainHeap_forest:
  "\<forall>h ts. t = HT h ts \<longrightarrow> tree_rep s t \<longrightarrow> in_heap s m h \<longrightarrow>
     FindContainHeap s (hh_list (mheads s h)) None m = Some (innermost_list s m ts)"
  "\<forall>l us. forest_rep s l (us @ ts) \<longrightarrow>
     FindContainHeap s l (last_opt (map hroot us)) m = Some (innermost_list s m ts)"
proof (induction s m t and s m ts rule: innermost_innermost_list.induct)
  case (1 s m h ts)
  show ?case
  proof (intro allI impI)
    fix h' ts' assume e: "HT h ts = HT h' ts'" "tree_rep s (HT h ts)" "in_heap s m h'"
    then have "forest_rep s (hh_list (mheads s h')) ([] @ ts')" by (simp add: forest_rep_def)
    with 1 e show "FindContainHeap s (hh_list (mheads s h')) None m = Some (innermost_list s m ts')"
      by fastforce
  qed
next
  case (2 s m)
  show ?case
  proof (intro allI impI)
    fix l us assume "forest_rep s l (us @ [])"
    then have "MEMGetNextListObject (mnodes s) l (last_opt (map hroot us)) = hd_opt []"
      by (intro MEMGetNextListObject_after) (simp add: forest_rep_def)
    then show "FindContainHeap s l (last_opt (map hroot us)) m = Some (innermost_list s m [])"
      by (simp add: FindContainHeap.simps)
  qed
next
  case (3 s m t ts)
  show ?case
  proof (intro allI impI)
    fix l us assume f: "forest_rep s l (us @ t # ts)"
    obtain h cs where t: "t = HT h cs" by (cases t)
    have nx: "MEMGetNextListObject (mnodes s) l (last_opt (map hroot us)) = hd_opt (map hroot (t # ts))"
      by (rule MEMGetNextListObject_after) (use f in \<open>simp add: forest_rep_def\<close>)
    show "FindContainHeap s l (last_opt (map hroot us)) m = Some (innermost_list s m (t # ts))"
    proof (cases "in_heap s m h")
      case True
      have "tree_rep s t" using f by (simp add: forest_rep_def)
      then have "FindContainHeap s (hh_list (mheads s h)) None m = Some (innermost_list s m cs)"
        using 3(1) t True by blast
      then show ?thesis using True t
        by (subst FindContainHeap.simps) (simp add: nx in_heap_def split: option.splits)
    next
      case False
      then have "innermost s m t = None" by (simp add: innermost_None t)
      with 3(2) have "FindContainHeap s l (last_opt (map hroot (us @ [t]))) m = Some (innermost_list s m ts)"
        using f by (metis append.assoc append_Cons append_Nil)
      moreover have "last_opt (map hroot (us @ [t])) = Some h" by (simp add: t)
      ultimately show ?thesis using False t
        by (subst FindContainHeap.simps) (auto simp: nx in_heap_def)
    qed
  qed
qed


fun subtrees :: "htree \<Rightarrow> htree list" where
  "subtrees (HT h ts) = HT h ts # concat (map subtrees ts)"

lemma innermost_sound:
  "innermost s m t = Some r \<Longrightarrow> \<exists>cs. HT r cs \<in> set (subtrees t) \<and> in_heap s m r \<and> (\<forall>c \<in> set cs. \<not> in_heap s m (hroot c))"
  "innermost_list s m ts = Some r \<Longrightarrow> \<exists>cs. HT r cs \<in> set (concat (map subtrees ts)) \<and> in_heap s m r \<and> (\<forall>c \<in> set cs. \<not> in_heap s m (hroot c))"
proof (induction s m t and s m ts rule: innermost_innermost_list.induct)
  case (1 s m h ts)
  show ?case
  proof (cases "innermost_list s m ts")
    case None
    then have "\<forall>c \<in> set ts. \<not> in_heap s m (hroot c)" by (simp add: innermost_list_None)
    then show ?thesis using 1 None by (auto split: if_splits)
  qed (use 1 in \<open>auto split: if_splits\<close>)
next
  case (3 s m t ts)
  then show ?case by (cases "innermost s m t") auto
qed simp

section \<open>Properties\<close>

text \<open>C15. On a well-formed forest of heaps \<^verbatim>\<open>MEMFindContainHeap\<close> returns, and its answer
  is the innermost heap: the address lies in the heap's range and in the range of none of its
  children; NULL means that no top-level heap contains the address.\<close>

theorem MEMFindContainHeap_innermost:
  assumes "forest_rep s (sRootList s) ts"
  shows "MEMFindContainHeap s m = Some (innermost_list s m ts) \<and>
    (case innermost_list s m ts of
       None \<Rightarrow> \<forall>t \<in> set ts. \<not> in_heap s m (hroot t)
     | Some r \<Rightarrow> \<exists>cs. HT r cs \<in> set (concat (map subtrees ts)) \<and> in_heap s m r \<and>
         (\<forall>c \<in> set cs. \<not> in_heap s m (hroot c)))"
proof -
  have "MEMFindContainHeap s m = Some (innermost_list s m ts)"
    using FindContainHeap_forest(2) [of s ts m] assms unfolding MEMFindContainHeap_def
    by (metis append_Nil last_opt_simps(1) list.map(1))
  then show ?thesis
    using innermost_sound(2) [of s m ts] innermost_list_None [of s m ts]
    by (cases "innermost_list s m ts") auto
qed

definition head_zero :: MEMiHeapHead where
  "head_zero = \<lparr>hh_magic = 0, hh_list = MEMInitList 0, hh_start = 0, hh_end = 0, hh_lock = 0, hh_attribute = 0\<rparr>"

text \<open>A heap at 0x1000 to 0x9000 and inside it one at 0x2000 to 0x3000.\<close>

definition demo_forest :: mem_state where
  "demo_forest = \<lparr> irq_enabled = True,
     mheads = (\<lambda>_. head_zero)(
       0x1000 := head_zero\<lparr>hh_list := \<lparr>list_head = Some 0x2000, list_tail = Some 0x2000, list_length = 1, list_offset = 4\<rparr>,
         hh_start := 0x1050, hh_end := 0x9000\<rparr>,
       0x2000 := head_zero\<lparr>hh_start := 0x2050, hh_end := 0x3000\<rparr>),
     mnodes = \<lambda>_. \<lparr>ml_prev = None, ml_next = None\<rparr>, mbytes = \<lambda>_. 0xCC, sRootListInitialized = True,
     sRootList = \<lparr>list_head = Some 0x1000, list_tail = Some 0x1000, list_length = 1, list_offset = 4\<rparr>, root_lock = 0\<rparr>"

lemma demo_forest_rep: "forest_rep demo_forest (sRootList demo_forest) [HT 0x1000 [HT 0x2000 []]]"
  by (simp add: forest_rep_def demo_forest_def memlist_rep_def dlist_def mem_queue_def head_zero_def
      MEMInitList_def u16_def)

theorem MEMFindContainHeap_innermost_witness:
  "MEMFindContainHeap demo_forest 0x2100 = Some (Some 0x2000) \<and>
   MEMFindContainHeap demo_forest 0x2000 = Some (Some 0x1000) \<and>
   MEMFindContainHeap demo_forest 0x500 = Some None"
  using MEMFindContainHeap_innermost [OF demo_forest_rep, of "0x2100"]
    MEMFindContainHeap_innermost [OF demo_forest_rep, of "0x2000"]
    MEMFindContainHeap_innermost [OF demo_forest_rep, of "0x500"]
  by (simp add: in_heap_def demo_forest_def head_zero_def)

end
