(* ===== verification/FrmHeap.thy ===== *)
theory FrmHeap
  imports HeapCommon
begin

text \<open>
  \<^verbatim>\<open>mem/mem_frameHeap.c\<close>: the frame heap, which allocates from both ends of its free
  range and releases only whole ends, or back to a recorded state.  \<open>frms\<close> maps the address of
  a \<^verbatim>\<open>MEMiFrmHeapHead\<close> (behind the common head, outside what the heap hands out) to its
  contents.  A recorded state lies in the memory the heap hands out: it is sixteen bytes of
  \<open>mbytes\<close>, big-endian as the processor stores them, and an allocation or a client that writes there
  destroys it.  Addresses are unsigned, 0 is NULL; the sums of the code wrap at \<open>2 ^ 32\<close>.
\<close>

section \<open>The code\<close>

record MEMiFrmHeapState =
  fs_id :: int
  fs_head :: int
  fs_tail :: int
  fs_next :: "int option"

record MEMiFrmHeapHead =
  frm_head :: int
  frm_tail :: int
  frm_states :: "int option"

record frm_state = mem_state +
  frms :: "int \<Rightarrow> MEMiFrmHeapHead"

definition MEM_FRM_HEAP_MAGIC :: int where "MEM_FRM_HEAP_MAGIC = 0x46524D48"
definition MEM_FRM_HEAP_HEAD_SIZE :: int where "MEM_FRM_HEAP_HEAD_SIZE = HEAP_HEAD_SIZE + 0xC"
definition MEM_FRM_HEAP_MIN_SIZE :: int where "MEM_FRM_HEAP_MIN_SIZE = HEAP_HEAD_SIZE + 0xC"
definition FRM_STATE_SIZE :: int where "FRM_STATE_SIZE = 0x10"
definition MEM_FRM_HEAP_FREE_TO_HEAD :: int where "MEM_FRM_HEAP_FREE_TO_HEAD = 1"
definition MEM_FRM_HEAP_FREE_TO_TAIL :: int where "MEM_FRM_HEAP_FREE_TO_TAIL = 2"

definition GetFrmHeapHeadPtrFromHeapHead :: "int \<Rightarrow> int" where
  "GetFrmHeapHeadPtrFromHeapHead heap = AddU32ToPtr heap HEAP_HEAD_SIZE"

definition GetHeapHeadPtrFromFrmHeapHead :: "int \<Rightarrow> int" where
  "GetHeapHeadPtrFromFrmHeapHead frm = SubU32ToPtr frm HEAP_HEAD_SIZE"

definition upd_frm :: "int \<Rightarrow> (MEMiFrmHeapHead \<Rightarrow> MEMiFrmHeapHead) \<Rightarrow> frm_state \<Rightarrow> frm_state" where
  "upd_frm f g s = s\<lparr>frms := (frms s)(f := g (frms s f))\<rparr>"

text \<open>Words and recorded states in memory.\<close>

definition load32 :: "(int \<Rightarrow> int) \<Rightarrow> int \<Rightarrow> int" where
  "load32 M p = M p * 0x1000000 + M (p + 1) * 0x10000 + M (p + 2) * 0x100 + M (p + 3)"

definition store32 :: "int \<Rightarrow> int \<Rightarrow> (int \<Rightarrow> int) \<Rightarrow> (int \<Rightarrow> int)" where
  "store32 p v M = M(p := u8 (v div 0x1000000), p + 1 := u8 (v div 0x10000), p + 2 := u8 (v div 0x100),
     p + 3 := u8 v)"

definition ptr_of :: "int \<Rightarrow> int option" where
  "ptr_of v = (if v = 0 then None else Some v)"

definition of_ptr :: "int option \<Rightarrow> int" where
  "of_ptr p = (case p of None \<Rightarrow> 0 | Some v \<Rightarrow> v)"

definition load_state :: "(int \<Rightarrow> int) \<Rightarrow> int \<Rightarrow> MEMiFrmHeapState" where
  "load_state M p = \<lparr>fs_id = load32 M p, fs_head = load32 M (p + 4), fs_tail = load32 M (p + 8),
     fs_next = ptr_of (load32 M (p + 12))\<rparr>"

definition store_state :: "int \<Rightarrow> MEMiFrmHeapState \<Rightarrow> (int \<Rightarrow> int) \<Rightarrow> (int \<Rightarrow> int)" where
  "store_state p st M = store32 (p + 12) (of_ptr (fs_next st)) (store32 (p + 8) (fs_tail st)
     (store32 (p + 4) (fs_head st) (store32 p (fs_id st) M)))"

definition InitFrameHeap :: "int \<Rightarrow> int \<Rightarrow> int \<Rightarrow> frm_state \<Rightarrow> (int \<times> frm_state) option" where
  "InitFrameHeap heap end_ptr opt s = do {
     let frm = GetFrmHeapHeadPtrFromHeapHead heap;
     s \<leftarrow> MEMiInitHeapHead heap MEM_FRM_HEAP_MAGIC (AddU32ToPtr heap MEM_FRM_HEAP_HEAD_SIZE) end_ptr opt s;
     Some (heap, upd_frm frm (\<lambda>f. f\<lparr>frm_head := hh_start (mheads s heap), frm_tail := hh_end (mheads s heap),
        frm_states := None\<rparr>) s)
   }"

definition FrmAllocFromHead :: "int \<Rightarrow> int \<Rightarrow> int \<Rightarrow> frm_state \<Rightarrow> int \<times> frm_state" where
  "FrmAllocFromHead frm sz align s =
     (let start = ROUND_UP (frm_head (frms s frm)) align;
          end_ptr = AddU32ToPtr start sz
      in if end_ptr > frm_tail (frms s frm) then (0, s)
         else
           let s = FillAllocMemory (GetHeapHeadPtrFromFrmHeapHead frm) (frm_head (frms s frm))
                     (u32 (GetOffsetFromPtr (frm_head (frms s frm)) end_ptr)) s
           in (start, upd_frm frm (frm_head_update (\<lambda>_. end_ptr)) s))"

definition FrmAllocFromTail :: "int \<Rightarrow> int \<Rightarrow> int \<Rightarrow> frm_state \<Rightarrow> int \<times> frm_state" where
  "FrmAllocFromTail frm sz align s =
     (let start = ROUND_DOWN (SubU32ToPtr (frm_tail (frms s frm)) sz) align
      in if start < frm_head (frms s frm) then (0, s)
         else
           let s = FillAllocMemory (GetHeapHeadPtrFromFrmHeapHead frm) start
                     (u32 (GetOffsetFromPtr start (frm_tail (frms s frm)))) s
           in (start, upd_frm frm (frm_tail_update (\<lambda>_. start)) s))"

definition FreeHead :: "int \<Rightarrow> frm_state \<Rightarrow> frm_state" where
  "FreeHead heap s = upd_frm (GetFrmHeapHeadPtrFromHeapHead heap)
     (\<lambda>f. f\<lparr>frm_head := hh_start (mheads s heap), frm_states := None\<rparr>) s"

text \<open>The loop over the recorded states.\<close>

partial_function (option) set_tails ::
  "int \<Rightarrow> int option \<Rightarrow> (int \<Rightarrow> int) \<Rightarrow> (int \<Rightarrow> int) option" where
  "set_tails e p M = (case p of None \<Rightarrow> Some M
     | Some st \<Rightarrow> (let M = store32 (st + 8) e M in set_tails e (fs_next (load_state M st)) M))"

declare set_tails.simps [code]

definition FreeTail :: "int \<Rightarrow> frm_state \<Rightarrow> frm_state option" where
  "FreeTail heap s =
     (let frm = GetFrmHeapHeadPtrFromHeapHead heap
      in map_option (\<lambda>M. upd_frm frm (frm_tail_update (\<lambda>_. hh_end (mheads s heap))) (s\<lparr>mbytes := M\<rparr>))
           (set_tails (hh_end (mheads s heap)) (frm_states (frms s frm)) (mbytes s)))"

definition MEMCreateFrmHeapEx :: "int \<Rightarrow> int \<Rightarrow> int \<Rightarrow> frm_state \<Rightarrow> (int \<times> frm_state) option" where
  "MEMCreateFrmHeapEx start sz opt s =
     (let end_ptr = ROUND_DOWN (AddU32ToPtr start sz) 4;
          start = ROUND_UP start 4
      in if start > end_ptr \<or> u32 (GetOffsetFromPtr start end_ptr) < MEM_FRM_HEAP_MIN_SIZE then Some (0, s)
         else InitFrameHeap start end_ptr opt s)"

definition MEMDestroyFrmHeap :: "int \<Rightarrow> frm_state \<Rightarrow> (int \<times> frm_state) option" where
  "MEMDestroyFrmHeap heap s = map_option (\<lambda>s. (heap, s)) (MEMiFinalizeHeap heap s)"

definition MEMAllocFromFrmHeapEx :: "int \<Rightarrow> int \<Rightarrow> int \<Rightarrow> frm_state \<Rightarrow> int \<times> frm_state" where
  "MEMAllocFromFrmHeapEx heap sz align s =
     (let frm = GetFrmHeapHeadPtrFromHeapHead heap;
          sz = (if sz = 0 then 1 else sz);
          sz = ROUND_UP sz 4;
          s = LockHeap heap s;
          (memBlock, s) = (if align \<ge> 0 then FrmAllocFromHead frm sz align s
                           else FrmAllocFromTail frm sz (- align) s)
      in (memBlock, UnlockHeap heap s))"

definition MEMFreeToFrmHeap :: "int \<Rightarrow> int \<Rightarrow> frm_state \<Rightarrow> frm_state option" where
  "MEMFreeToFrmHeap heap flags s = do {
     let s = LockHeap heap s;
     let s = (if and flags MEM_FRM_HEAP_FREE_TO_HEAD \<noteq> 0 then FreeHead heap s else s);
     s \<leftarrow> (if and flags MEM_FRM_HEAP_FREE_TO_TAIL \<noteq> 0 then FreeTail heap s else Some s);
     Some (UnlockHeap heap s)
   }"

definition MEMGetAllocatableSizeForFrmHeapEx :: "int \<Rightarrow> int \<Rightarrow> frm_state \<Rightarrow> int \<times> frm_state" where
  "MEMGetAllocatableSizeForFrmHeapEx heap align s =
     (let align = \<bar>align\<bar>;
          (enabled, s) = OSDisableInterrupts s;
          frm = GetFrmHeapHeadPtrFromHeapHead heap;
          start = ROUND_UP (frm_head (frms s frm)) align;
          sz = (if start > frm_tail (frms s frm) then 0
                else u32 (GetOffsetFromPtr start (frm_tail (frms s frm))))
      in (sz, OSRestoreInterrupts enabled s))"

definition MEMRecordStateForFrmHeap :: "int \<Rightarrow> int \<Rightarrow> frm_state \<Rightarrow> bool \<times> frm_state" where
  "MEMRecordStateForFrmHeap heap sid s =
     (let s = LockHeap heap s;
          frm = GetFrmHeapHeadPtrFromHeapHead heap;
          head = frm_head (frms s frm);
          (state, s) = FrmAllocFromHead frm FRM_STATE_SIZE 4 s;
          (success, s) =
            (if state = 0 then (False, s)
             else
               let s = s\<lparr>mbytes := store_state state \<lparr>fs_id = sid, fs_head = head,
                         fs_tail = frm_tail (frms s frm), fs_next = frm_states (frms s frm)\<rparr> (mbytes s)\<rparr>
               in (True, upd_frm frm (frm_states_update (\<lambda>_. Some state)) s))
      in (success, UnlockHeap heap s))"

definition MEMFreeByStateToFrmHeap :: "int \<Rightarrow> int \<Rightarrow> frm_state \<Rightarrow> (bool \<times> frm_state) option" where
  "MEMFreeByStateToFrmHeap heap sid s = do {
     let s = LockHeap heap s;
     let frm = GetFrmHeapHeadPtrFromHeapHead heap;
     let rec = load_state (mbytes s);
     state \<leftarrow> (if sid \<noteq> 0 then seek (\<lambda>p. fs_next (rec p)) (\<lambda>p. fs_id (rec p) = sid) (frm_states (frms s frm))
              else Some (frm_states (frms s frm)));
     let (success, s) = (case state of
            None \<Rightarrow> (False, s)
          | Some p \<Rightarrow> (True, upd_frm frm (\<lambda>f. f\<lparr>frm_head := fs_head (rec p),
               frm_tail := fs_tail (rec p), frm_states := fs_next (rec p)\<rparr>) s));
     Some (success, UnlockHeap heap s)
   }"

definition MEMAdjustFrmHeap :: "int \<Rightarrow> frm_state \<Rightarrow> int \<times> frm_state" where
  "MEMAdjustFrmHeap heap s =
     (let s = LockHeap heap s;
          frm = GetFrmHeapHeadPtrFromHeapHead heap;
          (newSize, s) =
            (if GetOffsetFromPtr (frm_tail (frms s frm)) (hh_end (mheads s heap)) \<noteq> 0 then (0, s)
             else
               let s = upd_head heap (hh_end_update (\<lambda>_. frm_head (frms s frm))) s;
                   s = upd_frm frm (frm_tail_update (\<lambda>_. frm_head (frms s frm))) s
               in (u32 (GetOffsetFromPtr heap (frm_head (frms s frm))), s))
      in (newSize, UnlockHeap heap s))"

definition MEMResizeForMBlockFrmHeap :: "int \<Rightarrow> int \<Rightarrow> int \<Rightarrow> frm_state \<Rightarrow> int \<times> frm_state" where
  "MEMResizeForMBlockFrmHeap heap memBlock sz s =
     (let sz = (if sz = 0 then 1 else sz);
          sz = ROUND_UP sz 4;
          s = LockHeap heap s;
          frm = GetFrmHeapHeadPtrFromHeapHead heap;
          offset = u32 (GetOffsetFromPtr memBlock (frm_head (frms s frm)));
          newHead = AddU32ToPtr memBlock sz;
          (sz, s) =
            (if sz \<noteq> offset
             then
               if sz > offset
               then
                 if GetOffsetFromPtr (frm_tail (frms s frm)) newHead > 0 then (0, s)
                 else
                   let s = FillAllocMemory heap (frm_head (frms s frm)) (u32 (sz - offset)) s
                   in (sz, upd_frm frm (frm_head_update (\<lambda>_. newHead)) s)
               else (sz, upd_frm frm (frm_head_update (\<lambda>_. newHead)) s)
             else (sz, s))
      in (sz, UnlockHeap heap s))"


section \<open>What the operations leave alone\<close>

lemma upd_head_sel [simp]:
  "mheads (upd_head h f s) x = (if x = h then f (mheads s h) else mheads s x)"
  "mbytes (upd_head h f s) = mbytes s" "mnodes (upd_head h f s) = mnodes s"
  "irq_enabled (upd_head h f s) = irq_enabled s"
  by (simp_all add: upd_head_def)

lemma upd_head_frm [simp]: "frms (upd_head h f s) = frms s"
  by (simp_all add: upd_head_def)

lemma upd_frm_sel [simp]:
  "frms (upd_frm f g s) x = (if x = f then g (frms s f) else frms s x)"
  "mheads (upd_frm f g s) = mheads s" "mbytes (upd_frm f g s) = mbytes s"
  by (simp_all add: upd_frm_def)

lemma LockHeap_sel [simp]:
  "frms (LockHeap h s) = frms s" "mbytes (LockHeap h s) = mbytes s"
  "hh_start (mheads (LockHeap h s) x) = hh_start (mheads s x)" "hh_end (mheads (LockHeap h s) x) = hh_end (mheads s x)"
  "hh_attribute (mheads (LockHeap h s) x) = hh_attribute (mheads s x)"
  by (simp_all add: LockHeap_def)

lemma UnlockHeap_sel [simp]:
  "frms (UnlockHeap h s) = frms s" "mbytes (UnlockHeap h s) = mbytes s"
  "hh_start (mheads (UnlockHeap h s) x) = hh_start (mheads s x)" "hh_end (mheads (UnlockHeap h s) x) = hh_end (mheads s x)"
  "hh_attribute (mheads (UnlockHeap h s) x) = hh_attribute (mheads s x)"
  by (simp_all add: UnlockHeap_def)

lemma FillAllocMemory_sel [simp]:
  "frms (FillAllocMemory h a n s) = frms s"
  "mheads (FillAllocMemory h a n s) = mheads s"
  by (simp_all add: FillAllocMemory_def)

text \<open>Every lock is matched: the mutex is held as often as before.\<close>

lemma lock_unlock:
  assumes "hh_lock (mheads s' h) = hh_lock (mheads (LockHeap h s) h)"
    "hh_attribute (mheads s' h) = hh_attribute (mheads s h)"
  shows "hh_lock (mheads (UnlockHeap h s') h) = hh_lock (mheads s h)"
  using assms by (simp add: LockHeap_def UnlockHeap_def GetOptForHeap_def split: if_splits)

definition frm_of :: "frm_state \<Rightarrow> int \<Rightarrow> MEMiFrmHeapHead" where
  "frm_of s h = frms s (GetFrmHeapHeadPtrFromHeapHead h)"

text \<open>The free range lies inside the heap.\<close>

definition frm_inv :: "frm_state \<Rightarrow> int \<Rightarrow> bool" where
  "frm_inv s h \<longleftrightarrow> 0 < hh_start (mheads s h) \<and> hh_start (mheads s h) \<le> frm_head (frm_of s h) \<and>
     frm_head (frm_of s h) \<le> frm_tail (frm_of s h) \<and> frm_tail (frm_of s h) \<le> hh_end (mheads s h) \<and>
     hh_end (mheads s h) < 2 ^ 31 + hh_start (mheads s h) \<and> hh_end (mheads s h) < 2 ^ 32 \<and> 0 \<le> h \<and> h < 2 ^ 32"

lemma head_of_frm: "0 \<le> h \<Longrightarrow> h < 2 ^ 32 \<Longrightarrow> GetHeapHeadPtrFromFrmHeapHead (GetFrmHeapHeadPtrFromHeapHead h) = h"
proof -
  assume h: "0 \<le> h" "h < 2 ^ 32"
  have "u32 (u32 (h + HEAP_HEAD_SIZE) - HEAP_HEAD_SIZE) = u32 h"
    by (simp add: u32_def mod_diff_left_eq)
  then show ?thesis
    using h by (simp add: GetHeapHeadPtrFromFrmHeapHead_def GetFrmHeapHeadPtrFromHeapHead_def AddU32ToPtr_def
        SubU32ToPtr_def u32_id)
qed

section \<open>Allocation at either end\<close>

definition clears :: "frm_state \<Rightarrow> int \<Rightarrow> bool" where
  "clears s h \<longleftrightarrow> and (GetOptForHeap h s) MEM_HEAP_OPT_CLEAR_ALLOC \<noteq> 0"

text \<open>What a successful allocation of \<open>z\<close> bytes does to the bytes between \<open>lo\<close> and \<open>hi\<close>.\<close>

definition filled :: "frm_state \<Rightarrow> int \<Rightarrow> int \<Rightarrow> int \<Rightarrow> (int \<Rightarrow> int)" where
  "filled s h lo hi = (\<lambda>a. if clears s h \<and> lo \<le> a \<and> a < hi then 0 else mbytes s a)"

lemma FillAllocMemory_bytes:
  assumes "lo \<le> hi" "hi - lo < 2 ^ 31"
  shows "mbytes (FillAllocMemory h lo (u32 (GetOffsetFromPtr lo hi)) s) = filled s h lo hi"
proof -
  have "GetOffsetFromPtr lo hi = hi - lo"
    using assms by (simp add: GetOffsetFromPtr_def u32_id s32_id)
  then have "u32 (GetOffsetFromPtr lo hi) = hi - lo" using assms by (simp add: u32_id)
  then show ?thesis by (auto simp: FillAllocMemory_def filled_def clears_def fun_eq_iff)
qed

lemma FrmAllocFromHead_ok:
  assumes inv: "frm_inv s h" and z: "0 < z" and k: "k < 31" and w: "frm_head (frm_of s h) + 2 ^ k + z \<le> 2 ^ 32"
  defines "frm \<equiv> GetFrmHeapHeadPtrFromHeapHead h" and "a \<equiv> ROUND_UP (frm_head (frm_of s h)) (2 ^ k)"
  shows "if a + z > frm_tail (frm_of s h) then FrmAllocFromHead frm z (2 ^ k) s = (0, s)
    else \<exists>s'. FrmAllocFromHead frm z (2 ^ k) s = (a, s') \<and> frm_inv s' h \<and>
      frms s' = (frms s)(frm := (frm_of s h)\<lparr>frm_head := a + z\<rparr>) \<and> mheads s' = mheads s \<and>
      mbytes s' = filled s h (frm_head (frm_of s h)) (a + z) \<and>
      0 < a \<and> 2 ^ k dvd a \<and> frm_head (frm_of s h) \<le> a"
proof -
  let ?f = "frm_of s h"
  have f: "frms s frm = ?f" by (simp add: frm_of_def frm_def)
  have hd: "0 < frm_head ?f" "frm_head ?f + 2 ^ k - 1 < 2 ^ 32" using inv w z by (auto simp: frm_inv_def)
  note a = ROUND_UP_bounds [OF less_imp_le [OF hd(1)] hd(2), folded a_def]
  have e: "AddU32ToPtr a z = a + z" using a hd w z by (simp add: AddU32ToPtr_def u32_id)
  show ?thesis
  proof (cases "a + z > frm_tail ?f")
    case True
    then show ?thesis by (simp add: FrmAllocFromHead_def f a_def [symmetric] e)
  next
    case False
    define s' where "s' = upd_frm frm (frm_head_update (\<lambda>_. a + z))
      (FillAllocMemory h (frm_head ?f) (u32 (GetOffsetFromPtr (frm_head ?f) (a + z))) s)"
    have r: "FrmAllocFromHead frm z (2 ^ k) s = (a, s')"
      using False head_of_frm [of h] inv
      by (simp add: FrmAllocFromHead_def Let_def f a_def [symmetric] e s'_def frm_def [symmetric] frm_inv_def)
    have "frm_head ?f \<le> a + z" "a + z - frm_head ?f < 2 ^ 31"
      using a(1) z False inv by (auto simp: frm_inv_def)
    note b = FillAllocMemory_bytes [OF this, of h s]
    have "frm_inv s' h"
      using inv False a(1) z by (simp add: frm_inv_def s'_def frm_of_def frm_def)
    moreover have "frms s' = (frms s)(frm := ?f\<lparr>frm_head := a + z\<rparr>)"
      by (auto simp: s'_def f fun_eq_iff)
    ultimately show ?thesis using False r b a hd(1) by (simp add: s'_def)
  qed
qed

lemma FrmAllocFromTail_ok:
  assumes inv: "frm_inv s h" and z: "0 < z" and k: "k < 31" and w: "z \<le> frm_tail (frm_of s h)"
  defines "frm \<equiv> GetFrmHeapHeadPtrFromHeapHead h" and "a \<equiv> ROUND_DOWN (frm_tail (frm_of s h) - z) (2 ^ k)"
  shows "if a < frm_head (frm_of s h) then FrmAllocFromTail frm z (2 ^ k) s = (0, s)
    else \<exists>s'. FrmAllocFromTail frm z (2 ^ k) s = (a, s') \<and> frm_inv s' h \<and>
      frms s' = (frms s)(frm := (frm_of s h)\<lparr>frm_tail := a\<rparr>) \<and> mheads s' = mheads s \<and>
      mbytes s' = filled s h a (frm_tail (frm_of s h)) \<and>
      0 < a \<and> 2 ^ k dvd a \<and> a + z \<le> frm_tail (frm_of s h)"
proof -
  let ?f = "frm_of s h"
  have f: "frms s frm = ?f" by (simp add: frm_of_def frm_def)
  have rng: "0 \<le> frm_tail ?f - z" "frm_tail ?f - z < 2 ^ 32" using inv w z by (auto simp: frm_inv_def)
  then have e: "SubU32ToPtr (frm_tail ?f) z = frm_tail ?f - z" by (simp add: SubU32ToPtr_def u32_id)
  note a = ROUND_DOWN_bounds [OF rng, of k, folded a_def]
  show ?thesis
  proof (cases "a < frm_head ?f")
    case True
    then show ?thesis by (simp add: FrmAllocFromTail_def f e a_def [symmetric])
  next
    case False
    define s' where "s' = upd_frm frm (frm_tail_update (\<lambda>_. a))
      (FillAllocMemory h a (u32 (GetOffsetFromPtr a (frm_tail ?f))) s)"
    have r: "FrmAllocFromTail frm z (2 ^ k) s = (a, s')"
      using False head_of_frm [of h] inv
      by (simp add: FrmAllocFromTail_def Let_def f e a_def [symmetric] s'_def frm_def [symmetric] frm_inv_def)
    have "a \<le> frm_tail ?f" "frm_tail ?f - a < 2 ^ 31"
      using a(1) z False inv by (auto simp: frm_inv_def)
    note b = FillAllocMemory_bytes [OF this, of h s]
    have "frm_inv s' h"
      using inv False a(1) z by (simp add: frm_inv_def s'_def frm_of_def frm_def)
    moreover have "frms s' = (frms s)(frm := ?f\<lparr>frm_tail := a\<rparr>)"
      by (auto simp: s'_def f fun_eq_iff)
    ultimately show ?thesis using False r b a inv by (simp add: s'_def frm_inv_def)
  qed
qed


lemma locked [simp]:
  "frm_inv (LockHeap h s) h = frm_inv s h" "frm_of (LockHeap h s) h' = frm_of s h'"
  "clears (LockHeap h s) h = clears s h" "frm_inv (UnlockHeap h s) h = frm_inv s h"
  "frm_of (UnlockHeap h s) h' = frm_of s h'"
  by (simp_all add: frm_inv_def frm_of_def clears_def GetOptForHeap_def)

definition frm_size :: "int \<Rightarrow> int" where
  "frm_size sz = ROUND_UP (if sz = 0 then 1 else sz) 4"

lemma frm_size_bounds:
  assumes "0 \<le> sz" "sz + 3 < 2 ^ 32"
  shows "0 < frm_size sz" "sz \<le> frm_size sz" "frm_size sz \<le> sz + 4"
  using ROUND_UP_4_bounds [of "if sz = 0 then 1 else sz"] assms by (auto simp: frm_size_def split: if_splits)

lemma filled_LockHeap [simp]: "filled (LockHeap h s) h lo hi = filled s h lo hi"
  by (auto simp: filled_def fun_eq_iff)

lemma MEMAlloc_unlock:
  fixes s :: frm_state
  assumes "frm_inv s1 h" "mheads s1 = mheads (LockHeap h s)"
  shows "frm_inv (UnlockHeap h s1) h \<and> hh_lock (mheads (UnlockHeap h s1) h) = hh_lock (mheads s h)"
  using assms lock_unlock [of s1 h s] by simp

section \<open>Properties\<close>

text \<open>Allocation from the low end of a frame heap, when the sums stay in range: NULL and an
  unchanged heap exactly when the aligned block does not fit; otherwise the block is aligned,
  starts in the free range and is cut off its low end, so it overlaps no other block.  The heap
  stays well formed, the block is cleared when the heap's options say so, no other byte is
  written, and the mutex is released as often as it was taken.\<close>

theorem MEMAllocFromFrmHeapEx_head:
  assumes inv: "frm_inv s h" and k: "k < 31" and sz: "0 \<le> sz" "sz + 3 < 2 ^ 32"
    and room: "frm_head (frm_of s h) + 2 ^ k + frm_size sz \<le> 2 ^ 32"
  defines "a \<equiv> ROUND_UP (frm_head (frm_of s h)) (2 ^ k)" and "z \<equiv> frm_size sz"
  shows "\<exists>s'. MEMAllocFromFrmHeapEx h sz (2 ^ k) s = (if a + z > frm_tail (frm_of s h) then 0 else a, s') \<and>
    frm_inv s' h \<and> hh_lock (mheads s' h) = hh_lock (mheads s h) \<and>
    (if a + z > frm_tail (frm_of s h) then frm_of s' h = frm_of s h \<and> mbytes s' = mbytes s
     else 0 < a \<and> 2 ^ k dvd a \<and> sz \<le> z \<and> frm_head (frm_of s h) \<le> a \<and>
       frm_of s' h = (frm_of s h)\<lparr>frm_head := a + z\<rparr> \<and> mbytes s' = filled s h (frm_head (frm_of s h)) (a + z))"
proof -
  let ?s1 = "LockHeap h s" and ?p = "GetFrmHeapHeadPtrFromHeapHead h"
  note zb = frm_size_bounds [OF sz, folded z_def]
  have A: "MEMAllocFromFrmHeapEx h sz (2 ^ k) s =
      (case FrmAllocFromHead ?p z (2 ^ k) ?s1 of (b, s) \<Rightarrow> (b, UnlockHeap h s))"
    by (simp add: MEMAllocFromFrmHeapEx_def z_def frm_size_def Let_def)
  have i1: "frm_inv ?s1 h" using inv by simp
  have r: "frm_head (frm_of ?s1 h) + 2 ^ k + z \<le> 2 ^ 32" using room by (simp add: z_def)
  note ok = FrmAllocFromHead_ok [OF i1 zb(1) k r, unfolded locked, folded a_def]
  show ?thesis
  proof (cases "a + z > frm_tail (frm_of s h)")
    case True
    then show ?thesis using ok A MEMAlloc_unlock [OF i1 refl] by simp
  next
    case False
    then obtain s' where s': "FrmAllocFromHead ?p z (2 ^ k) ?s1 = (a, s')" "frm_inv s' h"
      "frms s' = (frms ?s1)(?p := (frm_of s h)\<lparr>frm_head := a + z\<rparr>)" "mheads s' = mheads ?s1"
      "mbytes s' = filled ?s1 h (frm_head (frm_of s h)) (a + z)" "0 < a" "2 ^ k dvd a" "frm_head (frm_of s h) \<le> a"
      using ok by auto
    have "frm_of (UnlockHeap h s') h = (frm_of s h)\<lparr>frm_head := a + z\<rparr>" using s'(3) by (simp add: frm_of_def)
    moreover have "mbytes s' = filled s h (frm_head (frm_of s h)) (a + z)" using s'(5) by simp
    ultimately show ?thesis
      using False A s' zb(2) MEMAlloc_unlock [OF s'(2,4)] by simp
  qed
qed

text \<open>Allocation from the high end of a frame heap (negative alignment): as at the low end,
  with the block cut off the high end of the free range.\<close>

theorem MEMAllocFromFrmHeapEx_tail:
  assumes inv: "frm_inv s h" and k: "k < 31" and sz: "0 \<le> sz" "sz + 3 < 2 ^ 32"
    and room: "frm_size sz \<le> frm_tail (frm_of s h)"
  defines "a \<equiv> ROUND_DOWN (frm_tail (frm_of s h) - frm_size sz) (2 ^ k)" and "z \<equiv> frm_size sz"
  shows "\<exists>s'. MEMAllocFromFrmHeapEx h sz (- (2 ^ k)) s = (if a < frm_head (frm_of s h) then 0 else a, s') \<and>
    frm_inv s' h \<and> hh_lock (mheads s' h) = hh_lock (mheads s h) \<and>
    (if a < frm_head (frm_of s h) then frm_of s' h = frm_of s h \<and> mbytes s' = mbytes s
     else 0 < a \<and> 2 ^ k dvd a \<and> sz \<le> z \<and> a + z \<le> frm_tail (frm_of s h) \<and>
       frm_of s' h = (frm_of s h)\<lparr>frm_tail := a\<rparr> \<and> mbytes s' = filled s h a (frm_tail (frm_of s h)))"
proof -
  let ?s1 = "LockHeap h s" and ?p = "GetFrmHeapHeadPtrFromHeapHead h"
  note zb = frm_size_bounds [OF sz, folded z_def]
  have A: "MEMAllocFromFrmHeapEx h sz (- (2 ^ k)) s =
      (case FrmAllocFromTail ?p z (2 ^ k) ?s1 of (b, s) \<Rightarrow> (b, UnlockHeap h s))"
    by (simp add: MEMAllocFromFrmHeapEx_def z_def frm_size_def Let_def)
  have i1: "frm_inv ?s1 h" using inv by simp
  have r: "z \<le> frm_tail (frm_of ?s1 h)" using room by (simp add: z_def)
  note ok = FrmAllocFromTail_ok [OF i1 zb(1) k r, unfolded locked, folded a_def [folded z_def]]
  show ?thesis
  proof (cases "a < frm_head (frm_of s h)")
    case True
    then show ?thesis using ok A MEMAlloc_unlock [OF i1 refl] by simp
  next
    case False
    then obtain s' where s': "FrmAllocFromTail ?p z (2 ^ k) ?s1 = (a, s')" "frm_inv s' h"
      "frms s' = (frms ?s1)(?p := (frm_of s h)\<lparr>frm_tail := a\<rparr>)" "mheads s' = mheads ?s1"
      "mbytes s' = filled ?s1 h a (frm_tail (frm_of s h))" "0 < a" "2 ^ k dvd a" "a + z \<le> frm_tail (frm_of s h)"
      using ok by auto
    have "frm_of (UnlockHeap h s') h = (frm_of s h)\<lparr>frm_tail := a\<rparr>" using s'(3) by (simp add: frm_of_def)
    moreover have "mbytes s' = filled s h a (frm_tail (frm_of s h))" using s'(5) by simp
    ultimately show ?thesis
      using False A s' zb(2) MEMAlloc_unlock [OF s'(2,4)] by simp
  qed
qed


section \<open>Creation\<close>

lemma on_list_range [simp]:
  "hh_start (mheads (on_list p g s) x) = hh_start (mheads s x)" "hh_end (mheads (on_list p g s) x) = hh_end (mheads s x)"
  by (auto simp: on_list_def split: option.splits prod.splits)

lemma MEMiInitHeapHead_range:
  assumes "MEMiInitHeapHead heap magic st en opt s = Some s'"
  shows "hh_start (mheads s' heap) = st \<and> hh_end (mheads s' heap) = en"
  using assms by (auto simp: MEMiInitHeapHead_def SetOptForHeap_def Let_def bind_eq_Some_conv split: if_splits)

text \<open>A new frame heap is empty: its free range is everything behind the two heads.\<close>

lemma MEMCreateFrmHeapEx_inv:
  assumes c: "MEMCreateFrmHeapEx start sz opt s = Some (h, s')" "h \<noteq> 0"
    and rng: "0 \<le> start" "start + sz < 2 ^ 32" "0 \<le> sz" "sz < 2 ^ 31"
  shows "frm_inv s' h \<and> frm_of s' h = \<lparr>frm_head = hh_start (mheads s' h), frm_tail = hh_end (mheads s' h), frm_states = None\<rparr> \<and>
    hh_start (mheads s' h) = h + 0x48 \<and> hh_end (mheads s' h) = ROUND_DOWN (start + sz) 4"
proof -
  let ?e = "ROUND_DOWN (AddU32ToPtr start sz) 4" and ?a = "ROUND_UP start 4"
  have ok: "\<not> (?a > ?e \<or> u32 (GetOffsetFromPtr ?a ?e) < MEM_FRM_HEAP_MIN_SIZE)" "InitFrameHeap ?a ?e opt s = Some (h, s')"
    using c by (auto simp: MEMCreateFrmHeapEx_def Let_def split: if_splits)
  have h: "h = ?a" using ok(2) by (auto simp: InitFrameHeap_def bind_eq_Some_conv)
  have e: "AddU32ToPtr start sz = start + sz" using rng by (simp add: AddU32ToPtr_def u32_id)
  have eb: "?e \<le> start + sz" "0 \<le> ?e" unfolding e using ROUND_DOWN_4_bounds [of "start + sz"] rng by simp_all
  have ab: "start \<le> ?a"
  proof (cases "start + 3 < 2 ^ 32")
    case True
    then show ?thesis using ROUND_UP_4_bounds [of start] rng by simp
  next
    case False
    then have "0xFFFFFFFD \<le> start" "start < 0x100000000" using rng by simp_all
    then have "start = 0xFFFFFFFD \<or> start = 0xFFFFFFFE \<or> start = 0xFFFFFFFF" by presburger
    then have "?a = 0" by (elim disjE) (simp_all add: ROUND_UP_def u32_def)
    then show ?thesis using h c(2) by simp
  qed
  have off: "u32 (GetOffsetFromPtr ?a ?e) = ?e - ?a"
    using ok(1) ab eb rng by (simp add: GetOffsetFromPtr_def u32_id s32_id)
  then have m: "?a + 0x48 \<le> ?e" using ok(1) by (simp add: MEM_FRM_HEAP_MIN_SIZE_def HEAP_HEAD_SIZE_def)
  have st: "AddU32ToPtr ?a MEM_FRM_HEAP_HEAD_SIZE = ?a + 0x48"
    using m ab eb rng by (simp add: AddU32ToPtr_def MEM_FRM_HEAP_HEAD_SIZE_def HEAP_HEAD_SIZE_def u32_id)
  obtain s1 where s1: "MEMiInitHeapHead ?a MEM_FRM_HEAP_MAGIC (?a + 0x48) ?e opt s = Some s1"
    "s' = upd_frm (GetFrmHeapHeadPtrFromHeapHead ?a) (\<lambda>f. f\<lparr>frm_head := hh_start (mheads s1 ?a),
        frm_tail := hh_end (mheads s1 ?a), frm_states := None\<rparr>) s1"
    using ok(2) unfolding InitFrameHeap_def st by (auto simp: bind_eq_Some_conv)
  show ?thesis
    using MEMiInitHeapHead_range [OF s1(1)] s1(2) m ab eb rng unfolding h e
    by (simp add: frm_inv_def frm_of_def)
qed

definition frm_zero :: frm_state where
  "frm_zero = mem_state.extend
     \<lparr>irq_enabled = True, mheads = \<lambda>_. head_zero, mnodes = \<lambda>_. \<lparr>ml_prev = None, ml_next = None\<rparr>, mbytes = \<lambda>_. 0xCC,
      sRootListInitialized = False, sRootList = MEMInitList 0, root_lock = 0\<rparr>
     \<lparr>frms = \<lambda>_. \<lparr>frm_head = 0, frm_tail = 0, frm_states = None\<rparr>\<rparr>"

definition demo_frm :: frm_state where
  "demo_frm = snd (the (MEMCreateFrmHeapEx 0x80100000 0x1000 5 frm_zero))"

lemma demo_frm_create: "MEMCreateFrmHeapEx 0x80100000 0x1000 5 frm_zero = Some (0x80100000, demo_frm)"
proof -
  have r: "ROUND_DOWN (AddU32ToPtr 0x80100000 0x1000) 4 = 0x80101000" "ROUND_UP 0x80100000 4 = 0x80100000"
    by (simp_all add: ROUND_DOWN_def ROUND_UP_def AddU32ToPtr_def u32_def)
  have "u32 (GetOffsetFromPtr 0x80100000 0x80101000) = 0x1000"
    by (simp add: GetOffsetFromPtr_def u32_def s32_def)
  moreover have "\<exists>s. InitFrameHeap 0x80100000 0x80101000 5 frm_zero = Some (0x80100000, s)"
    by (simp add: InitFrameHeap_def MEMiInitHeapHead_def Let_def FindListContainHeap_def FindContainHeap.simps
        MEMGetNextListObject_def SetOptForHeap_def frm_zero_def mem_state.defs upd_head_def MEMInitList_def)
  ultimately show ?thesis
    by (auto simp: demo_frm_def MEMCreateFrmHeapEx_def Let_def r MEM_FRM_HEAP_MIN_SIZE_def HEAP_HEAD_SIZE_def)
qed

lemma demo_frm_head: "frm_head (frm_of demo_frm 0x80100000) = 0x80100048" "frm_tail (frm_of demo_frm 0x80100000) = 0x80101000"
  "hh_start (mheads demo_frm 0x80100000) = 0x80100048" "frm_states (frm_of demo_frm 0x80100000) = None"
  using MEMCreateFrmHeapEx_inv [OF demo_frm_create] by (simp_all add: ROUND_DOWN_def u32_def)

lemma demo_frm_inv: "frm_inv demo_frm 0x80100000"
  using MEMCreateFrmHeapEx_inv [OF demo_frm_create] by simp


theorem MEMAllocFromFrmHeapEx_head_witness:
  "\<exists>s'. MEMAllocFromFrmHeapEx 0x80100000 100 (2 ^ 5) demo_frm = (0x80100060, s') \<and> frm_inv s' 0x80100000 \<and>
     frm_head (frm_of s' 0x80100000) = 0x801000C4"
proof -
  have r: "ROUND_UP 0x80100048 (2 ^ 5) = 0x80100060" "frm_size 100 = 100"
    by (simp_all add: ROUND_UP_def u32_def frm_size_def)
  show ?thesis
    using MEMAllocFromFrmHeapEx_head [OF demo_frm_inv, of 5 100] r by (auto simp: demo_frm_head)
qed

theorem MEMAllocFromFrmHeapEx_tail_witness:
  "\<exists>s'. MEMAllocFromFrmHeapEx 0x80100000 100 (- (2 ^ 5)) demo_frm = (0x80100F80, s') \<and> frm_inv s' 0x80100000 \<and>
     frm_tail (frm_of s' 0x80100000) = 0x80100F80"
proof -
  have r: "ROUND_DOWN (0x80101000 - 100) (2 ^ 5) = 0x80100F80" "frm_size 100 = 100"
    by (simp_all add: ROUND_UP_def ROUND_DOWN_def u32_def frm_size_def)
  show ?thesis
    using MEMAllocFromFrmHeapEx_tail [OF demo_frm_inv, of 5 100] r by (auto simp: demo_frm_head)
qed

text \<open>The end of a block is computed modulo \<open>2 ^ 32\<close> and only compared with the high end
  of the free range.  A request of nearly 4 GB therefore succeeds on a heap of 4 KB, and leaves
  the head of the free range below the start of the heap.  A request with alignment 0, which
  counts as an allocation from the low end, returns NULL but moves the head to a small address.\<close>

theorem MEMAllocFromFrmHeapEx_wraps:
  "(\<exists>s'. MEMAllocFromFrmHeapEx 0x80100000 0xFFFFF000 4 demo_frm = (0x80100048, s') \<and>
      frm_head (frm_of s' 0x80100000) = 0x800FF048 \<and> \<not> frm_inv s' 0x80100000) \<and>
   (\<exists>s'. MEMAllocFromFrmHeapEx 0x80100000 16 0 demo_frm = (0, s') \<and>
      frm_head (frm_of s' 0x80100000) = 16)"
proof -
  have f: "frms s (GetFrmHeapHeadPtrFromHeapHead h) = frm_of s h" for s h by (simp add: frm_of_def)
  have r: "ROUND_UP 0x80100048 4 = 0x80100048" "ROUND_UP 0xFFFFF000 4 = 0xFFFFF000" "ROUND_UP 0x80100048 0 = 0"
    "ROUND_UP 16 4 = 16" "AddU32ToPtr 0x80100048 0xFFFFF000 = 0x800FF048" "AddU32ToPtr 0 16 = 16"
    by (simp_all add: ROUND_UP_def AddU32ToPtr_def u32_def)
  show ?thesis
    by (simp add: MEMAllocFromFrmHeapEx_def FrmAllocFromHead_def Let_def f r demo_frm_head frm_inv_def)
      (simp add: frm_of_def demo_frm_head)
qed


section \<open>Recorded states\<close>

subsection \<open>Words in memory\<close>

lemma word_bytes:
  assumes "0 \<le> v" "v < 2 ^ 32"
  shows "u8 (v div 0x1000000) * 0x1000000 + u8 (v div 0x10000) * 0x10000 + u8 (v div 0x100) * 0x100 + u8 v = v"
proof -
  have u: "u8 x = x mod 0x100" for x by (simp add: u8_def)
  have z: "x div 0x100 div 0x100 = x div 0x10000" "x div 0x10000 div 0x100 = x div 0x1000000" for x :: int
    using zdiv_zmult2_eq [of "0x100" x "0x100"] zdiv_zmult2_eq [of "0x100" x "0x10000"] by simp_all
  have "v div 0x1000000 mod 0x100 = v div 0x1000000"
    using assms by (intro mod_pos_pos_trivial) (simp_all add: pos_imp_zdiv_nonneg_iff div_less_iff_less_mult)
  moreover have "v = v div 0x100 * 0x100 + v mod 0x100" by (rule div_mult_mod_eq [symmetric])
  moreover have "v div 0x100 = v div 0x10000 * 0x100 + v div 0x100 mod 0x100"
    unfolding z [symmetric] by (rule div_mult_mod_eq [symmetric])
  moreover have "v div 0x10000 = v div 0x1000000 * 0x100 + v div 0x10000 mod 0x100"
    unfolding z(2) [symmetric] by (rule div_mult_mod_eq [symmetric])
  ultimately show ?thesis unfolding u by linarith
qed

lemma load_store32 [simp]:
  "0 \<le> v \<Longrightarrow> v < 2 ^ 32 \<Longrightarrow> load32 (store32 p v M) p = v"
  "p + 4 \<le> q \<or> q + 4 \<le> p \<Longrightarrow> load32 (store32 p v M) q = load32 M q"
  using word_bytes [of v] by (auto simp: load32_def store32_def)

lemma store32_outside: "a < p \<or> p + 4 \<le> a \<Longrightarrow> store32 p v M a = M a"
  by (auto simp: store32_def)

lemma store_state_outside: "a < p \<or> p + 16 \<le> a \<Longrightarrow> store_state p st M a = M a"
  by (auto simp: store_state_def store32_outside)

definition word_state :: "MEMiFrmHeapState \<Rightarrow> bool" where
  "word_state st \<longleftrightarrow> fs_id st \<in> {0..<2 ^ 32} \<and> fs_head st \<in> {0..<2 ^ 32} \<and> fs_tail st \<in> {0..<2 ^ 32} \<and>
     (\<forall>p. fs_next st = Some p \<longrightarrow> p \<in> {1..<2 ^ 32})"

lemma load_store_state: "word_state st \<Longrightarrow> load_state (store_state p st M) p = st"
  by (cases st) (auto simp: load_state_def store_state_def word_state_def ptr_of_def of_ptr_def split: option.splits)

lemma load_state_bytes:
  assumes "\<And>a. p \<le> a \<Longrightarrow> a < p + 16 \<Longrightarrow> M a = M' a"
  shows "load_state M p = load_state M' p"
  using assms by (simp add: load_state_def load32_def)

subsection \<open>A client\<close>

text \<open>What a client does with a frame heap between two calls on recorded states: it allocates, at either
  end, and it writes a byte into one of the blocks \<open>B\<close> (address and size) it holds.  A write anywhere
  else is None.\<close>

datatype frm_op = FrmAlloc int int | FrmWrite int int

definition in_blocks :: "(int \<times> int) list \<Rightarrow> int \<Rightarrow> bool" where
  "in_blocks B a \<longleftrightarrow> list_ex (\<lambda>(p, z). p \<le> a \<and> a < p + z) B"

fun frm_client :: "int \<Rightarrow> frm_op list \<Rightarrow> (int \<times> int) list \<Rightarrow> frm_state \<Rightarrow> ((int \<times> int) list \<times> frm_state) option" where
  "frm_client h [] B s = Some (B, s)"
| "frm_client h (FrmAlloc sz align # ops) B s =
     (case MEMAllocFromFrmHeapEx h sz align s of
        (p, s) \<Rightarrow> frm_client h ops (if p = 0 then B else (p, sz) # B) s)"
| "frm_client h (FrmWrite a v # ops) B s =
     (if in_blocks B a then frm_client h ops B (s\<lparr>mbytes := (mbytes s)(a := u8 v)\<rparr>) else None)"

text \<open>A request whose sums stay below \<open>2 ^ 32\<close> in a heap from \<open>lo\<close> to \<open>hi\<close>.\<close>

fun frm_fits :: "int \<Rightarrow> int \<Rightarrow> frm_op \<Rightarrow> bool" where
  "frm_fits lo hi (FrmAlloc sz align) \<longleftrightarrow> 0 \<le> sz \<and>
     (\<exists>k<31. (align = 2 ^ k \<and> hi + align + sz + 4 \<le> 2 ^ 32) \<or> (align = - (2 ^ k) \<and> sz + 4 \<le> lo))"
| "frm_fits lo hi (FrmWrite a v) \<longleftrightarrow> True"

lemma MEMAllocFromFrmHeapEx_range:
  "hh_start (mheads (snd (MEMAllocFromFrmHeapEx h sz align s)) x) = hh_start (mheads s x)"
  "hh_end (mheads (snd (MEMAllocFromFrmHeapEx h sz align s)) x) = hh_end (mheads s x)"
  by (simp_all add: MEMAllocFromFrmHeapEx_def FrmAllocFromHead_def FrmAllocFromTail_def Let_def)

text \<open>One request that fits, as the client sees it: the free range shrinks, the block is what was cut
  off, the chain of states stays, and no byte outside the old free range changes.\<close>

lemma frm_alloc_step:
  assumes inv: "frm_inv s h" and fits: "frm_fits (hh_start (mheads s h)) (hh_end (mheads s h)) (FrmAlloc sz align)"
  obtains p s' where "MEMAllocFromFrmHeapEx h sz align s = (p, s')" "frm_inv s' h"
    "hh_start (mheads s' h) = hh_start (mheads s h)" "hh_end (mheads s' h) = hh_end (mheads s h)"
    "frm_head (frm_of s h) \<le> frm_head (frm_of s' h)" "frm_tail (frm_of s' h) \<le> frm_tail (frm_of s h)"
    "frm_states (frm_of s' h) = frm_states (frm_of s h)"
    "p \<noteq> 0 \<Longrightarrow> frm_head (frm_of s h) \<le> p \<and> p + sz \<le> frm_tail (frm_of s h)"
    "\<And>a. a < frm_head (frm_of s h) \<or> frm_tail (frm_of s h) \<le> a \<Longrightarrow> mbytes s' a = mbytes s a"
proof -
  obtain k where k: "k < 31" "0 \<le> sz"
    "(align = 2 ^ k \<and> hh_end (mheads s h) + 2 ^ k + sz + 4 \<le> 2 ^ 32) \<or> (align = - (2 ^ k) \<and> sz + 4 \<le> hh_start (mheads s h))"
    using fits by auto
  obtain p s' where r: "MEMAllocFromFrmHeapEx h sz align s = (p, s')" by (cases "MEMAllocFromFrmHeapEx h sz align s")
  have rng: "hh_start (mheads s' h) = hh_start (mheads s h)" "hh_end (mheads s' h) = hh_end (mheads s h)"
    using MEMAllocFromFrmHeapEx_range [of h sz align s h] r by simp_all
  have "(0::int) < 2 ^ k" by simp
  then have szb: "sz + 3 < 2 ^ 32" using k(3) inv unfolding frm_inv_def by linarith
  note fs = frm_size_bounds [OF k(2) szb]
  have "frm_inv s' h \<and> frm_head (frm_of s h) \<le> frm_head (frm_of s' h) \<and> frm_tail (frm_of s' h) \<le> frm_tail (frm_of s h) \<and>
    frm_states (frm_of s' h) = frm_states (frm_of s h) \<and>
    (p \<noteq> 0 \<longrightarrow> frm_head (frm_of s h) \<le> p \<and> p + sz \<le> frm_tail (frm_of s h)) \<and>
    (\<forall>a. a < frm_head (frm_of s h) \<or> frm_tail (frm_of s h) \<le> a \<longrightarrow> mbytes s' a = mbytes s a)"
    using k(3)
  proof (elim disjE conjE)
    assume a: "align = 2 ^ k" "hh_end (mheads s h) + 2 ^ k + sz + 4 \<le> 2 ^ 32"
    have room: "frm_head (frm_of s h) + 2 ^ k + frm_size sz \<le> 2 ^ 32"
      using a(2) fs(3) inv by (simp add: frm_inv_def)
    show ?thesis
      using MEMAllocFromFrmHeapEx_head [OF inv k(1,2) szb room] r fs(1,2)
      unfolding a(1) by (auto simp: filled_def split: if_splits)
  next
    assume a: "align = - (2 ^ k)" "sz + 4 \<le> hh_start (mheads s h)"
    have room: "frm_size sz \<le> frm_tail (frm_of s h)" using a(2) fs(3) inv by (simp add: frm_inv_def)
    show ?thesis
      using MEMAllocFromFrmHeapEx_tail [OF inv k(1,2) szb room] r fs(1,2)
      unfolding a(1) by (auto simp: filled_def split: if_splits)
  qed
  then show thesis using that r rng by blast
qed

text \<open>What a run of the client leaves alone, once a state is recorded at \<open>st\<close>: \<open>lo\<close> and \<open>hi\<close> are the
  ends of the free range before the recording, \<open>B\<^sub>0\<close> the blocks the client held already.\<close>

definition frm_kept ::
  "int \<Rightarrow> int \<Rightarrow> int \<Rightarrow> int \<Rightarrow> (int \<times> int) list \<Rightarrow> frm_state \<Rightarrow> (int \<times> int) list \<Rightarrow> frm_state \<Rightarrow> bool" where
  "frm_kept h lo st hi B0 s B t \<longleftrightarrow> frm_inv t h \<and>
     hh_start (mheads t h) = hh_start (mheads s h) \<and> hh_end (mheads t h) = hh_end (mheads s h) \<and>
     lo \<le> st \<and> st + 16 \<le> frm_head (frm_of t h) \<and> frm_tail (frm_of t h) \<le> hi \<and>
     frm_states (frm_of t h) = frm_states (frm_of s h) \<and> load_state (mbytes t) st = load_state (mbytes s) st \<and>
     (\<forall>(p, z) \<in> set B. (p, z) \<in> set B0 \<or> (st + 16 \<le> p \<and> p + z \<le> hi)) \<and>
     (\<forall>a. (a < lo \<or> hi \<le> a) \<and> \<not> in_blocks B0 a \<longrightarrow> mbytes t a = mbytes s a)"

lemma in_blocks_cases:
  assumes "\<forall>(p, z) \<in> set B. (p, z) \<in> set B0 \<or> (l \<le> p \<and> p + z \<le> hi)" "in_blocks B a"
  shows "in_blocks B0 a \<or> (l \<le> a \<and> a < hi)"
  using assms by (force simp: in_blocks_def list_ex_iff)

lemma frm_client_keeps:
  assumes "frm_kept h lo st hi B0 s B t" "frm_client h ops B t = Some (B', t')"
    "\<forall>x \<in> set ops. frm_fits (hh_start (mheads s h)) (hh_end (mheads s h)) x"
    "\<And>a. in_blocks B0 a \<Longrightarrow> a < lo \<or> hi \<le> a"
  shows "frm_kept h lo st hi B0 s B' t'"
  using assms(1-3)
proof (induction h ops B t rule: frm_client.induct)
  case (1 h B t)
  then show ?case by simp
next
  case (2 h sz align ops B t)
  note k = "2.prems"(1)
  have inv: "frm_inv t h" "st + 16 \<le> frm_head (frm_of t h)" "frm_tail (frm_of t h) \<le> hi" "lo \<le> st"
    "frm_head (frm_of t h) \<le> frm_tail (frm_of t h)"
    using k by (auto simp: frm_kept_def frm_inv_def)
  have f: "frm_fits (hh_start (mheads t h)) (hh_end (mheads t h)) (FrmAlloc sz align)"
    using k "2.prems"(3) by (simp add: frm_kept_def)
  obtain p u where u: "MEMAllocFromFrmHeapEx h sz align t = (p, u)" "frm_inv u h"
    "hh_start (mheads u h) = hh_start (mheads t h)" "hh_end (mheads u h) = hh_end (mheads t h)"
    "frm_head (frm_of t h) \<le> frm_head (frm_of u h)" "frm_tail (frm_of u h) \<le> frm_tail (frm_of t h)"
    "frm_states (frm_of u h) = frm_states (frm_of t h)"
    "p \<noteq> 0 \<longrightarrow> frm_head (frm_of t h) \<le> p \<and> p + sz \<le> frm_tail (frm_of t h)"
    "\<And>a. a < frm_head (frm_of t h) \<or> frm_tail (frm_of t h) \<le> a \<Longrightarrow> mbytes u a = mbytes t a"
    by (rule frm_alloc_step [OF inv(1) f]) blast
  have ld: "load_state (mbytes u) st = load_state (mbytes t) st"
    using inv by (intro load_state_bytes u(9)) simp
  have out: "mbytes u a = mbytes t a" if "a < lo \<or> hi \<le> a" for a
    using that inv by (intro u(9)) auto
  have "frm_kept h lo st hi B0 s (if p = 0 then B else (p, sz) # B) u"
    using k u(2-8) inv ld out by (auto simp: frm_kept_def)
  then show ?case using "2.IH" [OF u(1) [symmetric]] "2.prems"(2,3) u(1) by simp
next
  case (3 h x v ops B t)
  note k = "3.prems"(1)
  have b: "in_blocks B x" using "3.prems"(2) by (auto split: if_splits)
  let ?u = "t\<lparr>mbytes := (mbytes t)(x := u8 v)\<rparr>"
  have c: "in_blocks B0 x \<or> (st + 16 \<le> x \<and> x < hi)"
    using k by (intro in_blocks_cases [OF _ b]) (simp add: frm_kept_def)
  have lo: "lo \<le> st" "st + 16 \<le> hi" using k by (auto simp: frm_kept_def frm_inv_def)
  have x: "x < st \<or> st + 16 \<le> x" using c lo assms(4) [of x] by linarith
  have ld: "load_state (mbytes ?u) st = load_state (mbytes t) st"
    using x by (intro load_state_bytes) auto
  have o: "frm_of ?u h = frm_of t h" "frm_inv ?u h = frm_inv t h" by (simp_all add: frm_of_def frm_inv_def)
  have out: "mbytes ?u a = mbytes t a" if "a < lo \<or> hi \<le> a" "\<not> in_blocks B0 a" for a
    using that c lo by auto
  have "frm_kept h lo st hi B0 s B ?u"
    unfolding frm_kept_def o ld using k out by (auto simp: frm_kept_def)
  then show ?case using "3.IH" [OF b] "3.prems"(2,3) b by simp
qed

text \<open>A recording that succeeds: the state is in the first sixteen bytes of the free range, and the free
  range starts behind it.\<close>

lemma MEMRecordStateForFrmHeap_top:
  assumes r: "MEMRecordStateForFrmHeap h sid s = (True, s1)" and inv: "frm_inv s h"
    and room: "hh_end (mheads s h) + 20 \<le> 2 ^ 32" and sid: "0 \<le> sid" "sid < 2 ^ 32"
    and next_ok: "\<And>p. frm_states (frm_of s h) = Some p \<Longrightarrow> 0 < p \<and> p < 2 ^ 32"
  shows "\<exists>st. frm_states (frm_of s1 h) = Some st \<and>
    load_state (mbytes s1) st = \<lparr>fs_id = sid, fs_head = frm_head (frm_of s h), fs_tail = frm_tail (frm_of s h),
      fs_next = frm_states (frm_of s h)\<rparr> \<and>
    hh_start (mheads s1 h) = hh_start (mheads s h) \<and> hh_end (mheads s1 h) = hh_end (mheads s h) \<and>
    frm_head (frm_of s h) \<le> st \<and> frm_head (frm_of s1 h) = st + 16 \<and> frm_tail (frm_of s1 h) = frm_tail (frm_of s h) \<and>
    frm_inv s1 h \<and> st = ROUND_UP (frm_head (frm_of s h)) 4 \<and>
    (\<forall>a. a < frm_head (frm_of s h) \<or> frm_tail (frm_of s h) \<le> a \<longrightarrow> mbytes s1 a = mbytes s a)"
proof -
  let ?p = "GetFrmHeapHeadPtrFromHeapHead h" and ?f = "frm_of s h" and ?s0 = "LockHeap h s"
  let ?st = "ROUND_UP (frm_head ?f) (2 ^ 2)"
  let ?r = "\<lparr>fs_id = sid, fs_head = frm_head ?f, fs_tail = frm_tail ?f, fs_next = frm_states ?f\<rparr>"
  have i0: "frm_inv ?s0 h" using inv by simp
  have w: "frm_head (frm_of ?s0 h) + 2 ^ 2 + 16 \<le> 2 ^ 32" using room inv by (simp add: frm_inv_def)
  note ok = FrmAllocFromHead_ok [OF i0 _ _ w, unfolded locked, simplified]
  have f0: "frms s ?p = ?f" by (simp add: frm_of_def)
  have fit: "?st + 16 \<le> frm_tail ?f"
  proof (rule ccontr)
    assume "\<not> ?st + 16 \<le> frm_tail ?f"
    then have "FrmAllocFromHead ?p 16 4 ?s0 = (0, ?s0)" using ok by simp
    then show False using r by (simp add: MEMRecordStateForFrmHeap_def FRM_STATE_SIZE_def)
  qed
  then obtain s' where s': "FrmAllocFromHead ?p 16 4 ?s0 = (?st, s')" "frm_inv s' h"
    "frms s' = (frms s)(?p := ?f\<lparr>frm_head := ?st + 16\<rparr>)" "mheads s' = mheads ?s0"
    "mbytes s' = filled s h (frm_head ?f) (?st + 16)" "0 < ?st" "frm_head ?f \<le> ?st"
    using ok by (auto simp: not_less)
  have s1: "s1 = UnlockHeap h (upd_frm ?p (frm_states_update (\<lambda>_. Some ?st)) (s'\<lparr>mbytes := store_state ?st ?r (mbytes s')\<rparr>))"
    using r s'(1,3,6) by (simp add: MEMRecordStateForFrmHeap_def FRM_STATE_SIZE_def Let_def f0)
  have ws: "word_state ?r"
    using sid inv next_ok unfolding frm_inv_def word_state_def by auto
  have fr: "frm_of s1 h = ?f\<lparr>frm_head := ?st + 16, frm_states := Some ?st\<rparr>"
    unfolding s1 by (simp add: frm_of_def s'(3))
  have mb: "mbytes s1 = store_state ?st ?r (mbytes s')" unfolding s1 by simp
  have hd: "hh_start (mheads s1 h) = hh_start (mheads s h)" "hh_end (mheads s1 h) = hh_end (mheads s h)"
    unfolding s1 using s'(4) by simp_all
  have iv: "frm_inv s1 h" using inv fit s'(7) by (simp add: frm_inv_def hd fr)
  have out: "mbytes s1 a = mbytes s a" if "a < frm_head ?f \<or> frm_tail ?f \<le> a" for a
  proof -
    have "mbytes s1 a = mbytes s' a" unfolding mb using that fit s'(7) by (intro store_state_outside) auto
    also have "\<dots> = mbytes s a" using that fit unfolding s'(5) filled_def by auto
    finally show ?thesis .
  qed
  show ?thesis
    using out hd iv s'(7) load_store_state [OF ws, of ?st "mbytes s'"] by (simp add: fr mb)
qed

text \<open>C16. Recording a state and going back to it, with the record in the heap's own memory: after any
  run of a client that allocates at either end (requests whose sums do not wrap) and writes into the
  blocks it holds, releasing by the recorded id, or by 0, which names the latest state, finds the record
  as it was written and restores both ends of the free range and the chain of recorded states.  The heap
  is well formed again, and outside the free range no byte has changed but in blocks the client had
  before the recording.\<close>

theorem frm_state_roundtrip:
  assumes inv: "frm_inv s h" and room: "hh_end (mheads s h) + 20 \<le> 2 ^ 32" and sid: "0 \<le> sid" "sid < 2 ^ 32"
    and next_ok: "\<And>p. frm_states (frm_of s h) = Some p \<Longrightarrow> 0 < p \<and> p < 2 ^ 32"
    and rec: "MEMRecordStateForFrmHeap h sid s = (True, s1)" and i: "i = sid \<or> i = 0"
    and held: "\<And>a. in_blocks B0 a \<Longrightarrow> a < frm_head (frm_of s h) \<or> frm_tail (frm_of s h) \<le> a"
    and fits: "\<forall>x \<in> set ops. frm_fits (hh_start (mheads s h)) (hh_end (mheads s h)) x"
    and run: "frm_client h ops B0 s1 = Some (B, s2)"
  shows "\<exists>s3. MEMFreeByStateToFrmHeap h i s2 = Some (True, s3) \<and> frm_of s3 h = frm_of s h \<and> frm_inv s3 h \<and>
    (\<forall>a. (a < frm_head (frm_of s h) \<or> frm_tail (frm_of s h) \<le> a) \<and> \<not> in_blocks B0 a \<longrightarrow> mbytes s3 a = mbytes s a)"
proof -
  let ?f = "frm_of s h" and ?p = "GetFrmHeapHeadPtrFromHeapHead h"
  obtain st where st: "frm_states (frm_of s1 h) = Some st"
    "load_state (mbytes s1) st = \<lparr>fs_id = sid, fs_head = frm_head ?f, fs_tail = frm_tail ?f, fs_next = frm_states ?f\<rparr>"
    "hh_start (mheads s1 h) = hh_start (mheads s h)" "hh_end (mheads s1 h) = hh_end (mheads s h)"
    "frm_head ?f \<le> st" "frm_head (frm_of s1 h) = st + 16" "frm_tail (frm_of s1 h) = frm_tail ?f" "frm_inv s1 h"
    "\<forall>a. a < frm_head ?f \<or> frm_tail ?f \<le> a \<longrightarrow> mbytes s1 a = mbytes s a"
    using MEMRecordStateForFrmHeap_top [OF rec inv room sid next_ok] by metis
  have "frm_kept h (frm_head ?f) st (frm_tail ?f) B0 s1 B0 s1"
    using st by (auto simp: frm_kept_def)
  then have k: "frm_kept h (frm_head ?f) st (frm_tail ?f) B0 s1 B s2"
    by (rule frm_client_keeps [OF _ run]) (use fits st(3,4) held in auto)
  have s2: "frm_states (frms s2 ?p) = Some st" "load_state (mbytes s2) st = load_state (mbytes s1) st"
    using k st(1) by (simp_all add: frm_kept_def frm_of_def)
  let ?s3 = "UnlockHeap h (upd_frm ?p (\<lambda>_. ?f) (LockHeap h s2))"
  have "seek (\<lambda>p. fs_next (load_state (mbytes s2) p)) (\<lambda>p. fs_id (load_state (mbytes s2) p) = i) (Some st)
      = Some (Some st)" if "i \<noteq> 0"
    using that i st(2) s2(2) by (simp add: seek.simps)
  moreover have e: "frms s2 ?p\<lparr>frm_head := frm_head ?f, frm_tail := frm_tail ?f, frm_states := frm_states ?f\<rparr> = ?f"
    by simp
  ultimately have "MEMFreeByStateToFrmHeap h i s2 = Some (True, ?s3)"
    using s2 st(2) by (cases "i = 0") (simp_all add: MEMFreeByStateToFrmHeap_def Let_def upd_frm_def e)
  moreover have fr: "frm_of ?s3 h = ?f" by (simp add: frm_of_def)
  moreover have "frm_inv ?s3 h"
    using inv k st(3,4) unfolding frm_inv_def fr by (simp add: frm_kept_def)
  moreover have "\<forall>a. (a < frm_head ?f \<or> frm_tail ?f \<le> a) \<and> \<not> in_blocks B0 a \<longrightarrow> mbytes ?s3 a = mbytes s a"
    using k st(9) by (simp add: frm_kept_def)
  ultimately show ?thesis by blast
qed

lemma demo_frm_end: "hh_end (mheads demo_frm 0x80100000) = 0x80101000"
  using MEMCreateFrmHeapEx_inv [OF demo_frm_create] by (simp add: ROUND_DOWN_def u32_def)

theorem frm_state_roundtrip_witness:
  "\<exists>s1 B s2 s3. MEMRecordStateForFrmHeap 0x80100000 7 demo_frm = (True, s1) \<and>
     frm_client 0x80100000 [FrmAlloc 100 32, FrmWrite 0x80100061 255, FrmAlloc 8 (-4)] [] s1 = Some (B, s2) \<and>
     MEMFreeByStateToFrmHeap 0x80100000 7 s2 = Some (True, s3) \<and>
     frm_head (frm_of s3 0x80100000) = 0x80100048 \<and> frm_tail (frm_of s3 0x80100000) = 0x80101000 \<and>
     frm_inv s3 0x80100000"
proof -
  let ?h = "0x80100000 :: int" and ?ops = "[FrmAlloc 100 32, FrmWrite 0x80100061 255, FrmAlloc 8 (-4)]"
  have f: "frms s (GetFrmHeapHeadPtrFromHeapHead h) = frm_of s h" for s h by (simp add: frm_of_def)
  have r: "ROUND_UP 0x80100048 4 = 0x80100048" "AddU32ToPtr 0x80100048 0x10 = 0x80100058"
    "ROUND_UP 0x80100058 (2 ^ 5) = 0x80100060" "frm_size 100 = 100"
    by (simp_all add: ROUND_UP_def AddU32ToPtr_def u32_def frm_size_def)
  have "\<exists>s1. MEMRecordStateForFrmHeap ?h 7 demo_frm = (True, s1)"
    by (simp add: MEMRecordStateForFrmHeap_def FrmAllocFromHead_def Let_def f r demo_frm_head FRM_STATE_SIZE_def)
  then obtain s1 where s1: "MEMRecordStateForFrmHeap ?h 7 demo_frm = (True, s1)" by blast
  have top: "frm_inv s1 ?h" "frm_head (frm_of s1 ?h) = 0x80100058" "frm_tail (frm_of s1 ?h) = 0x80101000"
    using MEMRecordStateForFrmHeap_top [OF s1 demo_frm_inv] r(1) by (auto simp: demo_frm_head demo_frm_end)
  obtain u where u: "MEMAllocFromFrmHeapEx ?h 100 32 s1 = (0x80100060, u)"
    using MEMAllocFromFrmHeapEx_head [OF top(1), of 5 100] top r by auto
  obtain B s2 where run: "frm_client ?h ?ops [] s1 = Some (B, s2)"
    by (cases "MEMAllocFromFrmHeapEx ?h 8 (-4) (u\<lparr>mbytes := (mbytes u)(0x80100061 := u8 255)\<rparr>)")
      (auto simp: u in_blocks_def)
  have "frm_fits 0x80100048 0x80101000 (FrmAlloc 100 32)" by (simp, rule exI [of _ 5]) simp
  moreover have "frm_fits 0x80100048 0x80101000 (FrmAlloc 8 (-4))" by (simp, rule exI [of _ 2]) simp
  ultimately have "\<forall>x \<in> set ?ops. frm_fits (hh_start (mheads demo_frm ?h)) (hh_end (mheads demo_frm ?h)) x"
    by (simp add: demo_frm_head demo_frm_end)
  from frm_state_roundtrip [OF demo_frm_inv _ _ _ _ s1 _ _ this run, of 7]
  show ?thesis using s1 run by (auto simp: demo_frm_head demo_frm_end in_blocks_def)
qed

end
