(* ===== verification/ExpHeap.thy ===== *)
theory ExpHeap
  imports HeapCommon
begin

text \<open>
  \<^verbatim>\<open>mem/mem_expHeap.c\<close>: the expandable heap.  \<open>exps\<close> maps the address of a
  \<^verbatim>\<open>MEMiExpHeapHead\<close> to its contents and \<open>mblocks\<close> that of a block header.

  Three functions of the file have empty bodies, marked "Non-matching": the decompilation has not
  recovered them.  Two of them are called by others and are parameters here: \<open>use_block\<close>
  for \<^verbatim>\<open>AllocUsedBlockFromFreeBlock_\<close> and \<open>recycle\<close> for
  \<^verbatim>\<open>RecycleRegion_\<close>.  \<^verbatim>\<open>MEMResizeForMBlockExpHeap\<close> is not modelled.
\<close>

section \<open>The code\<close>

record MEMiExpHeapMBlock =
  eb_state :: int
  eb_settings :: int
  eb_size :: int
  eb_prev :: "int option"
  eb_next :: "int option"

record MEMiExpHeapHead =
  ex_free :: "int queue"
  ex_used :: "int queue"
  ex_group :: int
  ex_short12 :: int

type_synonym mblockmap = "int \<Rightarrow> MEMiExpHeapMBlock"

record exp_state = mem_state +
  exps :: "int \<Rightarrow> MEMiExpHeapHead"
  mblocks :: mblockmap

definition MEM_EXP_HEAP_MAGIC :: int where "MEM_EXP_HEAP_MAGIC = 0x45585048"
definition MEM_EXP_HEAP_MBLOCK_FREE :: int where "MEM_EXP_HEAP_MBLOCK_FREE = 0x4652"
definition MEM_EXP_HEAP_HEAD_SIZE :: int where "MEM_EXP_HEAP_HEAD_SIZE = HEAP_HEAD_SIZE + 0x14"
definition MBLOCK_SIZE :: int where "MBLOCK_SIZE = 0x10"
definition MEM_EXP_HEAP_MIN_SIZE :: int where "MEM_EXP_HEAP_MIN_SIZE = HEAP_HEAD_SIZE + 0x14 + MBLOCK_SIZE + 4"
definition MEM_EXP_HEAP_ALLOC_FAST :: int where "MEM_EXP_HEAP_ALLOC_FAST = 0"

definition GetExpHeapHeadPtrFromHeapHead :: "int \<Rightarrow> int" where
  "GetExpHeapHeadPtrFromHeapHead heap = AddU32ToPtr heap HEAP_HEAD_SIZE"

definition upd_exp :: "int \<Rightarrow> (MEMiExpHeapHead \<Rightarrow> MEMiExpHeapHead) \<Rightarrow> exp_state \<Rightarrow> exp_state" where
  "upd_exp e g s = s\<lparr>exps := (exps s)(e := g (exps s e))\<rparr>"

definition set_eprev :: "int \<Rightarrow> int option \<Rightarrow> mblockmap \<Rightarrow> mblockmap" where
  "set_eprev b v B = B(b := (B b)\<lparr>eb_prev := v\<rparr>)"

definition set_enext :: "int \<Rightarrow> int option \<Rightarrow> mblockmap \<Rightarrow> mblockmap" where
  "set_enext b v B = B(b := (B b)\<lparr>eb_next := v\<rparr>)"

text \<open>\<^verbatim>\<open>allocMode\<close> is the lowest bit of its halfword, \<^verbatim>\<open>align\<close> bits 8 to 14 of the settings.\<close>

definition SetAllocMode :: "int \<Rightarrow> int \<Rightarrow> exp_state \<Rightarrow> exp_state" where
  "SetAllocMode e mode = upd_exp e (\<lambda>x. x\<lparr>ex_short12 := ex_short12 x div 2 * 2 + mode mod 2\<rparr>)"

definition GetAllocMode :: "int \<Rightarrow> exp_state \<Rightarrow> int" where
  "GetAllocMode e s = ex_short12 (exps s e) mod 2"

definition GetMBlockHeadPtr :: "int \<Rightarrow> int" where
  "GetMBlockHeadPtr memBlock = SubU32ToPtr memBlock MBLOCK_SIZE"

definition GetMemPtrForMBlock :: "int \<Rightarrow> int" where
  "GetMemPtrForMBlock mblock = AddU32ToPtr mblock MBLOCK_SIZE"

definition GetMBlockEndAddr :: "mblockmap \<Rightarrow> int \<Rightarrow> int" where
  "GetMBlockEndAddr B mblock = AddU32ToPtr (GetMemPtrForMBlock mblock) (eb_size (B mblock))"

definition GetAlignmentForMBlock :: "mblockmap \<Rightarrow> int \<Rightarrow> int" where
  "GetAlignmentForMBlock B mblock = eb_settings (B mblock) div 256 mod 128"

definition RemoveMBlock :: "int queue \<Rightarrow> int \<Rightarrow> mblockmap \<Rightarrow> int option \<times> int queue \<times> mblockmap" where
  "RemoveMBlock list mblock B =
     (let prev = eb_prev (B mblock);
          next = eb_next (B mblock);
          (list, B) = (case prev of Some p \<Rightarrow> (list, set_enext p next B) | None \<Rightarrow> (list\<lparr>qhead := next\<rparr>, B));
          (list, B) = (case next of Some n \<Rightarrow> (list, set_eprev n prev B) | None \<Rightarrow> (list\<lparr>qtail := prev\<rparr>, B))
      in (prev, list, B))"

definition GetRegionOfMBlock :: "mblockmap \<Rightarrow> int \<Rightarrow> int \<times> int" where
  "GetRegionOfMBlock B mblock =
     (SubU32ToPtr mblock (GetAlignmentForMBlock B mblock), GetMBlockEndAddr B mblock)"

definition InitMBlock :: "int \<times> int \<Rightarrow> int \<Rightarrow> mblockmap \<Rightarrow> int \<times> mblockmap" where
  "InitMBlock region st B =
     (let mblock = fst region
      in (mblock, B(mblock := \<lparr>eb_state = u16 st, eb_settings = 0,
            eb_size = u32 (GetOffsetFromPtr (GetMemPtrForMBlock mblock) (snd region)),
            eb_prev = None, eb_next = None\<rparr>)))"

definition InitFreeMBlock :: "int \<times> int \<Rightarrow> mblockmap \<Rightarrow> int \<times> mblockmap" where
  "InitFreeMBlock region B = InitMBlock region MEM_EXP_HEAP_MBLOCK_FREE B"

definition InitExpHeap :: "int \<Rightarrow> int \<Rightarrow> int \<Rightarrow> exp_state \<Rightarrow> (int \<times> exp_state) option" where
  "InitExpHeap heap end_ptr opt s = do {
     let e = GetExpHeapHeadPtrFromHeapHead heap;
     s \<leftarrow> MEMiInitHeapHead heap MEM_EXP_HEAP_MAGIC (AddU32ToPtr heap MEM_EXP_HEAP_HEAD_SIZE) end_ptr opt s;
     let s = upd_exp e (\<lambda>x. x\<lparr>ex_group := 0, ex_short12 := 0\<rparr>) s;
     let s = SetAllocMode e MEM_EXP_HEAP_ALLOC_FAST s;
     let (mblock, B) = InitFreeMBlock (hh_start (mheads s heap), hh_end (mheads s heap)) (mblocks s);
     let s = s\<lparr>mblocks := B\<rparr>;
     Some (heap, upd_exp e (\<lambda>x. x\<lparr>ex_free := \<lparr>qhead = Some mblock, qtail = Some mblock\<rparr>,
        ex_used := \<lparr>qhead = None, qtail = None\<rparr>\<rparr>) s)
   }"

text \<open>
  The two searches.  The accumulator is the best block so far, its size and the address of the
  memory in it; the flag ends the loop.
\<close>

type_synonym best = "int option \<times> int \<times> int"

definition head_body :: "mblockmap \<Rightarrow> bool \<Rightarrow> int \<Rightarrow> int \<Rightarrow> int \<Rightarrow> best \<Rightarrow> best \<times> bool" where
  "head_body B isFastAlloc sz align it acc =
     (let start = GetMemPtrForMBlock it;
          alignStart = ROUND_UP start align;
          padding = u32 (GetOffsetFromPtr start alignStart)
      in if eb_size (B it) \<ge> u32 (sz + padding) \<and> fst (snd acc) > eb_size (B it)
         then ((Some it, eb_size (B it), alignStart), isFastAlloc \<or> eb_size (B it) = sz)
         else (acc, False))"

text \<open>\<^verbatim>\<open>ComparePtr\<close> is not declared anywhere in the repository: it is a parameter of the
  search from the tail.\<close>

type_synonym compare_ptr = "int \<Rightarrow> int \<Rightarrow> int"

definition tail_body :: "compare_ptr \<Rightarrow> mblockmap \<Rightarrow> bool \<Rightarrow> int \<Rightarrow> int \<Rightarrow> int \<Rightarrow> best \<Rightarrow> best \<times> bool" where
  "tail_body ComparePtr B isFastAlloc sz align it acc =
     (let start = GetMemPtrForMBlock it;
          end_ptr = ROUND_DOWN (SubU32ToPtr (AddU32ToPtr start (eb_size (B it))) sz) align
      in if ComparePtr end_ptr start \<ge> 0 \<and> fst (snd acc) > eb_size (B it)
         then ((Some it, eb_size (B it), end_ptr), isFastAlloc \<or> eb_size (B it) = sz)
         else (acc, False))"

definition no_best :: best where "no_best = (None, 0xFFFFFFFF, 0)"

definition find_head :: "int \<Rightarrow> int \<Rightarrow> int \<Rightarrow> exp_state \<Rightarrow> best option" where
  "find_head e sz align s =
     scan (\<lambda>b. eb_next (mblocks s b))
       (head_body (mblocks s) (GetAllocMode e s = MEM_EXP_HEAP_ALLOC_FAST) sz align)
       (qhead (ex_free (exps s e))) no_best"

definition find_tail :: "compare_ptr \<Rightarrow> int \<Rightarrow> int \<Rightarrow> int \<Rightarrow> exp_state \<Rightarrow> best option" where
  "find_tail ComparePtr e sz align s =
     scan (\<lambda>b. eb_prev (mblocks s b))
       (tail_body ComparePtr (mblocks s) (GetAllocMode e s = MEM_EXP_HEAP_ALLOC_FAST) sz align)
       (qtail (ex_free (exps s e))) no_best"

type_synonym use_block = "int \<Rightarrow> int \<Rightarrow> int \<Rightarrow> int \<Rightarrow> int \<Rightarrow> exp_state \<Rightarrow> int \<times> exp_state"

definition ExpAllocFromHead :: "use_block \<Rightarrow> int \<Rightarrow> int \<Rightarrow> int \<Rightarrow> exp_state \<Rightarrow> (int \<times> exp_state) option" where
  "ExpAllocFromHead use heap sz align s =
     (let e = GetExpHeapHeadPtrFromHeapHead heap
      in map_option (\<lambda>(best, _, ptr). case best of None \<Rightarrow> (0, s) | Some b \<Rightarrow> use e b ptr sz 0 s)
           (find_head e sz align s))"

definition ExpAllocFromTail :: "compare_ptr \<Rightarrow> use_block \<Rightarrow> int \<Rightarrow> int \<Rightarrow> int \<Rightarrow> exp_state \<Rightarrow> (int \<times> exp_state) option" where
  "ExpAllocFromTail ComparePtr use heap sz align s =
     (let e = GetExpHeapHeadPtrFromHeapHead heap
      in map_option (\<lambda>(best, _, ptr). case best of None \<Rightarrow> (0, s) | Some b \<Rightarrow> use e b ptr sz 1 s)
           (find_tail ComparePtr e sz align s))"

definition MEMCreateExpHeapEx :: "int \<Rightarrow> int \<Rightarrow> int \<Rightarrow> exp_state \<Rightarrow> (int \<times> exp_state) option" where
  "MEMCreateExpHeapEx start sz opt s =
     (let end_ptr = ROUND_DOWN (AddU32ToPtr start sz) 4;
          start = ROUND_UP start 4
      in if start > end_ptr \<or> u32 (GetOffsetFromPtr start end_ptr) < MEM_EXP_HEAP_MIN_SIZE then Some (0, s)
         else InitExpHeap start end_ptr opt s)"

definition MEMDestroyExpHeap :: "int \<Rightarrow> exp_state \<Rightarrow> (int \<times> exp_state) option" where
  "MEMDestroyExpHeap heap s = map_option (\<lambda>s. (heap, s)) (MEMiFinalizeHeap heap s)"

definition MEMAllocFromExpHeapEx :: "compare_ptr \<Rightarrow> use_block \<Rightarrow> int \<Rightarrow> int \<Rightarrow> int \<Rightarrow> exp_state \<Rightarrow> (int \<times> exp_state) option" where
  "MEMAllocFromExpHeapEx ComparePtr use heap sz align s =
     (let sz = (if sz = 0 then 1 else sz);
          sz = ROUND_UP sz 4;
          s = LockHeap heap s
      in map_option (\<lambda>(memBlock, s). (memBlock, UnlockHeap heap s))
           (if align \<ge> 0 then ExpAllocFromHead use heap sz align s
            else ExpAllocFromTail ComparePtr use heap sz (- align) s))"

definition MEMFreeToExpHeap ::
  "(int \<Rightarrow> int \<times> int \<Rightarrow> exp_state \<Rightarrow> exp_state) \<Rightarrow> int \<Rightarrow> int \<Rightarrow> exp_state \<Rightarrow> exp_state" where
  "MEMFreeToExpHeap recycle heap memBlock s =
     (if memBlock = 0 then s
      else
        let e = GetExpHeapHeadPtrFromHeapHead heap;
            mblock = GetMBlockHeadPtr memBlock;
            s = LockHeap heap s;
            region = GetRegionOfMBlock (mblocks s) mblock;
            (_, q, B) = RemoveMBlock (ex_used (exps s e)) mblock (mblocks s);
            s = upd_exp e (ex_used_update (\<lambda>_. q)) (s\<lparr>mblocks := B\<rparr>);
            s = recycle e region s
        in UnlockHeap heap s)"

text \<open>The loop of \<^verbatim>\<open>MEMGetAllocatableSizeForExpHeapEx\<close>: biggest size, smallest padding.\<close>

definition size_body :: "mblockmap \<Rightarrow> int \<Rightarrow> int \<Rightarrow> int \<times> int \<Rightarrow> (int \<times> int) \<times> bool" where
  "size_body B align it = (\<lambda>(biggestSize, smallestPadding).
     let start = GetMemPtrForMBlock it;
         alignStart = ROUND_UP start align;
         end_ptr = GetMBlockEndAddr B it
     in if alignStart < end_ptr
        then
          let sz = u32 (GetOffsetFromPtr alignStart end_ptr);
              padding = u32 (GetOffsetFromPtr start alignStart)
          in if biggestSize < sz \<or> (biggestSize = sz \<and> smallestPadding > padding)
             then ((sz, padding), False) else ((biggestSize, smallestPadding), False)
        else ((biggestSize, smallestPadding), False))"

definition MEMGetAllocatableSizeForExpHeapEx :: "int \<Rightarrow> int \<Rightarrow> exp_state \<Rightarrow> (int \<times> exp_state) option" where
  "MEMGetAllocatableSizeForExpHeapEx heap align s =
     (let align = \<bar>align\<bar>;
          e = GetExpHeapHeadPtrFromHeapHead heap;
          s = LockHeap heap s
      in map_option (\<lambda>(biggestSize, _). (biggestSize, UnlockHeap heap s))
           (scan (\<lambda>b. eb_next (mblocks s b)) (size_body (mblocks s) align) (qhead (ex_free (exps s e))) (0, 0xFFFFFFFF)))"

definition MEMAdjustExpHeap :: "int \<Rightarrow> exp_state \<Rightarrow> int \<times> exp_state" where
  "MEMAdjustExpHeap heap s =
     (let e = GetExpHeapHeadPtrFromHeapHead heap;
          s = LockHeap heap s;
          (sz, s) = (case qtail (ex_free (exps s e)) of
             None \<Rightarrow> (0, s)
           | Some mblock \<Rightarrow>
               if AddU32ToPtr mblock (u32 (eb_size (mblocks s mblock) + MBLOCK_SIZE)) \<noteq> hh_end (mheads s heap)
               then (0, s)
               else
                 let (_, q, B) = RemoveMBlock (ex_free (exps s e)) mblock (mblocks s);
                     s = upd_exp e (ex_free_update (\<lambda>_. q)) (s\<lparr>mblocks := B\<rparr>);
                     s = upd_head heap (\<lambda>hd. hd\<lparr>hh_end :=
                           SubU32ToPtr (hh_end hd) (u32 (eb_size (mblocks s mblock) + MBLOCK_SIZE))\<rparr>) s
                 in (u32 (GetOffsetFromPtr heap (hh_end (mheads s heap))), s))
      in (sz, UnlockHeap heap s))"


section \<open>The searches on the free list\<close>

definition blinks :: "mblockmap \<Rightarrow> int links" where
  "blinks B = \<lparr>lnext = \<lambda>b. eb_next (B b), lprev = \<lambda>b. eb_prev (B b)\<rparr>"

text \<open>Where aligned memory starts in a block and how much of it there is.\<close>

definition mem_start :: "nat \<Rightarrow> int \<Rightarrow> int" where
  "mem_start k b = ROUND_UP (b + MBLOCK_SIZE) (2 ^ k)"

definition space :: "mblockmap \<Rightarrow> nat \<Rightarrow> int \<Rightarrow> int" where
  "space B k b = b + MBLOCK_SIZE + eb_size (B b) - mem_start k b"

definition eblock_ok :: "mblockmap \<Rightarrow> nat \<Rightarrow> int \<Rightarrow> bool" where
  "eblock_ok B k b \<longleftrightarrow> 0 < b \<and> 0 \<le> eb_size (B b) \<and> b + MBLOCK_SIZE + eb_size (B b) + 2 ^ k \<le> 2 ^ 32"

definition free_list :: "exp_state \<Rightarrow> int \<Rightarrow> int list \<Rightarrow> bool" where
  "free_list s e bs \<longleftrightarrow> dlist (blinks (mblocks s)) (ex_free (exps s e)) bs"

lemma mblock_addr:
  assumes "eblock_ok B k b"
  shows "GetMemPtrForMBlock b = b + MBLOCK_SIZE" "GetMBlockEndAddr B b = b + MBLOCK_SIZE + eb_size (B b)"
    "b + MBLOCK_SIZE \<le> mem_start k b" "mem_start k b < b + MBLOCK_SIZE + 2 ^ k" "2 ^ k dvd mem_start k b"
    "u32 (GetOffsetFromPtr (b + MBLOCK_SIZE) (mem_start k b)) = mem_start k b - (b + MBLOCK_SIZE)"
proof -
  have k: "(0::int) < 2 ^ k" by simp
  have r: "0 \<le> b + MBLOCK_SIZE" "b + MBLOCK_SIZE + 2 ^ k - 1 < 2 ^ 32" "b + MBLOCK_SIZE + eb_size (B b) < 2 ^ 32"
    using assms k unfolding eblock_ok_def MBLOCK_SIZE_def by linarith+
  show m: "GetMemPtrForMBlock b = b + MBLOCK_SIZE"
    using r assms k unfolding GetMemPtrForMBlock_def AddU32ToPtr_def eblock_ok_def by (intro u32_id) linarith+
  show "GetMBlockEndAddr B b = b + MBLOCK_SIZE + eb_size (B b)"
    using r assms unfolding GetMBlockEndAddr_def m AddU32ToPtr_def eblock_ok_def by (intro u32_id) linarith+
  note u = ROUND_UP_bounds [OF r(1,2), folded mem_start_def]
  show "b + MBLOCK_SIZE \<le> mem_start k b" "mem_start k b < b + MBLOCK_SIZE + 2 ^ k" "2 ^ k dvd mem_start k b"
    using u by simp_all
  have "u32 (mem_start k b - (b + MBLOCK_SIZE)) = mem_start k b - (b + MBLOCK_SIZE)"
    using u r by (intro u32_id) linarith+
  then show "u32 (GetOffsetFromPtr (b + MBLOCK_SIZE) (mem_start k b)) = mem_start k b - (b + MBLOCK_SIZE)"
    by (simp add: GetOffsetFromPtr_def)
qed

lemma head_body_ok:
  assumes b: "eblock_ok B k b" and sz: "0 < sz" "sz + 2 ^ k \<le> 2 ^ 32"
  shows "head_body B fast sz (2 ^ k) b acc =
    (if sz \<le> space B k b \<and> fst (snd acc) > eb_size (B b)
     then ((Some b, eb_size (B b), mem_start k b), fast \<or> eb_size (B b) = sz) else (acc, False))"
proof -
  note a = mblock_addr [OF b]
  have "u32 (sz + (mem_start k b - (b + MBLOCK_SIZE))) = sz + (mem_start k b - (b + MBLOCK_SIZE))"
    using a(3,4) sz by (intro u32_id) linarith+
  then show ?thesis
    by (auto simp: head_body_def a(1) mem_start_def [symmetric] a(6) space_def Let_def)
qed

lemma eblock_lt:
  assumes "eblock_ok B k b"
  shows "eb_size (B b) < 0xFFFFFFFF"
proof -
  have "(0::int) < 2 ^ k" "(2::int) ^ 32 = 4294967296" by simp_all
  then show ?thesis using assms unfolding eblock_ok_def MBLOCK_SIZE_def by linarith
qed

lemma find_snoc: "find P (xs @ ys) = (case find P xs of None \<Rightarrow> find P ys | Some x \<Rightarrow> Some x)"
  by (induction xs) auto

text \<open>Once a block is found one stays found; a search from nothing finds one when one fits.\<close>

lemma head_scan_found:
  assumes "fst acc \<noteq> None" "\<forall>b \<in> set bs. eblock_ok B k b" "0 < sz" "sz + 2 ^ k \<le> 2 ^ 32"
  shows "fst (scan_list (head_body B fast sz (2 ^ k)) bs acc) \<noteq> None"
  using assms
proof (induction bs arbitrary: acc)
  case (Cons b bs)
  then show ?case by (auto simp: head_body_ok split: if_splits)
qed simp

lemma head_scan_iff:
  assumes "\<forall>b \<in> set bs. eblock_ok B k b" "0 < sz" "sz + 2 ^ k \<le> 2 ^ 32"
  shows "fst (scan_list (head_body B fast sz (2 ^ k)) bs no_best) \<noteq> None \<longleftrightarrow> (\<exists>b \<in> set bs. sz \<le> space B k b)"
  using assms(1)
proof (induction bs)
  case (Cons b bs)
  have b: "eblock_ok B k b" using Cons.prems by simp
  note lt = eblock_lt [OF b]
  show ?case
  proof (cases "sz \<le> space B k b")
    case True
    then show ?thesis
      using Cons.prems lt head_scan_found [of "(Some b, eb_size (B b), mem_start k b)" bs B k sz fast] assms(2,3)
      by (auto simp: head_body_ok [OF b assms(2,3)] no_best_def)
  next
    case False
    then show ?thesis using Cons by (simp add: head_body_ok [OF b assms(2,3)])
  qed
qed (simp add: no_best_def)

text \<open>What a search returns: a block of the list with room; the first one in fast mode, and
  otherwise one no larger than any other with room.\<close>

definition head_sound :: "mblockmap \<Rightarrow> nat \<Rightarrow> int \<Rightarrow> bool \<Rightarrow> int list \<Rightarrow> best \<Rightarrow> bool" where
  "head_sound B k sz fast bs r \<longleftrightarrow> (case r of (None, n, _) \<Rightarrow> n = 0xFFFFFFFF \<and> (\<forall>b \<in> set bs. \<not> sz \<le> space B k b)
     | (Some b, n, p) \<Rightarrow> b \<in> set bs \<and> sz \<le> space B k b \<and> n = eb_size (B b) \<and> p = mem_start k b \<and>
         (if fast then find (\<lambda>b. sz \<le> space B k b) bs = Some b
          else \<forall>c \<in> set bs. sz \<le> space B k c \<longrightarrow> n \<le> eb_size (B c)))"

lemma head_scan_sound:
  assumes "\<forall>b \<in> set (us @ bs). eblock_ok B k b" "0 < sz" "sz + 2 ^ k \<le> 2 ^ 32"
    "head_sound B k sz fast us acc" "fast \<longrightarrow> fst acc = None"
  shows "head_sound B k sz fast (us @ bs) (scan_list (head_body B fast sz (2 ^ k)) bs acc)"
  using assms(1,4,5)
proof (induction bs arbitrary: us acc)
  case (Cons b bs)
  have b: "eblock_ok B k b" using Cons.prems by simp
  note bd = head_body_ok [OF b assms(2,3), of fast acc]
  note lt = eblock_lt [OF b]
  have sp: "sz \<le> space B k c \<Longrightarrow> eblock_ok B k c \<Longrightarrow> sz \<le> eb_size (B c)" for c
    using mblock_addr(3) [of B k c] by (simp add: space_def)
  show ?case
  proof (cases "sz \<le> space B k b \<and> fst (snd acc) > eb_size (B b)")
    case True
    have e: "head_body B fast sz (2 ^ k) b acc = ((Some b, eb_size (B b), mem_start k b), fast \<or> eb_size (B b) = sz)"
      unfolding bd by (rule if_P [OF True])
    have s1: "head_sound B k sz fast (us @ [b]) (Some b, eb_size (B b), mem_start k b)"
    proof (cases acc)
      case (fields x n q)
      show ?thesis
      proof (cases x)
        case None
        then show ?thesis using Cons.prems(2) True fields
          by (auto simp: head_sound_def find_snoc find_None_all split: option.splits)
            (metis find_None_all option.distinct(1))+
      next
        case (Some y)
        then show ?thesis using Cons.prems(2,3) True fields by (auto simp: head_sound_def)
      qed
    qed
    show ?thesis
    proof (cases "fast \<or> eb_size (B b) = sz")
      case stop: True
      have "head_sound B k sz fast (us @ b # bs) (Some b, eb_size (B b), mem_start k b)"
      proof (cases fast)
        case True
        then show ?thesis using s1 by (auto simp: head_sound_def find_snoc split: option.splits)
      next
        case False
        then have "\<forall>c \<in> set (us @ b # bs). sz \<le> space B k c \<longrightarrow> eb_size (B b) \<le> eb_size (B c)"
          using stop sp Cons.prems(1) by auto
        then show ?thesis using False s1 by (simp add: head_sound_def)
      qed
      then show ?thesis using e stop by simp
    next
      case False
      then show ?thesis using e s1 Cons.IH [of "us @ [b]"] Cons.prems(1) by simp
    qed
  next
    case False
    have e: "head_body B fast sz (2 ^ k) b acc = (acc, False)"
      unfolding bd by (rule if_not_P [OF False])
    have "head_sound B k sz fast (us @ [b]) acc"
      using Cons.prems(2,3) False lt by (cases acc; cases "fst acc") (auto simp: head_sound_def)
    then show ?thesis using e Cons.IH [of "us @ [b]" acc] Cons.prems by simp
  qed
qed simp


lemma scan_blocks:
  assumes "free_list s e bs"
  shows "scan (\<lambda>b. eb_next (mblocks s b)) body (qhead (ex_free (exps s e))) acc = Some (scan_list body bs acc)"
  using scan_dlist [of "blinks (mblocks s)" _ bs body acc] assms by (simp add: free_list_def blinks_def)

lemma find_head_sound:
  assumes fl: "free_list s e bs" and ok: "\<forall>b \<in> set bs. eblock_ok (mblocks s) k b" and sz: "0 < sz" "sz + 2 ^ k \<le> 2 ^ 32"
  shows "\<exists>r. find_head e sz (2 ^ k) s = Some r \<and>
    head_sound (mblocks s) k sz (GetAllocMode e s = MEM_EXP_HEAP_ALLOC_FAST) bs r"
proof -
  have "head_sound (mblocks s) k sz (GetAllocMode e s = MEM_EXP_HEAP_ALLOC_FAST) ([] @ bs)
      (scan_list (head_body (mblocks s) (GetAllocMode e s = MEM_EXP_HEAP_ALLOC_FAST) sz (2 ^ k)) bs no_best)"
    by (rule head_scan_sound) (use ok sz in \<open>auto simp: head_sound_def no_best_def\<close>)
  then show ?thesis by (simp add: find_head_def scan_blocks [OF fl])
qed

text \<open>The biggest space in a list of blocks.\<close>

definition best_space :: "mblockmap \<Rightarrow> nat \<Rightarrow> int list \<Rightarrow> int" where
  "best_space B k bs = fold (\<lambda>b m. max m (space B k b)) bs 0"

lemma size_scan:
  assumes "\<forall>b \<in> set bs. eblock_ok B k b" "0 \<le> m"
  shows "fst (scan_list (size_body B (2 ^ k)) bs (m, p)) = fold (\<lambda>b m. max m (space B k b)) bs m"
  using assms
proof (induction bs arbitrary: m p)
  case (Cons b bs)
  have b: "eblock_ok B k b" using Cons.prems by simp
  note a = mblock_addr [OF b]
  have e: "u32 (GetOffsetFromPtr (mem_start k b) (b + MBLOCK_SIZE + eb_size (B b))) = space B k b" if "0 < space B k b"
  proof -
    have "0 < b" "b + MBLOCK_SIZE + eb_size (B b) + 2 ^ k \<le> 2 ^ 32" "(0::int) < 2 ^ k" using b by (simp_all add: eblock_ok_def)
    then have "u32 (space B k b) = space B k b"
      using that a(3) unfolding space_def MBLOCK_SIZE_def by (intro u32_id) linarith+
    then show ?thesis by (simp add: GetOffsetFromPtr_def space_def)
  qed
  have "\<exists>p'. size_body B (2 ^ k) b (m, p) = ((max m (space B k b), p'), False)"
    using Cons.prems(2) e
    by (auto simp: size_body_def a(1,2) mem_start_def [symmetric] space_def Let_def max_def)
  then show ?case using Cons by fastforce
qed simp

lemma fold_max_iff:
  "0 \<le> m \<Longrightarrow> sz \<le> fold (\<lambda>b m. max m (f b)) bs m \<longleftrightarrow> sz \<le> m \<or> (\<exists>b \<in> set bs. sz \<le> (f b :: int))"
  by (induction bs arbitrary: m) (auto simp: le_max_iff_disj)

lemma RemoveMBlock_list:
  assumes "dlist (blinks B) q (us @ b # vs)"
  shows "\<exists>q' B'. RemoveMBlock q b B = (last_opt us, q', B') \<and> dlist (blinks B') q' (us @ vs) \<and>
    (\<forall>x. eb_size (B' x) = eb_size (B x))"
proof -
  note nb = dlist_neighbours [OF assms]
  have e: "eb_prev (B b) = last_opt us" "eb_next (B b) = hd_opt vs" using nb by (simp_all add: blinks_def)
  have s: "blinks (set_enext x v B) = set_next x v (blinks B)" "blinks (set_eprev x v B) = set_prev x v (blinks B)" for x v B
    by (auto simp: blinks_def set_next_def set_prev_def set_enext_def set_eprev_def fun_eq_iff)
  have z: "eb_size (set_enext x v B y) = eb_size (B y)" "eb_size (set_eprev x v B y) = eb_size (B y)" for x v B y
    by (simp_all add: set_enext_def set_eprev_def)
  have d: "distinct (us @ b # vs)" using assms by (rule dlist_distinct)
  show ?thesis
  proof (cases us rule: rev_cases)
    case Nil
    then show ?thesis using assms e d by (cases vs) (auto simp: RemoveMBlock_def dlist_def Let_def s z)
  next
    case (snoc ws w)
    then show ?thesis using assms e d by (cases vs) (auto simp: RemoveMBlock_def dlist_def Let_def s z dlseg_append)
  qed
qed

section \<open>Properties\<close>

lemma exp_locked [simp]:
  "exps (LockHeap h s) = exps s" "mblocks (LockHeap h s) = mblocks s" "free_list (LockHeap h s) e bs = free_list s e bs"
  "GetAllocMode e (LockHeap h s) = GetAllocMode e s" "UnlockHeap h (LockHeap h s) = (s :: exp_state)"
  by (auto simp: LockHeap_def UnlockHeap_def free_list_def GetAllocMode_def upd_head_def GetOptForHeap_def)

definition exp_size :: "int \<Rightarrow> int" where
  "exp_size sz = ROUND_UP (if sz = 0 then 1 else sz) 4"

text \<open>C17. Allocation from the low end of an expandable heap returns NULL and leaves the heap as
  it was exactly when no free block has room for the rounded size behind the aligned start of its
  memory.  Otherwise the block handed to \<^verbatim>\<open>AllocUsedBlockFromFreeBlock_\<close> has room, the
  address is its aligned start, and it is the first block with room in fast mode and a smallest
  one otherwise.\<close>

theorem MEMAllocFromExpHeapEx_search:
  assumes fl: "free_list s (GetExpHeapHeadPtrFromHeapHead h) bs" and ok: "\<forall>b \<in> set bs. eblock_ok (mblocks s) k b"
    and sz: "0 < exp_size sz" "exp_size sz + 2 ^ k \<le> 2 ^ 32"
  defines "e \<equiv> GetExpHeapHeadPtrFromHeapHead h" and "z \<equiv> exp_size sz"
  shows "(\<forall>b \<in> set bs. space (mblocks s) k b < z) \<and> MEMAllocFromExpHeapEx cmp use h sz (2 ^ k) s = Some (0, s) \<or>
    (\<exists>b \<in> set bs. z \<le> space (mblocks s) k b \<and>
       (if GetAllocMode e s = MEM_EXP_HEAP_ALLOC_FAST then find (\<lambda>b. z \<le> space (mblocks s) k b) bs = Some b
        else \<forall>c \<in> set bs. z \<le> space (mblocks s) k c \<longrightarrow> eb_size (mblocks s b) \<le> eb_size (mblocks s c)) \<and>
       MEMAllocFromExpHeapEx cmp use h sz (2 ^ k) s =
         Some (case use e b (mem_start k b) z 0 (LockHeap h s) of (p, s') \<Rightarrow> (p, UnlockHeap h s')))"
proof -
  obtain r where r: "find_head e z (2 ^ k) (LockHeap h s) = Some r"
    "head_sound (mblocks s) k z (GetAllocMode e s = MEM_EXP_HEAP_ALLOC_FAST) bs r"
    using find_head_sound [of "LockHeap h s" e bs k z] fl ok sz by (auto simp: e_def z_def)
  obtain x n p where x: "r = (x, n, p)" by (cases r)
  have A: "MEMAllocFromExpHeapEx cmp use h sz (2 ^ k) s = map_option (\<lambda>(b, s). (b, UnlockHeap h s))
      (Some (case x of None \<Rightarrow> (0, LockHeap h s) | Some b \<Rightarrow> use e b p z 0 (LockHeap h s)))"
    unfolding MEMAllocFromExpHeapEx_def Let_def exp_size_def [symmetric] z_def [symmetric]
    using r(1) x by (simp add: ExpAllocFromHead_def e_def [symmetric])
  show ?thesis
  proof (cases x)
    case None
    then show ?thesis using A r(2) x by (auto simp: head_sound_def not_le)
  next
    case (Some b)
    then show ?thesis using A r(2) x by (intro disjI2 bexI [of _ b]) (auto simp: head_sound_def split: if_splits)
  qed
qed

text \<open>C18. \<^verbatim>\<open>MEMGetAllocatableSizeForExpHeapEx\<close> is exact: it returns, changes nothing,
  and an allocation of any positive rounded size with the same alignment finds a block if and
  only if the size is at most the number returned, in both allocation modes.\<close>

theorem MEMGetAllocatableSizeForExpHeapEx_exact:
  assumes fl: "free_list s (GetExpHeapHeadPtrFromHeapHead h) bs" and ok: "\<forall>b \<in> set bs. eblock_ok (mblocks s) k b"
    and sz: "0 < z" "z + 2 ^ k \<le> 2 ^ 32" and align: "align = 2 ^ k \<or> align = - (2 ^ k)"
  shows "\<exists>m r. MEMGetAllocatableSizeForExpHeapEx h align s = Some (m, s) \<and>
    find_head (GetExpHeapHeadPtrFromHeapHead h) z (2 ^ k) s = Some r \<and> (fst r \<noteq> None \<longleftrightarrow> z \<le> m)"
proof -
  let ?e = "GetExpHeapHeadPtrFromHeapHead h"
  have a: "\<bar>align\<bar> = 2 ^ k" using align by auto
  obtain p where p: "scan_list (size_body (mblocks s) (2 ^ k)) bs (0, 0xFFFFFFFF) = (best_space (mblocks s) k bs, p)"
    using size_scan [OF ok order_refl, of "0xFFFFFFFF"] unfolding best_space_def by (metis prod.collapse)
  have "MEMGetAllocatableSizeForExpHeapEx h align s = Some (best_space (mblocks s) k bs, s)"
    using scan_blocks [OF fl, of "size_body (mblocks s) (2 ^ k)" "(0, 0xFFFFFFFF)"] p by (simp add: MEMGetAllocatableSizeForExpHeapEx_def a Let_def)
  moreover have "find_head ?e z (2 ^ k) s =
      Some (scan_list (head_body (mblocks s) (GetAllocMode ?e s = MEM_EXP_HEAP_ALLOC_FAST) z (2 ^ k)) bs no_best)"
    using scan_blocks [OF fl] by (simp add: find_head_def)
  moreover have "z \<le> best_space (mblocks s) k bs \<longleftrightarrow> (\<exists>b \<in> set bs. z \<le> space (mblocks s) k b)"
    using fold_max_iff [of 0 z "space (mblocks s) k" bs] sz(1) by (simp add: best_space_def)
  ultimately show ?thesis
    using head_scan_iff [OF ok sz] by blast
qed


text \<open>A heap with two free blocks, of 0x20 and 0x100 bytes, the second at its end.\<close>

definition demo_exp :: exp_state where
  "demo_exp = mem_state.extend
     \<lparr>irq_enabled = True, mheads = (\<lambda>_. head_zero)(0x80200000 := head_zero\<lparr>hh_start := 0x80200050, hh_end := 0x80201110, hh_attribute := 4\<rparr>),
      mnodes = \<lambda>_. \<lparr>ml_prev = None, ml_next = None\<rparr>, mbytes = \<lambda>_. 0xCC,
      sRootListInitialized = False, sRootList = MEMInitList 0, root_lock = 0\<rparr>
     \<lparr>exps = \<lambda>_. \<lparr>ex_free = \<lparr>qhead = Some 0x80200050, qtail = Some 0x80201000\<rparr>,
        ex_used = \<lparr>qhead = None, qtail = None\<rparr>, ex_group = 0, ex_short12 = 0\<rparr>,
      mblocks = (\<lambda>_. \<lparr>eb_state = 0, eb_settings = 0, eb_size = 0, eb_prev = None, eb_next = None\<rparr>)(
        0x80200050 := \<lparr>eb_state = MEM_EXP_HEAP_MBLOCK_FREE, eb_settings = 0, eb_size = 0x20, eb_prev = None, eb_next = Some 0x80201000\<rparr>,
        0x80201000 := \<lparr>eb_state = MEM_EXP_HEAP_MBLOCK_FREE, eb_settings = 0, eb_size = 0x100, eb_prev = Some 0x80200050, eb_next = None\<rparr>)\<rparr>"

lemma demo_exp_free:
  "free_list demo_exp (GetExpHeapHeadPtrFromHeapHead h) [0x80200050, 0x80201000]"
  "\<forall>b \<in> set [0x80200050, 0x80201000]. eblock_ok (mblocks demo_exp) 5 b"
  by (simp_all add: free_list_def demo_exp_def mem_state.defs blinks_def dlist_def eblock_ok_def MBLOCK_SIZE_def)

lemma demo_exp_space:
  "space (mblocks demo_exp) 5 0x80200050 = 0x20" "space (mblocks demo_exp) 5 0x80201000 = 0xF0"
  "mem_start 5 0x80201000 = 0x80201020" "exp_size 100 = 100"
  by (simp_all add: space_def mem_start_def ROUND_UP_def u32_def demo_exp_def mem_state.defs MBLOCK_SIZE_def exp_size_def)

theorem MEMAllocFromExpHeapEx_search_witness:
  "MEMAllocFromExpHeapEx (-) (\<lambda>e b p z d s. (p, s)) 0x80200000 100 (2 ^ 5) demo_exp = Some (0x80201020, demo_exp) \<and>
   MEMAllocFromExpHeapEx (-) (\<lambda>e b p z d s. (p, s)) 0x80200000 0x1000 (2 ^ 5) demo_exp = Some (0, demo_exp)"
proof -
  have z: "exp_size 0x1000 = 0x1000" by (simp add: exp_size_def ROUND_UP_def u32_def)
  show ?thesis
    using MEMAllocFromExpHeapEx_search [OF demo_exp_free, of 100 "(-)" "\<lambda>e b p z d s. (p, s)"]
      MEMAllocFromExpHeapEx_search [OF demo_exp_free, of "0x1000" "(-)" "\<lambda>e b p z d s. (p, s)"]
    by (simp add: demo_exp_space z)
qed

theorem MEMGetAllocatableSizeForExpHeapEx_exact_witness:
  "\<exists>m. MEMGetAllocatableSizeForExpHeapEx 0x80200000 (2 ^ 5) demo_exp = Some (m, demo_exp) \<and> 0xF0 \<le> m \<and> \<not> 0xF4 \<le> m"
proof -
  note fl = demo_exp_free(1) [of "0x80200000"]
  obtain m r where m: "MEMGetAllocatableSizeForExpHeapEx 0x80200000 (2 ^ 5) demo_exp = Some (m, demo_exp)"
    "find_head (GetExpHeapHeadPtrFromHeapHead 0x80200000) 0xF0 (2 ^ 5) demo_exp = Some r" "fst r \<noteq> None \<longleftrightarrow> 0xF0 \<le> m"
    using MEMGetAllocatableSizeForExpHeapEx_exact [OF fl demo_exp_free(2), of "0xF0" "2 ^ 5"] by auto
  obtain m' r' where m': "MEMGetAllocatableSizeForExpHeapEx 0x80200000 (2 ^ 5) demo_exp = Some (m', demo_exp)"
    "find_head (GetExpHeapHeadPtrFromHeapHead 0x80200000) 0xF4 (2 ^ 5) demo_exp = Some r'" "fst r' \<noteq> None \<longleftrightarrow> 0xF4 \<le> m'"
    using MEMGetAllocatableSizeForExpHeapEx_exact [OF fl demo_exp_free(2), of "0xF4" "2 ^ 5"] by auto
  have "fst r \<noteq> None" "fst r' = None"
    using find_head_sound [OF fl demo_exp_free(2), of "0xF0"] find_head_sound [OF fl demo_exp_free(2), of "0xF4"] m(2) m'(2)
    by (auto simp: head_sound_def demo_exp_space split: prod.splits option.splits)
  then show ?thesis using m m' by auto
qed

text \<open>\<^verbatim>\<open>MEMAdjustExpHeap\<close> shrinks the heap by its last free block: when that block
  ends where the heap ends, it leaves the free list, the heap ends where its header started and
  the new total size is returned; otherwise, and with no free block, 0 is returned and nothing
  changes.\<close>

theorem MEMAdjustExpHeap_shrinks:
  assumes fl: "free_list s (GetExpHeapHeadPtrFromHeapHead h) (bs @ [b])" and ok: "eblock_ok (mblocks s) 0 b"
    and h: "0 \<le> h" "h < b" "b - h < 2 ^ 31"
  defines "e \<equiv> GetExpHeapHeadPtrFromHeapHead h" and "en \<equiv> b + MBLOCK_SIZE + eb_size (mblocks s b)"
  shows "if en = hh_end (mheads s h)
    then \<exists>s'. MEMAdjustExpHeap h s = (b - h, s') \<and> hh_end (mheads s' h) = b \<and> free_list s' e bs
    else MEMAdjustExpHeap h s = (0, s)"
proof -
  let ?s1 = "LockHeap h s"
  have q: "qtail (ex_free (exps s e)) = Some b"
    using dlist_tail [OF fl [unfolded free_list_def]] by (simp add: e_def)
  have p1: "(1::int) = 2 ^ 0" by simp
  have rng: "0 < b" "0 \<le> eb_size (mblocks s b)" "en < 2 ^ 32"
    using ok unfolding eblock_ok_def en_def by simp_all
  have u1: "u32 (eb_size (mblocks s b) + MBLOCK_SIZE) = eb_size (mblocks s b) + MBLOCK_SIZE"
    using rng unfolding en_def MBLOCK_SIZE_def by (intro u32_id) linarith+
  have u: "AddU32ToPtr b (eb_size (mblocks s b) + MBLOCK_SIZE) = en"
    using rng unfolding AddU32ToPtr_def en_def MBLOCK_SIZE_def by (simp add: u32_id algebra_simps)
  show ?thesis
  proof (cases "en = hh_end (mheads s h)")
    case False
    then have "hh_end (mheads ?s1 h) \<noteq> en" by (simp add: LockHeap_def upd_head_def)
    then show ?thesis
      using False q u u1 by (simp add: MEMAdjustExpHeap_def e_def [symmetric] Let_def)
  next
    case True
    obtain q' B' where r: "RemoveMBlock (ex_free (exps s e)) b (mblocks s) = (last_opt bs, q', B')"
      "dlist (blinks B') q' bs" "\<forall>x. eb_size (B' x) = eb_size (mblocks s x)"
      using RemoveMBlock_list [of "mblocks s" "ex_free (exps s e)" bs b "[]"] fl by (auto simp: free_list_def e_def)
    have hl: "hh_end (mheads ?s1 h) = en" using True by (simp add: LockHeap_def upd_head_def)
    have sb: "SubU32ToPtr en (eb_size (mblocks s b) + MBLOCK_SIZE) = b"
      using rng unfolding SubU32ToPtr_def en_def MBLOCK_SIZE_def by (simp add: u32_id)
    have o: "u32 (GetOffsetFromPtr h b) = b - h" using h by (simp add: GetOffsetFromPtr_def u32_id)
    define s2 where "s2 = upd_head h (\<lambda>hd. hd\<lparr>hh_end := SubU32ToPtr (hh_end hd) (eb_size (mblocks s b) + MBLOCK_SIZE)\<rparr>)
        (upd_exp e (ex_free_update (\<lambda>_. q')) (?s1\<lparr>mblocks := B'\<rparr>))"
    have h2: "hh_end (mheads s2 h) = b" using hl sb by (simp add: s2_def upd_head_def upd_exp_def)
    have sel: "mheads (upd_exp e g t) = mheads t" "mblocks (upd_exp e g t) = mblocks t" "mheads (upd_head h f t) h = f (mheads t h)" for g f t
      by (simp_all add: upd_exp_def upd_head_def)
    have "MEMAdjustExpHeap h s = (b - h, UnlockHeap h s2)"
      using q u u1 r(1,3) hl sb o by (simp add: MEMAdjustExpHeap_def e_def [symmetric] Let_def sel s2_def)
    moreover have "hh_end (mheads (UnlockHeap h s2) h) = b" using h2 by (simp add: UnlockHeap_def upd_head_def)
    moreover have "free_list (UnlockHeap h s2) e bs"
      using r(2) by (simp add: UnlockHeap_def free_list_def s2_def upd_head_def upd_exp_def)
    ultimately show ?thesis using True by simp
  qed
qed

theorem MEMAdjustExpHeap_shrinks_witness:
  "\<exists>s'. MEMAdjustExpHeap 0x80200000 demo_exp = (0x1000, s') \<and> hh_end (mheads s' 0x80200000) = 0x80201000"
proof -
  have "eblock_ok (mblocks demo_exp) 0 0x80201000"
    by (simp add: demo_exp_def mem_state.defs eblock_ok_def MBLOCK_SIZE_def)
  moreover have "hh_end (mheads demo_exp 0x80200000) = 0x80201000 + MBLOCK_SIZE + eb_size (mblocks demo_exp 0x80201000)"
    by (simp add: demo_exp_def mem_state.defs MBLOCK_SIZE_def)
  ultimately show ?thesis
    using MEMAdjustExpHeap_shrinks [of demo_exp "0x80200000" "[0x80200050]" "0x80201000"] demo_exp_free(1) by auto
qed

end
