(* ===== verification/Fst.thy ===== *)
theory Fst
  imports Prelude
begin

text \<open>
  What \<^verbatim>\<open>arc/arc.c\<close> and \<^verbatim>\<open>dvd/dvdfs.c\<close> have in common.  Both work on a file system
  table: an array of nodes in preorder, where a folder carries the index of its parent and of the
  first node behind its contents, followed by a table of names.  The two files hold the same
  code for comparing names, copying them, building the path of a node and walking along a path.

  A table is \<open>fst_mem\<close>: \<open>fnode\<close> maps the address of a node to its contents,
  \<open>fchar\<close> an address to the character there.  A path is the list of its characters in front
  of the NUL that ends it; \<open>chr path k\<close> is \<^verbatim>\<open>path[k]\<close>.  A result None stands for a
  call that does not return.
\<close>

section \<open>Nodes and names\<close>

record fst_node =
  fn_packed :: int
  fn_a :: int
  fn_b :: int

record fst_mem =
  fnode :: "int \<Rightarrow> fst_node"
  fchar :: "int \<Rightarrow> char"

text \<open>A node has 12 bytes; \<open>fn_a\<close> is the offset of a file or the parent of a folder,
  \<open>fn_b\<close> the size of a file or the \<^verbatim>\<open>sibling_next\<close> of a folder.\<close>

definition NODE_SIZE :: int where "NODE_SIZE = 12"

definition NUL :: char where "NUL = CHR 0x00"

definition NodeIsFolder :: "fst_node \<Rightarrow> bool" where
  "NodeIsFolder n = (and (fn_packed n) 0xFF000000 \<noteq> 0)"

definition NodeGetName :: "fst_node \<Rightarrow> int" where
  "NodeGetName n = and (fn_packed n) 0x00FFFFFF"

text \<open>The bit field \<^verbatim>\<open>name\<close> is the low 24 bits.\<close>

definition node_name :: "fst_node \<Rightarrow> int" where
  "node_name n = fn_packed n mod 2 ^ 24"

text \<open>\<^verbatim>\<open>tolower\<close> of the C locale.\<close>

definition to_lower :: "char \<Rightarrow> char" where
  "to_lower c = (let n = of_char c :: nat in if 65 \<le> n \<and> n \<le> 90 then char_of (n + 32) else c)"

definition chr :: "string \<Rightarrow> nat \<Rightarrow> char" where
  "chr path k = (if k < length path then path ! k else NUL)"

text \<open>
  \<^verbatim>\<open>isSame\<close>: the name at \<open>rhs\<close> is a prefix of the path up to letter case, and ends
  where a component of the path ends.  Past the end of the path the code compares its NUL with a
  character of the name that is none.
\<close>

fun isSame :: "(int \<Rightarrow> char) \<Rightarrow> string \<Rightarrow> int \<Rightarrow> bool" where
  "isSame M [] rhs = (M rhs = NUL)"
| "isSame M (c # lhs) rhs =
     (if M rhs \<noteq> NUL
      then (if to_lower c \<noteq> to_lower (M rhs) then False else isSame M lhs (u32 (rhs + 1)))
      else c = CHR ''/'' \<or> c = NUL)"

text \<open>\<^verbatim>\<open>myStrncpy\<close> copies at most \<open>i\<close> characters to index \<open>dst\<close> of the buffer and
  returns how many.\<close>

fun myStrncpy :: "(int \<Rightarrow> char) \<Rightarrow> int \<Rightarrow> int \<Rightarrow> nat \<Rightarrow> (int \<Rightarrow> char) \<Rightarrow> int \<times> (int \<Rightarrow> char)" where
  "myStrncpy M dst src 0 buf = (0, buf)"
| "myStrncpy M dst src (Suc i) buf =
     (if M src = NUL then (0, buf)
      else case myStrncpy M (u32 (dst + 1)) (u32 (src + 1)) i (buf(dst := M src)) of
        (n, buf) \<Rightarrow> (n + 1, buf))"

text \<open>
  The path of a node, written into a buffer of \<open>maxlen\<close> characters.  \<open>node\<close> reads the
  table and \<open>names\<close> is the address of the name table.
\<close>

partial_function (option) entryToPath ::
  "(int \<Rightarrow> char) \<Rightarrow> (int \<Rightarrow> fst_node) \<Rightarrow> int \<Rightarrow> int \<Rightarrow> int \<Rightarrow> (int \<Rightarrow> char) \<Rightarrow> (int \<times> (int \<Rightarrow> char)) option" where
  "entryToPath M node names entrynum maxlen buf =
     (if entrynum = 0 then Some (0, buf)
      else do {
        let name = u32 (names + node_name (node entrynum));
        (written, buf) \<leftarrow> entryToPath M node names (fn_a (node entrynum)) maxlen buf;
        if written = maxlen then Some (written, buf)
        else
          let buf = buf(written := CHR ''/'');
              written = u32 (written + 1);
              (n, buf) = myStrncpy M written name (nat (maxlen - written)) buf
          in Some (written + n, buf)
      })"

declare entryToPath.simps [code]

text \<open>The same with a final slash for a folder and a terminating NUL; FALSE when cut off.\<close>

definition ConvertEntrynumToPath ::
  "(int \<Rightarrow> char) \<Rightarrow> (int \<Rightarrow> fst_node) \<Rightarrow> int \<Rightarrow> int \<Rightarrow> int \<Rightarrow> (int \<Rightarrow> char) \<Rightarrow> (bool \<times> (int \<Rightarrow> char)) option" where
  "ConvertEntrynumToPath M node names entrynum maxlen buf = do {
     (written, buf) \<leftarrow> entryToPath M node names entrynum maxlen buf;
     if written = maxlen then Some (False, buf(u32 (maxlen - 1) := NUL))
     else if NodeIsFolder (node entrynum)
     then (if written = u32 (maxlen - 1) then Some (False, buf(written := NUL))
           else Some (True, buf(written := CHR ''/'', u32 (written + 1) := NUL)))
     else Some (True, buf(written := NUL))
   }"


section \<open>Walking along a path\<close>

text \<open>
  The scanner of \<^verbatim>\<open>ConvertPathToEntrynum\<close>: \<open>parent\<close> reads the parent of a folder,
  \<open>check\<close> is the test of the rest of the path in front of a search (the 8.3 check of the DVD
  code) and \<open>search it path delimited\<close> the loop over the children of \<open>it\<close> for the
  first component of \<open>path\<close>.
\<close>

definition component :: "string \<Rightarrow> string" where
  "component path = takeWhile (\<lambda>c. c \<noteq> NUL \<and> c \<noteq> CHR ''/'') path"

lemma component_le: "length (component path) \<le> length path"
  unfolding component_def by (rule length_takeWhile_le)

lemma chr_NUL_Nil [simp]: "chr [] k = NUL"
  by (simp add: chr_def)

function path_walk ::
  "(int \<Rightarrow> int) \<Rightarrow> (string \<Rightarrow> bool) \<Rightarrow> (int \<Rightarrow> string \<Rightarrow> bool \<Rightarrow> int option option) \<Rightarrow> int \<Rightarrow> string \<Rightarrow> int option" where
  "path_walk parent check search it path =
     (if chr path 0 = NUL then Some (s32 it)
      else if chr path 0 = CHR ''/'' then path_walk parent check search 0 (drop 1 path)
      else if chr path 0 = CHR ''.'' \<and> chr path 1 = CHR ''.'' \<and> chr path 2 = CHR ''/''
      then path_walk parent check search (parent it) (drop 3 path)
      else if chr path 0 = CHR ''.'' \<and> chr path 1 = CHR ''.'' \<and> chr path 2 = NUL
      then Some (s32 (parent it))
      else if chr path 0 = CHR ''.'' \<and> chr path 1 = CHR ''/''
      then path_walk parent check search it (drop 2 path)
      else if chr path 0 = CHR ''.'' \<and> chr path 1 = NUL then Some (s32 it)
      else if \<not> check path then None
      else
        let name_length = length (component path);
            delimited = (chr path name_length \<noteq> NUL)
        in (case search it path delimited of
              None \<Rightarrow> None
            | Some None \<Rightarrow> Some (- 1)
            | Some (Some it) \<Rightarrow>
                if \<not> delimited then Some (s32 it)
                else path_walk parent check search it (drop (name_length + 1) path)))"
  by pat_completeness auto
termination
  by (relation "measure (\<lambda>(_, _, _, _, path). length path)") (auto simp: chr_def split: if_splits)

declare path_walk.simps [simp del]


section \<open>The tree a table stands for\<close>

datatype fst_tree = FFile (fname: string) int int | FDir (fname: string) "fst_tree list"

fun is_dir :: "fst_tree \<Rightarrow> bool" where
  "is_dir (FFile _ _ _) = False"
| "is_dir (FDir _ _) = True"

fun subs :: "fst_tree \<Rightarrow> fst_tree list" where
  "subs (FFile _ _ _) = []"
| "subs (FDir _ ts) = ts"

fun nsize :: "fst_tree \<Rightarrow> int" and nsizes :: "fst_tree list \<Rightarrow> int" where
  "nsize (FFile _ _ _) = 1"
| "nsize (FDir _ ts) = 1 + nsizes ts"
| "nsizes [] = 0"
| "nsizes (t # ts) = nsize t + nsizes ts"

fun str_at :: "(int \<Rightarrow> char) \<Rightarrow> int \<Rightarrow> string \<Rightarrow> bool" where
  "str_at M a [] = (M a = NUL)"
| "str_at M a (c # s) = (c \<noteq> NUL \<and> M a = c \<and> str_at M (u32 (a + 1)) s)"

definition name_at :: "(int \<Rightarrow> char) \<Rightarrow> int \<Rightarrow> fst_node \<Rightarrow> string \<Rightarrow> bool" where
  "name_at M names n s = (str_at M (u32 (names + node_name n)) s \<and> CHR ''/'' \<notin> set s)"

text \<open>\<open>tree_at M node names i p t\<close>: the table holds \<open>t\<close> from index \<open>i\<close> on, with parent \<open>p\<close>.\<close>

fun tree_at :: "(int \<Rightarrow> char) \<Rightarrow> (int \<Rightarrow> fst_node) \<Rightarrow> int \<Rightarrow> int \<Rightarrow> int \<Rightarrow> fst_tree \<Rightarrow> bool" and
  list_at :: "(int \<Rightarrow> char) \<Rightarrow> (int \<Rightarrow> fst_node) \<Rightarrow> int \<Rightarrow> int \<Rightarrow> int \<Rightarrow> fst_tree list \<Rightarrow> bool" where
  "tree_at M node names i p (FFile s ofs sz) =
     (\<not> NodeIsFolder (node i) \<and> name_at M names (node i) s \<and> fn_a (node i) = ofs \<and> fn_b (node i) = sz)"
| "tree_at M node names i p (FDir s ts) =
     (NodeIsFolder (node i) \<and> name_at M names (node i) s \<and> fn_a (node i) = p \<and>
      fn_b (node i) = i + 1 + nsizes ts \<and> list_at M node names (i + 1) i ts)"
| "list_at M node names i p [] = True"
| "list_at M node names i p (t # ts) =
     (tree_at M node names i p t \<and> list_at M node names (i + nsize t) p ts)"

text \<open>The entries of a folder with their indices.\<close>

fun kids :: "int \<Rightarrow> fst_tree list \<Rightarrow> (int \<times> fst_tree) list" where
  "kids i [] = []"
| "kids i (t # ts) = (i, t) # kids (i + nsize t) ts"

definition same_name :: "string \<Rightarrow> string \<Rightarrow> bool" where
  "same_name a b = (map to_lower a = map to_lower b)"

lemma nsize_pos: "1 \<le> nsize t" "0 \<le> nsizes ts"
  by (induction t and ts rule: nsize_nsizes.induct) simp_all

lemma kids_range:
  assumes "(j, u) \<in> set (kids i ts)"
  shows "i \<le> j" "j + nsize u \<le> i + nsizes ts"
proof -
  have "i \<le> j \<and> j + nsize u \<le> i + nsizes ts" using assms
  proof (induction ts arbitrary: i)
    case (Cons t ts)
    then consider "j = i" "u = t" | "(j, u) \<in> set (kids (i + nsize t) ts)" by auto
    then show ?case
    proof cases
      case 1 then show ?thesis using nsize_pos(2) [of ts] by simp
    next
      case 2 then show ?thesis using Cons.IH [OF 2] nsize_pos(1) [of t] by simp
    qed
  qed simp
  then show "i \<le> j" "j + nsize u \<le> i + nsizes ts" by simp_all
qed

lemma list_at_kids:
  "list_at M node names i p ts \<Longrightarrow> (j, u) \<in> set (kids i ts) \<Longrightarrow> tree_at M node names j p u"
  by (induction ts arbitrary: i) auto

lemma kids_subs: "(j, u) \<in> set (kids i ts) \<Longrightarrow> u \<in> set ts"
  by (induction ts arbitrary: i) auto

lemma NodeGetName_eq: "NodeGetName n = node_name n"
proof -
  have "and (fn_packed n) (mask 24) = fn_packed n mod 2 ^ 24" by (metis take_bit_eq_mask take_bit_eq_mod)
  then show ?thesis by (simp add: NodeGetName_def node_name_def mask_eq_exp_minus_1)
qed

lemma tree_at_dir: "tree_at M node names i p t \<Longrightarrow> NodeIsFolder (node i) = is_dir t"
  by (cases t) auto

lemma tree_at_name: "tree_at M node names i p t \<Longrightarrow> name_at M names (node i) (fname t)"
  by (cases t) auto

lemma tree_at_sibling:
  "tree_at M node names i p t \<Longrightarrow> is_dir t \<Longrightarrow> fn_b (node i) = i + nsize t"
  by (cases t) auto


section \<open>Comparing names\<close>

lemma to_lower_special:
  "to_lower c = NUL \<longleftrightarrow> c = NUL" "to_lower c = CHR ''/'' \<longleftrightarrow> c = CHR ''/''" "to_lower c = CHR ''.'' \<longleftrightarrow> c = CHR ''.''"
proof -
  have n: "of_char (to_lower c) = (let n = of_char c :: nat in if 65 \<le> n \<and> n \<le> 90 then n + 32 else n)"
    by (simp add: to_lower_def Let_def)
  have e: "a = b \<longleftrightarrow> (of_char a :: nat) = of_char b" for a b :: char
    by simp
  show "to_lower c = NUL \<longleftrightarrow> c = NUL" "to_lower c = CHR ''/'' \<longleftrightarrow> c = CHR ''/''" "to_lower c = CHR ''.'' \<longleftrightarrow> c = CHR ''.''"
    unfolding e [of "to_lower c"] n e [of c] by (auto simp: Let_def NUL_def)
qed

lemma chr_component:
  assumes "NUL \<notin> set path"
  shows "chr path (length (component path)) = (if length (component path) = length path then NUL else CHR ''/'')"
proof (cases "length (component path) = length path")
  case False
  then have l: "length (component path) < length path" using component_le [of path] by simp
  have "path ! length (component path) = NUL \<or> path ! length (component path) = CHR ''/''"
    using nth_length_takeWhile [of "\<lambda>c. c \<noteq> NUL \<and> c \<noteq> CHR ''/''" path] l by (auto simp: component_def)
  moreover have "path ! length (component path) \<noteq> NUL" using l assms nth_mem by metis
  ultimately show ?thesis using False l by (simp add: chr_def)
qed (simp add: chr_def)

lemma isSame_iff:
  assumes "str_at M a n" "CHR ''/'' \<notin> set n"
  shows "isSame M path a \<longleftrightarrow> same_name (component path) n"
  using assms
proof (induction n arbitrary: path a)
  case Nil
  then show ?case
    by (cases path) (auto simp: same_name_def component_def)
next
  case (Cons d n)
  show ?case
  proof (cases path)
    case Nil
    then show ?thesis using Cons.prems by (simp add: same_name_def component_def)
  next
    case (Cons c cs)
    have d: "d \<noteq> NUL" "d \<noteq> CHR ''/''" "M a = d" using Cons.prems by auto
    show ?thesis
    proof (cases "to_lower c = to_lower d")
      case True
      then have "c \<noteq> NUL" "c \<noteq> CHR ''/''" using d to_lower_special by metis+
      then show ?thesis
        using Cons True d Cons.IH [of "u32 (a + 1)" cs] Cons.prems by (simp add: same_name_def component_def)
    next
      case False
      then show ?thesis using Cons d by (auto simp: same_name_def component_def)
    qed
  qed
qed


section \<open>What a path means\<close>

text \<open>
  A place in the tree is the list of folders from it up to the root.  \<open>resolve\<close> follows the
  components of a path: an empty one leads to the root (the path started with a slash, or had two
  in a row) unless it is the last, \<open>.\<close> stays, \<open>..\<close> goes up, and a name leads to the
  first entry of that name, a folder if more components follow.
\<close>

type_synonym trail = "(int \<times> fst_tree) list"

fun split_path :: "string \<Rightarrow> string list" where
  "split_path [] = [[]]"
| "split_path (c # cs) =
     (if c = CHR ''/'' then [] # split_path cs
      else (c # hd (split_path cs)) # tl (split_path cs))"

definition up :: "trail \<Rightarrow> trail" where
  "up tr = (if tl tr = [] then tr else tl tr)"

definition dir_entry :: "trail \<Rightarrow> string \<Rightarrow> bool \<Rightarrow> (int \<times> fst_tree) option" where
  "dir_entry tr name folder =
     find (\<lambda>(j, u). same_name name (fname u) \<and> (folder \<longrightarrow> is_dir u)) (kids (fst (hd tr) + 1) (subs (snd (hd tr))))"

fun resolve :: "trail \<Rightarrow> string list \<Rightarrow> (int \<times> fst_tree) option" where
  "resolve tr [] = Some (hd tr)"
| "resolve tr (c # cs) =
     (if c = [] then (if cs = [] then Some (hd tr) else resolve [last tr] cs)
      else if c = ''.'' then resolve tr cs
      else if c = ''..'' then resolve (up tr) cs
      else case dir_entry tr c (cs \<noteq> []) of None \<Rightarrow> None | Some e \<Rightarrow> resolve (e # tr) cs)"

text \<open>\<open>okd\<close> is what the search needs of the contents of every folder.\<close>

fun tree_ok :: "(fst_tree list \<Rightarrow> bool) \<Rightarrow> fst_tree \<Rightarrow> bool" where
  "tree_ok okd (FFile _ _ _) = True"
| "tree_ok okd (FDir _ ts) = (okd ts \<and> (\<forall>u \<in> set ts. tree_ok okd u))"

fun trail_at :: "(int \<Rightarrow> char) \<Rightarrow> (int \<Rightarrow> fst_node) \<Rightarrow> int \<Rightarrow> (fst_tree list \<Rightarrow> bool) \<Rightarrow> trail \<Rightarrow> bool" where
  "trail_at M node names okd [] = False"
| "trail_at M node names okd [(i, t)] =
     (i = 0 \<and> is_dir t \<and> tree_at M node names 0 0 t \<and> tree_ok okd t \<and> nsize t < 2 ^ 31)"
| "trail_at M node names okd ((j, u) # (i, t) # tr) =
     (trail_at M node names okd ((i, t) # tr) \<and> is_dir u \<and> (j, u) \<in> set (kids (i + 1) (subs t)))"

lemma split_path_ne [simp]: "split_path p \<noteq> []"
  by (cases p) simp_all

lemma split_path_slash: "CHR ''/'' \<notin> set w \<Longrightarrow> split_path (w @ CHR ''/'' # p) = w # split_path p"
  by (induction w) auto

lemma split_path_last: "CHR ''/'' \<notin> set w \<Longrightarrow> split_path w = [w]"
  by (induction w) auto

lemma trail_head:
  assumes "trail_at M node names okd ((i, t) # tr)"
  shows "tree_at M node names i (case tr of [] \<Rightarrow> 0 | (p, _) # _ \<Rightarrow> p) t" "tree_ok okd t" "is_dir t"
    "0 \<le> i" "i + nsize t < 2 ^ 31"
proof -
  have "tree_at M node names i (case tr of [] \<Rightarrow> 0 | (p, _) # _ \<Rightarrow> p) t \<and> tree_ok okd t \<and> is_dir t \<and>
      0 \<le> i \<and> i + nsize t < 2 ^ 31" using assms
  proof (induction tr arbitrary: i t)
    case (Cons x tr)
    obtain p s where x: "x = (p, s)" by (cases x)
    have k: "(i, t) \<in> set (kids (p + 1) (subs s))" "is_dir t" using Cons.prems x by auto
    note ih = Cons.IH [of p s]
    have "tree_at M node names p (case tr of [] \<Rightarrow> 0 | (q, _) # _ \<Rightarrow> q) s \<and> tree_ok okd s \<and> is_dir s \<and> 0 \<le> p \<and> p + nsize s < 2 ^ 31"
      using ih Cons.prems x by simp
    moreover then obtain m ts where s: "s = FDir m ts" by (cases s) auto
    ultimately show ?case
      using k kids_range [of i t "p + 1" ts] list_at_kids [of M node names "p + 1" p ts i t] kids_subs [of i t "p + 1" ts] x
      by auto
  qed simp
  then show "tree_at M node names i (case tr of [] \<Rightarrow> 0 | (p, _) # _ \<Rightarrow> p) t" "tree_ok okd t" "is_dir t"
    "0 \<le> i" "i + nsize t < 2 ^ 31" by simp_all
qed

lemma trail_nonempty: "trail_at M node names okd tr \<Longrightarrow> tr \<noteq> []"
  by (cases tr) auto

lemma trail_last: "trail_at M node names okd tr \<Longrightarrow> trail_at M node names okd [last tr] \<and> fst (last tr) = 0"
  by (induction M node names okd tr rule: trail_at.induct) auto

lemma trail_up: "trail_at M node names okd tr \<Longrightarrow> trail_at M node names okd (up tr)"
  by (induction M node names okd tr rule: trail_at.induct) (auto simp: up_def)

lemma trail_parent:
  assumes "trail_at M node names okd tr"
  shows "fn_a (node (fst (hd tr))) = fst (hd (up tr))"
proof -
  obtain i t tr' where tr: "tr = (i, t) # tr'" using trail_nonempty [OF assms] by (cases tr) auto
  have h: "tree_at M node names i (case tr' of [] \<Rightarrow> 0 | (p, _) # _ \<Rightarrow> p) t" "is_dir t"
    using trail_head [of M node names okd i t tr'] assms tr by auto
  have z: "tr' = [] \<Longrightarrow> i = 0" using assms tr by simp
  show ?thesis using h z tr by (cases t; cases tr') (auto simp: up_def)
qed

lemma trail_entry:
  assumes "trail_at M node names okd tr" "dir_entry tr c folder = Some (j, u)"
  shows "0 \<le> j" "j < 2 ^ 31" "is_dir u \<Longrightarrow> trail_at M node names okd ((j, u) # tr)" "folder \<Longrightarrow> is_dir u"
proof -
  obtain i t tr' where tr: "tr = (i, t) # tr'" using trail_nonempty [OF assms(1)] by (cases tr) auto
  have f: "find (\<lambda>(j, u). same_name c (fname u) \<and> (folder \<longrightarrow> is_dir u)) (kids (i + 1) (subs t)) = Some (j, u)"
    using assms(2) tr by (simp add: dir_entry_def)
  have k: "(j, u) \<in> set (kids (i + 1) (subs t))" "folder \<longrightarrow> is_dir u"
    using find_Some_iff [THEN iffD1, OF f] by (metis nth_mem, auto)
  have h: "0 \<le> i" "i + nsize t < 2 ^ 31" "is_dir t" using trail_head [of M node names okd i t tr'] assms tr by auto
  have "nsize t = 1 + nsizes (subs t)" using h(3) by (cases t) auto
  then show "0 \<le> j" "j < 2 ^ 31" using kids_range [OF k(1)] h nsize_pos(1) [of u] by linarith+
  show "is_dir u \<Longrightarrow> trail_at M node names okd ((j, u) # tr)" "folder \<Longrightarrow> is_dir u"
    using assms(1) k tr by auto
qed

lemma component_Cons: "component (c # cs) = (if c = NUL \<or> c = CHR ''/'' then [] else c # component cs)"
  by (simp add: component_def)

lemma component_Nil [simp]: "component [] = []"
  by (simp add: component_def)

lemma component_slash: "CHR ''/'' \<notin> set w \<Longrightarrow> NUL \<notin> set w \<Longrightarrow> component (w @ CHR ''/'' # p) = w"
  by (induction w) (auto simp: component_Cons)

lemma component_all: "CHR ''/'' \<notin> set w \<Longrightarrow> NUL \<notin> set w \<Longrightarrow> component w = w"
  by (induction w) (auto simp: component_Cons)

lemma path_cases:
  assumes "NUL \<notin> set path"
  obtains (last) w where "path = w" "CHR ''/'' \<notin> set w" "component path = w"
  | (more) w p where "path = w @ CHR ''/'' # p" "CHR ''/'' \<notin> set w" "component path = w"
proof (cases "CHR ''/'' \<in> set path")
  case True
  then obtain w p where "path = w @ CHR ''/'' # p" "CHR ''/'' \<notin> set w" by (metis split_list_first)
  then show ?thesis using more component_slash [of w p] assms by auto
next
  case False
  then show ?thesis using last component_all [of path] assms by auto
qed


section \<open>The interface of the search\<close>

text \<open>
  What the scanner needs of the loop over the entries of a folder: it returns, with the first
  entry of the wanted name, or with none.  Both archives provide it; the scanner then resolves
  every path as \<open>resolve\<close> does.
\<close>

locale fst_search =
  fixes M :: "int \<Rightarrow> char" and node :: "int \<Rightarrow> fst_node" and names :: int
    and okd :: "fst_tree list \<Rightarrow> bool"
    and search :: "int \<Rightarrow> string \<Rightarrow> bool \<Rightarrow> int option option"
  assumes search_law: "tree_at M node names i p t \<Longrightarrow> is_dir t \<Longrightarrow> okd (subs t) \<Longrightarrow> 0 \<le> i \<Longrightarrow> i + nsize t < 2 ^ 31 \<Longrightarrow>
    NUL \<notin> set path \<Longrightarrow> component path \<noteq> [] \<Longrightarrow> component path \<noteq> ''.'' \<Longrightarrow> component path \<noteq> ''..'' \<Longrightarrow>
    search i path folder = Some (map_option fst (find (\<lambda>(j, u). same_name (component path) (fname u) \<and> (folder \<longrightarrow> is_dir u))
      (kids (i + 1) (subs t))))"
begin

abbreviation walk :: "(string \<Rightarrow> bool) \<Rightarrow> int \<Rightarrow> string \<Rightarrow> int option" where
  "walk check \<equiv> path_walk (\<lambda>i. fn_a (node i)) check search"

lemma search_entry:
  assumes "trail_at M node names okd tr" "NUL \<notin> set path" "component path \<notin> {[], ''.'', ''..''}"
  shows "search (fst (hd tr)) path folder = Some (map_option fst (dir_entry tr (component path) folder))"
proof -
  obtain i t tr' where tr: "tr = (i, t) # tr'" using trail_nonempty [OF assms(1)] by (cases tr) auto
  note h = trail_head [OF assms(1) [unfolded tr]]
  have "okd (subs t)" using h(2,3) by (cases t) auto
  then show ?thesis using search_law [OF h(1,3) _ h(4,5) assms(2), of folder] assms(3) tr by (simp add: dir_entry_def)
qed

lemma walk_name:
  assumes tr: "trail_at M node names okd tr" and path: "NUL \<notin> set path"
    and c: "component path \<notin> {[], ''.'', ''..''}" and check: "check path"
  shows "walk check (fst (hd tr)) path =
    (let rest = drop (length (component path) + 1) path; more = (length (component path) < length path)
     in case dir_entry tr (component path) more of
          None \<Rightarrow> Some (- 1)
        | Some (j, u) \<Rightarrow> if more then walk check j rest else Some (s32 j))"
proof -
  let ?n = "length (component path)"
  have special: "chr path 0 \<noteq> NUL" "chr path 0 \<noteq> CHR ''/''"
    "\<not> (chr path 0 = CHR ''.'' \<and> chr path 1 = CHR ''.'' \<and> (chr path 2 = CHR ''/'' \<or> chr path 2 = NUL))"
    "\<not> (chr path 0 = CHR ''.'' \<and> (chr path 1 = CHR ''/'' \<or> chr path 1 = NUL))"
    using c path
    by (cases path; cases "tl path"; cases "tl (tl path)"; auto simp: chr_def component_Cons split: if_splits)+
  have d: "chr path ?n \<noteq> NUL \<longleftrightarrow> ?n < length path"
    using chr_component [OF path] component_le [of path] by (auto simp: NUL_def)
  have s: "search (fst (hd tr)) path (chr path ?n \<noteq> NUL) = Some (map_option fst (dir_entry tr (component path) (?n < length path)))"
    using search_entry [OF tr path c] d by simp
  show ?thesis
    unfolding path_walk.simps [of _ _ _ _ path] Let_def s using special check d
    by (auto split: option.splits)
qed

theorem walk_resolves:
  assumes "trail_at M node names okd tr" "NUL \<notin> set path" "\<And>k. check (drop k path)"
  shows "walk check (fst (hd tr)) path = Some (case resolve tr (split_path path) of None \<Rightarrow> - 1 | Some (j, u) \<Rightarrow> j)"
  using assms
proof (induction path arbitrary: tr rule: length_induct)
  case (1 path)
  note ih = "1.IH" [rule_format]
  have chk: "\<And>k. check (drop k path)" and nn: "NUL \<notin> set path" and tr: "trail_at M node names okd tr"
    using "1.prems" by auto
  have sub: "NUL \<notin> set (drop k path)" "\<And>m. check (drop m (drop k path))" for k
    using nn set_drop_subset [of k path] chk by (auto simp del: set_drop_subset)
  obtain i t tr' where tr': "tr = (i, t) # tr'" using trail_nonempty [OF tr] by (cases tr) auto
  have cur: "s32 (fst (hd tr)) = fst (hd tr)" if "trail_at M node names okd tr" for tr
    using trail_head [of M node names okd "fst (hd tr)" "snd (hd tr)" "tl tr"] that trail_nonempty [OF that] nsize_pos(1) [of "snd (hd tr)"]
    by (cases tr) (auto intro!: s32_id)
  show ?case using nn
  proof (cases rule: path_cases)
    case (last w)
    consider "w = []" | "w = ''.''" | "w = ''..''" | "w \<notin> {[], ''.'', ''..''}" by auto
    then show ?thesis
    proof cases
      case 1 then show ?thesis using last cur [OF tr] tr' by (simp add: path_walk.simps)
    next
      case 2 then show ?thesis using last cur [OF tr] tr' by (simp add: path_walk.simps chr_def NUL_def)
    next
      case 3 then show ?thesis
        using last cur [OF trail_up [OF tr]] trail_parent [OF tr]
        by (simp add: path_walk.simps chr_def NUL_def numeral_2_eq_2 split: prod.splits)
    next
      case 4
      have "check path" using chk [of 0] by simp
      then have w: "walk check (fst (hd tr)) path = (case dir_entry tr w False of None \<Rightarrow> Some (- 1) | Some (j, u) \<Rightarrow> Some (s32 j))"
        using walk_name [of tr path check] tr nn 4 last by (simp add: Let_def split: option.splits prod.splits)
      have id: "s32 j = j" if "dir_entry tr w False = Some (j, u)" for j u
        using trail_entry(1,2) [OF tr that] by (intro s32_id) simp_all
      show ?thesis
        using w 4 last id by (auto simp: split_path_last split: option.splits)
    qed
  next
    case (more w p)
    have p: "drop (Suc (length w)) path = p" "length p < length path" using more by simp_all
    have ihp: "walk check (fst (hd tr)) p = Some (case resolve tr (split_path p) of None \<Rightarrow> - 1 | Some (j, u) \<Rightarrow> j)"
      if "trail_at M node names okd tr" for tr
    proof -
      have "check (drop k p)" for k using sub(2) [of k "Suc (length w)"] p(1) by simp
      then show ?thesis using ih [of p tr] that p(2) sub(1) [of "Suc (length w)"] p(1) by simp
    qed
    have sp: "split_path path = w # split_path p" using more split_path_slash by simp
    consider "w = []" | "w = ''.''" | "w = ''..''" | "w \<notin> {[], ''.'', ''..''}" by auto
    then show ?thesis
    proof cases
      case 1
      then show ?thesis
        using more sp ihp [of "[last tr]"] trail_last [OF tr] by (simp add: path_walk.simps [of _ _ _ _ "CHR ''/'' # p"] chr_def NUL_def)
    next
      case 2
      then show ?thesis using more sp ihp [OF tr] by (simp add: path_walk.simps [of _ _ _ _ "CHR ''.'' # CHR ''/'' # p"] chr_def NUL_def numeral_2_eq_2)
    next
      case 3
      then show ?thesis
        using more sp ihp [OF trail_up [OF tr]] trail_parent [OF tr]
        by (simp add: path_walk.simps [of _ _ _ _ "CHR ''.'' # CHR ''.'' # CHR ''/'' # p"] chr_def NUL_def numeral_2_eq_2 numeral_3_eq_3)
    next
      case 4
      have "check path" using chk [of 0] by simp
      then have w: "walk check (fst (hd tr)) path = (case dir_entry tr w True of None \<Rightarrow> Some (- 1) | Some (j, u) \<Rightarrow> walk check j p)"
        using walk_name [of tr path check] tr nn 4 more p by (simp add: Let_def split: option.splits prod.splits)
      show ?thesis
      proof (cases "dir_entry tr w True")
        case None then show ?thesis using w sp 4 by simp
      next
        case (Some e)
        obtain j u where e: "e = (j, u)" by (cases e)
        then have "trail_at M node names okd ((j, u) # tr)" using trail_entry [OF tr] Some by blast
        then show ?thesis using w sp 4 Some e ihp [of "(j, u) # tr"] by simp
      qed
    qed
  qed
qed

end


section \<open>The path of a folder\<close>

text \<open>The buffer holds the string \<open>s\<close> from index \<open>k\<close> on.\<close>

definition buf_at :: "(int \<Rightarrow> char) \<Rightarrow> int \<Rightarrow> string \<Rightarrow> bool" where
  "buf_at buf k s = (\<forall>j < length s. buf (k + int j) = s ! j)"

definition trail_path :: "trail \<Rightarrow> string" where
  "trail_path tr = concat (map (\<lambda>(_, t). CHR ''/'' # fname t) (rev (butlast tr)))"

lemma buf_at_Nil [simp]: "buf_at buf k []"
  by (simp add: buf_at_def)

lemma buf_at_Cons: "buf_at buf k (c # s) \<longleftrightarrow> buf k = c \<and> buf_at buf (k + 1) s"
  by (simp add: buf_at_def All_less_Suc2 algebra_simps)

lemma buf_at_append: "buf_at buf k (s @ r) \<longleftrightarrow> buf_at buf k s \<and> buf_at buf (k + int (length s)) r"
  by (induction s arbitrary: k) (auto simp: buf_at_Cons algebra_simps)

lemma buf_at_frame: "buf_at buf k s \<Longrightarrow> (\<And>j. k \<le> j \<Longrightarrow> j < k + int (length s) \<Longrightarrow> b j = buf j) \<Longrightarrow> buf_at b k s"
  by (simp add: buf_at_def)

lemma myStrncpy_str:
  assumes "str_at M src s" "0 \<le> dst" "dst + int n < 2 ^ 32" "length s \<le> n"
  shows "\<exists>b. myStrncpy M dst src n buf = (int (length s), b) \<and> buf_at b dst s \<and>
    (\<forall>j. j < dst \<or> dst + int (length s) \<le> j \<longrightarrow> b j = buf j)"
  using assms
proof (induction s arbitrary: src dst n buf)
  case Nil
  then show ?case by (cases n) auto
next
  case (Cons c s)
  then obtain m where n: "n = Suc m" by (cases n) auto
  have u: "u32 (dst + 1) = dst + 1" using Cons.prems n by (simp add: u32_id)
  obtain b where "myStrncpy M (dst + 1) (u32 (src + 1)) m (buf(dst := M src)) = (int (length s), b)" "buf_at b (dst + 1) s"
    "\<forall>j. j < dst + 1 \<or> dst + 1 + int (length s) \<le> j \<longrightarrow> b j = (buf(dst := M src)) j"
    using Cons.IH [of "u32 (src + 1)" "dst + 1" m "buf(dst := M src)"] Cons.prems n by (auto simp del: fun_upd_apply)
  then show ?case using Cons.prems n u by (auto simp: buf_at_Cons)
qed

lemma myStrncpy_bound:
  assumes "0 \<le> dst" "dst + int n < 2 ^ 32"
  shows "\<exists>k b. myStrncpy M dst src n buf = (k, b) \<and> 0 \<le> k \<and> k \<le> int n \<and>
    (\<forall>j. j < dst \<or> dst + int n \<le> j \<longrightarrow> b j = buf j)"
  using assms
proof (induction n arbitrary: src dst buf)
  case (Suc n)
  have u: "u32 (dst + 1) = dst + 1" using Suc.prems by (simp add: u32_id)
  obtain k b where "myStrncpy M (dst + 1) (u32 (src + 1)) n (buf(dst := M src)) = (k, b)" "0 \<le> k" "k \<le> int n"
    "\<forall>j. j < dst + 1 \<or> dst + 1 + int n \<le> j \<longrightarrow> b j = (buf(dst := M src)) j"
    using Suc.IH [of "dst + 1" "u32 (src + 1)" "buf(dst := M src)"] Suc.prems by (auto simp del: fun_upd_apply)
  then show ?case using u by auto
qed simp

lemma trail_path_Cons:
  "tr \<noteq> [] \<Longrightarrow> trail_path ((j, u) # tr) = trail_path tr @ CHR ''/'' # fname u"
  by (simp add: trail_path_def)

lemma entryToPath_trail:
  assumes "trail_at M node names okd tr" "maxlen < 2 ^ 32" "int (length (trail_path tr)) \<le> maxlen"
  shows "\<exists>b. entryToPath M node names (fst (hd tr)) maxlen buf = Some (int (length (trail_path tr)), b) \<and>
    buf_at b 0 (trail_path tr) \<and> (\<forall>j. j < 0 \<or> int (length (trail_path tr)) \<le> j \<longrightarrow> b j = buf j)"
  using assms
proof (induction M node names okd tr arbitrary: buf rule: trail_at.induct)
  case (2 M node names okd i t)
  then show ?case by (simp add: entryToPath.simps trail_path_def)
next
  case (3 M node names okd j u i t tr)
  let ?tr = "(i, t) # tr" let ?L = "int (length (trail_path ?tr))"
  have tr: "trail_at M node names okd ?tr" and full: "trail_at M node names okd ((j, u) # ?tr)" using "3.prems" by auto
  have len: "int (length (trail_path ((j, u) # ?tr))) = ?L + 1 + int (length (fname u))" by (simp add: trail_path_Cons)
  obtain b where b: "entryToPath M node names i maxlen buf = Some (?L, b)" "buf_at b 0 (trail_path ?tr)"
    "\<forall>j. j < 0 \<or> ?L \<le> j \<longrightarrow> b j = buf j"
    using "3.IH" [of buf] tr "3.prems"(2,3) len by auto
  have par: "fn_a (node j) = i" using trail_parent [OF full] by (simp add: up_def)
  have k: "(j, u) \<in> set (kids (i + 1) (subs t))" using full by simp
  have j: "j \<noteq> 0" using kids_range(1) [OF k] trail_head(4) [OF tr] by simp
  have name: "str_at M (u32 (names + node_name (node j))) (fname u)"
    using tree_at_name [OF trail_head(1) [OF full]] by (simp add: name_at_def)
  have u: "u32 (?L + 1) = ?L + 1" using "3.prems"(2,3) len by (intro u32_id) simp_all
  have room: "0 \<le> ?L + 1" "?L + 1 + int (nat (maxlen - (?L + 1))) < 2 ^ 32" "length (fname u) \<le> nat (maxlen - (?L + 1))"
    using "3.prems"(2,3) unfolding len by (simp_all add: le_nat_iff)
  obtain b' where b': "myStrncpy M (?L + 1) (u32 (names + node_name (node j))) (nat (maxlen - (?L + 1))) (b(?L := CHR ''/'')) =
      (int (length (fname u)), b')" "buf_at b' (?L + 1) (fname u)"
    "\<forall>k. k < ?L + 1 \<or> ?L + 1 + int (length (fname u)) \<le> k \<longrightarrow> b' k = (b(?L := CHR ''/'')) k"
    using myStrncpy_str [OF name room, of "b(?L := CHR ''/'')"] by blast
  have "entryToPath M node names j maxlen buf = Some (?L + 1 + int (length (fname u)), b')"
    using j par b(1) b'(1) u "3.prems"(3) len by (simp add: entryToPath.simps [of _ _ _ j])
  moreover have "buf_at b' 0 (trail_path ?tr)" using b(2) by (rule buf_at_frame) (use b'(3) in auto)
  moreover have "b' ?L = CHR ''/''" using b'(3) by simp
  ultimately show ?case
    using len b'(2,3) b(3) by (auto simp: trail_path_Cons buf_at_append buf_at_Cons algebra_simps)
qed simp

definition inside :: "int \<Rightarrow> (int \<Rightarrow> char) \<Rightarrow> int \<times> (int \<Rightarrow> char) \<Rightarrow> bool" where
  "inside maxlen buf r \<longleftrightarrow> 0 \<le> fst r \<and> fst r \<le> maxlen \<and> (\<forall>j. j < 0 \<or> maxlen \<le> j \<longrightarrow> snd r j = buf j)"

lemma entryToPath_bound:
  assumes "entryToPath M node names e maxlen buf = Some r" "0 \<le> maxlen" "maxlen < 2 ^ 32"
  shows "inside maxlen buf r"
proof -
  let ?P = "\<lambda>M node names e maxlen buf r. 0 \<le> maxlen \<longrightarrow> maxlen < 2 ^ 32 \<longrightarrow> inside maxlen buf r"
  have "?P M node names e maxlen buf r"
  proof (rule entryToPath.raw_induct [of ?P, OF _ assms(1)], intro impI)
  fix f M node names e maxlen buf r
  assume IH: "\<And>M node names e maxlen buf r. f M node names e maxlen buf = Some r \<Longrightarrow> ?P M node names e maxlen buf r"
    and r0: "(if e = 0 then Some (0, buf)
      else let name = u32 (names + node_name (node e)) in f M node names (fn_a (node e)) maxlen buf \<bind>
        (\<lambda>(written, buf). if written = maxlen then Some (written, buf)
          else let buf = buf(written := CHR ''/''); written = u32 (written + 1);
                   (n, buf) = myStrncpy M written name (nat (maxlen - written)) buf in Some (written + n, buf))) = Some r"
    and m: "0 \<le> maxlen" "maxlen < 2 ^ 32"
  show "inside maxlen buf r"
  proof (cases "e = 0")
    case True then show ?thesis using r0 m by (auto simp: inside_def)
  next
    case False
    obtain w b0 where r: "f M node names (fn_a (node e)) maxlen buf = Some (w, b0)"
      using r0 False by (auto split: Option.bind_splits)
    have ih: "0 \<le> w" "w \<le> maxlen" "\<forall>j. j < 0 \<or> maxlen \<le> j \<longrightarrow> b0 j = buf j"
      using IH [OF r] m by (auto simp: inside_def)
    show ?thesis
    proof (cases "w = maxlen")
      case True then show ?thesis using r0 False r ih by (auto simp: inside_def)
    next
      case w: False
      have u: "u32 (w + 1) = w + 1" using w ih m by (intro u32_id) simp_all
      obtain k b1 where "myStrncpy M (w + 1) (u32 (names + node_name (node e))) (nat (maxlen - (w + 1))) (b0(w := CHR ''/'')) = (k, b1)"
        "0 \<le> k" "k \<le> int (nat (maxlen - (w + 1)))"
        "\<forall>j. j < w + 1 \<or> w + 1 + int (nat (maxlen - (w + 1))) \<le> j \<longrightarrow> b1 j = (b0(w := CHR ''/'')) j"
        using myStrncpy_bound [of "w + 1" "nat (maxlen - (w + 1))" M "u32 (names + node_name (node e))" "b0(w := CHR ''/'')"] ih w m
        by (auto simp del: fun_upd_apply)
      then show ?thesis using r0 False r w u ih by (auto simp: inside_def)
    qed
  qed
  qed
  then show ?thesis using assms by simp
qed


lemma entryToPath_total:
  assumes "trail_at M node names okd tr"
  shows "\<exists>r. entryToPath M node names (fst (hd tr)) maxlen buf = Some r"
  using assms
proof (induction M node names okd tr rule: trail_at.induct)
  case (2 M node names okd i t)
  then show ?case by (simp add: entryToPath.simps)
next
  case (3 M node names okd j u i t tr)
  then obtain w b where "entryToPath M node names i maxlen buf = Some (w, b)" by auto
  moreover have "fn_a (node j) = i" using trail_parent [OF "3.prems"] by (simp add: up_def)
  ultimately show ?case
    by (cases "j = 0") (auto simp: entryToPath.simps [of _ _ _ j] entryToPath.simps [of _ _ _ 0] Let_def split: prod.splits)
qed simp


section \<open>Where a path leads\<close>

lemma trail_kid:
  assumes "trail_at M node names okd tr" "(j, u) \<in> set (kids (fst (hd tr) + 1) (subs (snd (hd tr))))"
  shows "tree_at M node names j (fst (hd tr)) u"
proof -
  obtain i t tr' where tr: "tr = (i, t) # tr'" using trail_nonempty [OF assms(1)] by (cases tr) auto
  note h = trail_head [OF assms(1) [unfolded tr]]
  then obtain s ts where "t = FDir s ts" by (cases t) auto
  then show ?thesis using h(1) assms(2) tr list_at_kids [of M node names "i + 1" i ts j u] by simp
qed

lemma dir_entry_kid:
  assumes "dir_entry tr c folder = Some (j, u)"
  shows "(j, u) \<in> set (kids (fst (hd tr) + 1) (subs (snd (hd tr))))"
  using find_Some_iff [THEN iffD1, OF assms [unfolded dir_entry_def]] by (metis nth_mem)

lemma resolve_tree:
  assumes "trail_at M node names okd tr" "resolve tr cs = Some (j, u)"
  shows "0 \<le> j \<and> (\<exists>p. tree_at M node names j p u) \<and> (is_dir u \<longrightarrow> (\<exists>tr'. trail_at M node names okd ((j, u) # tr')))"
  using assms
proof (induction tr cs rule: resolve.induct)
  case (1 tr)
  obtain i t tr' where tr: "tr = (i, t) # tr'" using trail_nonempty [OF 1(1)] by (cases tr) auto
  then show ?case using 1 trail_head [of M node names okd i t tr'] by auto
next
  case (2 tr c cs)
  note IH = 2(1-4) and tr = 2(5) and r = 2(6)
  consider "c = []" "cs = []" | "c = []" "cs \<noteq> []" | "c = ''.''" | "c = ''..''" | "c \<notin> {[], ''.'', ''..''}" by auto
  then show ?case
  proof cases
    case 1
    obtain i t tr' where tr': "tr = (i, t) # tr'" using trail_nonempty [OF tr] by (cases tr) auto
    then show ?thesis using 1 tr r tr' trail_head [of M node names okd i t tr'] by auto
  next
    case 2
    then show ?thesis using 2 IH(1) trail_last [OF tr] r by simp
  next
    case 3 then show ?thesis using IH(2) tr r by simp
  next
    case 4 then show ?thesis using IH(3) trail_up [OF tr] r by simp
  next
    case 5
    then obtain k v where e: "dir_entry tr c (cs \<noteq> []) = Some (k, v)" "resolve ((k, v) # tr) cs = Some (j, u)"
      using r by (auto split: option.splits)
    note kid = trail_kid [OF tr dir_entry_kid [OF e(1)]] and te = trail_entry [OF tr e(1)]
    show ?thesis
    proof (cases "is_dir v")
      case True then show ?thesis using IH(4) [OF _ _ _ e(1)] 5 e(2) te(3) by auto
    next
      case False
      then have "cs = []" using te(4) by auto
      then show ?thesis using e(2) kid te False by auto
    qed
  qed
qed

text \<open>The path of a folder leads back to it from everywhere, when no two entries of a folder have
  the same name up to letter case.\<close>

definition unique_names :: "fst_tree list \<Rightarrow> bool" where
  "unique_names ts \<longleftrightarrow> distinct (map (\<lambda>t. map to_lower (fname t)) ts)"

definition plain_trail :: "trail \<Rightarrow> bool" where
  "plain_trail tr \<longleftrightarrow> (\<forall>x \<in> set (butlast tr). fname (snd x) \<notin> {[], ''.'', ''..''})"

lemma find_unique:
  assumes "unique_names ts" "(j, u) \<in> set (kids i ts)" "folder \<longrightarrow> is_dir u"
  shows "find (\<lambda>(k, v). same_name (fname u) (fname v) \<and> (folder \<longrightarrow> is_dir v)) (kids i ts) = Some (j, u)"
  using assms
proof (induction ts arbitrary: i)
  case (Cons t ts)
  show ?case
  proof (cases "(j, u) = (i, t)")
    case True then show ?thesis using Cons.prems(3) by (simp add: same_name_def)
  next
    case False
    then have k: "(j, u) \<in> set (kids (i + nsize t) ts)" using Cons.prems(2) by auto
    then have "u \<in> set ts" by (rule kids_subs)
    moreover have "\<forall>v \<in> set ts. map to_lower (fname v) \<noteq> map to_lower (fname t)"
      using Cons.prems(1) unfolding unique_names_def by (metis (mono_tags, lifting) distinct.simps(2) image_eqI list.simps(9) set_map)
    ultimately have "\<not> same_name (fname u) (fname t)" by (simp add: same_name_def)
    then show ?thesis using Cons.IH [OF _ k] Cons.prems by (simp add: unique_names_def)
  qed
qed simp

lemma trail_okd:
  assumes "trail_at M node names okd ((i, t) # tr)"
  shows "okd (subs t)"
  using trail_head(2,3) [OF assms] by (cases t) auto

lemma resolve_names:
  assumes "trail_at M node names okd tr" "\<And>ts. okd ts \<Longrightarrow> unique_names ts" "plain_trail tr" "ds \<noteq> []"
  shows "resolve [last tr] (map (\<lambda>x. fname (snd x)) (rev (butlast tr)) @ ds) = resolve tr ds"
  using assms
proof (induction M node names okd tr arbitrary: ds rule: trail_at.induct)
  case (3 M node names okd j u i t tr)
  let ?tr = "(i, t) # tr"
  have tr: "trail_at M node names okd ?tr" "(j, u) \<in> set (kids (i + 1) (subs t))" "is_dir u" using "3.prems"(1) by auto
  have pl: "plain_trail ?tr" "fname u \<notin> {[], ''.'', ''..''}" using "3.prems"(3) by (auto simp: plain_trail_def)
  have "dir_entry ?tr (fname u) True = Some (j, u)"
    using find_unique [OF _ tr(2), of True] "3.prems"(2) [OF trail_okd [OF tr(1)]] tr(3) by (simp add: dir_entry_def)
  then have "resolve ?tr (fname u # ds) = resolve ((j, u) # ?tr) ds" using pl(2) "3.prems"(4) by simp
  then show ?case using "3.IH" [OF tr(1) "3.prems"(2) pl(1), of "fname u # ds"] by simp
qed simp_all

lemma split_trail:
  assumes "\<forall>x \<in> set l. CHR ''/'' \<notin> set (fname (snd x))"
  shows "split_path (concat (map (\<lambda>(_, t). CHR ''/'' # fname t) l) @ ''/'') = [] # map (\<lambda>x. fname (snd x)) l @ [[]]"
  using assms
proof (induction l)
  case (Cons x l)
  let ?R = "concat (map (\<lambda>(_, t). CHR ''/'' # fname t) l) @ ''/''"
  obtain r where r: "?R = CHR ''/'' # r" by (cases l) auto
  then have "split_path r = map (\<lambda>x. fname (snd x)) l @ [[]]" using Cons by simp
  then show ?case using split_path_slash [of "fname (snd x)" r] Cons.prems r by (cases x) simp
qed simp

lemma trail_names:
  assumes "trail_at M node names okd tr" "x \<in> set tr"
  shows "CHR ''/'' \<notin> set (fname (snd x)) \<and> NUL \<notin> set (fname (snd x))"
proof -
  have n: "NUL \<notin> set s" if "str_at M a s" for M a s using that by (induction s arbitrary: a) auto
  show ?thesis using assms
  proof (induction M node names okd tr arbitrary: x rule: trail_at.induct)
    case (2 M node names okd i t)
    then show ?case using tree_at_name [of M node names 0 0 t] by (auto simp: name_at_def dest: n)
  next
    case (3 M node names okd j u i t tr)
    show ?case
    proof (cases "x = (j, u)")
      case True
      then show ?thesis using tree_at_name [OF trail_head(1) [OF "3.prems"(1)]] by (auto simp: name_at_def dest: n)
    qed (use "3.IH" "3.prems" in auto)
  qed simp
qed

theorem trail_path_resolves:
  assumes "trail_at M node names okd tr" "\<And>ts. okd ts \<Longrightarrow> unique_names ts" "plain_trail tr" "last tr' = last tr"
  shows "NUL \<notin> set (trail_path tr @ ''/'')" "resolve tr' (split_path (trail_path tr @ ''/'')) = Some (hd tr)"
proof -
  have nm: "\<forall>x \<in> set (rev (butlast tr)). CHR ''/'' \<notin> set (fname (snd x)) \<and> NUL \<notin> set (fname (snd x))"
    using trail_names [OF assms(1)] by (auto dest: in_set_butlastD)
  then show "NUL \<notin> set (trail_path tr @ ''/'')" by (auto simp: trail_path_def NUL_def)
  have "split_path (trail_path tr @ ''/'') = [] # map (\<lambda>x. fname (snd x)) (rev (butlast tr)) @ [[]]"
    using split_trail [of "rev (butlast tr)"] nm by (simp add: trail_path_def)
  then show "resolve tr' (split_path (trail_path tr @ ''/'')) = Some (hd tr)"
    using resolve_names [OF assms(1-3), of "[[]]"] assms(4) by simp
qed

end
