(* ===== verification/Arc.thy ===== *)
theory Arc
  imports Fst
begin

text \<open>
  \<^verbatim>\<open>arc/arc.c\<close>: read access to an archive in memory.  \<open>ahandle\<close> maps the address of
  an \<^verbatim>\<open>ARCHandle\<close> to its contents and \<open>aheader\<close> that of an archive to its header; the
  nodes and the names are those of \<open>Fst\<close>.  A result None stands for a call that does not
  return: a failed assertion, or a loop that never ends on a damaged table.
\<close>

section \<open>The code\<close>

record ARCHeader =
  ah_magic :: int
  ah_nodes_offset :: int
  ah_nodes_size :: int
  ah_files_offset :: int

record ARCHandle =
  archiveStartAddr :: int
  FSTStart :: int
  fileStart :: int
  entryNum :: int
  FSTStringStart :: int
  FSTLength :: int
  currDir :: int

record arc_state = fst_mem +
  aheader :: "int \<Rightarrow> ARCHeader"
  ahandle :: "int \<Rightarrow> ARCHandle"

record ARCFileInfo =
  fi_handle :: int
  fi_startOffset :: int
  fi_length :: int

record ARCDir =
  dr_handle :: int
  dr_entryNum :: int
  dr_location :: int
  dr_next :: int

record ARCDirEntry =
  de_handle :: int
  de_entryNum :: int
  de_isDir :: bool
  de_name :: int

definition ARC_FILE_MAGIC :: int where "ARC_FILE_MAGIC = 0x55AA382D"

definition arc_node :: "arc_state \<Rightarrow> int \<Rightarrow> int \<Rightarrow> fst_node" where
  "arc_node s h i = fnode s (u32 (FSTStart (ahandle s h) + NODE_SIZE * i))"

definition ARCInitHandle :: "int \<Rightarrow> int \<Rightarrow> arc_state \<Rightarrow> arc_state option" where
  "ARCInitHandle bin h s =
     (let header = aheader s bin
      in if ah_magic header \<noteq> ARC_FILE_MAGIC then None
         else
           let nodes = u32 (bin + ah_nodes_offset header);
               num = fn_b (fnode s nodes)
           in Some (s\<lparr>ahandle := (ahandle s)(h := \<lparr>archiveStartAddr = bin, FSTStart = nodes,
                fileStart = u32 (bin + ah_files_offset header), entryNum = num,
                FSTStringStart = u32 (nodes + NODE_SIZE * num), FSTLength = u32 (ah_nodes_size header),
                currDir = 0\<rparr>)\<rparr>))"

text \<open>
  The two nested loops over the entries of the folder \<open>anchor\<close>; \<open>inner\<close> tells that the inner
  one goes round again, which it does without looking at the end of the folder.
\<close>

partial_function (option) arc_search ::
  "(int \<Rightarrow> char) \<Rightarrow> (int \<Rightarrow> fst_node) \<Rightarrow> int \<Rightarrow> string \<Rightarrow> bool \<Rightarrow> int \<Rightarrow> bool \<Rightarrow> int \<Rightarrow> int option option" where
  "arc_search M node names path slash anchor inner it =
     (if \<not> inner \<and> \<not> it < fn_b (node anchor) then Some None
      else
        let name_of_it = u32 (names + NodeGetName (node it));
            candidate = (NodeIsFolder (node it) \<or> \<not> slash)
        in if candidate \<and> M name_of_it = CHR ''.'' \<and> M (u32 (name_of_it + 1)) = NUL
           then arc_search M node names path slash anchor True (u32 (it + 1))
           else if candidate \<and> isSame M path name_of_it then Some (Some it)
           else arc_search M node names path slash anchor False
                  (if NodeIsFolder (node it) then fn_b (node it) else u32 (it + 1)))"

declare arc_search.simps [code]

definition ARCConvertPathToEntrynum :: "int \<Rightarrow> string \<Rightarrow> arc_state \<Rightarrow> int option" where
  "ARCConvertPathToEntrynum h path s =
     path_walk (\<lambda>i. fn_a (arc_node s h i)) (\<lambda>_. True)
       (\<lambda>it rest slash. arc_search (fchar s) (arc_node s h) (FSTStringStart (ahandle s h)) rest slash it False (u32 (it + 1)))
       (u32 (currDir (ahandle s h))) path"

definition ARCConvertEntrynumToPath :: "int \<Rightarrow> int \<Rightarrow> int \<Rightarrow> (int \<Rightarrow> char) \<Rightarrow> arc_state \<Rightarrow> (bool \<times> (int \<Rightarrow> char)) option" where
  "ARCConvertEntrynumToPath h e maxlen buf s =
     ConvertEntrynumToPath (fchar s) (arc_node s h) (FSTStringStart (ahandle s h)) e maxlen buf"

definition ARCGetCurrentDir :: "int \<Rightarrow> int \<Rightarrow> (int \<Rightarrow> char) \<Rightarrow> arc_state \<Rightarrow> (bool \<times> (int \<Rightarrow> char)) option" where
  "ARCGetCurrentDir h maxlen buf s = ARCConvertEntrynumToPath h (currDir (ahandle s h)) maxlen buf s"

text \<open>The inner result None is FALSE, which leaves the caller's structure as it was.\<close>

definition ARCOpen :: "int \<Rightarrow> string \<Rightarrow> arc_state \<Rightarrow> ARCFileInfo option option" where
  "ARCOpen h path s = do {
     e \<leftarrow> ARCConvertPathToEntrynum h path s;
     if e < 0 then do {
       _ \<leftarrow> ARCGetCurrentDir h 128 (\<lambda>_. NUL) s;
       Some None
     }
     else if e < 0 \<or> NodeIsFolder (arc_node s h e) then Some None
     else Some (Some \<lparr>fi_handle = h, fi_startOffset = fn_a (arc_node s h e), fi_length = fn_b (arc_node s h e)\<rparr>)
   }"

definition ARCFastOpen :: "int \<Rightarrow> int \<Rightarrow> arc_state \<Rightarrow> ARCFileInfo option" where
  "ARCFastOpen h e s =
     (if e < 0 \<or> e \<ge> entryNum (ahandle s h) \<or> NodeIsFolder (arc_node s h e) then None
      else Some \<lparr>fi_handle = h, fi_startOffset = fn_a (arc_node s h e), fi_length = fn_b (arc_node s h e)\<rparr>)"

definition ARCGetStartAddrInMem :: "ARCFileInfo \<Rightarrow> arc_state \<Rightarrow> int" where
  "ARCGetStartAddrInMem info s = u32 (archiveStartAddr (ahandle s (fi_handle info)) + fi_startOffset info)"

definition ARCGetStartOffset :: "ARCFileInfo \<Rightarrow> int" where
  "ARCGetStartOffset info = fi_startOffset info"

definition ARCGetLength :: "ARCFileInfo \<Rightarrow> int" where
  "ARCGetLength info = fi_length info"

definition ARCClose :: "ARCFileInfo \<Rightarrow> bool" where
  "ARCClose info = True"

definition ARCChangeDir :: "int \<Rightarrow> string \<Rightarrow> arc_state \<Rightarrow> (bool \<times> arc_state) option" where
  "ARCChangeDir h path s = do {
     e \<leftarrow> ARCConvertPathToEntrynum h path s;
     if e < 0 \<or> \<not> NodeIsFolder (arc_node s h e) then Some (False, s)
     else Some (True, s\<lparr>ahandle := (ahandle s)(h := (ahandle s h)\<lparr>currDir := e\<rparr>)\<rparr>)
   }"

definition ARCOpenDir :: "int \<Rightarrow> string \<Rightarrow> arc_state \<Rightarrow> ARCDir option option" where
  "ARCOpenDir h path s = do {
     e \<leftarrow> ARCConvertPathToEntrynum h path s;
     if e < 0 \<or> \<not> NodeIsFolder (arc_node s h e) then Some None
     else Some (Some \<lparr>dr_handle = h, dr_entryNum = e, dr_location = e + 1, dr_next = fn_b (arc_node s h e)\<rparr>)
   }"

text \<open>The loop of \<^verbatim>\<open>ARCReadDir\<close>, which fills the entry even where it goes on to fail.\<close>

partial_function (option) read_dir_loop ::
  "arc_state \<Rightarrow> ARCDir \<Rightarrow> int \<Rightarrow> ARCDirEntry \<Rightarrow> (bool \<times> ARCDir \<times> ARCDirEntry) option" where
  "read_dir_loop s dir it entry =
     (if it \<le> dr_entryNum dir \<or> dr_next dir \<le> it then Some (False, dir, entry)
      else
        let h = dr_handle dir;
            node = arc_node s h it;
            name = u32 (FSTStringStart (ahandle s h) + node_name node);
            entry = \<lparr>de_handle = h, de_entryNum = it, de_isDir = NodeIsFolder node, de_name = name\<rparr>
        in if fchar s name = CHR ''.'' \<and> fchar s (u32 (name + 1)) = NUL
           then read_dir_loop s dir (u32 (it + 1)) entry
           else Some (True, dir\<lparr>dr_location := (if NodeIsFolder node then fn_b node else u32 (it + 1))\<rparr>, entry))"

declare read_dir_loop.simps [code]

definition ARCReadDir :: "arc_state \<Rightarrow> ARCDir \<Rightarrow> ARCDirEntry \<Rightarrow> (bool \<times> ARCDir \<times> ARCDirEntry) option" where
  "ARCReadDir s dir entry = read_dir_loop s dir (dr_location dir) entry"

definition ARCCloseDir :: "ARCDir \<Rightarrow> bool" where
  "ARCCloseDir dir = True"


section \<open>The search provides the interface of the scanner\<close>

text \<open>
  What the search relies on: an entry named \<open>.\<close> is a single node, and never the last one of its
  folder, since the inner loop steps over it without looking at the end.
\<close>

definition arc_ok :: "fst_tree list \<Rightarrow> bool" where
  "arc_ok ts \<longleftrightarrow> (\<forall>t \<in> set ts. fname t = ''.'' \<longrightarrow> nsize t = 1) \<and> (ts \<noteq> [] \<longrightarrow> fname (last ts) \<noteq> ''.'')"

lemma arc_ok_Cons:
  "arc_ok (t # ts) \<Longrightarrow> arc_ok ts" "arc_ok (t # ts) \<Longrightarrow> fname t = ''.'' \<Longrightarrow> nsize t = 1 \<and> ts \<noteq> []"
  by (auto simp: arc_ok_def split: if_splits)

lemma dot_at: "str_at M a n \<Longrightarrow> (M a = CHR ''.'' \<and> M (u32 (a + 1)) = NUL) = (n = ''.'')"
  by (cases n; cases "tl n") (auto simp: NUL_def)

lemma same_name_dot: "same_name c ''.'' \<Longrightarrow> c = ''.''"
  by (cases c) (auto simp: same_name_def to_lower_special(3) to_lower_def [of "CHR ''.''"])

lemma arc_search_list:
  assumes "list_at M node names i p ts" "arc_ok ts" "0 \<le> i" "i + nsizes ts < 2 ^ 31" "fn_b (node anchor) = i + nsizes ts"
    "inner \<longrightarrow> ts \<noteq> []" "component path \<noteq> ''.''"
  shows "arc_search M node names path slash anchor inner i =
    Some (map_option fst (find (\<lambda>(j, u). same_name (component path) (fname u) \<and> (slash \<longrightarrow> is_dir u)) (kids i ts)))"
  using assms
proof (induction ts arbitrary: i inner)
  case Nil
  then show ?case by (simp add: arc_search.simps)
next
  case (Cons t ts)
  have t: "tree_at M node names i p t" "list_at M node names (i + nsize t) p ts" using Cons.prems(1) by auto
  note n = tree_at_name [OF t(1), unfolded name_at_def] and d = tree_at_dir [OF t(1)]
  have pos: "1 \<le> nsize t" "0 \<le> nsizes ts" by (rule nsize_pos)+
  have nx: "(if NodeIsFolder (node i) then fn_b (node i) else u32 (i + 1)) = i + nsize t"
    using tree_at_sibling [OF t(1)] d Cons.prems(3,4) pos by (cases t) (auto simp: u32_id)
  have inb: "i < fn_b (node anchor)" using Cons.prems(5) pos by simp
  have ih: "arc_search M node names path slash anchor b (i + nsize t) =
      Some (map_option fst (find (\<lambda>(j, u). same_name (component path) (fname u) \<and> (slash \<longrightarrow> is_dir u)) (kids (i + nsize t) ts)))"
    if "b \<longrightarrow> ts \<noteq> []" for b
    using Cons.IH [of "i + nsize t" b] t(2) arc_ok_Cons(1) [OF Cons.prems(2)] Cons.prems(3-7) pos that by (simp add: algebra_simps)
  have same: "isSame M path (u32 (names + NodeGetName (node i))) = same_name (component path) (fname t)"
    using isSame_iff [of M _ "fname t" path] n by (simp add: NodeGetName_eq)
  have dot: "(M (u32 (names + NodeGetName (node i))) = CHR ''.'' \<and> M (u32 (u32 (names + NodeGetName (node i)) + 1)) = NUL) = (fname t = ''.'')"
    using dot_at [of M _ "fname t"] n by (simp add: NodeGetName_eq)
  let ?cand = "is_dir t \<or> \<not> slash"
  have step: "arc_search M node names path slash anchor inner i =
      (if ?cand \<and> fname t = ''.'' then arc_search M node names path slash anchor True (u32 (i + 1))
       else if ?cand \<and> same_name (component path) (fname t) then Some (Some i)
       else arc_search M node names path slash anchor False (i + nsize t))"
    using nx by (subst arc_search.simps) (simp only: Let_def inb dot d same nx simp_thms if_False)
  show ?case
  proof (cases "?cand \<and> fname t = ''.''")
    case True
    have one: "nsize t = 1" "ts \<noteq> []" using arc_ok_Cons(2) [OF Cons.prems(2)] True by auto
    then have "u32 (i + 1) = i + nsize t" using Cons.prems(3,4) pos by (simp add: u32_id)
    moreover have "\<not> same_name (component path) (fname t)" using same_name_dot Cons.prems(7) True by auto
    ultimately show ?thesis using ih [of True] one True step by simp
  next
    case False
    then show ?thesis using ih [of False] step by (cases "same_name (component path) (fname t)") auto
  qed
qed

interpretation arc: fst_search "fchar s" "arc_node s h" "FSTStringStart (ahandle s h)" arc_ok
    "\<lambda>it rest slash. arc_search (fchar s) (arc_node s h) (FSTStringStart (ahandle s h)) rest slash it False (u32 (it + 1))"
  for s h
proof unfold_locales
  fix i p t path folder
  assume "tree_at (fchar s) (arc_node s h) (FSTStringStart (ahandle s h)) i p t" "is_dir t" "arc_ok (subs t)"
    "0 \<le> i" "i + nsize t < 2 ^ 31" "component path \<noteq> ''.''"
  moreover have "0 \<le> nsizes (subs t)" by (rule nsize_pos)
  ultimately show "arc_search (fchar s) (arc_node s h) (FSTStringStart (ahandle s h)) path folder i False (u32 (i + 1)) =
      Some (map_option fst (find (\<lambda>(j, u). same_name (component path) (fname u) \<and> (folder \<longrightarrow> is_dir u)) (kids (i + 1) (subs t))))"
    using arc_search_list [of "fchar s" "arc_node s h" "FSTStringStart (ahandle s h)" "i + 1" i "subs t" i False path folder]
    by (cases t) (simp_all add: u32_id)
qed


section \<open>Properties\<close>

text \<open>The archive at a handle holds the tree of a trail, whose head is the current directory.\<close>

definition arc_at :: "arc_state \<Rightarrow> int \<Rightarrow> (fst_tree list \<Rightarrow> bool) \<Rightarrow> trail \<Rightarrow> bool" where
  "arc_at s h okd tr \<longleftrightarrow>
     trail_at (fchar s) (arc_node s h) (FSTStringStart (ahandle s h)) okd tr \<and> currDir (ahandle s h) = fst (hd tr)"

lemma trail_at_mono:
  assumes "trail_at M node names okd tr" "\<And>ts. okd ts \<Longrightarrow> okd' ts"
  shows "trail_at M node names okd' tr"
proof -
  have m: "tree_ok okd t \<Longrightarrow> tree_ok okd' t" for t
    by (induction t) (use assms(2) in auto)
  show ?thesis
    using assms(1)
  proof (induction tr rule: induct_list012)
    case (2 x) then show ?case using m by (cases x) simp
  next
    case (3 x y tr) then show ?case by (cases x; cases y) simp
  qed simp
qed

lemma arc_walk:
  assumes "arc_at s h arc_ok tr" "NUL \<notin> set path"
  shows "ARCConvertPathToEntrynum h path s = Some (case resolve tr (split_path path) of None \<Rightarrow> - 1 | Some (j, u) \<Rightarrow> j)"
proof -
  have tr: "trail_at (fchar s) (arc_node s h) (FSTStringStart (ahandle s h)) arc_ok tr" using assms(1) by (simp add: arc_at_def)
  obtain i t tr1 where x: "tr = (i, t) # tr1" using trail_nonempty [OF tr] by (cases tr) auto
  have "0 \<le> fst (hd tr) \<and> fst (hd tr) < 2 ^ 31"
    using trail_head(4,5) [OF tr [unfolded x]] nsize_pos(1) [of t] x by simp
  then have "u32 (currDir (ahandle s h)) = fst (hd tr)" using assms(1) by (simp add: arc_at_def u32_id)
  then show ?thesis
    using arc.walk_resolves [OF tr assms(2), of "\<lambda>_. True"] by (simp add: ARCConvertPathToEntrynum_def)
qed

text \<open>C19. In a well-formed archive a path leads where its components say, for every path: an empty
  component to the root, \<^verbatim>\<open>.\<close> and \<^verbatim>\<open>..\<close> to the same and to the parent folder (the root
  is its own parent), a name to the first entry of that name up to letter case, which must be a
  folder when components follow; the result is the index of the node, or -1 when there is none.\<close>

theorem ARCConvertPathToEntrynum_resolves:
  assumes "arc_at s h arc_ok tr" "NUL \<notin> set path"
  shows "ARCConvertPathToEntrynum h path s =
    Some (case resolve tr (split_path path) of None \<Rightarrow> - 1 | Some (j, u) \<Rightarrow> j)"
  using arc_walk [OF assms] .

lemma arc_resolved:
  assumes "arc_at s h okd tr" "resolve tr cs = Some (j, u)"
  shows "0 \<le> j" "NodeIsFolder (arc_node s h j) = is_dir u"
    "u = FFile n ofs sz \<Longrightarrow> fn_a (arc_node s h j) = ofs \<and> fn_b (arc_node s h j) = sz"
    "is_dir u \<Longrightarrow> \<exists>tr'. trail_at (fchar s) (arc_node s h) (FSTStringStart (ahandle s h)) okd ((j, u) # tr')"
proof -
  have "trail_at (fchar s) (arc_node s h) (FSTStringStart (ahandle s h)) okd tr" using assms(1) by (simp add: arc_at_def)
  then obtain p where p: "0 \<le> j" "tree_at (fchar s) (arc_node s h) (FSTStringStart (ahandle s h)) j p u"
    "is_dir u \<longrightarrow> (\<exists>tr'. trail_at (fchar s) (arc_node s h) (FSTStringStart (ahandle s h)) okd ((j, u) # tr'))"
    using resolve_tree [OF _ assms(2)] by blast
  show "0 \<le> j" "NodeIsFolder (arc_node s h j) = is_dir u"
    "u = FFile n ofs sz \<Longrightarrow> fn_a (arc_node s h j) = ofs \<and> fn_b (arc_node s h j) = sz"
    "is_dir u \<Longrightarrow> \<exists>tr'. trail_at (fchar s) (arc_node s h) (FSTStringStart (ahandle s h)) okd ((j, u) # tr')"
    using p tree_at_dir [OF p(2)] by auto
qed

lemma dir_path_total:
  assumes "arc_at s h okd tr"
  shows "\<exists>r. ARCGetCurrentDir h maxlen buf s = Some r"
proof -
  obtain w b where "entryToPath (fchar s) (arc_node s h) (FSTStringStart (ahandle s h)) (fst (hd tr)) maxlen buf = Some (w, b)"
    using entryToPath_total assms unfolding arc_at_def by (metis prod.collapse)
  then show ?thesis
    using assms by (auto simp: ARCGetCurrentDir_def ARCConvertEntrynumToPath_def ConvertEntrynumToPath_def arc_at_def)
qed

text \<open>\<^verbatim>\<open>ARCOpen\<close> returns, and succeeds exactly on the paths that lead to a file, with the
  offset and the length of that file; on a folder and on a path that leads nowhere it returns
  FALSE.\<close>

theorem ARCOpen_opens_files:
  assumes "arc_at s h arc_ok tr" "NUL \<notin> set path"
  shows "ARCOpen h path s = Some (case resolve tr (split_path path) of
      Some (j, FFile n ofs sz) \<Rightarrow> Some \<lparr>fi_handle = h, fi_startOffset = ofs, fi_length = sz\<rparr> | _ \<Rightarrow> None)"
proof (cases "resolve tr (split_path path)")
  case None
  obtain r where "ARCGetCurrentDir h 128 (\<lambda>_. NUL) s = Some r" using dir_path_total [OF assms(1)] by blast
  then show ?thesis using arc_walk [OF assms] None by (simp add: ARCOpen_def)
next
  case (Some x)
  obtain j u where x: "x = (j, u)" by (cases x)
  note r = arc_resolved [OF assms(1) Some [unfolded x]]
  have c: "ARCConvertPathToEntrynum h path s = Some j" using arc_walk [OF assms] Some x by simp
  show ?thesis
  proof (cases u)
    case (FFile n ofs sz)
    then show ?thesis using c Some x r(1,2) r(3) [OF FFile] by (simp add: ARCOpen_def)
  next
    case (FDir n ts)
    then show ?thesis using c Some x r(1,2) by (simp add: ARCOpen_def)
  qed
qed

text \<open>C20. \<^verbatim>\<open>ARCChangeDir\<close> moves to a folder the path leads to and leaves the handle as it is
  otherwise; afterwards the current directory is again a folder of the archive, reached from the
  root.\<close>

theorem ARCChangeDir_invariant:
  assumes "arc_at s h arc_ok tr" "NUL \<notin> set path"
  shows "\<exists>ok s' tr'. ARCChangeDir h path s = Some (ok, s') \<and> arc_at s' h arc_ok tr' \<and>
    (ok \<longleftrightarrow> (\<exists>j u. resolve tr (split_path path) = Some (j, u) \<and> is_dir u \<and> hd tr' = (j, u))) \<and>
    (\<not> ok \<longrightarrow> s' = s)"
proof (cases "\<exists>j u. resolve tr (split_path path) = Some (j, u) \<and> is_dir u")
  case True
  then obtain j u where x: "resolve tr (split_path path) = Some (j, u)" "is_dir u" by blast
  note r = arc_resolved [OF assms(1) x(1)]
  obtain tr' where tr': "trail_at (fchar s) (arc_node s h) (FSTStringStart (ahandle s h)) arc_ok ((j, u) # tr')"
    using r(4) x(2) by blast
  let ?s = "s\<lparr>ahandle := (ahandle s)(h := (ahandle s h)\<lparr>currDir := j\<rparr>)\<rparr>"
  have "arc_node ?s h = arc_node s h" by (simp add: arc_node_def fun_eq_iff)
  then have "arc_at ?s h arc_ok ((j, u) # tr')" using tr' by (simp add: arc_at_def)
  moreover have "ARCChangeDir h path s = Some (True, ?s)"
    using arc_walk [OF assms] x r(1,2) by (simp add: ARCChangeDir_def)
  ultimately show ?thesis using x by (intro exI [of _ True] exI [of _ ?s] exI [of _ "(j, u) # tr'"]) auto
next
  case False
  have "ARCChangeDir h path s = Some (False, s)"
  proof (cases "resolve tr (split_path path)")
    case None
    then show ?thesis using arc_walk [OF assms] by (simp add: ARCChangeDir_def)
  next
    case (Some x)
    obtain j u where x: "x = (j, u)" by (cases x)
    then show ?thesis
      using False Some arc_walk [OF assms] arc_resolved(1,2) [OF assms(1) Some [unfolded x]] by (auto simp: ARCChangeDir_def)
  qed
  then show ?thesis using assms(1) False by (intro exI [of _ False] exI [of _ s] exI [of _ tr]) auto
qed

text \<open>C21. The path \<^verbatim>\<open>ARCGetCurrentDir\<close> writes leads back to the current directory, from any
  directory of the archive: with room for the path, its final slash and the terminating NUL it
  returns TRUE, writes nothing else, and \<^verbatim>\<open>ARCConvertPathToEntrynum\<close> of that path is the
  current directory.  The entries of every folder have different names up to letter case, and none of the
  folders on the way is called \<^verbatim>\<open>.\<close> or \<^verbatim>\<open>..\<close> or has no name.\<close>

theorem current_dir_roundtrip:
  assumes s: "arc_at s h (\<lambda>ts. arc_ok ts \<and> unique_names ts) tr" "plain_trail tr"
    and room: "int (length (trail_path tr)) + 2 \<le> maxlen" "maxlen < 2 ^ 32"
    and s': "s' = s\<lparr>ahandle := (ahandle s)(h := (ahandle s h)\<lparr>currDir := d\<rparr>)\<rparr>" "arc_at s' h arc_ok tr'" "last tr' = last tr"
  shows "\<exists>b. ARCGetCurrentDir h maxlen buf s = Some (True, b) \<and> buf_at b 0 (trail_path tr @ ''/'' @ [NUL]) \<and>
    ARCConvertPathToEntrynum h (trail_path tr @ ''/'') s' = Some (currDir (ahandle s h))"
proof -
  let ?L = "int (length (trail_path tr))"
  have t: "trail_at (fchar s) (arc_node s h) (FSTStringStart (ahandle s h)) (\<lambda>ts. arc_ok ts \<and> unique_names ts) tr"
    "currDir (ahandle s h) = fst (hd tr)" using s(1) by (simp_all add: arc_at_def)
  obtain i u tr1 where tr: "tr = (i, u) # tr1" using trail_nonempty [OF t(1)] by (cases tr) auto
  have dir: "NodeIsFolder (arc_node s h (fst (hd tr)))"
    using trail_head [OF t(1) [unfolded tr]] tree_at_dir tr by (metis fst_conv list.sel(1))
  obtain b where b: "entryToPath (fchar s) (arc_node s h) (FSTStringStart (ahandle s h)) (fst (hd tr)) maxlen buf = Some (?L, b)"
    "buf_at b 0 (trail_path tr)"
    using entryToPath_trail [OF t(1) room(2)] room(1) by fastforce
  have u: "u32 (maxlen - 1) = maxlen - 1" "u32 (?L + 1) = ?L + 1" using room by (simp_all add: u32_id)
  let ?b = "b(?L := CHR ''/'', ?L + 1 := NUL)"
  have "ARCGetCurrentDir h maxlen buf s = Some (True, ?b)"
    using b(1) room dir u t(2) by (simp add: ARCGetCurrentDir_def ARCConvertEntrynumToPath_def ConvertEntrynumToPath_def)
  moreover have "buf_at ?b 0 (trail_path tr @ ''/'' @ [NUL])"
    using b(2) by (auto simp: buf_at_append buf_at_Cons intro: buf_at_frame)
  moreover have "ARCConvertPathToEntrynum h (trail_path tr @ ''/'') s' = Some (fst (hd tr))"
    using trail_path_resolves [OF t(1) _ s(2) s'(3)] arc_walk [OF s'(2)] tr by simp
  ultimately show ?thesis using t(2) by auto
qed

text \<open>With room for at least one character, \<^verbatim>\<open>ARCGetCurrentDir\<close> writes only inside the
  buffer and terminates what it wrote, whatever the table holds and however long the path is;
  when the result is FALSE the NUL is the last character or the one in front of it.\<close>

theorem current_dir_stays_inside:
  assumes "ARCGetCurrentDir h maxlen buf s = Some (ok, b)" "1 \<le> maxlen" "maxlen < 2 ^ 32"
  shows "(\<forall>j. j < 0 \<or> maxlen \<le> j \<longrightarrow> b j = buf j) \<and> (\<exists>k. 0 \<le> k \<and> k < maxlen \<and> b k = NUL) \<and>
    (\<not> ok \<longrightarrow> b (maxlen - 1) = NUL)"
proof -
  have u: "u32 (maxlen - 1) = maxlen - 1" using assms by (simp add: u32_id)
  obtain w b0 where e: "entryToPath (fchar s) (arc_node s h) (FSTStringStart (ahandle s h)) (currDir (ahandle s h)) maxlen buf = Some (w, b0)"
    using assms(1)
    by (auto simp: ARCGetCurrentDir_def ARCConvertEntrynumToPath_def ConvertEntrynumToPath_def split: Option.bind_splits)
  have i: "0 \<le> w" "w \<le> maxlen" "\<forall>j. j < 0 \<or> maxlen \<le> j \<longrightarrow> b0 j = buf j"
    using entryToPath_bound [OF e] assms by (simp_all add: inside_def)
  have u': "w < maxlen \<Longrightarrow> u32 (w + 1) = w + 1" using i assms by (simp add: u32_id)
  let ?dir = "NodeIsFolder (arc_node s h (currDir (ahandle s h)))"
  consider "w = maxlen" "ok = False" "b = b0(maxlen - 1 := NUL)" | "w = maxlen - 1" "?dir" "ok = False" "b = b0(w := NUL)"
    | "w < maxlen - 1" "?dir" "ok" "b = b0(w := CHR ''/'', w + 1 := NUL)" | "w < maxlen" "\<not> ?dir" "ok" "b = b0(w := NUL)"
    using assms(1) e i(2) u u'
    by (auto simp: ARCGetCurrentDir_def ARCConvertEntrynumToPath_def ConvertEntrynumToPath_def split: if_splits)
  then show ?thesis
  proof cases
    case 1 then show ?thesis using i assms by auto
  next
    case 2 then show ?thesis using i assms by auto
  next
    case 3 then show ?thesis using i by (intro conjI exI [of _ "w + 1"]) auto
  next
    case 4 then show ?thesis using i by auto
  qed
qed


section \<open>Listing a folder\<close>

text \<open>Reading a folder until \<^verbatim>\<open>ARCReadDir\<close> returns FALSE, at most \<open>n\<close> times.\<close>

fun read_all :: "nat \<Rightarrow> arc_state \<Rightarrow> ARCDir \<Rightarrow> ARCDirEntry \<Rightarrow> ARCDirEntry list option" where
  "read_all 0 s dir e = None"
| "read_all (Suc n) s dir e = do {
     (ok, dir, e) \<leftarrow> ARCReadDir s dir e;
     if ok then map_option (\<lambda>es. e # es) (read_all n s dir e) else Some []
   }"

definition entry_of :: "arc_state \<Rightarrow> int \<Rightarrow> int \<times> fst_tree \<Rightarrow> ARCDirEntry" where
  "entry_of s h x = \<lparr>de_handle = h, de_entryNum = fst x, de_isDir = is_dir (snd x),
     de_name = u32 (FSTStringStart (ahandle s h) + node_name (arc_node s h (fst x)))\<rparr>"

lemma read_dir_list:
  assumes "list_at (fchar s) (arc_node s h) (FSTStringStart (ahandle s h)) k i us" "\<forall>t \<in> set us. fname t = ''.'' \<longrightarrow> nsize t = 1"
    "dr_handle dir = h" "dr_entryNum dir < k" "dr_next dir = k + nsizes us" "0 \<le> k" "k + nsizes us < 2 ^ 31" "length us \<le> n"
  shows "(do { (ok, dir, e) \<leftarrow> read_dir_loop s dir k e; if ok then map_option (\<lambda>es. e # es) (read_all n s dir e) else Some [] }) =
    Some (map (entry_of s h) (filter (\<lambda>x. fname (snd x) \<noteq> ''.'') (kids k us)))"
  using assms
proof (induction us arbitrary: k n dir e)
  case Nil
  then show ?case by (simp add: read_dir_loop.simps)
next
  case (Cons t us)
  let ?M = "fchar s" let ?node = "arc_node s h" let ?names = "FSTStringStart (ahandle s h)"
  have t: "tree_at ?M ?node ?names k i t" "list_at ?M ?node ?names (k + nsize t) i us" using Cons.prems(1) by auto
  note nm = tree_at_name [OF t(1), unfolded name_at_def] and d = tree_at_dir [OF t(1)]
  have pos: "1 \<le> nsize t" "0 \<le> nsizes us" by (rule nsize_pos)+
  obtain m where n: "n = Suc m" "length us \<le> m" using Cons.prems(8) by (cases n) auto
  have ent: "entry_of s h (k, t) = \<lparr>de_handle = h, de_entryNum = k, de_isDir = NodeIsFolder (?node k),
      de_name = u32 (?names + node_name (?node k))\<rparr>" using d by (simp add: entry_of_def)
  have u: "u32 (k + 1) = k + 1" using Cons.prems(6,7) pos by (simp add: u32_id)
  have nx: "(if NodeIsFolder (?node k) then fn_b (?node k) else u32 (k + 1)) = k + nsize t"
    using tree_at_sibling [OF t(1)] d u by (cases t) auto
  have dot: "(?M (u32 (?names + node_name (?node k))) = CHR ''.'' \<and> ?M (u32 (u32 (?names + node_name (?node k)) + 1)) = NUL) = (fname t = ''.'')"
    using dot_at nm by blast
  have step: "read_dir_loop s dir k e = (if fname t = ''.'' then read_dir_loop s dir (k + 1) (entry_of s h (k, t))
      else Some (True, dir\<lparr>dr_location := k + nsize t\<rparr>, entry_of s h (k, t)))"
    using nx u dot Cons.prems(3-5) pos by (simp add: read_dir_loop.simps [of s dir k] Let_def ent)
  have ih: "(do { (ok, dir, e) \<leftarrow> read_dir_loop s dir' (k + nsize t) e'; if ok then map_option (\<lambda>es. e # es) (read_all n' s dir e) else Some [] }) =
      Some (map (entry_of s h) (filter (\<lambda>x. fname (snd x) \<noteq> ''.'') (kids (k + nsize t) us)))"
    if "dir' = dir \<or> dir' = dir\<lparr>dr_location := k + nsize t\<rparr>" "length us \<le> n'" for dir' n' e'
    using Cons.IH [of "k + nsize t" dir' n' e'] t(2) Cons.prems(2-7) pos that by auto
  show ?case
  proof (cases "fname t = ''.''")
    case True
    then have "nsize t = 1" using Cons.prems(2) by simp
    then show ?thesis using True step ih [of dir n "entry_of s h (k, t)"] n by simp
  next
    case False
    have "read_all n s (dir\<lparr>dr_location := k + nsize t\<rparr>) (entry_of s h (k, t)) =
        Some (map (entry_of s h) (filter (\<lambda>x. fname (snd x) \<noteq> ''.'') (kids (k + nsize t) us)))"
      using ih [of "dir\<lparr>dr_location := k + nsize t\<rparr>" m "entry_of s h (k, t)"] n by (simp add: ARCReadDir_def)
    then show ?thesis using False step by simp
  qed
qed

text \<open>C22. Opening a folder and reading it until FALSE lists exactly its entries, in the order of the
  table and each once, except those named \<^verbatim>\<open>.\<close>, with their indices, kinds and names; reading
  ends after one call more than there are entries.\<close>

theorem ARCReadDir_lists_folder:
  assumes "arc_at s h arc_ok tr" "NUL \<notin> set path" "resolve tr (split_path path) = Some (j, u)" "is_dir u"
  shows "\<exists>dir. ARCOpenDir h path s = Some (Some dir) \<and>
    read_all (length (subs u) + 1) s dir e = Some (map (entry_of s h) (filter (\<lambda>x. fname (snd x) \<noteq> ''.'') (kids (j + 1) (subs u)))) \<and>
    (\<forall>x \<in> set (kids (j + 1) (subs u)). str_at (fchar s) (de_name (entry_of s h x)) (fname (snd x)))"
proof -
  note r = arc_resolved [OF assms(1,3)]
  obtain tr' where tr': "trail_at (fchar s) (arc_node s h) (FSTStringStart (ahandle s h)) arc_ok ((j, u) # tr')"
    using r(4) assms(4) by blast
  note hd = trail_head [OF tr']
  obtain nm ts where u: "u = FDir nm ts" using assms(4) by (cases u) auto
  have l: "list_at (fchar s) (arc_node s h) (FSTStringStart (ahandle s h)) (j + 1) j ts"
    and b: "fn_b (arc_node s h j) = j + 1 + nsizes ts" using hd(1) u by simp_all
  have ok: "\<forall>t \<in> set ts. fname t = ''.'' \<longrightarrow> nsize t = 1" using trail_okd [OF tr'] u by (simp add: arc_ok_def)
  let ?dir = "\<lparr>dr_handle = h, dr_entryNum = j, dr_location = j + 1, dr_next = fn_b (arc_node s h j)\<rparr>"
  have "ARCOpenDir h path s = Some (Some ?dir)"
    using arc_walk [OF assms(1,2)] assms(3,4) r(1,2) by (simp add: ARCOpenDir_def)
  moreover have "read_all (length (subs u) + 1) s ?dir e =
      Some (map (entry_of s h) (filter (\<lambda>x. fname (snd x) \<noteq> ''.'') (kids (j + 1) (subs u))))"
    using read_dir_list [OF l ok, of ?dir "length ts" e] hd(4,5) u b by (simp add: ARCReadDir_def)
  moreover have "str_at (fchar s) (de_name (entry_of s h x)) (fname (snd x))" if "x \<in> set (kids (j + 1) (subs u))" for x
    using tree_at_name [OF list_at_kids [OF l, of "fst x" "snd x"]] that u by (simp add: entry_of_def name_at_def)
  ultimately show ?thesis by blast
qed

section \<open>A small archive\<close>

text \<open>Five nodes at \<open>0x1000\<close>: the root, an entry \<open>.\<close>, a folder \<open>a\<close> with a file \<open>b\<close>, and a
  file \<open>C\<close>; the handle at \<open>0x2000\<close> stands in the folder \<open>a\<close>.\<close>

definition demo_arc :: arc_state where
  "demo_arc = fst_mem.extend
     \<lparr>fnode = (\<lambda>_. \<lparr>fn_packed = 0, fn_a = 0, fn_b = 0\<rparr>)(
        0x1000 := \<lparr>fn_packed = 0x01000000, fn_a = 0, fn_b = 5\<rparr>,
        0x100C := \<lparr>fn_packed = 0x01000001, fn_a = 0, fn_b = 2\<rparr>,
        0x1018 := \<lparr>fn_packed = 0x01000003, fn_a = 0, fn_b = 4\<rparr>,
        0x1024 := \<lparr>fn_packed = 0x00000005, fn_a = 0x80, fn_b = 7\<rparr>,
        0x1030 := \<lparr>fn_packed = 0x00000007, fn_a = 0x90, fn_b = 9\<rparr>),
      fchar = (\<lambda>_. NUL)(0x103D := CHR ''.'', 0x103F := CHR ''a'', 0x1041 := CHR ''b'', 0x1043 := CHR ''C'')\<rparr>
     \<lparr>aheader = \<lambda>_. \<lparr>ah_magic = ARC_FILE_MAGIC, ah_nodes_offset = 0x20, ah_nodes_size = 69, ah_files_offset = 0x80\<rparr>,
      ahandle = \<lambda>_. \<lparr>archiveStartAddr = 0xFE0, FSTStart = 0x1000, fileStart = 0x1060, entryNum = 5,
        FSTStringStart = 0x103C, FSTLength = 69, currDir = 2\<rparr>\<rparr>"

definition demo_root :: fst_tree where
  "demo_root = FDir [] [FDir ''.'' [], FDir ''a'' [FFile ''b'' 0x80 7], FFile ''C'' 0x90 9]"

definition demo_trail :: trail where
  "demo_trail = [(2, FDir ''a'' [FFile ''b'' 0x80 7]), (0, demo_root)]"

lemma to_lower_demo [simp]:
  "to_lower (CHR ''C'') = CHR ''c''" "to_lower (CHR ''c'') = CHR ''c''" "to_lower (CHR ''a'') = CHR ''a''" "to_lower (CHR ''.'') = CHR ''.''"
  by code_simp+

lemma demo_arc_at: "arc_at demo_arc 0x2000 (\<lambda>ts. arc_ok ts \<and> unique_names ts) demo_trail"
  by (simp add: arc_at_def demo_trail_def demo_root_def demo_arc_def fst_mem.defs arc_node_def NODE_SIZE_def name_at_def
      node_name_def NodeIsFolder_def arc_ok_def unique_names_def NUL_def u32_def)

lemma demo_arc_ok: "arc_at demo_arc 0x2000 arc_ok demo_trail"
  using demo_arc_at trail_at_mono by (auto simp: arc_at_def)

lemma demo_resolve:
  "resolve demo_trail (split_path ''../c'') = Some (4, FFile ''C'' 0x90 9)"
  "resolve demo_trail (split_path ''..'') = Some (0, demo_root)"
  "resolve demo_trail (split_path ''b/x'') = None"
  by (simp_all add: demo_trail_def demo_root_def up_def dir_entry_def same_name_def)

theorem ARCConvertPathToEntrynum_resolves_witness:
  "ARCConvertPathToEntrynum 0x2000 ''../c'' demo_arc = Some 4 \<and> ARCConvertPathToEntrynum 0x2000 ''b/x'' demo_arc = Some (- 1)"
  using ARCConvertPathToEntrynum_resolves [OF demo_arc_ok, of "''../c''"] ARCConvertPathToEntrynum_resolves [OF demo_arc_ok, of "''b/x''"]
    demo_resolve by (simp add: NUL_def)

theorem ARCOpen_opens_files_witness:
  "ARCOpen 0x2000 ''../c'' demo_arc = Some (Some \<lparr>fi_handle = 0x2000, fi_startOffset = 0x90, fi_length = 9\<rparr>) \<and>
   ARCOpen 0x2000 ''..'' demo_arc = Some None"
  using ARCOpen_opens_files [OF demo_arc_ok, of "''../c''"] ARCOpen_opens_files [OF demo_arc_ok, of "''..''"] demo_resolve
  by (simp add: NUL_def demo_root_def)

theorem ARCChangeDir_invariant_witness:
  "\<exists>s'. ARCChangeDir 0x2000 ''..'' demo_arc = Some (True, s') \<and> currDir (ahandle s' 0x2000) = 0"
proof -
  have "NUL \<notin> set ''..''" by (simp add: NUL_def)
  from ARCChangeDir_invariant [OF demo_arc_ok this] obtain ok s' tr' where
    c: "ARCChangeDir 0x2000 ''..'' demo_arc = Some (ok, s')" "arc_at s' 0x2000 arc_ok tr'"
      "ok \<longleftrightarrow> (\<exists>j u. resolve demo_trail (split_path ''..'') = Some (j, u) \<and> is_dir u \<and> hd tr' = (j, u))"
    by blast
  have "ARCChangeDir 0x2000 ''..'' demo_arc \<noteq> Some (False, s')"
    using arc_walk [OF demo_arc_ok, of "''..''"] arc_resolved(2) [OF demo_arc_ok demo_resolve(2)] demo_resolve(2)
    by (simp add: ARCChangeDir_def NUL_def demo_root_def)
  then have "ok" using c(1) by auto
  then have "fst (hd tr') = 0" using c(3) demo_resolve(2) by auto
  then show ?thesis using c \<open>ok\<close> by (auto simp: arc_at_def)
qed

theorem current_dir_roundtrip_witness:
  "\<exists>b. ARCGetCurrentDir 0x2000 8 (\<lambda>_. CHR ''x'') demo_arc = Some (True, b) \<and> buf_at b 0 (''/a/'' @ [NUL]) \<and>
    ARCConvertPathToEntrynum 0x2000 ''/a/'' demo_arc = Some 2"
proof -
  have e: "demo_arc = demo_arc\<lparr>ahandle := (ahandle demo_arc)(0x2000 := (ahandle demo_arc 0x2000)\<lparr>currDir := 2\<rparr>)\<rparr>"
    by (simp add: demo_arc_def fst_mem.defs fun_eq_iff)
  have "plain_trail demo_trail" "trail_path demo_trail = ''/a''" "currDir (ahandle demo_arc 0x2000) = 2"
    by (simp_all add: plain_trail_def demo_trail_def trail_path_def demo_arc_def fst_mem.defs)
  then show ?thesis
    using current_dir_roundtrip [OF demo_arc_at _ _ _ e demo_arc_ok refl, of 8 "\<lambda>_. CHR ''x''"] by simp
qed

theorem current_dir_stays_inside_witness:
  "\<exists>b. ARCGetCurrentDir 0x2000 2 (\<lambda>_. CHR ''x'') demo_arc = Some (False, b) \<and> b 2 = CHR ''x'' \<and> b 1 = NUL"
proof -
  have n: "arc_node demo_arc 0x2000 2 = \<lparr>fn_packed = 0x01000003, fn_a = 0, fn_b = 4\<rparr>"
    "FSTStringStart (ahandle demo_arc 0x2000) = 0x103C" "currDir (ahandle demo_arc 0x2000) = 2"
    "fchar demo_arc 0x103F = CHR ''a''"
    by (simp_all add: demo_arc_def fst_mem.defs arc_node_def NODE_SIZE_def u32_def)
  have "\<exists>b. ARCGetCurrentDir 0x2000 2 (\<lambda>_. CHR ''x'') demo_arc = Some (False, b)"
    by (simp add: ARCGetCurrentDir_def ARCConvertEntrynumToPath_def ConvertEntrynumToPath_def n entryToPath.simps [of _ _ _ 2]
        entryToPath.simps [of _ _ _ 0] node_name_def u32_def NUL_def)
  then obtain b where b: "ARCGetCurrentDir 0x2000 2 (\<lambda>_. CHR ''x'') demo_arc = Some (False, b)" by blast
  then show ?thesis using current_dir_stays_inside [OF b] by auto
qed

theorem ARCReadDir_lists_folder_witness:
  "\<exists>dir. ARCOpenDir 0x2000 ''..'' demo_arc = Some (Some dir) \<and>
    map_option (map de_entryNum) (read_all 4 demo_arc dir \<lparr>de_handle = 0, de_entryNum = 0, de_isDir = False, de_name = 0\<rparr>) = Some [2, 4]"
proof -
  have "NUL \<notin> set ''..''" by (simp add: NUL_def)
  from ARCReadDir_lists_folder [OF demo_arc_ok this demo_resolve(2), of "\<lparr>de_handle = 0, de_entryNum = 0, de_isDir = False, de_name = 0\<rparr>"]
  obtain dir where "ARCOpenDir 0x2000 ''..'' demo_arc = Some (Some dir)"
    "read_all (length (subs demo_root) + 1) demo_arc dir \<lparr>de_handle = 0, de_entryNum = 0, de_isDir = False, de_name = 0\<rparr> =
      Some (map (entry_of demo_arc 0x2000) (filter (\<lambda>x. fname (snd x) \<noteq> ''.'') (kids (0 + 1) (subs demo_root))))"
    by (auto simp: demo_root_def)
  then show ?thesis by (auto simp: demo_root_def entry_of_def numeral_eq_Suc)
qed


section \<open>Two weaknesses of the code\<close>

definition dot_arc :: arc_state where
  "dot_arc = fst_mem.extend
     \<lparr>fnode = (\<lambda>_. \<lparr>fn_packed = 0, fn_a = 0, fn_b = 0\<rparr>)(
        0x1000 := \<lparr>fn_packed = 0x01000000, fn_a = 0, fn_b = 4\<rparr>,
        0x100C := \<lparr>fn_packed = 0x01000003, fn_a = 0, fn_b = 3\<rparr>,
        0x1018 := \<lparr>fn_packed = 0x01000001, fn_a = 1, fn_b = 3\<rparr>,
        0x1024 := \<lparr>fn_packed = 0x00000005, fn_a = 0x80, fn_b = 7\<rparr>),
      fchar = (\<lambda>_. NUL)(0x1031 := CHR ''.'', 0x1033 := CHR ''a'', 0x1035 := CHR ''c'')\<rparr>
     \<lparr>aheader = \<lambda>_. \<lparr>ah_magic = ARC_FILE_MAGIC, ah_nodes_offset = 0x20, ah_nodes_size = 55, ah_files_offset = 0x80\<rparr>,
      ahandle = \<lambda>_. \<lparr>archiveStartAddr = 0xFE0, FSTStart = 0x1000, fileStart = 0x1060, entryNum = 4,
        FSTStringStart = 0x1030, FSTLength = 55, currDir = 0\<rparr>\<rparr>"

definition dot_root :: fst_tree where
  "dot_root = FDir [] [FDir ''a'' [FDir ''.'' []], FFile ''c'' 0x80 7]"

text \<open>The search steps over an entry named \<^verbatim>\<open>.\<close> without looking at the end of the folder:
  in an archive whose folder \<^verbatim>\<open>a\<close> holds only such an entry, the path \<^verbatim>\<open>a/c\<close> leads to the file
  \<^verbatim>\<open>c\<close> behind that folder, which lies in the root.  So the condition of the lookup theorem that no
  folder ends with an entry \<^verbatim>\<open>.\<close> is needed.\<close>

theorem arc_search_leaves_folder:
  "arc_at dot_arc 0x2000 (\<lambda>_. True) [(0, dot_root)] \<and> resolve [(0, dot_root)] (split_path ''a/c'') = None \<and>
   ARCConvertPathToEntrynum 0x2000 ''a/c'' dot_arc = Some 3"
proof -
  have n: "arc_node dot_arc 0x2000 0 = \<lparr>fn_packed = 0x01000000, fn_a = 0, fn_b = 4\<rparr>"
    "arc_node dot_arc 0x2000 1 = \<lparr>fn_packed = 0x01000003, fn_a = 0, fn_b = 3\<rparr>"
    "arc_node dot_arc 0x2000 2 = \<lparr>fn_packed = 0x01000001, fn_a = 1, fn_b = 3\<rparr>"
    "arc_node dot_arc 0x2000 3 = \<lparr>fn_packed = 0x00000005, fn_a = 0x80, fn_b = 7\<rparr>"
    "ahandle dot_arc 0x2000 = \<lparr>archiveStartAddr = 0xFE0, FSTStart = 0x1000, fileStart = 0x1060, entryNum = 4,
        FSTStringStart = 0x1030, FSTLength = 55, currDir = 0\<rparr>"
    "fchar dot_arc = (\<lambda>_. NUL)(0x1031 := CHR ''.'', 0x1033 := CHR ''a'', 0x1035 := CHR ''c'')"
    by (simp_all add: dot_arc_def fst_mem.defs arc_node_def NODE_SIZE_def u32_def)
  have "arc_at dot_arc 0x2000 (\<lambda>_. True) [(0, dot_root)]"
    by (simp add: arc_at_def dot_root_def n name_at_def node_name_def NodeIsFolder_def u32_def NUL_def)
  moreover have "resolve [(0, dot_root)] (split_path ''a/c'') = None"
    by (simp add: dot_root_def dir_entry_def same_name_def)
  moreover have "ARCConvertPathToEntrynum 0x2000 ''a/c'' dot_arc = Some 3"
    by (simp add: ARCConvertPathToEntrynum_def n path_walk.simps [of _ _ _ _ "''a/c''"] path_walk.simps [of _ _ _ _ "''c''"]
        arc_search.simps [of _ _ _ _ _ _ _ 1] arc_search.simps [of _ _ _ _ _ _ _ 2] arc_search.simps [of _ _ _ _ _ _ _ 3]
        chr_def component_def NUL_def u32_def s32_def NodeIsFolder_def NodeGetName_def)
  ultimately show ?thesis by blast
qed

text \<open>With a buffer of no characters, \<^verbatim>\<open>ARCGetCurrentDir\<close> in the root writes a NUL in front
  of the buffer: \<^verbatim>\<open>maxlen - 1\<close> wraps to the largest index.\<close>

theorem ARCGetCurrentDir_empty_buffer:
  "ARCGetCurrentDir 0x2000 0 (\<lambda>_. CHR ''x'') dot_arc = Some (False, (\<lambda>_. CHR ''x'')(2 ^ 32 - 1 := NUL))"
  by (simp add: ARCGetCurrentDir_def ARCConvertEntrynumToPath_def ConvertEntrynumToPath_def entryToPath.simps
      dot_arc_def fst_mem.defs u32_def)

end
