(* ===== verification/DvdQueue.thy ===== *)
theory DvdQueue
  imports DList
begin

text \<open>
  \<^verbatim>\<open>dvd/dvdqueue.c\<close>: the queues of commands that wait for the drive, one per priority.  A
  queue is a circular list through a head that is cast to a command block, so blocks and heads are
  the values of one type \<open>dptr\<close>; \<open>dblocks\<close> maps them to their contents.  \<open>Cmd a\<close> is a client's
  block at address \<open>a\<close>, \<open>Dummy\<close> and \<open>StopMotor\<close> are static blocks of \<^verbatim>\<open>dvd.c\<close>.
  A function returns None where the code follows a NULL link.
\<close>

section \<open>The code\<close>

datatype dptr = QHead int | Dummy | StopMotor | Cmd int

record DVDCommandBlock =
  cb_next :: "dptr option"
  cb_prev :: "dptr option"
  cb_command :: int
  cb_state :: int
  cb_offset :: int
  cb_length :: int
  cb_addr :: int
  cb_transferSize :: int
  cb_transferTotal :: int
  cb_id :: int
  cb_callback :: int

type_synonym blockmap = "dptr \<Rightarrow> DVDCommandBlock"

record dvdq_state = irq +
  dblocks :: blockmap

definition DVD_PRIO_HIGHEST :: int where "DVD_PRIO_HIGHEST = 0"
definition DVD_PRIO_MEDIUM :: int where "DVD_PRIO_MEDIUM = 2"
definition DVD_PRIO_MAX :: int where "DVD_PRIO_MAX = 4"

definition set_cnext :: "dptr \<Rightarrow> dptr option \<Rightarrow> blockmap \<Rightarrow> blockmap" where
  "set_cnext b p D = D(b := (D b)\<lparr>cb_next := p\<rparr>)"

definition set_cprev :: "dptr \<Rightarrow> dptr option \<Rightarrow> blockmap \<Rightarrow> blockmap" where
  "set_cprev b p D = D(b := (D b)\<lparr>cb_prev := p\<rparr>)"

fun clear_heads :: "int list \<Rightarrow> blockmap \<Rightarrow> blockmap" where
  "clear_heads [] D = D"
| "clear_heads (i # is) D =
     clear_heads is (set_cprev (QHead i) (Some (QHead i)) (set_cnext (QHead i) (Some (QHead i)) D))"

definition DVDClearWaitingQueue :: "'a dvdq_state_scheme \<Rightarrow> 'a dvdq_state_scheme" where
  "DVDClearWaitingQueue s = s\<lparr>dblocks := clear_heads [0..DVD_PRIO_MAX - 1] (dblocks s)\<rparr>"

definition push_links :: "dptr \<Rightarrow> dptr \<Rightarrow> blockmap \<Rightarrow> blockmap option" where
  "push_links head block D = do {
     p \<leftarrow> cb_prev (D head);
     let D = set_cnext p (Some block) D;
     let D = set_cprev block (cb_prev (D head)) D;
     let D = set_cnext block (Some head) D;
     Some (set_cprev head (Some block) D)
   }"

definition DVDPushWaitingQueue :: "int \<Rightarrow> dptr \<Rightarrow> 'a dvdq_state_scheme \<Rightarrow> (bool \<times> 'a dvdq_state_scheme) option" where
  "DVDPushWaitingQueue prio block s = do {
     let (enabled, s) = OSDisableInterrupts s;
     D \<leftarrow> push_links (QHead prio) block (dblocks s);
     Some (True, OSRestoreInterrupts enabled (s\<lparr>dblocks := D\<rparr>))
   }"

definition PopWaitingQueuePrio :: "int \<Rightarrow> 'a dvdq_state_scheme \<Rightarrow> (dptr \<times> 'a dvdq_state_scheme) option" where
  "PopWaitingQueuePrio prio s = do {
     let (enabled, s) = OSDisableInterrupts s;
     let head = QHead prio;
     block \<leftarrow> cb_next (dblocks s head);
     let D = set_cnext head (cb_next (dblocks s block)) (dblocks s);
     n \<leftarrow> cb_next (D block);
     let D = set_cprev n (Some head) D;
     let s = OSRestoreInterrupts enabled (s\<lparr>dblocks := D\<rparr>);
     Some (block, s\<lparr>dblocks := set_cprev block None (set_cnext block None (dblocks s))\<rparr>)
   }"

text \<open>The loop over the priorities that \<^verbatim>\<open>__DVDPopWaitingQueue\<close>, \<^verbatim>\<open>__DVDCheckWaitingQueue\<close>
  and \<^verbatim>\<open>__DVDGetNextWaitingQueue\<close> share: the first queue that is not empty.\<close>

definition first_waiting :: "blockmap \<Rightarrow> int option" where
  "first_waiting D = find (\<lambda>i. cb_next (D (QHead i)) \<noteq> Some (QHead i)) [0..DVD_PRIO_MAX - 1]"

definition DVDPopWaitingQueue :: "'a dvdq_state_scheme \<Rightarrow> (dptr option \<times> 'a dvdq_state_scheme) option" where
  "DVDPopWaitingQueue s =
     (let (enabled, s) = OSDisableInterrupts s
      in case first_waiting (dblocks s) of
           Some i \<Rightarrow>
             (let s = OSRestoreInterrupts enabled s
              in map_option (\<lambda>(b, s). (Some b, s)) (PopWaitingQueuePrio i s))
         | None \<Rightarrow> Some (None, OSRestoreInterrupts enabled s))"

definition DVDCheckWaitingQueue :: "'a dvdq_state_scheme \<Rightarrow> bool \<times> 'a dvdq_state_scheme" where
  "DVDCheckWaitingQueue s =
     (let (enabled, s) = OSDisableInterrupts s
      in (first_waiting (dblocks s) \<noteq> None, OSRestoreInterrupts enabled s))"

definition DVDGetNextWaitingQueue :: "'a dvdq_state_scheme \<Rightarrow> dptr option \<times> 'a dvdq_state_scheme" where
  "DVDGetNextWaitingQueue s =
     (let (enabled, s) = OSDisableInterrupts s
      in (case first_waiting (dblocks s) of Some i \<Rightarrow> cb_next (dblocks s (QHead i)) | None \<Rightarrow> None,
          OSRestoreInterrupts enabled s))"

definition DVDDequeueWaitingQueue :: "dptr \<Rightarrow> 'a dvdq_state_scheme \<Rightarrow> bool \<times> 'a dvdq_state_scheme" where
  "DVDDequeueWaitingQueue block s =
     (let (enabled, s) = OSDisableInterrupts s;
          prev = cb_prev (dblocks s block);
          next = cb_next (dblocks s block)
      in case (prev, next) of
           (Some p, Some n) \<Rightarrow>
             (True, OSRestoreInterrupts enabled (s\<lparr>dblocks := set_cprev n prev (set_cnext p next (dblocks s))\<rparr>))
         | _ \<Rightarrow> (False, OSRestoreInterrupts enabled s))"


section \<open>Rings\<close>

fun linked :: "blockmap \<Rightarrow> dptr list \<Rightarrow> bool" where
  "linked D (a # b # ys) = (cb_next (D a) = Some b \<and> cb_prev (D b) = Some a \<and> linked D (b # ys))"
| "linked D _ = True"

text \<open>The list \<open>xs\<close> of blocks on the circular list through \<open>h\<close>.\<close>

definition ring :: "blockmap \<Rightarrow> dptr \<Rightarrow> dptr list \<Rightarrow> bool" where
  "ring D h xs \<longleftrightarrow> distinct (h # xs) \<and> linked D (h # xs @ [h])"

lemma set_link_simps [links_simps]:
  "cb_next (set_cnext a p D b) = (if b = a then p else cb_next (D b))" "cb_prev (set_cnext a p D b) = cb_prev (D b)"
  "cb_prev (set_cprev a p D b) = (if b = a then p else cb_prev (D b))" "cb_next (set_cprev a p D b) = cb_next (D b)"
  by (simp_all add: set_cnext_def set_cprev_def)

lemma linked_append: "linked D (xs @ a # ys) \<longleftrightarrow> linked D (xs @ [a]) \<and> linked D (a # ys)"
  by (induction D xs rule: linked.induct) (cases ys; auto)+

lemma linked_snoc: "linked D (xs @ [a, b]) \<longleftrightarrow> linked D (xs @ [a]) \<and> cb_next (D a) = Some b \<and> cb_prev (D b) = Some a"
  using linked_append [of D xs a "[b]"] by simp

lemma linked_frame_next:
  "linked D xs \<Longrightarrow> a \<notin> set (butlast xs) \<Longrightarrow> linked (set_cnext a p D) xs"
  by (induction D xs rule: linked.induct) (auto simp: links_simps split: if_splits)

lemma linked_frame_prev:
  "linked D xs \<Longrightarrow> a \<notin> set (tl xs) \<Longrightarrow> linked (set_cprev a p D) xs"
  by (induction D xs rule: linked.induct) (auto simp: links_simps split: if_splits)

lemma ring_last: "ring D h xs \<Longrightarrow> cb_prev (D h) = Some (last (h # xs))"
  using linked_snoc [of D "butlast (h # xs)" "last (h # xs)" h]
  by (cases xs rule: rev_cases) (auto simp: ring_def)

lemma ring_first: "ring D h xs \<Longrightarrow> cb_next (D h) = Some (hd (xs @ [h]))"
  by (cases xs) (auto simp: ring_def)

lemma ring_empty_iff: "ring D h xs \<Longrightarrow> cb_next (D h) = Some h \<longleftrightarrow> xs = []"
  by (cases xs) (auto simp: ring_def)


text \<open>What a change of links leaves alone.\<close>

definition data :: "blockmap \<Rightarrow> dptr \<Rightarrow> DVDCommandBlock" where
  "data D b = (D b)\<lparr>cb_next := None, cb_prev := None\<rparr>"

lemma data_set_link [simp]: "data (set_cnext a p D) = data D" "data (set_cprev a p D) = data D"
  by (simp_all add: data_def set_cnext_def set_cprev_def fun_eq_iff)

lemma linked_cong:
  "(\<And>x. x \<in> set xs \<Longrightarrow> cb_next (D' x) = cb_next (D x) \<and> cb_prev (D' x) = cb_prev (D x)) \<Longrightarrow> linked D' xs = linked D xs"
  by (induction D xs rule: linked.induct) auto

lemma ring_cong:
  "(\<And>x. x \<in> set (h # xs) \<Longrightarrow> cb_next (D' x) = cb_next (D x) \<and> cb_prev (D' x) = cb_prev (D x)) \<Longrightarrow> ring D' h xs = ring D h xs"
  unfolding ring_def using linked_cong [of "h # xs @ [h]" D' D] by simp

lemma linked_join:
  assumes "linked D (P @ [p])" "linked D (n # Q)" "p \<notin> set P" "p \<notin> set (butlast (n # Q))" "n \<notin> set (tl (P @ [p]))" "n \<notin> set Q"
  shows "linked (set_cprev n (Some p) (set_cnext p (Some n) D)) (P @ p # n # Q)"
proof -
  let ?D = "set_cprev n (Some p) (set_cnext p (Some n) D)"
  have "linked ?D (P @ [p])" using assms(1,3,5) by (intro linked_frame_prev linked_frame_next) simp_all
  moreover have "linked ?D (n # Q)" using assms(2,4,6) by (intro linked_frame_prev linked_frame_next) simp_all
  ultimately show ?thesis using linked_append [of ?D P p "n # Q"] by (simp add: links_simps)
qed

lemma ring_split:
  assumes "ring D h (us @ b # vs)"
  obtains P p n Q where "h # us = P @ [p]" "vs @ [h] = n # Q" "linked D (P @ [p])" "linked D (n # Q)"
    "cb_prev (D b) = Some p" "cb_next (D b) = Some n" "p \<notin> set P" "n \<notin> set Q" "p \<notin> set vs" "n \<notin> set us" "p \<noteq> b" "n \<noteq> b"
proof -
  obtain P p where P: "h # us = P @ [p]" by (metis append_butlast_last_id list.distinct(1))
  obtain n Q where n: "vs @ [h] = n # Q" by (cases vs) auto
  have d: "distinct (P @ [p])" "distinct (n # Q)" "set us \<inter> set (vs @ [h]) = {}" "b \<notin> set (P @ [p])" "b \<notin> set (n # Q)"
    "set (P @ [p]) \<inter> set vs = {}"
    using assms unfolding ring_def P [symmetric] n [symmetric] by auto
  have "h # (us @ b # vs) @ [h] = P @ p # b # n # Q" using P n by simp
  then have l: "linked D (P @ p # b # n # Q)" using assms by (simp add: ring_def)
  then have "linked D (P @ [p])" "linked D (p # b # n # Q)" using linked_append [of D P p "b # n # Q"] by simp_all
  moreover have "n \<notin> set us" "p \<notin> set vs" using d(3,6) n by auto
  ultimately show ?thesis using that [OF P n] d by auto
qed

lemma ring_remove:
  assumes "ring D h (us @ b # vs)"
  shows "\<exists>p n. cb_prev (D b) = Some p \<and> cb_next (D b) = Some n \<and> ring (set_cprev n (Some p) (set_cnext p (Some n) D)) h (us @ vs) \<and>
    p \<in> set (h # us @ vs) \<and> n \<in> set (h # us @ vs) \<and> (us = [] \<longrightarrow> p = h)"
proof (rule ring_split [OF assms])
  fix P p n Q
  assume a: "h # us = P @ [p]" "vs @ [h] = n # Q" "linked D (P @ [p])" "linked D (n # Q)"
    "cb_prev (D b) = Some p" "cb_next (D b) = Some n" "p \<notin> set P" "n \<notin> set Q" "p \<notin> set vs" "n \<notin> set us" "p \<noteq> b" "n \<noteq> b"
  have bl: "butlast (n # Q) = vs" "tl (P @ [p]) = us" by (simp_all flip: a(1,2))
  let ?D = "set_cprev n (Some p) (set_cnext p (Some n) D)"
  have "linked ?D (P @ p # n # Q)"
    using linked_join [OF a(3,4,7)] a(8,9,10) bl by simp
  moreover have "P @ p # n # Q = h # (us @ vs) @ [h]" using a(1,2) by simp
  moreover have "distinct (h # us @ vs)" using assms by (auto simp: ring_def)
  moreover have "p \<in> set (h # us)" "n \<in> set (vs @ [h])" unfolding a(1,2) by simp_all
  moreover have "us = [] \<Longrightarrow> p = h" using a(1) by (cases P) auto
  ultimately show ?thesis using a(5,6) by (auto simp: ring_def)
qed

lemma ring_push:
  assumes "ring D h xs" "b \<notin> set (h # xs)"
  shows "\<exists>D'. push_links h b D = Some D' \<and> ring D' h (xs @ [b]) \<and> data D' = data D \<and> (\<forall>x. x \<notin> set (h # b # xs) \<longrightarrow> D' x = D x)"
proof -
  obtain P p where P: "h # xs = P @ [p]" by (metis append_butlast_last_id list.distinct(1))
  have pr: "cb_prev (D h) = Some p" using ring_last [OF assms(1)] P by (metis last_snoc)
  have e: "h # xs @ [h] = P @ [p, h]" using arg_cong [OF P, of "\<lambda>ys. ys @ [h]"] by simp
  have "linked D (P @ [p, h])" using assms(1) unfolding ring_def e by blast
  then have l: "linked D (P @ [p])" using linked_snoc [of D P p h] by blast
  have d: "distinct (P @ [p])" "b \<notin> set (P @ [p])" "tl (P @ [p]) = xs" "h \<notin> set xs" "b \<noteq> h" "h \<in> set (P @ [p])"
    using assms unfolding ring_def P [symmetric] by auto
  let ?D1 = "set_cnext p (Some b) D"
  let ?D = "set_cprev h (Some b) (set_cnext b (Some h) (set_cprev b (Some p) ?D1))"
  have x: "push_links h b D = Some ?D" using pr by (simp add: push_links_def links_simps)
  have bt: "b \<notin> set (tl (P @ [p]))" "h \<notin> set (tl (P @ [p]))" unfolding d(3) using assms d(4) by auto
  have "linked ?D (P @ [p])"
    using l d(1,2) bt by (intro linked_frame_prev linked_frame_next) auto
  moreover have "p \<noteq> b" using d(2) by auto
  ultimately have "linked ?D ((P @ [p]) @ [b, h])"
    using linked_snoc [of ?D P p b] linked_snoc [of ?D "P @ [p]" b h] d(5) by (simp add: links_simps)
  moreover have "(P @ [p]) @ [b, h] = h # (xs @ [b]) @ [h]" by (simp flip: P)
  moreover have "distinct (h # xs @ [b])" using assms by (auto simp: ring_def)
  ultimately have "ring ?D h (xs @ [b])" unfolding ring_def by metis
  moreover have "?D y = D y" if "y \<notin> set (h # b # xs)" for y
  proof -
    have "p \<in> set (h # xs)" unfolding P by simp
    then show ?thesis using that by (auto simp: set_cnext_def set_cprev_def)
  qed
  ultimately show ?thesis using x by auto
qed


section \<open>The queues\<close>

text \<open>\<open>waiting D q\<close>: queue \<open>i\<close> holds the blocks \<open>q i\<close>, and no block is in two queues.\<close>

definition prios :: "int set" where "prios = {0, 1, 2, 3}"

definition waiting :: "blockmap \<Rightarrow> (int \<Rightarrow> dptr list) \<Rightarrow> bool" where
  "waiting D q \<longleftrightarrow> (\<forall>i \<in> prios. ring D (QHead i) (q i) \<and> (\<forall>b \<in> set (q i). \<forall>k. b \<noteq> QHead k)) \<and>
     (\<forall>i \<in> prios. \<forall>j \<in> prios. i \<noteq> j \<longrightarrow> set (q i) \<inter> set (q j) = {})"

definition all_waiting :: "(int \<Rightarrow> dptr list) \<Rightarrow> dptr list" where
  "all_waiting q = q 0 @ q 1 @ q 2 @ q 3"

lemma prio_list: "[0..DVD_PRIO_MAX - 1] = [0, 1, 2, 3]"
  by (simp add: DVD_PRIO_MAX_def upto.simps)

lemma set_all_waiting: "x \<in> set (all_waiting q) \<longleftrightarrow> (\<exists>i \<in> prios. x \<in> set (q i))"
  by (auto simp: all_waiting_def prios_def)

lemma waiting_update:
  assumes w: "waiting D q" and i: "i \<in> prios" and r: "ring D' (QHead i) xs"
    and same: "\<And>x. x \<notin> insert (QHead i) (insert b (set (q i))) \<Longrightarrow> cb_next (D' x) = cb_next (D x) \<and> cb_prev (D' x) = cb_prev (D x)"
    and xs: "set xs \<subseteq> insert b (set (q i))" and b: "\<And>k. b \<noteq> QHead k" "\<And>j. j \<in> prios \<Longrightarrow> j \<noteq> i \<Longrightarrow> b \<notin> set (q j)"
  shows "waiting D' (q(i := xs))"
proof -
  have nq: "QHead k \<notin> set (q j)" if "j \<in> prios" for k j using w that by (auto simp: waiting_def)
  have "ring D' (QHead j) (q j)" if jq: "j \<in> prios" "j \<noteq> i" for j
  proof -
    have "x \<notin> insert (QHead i) (insert b (set (q i)))" if x: "x \<in> set (QHead j # q j)" for x
    proof -
      have "set (q i) \<inter> set (q j) = {}" using w i jq unfolding waiting_def by blast
      then show ?thesis using x nq [OF i] nq [OF jq(1)] b(1) b(2) [OF jq] jq(2) by auto
    qed
    then have "ring D' (QHead j) (q j) = ring D (QHead j) (q j)" using same by (intro ring_cong) blast
    then show ?thesis using w jq by (simp add: waiting_def)
  qed
  then have rings: "\<forall>j \<in> prios. ring D' (QHead j) ((q(i := xs)) j)" using r by simp
  have sub: "set ((q(i := xs)) j) \<subseteq> (if j = i then insert b (set (q i)) else set (q j))" for j using xs by simp
  have "c \<noteq> QHead k" if c: "j \<in> prios" "c \<in> set ((q(i := xs)) j)" for j c k
  proof (cases "j = i")
    case True
    then have "c = b \<or> c \<in> set (q i)" using c(2) xs by auto
    then show ?thesis using b(1) nq [OF i] by auto
  next
    case False
    then show ?thesis using c nq [OF c(1)] by auto
  qed
  then have "\<forall>j \<in> prios. \<forall>c \<in> set ((q(i := xs)) j). \<forall>k. c \<noteq> QHead k" by blast
  moreover have "set ((q(i := xs)) j) \<inter> set ((q(i := xs)) k) = {}" if jk: "j \<in> prios" "k \<in> prios" "j \<noteq> k" for j k
  proof -
    have d: "set (q j) \<inter> set (q k) = {}" using w jk unfolding waiting_def by blast
    show ?thesis using d sub [of j] sub [of k] b(2) jk by (cases "j = i"; cases "k = i") auto
  qed
  ultimately show ?thesis using rings unfolding waiting_def by blast
qed

text \<open>The first queue that is not empty.\<close>

definition first_prio :: "(int \<Rightarrow> dptr list) \<Rightarrow> int option" where
  "first_prio q = find (\<lambda>i. q i \<noteq> []) [0, 1, 2, 3]"

lemma first_waiting_eq:
  assumes "waiting D q"
  shows "first_waiting D = first_prio q"
proof -
  have "cb_next (D (QHead i)) = Some (QHead i) \<longleftrightarrow> q i = []" if "i \<in> prios" for i
    using ring_empty_iff assms that unfolding waiting_def by blast
  then show ?thesis by (simp add: first_waiting_def first_prio_def prio_list prios_def)
qed


definition waiting_st :: "'a dvdq_state_scheme \<Rightarrow> (int \<Rightarrow> dptr list) \<Rightarrow> bool" where
  "waiting_st s q \<longleftrightarrow> waiting (dblocks s) q"

lemma first_prio_SomeD:
  assumes "first_prio q = Some i"
  shows "i \<in> prios" "q i \<noteq> []" "all_waiting q = q i @ all_waiting (q(i := []))"
  using assms by (auto simp: first_prio_def prios_def all_waiting_def split: if_splits)

lemma first_prio_None: "first_prio q = None \<longleftrightarrow> all_waiting q = []"
  by (auto simp: first_prio_def all_waiting_def)

lemma push_waiting:
  fixes s :: "'a dvdq_state_scheme"
  assumes "waiting_st s q" "i \<in> prios" "b \<notin> set (all_waiting q)" "\<And>k. b \<noteq> QHead k"
  shows "\<exists>D. DVDPushWaitingQueue i b s = Some (True, s\<lparr>dblocks := D\<rparr>) \<and> waiting D (q(i := q i @ [b])) \<and> data D = data (dblocks s)"
proof -
  have w: "waiting (dblocks s) q" using assms(1) by (simp add: waiting_st_def)
  have "ring (dblocks s) (QHead i) (q i)" "b \<notin> set (QHead i # q i)" using w assms(2-4) by (auto simp: waiting_def set_all_waiting)
  from ring_push [OF this] obtain D where D: "push_links (QHead i) b (dblocks s) = Some D" "ring D (QHead i) (q i @ [b])"
    "data D = data (dblocks s)" "\<forall>x. x \<notin> set (QHead i # b # q i) \<longrightarrow> D x = dblocks s x" by blast
  have "waiting D (q(i := q i @ [b]))"
    by (rule waiting_update [OF w assms(2) D(2), of b]) (use D(4) assms in \<open>auto simp: set_all_waiting\<close>)
  then show ?thesis using D by (intro exI [of _ D]) (simp add: DVDPushWaitingQueue_def OSDisableInterrupts_def OSRestoreInterrupts_def)
qed

lemma pop_waiting:
  fixes s :: "'a dvdq_state_scheme"
  assumes "waiting_st s q" "first_prio q = Some i" "q i = b # bs"
  shows "\<exists>D. DVDPopWaitingQueue s = Some (Some b, s\<lparr>dblocks := D\<rparr>) \<and> waiting D (q(i := bs)) \<and> data D = data (dblocks s) \<and>
    cb_next (D b) = None \<and> cb_prev (D b) = None"
proof -
  have w: "waiting (dblocks s) q" and i: "i \<in> prios" using assms(1) first_prio_SomeD [OF assms(2)] by (simp_all add: waiting_st_def)
  let ?h = "QHead i" let ?B = "dblocks s"
  have r: "ring ?B ?h (b # bs)" using w i assms(3) unfolding waiting_def by metis
  have hb: "b \<noteq> QHead k" for k using w i assms(3) unfolding waiting_def by (metis list.set_intros(1))
  obtain n where n: "cb_next (?B b) = Some n" "ring (set_cprev n (Some ?h) (set_cnext ?h (Some n) ?B)) ?h bs" "n \<in> set (?h # bs)"
    using ring_remove [of ?B ?h "[]" b bs] r by auto
  have h: "cb_next (?B ?h) = Some b" using ring_first [OF r] by simp
  let ?D1 = "set_cprev n (Some ?h) (set_cnext ?h (Some n) ?B)"
  let ?D = "set_cprev b None (set_cnext b None ?D1)"
  have nb: "b \<notin> set (?h # bs)" using r by (auto simp: ring_def)
  have "cb_next (?D x) = cb_next (?D1 x) \<and> cb_prev (?D x) = cb_prev (?D1 x)" if "x \<in> set (?h # bs)" for x
    using that nb by (auto simp: links_simps)
  from ring_cong [OF this] have D: "ring ?D ?h bs" using n(2) by simp
  have "waiting ?D (q(i := bs))"
  proof (rule waiting_update [OF w i D, of b])
    show "cb_next (?D x) = cb_next (?B x) \<and> cb_prev (?D x) = cb_prev (?B x)" if "x \<notin> insert ?h (insert b (set (q i)))" for x
      using that n(3) assms(3) by (auto simp: links_simps)
    show "b \<notin> set (q j)" if "j \<in> prios" "j \<noteq> i" for j
    proof -
      have "set (q i) \<inter> set (q j) = {}" using w i that unfolding waiting_def by blast
      then show ?thesis using assms(3) by auto
    qed
  qed (use hb assms(3) in auto)
  moreover have "PopWaitingQueuePrio i s = Some (b, s\<lparr>dblocks := ?D\<rparr>)"
  proof -
    have "cb_next (set_cnext ?h (Some n) ?B b) = Some n" using n(1) hb by (simp add: links_simps)
    then show ?thesis using h n(1)
      by (simp add: PopWaitingQueuePrio_def Let_def OSDisableInterrupts_def OSRestoreInterrupts_def)
  qed
  then have "DVDPopWaitingQueue s = Some (Some b, s\<lparr>dblocks := ?D\<rparr>)"
    using first_waiting_eq [OF w] assms(2) by (simp add: DVDPopWaitingQueue_def OSDisableInterrupts_def OSRestoreInterrupts_def)
  ultimately show ?thesis by (intro exI [of _ ?D]) (simp add: links_simps)
qed

lemma pop_empty:
  fixes s :: "'a dvdq_state_scheme"
  assumes "waiting_st s q" "all_waiting q = []"
  shows "DVDPopWaitingQueue s = Some (None, s)"
  using first_waiting_eq [of "dblocks s" q] assms first_prio_None [of q]
  by (simp add: DVDPopWaitingQueue_def OSDisableInterrupts_def OSRestoreInterrupts_def waiting_st_def)

lemma check_waiting:
  fixes s :: "'a dvdq_state_scheme"
  assumes "waiting_st s q"
  shows "DVDCheckWaitingQueue s = (all_waiting q \<noteq> [], s)"
  using first_waiting_eq [of "dblocks s" q] assms first_prio_None [of q]
  by (cases "first_prio q") (simp_all add: DVDCheckWaitingQueue_def OSDisableInterrupts_def OSRestoreInterrupts_def waiting_st_def)

lemma dequeue_waiting:
  fixes s :: "'a dvdq_state_scheme"
  assumes "waiting_st s q" "i \<in> prios" "b \<in> set (q i)"
  shows "\<exists>D. DVDDequeueWaitingQueue b s = (True, s\<lparr>dblocks := D\<rparr>) \<and> waiting D (q(i := remove1 b (q i))) \<and> data D = data (dblocks s)"
proof -
  have w: "waiting (dblocks s) q" using assms(1) by (simp add: waiting_st_def)
  let ?h = "QHead i" let ?B = "dblocks s"
  obtain us vs where q: "q i = us @ b # vs" "b \<notin> set us" using split_list_first [OF assms(3)] by blast
  have r: "ring ?B ?h (us @ b # vs)" using w assms(2) q(1) unfolding waiting_def by metis
  obtain p n where pn: "cb_prev (?B b) = Some p" "cb_next (?B b) = Some n" "ring (set_cprev n (Some p) (set_cnext p (Some n) ?B)) ?h (us @ vs)"
    "p \<in> set (?h # us @ vs)" "n \<in> set (?h # us @ vs)" using ring_remove [OF r] by blast
  let ?D = "set_cprev n (Some p) (set_cnext p (Some n) ?B)"
  have rm: "remove1 b (q i) = us @ vs" using q by (simp add: remove1_append)
  have "waiting ?D (q(i := us @ vs))"
  proof (rule waiting_update [OF w assms(2) pn(3), of b])
    show "cb_next (?D x) = cb_next (?B x) \<and> cb_prev (?D x) = cb_prev (?B x)" if "x \<notin> insert ?h (insert b (set (q i)))" for x
      using that pn(4,5) q(1) by (auto simp: links_simps)
    show "b \<noteq> QHead k" for k using w assms(2,3) unfolding waiting_def by blast
    show "b \<notin> set (q j)" if "j \<in> prios" "j \<noteq> i" for j
    proof -
      have "set (q i) \<inter> set (q j) = {}" using w assms(2) that unfolding waiting_def by blast
      then show ?thesis using assms(3) by auto
    qed
  qed (use q in auto)
  then show ?thesis
    using pn(1,2) rm by (intro exI [of _ ?D]) (simp add: DVDDequeueWaitingQueue_def OSDisableInterrupts_def OSRestoreInterrupts_def)
qed

text \<open>Taking commands until none waits, at most \<open>n\<close> times.\<close>

fun pop_all :: "nat \<Rightarrow> 'a dvdq_state_scheme \<Rightarrow> (dptr list \<times> 'a dvdq_state_scheme) option" where
  "pop_all 0 s = None"
| "pop_all (Suc n) s = do {
     (b, s) \<leftarrow> DVDPopWaitingQueue s;
     case b of None \<Rightarrow> Some ([], s)
     | Some b \<Rightarrow> map_option (\<lambda>(bs, s). (b # bs, s)) (pop_all n s)
   }"


lemma pop_all_order:
  fixes s :: "'a dvdq_state_scheme"
  assumes "waiting_st s q" "length (all_waiting q) < n"
  shows "\<exists>D. pop_all n s = Some (all_waiting q, s\<lparr>dblocks := D\<rparr>) \<and> waiting D (\<lambda>_. []) \<and> data D = data (dblocks s)"
  using assms
proof (induction n arbitrary: s q)
  case (Suc n)
  show ?case
  proof (cases "first_prio q")
    case None
    then have e: "all_waiting q = []" using first_prio_None by blast
    then have "\<forall>i \<in> prios. q i = []" by (auto simp: all_waiting_def prios_def)
    then have "waiting (dblocks s) (\<lambda>_. [])" using Suc.prems(1) by (simp add: waiting_st_def waiting_def)
    then show ?thesis using pop_empty [OF Suc.prems(1) e] e by (intro exI [of _ "dblocks s"]) simp
  next
    case (Some i)
    obtain b bs where q: "q i = b # bs" using first_prio_SomeD(2) [OF Some] by (cases "q i") auto
    obtain D where D: "DVDPopWaitingQueue s = Some (Some b, s\<lparr>dblocks := D\<rparr>)" "waiting D (q(i := bs))" "data D = data (dblocks s)"
      using pop_waiting [OF Suc.prems(1) Some q] by blast
    have a: "all_waiting q = b # all_waiting (q(i := bs))"
      using Some q by (auto simp: first_prio_def all_waiting_def split: if_splits)
    have w: "waiting_st (s\<lparr>dblocks := D\<rparr>) (q(i := bs))" "length (all_waiting (q(i := bs))) < n"
      using D(2) Suc.prems(2) a by (simp_all add: waiting_st_def)
    obtain D' where "pop_all n (s\<lparr>dblocks := D\<rparr>) = Some (all_waiting (q(i := bs)), (s\<lparr>dblocks := D\<rparr>)\<lparr>dblocks := D'\<rparr>)"
      "waiting D' (\<lambda>_. [])" "data D' = data (dblocks (s\<lparr>dblocks := D\<rparr>))"
      using Suc.IH [OF w] by blast
    then show ?thesis using D a by (intro exI [of _ D']) (simp del: fun_upd_apply)
  qed
qed simp

text \<open>C23. The waiting queues serve the priorities in order and are first in first out within one: a
  command pushed at priority \<open>i\<close> is taken after all that wait at priorities up to \<open>i\<close> and before
  all that wait behind; popping until nothing is left takes every command exactly once and leaves
  the queues empty.  Neither touches the contents of a command or the interrupt flag.\<close>

theorem waiting_queue_order:
  fixes s :: "'a dvdq_state_scheme"
  assumes "waiting (dblocks s) q" "i \<in> prios" "b \<notin> set (all_waiting q)" "\<And>k. b \<noteq> QHead k"
  shows "\<exists>s' D. DVDPushWaitingQueue i b s = Some (True, s') \<and> waiting (dblocks s') (q(i := q i @ [b])) \<and>
    pop_all (length (all_waiting q) + 2) s' = Some (all_waiting (q(i := q i @ [b])), s\<lparr>dblocks := D\<rparr>) \<and>
    waiting D (\<lambda>_. []) \<and> data D = data (dblocks s)"
proof -
  obtain D where D: "DVDPushWaitingQueue i b s = Some (True, s\<lparr>dblocks := D\<rparr>)" "waiting D (q(i := q i @ [b]))" "data D = data (dblocks s)"
    using push_waiting [OF _ assms(2-4)] assms(1) by (auto simp: waiting_st_def)
  have "length (all_waiting (q(i := q i @ [b]))) < length (all_waiting q) + 2"
    using assms(2) by (auto simp: all_waiting_def prios_def)
  moreover have "waiting_st (s\<lparr>dblocks := D\<rparr>) (q(i := q i @ [b]))" using D(2) by (simp add: waiting_st_def)
  ultimately obtain D' where "pop_all (length (all_waiting q) + 2) (s\<lparr>dblocks := D\<rparr>) = Some (all_waiting (q(i := q i @ [b])), (s\<lparr>dblocks := D\<rparr>)\<lparr>dblocks := D'\<rparr>)"
    "waiting D' (\<lambda>_. [])" "data D' = data (dblocks (s\<lparr>dblocks := D\<rparr>))"
    using pop_all_order by blast
  then show ?thesis using D by (intro exI [of _ "s\<lparr>dblocks := D\<rparr>"] exI [of _ D']) (simp del: pop_all.simps fun_upd_apply)
qed

lemma clear_waiting: "waiting (dblocks (DVDClearWaitingQueue s)) (\<lambda>_. [])"
  by (simp add: DVDClearWaitingQueue_def prio_list waiting_def ring_def prios_def links_simps)

text \<open>Two commands, the second more urgent.\<close>

definition demo_queue :: dvdq_state where
  "demo_queue = DVDClearWaitingQueue \<lparr>irq_enabled = True, dblocks = \<lambda>_. \<lparr>cb_next = None, cb_prev = None, cb_command = 1, cb_state = 0,
     cb_offset = 0, cb_length = 0x20, cb_addr = 0, cb_transferSize = 0, cb_transferTotal = 0, cb_id = 0, cb_callback = 0\<rparr>\<rparr>"

theorem waiting_queue_order_witness:
  "\<exists>s1 s2 D. DVDPushWaitingQueue 2 (Cmd 0x100) demo_queue = Some (True, s1) \<and> DVDPushWaitingQueue 0 (Cmd 0x200) s1 = Some (True, s2) \<and>
    pop_all 3 s2 = Some ([Cmd 0x200, Cmd 0x100], demo_queue\<lparr>dblocks := D\<rparr>)"
proof -
  have w: "waiting (dblocks demo_queue) (\<lambda>_. [])" using clear_waiting by (simp add: demo_queue_def)
  obtain D1 where s1: "DVDPushWaitingQueue 2 (Cmd 0x100) demo_queue = Some (True, demo_queue\<lparr>dblocks := D1\<rparr>)" "waiting D1 ((\<lambda>_. [])(2 := [Cmd 0x100]))"
    using push_waiting [of demo_queue "\<lambda>_. []" 2 "Cmd 0x100"] w by (auto simp: waiting_st_def prios_def all_waiting_def)
  obtain s2 D where "DVDPushWaitingQueue 0 (Cmd 0x200) (demo_queue\<lparr>dblocks := D1\<rparr>) = Some (True, s2)"
    "pop_all (length (all_waiting ((\<lambda>_. [])(2 := [Cmd 0x100]))) + 2) s2 =
      Some (all_waiting ((\<lambda>_. [])(2 := [Cmd 0x100], 0 := [Cmd 0x200])), demo_queue\<lparr>dblocks := D\<rparr>)"
    using waiting_queue_order [of "demo_queue\<lparr>dblocks := D1\<rparr>" "(\<lambda>_. [])(2 := [Cmd 0x100])" 0 "Cmd 0x200"] s1(2)
    by (auto simp: prios_def all_waiting_def)
  then show ?thesis using s1(1) by (auto simp: all_waiting_def numeral_3_eq_3)
qed

end
