(* ===== verification/DvdFs.thy ===== *)
theory DvdFs
  imports Fst DvdQueue
begin

text \<open>
  \<^verbatim>\<open>dvd/dvdfs.c\<close>: the file system of the disc.  Its table has the form of \<open>Fst\<close> and its code
  that of \<^verbatim>\<open>arc.c\<close>, with a check of the 8.3 format in place of the treatment of entries named
  \<^verbatim>\<open>.\<close>.  The static variables and the table (\<open>dnode\<close>, \<open>dchar\<close>) are fields of
  \<open>dvdfs_state\<close>; \<open>finfos\<close> holds what a \<^verbatim>\<open>DVDFileInfo\<close> adds to its command block.  The
  functions that read are in \<open>DvdDrive\<close>, as they issue commands.
\<close>

section \<open>The code\<close>

record DVDFileInfo =
  df_offset :: int
  df_size :: int
  df_callback :: int

record dvdfs_state = dvdq_state +
  dnode :: "int \<Rightarrow> fst_node"
  dchar :: "int \<Rightarrow> char"
  FstStart :: int
  FstStringStart :: int
  MaxEntryNum :: int
  currentDirectory :: int
  LongFileNameFlag :: bool
  LayoutFormat :: int
  boot_fstStart :: int
  finfos :: "dptr \<Rightarrow> DVDFileInfo"

definition dvd_node :: "'a dvdfs_state_scheme \<Rightarrow> int \<Rightarrow> fst_node" where
  "dvd_node s i = dnode s (u32 (FstStart s + NODE_SIZE * i))"

definition DVDFSInit :: "'a dvdfs_state_scheme \<Rightarrow> 'a dvdfs_state_scheme" where
  "DVDFSInit s =
     (let s = s\<lparr>FstStart := boot_fstStart s\<rparr>
      in if FstStart s \<noteq> 0
         then
           let s = s\<lparr>MaxEntryNum := fn_b (dvd_node s 0)\<rparr>
           in s\<lparr>FstStringStart := u32 (FstStart s + NODE_SIZE * MaxEntryNum s)\<rparr>
         else s)"

text \<open>
  The 8.3 check of the first component of \<open>rest\<close>: \<open>k\<close> characters are behind, \<open>ext\<close> is the start of the
  extension.  A second dot, or one after more than eight characters, ends the loop.  The result is
  \<^verbatim>\<open>illegal_format\<close>.
\<close>

fun scan83 :: "string \<Rightarrow> nat \<Rightarrow> nat option \<Rightarrow> bool \<Rightarrow> bool" where
  "scan83 [] k ext illegal = (illegal \<or> (case ext of Some e \<Rightarrow> int k - int e > 3 | None \<Rightarrow> False))"
| "scan83 (c # rest) k ext illegal =
     (if c = NUL \<or> c = CHR ''/'' then illegal \<or> (case ext of Some e \<Rightarrow> int k - int e > 3 | None \<Rightarrow> False)
      else if c = CHR ''.''
      then if k > 8 \<or> ext \<noteq> None then True
           else scan83 rest (k + 1) (Some (k + 1)) illegal
      else scan83 rest (k + 1) ext (illegal \<or> c = CHR '' ''))"

definition illegal_format :: "string \<Rightarrow> bool" where
  "illegal_format path = scan83 path 0 None False"

text \<open>The loop over the entries of the folder \<open>it\<close>.\<close>

partial_function (option) dvd_search ::
  "(int \<Rightarrow> char) \<Rightarrow> (int \<Rightarrow> fst_node) \<Rightarrow> int \<Rightarrow> string \<Rightarrow> bool \<Rightarrow> int \<Rightarrow> int \<Rightarrow> int option option" where
  "dvd_search M node names path slash it anchor =
     (if \<not> anchor < fn_b (node it) then Some None
      else if (NodeIsFolder (node anchor) \<or> \<not> slash) \<and> isSame M path (u32 (names + NodeGetName (node anchor)))
      then Some (Some anchor)
      else dvd_search M node names path slash it
             (if NodeIsFolder (node anchor) then fn_b (node anchor) else u32 (anchor + 1)))"

declare dvd_search.simps [code]

definition DVDConvertPathToEntrynum :: "string \<Rightarrow> 'a dvdfs_state_scheme \<Rightarrow> int option" where
  "DVDConvertPathToEntrynum path s =
     path_walk (\<lambda>i. fn_a (dvd_node s i)) (\<lambda>rest. LongFileNameFlag s \<or> \<not> illegal_format rest)
       (\<lambda>it rest slash. dvd_search (dchar s) (dvd_node s) (FstStringStart s) rest slash it (u32 (it + 1)))
       (u32 (currentDirectory s)) path"

definition DVDConvertEntrynumToPath :: "int \<Rightarrow> int \<Rightarrow> (int \<Rightarrow> char) \<Rightarrow> 'a dvdfs_state_scheme \<Rightarrow> (bool \<times> (int \<Rightarrow> char)) option" where
  "DVDConvertEntrynumToPath e maxlen buf s = ConvertEntrynumToPath (dchar s) (dvd_node s) (FstStringStart s) e maxlen buf"

definition DVDGetCurrentDir :: "int \<Rightarrow> (int \<Rightarrow> char) \<Rightarrow> 'a dvdfs_state_scheme \<Rightarrow> (bool \<times> (int \<Rightarrow> char)) option" where
  "DVDGetCurrentDir maxlen buf s = DVDConvertEntrynumToPath (currentDirectory s) maxlen buf s"

text \<open>Filling in the structure of an open file.\<close>

definition open_file :: "int \<Rightarrow> dptr \<Rightarrow> 'a dvdfs_state_scheme \<Rightarrow> 'a dvdfs_state_scheme" where
  "open_file e info s =
     s\<lparr>finfos := (finfos s)(info := \<lparr>df_offset = drop_bit (nat (LayoutFormat s)) (fn_a (dvd_node s e)),
          df_size = fn_b (dvd_node s e), df_callback = 0\<rparr>),
       dblocks := (dblocks s)(info := (dblocks s info)\<lparr>cb_state := 0\<rparr>)\<rparr>"

definition DVDFastOpen :: "int \<Rightarrow> dptr \<Rightarrow> 'a dvdfs_state_scheme \<Rightarrow> bool \<times> 'a dvdfs_state_scheme" where
  "DVDFastOpen e info s =
     (if e < 0 \<or> e \<ge> MaxEntryNum s \<or> NodeIsFolder (dvd_node s e) then (False, s)
      else (True, open_file e info s))"

definition DVDOpen :: "string \<Rightarrow> dptr \<Rightarrow> 'a dvdfs_state_scheme \<Rightarrow> (bool \<times> 'a dvdfs_state_scheme) option" where
  "DVDOpen path info s = do {
     e \<leftarrow> DVDConvertPathToEntrynum path s;
     if e < 0 then do {
       _ \<leftarrow> DVDGetCurrentDir 128 (\<lambda>_. NUL) s;
       Some (False, s)
     }
     else if NodeIsFolder (dvd_node s e) then Some (False, s)
     else Some (True, open_file e info s)
   }"


section \<open>The search provides the interface of the scanner\<close>

lemma dvd_search_list:
  assumes "list_at M node names i p ts" "0 \<le> i" "i + nsizes ts < 2 ^ 31" "fn_b (node it) = i + nsizes ts"
  shows "dvd_search M node names path slash it i =
    Some (map_option fst (find (\<lambda>(j, u). same_name (component path) (fname u) \<and> (slash \<longrightarrow> is_dir u)) (kids i ts)))"
  using assms
proof (induction ts arbitrary: i)
  case Nil
  then show ?case by (simp add: dvd_search.simps)
next
  case (Cons t ts)
  have t: "tree_at M node names i p t" "list_at M node names (i + nsize t) p ts" using Cons.prems(1) by auto
  note n = tree_at_name [OF t(1), unfolded name_at_def] and d = tree_at_dir [OF t(1)]
  have pos: "1 \<le> nsize t" "0 \<le> nsizes ts" by (rule nsize_pos)+
  have nx: "(if NodeIsFolder (node i) then fn_b (node i) else u32 (i + 1)) = i + nsize t"
    using tree_at_sibling [OF t(1)] d Cons.prems(2,3) pos by (cases t) (auto simp: u32_id)
  have same: "isSame M path (u32 (names + NodeGetName (node i))) = same_name (component path) (fname t)"
    using isSame_iff [of M _ "fname t" path] n by (simp add: NodeGetName_eq)
  have "i < fn_b (node it)" using Cons.prems(4) pos by simp
  then have step: "dvd_search M node names path slash it i =
      (if (is_dir t \<or> \<not> slash) \<and> same_name (component path) (fname t) then Some (Some i)
       else dvd_search M node names path slash it (i + nsize t))"
    using nx by (subst dvd_search.simps) (simp only: same d nx if_False simp_thms)
  have "dvd_search M node names path slash it (i + nsize t) =
      Some (map_option fst (find (\<lambda>(j, u). same_name (component path) (fname u) \<and> (slash \<longrightarrow> is_dir u)) (kids (i + nsize t) ts)))"
    using Cons.IH [of "i + nsize t"] t(2) Cons.prems(2-4) pos by (simp add: algebra_simps)
  then show ?case using step by (cases "same_name (component path) (fname t)") auto
qed

interpretation dvd: fst_search "dchar s" "dvd_node s" "FstStringStart s" "\<lambda>_. True"
    "\<lambda>it rest slash. dvd_search (dchar s) (dvd_node s) (FstStringStart s) rest slash it (u32 (it + 1))"
  for s :: "'a dvdfs_state_scheme"
proof unfold_locales
  fix i p t path folder
  assume "tree_at (dchar s) (dvd_node s) (FstStringStart s) i p t" "is_dir t" "0 \<le> i" "i + nsize t < 2 ^ 31"
  moreover have "0 \<le> nsizes (subs t)" by (rule nsize_pos)
  ultimately show "dvd_search (dchar s) (dvd_node s) (FstStringStart s) path folder i (u32 (i + 1)) =
      Some (map_option fst (find (\<lambda>(j, u). same_name (component path) (fname u) \<and> (folder \<longrightarrow> is_dir u)) (kids (i + 1) (subs t))))"
    using dvd_search_list [of "dchar s" "dvd_node s" "FstStringStart s" "i + 1" i "subs t" i path folder]
    by (cases t) (simp_all add: u32_id)
qed


section \<open>Properties\<close>

definition dvd_at :: "'a dvdfs_state_scheme \<Rightarrow> trail \<Rightarrow> bool" where
  "dvd_at s tr \<longleftrightarrow> trail_at (dchar s) (dvd_node s) (FstStringStart s) (\<lambda>_. True) tr \<and> currentDirectory s = fst (hd tr)"

lemma dvd_walk:
  assumes "dvd_at s tr" "NUL \<notin> set path" "LongFileNameFlag s \<or> (\<forall>k. \<not> illegal_format (drop k path))"
  shows "DVDConvertPathToEntrynum path s = Some (case resolve tr (split_path path) of None \<Rightarrow> - 1 | Some (j, u) \<Rightarrow> j)"
proof -
  have tr: "trail_at (dchar s) (dvd_node s) (FstStringStart s) (\<lambda>_. True) tr" using assms(1) by (simp add: dvd_at_def)
  obtain i t tr1 where x: "tr = (i, t) # tr1" using trail_nonempty [OF tr] by (cases tr) auto
  have "0 \<le> fst (hd tr) \<and> fst (hd tr) < 2 ^ 31"
    using trail_head(4,5) [OF tr [unfolded x]] nsize_pos(1) [of t] x by simp
  then have "u32 (currentDirectory s) = fst (hd tr)" using assms(1) by (simp add: dvd_at_def u32_id)
  then show ?thesis
    using dvd.walk_resolves [OF tr assms(2), of "\<lambda>rest. LongFileNameFlag s \<or> \<not> illegal_format rest"] assms(3)
    by (auto simp: DVDConvertPathToEntrynum_def)
qed

text \<open>\<^verbatim>\<open>DVDOpen\<close> returns, and opens exactly the paths that lead to a file of the disc, with the
  file's offset in the units of the layout and its size, and the command block idle; on a folder, and on a path
  that leads nowhere, it returns FALSE and changes nothing.  Long names are allowed, or every
  rest of the path keeps the 8.3 format.\<close>

theorem DVDOpen_opens_files:
  assumes "dvd_at s tr" "NUL \<notin> set path" "LongFileNameFlag s \<or> (\<forall>k. \<not> illegal_format (drop k path))"
  shows "case resolve tr (split_path path) of
      Some (j, FFile n ofs sz) \<Rightarrow> (\<exists>s'. DVDOpen path info s = Some (True, s') \<and>
        finfos s' info = \<lparr>df_offset = drop_bit (nat (LayoutFormat s)) ofs, df_size = sz, df_callback = 0\<rparr> \<and>
        cb_state (dblocks s' info) = 0)
    | _ \<Rightarrow> DVDOpen path info s = Some (False, s)"
proof -
  have tr: "trail_at (dchar s) (dvd_node s) (FstStringStart s) (\<lambda>_. True) tr" "currentDirectory s = fst (hd tr)"
    using assms(1) by (simp_all add: dvd_at_def)
  note walk = dvd_walk [OF assms]
  show ?thesis
  proof (cases "resolve tr (split_path path)")
    case None
    obtain w b where "entryToPath (dchar s) (dvd_node s) (FstStringStart s) (fst (hd tr)) 128 (\<lambda>_. NUL) = Some (w, b)"
      using entryToPath_total [OF tr(1)] by (metis prod.collapse)
    then have "\<exists>r. DVDGetCurrentDir 128 (\<lambda>_. NUL) s = Some r"
      using tr(2) by (auto simp: DVDGetCurrentDir_def DVDConvertEntrynumToPath_def ConvertEntrynumToPath_def)
    then show ?thesis using walk None by (auto simp: DVDOpen_def)
  next
    case (Some x)
    obtain j u where x: "x = (j, u)" by (cases x)
    obtain p where r: "0 \<le> j" "tree_at (dchar s) (dvd_node s) (FstStringStart s) j p u"
      using resolve_tree [OF tr(1), of "split_path path" j u] Some x by auto
    show ?thesis
    proof (cases u)
      case (FFile n ofs sz)
      then show ?thesis using walk Some x r by (simp add: DVDOpen_def open_file_def)
    next
      case (FDir n ts)
      then show ?thesis using walk Some x r by (simp add: DVDOpen_def)
    qed
  qed
qed

text \<open>The check looks at the length of a name only when it meets a dot.\<close>

lemma long_name_without_dot: "\<not> illegal_format ''longerthaneight''" "illegal_format ''longerthaneight.txt''"
  by (simp_all add: illegal_format_def NUL_def)

text \<open>A disc with a folder \<open>a\<close>, a file \<open>b\<close> in it and a file \<open>C\<close>; offsets are in units of four bytes.\<close>

definition demo_disc :: dvdfs_state where
  "demo_disc = \<lparr>irq_enabled = True,
     dblocks = \<lambda>_. \<lparr>cb_next = None, cb_prev = None, cb_command = 0, cb_state = 1, cb_offset = 0, cb_length = 0,
       cb_addr = 0, cb_transferSize = 0, cb_transferTotal = 0, cb_id = 0, cb_callback = 0\<rparr>,
     dnode = (\<lambda>_. \<lparr>fn_packed = 0, fn_a = 0, fn_b = 0\<rparr>)(
        0x1000 := \<lparr>fn_packed = 0x01000000, fn_a = 0, fn_b = 4\<rparr>, 0x100C := \<lparr>fn_packed = 0x01000001, fn_a = 0, fn_b = 3\<rparr>,
        0x1018 := \<lparr>fn_packed = 3, fn_a = 0x80, fn_b = 7\<rparr>, 0x1024 := \<lparr>fn_packed = 5, fn_a = 0x90, fn_b = 9\<rparr>),
     dchar = (\<lambda>_. NUL)(0x1031 := CHR ''a'', 0x1033 := CHR ''b'', 0x1035 := CHR ''C''),
     FstStart = 0x1000, FstStringStart = 0x1030, MaxEntryNum = 4, currentDirectory = 0, LongFileNameFlag = True,
     LayoutFormat = 2, boot_fstStart = 0x1000, finfos = \<lambda>_. \<lparr>df_offset = 0, df_size = 0, df_callback = 0\<rparr>\<rparr>"

definition disc_root :: fst_tree where
  "disc_root = FDir [] [FDir ''a'' [FFile ''b'' 0x80 7], FFile ''C'' 0x90 9]"

theorem DVDOpen_opens_files_witness:
  "\<exists>s'. DVDOpen ''/a/b'' (Cmd 0x100) demo_disc = Some (True, s') \<and> finfos s' (Cmd 0x100) = \<lparr>df_offset = 0x20, df_size = 7, df_callback = 0\<rparr>"
proof -
  have l: "to_lower (CHR ''a'') = CHR ''a''" "to_lower (CHR ''b'') = CHR ''b''" by code_simp+
  have "dvd_at demo_disc [(0, disc_root)]"
    by (simp add: dvd_at_def disc_root_def demo_disc_def dvd_node_def NODE_SIZE_def name_at_def node_name_def NodeIsFolder_def NUL_def u32_def)
  moreover have "resolve [(0, disc_root)] (split_path ''/a/b'') = Some (2, FFile ''b'' 0x80 7)"
    by (simp add: disc_root_def dir_entry_def same_name_def l)
  moreover have "LongFileNameFlag demo_disc" "LayoutFormat demo_disc = 2" by (simp_all add: demo_disc_def)
  ultimately show ?thesis
    using DVDOpen_opens_files [of demo_disc "[(0, disc_root)]" "''/a/b''" "Cmd 0x100"] by (auto simp: NUL_def drop_bit_eq_div)
qed

end
