(* ===== verification/DvdDrive.thy ===== *)
theory DvdDrive
  imports DvdFs Calendar
begin

text \<open>
  \<^verbatim>\<open>dvd/dvd.c\<close>: the state machine that runs the commands of the waiting queues on the drive.

  The record \<open>drive\<close> holds the static variables of the file.  What the code asks of the layer
  below (\<^verbatim>\<open>DVDLow...\<close>, the alarms, \<^verbatim>\<open>__DVDStoreErrorCode\<close>) is appended to \<open>issued\<close>,
  with the function to be called back; the interrupt that answers is a call of that function with
  an interrupt type.  The registers the code reads, the time and the contents the drive has written
  to memory are fields of the state.  A client's callback is the argument \<open>call\<close> of the
  functions that may reach one: it may change the drive state, as a real one does when it issues
  the next command.

  \<^verbatim>\<open>stateReady\<close>, \<^verbatim>\<open>stateCoverClosed\<close> and \<^verbatim>\<open>stateBusy\<close> call each other, always as their
  last act but for one place, where the caller still clears \<^verbatim>\<open>ResumeFromHere\<close>.  Each is a step
  that says which of them comes next, and \<open>run_tasks\<close> follows the steps.  A result None means that a NULL
  pointer is followed, an assertion fails, or the calls never end.
\<close>

section \<open>Constants\<close>

abbreviation COMMAND_NONE :: int where "COMMAND_NONE \<equiv> 0"
abbreviation COMMAND_READ :: int where "COMMAND_READ \<equiv> 1"
abbreviation COMMAND_SEEK :: int where "COMMAND_SEEK \<equiv> 2"
abbreviation COMMAND_CHANGE_DISK :: int where "COMMAND_CHANGE_DISK \<equiv> 3"
abbreviation COMMAND_BSREAD :: int where "COMMAND_BSREAD \<equiv> 4"
abbreviation COMMAND_READID :: int where "COMMAND_READID \<equiv> 5"
abbreviation COMMAND_INITSTREAM :: int where "COMMAND_INITSTREAM \<equiv> 6"
abbreviation COMMAND_CANCELSTREAM :: int where "COMMAND_CANCELSTREAM \<equiv> 7"
abbreviation COMMAND_STOP_STREAM_AT_END :: int where "COMMAND_STOP_STREAM_AT_END \<equiv> 8"
abbreviation COMMAND_REQUEST_AUDIO_ERROR :: int where "COMMAND_REQUEST_AUDIO_ERROR \<equiv> 9"
abbreviation COMMAND_REQUEST_PLAY_ADDR :: int where "COMMAND_REQUEST_PLAY_ADDR \<equiv> 10"
abbreviation COMMAND_REQUEST_START_ADDR :: int where "COMMAND_REQUEST_START_ADDR \<equiv> 11"
abbreviation COMMAND_REQUEST_LENGTH :: int where "COMMAND_REQUEST_LENGTH \<equiv> 12"
abbreviation COMMAND_AUDIO_BUFFER_CONFIG :: int where "COMMAND_AUDIO_BUFFER_CONFIG \<equiv> 13"
abbreviation COMMAND_INQUIRY :: int where "COMMAND_INQUIRY \<equiv> 14"
abbreviation COMMAND_BS_CHANGE_DISK :: int where "COMMAND_BS_CHANGE_DISK \<equiv> 15"
abbreviation COMMAND_STOP_MOTOR :: int where "COMMAND_STOP_MOTOR \<equiv> 16"
abbreviation COMMAND_RESET :: int where "COMMAND_RESET \<equiv> 32"
abbreviation COMMAND_READ_UNENCRYPTED :: int where "COMMAND_READ_UNENCRYPTED \<equiv> 33"
abbreviation COMMAND_OPEN_PARTITION :: int where "COMMAND_OPEN_PARTITION \<equiv> 34"
abbreviation COMMAND_CLOSE_PARTITION :: int where "COMMAND_CLOSE_PARTITION \<equiv> 35"
abbreviation COMMAND_GET_COVER_READY :: int where "COMMAND_GET_COVER_READY \<equiv> 36"
abbreviation COMMAND_SET_MAX_ROTATION :: int where "COMMAND_SET_MAX_ROTATION \<equiv> 37"
abbreviation COMMAND_GET_COVER_STATUS :: int where "COMMAND_GET_COVER_STATUS \<equiv> 38"
abbreviation COMMAND_REQUEST_ERROR :: int where "COMMAND_REQUEST_ERROR \<equiv> 39"

abbreviation DVD_STATE_FATAL :: int where "DVD_STATE_FATAL \<equiv> - 1"
abbreviation DVD_STATE_IDLE :: int where "DVD_STATE_IDLE \<equiv> 0"
abbreviation DVD_STATE_BUSY :: int where "DVD_STATE_BUSY \<equiv> 1"
abbreviation DVD_STATE_WAITING :: int where "DVD_STATE_WAITING \<equiv> 2"
abbreviation DVD_STATE_COVER_CLOSED :: int where "DVD_STATE_COVER_CLOSED \<equiv> 3"
abbreviation DVD_STATE_NO_DISK :: int where "DVD_STATE_NO_DISK \<equiv> 4"
abbreviation DVD_STATE_COVER_OPENED :: int where "DVD_STATE_COVER_OPENED \<equiv> 5"
abbreviation DVD_STATE_WRONG_DISK_ID :: int where "DVD_STATE_WRONG_DISK_ID \<equiv> 6"
abbreviation DVD_STATE_7 :: int where "DVD_STATE_7 \<equiv> 7"
abbreviation DVD_STATE_PAUSED :: int where "DVD_STATE_PAUSED \<equiv> 8"
abbreviation DVD_STATE_CANCELED :: int where "DVD_STATE_CANCELED \<equiv> 10"
abbreviation DVD_STATE_DISK_ERROR :: int where "DVD_STATE_DISK_ERROR \<equiv> 11"
abbreviation DVD_STATE_MOTOR_STOPPED :: int where "DVD_STATE_MOTOR_STOPPED \<equiv> 12"

abbreviation DVD_RESULT_COVER_CLOSED :: int where "DVD_RESULT_COVER_CLOSED \<equiv> - 4"
abbreviation DVD_RESULT_CANCELED :: int where "DVD_RESULT_CANCELED \<equiv> - 3"
abbreviation DVD_RESULT_FATAL_ERROR :: int where "DVD_RESULT_FATAL_ERROR \<equiv> - 1"
abbreviation DVD_RESULT_GOOD :: int where "DVD_RESULT_GOOD \<equiv> 0"

abbreviation REQUEST_STATE_OK :: int where "REQUEST_STATE_OK \<equiv> 0"
abbreviation REQUEST_STATE_COVER_OPENED :: int where "REQUEST_STATE_COVER_OPENED \<equiv> 16777216"
abbreviation REQUEST_STATE_DISK_CHANGED :: int where "REQUEST_STATE_DISK_CHANGED \<equiv> 33554432"
abbreviation REQUEST_STATE_NO_DISK :: int where "REQUEST_STATE_NO_DISK \<equiv> 50331648"

abbreviation REQUEST_ERROR_MOTOR_STOPPED :: int where "REQUEST_ERROR_MOTOR_STOPPED \<equiv> 0x020400"
abbreviation REQUEST_ERROR_COVER_OPENED :: int where "REQUEST_ERROR_COVER_OPENED \<equiv> 0x023A00"
abbreviation REQUEST_ERROR_READ_FAIL :: int where "REQUEST_ERROR_READ_FAIL \<equiv> 0x031100"
abbreviation REQUEST_ERROR_BAD_OPCODE :: int where "REQUEST_ERROR_BAD_OPCODE \<equiv> 0x052000"
abbreviation REQUEST_ERROR_053000h :: int where "REQUEST_ERROR_053000h \<equiv> 0x053000"
abbreviation REQUEST_ERROR_MEDIUM_CHANGED :: int where "REQUEST_ERROR_MEDIUM_CHANGED \<equiv> 0x062800"
abbreviation REQUEST_ERROR_MEDIUM_REMOVAL :: int where "REQUEST_ERROR_MEDIUM_REMOVAL \<equiv> 0x0B5A01"

abbreviation RESUME_POINT_NONE :: int where "RESUME_POINT_NONE \<equiv> 0"
abbreviation RESUME_POINT_WRONG_DISK_ID :: int where "RESUME_POINT_WRONG_DISK_ID \<equiv> 1"
abbreviation RESUME_POINT_DISK_ERROR :: int where "RESUME_POINT_DISK_ERROR \<equiv> 2"
abbreviation RESUME_POINT_NO_DISK :: int where "RESUME_POINT_NO_DISK \<equiv> 3"
abbreviation RESUME_POINT_COVER_OPENED :: int where "RESUME_POINT_COVER_OPENED \<equiv> 4"
abbreviation RESUME_POINT_OK :: int where "RESUME_POINT_OK \<equiv> 5"
abbreviation RESUME_POINT_DISK_CHANGED :: int where "RESUME_POINT_DISK_CHANGED \<equiv> 6"
abbreviation RESUME_POINT_7 :: int where "RESUME_POINT_7 \<equiv> 7"

abbreviation DVD_INTTYPE_TC :: int where "DVD_INTTYPE_TC \<equiv> 1"
abbreviation DVD_INTTYPE_DE :: int where "DVD_INTTYPE_DE \<equiv> 2"
abbreviation DVD_INTTYPE_CVR :: int where "DVD_INTTYPE_CVR \<equiv> 4"
abbreviation DVD_INTTYPE_BR :: int where "DVD_INTTYPE_BR \<equiv> 8"
abbreviation DVD_INTTYPE_TIME :: int where "DVD_INTTYPE_TIME \<equiv> 16"
abbreviation DVD_INTTYPE_SERR :: int where "DVD_INTTYPE_SERR \<equiv> 32"

abbreviation MOTOR_STATE_WORKING :: int where "MOTOR_STATE_WORKING \<equiv> 0"
abbreviation MOTOR_STATE_PENDING_STOP :: int where "MOTOR_STATE_PENDING_STOP \<equiv> 1"
abbreviation MOTOR_STATE_STOPPED :: int where "MOTOR_STATE_STOPPED \<equiv> 2"

abbreviation NAND_ERROR_GENERIC :: int where "NAND_ERROR_GENERIC \<equiv> 0x01234567"
abbreviation NAND_ERROR_TIMEOUT :: int where "NAND_ERROR_TIMEOUT \<equiv> 0x01234568"
abbreviation NAND_ERROR_SECURITY :: int where "NAND_ERROR_SECURITY \<equiv> 0x01234569"

abbreviation DVD_DICVR_CVR :: int where "DVD_DICVR_CVR \<equiv> 1"
abbreviation DVD_DICVR_CVRINT :: int where "DVD_DICVR_CVRINT \<equiv> 4"

abbreviation DVD_ERROR_CMD_MAX :: int where "DVD_ERROR_CMD_MAX \<equiv> 5"
abbreviation MAX_TRANSFER_SIZE :: int where "MAX_TRANSFER_SIZE \<equiv> 0x80000"
abbreviation DISK_TOC_OFFSET :: int where "DISK_TOC_OFFSET \<equiv> 0x40000"
abbreviation DISK_TOC_SIZE :: int where "DISK_TOC_SIZE \<equiv> 32"
abbreviation DISK_PART_OFFSET :: int where "DISK_PART_OFFSET \<equiv> DISK_TOC_OFFSET + DISK_TOC_SIZE"
abbreviation DISK_PART_SIZE :: int where "DISK_PART_SIZE \<equiv> 32"

section \<open>State\<close>

datatype low_callback =
  CbStateReadingFST | CbStateError | CbStateGettingError | CbUnrecoveredError | CbUnrecoveredErrorRetry
| CbStateGoToRetry | CbStateReadingTOC | CbStateReadingPartitionInfo | CbStateOpenPartition
| CbStateOpenPartition2 | CbStateCheckID1 | CbStateCheckID2 | CbStateReset | CbStateDownRotation
| CbStateCoverClosed | CbPrepareCoverRegister | CbStateBusy | CbBS2DVDLow

datatype error_callback = CbStoreErrorCode1 | CbStoreErrorCode2 | CbStoreErrorCode3

datatype low =
  LowRead int int int low_callback
| LowUnencryptedRead int int int low_callback
| LowReadDiskID int low_callback
| LowOpenPartition int int low_callback
| LowClosePartition low_callback
| LowStopMotor bool bool low_callback
| LowInquiry int low_callback
| LowRequestError low_callback
| LowSetSpinupFlag bool
| LowReset low_callback
| LowAudioBufferConfig int int low_callback
| LowSetMaximumRotation int low_callback
| LowSeek int low_callback
| LowPrepareCoverRegister low_callback
| LowMaskCoverInterrupt
| LowClearCoverInterrupt
| StoreErrorCode int error_callback
| SetFatalAlarm
| SetResetAlarm
| SetCoverAlarm int
| CancelCoverAlarm
| OptionalCommand dptr
| InvalidateRange int int
| LowInit
| LowUnmaskStatusInterrupts
| InitThreadQueue
| WakeupThreadQueue
| SleepThreadQueue

datatype last_state = StBusy | StReadingFST | StDownRotation | StCoverClosed_CMD

record DVDErrorEntry =
  ei_command :: int
  ei_param1 :: int
  ei_param2 :: int
  ei_intType :: int
  ei_tick :: int

record DVDDiskID =
  id_game :: string
  id_company :: string
  id_disk :: int
  id_version :: int
  id_rest :: "int list"

record DVDPartInfo =
  pi_offset :: int
  pi_type :: int

record drive = dvdfs_state +
  CommandInfoCounter :: int
  ErrorEntries :: "int \<Rightarrow> DVDErrorEntry"
  PauseFlag :: bool
  PausingFlag :: bool
  FatalErrorFlag :: bool
  Canceling :: bool
  ResumeFromHere :: int
  NumInternalRetry :: int
  Breaking :: bool
  WaitingForCoverOpen :: bool
  WaitingForCoverClose :: bool
  MotorStopped :: bool
  ChangedDisc :: bool
  PreparingCover :: bool
  BootGameInfo :: "DVDPartInfo option"
  LastResetEnd :: int
  MotorState :: int
  ResetRequired :: bool
  LastError :: int
  CancelLastError :: int
  CancelCallback :: int
  CurrCommand :: int
  executing :: "dptr option"
  LastState :: "last_state option"
  autoInvalidation :: bool
  BB2_fstOffset :: int
  BB2_fstSize :: int
  CurrDiskID :: DVDDiskID
  IDShouldBe :: DVDDiskID
  boot_fstSize :: int
  diskids :: "int \<Rightarrow> DVDDiskID"
  toc_numPartition :: int
  part_infos :: "int \<Rightarrow> DVDPartInfo"
  imm_reg :: int
  cover_reg :: int
  device_code :: int
  OSInIPL :: bool
  auto_fatal :: bool
  DVDInitialized :: bool
  FirstTimeInBootrom :: bool
  Prepared :: bool
  BS2DVDLowIntType :: int
  boot_magic :: int
  bus_clock :: int
  err_game :: string
  err_disk :: int
  err_version :: int
  sys_time :: int
  tick_now :: int
  issued :: "low list"

type_synonym call = "int \<Rightarrow> int \<Rightarrow> dptr option \<Rightarrow> drive \<Rightarrow> drive"

text \<open>Addresses of the static buffers, which are only passed on: any would do.\<close>

abbreviation BB2_ADDR :: int where "BB2_ADDR \<equiv> 0x80400000"
abbreviation CurrDiskID_ADDR :: int where "CurrDiskID_ADDR \<equiv> 0x80400020"
abbreviation GameTocBuffer :: int where "GameTocBuffer \<equiv> 0x80400040"
abbreviation PartInfoBuffer :: int where "PartInfoBuffer \<equiv> 0x80400060"
abbreviation TmdBuffer :: int where "TmdBuffer \<equiv> 0x80400080"

definition issue :: "low \<Rightarrow> drive \<Rightarrow> drive" where
  "issue r s = s\<lparr>issued := issued s @ [r]\<rparr>"

definition upd_block :: "dptr \<Rightarrow> (DVDCommandBlock \<Rightarrow> DVDCommandBlock) \<Rightarrow> drive \<Rightarrow> drive" where
  "upd_block b f s = s\<lparr>dblocks := (dblocks s)(b := f (dblocks s b))\<rparr>"

definition set_state :: "dptr \<Rightarrow> int \<Rightarrow> drive \<Rightarrow> drive" where
  "set_state b st = upd_block b (cb_state_update (\<lambda>_. st))"

text \<open>\<^verbatim>\<open>executing->state = st\<close>.\<close>

definition set_exec_state :: "int \<Rightarrow> drive \<Rightarrow> drive option" where
  "set_exec_state st s = map_option (\<lambda>b. set_state b st s) (executing s)"

text \<open>\<^verbatim>\<open>if (cb != NULL) cb(result, block)\<close>.\<close>

definition callback :: "call \<Rightarrow> int \<Rightarrow> int \<Rightarrow> dptr option \<Rightarrow> drive \<Rightarrow> drive" where
  "callback call cb result b s = (if cb \<noteq> 0 then call cb result b s else s)"

text \<open>The sequence that ends a command everywhere: take it out of \<^verbatim>\<open>executing\<close>, set its state and
  call back.\<close>

definition finish :: "call \<Rightarrow> int \<Rightarrow> int \<Rightarrow> drive \<Rightarrow> (dptr \<times> drive) option" where
  "finish call st result s = do {
     b \<leftarrow> executing s;
     let s = set_state b st (s\<lparr>executing := Some Dummy\<rparr>);
     Some (b, callback call (cb_callback (dblocks s b)) result (Some b) s)
   }"

definition DVD_LOW_OFFSET :: "int \<Rightarrow> int" where "DVD_LOW_OFFSET x = x div 4"
definition DVD_LOW_SPEED :: "int \<Rightarrow> int" where "DVD_LOW_SPEED x = push_bit 16 (and x 3)"

definition StampCommand :: "int \<Rightarrow> int \<Rightarrow> int \<Rightarrow> drive \<Rightarrow> drive" where
  "StampCommand command param1 param2 s =
     (let n = (if CommandInfoCounter s \<ge> DVD_ERROR_CMD_MAX then 0 else CommandInfoCounter s)
      in s\<lparr>ErrorEntries := (ErrorEntries s)(n := (ErrorEntries s n)\<lparr>ei_command := command, ei_param1 := param1,
             ei_param2 := param2, ei_tick := tick_now s\<rparr>), CommandInfoCounter := n + 1\<rparr>)"

definition StampIntType :: "int \<Rightarrow> drive \<Rightarrow> drive" where
  "StampIntType intType s =
     (let n = (if CommandInfoCounter s \<le> 0 then DVD_ERROR_CMD_MAX - 1 else CommandInfoCounter s - 1)
      in s\<lparr>ErrorEntries := (ErrorEntries s)(n := (ErrorEntries s n)\<lparr>ei_intType := intType\<rparr>)\<rparr>)"

section \<open>Errors\<close>

definition stateError :: "int \<Rightarrow> drive \<Rightarrow> drive" where
  "stateError error = issue (StoreErrorCode error CbStoreErrorCode1)"

definition stateTimeout :: "drive \<Rightarrow> drive" where
  "stateTimeout = issue (StoreErrorCode NAND_ERROR_TIMEOUT CbStoreErrorCode2)"

definition stateSecurityError :: "drive \<Rightarrow> drive" where
  "stateSecurityError = issue (StoreErrorCode NAND_ERROR_SECURITY CbStoreErrorCode2)"

definition stateGettingError :: "drive \<Rightarrow> drive" where
  "stateGettingError s = issue (LowRequestError CbStateGettingError) (StampCommand COMMAND_REQUEST_ERROR 0 0 s)"

definition stateGoToRetry :: "drive \<Rightarrow> drive" where
  "stateGoToRetry s = issue (LowStopMotor False False CbStateGoToRetry) (StampCommand COMMAND_STOP_MOTOR 0 0 s)"

definition cbForStoreErrorCode1 :: "drive \<Rightarrow> drive" where
  "cbForStoreErrorCode1 = issue (LowStopMotor False False CbStateError)"

definition cbForStoreErrorCode2 :: "drive \<Rightarrow> drive" where
  "cbForStoreErrorCode2 s =
     (let s = issue (LowSetSpinupFlag False) s;
          s = issue (LowReset CbStateError) s
      in s\<lparr>ResetRequired := False, ResumeFromHere := RESUME_POINT_NONE\<rparr>)"

definition cbForStoreErrorCode3 :: "drive \<Rightarrow> drive" where
  "cbForStoreErrorCode3 = stateGoToRetry"

text \<open>The drive's error register: the low 24 bits are the error, the high byte the drive's state.\<close>

datatype error_type = ERROR_TYPE_OK | ERROR_TYPE_ERROR | ERROR_TYPE_FATAL | ERROR_TYPE_UNKNOWN

definition low24 :: "int \<Rightarrow> int" where "low24 x = x mod 2 ^ 24"
definition high8 :: "int \<Rightarrow> int" where "high8 x = u32 x - low24 x"

definition CategorizeError :: "int \<Rightarrow> drive \<Rightarrow> (error_type \<times> drive) option" where
  "CategorizeError diimmval s =
     (if diimmval = REQUEST_ERROR_MOTOR_STOPPED then Some (ERROR_TYPE_ERROR, s\<lparr>LastError := diimmval\<rparr>)
      else
        let diimmval = low24 diimmval
        in if diimmval \<in> {REQUEST_ERROR_MEDIUM_CHANGED, REQUEST_ERROR_COVER_OPENED, REQUEST_ERROR_053000h, REQUEST_ERROR_MEDIUM_REMOVAL}
           then Some (ERROR_TYPE_OK, s)
           else do {
             unsupported \<leftarrow> (if diimmval = REQUEST_ERROR_BAD_OPCODE
               then map_option (\<lambda>b. cb_command (dblocks s b) = COMMAND_SET_MAX_ROTATION \<or> LastState s = Some StDownRotation) (executing s)
               else Some False);
             if unsupported then Some (ERROR_TYPE_OK, s)
             else
               let s = s\<lparr>NumInternalRetry := s32 (NumInternalRetry s + 1)\<rparr>
               in if NumInternalRetry s = 2
                  then Some (if diimmval = LastError s then ERROR_TYPE_ERROR else ERROR_TYPE_FATAL, s\<lparr>LastError := diimmval\<rparr>)
                  else
                    let s = s\<lparr>LastError := diimmval\<rparr>
                    in if diimmval = REQUEST_ERROR_READ_FAIL then Some (ERROR_TYPE_FATAL, s)
                       else map_option (\<lambda>b. (if cb_command (dblocks s b) = COMMAND_READID then ERROR_TYPE_FATAL else ERROR_TYPE_UNKNOWN, s)) (executing s)
           })"

definition stateMotorStopped :: "drive \<Rightarrow> drive" where
  "stateMotorStopped s =
     (let s = s\<lparr>MotorState := MOTOR_STATE_PENDING_STOP\<rparr>
      in if WaitingForCoverOpen s \<or> WaitingForCoverClose s then s
         else issue (SetCoverAlarm (tick_now s)) (s\<lparr>WaitingForCoverOpen := True\<rparr>))"

section \<open>Running commands\<close>

datatype task = Ready | CoverClosed | Busy dptr | ClearResume

text \<open>The commands that a closed cover ends.\<close>

definition ends_on_cover :: "int \<Rightarrow> bool" where
  "ends_on_cover c \<longleftrightarrow> c \<in> {COMMAND_BSREAD, COMMAND_READID, COMMAND_AUDIO_BUFFER_CONFIG, COMMAND_BS_CHANGE_DISK,
     COMMAND_READ_UNENCRYPTED, COMMAND_OPEN_PARTITION, COMMAND_SET_MAX_ROTATION}"

definition reset_drive :: "drive \<Rightarrow> drive" where
  "reset_drive s = issue (LowReset CbStateReset) (issue (LowSetSpinupFlag True) (s\<lparr>MotorState := MOTOR_STATE_WORKING\<rparr>))"

definition stateCoverClosed_step :: "call \<Rightarrow> drive \<Rightarrow> (drive \<times> task list) option" where
  "stateCoverClosed_step call s =
     (let s = s\<lparr>MotorState := MOTOR_STATE_PENDING_STOP\<rparr>; c = CurrCommand s
      in if ends_on_cover c then do {
           let s = DVDClearWaitingQueue s;
           b \<leftarrow> executing s;
           let s = s\<lparr>executing := Some Dummy\<rparr>;
           Some (callback call (cb_callback (dblocks s b)) DVD_RESULT_COVER_CLOSED (Some b) s, [Ready])
         }
         else if c = COMMAND_RESET then do {
           let s = s\<lparr>MotorState := MOTOR_STATE_WORKING\<rparr>;
           b \<leftarrow> executing s;
           Some (set_state b DVD_STATE_BUSY s, [Busy b])
         }
         else if c \<in> {COMMAND_CLOSE_PARTITION, COMMAND_GET_COVER_READY, COMMAND_GET_COVER_STATUS} then do {
           b \<leftarrow> executing s;
           Some (set_state b DVD_STATE_BUSY s, [Busy b])
         }
         else if c \<in> {COMMAND_READ, COMMAND_SEEK} \<and> OSInIPL s then Some (s, [])
         else Some (reset_drive s, []))"

text \<open>The switch on the point at which an earlier command stopped.\<close>

definition resume_step :: "drive \<Rightarrow> (drive \<times> task list) option" where
  "resume_step s =
     (let r = ResumeFromHere s
      in if r = RESUME_POINT_DISK_ERROR
         then map_option (\<lambda>s. (stateMotorStopped s, [ClearResume])) (set_exec_state DVD_STATE_DISK_ERROR s)
         else if r = RESUME_POINT_NO_DISK
         then map_option (\<lambda>s. (stateMotorStopped s, [ClearResume])) (set_exec_state DVD_STATE_NO_DISK s)
         else if r = RESUME_POINT_COVER_OPENED
         then map_option (\<lambda>s. (stateMotorStopped s, [ClearResume])) (set_exec_state DVD_STATE_COVER_OPENED s)
         else if r \<in> {RESUME_POINT_WRONG_DISK_ID, RESUME_POINT_DISK_CHANGED, RESUME_POINT_7}
         then map_option (\<lambda>s. (s, [CoverClosed, ClearResume])) (set_exec_state DVD_STATE_COVER_CLOSED s)
         else if r = RESUME_POINT_OK then Some (stateError (CancelLastError s) s, [ClearResume])
         else Some (s, [ClearResume]))"

definition motor_step :: "drive \<Rightarrow> (drive \<times> task list) option" where
  "motor_step s =
     (if MotorState s = MOTOR_STATE_STOPPED
      then if MotorStopped s
           then map_option (\<lambda>s. (s, [])) (set_exec_state DVD_STATE_MOTOR_STOPPED s)
           else map_option (\<lambda>s. (s, [CoverClosed])) (set_exec_state DVD_STATE_COVER_CLOSED s)
      else if MotorState s = MOTOR_STATE_WORKING
      then do { b \<leftarrow> executing s; Some (set_state b DVD_STATE_BUSY s, [Busy b]) }
      else Some (s, [CoverClosed]))"

definition stateReady_step :: "call \<Rightarrow> drive \<Rightarrow> (drive \<times> task list) option" where
  "stateReady_step call s =
     (let (some_waiting, s) = DVDCheckWaitingQueue s
      in if \<not> some_waiting then Some (s\<lparr>executing := None\<rparr>, [])
         else if PauseFlag s then Some (s\<lparr>PausingFlag := True, executing := None\<rparr>, [])
         else do {
           (b, s) \<leftarrow> DVDPopWaitingQueue s;
           let s = s\<lparr>executing := b\<rparr>;
           if FatalErrorFlag s
           then map_option (\<lambda>(_, s). (s, [Ready])) (finish call DVD_STATE_FATAL DVD_RESULT_FATAL_ERROR s)
           else do {
             b \<leftarrow> executing s;
             let s = s\<lparr>CurrCommand := cb_command (dblocks s b)\<rparr>;
             let s = (if CurrCommand s \<in> {COMMAND_RESET, COMMAND_INQUIRY, COMMAND_CLOSE_PARTITION}
                      then s\<lparr>ResumeFromHere := RESUME_POINT_NONE\<rparr> else s);
             if ResumeFromHere s \<noteq> RESUME_POINT_NONE then resume_step s else motor_step s
           }
         })"

text \<open>The next piece of a read: at most \<^verbatim>\<open>MAX_TRANSFER_SIZE\<close> bytes.\<close>

definition read_chunk :: "(int \<Rightarrow> int \<Rightarrow> int \<Rightarrow> low_callback \<Rightarrow> low) \<Rightarrow> call \<Rightarrow> dptr \<Rightarrow> drive \<Rightarrow> (drive \<times> task list) option" where
  "read_chunk request call b s =
     (if cb_length (dblocks s b) = 0
      then map_option (\<lambda>(_, s). (s, [Ready])) (finish call DVD_STATE_IDLE DVD_RESULT_GOOD s)
      else
        let s = issue LowClearCoverInterrupt s;
            blk = dblocks s b;
            rest = u32 (cb_length blk - cb_transferTotal blk);
            sz = (if rest > MAX_TRANSFER_SIZE then MAX_TRANSFER_SIZE else rest);
            s = upd_block b (cb_transferSize_update (\<lambda>_. sz)) s;
            ofs = u32 (cb_offset blk + DVD_LOW_OFFSET (cb_transferTotal blk));
            s = StampCommand (cb_command blk) ofs sz s
        in Some (issue (request (u32 (cb_addr blk + cb_transferTotal blk)) sz ofs CbStateBusy) s, []))"

text \<open>The switch of \<^verbatim>\<open>stateBusy\<close>.\<close>

definition busy_switch :: "call \<Rightarrow> dptr \<Rightarrow> drive \<Rightarrow> (drive \<times> task list) option" where
  "busy_switch call b s =
     (let blk = dblocks s b; c = cb_command blk
      in if c = COMMAND_READID then
           Some (issue (LowReadDiskID (cb_addr blk) CbStateBusy) (upd_block b (cb_transferSize_update (\<lambda>_. 0x20)) (issue LowClearCoverInterrupt s)), [])
         else if c \<in> {COMMAND_READ, COMMAND_BSREAD} then read_chunk LowRead call b s
         else if c = COMMAND_SEEK then Some (issue (LowSeek (cb_offset blk) CbStateBusy) (issue LowClearCoverInterrupt s), [])
         else if c \<in> {COMMAND_CHANGE_DISK, COMMAND_BS_CHANGE_DISK} then Some (issue (LowStopMotor False False CbStateBusy) s, [])
         else if c = COMMAND_AUDIO_BUFFER_CONFIG then
           Some (issue (LowAudioBufferConfig (cb_offset blk) (cb_length blk) CbStateBusy) (issue LowClearCoverInterrupt s), [])
         else if c = COMMAND_INQUIRY then
           Some (issue (LowInquiry (cb_addr blk) CbStateBusy) (upd_block b (cb_transferSize_update (\<lambda>_. 0x20)) (issue LowClearCoverInterrupt s)), [])
         else if c = COMMAND_STOP_MOTOR then Some (issue (LowStopMotor False False CbStateBusy) (issue LowClearCoverInterrupt s), [])
         else if c = COMMAND_RESET then Some (issue (LowReset CbStateBusy) (issue (LowSetSpinupFlag True) s), [])
         else if c = COMMAND_READ_UNENCRYPTED then read_chunk LowUnencryptedRead call b s
         else if c = COMMAND_OPEN_PARTITION then
           Some (issue (LowOpenPartition (cb_offset blk) (cb_addr blk) CbStateBusy) (issue LowClearCoverInterrupt s), [])
         else if c = COMMAND_CLOSE_PARTITION then Some (issue (LowClosePartition CbStateBusy) (issue LowClearCoverInterrupt s), [])
         else if c \<in> {COMMAND_GET_COVER_STATUS, COMMAND_GET_COVER_READY} then Some (issue (LowPrepareCoverRegister CbStateBusy) s, [])
         else if c = COMMAND_SET_MAX_ROTATION then
           Some (issue (LowSetMaximumRotation (DVD_LOW_SPEED 2) CbStateBusy) (issue LowClearCoverInterrupt s), [])
         else Some (issue (OptionalCommand b) s, []))"

definition stateBusy_step :: "call \<Rightarrow> dptr \<Rightarrow> drive \<Rightarrow> (drive \<times> task list) option" where
  "stateBusy_step call b s =
     (let s = s\<lparr>LastState := Some StBusy\<rparr>;
          blk = dblocks s b;
          s = (if cb_command blk \<in> {COMMAND_SEEK, COMMAND_CHANGE_DISK, COMMAND_READID, COMMAND_AUDIO_BUFFER_CONFIG, COMMAND_INQUIRY,
                 COMMAND_BS_CHANGE_DISK, COMMAND_STOP_MOTOR, COMMAND_OPEN_PARTITION, COMMAND_SET_MAX_ROTATION}
               then StampCommand (cb_command blk) (cb_offset blk) (cb_length blk) s else s)
      in busy_switch call b s)"

fun task_step :: "call \<Rightarrow> task \<Rightarrow> drive \<Rightarrow> (drive \<times> task list) option" where
  "task_step call Ready s = stateReady_step call s"
| "task_step call CoverClosed s = stateCoverClosed_step call s"
| "task_step call (Busy b) s = stateBusy_step call b s"
| "task_step call ClearResume s = Some (s\<lparr>ResumeFromHere := RESUME_POINT_NONE\<rparr>, [])"

partial_function (option) run_tasks :: "call \<Rightarrow> task list \<Rightarrow> drive \<Rightarrow> drive option" where
  "run_tasks call ts s = (case ts of [] \<Rightarrow> Some s
     | t # ts \<Rightarrow> do { (s, new) \<leftarrow> task_step call t s; run_tasks call (new @ ts) s })"

declare run_tasks.simps [code]

definition stateReady :: "call \<Rightarrow> drive \<Rightarrow> drive option" where
  "stateReady call s = run_tasks call [Ready] s"

definition stateCoverClosed :: "call \<Rightarrow> drive \<Rightarrow> drive option" where
  "stateCoverClosed call s = run_tasks call [CoverClosed] s"

definition stateBusy :: "call \<Rightarrow> dptr \<Rightarrow> drive \<Rightarrow> drive option" where
  "stateBusy call b s = run_tasks call [Busy b] s"

text \<open>Ending a command and going on with the next.\<close>

definition finish_ready :: "call \<Rightarrow> int \<Rightarrow> int \<Rightarrow> drive \<Rightarrow> drive option" where
  "finish_ready call st result s = do { (b, s) \<leftarrow> finish call st result s; stateReady call s }"

definition finish_canceled :: "call \<Rightarrow> drive \<Rightarrow> drive option" where
  "finish_canceled call s = do {
     (b, s) \<leftarrow> finish call DVD_STATE_CANCELED DVD_RESULT_CANCELED s;
     let s = callback call (CancelCallback s) DVD_RESULT_GOOD (Some b) s;
     stateReady call s
   }"

definition CheckCancel :: "call \<Rightarrow> int \<Rightarrow> drive \<Rightarrow> (bool \<times> drive) option" where
  "CheckCancel call resume s =
     (if Canceling s
      then map_option (\<lambda>s. (True, s)) (finish_canceled call (s\<lparr>ResumeFromHere := resume, Canceling := False\<rparr>))
      else Some (False, s))"

text \<open>\<^verbatim>\<open>if (!CheckCancel(resume)) { executing->state = st; stateMotorStopped(executing); }\<close>\<close>

definition cancel_or_stop :: "call \<Rightarrow> int \<Rightarrow> int \<Rightarrow> drive \<Rightarrow> drive option" where
  "cancel_or_stop call resume st s = do {
     (canceled, s) \<leftarrow> CheckCancel call resume s;
     if canceled then Some s else map_option stateMotorStopped (set_exec_state st s)
   }"

section \<open>The disc is looked at again\<close>

text \<open>\<^verbatim>\<open>strncmp(a, b, n) == 0\<close> on character arrays.\<close>

fun strncmp_eq :: "nat \<Rightarrow> string \<Rightarrow> string \<Rightarrow> bool" where
  "strncmp_eq 0 a b = True"
| "strncmp_eq (Suc n) a b =
     (let c = (case a of [] \<Rightarrow> NUL | c # _ \<Rightarrow> c); d = (case b of [] \<Rightarrow> NUL | d # _ \<Rightarrow> d)
      in c = d \<and> (c = NUL \<or> strncmp_eq n (tl a) (tl b)))"

definition DVDCompareDiskID :: "DVDDiskID \<Rightarrow> DVDDiskID \<Rightarrow> bool" where
  "DVDCompareDiskID id1 id2 =
     (if chr (id_game id1) 0 \<noteq> NUL \<and> chr (id_game id2) 0 \<noteq> NUL \<and> \<not> strncmp_eq 4 (id_game id1) (id_game id2) then False
      else if chr (id_company id1) 0 = NUL \<or> chr (id_company id2) 0 = NUL \<or> \<not> strncmp_eq 2 (id_company id1) (id_company id2) then False
      else if id_disk id1 \<noteq> 0xFF \<and> id_disk id2 \<noteq> 0xFF \<and> id_disk id1 \<noteq> id_disk id2 then False
      else if id_version id1 \<noteq> 0xFF \<and> id_version id2 \<noteq> 0xFF \<and> id_version id1 \<noteq> id_version id2 then False
      else True)"

definition stateReadingFST :: "drive \<Rightarrow> drive option" where
  "stateReadingFST s =
     (let s = s\<lparr>LastState := Some StReadingFST\<rparr>
      in if \<not> boot_fstSize s \<ge> BB2_fstSize s then None
         else
           let s = issue LowClearCoverInterrupt s;
               sz = ROUND_UP (u32 (push_bit (nat (and (not (LayoutFormat s)) 2)) (BB2_fstSize s))) 32;
               ofs = drop_bit (nat (LayoutFormat s)) (BB2_fstOffset s);
               s = StampCommand COMMAND_READ ofs sz s
           in Some (issue (LowRead (boot_fstStart s) sz ofs CbStateReadingFST) s))"

definition stateReadingTOC :: "drive \<Rightarrow> drive" where
  "stateReadingTOC s =
     (let s = issue LowClearCoverInterrupt s;
          s = StampCommand COMMAND_READ_UNENCRYPTED (DVD_LOW_OFFSET DISK_TOC_OFFSET) DISK_TOC_SIZE s
      in issue (LowUnencryptedRead GameTocBuffer DISK_TOC_SIZE (DVD_LOW_OFFSET DISK_TOC_OFFSET) CbStateReadingTOC) s)"

definition stateReadingPartitionInfo :: "drive \<Rightarrow> drive" where
  "stateReadingPartitionInfo s =
     (let s = issue LowClearCoverInterrupt s;
          s = StampCommand COMMAND_READ_UNENCRYPTED (DVD_LOW_OFFSET DISK_PART_OFFSET) DISK_PART_SIZE s
      in issue (LowUnencryptedRead PartInfoBuffer DISK_PART_SIZE (DVD_LOW_OFFSET DISK_PART_OFFSET) CbStateReadingPartitionInfo) s)"

definition stateOpenPartition :: "drive \<Rightarrow> drive option" where
  "stateOpenPartition s = do {
     let s = issue LowClearCoverInterrupt s;
     p \<leftarrow> BootGameInfo s;
     let s = StampCommand COMMAND_OPEN_PARTITION (pi_offset p) 0 s;
     Some (issue (LowOpenPartition (pi_offset p) TmdBuffer CbStateOpenPartition) s)
   }"

definition stateOpenPartition2 :: "drive \<Rightarrow> drive option" where
  "stateOpenPartition2 s = do {
     let s = issue LowClearCoverInterrupt s;
     p \<leftarrow> BootGameInfo s;
     let s = StampCommand COMMAND_OPEN_PARTITION (pi_offset p) 0 s;
     Some (issue (LowOpenPartition (pi_offset p) TmdBuffer CbStateOpenPartition2) s)
   }"

text \<open>The block \<^verbatim>\<open>bb2\<close> is 32 bytes at offset \<open>0x420\<close> of the disc header.\<close>

definition stateCheckID2 :: "drive \<Rightarrow> drive" where
  "stateCheckID2 s =
     (let s = issue LowClearCoverInterrupt s;
          s = StampCommand COMMAND_READ (DVD_LOW_OFFSET 0x420) 0x20 s
      in issue (LowRead BB2_ADDR 0x20 (DVD_LOW_OFFSET 0x420) CbStateCheckID2) s)"

definition stop_for_wrong_disc :: "drive \<Rightarrow> drive" where
  "stop_for_wrong_disc s = issue (LowStopMotor False False CbStateCheckID1) (StampCommand COMMAND_STOP_MOTOR 0 0 s)"

definition stateCheckID :: "drive \<Rightarrow> drive option" where
  "stateCheckID s =
     (if CurrCommand s = COMMAND_CHANGE_DISK
      then do {
        let s = s\<lparr>ChangedDisc := False\<rparr>;
        b \<leftarrow> executing s;
        if DVDCompareDiskID (CurrDiskID s) (diskids s (cb_id (dblocks s b)))
        then
          let s = s\<lparr>IDShouldBe := CurrDiskID s\<rparr>;
              s = set_state b DVD_STATE_BUSY s;
              s = issue (InvalidateRange BB2_ADDR 0x20) s;
              s = s\<lparr>NumInternalRetry := 0\<rparr>
          in Some (stateReadingTOC s)
        else Some (stop_for_wrong_disc s)
      }
      else if CurrDiskID s \<noteq> IDShouldBe s then Some (stop_for_wrong_disc s)
      else Some (stateReadingTOC (s\<lparr>NumInternalRetry := 0\<rparr>)))"

definition stateDownRotation :: "drive \<Rightarrow> drive" where
  "stateDownRotation s =
     (let s = issue LowClearCoverInterrupt s;
          s = StampCommand COMMAND_SET_MAX_ROTATION 0 0 s
      in issue (LowSetMaximumRotation (DVD_LOW_SPEED 2) CbStateDownRotation) s)"

definition stateCoverClosed_CMD :: "drive \<Rightarrow> drive" where
  "stateCoverClosed_CMD s =
     (let s = issue LowClearCoverInterrupt s;
          s = StampCommand COMMAND_READID (DVD_LOW_OFFSET 0) 0x20 s
      in issue (LowReadDiskID CurrDiskID_ADDR CbStateCoverClosed) s)"

definition read_disk_id :: "drive \<Rightarrow> drive" where
  "read_disk_id s = stateCoverClosed_CMD ((issue (InvalidateRange CurrDiskID_ADDR 0x20) s)\<lparr>LastState := Some StCoverClosed_CMD\<rparr>)"

text \<open>The device code \<open>0x0003\<close> with the bit that says it was read.\<close>

definition ResetAlarmHandler :: "drive \<Rightarrow> drive" where
  "ResetAlarmHandler s =
     (if device_code s = 0x8003 then stateDownRotation (s\<lparr>LastState := Some StDownRotation\<rparr>) else read_disk_id s)"

text \<open>\<^verbatim>\<open>LastState(executing)\<close>.\<close>

definition call_LastState :: "call \<Rightarrow> drive \<Rightarrow> drive option" where
  "call_LastState call s = (case LastState s of
       None \<Rightarrow> None
     | Some StBusy \<Rightarrow> do { b \<leftarrow> executing s; stateBusy call b s }
     | Some StReadingFST \<Rightarrow> stateReadingFST s
     | Some StDownRotation \<Rightarrow> Some (stateDownRotation s)
     | Some StCoverClosed_CMD \<Rightarrow> Some (stateCoverClosed_CMD s))"


section \<open>Interrupt handlers\<close>

text \<open>Every handler starts with the time-out and the security error; \<open>k\<close> is the rest.\<close>

definition on_interrupt :: "int \<Rightarrow> (drive \<Rightarrow> drive option) \<Rightarrow> drive \<Rightarrow> drive option" where
  "on_interrupt intType k s =
     (if intType = DVD_INTTYPE_TIME then Some (stateTimeout s)
      else if intType = DVD_INTTYPE_SERR then Some (stateSecurityError s)
      else k s)"

abbreviation int_has :: "int \<Rightarrow> int \<Rightarrow> bool" where "int_has intType f \<equiv> and intType f \<noteq> 0"

definition cbForStateReadingFST :: "call \<Rightarrow> int \<Rightarrow> drive \<Rightarrow> drive option" where
  "cbForStateReadingFST call intType s = on_interrupt intType (\<lambda>s.
     if int_has intType DVD_INTTYPE_TC
     then finish_ready call DVD_STATE_IDLE DVD_RESULT_GOOD (DVDFSInit (s\<lparr>NumInternalRetry := 0\<rparr>))
     else Some (stateGettingError s)) (StampIntType intType s)"

definition cbForStateError :: "call \<Rightarrow> int \<Rightarrow> drive \<Rightarrow> drive option" where
  "cbForStateError call intType s =
     (if auto_fatal s then Some (issue SetFatalAlarm s)
      else do {
        s \<leftarrow> set_exec_state DVD_STATE_FATAL s;
        on_interrupt intType (\<lambda>s. do {
          let s = s\<lparr>FatalErrorFlag := True\<rparr>;
          b \<leftarrow> executing s;
          let s = s\<lparr>executing := Some Dummy\<rparr>;
          let s = callback call (cb_callback (dblocks s b)) DVD_RESULT_FATAL_ERROR (Some b) s;
          let s = (if Canceling s
                   then let s = s\<lparr>Canceling := False\<rparr> in callback call (CancelCallback s) DVD_RESULT_GOOD (Some b) s
                   else s);
          stateReady call s
        }) s
      })"

text \<open>Where to resume after the error of a category that is not fatal.\<close>

definition resume_point :: "error_type \<Rightarrow> int \<Rightarrow> int \<Rightarrow> int" where
  "resume_point category st diimmval =
     (if category = ERROR_TYPE_FATAL \<or> category = ERROR_TYPE_UNKNOWN then RESUME_POINT_NONE
      else if st = REQUEST_STATE_COVER_OPENED then RESUME_POINT_COVER_OPENED
      else if st = REQUEST_STATE_DISK_CHANGED then RESUME_POINT_DISK_CHANGED
      else if st = REQUEST_STATE_NO_DISK then RESUME_POINT_NO_DISK
      else if st = REQUEST_STATE_OK
      then if diimmval = REQUEST_ERROR_053000h then RESUME_POINT_WRONG_DISK_ID else RESUME_POINT_OK
      else RESUME_POINT_OK)"

definition cbForStateGettingError :: "call \<Rightarrow> int \<Rightarrow> drive \<Rightarrow> drive option" where
  "cbForStateGettingError call intType s = on_interrupt intType (\<lambda>s.
     if int_has intType DVD_INTTYPE_DE then Some (stateError NAND_ERROR_GENERIC s)
     else do {
       let diimmval = imm_reg s;
       let st = high8 diimmval;
       (category, s) \<leftarrow> CategorizeError diimmval s;
       if category = ERROR_TYPE_ERROR then Some (stateError diimmval s)
       else do {
         (canceled, s) \<leftarrow> CheckCancel call (resume_point category st diimmval) s;
         if canceled then Some s
         else if category = ERROR_TYPE_FATAL then Some (issue (StoreErrorCode diimmval CbStoreErrorCode3) s)
         else if category = ERROR_TYPE_UNKNOWN
         then if low24 diimmval = REQUEST_ERROR_READ_FAIL
              then do {
                b \<leftarrow> executing s;
                let ofs = cb_offset (dblocks s b);
                Some (issue (LowSeek ofs CbUnrecoveredError) (StampCommand COMMAND_SEEK ofs 0 s))
              }
              else call_LastState call s
         else if st = REQUEST_STATE_COVER_OPENED then map_option stateMotorStopped (set_exec_state DVD_STATE_COVER_OPENED s)
         else if st = REQUEST_STATE_DISK_CHANGED then do { s \<leftarrow> set_exec_state DVD_STATE_COVER_CLOSED s; stateCoverClosed call s }
         else if st = REQUEST_STATE_NO_DISK then map_option stateMotorStopped (set_exec_state DVD_STATE_NO_DISK s)
         else if st = REQUEST_STATE_OK
         then if diimmval = REQUEST_ERROR_053000h then Some (stop_for_wrong_disc s) else Some (stateError NAND_ERROR_GENERIC s)
         else Some (stateError NAND_ERROR_GENERIC s)
       }
     }) (StampIntType intType s)"

definition cbForUnrecoveredError :: "int \<Rightarrow> drive \<Rightarrow> drive option" where
  "cbForUnrecoveredError intType s = on_interrupt intType (\<lambda>s.
     if int_has intType DVD_INTTYPE_TC then Some (stateGoToRetry s)
     else Some (issue (LowRequestError CbUnrecoveredErrorRetry) (StampCommand COMMAND_REQUEST_ERROR 0 0 s))) (StampIntType intType s)"

definition cbForUnrecoveredErrorRetry :: "int \<Rightarrow> drive \<Rightarrow> drive option" where
  "cbForUnrecoveredErrorRetry intType s = on_interrupt intType (\<lambda>s.
     if int_has intType DVD_INTTYPE_DE then Some (stateError NAND_ERROR_GENERIC s)
     else Some (stateError (imm_reg s) s)) (StampIntType intType s)"

definition cbForStateGoToRetry :: "call \<Rightarrow> int \<Rightarrow> drive \<Rightarrow> drive option" where
  "cbForStateGoToRetry call intType s = on_interrupt intType (\<lambda>s.
     if int_has intType DVD_INTTYPE_DE then Some (stateError NAND_ERROR_GENERIC s)
     else
       let s = s\<lparr>NumInternalRetry := 0\<rparr>;
           s = (if ends_on_cover (CurrCommand s) then s\<lparr>ResetRequired := True\<rparr> else s)
       in cancel_or_stop call RESUME_POINT_DISK_ERROR DVD_STATE_DISK_ERROR s) (StampIntType intType s)"

definition cbForStateReadingTOC :: "int \<Rightarrow> drive \<Rightarrow> drive option" where
  "cbForStateReadingTOC intType s = on_interrupt intType (\<lambda>s.
     if int_has intType DVD_INTTYPE_TC then Some (stateReadingPartitionInfo (s\<lparr>NumInternalRetry := 0\<rparr>))
     else Some (stateGettingError s)) (StampIntType intType s)"

text \<open>The last data partition; the counter is a halfword that is compared with an unsigned word.\<close>

definition s16 :: "int \<Rightarrow> int" where "s16 x = (x + 2 ^ 15) mod 2 ^ 16 - 2 ^ 15"

partial_function (option) scan_parts :: "drive \<Rightarrow> int \<Rightarrow> int \<Rightarrow> DVDPartInfo option \<Rightarrow> DVDPartInfo option option" where
  "scan_parts s i k found =
     (if \<not> u32 i < toc_numPartition s then Some found
      else scan_parts s (s16 (i + 1)) (k + 1) (if pi_type (part_infos s k) = 0 then Some (part_infos s k) else found))"

declare scan_parts.simps [code]

definition cbForStateReadingPartitionInfo :: "call \<Rightarrow> int \<Rightarrow> drive \<Rightarrow> drive option" where
  "cbForStateReadingPartitionInfo call intType s = on_interrupt intType (\<lambda>s.
     if int_has intType DVD_INTTYPE_TC
     then do {
       let s = s\<lparr>NumInternalRetry := 0\<rparr>;
       found \<leftarrow> scan_parts s 0 0 None;
       let s = s\<lparr>BootGameInfo := found\<rparr>;
       if found \<noteq> None
       then if CurrCommand s = COMMAND_CHANGE_DISK then stateOpenPartition (s\<lparr>NumInternalRetry := 0\<rparr>)
            else stateOpenPartition2 (s\<lparr>NumInternalRetry := 0\<rparr>)
       else cancel_or_stop call RESUME_POINT_WRONG_DISK_ID DVD_STATE_WRONG_DISK_ID s
     }
     else Some (stateGettingError s)) (StampIntType intType s)"

definition cbForStateOpenPartition :: "int \<Rightarrow> drive \<Rightarrow> drive option" where
  "cbForStateOpenPartition intType s = on_interrupt intType (\<lambda>s.
     if int_has intType DVD_INTTYPE_TC then Some (stateCheckID2 (s\<lparr>NumInternalRetry := 0\<rparr>))
     else Some (stateGettingError s)) (StampIntType intType s)"

definition cbForStateOpenPartition2 :: "call \<Rightarrow> int \<Rightarrow> drive \<Rightarrow> drive option" where
  "cbForStateOpenPartition2 call intType s = on_interrupt intType (\<lambda>s.
     if int_has intType DVD_INTTYPE_TC
     then do {
       (canceled, s) \<leftarrow> CheckCancel call RESUME_POINT_NONE (s\<lparr>NumInternalRetry := 0\<rparr>);
       if canceled then Some s
       else do { b \<leftarrow> executing s; stateBusy call b (set_state b DVD_STATE_BUSY s) }
     }
     else Some (stateGettingError s)) (StampIntType intType s)"

definition cbForStateCheckID1 :: "call \<Rightarrow> int \<Rightarrow> drive \<Rightarrow> drive option" where
  "cbForStateCheckID1 call intType s = on_interrupt intType (\<lambda>s.
     if int_has intType DVD_INTTYPE_DE then Some (stateError NAND_ERROR_GENERIC s)
     else cancel_or_stop call RESUME_POINT_WRONG_DISK_ID DVD_STATE_WRONG_DISK_ID (s\<lparr>NumInternalRetry := 0\<rparr>)) (StampIntType intType s)"

definition cbForStateCheckID2 :: "int \<Rightarrow> drive \<Rightarrow> drive option" where
  "cbForStateCheckID2 intType s = on_interrupt intType (\<lambda>s.
     if int_has intType DVD_INTTYPE_TC then stateReadingFST (s\<lparr>NumInternalRetry := 0\<rparr>)
     else Some (stateGettingError s)) (StampIntType intType s)"

definition cbForStateReset :: "int \<Rightarrow> drive \<Rightarrow> drive option" where
  "cbForStateReset intType s = on_interrupt intType (\<lambda>s.
     if int_has intType DVD_INTTYPE_TC
     then Some (issue SetResetAlarm (s\<lparr>LastResetEnd := sys_time s, ResetRequired := False, ResumeFromHere := RESUME_POINT_NONE\<rparr>))
     else Some (stateGettingError s)) s"

definition cbForStateDownRotation :: "int \<Rightarrow> drive \<Rightarrow> drive option" where
  "cbForStateDownRotation intType s = on_interrupt intType (\<lambda>s.
     if int_has intType DVD_INTTYPE_TC then Some (read_disk_id s) else Some (stateGettingError s)) (StampIntType intType s)"

definition cbForStateCoverClosed :: "int \<Rightarrow> drive \<Rightarrow> drive option" where
  "cbForStateCoverClosed intType s = on_interrupt intType (\<lambda>s.
     if int_has intType DVD_INTTYPE_TC then stateCheckID (s\<lparr>NumInternalRetry := 0\<rparr>)
     else Some (stateGettingError s)) (StampIntType intType s)"

definition cbForStateMotorStopped :: "call \<Rightarrow> drive \<Rightarrow> drive option" where
  "cbForStateMotorStopped call s =
     (let s = s\<lparr>WaitingForCoverClose := False\<rparr>;
          s = (if CurrCommand s = COMMAND_CHANGE_DISK then s\<lparr>ChangedDisc := True\<rparr> else s)
      in if MotorState s = MOTOR_STATE_STOPPED
         then (case executing s of Some b \<Rightarrow> Some (set_state b DVD_STATE_MOTOR_STOPPED s) | None \<Rightarrow> Some s)
         else
           let s = issue LowMaskCoverInterrupt s
           in (case executing s of
                 Some b \<Rightarrow> stateCoverClosed call (set_state b DVD_STATE_COVER_CLOSED s)
               | None \<Rightarrow> Some (s\<lparr>ResumeFromHere := RESUME_POINT_7\<rparr>)))"

definition cbForPrepareCoverRegister :: "call \<Rightarrow> drive \<Rightarrow> drive option" where
  "cbForPrepareCoverRegister call s =
     (let s = s\<lparr>PreparingCover := False\<rparr>
      in if WaitingForCoverClose s
         then if and (cover_reg s) DVD_DICVR_CVR = 0
              then cbForStateMotorStopped call ((issue CancelCoverAlarm s)\<lparr>WaitingForCoverClose := False\<rparr>)
              else Some s
         else if and (cover_reg s) DVD_DICVR_CVR \<noteq> 0
         then set_exec_state (if MotorState s = MOTOR_STATE_STOPPED then DVD_STATE_MOTOR_STOPPED else DVD_STATE_COVER_OPENED)
                (s\<lparr>WaitingForCoverOpen := False, WaitingForCoverClose := True\<rparr>)
         else if and (cover_reg s) DVD_DICVR_CVRINT \<noteq> 0
         then cbForStateMotorStopped call (issue LowClearCoverInterrupt ((issue CancelCoverAlarm s)\<lparr>WaitingForCoverOpen := False\<rparr>))
         else Some s)"

definition CoverAlarmHandler :: "drive \<Rightarrow> drive" where
  "CoverAlarmHandler s =
     (if \<not> PreparingCover s then issue (LowPrepareCoverRegister CbPrepareCoverRegister) (s\<lparr>PreparingCover := True\<rparr>) else s)"

section \<open>The end of a transfer\<close>

definition ImmCommand :: "int list" where "ImmCommand = [0xFFFFFFFF, 0xFFFFFFFF, 0xFFFFFFFF]"

definition IsImmCommandWithResult :: "int \<Rightarrow> bool" where
  "IsImmCommandWithResult c \<longleftrightarrow>
     c \<in> {COMMAND_REQUEST_AUDIO_ERROR, COMMAND_REQUEST_PLAY_ADDR, COMMAND_REQUEST_START_ADDR, COMMAND_REQUEST_LENGTH} \<or>
     list_ex (\<lambda>k. c = k) ImmCommand"

definition DmaCommand :: "int list" where "DmaCommand = [0xFFFFFFFF]"

definition IsDmaCommand :: "int \<Rightarrow> bool" where
  "IsDmaCommand c \<longleftrightarrow>
     c \<in> {COMMAND_READ, COMMAND_BSREAD, COMMAND_READID, COMMAND_READ_UNENCRYPTED, COMMAND_INQUIRY} \<or>
     list_ex (\<lambda>k. c = k) DmaCommand"

text \<open>\<^verbatim>\<open>DVD_COVER_*\<close>: within 100 ms of a reset the cover counts as busy.\<close>

abbreviation DVD_COVER_BUSY :: int where "DVD_COVER_BUSY \<equiv> 0"
abbreviation DVD_COVER_OPENED :: int where "DVD_COVER_OPENED \<equiv> 1"
abbreviation DVD_COVER_CLOSED :: int where "DVD_COVER_CLOSED \<equiv> 2"

definition cover_status :: "drive \<Rightarrow> int" where
  "cover_status s =
     (if s64 (sys_time s - LastResetEnd s) < OS_MSEC_TO_TICKS (bus_clock s) 100 then DVD_COVER_BUSY
      else if and (cover_reg s) DVD_DICVR_CVR \<noteq> 0 then DVD_COVER_OPENED
      else DVD_COVER_CLOSED)"

definition cover_ready :: "drive \<Rightarrow> int" where
  "cover_ready s =
     (if drop_bit 2 (and (cover_reg s) DVD_DICVR_CVRINT) \<noteq> 0 \<or> and (cover_reg s) DVD_DICVR_CVR \<noteq> 0 then 0
      else if ResumeFromHere s \<noteq> 0 then 0
      else 1)"

text \<open>The command's answer is left in its block and passed to its callback.\<close>

definition finish_answer :: "call \<Rightarrow> int \<Rightarrow> drive \<Rightarrow> drive option" where
  "finish_answer call v s = do {
     b \<leftarrow> executing s;
     finish_ready call DVD_STATE_IDLE v (upd_block b (cb_offset_update (\<lambda>_. v)) s)
   }"

definition finish_total :: "call \<Rightarrow> drive \<Rightarrow> drive option" where
  "finish_total call s = do {
     b \<leftarrow> executing s;
     finish_ready call DVD_STATE_IDLE (s32 (cb_transferTotal (dblocks s b))) s
   }"

definition change_disk_done :: "call \<Rightarrow> int \<Rightarrow> drive \<Rightarrow> drive option" where
  "change_disk_done call intType s =
     (if int_has intType DVD_INTTYPE_DE then Some (stateError NAND_ERROR_GENERIC s)
      else do {
        let s = s\<lparr>NumInternalRetry := 0\<rparr>;
        let s = (if CurrCommand s = COMMAND_BS_CHANGE_DISK then s\<lparr>ResetRequired := True\<rparr> else s);
        (canceled, s) \<leftarrow> CheckCancel call RESUME_POINT_7 s;
        if \<not> canceled \<and> MotorState s \<noteq> MOTOR_STATE_STOPPED
        then map_option stateMotorStopped (set_exec_state DVD_STATE_7 s)
        else Some s
      })"

text \<open>A data command has moved the piece it asked for.\<close>

definition count_transfer :: "int \<Rightarrow> drive \<Rightarrow> drive option" where
  "count_transfer intType s =
     (if IsDmaCommand (CurrCommand s)
      then map_option (\<lambda>b. upd_block b (\<lambda>blk. blk\<lparr>cb_transferTotal := u32 (cb_transferTotal blk +
               (if int_has intType (or DVD_INTTYPE_BR DVD_INTTYPE_TC) then cb_transferSize blk else 0))\<rparr>) s) (executing s)
      else Some s)"

text \<open>The drive answered that the command is complete.\<close>

definition transaction_done :: "call \<Rightarrow> drive \<Rightarrow> drive option" where
  "transaction_done call s =
     (let s = s\<lparr>NumInternalRetry := 0\<rparr>; c = CurrCommand s
      in if c = COMMAND_STOP_MOTOR then do {
           b \<leftarrow> executing s;
           finish_ready call DVD_STATE_IDLE DVD_RESULT_GOOD
             (s\<lparr>MotorState := (if cb_offset (dblocks s b) > 0 then MOTOR_STATE_STOPPED else MOTOR_STATE_PENDING_STOP)\<rparr>)
         }
         else if c = COMMAND_RESET then
           finish_ready call DVD_STATE_IDLE DVD_RESULT_GOOD
             (s\<lparr>LastResetEnd := sys_time s, ResetRequired := False, ResumeFromHere := RESUME_POINT_NONE\<rparr>)
         else do {
           (canceled, s) \<leftarrow> CheckCancel call RESUME_POINT_NONE s;
           if canceled then Some s
           else let c = CurrCommand s
           in if c = COMMAND_GET_COVER_STATUS then finish_answer call (cover_status s) s
           else if c = COMMAND_GET_COVER_READY then finish_answer call (cover_ready s) s
           else if IsDmaCommand c then do {
             b \<leftarrow> executing s;
             if cb_transferTotal (dblocks s b) \<noteq> cb_length (dblocks s b) then stateBusy call b s
             else finish_total call s
           }
           else if IsImmCommandWithResult c then
             finish_ready call DVD_STATE_IDLE
               (s32 (if c \<in> {COMMAND_REQUEST_PLAY_ADDR, COMMAND_REQUEST_START_ADDR} then u32 (push_bit 2 (imm_reg s)) else imm_reg s)) s
           else finish_ready call DVD_STATE_IDLE DVD_RESULT_GOOD s
         })"

text \<open>The drive reported a failure: the transfer may be complete all the same.\<close>

definition transaction_failed :: "call \<Rightarrow> drive \<Rightarrow> drive option" where
  "transaction_failed call s =
     (if CurrCommand s = COMMAND_INQUIRY then Some (stateError NAND_ERROR_GENERIC s)
      else do {
        complete \<leftarrow> (if CurrCommand s \<in> {COMMAND_READ, COMMAND_BSREAD, COMMAND_READID, COMMAND_READ_UNENCRYPTED, COMMAND_INQUIRY}
          then map_option (\<lambda>b. cb_transferTotal (dblocks s b) = cb_length (dblocks s b)) (executing s)
          else Some False);
        if complete then do {
          (canceled, s) \<leftarrow> CheckCancel call RESUME_POINT_NONE s;
          if canceled then Some s else finish_total call s
        }
        else Some (stateGettingError s)
      })"

definition cbForStateBusy :: "call \<Rightarrow> int \<Rightarrow> drive \<Rightarrow> drive option" where
  "cbForStateBusy call intType s = on_interrupt intType (\<lambda>s.
     if CurrCommand s \<in> {COMMAND_CHANGE_DISK, COMMAND_BS_CHANGE_DISK} then change_disk_done call intType s
     else do {
       s \<leftarrow> count_transfer intType s;
       if Breaking s then finish_canceled call (s\<lparr>Breaking := False, Canceling := False\<rparr>)
       else if int_has intType DVD_INTTYPE_TC then transaction_done call s
       else transaction_failed call s
     }) (StampIntType intType s)"

text \<open>Who waits for the register of the cover sees in a variable that it has come.\<close>

definition BS2DVDLowCallback :: "int \<Rightarrow> drive \<Rightarrow> drive" where
  "BS2DVDLowCallback intType s = s\<lparr>BS2DVDLowIntType := intType\<rparr>"

text \<open>The handler that a request's answer is delivered to.\<close>

fun on_answer :: "call \<Rightarrow> low_callback \<Rightarrow> int \<Rightarrow> drive \<Rightarrow> drive option" where
  "on_answer call CbStateReadingFST i s = cbForStateReadingFST call i s"
| "on_answer call CbStateError i s = cbForStateError call i s"
| "on_answer call CbStateGettingError i s = cbForStateGettingError call i s"
| "on_answer call CbUnrecoveredError i s = cbForUnrecoveredError i s"
| "on_answer call CbUnrecoveredErrorRetry i s = cbForUnrecoveredErrorRetry i s"
| "on_answer call CbStateGoToRetry i s = cbForStateGoToRetry call i s"
| "on_answer call CbStateReadingTOC i s = cbForStateReadingTOC i s"
| "on_answer call CbStateReadingPartitionInfo i s = cbForStateReadingPartitionInfo call i s"
| "on_answer call CbStateOpenPartition i s = cbForStateOpenPartition i s"
| "on_answer call CbStateOpenPartition2 i s = cbForStateOpenPartition2 call i s"
| "on_answer call CbStateCheckID1 i s = cbForStateCheckID1 call i s"
| "on_answer call CbStateCheckID2 i s = cbForStateCheckID2 i s"
| "on_answer call CbStateReset i s = cbForStateReset i s"
| "on_answer call CbStateDownRotation i s = cbForStateDownRotation i s"
| "on_answer call CbStateCoverClosed i s = cbForStateCoverClosed i s"
| "on_answer call CbPrepareCoverRegister i s = cbForPrepareCoverRegister call s"
| "on_answer call CbStateBusy i s = cbForStateBusy call i s"
| "on_answer call CbBS2DVDLow i s = Some (BS2DVDLowCallback i s)"

end
