(* ===== verification/DvdApi.thy ===== *)
theory DvdApi
  imports DvdDrive
begin

text \<open>
  The functions of \<^verbatim>\<open>dvd.c\<close> and \<^verbatim>\<open>dvdfs.c\<close> that clients call: reading, cancelling, pausing,
  status.  A client's callback is the parameter \<open>user\<close>; the callbacks that the code passes itself
  are the constants below, and \<open>dvd_call user\<close> is what a call of any of them does.  A function that
  sleeps until an interrupt has come is a \<open>_begin\<close> and a \<open>_round\<close>, one pass of its loop, whose
  result is None when it goes to sleep.
\<close>

section \<open>Start\<close>

definition OS_BOOT_MAGIC_BOOTROM :: int where "OS_BOOT_MAGIC_BOOTROM = 0xD15EA5E"
definition OS_BOOT_MAGIC_JTAG :: int where "OS_BOOT_MAGIC_JTAG = 0xE5207C22"

text \<open>The pointer \<^verbatim>\<open>FatalFunc\<close> of \<^verbatim>\<open>dvdFatal.c\<close> is NULL or the function that shows the message:
  \<open>auto_fatal\<close> says which.\<close>

definition DVDSetAutoFatalMessaging :: "bool \<Rightarrow> drive \<Rightarrow> bool \<times> drive" where
  "DVDSetAutoFatalMessaging enable s =
     (let (enabled, s) = OSDisableInterrupts s;
          old = auto_fatal s;
          s = s\<lparr>auto_fatal := enable\<rparr>
      in (old, OSRestoreInterrupts enabled s))"

definition DVDInit :: "drive \<Rightarrow> drive" where
  "DVDInit s =
     (if DVDInitialized s then s
      else
        let s = issue LowInit (s\<lparr>DVDInitialized := True\<rparr>);
            s = DVDClearWaitingQueue (DVDFSInit s);
            s = s\<lparr>MotorState := MOTOR_STATE_WORKING\<rparr>;
            s = issue LowMaskCoverInterrupt (issue LowUnmaskStatusInterrupts (issue InitThreadQueue s));
            s = (if boot_magic s \<noteq> OS_BOOT_MAGIC_JTAG \<and> boot_magic s \<noteq> OS_BOOT_MAGIC_BOOTROM
                 then s\<lparr>FirstTimeInBootrom := True\<rparr> else s);
            s = s\<lparr>ErrorEntries := (\<lambda>_. \<lparr>ei_command = 0, ei_param1 = 0, ei_param2 = 0, ei_intType = 0, ei_tick = 0\<rparr>)\<rparr>;
            s = s\<lparr>err_game := id_game (IDShouldBe s), err_disk := id_disk (IDShouldBe s), err_version := id_version (IDShouldBe s)\<rparr>
        in snd (DVDSetAutoFatalMessaging True (s\<lparr>LayoutFormat := 0\<rparr>)))"

section \<open>Issuing commands\<close>

definition issueCommand :: "call \<Rightarrow> int \<Rightarrow> dptr \<Rightarrow> drive \<Rightarrow> (bool \<times> drive) option" where
  "issueCommand call prio b s = do {
     let blk = dblocks s b;
     let s = (if autoInvalidation s \<and> cb_command blk \<in> {COMMAND_READ, COMMAND_BSREAD, COMMAND_READID, COMMAND_READ_UNENCRYPTED, COMMAND_INQUIRY}
              then issue (InvalidateRange (cb_addr blk) (cb_length blk)) s else s);
     let (enabled, s) = OSDisableInterrupts s;
     (success, s) \<leftarrow> DVDPushWaitingQueue prio b (set_state b DVD_STATE_WAITING s);
     s \<leftarrow> (if executing s = None \<and> \<not> PauseFlag s then stateReady call s else Some s);
     Some (success, OSRestoreInterrupts enabled s)
   }"

definition DVDReadAbsAsyncPrio :: "call \<Rightarrow> dptr \<Rightarrow> int \<Rightarrow> int \<Rightarrow> int \<Rightarrow> int \<Rightarrow> int \<Rightarrow> drive \<Rightarrow> (bool \<times> drive) option" where
  "DVDReadAbsAsyncPrio call b dst sz offset cb prio s =
     issueCommand call prio b (upd_block b (\<lambda>blk. blk\<lparr>cb_command := COMMAND_READ, cb_addr := dst, cb_length := sz,
       cb_offset := offset, cb_transferTotal := 0, cb_callback := cb\<rparr>) s)"

definition DVDInquiryAsync :: "call \<Rightarrow> dptr \<Rightarrow> int \<Rightarrow> int \<Rightarrow> drive \<Rightarrow> (bool \<times> drive) option" where
  "DVDInquiryAsync call b info cb s =
     issueCommand call DVD_PRIO_MEDIUM b (upd_block b (\<lambda>blk. blk\<lparr>cb_command := COMMAND_INQUIRY, cb_addr := info, cb_length := 32,
       cb_transferTotal := 0, cb_callback := cb\<rparr>) s)"

section \<open>Status\<close>

definition DVDGetCommandBlockStatus :: "dptr \<Rightarrow> drive \<Rightarrow> int \<times> drive" where
  "DVDGetCommandBlockStatus b s =
     (let (enabled, s) = OSDisableInterrupts s; st = cb_state (dblocks s b)
      in if st = DVD_STATE_COVER_CLOSED then (DVD_STATE_BUSY, OSRestoreInterrupts enabled s)
         else if st = DVD_STATE_COVER_OPENED then (DVD_STATE_NO_DISK, OSRestoreInterrupts enabled s)
         else if executing s = Some StopMotor
         then let (next, s) = DVDGetNextWaitingQueue s
              in (case next of
                    Some n \<Rightarrow> if b = n then DVD_STATE_BUSY else st
                  | None \<Rightarrow> if b = StopMotor then DVD_STATE_IDLE else st, OSRestoreInterrupts enabled s)
         else (st, OSRestoreInterrupts enabled s))"

definition DVDGetDriveStatus :: "drive \<Rightarrow> int \<times> drive" where
  "DVDGetDriveStatus s =
     (let (enabled, s) = OSDisableInterrupts s;
          (st, s) = (if FatalErrorFlag s then (DVD_STATE_FATAL, s)
                     else if PausingFlag s then (DVD_STATE_PAUSED, s)
                     else case executing s of
                       None \<Rightarrow> (DVD_STATE_IDLE, s)
                     | Some b \<Rightarrow> if b = Dummy then (DVD_STATE_IDLE, s) else DVDGetCommandBlockStatus b s)
      in (st, OSRestoreInterrupts enabled s))"

definition DVDPause :: "drive \<Rightarrow> drive" where
  "DVDPause s =
     (let (enabled, s) = OSDisableInterrupts s;
          s = s\<lparr>PauseFlag := True\<rparr>;
          s = (if executing s = None then s\<lparr>PausingFlag := True\<rparr> else s)
      in OSRestoreInterrupts enabled s)"

definition DVDResume :: "call \<Rightarrow> drive \<Rightarrow> drive option" where
  "DVDResume call s = do {
     let (enabled, s) = OSDisableInterrupts s;
     let s = s\<lparr>PauseFlag := False\<rparr>;
     s \<leftarrow> (if PausingFlag s then stateReady call (s\<lparr>PausingFlag := False\<rparr>) else Some s);
     Some (OSRestoreInterrupts enabled s)
   }"

section \<open>Cancelling\<close>

text \<open>The command's callback is told of the cancellation, then the one who cancels.\<close>

definition cancel_block :: "call \<Rightarrow> dptr \<Rightarrow> int \<Rightarrow> drive \<Rightarrow> drive" where
  "cancel_block call b cb s =
     (let s = set_state b DVD_STATE_CANCELED s;
          s = callback call (cb_callback (dblocks s b)) DVD_RESULT_CANCELED (Some b) s
      in callback call cb DVD_RESULT_GOOD (Some b) s)"

definition DVDLowBreak :: "drive \<Rightarrow> drive" where
  "DVDLowBreak s = s\<lparr>Breaking := True\<rparr>"

definition cancel_resume_point :: "int \<Rightarrow> int \<Rightarrow> int" where
  "cancel_resume_point st r =
     (if st = DVD_STATE_NO_DISK then RESUME_POINT_NO_DISK
      else if st = DVD_STATE_COVER_OPENED then RESUME_POINT_COVER_OPENED
      else if st = DVD_STATE_WRONG_DISK_ID then RESUME_POINT_WRONG_DISK_ID
      else if st = DVD_STATE_DISK_ERROR then RESUME_POINT_DISK_ERROR
      else if st = DVD_STATE_7 then RESUME_POINT_7
      else r)"

definition cancel_later :: "int \<Rightarrow> drive \<Rightarrow> bool \<times> drive" where
  "cancel_later cb s = (if Canceling s then (False, s) else (True, s\<lparr>Canceling := True, CancelCallback := cb\<rparr>))"

definition cancel_switch :: "call \<Rightarrow> dptr \<Rightarrow> int \<Rightarrow> drive \<Rightarrow> (bool \<times> drive) option" where
  "cancel_switch call b cb s =
     (let st = cb_state (dblocks s b); c = cb_command (dblocks s b)
      in if st \<in> {DVD_STATE_FATAL, DVD_STATE_IDLE, DVD_STATE_CANCELED}
         then Some (True, callback call cb DVD_RESULT_GOOD (Some b) s)
         else if st = DVD_STATE_BUSY
         then case cancel_later cb s of (accepted, s) \<Rightarrow>
           Some (accepted, if accepted \<and> c \<in> {COMMAND_BSREAD, COMMAND_READ_UNENCRYPTED, COMMAND_OPEN_PARTITION, COMMAND_READ}
             then DVDLowBreak s else s)
         else if st = DVD_STATE_WAITING
         then case DVDDequeueWaitingQueue b s of (_, s) \<Rightarrow> Some (True, cancel_block call b cb s)
         else if st = DVD_STATE_COVER_CLOSED
         then if ends_on_cover c then Some (True, callback call cb DVD_RESULT_GOOD (Some b) s)
              else if c \<in> {COMMAND_READ, COMMAND_SEEK} \<and> OSInIPL s
              then map_option (Pair True) (stateReady call (cancel_block call b cb (s\<lparr>executing := Some Dummy\<rparr>)))
              else Some (cancel_later cb s)
         else if st \<in> {DVD_STATE_NO_DISK, DVD_STATE_COVER_OPENED, DVD_STATE_WRONG_DISK_ID, DVD_STATE_7, DVD_STATE_DISK_ERROR}
         then if \<not> WaitingForCoverClose s \<and> \<not> WaitingForCoverOpen s then Some (False, s)
              else
                let s = (if WaitingForCoverOpen s then (issue CancelCoverAlarm s)\<lparr>WaitingForCoverOpen := False\<rparr> else s);
                    s = s\<lparr>ResumeFromHere := cancel_resume_point st (ResumeFromHere s)\<rparr>
                in map_option (Pair True) (stateReady call (cancel_block call b cb (s\<lparr>executing := Some Dummy\<rparr>)))
         else if st = DVD_STATE_MOTOR_STOPPED
         then map_option (Pair True) (stateReady call (cancel_block call b cb (s\<lparr>executing := Some Dummy\<rparr>)))
         else Some (True, s))"

definition DVDCancelAsync :: "call \<Rightarrow> dptr \<Rightarrow> int \<Rightarrow> drive \<Rightarrow> (bool \<times> drive) option" where
  "DVDCancelAsync call b cb s = do {
     let (enabled, s) = OSDisableInterrupts s;
     (r, s) \<leftarrow> cancel_switch call b cb s;
     Some (r, OSRestoreInterrupts enabled s)
   }"

text \<open>Cancelling everything: with the drive paused, the waiting commands first.\<close>

partial_function (option) cancel_waiting :: "call \<Rightarrow> drive \<Rightarrow> drive option" where
  "cancel_waiting call s = do {
     (b, s) \<leftarrow> DVDPopWaitingQueue s;
     (case b of
        None \<Rightarrow> Some s
      | Some b \<Rightarrow> do { (_, s) \<leftarrow> DVDCancelAsync call b 0 s; cancel_waiting call s })
   }"

declare cancel_waiting.simps [code]

definition DVDCancelAllAsync :: "call \<Rightarrow> int \<Rightarrow> drive \<Rightarrow> (bool \<times> drive) option" where
  "DVDCancelAllAsync call cb s = do {
     let (enabled, s) = OSDisableInterrupts s;
     s \<leftarrow> cancel_waiting call (DVDPause s);
     (success, s) \<leftarrow> (case executing s of
        Some b \<Rightarrow> DVDCancelAsync call b cb s
      | None \<Rightarrow> Some (True, callback call cb DVD_RESULT_GOOD None s));
     s \<leftarrow> DVDResume call s;
     Some (success, OSRestoreInterrupts enabled s)
   }"

definition DVDPrepareResetAsync :: "call \<Rightarrow> int \<Rightarrow> drive \<Rightarrow> drive option" where
  "DVDPrepareResetAsync call cb s = do {
     let (enabled, s) = OSDisableInterrupts s;
     let s = DVDClearWaitingQueue s;
     s \<leftarrow> (if Canceling s then Some (s\<lparr>CancelCallback := cb\<rparr>)
           else map_option snd (DVDCancelAllAsync call cb
                  (case executing s of Some b \<Rightarrow> upd_block b (cb_callback_update (\<lambda>_. 0)) s | None \<Rightarrow> s)));
     Some (OSRestoreInterrupts enabled s)
   }"

section \<open>Callbacks of the code itself\<close>

abbreviation ptr_cbForCancelSync :: int where "ptr_cbForCancelSync \<equiv> 0x80500000"
abbreviation ptr_Callback :: int where "ptr_Callback \<equiv> 0x80500004"
abbreviation ptr_cbForReadAsync :: int where "ptr_cbForReadAsync \<equiv> 0x80500008"
abbreviation ptr_cbForReadSync :: int where "ptr_cbForReadSync \<equiv> 0x8050000C"

definition cbForCancelSync :: "drive \<Rightarrow> drive" where "cbForCancelSync = issue WakeupThreadQueue"
definition Callback :: "drive \<Rightarrow> drive" where "Callback s = s\<lparr>Prepared := True\<rparr>"
definition cbForReadSync :: "drive \<Rightarrow> drive" where "cbForReadSync = issue WakeupThreadQueue"

text \<open>The block is the first member of the file structure and has its address.\<close>

definition cbForReadAsync :: "call \<Rightarrow> int \<Rightarrow> dptr option \<Rightarrow> drive \<Rightarrow> drive" where
  "cbForReadAsync user result b s =
     (case b of Some f \<Rightarrow> callback user (df_callback (finfos s f)) result (Some f) s | None \<Rightarrow> s)"

definition dvd_call :: "call \<Rightarrow> call" where
  "dvd_call user cb result b s =
     (if cb = ptr_cbForCancelSync then cbForCancelSync s
      else if cb = ptr_Callback then Callback s
      else if cb = ptr_cbForReadAsync then cbForReadAsync user result b s
      else if cb = ptr_cbForReadSync then cbForReadSync s
      else user cb result b s)"

section \<open>Waiting for the drive\<close>

definition DVDCancel_begin :: "call \<Rightarrow> dptr \<Rightarrow> drive \<Rightarrow> (int option \<times> drive) option" where
  "DVDCancel_begin user b s = do {
     (ok, s) \<leftarrow> DVDCancelAsync (dvd_call user) b ptr_cbForCancelSync s;
     Some (if ok then None else Some DVD_RESULT_FATAL_ERROR, s)
   }"

definition DVDCancel_round :: "dptr \<Rightarrow> drive \<Rightarrow> int option \<times> drive" where
  "DVDCancel_round b s =
     (let st = cb_state (dblocks s b)
      in if st \<in> {DVD_STATE_IDLE, DVD_STATE_FATAL, DVD_STATE_CANCELED} \<or>
            st = DVD_STATE_COVER_CLOSED \<and> ends_on_cover (cb_command (dblocks s b))
         then (Some DVD_RESULT_GOOD, s)
         else (None, issue SleepThreadQueue s))"

definition DVDPrepareReset_begin :: "call \<Rightarrow> drive \<Rightarrow> drive option" where
  "DVDPrepareReset_begin user s =
     map_option (irq_enabled_update (\<lambda>_. True))
       (DVDPrepareResetAsync (dvd_call user) ptr_Callback ((snd (OSDisableInterrupts s))\<lparr>Prepared := False\<rparr>))"

definition DVDPrepareReset_round :: "drive \<Rightarrow> bool" where
  "DVDPrepareReset_round s = Prepared s"

definition DVDGetCoverStatus_begin :: "drive \<Rightarrow> drive" where
  "DVDGetCoverStatus_begin s = issue (LowPrepareCoverRegister CbBS2DVDLow) (s\<lparr>BS2DVDLowIntType := 0\<rparr>)"

definition DVDGetCoverStatus_round :: "drive \<Rightarrow> int option" where
  "DVDGetCoverStatus_round s =
     (if BS2DVDLowIntType s = 0 then None
      else if and (BS2DVDLowIntType s) DVD_INTTYPE_TC = 0 then Some DVD_COVER_BUSY
      else Some (cover_status s))"

section \<open>Files\<close>

text \<open>The two assertions of the read functions; a failed one stops the program.\<close>

definition read_args_ok :: "DVDFileInfo \<Rightarrow> int \<Rightarrow> int \<Rightarrow> bool" where
  "read_args_ok f sz offset \<longleftrightarrow>
     offset \<ge> 0 \<and> u32 offset \<le> df_size f \<and>
     s32 (offset + sz) \<ge> 0 \<and> u32 (s32 (offset + sz)) < u32 (df_size f + 32)"

definition DVDReadAsyncPrio :: "call \<Rightarrow> dptr \<Rightarrow> int \<Rightarrow> int \<Rightarrow> int \<Rightarrow> int \<Rightarrow> int \<Rightarrow> drive \<Rightarrow> (bool \<times> drive) option" where
  "DVDReadAsyncPrio user f dst sz offset cb prio s =
     (if \<not> read_args_ok (finfos s f) sz offset then None
      else do {
        let s = s\<lparr>finfos := (finfos s)(f := (finfos s f)\<lparr>df_callback := cb\<rparr>)\<rparr>;
        (_, s) \<leftarrow> DVDReadAbsAsyncPrio (dvd_call user) f dst (u32 sz) (u32 (df_offset (finfos s f) + offset div 4)) ptr_cbForReadAsync prio s;
        Some (True, s)
      })"

definition DVDReadPrio_begin :: "call \<Rightarrow> dptr \<Rightarrow> int \<Rightarrow> int \<Rightarrow> int \<Rightarrow> int \<Rightarrow> drive \<Rightarrow> (int option \<times> drive) option" where
  "DVDReadPrio_begin user f dst sz offset prio s =
     (if \<not> read_args_ok (finfos s f) sz offset then None
      else do {
        (ok, s) \<leftarrow> DVDReadAbsAsyncPrio (dvd_call user) f dst (u32 sz) (u32 (df_offset (finfos s f) + offset div 4)) ptr_cbForReadSync prio s;
        Some (if ok then None else Some DVD_RESULT_FATAL_ERROR, s)
      })"

definition DVDReadPrio_round :: "dptr \<Rightarrow> drive \<Rightarrow> int option \<times> drive" where
  "DVDReadPrio_round f s =
     (let st = cb_state (dblocks s f)
      in if st = DVD_STATE_IDLE then (Some (s32 (cb_transferTotal (dblocks s f))), s)
         else if st = DVD_STATE_FATAL then (Some DVD_RESULT_FATAL_ERROR, s)
         else if st = DVD_STATE_CANCELED then (Some DVD_RESULT_CANCELED, s)
         else (None, issue SleepThreadQueue s))"

definition DVDClose_begin :: "call \<Rightarrow> dptr \<Rightarrow> drive \<Rightarrow> (int option \<times> drive) option" where
  "DVDClose_begin user f s = DVDCancel_begin user f s"

definition DVDGetCurrentDiskID :: "drive \<Rightarrow> DVDDiskID" where
  "DVDGetCurrentDiskID s = IDShouldBe s"

end
