(* ===== verification/DvdProps.thy ===== *)
theory DvdProps
  imports DvdApi
begin

text \<open>
  What the drive's state machine guarantees: it is not left idle while a command waits (but for
  one case of a resumption, which is named), a read is carried out in contiguous pieces, a fatal error
  reaches every waiting command unless automatic messages are on, and a waiting command is cancelled at once.
\<close>

section \<open>The drive is not left idle\<close>

definition drive_ok :: "drive \<Rightarrow> bool" where
  "drive_ok s \<longleftrightarrow> (executing s = None \<and> \<not> PauseFlag s \<longrightarrow> first_waiting (dblocks s) = None)"

named_theorems ok_simps "changes of the state that do not matter to drive_ok"

lemma first_waiting_fields:
  "(\<And>x. cb_next (D' x) = cb_next (D x)) \<Longrightarrow> first_waiting D' = first_waiting D"
  by (simp add: first_waiting_def)

lemma ok_issue [ok_simps]: "drive_ok (issue r s) = drive_ok s"
  by (simp add: drive_ok_def issue_def)

lemma ok_set_state [ok_simps]: "drive_ok (set_state b st s) = drive_ok s"
  unfolding drive_ok_def set_state_def upd_block_def
  using first_waiting_fields [of "(dblocks s)(b := cb_state_update (\<lambda>_. st) (dblocks s b))" "dblocks s"] by simp

lemma ok_fields [ok_simps]:
  "drive_ok (s\<lparr>NumInternalRetry := n\<rparr>) = drive_ok s" "drive_ok (s\<lparr>LastError := n\<rparr>) = drive_ok s"
  "drive_ok (s\<lparr>MotorState := n\<rparr>) = drive_ok s" "drive_ok (s\<lparr>WaitingForCoverOpen := c\<rparr>) = drive_ok s"
  "drive_ok (s\<lparr>WaitingForCoverClose := c\<rparr>) = drive_ok s" "drive_ok (s\<lparr>ResumeFromHere := n\<rparr>) = drive_ok s"
  "drive_ok (s\<lparr>Canceling := c\<rparr>) = drive_ok s" "drive_ok (s\<lparr>CurrCommand := n\<rparr>) = drive_ok s"
  "drive_ok (s\<lparr>LastState := l\<rparr>) = drive_ok s" "drive_ok (s\<lparr>ChangedDisc := c\<rparr>) = drive_ok s"
  "drive_ok (s\<lparr>IDShouldBe := d\<rparr>) = drive_ok s" "drive_ok (s\<lparr>ResetRequired := c\<rparr>) = drive_ok s"
  "drive_ok (s\<lparr>BootGameInfo := p\<rparr>) = drive_ok s" "drive_ok (s\<lparr>LastResetEnd := n\<rparr>) = drive_ok s"
  "drive_ok (s\<lparr>PreparingCover := c\<rparr>) = drive_ok s" "drive_ok (s\<lparr>Breaking := c\<rparr>) = drive_ok s"
  "drive_ok (s\<lparr>FatalErrorFlag := c\<rparr>) = drive_ok s" "drive_ok (BS2DVDLowCallback n s) = drive_ok s"
  "drive_ok (s\<lparr>executing := Some b\<rparr>)"
  by (simp_all add: drive_ok_def BS2DVDLowCallback_def)

lemma ok_stamp [ok_simps]:
  "drive_ok (StampCommand c x y s) = drive_ok s" "drive_ok (StampIntType i s) = drive_ok s"
  by (simp_all add: drive_ok_def StampCommand_def StampIntType_def Let_def)

lemma ok_errors [ok_simps]:
  "drive_ok (stateError e s) = drive_ok s" "drive_ok (stateTimeout s) = drive_ok s"
  "drive_ok (stateSecurityError s) = drive_ok s" "drive_ok (stateGettingError s) = drive_ok s"
  "drive_ok (stateGoToRetry s) = drive_ok s" "drive_ok (stateMotorStopped s) = drive_ok s"
  "drive_ok (reset_drive s) = drive_ok s" "drive_ok (stateReadingTOC s) = drive_ok s"
  "drive_ok (stateReadingPartitionInfo s) = drive_ok s" "drive_ok (stateCheckID2 s) = drive_ok s"
  "drive_ok (stop_for_wrong_disc s) = drive_ok s" "drive_ok (stateDownRotation s) = drive_ok s"
  "drive_ok (stateCoverClosed_CMD s) = drive_ok s" "drive_ok (read_disk_id s) = drive_ok s"
  by (simp_all add: ok_simps stateError_def stateTimeout_def stateSecurityError_def stateGettingError_def stateGoToRetry_def
      stateMotorStopped_def reset_drive_def stateReadingTOC_def stateReadingPartitionInfo_def stateCheckID2_def
      stop_for_wrong_disc_def stateDownRotation_def stateCoverClosed_CMD_def read_disk_id_def Let_def)

lemma ok_set_exec_state: "set_exec_state st s = Some s' \<Longrightarrow> drive_ok s'"
  by (auto simp: set_exec_state_def drive_ok_def set_state_def upd_block_def)

lemma ok_CategorizeError: "CategorizeError d s = Some (c, s') \<Longrightarrow> drive_ok s' = drive_ok s"
  unfolding CategorizeError_def by (auto simp: ok_simps Let_def bind_eq_Some_conv split: if_splits)

lemma ok_executing: "executing s = Some b \<Longrightarrow> drive_ok s"
  by (simp add: drive_ok_def)

text \<open>One step of a command, and the whole chain of them.\<close>

lemma resume_step_ok: "resume_step s = Some (s', ts) \<Longrightarrow> drive_ok s \<Longrightarrow> drive_ok s'"
  unfolding resume_step_def Let_def by (auto simp: ok_simps dest: ok_set_exec_state split: if_splits)

lemma motor_step_ok: "motor_step s = Some (s', ts) \<Longrightarrow> drive_ok s \<Longrightarrow> drive_ok s'"
  unfolding motor_step_def by (auto simp: ok_simps bind_eq_Some_conv dest: ok_set_exec_state split: if_splits)

lemma stateReady_step_ok: "stateReady_step call s = Some (s', ts) \<Longrightarrow> Ready \<in> set ts \<or> drive_ok s'"
proof -
  assume a: "stateReady_step call s = Some (s', ts)"
  obtain w s1 where c: "DVDCheckWaitingQueue s = (w, s1)" by fastforce
  have w: "w = (first_waiting (dblocks s1) \<noteq> None)"
    using c by (auto simp: DVDCheckWaitingQueue_def OSDisableInterrupts_def OSRestoreInterrupts_def)
  show ?thesis
  proof (cases "\<not> w \<or> PauseFlag s1")
    case True
    then show ?thesis using a c w by (auto simp: stateReady_step_def drive_ok_def split: if_splits)
  next
    case False
    then obtain b s2 where p: "DVDPopWaitingQueue s1 = Some (b, s2)" and
      r: "(if FatalErrorFlag s2 then map_option (\<lambda>(_, s). (s, [Ready])) (finish call DVD_STATE_FATAL DVD_RESULT_FATAL_ERROR (s2\<lparr>executing := b\<rparr>))
        else do {
          b \<leftarrow> b;
          let s = s2\<lparr>executing := Some b, CurrCommand := cb_command (dblocks s2 b)\<rparr>;
          let s = (if CurrCommand s \<in> {COMMAND_RESET, COMMAND_INQUIRY, COMMAND_CLOSE_PARTITION} then s\<lparr>ResumeFromHere := RESUME_POINT_NONE\<rparr> else s);
          if ResumeFromHere s \<noteq> RESUME_POINT_NONE then resume_step s else motor_step s
        }) = Some (s', ts)"
      using a c by (auto simp: stateReady_step_def Let_def bind_eq_Some_conv cong: if_cong split: if_splits)
    show ?thesis
    proof (cases "FatalErrorFlag s2")
      case True
      then show ?thesis using r by auto
    next
      case False
      then show ?thesis using r
        by (auto simp: Let_def bind_eq_Some_conv ok_simps split: if_splits dest!: resume_step_ok motor_step_ok)
    qed
  qed
qed

lemma stateCoverClosed_step_ok: "stateCoverClosed_step call s = Some (s', ts) \<Longrightarrow> drive_ok s \<Longrightarrow> Ready \<in> set ts \<or> drive_ok s'"
  unfolding stateCoverClosed_step_def Let_def by (auto simp: ok_simps bind_eq_Some_conv split: if_splits dest: ok_executing)

lemma ok_upd_transferSize [ok_simps]: "drive_ok (upd_block b (cb_transferSize_update (\<lambda>_. n)) s) = drive_ok s"
  unfolding drive_ok_def upd_block_def
  using first_waiting_fields [of "(dblocks s)(b := cb_transferSize_update (\<lambda>_. n) (dblocks s b))" "dblocks s"] by simp

lemma read_chunk_ok: "read_chunk r call b s = Some (s', ts) \<Longrightarrow> drive_ok s \<Longrightarrow> Ready \<in> set ts \<or> drive_ok s'"
  unfolding read_chunk_def Let_def by (auto simp: ok_simps split: if_splits)

lemma stateBusy_step_ok: "stateBusy_step call b s = Some (s', ts) \<Longrightarrow> drive_ok s \<Longrightarrow> Ready \<in> set ts \<or> drive_ok s'"
  unfolding stateBusy_step_def busy_switch_def Let_def
  by (auto simp: ok_simps split: if_splits dest!: read_chunk_ok)

lemma task_step_ok: "task_step call t s = Some (s', ts) \<Longrightarrow> t = Ready \<or> drive_ok s \<Longrightarrow> Ready \<in> set ts \<or> drive_ok s'"
  by (cases t) (auto simp: ok_simps dest: stateReady_step_ok stateCoverClosed_step_ok stateBusy_step_ok)

lemma run_tasks_ok:
  assumes "run_tasks call ts s = Some s'"
  shows "Ready \<in> set ts \<or> drive_ok s \<longrightarrow> drive_ok s'"
proof (rule run_tasks.raw_induct [of "\<lambda>call ts s s'. Ready \<in> set ts \<or> drive_ok s \<longrightarrow> drive_ok s'", OF _ assms])
  fix rt call ts s s'
  assume IH: "\<And>call ts s s'. rt call ts s = Some s' \<Longrightarrow> Ready \<in> set ts \<or> drive_ok s \<longrightarrow> drive_ok s'"
    and r: "(case ts of [] \<Rightarrow> Some s | t # ts \<Rightarrow> task_step call t s \<bind> (\<lambda>(s, new). rt call (new @ ts) s)) = Some s'"
  show "Ready \<in> set ts \<or> drive_ok s \<longrightarrow> drive_ok s'"
  proof (cases ts)
    case Nil
    then show ?thesis using r by simp
  next
    case (Cons t ts')
    then obtain s1 new where st: "task_step call t s = Some (s1, new)" "rt call (new @ ts') s1 = Some s'"
      using r by (auto simp: bind_eq_Some_conv)
    show ?thesis using task_step_ok [OF st(1)] IH [OF st(2)] Cons by auto
  qed
qed

lemma stateReady_ok: "stateReady call s = Some s' \<Longrightarrow> drive_ok s'"
  using run_tasks_ok [of call "[Ready]" s s'] by (simp add: stateReady_def)

lemma stateCoverClosed_ok: "stateCoverClosed call s = Some s' \<Longrightarrow> drive_ok s \<Longrightarrow> drive_ok s'"
  using run_tasks_ok [of call "[CoverClosed]" s s'] by (simp add: stateCoverClosed_def)

lemma stateBusy_ok: "stateBusy call b s = Some s' \<Longrightarrow> drive_ok s \<Longrightarrow> drive_ok s'"
  using run_tasks_ok [of call "[Busy b]" s s'] by (simp add: stateBusy_def)

lemma stateBusy_executing_ok: "executing s = Some b' \<Longrightarrow> stateBusy call b (set_state b st s) = Some s' \<Longrightarrow> drive_ok s'"
  using stateBusy_ok [of call b "set_state b st s" s'] ok_executing [of s b'] by (simp add: ok_simps)

lemma finish_ready_ok: "finish_ready call st r s = Some s' \<Longrightarrow> drive_ok s'"
  unfolding finish_ready_def by (auto simp: bind_eq_Some_conv dest: stateReady_ok)

lemma finish_canceled_ok: "finish_canceled call s = Some s' \<Longrightarrow> drive_ok s'"
  unfolding finish_canceled_def Let_def by (auto simp: bind_eq_Some_conv dest: stateReady_ok)

lemma CheckCancel_ok: "CheckCancel call r s = Some (c, s') \<Longrightarrow> drive_ok s \<Longrightarrow> drive_ok s'"
  unfolding CheckCancel_def by (auto simp: ok_simps dest: finish_canceled_ok split: if_splits)

lemma cancel_or_stop_ok: "cancel_or_stop call r st s = Some s' \<Longrightarrow> drive_ok s \<Longrightarrow> drive_ok s'"
  unfolding cancel_or_stop_def
  by (auto simp: ok_simps bind_eq_Some_conv dest: CheckCancel_ok ok_set_exec_state split: if_splits)

lemmas tasks_ok = stateReady_ok stateCoverClosed_ok stateBusy_ok finish_ready_ok finish_canceled_ok cancel_or_stop_ok ok_set_exec_state

text \<open>The handlers.\<close>

lemma on_interrupt_ok:
  "on_interrupt i k s = Some s' \<Longrightarrow> drive_ok s \<Longrightarrow> (k s = Some s' \<Longrightarrow> drive_ok s') \<Longrightarrow> drive_ok s'"
  by (auto simp: on_interrupt_def ok_simps split: if_splits)

lemma ok_disc_states:
  "stateReadingFST s = Some s' \<Longrightarrow> drive_ok s \<Longrightarrow> drive_ok s'" "stateOpenPartition s = Some s' \<Longrightarrow> drive_ok s \<Longrightarrow> drive_ok s'"
  "stateOpenPartition2 s = Some s' \<Longrightarrow> drive_ok s \<Longrightarrow> drive_ok s'" "stateCheckID s = Some s' \<Longrightarrow> drive_ok s \<Longrightarrow> drive_ok s'"
  unfolding stateReadingFST_def stateOpenPartition_def stateOpenPartition2_def stateCheckID_def Let_def
  by (auto simp: ok_simps bind_eq_Some_conv split: if_splits)

lemma call_LastState_ok: "call_LastState call s = Some s' \<Longrightarrow> drive_ok s \<Longrightarrow> drive_ok s'"
  unfolding call_LastState_def
  by (auto simp: ok_simps bind_eq_Some_conv split: option.splits last_state.splits dest: ok_disc_states stateBusy_ok)

lemma simple_handlers_ok:
  "cbForStateReadingFST call i s = Some s' \<Longrightarrow> drive_ok s \<Longrightarrow> drive_ok s'"
  "cbForUnrecoveredError i s = Some s' \<Longrightarrow> drive_ok s \<Longrightarrow> drive_ok s'"
  "cbForUnrecoveredErrorRetry i s = Some s' \<Longrightarrow> drive_ok s \<Longrightarrow> drive_ok s'"
  "cbForStateReadingTOC i s = Some s' \<Longrightarrow> drive_ok s \<Longrightarrow> drive_ok s'"
  "cbForStateOpenPartition i s = Some s' \<Longrightarrow> drive_ok s \<Longrightarrow> drive_ok s'"
  "cbForStateReset i s = Some s' \<Longrightarrow> drive_ok s \<Longrightarrow> drive_ok s'"
  "cbForStateDownRotation i s = Some s' \<Longrightarrow> drive_ok s \<Longrightarrow> drive_ok s'"
  "cbForStateCheckID1 call i s = Some s' \<Longrightarrow> drive_ok s \<Longrightarrow> drive_ok s'"
  "cbForStateCheckID2 i s = Some s' \<Longrightarrow> drive_ok s \<Longrightarrow> drive_ok s'"
  "cbForStateCoverClosed i s = Some s' \<Longrightarrow> drive_ok s \<Longrightarrow> drive_ok s'"
  unfolding cbForStateReadingFST_def cbForUnrecoveredError_def cbForUnrecoveredErrorRetry_def cbForStateReadingTOC_def
    cbForStateOpenPartition_def cbForStateReset_def cbForStateDownRotation_def cbForStateCheckID1_def cbForStateCheckID2_def
    cbForStateCoverClosed_def
  by (erule on_interrupt_ok; auto simp: ok_simps split: if_splits dest: tasks_ok ok_disc_states)+

lemma cbForStateGoToRetry_ok: "cbForStateGoToRetry call i s = Some s' \<Longrightarrow> drive_ok s \<Longrightarrow> drive_ok s'"
  unfolding cbForStateGoToRetry_def Let_def
  by (erule on_interrupt_ok) (auto simp: ok_simps split: if_splits dest: tasks_ok)

lemma cbForStateReadingPartitionInfo_ok: "cbForStateReadingPartitionInfo call i s = Some s' \<Longrightarrow> drive_ok s \<Longrightarrow> drive_ok s'"
  unfolding cbForStateReadingPartitionInfo_def Let_def
  by (erule on_interrupt_ok) (auto simp: ok_simps bind_eq_Some_conv split: if_splits dest: tasks_ok ok_disc_states)

lemma cbForStateOpenPartition2_ok: "cbForStateOpenPartition2 call i s = Some s' \<Longrightarrow> drive_ok s \<Longrightarrow> drive_ok s'"
  unfolding cbForStateOpenPartition2_def Let_def
  by (erule on_interrupt_ok) (auto simp: ok_simps bind_eq_Some_conv split: if_splits dest: tasks_ok CheckCancel_ok stateBusy_executing_ok)

lemma cbForStateError_ok: "cbForStateError call i s = Some s' \<Longrightarrow> drive_ok s \<Longrightarrow> drive_ok s'"
  unfolding cbForStateError_def Let_def
  by (auto simp: ok_simps bind_eq_Some_conv on_interrupt_def split: if_splits dest: tasks_ok)

lemma cbForStateGettingError_ok: "cbForStateGettingError call i s = Some s' \<Longrightarrow> drive_ok s \<Longrightarrow> drive_ok s'"
  unfolding cbForStateGettingError_def Let_def
  by (erule on_interrupt_ok)
    (auto simp: ok_simps bind_eq_Some_conv split: if_splits dest: tasks_ok CheckCancel_ok call_LastState_ok dest!: ok_CategorizeError)

lemma cbForStateMotorStopped_ok: "cbForStateMotorStopped call s = Some s' \<Longrightarrow> drive_ok s \<Longrightarrow> drive_ok s'"
  unfolding cbForStateMotorStopped_def Let_def
  by (auto simp: ok_simps split: if_splits option.splits dest: tasks_ok)

lemma cbForPrepareCoverRegister_ok: "cbForPrepareCoverRegister call s = Some s' \<Longrightarrow> drive_ok s \<Longrightarrow> drive_ok s'"
  unfolding cbForPrepareCoverRegister_def Let_def
  by (auto simp: ok_simps split: if_splits dest: tasks_ok dest!: cbForStateMotorStopped_ok)

lemma count_transfer_ok: "count_transfer i s = Some s' \<Longrightarrow> drive_ok s \<Longrightarrow> drive_ok s'"
  unfolding count_transfer_def by (auto simp: drive_ok_def upd_block_def split: if_splits)

lemma finish_totals_ok: "finish_answer call v s = Some s' \<Longrightarrow> drive_ok s'" "finish_total call s = Some s' \<Longrightarrow> drive_ok s'"
  unfolding finish_answer_def finish_total_def by (auto simp: bind_eq_Some_conv dest: finish_ready_ok)

lemma transaction_done_ok: "transaction_done call s = Some s' \<Longrightarrow> drive_ok s \<Longrightarrow> drive_ok s'"
  unfolding transaction_done_def Let_def
  by (auto simp: ok_simps bind_eq_Some_conv split: if_splits dest: tasks_ok finish_totals_ok CheckCancel_ok ok_executing)

lemma transaction_failed_ok: "transaction_failed call s = Some s' \<Longrightarrow> drive_ok s \<Longrightarrow> drive_ok s'"
  unfolding transaction_failed_def
  by (auto simp: ok_simps bind_eq_Some_conv split: if_splits dest: tasks_ok finish_totals_ok CheckCancel_ok)

lemma cbForStateBusy_ok: "cbForStateBusy call i s = Some s' \<Longrightarrow> drive_ok s \<Longrightarrow> drive_ok s'"
  unfolding cbForStateBusy_def change_disk_done_def Let_def
  by (erule on_interrupt_ok)
    (auto simp: ok_simps bind_eq_Some_conv split: if_splits dest: tasks_ok CheckCancel_ok count_transfer_ok transaction_done_ok transaction_failed_ok)

lemma issueCommand_ok: "issueCommand call prio b s = Some (r, s') \<Longrightarrow> drive_ok s'"
proof -
  assume a: "issueCommand call prio b s = Some (r, s')"
  then obtain s1 s2 e where r: "(if executing s1 = None \<and> \<not> PauseFlag s1 then stateReady call s1 else Some s1) = Some s2"
    and s': "s' = OSRestoreInterrupts e s2"
    unfolding issueCommand_def by (auto simp: Let_def bind_eq_Some_conv split: prod.splits)
  have "drive_ok s2"
  proof (cases "executing s1 = None \<and> \<not> PauseFlag s1")
    case True
    then show ?thesis using r by (auto dest: stateReady_ok)
  next
    case False
    then have "s2 = s1" using r by (simp split: if_splits)
    then show ?thesis using False by (auto simp: drive_ok_def)
  qed
  then show ?thesis using s' by (simp add: drive_ok_def OSRestoreInterrupts_def)
qed

lemma on_answer_ok: "on_answer call h i s = Some s' \<Longrightarrow> drive_ok s \<Longrightarrow> drive_ok s'"
  by (cases h) (auto dest: simple_handlers_ok cbForStateGoToRetry_ok cbForStateReadingPartitionInfo_ok cbForStateOpenPartition2_ok
      cbForStateError_ok cbForStateGettingError_ok cbForPrepareCoverRegister_ok cbForStateBusy_ok simp: ok_simps)

lemma alarms_ok: "drive_ok (ResetAlarmHandler s) = drive_ok s" "drive_ok (CoverAlarmHandler s) = drive_ok s"
  unfolding ResetAlarmHandler_def CoverAlarmHandler_def by (simp_all add: ok_simps)

text \<open>The client's functions.  A callback may call them too, so it keeps what they keep.\<close>

definition calls_ok :: "call \<Rightarrow> bool" where
  "calls_ok call \<longleftrightarrow> (\<forall>cb r b s. drive_ok s \<longrightarrow> drive_ok (call cb r b s))"

lemma ok_irq [ok_simps]:
  "drive_ok (s\<lparr>irq_enabled := e\<rparr>) = drive_ok s" "drive_ok (OSRestoreInterrupts e s) = drive_ok s"
  by (simp_all add: drive_ok_def OSRestoreInterrupts_def)

lemma callback_ok: "calls_ok call \<Longrightarrow> drive_ok s \<Longrightarrow> drive_ok (callback call cb r b s)"
  by (simp add: callback_def calls_ok_def)

lemma cancel_block_ok: "calls_ok call \<Longrightarrow> drive_ok s \<Longrightarrow> drive_ok (cancel_block call b cb s)"
  by (simp add: cancel_block_def Let_def callback_ok ok_simps)

lemma cancel_later_ok: "cancel_later cb s = (r, s') \<Longrightarrow> drive_ok s \<Longrightarrow> drive_ok s'"
  by (auto simp: cancel_later_def drive_ok_def split: if_splits)

lemma DVDLowBreak_ok: "drive_ok (DVDLowBreak s) = drive_ok s"
  by (simp add: DVDLowBreak_def ok_simps)

lemma dequeue_ok:
  assumes "drive_ok s" "waiting (dblocks s) q" "i \<in> prios" "b \<in> set (q i)"
  shows "drive_ok (snd (DVDDequeueWaitingQueue b s))"
proof -
  have "waiting_st s q" using assms(2) by (simp add: waiting_st_def)
  from dequeue_waiting [OF this assms(3,4)] obtain D where D: "DVDDequeueWaitingQueue b s = (True, s\<lparr>dblocks := D\<rparr>)" by blast
  have "first_prio q \<noteq> None" using assms(3,4) first_prio_None [of q] by (auto simp: all_waiting_def prios_def)
  then have "first_waiting (dblocks s) \<noteq> None" using first_waiting_eq [OF assms(2)] by simp
  then show ?thesis using assms(1) D by (auto simp: drive_ok_def)
qed

lemma cancel_switch_ok:
  assumes "cancel_switch call b cb s = Some (r, s')" "calls_ok call" "drive_ok s"
    and w: "cb_state (dblocks s b) = DVD_STATE_WAITING \<Longrightarrow> waiting (dblocks s) q \<and> i \<in> prios \<and> b \<in> set (q i)"
  shows "drive_ok s'"
proof (cases "cb_state (dblocks s b) = DVD_STATE_WAITING")
  case True
  then have "drive_ok (snd (DVDDequeueWaitingQueue b s))" using w dequeue_ok [OF assms(3), of q i b] by blast
  then show ?thesis using assms(1,2) True
    by (auto simp: cancel_switch_def Let_def split: prod.splits dest: cancel_block_ok [where cb = cb and b = b])
next
  case False
  then show ?thesis using assms(1-3)
    by (auto simp: cancel_switch_def Let_def DVDLowBreak_ok callback_ok split: if_splits prod.splits
        dest: cancel_later_ok stateReady_ok)
qed

lemma DVDCancelAsync_ok:
  assumes "DVDCancelAsync call b cb s = Some (r, s')" "calls_ok call" "drive_ok s"
    and w: "cb_state (dblocks s b) = DVD_STATE_WAITING \<Longrightarrow> waiting (dblocks s) q \<and> i \<in> prios \<and> b \<in> set (q i)"
  shows "drive_ok s'"
proof -
  obtain s2 where s2: "cancel_switch call b cb (s\<lparr>irq_enabled := False\<rparr>) = Some (r, s2)"
    "s' = OSRestoreInterrupts (irq_enabled s) s2"
    using assms(1) by (auto simp: DVDCancelAsync_def OSDisableInterrupts_def bind_eq_Some_conv)
  have "drive_ok s2"
    by (rule cancel_switch_ok [OF s2(1) assms(2)]) (use assms(3) w in \<open>auto simp: ok_simps\<close>)
  then show ?thesis unfolding s2(2) by (simp add: ok_simps)
qed

lemma DVDPause_ok: "drive_ok (DVDPause s)"
  by (simp add: DVDPause_def OSDisableInterrupts_def OSRestoreInterrupts_def drive_ok_def Let_def)

lemma DVDResume_ok:
  assumes "DVDResume call s = Some s'"
  shows "drive_ok s' \<longleftrightarrow> PausingFlag s \<or> executing s \<noteq> None \<or> first_waiting (dblocks s) = None"
proof (cases "PausingFlag s")
  case True
  then obtain s1 s2 e where "stateReady call s1 = Some s2" "s' = OSRestoreInterrupts e s2" using assms
    by (auto simp: DVDResume_def OSDisableInterrupts_def bind_eq_Some_conv)
  then show ?thesis using True stateReady_ok by (simp add: ok_simps)
next
  case False
  then show ?thesis using assms
    by (auto simp: DVDResume_def OSDisableInterrupts_def OSRestoreInterrupts_def drive_ok_def)
qed

lemma clear_ok: "drive_ok (DVDClearWaitingQueue s)"
  using first_waiting_eq [OF clear_waiting [of s]] by (simp add: drive_ok_def first_prio_def)

lemma ok_init:
  "drive_ok (s\<lparr>FirstTimeInBootrom := c\<rparr>) = drive_ok s" "drive_ok (s\<lparr>ErrorEntries := e\<rparr>) = drive_ok s"
  "drive_ok (s\<lparr>err_game := g, err_disk := d, err_version := v\<rparr>) = drive_ok s"
  "drive_ok (s\<lparr>LayoutFormat := n\<rparr>) = drive_ok s" "drive_ok (snd (DVDSetAutoFatalMessaging c s)) = drive_ok s"
  by (simp_all add: drive_ok_def DVDSetAutoFatalMessaging_def OSDisableInterrupts_def OSRestoreInterrupts_def)

lemma DVDInit_ok: "\<not> DVDInitialized s \<Longrightarrow> drive_ok (DVDInit s)"
  unfolding DVDInit_def Let_def
  by (simp only: if_False ok_init ok_simps clear_ok if_distrib [of drive_ok] if_cancel if_True)

text \<open>C24. The drive is never left idle while a command waits, unless it is paused.  The start of the
  driver establishes this, and it is kept by every handler of an answer, both alarm handlers and the
  issue of a command, whatever the callbacks do; by pausing; and by cancelling, when a command that says
  it waits is in its queue and the callbacks keep it as well.  Resuming brings it about except in one
  case, which the equivalence below names: the driver was paused, its last command ended before it noted
  that it was pausing, and a command was issued since; that command waits on an idle drive until another
  one is issued (\<open>pause_loses_command\<close> shows such a run).  Cancelling all commands ends with a
  resumption.\<close>

theorem drive_never_idles_with_work:
  assumes "drive_ok s"
  shows "(\<forall>h i s'. on_answer call h i s = Some s' \<longrightarrow> drive_ok s') \<and>
    drive_ok (ResetAlarmHandler s) \<and> drive_ok (CoverAlarmHandler s) \<and>
    (\<forall>prio b r s'. issueCommand call prio b s = Some (r, s') \<longrightarrow> drive_ok s') \<and>
    drive_ok (DVDPause s) \<and>
    (\<forall>s'. DVDResume call s = Some s' \<longrightarrow>
      (drive_ok s' \<longleftrightarrow> PausingFlag s \<or> executing s \<noteq> None \<or> first_waiting (dblocks s) = None)) \<and>
    (\<forall>b cb q i r s'. calls_ok call \<and>
      (cb_state (dblocks s b) = DVD_STATE_WAITING \<longrightarrow> waiting (dblocks s) q \<and> i \<in> prios \<and> b \<in> set (q i)) \<and>
      DVDCancelAsync call b cb s = Some (r, s') \<longrightarrow> drive_ok s') \<and>
    (\<forall>s. \<not> DVDInitialized s \<longrightarrow> drive_ok (DVDInit s))"
proof -
  have c: "\<forall>b cb q i r s'. calls_ok call \<and>
      (cb_state (dblocks s b) = DVD_STATE_WAITING \<longrightarrow> waiting (dblocks s) q \<and> i \<in> prios \<and> b \<in> set (q i)) \<and>
      DVDCancelAsync call b cb s = Some (r, s') \<longrightarrow> drive_ok s'"
    using DVDCancelAsync_ok [OF _ _ assms] by blast
  show ?thesis
    using on_answer_ok [OF _ assms] issueCommand_ok DVDResume_ok
    by (intro conjI c DVDPause_ok) (use DVDInit_ok alarms_ok assms in \<open>auto 0 0\<close>)
qed

section \<open>A pause that loses a command\<close>

text \<open>A drive that runs out of commands while it is paused does not note that it is pausing, so
  resuming it does not look at what was issued in between.\<close>

lemma stateReady_nothing:
  assumes "waiting_st s (\<lambda>_. [])"
  shows "stateReady call s = Some (s\<lparr>executing := None\<rparr>)"
proof -
  have "DVDCheckWaitingQueue s = (False, s)" using check_waiting [OF assms] by (simp add: all_waiting_def)
  then show ?thesis
    by (simp add: stateReady_def run_tasks.simps [of call "[Ready]"] run_tasks.simps [of call "[]"] stateReady_step_def)
qed

lemma waiting_fields:
  "(\<And>x. cb_next (D' x) = cb_next (D x) \<and> cb_prev (D' x) = cb_prev (D x)) \<Longrightarrow> waiting D' q = waiting D q"
  unfolding waiting_def using ring_cong [of _ _ D' D] by simp

lemma waiting_st_upd_block [simp]:
  assumes "\<And>blk. cb_next (f blk) = cb_next blk" "\<And>blk. cb_prev (f blk) = cb_prev blk"
  shows "waiting_st (upd_block b f s) q = waiting_st s q"
  unfolding waiting_st_def upd_block_def using waiting_fields [of "(dblocks s)(b := f (dblocks s b))" "dblocks s" q] assms by simp

lemma data_sel:
  "cb_command (data D b) = cb_command (D b)" "cb_state (data D b) = cb_state (D b)" "cb_offset (data D b) = cb_offset (D b)"
  "cb_length (data D b) = cb_length (D b)" "cb_addr (data D b) = cb_addr (D b)" "cb_transferSize (data D b) = cb_transferSize (D b)"
  "cb_transferTotal (data D b) = cb_transferTotal (D b)" "cb_callback (data D b) = cb_callback (D b)" "cb_id (data D b) = cb_id (D b)"
  by (simp_all add: data_def)

lemma data_set_state [simp]:
  "data (dblocks (set_state b st s)) = (data (dblocks s))(b := (data (dblocks s) b)\<lparr>cb_state := st\<rparr>)"
  by (simp add: data_def set_state_def upd_block_def fun_eq_iff)

lemma waiting_st_set_state [simp]: "waiting_st (set_state b st s) q = waiting_st s q"
  by (simp add: set_state_def)

definition inval_log :: "dptr \<Rightarrow> drive \<Rightarrow> low list" where
  "inval_log b s =
     (if autoInvalidation s \<and> cb_command (dblocks s b) \<in> {COMMAND_READ, COMMAND_BSREAD, COMMAND_READID, COMMAND_READ_UNENCRYPTED, COMMAND_INQUIRY}
      then [InvalidateRange (cb_addr (dblocks s b)) (cb_length (dblocks s b))] else [])"

lemma issueCommand_pushes:
  assumes "waiting_st s q" "i \<in> prios" "b \<notin> set (all_waiting q)" "\<And>k. b \<noteq> QHead k"
  shows "\<exists>D. waiting D (q(i := q i @ [b])) \<and> data D = (data (dblocks s))(b := (data (dblocks s) b)\<lparr>cb_state := DVD_STATE_WAITING\<rparr>) \<and>
    issueCommand call i b s = map_option (\<lambda>s'. (True, OSRestoreInterrupts (irq_enabled s) s'))
      (if executing s = None \<and> \<not> PauseFlag s then stateReady call (s\<lparr>issued := issued s @ inval_log b s, irq_enabled := False, dblocks := D\<rparr>)
       else Some (s\<lparr>issued := issued s @ inval_log b s, irq_enabled := False, dblocks := D\<rparr>))"
proof -
  let ?s = "set_state b DVD_STATE_WAITING (s\<lparr>issued := issued s @ inval_log b s, irq_enabled := False\<rparr>)"
  have "waiting_st ?s q" using assms(1) by (simp add: waiting_st_def [of "s\<lparr>issued := _, irq_enabled := _\<rparr>"] waiting_st_def [of s])
  from push_waiting [OF this assms(2-4)] obtain D where D: "DVDPushWaitingQueue i b ?s = Some (True, ?s\<lparr>dblocks := D\<rparr>)"
    "waiting D (q(i := q i @ [b]))" "data D = data (dblocks ?s)" by blast
  have s': "?s\<lparr>dblocks := D\<rparr> = s\<lparr>issued := issued s @ inval_log b s, irq_enabled := False, dblocks := D\<rparr>"
    by (simp add: set_state_def upd_block_def)
  have "issueCommand call i b s = map_option (\<lambda>s'. (True, OSRestoreInterrupts (irq_enabled s) s'))
      (if executing s = None \<and> \<not> PauseFlag s then stateReady call (?s\<lparr>dblocks := D\<rparr>) else Some (?s\<lparr>dblocks := D\<rparr>))"
  proof -
    have e: "(if autoInvalidation s \<and> cb_command (dblocks s b) \<in> {COMMAND_READ, COMMAND_BSREAD, COMMAND_READID, COMMAND_READ_UNENCRYPTED, COMMAND_INQUIRY}
       then issue (InvalidateRange (cb_addr (dblocks s b)) (cb_length (dblocks s b))) s else s) = s\<lparr>issued := issued s @ inval_log b s\<rparr>"
      by (simp add: inval_log_def issue_def)
    have irq: "OSDisableInterrupts (s\<lparr>issued := issued s @ inval_log b s\<rparr>) = (irq_enabled s, s\<lparr>issued := issued s @ inval_log b s, irq_enabled := False\<rparr>)"
      by (simp add: OSDisableInterrupts_def)
    have x: "executing (?s\<lparr>dblocks := D\<rparr>) = executing s" "PauseFlag (?s\<lparr>dblocks := D\<rparr>) = PauseFlag s"
      by (simp_all add: set_state_def upd_block_def)
    show ?thesis
      unfolding issueCommand_def Let_def e irq prod.case D(1)
      by (simp add: x del: fun_upd_apply cong: if_cong option.case_cong) (auto simp: map_option_case bind_eq_Some_conv split: option.splits)
  qed
  then show ?thesis unfolding s' using D(2,3) by (intro exI [of _ D]) (simp del: fun_upd_apply)
qed

lemma pause_loses_command:
  assumes "waiting_st s (\<lambda>_. [])" "PauseFlag s" "\<not> PausingFlag s" "i \<in> prios" "\<And>k. b \<noteq> QHead k"
  shows "\<exists>s1 s2 s3. stateReady call s = Some s1 \<and> issueCommand call i b s1 = Some (True, s2) \<and> DVDResume call s2 = Some s3 \<and>
    executing s3 = None \<and> \<not> PauseFlag s3 \<and> first_waiting (dblocks s3) \<noteq> None"
proof -
  let ?s1 = "s\<lparr>executing := None\<rparr>"
  have "waiting_st ?s1 (\<lambda>_. [])" using assms(1) by (simp add: waiting_st_def)
  from issueCommand_pushes [OF this assms(4), of b call] assms(5) obtain D where D: "waiting D ((\<lambda>_. [])(i := [b]))"
    "issueCommand call i b ?s1 = Some (True, OSRestoreInterrupts (irq_enabled s) (?s1\<lparr>issued := issued s @ inval_log b ?s1, irq_enabled := False, dblocks := D\<rparr>))"
    using assms(2) by (auto simp: all_waiting_def)
  have "first_prio ((\<lambda>_. [])(i := [b])) = Some i" using assms(4) by (auto simp: first_prio_def prios_def)
  then have "first_waiting D \<noteq> None" using first_waiting_eq [OF D(1)] by simp
  then show ?thesis using stateReady_nothing [OF assms(1)] D(2) assms(3)
    by (auto simp: DVDResume_def OSDisableInterrupts_def OSRestoreInterrupts_def)
qed

section \<open>Cancelling a waiting command\<close>

text \<open>C27. A command that waits is cancelled at once: it leaves its queue, the order of the others is
  kept, its state says so, first its own callback hears of the cancellation and then the one who
  cancels; the drive and the other commands are left alone.\<close>

theorem DVDCancelAsync_waiting:
  assumes "waiting (dblocks s) q" "i \<in> prios" "b \<in> set (q i)" "cb_state (dblocks s b) = DVD_STATE_WAITING"
  shows "\<exists>D. waiting D (q(i := remove1 b (q i))) \<and>
    data D = (data (dblocks s))(b := (data (dblocks s) b)\<lparr>cb_state := DVD_STATE_CANCELED\<rparr>) \<and>
    DVDCancelAsync call b cb s = Some (True, OSRestoreInterrupts (irq_enabled s)
      (callback call cb DVD_RESULT_GOOD (Some b)
        (callback call (cb_callback (dblocks s b)) DVD_RESULT_CANCELED (Some b) (s\<lparr>irq_enabled := False, dblocks := D\<rparr>))))"
proof -
  let ?s = "s\<lparr>irq_enabled := False\<rparr>"
  have "waiting_st ?s q" using assms(1) by (simp add: waiting_st_def)
  from dequeue_waiting [OF this assms(2,3)] obtain D where D: "DVDDequeueWaitingQueue b ?s = (True, ?s\<lparr>dblocks := D\<rparr>)"
    "waiting D (q(i := remove1 b (q i)))" "data D = data (dblocks s)" by auto
  obtain E where E: "E = dblocks (set_state b DVD_STATE_CANCELED (?s\<lparr>dblocks := D\<rparr>))" by blast
  have s': "set_state b DVD_STATE_CANCELED (?s\<lparr>dblocks := D\<rparr>) = s\<lparr>irq_enabled := False, dblocks := E\<rparr>"
    unfolding E by (simp add: set_state_def upd_block_def)
  have "waiting_st (set_state b DVD_STATE_CANCELED (?s\<lparr>dblocks := D\<rparr>)) (q(i := remove1 b (q i)))"
    using D(2) by (simp add: waiting_st_def [of "?s\<lparr>dblocks := D\<rparr>"])
  then have w: "waiting E (q(i := remove1 b (q i)))" by (simp add: waiting_st_def E)
  have d: "data E = (data (dblocks s))(b := (data (dblocks s) b)\<lparr>cb_state := DVD_STATE_CANCELED\<rparr>)" using D(3) unfolding E by simp
  have "cb_callback (D b) = cb_callback (dblocks s b)" using arg_cong [OF D(3), of "\<lambda>f. cb_callback (f b)"] by (simp add: data_sel)
  then have "cb_callback (E b) = cb_callback (dblocks s b)" unfolding E by (simp add: set_state_def upd_block_def)
  then have "cancel_switch call b cb ?s = Some (True, callback call cb DVD_RESULT_GOOD (Some b)
      (callback call (cb_callback (dblocks s b)) DVD_RESULT_CANCELED (Some b) (s\<lparr>irq_enabled := False, dblocks := E\<rparr>)))"
    using D(1) assms(4) by (simp add: cancel_switch_def cancel_block_def s' Let_def)
  then show ?thesis using w d by (intro exI [of _ E]) (simp add: DVDCancelAsync_def OSDisableInterrupts_def)
qed

section \<open>A fatal error\<close>

text \<open>Callbacks that leave the drive alone; \<open>note\<close> is what they leave in the log.\<close>

definition observer :: "call \<Rightarrow> (int \<Rightarrow> int \<Rightarrow> dptr option \<Rightarrow> low list) \<Rightarrow> bool" where
  "observer call note \<longleftrightarrow> (\<forall>cb r b s. call cb r b s = s\<lparr>issued := issued s @ note cb r b\<rparr>)"

definition noted :: "(int \<Rightarrow> int \<Rightarrow> dptr option \<Rightarrow> low list) \<Rightarrow> int \<Rightarrow> int \<Rightarrow> dptr \<Rightarrow> low list" where
  "noted note cb r b = (if cb \<noteq> 0 then note cb r (Some b) else [])"

definition heard :: "(int \<Rightarrow> int \<Rightarrow> dptr option \<Rightarrow> low list) \<Rightarrow> blockmap \<Rightarrow> int \<Rightarrow> dptr \<Rightarrow> low list" where
  "heard note D r b = noted note (cb_callback (D b)) r b"

definition mark :: "int \<Rightarrow> dptr set \<Rightarrow> (dptr \<Rightarrow> DVDCommandBlock) \<Rightarrow> dptr \<Rightarrow> DVDCommandBlock" where
  "mark st B F = (\<lambda>b. if b \<in> B then (F b)\<lparr>cb_state := st\<rparr> else F b)"

lemma observer_callback:
  "observer call note \<Longrightarrow> callback call cb r (Some b) s = s\<lparr>issued := issued s @ noted note cb r b\<rparr>"
  by (simp add: observer_def callback_def noted_def)

lemma stateReady_unfold: "stateReady call s = do { (s, new) \<leftarrow> stateReady_step call s; run_tasks call new s }"
  by (simp add: stateReady_def run_tasks.simps [of call "[Ready]"])

lemma first_prio_all: "first_prio q = Some i \<Longrightarrow> q i = b # bs \<Longrightarrow> all_waiting q = b # all_waiting (q(i := bs))"
  by (auto simp: first_prio_def all_waiting_def split: if_splits)

lemma all_waiting_Nil: "all_waiting q = [] \<Longrightarrow> waiting D q = waiting D (\<lambda>_. [])"
  unfolding all_waiting_def waiting_def prios_def by simp

lemma stateReady_step_fatal:
  assumes "observer call note" "FatalErrorFlag s" "\<not> PauseFlag s" "waiting_st s q" "first_prio q = Some i" "q i = b # bs"
  shows "\<exists>D. stateReady_step call s =
      Some (s\<lparr>dblocks := D, executing := Some Dummy, issued := issued s @ heard note (dblocks s) DVD_RESULT_FATAL_ERROR b\<rparr>, [Ready]) \<and>
    waiting D (q(i := bs)) \<and> data D = mark DVD_STATE_FATAL {b} (data (dblocks s))"
proof -
  from pop_waiting [OF assms(4-6)] obtain D where D: "DVDPopWaitingQueue s = Some (Some b, s\<lparr>dblocks := D\<rparr>)"
    "waiting D (q(i := bs))" "data D = data (dblocks s)" by blast
  have c: "DVDCheckWaitingQueue s = (True, s)" using check_waiting [OF assms(4)] first_prio_all [OF assms(5,6)] by simp
  obtain E where E: "E = dblocks (set_state b DVD_STATE_FATAL (s\<lparr>dblocks := D, executing := Some Dummy\<rparr>))" by blast
  have s': "set_state b DVD_STATE_FATAL (s\<lparr>dblocks := D, executing := Some Dummy\<rparr>) = s\<lparr>dblocks := E, executing := Some Dummy\<rparr>"
    unfolding E by (simp add: set_state_def upd_block_def)
  have "waiting_st (set_state b DVD_STATE_FATAL (s\<lparr>dblocks := D, executing := Some Dummy\<rparr>)) (q(i := bs))"
    using D(2) by (simp add: waiting_st_def [of "s\<lparr>dblocks := D, executing := Some Dummy\<rparr>"])
  then have w: "waiting E (q(i := bs))" by (simp add: waiting_st_def E)
  have d: "data E = mark DVD_STATE_FATAL {b} (data (dblocks s))" using D(3) unfolding E by (auto simp: mark_def fun_eq_iff)
  have "cb_callback (E b) = cb_callback (dblocks s b)"
    using arg_cong [OF D(3), of "\<lambda>f. cb_callback (f b)"] unfolding E by (simp add: data_sel set_state_def upd_block_def)
  then have "finish call DVD_STATE_FATAL DVD_RESULT_FATAL_ERROR (s\<lparr>dblocks := D, executing := Some b\<rparr>) =
      Some (b, s\<lparr>dblocks := E, executing := Some Dummy, issued := issued s @ heard note (dblocks s) DVD_RESULT_FATAL_ERROR b\<rparr>)"
    by (simp add: finish_def s' observer_callback [OF assms(1)] heard_def Let_def)
  then have "stateReady_step call s =
      Some (s\<lparr>dblocks := E, executing := Some Dummy, issued := issued s @ heard note (dblocks s) DVD_RESULT_FATAL_ERROR b\<rparr>, [Ready])"
    using assms(2,3) by (simp add: stateReady_step_def c D(1) Let_def)
  then show ?thesis using w d by blast
qed

lemma stateReady_fatal:
  assumes "observer call note" "FatalErrorFlag s" "\<not> PauseFlag s" "waiting_st s q"
  shows "\<exists>D. stateReady call s = Some (s\<lparr>dblocks := D, executing := None,
      issued := issued s @ concat (map (heard note (dblocks s) DVD_RESULT_FATAL_ERROR) (all_waiting q))\<rparr>) \<and>
    waiting D (\<lambda>_. []) \<and> data D = mark DVD_STATE_FATAL (set (all_waiting q)) (data (dblocks s))"
  using assms(2-4)
proof (induction "length (all_waiting q)" arbitrary: s q)
  case 0
  then have e: "all_waiting q = []" by simp
  then have w: "waiting_st s (\<lambda>_. [])" using 0 all_waiting_Nil by (simp add: waiting_st_def)
  then show ?case using stateReady_nothing [OF w, of call] e
    by (intro exI [of _ "dblocks s"]) (simp add: waiting_st_def mark_def)
next
  case (Suc n)
  obtain i where i: "first_prio q = Some i" using Suc.hyps(2) first_prio_None [of q] by fastforce
  obtain b bs where q: "q i = b # bs" using first_prio_SomeD(2) [OF i] by (cases "q i") auto
  obtain D where D: "stateReady_step call s =
      Some (s\<lparr>dblocks := D, executing := Some Dummy, issued := issued s @ heard note (dblocks s) DVD_RESULT_FATAL_ERROR b\<rparr>, [Ready])"
    "waiting D (q(i := bs))" "data D = mark DVD_STATE_FATAL {b} (data (dblocks s))"
    using stateReady_step_fatal [OF assms(1) Suc.prems i q] by blast
  let ?s = "s\<lparr>dblocks := D, executing := Some Dummy, issued := issued s @ heard note (dblocks s) DVD_RESULT_FATAL_ERROR b\<rparr>"
  have a: "all_waiting q = b # all_waiting (q(i := bs))" by (rule first_prio_all [OF i q])
  have "n = length (all_waiting (q(i := bs)))" "FatalErrorFlag ?s" "\<not> PauseFlag ?s" "waiting_st ?s (q(i := bs))"
    using a Suc.hyps(2) Suc.prems D(2) by (simp_all add: waiting_st_def)
  from Suc.hyps(1) [OF this] obtain E where E: "stateReady call ?s = Some (?s\<lparr>dblocks := E, executing := None,
      issued := issued ?s @ concat (map (heard note (dblocks ?s) DVD_RESULT_FATAL_ERROR) (all_waiting (q(i := bs))))\<rparr>)"
    "waiting E (\<lambda>_. [])" "data E = mark DVD_STATE_FATAL (set (all_waiting (q(i := bs)))) (data (dblocks ?s))" by blast
  have "cb_callback (D x) = cb_callback (dblocks s x)" for x
    using arg_cong [OF D(3), of "\<lambda>f. cb_callback (f x)"] by (auto simp: data_sel mark_def split: if_splits)
  then have h: "heard note D DVD_RESULT_FATAL_ERROR = heard note (dblocks s) DVD_RESULT_FATAL_ERROR" by (simp add: heard_def fun_eq_iff)
  have m: "data E = mark DVD_STATE_FATAL (set (all_waiting q)) (data (dblocks s))"
    using E(3) D(3) a by (auto simp: mark_def fun_eq_iff)
  have "stateReady call s = stateReady call ?s" unfolding stateReady_unfold [of call s] D(1) by (simp add: stateReady_def)
  then show ?case using E(1,2) m h a by (intro exI [of _ E]) simp
qed

text \<open>A paused drive chooses no command.\<close>

lemma stateReady_paused:
  assumes "waiting_st s q" "PauseFlag s" "PausingFlag s = p" "executing s \<noteq> None"
  shows "stateReady call s = Some (s\<lparr>PausingFlag := p \<or> all_waiting q \<noteq> [], executing := None\<rparr>)"
proof (cases "all_waiting q = []")
  case True
  then have "waiting_st s (\<lambda>_. [])" using assms(1) all_waiting_Nil by (simp add: waiting_st_def)
  moreover have "s\<lparr>PausingFlag := p, executing := None\<rparr> = s\<lparr>executing := None\<rparr>"
    by (rule drive.equality) (simp_all add: assms(3))
  ultimately show ?thesis using stateReady_nothing [of s call] True by simp
next
  case False
  then have "DVDCheckWaitingQueue s = (True, s)" using check_waiting [OF assms(1)] by simp
  then show ?thesis using assms(2) False
    by (simp add: stateReady_def run_tasks.simps [of call "[Ready]"] run_tasks.simps [of call "[]"] stateReady_step_def)
qed

text \<open>The handler of the last error of a command, up to the choice of the next one.\<close>

definition fatal_notes :: "(int \<Rightarrow> int \<Rightarrow> dptr option \<Rightarrow> low list) \<Rightarrow> drive \<Rightarrow> dptr \<Rightarrow> low list" where
  "fatal_notes note s b = heard note (dblocks s) DVD_RESULT_FATAL_ERROR b @
     (if Canceling s then noted note (CancelCallback s) DVD_RESULT_GOOD b else [])"

lemma fatal_to_ready:
  assumes "observer call note" "\<not> auto_fatal s" "executing s = Some b" "waiting (dblocks s) q"
    "intType \<noteq> DVD_INTTYPE_TIME" "intType \<noteq> DVD_INTTYPE_SERR"
  obtains E where "on_answer call CbStateError intType s = stateReady call (s\<lparr>dblocks := E, FatalErrorFlag := True,
      Canceling := False, executing := Some Dummy, issued := issued s @ fatal_notes note s b\<rparr>)"
    "waiting E q" "data E = mark DVD_STATE_FATAL {b} (data (dblocks s))"
    "heard note E DVD_RESULT_FATAL_ERROR = heard note (dblocks s) DVD_RESULT_FATAL_ERROR"
proof -
  obtain E where E: "E = dblocks (set_state b DVD_STATE_FATAL s)" by blast
  have s1: "set_state b DVD_STATE_FATAL s = s\<lparr>dblocks := E\<rparr>" unfolding E by (simp add: set_state_def upd_block_def)
  have w: "waiting E q" using waiting_st_set_state [of b DVD_STATE_FATAL s q] assms(4) unfolding E by (simp add: waiting_st_def)
  have d: "data E = mark DVD_STATE_FATAL {b} (data (dblocks s))" unfolding E by (auto simp: mark_def fun_eq_iff)
  have c: "cb_callback (E x) = cb_callback (dblocks s x)" for x unfolding E by (simp add: set_state_def upd_block_def)
  let ?n = "heard note (dblocks s) DVD_RESULT_FATAL_ERROR b"
  let ?r = "s\<lparr>dblocks := E, FatalErrorFlag := True, executing := Some Dummy, issued := issued s @ ?n\<rparr>"
  let ?s = "s\<lparr>dblocks := E, FatalErrorFlag := True, Canceling := False, executing := Some Dummy,
    issued := issued s @ fatal_notes note s b\<rparr>"
  have "on_answer call CbStateError intType s = stateReady call (if Canceling s
      then ?r\<lparr>Canceling := False, issued := issued s @ ?n @ noted note (CancelCallback s) DVD_RESULT_GOOD b\<rparr> else ?r)"
    using assms(2,3,5,6) c by (simp add: cbForStateError_def set_exec_state_def s1 on_interrupt_def observer_callback [OF assms(1)] heard_def Let_def)
  moreover have "(if Canceling s
      then ?r\<lparr>Canceling := False, issued := issued s @ ?n @ noted note (CancelCallback s) DVD_RESULT_GOOD b\<rparr> else ?r) = ?s"
    by (rule drive.equality) (simp_all add: fatal_notes_def)
  ultimately have "on_answer call CbStateError intType s = stateReady call ?s" by (rule trans [OF _ arg_cong [of _ _ "stateReady call"]])
  moreover have "heard note E DVD_RESULT_FATAL_ERROR = heard note (dblocks s) DVD_RESULT_FATAL_ERROR" using c by (simp add: heard_def fun_eq_iff)
  ultimately show thesis using that w d by blast
qed

lemma fatal_not_paused:
  assumes "observer call note" "\<not> auto_fatal s" "executing s = Some b" "\<not> PauseFlag s" "waiting (dblocks s) q"
    "intType \<noteq> DVD_INTTYPE_TIME" "intType \<noteq> DVD_INTTYPE_SERR"
  shows "\<exists>D. on_answer call CbStateError intType s = Some (s\<lparr>FatalErrorFlag := True, Canceling := False, dblocks := D, executing := None,
      issued := issued s @ fatal_notes note s b @ concat (map (heard note (dblocks s) DVD_RESULT_FATAL_ERROR) (all_waiting q))\<rparr>) \<and>
    waiting D (\<lambda>_. []) \<and> data D = mark DVD_STATE_FATAL (set (b # all_waiting q)) (data (dblocks s))"
proof -
  obtain E where E: "on_answer call CbStateError intType s = stateReady call (s\<lparr>dblocks := E, FatalErrorFlag := True,
      Canceling := False, executing := Some Dummy, issued := issued s @ fatal_notes note s b\<rparr>)"
    "waiting E q" "data E = mark DVD_STATE_FATAL {b} (data (dblocks s))"
    "heard note E DVD_RESULT_FATAL_ERROR = heard note (dblocks s) DVD_RESULT_FATAL_ERROR"
    by (rule fatal_to_ready [OF assms(1-3,5-7)])
  let ?s = "s\<lparr>dblocks := E, FatalErrorFlag := True, Canceling := False, executing := Some Dummy,
    issued := issued s @ fatal_notes note s b\<rparr>"
  have "waiting_st ?s q" "FatalErrorFlag ?s" "\<not> PauseFlag ?s" using E(2) assms(4) by (simp_all add: waiting_st_def)
  then obtain D where "stateReady call ?s = Some (?s\<lparr>dblocks := D, executing := None,
      issued := issued ?s @ concat (map (heard note (dblocks ?s) DVD_RESULT_FATAL_ERROR) (all_waiting q))\<rparr>)"
    "waiting D (\<lambda>_. [])" "data D = mark DVD_STATE_FATAL (set (all_waiting q)) (data (dblocks ?s))"
    using stateReady_fatal [OF assms(1), of ?s q] by blast
  moreover have "mark DVD_STATE_FATAL (set (all_waiting q)) (data E) = mark DVD_STATE_FATAL (set (b # all_waiting q)) (data (dblocks s))"
    unfolding E(3) by (auto simp: mark_def fun_eq_iff)
  ultimately show ?thesis using E(1,4) by (intro exI [of _ D]) simp
qed

lemma resume_fatal:
  assumes "observer call note" "FatalErrorFlag s" "PausingFlag s" "executing s = None" "waiting (dblocks s) q"
  shows "\<exists>D. DVDResume call s = Some (s\<lparr>PauseFlag := False, PausingFlag := False, dblocks := D,
      issued := issued s @ concat (map (heard note (dblocks s) DVD_RESULT_FATAL_ERROR) (all_waiting q))\<rparr>) \<and>
    waiting D (\<lambda>_. []) \<and> data D = mark DVD_STATE_FATAL (set (all_waiting q)) (data (dblocks s))"
proof -
  let ?s = "s\<lparr>irq_enabled := False, PauseFlag := False, PausingFlag := False\<rparr>"
  have "waiting_st ?s q" "FatalErrorFlag ?s" "\<not> PauseFlag ?s" using assms by (simp_all add: waiting_st_def)
  then obtain D where D: "stateReady call ?s = Some (?s\<lparr>dblocks := D, executing := None,
      issued := issued ?s @ concat (map (heard note (dblocks ?s) DVD_RESULT_FATAL_ERROR) (all_waiting q))\<rparr>)"
    "waiting D (\<lambda>_. [])" "data D = mark DVD_STATE_FATAL (set (all_waiting q)) (data (dblocks ?s))"
    using stateReady_fatal [OF assms(1), of ?s q] by blast
  have "s\<lparr>PauseFlag := False, PausingFlag := False, dblocks := D, issued := l\<rparr> =
      s\<lparr>irq_enabled := irq_enabled s, PauseFlag := False, PausingFlag := False, executing := None, dblocks := D, issued := l\<rparr>" for l
    by (rule drive.equality) (simp_all add: assms(4))
  then show ?thesis using D assms(3)
    by (intro exI [of _ D]) (simp add: DVDResume_def OSDisableInterrupts_def OSRestoreInterrupts_def)
qed

lemma fatal_paused:
  assumes "observer call note" "\<not> auto_fatal s" "executing s = Some b" "PauseFlag s" "waiting (dblocks s) q"
    "intType \<noteq> DVD_INTTYPE_TIME" "intType \<noteq> DVD_INTTYPE_SERR"
  shows "\<exists>D t. on_answer call CbStateError intType s = Some t \<and>
    t = s\<lparr>FatalErrorFlag := True, Canceling := False, PausingFlag := PausingFlag s \<or> all_waiting q \<noteq> [], dblocks := D,
      executing := None, issued := issued s @ fatal_notes note s b\<rparr> \<and>
    waiting D q \<and> data D = mark DVD_STATE_FATAL {b} (data (dblocks s)) \<and>
    (all_waiting q \<noteq> [] \<longrightarrow> (\<exists>E. DVDResume call t = Some (t\<lparr>PauseFlag := False, PausingFlag := False, dblocks := E,
        issued := issued t @ concat (map (heard note (dblocks s) DVD_RESULT_FATAL_ERROR) (all_waiting q))\<rparr>) \<and>
      waiting E (\<lambda>_. []) \<and> data E = mark DVD_STATE_FATAL (set (b # all_waiting q)) (data (dblocks s))))"
proof -
  obtain E where E: "on_answer call CbStateError intType s = stateReady call (s\<lparr>dblocks := E, FatalErrorFlag := True,
      Canceling := False, executing := Some Dummy, issued := issued s @ fatal_notes note s b\<rparr>)"
    "waiting E q" "data E = mark DVD_STATE_FATAL {b} (data (dblocks s))"
    "heard note E DVD_RESULT_FATAL_ERROR = heard note (dblocks s) DVD_RESULT_FATAL_ERROR"
    by (rule fatal_to_ready [OF assms(1-3,5-7)])
  let ?s = "s\<lparr>dblocks := E, FatalErrorFlag := True, Canceling := False, executing := Some Dummy,
    issued := issued s @ fatal_notes note s b\<rparr>"
  let ?t = "s\<lparr>FatalErrorFlag := True, Canceling := False, PausingFlag := PausingFlag s \<or> all_waiting q \<noteq> [], dblocks := E,
      executing := None, issued := issued s @ fatal_notes note s b\<rparr>"
  have "waiting_st ?s q" using E(2) by (simp add: waiting_st_def)
  then have r: "on_answer call CbStateError intType s = Some ?t"
    unfolding E(1) using stateReady_paused [of ?s q "PausingFlag s" call] assms(4) by simp
  have "\<exists>F. DVDResume call ?t = Some (?t\<lparr>PauseFlag := False, PausingFlag := False, dblocks := F,
        issued := issued ?t @ concat (map (heard note (dblocks s) DVD_RESULT_FATAL_ERROR) (all_waiting q))\<rparr>) \<and>
      waiting F (\<lambda>_. []) \<and> data F = mark DVD_STATE_FATAL (set (b # all_waiting q)) (data (dblocks s))" if "all_waiting q \<noteq> []"
  proof -
    have "FatalErrorFlag ?t" "PausingFlag ?t" "executing ?t = None" "waiting (dblocks ?t) q" using that E(2) by simp_all
    then obtain F where F: "DVDResume call ?t = Some (?t\<lparr>PauseFlag := False, PausingFlag := False, dblocks := F,
        issued := issued ?t @ concat (map (heard note (dblocks ?t) DVD_RESULT_FATAL_ERROR) (all_waiting q))\<rparr>)"
      "waiting F (\<lambda>_. [])" "data F = mark DVD_STATE_FATAL (set (all_waiting q)) (data (dblocks ?t))"
      using resume_fatal [OF assms(1), of ?t q] by blast
    have "mark DVD_STATE_FATAL (set (all_waiting q)) (data E) = mark DVD_STATE_FATAL (set (b # all_waiting q)) (data (dblocks s))"
      unfolding E(3) by (auto simp: mark_def fun_eq_iff)
    then show ?thesis using F E(4) by (intro exI [of _ F]) simp
  qed
  then show ?thesis using r E(2,3) by blast
qed

text \<open>C25. What the handler of a command's last error does, for callbacks that only observe.
  With automatic fatal messages, which \<^verbatim>\<open>DVDInit\<close> switches on and only
  \<^verbatim>\<open>DVDSetAutoFatalMessaging(FALSE)\<close> switches off, it sets the alarm that shows the message
  and ends nothing: no state changes and no callback is called.  Without them, a time-out or a
  security error of the drive marks the running command as failed and stores the error once more.
  Otherwise a fatal error reaches everyone: the running command and then every command that waits, in the
  order of the queues, gets the state \<^verbatim>\<open>DVD_STATE_FATAL\<close> and its callback hears
  \<^verbatim>\<open>DVD_RESULT_FATAL_ERROR\<close> once; a pending cancellation is answered in between; nothing
  waits and nothing runs afterwards.  On a drive that is paused the running command fails at once, and
  those that wait, if any, fail in the same way when the drive is resumed.\<close>

theorem fatal_error_reaches_all:
  assumes "observer call note" "executing s = Some b" "waiting (dblocks s) q"
  shows "(auto_fatal s \<longrightarrow> on_answer call CbStateError intType s = Some (issue SetFatalAlarm s)) \<and>
    (\<not> auto_fatal s \<and> intType \<in> {DVD_INTTYPE_TIME, DVD_INTTYPE_SERR} \<longrightarrow>
      on_answer call CbStateError intType s = Some (issue (StoreErrorCode (if intType = DVD_INTTYPE_TIME then NAND_ERROR_TIMEOUT
        else NAND_ERROR_SECURITY) CbStoreErrorCode2) (set_state b DVD_STATE_FATAL s))) \<and>
    (\<not> auto_fatal s \<and> intType \<notin> {DVD_INTTYPE_TIME, DVD_INTTYPE_SERR} \<and> \<not> PauseFlag s \<longrightarrow>
      (\<exists>D. on_answer call CbStateError intType s = Some (s\<lparr>FatalErrorFlag := True, Canceling := False, dblocks := D, executing := None,
          issued := issued s @ heard note (dblocks s) DVD_RESULT_FATAL_ERROR b @
            (if Canceling s then noted note (CancelCallback s) DVD_RESULT_GOOD b else []) @
            concat (map (heard note (dblocks s) DVD_RESULT_FATAL_ERROR) (all_waiting q))\<rparr>) \<and>
        waiting D (\<lambda>_. []) \<and> data D = mark DVD_STATE_FATAL (set (b # all_waiting q)) (data (dblocks s)))) \<and>
    (\<not> auto_fatal s \<and> intType \<notin> {DVD_INTTYPE_TIME, DVD_INTTYPE_SERR} \<and> PauseFlag s \<longrightarrow>
      (\<exists>D t. on_answer call CbStateError intType s = Some t \<and>
        t = s\<lparr>FatalErrorFlag := True, Canceling := False, PausingFlag := PausingFlag s \<or> all_waiting q \<noteq> [], dblocks := D,
          executing := None, issued := issued s @ heard note (dblocks s) DVD_RESULT_FATAL_ERROR b @
            (if Canceling s then noted note (CancelCallback s) DVD_RESULT_GOOD b else [])\<rparr> \<and>
        waiting D q \<and> data D = mark DVD_STATE_FATAL {b} (data (dblocks s)) \<and>
        (all_waiting q \<noteq> [] \<longrightarrow> (\<exists>E. DVDResume call t = Some (t\<lparr>PauseFlag := False, PausingFlag := False, dblocks := E,
            issued := issued t @ concat (map (heard note (dblocks s) DVD_RESULT_FATAL_ERROR) (all_waiting q))\<rparr>) \<and>
          waiting E (\<lambda>_. []) \<and> data E = mark DVD_STATE_FATAL (set (b # all_waiting q)) (data (dblocks s))))))"
proof -
  have "auto_fatal s \<longrightarrow> on_answer call CbStateError intType s = Some (issue SetFatalAlarm s)"
    by (simp add: cbForStateError_def)
  moreover have "\<not> auto_fatal s \<and> intType \<in> {DVD_INTTYPE_TIME, DVD_INTTYPE_SERR} \<longrightarrow>
      on_answer call CbStateError intType s = Some (issue (StoreErrorCode (if intType = DVD_INTTYPE_TIME then NAND_ERROR_TIMEOUT
        else NAND_ERROR_SECURITY) CbStoreErrorCode2) (set_state b DVD_STATE_FATAL s))"
    using assms(2) by (auto simp: cbForStateError_def set_exec_state_def on_interrupt_def stateTimeout_def stateSecurityError_def)
  moreover note fatal_not_paused [OF assms(1) _ assms(2) _ assms(3), of intType, unfolded fatal_notes_def append_assoc]
    fatal_paused [OF assms(1) _ assms(2) _ assms(3), of intType, unfolded fatal_notes_def append_assoc]
  ultimately show ?thesis by (intro conjI; blast)
qed

section \<open>A read\<close>

text \<open>Piece \<open>k\<close> of a read of \<open>n\<close> bytes, and their number.\<close>

definition piece :: "int \<Rightarrow> int \<Rightarrow> int \<Rightarrow> int \<Rightarrow> low" where
  "piece dst n ofs k =
     LowRead (u32 (dst + k * MAX_TRANSFER_SIZE)) (min MAX_TRANSFER_SIZE (n - k * MAX_TRANSFER_SIZE))
       (u32 (ofs + k * MAX_TRANSFER_SIZE div 4)) CbStateBusy"

definition pieces :: "int \<Rightarrow> nat" where
  "pieces n = nat ((n + MAX_TRANSFER_SIZE - 1) div MAX_TRANSFER_SIZE)"

text \<open>The drive answers \<open>k\<close> times that the transfer is complete.\<close>

fun answers :: "call \<Rightarrow> nat \<Rightarrow> drive \<Rightarrow> drive option" where
  "answers call 0 s = Some s"
| "answers call (Suc k) s = do { s \<leftarrow> on_answer call CbStateBusy DVD_INTTYPE_TC s; answers call k s }"

definition read_block :: "DVDCommandBlock \<Rightarrow> int \<Rightarrow> int \<Rightarrow> int \<Rightarrow> int \<Rightarrow> int \<Rightarrow> bool" where
  "read_block blk dst n ofs cb k \<longleftrightarrow> cb_command blk = COMMAND_READ \<and> cb_addr blk = dst \<and> cb_length blk = n \<and> cb_offset blk = ofs \<and>
     cb_callback blk = cb \<and> cb_transferTotal blk = k * MAX_TRANSFER_SIZE"

text \<open>The state while piece \<open>k\<close> is being read, and what a step leaves alone.\<close>

definition ready_to_read :: "drive \<Rightarrow> dptr \<Rightarrow> bool" where
  "ready_to_read s b \<longleftrightarrow> executing s = Some b \<and> CurrCommand s = COMMAND_READ \<and> \<not> Canceling s \<and> \<not> Breaking s \<and> waiting_st s (\<lambda>_. [])"

definition in_read :: "drive \<Rightarrow> dptr \<Rightarrow> int \<Rightarrow> int \<Rightarrow> int \<Rightarrow> int \<Rightarrow> int \<Rightarrow> bool" where
  "in_read s b dst n ofs cb k \<longleftrightarrow> ready_to_read s b \<and> read_block (dblocks s b) dst n ofs cb k \<and>
     cb_transferSize (dblocks s b) = min MAX_TRANSFER_SIZE (n - k * MAX_TRANSFER_SIZE)"

lemma waiting_st_more:
  "dblocks s' = dblocks s \<Longrightarrow> waiting_st s' q = waiting_st s q"
  by (simp add: waiting_st_def)

lemma stamp_sel:
  "executing (StampCommand c x y s) = executing s" "CurrCommand (StampCommand c x y s) = CurrCommand s"
  "Canceling (StampCommand c x y s) = Canceling s" "Breaking (StampCommand c x y s) = Breaking s"
  "dblocks (StampCommand c x y s) = dblocks s" "issued (StampCommand c x y s) = issued s" "finfos (StampCommand c x y s) = finfos s"
  "executing (StampIntType i s) = executing s" "CurrCommand (StampIntType i s) = CurrCommand s"
  "Canceling (StampIntType i s) = Canceling s" "Breaking (StampIntType i s) = Breaking s"
  "dblocks (StampIntType i s) = dblocks s" "issued (StampIntType i s) = issued s" "finfos (StampIntType i s) = finfos s"
  by (simp_all add: StampCommand_def StampIntType_def Let_def)

lemma block_sel:
  "executing (upd_block b f s) = executing s" "CurrCommand (upd_block b f s) = CurrCommand s" "Canceling (upd_block b f s) = Canceling s"
  "Breaking (upd_block b f s) = Breaking s" "issued (upd_block b f s) = issued s" "finfos (upd_block b f s) = finfos s"
  "dblocks (upd_block b f s) b = f (dblocks s b)"
  "executing (issue r s) = executing s" "CurrCommand (issue r s) = CurrCommand s" "Canceling (issue r s) = Canceling s"
  "Breaking (issue r s) = Breaking s" "issued (issue r s) = issued s @ [r]" "finfos (issue r s) = finfos s" "dblocks (issue r s) = dblocks s"
  by (simp_all add: upd_block_def issue_def)

lemma waiting_st_sel:
  "waiting_st (issue r s) q = waiting_st s q" "waiting_st (StampCommand c x y s) q = waiting_st s q"
  "waiting_st (StampIntType i s) q = waiting_st s q"
  by (simp_all add: waiting_st_def block_sel stamp_sel)

lemma stateBusy_piece:
  assumes "ready_to_read s b" "read_block (dblocks s b) dst n ofs cb k" "0 \<le> k" "k * MAX_TRANSFER_SIZE < n" "n < 2 ^ 32"
  shows "\<exists>s'. stateBusy call b s = Some s' \<and> in_read s' b dst n ofs cb k \<and>
    issued s' = issued s @ [LowClearCoverInterrupt, piece dst n ofs k] \<and> finfos s' = finfos s"
proof -
  let ?m = "min MAX_TRANSFER_SIZE (n - k * MAX_TRANSFER_SIZE)"
  let ?s1 = "upd_block b (cb_transferSize_update (\<lambda>_. ?m)) (issue LowClearCoverInterrupt (s\<lparr>LastState := Some StBusy\<rparr>))"
  let ?o = "u32 (ofs + DVD_LOW_OFFSET (k * MAX_TRANSFER_SIZE))"
  let ?s2 = "issue (piece dst n ofs k) (StampCommand COMMAND_READ ?o ?m ?s1)"
  have blk: "cb_command (dblocks s b) = COMMAND_READ" "cb_length (dblocks s b) = n" "cb_transferTotal (dblocks s b) = k * MAX_TRANSFER_SIZE"
    "cb_offset (dblocks s b) = ofs" "cb_addr (dblocks s b) = dst" using assms(2) by (simp_all add: read_block_def)
  have rest: "u32 (n - k * MAX_TRANSFER_SIZE) = n - k * MAX_TRANSFER_SIZE" using assms(3-5) by (intro u32_id) auto
  have m: "(if MAX_TRANSFER_SIZE < n - k * MAX_TRANSFER_SIZE then MAX_TRANSFER_SIZE else n - k * MAX_TRANSFER_SIZE) = ?m" by simp
  have n0: "n \<noteq> 0" using assms(3,4) by auto
  have "stateBusy_step call b s = Some (?s2, [])"
    using n0 by (simp add: stateBusy_step_def busy_switch_def read_chunk_def blk rest block_sel m Let_def piece_def DVD_LOW_OFFSET_def cong: if_cong)
  then have "stateBusy call b s = Some ?s2"
    by (simp add: stateBusy_def run_tasks.simps [of call "[Busy b]"] run_tasks.simps [of call "[]"])
  moreover have "waiting_st ?s2 (\<lambda>_. [])" using assms(1)
    by (simp add: waiting_st_sel ready_to_read_def waiting_st_more [of "s\<lparr>LastState := Some StBusy\<rparr>" s])
  ultimately show ?thesis using assms(1,2)
    by (intro exI [of _ ?s2]) (simp add: in_read_def ready_to_read_def read_block_def stamp_sel block_sel)
qed

lemma answer_counts:
  assumes "in_read s b dst n ofs cb k" "0 \<le> k" "k * MAX_TRANSFER_SIZE < n" "n < 2 ^ 32"
  shows "\<exists>s1. on_answer call CbStateBusy DVD_INTTYPE_TC s =
      (if cb_transferTotal (dblocks s1 b) \<noteq> n then stateBusy call b s1 else finish_total call s1) \<and> ready_to_read s1 b \<and>
    dblocks s1 b = (dblocks s b)\<lparr>cb_transferTotal := min n ((k + 1) * MAX_TRANSFER_SIZE)\<rparr> \<and> issued s1 = issued s \<and> finfos s1 = finfos s"
proof -
  let ?m = "min MAX_TRANSFER_SIZE (n - k * MAX_TRANSFER_SIZE)" let ?t = "min n ((k + 1) * MAX_TRANSFER_SIZE)"
  have r: "ready_to_read s b" and blk: "cb_length (dblocks s b) = n" "cb_transferTotal (dblocks s b) = k * MAX_TRANSFER_SIZE"
    "cb_transferSize (dblocks s b) = ?m" using assms(1) by (simp_all add: in_read_def read_block_def)
  have t: "u32 (k * MAX_TRANSFER_SIZE + ?m) = ?t" using assms(2-4) by (subst u32_id) (auto simp: min_def algebra_simps)
  let ?s0 = "upd_block b (\<lambda>blk. blk\<lparr>cb_transferTotal := u32 (cb_transferTotal blk + cb_transferSize blk)\<rparr>) (StampIntType DVD_INTTYPE_TC s)"
  let ?s1 = "?s0\<lparr>NumInternalRetry := 0\<rparr>"
  have b1: "dblocks ?s1 b = (dblocks s b)\<lparr>cb_transferTotal := ?t\<rparr>" using blk t by (simp add: block_sel stamp_sel)
  have dma: "IsDmaCommand COMMAND_READ" by (simp add: IsDmaCommand_def)
  have "on_answer call CbStateBusy DVD_INTTYPE_TC s = transaction_done call ?s0"
    using r by (simp add: cbForStateBusy_def on_interrupt_def count_transfer_def ready_to_read_def stamp_sel block_sel dma)
  also have "\<dots> = (if cb_transferTotal (dblocks ?s1 b) \<noteq> n then stateBusy call b ?s1 else finish_total call ?s1)"
    using r blk(1) by (simp add: transaction_done_def CheckCancel_def ready_to_read_def stamp_sel block_sel dma Let_def)
  finally have "on_answer call CbStateBusy DVD_INTTYPE_TC s =
      (if cb_transferTotal (dblocks ?s1 b) \<noteq> n then stateBusy call b ?s1 else finish_total call ?s1)" .
  moreover have "ready_to_read ?s1 b"
    using r by (simp add: ready_to_read_def block_sel stamp_sel waiting_st_sel waiting_st_more [of ?s1 ?s0])
  moreover have "issued ?s1 = issued s" "finfos ?s1 = finfos s" by (simp_all add: block_sel stamp_sel)
  ultimately show ?thesis using b1 by blast
qed

lemma answer_next:
  assumes "in_read s b dst n ofs cb k" "0 \<le> k" "(k + 1) * MAX_TRANSFER_SIZE < n" "n < 2 ^ 32"
  shows "\<exists>s'. on_answer call CbStateBusy DVD_INTTYPE_TC s = Some s' \<and> in_read s' b dst n ofs cb (k + 1) \<and>
    issued s' = issued s @ [LowClearCoverInterrupt, piece dst n ofs (k + 1)] \<and> finfos s' = finfos s"
proof -
  have "k * MAX_TRANSFER_SIZE < n" using assms(3) by simp
  from answer_counts [OF assms(1,2) this assms(4)] obtain s1 where
    s1: "on_answer call CbStateBusy DVD_INTTYPE_TC s = (if cb_transferTotal (dblocks s1 b) \<noteq> n then stateBusy call b s1 else finish_total call s1)"
    "ready_to_read s1 b" "dblocks s1 b = (dblocks s b)\<lparr>cb_transferTotal := min n ((k + 1) * MAX_TRANSFER_SIZE)\<rparr>"
    "issued s1 = issued s" "finfos s1 = finfos s" by blast
  have t: "cb_transferTotal (dblocks s1 b) = (k + 1) * MAX_TRANSFER_SIZE" using s1(3) assms(3) by simp
  have "read_block (dblocks s1 b) dst n ofs cb (k + 1)" using assms(1) s1(3) t by (simp add: in_read_def read_block_def)
  from stateBusy_piece [OF s1(2) this _ assms(3,4), of call] show ?thesis using s1(1,4,5) t assms(2,3) by auto
qed

lemma answer_last:
  assumes "in_read s b dst n ofs cb k" "0 \<le> k" "k * MAX_TRANSFER_SIZE < n" "n \<le> (k + 1) * MAX_TRANSFER_SIZE" "n < 2 ^ 32"
  shows "\<exists>s1. on_answer call CbStateBusy DVD_INTTYPE_TC s = stateReady call (callback call cb (s32 n) (Some b) s1) \<and>
    cb_state (dblocks s1 b) = DVD_STATE_IDLE \<and> cb_transferTotal (dblocks s1 b) = n \<and> executing s1 = Some Dummy \<and>
    waiting_st s1 (\<lambda>_. []) \<and> issued s1 = issued s \<and> finfos s1 = finfos s"
proof -
  from answer_counts [OF assms(1,2,3,5)] obtain s1 where
    s1: "on_answer call CbStateBusy DVD_INTTYPE_TC s = (if cb_transferTotal (dblocks s1 b) \<noteq> n then stateBusy call b s1 else finish_total call s1)"
    "ready_to_read s1 b" "dblocks s1 b = (dblocks s b)\<lparr>cb_transferTotal := min n ((k + 1) * MAX_TRANSFER_SIZE)\<rparr>"
    "issued s1 = issued s" "finfos s1 = finfos s" by blast
  have t: "cb_transferTotal (dblocks s1 b) = n" "cb_callback (dblocks s1 b) = cb"
    using s1(3) assms(1,4) by (simp_all add: in_read_def read_block_def)
  let ?s = "set_state b DVD_STATE_IDLE (s1\<lparr>executing := Some Dummy\<rparr>)"
  have "waiting_st ?s (\<lambda>_. [])" using s1(2) by (simp add: ready_to_read_def waiting_st_more [of "s1\<lparr>executing := Some Dummy\<rparr>" s1])
  moreover have "on_answer call CbStateBusy DVD_INTTYPE_TC s = stateReady call (callback call cb (s32 n) (Some b) ?s)"
    using s1(1,2) t by (simp add: finish_total_def finish_ready_def finish_def ready_to_read_def set_state_def block_sel Let_def)
  ultimately show ?thesis using t s1(4,5) by (intro exI [of _ ?s]) (simp add: set_state_def block_sel)
qed

lemma answers_snoc: "answers call (Suc k) s = do { s \<leftarrow> answers call k s; on_answer call CbStateBusy DVD_INTTYPE_TC s }"
proof (induction k arbitrary: s)
  case (Suc k)
  then show ?case by (cases "cbForStateBusy call DVD_INTTYPE_TC s") simp_all
next
  case 0
  show ?case by (cases "cbForStateBusy call DVD_INTTYPE_TC s") simp_all
qed

lemma answers_run:
  assumes "in_read s b dst n ofs cb 0" "int k * MAX_TRANSFER_SIZE < n" "n < 2 ^ 32"
  shows "\<exists>s'. answers call k s = Some s' \<and> in_read s' b dst n ofs cb (int k) \<and> finfos s' = finfos s \<and>
    issued s' = issued s @ concat (map (\<lambda>j. [LowClearCoverInterrupt, piece dst n ofs (int j)]) [1..<Suc k])"
  using assms(2)
proof (induction k)
  case 0
  then show ?case using assms(1) by simp
next
  case (Suc k)
  then obtain s1 where s1: "answers call k s = Some s1" "in_read s1 b dst n ofs cb (int k)" "finfos s1 = finfos s"
    "issued s1 = issued s @ concat (map (\<lambda>j. [LowClearCoverInterrupt, piece dst n ofs (int j)]) [1..<Suc k])" by auto
  have "(int k + 1) * MAX_TRANSFER_SIZE < n" using Suc.prems by simp
  from answer_next [OF s1(2) _ this assms(3), of call] obtain s' where
    "on_answer call CbStateBusy DVD_INTTYPE_TC s1 = Some s'" "in_read s' b dst n ofs cb (int k + 1)"
    "issued s' = issued s1 @ [LowClearCoverInterrupt, piece dst n ofs (int k + 1)]" "finfos s' = finfos s1" by auto
  then show ?case using s1 by (intro exI [of _ s']) (simp add: answers_snoc del: answers.simps add: add.commute)
qed

definition idle_drive :: "drive \<Rightarrow> bool" where
  "idle_drive s \<longleftrightarrow> executing s = None \<and> waiting_st s (\<lambda>_. []) \<and> \<not> PauseFlag s \<and> \<not> FatalErrorFlag s \<and> \<not> Canceling s \<and> \<not> Breaking s \<and>
     MotorState s = MOTOR_STATE_WORKING \<and> ResumeFromHere s = RESUME_POINT_NONE"

lemma stateReady_starts:
  assumes "waiting_st s ((\<lambda>_. [])(i := [b]))" "i \<in> prios" "\<not> PauseFlag s" "\<not> FatalErrorFlag s"
    "MotorState s = MOTOR_STATE_WORKING" "ResumeFromHere s = RESUME_POINT_NONE"
  shows "\<exists>D. stateReady call s = stateBusy call b (set_state b DVD_STATE_BUSY (s\<lparr>dblocks := D, executing := Some b, CurrCommand := cb_command (D b)\<rparr>)) \<and>
    waiting D (\<lambda>_. []) \<and> data D = data (dblocks s)"
proof -
  let ?q = "(\<lambda>_. [])(i := [b])"
  have f: "first_prio ?q = Some i" "all_waiting ?q \<noteq> []" using assms(2) by (auto simp: first_prio_def prios_def all_waiting_def)
  have q: "?q(i := []) = (\<lambda>_. [])" by (simp add: fun_eq_iff)
  from pop_waiting [OF assms(1) f(1), of b "[]"] obtain D where D: "DVDPopWaitingQueue s = Some (Some b, s\<lparr>dblocks := D\<rparr>)"
    "waiting D (\<lambda>_. [])" "data D = data (dblocks s)" unfolding q by auto
  have c: "DVDCheckWaitingQueue s = (True, s)" using check_waiting [OF assms(1)] f(2) by simp
  let ?s = "set_state b DVD_STATE_BUSY (s\<lparr>dblocks := D, executing := Some b, CurrCommand := cb_command (D b)\<rparr>)"
  have r: "s\<lparr>dblocks := D, executing := Some b, CurrCommand := c, ResumeFromHere := RESUME_POINT_NONE\<rparr> =
      s\<lparr>dblocks := D, executing := Some b, CurrCommand := c\<rparr>" for c by (rule drive.equality) (simp_all add: assms(6))
  have "stateReady_step call s = Some (?s, [Busy b])"
    using assms(3-6) by (simp add: stateReady_step_def c D(1) Let_def motor_step_def r)
  then have "stateReady call s = stateBusy call b ?s" by (simp add: stateReady_unfold stateBusy_def)
  then show ?thesis using D(2,3) by blast
qed

lemma in_read_irq: "in_read (OSRestoreInterrupts e s) b dst n ofs cb k = in_read s b dst n ofs cb k"
  by (simp add: in_read_def ready_to_read_def waiting_st_def OSRestoreInterrupts_def)

lemma read_start:
  assumes "idle_drive s" "i \<in> prios" "\<And>k. b \<noteq> QHead k" "0 < n" "n < 2 ^ 32"
  shows "\<exists>s'. DVDReadAbsAsyncPrio call b dst n ofs cb i s = Some (True, s') \<and> in_read s' b dst n ofs cb 0 \<and> finfos s' = finfos s \<and>
    issued s' = issued s @ (if autoInvalidation s then [InvalidateRange dst n] else []) @ [LowClearCoverInterrupt, piece dst n ofs 0]"
proof -
  let ?f = "\<lambda>blk. blk\<lparr>cb_command := COMMAND_READ, cb_addr := dst, cb_length := n, cb_offset := ofs, cb_transferTotal := 0, cb_callback := cb\<rparr>"
  let ?s = "upd_block b ?f s"
  have idle: "executing ?s = None" "\<not> PauseFlag ?s" "\<not> FatalErrorFlag ?s" "\<not> Canceling ?s" "\<not> Breaking ?s" "MotorState ?s = MOTOR_STATE_WORKING"
    "ResumeFromHere ?s = RESUME_POINT_NONE" using assms(1) by (simp_all add: idle_drive_def upd_block_def)
  have w: "waiting_st ?s (\<lambda>_. [])" using assms(1) by (simp add: idle_drive_def)
  have log: "inval_log b ?s = (if autoInvalidation s then [InvalidateRange dst n] else [])" by (simp add: inval_log_def upd_block_def)
  from issueCommand_pushes [OF w assms(2), of b call] assms(3) idle(1,2) log obtain D where D: "waiting D ((\<lambda>_. [])(i := [b]))"
    "data D = (data (dblocks ?s))(b := (data (dblocks ?s) b)\<lparr>cb_state := DVD_STATE_WAITING\<rparr>)"
    "issueCommand call i b ?s = map_option (\<lambda>s'. (True, OSRestoreInterrupts (irq_enabled ?s) s'))
      (stateReady call (?s\<lparr>issued := issued ?s @ (if autoInvalidation s then [InvalidateRange dst n] else []), irq_enabled := False, dblocks := D\<rparr>))"
    by (auto simp: all_waiting_def)
  let ?t = "?s\<lparr>issued := issued ?s @ (if autoInvalidation s then [InvalidateRange dst n] else []), irq_enabled := False, dblocks := D\<rparr>"
  have "waiting_st ?t ((\<lambda>_. [])(i := [b]))" using D(1) by (simp add: waiting_st_def)
  from stateReady_starts [OF this assms(2), of call] idle(2,3,6,7) obtain E where
    E: "stateReady call ?t = stateBusy call b (set_state b DVD_STATE_BUSY (?t\<lparr>dblocks := E, executing := Some b, CurrCommand := cb_command (E b)\<rparr>))"
      "waiting E (\<lambda>_. [])" "data E = data D" by auto
  let ?u = "set_state b DVD_STATE_BUSY (?t\<lparr>dblocks := E, executing := Some b, CurrCommand := cb_command (E b)\<rparr>)"
  have Eb: "data E b = (data (dblocks ?s) b)\<lparr>cb_state := DVD_STATE_WAITING\<rparr>" using D(2) E(3) by simp
  have fs: "cb_command (E b) = COMMAND_READ" "cb_addr (E b) = dst" "cb_length (E b) = n" "cb_offset (E b) = ofs" "cb_transferTotal (E b) = 0" "cb_callback (E b) = cb"
    using arg_cong [OF Eb, of cb_command] arg_cong [OF Eb, of cb_addr] arg_cong [OF Eb, of cb_length] arg_cong [OF Eb, of cb_offset]
      arg_cong [OF Eb, of cb_transferTotal] arg_cong [OF Eb, of cb_callback] by (simp_all add: data_sel upd_block_def)
  have rb: "read_block (dblocks ?u b) dst n ofs cb 0" using fs by (simp add: read_block_def set_state_def block_sel)
  have "waiting_st ?u (\<lambda>_. [])" unfolding waiting_st_set_state using E(2) by (simp add: waiting_st_def)
  then have ru: "ready_to_read ?u b" using fs(1) idle(4,5) by (simp add: ready_to_read_def set_state_def block_sel)
  from stateBusy_piece [OF ru rb _ _ assms(5), of call] assms(4) obtain v where
    v: "stateBusy call b ?u = Some v" "in_read v b dst n ofs cb 0" "issued v = issued ?u @ [LowClearCoverInterrupt, piece dst n ofs 0]" "finfos v = finfos ?u"
    by auto
  have "DVDReadAbsAsyncPrio call b dst n ofs cb i s = Some (True, OSRestoreInterrupts (irq_enabled ?s) v)"
    unfolding DVDReadAbsAsyncPrio_def D(3) E(1) v(1) by simp
  moreover have "in_read (OSRestoreInterrupts (irq_enabled ?s) v) b dst n ofs cb 0" using v(2) by (simp only: in_read_irq)
  ultimately show ?thesis using v(3,4)
    by (intro exI [of _ "OSRestoreInterrupts (irq_enabled ?s) v"] conjI) (simp_all add: OSRestoreInterrupts_def set_state_def block_sel)
qed

lemma pieces_bounds: "0 < n \<Longrightarrow> 0 < pieces n \<and> (int (pieces n) - 1) * MAX_TRANSFER_SIZE < n \<and> n \<le> int (pieces n) * MAX_TRANSFER_SIZE"
proof -
  assume n: "0 < n"
  have e: "(n + MAX_TRANSFER_SIZE - 1) div MAX_TRANSFER_SIZE * MAX_TRANSFER_SIZE + (n + MAX_TRANSFER_SIZE - 1) mod MAX_TRANSFER_SIZE = n + MAX_TRANSFER_SIZE - 1"
    by (rule div_mult_mod_eq)
  have r: "0 \<le> (n + MAX_TRANSFER_SIZE - 1) mod MAX_TRANSFER_SIZE" "(n + MAX_TRANSFER_SIZE - 1) mod MAX_TRANSFER_SIZE < MAX_TRANSFER_SIZE"
    by simp_all
  have "0 < (n + MAX_TRANSFER_SIZE - 1) div MAX_TRANSFER_SIZE" using e r(2) n by linarith
  then show ?thesis unfolding pieces_def using e r by (simp add: left_diff_distrib) linarith
qed

lemma read_completes:
  assumes "idle_drive s" "i \<in> prios" "\<And>k. b \<noteq> QHead k" "0 < n" "n < 2 ^ 32"
  shows "\<exists>s0 s1. DVDReadAbsAsyncPrio call b dst n ofs cb i s = Some (True, s0) \<and>
    answers call (pieces n) s0 = stateReady call (callback call cb (s32 n) (Some b) s1) \<and>
    cb_state (dblocks s1 b) = DVD_STATE_IDLE \<and> cb_transferTotal (dblocks s1 b) = n \<and> executing s1 = Some Dummy \<and> waiting_st s1 (\<lambda>_. []) \<and>
    issued s1 = issued s @ (if autoInvalidation s then [InvalidateRange dst n] else []) @
      concat (map (\<lambda>k. [LowClearCoverInterrupt, piece dst n ofs (int k)]) [0..<pieces n]) \<and> finfos s1 = finfos s"
proof -
  obtain k where k: "pieces n = Suc k" "int k * MAX_TRANSFER_SIZE < n" "n \<le> (int k + 1) * MAX_TRANSFER_SIZE"
    using pieces_bounds [OF assms(4)] by (cases "pieces n") (auto simp: algebra_simps)
  obtain s0 where s0: "DVDReadAbsAsyncPrio call b dst n ofs cb i s = Some (True, s0)" "in_read s0 b dst n ofs cb 0" "finfos s0 = finfos s"
    "issued s0 = issued s @ (if autoInvalidation s then [InvalidateRange dst n] else []) @ [LowClearCoverInterrupt, piece dst n ofs 0]"
    using read_start [OF assms] by blast
  obtain s' where s': "answers call k s0 = Some s'" "in_read s' b dst n ofs cb (int k)" "finfos s' = finfos s0"
    "issued s' = issued s0 @ concat (map (\<lambda>j. [LowClearCoverInterrupt, piece dst n ofs (int j)]) [1..<Suc k])"
    using answers_run [OF s0(2) k(2) assms(5)] by blast
  from answer_last [OF s'(2) _ k(2,3) assms(5), of call] obtain s1 where
    s1: "on_answer call CbStateBusy DVD_INTTYPE_TC s' = stateReady call (callback call cb (s32 n) (Some b) s1)"
    "cb_state (dblocks s1 b) = DVD_STATE_IDLE" "cb_transferTotal (dblocks s1 b) = n" "executing s1 = Some Dummy" "waiting_st s1 (\<lambda>_. [])"
    "issued s1 = issued s'" "finfos s1 = finfos s'" by auto
  have c: "concat (map g [0..<Suc k]) = g 0 @ concat (map g [1..<Suc k])" for g :: "nat \<Rightarrow> low list"
    by (simp add: upt_conv_Cons [of 0 "Suc k"] del: upt_Suc)
  have "answers call (pieces n) s0 = stateReady call (callback call cb (s32 n) (Some b) s1)"
    unfolding k(1) answers_snoc s'(1) using s1(1) by simp
  moreover have "issued s1 = issued s @ (if autoInvalidation s then [InvalidateRange dst n] else []) @
      concat (map (\<lambda>k. [LowClearCoverInterrupt, piece dst n ofs (int k)]) [0..<pieces n])"
    unfolding k(1) s1(6) s'(4) s0(4) c by simp
  ultimately show ?thesis using s0(1,3) s'(3) s1(2-5,7) by (intro exI [of _ s0] exI [of _ s1]) simp
qed

text \<open>C26. A read of an open file ends: on a drive that works and has nothing else to do, reading \<open>n\<close> bytes
  from offset \<open>off\<close> of a file splits into pieces of at most \<^verbatim>\<open>MAX_TRANSFER_SIZE\<close> bytes that
  cover the area once, in order, at the file's place on the disc; when the drive has answered each
  of them the command is idle with all bytes counted, the client's callback hears \<open>n\<close>, and the
  drive goes on with whatever waits then.\<close>

theorem DVDReadAsyncPrio_completes:
  assumes "idle_drive s" "i \<in> prios" "\<And>k. f \<noteq> QHead k" "0 < n" "0 \<le> off" "off + n \<le> df_size (finfos s f)" "df_size (finfos s f) < 2 ^ 31"
  shows "\<exists>s0 s1. DVDReadAsyncPrio user f dst n off cb i s = Some (True, s0) \<and>
    answers (dvd_call user) (pieces n) s0 = stateReady (dvd_call user) (callback user cb n (Some f) s1) \<and>
    cb_state (dblocks s1 f) = DVD_STATE_IDLE \<and> cb_transferTotal (dblocks s1 f) = n \<and> executing s1 = Some Dummy \<and> waiting_st s1 (\<lambda>_. []) \<and>
    issued s1 = issued s @ (if autoInvalidation s then [InvalidateRange dst n] else []) @
      concat (map (\<lambda>k. [LowClearCoverInterrupt, piece dst n (u32 (df_offset (finfos s f) + off div 4)) (int k)]) [0..<pieces n])"
proof -
  let ?s = "s\<lparr>finfos := (finfos s)(f := (finfos s f)\<lparr>df_callback := cb\<rparr>)\<rparr>"
  let ?o = "u32 (df_offset (finfos s f) + off div 4)"
  have args: "read_args_ok (finfos s f) n off" using assms(4-7) by (simp add: read_args_ok_def conv_simps)
  have idle: "idle_drive ?s" using assms(1) by (simp add: idle_drive_def waiting_st_def)
  have n: "n < 2 ^ 32" "u32 n = n" "s32 n = n" using assms(4-7) by (simp_all add: conv_simps)
  from read_completes [OF idle assms(2,3,4) n(1), of "dvd_call user" dst ?o ptr_cbForReadAsync] obtain s0 s1 where
    r: "DVDReadAbsAsyncPrio (dvd_call user) f dst n ?o ptr_cbForReadAsync i ?s = Some (True, s0)"
    "answers (dvd_call user) (pieces n) s0 = stateReady (dvd_call user) (callback (dvd_call user) ptr_cbForReadAsync (s32 n) (Some f) s1)"
    "cb_state (dblocks s1 f) = DVD_STATE_IDLE" "cb_transferTotal (dblocks s1 f) = n" "executing s1 = Some Dummy" "waiting_st s1 (\<lambda>_. [])"
    "issued s1 = issued ?s @ (if autoInvalidation ?s then [InvalidateRange dst n] else []) @
      concat (map (\<lambda>k. [LowClearCoverInterrupt, piece dst n ?o (int k)]) [0..<pieces n])" "finfos s1 = finfos ?s" by blast
  have "DVDReadAsyncPrio user f dst n off cb i s = Some (True, s0)" using args r(1) n(2) by (simp add: DVDReadAsyncPrio_def)
  moreover have "callback (dvd_call user) ptr_cbForReadAsync (s32 n) (Some f) s1 = callback user cb n (Some f) s1"
    using r(8) n(3) by (simp add: callback_def dvd_call_def cbForReadAsync_def)
  ultimately show ?thesis using r(2-7) by (intro exI [of _ s0] exI [of _ s1]) simp
qed

section \<open>A drive at work\<close>

text \<open>An idle drive, every block of which is a read with a callback, and a file of 1 MB.\<close>

definition no_callback :: call where "no_callback cb r b s = s"
definition block_note :: "int \<Rightarrow> int \<Rightarrow> dptr option \<Rightarrow> low list" where
  "block_note cb r b = (case b of Some x \<Rightarrow> [OptionalCommand x] | None \<Rightarrow> [])"
definition note_callback :: call where "note_callback cb r b s = s\<lparr>issued := issued s @ block_note cb r b\<rparr>"

definition demo_id :: DVDDiskID where
  "demo_id = \<lparr>id_game = ''RQJE'', id_company = ''78'', id_disk = 0, id_version = 0, id_rest = []\<rparr>"

definition demo_drive :: drive where
  "demo_drive = DVDClearWaitingQueue \<lparr>irq_enabled = True,
     dblocks = (\<lambda>_. \<lparr>cb_next = None, cb_prev = None, cb_command = COMMAND_READ, cb_state = DVD_STATE_IDLE, cb_offset = 0, cb_length = 0x20,
       cb_addr = 0x80010000, cb_transferSize = 0, cb_transferTotal = 0, cb_id = 0, cb_callback = 0x80003000\<rparr>),
     dnode = (\<lambda>_. \<lparr>fn_packed = 0, fn_a = 0, fn_b = 0\<rparr>), dchar = (\<lambda>_. NUL), FstStart = 0, FstStringStart = 0, MaxEntryNum = 0,
     currentDirectory = 0, LongFileNameFlag = True, LayoutFormat = 0, boot_fstStart = 0,
     finfos = (\<lambda>_. \<lparr>df_offset = 0x1000, df_size = 0x100000, df_callback = 0\<rparr>),
     CommandInfoCounter = 0, ErrorEntries = (\<lambda>_. \<lparr>ei_command = 0, ei_param1 = 0, ei_param2 = 0, ei_intType = 0, ei_tick = 0\<rparr>),
     PauseFlag = False, PausingFlag = False, FatalErrorFlag = False, Canceling = False, ResumeFromHere = 0, NumInternalRetry = 0,
     Breaking = False, WaitingForCoverOpen = False, WaitingForCoverClose = False, MotorStopped = False, ChangedDisc = False,
     PreparingCover = False, BootGameInfo = None, LastResetEnd = 0, MotorState = MOTOR_STATE_WORKING, ResetRequired = False,
     LastError = 0, CancelLastError = 0, CancelCallback = 0, CurrCommand = 0, executing = None, LastState = None,
     autoInvalidation = True, BB2_fstOffset = 0, BB2_fstSize = 0, CurrDiskID = demo_id, IDShouldBe = demo_id, boot_fstSize = 0,
     diskids = (\<lambda>_. demo_id), toc_numPartition = 0, part_infos = (\<lambda>_. \<lparr>pi_offset = 0, pi_type = 0\<rparr>), imm_reg = 0, cover_reg = 0,
     device_code = 0x8000, OSInIPL = False, auto_fatal = False, DVDInitialized = True, FirstTimeInBootrom = False, Prepared = False,
     BS2DVDLowIntType = 0, boot_magic = 0, bus_clock = 243000000, err_game = [], err_disk = 0, err_version = 0, sys_time = 0, tick_now = 0, issued = []\<rparr>"

lemma demo_drive_sel:
  "executing demo_drive = None" "PauseFlag demo_drive = False" "FatalErrorFlag demo_drive = False" "Canceling demo_drive = False"
  "Breaking demo_drive = False" "MotorState demo_drive = MOTOR_STATE_WORKING" "ResumeFromHere demo_drive = RESUME_POINT_NONE"
  "auto_fatal demo_drive = False" "issued demo_drive = []" "autoInvalidation demo_drive = True"
  "finfos demo_drive f = \<lparr>df_offset = 0x1000, df_size = 0x100000, df_callback = 0\<rparr>" "irq_enabled demo_drive = True"
  by (simp_all add: demo_drive_def DVDClearWaitingQueue_def)

lemma demo_drive_block:
  "data (dblocks demo_drive) (Cmd a) = \<lparr>cb_next = None, cb_prev = None, cb_command = COMMAND_READ, cb_state = DVD_STATE_IDLE, cb_offset = 0,
     cb_length = 0x20, cb_addr = 0x80010000, cb_transferSize = 0, cb_transferTotal = 0, cb_id = 0, cb_callback = 0x80003000\<rparr>"
  by (simp add: demo_drive_def DVDClearWaitingQueue_def prio_list data_def set_cnext_def set_cprev_def)

lemma demo_drive_idle: "idle_drive demo_drive"
  using clear_waiting [of "demo_drive"] by (simp add: idle_drive_def demo_drive_sel waiting_st_def)
    (simp add: demo_drive_def clear_waiting)

theorem drive_never_idles_with_work_witness:
  "drive_ok demo_drive \<and> (\<exists>s'. DVDReadAbsAsyncPrio no_callback (Cmd 0x100) 0x80010000 0x20 0 0 2 demo_drive = Some (True, s') \<and> drive_ok s')"
proof -
  have w: "waiting_st demo_drive (\<lambda>_. [])" using demo_drive_idle by (simp add: idle_drive_def)
  then have "waiting_st (upd_block (Cmd 0x100) (\<lambda>blk. blk\<lparr>cb_command := COMMAND_READ, cb_addr := 0x80010000, cb_length := 0x20,
      cb_offset := 0, cb_transferTotal := 0, cb_callback := 0\<rparr>) demo_drive) (\<lambda>_. [])" by simp
  then have ok: "drive_ok (upd_block (Cmd 0x100) (\<lambda>blk. blk\<lparr>cb_command := COMMAND_READ, cb_addr := 0x80010000, cb_length := 0x20,
      cb_offset := 0, cb_transferTotal := 0, cb_callback := 0\<rparr>) demo_drive)"
    using first_waiting_eq by (simp add: waiting_st_def drive_ok_def first_prio_def)
  obtain s' where s': "DVDReadAbsAsyncPrio no_callback (Cmd 0x100) 0x80010000 0x20 0 0 2 demo_drive = Some (True, s')"
    using read_start [OF demo_drive_idle, where i = 2 and b = "Cmd 0x100" and n = "0x20" and call = no_callback and dst = "0x80010000" and ofs = 0 and cb = 0]
    by (auto simp: prios_def)
  moreover have "drive_ok s'" using drive_never_idles_with_work [OF ok] s' unfolding DVDReadAbsAsyncPrio_def by blast
  moreover have "drive_ok demo_drive" using w first_waiting_eq by (simp add: waiting_st_def drive_ok_def first_prio_def)
  ultimately show ?thesis by blast
qed

text \<open>A paused drive takes commands and starts none.\<close>

lemma demo_paused:
  "\<exists>D. waiting D ((\<lambda>_. [])(2 := [Cmd 0x200])) \<and> data D (Cmd 0x200) = (data (dblocks demo_drive) (Cmd 0x200))\<lparr>cb_state := DVD_STATE_WAITING\<rparr> \<and>
    data D (Cmd 0x100) = data (dblocks demo_drive) (Cmd 0x100)"
proof -
  have "waiting_st demo_drive (\<lambda>_. [])" using demo_drive_idle by (simp add: idle_drive_def)
  from issueCommand_pushes [where call = no_callback, OF this, of 2 "Cmd 0x200"] obtain D where "waiting D ((\<lambda>_. [])(2 := [Cmd 0x200]))"
    "data D = (data (dblocks demo_drive))(Cmd 0x200 := (data (dblocks demo_drive) (Cmd 0x200))\<lparr>cb_state := DVD_STATE_WAITING\<rparr>)"
    by (auto simp: prios_def all_waiting_def)
  then show ?thesis by (intro exI [of _ D]) simp
qed

theorem DVDCancelAsync_waiting_witness:
  "\<exists>D E. waiting D ((\<lambda>_. [])(2 := [Cmd 0x200])) \<and> waiting E (\<lambda>_. []) \<and> cb_state (E (Cmd 0x200)) = DVD_STATE_CANCELED \<and>
    DVDCancelAsync no_callback (Cmd 0x200) 0 (demo_drive\<lparr>PauseFlag := True, dblocks := D\<rparr>) = Some (True, demo_drive\<lparr>PauseFlag := True, dblocks := E\<rparr>)"
proof -
  obtain D where D: "waiting D ((\<lambda>_. [])(2 := [Cmd 0x200]))" "data D (Cmd 0x200) = (data (dblocks demo_drive) (Cmd 0x200))\<lparr>cb_state := DVD_STATE_WAITING\<rparr>"
    using demo_paused by blast
  let ?s = "demo_drive\<lparr>PauseFlag := True, dblocks := D\<rparr>" let ?q = "(\<lambda>_. [])((2::int) := [Cmd 0x200])"
  have st: "cb_state (D (Cmd 0x200)) = DVD_STATE_WAITING" using arg_cong [OF D(2), of cb_state] by (simp add: data_sel)
  obtain E where E: "waiting E (?q(2 := remove1 (Cmd 0x200) (?q 2)))"
    "data E = (data D)(Cmd 0x200 := (data D (Cmd 0x200))\<lparr>cb_state := DVD_STATE_CANCELED\<rparr>)"
    "DVDCancelAsync no_callback (Cmd 0x200) 0 ?s = Some (True, OSRestoreInterrupts (irq_enabled ?s)
      (callback no_callback 0 DVD_RESULT_GOOD (Some (Cmd 0x200))
        (callback no_callback (cb_callback (D (Cmd 0x200))) DVD_RESULT_CANCELED (Some (Cmd 0x200)) (?s\<lparr>irq_enabled := False, dblocks := E\<rparr>))))"
    using DVDCancelAsync_waiting [of ?s "(\<lambda>_. [])(2 := [Cmd 0x200])" 2 "Cmd 0x200" no_callback 0] D(1) st by (auto simp: prios_def)
  have "?q(2 := remove1 (Cmd 0x200) (?q 2)) = (\<lambda>_. [])" by (simp add: fun_eq_iff)
  then have "waiting E (\<lambda>_. [])" using E(1) by metis
  moreover have "cb_state (E (Cmd 0x200)) = DVD_STATE_CANCELED" using arg_cong [OF E(2), of "\<lambda>f. cb_state (f (Cmd 0x200))"] by (simp add: data_sel)
  moreover have "OSRestoreInterrupts (irq_enabled ?s) (?s\<lparr>irq_enabled := False, dblocks := E\<rparr>) = demo_drive\<lparr>PauseFlag := True, dblocks := E\<rparr>"
    by (simp add: OSRestoreInterrupts_def)
  ultimately show ?thesis using D(1) E(3) by (intro exI [of _ D] exI [of _ E]) (simp add: callback_def no_callback_def)
qed

theorem fatal_error_reaches_all_witness:
  "\<exists>D s'. waiting D ((\<lambda>_. [])(2 := [Cmd 0x200])) \<and>
    on_answer note_callback CbStateError DVD_INTTYPE_TC (demo_drive\<lparr>executing := Some (Cmd 0x100), dblocks := D\<rparr>) = Some s' \<and>
    executing s' = None \<and> issued s' = [OptionalCommand (Cmd 0x100), OptionalCommand (Cmd 0x200)] \<and>
    cb_state (dblocks s' (Cmd 0x100)) = DVD_STATE_FATAL \<and> cb_state (dblocks s' (Cmd 0x200)) = DVD_STATE_FATAL"
proof -
  obtain D where D: "waiting D ((\<lambda>_. [])(2 := [Cmd 0x200]))" "data D (Cmd 0x200) = (data (dblocks demo_drive) (Cmd 0x200))\<lparr>cb_state := DVD_STATE_WAITING\<rparr>"
    "data D (Cmd 0x100) = data (dblocks demo_drive) (Cmd 0x100)" using demo_paused by blast
  let ?q = "(\<lambda>_. [])(2 := [Cmd 0x200])" let ?s = "demo_drive\<lparr>executing := Some (Cmd 0x100), dblocks := D\<rparr>"
  have q: "all_waiting ?q = [Cmd 0x200]" by (simp add: all_waiting_def)
  have cb: "cb_callback (D (Cmd 0x100)) = 0x80003000" "cb_callback (D (Cmd 0x200)) = 0x80003000"
    using arg_cong [OF D(2), of cb_callback] arg_cong [OF D(3), of cb_callback] by (simp_all add: demo_drive_block) (simp_all add: data_sel)
  have ob: "observer note_callback block_note" by (simp add: observer_def note_callback_def)
  from fatal_error_reaches_all [OF ob, of ?s "Cmd 0x100" ?q DVD_INTTYPE_TC] obtain E where
    E: "on_answer note_callback CbStateError DVD_INTTYPE_TC ?s = Some (?s\<lparr>FatalErrorFlag := True, Canceling := False, dblocks := E, executing := None,
      issued := issued ?s @ heard block_note D DVD_RESULT_FATAL_ERROR (Cmd 0x100) @ [] @ concat (map (heard block_note D DVD_RESULT_FATAL_ERROR) [Cmd 0x200])\<rparr>)"
      "data E = mark DVD_STATE_FATAL {Cmd 0x100, Cmd 0x200} (data D)"
    using D(1) q by (auto simp: demo_drive_sel)
  have "cb_state (E x) = DVD_STATE_FATAL" if "x \<in> {Cmd 0x100, Cmd 0x200}" for x
    using arg_cong [OF E(2), of "\<lambda>f. cb_state (f x)"] that by (simp add: data_sel mark_def)
  then show ?thesis using D(1) E(1) cb
    by (intro exI [of _ D] exI [of _ "?s\<lparr>FatalErrorFlag := True, Canceling := False, dblocks := E, executing := None,
      issued := [OptionalCommand (Cmd 0x100), OptionalCommand (Cmd 0x200)]\<rparr>"]) (simp add: heard_def noted_def block_note_def demo_drive_sel)
qed

theorem DVDReadAsyncPrio_completes_witness:
  "\<exists>s0 s1. DVDReadAsyncPrio no_callback (Cmd 0x100) 0x80010000 0x90000 0x40 0x80003000 2 demo_drive = Some (True, s0) \<and>
    answers (dvd_call no_callback) 2 s0 = Some s1 \<and> executing s1 = None \<and> cb_state (dblocks s1 (Cmd 0x100)) = DVD_STATE_IDLE \<and>
    issued s1 = [InvalidateRange 0x80010000 0x90000,
      LowClearCoverInterrupt, LowRead 0x80010000 0x80000 0x1010 CbStateBusy,
      LowClearCoverInterrupt, LowRead 0x80090000 0x10000 0x21010 CbStateBusy]"
proof -
  have p: "pieces 0x90000 = 2" by (simp add: pieces_def)
  from DVDReadAsyncPrio_completes [OF demo_drive_idle, of 2 "Cmd 0x100" "0x90000" "0x40" no_callback "0x80010000" "0x80003000"] obtain s0 s1 where
    r: "DVDReadAsyncPrio no_callback (Cmd 0x100) 0x80010000 0x90000 0x40 0x80003000 2 demo_drive = Some (True, s0)"
    "answers (dvd_call no_callback) (pieces 0x90000) s0 = stateReady (dvd_call no_callback) (callback no_callback 0x80003000 0x90000 (Some (Cmd 0x100)) s1)"
    "cb_state (dblocks s1 (Cmd 0x100)) = DVD_STATE_IDLE" "waiting_st s1 (\<lambda>_. [])"
    "issued s1 = [InvalidateRange 0x80010000 0x90000] @
      concat (map (\<lambda>k. [LowClearCoverInterrupt, piece 0x80010000 0x90000 (u32 (0x1000 + 0x40 div 4)) (int k)]) [0..<pieces 0x90000])"
    by (auto simp: demo_drive_sel prios_def)
  have "answers (dvd_call no_callback) 2 s0 = Some (s1\<lparr>executing := None\<rparr>)"
    using r(2) stateReady_nothing [OF r(4)] p by (simp add: callback_def no_callback_def del: answers.simps)
  then show ?thesis using r(1,3,5) p
    by (intro exI [of _ s0] exI [of _ "s1\<lparr>executing := None\<rparr>"]) (simp add: piece_def u32_def upt_rec del: answers.simps)
qed

end
