(* ===== verification/DvdLow.thy ===== *)
theory DvdLow
  imports DvdDrive IpcResult
begin

text \<open>
  \<^verbatim>\<open>dvd/dvd_broadway.c\<close>: the requests of \<^verbatim>\<open>dvd.c\<close> as messages to the IO processor.
  Every request takes the next of four contexts and of four command buffers; the answer arrives
  through \<open>doTransactionCallback\<close>, which runs the request's handler and frees the context.
  \<open>ios\<close> is the answer of the kernel's \<^verbatim>\<open>IOS_IoctlAsync\<close> and its like to a message, \<open>posted\<close>
  the messages it took, \<open>deliver\<close> the handlers of \<^verbatim>\<open>dvd.c\<close>.  None stands for the endless
  loops of \<^verbatim>\<open>newContext\<close>.

  The theorems put the two layers together: \<open>low_send\<close> turns a request in the log of
  \<^theory_text>\<open>DvdDrive\<close> into the message that the same function of this file sends, and \<open>dvd_handler\<close>
  delivers an answer to \<^verbatim>\<open>dvd.c\<close> and sends what its handler asks for.  \<open>low_ring\<close> says which
  contexts are in use, in the order in which they were taken; a refused message leaves a free one among
  them.
\<close>

section \<open>State\<close>

definition DVD_LOW_CTX_MAX :: int where "DVD_LOW_CTX_MAX = 4"
definition DVD_LOW_CMD_MAX :: int where "DVD_LOW_CMD_MAX = 4"
definition DVD_LOW_CTX_MAGIC :: int where "DVD_LOW_CTX_MAGIC = 0xFEEBDAED"

abbreviation DVD_IOCTL_INQUIRY :: int where "DVD_IOCTL_INQUIRY \<equiv> 0x12"
abbreviation DVD_IOCTL_READ_DISK_ID :: int where "DVD_IOCTL_READ_DISK_ID \<equiv> 0x70"
abbreviation DVD_IOCTL_READ :: int where "DVD_IOCTL_READ \<equiv> 0x71"
abbreviation DVD_IOCTL_PREPARE_COVER_REGISTER :: int where "DVD_IOCTL_PREPARE_COVER_REGISTER \<equiv> 0x7A"
abbreviation DVD_IOCTL_CLEAR_COVER_INTERRUPT :: int where "DVD_IOCTL_CLEAR_COVER_INTERRUPT \<equiv> 0x86"
abbreviation DVD_IOCTL_RESET :: int where "DVD_IOCTL_RESET \<equiv> 0x8A"
abbreviation DVD_IOCTL_CLOSE_PARTITION :: int where "DVD_IOCTL_CLOSE_PARTITION \<equiv> 0x8C"
abbreviation DVD_IOCTL_UNENCRYPTED_READ :: int where "DVD_IOCTL_UNENCRYPTED_READ \<equiv> 0x8D"
abbreviation DVD_IOCTL_SEEK :: int where "DVD_IOCTL_SEEK \<equiv> 0xAB"
abbreviation DVD_IOCTL_SET_MAX_ROTATION :: int where "DVD_IOCTL_SET_MAX_ROTATION \<equiv> 0xDD"
abbreviation DVD_IOCTL_REQUEST_ERROR :: int where "DVD_IOCTL_REQUEST_ERROR \<equiv> 0xE0"
abbreviation DVD_IOCTL_STOP_MOTOR :: int where "DVD_IOCTL_STOP_MOTOR \<equiv> 0xE3"
abbreviation DVD_IOCTL_AUDIO_BUFFER_CONFIG :: int where "DVD_IOCTL_AUDIO_BUFFER_CONFIG \<equiv> 0xE4"
abbreviation DVD_IOCTLV_OPEN_PARTITION :: int where "DVD_IOCTLV_OPEN_PARTITION \<equiv> 0x8B"

record DVDLowContext =
  lc_callback :: "low_callback option"
  lc_word4 :: int
  lc_inUse :: bool
  lc_magic :: int
  lc_id :: int

record DVDLowDICommand =
  di_command :: int
  di_arg1 :: int
  di_arg2 :: int

datatype completion = TransactionCallback | PrepareCoverRegisterCallback

text \<open>A message: descriptor, code, the command as it is sent, the area for the answer and the context.\<close>

datatype message =
  IoctlAsync int int DVDLowDICommand int int completion int
| IoctlvAsync int int DVDLowDICommand "(int \<times> int) list" completion int

record dvdlow =
  DiFD :: int
  breakRequested :: bool
  diCommand :: "int \<Rightarrow> DVDLowDICommand"
  readLength :: int
  spinUpValue :: bool
  LowInitCalled :: bool
  dvdContextsInited :: bool
  freeDvdContext :: int
  freeCommandBuf :: int
  callbackInProgress :: bool
  requestInProgress :: bool
  dvdContexts :: "int \<Rightarrow> DVDLowContext"
  diimmbuf :: int
  dicvr :: int
  registerBuf :: int
  IPCBufferLo :: int
  IPCBufferHi :: int
  posted :: "message list"

type_synonym ios = "message \<Rightarrow> dvdlow \<Rightarrow> int"

declare IPC_RESULT_OK_def [simp]

text \<open>Addresses and sizes of the register buffers and of \<^verbatim>\<open>lastTicketError\<close>, only passed on.\<close>

abbreviation diRegValCache_ADDR :: int where "diRegValCache_ADDR \<equiv> 0x80400100"
abbreviation registerBuf_ADDR :: int where "registerBuf_ADDR \<equiv> 0x80400120"
abbreviation lastTicketError_ADDR :: int where "lastTicketError_ADDR \<equiv> 0x80400140"

definition upd_ctx :: "int \<Rightarrow> (DVDLowContext \<Rightarrow> DVDLowContext) \<Rightarrow> dvdlow \<Rightarrow> dvdlow" where
  "upd_ctx i f s = s\<lparr>dvdContexts := (dvdContexts s)(i := f (dvdContexts s i))\<rparr>"

section \<open>Start\<close>

text \<open>The rounding and the missing test for space are the code's.\<close>

definition ddrAllocAligned32 :: "int \<Rightarrow> dvdlow \<Rightarrow> int \<times> dvdlow" where
  "ddrAllocAligned32 sz s =
     (let lo = IPCBufferLo s;
          lo = (if lo mod 32 \<noteq> 0 then and (u32 (lo + 31)) 31 else lo)
      in (lo, s\<lparr>IPCBufferLo := u32 (lo + sz)\<rparr>))"

definition allocateStructures :: "dvdlow \<Rightarrow> bool \<times> dvdlow" where
  "allocateStructures s =
     (let (p, s) = ddrAllocAligned32 (32 * DVD_LOW_CMD_MAX) s
      in if p = 0 then (False, s)
         else let (p, s) = ddrAllocAligned32 32 s in (p \<noteq> 0, s))"

fun init_contexts :: "int list \<Rightarrow> dvdlow \<Rightarrow> dvdlow" where
  "init_contexts [] s = s"
| "init_contexts (i # is) s =
     init_contexts is (upd_ctx i (\<lambda>c. c\<lparr>lc_callback := None, lc_word4 := 0, lc_inUse := False, lc_magic := DVD_LOW_CTX_MAGIC, lc_id := i\<rparr>) s)"

definition initDvdContexts :: "dvdlow \<Rightarrow> dvdlow" where
  "initDvdContexts s = (init_contexts [0..DVD_LOW_CTX_MAX - 1] s)\<lparr>freeDvdContext := 0\<rparr>"

text \<open>\<open>clt\<close> is what \<^verbatim>\<open>IPCCltInit\<close> returns and \<open>fd\<close> what \<^verbatim>\<open>IOS_Open\<close> does.\<close>

definition DVDLowInit :: "int \<Rightarrow> int \<Rightarrow> dvdlow \<Rightarrow> bool \<times> dvdlow" where
  "DVDLowInit clt fd s =
     (let (ok, s) =
        (if LowInitCalled s then (True, s)
         else
           let s = s\<lparr>LowInitCalled := True\<rparr>
           in if clt \<noteq> IPC_RESULT_OK then (False, s)
              else let (ok, s) = allocateStructures s
              in if \<not> ok then (False, s)
                 else (True, if dvdContextsInited s then s else (initDvdContexts s)\<lparr>dvdContextsInited := True\<rparr>))
      in if ok then (fd \<ge> 0, s\<lparr>DiFD := fd\<rparr>) else (False, s))"

section \<open>Contexts and commands\<close>

definition nextCommandBuf :: "dvdlow \<Rightarrow> dvdlow" where
  "nextCommandBuf s =
     s\<lparr>freeCommandBuf := (if freeCommandBuf s + 1 \<ge> DVD_LOW_CMD_MAX then 0 else freeCommandBuf s + 1)\<rparr>"

definition newContext :: "low_callback option \<Rightarrow> int \<Rightarrow> dvdlow \<Rightarrow> (int \<times> dvdlow) option" where
  "newContext cb w s =
     (let i = freeDvdContext s
      in if lc_inUse (dvdContexts s i) \<or> lc_magic (dvdContexts s i) \<noteq> DVD_LOW_CTX_MAGIC then None
         else
           let s = upd_ctx i (\<lambda>c. c\<lparr>lc_callback := cb, lc_word4 := w, lc_inUse := True\<rparr>) s
           in Some (i, s\<lparr>freeDvdContext := (if i + 1 \<ge> DVD_LOW_CTX_MAX then 0 else i + 1)\<rparr>))"

text \<open>Writing the command, and the end of every request: a message that is refused frees its context.\<close>

definition set_command :: "(DVDLowDICommand \<Rightarrow> DVDLowDICommand) \<Rightarrow> dvdlow \<Rightarrow> dvdlow" where
  "set_command f s = s\<lparr>diCommand := (diCommand s)(freeCommandBuf s := f (diCommand s (freeCommandBuf s)))\<rparr>"

definition post :: "ios \<Rightarrow> message \<Rightarrow> int \<Rightarrow> dvdlow \<Rightarrow> bool \<times> dvdlow" where
  "post ios m ctx s =
     (if ios m s \<noteq> IPC_RESULT_OK then (False, upd_ctx ctx (lc_inUse_update (\<lambda>_. False)) s)
      else (True, s\<lparr>posted := posted s @ [m]\<rparr>))"

definition ioctl :: "ios \<Rightarrow> int \<Rightarrow> int \<Rightarrow> int \<Rightarrow> completion \<Rightarrow> int \<Rightarrow> dvdlow \<Rightarrow> bool \<times> dvdlow" where
  "ioctl ios code out outlen k ctx s = post ios (IoctlAsync (DiFD s) code (diCommand s (freeCommandBuf s)) out outlen k ctx) ctx s"

text \<open>The shape of most requests: context, command, message.\<close>

definition request :: "ios \<Rightarrow> int \<Rightarrow> (DVDLowDICommand \<Rightarrow> DVDLowDICommand) \<Rightarrow> int \<Rightarrow> int \<Rightarrow> low_callback option \<Rightarrow> dvdlow \<Rightarrow> (bool \<times> dvdlow) option" where
  "request ios code args out outlen cb s = do {
     (ctx, s) \<leftarrow> newContext cb 1 (s\<lparr>requestInProgress := True\<rparr>);
     let s = set_command (\<lambda>c. args (c\<lparr>di_command := code\<rparr>)) (nextCommandBuf s);
     Some (ioctl ios code out outlen TransactionCallback ctx s)
   }"

text \<open>The requests that choose the command buffer first.\<close>

definition request_late :: "ios \<Rightarrow> int \<Rightarrow> int \<Rightarrow> int \<Rightarrow> completion \<Rightarrow> low_callback option \<Rightarrow> dvdlow \<Rightarrow> (bool \<times> dvdlow) option" where
  "request_late ios code out outlen k cb s = do {
     let s = set_command (di_command_update (\<lambda>_. code)) (nextCommandBuf s);
     (ctx, s) \<leftarrow> newContext cb 1 (s\<lparr>requestInProgress := True\<rparr>);
     Some (ioctl ios code out outlen k ctx s)
   }"


section \<open>Requests\<close>

definition DVDLowReadDiskID :: "ios \<Rightarrow> int \<Rightarrow> low_callback option \<Rightarrow> dvdlow \<Rightarrow> (bool \<times> dvdlow) option" where
  "DVDLowReadDiskID ios out cb s = request ios DVD_IOCTL_READ_DISK_ID (\<lambda>c. c) out 0x20 cb s"

text \<open>\<^verbatim>\<open>DVDLowOpenPartition\<close> as \<^verbatim>\<open>dvd.c\<close> calls it, or with a ticket and certificates.\<close>

definition unaligned :: "int \<Rightarrow> bool" where "unaligned p \<longleftrightarrow> p \<noteq> 0 \<and> p mod 32 \<noteq> 0"

definition DVDLowOpenPartition :: "ios \<Rightarrow> int \<Rightarrow> int \<Rightarrow> int \<Rightarrow> int \<Rightarrow> int \<Rightarrow> low_callback option \<Rightarrow> dvdlow \<Rightarrow> (bool \<times> dvdlow) option" where
  "DVDLowOpenPartition ios offset ticket certsSize certs tmd cb s =
     (if unaligned ticket \<or> unaligned certs \<or> unaligned tmd then Some (False, s)
      else do {
        (ctx, s) \<leftarrow> newContext cb 1 (s\<lparr>requestInProgress := True\<rparr>);
        let s = set_command (\<lambda>c. c\<lparr>di_command := DVD_IOCTLV_OPEN_PARTITION, di_arg1 := offset\<rparr>) (nextCommandBuf s);
        let ioVec = [(ticket, if ticket = 0 then 0 else 0x2A4), (certs, if certs = 0 then 0 else certsSize), (tmd, 0x49E4), (lastTicketError_ADDR, 32)];
        Some (post ios (IoctlvAsync (DiFD s) DVD_IOCTLV_OPEN_PARTITION (diCommand s (freeCommandBuf s)) ioVec TransactionCallback ctx) ctx s)
      })"

definition DVDLowClosePartition :: "ios \<Rightarrow> low_callback option \<Rightarrow> dvdlow \<Rightarrow> (bool \<times> dvdlow) option" where
  "DVDLowClosePartition ios cb s = request_late ios DVD_IOCTL_CLOSE_PARTITION 0 0 TransactionCallback cb s"

definition read_request :: "ios \<Rightarrow> int \<Rightarrow> int \<Rightarrow> int \<Rightarrow> int \<Rightarrow> low_callback option \<Rightarrow> dvdlow \<Rightarrow> (bool \<times> dvdlow) option" where
  "read_request ios code dst sz offset cb s = do {
     (ctx, s) \<leftarrow> newContext cb 1 (s\<lparr>requestInProgress := True\<rparr>);
     let s = s\<lparr>readLength := sz\<rparr>;
     let s = set_command (\<lambda>c. c\<lparr>di_command := code, di_arg1 := sz, di_arg2 := offset\<rparr>) (nextCommandBuf s);
     Some (ioctl ios code dst sz TransactionCallback ctx s)
   }"

definition DVDLowUnencryptedRead :: "ios \<Rightarrow> int \<Rightarrow> int \<Rightarrow> int \<Rightarrow> low_callback option \<Rightarrow> dvdlow \<Rightarrow> (bool \<times> dvdlow) option" where
  "DVDLowUnencryptedRead ios dst sz offset cb s = read_request ios DVD_IOCTL_UNENCRYPTED_READ dst sz offset cb s"

definition DVDLowStopMotor :: "ios \<Rightarrow> bool \<Rightarrow> bool \<Rightarrow> low_callback option \<Rightarrow> dvdlow \<Rightarrow> (bool \<times> dvdlow) option" where
  "DVDLowStopMotor ios eject kill cb s =
     request ios DVD_IOCTL_STOP_MOTOR (\<lambda>c. c\<lparr>di_arg1 := of_bool eject, di_arg2 := of_bool kill\<rparr>) diRegValCache_ADDR 32 cb s"

definition DVDLowInquiry :: "ios \<Rightarrow> int \<Rightarrow> low_callback option \<Rightarrow> dvdlow \<Rightarrow> (bool \<times> dvdlow) option" where
  "DVDLowInquiry ios out cb s = request ios DVD_IOCTL_INQUIRY (\<lambda>c. c) out 0x20 cb s"

definition DVDLowRequestError :: "ios \<Rightarrow> low_callback option \<Rightarrow> dvdlow \<Rightarrow> (bool \<times> dvdlow) option" where
  "DVDLowRequestError ios cb s = request ios DVD_IOCTL_REQUEST_ERROR (\<lambda>c. c) diRegValCache_ADDR 32 cb s"

definition DVDLowSetSpinupFlag :: "bool \<Rightarrow> dvdlow \<Rightarrow> bool \<times> dvdlow" where
  "DVDLowSetSpinupFlag enable s = (True, s\<lparr>spinUpValue := enable\<rparr>)"

definition DVDLowReset :: "ios \<Rightarrow> low_callback option \<Rightarrow> dvdlow \<Rightarrow> (bool \<times> dvdlow) option" where
  "DVDLowReset ios cb s = request ios DVD_IOCTL_RESET (\<lambda>c. c\<lparr>di_arg1 := of_bool (spinUpValue s)\<rparr>) 0 0 cb s"

definition DVDLowAudioBufferConfig :: "ios \<Rightarrow> int \<Rightarrow> int \<Rightarrow> low_callback option \<Rightarrow> dvdlow \<Rightarrow> (bool \<times> dvdlow) option" where
  "DVDLowAudioBufferConfig ios enable sz cb s =
     request ios DVD_IOCTL_AUDIO_BUFFER_CONFIG (\<lambda>c. c\<lparr>di_arg1 := enable, di_arg2 := sz\<rparr>) diRegValCache_ADDR 32 cb s"

definition DVDLowSetMaximumRotation :: "ios \<Rightarrow> int \<Rightarrow> low_callback option \<Rightarrow> dvdlow \<Rightarrow> (bool \<times> dvdlow) option" where
  "DVDLowSetMaximumRotation ios speed cb s = request ios DVD_IOCTL_SET_MAX_ROTATION (\<lambda>c. c\<lparr>di_arg1 := and (drop_bit 16 speed) 3\<rparr>) 0 0 cb s"

definition DVDLowRead :: "ios \<Rightarrow> int \<Rightarrow> int \<Rightarrow> int \<Rightarrow> low_callback option \<Rightarrow> dvdlow \<Rightarrow> (bool \<times> dvdlow) option" where
  "DVDLowRead ios dst sz offset cb s =
     (if dst mod 32 \<noteq> 0 then Some (False, s) else read_request ios DVD_IOCTL_READ dst sz offset cb s)"

definition DVDLowSeek :: "ios \<Rightarrow> int \<Rightarrow> low_callback option \<Rightarrow> dvdlow \<Rightarrow> (bool \<times> dvdlow) option" where
  "DVDLowSeek ios offset cb s = request ios DVD_IOCTL_SEEK (\<lambda>c. c\<lparr>di_arg1 := offset\<rparr>) 0 0 cb s"

definition DVDLowGetCoverRegister :: "dvdlow \<Rightarrow> int" where "DVDLowGetCoverRegister s = dicvr s"

definition DVDLowPrepareCoverRegister :: "ios \<Rightarrow> low_callback option \<Rightarrow> dvdlow \<Rightarrow> (bool \<times> dvdlow) option" where
  "DVDLowPrepareCoverRegister ios cb s =
     request_late ios DVD_IOCTL_PREPARE_COVER_REGISTER registerBuf_ADDR 32 PrepareCoverRegisterCallback cb s"

definition DVDLowGetImmBufferReg :: "dvdlow \<Rightarrow> int" where "DVDLowGetImmBufferReg s = diimmbuf s"

definition DVDLowClearCoverInterrupt :: "ios \<Rightarrow> low_callback option \<Rightarrow> dvdlow \<Rightarrow> (bool \<times> dvdlow) option" where
  "DVDLowClearCoverInterrupt ios cb s = request_late ios DVD_IOCTL_CLEAR_COVER_INTERRUPT 0 0 TransactionCallback cb s"

section \<open>Answers\<close>

text \<open>Running the handler of a context; \<open>readDone\<close> is whether a completed transfer resets the length.\<close>

definition run_handler :: "(low_callback \<Rightarrow> int \<Rightarrow> dvdlow \<Rightarrow> dvdlow option) \<Rightarrow> bool \<Rightarrow> int \<Rightarrow> int \<Rightarrow> dvdlow \<Rightarrow> dvdlow option" where
  "run_handler deliver readDone intType ctx s =
     (case lc_callback (dvdContexts s ctx) of
        None \<Rightarrow> Some s
      | Some cb \<Rightarrow> do {
          let s = s\<lparr>callbackInProgress := True\<rparr>;
          let (intType, s) = (if breakRequested s then (or intType DVD_INTTYPE_BR, s\<lparr>breakRequested := False\<rparr>) else (intType, s));
          let s = (if readDone \<and> int_has intType DVD_INTTYPE_TC then s\<lparr>readLength := 0\<rparr> else s);
          s \<leftarrow> deliver cb intType s;
          Some (s\<lparr>callbackInProgress := False\<rparr>)
        })"

definition doTransactionCallback :: "(low_callback \<Rightarrow> int \<Rightarrow> dvdlow \<Rightarrow> dvdlow option) \<Rightarrow> int \<Rightarrow> int \<Rightarrow> dvdlow \<Rightarrow> dvdlow option" where
  "doTransactionCallback deliver intType ctx s = do {
     s \<leftarrow> (if lc_magic (dvdContexts s ctx) \<noteq> DVD_LOW_CTX_MAGIC
           then Some (upd_ctx ctx (lc_magic_update (\<lambda>_. DVD_LOW_CTX_MAGIC)) s)
           else run_handler deliver True intType ctx (s\<lparr>requestInProgress := False\<rparr>));
     Some (upd_ctx ctx (lc_inUse_update (\<lambda>_. False)) s)
   }"

definition doPrepareCoverRegisterCallback :: "(low_callback \<Rightarrow> int \<Rightarrow> dvdlow \<Rightarrow> dvdlow option) \<Rightarrow> int \<Rightarrow> int \<Rightarrow> dvdlow \<Rightarrow> dvdlow option" where
  "doPrepareCoverRegisterCallback deliver intType ctx s = do {
     let s = s\<lparr>requestInProgress := False, dicvr := registerBuf s\<rparr>;
     s \<leftarrow> (if lc_magic (dvdContexts s ctx) \<noteq> DVD_LOW_CTX_MAGIC
           then Some (upd_ctx ctx (lc_magic_update (\<lambda>_. DVD_LOW_CTX_MAGIC)) s)
           else run_handler deliver False intType ctx s);
     Some (upd_ctx ctx (lc_inUse_update (\<lambda>_. False)) s)
   }"

text \<open>Two flaws of the start and the requests.\<close>

lemma ddrAllocAligned32_misrounds: "fst (ddrAllocAligned32 32 (s\<lparr>IPCBufferLo := 0x1004\<rparr>)) = 3"
  by (simp add: ddrAllocAligned32_def u32_def)

section \<open>What \<^verbatim>\<open>dvd.c\<close> sends\<close>

text \<open>A request in the log of the drive's model, sent; what goes elsewhere (timers, threads, the error log) is
  no business of this file.  \<^verbatim>\<open>dvd.c\<close> passes a handler with all but one and ignores the results.\<close>

fun low_send :: "ios \<Rightarrow> low \<Rightarrow> dvdlow \<Rightarrow> (bool \<times> dvdlow) option" where
  "low_send ios (LowRead dst sz ofs cb) s = DVDLowRead ios dst sz ofs (Some cb) s"
| "low_send ios (LowUnencryptedRead dst sz ofs cb) s = DVDLowUnencryptedRead ios dst sz ofs (Some cb) s"
| "low_send ios (LowReadDiskID out cb) s = DVDLowReadDiskID ios out (Some cb) s"
| "low_send ios (LowOpenPartition ofs tmd cb) s = DVDLowOpenPartition ios ofs 0 0 0 tmd (Some cb) s"
| "low_send ios (LowClosePartition cb) s = DVDLowClosePartition ios (Some cb) s"
| "low_send ios (LowStopMotor eject kill cb) s = DVDLowStopMotor ios eject kill (Some cb) s"
| "low_send ios (LowInquiry out cb) s = DVDLowInquiry ios out (Some cb) s"
| "low_send ios (LowRequestError cb) s = DVDLowRequestError ios (Some cb) s"
| "low_send ios (LowSetSpinupFlag enable) s = Some (DVDLowSetSpinupFlag enable s)"
| "low_send ios (LowReset cb) s = DVDLowReset ios (Some cb) s"
| "low_send ios (LowAudioBufferConfig enable sz cb) s = DVDLowAudioBufferConfig ios enable sz (Some cb) s"
| "low_send ios (LowSetMaximumRotation speed cb) s = DVDLowSetMaximumRotation ios speed (Some cb) s"
| "low_send ios (LowSeek ofs cb) s = DVDLowSeek ios ofs (Some cb) s"
| "low_send ios (LowPrepareCoverRegister cb) s = DVDLowPrepareCoverRegister ios (Some cb) s"
| "low_send ios LowClearCoverInterrupt s = DVDLowClearCoverInterrupt ios None s"
| "low_send ios r s = Some (True, s)"

fun low_send_all :: "ios \<Rightarrow> low list \<Rightarrow> dvdlow \<Rightarrow> dvdlow option" where
  "low_send_all ios [] s = Some s"
| "low_send_all ios (r # rs) s = do { (_, s) \<leftarrow> low_send ios r s; low_send_all ios rs s }"

text \<open>The handlers of \<^verbatim>\<open>dvd.c\<close>: run the drive's model on the answer and send what it has asked for.
  \<open>handler_requests\<close> is what the handler of context \<open>c\<close> asks for.\<close>

definition new_requests :: "call \<Rightarrow> drive \<Rightarrow> low_callback \<Rightarrow> int \<Rightarrow> low list option" where
  "new_requests call d h intType = map_option (\<lambda>d'. drop (length (issued d)) (issued d')) (on_answer call h intType d)"

definition dvd_handler :: "call \<Rightarrow> ios \<Rightarrow> drive \<Rightarrow> low_callback \<Rightarrow> int \<Rightarrow> dvdlow \<Rightarrow> dvdlow option" where
  "dvd_handler call ios d h intType s = do { rs \<leftarrow> new_requests call d h intType; low_send_all ios rs s }"

definition handler_requests :: "call \<Rightarrow> drive \<Rightarrow> dvdlow \<Rightarrow> int \<Rightarrow> int \<Rightarrow> low list option" where
  "handler_requests call d s c intType =
     (case lc_callback (dvdContexts s c) of None \<Rightarrow> Some []
      | Some h \<Rightarrow> new_requests call d h (if breakRequested s then or intType DVD_INTTYPE_BR else intType))"

text \<open>The requests that need a context, the handler they pass, and the message they become.\<close>

fun takes_ctx :: "low \<Rightarrow> bool" where
  "takes_ctx (LowRead dst sz ofs cb) = (dst mod 32 = 0)"
| "takes_ctx (LowOpenPartition ofs tmd cb) = (\<not> unaligned tmd)"
| "takes_ctx (LowUnencryptedRead dst sz ofs cb) = True"
| "takes_ctx (LowReadDiskID out cb) = True"
| "takes_ctx (LowClosePartition cb) = True"
| "takes_ctx (LowStopMotor eject kill cb) = True"
| "takes_ctx (LowInquiry out cb) = True"
| "takes_ctx (LowRequestError cb) = True"
| "takes_ctx (LowReset cb) = True"
| "takes_ctx (LowAudioBufferConfig enable sz cb) = True"
| "takes_ctx (LowSetMaximumRotation speed cb) = True"
| "takes_ctx (LowSeek ofs cb) = True"
| "takes_ctx (LowPrepareCoverRegister cb) = True"
| "takes_ctx LowClearCoverInterrupt = True"
| "takes_ctx r = False"

fun low_handler :: "low \<Rightarrow> low_callback option" where
  "low_handler (LowRead dst sz ofs cb) = Some cb"
| "low_handler (LowUnencryptedRead dst sz ofs cb) = Some cb"
| "low_handler (LowReadDiskID out cb) = Some cb"
| "low_handler (LowOpenPartition ofs tmd cb) = Some cb"
| "low_handler (LowClosePartition cb) = Some cb"
| "low_handler (LowStopMotor eject kill cb) = Some cb"
| "low_handler (LowInquiry out cb) = Some cb"
| "low_handler (LowRequestError cb) = Some cb"
| "low_handler (LowReset cb) = Some cb"
| "low_handler (LowAudioBufferConfig enable sz cb) = Some cb"
| "low_handler (LowSetMaximumRotation speed cb) = Some cb"
| "low_handler (LowSeek ofs cb) = Some cb"
| "low_handler (LowPrepareCoverRegister cb) = Some cb"
| "low_handler r = None"

text \<open>\<open>is_ioctl m fd x k code out n P\<close>: the message has the descriptor, the code, the area for the answer, the
  completion and the context, and a command with the code and the arguments \<open>P\<close> describes.\<close>

fun is_ioctl :: "message \<Rightarrow> int \<Rightarrow> int \<Rightarrow> completion \<Rightarrow> int \<Rightarrow> int \<Rightarrow> int \<Rightarrow> (int \<Rightarrow> int \<Rightarrow> bool) \<Rightarrow> bool" where
  "is_ioctl (IoctlAsync fd' code' c out' n' k' x') fd x k code out n P \<longleftrightarrow>
     fd' = fd \<and> code' = code \<and> di_command c = code \<and> P (di_arg1 c) (di_arg2 c) \<and> out' = out \<and> n' = n \<and> k' = k \<and> x' = x"
| "is_ioctl (IoctlvAsync fd' code' c vec k' x') fd x k code out n P \<longleftrightarrow> False"

fun is_open_partition :: "message \<Rightarrow> int \<Rightarrow> int \<Rightarrow> int \<Rightarrow> int \<Rightarrow> bool" where
  "is_open_partition (IoctlvAsync fd' code' c vec k' x') fd x ofs tmd \<longleftrightarrow>
     fd' = fd \<and> code' = DVD_IOCTLV_OPEN_PARTITION \<and> di_command c = DVD_IOCTLV_OPEN_PARTITION \<and> di_arg1 c = ofs \<and>
     vec = [(0, 0), (0, 0), (tmd, 0x49E4), (lastTicketError_ADDR, 32)] \<and> k' = TransactionCallback \<and> x' = x"
| "is_open_partition (IoctlAsync fd' code' c out' n' k' x') fd x ofs tmd \<longleftrightarrow> False"

fun message_for :: "low \<Rightarrow> dvdlow \<Rightarrow> message \<Rightarrow> bool" where
  "message_for (LowRead dst sz ofs cb) s m = is_ioctl m (DiFD s) (freeDvdContext s) TransactionCallback DVD_IOCTL_READ dst sz (\<lambda>a b. a = sz \<and> b = ofs)"
| "message_for (LowUnencryptedRead dst sz ofs cb) s m =
     is_ioctl m (DiFD s) (freeDvdContext s) TransactionCallback DVD_IOCTL_UNENCRYPTED_READ dst sz (\<lambda>a b. a = sz \<and> b = ofs)"
| "message_for (LowReadDiskID out cb) s m = is_ioctl m (DiFD s) (freeDvdContext s) TransactionCallback DVD_IOCTL_READ_DISK_ID out 0x20 (\<lambda>a b. True)"
| "message_for (LowOpenPartition ofs tmd cb) s m = is_open_partition m (DiFD s) (freeDvdContext s) ofs tmd"
| "message_for (LowClosePartition cb) s m = is_ioctl m (DiFD s) (freeDvdContext s) TransactionCallback DVD_IOCTL_CLOSE_PARTITION 0 0 (\<lambda>a b. True)"
| "message_for (LowStopMotor eject kill cb) s m = is_ioctl m (DiFD s) (freeDvdContext s) TransactionCallback DVD_IOCTL_STOP_MOTOR
     diRegValCache_ADDR 32 (\<lambda>a b. a = of_bool eject \<and> b = of_bool kill)"
| "message_for (LowInquiry out cb) s m = is_ioctl m (DiFD s) (freeDvdContext s) TransactionCallback DVD_IOCTL_INQUIRY out 0x20 (\<lambda>a b. True)"
| "message_for (LowRequestError cb) s m =
     is_ioctl m (DiFD s) (freeDvdContext s) TransactionCallback DVD_IOCTL_REQUEST_ERROR diRegValCache_ADDR 32 (\<lambda>a b. True)"
| "message_for (LowReset cb) s m = is_ioctl m (DiFD s) (freeDvdContext s) TransactionCallback DVD_IOCTL_RESET 0 0 (\<lambda>a b. a = of_bool (spinUpValue s))"
| "message_for (LowAudioBufferConfig enable sz cb) s m = is_ioctl m (DiFD s) (freeDvdContext s) TransactionCallback DVD_IOCTL_AUDIO_BUFFER_CONFIG
     diRegValCache_ADDR 32 (\<lambda>a b. a = enable \<and> b = sz)"
| "message_for (LowSetMaximumRotation speed cb) s m = is_ioctl m (DiFD s) (freeDvdContext s) TransactionCallback DVD_IOCTL_SET_MAX_ROTATION 0 0
     (\<lambda>a b. a = and (drop_bit 16 speed) 3)"
| "message_for (LowSeek ofs cb) s m = is_ioctl m (DiFD s) (freeDvdContext s) TransactionCallback DVD_IOCTL_SEEK 0 0 (\<lambda>a b. a = ofs)"
| "message_for (LowPrepareCoverRegister cb) s m =
     is_ioctl m (DiFD s) (freeDvdContext s) PrepareCoverRegisterCallback DVD_IOCTL_PREPARE_COVER_REGISTER registerBuf_ADDR 32 (\<lambda>a b. True)"
| "message_for LowClearCoverInterrupt s m = is_ioctl m (DiFD s) (freeDvdContext s) TransactionCallback DVD_IOCTL_CLEAR_COVER_INTERRUPT 0 0 (\<lambda>a b. True)"
| "message_for r s m = False"

section \<open>The ring of contexts\<close>

text \<open>The contexts from the next one to be taken on, which is the one taken longest ago; \<open>q\<close> are the requests
  under way, oldest first.  A request that was refused, or answered before an older one, leaves a hole.\<close>

definition slots :: "int \<Rightarrow> int list" where
  "slots f = [f, (f + 1) mod 4, (f + 2) mod 4, (f + 3) mod 4]"

abbreviation ctx_busy :: "dvdlow \<Rightarrow> int \<Rightarrow> bool" where
  "ctx_busy s c \<equiv> lc_inUse (dvdContexts s c)"

definition low_ring :: "dvdlow \<Rightarrow> int list \<Rightarrow> bool" where
  "low_ring s q \<longleftrightarrow> freeDvdContext s \<in> {0..3} \<and> q = List.filter (ctx_busy s) (slots (freeDvdContext s)) \<and>
     (\<forall>c \<in> {0..3}. lc_magic (dvdContexts s c) = DVD_LOW_CTX_MAGIC)"

text \<open>How many requests can be made before one that is under way has to be answered.\<close>

definition low_room :: "dvdlow \<Rightarrow> nat" where
  "low_room s = length (takeWhile (\<lambda>c. \<not> ctx_busy s c) (slots (freeDvdContext s)))"

abbreviation next_ctx :: "int \<Rightarrow> int" where "next_ctx i \<equiv> if i + 1 \<ge> DVD_LOW_CTX_MAX then 0 else i + 1"

lemma ctx_cases: "(f::int) \<in> {0..3} \<Longrightarrow> f = 0 \<or> f = 1 \<or> f = 2 \<or> f = 3"
  by auto

lemma slots_next:
  assumes "f \<in> {0..3}"
  obtains r where "slots f = f # r" "slots (next_ctx f) = r @ [f]" "f \<notin> set r" "length r = 3" "distinct r"
    "set (slots f) = {0..3}" "next_ctx f \<in> {0..3}"
proof -
  have all: "{0..3} = {0, 1, 2, 3 :: int}" by auto
  have "slots f = f # tl (slots f)" "slots (next_ctx f) = tl (slots f) @ [f]" "f \<notin> set (tl (slots f))"
    "length (tl (slots f)) = 3" "distinct (tl (slots f))" "set (slots f) = {0..3}" "next_ctx f \<in> {0..3}"
    unfolding all using ctx_cases [OF assms] by (elim disjE; simp add: slots_def DVD_LOW_CTX_MAX_def insert_commute)+
  then show thesis by (rule that)
qed

lemma low_ring_cong:
  "dvdContexts s' = dvdContexts s \<Longrightarrow> freeDvdContext s' = freeDvdContext s \<Longrightarrow> low_ring s' q = low_ring s q"
  "dvdContexts s' = dvdContexts s \<Longrightarrow> freeDvdContext s' = freeDvdContext s \<Longrightarrow> low_room s' = low_room s"
  by (simp_all add: low_ring_def low_room_def)

lemma low_command_sel [simp]:
  "dvdContexts (set_command f s) = dvdContexts s" "dvdContexts (nextCommandBuf s) = dvdContexts s"
  "freeDvdContext (set_command f s) = freeDvdContext s" "freeDvdContext (nextCommandBuf s) = freeDvdContext s"
  "posted (set_command f s) = posted s" "posted (nextCommandBuf s) = posted s"
  "DiFD (set_command f s) = DiFD s" "DiFD (nextCommandBuf s) = DiFD s"
  "spinUpValue (set_command f s) = spinUpValue s" "spinUpValue (nextCommandBuf s) = spinUpValue s"
  "diCommand (set_command f s) (freeCommandBuf (set_command f s)) = f (diCommand s (freeCommandBuf s))"
  by (simp_all add: set_command_def nextCommandBuf_def)

lemma low_ring_distinct:
  assumes "low_ring s q"
  shows "distinct q"
proof -
  have "freeDvdContext s \<in> {0..3}" using assms by (simp add: low_ring_def)
  from ctx_cases [OF this] have "distinct (slots (freeDvdContext s))"
    by (elim disjE) (simp_all add: slots_def)
  then show ?thesis using assms by (simp add: low_ring_def)
qed

lemma free_ctx:
  assumes "low_ring s q"
  shows "low_ring (upd_ctx c (lc_inUse_update (\<lambda>_. False)) s) (List.filter (\<lambda>x. x \<noteq> c) q)"
  using assms by (auto simp: low_ring_def upd_ctx_def conj_commute intro!: filter_cong)

text \<open>The context in use at the front of the slots stops the code; otherwise it is taken.\<close>

lemma newContext_busy: "low_ring s q \<Longrightarrow> freeDvdContext s \<in> set q \<Longrightarrow> newContext cb w s = None"
  by (auto simp: low_ring_def newContext_def)

lemma takeWhile_snoc:
  "(\<And>x. x \<in> set r \<Longrightarrow> P x = Q x) \<Longrightarrow> length (takeWhile P r) \<le> length (takeWhile Q (r @ [f]))"
  by (induction r) auto

lemma newContext_free:
  assumes "low_ring s q" "freeDvdContext s \<notin> set q"
  obtains s' where "newContext cb w s = Some (freeDvdContext s, s')" "low_ring s' (q @ [freeDvdContext s])"
    "lc_callback (dvdContexts s' (freeDvdContext s)) = cb" "freeDvdContext s' = next_ctx (freeDvdContext s)"
    "posted s' = posted s" "DiFD s' = DiFD s" "spinUpValue s' = spinUpValue s" "low_room s \<le> Suc (low_room s')"
    "low_room s \<le> Suc (low_room (upd_ctx (freeDvdContext s) (lc_inUse_update (\<lambda>_. False)) s'))"
proof -
  let ?f = "freeDvdContext s"
  let ?s = "(upd_ctx ?f (\<lambda>c. c\<lparr>lc_callback := cb, lc_word4 := w, lc_inUse := True\<rparr>) s)\<lparr>freeDvdContext := next_ctx ?f\<rparr>"
  let ?t = "upd_ctx ?f (lc_inUse_update (\<lambda>_. False)) ?s"
  have f: "?f \<in> {0..3}" using assms(1) by (simp add: low_ring_def)
  obtain r where r: "slots ?f = ?f # r" "slots (next_ctx ?f) = r @ [?f]" "?f \<notin> set r" "set (slots ?f) = {0..3}" "next_ctx ?f \<in> {0..3}"
    by (rule slots_next [OF f]) blast
  have nb: "\<not> ctx_busy s ?f" using assms r(1) by (auto simp: low_ring_def)
  have magic: "lc_magic (dvdContexts s ?f) = DVD_LOW_CTX_MAGIC" using assms(1) f by (simp add: low_ring_def)
  have n: "newContext cb w s = Some (?f, ?s)" using nb magic by (simp add: newContext_def Let_def)
  have same: "List.filter (ctx_busy ?s) r = List.filter (ctx_busy s) r"
    using r(3) by (intro filter_cong) (auto simp: upd_ctx_def)
  have "List.filter (ctx_busy ?s) (r @ [?f]) = List.filter (ctx_busy s) r @ [?f]"
    unfolding filter_append same by (simp add: upd_ctx_def)
  moreover have "List.filter (ctx_busy s) (?f # r) = List.filter (ctx_busy s) r" using nb by simp
  moreover have "freeDvdContext ?s = next_ctx ?f" by simp
  ultimately have "List.filter (ctx_busy ?s) (slots (freeDvdContext ?s)) = List.filter (ctx_busy s) (slots ?f) @ [?f]"
    by (simp only: r(1,2))
  then have ring: "low_ring ?s (q @ [?f])"
    using assms(1) r(5) by (simp add: low_ring_def upd_ctx_def)
  have room: "low_room s = Suc (length (takeWhile (\<lambda>c. \<not> ctx_busy s c) r))"
    using nb by (simp add: low_room_def r(1))
  have "length (takeWhile (\<lambda>c. \<not> ctx_busy s c) r) \<le> length (takeWhile (\<lambda>c. \<not> ctx_busy ?s c) (r @ [?f]))"
    by (rule takeWhile_snoc) (use r(3) in \<open>auto simp: upd_ctx_def\<close>)
  moreover have "length (takeWhile (\<lambda>c. \<not> ctx_busy s c) r) \<le> length (takeWhile (\<lambda>c. \<not> ctx_busy ?t c) (r @ [?f]))"
    by (rule takeWhile_snoc) (use r(3) in \<open>auto simp: upd_ctx_def\<close>)
  moreover have u: "low_room u = length (takeWhile (\<lambda>c. \<not> ctx_busy u c) (r @ [?f]))" if "freeDvdContext u = next_ctx ?f" for u
    unfolding low_room_def that r(2) ..
  have "freeDvdContext ?s = next_ctx ?f" "freeDvdContext ?t = next_ctx ?f" by (simp_all add: upd_ctx_def)
  note u [OF this(1)] u [OF this(2)]
  ultimately have "low_room s \<le> Suc (low_room ?s)" "low_room s \<le> Suc (low_room ?t)"
    unfolding room by (simp_all only: Suc_le_mono)
  then show thesis using that n ring by (simp add: upd_ctx_def)
qed

text \<open>The state in which a request that found its context is about to be posted.\<close>

definition ready_to_post :: "dvdlow \<Rightarrow> int list \<Rightarrow> low_callback option \<Rightarrow> dvdlow \<Rightarrow> bool" where
  "ready_to_post s q cb t \<longleftrightarrow> low_ring t (q @ [freeDvdContext s]) \<and> lc_callback (dvdContexts t (freeDvdContext s)) = cb \<and>
     freeDvdContext t = next_ctx (freeDvdContext s) \<and> posted t = posted s \<and> DiFD t = DiFD s \<and> low_room s \<le> Suc (low_room t) \<and>
     low_room s \<le> Suc (low_room (upd_ctx (freeDvdContext s) (lc_inUse_update (\<lambda>_. False)) t))"

lemma ready_to_post_cong:
  assumes "ready_to_post s q cb t" "dvdContexts t' = dvdContexts t" "freeDvdContext t' = freeDvdContext t" "posted t' = posted t" "DiFD t' = DiFD t"
    "dvdContexts s' = dvdContexts s" "freeDvdContext s' = freeDvdContext s" "posted s' = posted s" "DiFD s' = DiFD s"
  shows "ready_to_post s' q cb t'"
proof -
  have "low_ring t' p = low_ring t p" "low_room t' = low_room t" "low_room s' = low_room s" for p
    by (rule low_ring_cong; simp add: assms)+
  moreover have "low_room (upd_ctx c g t') = low_room (upd_ctx c g t)" for c g
    by (rule low_ring_cong) (simp_all add: upd_ctx_def assms)
  ultimately show ?thesis using assms by (simp add: ready_to_post_def)
qed

lemma newContext_ready:
  assumes "low_ring s q" "freeDvdContext s \<notin> set q" "dvdContexts s' = dvdContexts s" "freeDvdContext s' = freeDvdContext s"
    "posted s' = posted s" "DiFD s' = DiFD s"
  obtains t where "newContext cb w s' = Some (freeDvdContext s, t)" "ready_to_post s q cb t"
proof -
  have "low_ring s' q" using assms(1) low_ring_cong(1) [OF assms(3,4)] by simp
  then obtain t where t: "newContext cb w s' = Some (freeDvdContext s', t)" "low_ring t (q @ [freeDvdContext s'])"
    "lc_callback (dvdContexts t (freeDvdContext s')) = cb" "freeDvdContext t = next_ctx (freeDvdContext s')"
    "posted t = posted s'" "DiFD t = DiFD s'" "low_room s' \<le> Suc (low_room t)"
    "low_room s' \<le> Suc (low_room (upd_ctx (freeDvdContext s') (lc_inUse_update (\<lambda>_. False)) t))"
    by (rule newContext_free [of s' q cb w]) (use assms(2,4) in simp_all)
  then have "ready_to_post s' q cb t" by (simp add: ready_to_post_def)
  then have "ready_to_post s q cb t" by (rule ready_to_post_cong) (simp_all add: assms)
  then show thesis using that t(1) assms(4) by simp
qed

lemma request_posts:
  assumes "low_ring s q" "freeDvdContext s \<notin> set q"
  shows "\<exists>t c. request ios code args out n cb s = Some (post ios (IoctlAsync (DiFD s) code (args (c\<lparr>di_command := code\<rparr>)) out n
      TransactionCallback (freeDvdContext s)) (freeDvdContext s) t) \<and> ready_to_post s q cb t"
proof -
  obtain t where t: "newContext cb 1 (s\<lparr>requestInProgress := True\<rparr>) = Some (freeDvdContext s, t)" "ready_to_post s q cb t"
    by (rule newContext_ready [OF assms, where s' = "s\<lparr>requestInProgress := True\<rparr>" and cb = cb and w = 1]) simp_all
  let ?t = "set_command (\<lambda>c. args (c\<lparr>di_command := code\<rparr>)) (nextCommandBuf t)"
  have "ready_to_post s q cb ?t" using t(2) by (rule ready_to_post_cong) simp_all
  then show ?thesis using t by (auto simp: request_def ioctl_def ready_to_post_def)
qed

lemma request_late_posts:
  assumes "low_ring s q" "freeDvdContext s \<notin> set q"
  shows "\<exists>t c. request_late ios code out n k cb s = Some (post ios (IoctlAsync (DiFD s) code (c\<lparr>di_command := code\<rparr>) out n
      k (freeDvdContext s)) (freeDvdContext s) t) \<and> ready_to_post s q cb t"
proof -
  let ?s = "(set_command (di_command_update (\<lambda>_. code)) (nextCommandBuf s))\<lparr>requestInProgress := True\<rparr>"
  obtain t where t: "newContext cb 1 ?s = Some (freeDvdContext s, t)" "ready_to_post s q cb t"
    by (rule newContext_ready [OF assms, where s' = ?s and cb = cb and w = 1]) simp_all
  have "diCommand t = diCommand ?s" "freeCommandBuf t = freeCommandBuf ?s"
    using t(1) by (auto simp: newContext_def upd_ctx_def Let_def split: if_splits)
  then have "diCommand t (freeCommandBuf t) = (diCommand s (freeCommandBuf (nextCommandBuf s)))\<lparr>di_command := code\<rparr>"
    by (simp add: set_command_def nextCommandBuf_def)
  then show ?thesis using t by (auto simp: request_late_def ioctl_def ready_to_post_def)
qed

lemma read_request_posts:
  assumes "low_ring s q" "freeDvdContext s \<notin> set q"
  shows "\<exists>t c. read_request ios code dst sz ofs cb s = Some (post ios (IoctlAsync (DiFD s) code
      (c\<lparr>di_command := code, di_arg1 := sz, di_arg2 := ofs\<rparr>) dst sz TransactionCallback (freeDvdContext s)) (freeDvdContext s) t) \<and>
    ready_to_post s q cb t"
proof -
  obtain t where t: "newContext cb 1 (s\<lparr>requestInProgress := True\<rparr>) = Some (freeDvdContext s, t)" "ready_to_post s q cb t"
    by (rule newContext_ready [OF assms, where s' = "s\<lparr>requestInProgress := True\<rparr>" and cb = cb and w = 1]) simp_all
  let ?t = "set_command (\<lambda>c. c\<lparr>di_command := code, di_arg1 := sz, di_arg2 := ofs\<rparr>) (nextCommandBuf (t\<lparr>readLength := sz\<rparr>))"
  have "ready_to_post s q cb ?t" using t(2) by (rule ready_to_post_cong) (simp_all add: set_command_def nextCommandBuf_def)
  moreover have "DiFD ?t = DiFD s" using calculation by (simp add: ready_to_post_def)
  ultimately show ?thesis using t(1) by (auto simp: read_request_def ioctl_def Let_def)
qed

lemma open_partition_posts:
  assumes "low_ring s q" "freeDvdContext s \<notin> set q" "\<not> unaligned tmd"
  shows "\<exists>t c. DVDLowOpenPartition ios ofs 0 0 0 tmd cb s = Some (post ios (IoctlvAsync (DiFD s) DVD_IOCTLV_OPEN_PARTITION
      (c\<lparr>di_command := DVD_IOCTLV_OPEN_PARTITION, di_arg1 := ofs\<rparr>) [(0, 0), (0, 0), (tmd, 0x49E4), (lastTicketError_ADDR, 32)]
      TransactionCallback (freeDvdContext s)) (freeDvdContext s) t) \<and> ready_to_post s q cb t"
proof -
  obtain t where t: "newContext cb 1 (s\<lparr>requestInProgress := True\<rparr>) = Some (freeDvdContext s, t)" "ready_to_post s q cb t"
    by (rule newContext_ready [OF assms(1,2), where s' = "s\<lparr>requestInProgress := True\<rparr>" and cb = cb and w = 1]) simp_all
  let ?t = "set_command (\<lambda>c. c\<lparr>di_command := DVD_IOCTLV_OPEN_PARTITION, di_arg1 := ofs\<rparr>) (nextCommandBuf t)"
  have "ready_to_post s q cb ?t" using t(2) by (rule ready_to_post_cong) simp_all
  moreover have "DiFD ?t = DiFD s" using calculation by (simp add: ready_to_post_def)
  ultimately show ?thesis using t(1) assms(3) by (auto simp: DVDLowOpenPartition_def unaligned_def)
qed

text \<open>Every request, accepted or refused.\<close>

lemma low_send_posts:
  assumes "low_ring s q" "freeDvdContext s \<notin> set q" "takes_ctx r"
  shows "\<exists>m t. low_send ios r s = Some (post ios m (freeDvdContext s) t) \<and> message_for r s m \<and> ready_to_post s q (low_handler r) t"
proof (cases r)
  case (LowRead dst sz ofs cb)
  then show ?thesis using read_request_posts [OF assms(1,2), of ios DVD_IOCTL_READ dst sz ofs "Some cb"] assms(3)
    by (fastforce simp: DVDLowRead_def)
next
  case (LowUnencryptedRead dst sz ofs cb)
  then show ?thesis using read_request_posts [OF assms(1,2), of ios DVD_IOCTL_UNENCRYPTED_READ dst sz ofs "Some cb"]
    by (fastforce simp: DVDLowUnencryptedRead_def)
next
  case (LowReadDiskID out cb)
  then show ?thesis using request_posts [OF assms(1,2), of ios DVD_IOCTL_READ_DISK_ID "\<lambda>c. c" out "0x20" "Some cb"]
    by (fastforce simp: DVDLowReadDiskID_def)
next
  case (LowOpenPartition ofs tmd cb)
  then show ?thesis using open_partition_posts [OF assms(1,2), of tmd ios ofs "Some cb"] assms(3) by fastforce
next
  case (LowClosePartition cb)
  then show ?thesis using request_late_posts [OF assms(1,2), of ios DVD_IOCTL_CLOSE_PARTITION 0 0 TransactionCallback "Some cb"]
    by (fastforce simp: DVDLowClosePartition_def)
next
  case (LowStopMotor eject kill cb)
  then show ?thesis
    using request_posts [OF assms(1,2), of ios DVD_IOCTL_STOP_MOTOR "\<lambda>c. c\<lparr>di_arg1 := of_bool eject, di_arg2 := of_bool kill\<rparr>"
        diRegValCache_ADDR 32 "Some cb"]
    by (fastforce simp: DVDLowStopMotor_def)
next
  case (LowInquiry out cb)
  then show ?thesis using request_posts [OF assms(1,2), of ios DVD_IOCTL_INQUIRY "\<lambda>c. c" out "0x20" "Some cb"]
    by (fastforce simp: DVDLowInquiry_def)
next
  case (LowRequestError cb)
  then show ?thesis using request_posts [OF assms(1,2), of ios DVD_IOCTL_REQUEST_ERROR "\<lambda>c. c" diRegValCache_ADDR 32 "Some cb"]
    by (fastforce simp: DVDLowRequestError_def)
next
  case (LowReset cb)
  then show ?thesis
    using request_posts [OF assms(1,2), of ios DVD_IOCTL_RESET "\<lambda>c. c\<lparr>di_arg1 := of_bool (spinUpValue s)\<rparr>" 0 0 "Some cb"]
    by (fastforce simp: DVDLowReset_def)
next
  case (LowAudioBufferConfig enable sz cb)
  then show ?thesis
    using request_posts [OF assms(1,2), of ios DVD_IOCTL_AUDIO_BUFFER_CONFIG "\<lambda>c. c\<lparr>di_arg1 := enable, di_arg2 := sz\<rparr>"
        diRegValCache_ADDR 32 "Some cb"]
    by (fastforce simp: DVDLowAudioBufferConfig_def)
next
  case (LowSetMaximumRotation speed cb)
  then show ?thesis
    using request_posts [OF assms(1,2), of ios DVD_IOCTL_SET_MAX_ROTATION "\<lambda>c. c\<lparr>di_arg1 := and (drop_bit 16 speed) 3\<rparr>" 0 0 "Some cb"]
    by (fastforce simp: DVDLowSetMaximumRotation_def)
next
  case (LowSeek ofs cb)
  then show ?thesis using request_posts [OF assms(1,2), of ios DVD_IOCTL_SEEK "\<lambda>c. c\<lparr>di_arg1 := ofs\<rparr>" 0 0 "Some cb"]
    by (fastforce simp: DVDLowSeek_def)
next
  case (LowPrepareCoverRegister cb)
  then show ?thesis
    using request_late_posts [OF assms(1,2), of ios DVD_IOCTL_PREPARE_COVER_REGISTER registerBuf_ADDR 32 PrepareCoverRegisterCallback "Some cb"]
    by (fastforce simp: DVDLowPrepareCoverRegister_def)
next
  case LowClearCoverInterrupt
  then show ?thesis using request_late_posts [OF assms(1,2), of ios DVD_IOCTL_CLEAR_COVER_INTERRUPT 0 0 TransactionCallback None]
    by (fastforce simp: DVDLowClearCoverInterrupt_def)
qed (use assms(3) in simp_all)

text \<open>The kernel's answer to the message.\<close>

lemma post_ring:
  assumes "ready_to_post s q cb t" "freeDvdContext s \<notin> set q"
  defines "f \<equiv> freeDvdContext s"
  shows "\<exists>b u. post ios m f t = (b, u) \<and> b = (ios m t = IPC_RESULT_OK) \<and> freeDvdContext u = next_ctx f \<and> low_room s \<le> Suc (low_room u) \<and>
    (if b then low_ring u (q @ [f]) \<and> lc_callback (dvdContexts u f) = cb \<and> posted u = posted s @ [m]
     else low_ring u q \<and> posted u = posted s)"
proof (cases "ios m t = IPC_RESULT_OK")
  case True
  let ?u = "t\<lparr>posted := posted t @ [m]\<rparr>"
  have "low_ring ?u p = low_ring t p" "low_room ?u = low_room t" for p by (rule low_ring_cong; simp)+
  then show ?thesis using True assms by (intro exI [of _ True] exI [of _ ?u]) (simp add: post_def ready_to_post_def)
next
  case False
  let ?u = "upd_ctx f (lc_inUse_update (\<lambda>_. False)) t"
  have "List.filter (\<lambda>x. x \<noteq> f) (q @ [f]) = q" using assms(2) by (auto simp: f_def filter_id_conv)
  then have "low_ring ?u q" using free_ctx [of t "q @ [f]" f] assms(1) by (simp add: ready_to_post_def f_def)
  moreover have "freeDvdContext ?u = freeDvdContext t" "posted ?u = posted t" by (simp_all add: upd_ctx_def)
  ultimately show ?thesis using False assms by (intro exI [of _ False] exI [of _ ?u]) (simp add: post_def ready_to_post_def)
qed

lemma low_send_result:
  assumes "low_ring s q" "freeDvdContext s \<notin> set q" "takes_ctx r"
  shows "\<exists>b s'. low_send ios r s = Some (b, s') \<and> freeDvdContext s' = next_ctx (freeDvdContext s) \<and> low_room s \<le> Suc (low_room s') \<and>
    (if b then low_ring s' (q @ [freeDvdContext s]) \<and> lc_callback (dvdContexts s' (freeDvdContext s)) = low_handler r \<and>
       (\<exists>m. posted s' = posted s @ [m] \<and> message_for r s m)
     else low_ring s' q \<and> posted s' = posted s) \<and>
    ((\<forall>m t. ios m t = IPC_RESULT_OK) \<longrightarrow> b) \<and> ((\<forall>m t. ios m t \<noteq> IPC_RESULT_OK) \<longrightarrow> \<not> b)"
proof -
  obtain m t where p: "low_send ios r s = Some (post ios m (freeDvdContext s) t)" "message_for r s m" "ready_to_post s q (low_handler r) t"
    using low_send_posts [OF assms] by blast
  obtain b u where u: "post ios m (freeDvdContext s) t = (b, u)" "b = (ios m t = IPC_RESULT_OK)" "freeDvdContext u = next_ctx (freeDvdContext s)"
    "low_room s \<le> Suc (low_room u)"
    "if b then low_ring u (q @ [freeDvdContext s]) \<and> lc_callback (dvdContexts u (freeDvdContext s)) = low_handler r \<and> posted u = posted s @ [m]
     else low_ring u q \<and> posted u = posted s"
    using post_ring [OF p(3) assms(2)] by blast
  show ?thesis unfolding p(1) u(1) using u(2-5) p(2) by (intro exI [of _ b] exI [of _ u]) auto
qed

lemma low_send_busy:
  assumes "low_ring s q" "freeDvdContext s \<in> set q" "takes_ctx r"
  shows "low_send ios r s = None"
proof -
  have n: "newContext cb w t = None" if "dvdContexts t = dvdContexts s" "freeDvdContext t = freeDvdContext s" for cb w t
    using newContext_busy [of t q cb w] low_ring_cong(1) [OF that] assms(1,2) that by simp
  have "request ios code args out k cb s = None" "request_late ios code out k x cb s = None" "read_request ios code out k ofs cb s = None"
    for code args out k x cb ofs
    by (simp_all add: request_def request_late_def read_request_def n)
  then show ?thesis using assms(3)
    by (cases r) (simp_all add: DVDLowRead_def DVDLowUnencryptedRead_def DVDLowReadDiskID_def DVDLowOpenPartition_def
        DVDLowClosePartition_def DVDLowStopMotor_def DVDLowInquiry_def DVDLowRequestError_def DVDLowReset_def DVDLowAudioBufferConfig_def
        DVDLowSetMaximumRotation_def DVDLowSeek_def DVDLowPrepareCoverRegister_def DVDLowClearCoverInterrupt_def unaligned_def n)
qed

text \<open>What needs no context changes nothing but the flag of the motor.\<close>

lemma low_send_other:
  assumes "\<not> takes_ctx r"
  shows "\<exists>b s'. low_send ios r s = Some (b, s') \<and> dvdContexts s' = dvdContexts s \<and> freeDvdContext s' = freeDvdContext s \<and> posted s' = posted s"
  using assms by (cases r) (simp_all add: DVDLowRead_def DVDLowOpenPartition_def unaligned_def DVDLowSetSpinupFlag_def ex_bool_eq)

text \<open>A handler that sends no more requests than there is room for.\<close>

lemma low_send_all_ring:
  assumes "low_ring s q" "length (List.filter takes_ctx rs) \<le> low_room s"
  shows "\<exists>s' new. low_send_all ios rs s = Some s' \<and> low_ring s' (q @ new) \<and> length new \<le> length (List.filter takes_ctx rs) \<and>
    ((\<forall>m t. ios m t = IPC_RESULT_OK) \<longrightarrow> length new = length (List.filter takes_ctx rs))"
  using assms
proof (induction rs arbitrary: s q)
  case Nil
  then show ?case by (intro exI [of _ s] exI [of _ "[]"]) simp
next
  case (Cons r rs)
  show ?case
  proof (cases "takes_ctx r")
    case False
    then obtain b s1 where s1: "low_send ios r s = Some (b, s1)" "dvdContexts s1 = dvdContexts s" "freeDvdContext s1 = freeDvdContext s"
      using low_send_other by blast
    then have "low_ring s1 q" "low_room s1 = low_room s" using low_ring_cong [of s1 s] Cons.prems(1) by simp_all
    then show ?thesis using Cons.IH [of s1 q] Cons.prems(2) False s1(1) by simp
  next
    case True
    then have "low_room s \<noteq> 0" using Cons.prems(2) by auto
    then have "freeDvdContext s \<notin> set q" using Cons.prems(1) by (auto simp: low_room_def low_ring_def slots_def split: if_splits)
    from low_send_result [OF Cons.prems(1) this True, of ios] obtain b s1 where
      x: "low_send ios r s = Some (b, s1)" "low_room s \<le> Suc (low_room s1)"
        "if b then low_ring s1 (q @ [freeDvdContext s]) \<and> lc_callback (dvdContexts s1 (freeDvdContext s)) = low_handler r \<and>
           (\<exists>m. posted s1 = posted s @ [m] \<and> message_for r s m) else low_ring s1 q \<and> posted s1 = posted s"
        "(\<forall>m t. ios m t = IPC_RESULT_OK) \<longrightarrow> b" by blast
    have "low_ring s1 (q @ (if b then [freeDvdContext s] else []))" using x(3) by (cases b) simp_all
    note s1 = x(1,2) this x(4)
    have "length (List.filter takes_ctx rs) \<le> low_room s1" using Cons.prems(2) True s1(2) by simp
    from Cons.IH [OF s1(3) this] obtain s' new where
      n: "low_send_all ios rs s1 = Some s'" "low_ring s' (q @ ((if b then [freeDvdContext s] else []) @ new))"
        "length new \<le> length (List.filter takes_ctx rs)"
        "(\<forall>m t. ios m t = IPC_RESULT_OK) \<longrightarrow> length new = length (List.filter takes_ctx rs)"
      by auto
    then show ?thesis using s1(1,4) True
      by (intro exI [of _ s'] exI [of _ "(if b then [freeDvdContext s] else []) @ new"]) auto
  qed
qed

lemma run_handler_ring:
  assumes "low_ring s q" "handler_requests call d s c intType = Some rs" "length (List.filter takes_ctx rs) \<le> low_room s"
  shows "\<exists>s' new. run_handler (dvd_handler call ios d) readDone intType c s = Some s' \<and> low_ring s' (q @ new) \<and>
    length new \<le> length (List.filter takes_ctx rs) \<and> ((\<forall>m t. ios m t = IPC_RESULT_OK) \<longrightarrow> length new = length (List.filter takes_ctx rs))"
proof (cases "lc_callback (dvdContexts s c)")
  case None
  then show ?thesis using assms by (intro exI [of _ s] exI [of _ "[]"]) (simp add: run_handler_def handler_requests_def)
next
  case (Some h)
  let ?i = "if breakRequested s then or intType DVD_INTTYPE_BR else intType"
  let ?t0 = "s\<lparr>callbackInProgress := True\<rparr>"
  let ?t1 = "if breakRequested s then ?t0\<lparr>breakRequested := False\<rparr> else ?t0"
  let ?t = "if readDone \<and> int_has ?i DVD_INTTYPE_TC then ?t1\<lparr>readLength := 0\<rparr> else ?t1"
  have e: "dvdContexts ?t = dvdContexts s" "freeDvdContext ?t = freeDvdContext s" by simp_all
  have rs: "new_requests call d h ?i = Some rs" using assms(2) Some by (simp add: handler_requests_def)
  then have r: "run_handler (dvd_handler call ios d) readDone intType c s = do { u \<leftarrow> low_send_all ios rs ?t; Some (u\<lparr>callbackInProgress := False\<rparr>) }"
    using Some by (cases "breakRequested s") (simp_all add: run_handler_def Let_def dvd_handler_def)
  obtain u new where u: "low_send_all ios rs ?t = Some u" "low_ring u (q @ new)" "length new \<le> length (List.filter takes_ctx rs)"
    "(\<forall>m t. ios m t = IPC_RESULT_OK) \<longrightarrow> length new = length (List.filter takes_ctx rs)"
    using low_send_all_ring [of ?t q rs ios] assms(1,3) low_ring_cong [OF e] by metis
  have "low_ring (u\<lparr>callbackInProgress := False\<rparr>) (q @ new)" using u(2) low_ring_cong(1) [of "u\<lparr>callbackInProgress := False\<rparr>" u] by simp
  then show ?thesis using r u by auto
qed

text \<open>The two functions that take an answer.\<close>

definition frees_ctx :: "ios \<Rightarrow> low list \<Rightarrow> int \<Rightarrow> int list \<Rightarrow> dvdlow option \<Rightarrow> bool" where
  "frees_ctx ios rs c q u \<longleftrightarrow> (\<exists>s' new. u = Some s' \<and> low_ring s' (List.filter (\<lambda>x. x \<noteq> c) q @ new) \<and>
     length new \<le> length (List.filter takes_ctx rs) \<and> ((\<forall>m t. ios m t = IPC_RESULT_OK) \<longrightarrow> length new = length (List.filter takes_ctx rs)))"

lemma answer_ring:
  assumes "low_ring s q" "c \<in> set q" "handler_requests call d s c intType = Some rs" "length (List.filter takes_ctx rs) \<le> low_room s"
  shows "frees_ctx ios rs c q (doTransactionCallback (dvd_handler call ios d) intType c s)"
    "frees_ctx ios rs c q (doPrepareCoverRegisterCallback (dvd_handler call ios d) intType c s)"
proof -
  have f: "freeDvdContext s \<in> {0..3}" using assms(1) by (simp add: low_ring_def)
  have "set (slots (freeDvdContext s)) = {0..3}" by (rule slots_next [OF f])
  then have "c \<in> {0..3}" using assms(1,2) by (auto simp: low_ring_def)
  then have magic: "lc_magic (dvdContexts s c) = DVD_LOW_CTX_MAGIC" using assms(1) by (simp add: low_ring_def)
  have run: "frees_ctx ios rs c q (do { u \<leftarrow> run_handler (dvd_handler call ios d) readDone intType c t;
      Some (upd_ctx c (lc_inUse_update (\<lambda>_. False)) u) })"
    if t: "dvdContexts t = dvdContexts s" "freeDvdContext t = freeDvdContext s" "breakRequested t = breakRequested s" for t readDone
  proof -
    have "low_ring t q" "low_room t = low_room s" using low_ring_cong [OF t(1,2)] assms(1) by simp_all
    moreover have "handler_requests call d t c intType = Some rs" using assms(3) unfolding handler_requests_def t by blast
    ultimately obtain u new where u: "run_handler (dvd_handler call ios d) readDone intType c t = Some u" "low_ring u (q @ new)"
      "length new \<le> length (List.filter takes_ctx rs)" "(\<forall>m t. ios m t = IPC_RESULT_OK) \<longrightarrow> length new = length (List.filter takes_ctx rs)"
      using run_handler_ring [of t q call d c intType rs ios readDone] assms(4) by auto
    have "c \<notin> set new" using low_ring_distinct [OF u(2)] assms(2) by auto
    then have "List.filter (\<lambda>x. x \<noteq> c) (q @ new) = List.filter (\<lambda>x. x \<noteq> c) q @ new"
      by (auto simp: filter_id_conv)
    then show ?thesis unfolding frees_ctx_def u(1) using free_ctx [OF u(2), of c] u(3,4)
      by (intro exI [of _ "upd_ctx c (lc_inUse_update (\<lambda>_. False)) u"] exI [of _ new]) simp
  qed
  show "frees_ctx ios rs c q (doTransactionCallback (dvd_handler call ios d) intType c s)"
    using run [of "s\<lparr>requestInProgress := False\<rparr>" True] magic by (simp add: doTransactionCallback_def)
  show "frees_ctx ios rs c q (doPrepareCoverRegisterCallback (dvd_handler call ios d) intType c s)"
    using run [of "s\<lparr>requestInProgress := False, dicvr := registerBuf s\<rparr>" False] magic by (simp add: doPrepareCoverRegisterCallback_def)
qed

text \<open>C28. The four contexts are a ring of the requests that are under way, through refusals by the kernel and
  answers in any order.  Each of the fourteen requests \<^verbatim>\<open>dvd.c\<close> makes takes the next context of the
  ring.  If that is still in use the code loops forever.  If not, a request the kernel accepts is sent with its
  command, its area for the answer and its context, which becomes the newest with its handler in it; one that
  the kernel refuses is reported as such, sends nothing and leaves the requests under way as they were, though
  the ring moves on past its context.  An answer to any request under way runs the handler of \<^verbatim>\<open>dvd.c\<close>,
  and when that asks for no more requests than there are free contexts in front, the answer ends: its context
  is free, the others stay in order, and the handler's new requests are behind them, all of them if the kernel
  accepts all.\<close>

theorem low_requests_queue:
  assumes "low_ring s q"
  shows "(\<forall>r. takes_ctx r \<and> freeDvdContext s \<in> set q \<longrightarrow> low_send ios r s = None) \<and>
    (\<forall>r. takes_ctx r \<and> freeDvdContext s \<notin> set q \<longrightarrow>
      (\<exists>b s'. low_send ios r s = Some (b, s') \<and> freeDvdContext s' = next_ctx (freeDvdContext s) \<and>
        (if b then low_ring s' (q @ [freeDvdContext s]) \<and> lc_callback (dvdContexts s' (freeDvdContext s)) = low_handler r \<and>
           (\<exists>m. posted s' = posted s @ [m] \<and> message_for r s m)
         else low_ring s' q \<and> posted s' = posted s) \<and>
        ((\<forall>m t. ios m t = IPC_RESULT_OK) \<longrightarrow> b) \<and> ((\<forall>m t. ios m t \<noteq> IPC_RESULT_OK) \<longrightarrow> \<not> b))) \<and>
    (\<forall>c \<in> set q. \<forall>call d rs intType. handler_requests call d s c intType = Some rs \<and> length (List.filter takes_ctx rs) \<le> low_room s \<longrightarrow>
      (\<exists>s' new. doTransactionCallback (dvd_handler call ios d) intType c s = Some s' \<and> low_ring s' (List.filter (\<lambda>x. x \<noteq> c) q @ new) \<and>
        length new \<le> length (List.filter takes_ctx rs) \<and> ((\<forall>m t. ios m t = IPC_RESULT_OK) \<longrightarrow> length new = length (List.filter takes_ctx rs))) \<and>
      (\<exists>s' new. doPrepareCoverRegisterCallback (dvd_handler call ios d) intType c s = Some s' \<and> low_ring s' (List.filter (\<lambda>x. x \<noteq> c) q @ new) \<and>
        length new \<le> length (List.filter takes_ctx rs) \<and> ((\<forall>m t. ios m t = IPC_RESULT_OK) \<longrightarrow> length new = length (List.filter takes_ctx rs))))"
proof -
  have "\<forall>r. takes_ctx r \<and> freeDvdContext s \<in> set q \<longrightarrow> low_send ios r s = None"
    by (intro allI impI, elim conjE) (rule low_send_busy [OF assms])
  moreover note low_send_result [OF assms, of _ ios]
  moreover note answer_ring [OF assms, of _ _ _ _ _ ios, unfolded frees_ctx_def]
  ultimately show ?thesis by (intro conjI ballI allI impI, goal_cases) (simp, elim conjE, blast, simp, simp)
qed

text \<open>With refusals: three requests under way and a fourth refused leaves the fourth context free, but the code
  loops on the next request, which would take the context of the oldest.\<close>

lemma refused_request_spins:
  assumes "low_ring s q" "freeDvdContext s \<notin> set q" "next_ctx (freeDvdContext s) \<in> set q" "takes_ctx r" "takes_ctx r'"
    "\<And>m t. ios m t \<noteq> IPC_RESULT_OK"
  shows "\<exists>s1. low_send ios r s = Some (False, s1) \<and> low_ring s1 q \<and> low_send ios' r' s1 = None"
proof -
  obtain b s1 where s1: "low_send ios r s = Some (b, s1)" "freeDvdContext s1 = next_ctx (freeDvdContext s)"
    "if b then low_ring s1 (q @ [freeDvdContext s]) \<and> lc_callback (dvdContexts s1 (freeDvdContext s)) = low_handler r \<and>
       (\<exists>m. posted s1 = posted s @ [m] \<and> message_for r s m) else low_ring s1 q \<and> posted s1 = posted s"
    "(\<forall>m t. ios m t \<noteq> IPC_RESULT_OK) \<longrightarrow> \<not> b"
    using low_send_result [OF assms(1,2,4), of ios] by blast
  then have "\<not> b" "low_ring s1 q" using assms(6) by (simp_all split: if_splits)
  then show ?thesis using s1(1,2) low_send_busy [OF \<open>low_ring s1 q\<close> _ assms(5)] assms(3) by simp
qed

text \<open>The speed of the disc has been set, which is under way in context 0; its answer makes \<^verbatim>\<open>dvd.c\<close> clear
  the interrupt of the cover and read the disc's identification.\<close>

definition demo_low :: dvdlow where
  "demo_low = \<lparr>DiFD = 5, breakRequested = False, diCommand = (\<lambda>_. \<lparr>di_command = 0, di_arg1 = 0, di_arg2 = 0\<rparr>), readLength = 0,
     spinUpValue = False, LowInitCalled = True, dvdContextsInited = True, freeDvdContext = 1, freeCommandBuf = 1, callbackInProgress = False,
     requestInProgress = True,
     dvdContexts = (\<lambda>i. \<lparr>lc_callback = Some CbStateDownRotation, lc_word4 = 0, lc_inUse = i = 0, lc_magic = DVD_LOW_CTX_MAGIC, lc_id = i\<rparr>),
     diimmbuf = 0, dicvr = 0, registerBuf = 0, IPCBufferLo = 0, IPCBufferHi = 0, posted = []\<rparr>"

lemma demo_requests:
  "handler_requests call d demo_low 0 DVD_INTTYPE_TC =
     Some [InvalidateRange CurrDiskID_ADDR 0x20, LowClearCoverInterrupt, LowReadDiskID CurrDiskID_ADDR CbStateCoverClosed]"
  by (simp add: handler_requests_def demo_low_def new_requests_def cbForStateDownRotation_def on_interrupt_def read_disk_id_def
      stateCoverClosed_CMD_def StampIntType_def StampCommand_def issue_def Let_def)

theorem low_requests_queue_witness:
  "(\<exists>s'. low_send (\<lambda>_ _. IPC_RESULT_OK) (LowRead 0x80010000 0x8000 0x40 CbStateBusy) demo_low = Some (True, s') \<and> low_ring s' [0, 1]) \<and>
   (\<exists>s'. low_send (\<lambda>_ _. -1) (LowRead 0x80010000 0x8000 0x40 CbStateBusy) demo_low = Some (False, s') \<and> low_ring s' [0]) \<and>
   (\<forall>call d. \<exists>s' a b. doTransactionCallback (dvd_handler call (\<lambda>_ _. IPC_RESULT_OK) d) DVD_INTTYPE_TC 0 demo_low = Some s' \<and>
      low_ring s' [a, b])"
proof -
  have ring: "low_ring demo_low [0]" by (simp add: low_ring_def demo_low_def slots_def)
  have f: "freeDvdContext demo_low = 1" by (simp add: demo_low_def)
  have room: "low_room demo_low = 3" by (simp add: low_room_def demo_low_def slots_def)
  note main = low_requests_queue [OF ring]
  have accepted: "\<exists>s'. low_send (\<lambda>_ _. IPC_RESULT_OK) (LowRead 0x80010000 0x8000 0x40 CbStateBusy) demo_low = Some (True, s') \<and> low_ring s' [0, 1]"
    using main [of "\<lambda>_ _. IPC_RESULT_OK", THEN conjunct2, THEN conjunct1, rule_format, of "LowRead 0x80010000 0x8000 0x40 CbStateBusy"] f
    by auto
  have refused: "\<exists>s'. low_send (\<lambda>_ _. -1) (LowRead 0x80010000 0x8000 0x40 CbStateBusy) demo_low = Some (False, s') \<and> low_ring s' [0]"
    using main [of "\<lambda>_ _. -1", THEN conjunct2, THEN conjunct1, rule_format, of "LowRead 0x80010000 0x8000 0x40 CbStateBusy"] f
    by auto
  have "\<exists>s' a b. doTransactionCallback (dvd_handler call (\<lambda>_ _. IPC_RESULT_OK) d) DVD_INTTYPE_TC 0 demo_low = Some s' \<and>
      low_ring s' [a, b]" for call d
  proof -
    let ?rs = "[InvalidateRange CurrDiskID_ADDR 0x20, LowClearCoverInterrupt, LowReadDiskID CurrDiskID_ADDR CbStateCoverClosed]"
    have "length (List.filter takes_ctx ?rs) = 2" by simp
    then obtain s' new where s': "doTransactionCallback (dvd_handler call (\<lambda>_ _. IPC_RESULT_OK) d) DVD_INTTYPE_TC 0 demo_low = Some s'"
      "low_ring s' new" "length new = 2"
      using main [of "\<lambda>_ _. IPC_RESULT_OK", THEN conjunct2, THEN conjunct2, rule_format, of 0 call d DVD_INTTYPE_TC ?rs]
        demo_requests [of call d] room by auto
    then obtain a b where "new = [a, b]" by (auto simp: length_Suc_conv numeral_2_eq_2)
    then show ?thesis using s' by auto
  qed
  then show ?thesis using accepted refused by blast
qed

end
