(* ===== verification/AxAlloc.thy ===== *)
theory AxAlloc
  imports DList
begin

text \<open>
  \<^verbatim>\<open>ax/AXAlloc.c\<close>: the voices of the audio library.  Priority 0 is a stack of free voices
  linked by \<^verbatim>\<open>next\<close> alone, priorities 1 to 31 are doubly linked lists with the newest voice at
  the head, and a third link holds the voices whose callback is due.  A voice is its number; a
  client's callback is the parameter \<open>call\<close>, and \<open>told\<close> is where a callback can leave a
  trace.  None stands for following a NULL link.
\<close>

section \<open>State\<close>

definition AX_PRIORITY_FREE :: int where "AX_PRIORITY_FREE = 0"
definition AX_PRIORITY_MIN :: int where "AX_PRIORITY_MIN = 1"
definition AX_PRIORITY_MAX :: int where "AX_PRIORITY_MAX = 31"
definition STACK_MAX :: int where "STACK_MAX = AX_PRIORITY_MAX + 1"

datatype AXVOICESTATE = AX_VOICE_STOP | AX_VOICE_RUN

record AXVPB =
  v_next :: "int option"
  v_prev :: "int option"
  v_next1 :: "int option"
  v_priority :: int
  v_callback :: int
  v_userContext :: int
  v_sync :: int
  v_depop :: bool
  pb_state :: AXVOICESTATE
  pb_itd_flag :: int
  pb_lpf_on :: int
  pb_biquad_on :: int
  pb_remote :: int
  pb_rmtIIR_lpf_on :: int
  pb_rmtSrc_frac :: int
  pb_rmtSrc_last :: "int list"

record ax_state = irq +
  vpb :: "int \<Rightarrow> AXVPB"
  StackHead :: "int \<Rightarrow> int option"
  StackTail :: "int \<Rightarrow> int option"
  CallbackStack :: "int option"
  told :: "(int \<times> int) list"

type_synonym voice_call = "int \<Rightarrow> int \<Rightarrow> ax_state \<Rightarrow> ax_state"

definition vupd :: "int \<Rightarrow> (AXVPB \<Rightarrow> AXVPB) \<Rightarrow> ax_state \<Rightarrow> ax_state" where
  "vupd v f s = s\<lparr>vpb := (vpb s)(v := f (vpb s v))\<rparr>"

definition set_head :: "int \<Rightarrow> int option \<Rightarrow> ax_state \<Rightarrow> ax_state" where
  "set_head p x s = s\<lparr>StackHead := (StackHead s)(p := x)\<rparr>"

definition set_tail :: "int \<Rightarrow> int option \<Rightarrow> ax_state \<Rightarrow> ax_state" where
  "set_tail p x s = s\<lparr>StackTail := (StackTail s)(p := x)\<rparr>"

section \<open>The code\<close>

definition AXGetStackHead :: "int \<Rightarrow> ax_state \<Rightarrow> int option" where
  "AXGetStackHead prio s = StackHead s prio"

fun clear_stacks :: "int list \<Rightarrow> ax_state \<Rightarrow> ax_state" where
  "clear_stacks [] s = s"
| "clear_stacks (p # ps) s = clear_stacks ps (set_head p None (set_tail p None s))"

definition AXInitVoiceStacks :: "ax_state \<Rightarrow> ax_state" where
  "AXInitVoiceStacks s = clear_stacks [0..STACK_MAX - 1] (s\<lparr>CallbackStack := None\<rparr>)"

definition AXAllocInit :: "ax_state \<Rightarrow> ax_state" where
  "AXAllocInit = AXInitVoiceStacks"

definition AXPushFreeStack :: "int \<Rightarrow> ax_state \<Rightarrow> ax_state" where
  "AXPushFreeStack v s =
     (let s = vupd v (v_next_update (\<lambda>_. StackHead s AX_PRIORITY_FREE)) s;
          s = set_head AX_PRIORITY_FREE (Some v) s
      in vupd v (v_priority_update (\<lambda>_. AX_PRIORITY_FREE)) s)"

definition AXPopFreeStack :: "ax_state \<Rightarrow> int option \<times> ax_state" where
  "AXPopFreeStack s =
     (let head = StackHead s AX_PRIORITY_FREE
      in (head, case head of Some v \<Rightarrow> set_head AX_PRIORITY_FREE (v_next (vpb s v)) s | None \<Rightarrow> s))"

definition AXPushCallbackStack :: "int \<Rightarrow> ax_state \<Rightarrow> ax_state" where
  "AXPushCallbackStack v s = (vupd v (v_next1_update (\<lambda>_. CallbackStack s)) s)\<lparr>CallbackStack := Some v\<rparr>"

definition AXPopCallbackStack :: "ax_state \<Rightarrow> int option \<times> ax_state" where
  "AXPopCallbackStack s =
     (let head = CallbackStack s
      in (head, case head of Some v \<Rightarrow> s\<lparr>CallbackStack := v_next1 (vpb s v)\<rparr> | None \<Rightarrow> s))"

definition AXRemoveFromStack :: "int \<Rightarrow> ax_state \<Rightarrow> ax_state option" where
  "AXRemoveFromStack v s =
     (let prio = v_priority (vpb s v); head = StackHead s prio; tail = StackTail s prio
      in if head = tail then Some (set_head prio None (set_tail prio None s))
         else if head = Some v then do {
           let s = set_head prio (v_next (vpb s v)) s;
           h \<leftarrow> StackHead s prio;
           Some (vupd h (v_prev_update (\<lambda>_. None)) s)
         }
         else if tail = Some v then do {
           let s = set_tail prio (v_prev (vpb s v)) s;
           t \<leftarrow> StackTail s prio;
           Some (vupd t (v_next_update (\<lambda>_. None)) s)
         }
         else do {
           let head = v_prev (vpb s v);
           let tail = v_next (vpb s v);
           h \<leftarrow> head;
           let s = vupd h (v_next_update (\<lambda>_. tail)) s;
           t \<leftarrow> tail;
           Some (vupd t (v_prev_update (\<lambda>_. head)) s)
         })"

definition AXPushStackHead :: "int \<Rightarrow> int \<Rightarrow> ax_state \<Rightarrow> ax_state" where
  "AXPushStackHead v prio s =
     (let s = vupd v (v_next_update (\<lambda>_. StackHead s prio)) s;
          s = vupd v (v_prev_update (\<lambda>_. None)) s;
          s = (case v_next (vpb s v) of
                 Some _ \<Rightarrow>
                   (let s = (case StackHead s prio of Some h \<Rightarrow> vupd h (v_prev_update (\<lambda>_. Some v)) s | None \<Rightarrow> s)
                    in set_head prio (Some v) s)
               | None \<Rightarrow> set_head prio (Some v) (set_tail prio (Some v) s))
      in vupd v (v_priority_update (\<lambda>_. prio)) s)"

definition AXPopStackFromBottom :: "int \<Rightarrow> ax_state \<Rightarrow> (int option \<times> ax_state) option" where
  "AXPopStackFromBottom prio s =
     (case StackHead s prio of
        None \<Rightarrow> Some (None, s)
      | Some h \<Rightarrow>
          if StackHead s prio = StackTail s prio then Some (Some h, set_head prio None (set_tail prio None s))
          else case StackTail s prio of
            None \<Rightarrow> Some (None, s)
          | Some v \<Rightarrow> do {
              let s = set_tail prio (v_prev (vpb s v)) s;
              t \<leftarrow> StackTail s prio;
              Some (Some v, vupd t (v_next_update (\<lambda>_. None)) s)
            })"

definition AXSetPBDefault :: "int \<Rightarrow> ax_state \<Rightarrow> ax_state" where
  "AXSetPBDefault v = vupd v (\<lambda>b. b\<lparr>pb_state := AX_VOICE_STOP, pb_itd_flag := 0, v_sync := 0x18A80024, pb_lpf_on := 0, pb_biquad_on := 0,
     pb_remote := 0, pb_rmtIIR_lpf_on := 0, pb_rmtSrc_frac := 0, pb_rmtSrc_last := [0, 0, 0, 0]\<rparr>)"

definition depop_running :: "int \<Rightarrow> ax_state \<Rightarrow> ax_state" where
  "depop_running v s = (if pb_state (vpb s v) = AX_VOICE_RUN then vupd v (v_depop_update (\<lambda>_. True)) s else s)"

definition voice_callback :: "voice_call \<Rightarrow> int \<Rightarrow> ax_state \<Rightarrow> ax_state" where
  "voice_callback call v s = (if v_callback (vpb s v) \<noteq> 0 then call (v_callback (vpb s v)) v s else s)"

definition AXFreeVoice :: "int \<Rightarrow> ax_state \<Rightarrow> ax_state option" where
  "AXFreeVoice v s = do {
     let (enabled, s) = OSDisableInterrupts s;
     s \<leftarrow> AXRemoveFromStack v s;
     let s = AXPushFreeStack v (AXSetPBDefault v (depop_running v s));
     Some (OSRestoreInterrupts enabled s)
   }"

text \<open>The loop that takes the oldest voice of the lowest priority that has one.\<close>

fun steal :: "voice_call \<Rightarrow> int list \<Rightarrow> ax_state \<Rightarrow> (int option \<times> ax_state) option" where
  "steal call [] s = Some (None, s)"
| "steal call (p # ps) s = do {
     (v, s) \<leftarrow> AXPopStackFromBottom p s;
     case v of
       Some x \<Rightarrow> Some (v, voice_callback call x (depop_running x s))
     | None \<Rightarrow> steal call ps s
   }"

definition AXAcquireVoice :: "voice_call \<Rightarrow> int \<Rightarrow> int \<Rightarrow> int \<Rightarrow> ax_state \<Rightarrow> (int option \<times> ax_state) option" where
  "AXAcquireVoice call prio cb userContext s = do {
     let (enabled, s) = OSDisableInterrupts s;
     let (v, s) = AXPopFreeStack s;
     (v, s) \<leftarrow> (if v = None then steal call [AX_PRIORITY_MIN..prio - 1] s else Some (v, s));
     let s = (case v of
       Some x \<Rightarrow> AXSetPBDefault x (vupd x (\<lambda>b. b\<lparr>v_callback := cb, v_userContext := userContext\<rparr>) (AXPushStackHead x prio s))
     | None \<Rightarrow> s);
     Some (v, OSRestoreInterrupts enabled s)
   }"

definition AXSetVoicePriority :: "int \<Rightarrow> int \<Rightarrow> ax_state \<Rightarrow> ax_state option" where
  "AXSetVoicePriority v prio s = do {
     let (enabled, s) = OSDisableInterrupts s;
     s \<leftarrow> AXRemoveFromStack v s;
     Some (OSRestoreInterrupts enabled (AXPushStackHead v prio s))
   }"

partial_function (option) AXServiceCallbackStack :: "voice_call \<Rightarrow> ax_state \<Rightarrow> ax_state option" where
  "AXServiceCallbackStack call s = (case AXPopCallbackStack s of (it, s) \<Rightarrow>
     (case it of
        None \<Rightarrow> Some s
      | Some v \<Rightarrow>
          if v_priority (vpb s v) > AX_PRIORITY_FREE then do {
            s \<leftarrow> AXRemoveFromStack v (voice_callback call v s);
            AXServiceCallbackStack call (AXPushFreeStack v s)
          }
          else AXServiceCallbackStack call s))"

declare AXServiceCallbackStack.simps [code]

section \<open>Represented stacks\<close>

definition vlinks :: "ax_state \<Rightarrow> int links" where
  "vlinks s = \<lparr>lnext = \<lambda>v. v_next (vpb s v), lprev = \<lambda>v. v_prev (vpb s v)\<rparr>"

definition vqueue :: "ax_state \<Rightarrow> int \<Rightarrow> int queue" where
  "vqueue s p = \<lparr>qhead = StackHead s p, qtail = StackTail s p\<rparr>"

fun free_chain :: "(int \<Rightarrow> int option) \<Rightarrow> int option \<Rightarrow> int list \<Rightarrow> bool" where
  "free_chain nx p [] = (p = None)"
| "free_chain nx p (x # xs) = (p = Some x \<and> free_chain nx (nx x) xs)"

definition prios_used :: "int set" where "prios_used = {1..31}"

definition voices_ok :: "ax_state \<Rightarrow> (int \<Rightarrow> int list) \<Rightarrow> int list \<Rightarrow> bool" where
  "voices_ok s S F \<longleftrightarrow>
     (\<forall>p \<in> prios_used. dlist (vlinks s) (vqueue s p) (S p) \<and> (\<forall>v \<in> set (S p). v_priority (vpb s v) = p)) \<and>
     free_chain (\<lambda>v. v_next (vpb s v)) (StackHead s 0) F \<and> distinct F \<and> (\<forall>v \<in> set F. v_priority (vpb s v) = 0)"

text \<open>What the stack operations do not touch.\<close>

definition vdata :: "AXVPB \<Rightarrow> AXVPB" where
  "vdata b = b\<lparr>v_next := None, v_prev := None, v_priority := 0\<rparr>"

definition same_voices :: "ax_state \<Rightarrow> ax_state \<Rightarrow> bool" where
  "same_voices s s' \<longleftrightarrow> (\<forall>v. vdata (vpb s' v) = vdata (vpb s v)) \<and> told s' = told s \<and> irq_enabled s' = irq_enabled s \<and> CallbackStack s' = CallbackStack s"

lemma same_voices_refl [simp]: "same_voices s s"
  by (simp add: same_voices_def)

lemma same_voices_trans: "same_voices s t \<Longrightarrow> same_voices t u \<Longrightarrow> same_voices s u"
  by (simp add: same_voices_def)

lemma same_voices_field:
  assumes "same_voices s s'"
  shows "pb_state (vpb s' v) = pb_state (vpb s v)" "v_callback (vpb s' v) = v_callback (vpb s v)"
    "v_depop (vpb s' v) = v_depop (vpb s v)" "told s' = told s" "irq_enabled s' = irq_enabled s"
proof -
  have e: "vdata (vpb s' v) = vdata (vpb s v)" using assms by (simp add: same_voices_def)
  show "pb_state (vpb s' v) = pb_state (vpb s v)" using arg_cong [OF e, of pb_state] by (simp add: vdata_def)
  show "v_callback (vpb s' v) = v_callback (vpb s v)" using arg_cong [OF e, of v_callback] by (simp add: vdata_def)
  show "v_depop (vpb s' v) = v_depop (vpb s v)" using arg_cong [OF e, of v_depop] by (simp add: vdata_def)
qed (use assms in \<open>simp_all add: same_voices_def\<close>)

lemma vdata_upd [simp]:
  "vdata (b\<lparr>v_next := x\<rparr>) = vdata b" "vdata (b\<lparr>v_prev := x\<rparr>) = vdata b" "vdata (b\<lparr>v_priority := p\<rparr>) = vdata b"
  by (simp_all add: vdata_def)

lemma vlinks_sel [simp]: "lnext (vlinks s) v = v_next (vpb s v)" "lprev (vlinks s) v = v_prev (vpb s v)"
  by (simp_all add: vlinks_def)

lemma vqueue_sel [simp]: "qhead (vqueue s p) = StackHead s p" "qtail (vqueue s p) = StackTail s p"
  by (simp_all add: vqueue_def)

lemma ax_sel [simp]:
  "vpb (vupd v f s) = (vpb s)(v := f (vpb s v))" "StackHead (vupd v f s) = StackHead s" "StackTail (vupd v f s) = StackTail s"
  "vpb (set_head p x s) = vpb s" "StackHead (set_head p x s) = (StackHead s)(p := x)" "StackTail (set_head p x s) = StackTail s"
  "vpb (set_tail p x s) = vpb s" "StackHead (set_tail p x s) = StackHead s" "StackTail (set_tail p x s) = (StackTail s)(p := x)"
  "told (vupd v f s) = told s" "told (set_head p x s) = told s" "told (set_tail p x s) = told s"
  "irq_enabled (vupd v f s) = irq_enabled s" "irq_enabled (set_head p x s) = irq_enabled s" "irq_enabled (set_tail p x s) = irq_enabled s"
  "CallbackStack (vupd v f s) = CallbackStack s" "CallbackStack (set_head p x s) = CallbackStack s" "CallbackStack (set_tail p x s) = CallbackStack s"
  by (simp_all add: vupd_def set_head_def set_tail_def)

lemma free_chain_cong: "(\<And>x. x \<in> set xs \<Longrightarrow> nx' x = nx x) \<Longrightarrow> free_chain nx' p xs = free_chain nx p xs"
  by (induction xs arbitrary: p) auto

lemma voices_okD:
  assumes "voices_ok s S F" "p \<in> prios_used"
  shows "dlist (vlinks s) (vqueue s p) (S p)" "v \<in> set (S p) \<Longrightarrow> v_priority (vpb s v) = p" "v \<in> set (S p) \<Longrightarrow> v \<notin> set F"
    "q \<in> prios_used \<Longrightarrow> q \<noteq> p \<Longrightarrow> v \<in> set (S p) \<Longrightarrow> v \<notin> set (S q)"
proof -
  show "dlist (vlinks s) (vqueue s p) (S p)" using assms by (simp add: voices_ok_def)
  have prio: "v_priority (vpb s v) = r" if "r \<in> prios_used" "v \<in> set (S r)" for r v
    using assms(1) that unfolding voices_ok_def by blast
  then show "v \<in> set (S p) \<Longrightarrow> v_priority (vpb s v) = p" using assms(2) by blast
  show "v \<in> set (S p) \<Longrightarrow> v \<notin> set F" using assms prio [OF assms(2), of v] by (auto simp: voices_ok_def prios_used_def)
  show "q \<in> prios_used \<Longrightarrow> q \<noteq> p \<Longrightarrow> v \<in> set (S p) \<Longrightarrow> v \<notin> set (S q)" using prio [of p v] prio [of q v] assms(2) by blast
qed

text \<open>A change of the list at one priority.\<close>

lemma voices_ok_step:
  assumes "voices_ok s S F" "p \<in> prios_used" "dlist (vlinks s') (vqueue s' p) xs" "\<And>v. v \<in> set xs \<Longrightarrow> v_priority (vpb s' v) = p"
    and same: "\<And>y. y \<notin> set (S p) \<Longrightarrow> y \<noteq> x \<Longrightarrow> v_next (vpb s' y) = v_next (vpb s y) \<and> v_prev (vpb s' y) = v_prev (vpb s y) \<and> v_priority (vpb s' y) = v_priority (vpb s y)"
    and heads: "\<And>r. r \<noteq> p \<Longrightarrow> StackHead s' r = StackHead s r \<and> StackTail s' r = StackTail s r"
    and x: "x \<in> set (S p) \<or> (\<forall>q \<in> prios_used. x \<notin> set (S q)) \<and> x \<notin> set F"
  shows "voices_ok s' (S(p := xs)) F"
proof -
  have out: "y \<notin> set (S p) \<and> y \<noteq> x" if "q \<in> prios_used" "q \<noteq> p" "y \<in> set (S q)" for q y
    using voices_okD(4) [OF assms(1,2) that(1,2)] that x by blast
  have outF: "y \<notin> set (S p) \<and> y \<noteq> x" if "y \<in> set F" for y
    using voices_okD(3) [OF assms(1,2)] that x by blast
  have "dlist (vlinks s') (vqueue s' q) (S q) \<and> (\<forall>v \<in> set (S q). v_priority (vpb s' v) = q)" if q: "q \<in> prios_used" "q \<noteq> p" for q
  proof -
    have "vqueue s' q = vqueue s q" using heads q(2) by (simp add: vqueue_def)
    moreover have "dlist (vlinks s') (vqueue s q) (S q)"
      by (rule dlist_frame [OF voices_okD(1) [OF assms(1) q(1)]]) (use same out [OF q] in auto)
    moreover have "v_priority (vpb s' v) = q" if "v \<in> set (S q)" for v
      using same out [OF q that] voices_okD(2) [OF assms(1) q(1) that] by simp
    ultimately show ?thesis by simp
  qed
  moreover have "free_chain (\<lambda>v. v_next (vpb s' v)) (StackHead s' 0) F"
  proof -
    have "StackHead s' 0 = StackHead s 0" using heads assms(2) by (auto simp: prios_used_def)
    moreover have "free_chain (\<lambda>v. v_next (vpb s' v)) (StackHead s 0) F = free_chain (\<lambda>v. v_next (vpb s v)) (StackHead s 0) F"
      by (rule free_chain_cong) (use same outF in blast)
    ultimately show ?thesis using assms(1) by (simp add: voices_ok_def)
  qed
  moreover have "\<forall>v \<in> set F. v_priority (vpb s' v) = 0" using same outF assms(1) by (simp add: voices_ok_def)
  ultimately show ?thesis using assms(1,3,4) by (simp add: voices_ok_def)
qed

lemma q_unlink_links:
  assumes "dlist (vlinks s) (vqueue s p) (us @ v # vs)" "v_priority (vpb s v) = p"
  shows "\<exists>s'. AXRemoveFromStack v s = Some s' \<and> q_unlink v (vlinks s, vqueue s p) = (vlinks s', vqueue s' p) \<and> same_voices s s' \<and>
    (\<forall>y. v_priority (vpb s' y) = v_priority (vpb s y)) \<and> (\<forall>r. r \<noteq> p \<longrightarrow> StackHead s' r = StackHead s r \<and> StackTail s' r = StackTail s r)"
proof -
  have h: "StackHead s p = hd_opt (us @ v # vs)" "StackTail s p = last_opt (us @ v # vs)"
    using dlist_head [OF assms(1)] dlist_tail [OF assms(1)] by simp_all
  have n: "v_prev (vpb s v) = last_opt us" "v_next (vpb s v) = hd_opt vs"
    using dlist_neighbours [OF assms(1)] by simp_all
  have d: "distinct (us @ v # vs)" by (rule dlist_distinct [OF assms(1)])
  note eqs = AXRemoveFromStack_def q_unlink_def assms(2) h n vlinks_def vqueue_def set_next_def set_prev_def fun_eq_iff same_voices_def Let_def
  show ?thesis
  proof (cases "us = []"; cases "vs = []")
    assume "us = []" "vs = []"
    then show ?thesis by (simp add: eqs last_opt_def)
  next
    assume e: "us = []" "vs \<noteq> []"
    then obtain n' vs' where vs: "vs = n' # vs'" by (cases vs) auto
    have "last vs \<noteq> v" using d e by auto
    then show ?thesis using e(1) vs by (simp add: eqs last_opt_def)
  next
    assume e: "us \<noteq> []" "vs = []"
    then obtain u us' where us: "us = u # us'" by (cases us) auto
    have "u \<noteq> v" using d us by auto
    then show ?thesis using e us by (simp add: eqs last_opt_def)
  next
    assume e: "us \<noteq> []" "vs \<noteq> []"
    then have o: "hd_opt (us @ v # vs) = Some (hd us)" "last_opt (us @ v # vs) = Some (last vs)" "last_opt us = Some (last us)" "hd_opt vs = Some (hd vs)"
      by (cases us; cases vs; simp add: last_opt_def)+
    have i: "hd us \<in> set us" "last us \<in> set us" "hd vs \<in> set vs" "last vs \<in> set vs" using e by simp_all
    then have "hd us \<noteq> v" "last vs \<noteq> v" "hd us \<noteq> last vs" "last us \<noteq> hd vs" using d by auto
    moreover have "v_prev (vpb s v) = Some (last us)" "v_next (vpb s v) = Some (hd vs)" "StackHead s p = Some (hd us)" "StackTail s p = Some (last vs)"
      using h n o by simp_all
    ultimately show ?thesis
      by (simp add: AXRemoveFromStack_def q_unlink_def assms(2) vlinks_def vqueue_def set_next_def set_prev_def fun_eq_iff same_voices_def)
  qed
qed

lemma AXRemoveFromStack_ok:
  assumes "voices_ok s S F" "p \<in> prios_used" "S p = us @ v # vs"
  shows "\<exists>s'. AXRemoveFromStack v s = Some s' \<and> voices_ok s' (S(p := us @ vs)) F \<and> same_voices s s'"
proof -
  have l: "dlist (vlinks s) (vqueue s p) (us @ v # vs)" "v_priority (vpb s v) = p"
    using voices_okD(1,2) [OF assms(1,2)] assms(3) by auto
  obtain s' where s': "AXRemoveFromStack v s = Some s'" "q_unlink v (vlinks s, vqueue s p) = (vlinks s', vqueue s' p)" "same_voices s s'"
    "\<forall>y. v_priority (vpb s' y) = v_priority (vpb s y)" "\<forall>r. r \<noteq> p \<longrightarrow> StackHead s' r = StackHead s r \<and> StackTail s' r = StackTail s r"
    using q_unlink_links [OF l] by blast
  have "voices_ok s' (S(p := us @ vs)) F"
  proof (rule voices_ok_step [OF assms(1,2) q_unlink_dlist [OF l(1) s'(2)], of v])
    show "v_priority (vpb s' x) = p" if "x \<in> set (us @ vs)" for x
      using s'(4) voices_okD(2) [OF assms(1,2), of x] that assms(3) by auto
    show "v_next (vpb s' y) = v_next (vpb s y) \<and> v_prev (vpb s' y) = v_prev (vpb s y) \<and> v_priority (vpb s' y) = v_priority (vpb s y)"
      if "y \<notin> set (S p)" "y \<noteq> v" for y
      using q_unlink_frame [OF l(1) s'(2), of y] that assms(3) s'(4) by simp
  qed (use s'(5) assms(3) in auto)
  then show ?thesis using s'(1,3) by blast
qed

lemma AXPushStackHead_ok:
  assumes "voices_ok s S F" "p \<in> prios_used" "\<forall>q \<in> prios_used. v \<notin> set (S q)" "v \<notin> set F"
  shows "voices_ok (AXPushStackHead v p s) (S(p := v # S p)) F \<and> same_voices s (AXPushStackHead v p s)"
proof -
  let ?s = "AXPushStackHead v p s"
  have l: "dlist (vlinks s) (vqueue s p) (S p)" and v: "v \<notin> set (S p)" using voices_okD(1) [OF assms(1,2)] assms(2,3) by auto
  have h: "StackHead s p = hd_opt (S p)" "StackTail s p = last_opt (S p)" using dlist_head [OF l] dlist_tail [OF l] by simp_all
  note eqs = AXPushStackHead_def vlinks_def vqueue_def set_next_def set_prev_def fun_eq_iff Let_def
  have new: "dlist (vlinks ?s) (vqueue ?s p) (v # S p) \<and> (\<forall>y. y \<notin> set (S p) \<longrightarrow> y \<noteq> v \<longrightarrow> v_next (vpb ?s y) = v_next (vpb s y) \<and> v_prev (vpb ?s y) = v_prev (vpb s y))"
  proof (cases "S p")
    case Nil
    then have "q_append v (vlinks s, vqueue s p) = (vlinks ?s, vqueue ?s p)" using h by (simp add: eqs q_append_def)
    then show ?thesis using q_append_dlist [OF l v] q_append_frame [OF l] Nil by fastforce
  next
    case (Cons x xs)
    then have "x \<noteq> v" using v by auto
    moreover have "v_prev (vpb s x) = None" using dlist_neighbours(1) [of "vlinks s" "vqueue s p" "[]" x xs] l Cons by simp
    ultimately have e: "q_insert_before x v (vlinks s, vqueue s p) = (vlinks ?s, vqueue ?s p)" using h Cons by (simp add: eqs q_insert_before_def)
    have l': "dlist (vlinks s) (vqueue s p) ([] @ x # xs)" and v': "v \<notin> set ([] @ x # xs)" using l v Cons by simp_all
    show ?thesis using q_insert_before_dlist [OF l' v' e] q_insert_before_frame [OF l' v' e] Cons by simp
  qed
  have prio: "v_priority (vpb ?s y) = (if y = v then p else v_priority (vpb s y))" for y
    by (auto simp: AXPushStackHead_def Let_def split: option.splits)
  have "voices_ok ?s (S(p := v # S p)) F"
  proof (rule voices_ok_step [OF assms(1,2) conjunct1 [OF new], of v])
    show "v_priority (vpb ?s x) = p" if "x \<in> set (v # S p)" for x
      using that prio [of x] voices_okD(2) [OF assms(1,2), of x] by auto
    show "StackHead ?s r = StackHead s r \<and> StackTail ?s r = StackTail s r" if "r \<noteq> p" for r
      using that by (simp add: AXPushStackHead_def Let_def split: option.splits)
  qed (use new prio assms(3,4) in auto)
  moreover have "same_voices s ?s" by (simp add: same_voices_def AXPushStackHead_def Let_def split: option.splits)
  ultimately show ?thesis ..
qed

lemma AXPushFreeStack_ok:
  assumes "voices_ok s S F" "\<forall>q \<in> prios_used. v \<notin> set (S q)" "v \<notin> set F"
  shows "voices_ok (AXPushFreeStack v s) S (v # F) \<and> same_voices s (AXPushFreeStack v s)"
proof -
  let ?s = "AXPushFreeStack v s"
  have "dlist (vlinks ?s) (vqueue ?s p) (S p) \<and> (\<forall>x \<in> set (S p). v_priority (vpb ?s x) = p)" if p: "p \<in> prios_used" for p
  proof -
    have "vqueue ?s p = vqueue s p" using p by (auto simp: AXPushFreeStack_def vqueue_def Let_def AX_PRIORITY_FREE_def prios_used_def)
    moreover have "dlist (vlinks ?s) (vqueue s p) (S p)"
      by (rule dlist_frame [OF voices_okD(1) [OF assms(1) p]]) (use p assms(2) in \<open>auto simp: AXPushFreeStack_def Let_def\<close>)
    moreover have "v_priority (vpb ?s x) = p" if "x \<in> set (S p)" for x
      using voices_okD(2) [OF assms(1) p that] that p assms(2) by (auto simp: AXPushFreeStack_def Let_def)
    ultimately show ?thesis by simp
  qed
  moreover have "free_chain (\<lambda>x. v_next (vpb ?s x)) (StackHead s 0) F = free_chain (\<lambda>x. v_next (vpb s x)) (StackHead s 0) F"
    by (rule free_chain_cong) (use assms(3) in \<open>auto simp: AXPushFreeStack_def Let_def\<close>)
  then have "free_chain (\<lambda>x. v_next (vpb ?s x)) (StackHead ?s 0) (v # F)"
    using assms(1) by (simp add: voices_ok_def AXPushFreeStack_def Let_def AX_PRIORITY_FREE_def)
  moreover have "\<forall>x \<in> set (v # F). v_priority (vpb ?s x) = 0"
    using assms(1) by (auto simp: voices_ok_def AXPushFreeStack_def Let_def AX_PRIORITY_FREE_def)
  ultimately have "voices_ok ?s S (v # F)" using assms(1,3) by (simp add: voices_ok_def)
  moreover have "same_voices s ?s" by (simp add: same_voices_def AXPushFreeStack_def Let_def)
  ultimately show ?thesis ..
qed

lemma AXPopFreeStack_ok:
  assumes "voices_ok s S F"
  shows "F = [] \<Longrightarrow> AXPopFreeStack s = (None, s)"
    "F = v # F' \<Longrightarrow> \<exists>s'. AXPopFreeStack s = (Some v, s') \<and> voices_ok s' S F' \<and> same_voices s s'"
proof -
  show "F = [] \<Longrightarrow> AXPopFreeStack s = (None, s)" using assms by (simp add: voices_ok_def AXPopFreeStack_def AX_PRIORITY_FREE_def)
  assume F: "F = v # F'"
  then have h: "StackHead s 0 = Some v" using assms by (simp add: voices_ok_def)
  let ?s = "set_head 0 (v_next (vpb s v)) s"
  have "vqueue ?s p = vqueue s p" if "p \<in> prios_used" for p using that by (auto simp: vqueue_def prios_used_def)
  moreover have "vlinks ?s = vlinks s" by (simp add: vlinks_def)
  ultimately have "voices_ok ?s S F'" using assms F by (simp add: voices_ok_def)
  moreover have "same_voices s ?s" by (simp add: same_voices_def)
  ultimately show "\<exists>s'. AXPopFreeStack s = (Some v, s') \<and> voices_ok s' S F' \<and> same_voices s s'"
    using h by (intro exI [of _ ?s]) (simp add: AXPopFreeStack_def AX_PRIORITY_FREE_def)
qed

text \<open>Taking the voice at the bottom is removing it.\<close>

lemma AXPopStackFromBottom_ok:
  assumes "voices_ok s S F" "p \<in> prios_used"
  shows "S p = [] \<Longrightarrow> AXPopStackFromBottom p s = Some (None, s)"
    "S p \<noteq> [] \<Longrightarrow> \<exists>s'. AXPopStackFromBottom p s = Some (Some (last (S p)), s') \<and> voices_ok s' (S(p := butlast (S p))) F \<and> same_voices s s'"
proof -
  have l: "dlist (vlinks s) (vqueue s p) (S p)" by (rule voices_okD(1) [OF assms])
  have h: "StackHead s p = hd_opt (S p)" "StackTail s p = last_opt (S p)" using dlist_head [OF l] dlist_tail [OF l] by simp_all
  then show "S p = [] \<Longrightarrow> AXPopStackFromBottom p s = Some (None, s)" by (simp add: AXPopStackFromBottom_def)
  assume ne: "S p \<noteq> []"
  obtain us v where S: "S p = us @ [v]" using ne by (cases "S p" rule: rev_cases) auto
  have pr: "v_priority (vpb s v) = p" using voices_okD(2) [OF assms, of v] S by simp
  have d: "distinct (us @ [v])" using dlist_distinct [OF l] S by simp
  have "AXPopStackFromBottom p s = map_option (Pair (Some v)) (AXRemoveFromStack v s)"
  proof (cases us)
    case Nil
    then show ?thesis using h S pr by (simp add: AXPopStackFromBottom_def AXRemoveFromStack_def last_opt_def)
  next
    case (Cons u us')
    then have "u \<noteq> v" using d by auto
    then show ?thesis using h S pr Cons
      by (cases "v_prev (vpb s v)") (simp_all add: AXPopStackFromBottom_def AXRemoveFromStack_def last_opt_def)
  qed
  then show "\<exists>s'. AXPopStackFromBottom p s = Some (Some (last (S p)), s') \<and> voices_ok s' (S(p := butlast (S p))) F \<and> same_voices s s'"
    using AXRemoveFromStack_ok [OF assms, of us v "[]"] S by auto
qed

text \<open>Changes of a voice that are not links.\<close>

lemma voices_ok_vupd:
  assumes "\<And>b. v_next (f b) = v_next b" "\<And>b. v_prev (f b) = v_prev b" "\<And>b. v_priority (f b) = v_priority b"
  shows "voices_ok (vupd v f s) S F = voices_ok s S F"
proof -
  have "vlinks (vupd v f s) = vlinks s" "vqueue (vupd v f s) = vqueue s" using assms by (simp_all add: vlinks_def vqueue_def fun_eq_iff)
  moreover have "(\<lambda>x. v_next (vpb (vupd v f s) x)) = (\<lambda>x. v_next (vpb s x))" "v_priority (vpb (vupd v f s) x) = v_priority (vpb s x)" for x
    using assms by (simp_all add: fun_eq_iff)
  ultimately show ?thesis by (simp add: voices_ok_def)
qed

lemma voices_ok_simps [simp]:
  "voices_ok (AXSetPBDefault v s) S F = voices_ok s S F" "voices_ok (depop_running v s) S F = voices_ok s S F"
  "voices_ok (s\<lparr>told := l\<rparr>) S F = voices_ok s S F" "voices_ok (s\<lparr>irq_enabled := e\<rparr>) S F = voices_ok s S F"
  "voices_ok (vupd v (\<lambda>b. b\<lparr>v_callback := c, v_userContext := u\<rparr>) s) S F = voices_ok s S F"
  by (simp_all add: AXSetPBDefault_def depop_running_def voices_ok_vupd)
    (simp_all add: voices_ok_def vlinks_def vqueue_def)

lemma same_voices_irq: "same_voices s (s\<lparr>irq_enabled := irq_enabled s\<rparr>)"
  by (simp add: same_voices_def)

section \<open>Allocation\<close>

text \<open>Callbacks that leave the voices alone and note that they were called.\<close>

definition telling :: "voice_call \<Rightarrow> bool" where
  "telling call \<longleftrightarrow> (\<forall>cb v s. call cb v s = s\<lparr>told := told s @ [(cb, v)]\<rparr>)"

text \<open>The lowest priority below \<open>prio\<close> that has a voice.\<close>

definition victim :: "(int \<Rightarrow> int list) \<Rightarrow> int \<Rightarrow> int option" where
  "victim S prio = find (\<lambda>p. S p \<noteq> []) [1..prio - 1]"

lemma depop_sel [simp]:
  "v_callback (vpb (depop_running v s) y) = v_callback (vpb s y)" "told (depop_running v s) = told s" "irq_enabled (depop_running v s) = irq_enabled s"
  by (auto simp: depop_running_def)

lemma steal_ok:
  assumes "telling call" "voices_ok s S F" "set ps \<subseteq> prios_used"
  shows "(case find (\<lambda>p. S p \<noteq> []) ps of
      None \<Rightarrow> steal call ps s = Some (None, s)
    | Some p \<Rightarrow> \<exists>s'. steal call ps s = Some (Some (last (S p)), s') \<and> voices_ok s' (S(p := butlast (S p))) F \<and> irq_enabled s' = irq_enabled s \<and>
        told s' = told s @ (if v_callback (vpb s (last (S p))) \<noteq> 0 then [(v_callback (vpb s (last (S p))), last (S p))] else []))"
  using assms(3)
proof (induction ps)
  case (Cons p ps)
  then have p: "p \<in> prios_used" by simp
  show ?case
  proof (cases "S p = []")
    case True
    then have e: "steal call (p # ps) s = steal call ps s" "find (\<lambda>p. S p \<noteq> []) (p # ps) = find (\<lambda>p. S p \<noteq> []) ps"
      using AXPopStackFromBottom_ok(1) [OF assms(2) p] by simp_all
    have "set ps \<subseteq> prios_used" using Cons.prems by simp
    from Cons.IH [OF this] show ?thesis unfolding e .
  next
    case False
    then obtain s1 where s1: "AXPopStackFromBottom p s = Some (Some (last (S p)), s1)" "voices_ok s1 (S(p := butlast (S p))) F" "same_voices s s1"
      using AXPopStackFromBottom_ok(2) [OF assms(2) p] by blast
    let ?v = "last (S p)"
    have cb: "v_callback (vpb s1 ?v) = v_callback (vpb s ?v)" "told s1 = told s" "irq_enabled s1 = irq_enabled s"
      using same_voices_field [OF s1(3)] by simp_all
    have "voice_callback call ?v (depop_running ?v s1) = (depop_running ?v s1)\<lparr>told := told s @
        (if v_callback (vpb s ?v) \<noteq> 0 then [(v_callback (vpb s ?v), ?v)] else [])\<rparr>"
      using assms(1) cb by (auto simp: voice_callback_def telling_def)
    then show ?thesis using False s1(1,2) cb(3) by simp
  qed
qed simp

text \<open>C29. A voice is granted whenever one can be: a free one if there is one, else the oldest voice of
  the lowest priority below the one asked for, whose callback is told of the loss; else none, and
  nothing changes.  The voice granted becomes the newest of its priority, and every other voice
  stays where it was: the 31 lists and the free stack remain well formed and hold the same voices.\<close>

theorem AXAcquireVoice_grants:
  assumes "telling call" "voices_ok s S F" "prio \<in> prios_used"
  shows "\<exists>r s'. AXAcquireVoice call prio cb uc s = Some (r, s') \<and> irq_enabled s' = irq_enabled s \<and>
    (case F of
       v # F' \<Rightarrow> r = Some v \<and> voices_ok s' (S(prio := v # S prio)) F' \<and> told s' = told s
     | [] \<Rightarrow> (case victim S prio of
         Some p \<Rightarrow> let v = last (S p) in r = Some v \<and> voices_ok s' (S(p := butlast (S p), prio := v # S prio)) [] \<and>
           told s' = told s @ (if v_callback (vpb s v) \<noteq> 0 then [(v_callback (vpb s v), v)] else [])
       | None \<Rightarrow> r = None \<and> s' = s)) \<and>
    (\<forall>v. r = Some v \<longrightarrow> v_callback (vpb s' v) = cb \<and> v_userContext (vpb s' v) = uc \<and> pb_state (vpb s' v) = AX_VOICE_STOP)"
proof -
  let ?s = "s\<lparr>irq_enabled := False\<rparr>"
  let ?grant = "\<lambda>x t. AXSetPBDefault x (vupd x (\<lambda>b. b\<lparr>v_callback := cb, v_userContext := uc\<rparr>) (AXPushStackHead x prio t))"
  have ok: "voices_ok ?s S F" using assms(2) by simp
  have acq: "AXAcquireVoice call prio cb uc s = (case AXPopFreeStack ?s of (v, s1) \<Rightarrow> do {
      (v, s1) \<leftarrow> (if v = None then steal call [1..prio - 1] s1 else Some (v, s1));
      Some (v, (case v of Some x \<Rightarrow> ?grant x s1 | None \<Rightarrow> s1)\<lparr>irq_enabled := irq_enabled s\<rparr>) })"
    by (simp add: AXAcquireVoice_def OSDisableInterrupts_def OSRestoreInterrupts_def AX_PRIORITY_MIN_def split: prod.splits option.splits)
  have grant: "voices_ok (?grant x t) (S'(prio := x # S' prio)) F' \<and> told (?grant x t) = told t \<and>
      v_callback (vpb (?grant x t) x) = cb \<and> v_userContext (vpb (?grant x t) x) = uc \<and> pb_state (vpb (?grant x t) x) = AX_VOICE_STOP"
    if "voices_ok t S' F'" "\<forall>q \<in> prios_used. x \<notin> set (S' q)" "x \<notin> set F'" for x t S' F'
  proof -
    have "told (AXPushStackHead x prio t) = told t"
      using AXPushStackHead_ok [OF that(1) assms(3) that(2,3)] same_voices_field(4) by blast
    then show ?thesis using AXPushStackHead_ok [OF that(1) assms(3) that(2,3)] by (simp add: AXSetPBDefault_def) (simp add: AXSetPBDefault_def voices_ok_vupd)
  qed
  show ?thesis
  proof (cases F)
    case (Cons v F')
    obtain s1 where s1: "AXPopFreeStack ?s = (Some v, s1)" "voices_ok s1 S F'" "same_voices ?s s1"
      using AXPopFreeStack_ok(2) [OF ok Cons] by blast
    have "\<forall>q \<in> prios_used. v \<notin> set (S q)" "v \<notin> set F'"
      using voices_okD(3) [OF ok] Cons ok by (auto simp: voices_ok_def)
    from grant [OF s1(2) this] show ?thesis
      using same_voices_field(4) [OF s1(3)] Cons by (simp add: acq s1(1))
  next
    case Nil
    have sub: "set [1..prio - 1] \<subseteq> prios_used" using assms(3) by (auto simp: prios_used_def)
    note st = steal_ok [OF assms(1) ok sub]
    show ?thesis
    proof (cases "victim S prio")
      case None
      then have "steal call [1..prio - 1] ?s = Some (None, ?s)" using st by (simp add: victim_def)
      then show ?thesis using AXPopFreeStack_ok(1) [OF ok Nil] Nil None by (simp add: acq)
    next
      case (Some p)
      then obtain i where "i < length [1..prio - 1]" "S p \<noteq> []" "p = [1..prio - 1] ! i" unfolding victim_def find_Some_iff by metis
      then have "p \<in> set [1..prio - 1]" "S p \<noteq> []" using nth_mem by metis+
      then have p: "p \<in> prios_used" "S p \<noteq> []" "p \<noteq> prio" using sub by auto
      let ?v = "last (S p)"
      obtain s1 where s1: "steal call [1..prio - 1] ?s = Some (Some ?v, s1)" "voices_ok s1 (S(p := butlast (S p))) F"
        "told s1 = told s @ (if v_callback (vpb s ?v) \<noteq> 0 then [(v_callback (vpb s ?v), ?v)] else [])"
        using st Some by (auto simp: victim_def)
      have d: "distinct (S p)" using dlist_distinct [OF voices_okD(1) [OF ok p(1)]] .
      have vb: "?v \<notin> set (butlast (S p))" using d p(2) by (metis append_butlast_last_id distinct_append disjoint_iff list.set_intros(1))
      have "?v \<notin> set ((S(p := butlast (S p))) q)" if q: "q \<in> prios_used" for q
        using vb voices_okD(4) [OF ok p(1) q] p(2) by (cases "q = p") auto
      then have out: "\<forall>q \<in> prios_used. ?v \<notin> set ((S(p := butlast (S p))) q)" "?v \<notin> set F" using Nil by auto
      have e: "(S(p := butlast (S p)))(prio := ?v # (S(p := butlast (S p))) prio) = S(p := butlast (S p), prio := ?v # S prio)" using p(3) by simp
      from grant [OF s1(2) out] show ?thesis
        unfolding e using s1(3) Nil Some AXPopFreeStack_ok(1) [OF ok Nil] by (simp add: acq s1(1) Let_def)
    qed
  qed
qed

text \<open>Freeing a voice and changing its priority.\<close>

lemma removed_out:
  assumes "voices_ok s S F" "p \<in> prios_used" "S p = us @ v # vs"
  shows "\<forall>q \<in> prios_used. v \<notin> set ((S(p := us @ vs)) q)" "v \<notin> set F"
proof -
  have "distinct (us @ v # vs)" using dlist_distinct [OF voices_okD(1) [OF assms(1,2)]] assms(3) by simp
  then have "v \<notin> set (us @ vs)" by simp
  then show "\<forall>q \<in> prios_used. v \<notin> set ((S(p := us @ vs)) q)" using voices_okD(4) [OF assms(1,2)] assms(3) by auto
  show "v \<notin> set F" using voices_okD(3) [OF assms(1,2), of v] assms(3) by simp
qed

lemma AXFreeVoice_ok:
  assumes "voices_ok s S F" "p \<in> prios_used" "S p = us @ v # vs"
  shows "\<exists>s'. AXFreeVoice v s = Some s' \<and> voices_ok s' (S(p := us @ vs)) (v # F) \<and> irq_enabled s' = irq_enabled s"
proof -
  let ?s = "s\<lparr>irq_enabled := False\<rparr>"
  have ok: "voices_ok ?s S F" using assms(1) by simp
  obtain s1 where s1: "AXRemoveFromStack v ?s = Some s1" "voices_ok s1 (S(p := us @ vs)) F" using AXRemoveFromStack_ok [OF ok assms(2,3)] by blast
  let ?t = "AXSetPBDefault v (depop_running v s1)"
  have "voices_ok ?t (S(p := us @ vs)) F" using s1(2) by simp
  from AXPushFreeStack_ok [OF this removed_out [OF ok assms(2,3)]] have "voices_ok (AXPushFreeStack v ?t) (S(p := us @ vs)) (v # F)" by blast
  then show ?thesis using s1(1) by (simp add: AXFreeVoice_def OSDisableInterrupts_def OSRestoreInterrupts_def)
qed

lemma AXSetVoicePriority_ok:
  assumes "voices_ok s S F" "p \<in> prios_used" "S p = us @ v # vs" "q \<in> prios_used"
  shows "\<exists>s'. AXSetVoicePriority v q s = Some s' \<and> voices_ok s' ((S(p := us @ vs))(q := v # (S(p := us @ vs)) q)) F"
proof -
  let ?s = "s\<lparr>irq_enabled := False\<rparr>"
  have ok: "voices_ok ?s S F" using assms(1) by simp
  obtain s1 where s1: "AXRemoveFromStack v ?s = Some s1" "voices_ok s1 (S(p := us @ vs)) F" using AXRemoveFromStack_ok [OF ok assms(2,3)] by blast
  from AXPushStackHead_ok [OF s1(2) assms(4) removed_out [OF ok assms(2,3)]] s1(1) show ?thesis
    by (simp add: AXSetVoicePriority_def OSDisableInterrupts_def OSRestoreInterrupts_def del: fun_upd_apply)
qed

section \<open>Two voices\<close>

definition voice0 :: AXVPB where
  "voice0 = \<lparr>v_next = None, v_prev = None, v_next1 = None, v_priority = 0, v_callback = 0, v_userContext = 0, v_sync = 0, v_depop = False,
     pb_state = AX_VOICE_STOP, pb_itd_flag = 0, pb_lpf_on = 0, pb_biquad_on = 0, pb_remote = 0, pb_rmtIIR_lpf_on = 0, pb_rmtSrc_frac = 0,
     pb_rmtSrc_last = []\<rparr>"

text \<open>Voice 7 plays at priority 3 and voice 8, older, below it; none is free.\<close>

definition demo_ax :: ax_state where
  "demo_ax = \<lparr>irq_enabled = True,
     vpb = (\<lambda>_. voice0)(7 := voice0\<lparr>v_next := Some 8, v_priority := 3, v_callback := 0x80001000\<rparr>,
       8 := voice0\<lparr>v_prev := Some 7, v_priority := 3, v_callback := 0x80001000\<rparr>),
     StackHead = (\<lambda>_. None)(3 := Some 7), StackTail = (\<lambda>_. None)(3 := Some 8), CallbackStack = None, told = []\<rparr>"

lemma demo_ax_ok: "voices_ok demo_ax ((\<lambda>_. [])(3 := [7, 8])) []"
  by (simp add: voices_ok_def demo_ax_def dlist_def vlinks_def vqueue_def prios_used_def voice0_def)

theorem AXAcquireVoice_grants_witness:
  "\<exists>s'. AXAcquireVoice (\<lambda>cb v s. s\<lparr>told := told s @ [(cb, v)]\<rparr>) 5 0x80002000 9 demo_ax = Some (Some 8, s') \<and>
    voices_ok s' ((\<lambda>_. [])(3 := [7], 5 := [8])) [] \<and> told s' = [(0x80001000, 8)] \<and> v_callback (vpb s' 8) = 0x80002000"
proof -
  have "victim ((\<lambda>_. [])(3 := [7, 8])) 5 = Some 3" by (simp add: victim_def upto.simps)
  moreover have "v_callback (vpb demo_ax 8) = 0x80001000" "told demo_ax = []" by (simp_all add: demo_ax_def)
  ultimately show ?thesis
    using AXAcquireVoice_grants [of "\<lambda>cb v s. s\<lparr>told := told s @ [(cb, v)]\<rparr>" demo_ax "(\<lambda>_. [])(3 := [7, 8])" "[]" 5 "0x80002000" 9] demo_ax_ok
    by (auto simp: telling_def prios_used_def)
qed

end

