(* ===== verification/ScConf.thy ===== *)
theory ScConf
  imports Prelude "HOL-Library.Char_ord"
begin

text \<open>
  \<^verbatim>\<open>sc/scsystem.c\<close>, the part that works on the settings file in memory: parsing, looking up,
  deleting and creating items.  A buffer is a map from offsets to bytes (big-endian, as the
  processor reads them).  Its layout: a magic, the number of items, the table of the items'
  offsets with the end of the last one behind it, the items; and before the closing magic a
  table with a slot per item ID, growing downwards, that holds the offset of the item's entry
  in the first table.
\<close>

section \<open>Bytes\<close>

type_synonym bytes = "int \<Rightarrow> int"

definition rd16 :: "bytes \<Rightarrow> int \<Rightarrow> int" where
  "rd16 M a = M a * 256 + M (a + 1)"

definition wr16 :: "int \<Rightarrow> int \<Rightarrow> bytes \<Rightarrow> bytes" where
  "wr16 a v M = M(a := u16 v div 256, a + 1 := u16 v mod 256)"

definition memset :: "int \<Rightarrow> int \<Rightarrow> int \<Rightarrow> bytes \<Rightarrow> bytes" where
  "memset a v n M = (\<lambda>x. if a \<le> x \<and> x < a + n then v else M x)"

definition memmove :: "int \<Rightarrow> int \<Rightarrow> int \<Rightarrow> bytes \<Rightarrow> bytes" where
  "memmove d a n M = (\<lambda>x. if d \<le> x \<and> x < d + n then M (a + (x - d)) else M x)"

definition memcpy :: "int \<Rightarrow> int list \<Rightarrow> bytes \<Rightarrow> bytes" where
  "memcpy d xs M = (\<lambda>x. if d \<le> x \<and> x < d + int (length xs) then xs ! nat (x - d) else M x)"

definition bytes_of :: "bytes \<Rightarrow> int \<Rightarrow> int \<Rightarrow> int list" where
  "bytes_of M a n = map (\<lambda>i. M (a + int i)) [0..<nat n]"

definition ascii :: "string \<Rightarrow> int list" where
  "ascii = map of_char"

section \<open>Constants and data\<close>

definition SC_CONF_MIN_SIZE :: int where "SC_CONF_MIN_SIZE = 12"
definition SC_CONF_MAX_SIZE :: int where "SC_CONF_MAX_SIZE = 0x4000"
definition SC_CONF_BEGIN_MAGIC :: "int list" where "SC_CONF_BEGIN_MAGIC = ascii ''SCv0''"
definition SC_CONF_END_MAGIC :: "int list" where "SC_CONF_END_MAGIC = ascii ''SCed''"
definition SC_SMALLARRAY_MAX :: int where "SC_SMALLARRAY_MAX = 0xFF"
definition SC_BIGARRAY_MAX :: int where "SC_BIGARRAY_MAX = 0xFFFF"

definition SC_ITEM_BIGARRAY :: int where "SC_ITEM_BIGARRAY = 32"
definition SC_ITEM_SMALLARRAY :: int where "SC_ITEM_SMALLARRAY = 64"
definition SC_ITEM_BYTE :: int where "SC_ITEM_BYTE = 96"
definition SC_ITEM_SHORT :: int where "SC_ITEM_SHORT = 128"
definition SC_ITEM_LONG :: int where "SC_ITEM_LONG = 160"
definition SC_ITEM_LONGLONG :: int where "SC_ITEM_LONGLONG = 192"
definition SC_ITEM_BOOL :: int where "SC_ITEM_BOOL = 224"

lemmas item_types = SC_ITEM_BIGARRAY_def SC_ITEM_SMALLARRAY_def SC_ITEM_BYTE_def SC_ITEM_SHORT_def
  SC_ITEM_LONG_def SC_ITEM_LONGLONG_def SC_ITEM_BOOL_def

definition SC_ITEM_MAX :: nat where "SC_ITEM_MAX = 35"

text \<open>\<^verbatim>\<open>NameAndIDTbl\<close>: entry \<open>i\<close> names the item whose ID is \<open>i\<close>.\<close>

definition item_names :: "string list" where
  "item_names =
    [''IPL.CB'', ''IPL.AR'', ''IPL.ARN'', ''IPL.CD'', ''IPL.CD2'', ''IPL.DH'', ''IPL.E60'',
     ''IPL.EULA'', ''IPL.FRC'', ''IPL.IDL'', ''IPL.INC'', ''IPL.LNG'', ''IPL.NIK'', ''IPL.PC'',
     ''IPL.PGS'', ''IPL.SSV'', ''IPL.SADR'', ''IPL.SND'', ''IPL.UPT'', ''NET.CNF'', ''NET.CTPC'',
     ''NET.PROF'', ''NET.WCPC'', ''NET.WCFG'', ''DEV.BTM'', ''DEV.VIM'', ''DEV.CTC'', ''DEV.DSM'',
     ''BT.DINF'', ''BT.SENS'', ''BT.SPKV'', ''BT.MOT'', ''BT.BAR'', ''DVD.CNF'', ''WWW.RST'']"

definition NameAndIDTbl :: "(int list \<times> nat) list" where
  "NameAndIDTbl = zip (map ascii item_names) [0..<SC_ITEM_MAX]"

record SCItem =
  si_value :: "int list"
  si_primType :: int
  si_arrayType :: int
  si_nameLen :: int
  si_dataLen :: int
  si_name :: int
  si_data :: int
  si_itemLen :: int

datatype sc_buffer = ConfBuf | ConfBufForFlush | PrdInfo

record sc_state = irq +
  sc_mem :: "sc_buffer \<Rightarrow> bytes"
  ItemRestSize :: int
  ItemNumTotal :: int
  ItemIDMaxPlus1 :: nat
  ItemIDOffsetTblOffset :: int
  DirtyFlag :: bool

definition put_buf :: "sc_buffer \<Rightarrow> bytes \<Rightarrow> 'a sc_state_scheme \<Rightarrow> 'a sc_state_scheme" where
  "put_buf b M s = s\<lparr>sc_mem := (sc_mem s)(b := M)\<rparr>"

definition SCIsDirty :: "'a sc_state_scheme \<Rightarrow> bool" where
  "SCIsDirty s = DirtyFlag s"

definition SCSetDirtyFlag :: "'a sc_state_scheme \<Rightarrow> 'a sc_state_scheme" where
  "SCSetDirtyFlag s = s\<lparr>DirtyFlag := True\<rparr>"

definition SCClearDirtyFlag :: "'a sc_state_scheme \<Rightarrow> 'a sc_state_scheme" where
  "SCClearDirtyFlag s = s\<lparr>DirtyFlag := False\<rparr>"

definition SCGetConfBuf :: sc_buffer where
  "SCGetConfBuf = ConfBuf"

definition SCGetConfBufSize :: int where
  "SCGetConfBufSize = SC_CONF_MAX_SIZE"

text \<open>\<open>entry j\<close> is the offset of \<^verbatim>\<open>itemOffsets[j]\<close>.\<close>

definition entry :: "nat \<Rightarrow> int" where
  "entry j = 6 + 2 * int j"

section \<open>Clearing and parsing\<close>

definition ClearConfBuf :: "sc_buffer \<Rightarrow> 'a sc_state_scheme \<Rightarrow> 'a sc_state_scheme" where
  "ClearConfBuf b s =
     (let sz = SCGetConfBufSize;
          M = memset 0 0 sz (sc_mem s b);
          M = (if sz > SC_CONF_MIN_SIZE
               then wr16 (entry 0) 8 (memcpy (sz - 4) SC_CONF_END_MAGIC (memcpy 0 SC_CONF_BEGIN_MAGIC M))
               else M)
      in put_buf b M s)"

definition ParseGetBEValue :: "bytes \<Rightarrow> int \<Rightarrow> int \<Rightarrow> int \<Rightarrow> int option" where
  "ParseGetBEValue M start stop sz =
     (if start + sz > stop then None
      else Some (fold (\<lambda>x imm. u32 (imm * 256) + x) (bytes_of M start sz) 0))"

definition UnpackItem :: "bytes \<Rightarrow> int \<Rightarrow> bool \<times> SCItem" where
  "UnpackItem M raw =
     (let item = \<lparr>si_value = [], si_primType = 0, si_arrayType = 0, si_nameLen = 0, si_dataLen = 0,
                  si_name = 0, si_data = 0, si_itemLen = 0\<rparr>;
          type = and (M raw) 0xE0;
          item = item\<lparr>si_name := raw + 1, si_nameLen := and (M raw) 0x1F + 1\<rparr>;
          item = item\<lparr>si_data := raw + si_nameLen item + 1\<rparr>;
          fin = (\<lambda>item.
            let item = (if type = SC_ITEM_SMALLARRAY \<or> type = SC_ITEM_BIGARRAY
                        then item\<lparr>si_arrayType := SC_ITEM_SMALLARRAY\<rparr>
                        else item\<lparr>si_primType := type, si_value := bytes_of M (si_data item) (si_dataLen item)\<rparr>);
                item = item\<lparr>si_itemLen := si_itemLen item + si_nameLen item + si_dataLen item + 1\<rparr>
            in (si_dataLen item \<noteq> 0, item))
      in if type = SC_ITEM_BYTE \<or> type = SC_ITEM_BOOL then fin (item\<lparr>si_dataLen := 1\<rparr>)
         else if type = SC_ITEM_SHORT then fin (item\<lparr>si_dataLen := 2\<rparr>)
         else if type = SC_ITEM_LONG then fin (item\<lparr>si_dataLen := 4\<rparr>)
         else if type = SC_ITEM_LONGLONG then fin (item\<lparr>si_dataLen := 8\<rparr>)
         else if type = SC_ITEM_SMALLARRAY
         then fin (item\<lparr>si_dataLen := M (si_data item) + 1, si_data := si_data item + 1,
                        si_itemLen := si_itemLen item + 1\<rparr>)
         else if type = SC_ITEM_BIGARRAY
         then fin (item\<lparr>si_dataLen := rd16 M (si_data item) + 1, si_data := si_data item + 2,
                        si_itemLen := si_itemLen item + 2\<rparr>)
         else (False, item))"

text \<open>\<open>check_items M sz i k ofs\<close>: the loop over the items, with \<open>k\<close> of them left.\<close>

fun check_items :: "bytes \<Rightarrow> int \<Rightarrow> nat \<Rightarrow> nat \<Rightarrow> int \<Rightarrow> int option" where
  "check_items M sz i 0 ofs = Some ofs"
| "check_items M sz i (Suc k) ofs =
     (if ofs > sz \<or> entry i > sz \<or> ofs \<noteq> rd16 M (entry i) then None
      else case UnpackItem M ofs of
             (False, _) \<Rightarrow> None
           | (True, item) \<Rightarrow> check_items M sz (i + 1) k (ofs + si_itemLen item))"

definition names_item :: "bytes \<Rightarrow> int list \<Rightarrow> nat \<Rightarrow> bool" where
  "names_item M name i =
     (let it = rd16 M (entry i)
      in int (length name) = and (M it) 0x1F + 1 \<and> bytes_of M (it + 1) (int (length name)) = name)"

definition enter_item :: "int \<Rightarrow> nat \<Rightarrow> int list \<times> nat \<Rightarrow> bytes \<Rightarrow> bytes" where
  "enter_item lut numItems = (\<lambda>(name, ident) M.
     case find (names_item M name) [0..<numItems] of
       None \<Rightarrow> M
     | Some i \<Rightarrow> wr16 (lut - 2 * int ident) (entry i) M)"

text \<open>What follows the comparison of the magics, with \<open>e\<close> for \<^verbatim>\<open>confEnd\<close>.\<close>

definition parse_items :: "bytes \<Rightarrow> int \<Rightarrow> int \<Rightarrow> nat \<Rightarrow> bytes \<times> (int \<times> int \<times> int) option" where
  "parse_items M sz e maxId =
     (case ParseGetBEValue M 4 e 2 of None \<Rightarrow> (M, None) | Some numItems \<Rightarrow>
      case check_items M sz 0 (nat numItems) (entry (nat numItems + 1)) of None \<Rightarrow> (M, None) | Some ofs \<Rightarrow>
        let lutEnd = e - (int SC_ITEM_MAX - 1) * 2
        in if ofs > sz \<or> ofs \<noteq> rd16 M (entry (nat numItems)) \<or> ofs > lutEnd then (M, None)
           else
             let M = memset lutEnd 0 (e - lutEnd) M;
                 lut = e - 2;
                 M = fold (enter_item lut (nat numItems)) (take maxId NameAndIDTbl) M
             in (M, Some (lut, numItems, lutEnd - ofs)))"

definition ParseConfBuf :: "sc_buffer \<Rightarrow> int \<Rightarrow> 'a sc_state_scheme \<Rightarrow> bool \<times> 'a sc_state_scheme" where
  "ParseConfBuf b sz s =
     (if sz < SC_CONF_MIN_SIZE \<or> sz > SCGetConfBufSize then (False, s)
      else
        let s = s\<lparr>ItemIDMaxPlus1 := SC_ITEM_MAX\<rparr>;
            M = sc_mem s b
        in if bytes_of M 0 4 \<noteq> SC_CONF_BEGIN_MAGIC \<or> bytes_of M (sz - 4) 4 \<noteq> SC_CONF_END_MAGIC
           then (False, s)
           else
             let rest = SCGetConfBufSize - sz;
                 M = (if sz < SCGetConfBufSize
                      then memcpy (sz - 4 + rest) SC_CONF_END_MAGIC (memset (sz - 4) 0 rest M)
                      else M)
             in case parse_items M sz (sz - 4 + rest) (ItemIDMaxPlus1 s) of
                  (M, None) \<Rightarrow> (False, put_buf b M s)
                | (M, Some (lut, num, rest)) \<Rightarrow>
                    (True, (put_buf b M s)\<lparr>ItemIDOffsetTblOffset := lut, ItemNumTotal := num, ItemRestSize := rest\<rparr>))"

section \<open>Items by ID\<close>

definition FindItemByID :: "nat \<Rightarrow> 'a sc_state_scheme \<Rightarrow> SCItem option" where
  "FindItemByID ident s =
     (let M = sc_mem s SCGetConfBuf
      in if ident < ItemIDMaxPlus1 s \<and> ItemIDOffsetTblOffset s > 0
         then let itemOfsOfs = rd16 M (ItemIDOffsetTblOffset s - 2 * int ident)
              in if itemOfsOfs > 0
                 then case UnpackItem M (rd16 M itemOfsOfs) of (found, item) \<Rightarrow> if found then Some item else None
                 else None
         else None)"

text \<open>A loop that visits 16-bit entries and may change each.\<close>

definition adjust :: "(nat \<Rightarrow> int) \<Rightarrow> (nat \<Rightarrow> int \<Rightarrow> int option) \<Rightarrow> nat \<Rightarrow> bytes \<Rightarrow> bytes" where
  "adjust ad f j M = (case f j (rd16 M (ad j)) of None \<Rightarrow> M | Some v \<Rightarrow> wr16 (ad j) v M)"

definition DeleteItemByID :: "nat \<Rightarrow> 'a sc_state_scheme \<Rightarrow> 'a sc_state_scheme" where
  "DeleteItemByID ident s =
     (let M = sc_mem s SCGetConfBuf; lut = ItemIDOffsetTblOffset s;
          itemOfsOfs = rd16 M (lut - 2 * int ident)
      in if ident \<ge> ItemIDMaxPlus1 s \<or> lut = 0 \<or> itemOfsOfs = 0 \<or> ItemNumTotal s = 0 then s
         else
           let n = nat (ItemNumTotal s);
               itemsEndOfs = rd16 M (entry n);
               itemSize = rd16 M (itemOfsOfs + 2) - rd16 M itemOfsOfs + 2;
               M = memmove itemOfsOfs (itemOfsOfs + 2) (rd16 M itemOfsOfs - (itemOfsOfs + 2)) M;
               M = fold (adjust entry (\<lambda>j v. Some (if entry j < itemOfsOfs then v - 2 else v - itemSize)))
                     (rev [0..<n]) M;
               here = rd16 M itemOfsOfs;
               M = memmove here (itemSize + here) (itemsEndOfs - (here + itemSize)) M;
               M = memset (itemsEndOfs - itemSize) 0 itemSize M;
               M = fold (adjust (\<lambda>i. lut - 2 * int i)
                          (\<lambda>i v. if v < itemOfsOfs then None else if v > itemOfsOfs then Some (v - 2) else Some 0))
                     [0..<ItemIDMaxPlus1 s] M;
               s = s\<lparr>ItemRestSize := u32 (ItemRestSize s + itemSize), ItemNumTotal := ItemNumTotal s - 1\<rparr>;
               M = wr16 4 (ItemNumTotal s) M
           in SCSetDirtyFlag (put_buf SCGetConfBuf M s))"

text \<open>
  The type that is stored, the length of the data and the length of the item without its
  name, from the type and the length that the caller gives.
\<close>

definition item_form :: "int \<Rightarrow> int \<Rightarrow> (int \<times> int \<times> int) option" where
  "item_form primType len =
     (if primType = SC_ITEM_BYTE \<or> primType = SC_ITEM_BOOL then Some (primType, 1, 1 + 1)
      else if primType = SC_ITEM_SHORT then Some (primType, 2, 1 + 2)
      else if primType = SC_ITEM_LONG then Some (primType, 4, 1 + 4)
      else if primType = SC_ITEM_LONGLONG then Some (primType, 8, 1 + 8)
      else if primType = SC_ITEM_SMALLARRAY then
        if len = 0 \<or> len > SC_BIGARRAY_MAX + 1 then None
        else if len > SC_SMALLARRAY_MAX + 1 then Some (SC_ITEM_BIGARRAY, len, 1 + 2 + len)
        else Some (primType, len, 1 + 1 + len)
      else None)"

definition len_bytes :: "int \<Rightarrow> int \<Rightarrow> int list" where
  "len_bytes primType len =
     (if primType = SC_ITEM_SMALLARRAY then [u8 (len - 1)]
      else if primType = SC_ITEM_BIGARRAY then [(len - 1) div 256 mod 256, (len - 1) mod 256]
      else [])"

definition CreateItemByID :: "nat \<Rightarrow> int \<Rightarrow> int list option \<Rightarrow> int \<Rightarrow> 'a sc_state_scheme \<Rightarrow> bool \<times> 'a sc_state_scheme" where
  "CreateItemByID ident primType src len s =
     (let M = sc_mem s SCGetConfBuf; lut = ItemIDOffsetTblOffset s
      in if ident \<ge> ItemIDMaxPlus1 s \<or> src = None \<or> ItemNumTotal s \<ge> 0xFFFF \<or> lut = 0 then (False, s)
         else case item_form primType len of None \<Rightarrow> (False, s) | Some (primType, len, itemSize) \<Rightarrow>
         case find (\<lambda>(name, i). i = ident) NameAndIDTbl of None \<Rightarrow> (False, s) | Some (name, _) \<Rightarrow>
           let itemNameLen = int (length name);
               itemSize = itemSize + itemNameLen
           in if itemNameLen > 0x1F + 1 then (False, s)
              else if ItemRestSize s < itemSize + 2 then (False, s)
              else
                let n = nat (ItemNumTotal s);
                    begin = rd16 M (entry 0);
                    M = memmove (begin + 2) begin (rd16 M (entry n) - begin) M;
                    M = fold (adjust entry (\<lambda>j v. Some (v + 2))) [0..<n + 1] M;
                    newItem = rd16 M (entry n);
                    M = M(newItem := u8 (or primType (itemNameLen - 1)));
                    M = memcpy (newItem + 1) name M;
                    newItem = newItem + itemNameLen + 1;
                    lens = len_bytes primType len;
                    M = memcpy newItem lens M;
                    newItem = newItem + int (length lens);
                    M = memcpy newItem (take (nat len) (the src)) M;
                    M = wr16 (lut - 2 * int ident) (entry n) M;
                    M = wr16 (entry (n + 1)) (rd16 M (entry n) + itemSize) M;
                    s = s\<lparr>ItemRestSize := u32 (ItemRestSize s - (itemSize + 2)), ItemNumTotal := ItemNumTotal s + 1\<rparr>;
                    M = wr16 4 (ItemNumTotal s) M
                in (True, SCSetDirtyFlag (put_buf SCGetConfBuf M s)))"

section \<open>The interface\<close>

text \<open>A destination is the bytes it holds before the call, a null pointer \<open>None\<close>.\<close>

definition SCFindByteArrayItem ::
  "int list option \<Rightarrow> int \<Rightarrow> nat \<Rightarrow> 'a sc_state_scheme \<Rightarrow> bool \<times> int list option \<times> 'a sc_state_scheme" where
  "SCFindByteArrayItem dst len ident s =
     (case OSDisableInterrupts s of (enabled, s) \<Rightarrow>
      case (dst, FindItemByID ident s) of
        (Some old, Some item) \<Rightarrow>
          if si_arrayType item \<noteq> 0 \<and> si_dataLen item = len
          then (True, Some (bytes_of (sc_mem s SCGetConfBuf) (si_data item) len @ drop (nat len) old),
                OSRestoreInterrupts enabled s)
          else (False, dst, OSRestoreInterrupts enabled s)
      | _ \<Rightarrow> (False, dst, OSRestoreInterrupts enabled s))"

definition overwrite_item :: "SCItem \<Rightarrow> int list \<Rightarrow> 'a sc_state_scheme \<Rightarrow> 'a sc_state_scheme" where
  "overwrite_item item src s =
     (let n = si_dataLen item; M = sc_mem s SCGetConfBuf
      in if bytes_of M (si_data item) n \<noteq> take (nat n) src
         then SCSetDirtyFlag (put_buf SCGetConfBuf (memcpy (si_data item) (take (nat n) src) M) s)
         else s)"

definition SCReplaceByteArrayItem :: "int list option \<Rightarrow> int \<Rightarrow> nat \<Rightarrow> 'a sc_state_scheme \<Rightarrow> bool \<times> 'a sc_state_scheme" where
  "SCReplaceByteArrayItem src len ident s =
     (case OSDisableInterrupts s of (enabled, s) \<Rightarrow>
      case (case src of None \<Rightarrow> (False, s) | Some xs \<Rightarrow>
        (case FindItemByID ident s of
           Some item \<Rightarrow>
             if si_arrayType item \<noteq> 0 \<and> si_dataLen item = len then (True, overwrite_item item xs s)
             else CreateItemByID ident SC_ITEM_SMALLARRAY src len (DeleteItemByID ident s)
         | None \<Rightarrow> CreateItemByID ident SC_ITEM_SMALLARRAY src len s)) of
      (success, s) \<Rightarrow> (success, OSRestoreInterrupts enabled s))"

definition SCFindIntegerItem :: "int list \<Rightarrow> nat \<Rightarrow> int \<Rightarrow> 'a sc_state_scheme \<Rightarrow> bool \<times> int list \<times> 'a sc_state_scheme" where
  "SCFindIntegerItem dst ident primType s =
     (case OSDisableInterrupts s of (enabled, s) \<Rightarrow>
      case FindItemByID ident s of
        Some item \<Rightarrow>
          if si_primType item = primType
          then (True, bytes_of (sc_mem s SCGetConfBuf) (si_data item) (si_dataLen item) @ drop (nat (si_dataLen item)) dst,
                OSRestoreInterrupts enabled s)
          else (False, dst, OSRestoreInterrupts enabled s)
      | None \<Rightarrow> (False, dst, OSRestoreInterrupts enabled s))"

definition SCReplaceIntegerItem :: "int list \<Rightarrow> nat \<Rightarrow> int \<Rightarrow> 'a sc_state_scheme \<Rightarrow> bool \<times> 'a sc_state_scheme" where
  "SCReplaceIntegerItem src ident primType s =
     (case OSDisableInterrupts s of (enabled, s) \<Rightarrow>
      case (case FindItemByID ident s of
           Some item \<Rightarrow>
             if si_primType item = primType then (True, overwrite_item item src s)
             else CreateItemByID ident primType (Some src) 0 (DeleteItemByID ident s)
         | None \<Rightarrow> CreateItemByID ident primType (Some src) 0 s) of
      (success, s) \<Rightarrow> (success, OSRestoreInterrupts enabled s))"

end
