(* ===== verification/ScItems.thy ===== *)
theory ScItems
  imports ScConf
begin

text \<open>
  The settings file as a list of items and a map from item IDs to positions in it
  (\<open>conf_rep\<close>), and what the operations of \<open>ScConf\<close> do to the two: \<open>Find\<close> reads the item of
  an ID, \<open>Delete\<close> removes it, \<open>Create\<close> appends one, so that the file is a dictionary.
\<close>

section \<open>Bytes\<close>

definition is_bytes :: "bytes \<Rightarrow> bool" where
  "is_bytes M \<longleftrightarrow> (\<forall>a. 0 \<le> M a \<and> M a < 256)"

definition holds :: "bytes \<Rightarrow> int \<Rightarrow> int list \<Rightarrow> bool" where
  "holds M a xs \<longleftrightarrow> (\<forall>k<length xs. M (a + int k) = xs ! k)"

lemma rd16_wr16 [simp]: "rd16 (wr16 a v M) a = u16 v"
  by (simp add: rd16_def wr16_def)

lemma wr16_other: "x < a \<or> a + 1 < x \<Longrightarrow> wr16 a v M x = M x"
  by (auto simp: wr16_def)

lemma rd16_wr16_other: "b + 1 < a \<or> a + 1 < b \<Longrightarrow> rd16 (wr16 a v M) b = rd16 M b"
  by (auto simp: rd16_def wr16_other)

lemma rd16_cong: "M a = N b \<Longrightarrow> M (a + 1) = N (b + 1) \<Longrightarrow> rd16 M a = rd16 N b"
  by (simp add: rd16_def)

lemma rd16_range: "is_bytes M \<Longrightarrow> 0 \<le> rd16 M a \<and> rd16 M a < 65536"
proof -
  assume "is_bytes M"
  then have "0 \<le> M a" "M a < 256" "0 \<le> M (a + 1)" "M (a + 1) < 256" by (simp_all add: is_bytes_def)
  then show ?thesis by (simp add: rd16_def)
qed

lemma is_bytes_wr16 [intro]: "is_bytes M \<Longrightarrow> is_bytes (wr16 a v M)"
proof -
  have "u16 v div 256 < 256" "0 \<le> u16 v div 256"
    by (simp_all add: u16_def pos_imp_zdiv_nonneg_iff div_less_iff_less_mult)
  then show "is_bytes M \<Longrightarrow> is_bytes (wr16 a v M)" by (simp add: is_bytes_def wr16_def)
qed

lemma is_bytes_memset [intro]: "is_bytes M \<Longrightarrow> 0 \<le> v \<Longrightarrow> v < 256 \<Longrightarrow> is_bytes (memset a v n M)"
  by (simp add: is_bytes_def memset_def)

lemma is_bytes_memmove [intro]: "is_bytes M \<Longrightarrow> is_bytes (memmove d a n M)"
  by (simp add: is_bytes_def memmove_def)

lemma is_bytes_memcpy [intro]: "is_bytes M \<Longrightarrow> list_all (\<lambda>x. 0 \<le> x \<and> x < 256) xs \<Longrightarrow> is_bytes (memcpy d xs M)"
  by (auto simp: is_bytes_def memcpy_def list_all_length)

lemma memcpy_Nil [simp]: "memcpy a [] M = M"
  by (simp add: memcpy_def fun_eq_iff)

lemma memcpy_Cons: "memcpy a (x # xs) M = memcpy (a + 1) xs (M(a := x))"
proof
  fix y
  show "memcpy a (x # xs) M y = memcpy (a + 1) xs (M(a := x)) y"
  proof (cases "a < y")
    case True
    then have "nat (y - a) = Suc (nat (y - (a + 1)))" by simp
    then show ?thesis using True by (simp add: memcpy_def)
  qed (auto simp: memcpy_def)
qed

lemma memcpy_append: "memcpy (a + int (length xs)) ys (memcpy a xs M) = memcpy a (xs @ ys) M"
proof (induction xs arbitrary: a M)
  case (Cons x xs)
  have "memcpy (a + 1 + int (length xs)) ys (memcpy (a + 1) xs (M(a := x))) = memcpy (a + 1) (xs @ ys) (M(a := x))"
    by (rule Cons)
  moreover have "a + int (length (x # xs)) = a + 1 + int (length xs)" by simp
  ultimately show ?case by (simp only: memcpy_Cons append_Cons)
qed simp

lemma memcpy_holds: "holds (memcpy a xs M) a xs"
  by (simp add: holds_def memcpy_def)

lemma memcpy_other: "x < a \<or> a + int (length xs) \<le> x \<Longrightarrow> memcpy a xs M x = M x"
  by (auto simp: memcpy_def)

lemma bytes_of_holds: "holds M a xs \<Longrightarrow> bytes_of M a (int (length xs)) = xs"
  unfolding bytes_of_def holds_def by (rule nth_equalityI) simp_all

lemma holds_bytes_of: "bytes_of M a (int (length xs)) = xs \<Longrightarrow> holds M a xs"
  unfolding holds_def
proof (intro allI impI)
  fix k
  assume "bytes_of M a (int (length xs)) = xs" "k < length xs"
  then show "M (a + int k) = xs ! k"
    using nth_map [of k "[0..<length xs]" "\<lambda>i. M (a + int i)"] by (simp add: bytes_of_def)
qed

lemma holds_Cons: "holds M a (x # xs) \<longleftrightarrow> M a = x \<and> holds M (a + 1) xs"
  by (simp add: holds_def All_less_Suc2 add.assoc)

lemma holds_append: "holds M a (xs @ ys) \<longleftrightarrow> holds M a xs \<and> holds M (a + int (length xs)) ys"
proof (induction xs arbitrary: a)
  case Nil
  show ?case by (simp add: holds_def)
next
  case (Cons x xs)
  then show ?case by (simp add: holds_Cons add.assoc)
qed

lemma holds_cong:
  "(\<And>k. k < length xs \<Longrightarrow> M (a + int k) = N (b + int k)) \<Longrightarrow> holds M a xs = holds N b xs"
  by (simp add: holds_def)

section \<open>A pass over separate entries\<close>

definition separate :: "(nat \<Rightarrow> int) \<Rightarrow> bool" where
  "separate ad \<longleftrightarrow> (\<forall>j k. j \<noteq> k \<longrightarrow> ad j + 1 < ad k \<or> ad k + 1 < ad j)"

lemma adjust_other: "x < ad j \<or> ad j + 1 < x \<Longrightarrow> adjust ad f j M x = M x"
  by (auto simp: adjust_def wr16_other split: option.splits)

lemma fold_adjust_other:
  "(\<forall>j\<in>set js. x < ad j \<or> ad j + 1 < x) \<Longrightarrow> fold (adjust ad f) js M x = M x"
  by (induction js arbitrary: M) (simp_all add: adjust_other)

lemma fold_adjust:
  assumes "separate ad" "distinct js"
  shows "rd16 (fold (adjust ad f) js M) (ad k) =
    (if k \<in> set js then (case f k (rd16 M (ad k)) of None \<Rightarrow> rd16 M (ad k) | Some v \<Rightarrow> u16 v) else rd16 M (ad k))"
  using assms(2)
proof (induction js arbitrary: M)
  case (Cons j js)
  have other: "k \<noteq> j \<Longrightarrow> rd16 (adjust ad f j M) (ad k) = rd16 M (ad k)"
    using assms(1) by (auto simp: separate_def adjust_def rd16_wr16_other split: option.splits)
  have same: "rd16 (adjust ad f j M) (ad j) = (case f j (rd16 M (ad j)) of None \<Rightarrow> rd16 M (ad j) | Some v \<Rightarrow> u16 v)"
    by (simp add: adjust_def split: option.splits)
  show ?case
  proof (cases "k = j")
    case True
    then show ?thesis using Cons same by auto
  next
    case False
    then show ?thesis using Cons other [OF False] by (auto split: option.split)
  qed
qed simp

lemma is_bytes_adjust: "is_bytes M \<Longrightarrow> is_bytes (adjust ad f j M)"
  by (auto simp: adjust_def split: option.splits)

lemma is_bytes_fold_adjust [intro]: "is_bytes M \<Longrightarrow> is_bytes (fold (adjust ad f) js M)"
  by (induction js arbitrary: M) (simp_all add: is_bytes_adjust)

section \<open>Items\<close>

datatype sc_item = Item (it_name: "int list") (it_type: int) (it_data: "int list")

definition enc :: "sc_item \<Rightarrow> int list" where
  "enc it = (it_type it + int (length (it_name it)) - 1)
     # it_name it @ len_bytes (it_type it) (int (length (it_data it))) @ it_data it"

definition len_ok :: "int \<Rightarrow> int \<Rightarrow> bool" where
  "len_ok type n \<longleftrightarrow>
     type \<in> {SC_ITEM_BYTE, SC_ITEM_BOOL} \<and> n = 1 \<or> type = SC_ITEM_SHORT \<and> n = 2
   \<or> type = SC_ITEM_LONG \<and> n = 4 \<or> type = SC_ITEM_LONGLONG \<and> n = 8
   \<or> type = SC_ITEM_SMALLARRAY \<and> 1 \<le> n \<and> n \<le> 256 \<or> type = SC_ITEM_BIGARRAY \<and> 1 \<le> n \<and> n \<le> 65536"

definition all_bytes :: "int list \<Rightarrow> bool" where
  "all_bytes xs \<longleftrightarrow> list_all (\<lambda>x. 0 \<le> x \<and> x < 256) xs"

definition item_ok :: "sc_item \<Rightarrow> bool" where
  "item_ok it \<longleftrightarrow> 1 \<le> length (it_name it) \<and> length (it_name it) \<le> 32
     \<and> all_bytes (it_name it) \<and> all_bytes (it_data it) \<and> len_ok (it_type it) (int (length (it_data it)))"

abbreviation is_array :: "int \<Rightarrow> bool" where
  "is_array type \<equiv> type = SC_ITEM_SMALLARRAY \<or> type = SC_ITEM_BIGARRAY"

abbreviation item_len :: "sc_item \<Rightarrow> int" where
  "item_len it \<equiv> int (length (enc it))"

definition data_at :: "sc_item \<Rightarrow> int" where
  "data_at it = 1 + int (length (it_name it)) + int (length (len_bytes (it_type it) (int (length (it_data it)))))"

lemma desc_masks:
  assumes "type \<in> {32, 64, 96, 128, 160, 192, 224::int}" "1 \<le> n" "n \<le> (32::int)"
  shows "and (type + n - 1) 0xE0 = type" "and (type + n - 1) 0x1F = n - 1"
    "u8 (or type (n - 1)) = type + n - 1"
proof -
  have n: "n = 1 + int (nat (n - 1))" "nat (n - 1) \<in> set [0..<32]" using assms by auto
  have all: "\<forall>t\<in>set [32, 64, 96, 128, 160, 192, 224::int]. \<forall>k\<in>set [0..<32::nat].
      and (t + int k) 0xE0 = t \<and> and (t + int k) 0x1F = int k \<and> u8 (or t (int k)) = t + int k"
    by code_simp
  have "and (type + int (nat (n - 1))) 0xE0 = type" "and (type + int (nat (n - 1))) 0x1F = int (nat (n - 1))"
    "u8 (or type (int (nat (n - 1)))) = type + int (nat (n - 1))"
    using bspec [OF bspec [OF all] n(2), of type] assms(1) by simp_all
  moreover have "int (nat (n - 1)) = n - 1" using assms(2) by simp
  ultimately show "and (type + n - 1) 0xE0 = type" "and (type + n - 1) 0x1F = n - 1"
    "u8 (or type (n - 1)) = type + n - 1" by (simp_all add: algebra_simps)
qed

lemma item_ok_type: "item_ok it \<Longrightarrow> it_type it \<in> {32, 64, 96, 128, 160, 192, 224}"
  by (auto simp: item_ok_def len_ok_def item_types)

lemma enc_desc:
  assumes "item_ok it"
  shows "and (hd (enc it)) 0xE0 = it_type it" "and (hd (enc it)) 0x1F = int (length (it_name it)) - 1"
  using desc_masks [OF item_ok_type [OF assms], of "int (length (it_name it))"] assms
  by (simp_all add: enc_def item_ok_def)

lemma length_enc: "item_len it = data_at it + int (length (it_data it))"
  by (simp add: enc_def data_at_def)

lemma item_len_pos: "2 \<le> data_at it + int (length (it_data it))" if "item_ok it"
  using that by (auto simp: item_ok_def data_at_def)

lemma enc_parts:
  assumes "holds M a (enc it)"
  shows "M a = hd (enc it)" "holds M (a + 1) (it_name it)"
    "holds M (a + 1 + int (length (it_name it))) (len_bytes (it_type it) (int (length (it_data it))))"
    "holds M (a + data_at it) (it_data it)"
  using assms by (simp_all add: enc_def holds_Cons holds_append data_at_def algebra_simps)

lemma UnpackItem_enc:
  assumes M: "holds M a (enc it)" and ok: "item_ok it"
  shows "\<exists>item. UnpackItem M a = (True, item) \<and> si_data item = a + data_at it
    \<and> si_dataLen item = int (length (it_data it)) \<and> si_itemLen item = item_len it
    \<and> si_name item = a + 1 \<and> si_nameLen item = int (length (it_name it))
    \<and> si_arrayType item = (if is_array (it_type it) then SC_ITEM_SMALLARRAY else 0)
    \<and> si_primType item = (if is_array (it_type it) then 0 else it_type it)"
proof -
  let ?n = "int (length (it_data it))"
  note parts = enc_parts [OF M]
  have masks: "and (M a) 0xE0 = it_type it" "and (M a) 0x1F = int (length (it_name it)) - 1"
    using enc_desc [OF ok] parts(1) by simp_all
  have ln: "len_ok (it_type it) ?n" using ok by (simp add: item_ok_def)
  have small: "it_type it = SC_ITEM_SMALLARRAY \<Longrightarrow> M (a + 1 + int (length (it_name it))) + 1 = ?n"
  proof -
    assume t: "it_type it = SC_ITEM_SMALLARRAY"
    then have "1 \<le> ?n" "?n \<le> 256" using ln by (cases "it_data it"; simp add: len_ok_def item_types)+
    then have "0 \<le> ?n - 1" "?n - 1 < 256" by linarith+
    then have "u8 (?n - 1) = ?n - 1" using mod_pos_pos_trivial [of "?n - 1" 256] by (simp add: u8_def)
    then show ?thesis using parts(3) t by (simp add: len_bytes_def holds_Cons item_types)
  qed
  have big: "it_type it = SC_ITEM_BIGARRAY \<Longrightarrow> rd16 M (a + 1 + int (length (it_name it))) + 1 = ?n"
  proof -
    assume t: "it_type it = SC_ITEM_BIGARRAY"
    then have "1 \<le> ?n" "?n \<le> 65536" using ln by (cases "it_data it"; simp add: len_ok_def item_types)+
    moreover from this have "(?n - 1) div 256 mod 256 = (?n - 1) div 256" by simp
    ultimately show ?thesis using parts(3) t
      by (simp add: len_bytes_def holds_Cons item_types rd16_def)
  qed
  have "it_data it \<noteq> []" using ln by (cases "it_data it") (auto simp: len_ok_def item_types)
  then show ?thesis
    using ln small big
    by (auto simp: UnpackItem_def Let_def masks data_at_def len_ok_def item_types len_bytes_def
        length_enc algebra_simps)
qed

section \<open>The file as a list of items\<close>

definition off :: "sc_item list \<Rightarrow> nat \<Rightarrow> int" where
  "off items i = 6 + 2 * (int (length items) + 1) + sum_list (map item_len (take i items))"

lemma off_0 [simp]: "off items 0 = 8 + 2 * int (length items)"
  by (simp add: off_def)

lemma off_Suc: "i < length items \<Longrightarrow> off items (Suc i) = off items i + item_len (items ! i)"
  by (simp add: off_def take_Suc_conv_app_nth)

lemma off_mono: "i \<le> j \<Longrightarrow> off items i \<le> off items j"
proof (induction j rule: dec_induct)
  case (step n)
  have "off items n \<le> off items (Suc n)"
    by (cases "n < length items") (simp_all add: off_Suc, simp add: off_def)
  then show ?case using step by simp
qed simp

lemma off_append: "i \<le> length items \<Longrightarrow> off (items @ [it]) i = off items i + 2"
  by (simp add: off_def)

lemma off_append_end: "off (items @ [it]) (Suc (length items)) = off items (length items) + 2 + item_len it"
  by (simp add: off_def)

definition laid_out :: "bytes \<Rightarrow> sc_item list \<Rightarrow> bool" where
  "laid_out M items \<longleftrightarrow> (\<forall>i\<le>length items. rd16 M (entry i) = off items i)
     \<and> (\<forall>i<length items. holds M (off items i) (enc (items ! i)) \<and> item_ok (items ! i))"

definition slot_at :: "nat \<Rightarrow> int" where
  "slot_at ident = 0x3FFA - 2 * int ident"

definition slot :: "nat option \<Rightarrow> int" where
  "slot p = (case p of None \<Rightarrow> 0 | Some i \<Rightarrow> entry i)"

definition name_of :: "nat \<Rightarrow> int list" where
  "name_of ident = ascii (item_names ! ident)"

definition conf_rep :: "'a sc_state_scheme \<Rightarrow> sc_item list \<Rightarrow> (nat \<Rightarrow> nat option) \<Rightarrow> bool" where
  "conf_rep s items lut \<longleftrightarrow>
     (let M = sc_mem s ConfBuf; n = length items in
      ItemNumTotal s = int n \<and> ItemIDMaxPlus1 s = SC_ITEM_MAX \<and> ItemIDOffsetTblOffset s = slot_at 0
    \<and> ItemRestSize s = 0x3FB8 - off items n \<and> off items n \<le> slot_at (SC_ITEM_MAX - 1)
    \<and> is_bytes M \<and> laid_out M items \<and> rd16 M 4 = int n
    \<and> (\<forall>ident<SC_ITEM_MAX. rd16 M (slot_at ident) = slot (lut ident))
    \<and> (\<forall>ident i. lut ident = Some i \<longrightarrow> ident < SC_ITEM_MAX \<and> i < n \<and> it_name (items ! i) = name_of ident))"

text \<open>The dictionary: what an ID stands for.\<close>

definition dict :: "sc_item list \<Rightarrow> (nat \<Rightarrow> nat option) \<Rightarrow> nat \<Rightarrow> (int \<times> int list) option" where
  "dict items lut ident = map_option (\<lambda>i. (it_type (items ! i), it_data (items ! i))) (lut ident)"

lemma conf_repD:
  assumes "conf_rep s items lut"
  shows "ItemNumTotal s = int (length items)" "ItemIDMaxPlus1 s = 35" "ItemIDOffsetTblOffset s = 0x3FFA"
    "ItemRestSize s = 0x3FB8 - off items (length items)" "off items (length items) \<le> 0x3FB6"
    "is_bytes (sc_mem s ConfBuf)" "laid_out (sc_mem s ConfBuf) items"
    "\<And>ident. ident < 35 \<Longrightarrow> rd16 (sc_mem s ConfBuf) (0x3FFA - 2 * int ident) = slot (lut ident)"
    "\<And>ident i. lut ident = Some i \<Longrightarrow> ident < 35 \<and> i < length items \<and> it_name (items ! i) = name_of ident"
    "rd16 (sc_mem s ConfBuf) 4 = int (length items)"
  using assms by (auto simp: conf_rep_def Let_def SC_ITEM_MAX_def slot_at_def)

lemma laid_outD:
  assumes "laid_out M items"
  shows "\<And>i. i \<le> length items \<Longrightarrow> rd16 M (entry i) = off items i"
    "\<And>i. i < length items \<Longrightarrow> holds M (off items i) (enc (items ! i))"
    "\<And>i. i < length items \<Longrightarrow> item_ok (items ! i)"
  using assms by (auto simp: laid_out_def)

lemma FindItemByID_rep:
  assumes rep: "conf_rep s items lut"
  shows "case lut ident of None \<Rightarrow> FindItemByID ident s = None
    | Some i \<Rightarrow> \<exists>item. FindItemByID ident s = Some item \<and> si_data item = off items i + data_at (items ! i)
        \<and> si_dataLen item = int (length (it_data (items ! i)))
        \<and> si_arrayType item = (if is_array (it_type (items ! i)) then SC_ITEM_SMALLARRAY else 0)
        \<and> si_primType item = (if is_array (it_type (items ! i)) then 0 else it_type (items ! i))
        \<and> holds (sc_mem s ConfBuf) (si_data item) (it_data (items ! i))"
proof -
  note r = conf_repD [OF rep] and l = laid_outD [OF conf_repD(7) [OF rep]]
  show ?thesis
  proof (cases "lut ident")
    case None
    then show ?thesis using r(2,3) r(8) [of ident] by (simp add: FindItemByID_def Let_def SCGetConfBuf_def slot_def)
  next
    case (Some i)
    then have i: "ident < 35" "i < length items" using r(9) by auto
    obtain item where item: "UnpackItem (sc_mem s ConfBuf) (off items i) = (True, item)"
      "si_data item = off items i + data_at (items ! i)" "si_dataLen item = int (length (it_data (items ! i)))"
      "si_arrayType item = (if is_array (it_type (items ! i)) then SC_ITEM_SMALLARRAY else 0)"
      "si_primType item = (if is_array (it_type (items ! i)) then 0 else it_type (items ! i))"
      using UnpackItem_enc [OF l(2,3)] i(2) by blast
    have "FindItemByID ident s = Some item"
      using r(2,3) r(8) [OF i(1)] i Some l(1) [of i] item(1)
      by (simp add: FindItemByID_def Let_def SCGetConfBuf_def slot_def entry_def)
    then show ?thesis using Some item(2-) enc_parts(4) [OF l(2) [OF i(2)]] by simp
  qed
qed

section \<open>Creating an item\<close>

lemma item_names_length: "length item_names = 35"
  by (simp add: item_names_def)

lemma find_name: "ident < 35 \<Longrightarrow> find (\<lambda>(name, i). i = ident) NameAndIDTbl = Some (name_of ident, ident)"
proof -
  have all: "\<forall>k\<in>set [0..<35]. find (\<lambda>(name, i). i = k) NameAndIDTbl = Some (name_of k, k)"
    by code_simp
  show "ident < 35 \<Longrightarrow> find (\<lambda>(name, i). i = ident) NameAndIDTbl = Some (name_of ident, ident)"
    by (rule bspec [OF all]) simp
qed

lemma name_of_ok:
  assumes "ident < 35"
  shows "1 \<le> length (name_of ident)" "length (name_of ident) \<le> 8" "all_bytes (name_of ident)"
proof -
  have "\<forall>k\<in>set [0..<35]. 1 \<le> length (name_of k) \<and> length (name_of k) \<le> 8 \<and> all_bytes (name_of k)"
    by code_simp
  then show "1 \<le> length (name_of ident)" "length (name_of ident) \<le> 8" "all_bytes (name_of ident)"
    using assms by auto
qed

lemma name_of_inj:
  assumes "i < 35" "j < 35" "name_of i = name_of j"
  shows "i = j"
proof -
  have "distinct (map ascii item_names)" by code_simp
  then show ?thesis
    using assms nth_eq_iff_index_eq [of "map ascii item_names" i j] by (simp add: name_of_def item_names_length)
qed

text \<open>The type stored for data of type \<open>primType\<close>: an array takes the form that its length needs.\<close>

definition stored_type :: "int \<Rightarrow> int \<Rightarrow> int" where
  "stored_type primType n = (if primType = SC_ITEM_SMALLARRAY \<and> n > 256 then SC_ITEM_BIGARRAY else primType)"

definition wants :: "int \<Rightarrow> int \<Rightarrow> int list \<Rightarrow> bool" where
  "wants primType len src \<longleftrightarrow> all_bytes src \<and>
     (primType = SC_ITEM_SMALLARRAY \<and> len = int (length src) \<and> 1 \<le> len \<and> len \<le> 65536
      \<or> primType \<notin> {SC_ITEM_SMALLARRAY, SC_ITEM_BIGARRAY} \<and> len_ok primType (int (length src)))"

definition new_item :: "nat \<Rightarrow> int \<Rightarrow> int list \<Rightarrow> sc_item" where
  "new_item ident primType src = Item (name_of ident) (stored_type primType (int (length src))) src"

lemma entry_separate: "separate entry"
  by (auto simp: separate_def entry_def)

lemma entries_below: "j \<le> length items \<Longrightarrow> entry j + 1 < off items 0"
  by (simp add: entry_def)

lemma create_memory:
  assumes l: "laid_out M items" and b: "is_bytes M" and it: "item_ok it"
    and n: "n = length items" and e: "e = off items n" and room: "e + 2 + item_len it \<le> a" and a: "a < 0x4000"
    and M1: "M1 = memmove (rd16 M (entry 0) + 2) (rd16 M (entry 0)) (rd16 M (entry n) - rd16 M (entry 0)) M"
    and M2: "M2 = fold (adjust entry (\<lambda>j v. Some (v + 2))) [0..<n + 1] M1"
    and M3: "M3 = memcpy (rd16 M2 (entry n)) (enc it) M2"
    and M4: "M4 = wr16 a (entry n) M3"
    and M5: "M5 = wr16 (entry (n + 1)) (rd16 M4 (entry n) + item_len it) M4"
    and M6: "M6 = wr16 4 (int n + 1) M5"
  shows "rd16 M2 (entry n) = e + 2" "laid_out M6 (items @ [it])" "rd16 M6 a = entry n"
    "rd16 M6 4 = int n + 1" "\<And>x. e + 2 + item_len it \<le> x \<Longrightarrow> x < a \<or> a + 1 < x \<Longrightarrow> M6 x = M x"
proof -
  note ld = laid_outD [OF l]
  have b0: "rd16 M (entry 0) = 8 + 2 * int n" "rd16 M (entry n) = e" using ld(1) [of 0] ld(1) [of n] n e by simp_all
  have e0: "8 + 2 * int n \<le> e" using off_mono [of 0 n items] e n by simp
  have len2: "2 \<le> item_len it" using item_len_pos [OF it] by (simp add: length_enc)
  have rd1: "rd16 M1 (entry j) = off items j" if "j \<le> n" for j
    using that ld(1) [of j] n b0 by (auto simp: M1 memmove_def rd16_def entry_def)
  have rd2: "rd16 M2 (entry j) = off items j + 2" if j: "j \<le> n" for j
  proof -
    have "rd16 M2 (entry j) = u16 (off items j + 2)"
      unfolding M2 using j by (simp add: fold_adjust [OF entry_separate] rd1 del: upt_Suc)
    moreover have "0 \<le> off items j" "off items j \<le> e" using off_mono [of 0 j items] off_mono [of j n items] j e by simp_all
    ultimately show ?thesis using room a len2 by (simp add: u16_def)
  qed
  have x2: "M2 x = M1 x" if "entry n + 1 < x" for x
    unfolding M2 by (rule fold_adjust_other) (use that in \<open>auto simp: entry_def\<close>)
  show new: "rd16 M2 (entry n) = e + 2" using rd2 [of n] e by simp
  have x6: "M6 x = M3 x" if "entry (n + 1) + 1 < x" "x < a \<or> a + 1 < x" for x
    using that by (auto simp: M6 M5 M4 wr16_other entry_def)
  have rd6: "rd16 M6 (entry j) = off items j + 2" if j: "j \<le> n" for j
  proof -
    have "entry j + 1 < e + 2" "entry j + 1 < entry (n + 1)" "4 + 1 < entry j" "entry j + 1 < a"
      using j e0 room len2 by (simp_all add: entry_def)
    then have "rd16 M6 (entry j) = rd16 M2 (entry j)"
      by (simp add: M6 M5 M4 M3 new rd16_wr16_other) (simp add: rd16_def memcpy_def)
    then show ?thesis using rd2 [OF j] by simp
  qed
  have end6: "rd16 M6 (entry (n + 1)) = e + 2 + item_len it"
  proof -
    have s: "entry (n + 1) + 1 < a" "entry n + 1 < a" "entry n + 1 < e + 2" "4 + 1 < entry (n + 1)"
      using e0 room len2 by (simp_all add: entry_def)
    have "rd16 M4 (entry n) = e + 2"
      using s new by (simp add: M4 M3 rd16_wr16_other) (simp add: rd16_def memcpy_def)
    then have "rd16 M6 (entry (n + 1)) = u16 (e + 2 + item_len it)"
      using s by (simp add: M6 M5 rd16_wr16_other)
    then show ?thesis using e0 room a by (simp add: u16_def)
  qed
  have old: "holds M6 (off items i + 2) (enc (items ! i))" if i: "i < n" for i
  proof -
    have lo: "8 + 2 * int n \<le> off items i" "off items i + item_len (items ! i) \<le> e"
      using off_mono [of 0 i items] off_mono [of "Suc i" n items] off_Suc [of i items] i n e by simp_all
    have "M6 (off items i + 2 + int k) = M (off items i + int k)" if k: "k < length (enc (items ! i))" for k
    proof -
      let ?x = "off items i + 2 + int k"
      have x: "10 + 2 * int n \<le> ?x" "?x < e + 2" using lo k by simp_all
      have "M6 ?x = M3 ?x" using x room len2 by (intro x6) (simp_all add: entry_def)
      also have "\<dots> = M2 ?x" using x by (simp add: M3 new memcpy_other)
      also have "\<dots> = M1 ?x" using x by (intro x2) (simp add: entry_def)
      also have "\<dots> = M (off items i + int k)" using x by (simp add: M1 b0 memmove_def)
      finally show ?thesis .
    qed
    then show ?thesis using ld(2) [of i] i n by (simp add: holds_def)
  qed
  have "holds M3 (e + 2) (enc it)" by (simp add: M3 new memcpy_holds)
  then have fresh: "holds M6 (e + 2) (enc it)"
    using e0 room x6 by (simp add: holds_def entry_def)
  show "laid_out M6 (items @ [it])"
    using rd6 end6 old fresh ld(3) it n e
    by (auto simp: laid_out_def nth_append off_append off_append_end less_Suc_eq le_Suc_eq)
  show "rd16 M6 a = entry n"
  proof -
    have "entry (n + 1) + 1 < a" "4 + 1 < a" "0 \<le> entry n" "entry n < 2 ^ 16"
      using e0 room a len2 by (simp_all add: entry_def)
    then show ?thesis by (simp add: M6 M5 M4 rd16_wr16_other u16_id)
  qed
  show "rd16 M6 4 = int n + 1" using e0 room a by (simp add: M6 u16_def)
  show "M6 x = M x" if x: "e + 2 + item_len it \<le> x" "x < a \<or> a + 1 < x" for x
  proof -
    have "M6 x = M3 x" using x e0 len2 by (intro x6) (simp_all add: entry_def)
    also have "\<dots> = M2 x" using x by (simp add: M3 new memcpy_other)
    also have "\<dots> = M1 x" using x e0 len2 by (intro x2) (simp add: entry_def)
    also have "\<dots> = M x" using x len2 by (simp add: M1 b0 memmove_def)
    finally show ?thesis .
  qed
qed

lemma new_item_ok:
  assumes "wants primType len src" "ident < 35"
  shows "item_ok (new_item ident primType src)"
    "item_form primType len = Some (stored_type primType (int (length src)), int (length src),
       item_len (new_item ident primType src) - int (length (name_of ident)))"
  using assms name_of_ok [OF assms(2)]
  by (auto simp: wants_def new_item_def item_ok_def stored_type_def len_ok_def item_types item_form_def
      SC_BIGARRAY_MAX_def SC_SMALLARRAY_MAX_def enc_def len_bytes_def)

lemma write_enc:
  assumes "item_ok it"
  shows "memcpy (a + int (length (it_name it)) + 1 + int (length (len_bytes (it_type it) (int (length (it_data it)))))) (it_data it)
      (memcpy (a + int (length (it_name it)) + 1) (len_bytes (it_type it) (int (length (it_data it))))
        (memcpy (a + 1) (it_name it) (M(a := u8 (or (it_type it) (int (length (it_name it)) - 1))))))
    = memcpy a (enc it) M"
proof -
  have d: "u8 (or (it_type it) (int (length (it_name it)) - 1)) = it_type it + int (length (it_name it)) - 1"
    using desc_masks(3) [OF item_ok_type [OF assms], of "int (length (it_name it))"] assms
    by (simp add: item_ok_def)
  show ?thesis
    unfolding d enc_def memcpy_Cons memcpy_append [symmetric] by (simp add: algebra_simps)
qed

lemma is_bytes_upd [intro]: "is_bytes M \<Longrightarrow> 0 \<le> v \<Longrightarrow> v < 256 \<Longrightarrow> is_bytes (M(a := v))"
  by (simp add: is_bytes_def)

lemma all_bytes_enc: "item_ok it \<Longrightarrow> all_bytes (enc it)"
proof -
  assume ok: "item_ok it"
  have "it_type it + int (length (it_name it)) - 1 = u8 (or (it_type it) (int (length (it_name it)) - 1))"
    using desc_masks(3) [OF item_ok_type [OF ok], of "int (length (it_name it))"] ok
    by (simp add: item_ok_def)
  then have "0 \<le> it_type it + int (length (it_name it)) - 1" "it_type it + int (length (it_name it)) - 1 < 256"
    by (simp_all add: u8_def)
  moreover have "all_bytes (len_bytes (it_type it) (int (length (it_data it))))"
    by (simp add: all_bytes_def len_bytes_def u8_def)
  ultimately show ?thesis using ok by (simp add: enc_def item_ok_def all_bytes_def)
qed

definition same_env :: "'a sc_state_scheme \<Rightarrow> 'a sc_state_scheme \<Rightarrow> bool" where
  "same_env s s' \<longleftrightarrow> irq_enabled s' = irq_enabled s \<and> sc_state.more s' = sc_state.more s
     \<and> (\<forall>b. b \<noteq> ConfBuf \<longrightarrow> sc_mem s' b = sc_mem s b)"

lemma CreateItemByID_rep:
  assumes rep: "conf_rep s items lut" and ident: "ident < 35" and w: "wants primType len src"
    and room: "off items (length items) + 2 + item_len (new_item ident primType src) \<le> 0x3FB6"
  shows "\<exists>s'. CreateItemByID ident primType (Some src) len s = (True, s') \<and> DirtyFlag s' \<and> same_env s s'
    \<and> conf_rep s' (items @ [new_item ident primType src]) (lut(ident \<mapsto> length items))"
proof -
  note r = conf_repD [OF rep]
  let ?it = "new_item ident primType src"
  let ?M = "sc_mem s ConfBuf" and ?n = "length items" and ?a = "0x3FFA - 2 * int ident"
  note ok = new_item_ok [OF w ident]
  obtain M1 where M1: "M1 = memmove (rd16 ?M (entry 0) + 2) (rd16 ?M (entry 0)) (rd16 ?M (entry ?n) - rd16 ?M (entry 0)) ?M" by blast
  obtain M2 where M2: "M2 = fold (adjust entry (\<lambda>j v. Some (v + 2))) [0..<?n + 1] M1" by blast
  obtain M3 where M3: "M3 = memcpy (rd16 M2 (entry ?n)) (enc ?it) M2" by blast
  obtain M4 where M4: "M4 = wr16 ?a (entry ?n) M3" by blast
  obtain M5 where M5: "M5 = wr16 (entry (?n + 1)) (rd16 M4 (entry ?n) + item_len ?it) M4" by blast
  obtain M6 where M6: "M6 = wr16 4 (int ?n + 1) M5" by blast
  have a: "off items ?n + 2 + item_len ?it \<le> ?a" "?a < 0x4000" using room ident by simp_all
  note mem = create_memory [OF r(7) r(6) ok(1) refl refl a M1 M2 M3 M4 M5 M6]
  let ?s' = "SCSetDirtyFlag (put_buf ConfBuf M6 (s\<lparr>ItemRestSize := u32 (ItemRestSize s - (item_len ?it + 2)), ItemNumTotal := ItemNumTotal s + 1\<rparr>))"
  have e0: "8 + 2 * int ?n \<le> off items ?n" using off_mono [of 0 ?n items] by simp
  have name: "it_name ?it = name_of ident" "it_data ?it = src" "it_type ?it = stored_type primType (int (length src))"
    by (simp_all add: new_item_def)
  have "CreateItemByID ident primType (Some src) len s = (True, ?s')"
  proof -
    have wr: "memcpy (rd16 M2 (entry ?n) + int (length (name_of ident)) + 1
          + int (length (len_bytes (stored_type primType (int (length src))) (int (length src))))) src
        (memcpy (rd16 M2 (entry ?n) + int (length (name_of ident)) + 1) (len_bytes (stored_type primType (int (length src))) (int (length src)))
          (memcpy (rd16 M2 (entry ?n) + 1) (name_of ident)
            (M2(rd16 M2 (entry ?n) := u8 (or (stored_type primType (int (length src))) (int (length (name_of ident)) - 1)))))) = M3"
      using write_enc [OF ok(1), of "rd16 M2 (entry ?n)" M2] by (simp only: M3 name)
    have c: "\<not> ItemRestSize s < item_len ?it + 2" "\<not> int (length (name_of ident)) > 0x1F + 1"
      "\<not> ident \<ge> ItemIDMaxPlus1 s" "\<not> ItemNumTotal s \<ge> 0xFFFF" "ItemIDOffsetTblOffset s \<noteq> 0"
      using r room e0 ident name_of_ok [OF ident] by simp_all
    show ?thesis
      unfolding CreateItemByID_def Let_def SCGetConfBuf_def find_name [OF ident] ok(2) r(3)
      using c wr by (simp add: r(1) M1 [symmetric] M2 [symmetric] M4 [symmetric] M5 [symmetric] M6 [symmetric] del: upt_Suc One_nat_def add_Suc_right)
  qed
  moreover have "DirtyFlag ?s'" "same_env s ?s'"
    by (simp_all add: SCSetDirtyFlag_def put_buf_def same_env_def)
  moreover have "conf_rep ?s' (items @ [?it]) (lut(ident \<mapsto> ?n))"
  proof -
    have "is_bytes M6"
      unfolding M6 M5 M4 M3 M2 M1 using r(6) all_bytes_enc [OF ok(1)] by (intro is_bytes_wr16 is_bytes_memcpy is_bytes_fold_adjust is_bytes_memmove) (simp_all add: all_bytes_def)
    moreover have "rd16 M6 (slot_at j) = slot ((lut(ident \<mapsto> ?n)) j)" if j: "j < 35" for j
    proof (cases "j = ident")
      case False
      then have "rd16 M6 (slot_at j) = rd16 ?M (slot_at j)"
        using room j by (intro rd16_cong mem(5)) (auto simp: slot_at_def)
      then show ?thesis using False r(8) [OF j] by (simp add: slot_at_def)
    qed (use mem(3) in \<open>simp add: slot_at_def slot_def\<close>)
    moreover have "u32 (ItemRestSize s - (item_len ?it + 2)) = 0x3FB8 - (off items ?n + 2 + item_len ?it)"
      using r(4) room e0 by (simp add: u32_def)
    ultimately show ?thesis
      using mem(2,4) r room name ident
      by (auto simp: conf_rep_def Let_def SCSetDirtyFlag_def put_buf_def off_append_end SC_ITEM_MAX_def slot_at_def
          nth_append less_Suc_eq)
  qed
  ultimately show ?thesis by blast
qed

section \<open>Deleting an item\<close>

definition drop_nth :: "nat \<Rightarrow> 'a list \<Rightarrow> 'a list" where
  "drop_nth i xs = take i xs @ drop (Suc i) xs"

lemma length_drop_nth [simp]: "i < length xs \<Longrightarrow> length (drop_nth i xs) = length xs - 1"
  by (simp add: drop_nth_def)

lemma nth_drop_nth: "i < length xs \<Longrightarrow> drop_nth i xs ! j = (if j < i then xs ! j else xs ! Suc j)"
  by (auto simp: drop_nth_def nth_append)

lemma off_drop_nth:
  assumes i: "i < length items"
  shows "j \<le> i \<Longrightarrow> off (drop_nth i items) j = off items j - 2"
    "i \<le> j \<Longrightarrow> off (drop_nth i items) j = off items (Suc j) - (item_len (items ! i) + 2)"
proof -
  show "j \<le> i \<Longrightarrow> off (drop_nth i items) j = off items j - 2"
    using i by (simp add: off_def drop_nth_def min_def)
  assume j: "i \<le> j"
  have "take (Suc j) items = take (i + Suc (j - i)) items" using j by simp
  also have "\<dots> = take i items @ items ! i # take (j - i) (drop (Suc i) items)"
    by (simp only: take_add Cons_nth_drop_Suc [OF i, symmetric] take_Suc_Cons)
  finally show "off (drop_nth i items) j = off items (Suc j) - (item_len (items ! i) + 2)"
    using i j by (simp add: off_def drop_nth_def min_def)
qed

definition lut_drop :: "nat \<Rightarrow> (nat \<Rightarrow> nat option) \<Rightarrow> nat \<Rightarrow> nat option" where
  "lut_drop i lut ident = (case lut ident of None \<Rightarrow> None
     | Some k \<Rightarrow> if k = i then None else if k > i then Some (k - 1) else Some k)"

lemma slot_separate: "separate slot_at"
  by (auto simp: separate_def slot_at_def)

lemma delete_memory:
  assumes l: "laid_out M items" and b: "is_bytes M" and i: "i < length items"
    and n: "n = length items" and e: "e = off items n" and room: "e \<le> 0x3FB6"
    and lut: "\<And>j. j < 35 \<Longrightarrow> rd16 M (slot_at j) = slot (lut j)"
      "\<And>j k. lut j = Some k \<Longrightarrow> j < 35 \<and> k < n"
    and isz: "isz = rd16 M (entry i + 2) - rd16 M (entry i) + 2"
    and M1: "M1 = memmove (entry i) (entry i + 2) (rd16 M (entry i) - (entry i + 2)) M"
    and M2: "M2 = fold (adjust entry (\<lambda>j v. Some (if entry j < entry i then v - 2 else v - isz))) (rev [0..<n]) M1"
    and M3: "M3 = memmove (rd16 M2 (entry i)) (isz + rd16 M2 (entry i)) (e - (rd16 M2 (entry i) + isz)) M2"
    and M4: "M4 = memset (e - isz) 0 isz M3"
    and M5: "M5 = fold (adjust slot_at (\<lambda>j v. if v < entry i then None else if v > entry i then Some (v - 2) else Some 0)) [0..<35] M4"
    and M6: "M6 = wr16 4 (int n - 1) M5"
  shows "isz = item_len (items ! i) + 2" "laid_out M6 (drop_nth i items)"
    "\<And>j. j < 35 \<Longrightarrow> rd16 M6 (slot_at j) = slot (lut_drop i lut j)" "rd16 M6 4 = int n - 1"
proof -
  note ld = laid_outD [OF l]
  have ei: "rd16 M (entry j) = off items j" if "j \<le> n" for j using ld(1) [of j] that n by simp
  have "entry i + 2 = entry (Suc i)" by (simp add: entry_def)
  then show isz': "isz = item_len (items ! i) + 2"
    using ei [of i] ei [of "Suc i"] i n off_Suc [of i items] by (simp add: isz)
  have lo: "8 + 2 * int n \<le> off items j" "off items j \<le> e" if "j \<le> n" for j
    using off_mono [of 0 j items] off_mono [of j n items] n e that by simp_all
  have oi: "off items (Suc i) = off items i - 2 + isz" using off_Suc [OF i] isz' by simp
  have x1: "M1 x = (if entry i \<le> x \<and> x < off items i - 2 then M (x + 2) else M x)" for x
    using ei [of i] i n by (auto simp: M1 memmove_def algebra_simps)
  have rd1: "rd16 M1 (entry j) = off items (if j < i then j else Suc j)" if j: "j < n" for j
  proof -
    have "rd16 M1 (entry j) = rd16 M (entry (if j < i then j else Suc j))"
      using j lo(1) [of i] i n by (intro rd16_cong) (auto simp: x1 entry_def)
    then show ?thesis using ei j i n by simp
  qed
  have rd2: "rd16 M2 (entry j) = off (drop_nth i items) j" if j: "j < n" for j
  proof -
    have "rd16 M2 (entry j) = u16 (off (drop_nth i items) j)"
      unfolding M2 using j i n off_drop_nth [OF i, of j] isz'
      by (simp add: fold_adjust [OF entry_separate] rd1) (simp add: entry_def)
    moreover have "0 \<le> off (drop_nth i items) j"
      using off_mono [of 0 j "drop_nth i items"] by simp
    moreover have "off (drop_nth i items) j \<le> e"
      using off_drop_nth [OF i, of j] lo(2) [of j] lo(2) [of "Suc j"] j isz' by (cases "j \<le> i") simp_all
    ultimately show ?thesis using room by (simp add: u16_def)
  qed
  have here: "rd16 M2 (entry i) = off items i - 2" using rd2 [of i] off_drop_nth(1) [OF i, of i] i n by simp
  have x2: "M2 x = M1 x" if "entry n \<le> x" for x
    unfolding M2 by (rule fold_adjust_other) (use that in \<open>auto simp: entry_def\<close>)
  have x3: "M3 x = (if off items i - 2 \<le> x \<and> x < e - isz then M2 (x + isz) else M2 x)" for x
    by (auto simp: M3 here memmove_def algebra_simps)
  have x4: "M4 x = M3 x" if "x < e - isz \<or> e \<le> x" for x
    using that by (auto simp: M4 memset_def)
  have x6: "M6 x = M4 x" if "x < 0x3FB6" "5 < x" for x
  proof -
    have "M5 x = M4 x" unfolding M5 by (rule fold_adjust_other) (use that in \<open>auto simp: slot_at_def\<close>)
    then show ?thesis using that by (simp add: M6 wr16_other)
  qed
  have "Suc (n - 1) = n" "i \<le> n - 1" using i n by simp_all
  then have ee: "e - isz = off (drop_nth i items) (n - 1)"
    using off_drop_nth(2) [OF i, of "n - 1"] isz' e by simp
  have lo': "6 + 2 * int n \<le> off (drop_nth i items) j" for j
    using off_mono [of 0 j "drop_nth i items"] i n by simp
  have hi': "off (drop_nth i items) j \<le> e - isz" if "j < n" for j
    using off_mono [of j "n - 1" "drop_nth i items"] that ee by simp
  have entries: "rd16 M6 (entry j) = off (drop_nth i items) j" if j: "j < n" for j
  proof -
    have c: "5 < entry j" "entry j + 1 < 0x3FB6" "entry j + 1 < off items i - 2" "entry j + 1 < e - isz"
      using j lo(1) [of i] i n lo' [of j] hi' [OF j] e room lo(2) [of i] by (simp_all add: entry_def)
    have "rd16 M6 (entry j) = rd16 M2 (entry j)"
      using c by (intro rd16_cong) (simp_all add: x6 x4 x3)
    then show ?thesis using rd2 [OF j] by simp
  qed
  have items: "holds M6 (off (drop_nth i items) j) (enc (drop_nth i items ! j))" if j: "j < n - 1" for j
  proof (cases "j < i")
    case True
    have c: "off items j + item_len (items ! j) \<le> off items i"
      using off_Suc [of j items] off_mono [of "Suc j" i items] True i by simp
    have "M6 (off items j - 2 + int k) = M (off items j + int k)" if k: "k < length (enc (items ! j))" for k
    proof -
      let ?x = "off items j - 2 + int k"
      have x: "6 + 2 * int n \<le> ?x" "?x < off items i - 2" "?x < e - isz"
        using lo(1) [of j] True i n c k oi lo(2) [of "Suc i"] by simp_all
      have "M6 ?x = M4 ?x" using x room isz' by (intro x6) simp_all
      also have "\<dots> = M2 ?x" using x by (simp add: x4 x3)
      also have "\<dots> = M1 ?x" using x by (intro x2) (simp add: entry_def)
      also have "\<dots> = M (off items j + int k)" using x True i n by (simp add: x1 entry_def)
      finally show ?thesis .
    qed
    then show ?thesis
      using ld(2) [of j] True i off_drop_nth(1) [OF i, of j] by (simp add: holds_def nth_drop_nth [OF i])
  next
    case False
    then have j': "Suc j < length items" using j n by simp
    have c: "off items (Suc i) \<le> off items (Suc j)" "off items (Suc j) + item_len (items ! Suc j) \<le> e"
      using off_Suc [OF j'] off_mono [of "Suc i" "Suc j" items] off_mono [of "Suc (Suc j)" n items] False j' n e by simp_all
    have "M6 (off items (Suc j) - isz + int k) = M (off items (Suc j) + int k)" if k: "k < length (enc (items ! Suc j))" for k
    proof -
      let ?x = "off items (Suc j) - isz + int k"
      have x: "off items i - 2 \<le> ?x" "?x < e - isz" "6 + 2 * int n \<le> ?x"
        using c k oi lo(1) [of i] i n by simp_all
      have "M6 ?x = M4 ?x" using x room isz' by (intro x6) simp_all
      also have "\<dots> = M2 (?x + isz)" using x by (simp add: x4 x3)
      also have "\<dots> = M1 (?x + isz)" using x isz' by (intro x2) (simp add: entry_def)
      also have "\<dots> = M (off items (Suc j) + int k)" using x oi isz' by (simp add: x1)
      finally show ?thesis .
    qed
    then show ?thesis
      using ld(2) [OF j'] False off_drop_nth(2) [OF i, of j] isz' by (simp add: holds_def nth_drop_nth [OF i])
  qed
  show "laid_out M6 (drop_nth i items)"
    using entries items ld(3) i n by (auto simp: laid_out_def nth_drop_nth [OF i])
  have "0 \<le> int n - 1" "int n - 1 < 65536" using i n room lo(1) [of n] e by linarith+
  then show "rd16 M6 4 = int n - 1" unfolding M6 rd16_wr16 u16_def by (simp only: mod_pos_pos_trivial power_numeral Num.pow.simps Num.sqr.simps)
  fix j :: nat
  assume j: "j < 35"
  have "rd16 M4 (slot_at j) = rd16 M (slot_at j)"
  proof -
    have "e \<le> slot_at j" using j room by (simp add: slot_at_def)
    then show ?thesis
      using isz' lo(1) [of n] lo(2) [of i] i n e by (intro rd16_cong) (simp_all add: x4 x3 x2 x1 entry_def)
  qed
  then have v: "rd16 M4 (slot_at j) = slot (lut j)" using lut(1) [OF j] by simp
  have "rd16 M6 (slot_at j) = rd16 M5 (slot_at j)"
    using j by (simp add: M6 rd16_wr16_other slot_at_def)
  also have "\<dots> = slot (lut_drop i lut j)"
  proof (cases "lut j")
    case None
    then show ?thesis
      unfolding M5 using j v by (simp add: fold_adjust [OF slot_separate] slot_def lut_drop_def entry_def)
  next
    case (Some k)
    have "u16 (entry k - 2) = entry (k - 1)" if "i < k"
    proof -
      have "k < n" using lut(2) [OF Some] by simp
      then have "0 \<le> entry k - 2" "entry k - 2 < 65536" "entry k - 2 = entry (k - 1)"
        using lo(1) [of n] e room that by (simp_all add: entry_def of_nat_diff)
      then show ?thesis by (simp add: u16_def)
    qed
    then show ?thesis
      unfolding M5 using j v Some
      by (auto simp: fold_adjust [OF slot_separate] slot_def lut_drop_def entry_def u16_def)
  qed
  finally show "rd16 M6 (slot_at j) = slot (lut_drop i lut j)" .
qed

lemma DeleteItemByID_rep:
  assumes rep: "conf_rep s items lut" and i: "lut ident = Some i"
  shows "conf_rep (DeleteItemByID ident s) (drop_nth i items) (lut_drop i lut)"
    "DirtyFlag (DeleteItemByID ident s)" "same_env s (DeleteItemByID ident s)"
    "ItemRestSize (DeleteItemByID ident s) = ItemRestSize s + item_len (items ! i) + 2"
proof -
  note r = conf_repD [OF rep]
  let ?M = "sc_mem s ConfBuf" and ?n = "length items"
  have ident: "ident < 35" "i < ?n" using r(9) [OF i] by simp_all
  have slotM: "rd16 ?M (0x3FFA - 2 * int ident) = entry i" using r(8) [OF ident(1)] i by (simp add: slot_def)
  have slots: "\<And>j. j < 35 \<Longrightarrow> rd16 ?M (slot_at j) = slot (lut j)" using r(8) by (simp add: slot_at_def)
  have luts: "\<And>j k. lut j = Some k \<Longrightarrow> j < 35 \<and> k < ?n" using r(9) by blast
  obtain isz where isz: "isz = rd16 ?M (entry i + 2) - rd16 ?M (entry i) + 2" by blast
  obtain M1 where M1: "M1 = memmove (entry i) (entry i + 2) (rd16 ?M (entry i) - (entry i + 2)) ?M" by blast
  obtain M2 where M2: "M2 = fold (adjust entry (\<lambda>j v. Some (if entry j < entry i then v - 2 else v - isz))) (rev [0..<?n]) M1" by blast
  obtain M3 where M3: "M3 = memmove (rd16 M2 (entry i)) (isz + rd16 M2 (entry i)) (off items ?n - (rd16 M2 (entry i) + isz)) M2" by blast
  obtain M4 where M4: "M4 = memset (off items ?n - isz) 0 isz M3" by blast
  obtain M5 where M5: "M5 = fold (adjust slot_at (\<lambda>j v. if v < entry i then None else if v > entry i then Some (v - 2) else Some 0)) [0..<35] M4" by blast
  obtain M6 where M6: "M6 = wr16 4 (int ?n - 1) M5" by blast
  note mem = delete_memory [OF r(7,6) ident(2) refl refl r(5) slots luts isz M1 M2 M3 M4 M5 M6]
  have eN: "rd16 ?M (entry ?n) = off items ?n" using laid_outD(1) [OF r(7), of ?n] by simp
  have sl: "(\<lambda>j. 0x3FFA - 2 * int j) = slot_at" by (simp add: slot_at_def fun_eq_iff)
  have ne: "entry i \<noteq> 0" "?n \<noteq> 0" using ident by (auto simp: entry_def)
  have len2: "2 \<le> item_len (items ! i)"
    using item_len_pos [OF laid_outD(3) [OF r(7) ident(2)]] by (simp add: length_enc)
  have del: "DeleteItemByID ident s = SCSetDirtyFlag (put_buf ConfBuf M6
      (s\<lparr>ItemRestSize := u32 (ItemRestSize s + isz), ItemNumTotal := ItemNumTotal s - 1\<rparr>))"
    unfolding DeleteItemByID_def Let_def SCGetConfBuf_def r(1,2,3) slotM nat_int eN sl
    unfolding isz [symmetric] M1 [symmetric] unfolding M2 [symmetric]
    unfolding M3 [symmetric] unfolding M4 [symmetric] unfolding M5 [symmetric]
    using ne ident by (simp add: M6 r(1))
  show "DirtyFlag (DeleteItemByID ident s)" "same_env s (DeleteItemByID ident s)"
    by (simp_all add: del SCSetDirtyFlag_def put_buf_def same_env_def)
  have e1: "off items ?n - isz = off (drop_nth i items) (?n - 1)"
    using off_drop_nth(2) [OF ident(2), of "?n - 1"] mem(1) ident(2) Suc_pred' [of ?n] by (cases ?n) auto
  have e0: "0 \<le> off (drop_nth i items) (?n - 1)" using off_mono [of 0 "?n - 1" "drop_nth i items"] by simp
  have rest: "u32 (ItemRestSize s + isz) = ItemRestSize s + isz"
    using r(4,5) e0 e1 mem(1) len2 by (intro u32_id) simp_all
  then show "ItemRestSize (DeleteItemByID ident s) = ItemRestSize s + item_len (items ! i) + 2"
    using mem(1) by (simp add: del SCSetDirtyFlag_def put_buf_def)
  have "is_bytes M6"
    unfolding M6 M5 M4 M3 M2 M1 using r(6)
    by (intro is_bytes_wr16 is_bytes_memset is_bytes_fold_adjust is_bytes_memmove) simp_all
  moreover have "lut_drop i lut j = Some k \<Longrightarrow> j < 35 \<and> k < ?n - 1 \<and> it_name (drop_nth i items ! k) = name_of j" for j k
    using r(9) [of j] ident(2)
    by (auto simp: lut_drop_def nth_drop_nth split: option.splits if_splits)
  moreover have "int ?n - 1 = int (?n - 1)" using ident(2) by simp
  ultimately show "conf_rep (DeleteItemByID ident s) (drop_nth i items) (lut_drop i lut)"
    using mem(2,3,4) r(1-5) rest e1 e0 mem(1) len2 ident
    by (simp add: del conf_rep_def Let_def SCSetDirtyFlag_def put_buf_def SC_ITEM_MAX_def slot_at_def)
qed

lemma conf_rep_irq [simp]: "conf_rep (s\<lparr>irq_enabled := b\<rparr>) items lut = conf_rep s items lut"
  by (simp add: conf_rep_def)

lemma conf_rep_dirty [simp]: "conf_rep (SCSetDirtyFlag s) items lut = conf_rep s items lut"
  by (simp add: conf_rep_def SCSetDirtyFlag_def)

lemma same_name:
  assumes "conf_rep s items lut" "lut j = Some i" "lut k = Some i"
  shows "j = k"
  using conf_repD(9) [OF assms(1) assms(2)] conf_repD(9) [OF assms(1) assms(3)] name_of_inj [of j k] by simp

lemma dict_delete:
  assumes rep: "conf_rep s items lut" and i: "lut ident = Some i"
  shows "dict (drop_nth i items) (lut_drop i lut) = (dict items lut)(ident := None)"
proof
  fix j
  have n: "i < length items" using conf_repD(9) [OF rep i] by simp
  show "dict (drop_nth i items) (lut_drop i lut) j = ((dict items lut)(ident := None)) j"
  proof (cases "lut j")
    case (Some k)
    then have "k = i \<Longrightarrow> j = ident" using same_name [OF rep i, of j] by simp
    then consider "j = ident" "k = i" | "j \<noteq> ident" "k < i" | k' where "j \<noteq> ident" "k = Suc k'" "i \<le> k'"
      using i Some by (cases "j = ident"; cases k; fastforce)
    then show ?thesis
      by cases (use Some in \<open>simp_all add: dict_def lut_drop_def nth_drop_nth [OF n]\<close>)
  next
    case None
    then show ?thesis using i by (simp add: dict_def lut_drop_def)
  qed
qed

lemma dict_create:
  assumes rep: "conf_rep s items lut"
  shows "dict (items @ [it]) (lut(ident \<mapsto> length items)) = (dict items lut)(ident \<mapsto> (it_type it, it_data it))"
proof
  fix j
  show "dict (items @ [it]) (lut(ident \<mapsto> length items)) j = ((dict items lut)(ident \<mapsto> (it_type it, it_data it))) j"
  proof (cases "lut j")
    case (Some k)
    then have "k < length items" using conf_repD(9) [OF rep, of j k] by simp
    then show ?thesis using Some by (simp add: dict_def nth_append)
  qed (simp add: dict_def)
qed

section \<open>Overwriting the data of an item\<close>

definition put_data :: "nat \<Rightarrow> int list \<Rightarrow> sc_item list \<Rightarrow> sc_item list" where
  "put_data i src items = items[i := Item (it_name (items ! i)) (it_type (items ! i)) src]"

lemma put_data_simps [simp]:
  assumes "i < length items" "length src = length (it_data (items ! i))"
  shows "length (put_data i src items) = length items" "off (put_data i src items) j = off items j"
    "it_name (put_data i src items ! k) = it_name (items ! k)" "it_type (put_data i src items ! k) = it_type (items ! k)"
    "put_data i src items ! i = Item (it_name (items ! i)) (it_type (items ! i)) src"
    "k \<noteq> i \<Longrightarrow> put_data i src items ! k = items ! k"
proof -
  have "map item_len (put_data i src items) = map item_len items"
    using assms by (simp add: put_data_def map_update enc_def list_update_same_conv)
  then show "off (put_data i src items) j = off items j"
    by (simp add: off_def put_data_def take_map [symmetric])
  show "length (put_data i src items) = length items" "put_data i src items ! i = Item (it_name (items ! i)) (it_type (items ! i)) src"
    "k \<noteq> i \<Longrightarrow> put_data i src items ! k = items ! k"
    "it_name (put_data i src items ! k) = it_name (items ! k)" "it_type (put_data i src items ! k) = it_type (items ! k)"
    using assms by (cases "k = i"; simp add: put_data_def)+
qed

lemma put_data_layout:
  assumes l: "laid_out M items" and i: "i < length items" and len: "length src = length (it_data (items ! i))"
    and src: "all_bytes src"
  shows "laid_out (memcpy (off items i + data_at (items ! i)) src M) (put_data i src items)"
proof -
  note ld = laid_outD [OF l]
  let ?d = "off items i + data_at (items ! i)"
  let ?M = "memcpy ?d src M"
  have ends: "?d + int (length src) = off items (Suc i)"
    using off_Suc [OF i] length_enc [of "items ! i"] len by simp
  have e: "rd16 ?M (entry j) = off items j" if "j \<le> length items" for j
  proof -
    have "entry j + 1 < ?d" using entries_below [OF that] off_mono [of 0 i items] by (simp add: data_at_def)
    then show ?thesis using ld(1) [OF that] by (simp add: rd16_def memcpy_other)
  qed
  have other: "holds ?M (off items j) (enc (items ! j))" if "j < length items" "j \<noteq> i" for j
  proof -
    have "j < i \<Longrightarrow> off items j + item_len (items ! j) \<le> off items i" "i < j \<Longrightarrow> off items (Suc i) \<le> off items j"
      using off_Suc [OF that(1)] off_mono [of "Suc j" i items] off_mono [of "Suc i" j items] by simp_all
    then have "k < length (enc (items ! j)) \<Longrightarrow> ?M (off items j + int k) = M (off items j + int k)" for k
      using that(2) ends by (intro memcpy_other) (cases "j < i"; simp add: data_at_def)
    then show ?thesis using ld(2) [OF that(1)] by (simp add: holds_def)
  qed
  have here: "holds ?M (off items i) (enc (Item (it_name (items ! i)) (it_type (items ! i)) src))"
  proof -
    let ?p = "(it_type (items ! i) + int (length (it_name (items ! i))) - 1)
      # it_name (items ! i) @ len_bytes (it_type (items ! i)) (int (length (it_data (items ! i))))"
    have p: "enc (items ! i) = ?p @ it_data (items ! i)" "enc (Item (it_name (items ! i)) (it_type (items ! i)) src) = ?p @ src"
      "int (length ?p) = data_at (items ! i)"
      using len by (simp_all add: enc_def data_at_def)
    have "holds M (off items i) ?p" using ld(2) [OF i] by (simp only: p(1) holds_append)
    then have "holds ?M (off items i) ?p" by (simp only: holds_def memcpy_def) (simp add: p(3) [symmetric])
    then show ?thesis using memcpy_holds [of ?d src M] by (simp only: p(2,3) holds_append)
  qed
  have ok: "item_ok (Item (it_name (items ! i)) (it_type (items ! i)) src)"
    using ld(3) [OF i] len src by (simp add: item_ok_def)
  show ?thesis
    unfolding laid_out_def put_data_simps(1,2) [OF i len]
    using e other here ok ld(3) put_data_simps(5,6) [OF i len] by metis
qed

end
