(* ===== verification/ScDict.thy ===== *)
theory ScDict
  imports ScItems
begin

text \<open>
  The settings file as a dictionary: the theorems about \<open>ScConf\<close>'s operations.
\<close>

section \<open>Parsing accepts exactly the well-formed files\<close>

lemma byte_split:
  assumes "0 \<le> x" "x < (256::int)"
  shows "and x 0xE0 + (and x 0x1F + 1) - 1 = x" "and x 0xE0 \<in> {0, 32, 64, 96, 128, 160, 192, 224}"
    "0 \<le> and x 0x1F" "and x 0x1F < 32"
proof -
  have all: "\<forall>k\<in>set [0..<256::nat]. and (int k) 0xE0 + (and (int k) 0x1F + 1) - 1 = int k
      \<and> and (int k) 0xE0 \<in> {0, 32, 64, 96, 128, 160, 192, 224} \<and> 0 \<le> and (int k) 0x1F \<and> and (int k) 0x1F < 32"
    by code_simp
  have "nat x \<in> set [0..<256]" using assms by auto
  from bspec [OF all this] show "and x 0xE0 + (and x 0x1F + 1) - 1 = x" "and x 0xE0 \<in> {0, 32, 64, 96, 128, 160, 192, 224}"
    "0 \<le> and x 0x1F" "and x 0x1F < 32" using assms by simp_all
qed

lemma bytes_of_props:
  assumes "is_bytes M" "0 \<le> n"
  shows "int (length (bytes_of M a n)) = n" "all_bytes (bytes_of M a n)" "holds M a (bytes_of M a n)"
  using assms by (simp_all add: bytes_of_def all_bytes_def is_bytes_def holds_def list_all_length)

lemma UnpackItem_sound:
  assumes M: "is_bytes M" and u: "UnpackItem M a = (True, item)"
  shows "\<exists>it. item_ok it \<and> holds M a (enc it) \<and> si_itemLen item = item_len it"
proof -
  let ?t = "and (M a) 0xE0" and ?nl = "and (M a) 0x1F + 1"
  have Ma: "0 \<le> M a" "M a < 256" using M by (simp_all add: is_bytes_def)
  note sp = byte_split [OF Ma]
  have nl: "1 \<le> ?nl" "?nl \<le> 32" using sp(3,4) by simp_all
  let ?d = "si_data item" and ?n = "si_dataLen item"
  let ?it = "Item (bytes_of M (a + 1) ?nl) ?t (bytes_of M ?d ?n)"
  have byte: "\<And>x. 0 \<le> M x \<and> M x < 256" using M by (simp add: is_bytes_def)
  let ?goal = "len_ok ?t ?n \<and> ?d = a + 1 + ?nl + int (length (len_bytes ?t ?n))
    \<and> si_itemLen item = ?d - a + ?n \<and> holds M (a + 1 + ?nl) (len_bytes ?t ?n)"
  from sp(2) consider "?t = 0" | "?t = 32" | "?t = 64" | "?t \<in> {96, 224}" | "?t = 128" | "?t = 160" | "?t = 192"
    by blast
  then have ?goal
  proof cases
    case 2
    have b: "0 \<le> M (a + 1 + ?nl)" "M (a + 1 + ?nl) < 256" "0 \<le> M (a + 1 + ?nl + 1)" "M (a + 1 + ?nl + 1) < 256"
      using byte by blast+
    have i: "?d = a + 1 + ?nl + 2" "?n = rd16 M (a + 1 + ?nl) + 1" "si_itemLen item = 2 + ?nl + ?n + 1"
      using u by (auto simp: UnpackItem_def Let_def item_types 2 algebra_simps)
    show ?thesis
      unfolding i 2 using b by (simp add: len_ok_def len_bytes_def item_types holds_Cons rd16_def) (simp add: holds_def)
  next
    case 3
    have b: "0 \<le> M (a + 1 + ?nl)" "M (a + 1 + ?nl) < 256" using byte by blast+
    have i: "?d = a + 1 + ?nl + 1" "?n = M (a + 1 + ?nl) + 1" "si_itemLen item = 1 + ?nl + ?n + 1"
      using u by (auto simp: UnpackItem_def Let_def item_types 3 algebra_simps)
    show ?thesis
      unfolding i 3 using b by (simp add: len_ok_def len_bytes_def item_types holds_Cons u8_def) (simp add: holds_def)
  qed (use u in \<open>auto simp: UnpackItem_def Let_def item_types len_ok_def len_bytes_def holds_def\<close>)
  then have len: "len_ok ?t ?n" and d: "?d = a + 1 + ?nl + int (length (len_bytes ?t ?n))"
    and il: "si_itemLen item = ?d - a + ?n" and lb: "holds M (a + 1 + ?nl) (len_bytes ?t ?n)" by blast+
  have n0: "0 \<le> ?n" using len by (auto simp: len_ok_def)
  have lens: "int (length (bytes_of M (a + 1) ?nl)) = ?nl" "int (length (bytes_of M ?d ?n)) = ?n"
    using bytes_of_props(1) [OF M] nl n0 by simp_all
  have "1 \<le> length (bytes_of M (a + 1) ?nl)" "length (bytes_of M (a + 1) ?nl) \<le> 32" using lens(1) nl by linarith+
  then have "item_ok ?it"
    using len lens bytes_of_props(2) [OF M] n0 by (simp add: item_ok_def)
  moreover have "holds M a (enc ?it)"
    using lens lb sp(1) bytes_of_props(3) [OF M, of ?nl] bytes_of_props(3) [OF M n0] nl d
    by (simp add: enc_def holds_Cons holds_append add.assoc)
  moreover have "si_itemLen item = item_len ?it"
    using il d lens by (simp add: enc_def)
  ultimately show ?thesis by blast
qed

definition run_of :: "bytes \<Rightarrow> nat \<Rightarrow> int \<Rightarrow> sc_item list \<Rightarrow> bool" where
  "run_of M i ofs its \<longleftrightarrow> (\<forall>j<length its.
     rd16 M (entry (i + j)) = ofs + sum_list (map item_len (take j its))
     \<and> holds M (ofs + sum_list (map item_len (take j its))) (enc (its ! j)) \<and> item_ok (its ! j))"

lemma run_of_Cons:
  "run_of M i ofs (it # its) \<longleftrightarrow> rd16 M (entry i) = ofs \<and> holds M ofs (enc it) \<and> item_ok it
     \<and> run_of M (Suc i) (ofs + item_len it) its"
proof -
  have len: "length (it # its) = Suc (length its)" by simp
  show ?thesis unfolding run_of_def len All_less_Suc2 by (simp add: add.assoc)
qed

lemma check_items_sound:
  assumes M: "is_bytes M"
  shows "check_items M sz i k ofs = Some e \<Longrightarrow>
    \<exists>its. length its = k \<and> run_of M i ofs its \<and> e = ofs + sum_list (map item_len its)"
proof (induction k arbitrary: i ofs)
  case 0
  then show ?case by (simp add: run_of_def)
next
  case (Suc k)
  obtain item where item: "UnpackItem M ofs = (True, item)" "rd16 M (entry i) = ofs"
    "check_items M sz (Suc i) k (ofs + si_itemLen item) = Some e"
  proof (cases "UnpackItem M ofs")
    case (Pair b item)
    then show thesis using Suc.prems that by (cases b) (simp_all split: if_splits)
  qed
  obtain it where it: "item_ok it" "holds M ofs (enc it)" "si_itemLen item = item_len it"
    using UnpackItem_sound [OF M item(1)] by blast
  obtain its where "length its = k" "run_of M (Suc i) (ofs + item_len it) its"
    "e = ofs + item_len it + sum_list (map item_len its)"
    using Suc.IH item(3) it(3) by auto
  then show ?case using it item(2) by (intro exI [of _ "it # its"]) (simp add: run_of_Cons)
qed

lemma check_items_complete:
  "run_of M i ofs its \<Longrightarrow> ofs + sum_list (map item_len its) \<le> sz \<Longrightarrow> entry (i + length its) \<le> sz
   \<Longrightarrow> check_items M sz i (length its) ofs = Some (ofs + sum_list (map item_len its))"
proof (induction its arbitrary: i ofs)
  case (Cons it its)
  have it: "rd16 M (entry i) = ofs" "holds M ofs (enc it)" "item_ok it" "run_of M (Suc i) (ofs + item_len it) its"
    using Cons.prems(1) by (simp_all add: run_of_Cons)
  have pos: "0 \<le> sum_list (map item_len its)" by (rule sum_list_nonneg) auto
  have c: "ofs \<le> sz" "entry i \<le> sz"
    using Cons.prems(2,3) pos by (simp_all add: entry_def)
  obtain item where "UnpackItem M ofs = (True, item)" "si_itemLen item = item_len it"
    using UnpackItem_enc [OF it(2,3)] by blast
  then show ?case
    using Cons.IH [OF it(4)] Cons.prems(2,3) it(1) c by (simp add: add.assoc)
qed simp

lemma laid_out_run:
  "laid_out M items \<longleftrightarrow> run_of M 0 (off items 0) items \<and> rd16 M (entry (length items)) = off items (length items)"
proof -
  have "off items j = off items 0 + sum_list (map item_len (take j items))" for j by (simp add: off_def)
  then show ?thesis by (auto simp: laid_out_def run_of_def le_less)
qed

text \<open>The first item with the name of an ID.\<close>

definition lut_of :: "sc_item list \<Rightarrow> nat \<Rightarrow> nat option" where
  "lut_of items ident =
     (if ident < SC_ITEM_MAX then find (\<lambda>i. it_name (items ! i) = name_of ident) [0..<length items] else None)"

lemma names_item_rep:
  assumes l: "laid_out M items" and i: "i < length items"
  shows "names_item M name i \<longleftrightarrow> it_name (items ! i) = name"
proof -
  note ld = laid_outD [OF l]
  have r: "rd16 M (entry i) = off items i" using ld(1) i by simp
  have d: "and (M (off items i)) 0x1F + 1 = int (length (it_name (items ! i)))"
    using enc_parts(1) [OF ld(2) [OF i]] enc_desc(2) [OF ld(3) [OF i]] by simp
  have n: "bytes_of M (off items i + 1) (int (length (it_name (items ! i)))) = it_name (items ! i)"
    by (rule bytes_of_holds [OF enc_parts(2) [OF ld(2) [OF i]]])
  show ?thesis
  proof
    assume "names_item M name i"
    then have "length name = length (it_name (items ! i)) \<and> bytes_of M (off items i + 1) (int (length name)) = name"
      unfolding names_item_def Let_def r d of_nat_eq_iff .
    then show "it_name (items ! i) = name" using n by metis
  next
    assume "it_name (items ! i) = name"
    then show "names_item M name i" using n by (auto simp: names_item_def Let_def r d)
  qed
qed

lemma find_cong: "(\<And>x. x \<in> set xs \<Longrightarrow> P x = Q x) \<Longrightarrow> find P xs = find Q xs"
  by (induction xs) simp_all

lemma find_range: "find P [0..<n] = Some i \<Longrightarrow> i < n \<and> P i"
  by (auto simp: find_Some_iff)

lemma laid_out_cong:
  assumes "laid_out M items" "\<And>x. 5 < x \<Longrightarrow> x < off items (length items) \<Longrightarrow> N x = M x"
  shows "laid_out N items"
proof -
  note ld = laid_outD [OF assms(1)]
  let ?e = "off items (length items)"
  have e0: "8 + 2 * int (length items) \<le> ?e" using off_mono [of 0 "length items" items] by simp
  have "rd16 N (entry i) = off items i" if "i \<le> length items" for i
    using ld(1) [OF that] that e0 assms(2) [of "entry i"] assms(2) [of "entry i + 1"] by (simp add: rd16_def entry_def)
  moreover have "holds N (off items i) (enc (items ! i))" if i: "i < length items" for i
  proof -
    have "8 + 2 * int (length items) \<le> off items i" "off items i + item_len (items ! i) \<le> ?e"
      using off_mono [of 0 i items] off_mono [of "Suc i" "length items" items] off_Suc [OF i] i by simp_all
    then show ?thesis using ld(2) [OF i] assms(2) by (simp add: holds_def)
  qed
  ultimately show ?thesis using ld(3) by (simp add: laid_out_def)
qed

lemma enter_item_step:
  assumes l: "laid_out M items" and b: "is_bytes M" and ident: "ident < 35" and room: "off items (length items) \<le> 0x3FB6"
  shows "enter_item 0x3FFA (length items) (name_of ident, ident) M =
    (case lut_of items ident of None \<Rightarrow> M | Some i \<Rightarrow> wr16 (slot_at ident) (entry i) M)"
proof -
  have "find (names_item M (name_of ident)) [0..<length items] = lut_of items ident"
    using ident by (simp add: lut_of_def SC_ITEM_MAX_def) (rule find_cong, simp add: names_item_rep [OF l])
  then show ?thesis by (simp add: enter_item_def slot_at_def split: option.split)
qed

definition enter_slots :: "sc_item list \<Rightarrow> nat list \<Rightarrow> bytes \<Rightarrow> bytes" where
  "enter_slots items = fold (adjust slot_at (\<lambda>j v. map_option entry (lut_of items j)))"

lemma enter_items:
  assumes "off items (length items) \<le> 0x3FB6" "set js \<subseteq> {..<35}"
  shows "laid_out M items \<Longrightarrow> is_bytes M \<Longrightarrow>
    fold (enter_item 0x3FFA (length items)) (map (\<lambda>j. (name_of j, j)) js) M = enter_slots items js M"
  using assms(2)
proof (induction js arbitrary: M)
  case (Cons j js)
  have j: "j < 35" "set js \<subseteq> {..<35}" using Cons.prems(3) by auto
  have step: "enter_item 0x3FFA (length items) (name_of j, j) M = adjust slot_at (\<lambda>j v. map_option entry (lut_of items j)) j M"
    by (simp add: enter_item_step [OF Cons.prems(1,2) j(1) assms(1)] adjust_def split: option.split)
  have "laid_out (adjust slot_at (\<lambda>j v. map_option entry (lut_of items j)) j M) items"
    using j(1) assms(1) by (intro laid_out_cong [OF Cons.prems(1)] adjust_other) (simp add: slot_at_def)
  then show ?case
    using Cons.IH [OF _ is_bytes_adjust [OF Cons.prems(2)] j(2)] by (simp add: step enter_slots_def)
qed (simp add: enter_slots_def)

definition all_ids :: "nat list" where
  "all_ids = [0..<SC_ITEM_MAX]"

lemma all_ids [simp]: "set all_ids = {..<35}" "distinct all_ids"
  by (auto simp only: all_ids_def SC_ITEM_MAX_def set_upt distinct_upt atLeast0LessThan)

lemma NameAndIDTbl_map: "take 35 NameAndIDTbl = map (\<lambda>j. (name_of j, j)) all_ids"
  by code_simp

lemma slots_entered:
  assumes "j < 35" "length items < 0x4000"
  shows "rd16 (enter_slots items all_ids M) (slot_at j) =
    (case lut_of items j of None \<Rightarrow> rd16 M (slot_at j) | Some i \<Rightarrow> entry i)"
proof (cases "lut_of items j")
  case (Some i)
  then have "i < length items" using find_range by (auto simp: lut_of_def split: if_splits)
  then have "u16 (entry i) = entry i" using assms(2) by (intro u16_id) (simp_all add: entry_def)
  then show ?thesis using assms(1) Some by (simp add: enter_slots_def fold_adjust [OF slot_separate])
qed (use assms in \<open>simp add: enter_slots_def fold_adjust [OF slot_separate]\<close>)

lemma ParseGetBEValue_16:
  assumes "is_bytes M" "a + 2 \<le> stop"
  shows "ParseGetBEValue M a stop 2 = Some (rd16 M a)"
proof -
  have b: "0 \<le> M a" "M a < 256" using assms(1) by (simp_all add: is_bytes_def)
  have "bytes_of M a 2 = [M a, M (a + 1)]" by (simp add: bytes_of_def numeral_2_eq_2)
  then show ?thesis using b assms(2) by (simp add: ParseGetBEValue_def rd16_def u32_def)
qed

lemma check_items_iff:
  assumes b: "is_bytes M" and n: "0 \<le> n" "n < 65536"
  shows "(\<exists>e. check_items M 0x4000 0 (nat n) (entry (nat n + 1)) = Some e \<and> e = rd16 M (entry (nat n)) \<and> e \<le> 0x3FB8)
    \<longleftrightarrow> (\<exists>items. laid_out M items \<and> int (length items) = n \<and> off items (length items) \<le> 0x3FB8)"
proof
  assume "\<exists>e. check_items M 0x4000 0 (nat n) (entry (nat n + 1)) = Some e \<and> e = rd16 M (entry (nat n)) \<and> e \<le> 0x3FB8"
  then obtain e where e: "check_items M 0x4000 0 (nat n) (entry (nat n + 1)) = Some e" "e = rd16 M (entry (nat n))" "e \<le> 0x3FB8"
    by blast
  obtain its where its: "length its = nat n" "run_of M 0 (entry (nat n + 1)) its" "e = entry (nat n + 1) + sum_list (map item_len its)"
    using check_items_sound [OF b e(1)] by blast
  have o: "off its 0 = entry (nat n + 1)" "off its (length its) = e" using its by (simp_all add: off_def entry_def)
  have "laid_out M its" unfolding laid_out_run o(1) using its(1,2) o(2) e(2) by simp
  then show "\<exists>items. laid_out M items \<and> int (length items) = n \<and> off items (length items) \<le> 0x3FB8"
    using its(1) n(1) o(2) e(3) by (intro exI [of _ its]) simp
next
  assume "\<exists>items. laid_out M items \<and> int (length items) = n \<and> off items (length items) \<le> 0x3FB8"
  then obtain items where items: "laid_out M items" "int (length items) = n" "off items (length items) \<le> 0x3FB8" by blast
  have n': "nat n = length items" using items(2) by auto
  have o: "off items 0 = entry (nat n + 1)" "off items (length items) = entry (nat n + 1) + sum_list (map item_len items)"
    by (simp_all add: off_def entry_def n')
  have "0 \<le> sum_list (map item_len items)" by (rule sum_list_nonneg) auto
  then have "entry (0 + length items) \<le> 0x4000" "entry (nat n + 1) + sum_list (map item_len items) \<le> 0x4000"
    using o items(3) by (simp_all add: entry_def n')
  then have "check_items M 0x4000 0 (length items) (entry (nat n + 1)) = Some (off items (length items))"
    using check_items_complete [of M 0 "entry (nat n + 1)" items "0x4000"] items(1) o by (simp add: laid_out_run)
  then show "\<exists>e. check_items M 0x4000 0 (nat n) (entry (nat n + 1)) = Some e \<and> e = rd16 M (entry (nat n)) \<and> e \<le> 0x3FB8"
    using items laid_outD(1) [OF items(1), of "length items"] n' by simp
qed

lemma parse_items_result:
  assumes b: "is_bytes M"
  shows "(\<exists>r. snd (parse_items M 0x4000 0x3FFC 35) = Some r)
      \<longleftrightarrow> (\<exists>items. laid_out M items \<and> int (length items) = rd16 M 4 \<and> off items (length items) \<le> 0x3FB8)"
    "laid_out M items \<Longrightarrow> int (length items) = rd16 M 4 \<Longrightarrow> off items (length items) \<le> 0x3FB6 \<Longrightarrow>
      parse_items M 0x4000 0x3FFC 35 = (enter_slots items all_ids (memset 0x3FB8 0 68 M),
        Some (0x3FFA, int (length items), 0x3FB8 - off items (length items)))"
proof -
  have n: "0 \<le> rd16 M 4" "rd16 M 4 < 65536" using rd16_range [OF b] by simp_all
  have num: "ParseGetBEValue M 4 0x3FFC 2 = Some (rd16 M 4)" by (rule ParseGetBEValue_16 [OF b]) simp
  let ?c = "check_items M 0x4000 0 (nat (rd16 M 4)) (entry (nat (rd16 M 4) + 1))"
  have "(\<exists>r. snd (parse_items M 0x4000 0x3FFC 35) = Some r) \<longleftrightarrow>
    (\<exists>e. ?c = Some e \<and> e = rd16 M (entry (nat (rd16 M 4))) \<and> e \<le> 0x3FB8)"
    by (auto simp: parse_items_def num Let_def SC_ITEM_MAX_def split: option.splits)
  then show "(\<exists>r. snd (parse_items M 0x4000 0x3FFC 35) = Some r)
      \<longleftrightarrow> (\<exists>items. laid_out M items \<and> int (length items) = rd16 M 4 \<and> off items (length items) \<le> 0x3FB8)"
    unfolding check_items_iff [OF b n] .
  assume items: "laid_out M items" "int (length items) = rd16 M 4" "off items (length items) \<le> 0x3FB6"
  have n': "nat (rd16 M 4) = length items" using items(2) by linarith
  have o: "off items 0 = entry (length items + 1)" "off items (length items) = entry (length items + 1) + sum_list (map item_len items)"
    by (simp_all add: off_def entry_def)
  have pos: "0 \<le> sum_list (map item_len items)" by (rule sum_list_nonneg) auto
  have c: "?c = Some (off items (length items))"
  proof -
    have "entry (0 + length items) \<le> 0x4000" "entry (length items + 1) + sum_list (map item_len items) \<le> 0x4000"
      using o items(3) pos by (simp_all add: entry_def)
    then show ?thesis
      using check_items_complete [of M 0 "entry (length items + 1)" items "0x4000"] items(1) o by (simp add: laid_out_run n')
  qed
  have e: "rd16 M (entry (length items)) = off items (length items)" using laid_outD(1) [OF items(1)] by simp
  have "laid_out (memset 0x3FB8 0 68 M) items"
    using items(3) by (intro laid_out_cong [OF items(1)]) (simp add: memset_def)
  then have f: "fold (enter_item 0x3FFA (length items)) (take 35 NameAndIDTbl) (memset 0x3FB8 0 68 M)
      = enter_slots items all_ids (memset 0x3FB8 0 68 M)"
    using enter_items [OF items(3), of all_ids "memset 0x3FB8 0 68 M"] is_bytes_memset [OF b, of 0]
    by (simp add: NameAndIDTbl_map)
  show "parse_items M 0x4000 0x3FFC 35 = (enter_slots items all_ids (memset 0x3FB8 0 68 M),
      Some (0x3FFA, int (length items), 0x3FB8 - off items (length items)))"
    unfolding parse_items_def num option.case c
    using items(3) e f by (simp add: Let_def SC_ITEM_MAX_def n' items(2) [symmetric])
qed

definition well_formed :: "bytes \<Rightarrow> sc_item list \<Rightarrow> bool" where
  "well_formed M items \<longleftrightarrow> holds M 0 SC_CONF_BEGIN_MAGIC \<and> holds M 0x3FFC SC_CONF_END_MAGIC
     \<and> laid_out M items \<and> rd16 M 4 = int (length items) \<and> off items (length items) \<le> 0x3FB8"

lemma magic_iff:
  "length xs = 4 \<Longrightarrow> bytes_of M a 4 = xs \<longleftrightarrow> holds M a xs"
  using bytes_of_holds [of M a xs] holds_bytes_of [of M a xs] by auto

lemma is_bytes_enter_slots [intro]: "is_bytes M \<Longrightarrow> is_bytes (enter_slots items js M)"
  by (auto simp: enter_slots_def)

lemma parse_loaded:
  assumes b: "is_bytes M" and w: "well_formed M items" and room: "off items (length items) \<le> 0x3FB6"
    and last: "lut_of items 34 = None \<longrightarrow> rd16 M (slot_at 34) = 0"
    and s': "s' = (put_buf ConfBuf (enter_slots items all_ids (memset 0x3FB8 0 68 M)) s)
      \<lparr>ItemIDOffsetTblOffset := 0x3FFA, ItemNumTotal := int (length items), ItemRestSize := 0x3FB8 - off items (length items),
       ItemIDMaxPlus1 := SC_ITEM_MAX\<rparr>"
  shows "conf_rep s' items (lut_of items)"
proof -
  let ?N = "memset 0x3FB8 0 68 M" and ?M' = "enter_slots items all_ids (memset 0x3FB8 0 68 M)"
  have e0: "8 + 2 * int (length items) \<le> off items (length items)" using off_mono [of 0 "length items" items] by simp
  have same: "?M' x = M x" if "x < 0x3FB6" for x
  proof -
    have "?M' x = ?N x" unfolding enter_slots_def
      by (rule fold_adjust_other) (use that in \<open>auto simp: slot_at_def\<close>)
    then show ?thesis using that by (simp add: memset_def)
  qed
  have "rd16 ?M' (slot_at j) = slot (lut_of items j)" if j: "j < 35" for j
  proof -
    have "rd16 ?N (slot_at j) = 0" if "lut_of items j = None"
    proof (cases "j = 34")
      case True
      then show ?thesis using last that by (simp add: slot_at_def rd16_def memset_def)
    next
      case False
      then show ?thesis using j by (simp add: slot_at_def rd16_def memset_def)
    qed
    then show ?thesis using slots_entered [OF j, of items ?N] e0 room
      by (simp add: slot_def split: option.split)
  qed
  moreover have "laid_out ?M' items"
  proof (rule laid_out_cong)
    show "laid_out M items" using w by (simp add: well_formed_def)
    show "?M' x = M x" if "x < off items (length items)" for x using that room by (intro same) simp
  qed
  moreover have "is_bytes ?M'" using b by (intro is_bytes_enter_slots is_bytes_memset) simp_all
  moreover have "rd16 ?M' 4 = int (length items)" using w same [of 4] same [of 5] by (simp add: rd16_def well_formed_def)
  moreover have "lut_of items j = Some i \<Longrightarrow> j < 35 \<and> i < length items \<and> it_name (items ! i) = name_of j" for j i
    using find_range [of "\<lambda>i. it_name (items ! i) = name_of j" "length items" i]
    by (simp add: lut_of_def SC_ITEM_MAX_def split: if_splits)
  ultimately show ?thesis
    using room unfolding s' by (simp add: conf_rep_def put_buf_def Let_def SC_ITEM_MAX_def slot_at_def)
qed

text \<open>C30. A file of full size is accepted exactly when it consists of the two magics and of
  well-formed items one behind the other, with their offsets in the table.  It is then
  represented as those items, and each ID stands for the first item that has its name.  The
  slot of the last ID lies below the part of the table that the parser clears, so it has to be
  clear in the file, and the items have to end below it.\<close>

theorem ParseConfBuf_accepts:
  assumes b: "is_bytes (sc_mem s ConfBuf)"
  shows "(fst (ParseConfBuf ConfBuf SCGetConfBufSize s) \<longleftrightarrow> (\<exists>items. well_formed (sc_mem s ConfBuf) items))
    \<and> (\<forall>items. well_formed (sc_mem s ConfBuf) items \<and> off items (length items) \<le> slot_at (SC_ITEM_MAX - 1)
          \<and> (lut_of items (SC_ITEM_MAX - 1) = None \<longrightarrow> rd16 (sc_mem s ConfBuf) (slot_at (SC_ITEM_MAX - 1)) = 0)
        \<longrightarrow> conf_rep (snd (ParseConfBuf ConfBuf SCGetConfBufSize s)) items (lut_of items))"
proof (intro conjI allI impI)
  let ?M = "sc_mem s ConfBuf"
  have mag: "length SC_CONF_BEGIN_MAGIC = 4" "length SC_CONF_END_MAGIC = 4"
    by (simp_all add: SC_CONF_BEGIN_MAGIC_def SC_CONF_END_MAGIC_def ascii_def)
  let ?s = "s\<lparr>ItemIDMaxPlus1 := 35\<rparr>"
  have parse: "ParseConfBuf ConfBuf SCGetConfBufSize s =
    (if \<not> (holds ?M 0 SC_CONF_BEGIN_MAGIC \<and> holds ?M 0x3FFC SC_CONF_END_MAGIC) then (False, ?s)
     else case parse_items ?M 0x4000 0x3FFC 35 of
       (N, None) \<Rightarrow> (False, put_buf ConfBuf N ?s)
     | (N, Some (lut, num, rest)) \<Rightarrow> (True, (put_buf ConfBuf N ?s)\<lparr>ItemIDOffsetTblOffset := lut, ItemNumTotal := num, ItemRestSize := rest\<rparr>))"
    by (simp add: ParseConfBuf_def SCGetConfBufSize_def SC_CONF_MAX_SIZE_def SC_CONF_MIN_SIZE_def Let_def
        magic_iff mag SC_ITEM_MAX_def)
  show "fst (ParseConfBuf ConfBuf SCGetConfBufSize s) \<longleftrightarrow> (\<exists>items. well_formed ?M items)"
    using parse_items_result(1) [OF b] unfolding parse
    by (cases "parse_items ?M 0x4000 0x3FFC 35"; cases "snd (parse_items ?M 0x4000 0x3FFC 35)")
       (auto simp: well_formed_def)
  fix items
  assume "well_formed ?M items \<and> off items (length items) \<le> slot_at (SC_ITEM_MAX - 1)
    \<and> (lut_of items (SC_ITEM_MAX - 1) = None \<longrightarrow> rd16 ?M (slot_at (SC_ITEM_MAX - 1)) = 0)"
  then have w: "well_formed ?M items" and room: "off items (length items) \<le> slot_at (SC_ITEM_MAX - 1)"
    and last: "lut_of items (SC_ITEM_MAX - 1) = None \<longrightarrow> rd16 ?M (slot_at (SC_ITEM_MAX - 1)) = 0" by blast+
  have r: "off items (length items) \<le> 0x3FB6" using room by (simp add: slot_at_def SC_ITEM_MAX_def)
  have p: "parse_items ?M 0x4000 0x3FFC 35 = (enter_slots items all_ids (memset 0x3FB8 0 68 ?M),
      Some (0x3FFA, int (length items), 0x3FB8 - off items (length items)))"
    using w by (intro parse_items_result(2) [OF b _ _ r]) (simp_all add: well_formed_def)
  have l: "lut_of items 34 = None \<longrightarrow> rd16 ?M (slot_at 34) = 0" using last by (simp add: SC_ITEM_MAX_def)
  show "conf_rep (snd (ParseConfBuf ConfBuf SCGetConfBufSize s)) items (lut_of items)"
    using w by (intro parse_loaded [OF b w r l, of _ s]) (simp add: parse p well_formed_def put_buf_def SC_ITEM_MAX_def)
qed

section \<open>Lookup and replacement\<close>

lemma irq_restored [simp]: "s\<lparr>irq_enabled := False\<rparr>\<lparr>irq_enabled := irq_enabled s\<rparr> = s"
  by simp

lemma FindItemByID_irq [simp]: "FindItemByID ident (s\<lparr>irq_enabled := b\<rparr>) = FindItemByID ident s"
  by (simp add: FindItemByID_def Let_def)

lemma FindItemByID_dict:
  assumes rep: "conf_rep s items lut"
  shows "case dict items lut ident of None \<Rightarrow> FindItemByID ident s = None
    | Some (t, d) \<Rightarrow> \<exists>item. FindItemByID ident s = Some item \<and> si_dataLen item = int (length d)
        \<and> si_arrayType item = (if is_array t then SC_ITEM_SMALLARRAY else 0)
        \<and> si_primType item = (if is_array t then 0 else t)
        \<and> bytes_of (sc_mem s ConfBuf) (si_data item) (int (length d)) = d"
proof (cases "lut ident")
  case None
  then show ?thesis using FindItemByID_rep [OF rep, of ident] by (simp add: dict_def)
next
  case (Some i)
  then obtain item where "FindItemByID ident s = Some item"
      "si_dataLen item = int (length (it_data (items ! i)))"
      "si_arrayType item = (if is_array (it_type (items ! i)) then SC_ITEM_SMALLARRAY else 0)"
      "si_primType item = (if is_array (it_type (items ! i)) then 0 else it_type (items ! i))"
      "holds (sc_mem s ConfBuf) (si_data item) (it_data (items ! i))"
    using FindItemByID_rep [OF rep, of ident] by auto
  then show ?thesis using Some bytes_of_holds by (simp add: dict_def)
qed

lemma SCFindByteArrayItem_dict:
  assumes rep: "conf_rep s items lut"
  shows "SCFindByteArrayItem (Some old) len ident s =
    (case dict items lut ident of
       None \<Rightarrow> (False, Some old, s)
     | Some (t, d) \<Rightarrow> if is_array t \<and> int (length d) = len then (True, Some (d @ drop (length d) old), s)
                    else (False, Some old, s))"
proof (cases "dict items lut ident")
  case None
  then show ?thesis
    using FindItemByID_dict [OF rep, of ident]
    by (simp add: SCFindByteArrayItem_def OSDisableInterrupts_def OSRestoreInterrupts_def)
next
  case (Some v)
  obtain t d where v: "v = (t, d)" by (cases v)
  obtain item where item: "FindItemByID ident s = Some item" "si_dataLen item = int (length d)"
    "si_arrayType item = (if is_array t then SC_ITEM_SMALLARRAY else 0)"
    "bytes_of (sc_mem s ConfBuf) (si_data item) (int (length d)) = d"
    using FindItemByID_dict [OF rep, of ident] Some v by auto
  have "si_arrayType item \<noteq> 0 \<longleftrightarrow> is_array t" using item(3) by (simp add: item_types)
  then show ?thesis
    using item(1,2,4) Some v
    by (auto simp: SCFindByteArrayItem_def OSDisableInterrupts_def OSRestoreInterrupts_def SCGetConfBuf_def)
qed

lemma SCFindIntegerItem_dict:
  assumes rep: "conf_rep s items lut" and t: "primType \<noteq> 0" "\<not> is_array primType"
  shows "SCFindIntegerItem old ident primType s =
    (case dict items lut ident of
       None \<Rightarrow> (False, old, s)
     | Some (t, d) \<Rightarrow> if t = primType then (True, d @ drop (length d) old, s) else (False, old, s))"
proof (cases "dict items lut ident")
  case None
  then show ?thesis
    using FindItemByID_dict [OF rep, of ident]
    by (simp add: SCFindIntegerItem_def OSDisableInterrupts_def OSRestoreInterrupts_def)
next
  case (Some v)
  obtain t' d where v: "v = (t', d)" by (cases v)
  obtain item where item: "FindItemByID ident s = Some item" "si_dataLen item = int (length d)"
    "si_primType item = (if is_array t' then 0 else t')"
    "bytes_of (sc_mem s ConfBuf) (si_data item) (int (length d)) = d"
    using FindItemByID_dict [OF rep, of ident] Some v by auto
  have "si_primType item = primType \<longleftrightarrow> t' = primType" using item(3) t by auto
  then show ?thesis
    using item(1,2,4) Some v
    by (auto simp: SCFindIntegerItem_def OSDisableInterrupts_def OSRestoreInterrupts_def SCGetConfBuf_def)
qed

lemma overwrite_item_rep:
  assumes rep: "conf_rep s items lut" and i: "lut ident = Some i"
    and item: "si_data item = off items i + data_at (items ! i)" "si_dataLen item = int (length (it_data (items ! i)))"
      "holds (sc_mem s ConfBuf) (si_data item) (it_data (items ! i))"
    and src: "length src = length (it_data (items ! i))" "all_bytes src"
  shows "conf_rep (overwrite_item item src s) (put_data i src items) lut"
    "dict (put_data i src items) lut = (dict items lut)(ident \<mapsto> (it_type (items ! i), src))"
    "same_env s (overwrite_item item src s)"
proof -
  note r = conf_repD [OF rep]
  let ?M = "sc_mem s ConfBuf" and ?M' = "memcpy (off items i + data_at (items ! i)) src (sc_mem s ConfBuf)"
  have n: "i < length items" using r(9) [OF i] by simp
  note pd = put_data_simps [OF n src(1)]
  have now: "bytes_of ?M (si_data item) (si_dataLen item) = it_data (items ! i)"
    using bytes_of_holds [OF item(3)] item(2) by simp
  have ow: "overwrite_item item src s =
      (if it_data (items ! i) \<noteq> src then SCSetDirtyFlag (put_buf ConfBuf ?M' s) else s)"
    unfolding overwrite_item_def Let_def SCGetConfBuf_def now using src(1) item(1,2) by simp
  show "same_env s (overwrite_item item src s)"
    by (simp add: ow same_env_def SCSetDirtyFlag_def put_buf_def)
  show "dict (put_data i src items) lut = (dict items lut)(ident \<mapsto> (it_type (items ! i), src))"
  proof
    fix j
    show "dict (put_data i src items) lut j = ((dict items lut)(ident \<mapsto> (it_type (items ! i), src))) j"
    proof (cases "j = ident")
      case False
      then have "lut j \<noteq> Some i" using same_name [OF rep _ i, of j] by auto
      then show ?thesis using False pd(6) by (cases "lut j") (auto simp: dict_def)
    qed (simp add: dict_def i pd(5))
  qed
  have ends: "off items i + data_at (items ! i) + int (length src) \<le> off items (length items)" "8 + 2 * int (length items) \<le> off items i"
    using off_Suc [OF n] length_enc [of "items ! i"] src(1) off_mono [of "Suc i" "length items" items] off_mono [of 0 i items] n
    by simp_all
  have mem: "laid_out ?M' (put_data i src items)" by (rule put_data_layout [OF r(7) n src])
  have slots: "rd16 ?M' (slot_at j) = slot (lut j)" if j: "j < 35" for j
  proof -
    have "off items (length items) \<le> slot_at j" using r(5) j by (simp add: slot_at_def)
    then have "rd16 ?M' (slot_at j) = rd16 ?M (slot_at j)"
      using ends by (intro rd16_cong memcpy_other) simp_all
    then show ?thesis using r(8) [OF j] by (simp add: slot_at_def)
  qed
  have num: "rd16 ?M' 4 = int (length items)"
    using ends r(10) by (simp add: rd16_def memcpy_other data_at_def)
  have new: "conf_rep (put_buf ConfBuf ?M' s) (put_data i src items) lut"
    using r mem slots num is_bytes_memcpy [OF r(6), of src] src(2) pd(1-4)
    by (simp add: conf_rep_def Let_def put_buf_def all_bytes_def SC_ITEM_MAX_def slot_at_def)
  have "src = it_data (items ! i) \<Longrightarrow> put_data i src items = items"
    by (simp add: put_data_def)
  then show "conf_rep (overwrite_item item src s) (put_data i src items) lut"
    using new rep by (cases "it_data (items ! i) = src") (simp_all add: ow)
qed

definition freed :: "sc_item list \<Rightarrow> (nat \<Rightarrow> nat option) \<Rightarrow> nat \<Rightarrow> int" where
  "freed items lut ident = (case lut ident of None \<Rightarrow> 0 | Some i \<Rightarrow> item_len (items ! i) + 2)"

lemma CreateItemByID_full:
  assumes "wants primType len src" "ident < 35" "ItemRestSize s < item_len (new_item ident primType src) + 2"
  shows "CreateItemByID ident primType (Some src) len s = (False, s)"
  using assms(3) by (simp add: CreateItemByID_def Let_def find_name [OF assms(2)] new_item_ok(2) [OF assms(1,2)])

text \<open>What \<open>Replace\<close> does when it cannot overwrite: it deletes the item, if there is one,
  and creates a new one; \<open>s1\<close> is the state between the two.\<close>

lemma delete_create:
  assumes rep: "conf_rep s items lut" and ident: "ident < 35" and w: "wants primType len src"
    and s1: "s1 = (if lut ident = None then s else DeleteItemByID ident s)"
  shows "item_len (new_item ident primType src) + 4 \<le> ItemRestSize s + freed items lut ident \<Longrightarrow>
      \<exists>s' items' lut'. CreateItemByID ident primType (Some src) len s1 = (True, s') \<and> conf_rep s' items' lut'
        \<and> dict items' lut' = (dict items lut)(ident \<mapsto> (stored_type primType (int (length src)), src)) \<and> same_env s s'"
    "ItemRestSize s + freed items lut ident < item_len (new_item ident primType src) + 2 \<Longrightarrow>
      \<exists>items' lut'. CreateItemByID ident primType (Some src) len s1 = (False, s1) \<and> conf_rep s1 items' lut'
        \<and> dict items' lut' = (dict items lut)(ident := None) \<and> same_env s s1"
proof -
  have "\<exists>items1 lut1. conf_rep s1 items1 lut1 \<and> dict items1 lut1 = (dict items lut)(ident := None)
      \<and> ItemRestSize s1 = ItemRestSize s + freed items lut ident \<and> same_env s s1"
  proof (cases "lut ident")
    case None
    then have "(dict items lut)(ident := None) = dict items lut" by (auto simp: dict_def)
    then show ?thesis using None rep by (auto simp: s1 freed_def same_env_def)
  next
    case (Some i)
    then show ?thesis
      using DeleteItemByID_rep [OF rep Some] dict_delete [OF rep Some] by (auto simp: s1 freed_def)
  qed
  then obtain items1 lut1 where one: "conf_rep s1 items1 lut1" "dict items1 lut1 = (dict items lut)(ident := None)"
    "ItemRestSize s1 = ItemRestSize s + freed items lut ident" "same_env s s1" by blast
  have new: "it_type (new_item ident primType src) = stored_type primType (int (length src))"
    "it_data (new_item ident primType src) = src" by (simp_all add: new_item_def)
  show "\<exists>s' items' lut'. CreateItemByID ident primType (Some src) len s1 = (True, s') \<and> conf_rep s' items' lut'
        \<and> dict items' lut' = (dict items lut)(ident \<mapsto> (stored_type primType (int (length src)), src)) \<and> same_env s s'"
    if "item_len (new_item ident primType src) + 4 \<le> ItemRestSize s + freed items lut ident"
  proof -
    have "off items1 (length items1) + 2 + item_len (new_item ident primType src) \<le> 0x3FB6"
      using that one(3) conf_repD(4) [OF one(1)] by simp
    from CreateItemByID_rep [OF one(1) ident w this] dict_create [OF one(1), of "new_item ident primType src" ident]
    show ?thesis using one(2,4) new by (fastforce simp: same_env_def)
  qed
  show "\<exists>items' lut'. CreateItemByID ident primType (Some src) len s1 = (False, s1) \<and> conf_rep s1 items' lut'
        \<and> dict items' lut' = (dict items lut)(ident := None) \<and> same_env s s1"
    if "ItemRestSize s + freed items lut ident < item_len (new_item ident primType src) + 2"
    using CreateItemByID_full [OF w ident, of s1] that one by auto
qed

lemma CreateItemByID_irq:
  "CreateItemByID ident primType src len (s\<lparr>irq_enabled := b\<rparr>)
    = (case CreateItemByID ident primType src len s of (r, t) \<Rightarrow> (r, t\<lparr>irq_enabled := b\<rparr>))"
  by (simp add: CreateItemByID_def Let_def SCSetDirtyFlag_def put_buf_def split: option.split)

lemma DeleteItemByID_irq:
  "DeleteItemByID ident (s\<lparr>irq_enabled := b\<rparr>) = (DeleteItemByID ident s)\<lparr>irq_enabled := b\<rparr>"
  by (simp add: DeleteItemByID_def Let_def SCSetDirtyFlag_def put_buf_def)

lemma overwrite_item_irq:
  "overwrite_item item src (s\<lparr>irq_enabled := b\<rparr>) = (overwrite_item item src s)\<lparr>irq_enabled := b\<rparr>"
  by (simp add: overwrite_item_def Let_def SCSetDirtyFlag_def put_buf_def)

lemma same_env_irq: "same_env s t \<Longrightarrow> t\<lparr>irq_enabled := irq_enabled s\<rparr> = t"
  by (simp add: same_env_def)

text \<open>The two ways of replacing, without the bracket that disables interrupts.\<close>

lemma replace_none:
  assumes rep: "conf_rep s items lut" and no: "FindItemByID ident s = None"
  shows "lut ident = None"
proof (rule ccontr)
  assume "lut ident \<noteq> None"
  then obtain i where "lut ident = Some i" by blast
  then show False using FindItemByID_rep [OF rep, of ident] no by simp
qed

lemma SCReplaceByteArrayItem_cases:
  "SCReplaceByteArrayItem (Some src) len ident s =
    (case FindItemByID ident s of
       Some item \<Rightarrow> if si_arrayType item \<noteq> 0 \<and> si_dataLen item = len
         then (True, (overwrite_item item src s)\<lparr>irq_enabled := irq_enabled s\<rparr>)
         else case CreateItemByID ident SC_ITEM_SMALLARRAY (Some src) len (DeleteItemByID ident s) of
           (r, t) \<Rightarrow> (r, t\<lparr>irq_enabled := irq_enabled s\<rparr>)
     | None \<Rightarrow> case CreateItemByID ident SC_ITEM_SMALLARRAY (Some src) len s of
           (r, t) \<Rightarrow> (r, t\<lparr>irq_enabled := irq_enabled s\<rparr>))"
  by (simp add: SCReplaceByteArrayItem_def OSDisableInterrupts_def OSRestoreInterrupts_def CreateItemByID_irq
      DeleteItemByID_irq overwrite_item_irq split: option.split prod.split)

lemma SCReplaceIntegerItem_cases:
  "SCReplaceIntegerItem src ident primType s =
    (case FindItemByID ident s of
       Some item \<Rightarrow> if si_primType item = primType
         then (True, (overwrite_item item src s)\<lparr>irq_enabled := irq_enabled s\<rparr>)
         else case CreateItemByID ident primType (Some src) 0 (DeleteItemByID ident s) of
           (r, t) \<Rightarrow> (r, t\<lparr>irq_enabled := irq_enabled s\<rparr>)
     | None \<Rightarrow> case CreateItemByID ident primType (Some src) 0 s of
           (r, t) \<Rightarrow> (r, t\<lparr>irq_enabled := irq_enabled s\<rparr>))"
  by (simp add: SCReplaceIntegerItem_def OSDisableInterrupts_def OSRestoreInterrupts_def CreateItemByID_irq
      DeleteItemByID_irq overwrite_item_irq split: option.split prod.split)

definition in_place :: "(int \<times> int list) option \<Rightarrow> int list \<Rightarrow> bool" where
  "in_place v src \<longleftrightarrow> (case v of None \<Rightarrow> False | Some (t, d) \<Rightarrow> is_array t \<and> length d = length src)"

lemma in_place_item:
  assumes rep: "conf_rep s items lut" and item: "FindItemByID ident s = Some item"
  shows "in_place (dict items lut ident) src \<longleftrightarrow> si_arrayType item \<noteq> 0 \<and> si_dataLen item = int (length src)"
  using FindItemByID_dict [OF rep, of ident] item
  by (auto simp: in_place_def item_types split: option.splits if_splits)

lemma overwrite_found:
  assumes rep: "conf_rep s items lut" and item: "FindItemByID ident s = Some item"
    and src: "si_dataLen item = int (length src)" "all_bytes src"
  shows "\<exists>items' t d. dict items lut ident = Some (t, d) \<and> conf_rep (overwrite_item item src s) items' lut
    \<and> dict items' lut = (dict items lut)(ident \<mapsto> (t, src)) \<and> same_env s (overwrite_item item src s)"
proof -
  obtain i where i: "lut ident = Some i" using FindItemByID_rep [OF rep, of ident] item by (cases "lut ident") auto
  have it: "si_data item = off items i + data_at (items ! i)" "si_dataLen item = int (length (it_data (items ! i)))"
    "holds (sc_mem s ConfBuf) (si_data item) (it_data (items ! i))"
    using FindItemByID_rep [OF rep, of ident] item i by auto
  have len: "length src = length (it_data (items ! i))" using it(2) src(1) by simp
  have "dict items lut ident = Some (it_type (items ! i), it_data (items ! i))" by (simp add: dict_def i)
  then show ?thesis using overwrite_item_rep [OF rep i it len src(2)] by blast
qed

lemma replace_array_ok:
  assumes rep: "conf_rep s items lut" and ident: "ident < 35" and src: "all_bytes src" "1 \<le> length src" "length src \<le> 65536"
    and ok: "in_place (dict items lut ident) src
      \<or> item_len (new_item ident SC_ITEM_SMALLARRAY src) + 4 \<le> ItemRestSize s + freed items lut ident"
  shows "\<exists>s' items' lut' t. SCReplaceByteArrayItem (Some src) (int (length src)) ident s = (True, s')
    \<and> conf_rep s' items' lut' \<and> is_array t \<and> dict items' lut' = (dict items lut)(ident \<mapsto> (t, src))"
proof -
  have w: "wants SC_ITEM_SMALLARRAY (int (length src)) src" using src by (simp add: wants_def)
  have st: "is_array (stored_type SC_ITEM_SMALLARRAY (int (length src)))" by (simp add: stored_type_def)
  show ?thesis
  proof (cases "FindItemByID ident s")
    case None
    then have n: "lut ident = None" by (rule replace_none [OF rep])
    then have "\<not> in_place (dict items lut ident) src" by (simp add: in_place_def dict_def)
    then obtain s' items' lut' where "CreateItemByID ident SC_ITEM_SMALLARRAY (Some src) (int (length src)) s = (True, s')"
      "conf_rep s' items' lut'" "dict items' lut' = (dict items lut)(ident \<mapsto> (stored_type SC_ITEM_SMALLARRAY (int (length src)), src))"
      "same_env s s'"
      using delete_create(1) [OF rep ident w refl] n ok by auto
    then show ?thesis using None st by (auto simp: SCReplaceByteArrayItem_cases same_env_irq)
  next
    case (Some item)
    show ?thesis
    proof (cases "in_place (dict items lut ident) src")
      case True
      then have c: "si_arrayType item \<noteq> 0" "si_dataLen item = int (length src)" using in_place_item [OF rep Some] by simp_all
      then obtain items' t d where o: "dict items lut ident = Some (t, d)" "conf_rep (overwrite_item item src s) items' lut"
        "dict items' lut = (dict items lut)(ident \<mapsto> (t, src))" "same_env s (overwrite_item item src s)"
        using overwrite_found [OF rep Some _ src(1)] by blast
      then have "is_array t" using True by (simp add: in_place_def)
      then show ?thesis using Some c o by (auto simp: SCReplaceByteArrayItem_cases same_env_irq)
    next
      case False
      then have c: "\<not> (si_arrayType item \<noteq> 0 \<and> si_dataLen item = int (length src))" using in_place_item [OF rep Some] by simp
      have n: "lut ident \<noteq> None" using FindItemByID_rep [OF rep, of ident] Some by (cases "lut ident") auto
      obtain s' items' lut' where "CreateItemByID ident SC_ITEM_SMALLARRAY (Some src) (int (length src)) (DeleteItemByID ident s) = (True, s')"
        "conf_rep s' items' lut'" "dict items' lut' = (dict items lut)(ident \<mapsto> (stored_type SC_ITEM_SMALLARRAY (int (length src)), src))"
        "same_env s s'"
        using delete_create(1) [OF rep ident w refl] n ok False by auto
      then show ?thesis using Some st c by (auto simp: SCReplaceByteArrayItem_cases same_env_irq)
    qed
  qed
qed

lemma replace_array_full:
  assumes rep: "conf_rep s items lut" and ident: "ident < 35" and src: "all_bytes src" "1 \<le> length src" "length src \<le> 65536"
    and full: "\<not> in_place (dict items lut ident) src"
      "ItemRestSize s + freed items lut ident < item_len (new_item ident SC_ITEM_SMALLARRAY src) + 2"
  shows "\<exists>s' items' lut'. SCReplaceByteArrayItem (Some src) (int (length src)) ident s = (False, s')
    \<and> conf_rep s' items' lut' \<and> dict items' lut' = (dict items lut)(ident := None)"
proof -
  have w: "wants SC_ITEM_SMALLARRAY (int (length src)) src" using src by (simp add: wants_def)
  note dc = delete_create(2) [OF rep ident w refl full(2)]
  show ?thesis
  proof (cases "FindItemByID ident s")
    case None
    then show ?thesis using dc replace_none [OF rep None]
      by (auto simp: SCReplaceByteArrayItem_cases same_env_irq)
  next
    case (Some item)
    have c: "\<not> (si_arrayType item \<noteq> 0 \<and> si_dataLen item = int (length src))" using in_place_item [OF rep Some] full(1) by simp
    have n: "lut ident \<noteq> None" using FindItemByID_rep [OF rep, of ident] Some by (cases "lut ident") auto
    show ?thesis using dc n Some c by (auto simp: SCReplaceByteArrayItem_cases same_env_irq)
  qed
qed

text \<open>C31. Replacing the bytes of an ID changes the dictionary at that ID only.  It succeeds
  when an array of the same length is there to be overwritten or when the file has room for
  the new item once the old one is deleted.  When there is no room it fails, and the old
  value is gone all the same.\<close>

theorem SCReplaceByteArrayItem_dictionary:
  assumes rep: "conf_rep s items lut" and ident: "ident < SC_ITEM_MAX"
    and src: "all_bytes src" "1 \<le> length src" "length src \<le> 65536"
  shows "(in_place (dict items lut ident) src
      \<or> item_len (new_item ident SC_ITEM_SMALLARRAY src) + 4 \<le> ItemRestSize s + freed items lut ident \<longrightarrow>
      (\<exists>s' items' lut' t. SCReplaceByteArrayItem (Some src) (int (length src)) ident s = (True, s')
        \<and> conf_rep s' items' lut' \<and> is_array t \<and> dict items' lut' = (dict items lut)(ident \<mapsto> (t, src))))
    \<and> (\<not> in_place (dict items lut ident) src
      \<and> ItemRestSize s + freed items lut ident < item_len (new_item ident SC_ITEM_SMALLARRAY src) + 2 \<longrightarrow>
      (\<exists>s' items' lut'. SCReplaceByteArrayItem (Some src) (int (length src)) ident s = (False, s')
        \<and> conf_rep s' items' lut' \<and> dict items' lut' = (dict items lut)(ident := None)))"
  using replace_array_ok [OF rep _ src] replace_array_full [OF rep _ src] ident by (simp add: SC_ITEM_MAX_def)

text \<open>What was stored is found again, with its length and nothing else, and every other ID
  still has what it had.\<close>

theorem SC_replace_find:
  assumes rep: "conf_rep s items lut" and ident: "ident < SC_ITEM_MAX"
    and src: "all_bytes src" "1 \<le> length src" "length src \<le> 65536"
    and ok: "in_place (dict items lut ident) src
      \<or> item_len (new_item ident SC_ITEM_SMALLARRAY src) + 4 \<le> ItemRestSize s + freed items lut ident"
  shows "\<exists>s'. SCReplaceByteArrayItem (Some src) (int (length src)) ident s = (True, s')
    \<and> SCFindByteArrayItem (Some old) (int (length src)) ident s' = (True, Some (src @ drop (length src) old), s')
    \<and> (n \<noteq> int (length src) \<longrightarrow> SCFindByteArrayItem (Some old) n ident s' = (False, Some old, s'))
    \<and> (other \<noteq> ident \<longrightarrow> fst (SCFindByteArrayItem (Some old) n other s') = fst (SCFindByteArrayItem (Some old) n other s)
        \<and> fst (snd (SCFindByteArrayItem (Some old) n other s')) = fst (snd (SCFindByteArrayItem (Some old) n other s)))"
proof -
  have "ident < 35" using ident by (simp add: SC_ITEM_MAX_def)
  from replace_array_ok [OF rep this src ok] obtain s' items' lut' t where
    r: "SCReplaceByteArrayItem (Some src) (int (length src)) ident s = (True, s')" "conf_rep s' items' lut'" "is_array t"
      "dict items' lut' = (dict items lut)(ident \<mapsto> (t, src))" by blast
  show ?thesis
    using r(1,3) by (intro exI [of _ s']) (auto simp: SCFindByteArrayItem_dict [OF r(2)] SCFindByteArrayItem_dict [OF rep] r(4)
        split: option.split)
qed

lemma dict_len_ok:
  assumes rep: "conf_rep s items lut" and d: "dict items lut ident = Some (t, d)"
  shows "len_ok t (int (length d))" "all_bytes d"
proof -
  obtain i where i: "lut ident = Some i" "t = it_type (items ! i)" "d = it_data (items ! i)"
    using d by (auto simp: dict_def)
  have "item_ok (items ! i)" using conf_repD(9) [OF rep i(1)] laid_outD(3) [OF conf_repD(7) [OF rep]] by blast
  then show "len_ok t (int (length d))" "all_bytes d" using i by (simp_all add: item_ok_def)
qed

lemma len_ok_unique: "\<not> is_array t \<Longrightarrow> len_ok t m \<Longrightarrow> len_ok t n \<Longrightarrow> m = n"
  by (auto simp: len_ok_def item_types)

lemma SCReplaceIntegerItem_dict:
  assumes rep: "conf_rep s items lut" and ident: "ident < 35" and src: "all_bytes src" "len_ok t (int (length src))"
    and t: "\<not> is_array t"
    and ok: "item_len (new_item ident t src) + 4 \<le> ItemRestSize s + freed items lut ident
      \<or> map_option fst (dict items lut ident) = Some t"
  shows "\<exists>s' items' lut'. SCReplaceIntegerItem src ident t s = (True, s') \<and> conf_rep s' items' lut'
    \<and> dict items' lut' = (dict items lut)(ident \<mapsto> (t, src)) \<and> same_env s s'"
proof -
  have w: "wants t 0 src" using src t by (simp add: wants_def)
  have st: "stored_type t (int (length src)) = t" using t by (simp add: stored_type_def)
  have t0: "t \<noteq> 0" using src(2) by (auto simp: len_ok_def item_types)
  show ?thesis
  proof (cases "FindItemByID ident s")
    case None
    then have n: "lut ident = None" by (rule replace_none [OF rep])
    then have "item_len (new_item ident t src) + 4 \<le> ItemRestSize s + freed items lut ident"
      using ok by (simp add: dict_def)
    then obtain s' items' lut' where "CreateItemByID ident t (Some src) 0 s = (True, s')" "conf_rep s' items' lut'"
      "dict items' lut' = (dict items lut)(ident \<mapsto> (t, src))" "same_env s s'"
      using delete_create(1) [OF rep ident w refl] n st by auto
    then show ?thesis using None
      by (intro exI [of _ s'] exI [of _ items'] exI [of _ lut']) (simp add: SCReplaceIntegerItem_cases same_env_irq)
  next
    case (Some item)
    then obtain u d where d: "dict items lut ident = Some (u, d)" using FindItemByID_dict [OF rep, of ident]
      by (cases "dict items lut ident") auto
    have it: "si_primType item = (if is_array u then 0 else u)" "si_dataLen item = int (length d)"
      using FindItemByID_dict [OF rep, of ident] Some d by auto
    show ?thesis
    proof (cases "u = t")
      case True
      then have "int (length d) = int (length src)"
        using len_ok_unique [OF t _ src(2)] dict_len_ok(1) [OF rep d] by simp
      then have len: "si_dataLen item = int (length src)" using it(2) by simp
      obtain items' t' d' where "dict items lut ident = Some (t', d')" "conf_rep (overwrite_item item src s) items' lut"
        "dict items' lut = (dict items lut)(ident \<mapsto> (t', src))" "same_env s (overwrite_item item src s)"
        using overwrite_found [OF rep Some len src(1)] by blast
      then show ?thesis using Some it(1) True t d by (auto simp: SCReplaceIntegerItem_cases same_env_irq)
    next
      case False
      then have c: "si_primType item \<noteq> t" using it(1) t0 by auto
      have n: "lut ident \<noteq> None" using d by (auto simp: dict_def)
      have "item_len (new_item ident t src) + 4 \<le> ItemRestSize s + freed items lut ident"
        using ok False d by auto
      then obtain s' items' lut' where "CreateItemByID ident t (Some src) 0 (DeleteItemByID ident s) = (True, s')"
        "conf_rep s' items' lut'" "dict items' lut' = (dict items lut)(ident \<mapsto> (t, src))" "same_env s s'"
        using delete_create(1) [OF rep ident w refl] n st by auto
      then show ?thesis using Some c
        by (intro exI [of _ s'] exI [of _ items'] exI [of _ lut']) (simp add: SCReplaceIntegerItem_cases same_env_irq)
    qed
  qed
qed

section \<open>A concrete file\<close>

lemma cleared_ok:
  "well_formed (sc_mem (ClearConfBuf ConfBuf s) ConfBuf) []"
  "rd16 (sc_mem (ClearConfBuf ConfBuf s) ConfBuf) (slot_at 34) = 0"
  "is_bytes (sc_mem s ConfBuf) \<Longrightarrow> is_bytes (sc_mem (ClearConfBuf ConfBuf s) ConfBuf)"
proof -
  have m: "length SC_CONF_BEGIN_MAGIC = 4" "length SC_CONF_END_MAGIC = 4" "all_bytes SC_CONF_BEGIN_MAGIC" "all_bytes SC_CONF_END_MAGIC"
    by (simp_all add: SC_CONF_BEGIN_MAGIC_def SC_CONF_END_MAGIC_def ascii_def all_bytes_def)
  let ?Z = "memset 0 0 0x4000 (sc_mem s ConfBuf)"
  have M: "sc_mem (ClearConfBuf ConfBuf s) ConfBuf =
      wr16 6 8 (memcpy 0x3FFC SC_CONF_END_MAGIC (memcpy 0 SC_CONF_BEGIN_MAGIC ?Z))"
    by (simp add: ClearConfBuf_def SCGetConfBufSize_def SC_CONF_MAX_SIZE_def SC_CONF_MIN_SIZE_def Let_def put_buf_def entry_def)
  show "well_formed (sc_mem (ClearConfBuf ConfBuf s) ConfBuf) []"
    unfolding M using m(1,2)
    by (simp add: well_formed_def laid_out_def holds_def wr16_other memcpy_def entry_def off_def)
       (simp add: rd16_def wr16_def memcpy_def memset_def u16_def)
  show "rd16 (sc_mem (ClearConfBuf ConfBuf s) ConfBuf) (slot_at 34) = 0"
    unfolding M using m(1,2) by (simp add: rd16_def wr16_other slot_at_def memcpy_other) (simp add: memset_def)
  show "is_bytes (sc_mem (ClearConfBuf ConfBuf s) ConfBuf)" if b: "is_bytes (sc_mem s ConfBuf)"
  proof -
    have "is_bytes ?Z" using b by (rule is_bytes_memset) simp_all
    then show ?thesis unfolding M using m(3,4)
      by (intro is_bytes_wr16 is_bytes_memcpy) (simp_all add: all_bytes_def)
  qed
qed

definition sc_zero :: sc_state where
  "sc_zero = \<lparr>irq_enabled = True, sc_mem = \<lambda>_ _. 0, ItemRestSize = 0, ItemNumTotal = 0, ItemIDMaxPlus1 = 0,
     ItemIDOffsetTblOffset = 0, DirtyFlag = False\<rparr>"

definition sc_demo :: sc_state where
  "sc_demo = snd (ParseConfBuf ConfBuf SCGetConfBufSize (ClearConfBuf ConfBuf sc_zero))"

theorem ParseConfBuf_accepts_witness:
  "fst (ParseConfBuf ConfBuf SCGetConfBufSize (ClearConfBuf ConfBuf sc_zero)) \<and> conf_rep sc_demo [] (lut_of [])"
proof
  let ?s = "ClearConfBuf ConfBuf sc_zero"
  have b: "is_bytes (sc_mem ?s ConfBuf)" by (rule cleared_ok) (simp add: is_bytes_def sc_zero_def)
  note w = cleared_ok(1) [of sc_zero] and z = cleared_ok(2) [of sc_zero]
  show "fst (ParseConfBuf ConfBuf SCGetConfBufSize ?s)" using ParseConfBuf_accepts [OF b] w by blast
  show "conf_rep sc_demo [] (lut_of [])"
    unfolding sc_demo_def using w z
    by (intro ParseConfBuf_accepts [OF b, THEN conjunct2, rule_format]) (simp add: slot_at_def SC_ITEM_MAX_def)
qed

lemma sc_demo_rep:
  "conf_rep sc_demo [] (lut_of [])" "lut_of [] j = None" "dict [] (lut_of []) j = None" "ItemRestSize sc_demo = 0x3FB0"
proof -
  have b: "is_bytes (sc_mem (ClearConfBuf ConfBuf sc_zero) ConfBuf)" by (rule cleared_ok) (simp add: is_bytes_def sc_zero_def)
  have p: "parse_items (sc_mem (ClearConfBuf ConfBuf sc_zero) ConfBuf) 0x4000 0x3FFC 35 = (enter_slots [] all_ids (memset 0x3FB8 0 68 (sc_mem (ClearConfBuf ConfBuf sc_zero) ConfBuf)),
      Some (0x3FFA, 0, 0x3FB0))"
    using parse_items_result(2) [OF b, of "[]"] cleared_ok(1) [of sc_zero] by (simp add: well_formed_def)
  have m: "length SC_CONF_BEGIN_MAGIC = 4" "length SC_CONF_END_MAGIC = 4"
    by (simp_all add: SC_CONF_BEGIN_MAGIC_def SC_CONF_END_MAGIC_def ascii_def)
  have d: "sc_demo = (put_buf ConfBuf (enter_slots [] all_ids (memset 0x3FB8 0 68 (sc_mem (ClearConfBuf ConfBuf sc_zero) ConfBuf)))
      ((ClearConfBuf ConfBuf sc_zero)\<lparr>ItemIDMaxPlus1 := 35\<rparr>))\<lparr>ItemIDOffsetTblOffset := 0x3FFA, ItemNumTotal := 0, ItemRestSize := 0x3FB0\<rparr>"
    using cleared_ok(1) [of sc_zero]
    by (simp add: sc_demo_def ParseConfBuf_def SCGetConfBufSize_def SC_CONF_MAX_SIZE_def SC_CONF_MIN_SIZE_def Let_def
        magic_iff m SC_ITEM_MAX_def p well_formed_def)
  show "conf_rep sc_demo [] (lut_of [])"
    by (rule parse_loaded [OF b cleared_ok(1), where s = "ClearConfBuf ConfBuf sc_zero"])
       (simp_all add: cleared_ok(2) d put_buf_def SC_ITEM_MAX_def)
  show "lut_of [] j = None" "dict [] (lut_of []) j = None" by (simp_all add: lut_of_def dict_def)
  show "ItemRestSize sc_demo = 0x3FB0" by (simp add: d)
qed

text \<open>The speaker volume (ID 30) stored as an array of two bytes, and 20000 bytes, for which
  there is no room.\<close>

theorem SCReplaceByteArrayItem_dictionary_witness:
  "(\<exists>s' items' lut' t. SCReplaceByteArrayItem (Some [7, 9]) 2 30 sc_demo = (True, s')
      \<and> conf_rep s' items' lut' \<and> is_array t \<and> dict items' lut' = (dict [] (lut_of []))(30 \<mapsto> (t, [7, 9])))
   \<and> (\<exists>s' items' lut'. SCReplaceByteArrayItem (Some (replicate 20000 1)) 20000 30 sc_demo = (False, s')
      \<and> conf_rep s' items' lut' \<and> dict items' lut' = (dict [] (lut_of []))(30 := None))"
proof
  have n: "length (name_of 30) = 7" by code_simp
  have l: "freed [] (lut_of []) 30 = 0" by (simp add: freed_def sc_demo_rep)
  have i: "\<not> in_place (dict [] (lut_of []) 30) src" for src by (simp add: in_place_def sc_demo_rep)
  have len: "item_len (new_item 30 SC_ITEM_SMALLARRAY [7, 9]) + 4 \<le> ItemRestSize sc_demo"
    "ItemRestSize sc_demo < item_len (new_item 30 SC_ITEM_SMALLARRAY (replicate 20000 1)) + 2"
    by (simp_all add: new_item_def enc_def n len_bytes_def stored_type_def item_types sc_demo_rep)
  show "\<exists>s' items' lut' t. SCReplaceByteArrayItem (Some [7, 9]) 2 30 sc_demo = (True, s')
      \<and> conf_rep s' items' lut' \<and> is_array t \<and> dict items' lut' = (dict [] (lut_of []))(30 \<mapsto> (t, [7, 9]))"
    using SCReplaceByteArrayItem_dictionary [OF sc_demo_rep(1), of 30 "[7, 9]"] len(1) l
    by (simp add: SC_ITEM_MAX_def all_bytes_def)
  show "\<exists>s' items' lut'. SCReplaceByteArrayItem (Some (replicate 20000 1)) 20000 30 sc_demo = (False, s')
      \<and> conf_rep s' items' lut' \<and> dict items' lut' = (dict [] (lut_of []))(30 := None)"
    using SCReplaceByteArrayItem_dictionary [OF sc_demo_rep(1), of 30 "replicate 20000 1"] len(2) l i
    by (simp add: SC_ITEM_MAX_def all_bytes_def list_all_length)
qed

theorem SC_replace_find_witness:
  "\<exists>s'. SCReplaceByteArrayItem (Some [7, 9]) 2 30 sc_demo = (True, s')
    \<and> SCFindByteArrayItem (Some [0, 0, 5]) 2 30 s' = (True, Some [7, 9, 5], s')
    \<and> fst (SCFindByteArrayItem (Some [0, 0, 5]) 1 30 s') = False"
proof -
  have n: "length (name_of 30) = 7" by code_simp
  have len: "item_len (new_item 30 SC_ITEM_SMALLARRAY [7, 9]) + 4 \<le> ItemRestSize sc_demo + freed [] (lut_of []) 30"
    by (simp add: new_item_def enc_def n len_bytes_def stored_type_def item_types sc_demo_rep freed_def)
  show ?thesis
    using SC_replace_find [OF sc_demo_rep(1), of 30 "[7, 9]" "[0, 0, 5]" 1 0] len
    by (auto simp: SC_ITEM_MAX_def all_bytes_def)
qed

section \<open>The slot of the last ID\<close>

text \<open>The table of slots is cleared and kept free for one entry too few: the slot of ID 34
  (\<^verbatim>\<open>WWW.RST\<close>) lies below it, in the space that counts as free for items.  A creation
  that fills the file is accepted and its item covers the slot.\<close>

lemma last_slot_unprotected:
  assumes rep: "conf_rep s items lut" and ident: "ident < 35" and w: "wants primType len src"
    and exact: "ItemRestSize s = item_len (new_item ident primType src) + 2"
  shows "fst (CreateItemByID ident primType (Some src) len s)"
    "slot_at (SC_ITEM_MAX - 1) + 1 < off (items @ [new_item ident primType src]) (length items + 1)"
proof -
  note r = conf_repD [OF rep]
  have e: "8 + 2 * int (length items) \<le> off items (length items)" using off_mono [of 0 "length items" items] by simp
  have "\<not> ident \<ge> ItemIDMaxPlus1 s" "\<not> ItemNumTotal s \<ge> 0xFFFF" "ItemIDOffsetTblOffset s \<noteq> 0"
    "\<not> int (length (name_of ident)) > 0x1F + 1" using r(1,2,3,5) e ident name_of_ok [OF ident] by simp_all
  then show "fst (CreateItemByID ident primType (Some src) len s)"
    unfolding CreateItemByID_def Let_def find_name [OF ident] new_item_ok(2) [OF w ident] using exact by simp
  show "slot_at (SC_ITEM_MAX - 1) + 1 < off (items @ [new_item ident primType src]) (length items + 1)"
    using r(4) exact off_append_end [of items "new_item ident primType src"] by (simp add: slot_at_def SC_ITEM_MAX_def)
qed

end
