(* ===== verification/NandPath.thy ===== *)
theory NandPath
  imports IpcResult
begin

text \<open>
  \<^verbatim>\<open>nand/NANDCore.c\<close> and \<^verbatim>\<open>nand/nand.c\<close>, the parts without state: paths, permissions
  and error codes.  A string is the list of its characters in front of the NUL.  The buffers
  of the C code (64 bytes for a result, 128 for the pieces) are not bounded in the model; the
  lemma \<open>abs_path_fits\<close> says when a result fits.
\<close>

section \<open>Result codes\<close>

definition NAND_RESULT_OK :: int where "NAND_RESULT_OK = 0"
definition NAND_RESULT_ACCESS :: int where "NAND_RESULT_ACCESS = -1"
definition NAND_RESULT_ALLOC_FAILED :: int where "NAND_RESULT_ALLOC_FAILED = -2"
definition NAND_RESULT_BUSY :: int where "NAND_RESULT_BUSY = -3"
definition NAND_RESULT_CORRUPT :: int where "NAND_RESULT_CORRUPT = -4"
definition NAND_RESULT_ECC_CRIT :: int where "NAND_RESULT_ECC_CRIT = -5"
definition NAND_RESULT_EXISTS :: int where "NAND_RESULT_EXISTS = -6"
definition NAND_RESULT_INVALID :: int where "NAND_RESULT_INVALID = -8"
definition NAND_RESULT_MAXBLOCKS :: int where "NAND_RESULT_MAXBLOCKS = -9"
definition NAND_RESULT_MAXFD :: int where "NAND_RESULT_MAXFD = -10"
definition NAND_RESULT_MAXFILES :: int where "NAND_RESULT_MAXFILES = -11"
definition NAND_RESULT_NOEXISTS :: int where "NAND_RESULT_NOEXISTS = -12"
definition NAND_RESULT_NOTEMPTY :: int where "NAND_RESULT_NOTEMPTY = -13"
definition NAND_RESULT_OPENFD :: int where "NAND_RESULT_OPENFD = -14"
definition NAND_RESULT_AUTHENTICATION :: int where "NAND_RESULT_AUTHENTICATION = -15"
definition NAND_RESULT_UNKNOWN :: int where "NAND_RESULT_UNKNOWN = -64"
definition NAND_RESULT_FATAL_ERROR :: int where "NAND_RESULT_FATAL_ERROR = -128"

lemmas nand_results =
    NAND_RESULT_OK_def NAND_RESULT_ACCESS_def NAND_RESULT_ALLOC_FAILED_def NAND_RESULT_BUSY_def
  NAND_RESULT_CORRUPT_def NAND_RESULT_ECC_CRIT_def NAND_RESULT_EXISTS_def NAND_RESULT_INVALID_def
  NAND_RESULT_MAXBLOCKS_def NAND_RESULT_MAXFD_def NAND_RESULT_MAXFILES_def NAND_RESULT_NOEXISTS_def
  NAND_RESULT_NOTEMPTY_def NAND_RESULT_OPENFD_def NAND_RESULT_AUTHENTICATION_def
  NAND_RESULT_UNKNOWN_def NAND_RESULT_FATAL_ERROR_def

definition errorMap :: "(int \<times> int) list" where
  "errorMap =
     [(IPC_RESULT_OK, NAND_RESULT_OK), (IPC_RESULT_ACCESS, NAND_RESULT_ACCESS),
      (IPC_RESULT_CORRUPT, NAND_RESULT_CORRUPT), (IPC_RESULT_ECC_CRIT, NAND_RESULT_ECC_CRIT),
      (IPC_RESULT_EXISTS, NAND_RESULT_EXISTS), (-116, NAND_RESULT_AUTHENTICATION),
      (IPC_RESULT_INVALID, NAND_RESULT_INVALID), (IPC_RESULT_MAXBLOCKS, NAND_RESULT_MAXBLOCKS),
      (IPC_RESULT_MAXFD, NAND_RESULT_MAXFD), (IPC_RESULT_MAXFILES, NAND_RESULT_MAXFILES),
      (IPC_RESULT_NOEXISTS, NAND_RESULT_NOEXISTS), (IPC_RESULT_NOTEMPTY, NAND_RESULT_NOTEMPTY),
      (-104, NAND_RESULT_UNKNOWN), (IPC_RESULT_OPENFD, NAND_RESULT_OPENFD),
      (-117, NAND_RESULT_UNKNOWN), (IPC_RESULT_BUSY, NAND_RESULT_BUSY),
      (IPC_RESULT_FATAL_ERROR, NAND_RESULT_FATAL_ERROR), (IPC_RESULT_ACCESS_INTERNAL, NAND_RESULT_ACCESS),
      (IPC_RESULT_EXISTS_INTERNAL, NAND_RESULT_EXISTS), (-3, NAND_RESULT_UNKNOWN),
      (IPC_RESULT_INVALID_INTERNAL, NAND_RESULT_INVALID), (-5, NAND_RESULT_UNKNOWN),
      (IPC_RESULT_NOEXISTS_INTERNAL, NAND_RESULT_NOEXISTS), (-7, NAND_RESULT_UNKNOWN),
      (IPC_RESULT_BUSY_INTERNAL, NAND_RESULT_BUSY), (-9, NAND_RESULT_UNKNOWN),
      (-10, NAND_RESULT_UNKNOWN), (-11, NAND_RESULT_UNKNOWN),
      (IPC_RESULT_ECC_CRIT_INTERNAL, NAND_RESULT_ECC_CRIT), (-13, NAND_RESULT_UNKNOWN),
      (-14, NAND_RESULT_UNKNOWN), (-15, NAND_RESULT_UNKNOWN),
      (-16, NAND_RESULT_UNKNOWN), (-17, NAND_RESULT_UNKNOWN),
      (-18, NAND_RESULT_UNKNOWN), (-19, NAND_RESULT_UNKNOWN),
      (-20, NAND_RESULT_UNKNOWN), (-21, NAND_RESULT_UNKNOWN),
      (IPC_RESULT_ALLOC_FAILED, NAND_RESULT_ALLOC_FAILED), (-23, NAND_RESULT_UNKNOWN)]"

definition nandConvertErrorCode :: "int \<Rightarrow> int" where
  "nandConvertErrorCode result =
     (if result \<ge> 0 then result
      else case map_of errorMap result of Some r \<Rightarrow> r | None \<Rightarrow> NAND_RESULT_UNKNOWN)"

text \<open>A failure of the file system stays a failure, with a code of the NAND library.\<close>

lemma nandConvertErrorCode_negative: "nandConvertErrorCode result < 0 \<longleftrightarrow> result < 0"
  by (auto simp: nandConvertErrorCode_def errorMap_def ipc_results nand_results)

lemma nandConvertErrorCode_known:
  "result < 0 \<Longrightarrow> nandConvertErrorCode result \<in> {-128, -64, -15, -14, -13, -12, -11, -10, -9, -8, -6, -5, -4, -3, -2, -1}"
  by (auto simp: nandConvertErrorCode_def errorMap_def ipc_results nand_results)

section \<open>Permissions\<close>

definition NAND_ACCESS_NONE :: int where "NAND_ACCESS_NONE = 0"
definition NAND_ACCESS_READ :: int where "NAND_ACCESS_READ = 1"
definition NAND_ACCESS_WRITE :: int where "NAND_ACCESS_WRITE = 2"
definition NAND_ACCESS_RW :: int where "NAND_ACCESS_RW = 3"
definition NAND_FILE_TYPE_FILE :: int where "NAND_FILE_TYPE_FILE = 1"
definition NAND_FILE_TYPE_DIR :: int where "NAND_FILE_TYPE_DIR = 2"
definition NAND_PERM_RUSR :: int where "NAND_PERM_RUSR = NAND_ACCESS_READ * 2 ^ 4"
definition NAND_PERM_WUSR :: int where "NAND_PERM_WUSR = NAND_ACCESS_WRITE * 2 ^ 4"
definition NAND_PERM_RGRP :: int where "NAND_PERM_RGRP = NAND_ACCESS_READ * 2 ^ 2"
definition NAND_PERM_WGRP :: int where "NAND_PERM_WGRP = NAND_ACCESS_WRITE * 2 ^ 2"
definition NAND_PERM_ROTH :: int where "NAND_PERM_ROTH = NAND_ACCESS_READ"
definition NAND_PERM_WOTH :: int where "NAND_PERM_WOTH = NAND_ACCESS_WRITE"
definition NAND_PERM_RWALL :: int where "NAND_PERM_RWALL = 63"

lemmas nand_perms = NAND_ACCESS_NONE_def NAND_ACCESS_READ_def NAND_ACCESS_WRITE_def NAND_ACCESS_RW_def
  NAND_PERM_RUSR_def NAND_PERM_WUSR_def NAND_PERM_RGRP_def NAND_PERM_WGRP_def NAND_PERM_ROTH_def NAND_PERM_WOTH_def

definition flag_if :: "bool \<Rightarrow> int \<Rightarrow> int \<Rightarrow> int" where
  "flag_if b flag x = (if b then or x flag else x)"

definition nandComposePerm :: "int \<Rightarrow> int \<Rightarrow> int \<Rightarrow> int" where
  "nandComposePerm ownerPerm groupPerm otherPerm =
     (let perm = 0;
          perm = flag_if (and ownerPerm NAND_ACCESS_READ \<noteq> 0) NAND_PERM_RUSR perm;
          perm = flag_if (and ownerPerm NAND_ACCESS_WRITE \<noteq> 0) NAND_PERM_WUSR perm;
          perm = flag_if (and groupPerm NAND_ACCESS_READ \<noteq> 0) NAND_PERM_RGRP perm;
          perm = flag_if (and groupPerm NAND_ACCESS_WRITE \<noteq> 0) NAND_PERM_WGRP perm;
          perm = flag_if (and otherPerm NAND_ACCESS_READ \<noteq> 0) NAND_PERM_ROTH perm;
          perm = flag_if (and otherPerm NAND_ACCESS_WRITE \<noteq> 0) NAND_PERM_WOTH perm
      in u8 perm)"

definition nandSplitPerm :: "int \<Rightarrow> int \<times> int \<times> int" where
  "nandSplitPerm perm =
     (flag_if (and perm NAND_PERM_WUSR \<noteq> 0) NAND_ACCESS_WRITE (flag_if (and perm NAND_PERM_RUSR \<noteq> 0) NAND_ACCESS_READ 0),
      flag_if (and perm NAND_PERM_WGRP \<noteq> 0) NAND_ACCESS_WRITE (flag_if (and perm NAND_PERM_RGRP \<noteq> 0) NAND_ACCESS_READ 0),
      flag_if (and perm NAND_PERM_WOTH \<noteq> 0) NAND_ACCESS_WRITE (flag_if (and perm NAND_PERM_ROTH \<noteq> 0) NAND_ACCESS_READ 0))"

definition nandInspectPermission :: "int \<Rightarrow> bool" where
  "nandInspectPermission perm = (and perm NAND_PERM_RUSR \<noteq> 0)"

text \<open>Splitting a byte of permissions and composing it again keeps its six flags; composing
  and splitting keeps what each of the three is allowed.\<close>

lemma perm_roundtrip:
  assumes "0 \<le> perm" "perm < 256"
  shows "(case nandSplitPerm perm of (u, g, v) \<Rightarrow> nandComposePerm u g v) = and perm NAND_PERM_RWALL"
proof -
  have all: "\<forall>k\<in>set [0..<256::nat]. (case nandSplitPerm (int k) of (u, g, v) \<Rightarrow> nandComposePerm u g v) = and (int k) NAND_PERM_RWALL"
    by code_simp
  have "nat perm \<in> set [0..<256]" using assms by auto
  from bspec [OF all this] show ?thesis using assms by simp
qed

lemma split_composed:
  assumes "u \<in> {0, 1, 2, 3}" "g \<in> {0, 1, 2, 3}" "v \<in> {0, 1, 2, 3}"
  shows "nandSplitPerm (nandComposePerm u g v) = (u, g, v)"
proof -
  have all: "\<forall>u\<in>set [0, 1, 2, 3]. \<forall>g\<in>set [0, 1, 2, 3]. \<forall>v\<in>set [0, 1, 2, 3]. nandSplitPerm (nandComposePerm u g v) = (u, g, v)"
    by code_simp
  have "u \<in> set [0, 1, 2, 3]" "g \<in> set [0, 1, 2, 3]" "v \<in> set [0, 1, 2, 3]" using assms by simp_all
  then show ?thesis using all by blast
qed

section \<open>Paths\<close>

text \<open>The loops that step back from the end of a string to a slash; \<open>None\<close> when \<^verbatim>\<open>i\<close>
  becomes negative.\<close>

fun slash_before :: "string \<Rightarrow> nat \<Rightarrow> nat option" where
  "slash_before path 0 = None"
| "slash_before path (Suc i) = (if path ! i = CHR ''/'' then Some i else slash_before path i)"

text \<open>Without a slash the C function leaves its result uninitialised: \<open>None\<close>.\<close>

definition nandRemoveTailToken :: "string \<Rightarrow> string option" where
  "nandRemoveTailToken oldp =
     (if oldp = ''/'' then Some ''/''
      else case slash_before oldp (length oldp) of
             None \<Rightarrow> None
           | Some i \<Rightarrow> Some (if i \<noteq> 0 then take i oldp else ''/''))"

fun nandGetHeadToken :: "string \<Rightarrow> string \<times> string" where
  "nandGetHeadToken [] = ([], [])"
| "nandGetHeadToken (c # path) =
     (if c = CHR ''/'' then ([], path) else case nandGetHeadToken path of (head, rest) \<Rightarrow> (c # head, rest))"

definition nandGetRelativeName :: "string \<Rightarrow> string" where
  "nandGetRelativeName path =
     (if path = ''/'' then ''''
      else case slash_before path (length path) of None \<Rightarrow> path | Some i \<Rightarrow> drop (i + 1) path)"

lemma nandGetHeadToken_le: "length (snd (nandGetHeadToken path)) \<le> length path"
  by (induction path) (auto split: prod.split)

lemma nandGetHeadToken_length: "nandGetHeadToken path = (head, rest) \<Longrightarrow> path \<noteq> [] \<Longrightarrow> length rest < length path"
  using nandGetHeadToken_le [of "tl path"]
  by (cases path; cases "nandGetHeadToken (tl path)") (auto split: if_splits)

function nandConvertPath :: "string \<Rightarrow> string \<Rightarrow> string option" where
  "nandConvertPath dir rel =
     (if rel = [] then Some dir
      else case nandGetHeadToken rel of (head, rest) \<Rightarrow>
        if head = ''.'' then nandConvertPath dir rest
        else if head = ''..'' then
          (case nandRemoveTailToken dir of None \<Rightarrow> None | Some notail \<Rightarrow> nandConvertPath notail rest)
        else if head \<noteq> [] then nandConvertPath (if dir = ''/'' then ''/'' @ head else dir @ ''/'' @ head) rest
        else Some dir)"
  by pat_completeness auto
termination
  by (relation "measure (\<lambda>(dir, rel). length rel)") (simp_all add: nandGetHeadToken_length [OF sym])

declare nandConvertPath.simps [simp del]

definition nandIsRelativePath :: "string \<Rightarrow> bool" where
  "nandIsRelativePath path = (case path of c # _ \<Rightarrow> c \<noteq> CHR ''/'' | [] \<Rightarrow> True)"

definition nandIsPrivatePath :: "string \<Rightarrow> bool" where
  "nandIsPrivatePath path = (take 8 path = ''/shared2'')"

definition nandIsUnderPrivatePath :: "string \<Rightarrow> bool" where
  "nandIsUnderPrivatePath path = (take 9 path = ''/shared2/'' \<and> length path > 9)"

definition nandGenerateAbsPath :: "string \<Rightarrow> string \<Rightarrow> string option" where
  "nandGenerateAbsPath currentDir rel =
     (if rel = [] then Some []
      else if nandIsRelativePath rel then nandConvertPath currentDir rel
      else if last rel = CHR ''/'' \<and> length rel - 1 \<noteq> 0 then Some (butlast rel)
      else Some rel)"

definition nandGetParentDirectory :: "string \<Rightarrow> string option" where
  "nandGetParentDirectory path =
     (case slash_before path (length path) of
        None \<Rightarrow> None
      | Some i \<Rightarrow> Some (if i = 0 then ''/'' else take i path))"

section \<open>What a path means\<close>

text \<open>A directory is the list of the names that lead to it.  \<open>split\<close> cuts a path at its
  slashes, \<open>enter\<close> is one step along it; an empty component ends the walk.\<close>

definition path_of :: "string list \<Rightarrow> string" where
  "path_of ds = (if ds = [] then ''/'' else concat (map (\<lambda>d. CHR ''/'' # d) ds))"

fun split :: "string \<Rightarrow> string list" where
  "split [] = [[]]"
| "split (c # path) = (if c = CHR ''/'' then [] # split path else (c # hd (split path)) # tl (split path))"

definition names :: "string \<Rightarrow> string list" where
  "names path = takeWhile (\<lambda>d. d \<noteq> []) (split path)"

definition enter :: "string \<Rightarrow> string list \<Rightarrow> string list" where
  "enter d ds = (if d = ''.'' then ds else if d = ''..'' then butlast ds else ds @ [d])"

definition good_names :: "string list \<Rightarrow> bool" where
  "good_names ds = (\<forall>d\<in>set ds. d \<noteq> [] \<and> CHR ''/'' \<notin> set d)"

lemma split_not_Nil [simp]: "split path \<noteq> []"
  by (cases path) auto

lemma slash_before_take: "k \<le> length p \<Longrightarrow> slash_before (p @ q) k = slash_before p k"
  by (induction k) (auto simp: nth_append)

lemma slash_before_last:
  "CHR ''/'' \<notin> set d \<Longrightarrow> k \<le> length d \<Longrightarrow> slash_before (p @ CHR ''/'' # d) (length p + 1 + k) = Some (length p)"
proof (induction k)
  case (Suc k)
  then have "d ! k \<in> set d" by simp
  then have "d ! k \<noteq> CHR ''/''" using Suc.prems(1) by metis
  then show ?case using Suc by (simp add: nth_append)
qed (simp add: nth_append)

lemma slash_before_end: "CHR ''/'' \<notin> set d \<Longrightarrow> slash_before (p @ CHR ''/'' # d) (length p + 1 + length d) = Some (length p)"
  by (rule slash_before_last) simp_all

lemma slash_before_none: "CHR ''/'' \<notin> set path \<Longrightarrow> k \<le> length path \<Longrightarrow> slash_before path k = None"
  by (induction k) (auto simp: in_set_conv_nth Suc_le_eq)

lemma good_names_simps [simp]:
  "good_names []" "good_names (ds @ [d]) \<longleftrightarrow> good_names ds \<and> d \<noteq> [] \<and> CHR ''/'' \<notin> set d"
  "good_names (d # ds) \<longleftrightarrow> d \<noteq> [] \<and> CHR ''/'' \<notin> set d \<and> good_names ds"
  by (auto simp: good_names_def)

lemma good_names_butlast [simp]: "good_names ds \<Longrightarrow> good_names (butlast ds)"
  by (auto simp: good_names_def dest: in_set_butlastD)

lemma path_of_snoc: "path_of (ds @ [d]) = (if ds = [] then [] else path_of ds) @ CHR ''/'' # d"
  by (simp add: path_of_def)

lemma path_of_Nil [simp]: "path_of [] = ''/''"
  by (simp add: path_of_def)

lemma path_of_root [simp]: "good_names ds \<Longrightarrow> path_of ds = ''/'' \<longleftrightarrow> ds = []"
  by (cases ds rule: rev_cases) (auto simp: path_of_snoc dest: arg_cong [of _ _ length])

lemma path_of_not_Nil [simp]: "path_of ds \<noteq> []"
  by (cases ds) (simp_all add: path_of_def)

lemma nandRemoveTailToken_path: "good_names ds \<Longrightarrow> nandRemoveTailToken (path_of ds) = Some (path_of (butlast ds))"
proof (cases ds rule: rev_cases)
  case (snoc es d)
  assume g: "good_names ds"
  let ?p = "if es = [] then [] else path_of es"
  have "slash_before (path_of ds) (length (path_of ds)) = Some (length ?p)"
    using g slash_before_end [of d ?p] by (simp add: snoc path_of_snoc)
  moreover have "take (length ?p) (path_of ds) = ?p" by (simp add: snoc path_of_snoc)
  ultimately show ?thesis using g by (simp add: nandRemoveTailToken_def snoc)
qed (simp add: nandRemoveTailToken_def)

lemma split_head:
  "nandGetHeadToken path = (head, rest) \<Longrightarrow> CHR ''/'' \<notin> set head \<and> hd (split path) = head
    \<and> takeWhile (\<lambda>d. d \<noteq> []) (tl (split path)) = names rest"
proof (induction path arbitrary: head)
  case (Cons c path)
  obtain h r where hr: "nandGetHeadToken path = (h, r)" by fastforce
  show ?case
  proof (cases "c = CHR ''/''")
    case True
    then show ?thesis using Cons.prems by (auto simp: names_def)
  next
    case False
    then have "head = c # h" "rest = r" using Cons.prems hr by simp_all
    then show ?thesis using Cons.IH [of h] hr False by auto
  qed
qed (simp add: names_def)

lemma head_names:
  assumes "nandGetHeadToken path = (head, rest)"
  shows "CHR ''/'' \<notin> set head" "names path = (if head = [] then [] else head # names rest)"
proof -
  have "split path = hd (split path) # tl (split path)" by simp
  then have "names path = takeWhile (\<lambda>d. d \<noteq> []) (hd (split path) # tl (split path))" by (simp add: names_def)
  then show "CHR ''/'' \<notin> set head" "names path = (if head = [] then [] else head # names rest)"
    using split_head [OF assms] by simp_all
qed

text \<open>The conversion is a walk along the names in front of the first empty one.\<close>

lemma nandConvertPath_walks:
  "good_names ds \<Longrightarrow> nandConvertPath (path_of ds) rel = Some (path_of (fold enter (names rel) ds))
    \<and> good_names (fold enter (names rel) ds)"
proof (induction "length rel" arbitrary: ds rel rule: less_induct)
  case less
  show ?case
  proof (cases "rel = []")
    case True
    then show ?thesis using less.prems by (simp add: nandConvertPath.simps names_def)
  next
    case False
    obtain head rest where h: "nandGetHeadToken rel = (head, rest)" by fastforce
    have l: "length rest < length rel" using nandGetHeadToken_length [OF h False] .
    note n = head_names [OF h]
    have dd: "path_of (ds @ [head]) = (if path_of ds = ''/'' then ''/'' @ head else path_of ds @ ''/'' @ head)"
      using less.prems by (simp add: path_of_snoc)
    have g: "head \<noteq> [] \<Longrightarrow> good_names (enter head ds)" using less.prems n(1) by (simp add: enter_def)
    have "nandConvertPath (path_of ds) rel = (if head = [] then Some (path_of ds) else nandConvertPath (path_of (enter head ds)) rest)"
      using False by (subst nandConvertPath.simps)
        (simp add: h enter_def nandRemoveTailToken_path [OF less.prems] dd)
    then show ?thesis using less.hyps [OF l g] less.prems by (simp add: n(2))
  qed
qed

text \<open>A result needs at most the characters of the current directory and of the relative path,
  and one slash between them: with 62 of them it fits the buffers of 64 bytes.\<close>

lemma path_of_length: "length (path_of ds) = (if ds = [] then 1 else (\<Sum>d\<leftarrow>ds. length d + 1))"
  by (simp add: path_of_def length_concat comp_def)

lemma enter_length: "(\<Sum>d\<leftarrow>enter d ds. length d + 1) \<le> (\<Sum>d\<leftarrow>ds. length d + 1) + length d + 1"
  by (cases ds rule: rev_cases) (simp_all add: enter_def)

lemma names_length: "(\<Sum>d\<leftarrow>names path. length d + 1) \<le> length path + 1"
proof -
  have "(\<Sum>d\<leftarrow>split path. length d + 1) = length path + 1"
  proof (induction path)
    case (Cons c path)
    show ?case using Cons by (cases "split path") auto
  qed simp
  moreover have "(\<Sum>d\<leftarrow>takeWhile P xs. length d + 1) \<le> (\<Sum>d\<leftarrow>xs. length d + 1)" for P and xs :: "string list"
    by (induction xs) auto
  ultimately show ?thesis by (metis names_def)
qed

lemma abs_path_fits:
  "length (path_of (fold enter (names rel) ds)) \<le> length (path_of ds) + length rel + 1"
proof -
  have "(\<Sum>d\<leftarrow>fold enter ns ds. length d + 1) \<le> (\<Sum>d\<leftarrow>ds. length d + 1) + (\<Sum>d\<leftarrow>ns. length d + 1)" for ns
  proof (induction ns arbitrary: ds)
    case (Cons n ns)
    show ?case using Cons.IH [of "enter n ds"] enter_length [of n ds] by simp
  qed simp
  from this [of "names rel"] names_length [of rel] show ?thesis
    by (auto simp: path_of_length)
qed

text \<open>C35. A relative path leads where its names lead from the current directory: \<open>.\<close>
  stays, \<open>..\<close> goes up, another name goes down, and an empty name (two slashes in a row) ends
  the walk.  The path of a directory stands for itself, with or without a final slash, whatever
  the current directory is.\<close>

theorem nandGenerateAbsPath_resolves:
  assumes ds: "good_names ds"
  shows "(rel \<noteq> [] \<and> hd rel \<noteq> CHR ''/'' \<longrightarrow>
      nandGenerateAbsPath (path_of ds) rel = Some (path_of (fold enter (names rel) ds)) \<and> good_names (fold enter (names rel) ds))
    \<and> nandGenerateAbsPath cur (path_of ds) = Some (path_of ds)
    \<and> nandGenerateAbsPath cur (path_of ds @ ''/'') = Some (path_of ds)"
proof (intro conjI impI)
  assume "rel \<noteq> [] \<and> hd rel \<noteq> CHR ''/''"
  then show "nandGenerateAbsPath (path_of ds) rel = Some (path_of (fold enter (names rel) ds))"
    "good_names (fold enter (names rel) ds)"
    using nandConvertPath_walks [OF ds, of rel] by (cases rel; simp add: nandGenerateAbsPath_def nandIsRelativePath_def)+
next
  have h: "hd (path_of ds) = CHR ''/''" by (cases ds) (simp_all add: path_of_def)
  have l: "ds \<noteq> [] \<Longrightarrow> last (path_of ds) \<noteq> CHR ''/''"
    using ds by (cases ds rule: rev_cases) (auto simp: path_of_snoc dest: last_in_set)
  show "nandGenerateAbsPath cur (path_of ds) = Some (path_of ds)"
    using h l by (cases "path_of ds"; cases "ds = []") (auto simp: nandGenerateAbsPath_def nandIsRelativePath_def)
  show "nandGenerateAbsPath cur (path_of ds @ ''/'') = Some (path_of ds)"
    using h by (cases "path_of ds") (auto simp: nandGenerateAbsPath_def nandIsRelativePath_def)
qed

text \<open>The current directory \<^verbatim>\<open>/title/data\<close>; the name behind the double slash is lost.\<close>

theorem nandGenerateAbsPath_resolves_witness:
  "nandGenerateAbsPath ''/title/data'' ''../x/./save//lost'' = Some ''/title/x/save''"
proof -
  have "path_of [''title'', ''data''] = ''/title/data''" "names ''../x/./save//lost'' = [''..'', ''x'', ''.'', ''save'']"
    by (simp_all add: path_of_def names_def)
  then show ?thesis
    using nandGenerateAbsPath_resolves [of "[''title'', ''data'']" "''../x/./save//lost''" "[]"]
    by (simp add: enter_def path_of_def)
qed

end
