(* ===== verification/ScJobs.thy ===== *)
theory ScJobs
  imports ScDict NandPath
begin

text \<open>
  \<^verbatim>\<open>sc/scsystem.c\<close>, the part that works with the NAND: loading the two files at start
  (\<^verbatim>\<open>SCInit\<close>, the callbacks \<^verbatim>\<open>...FromReload\<close>, \<^verbatim>\<open>SCCheckStatus\<close>) and
  writing the settings back (\<^verbatim>\<open>SCFlushAsync\<close>, \<^verbatim>\<open>MyNandCallback\<close>).  The NAND
  library is a parameter: \<open>nand k\<close> is what its \<open>k\<close>-th call returns; a call that it accepts
  becomes the pending request, and \<open>on_nand\<close> delivers an answer to the callback the request
  named.  One request is pending at a time because all share one command block.
\<close>

section \<open>State\<close>

definition SC_STATUS_OK :: int where "SC_STATUS_OK = 0"
definition SC_STATUS_BUSY :: int where "SC_STATUS_BUSY = 1"
definition SC_STATUS_FATAL :: int where "SC_STATUS_FATAL = 2"
definition SC_STATUS_PARSE :: int where "SC_STATUS_PARSE = 3"

definition SC_CONF_FILE_SYSTEM :: nat where "SC_CONF_FILE_SYSTEM = 0"
definition SC_CONF_FILE_PRODUCT :: nat where "SC_CONF_FILE_PRODUCT = 1"
definition SC_CONF_FILE_MAX :: nat where "SC_CONF_FILE_MAX = 2"
definition PRDINFO_SIZE :: int where "PRDINFO_SIZE = 0x100"

lemmas sc_consts = NAND_RESULT_OK_def NAND_RESULT_FATAL_ERROR_def NAND_FILE_TYPE_FILE_def NAND_FILE_TYPE_DIR_def
  NAND_PERM_RWALL_def SC_STATUS_OK_def SC_STATUS_BUSY_def SC_STATUS_FATAL_def SC_STATUS_PARSE_def
  SC_CONF_FILE_SYSTEM_def SC_CONF_FILE_PRODUCT_def SC_CONF_FILE_MAX_def

datatype sc_path = SysConf | ProductInfo | ConfDir

datatype nand_req =
    NandOpen sc_path int
  | NandRead sc_buffer int
  | NandWrite sc_buffer int
  | NandClose
  | NandGetType sc_path
  | NandGetStatus sc_path
  | NandDelete sc_path
  | NandCreateDir sc_path int
  | NandCreate sc_path int

datatype nand_cb = OpenCallback | ReadCallback | CloseCallback | CloseCallbackError | FlushCallback

datatype flush_cb = SyncCallback | UserCallback nat

text \<open>
  \<open>fileType\<close> and \<open>filePerm\<close> share memory in the C union; each is read only in the callback of
  the request that wrote it.  \<open>told\<close> logs the calls of flush callbacks, \<open>answered\<close> the
  answers of the NAND, \<open>sc_queue\<close> is \<^verbatim>\<open>Control.threadQueue\<close>.
\<close>

record sc_job = sc_state +
  Initialized :: bool
  BgJobStatus :: int
  nandCbState :: nat
  isFileOpen :: bool
  openFileType :: nat
  fileType :: int
  filePerm :: int
  asyncCallback :: "nat option"
  asyncResult :: int
  filePaths :: "nat \<Rightarrow> sc_path"
  fileBuffers :: "nat \<Rightarrow> sc_buffer"
  bufferSizes :: "nat \<Rightarrow> int"
  fileSizes :: "nat \<Rightarrow> int"
  flushCallback :: "flush_cb option"
  flushStatus :: int
  flushSize :: int
  sc_queue :: "nat list"
  told :: "(flush_cb \<times> int) list"
  pending :: "(nand_req \<times> nand_cb) option"
  nand_calls :: nat
  answered :: "(nand_req \<times> int) list"

definition call_nand :: "(nat \<Rightarrow> int) \<Rightarrow> nand_req \<Rightarrow> nand_cb \<Rightarrow> sc_job \<Rightarrow> int \<times> sc_job" where
  "call_nand nand req cb s =
     (let ret = nand (nand_calls s);
          s = s\<lparr>nand_calls := nand_calls s + 1\<rparr>
      in (ret, if ret = NAND_RESULT_OK then s\<lparr>pending := Some (req, cb)\<rparr> else s))"

definition SetBgJobStatus :: "int \<Rightarrow> sc_job \<Rightarrow> sc_job" where
  "SetBgJobStatus status s = s\<lparr>BgJobStatus := status\<rparr>"

section \<open>Loading\<close>

definition finish_reload :: "sc_job \<Rightarrow> sc_job" where
  "finish_reload s =
     (let s = (if asyncResult s = NAND_RESULT_OK then s
               else let s = ClearConfBuf (fileBuffers s SC_CONF_FILE_SYSTEM) s
                    in s\<lparr>fileSizes := (fileSizes s)(SC_CONF_FILE_SYSTEM := bufferSizes s SC_CONF_FILE_SYSTEM)\<rparr>);
          s = put_buf PrdInfo ((sc_mem s PrdInfo)(PRDINFO_SIZE - 1 := 0)) s;
          s = s\<lparr>asyncCallback := None\<rparr>
      in SetBgJobStatus SC_STATUS_PARSE s)"

function FinishFromReload :: "(nat \<Rightarrow> int) \<Rightarrow> sc_job \<Rightarrow> sc_job" where
  "FinishFromReload nand s =
     (let s = s\<lparr>openFileType := openFileType s + 1\<rparr>
      in if openFileType s < SC_CONF_FILE_MAX
         then case call_nand nand (NandOpen (filePaths s (openFileType s)) NAND_ACCESS_READ) OpenCallback
                     (s\<lparr>isFileOpen := False\<rparr>) of
                (ret, s) \<Rightarrow> if ret = NAND_RESULT_OK then s else FinishFromReload nand s
         else finish_reload s)"
  by pat_completeness auto
termination
  by (relation "measure (\<lambda>(nand, s). SC_CONF_FILE_MAX - openFileType s)") (auto simp: call_nand_def Let_def split: if_splits)

declare FinishFromReload.simps [simp del]

definition ErrorFromReload :: "(nat \<Rightarrow> int) \<Rightarrow> int \<Rightarrow> sc_job \<Rightarrow> sc_job" where
  "ErrorFromReload nand result s =
     (let s = (if openFileType s = SC_CONF_FILE_SYSTEM then s\<lparr>asyncResult := result\<rparr> else s);
          s = s\<lparr>fileSizes := (fileSizes s)(openFileType s := 0)\<rparr>
      in if \<not> isFileOpen s then FinishFromReload nand s
         else case call_nand nand NandClose CloseCallbackError s of
                (ret, s) \<Rightarrow> if ret \<noteq> NAND_RESULT_OK then FinishFromReload nand s else s)"

definition OpenCallbackFromReload :: "(nat \<Rightarrow> int) \<Rightarrow> int \<Rightarrow> sc_job \<Rightarrow> sc_job" where
  "OpenCallbackFromReload nand result s =
     (if result = NAND_RESULT_OK
      then let s = s\<lparr>isFileOpen := True\<rparr>; t = openFileType s
           in case call_nand nand (NandRead (fileBuffers s t) (bufferSizes s t)) ReadCallback s of
                (ret, s) \<Rightarrow> if ret = NAND_RESULT_OK then s else ErrorFromReload nand result s
      else ErrorFromReload nand result s)"

definition ReadCallbackFromReload :: "(nat \<Rightarrow> int) \<Rightarrow> int \<Rightarrow> sc_job \<Rightarrow> sc_job" where
  "ReadCallbackFromReload nand result s =
     (let err = (if result \<noteq> NAND_RESULT_OK then result else NAND_RESULT_FATAL_ERROR); t = openFileType s
      in if u32 result = bufferSizes s t
         then let s = s\<lparr>fileSizes := (fileSizes s)(t := u32 result), isFileOpen := False\<rparr>
              in case call_nand nand NandClose CloseCallback s of
                   (ret, s) \<Rightarrow> if ret = NAND_RESULT_OK then s else ErrorFromReload nand err s
         else ErrorFromReload nand err s)"

definition CloseCallbackFromReload :: "(nat \<Rightarrow> int) \<Rightarrow> int \<Rightarrow> sc_job \<Rightarrow> sc_job" where
  "CloseCallbackFromReload nand result s =
     (if result = NAND_RESULT_OK then FinishFromReload nand s else ErrorFromReload nand result s)"

definition CloseCallbackFromReloadError :: "(nat \<Rightarrow> int) \<Rightarrow> int \<Rightarrow> sc_job \<Rightarrow> sc_job" where
  "CloseCallbackFromReloadError nand result s = FinishFromReload nand s"

text \<open>The callback that \<^verbatim>\<open>SCReloadConfFileAsync\<close> takes is always NULL here: its only
  caller is \<^verbatim>\<open>SCInit\<close>, which also gives it \<^verbatim>\<open>ConfBuf\<close>.\<close>

definition SCReloadConfFileAsync :: "(nat \<Rightarrow> int) \<Rightarrow> sc_buffer \<Rightarrow> int \<Rightarrow> sc_job \<Rightarrow> int \<times> sc_job" where
  "SCReloadConfFileAsync nand b sz s =
     (if sz < SCGetConfBufSize then (NAND_RESULT_FATAL_ERROR, s)
      else
        let s = SetBgJobStatus SC_STATUS_BUSY s;
            s = s\<lparr>asyncCallback := None, asyncResult := NAND_RESULT_OK, openFileType := 0, fileSizes := \<lambda>_. 0,
                  filePaths := (filePaths s)(SC_CONF_FILE_SYSTEM := SysConf, SC_CONF_FILE_PRODUCT := ProductInfo),
                  fileBuffers := (fileBuffers s)(SC_CONF_FILE_SYSTEM := b, SC_CONF_FILE_PRODUCT := PrdInfo),
                  bufferSizes := (bufferSizes s)(SC_CONF_FILE_SYSTEM := SCGetConfBufSize, SC_CONF_FILE_PRODUCT := PRDINFO_SIZE)\<rparr>;
            s = ClearConfBuf b s;
            s = s\<lparr>ItemIDOffsetTblOffset := 0, ItemNumTotal := 0, ItemRestSize := 0, isFileOpen := False\<rparr>
        in call_nand nand (NandOpen (filePaths s (openFileType s)) NAND_ACCESS_READ) OpenCallback s)"

definition SCInit :: "(nat \<Rightarrow> int) \<Rightarrow> int \<Rightarrow> sc_job \<Rightarrow> sc_job" where
  "SCInit nand nand_init s =
     (case OSDisableInterrupts s of (enabled, s) \<Rightarrow>
      if Initialized s then OSRestoreInterrupts enabled s
      else
        let s = SetBgJobStatus SC_STATUS_BUSY (s\<lparr>Initialized := True\<rparr>);
            s = OSRestoreInterrupts enabled s;
            s = s\<lparr>sc_queue := []\<rparr>
        in if nand_init \<noteq> NAND_RESULT_OK then SetBgJobStatus SC_STATUS_FATAL s
           else case SCReloadConfFileAsync nand SCGetConfBuf SCGetConfBufSize s of
                  (ret, s) \<Rightarrow> if ret \<noteq> NAND_RESULT_OK then SetBgJobStatus SC_STATUS_FATAL s else s)"

definition SCCheckStatus :: "sc_job \<Rightarrow> int \<times> sc_job" where
  "SCCheckStatus s =
     (case OSDisableInterrupts s of (enabled, s) \<Rightarrow>
      if BgJobStatus s = SC_STATUS_PARSE
      then
        let s = OSRestoreInterrupts enabled (SetBgJobStatus SC_STATUS_BUSY s);
            b = fileBuffers s SC_CONF_FILE_SYSTEM
        in case ParseConfBuf b (fileSizes s SC_CONF_FILE_SYSTEM) s of (ok, s) \<Rightarrow>
           let (enabled, s) = OSDisableInterrupts s;
               s = (if ok
                    then if SCGetConfBuf \<noteq> b
                         then put_buf SCGetConfBuf (memcpy 0 (bytes_of (sc_mem s b) 0 SCGetConfBufSize) (sc_mem s SCGetConfBuf)) s
                         else s
                    else ClearConfBuf b s);
               s = OSRestoreInterrupts enabled (SCClearDirtyFlag s)
           in (SC_STATUS_OK, SetBgJobStatus SC_STATUS_OK s)
      else (BgJobStatus s, OSRestoreInterrupts enabled s))"

section \<open>Writing back\<close>

definition wake_queue :: "sc_job \<Rightarrow> sc_job" where
  "wake_queue s = s\<lparr>sc_queue := []\<rparr>"

definition tell :: "flush_cb \<Rightarrow> int \<Rightarrow> sc_job \<Rightarrow> sc_job" where
  "tell cb status s =
     (let s = s\<lparr>told := told s @ [(cb, status)]\<rparr>
      in case cb of SyncCallback \<Rightarrow> wake_queue s | UserCallback _ \<Rightarrow> s)"

definition FinishFromFlush :: "sc_job \<Rightarrow> sc_job" where
  "FinishFromFlush s =
     (let s = (if flushStatus s \<noteq> SC_STATUS_OK then SCSetDirtyFlag s else s);
          s = (case flushCallback s of None \<Rightarrow> s
               | Some cb \<Rightarrow>
                   let s = tell cb (flushStatus s) (s\<lparr>flushCallback := None\<rparr>)
                   in if sc_queue s \<noteq> [] then wake_queue s else s)
      in SetBgJobStatus (flushStatus s) s)"

definition ErrorFromFlush :: "(nat \<Rightarrow> int) \<Rightarrow> sc_job \<Rightarrow> sc_job" where
  "ErrorFromFlush nand s =
     (let s = s\<lparr>flushStatus := SC_STATUS_FATAL\<rparr>
      in if isFileOpen s
         then case call_nand nand NandClose FlushCallback (s\<lparr>nandCbState := 9\<rparr>) of
                (ret, s) \<Rightarrow> if ret = NAND_RESULT_OK then s else FinishFromFlush s
         else FinishFromFlush s)"

definition flush_next :: "(nat \<Rightarrow> int) \<Rightarrow> nat \<Rightarrow> nand_req \<Rightarrow> sc_job \<Rightarrow> sc_job" where
  "flush_next nand st req s =
     (case call_nand nand req FlushCallback (s\<lparr>nandCbState := st\<rparr>) of
        (ret, s) \<Rightarrow> if ret \<noteq> NAND_RESULT_OK then ErrorFromFlush nand s else s)"

definition MyNandCallback :: "(nat \<Rightarrow> int) \<Rightarrow> int \<Rightarrow> sc_job \<Rightarrow> sc_job" where
  "MyNandCallback nand result s =
     (let delete = flush_next nand 2 (NandDelete SysConf);
          create = flush_next nand 5 (NandCreate SysConf NAND_PERM_RWALL);
          open_it = flush_next nand 6 (NandOpen SysConf NAND_ACCESS_WRITE);
          st = nandCbState s
      in if st = 0 then
           if result = NAND_RESULT_OK \<and> fileType s = NAND_FILE_TYPE_FILE
           then flush_next nand 1 (NandGetStatus SysConf) s else delete s
         else if st = 1 then
           if result = NAND_RESULT_OK \<and> filePerm s = NAND_PERM_RWALL then open_it s else delete s
         else if st = 2 then flush_next nand 3 (NandGetType ConfDir) s
         else if st = 3 then
           if result = NAND_RESULT_OK \<and> fileType s = NAND_FILE_TYPE_DIR then create s
           else flush_next nand 4 (NandCreateDir ConfDir NAND_PERM_RWALL) s
         else if st = 4 then create s
         else if st = 5 then open_it s
         else if st = 6 then
           if result \<noteq> NAND_RESULT_OK then ErrorFromFlush nand s
           else flush_next nand 7 (NandWrite ConfBufForFlush (flushSize s)) (s\<lparr>isFileOpen := True\<rparr>)
         else if st = 7 then
           if u32 result \<noteq> flushSize s then ErrorFromFlush nand s
           else flush_next nand 8 NandClose (s\<lparr>isFileOpen := False\<rparr>)
         else if st = 8 then
           if result \<noteq> NAND_RESULT_OK then ErrorFromFlush nand s else FinishFromFlush s
         else if st = 9 then FinishFromFlush s
         else s)"

definition SCFlushAsync :: "(nat \<Rightarrow> int) \<Rightarrow> flush_cb option \<Rightarrow> sc_job \<Rightarrow> sc_job" where
  "SCFlushAsync nand cb s =
     (case OSDisableInterrupts s of (enabled, s) \<Rightarrow>
      let status = BgJobStatus s
      in if status = SC_STATUS_OK
         then
           let s = SetBgJobStatus SC_STATUS_BUSY s;
               cb = (case cb of None \<Rightarrow> SyncCallback | Some cb \<Rightarrow> cb);
               s = s\<lparr>flushCallback := Some cb, flushStatus := SC_STATUS_OK, isFileOpen := False, flushSize := SCGetConfBufSize\<rparr>
           in if \<not> SCIsDirty s then FinishFromFlush (OSRestoreInterrupts enabled s)
              else
                let s = SCClearDirtyFlag s;
                    s = put_buf ConfBufForFlush
                          (memcpy 0 (bytes_of (sc_mem s SCGetConfBuf) 0 SCGetConfBufSize) (sc_mem s ConfBufForFlush)) s;
                    s = OSRestoreInterrupts enabled s
                in flush_next nand 0 (NandGetType SysConf) s
         else
           let s = (case cb of None \<Rightarrow> s
                    | Some cb \<Rightarrow> tell cb (if status = SC_STATUS_BUSY then status else SC_STATUS_FATAL) s)
           in OSRestoreInterrupts enabled s)"

section \<open>Answers of the NAND\<close>

record nand_answer =
  na_result :: int
  na_value :: int
  na_data :: bytes

definition nand_effect :: "nand_req \<Rightarrow> nand_answer \<Rightarrow> sc_job \<Rightarrow> sc_job" where
  "nand_effect req a s =
     (case req of
        NandRead b n \<Rightarrow> put_buf b (\<lambda>x. if 0 \<le> x \<and> x < na_result a \<and> x < n then na_data a x else sc_mem s b x) s
      | NandGetType _ \<Rightarrow> if na_result a = NAND_RESULT_OK then s\<lparr>fileType := u8 (na_value a)\<rparr> else s
      | NandGetStatus _ \<Rightarrow> if na_result a = NAND_RESULT_OK then s\<lparr>filePerm := u8 (na_value a)\<rparr> else s
      | _ \<Rightarrow> s)"

definition on_nand :: "(nat \<Rightarrow> int) \<Rightarrow> nand_answer \<Rightarrow> sc_job \<Rightarrow> sc_job" where
  "on_nand nand a s =
     (case pending s of None \<Rightarrow> s | Some (req, cb) \<Rightarrow>
        let result = na_result a;
            s = nand_effect req a (s\<lparr>pending := None, answered := answered s @ [(req, result)]\<rparr>)
        in case cb of
             OpenCallback \<Rightarrow> OpenCallbackFromReload nand result s
           | ReadCallback \<Rightarrow> ReadCallbackFromReload nand result s
           | CloseCallback \<Rightarrow> CloseCallbackFromReload nand result s
           | CloseCallbackError \<Rightarrow> CloseCallbackFromReloadError nand result s
           | FlushCallback \<Rightarrow> MyNandCallback nand result s)"

definition answers :: "(nat \<Rightarrow> int) \<Rightarrow> nand_answer list \<Rightarrow> sc_job \<Rightarrow> sc_job" where
  "answers nand as s = fold (on_nand nand) as s"

end
