(* ===== verification/ScJobProps.thy ===== *)
theory ScJobProps
  imports ScJobs
begin

text \<open>
  What the settings component guarantees towards the NAND: a flush ends with one call of its
  callback whatever the NAND answers, and reports success only for a file that was written
  and closed; the loading at start ends, and a well-formed file that could be read is what the
  dictionary holds afterwards.
\<close>

section \<open>Writing back\<close>

definition req_of :: "nat \<Rightarrow> nand_req" where
  "req_of k = [NandGetType SysConf, NandGetStatus SysConf, NandDelete SysConf, NandGetType ConfDir,
     NandCreateDir ConfDir NAND_PERM_RWALL, NandCreate SysConf NAND_PERM_RWALL,
     NandOpen SysConf NAND_ACCESS_WRITE, NandWrite ConfBufForFlush 0x4000, NandClose, NandClose] ! k"

definition flushing :: "flush_cb \<Rightarrow> (flush_cb \<times> int) list \<Rightarrow> bytes \<Rightarrow> sc_job \<Rightarrow> bool" where
  "flushing cb T M s \<longleftrightarrow> flushCallback s = Some cb \<and> told s = T \<and> flushSize s = 0x4000
     \<and> BgJobStatus s = SC_STATUS_BUSY \<and> sc_mem s ConfBufForFlush = M"

definition in_flight :: "flush_cb \<Rightarrow> (flush_cb \<times> int) list \<Rightarrow> bytes \<Rightarrow> nat \<Rightarrow> sc_job \<Rightarrow> bool" where
  "in_flight cb T M k s \<longleftrightarrow> flushing cb T M s \<and> k \<le> 9 \<and> nandCbState s = k
     \<and> pending s = Some (req_of k, FlushCallback)
     \<and> flushStatus s = (if k = 9 then SC_STATUS_FATAL else SC_STATUS_OK) \<and> isFileOpen s = (k = 7 \<or> k = 9)
     \<and> (k = 8 \<longrightarrow> (\<exists>as r. answered s = as @ [(NandWrite ConfBufForFlush 0x4000, r)] \<and> u32 r = 0x4000))"

definition landed :: "flush_cb \<Rightarrow> (flush_cb \<times> int) list \<Rightarrow> bytes \<Rightarrow> sc_job \<Rightarrow> bool" where
  "landed cb T M s \<longleftrightarrow> pending s = None \<and> flushCallback s = None \<and> told s = T @ [(cb, flushStatus s)]
     \<and> BgJobStatus s = flushStatus s \<and> sc_mem s ConfBufForFlush = M
     \<and> (flushStatus s = SC_STATUS_OK
          \<and> (\<exists>as r. answered s = as @ [(NandWrite ConfBufForFlush 0x4000, r), (NandClose, NAND_RESULT_OK)] \<and> u32 r = 0x4000)
        \<or> flushStatus s = SC_STATUS_FATAL \<and> DirtyFlag s)"

lemma FinishFromFlush_simps [simp]:
  "pending (FinishFromFlush s) = pending s" "flushStatus (FinishFromFlush s) = flushStatus s"
  "BgJobStatus (FinishFromFlush s) = flushStatus s" "sc_mem (FinishFromFlush s) = sc_mem s"
  "answered (FinishFromFlush s) = answered s" "flushCallback (FinishFromFlush s) = None"
  "flushStatus s \<noteq> SC_STATUS_OK \<Longrightarrow> DirtyFlag (FinishFromFlush s)"
  "flushCallback s = Some cb \<Longrightarrow> told (FinishFromFlush s) = told s @ [(cb, flushStatus s)]"
  by (auto simp: FinishFromFlush_def Let_def tell_def wake_queue_def SetBgJobStatus_def SCSetDirtyFlag_def
      split: option.splits flush_cb.splits)

lemma FinishFromFlush_failed:
  "flushing cb T M s \<Longrightarrow> pending s = None \<Longrightarrow> flushStatus s = SC_STATUS_FATAL \<Longrightarrow> landed cb T M (FinishFromFlush s)"
  by (simp add: flushing_def landed_def sc_consts)

lemma ErrorFromFlush_ends:
  assumes "flushing cb T M s" "pending s = None"
  shows "landed cb T M (ErrorFromFlush nand s) \<or> in_flight cb T M 9 (ErrorFromFlush nand s)"
proof (cases "isFileOpen s \<and> nand (nand_calls s) = NAND_RESULT_OK")
  case True
  then have "in_flight cb T M 9 (ErrorFromFlush nand s)"
    using assms by (simp add: ErrorFromFlush_def call_nand_def Let_def in_flight_def flushing_def req_of_def)
  then show ?thesis ..
next
  case False
  then have "landed cb T M (ErrorFromFlush nand s)"
    using assms by (auto simp: ErrorFromFlush_def call_nand_def Let_def flushing_def intro!: FinishFromFlush_failed)
  then show ?thesis ..
qed

lemma flush_next_goes:
  assumes "flushing cb T M s" "pending s = None" "st < 9" "req = req_of st" "isFileOpen s = (st = 7)"
    "flushStatus s = SC_STATUS_OK"
    "st = 8 \<longrightarrow> (\<exists>as r. answered s = as @ [(NandWrite ConfBufForFlush 0x4000, r)] \<and> u32 r = 0x4000)"
  shows "landed cb T M (flush_next nand st req s) \<or> in_flight cb T M st (flush_next nand st req s)
    \<or> in_flight cb T M 9 (flush_next nand st req s)"
proof (cases "nand (nand_calls s) = NAND_RESULT_OK")
  case True
  then have "in_flight cb T M st (flush_next nand st req s)"
    using assms by (simp add: flush_next_def call_nand_def Let_def in_flight_def flushing_def)
  then show ?thesis by blast
next
  case False
  let ?s = "s\<lparr>nandCbState := st, nand_calls := nand_calls s + 1\<rparr>"
  have "flushing cb T M ?s" "pending ?s = None" using assms(1,2) by (simp_all add: flushing_def)
  from ErrorFromFlush_ends [OF this, of nand] show ?thesis
    using False by (auto simp: flush_next_def call_nand_def Let_def)
qed

definition onwards :: "flush_cb \<Rightarrow> (flush_cb \<times> int) list \<Rightarrow> bytes \<Rightarrow> nat \<Rightarrow> sc_job \<Rightarrow> bool" where
  "onwards cb T M k s \<longleftrightarrow> landed cb T M s \<or> (\<exists>k'>k. in_flight cb T M k' s)"

lemma onwards_next:
  assumes "flushing cb T M s" "pending s = None" "k < st" "st < 9" "req = req_of st" "isFileOpen s = (st = 7)"
    "flushStatus s = SC_STATUS_OK"
    "st = 8 \<longrightarrow> (\<exists>as r. answered s = as @ [(NandWrite ConfBufForFlush 0x4000, r)] \<and> u32 r = 0x4000)"
  shows "onwards cb T M k (flush_next nand st req s)"
  using flush_next_goes [OF assms(1,2,4-8), of nand] assms(3,4) by (auto simp: onwards_def)

lemma onwards_error:
  assumes "flushing cb T M s" "pending s = None" "k < 9"
  shows "onwards cb T M k (ErrorFromFlush nand s)"
  using ErrorFromFlush_ends [OF assms(1,2), of nand] assms(3) by (auto simp: onwards_def)

lemma nand_effect_simps [simp]:
  "pending (nand_effect req a s) = pending s" "flushStatus (nand_effect req a s) = flushStatus s"
  "isFileOpen (nand_effect req a s) = isFileOpen s" "nandCbState (nand_effect req a s) = nandCbState s"
  "answered (nand_effect req a s) = answered s" "flushSize (nand_effect req a s) = flushSize s"
  "flushCallback (nand_effect req a s) = flushCallback s" "told (nand_effect req a s) = told s"
  "BgJobStatus (nand_effect req a s) = BgJobStatus s" "nand_calls (nand_effect req a s) = nand_calls s"
  "openFileType (nand_effect req a s) = openFileType s" "asyncResult (nand_effect req a s) = asyncResult s"
  "fileSizes (nand_effect req a s) = fileSizes s" "fileBuffers (nand_effect req a s) = fileBuffers s"
  "bufferSizes (nand_effect req a s) = bufferSizes s" "filePaths (nand_effect req a s) = filePaths s"
  "ItemIDOffsetTblOffset (nand_effect req a s) = ItemIDOffsetTblOffset s"
  by (cases req; simp add: nand_effect_def put_buf_def)+

lemma nand_effect_mem:
  "(\<And>b n. req \<noteq> NandRead b n) \<Longrightarrow> sc_mem (nand_effect req a s) = sc_mem s"
  by (cases req) (auto simp: nand_effect_def)

lemma req_of_no_read: "k \<in> {0, 1, 2, 3, 4, 5, 6, 7, 8, 9} \<Longrightarrow> req_of k \<noteq> NandRead b n"
  by (elim insertE) (simp_all add: req_of_def)

lemma on_nand_flush:
  assumes f: "in_flight cb T M k s"
  shows "onwards cb T M k (on_nand nand a s)"
proof -
  obtain s1 where s1: "s1 = nand_effect (req_of k) a (s\<lparr>pending := None, answered := answered s @ [(req_of k, na_result a)]\<rparr>)"
    by blast
  have on: "on_nand nand a s = MyNandCallback nand (na_result a) s1"
    using f by (simp add: on_nand_def in_flight_def s1 Let_def)
  have k: "k \<in> {0, 1, 2, 3, 4, 5, 6, 7, 8, 9}" using f by (auto simp: in_flight_def)
  have same: "flushing cb T M s1" "pending s1 = None" "flushStatus s1 = flushStatus s" "isFileOpen s1 = isFileOpen s"
    "nandCbState s1 = k" "answered s1 = answered s @ [(req_of k, na_result a)]" "flushSize s1 = 0x4000"
    using f nand_effect_mem [OF req_of_no_read [OF k], of a] by (simp_all add: s1 in_flight_def flushing_def)
  have fl: "flushStatus s = (if k = 9 then SC_STATUS_FATAL else SC_STATUS_OK)" "isFileOpen s = (k = 7 \<or> k = 9)"
    using f by (simp_all add: in_flight_def)
  note next_step = onwards_next [of cb T M, where k = k] onwards_error [of cb T M, where k = k]
  have opened: "flushing cb T M (s1\<lparr>isFileOpen := b\<rparr>)" for b using same(1) by (simp add: flushing_def)
  consider "k < 6" | "k = 6" | "k = 7" | "k = 8" | "k = 9" using k by fastforce
  then show ?thesis
  proof cases
    case 1
    then consider "k = 0" | "k = 1" | "k = 2" | "k = 3" | "k = 4" | "k = 5" by linarith
    then show ?thesis
      unfolding on MyNandCallback_def Let_def same(5)
      by (cases; use same(1-4) fl in \<open>auto intro!: onwards_next simp: req_of_def\<close>)
  next
    case 2
    then show ?thesis
      unfolding on MyNandCallback_def Let_def same(5)
      using same fl opened by (auto intro!: onwards_next onwards_error simp: req_of_def)
  next
    case 3
    then have "answered s1 = answered s @ [(NandWrite ConfBufForFlush 0x4000, na_result a)]"
      using same(6) by (simp add: req_of_def)
    then show ?thesis
      unfolding on MyNandCallback_def Let_def same(5)
      using 3 same fl opened by (auto intro!: onwards_next onwards_error simp: req_of_def)
  next
    case 4
    then obtain as r where ar: "answered s1 = as @ [(NandWrite ConfBufForFlush 0x4000, r), (NandClose, na_result a)]" "u32 r = 0x4000"
      using f same(6) by (auto simp: in_flight_def req_of_def)
    show ?thesis
    proof (cases "na_result a = NAND_RESULT_OK")
      case True
      then have "landed cb T M (FinishFromFlush s1)"
        using ar same fl 4 by (auto simp: landed_def flushing_def)
      then show ?thesis unfolding on MyNandCallback_def Let_def same(5) using True 4 by (simp add: onwards_def)
    next
      case False
      then show ?thesis unfolding on MyNandCallback_def Let_def same(5)
        using 4 onwards_error [OF same(1,2), of 8] by simp
    qed
  next
    case 5
    then have "landed cb T M (FinishFromFlush s1)"
      using same fl by (intro FinishFromFlush_failed) simp_all
    then show ?thesis unfolding on MyNandCallback_def Let_def same(5) using 5 by (simp add: onwards_def)
  qed
qed

lemma answers_landed: "landed cb T M s \<Longrightarrow> landed cb T M (answers nand as s)"
  by (induction as arbitrary: s) (simp_all add: answers_def on_nand_def landed_def)

lemma answers_flush:
  "in_flight cb T M k s \<Longrightarrow> 10 \<le> k + length as \<Longrightarrow> landed cb T M (answers nand as s)"
proof (induction as arbitrary: k s)
  case Nil
  then show ?case by (simp add: in_flight_def)
next
  case (Cons a as)
  have "onwards cb T M k (on_nand nand a s)" by (rule on_nand_flush [OF Cons.prems(1)])
  then consider "landed cb T M (on_nand nand a s)" | k' where "k' > k" "in_flight cb T M k' (on_nand nand a s)"
    by (auto simp: onwards_def)
  then show ?case
  proof cases
    case 1
    then show ?thesis using answers_landed [OF 1, of nand as] by (simp add: answers_def)
  next
    case 2
    then show ?thesis using Cons.IH [OF 2(2)] Cons.prems(2) by (simp add: answers_def)
  qed
qed

text \<open>Who is told: a null callback stands for the one that only wakes the waiting threads.\<close>

definition told_one :: "flush_cb option \<Rightarrow> flush_cb" where
  "told_one cb = (case cb of None \<Rightarrow> SyncCallback | Some cb \<Rightarrow> cb)"

lemma SCFlushAsync_starts:
  assumes "BgJobStatus s = SC_STATUS_OK" "pending s = None" "DirtyFlag s"
  shows "landed (told_one cb) (told s) (memcpy 0 (bytes_of (sc_mem s ConfBuf) 0 0x4000) (sc_mem s ConfBufForFlush)) (SCFlushAsync nand cb s)
    \<or> in_flight (told_one cb) (told s) (memcpy 0 (bytes_of (sc_mem s ConfBuf) 0 0x4000) (sc_mem s ConfBufForFlush)) 0 (SCFlushAsync nand cb s)"
proof -
  let ?M = "memcpy 0 (bytes_of (sc_mem s ConfBuf) 0 0x4000) (sc_mem s ConfBufForFlush)"
  obtain s1 where s1: "s1 = OSRestoreInterrupts (irq_enabled s) (put_buf ConfBufForFlush ?M (SCClearDirtyFlag
      ((SetBgJobStatus SC_STATUS_BUSY (s\<lparr>irq_enabled := False\<rparr>))\<lparr>flushCallback := Some (told_one cb),
        flushStatus := SC_STATUS_OK, isFileOpen := False, flushSize := 0x4000\<rparr>)))" by blast
  have start: "SCFlushAsync nand cb s = flush_next nand 0 (NandGetType SysConf) s1"
    using assms(1,3)
    by (simp add: SCFlushAsync_def OSDisableInterrupts_def OSRestoreInterrupts_def Let_def SCIsDirty_def SetBgJobStatus_def
        SCGetConfBufSize_def SC_CONF_MAX_SIZE_def SCGetConfBuf_def SCClearDirtyFlag_def put_buf_def told_one_def s1)
  have "flushing (told_one cb) (told s) ?M s1" "pending s1 = None" "isFileOpen s1 = False" "flushStatus s1 = SC_STATUS_OK"
    using assms(2) by (simp_all add: s1 flushing_def OSRestoreInterrupts_def put_buf_def SCClearDirtyFlag_def SetBgJobStatus_def)
  then have "landed (told_one cb) (told s) ?M (flush_next nand 0 (NandGetType SysConf) s1)
      \<or> in_flight (told_one cb) (told s) ?M 0 (flush_next nand 0 (NandGetType SysConf) s1)"
  proof (cases "nand (nand_calls s1) = NAND_RESULT_OK")
    case True
    then show ?thesis
      using \<open>flushing (told_one cb) (told s) ?M s1\<close> \<open>isFileOpen s1 = False\<close> \<open>flushStatus s1 = SC_STATUS_OK\<close>
      by (simp add: flush_next_def call_nand_def Let_def in_flight_def flushing_def req_of_def)
  next
    case False
    let ?s = "s1\<lparr>nandCbState := 0, nand_calls := nand_calls s1 + 1, flushStatus := SC_STATUS_FATAL\<rparr>"
    have "landed (told_one cb) (told s) ?M (FinishFromFlush ?s)"
      using \<open>flushing (told_one cb) (told s) ?M s1\<close> \<open>pending s1 = None\<close>
      by (intro FinishFromFlush_failed) (simp_all add: flushing_def)
    then show ?thesis using False \<open>isFileOpen s1 = False\<close>
      by (simp add: flush_next_def call_nand_def Let_def ErrorFromFlush_def)
  qed
  then show ?thesis unfolding start .
qed

lemma copied_bytes:
  assumes "0 \<le> x" "x < n"
  shows "memcpy 0 (bytes_of M 0 n) N x = M x"
  using assms by (simp add: memcpy_def bytes_of_def)

text \<open>C32. A flush of changed settings ends after at most ten answers, whatever they are and
  whichever requests are refused: nothing is pending, the callback has been called exactly
  once, with the status that the component then has.  The status is success only if the whole
  copy of the settings was written and the file closed; otherwise the settings count as
  changed again, so that the next flush writes them.\<close>

theorem SCFlushAsync_ends:
  assumes "BgJobStatus s = SC_STATUS_OK" "pending s = None" "DirtyFlag s" "10 \<le> length as"
    and s': "s' = answers nand as (SCFlushAsync nand cb s)"
  shows "pending s' = None \<and> told s' = told s @ [(told_one cb, BgJobStatus s')] \<and> flushCallback s' = None
    \<and> (BgJobStatus s' = SC_STATUS_OK \<or> BgJobStatus s' = SC_STATUS_FATAL \<and> DirtyFlag s')
    \<and> (\<forall>x. 0 \<le> x \<and> x < 0x4000 \<longrightarrow> sc_mem s' ConfBufForFlush x = sc_mem s ConfBuf x)
    \<and> (BgJobStatus s' = SC_STATUS_OK \<longrightarrow>
      (\<exists>before r. answered s' = before @ [(NandWrite ConfBufForFlush 0x4000, r), (NandClose, NAND_RESULT_OK)] \<and> u32 r = 0x4000))"
proof (intro conjI allI impI)
  let ?M = "memcpy 0 (bytes_of (sc_mem s ConfBuf) 0 0x4000) (sc_mem s ConfBufForFlush)"
  have "landed (told_one cb) (told s) ?M s'"
    using SCFlushAsync_starts [OF assms(1-3), of cb nand] answers_landed answers_flush [of _ _ _ 0] assms(4) unfolding s' by auto
  then show "pending s' = None" "told s' = told s @ [(told_one cb, BgJobStatus s')]" "flushCallback s' = None"
    "BgJobStatus s' = SC_STATUS_OK \<or> BgJobStatus s' = SC_STATUS_FATAL \<and> DirtyFlag s'"
    "\<And>x. 0 \<le> x \<and> x < 0x4000 \<Longrightarrow> sc_mem s' ConfBufForFlush x = sc_mem s ConfBuf x"
    "BgJobStatus s' = SC_STATUS_OK \<Longrightarrow>
      \<exists>before r. answered s' = before @ [(NandWrite ConfBufForFlush 0x4000, r), (NandClose, NAND_RESULT_OK)] \<and> u32 r = 0x4000"
    by (auto simp: landed_def copied_bytes sc_consts)
qed

section \<open>Loading\<close>

lemma FinishFromReload_last: "openFileType s = 1 \<Longrightarrow> FinishFromReload nand s = finish_reload (s\<lparr>openFileType := 2\<rparr>)"
  by (subst FinishFromReload.simps) (simp add: Let_def sc_consts numeral_2_eq_2)

lemma FinishFromReload_first:
  assumes "openFileType s = 0"
  shows "FinishFromReload nand s =
    (if nand (nand_calls s) = NAND_RESULT_OK
     then s\<lparr>openFileType := 1, isFileOpen := False, nand_calls := nand_calls s + 1,
            pending := Some (NandOpen (filePaths s 1) NAND_ACCESS_READ, OpenCallback)\<rparr>
     else finish_reload (s\<lparr>isFileOpen := False, nand_calls := nand_calls s + 1, openFileType := 2\<rparr>))"
  by (subst FinishFromReload.simps)
     (simp add: assms Let_def call_nand_def FinishFromReload_last SC_CONF_FILE_MAX_def)

lemma finish_reload_simps [simp]:
  "pending (finish_reload s) = pending s" "BgJobStatus (finish_reload s) = SC_STATUS_PARSE"
  "asyncResult (finish_reload s) = asyncResult s"
  "fileBuffers (finish_reload s) = fileBuffers s" "answered (finish_reload s) = answered s"
  by (simp_all add: finish_reload_def Let_def SetBgJobStatus_def put_buf_def ClearConfBuf_def)

lemma finish_reload_good:
  assumes "asyncResult s = NAND_RESULT_OK"
  shows "sc_mem (finish_reload s) ConfBuf = sc_mem s ConfBuf" "fileSizes (finish_reload s) = fileSizes s"
  using assms by (simp_all add: finish_reload_def Let_def SetBgJobStatus_def put_buf_def)

definition loading :: "sc_job \<Rightarrow> bool" where
  "loading s \<longleftrightarrow> (\<exists>req cb. pending s = Some (req, cb) \<and> cb \<noteq> FlushCallback) \<and> openFileType s < 2"

definition loaded :: "sc_job \<Rightarrow> bool" where
  "loaded s \<longleftrightarrow> pending s = None \<and> BgJobStatus s = SC_STATUS_PARSE"

text \<open>How many answers a load may still need.\<close>

definition cb_rank :: "nand_cb \<Rightarrow> nat" where
  "cb_rank cb = (case cb of OpenCallback \<Rightarrow> 3 | ReadCallback \<Rightarrow> 2 | _ \<Rightarrow> 1)"

definition load_rank :: "sc_job \<Rightarrow> nat" where
  "load_rank s = (case pending s of None \<Rightarrow> 0 | Some (_, cb) \<Rightarrow> 3 * (1 - openFileType s) + cb_rank cb)"

definition sooner :: "nat \<Rightarrow> sc_job \<Rightarrow> bool" where
  "sooner n s \<longleftrightarrow> loaded s \<or> loading s \<and> load_rank s < n"

lemma sooner_loading:
  "pending s = Some (req, cb) \<Longrightarrow> cb \<noteq> FlushCallback \<Longrightarrow> openFileType s < 2
    \<Longrightarrow> 3 * (1 - openFileType s) + cb_rank cb < n \<Longrightarrow> sooner n s"
  by (simp add: sooner_def loading_def load_rank_def)

lemma sooner_loaded: "loaded s \<Longrightarrow> sooner n s"
  by (simp add: sooner_def)

lemma sooner_finish:
  assumes "pending s = None" "openFileType s < 2" "3 * (1 - openFileType s) < n"
  shows "sooner n (FinishFromReload nand s)"
proof (cases "openFileType s = 0")
  case True
  then show ?thesis
    using assms
    by (auto simp: FinishFromReload_first cb_rank_def loaded_def intro: sooner_loading sooner_loaded)
next
  case False
  then have "openFileType s = 1" using assms(2) by simp
  then show ?thesis using assms by (simp add: FinishFromReload_last sooner_loaded loaded_def)
qed

lemma sooner_error:
  assumes "pending s = None" "openFileType s < 2" "3 * (1 - openFileType s) + 1 < n"
  shows "sooner n (ErrorFromReload nand result s)"
  using assms
  by (auto simp: ErrorFromReload_def call_nand_def Let_def cb_rank_def intro!: sooner_finish intro: sooner_loading)

lemma sooner_error_closed:
  assumes "pending s = None" "openFileType s < 2" "3 * (1 - openFileType s) < n" "\<not> isFileOpen s"
  shows "sooner n (ErrorFromReload nand result s)"
  using assms by (auto simp: ErrorFromReload_def Let_def intro!: sooner_finish)

lemma on_nand_loading:
  assumes "loading s" and closed: "map_option snd (pending s) \<in> {Some CloseCallback} \<Longrightarrow> \<not> isFileOpen s"
  shows "sooner (load_rank s) (on_nand nand a s)"
proof -
  obtain req cb where p: "pending s = Some (req, cb)" "cb \<noteq> FlushCallback" "openFileType s < 2"
    using assms(1) by (auto simp: loading_def)
  obtain s1 where s1: "s1 = nand_effect req a (s\<lparr>pending := None, answered := answered s @ [(req, na_result a)]\<rparr>)" by blast
  have b: "pending s1 = None" "openFileType s1 = openFileType s" "isFileOpen s1 = isFileOpen s" by (simp_all add: s1)
  have r: "load_rank s = 3 * (1 - openFileType s) + cb_rank cb" using p by (simp add: load_rank_def)
  show ?thesis
  proof (cases cb)
    case OpenCallback
    then have "on_nand nand a s = OpenCallbackFromReload nand (na_result a) s1" using p by (simp add: on_nand_def s1 Let_def)
    then show ?thesis
      using OpenCallback b p(3)
      by (auto simp: r cb_rank_def OpenCallbackFromReload_def call_nand_def Let_def intro!: sooner_error intro: sooner_loading)
  next
    case ReadCallback
    then have "on_nand nand a s = ReadCallbackFromReload nand (na_result a) s1" using p by (simp add: on_nand_def s1 Let_def)
    then show ?thesis
      using ReadCallback b p(3)
      by (auto simp: r cb_rank_def ReadCallbackFromReload_def call_nand_def Let_def
          intro!: sooner_error sooner_error_closed intro: sooner_loading)
  next
    case CloseCallback
    then have "on_nand nand a s = CloseCallbackFromReload nand (na_result a) s1" using p by (simp add: on_nand_def s1 Let_def)
    moreover have "\<not> isFileOpen s1" using closed p CloseCallback b by simp
    ultimately show ?thesis
      using CloseCallback b p(3)
      by (auto simp: r cb_rank_def CloseCallbackFromReload_def intro!: sooner_error_closed sooner_finish)
  next
    case CloseCallbackError
    then have "on_nand nand a s = FinishFromReload nand s1"
      using p by (simp add: on_nand_def s1 Let_def CloseCallbackFromReloadError_def)
    then show ?thesis using CloseCallbackError b p(3) by (auto simp: r cb_rank_def intro!: sooner_finish)
  qed (use p in simp)
qed

text \<open>A file that is being closed normally no longer counts as open.\<close>

definition close_ok :: "sc_job \<Rightarrow> bool" where
  "close_ok s \<longleftrightarrow> (\<forall>req. pending s = Some (req, CloseCallback) \<longrightarrow> \<not> isFileOpen s)"

lemma close_ok_finish: "pending s = None \<Longrightarrow> openFileType s < 2 \<Longrightarrow> close_ok (FinishFromReload nand s)"
proof -
  assume p: "pending s = None" "openFileType s < 2"
  then consider "openFileType s = 0" | "openFileType s = 1" by linarith
  then show ?thesis
    by cases (use p in \<open>auto simp: FinishFromReload_first FinishFromReload_last close_ok_def\<close>)
qed

lemma close_ok_error: "pending s = None \<Longrightarrow> openFileType s < 2 \<Longrightarrow> close_ok (ErrorFromReload nand result s)"
  by (auto simp: ErrorFromReload_def call_nand_def Let_def close_ok_finish) (simp_all add: close_ok_def)

lemma close_ok_on_nand:
  assumes "loading s"
  shows "close_ok (on_nand nand a s)"
proof -
  obtain req cb where p: "pending s = Some (req, cb)" "cb \<noteq> FlushCallback" "openFileType s < 2"
    using assms by (auto simp: loading_def)
  obtain s1 where s1: "s1 = nand_effect req a (s\<lparr>pending := None, answered := answered s @ [(req, na_result a)]\<rparr>)" by blast
  have b: "pending s1 = None" "openFileType s1 < 2" using p by (simp_all add: s1)
  have on: "on_nand nand a s = (case cb of OpenCallback \<Rightarrow> OpenCallbackFromReload nand (na_result a) s1
     | ReadCallback \<Rightarrow> ReadCallbackFromReload nand (na_result a) s1
     | CloseCallback \<Rightarrow> CloseCallbackFromReload nand (na_result a) s1
     | CloseCallbackError \<Rightarrow> CloseCallbackFromReloadError nand (na_result a) s1
     | FlushCallback \<Rightarrow> MyNandCallback nand (na_result a) s1)"
    using p by (simp add: on_nand_def s1 Let_def split: nand_cb.split)
  show ?thesis
    unfolding on using p(2) b
    by (cases cb; simp add: OpenCallbackFromReload_def ReadCallbackFromReload_def CloseCallbackFromReload_def
        CloseCallbackFromReloadError_def call_nand_def Let_def close_ok_finish close_ok_error;
        simp add: close_ok_def)
qed

lemma answers_loaded: "loaded s \<Longrightarrow> answers nand as s = s"
  by (induction as) (simp_all add: answers_def on_nand_def loaded_def)

lemma answers_loading:
  "loading s \<Longrightarrow> close_ok s \<Longrightarrow> load_rank s \<le> length as \<Longrightarrow> loaded (answers nand as s)"
proof (induction as arbitrary: s)
  case Nil
  then obtain req cb where "pending s = Some (req, cb)" by (auto simp: loading_def)
  then have "0 < load_rank s" by (simp add: load_rank_def cb_rank_def split: nand_cb.split)
  then show ?case using Nil by simp
next
  case (Cons a as)
  have "sooner (load_rank s) (on_nand nand a s)"
    using Cons.prems by (intro on_nand_loading) (auto simp: close_ok_def)
  then consider "loaded (on_nand nand a s)" | "loading (on_nand nand a s)" "load_rank (on_nand nand a s) < load_rank s"
    by (auto simp: sooner_def)
  then show ?case
  proof cases
    case 1
    then show ?thesis using answers_loaded [OF 1, of nand as] by (simp add: answers_def)
  next
    case 2
    then have "loaded (answers nand as (on_nand nand a s))"
      using Cons.IH [OF 2(1) close_ok_on_nand [OF Cons.prems(1)]] Cons.prems(3) by simp
    then show ?thesis by (simp add: answers_def)
  qed
qed

lemma SCInit_starts:
  assumes "\<not> Initialized s" "nand (nand_calls s) = NAND_RESULT_OK" "pending s = None"
  shows "loading (SCInit nand NAND_RESULT_OK s)" "close_ok (SCInit nand NAND_RESULT_OK s)" "load_rank (SCInit nand NAND_RESULT_OK s) = 6"
    "pending (SCInit nand NAND_RESULT_OK s) = Some (NandOpen SysConf NAND_ACCESS_READ, OpenCallback)"
    "openFileType (SCInit nand NAND_RESULT_OK s) = 0" "fileBuffers (SCInit nand NAND_RESULT_OK s) 0 = ConfBuf"
    "fileBuffers (SCInit nand NAND_RESULT_OK s) 1 = PrdInfo" "bufferSizes (SCInit nand NAND_RESULT_OK s) 0 = 0x4000"
    "asyncResult (SCInit nand NAND_RESULT_OK s) = NAND_RESULT_OK" "nand_calls (SCInit nand NAND_RESULT_OK s) = nand_calls s + 1"
proof -
  have i: "SCInit nand NAND_RESULT_OK s = snd (SCReloadConfFileAsync nand ConfBuf 0x4000
      (OSRestoreInterrupts (irq_enabled s) (SetBgJobStatus SC_STATUS_BUSY (s\<lparr>irq_enabled := False, Initialized := True\<rparr>))\<lparr>sc_queue := []\<rparr>))"
    using assms(1,2)
    by (simp add: SCInit_def OSDisableInterrupts_def OSRestoreInterrupts_def Let_def SCGetConfBuf_def SCGetConfBufSize_def
        SC_CONF_MAX_SIZE_def SCReloadConfFileAsync_def call_nand_def ClearConfBuf_def put_buf_def SetBgJobStatus_def)
  show "loading (SCInit nand NAND_RESULT_OK s)" "close_ok (SCInit nand NAND_RESULT_OK s)" "load_rank (SCInit nand NAND_RESULT_OK s) = 6"
    "pending (SCInit nand NAND_RESULT_OK s) = Some (NandOpen SysConf NAND_ACCESS_READ, OpenCallback)"
    "openFileType (SCInit nand NAND_RESULT_OK s) = 0" "fileBuffers (SCInit nand NAND_RESULT_OK s) 0 = ConfBuf"
    "fileBuffers (SCInit nand NAND_RESULT_OK s) 1 = PrdInfo" "bufferSizes (SCInit nand NAND_RESULT_OK s) 0 = 0x4000"
    "asyncResult (SCInit nand NAND_RESULT_OK s) = NAND_RESULT_OK" "nand_calls (SCInit nand NAND_RESULT_OK s) = nand_calls s + 1"
    unfolding i using assms(2)
    by (simp_all add: SCReloadConfFileAsync_def SCGetConfBufSize_def SC_CONF_MAX_SIZE_def call_nand_def Let_def ClearConfBuf_def
        put_buf_def SetBgJobStatus_def OSRestoreInterrupts_def loading_def close_ok_def load_rank_def cb_rank_def sc_consts)
qed

text \<open>From the closing of the first file on, nothing changes what was read from it.\<close>

definition kept :: "bytes \<Rightarrow> sc_job \<Rightarrow> bool" where
  "kept M s \<longleftrightarrow> sc_mem s ConfBuf = M \<and> fileSizes s 0 = 0x4000 \<and> asyncResult s = NAND_RESULT_OK
     \<and> fileBuffers s 0 = ConfBuf \<and> fileBuffers s 1 = PrdInfo"

definition second :: "bytes \<Rightarrow> sc_job \<Rightarrow> bool" where
  "second M s \<longleftrightarrow> kept M s \<and> openFileType s = 1
     \<and> (\<forall>req cb. pending s = Some (req, cb) \<longrightarrow> cb \<noteq> FlushCallback \<and> (\<forall>b n. req = NandRead b n \<longrightarrow> b = PrdInfo))"

definition keeps :: "bytes \<Rightarrow> sc_job \<Rightarrow> bool" where
  "keeps M s \<longleftrightarrow> second M s \<or> kept M s \<and> pending s = None"

lemma kept_finish_reload: "kept M s \<Longrightarrow> kept M (finish_reload s)"
  by (simp add: kept_def finish_reload_good)

lemma keeps_finish:
  assumes "kept M s" "openFileType s < 2" "pending s = None"
  shows "keeps M (FinishFromReload nand s)"
proof -
  consider "openFileType s = 0" | "openFileType s = 1" using assms(2) by linarith
  then show ?thesis
  proof cases
    case 1
    have "kept M (finish_reload (s\<lparr>isFileOpen := False, nand_calls := nand_calls s + 1, openFileType := 2\<rparr>))"
      using assms(1) by (intro kept_finish_reload) (simp add: kept_def)
    then show ?thesis
      using assms by (auto simp: FinishFromReload_first [OF 1] keeps_def second_def kept_def)
  next
    case 2
    have "kept M (finish_reload (s\<lparr>openFileType := 2\<rparr>))"
      using assms(1) by (intro kept_finish_reload) (simp add: kept_def)
    then show ?thesis using assms(3) by (simp add: FinishFromReload_last [OF 2] keeps_def)
  qed
qed

lemma keeps_error:
  assumes "second M s" "pending s = None"
  shows "keeps M (ErrorFromReload nand result s)"
proof -
  have k: "kept M (s\<lparr>fileSizes := (fileSizes s)(1 := 0)\<rparr>)" "openFileType s = 1"
    "kept M (s\<lparr>fileSizes := (fileSizes s)(1 := 0), nand_calls := n\<rparr>)" for n
    using assms by (simp_all add: second_def kept_def)
  show ?thesis
    using k assms(2)
    by (auto simp: ErrorFromReload_def SC_CONF_FILE_SYSTEM_def call_nand_def Let_def intro!: keeps_finish)
       (auto simp: keeps_def second_def kept_def)
qed

lemma second_step:
  assumes "second M s"
  shows "keeps M (on_nand nand a s)"
proof (cases "pending s")
  case None
  then show ?thesis using assms by (simp add: on_nand_def keeps_def)
next
  case (Some p)
  obtain req cb where p: "p = (req, cb)" by (cases p)
  obtain s1 where s1: "s1 = nand_effect req a (s\<lparr>pending := None, answered := answered s @ [(req, na_result a)]\<rparr>)" by blast
  have m: "sc_mem s1 ConfBuf = sc_mem s ConfBuf"
    using assms Some p by (cases req) (auto simp: s1 nand_effect_def put_buf_def second_def)
  have b: "second M s1" "pending s1 = None" "openFileType s1 = 1"
    using assms m by (simp_all add: second_def kept_def s1)
  have on: "on_nand nand a s = (case cb of OpenCallback \<Rightarrow> OpenCallbackFromReload nand (na_result a) s1
     | ReadCallback \<Rightarrow> ReadCallbackFromReload nand (na_result a) s1
     | CloseCallback \<Rightarrow> CloseCallbackFromReload nand (na_result a) s1
     | CloseCallbackError \<Rightarrow> CloseCallbackFromReloadError nand (na_result a) s1
     | FlushCallback \<Rightarrow> MyNandCallback nand (na_result a) s1)"
    using Some p by (simp add: on_nand_def s1 Let_def split: nand_cb.split)
  have cb: "cb \<noteq> FlushCallback" using assms Some p by (auto simp: second_def)
  have e: "second M (s1\<lparr>isFileOpen := o', nand_calls := n\<rparr>)" "second M (s1\<lparr>fileSizes := (fileSizes s1)(1 := z), isFileOpen := o', nand_calls := n\<rparr>)"
    "kept M s1" for o' n z
    using b by (simp_all add: second_def kept_def)
  show ?thesis
  proof (cases cb)
    case OpenCallback
    show ?thesis
      using b e unfolding on OpenCallback
      by (auto simp: OpenCallbackFromReload_def call_nand_def Let_def intro!: keeps_error) (auto simp: keeps_def second_def kept_def)
  next
    case ReadCallback
    show ?thesis
      using b e unfolding on ReadCallback
      by (auto simp: ReadCallbackFromReload_def call_nand_def Let_def intro!: keeps_error) (auto simp: keeps_def second_def kept_def)
  next
    case CloseCallback
    show ?thesis
      using b e unfolding on CloseCallback
      by (auto simp: CloseCallbackFromReload_def intro!: keeps_error keeps_finish)
  next
    case CloseCallbackError
    show ?thesis
      using b e unfolding on CloseCallbackError
      by (auto simp: CloseCallbackFromReloadError_def intro!: keeps_finish)
  qed (use cb in simp)
qed

lemma answers_keeps: "keeps M s \<Longrightarrow> keeps M (answers nand as s)"
proof (induction as arbitrary: s)
  case (Cons a as)
  have "keeps M (on_nand nand a s)"
    using Cons.prems second_step [of M s nand a] by (auto simp: keeps_def [of M s] on_nand_def keeps_def)
  then show ?case using Cons.IH by (simp add: answers_def)
qed (simp add: answers_def)

lemma SCInit_bytes:
  assumes "\<not> Initialized s" "is_bytes (sc_mem s ConfBuf)"
  shows "is_bytes (sc_mem (SCInit nand NAND_RESULT_OK s) ConfBuf)"
proof -
  let ?s = "OSRestoreInterrupts (irq_enabled s) (SetBgJobStatus SC_STATUS_BUSY (s\<lparr>irq_enabled := False, Initialized := True\<rparr>))\<lparr>sc_queue := []\<rparr>"
  have "sc_mem (SCInit nand NAND_RESULT_OK s) ConfBuf = sc_mem (ClearConfBuf ConfBuf s) ConfBuf"
    using assms(1)
    by (simp add: SCInit_def OSDisableInterrupts_def OSRestoreInterrupts_def Let_def SCGetConfBuf_def SCGetConfBufSize_def
        SC_CONF_MAX_SIZE_def SCReloadConfFileAsync_def call_nand_def ClearConfBuf_def put_buf_def SetBgJobStatus_def)
  then show ?thesis using cleared_ok(3) [OF assms(2)] by simp
qed

lemma u32_conf_size: "u32 0x4000 = 0x4000"
  by (simp add: u32_def)

lemma first_file_read:
  assumes s: "\<not> Initialized s" "pending s = None"
    and nand: "nand (nand_calls s) = NAND_RESULT_OK" "nand (nand_calls s + 1) = NAND_RESULT_OK" "nand (nand_calls s + 2) = NAND_RESULT_OK"
    and a: "na_result a1 = NAND_RESULT_OK" "na_result a2 = 0x4000" "na_result a3 = NAND_RESULT_OK"
  shows "\<exists>M. keeps M (answers nand [a1, a2, a3] (SCInit nand NAND_RESULT_OK s)) \<and> (\<forall>x. 0 \<le> x \<and> x < 0x4000 \<longrightarrow> M x = na_data a2 x)
    \<and> (\<forall>x. \<not> (0 \<le> x \<and> x < 0x4000) \<longrightarrow> M x = sc_mem (SCInit nand NAND_RESULT_OK s) ConfBuf x)"
proof -
  let ?i = "SCInit nand NAND_RESULT_OK s"
  note i = SCInit_starts [of s nand, OF s(1) nand(1) s(2)]
  let ?M = "\<lambda>x. if 0 \<le> x \<and> x < 0x4000 \<and> x < 0x4000 then na_data a2 x else sc_mem ?i ConfBuf x"
  obtain s1 where s1: "s1 = ?i\<lparr>answered := answered ?i @ [(NandOpen SysConf NAND_ACCESS_READ, 0)], isFileOpen := True,
      nand_calls := nand_calls ?i + 1, pending := Some (NandRead ConfBuf 0x4000, ReadCallback)\<rparr>" by blast
  have 1: "on_nand nand a1 ?i = s1"
    using i nand(2) a(1) by (simp add: on_nand_def nand_effect_def OpenCallbackFromReload_def call_nand_def Let_def s1 sc_consts)
  have p1: "pending s1 = Some (NandRead ConfBuf 0x4000, ReadCallback)" "openFileType s1 = 0" "bufferSizes s1 0 = 0x4000"
    "nand_calls s1 = nand_calls s + 2" "sc_mem s1 = sc_mem ?i" "asyncResult s1 = NAND_RESULT_OK" "fileBuffers s1 0 = ConfBuf" "fileBuffers s1 1 = PrdInfo"
    using i by (simp_all add: s1)
  obtain s2 where s2: "s2 = on_nand nand a2 s1" by blast
  have p2: "pending s2 = Some (NandClose, CloseCallback)" "openFileType s2 = 0" "kept ?M s2"
    using p1 nand(3) a(2)
    by (simp_all add: s2 on_nand_def nand_effect_def ReadCallbackFromReload_def call_nand_def Let_def put_buf_def u32_conf_size kept_def cong: if_cong)
  have "on_nand nand a3 s2 = FinishFromReload nand (s2\<lparr>pending := None, answered := answered s2 @ [(NandClose, NAND_RESULT_OK)]\<rparr>)"
    using p2 a(3) by (simp add: on_nand_def nand_effect_def CloseCallbackFromReload_def Let_def)
  moreover have "kept ?M (s2\<lparr>pending := None, answered := answered s2 @ [(NandClose, NAND_RESULT_OK)]\<rparr>)"
    using p2(3) by (simp add: kept_def)
  ultimately have "keeps ?M (on_nand nand a3 s2)" using p2(2) by (simp add: keeps_finish)
  then have "keeps ?M (answers nand [a1, a2, a3] ?i)" by (simp add: answers_def 1 s2)
  then show ?thesis by (intro exI [of _ ?M]) auto
qed

lemma check_status_loaded:
  assumes "loaded s"
  shows "fst (SCCheckStatus s) = SC_STATUS_OK" "BgJobStatus (snd (SCCheckStatus s)) = SC_STATUS_OK"
  using assms
  by (simp_all add: SCCheckStatus_def loaded_def OSDisableInterrupts_def Let_def SetBgJobStatus_def sc_consts split: prod.split)

lemma conf_rep_flag: "conf_rep (SCClearDirtyFlag s) items lut = conf_rep s items lut"
  by (simp add: conf_rep_def SCClearDirtyFlag_def)

lemma conf_rep_status: "conf_rep (SetBgJobStatus st s) items lut = conf_rep s items lut"
  by (simp add: conf_rep_def SetBgJobStatus_def)

lemma check_status_conf:
  assumes l: "loaded s" and k: "kept M s" and b: "is_bytes M" and w: "well_formed M items"
    and room: "off items (length items) \<le> slot_at (SC_ITEM_MAX - 1)"
    and last: "lut_of items (SC_ITEM_MAX - 1) = None \<longrightarrow> rd16 M (slot_at (SC_ITEM_MAX - 1)) = 0"
  shows "conf_rep (snd (SCCheckStatus s)) items (lut_of items)"
proof -
  let ?s = "OSRestoreInterrupts (irq_enabled s) (SetBgJobStatus SC_STATUS_BUSY (s\<lparr>irq_enabled := False\<rparr>))"
  have m: "sc_mem ?s ConfBuf = M" "fileBuffers s SC_CONF_FILE_SYSTEM = ConfBuf" "fileSizes s SC_CONF_FILE_SYSTEM = SCGetConfBufSize"
    using k by (simp_all add: OSRestoreInterrupts_def SetBgJobStatus_def kept_def SC_CONF_FILE_SYSTEM_def SCGetConfBufSize_def SC_CONF_MAX_SIZE_def)
  obtain ok t where p: "ParseConfBuf ConfBuf SCGetConfBufSize ?s = (ok, t)" by (cases "ParseConfBuf ConfBuf SCGetConfBufSize ?s")
  have "is_bytes (sc_mem ?s ConfBuf)" using b m(1) by simp
  from ParseConfBuf_accepts [OF this] have "ok" "conf_rep t items (lut_of items)"
    using w room last m(1) p by auto
  moreover have "SCCheckStatus s = (SC_STATUS_OK, SetBgJobStatus SC_STATUS_OK
      (OSRestoreInterrupts (irq_enabled t) (SCClearDirtyFlag (t\<lparr>irq_enabled := False\<rparr>))))"
    using l p \<open>ok\<close> m(2,3)
    by (simp add: SCCheckStatus_def loaded_def OSDisableInterrupts_def Let_def SetBgJobStatus_def SCGetConfBuf_def OSRestoreInterrupts_def)
  ultimately show ?thesis
    by (simp add: conf_rep_status conf_rep_flag OSRestoreInterrupts_def)
qed

text \<open>C33. Loading ends after at most six answers, whatever they are, and the first status
  check after it finds the component ready.  When the first file could be opened, read in full
  and closed, and was well-formed, the dictionary then is the one of that file, whatever
  happened to the second file.\<close>

theorem SCInit_loads:
  assumes s: "\<not> Initialized s" "pending s = None" "nand (nand_calls s) = NAND_RESULT_OK" "6 \<le> length as"
    and s': "s' = answers nand as (SCInit nand NAND_RESULT_OK s)"
  shows "pending s' = None \<and> fst (SCCheckStatus s') = SC_STATUS_OK \<and> BgJobStatus (snd (SCCheckStatus s')) = SC_STATUS_OK
    \<and> (\<forall>items. nand (nand_calls s + 1) = NAND_RESULT_OK \<and> nand (nand_calls s + 2) = NAND_RESULT_OK
        \<and> na_result (as ! 0) = NAND_RESULT_OK \<and> na_result (as ! 1) = 0x4000 \<and> na_result (as ! 2) = NAND_RESULT_OK
        \<and> is_bytes (na_data (as ! 1)) \<and> is_bytes (sc_mem s ConfBuf) \<and> well_formed (na_data (as ! 1)) items
        \<and> off items (length items) \<le> slot_at (SC_ITEM_MAX - 1)
        \<and> (lut_of items (SC_ITEM_MAX - 1) = None \<longrightarrow> rd16 (na_data (as ! 1)) (slot_at (SC_ITEM_MAX - 1)) = 0)
        \<longrightarrow> conf_rep (snd (SCCheckStatus s')) items (lut_of items))"
proof (intro conjI allI impI)
  note i = SCInit_starts [of s nand, OF s(1,3,2)]
  have l: "loaded s'" unfolding s' using answers_loading [OF i(1,2)] i(3) s(4) by simp
  then show "pending s' = None" "fst (SCCheckStatus s') = SC_STATUS_OK" "BgJobStatus (snd (SCCheckStatus s')) = SC_STATUS_OK"
    by (simp_all add: loaded_def check_status_loaded)
  fix items
  let ?D = "na_data (as ! 1)"
  assume "nand (nand_calls s + 1) = NAND_RESULT_OK \<and> nand (nand_calls s + 2) = NAND_RESULT_OK
    \<and> na_result (as ! 0) = NAND_RESULT_OK \<and> na_result (as ! 1) = 0x4000 \<and> na_result (as ! 2) = NAND_RESULT_OK
    \<and> is_bytes ?D \<and> is_bytes (sc_mem s ConfBuf) \<and> well_formed ?D items
    \<and> off items (length items) \<le> slot_at (SC_ITEM_MAX - 1)
    \<and> (lut_of items (SC_ITEM_MAX - 1) = None \<longrightarrow> rd16 ?D (slot_at (SC_ITEM_MAX - 1)) = 0)"
  then have n: "nand (nand_calls s + 1) = NAND_RESULT_OK" "nand (nand_calls s + 2) = NAND_RESULT_OK"
    and a: "na_result (as ! 0) = NAND_RESULT_OK" "na_result (as ! 1) = 0x4000" "na_result (as ! 2) = NAND_RESULT_OK"
    and b: "is_bytes (na_data (as ! 1))" "is_bytes (sc_mem s ConfBuf)" and w: "well_formed (na_data (as ! 1)) items"
    and room: "off items (length items) \<le> slot_at (SC_ITEM_MAX - 1)"
    and last: "lut_of items (SC_ITEM_MAX - 1) = None \<longrightarrow> rd16 ?D (slot_at (SC_ITEM_MAX - 1)) = 0" by blast+
  obtain M where M: "keeps M (answers nand [as ! 0, as ! 1, as ! 2] (SCInit nand NAND_RESULT_OK s))"
    "\<forall>x. 0 \<le> x \<and> x < 0x4000 \<longrightarrow> M x = ?D x" "\<forall>x. \<not> (0 \<le> x \<and> x < 0x4000) \<longrightarrow> M x = sc_mem (SCInit nand NAND_RESULT_OK s) ConfBuf x"
    using first_file_read [of s nand "as ! 0" "as ! 1" "as ! 2"] s n a by blast
  have "as = [as ! 0, as ! 1, as ! 2] @ drop 3 as"
    using s(4) by (cases as; cases "tl as"; cases "tl (tl as)") auto
  then have "s' = answers nand (drop 3 as) (answers nand [as ! 0, as ! 1, as ! 2] (SCInit nand NAND_RESULT_OK s))"
    unfolding s' answers_def by (metis fold_append comp_apply)
  then have "keeps M s'" using answers_keeps [OF M(1)] by simp
  then have k: "kept M s'" by (auto simp: keeps_def second_def)
  have "is_bytes (sc_mem (SCInit nand NAND_RESULT_OK s) ConfBuf)"
    using SCInit_bytes [OF s(1) b(2)] .
  then have bM: "is_bytes M" unfolding is_bytes_def using b(1) [unfolded is_bytes_def] M(2,3) by metis
  have D: "M x = ?D x" if "0 \<le> x" "x < 0x4000" for x using M(2) that by blast
  have rM: "off items (length items) \<le> 0x3FB6" using room by (simp add: slot_at_def SC_ITEM_MAX_def)
  have m: "length SC_CONF_BEGIN_MAGIC = 4" "length SC_CONF_END_MAGIC = 4"
    by (simp_all add: SC_CONF_BEGIN_MAGIC_def SC_CONF_END_MAGIC_def ascii_def)
  have "laid_out M items"
  proof (rule laid_out_cong)
    show "laid_out ?D items" using w by (simp add: well_formed_def)
    show "M x = ?D x" if "5 < x" "x < off items (length items)" for x using that rM by (intro D) simp_all
  qed
  then have wM: "well_formed M items" using w D m by (simp add: well_formed_def holds_def rd16_def)
  have "rd16 M (slot_at (SC_ITEM_MAX - 1)) = rd16 ?D (slot_at (SC_ITEM_MAX - 1))"
    by (intro rd16_cong D) (simp_all add: slot_at_def SC_ITEM_MAX_def)
  then show "conf_rep (snd (SCCheckStatus s')) items (lut_of items)"
    using check_status_conf [OF l k bM wM room] last by simp
qed

section \<open>A concrete component\<close>

definition job_zero :: sc_job where
  "job_zero = \<lparr>irq_enabled = True, sc_mem = \<lambda>_ _. 0, ItemRestSize = 0, ItemNumTotal = 0, ItemIDMaxPlus1 = 0,
     ItemIDOffsetTblOffset = 0, DirtyFlag = False, Initialized = False, BgJobStatus = 0, nandCbState = 0, isFileOpen = False,
     openFileType = 0, fileType = 0, filePerm = 0, asyncCallback = None, asyncResult = 0, filePaths = \<lambda>_. SysConf,
     fileBuffers = \<lambda>_. ConfBuf, bufferSizes = \<lambda>_. 0, fileSizes = \<lambda>_. 0, flushCallback = None, flushStatus = 0,
     flushSize = 0, sc_queue = [], told = [], pending = None, nand_calls = 0, answered = []\<rparr>"

definition good_answer :: "int \<Rightarrow> nand_answer" where
  "good_answer r = \<lparr>na_result = r, na_value = 1, na_data = sc_mem (ClearConfBuf ConfBuf job_zero) ConfBuf\<rparr>"

theorem SCFlushAsync_ends_witness:
  "\<exists>s'. s' = answers (\<lambda>_. 0) (map good_answer [0, -12, -12, 0, 0, 0, 0, 0x4000, 0, 0])
      (SCFlushAsync (\<lambda>_. 0) (Some (UserCallback 5)) (job_zero\<lparr>DirtyFlag := True\<rparr>))
    \<and> pending s' = None \<and> told s' = [(UserCallback 5, BgJobStatus s')]"
proof -
  obtain s' where s': "s' = answers (\<lambda>_. 0) (map good_answer [0, -12, -12, 0, 0, 0, 0, 0x4000, 0, 0])
      (SCFlushAsync (\<lambda>_. 0) (Some (UserCallback 5)) (job_zero\<lparr>DirtyFlag := True\<rparr>))" by blast
  have h: "BgJobStatus (job_zero\<lparr>DirtyFlag := True\<rparr>) = SC_STATUS_OK" "pending (job_zero\<lparr>DirtyFlag := True\<rparr>) = None"
    "DirtyFlag (job_zero\<lparr>DirtyFlag := True\<rparr>)" "10 \<le> length (map good_answer [0, -12, -12, 0, 0, 0, 0, 0x4000, 0, 0])"
    by (simp_all add: job_zero_def SC_STATUS_OK_def)
  have "pending s' = None" "told s' = [(UserCallback 5, BgJobStatus s')]"
    using SCFlushAsync_ends [OF h s'] by (simp_all add: told_one_def job_zero_def)
  then show ?thesis using s' by blast
qed

theorem SCInit_loads_witness:
  "\<exists>s'. s' = answers (\<lambda>_. 0) (map good_answer [0, 0x4000, 0, 0, -12, 0]) (SCInit (\<lambda>_. 0) NAND_RESULT_OK job_zero)
    \<and> pending s' = None \<and> fst (SCCheckStatus s') = SC_STATUS_OK \<and> conf_rep (snd (SCCheckStatus s')) [] (lut_of [])"
proof -
  obtain s' where s': "s' = answers (\<lambda>_. 0) (map good_answer [0, 0x4000, 0, 0, -12, 0]) (SCInit (\<lambda>_. 0) NAND_RESULT_OK job_zero)"
    by blast
  have b: "is_bytes (sc_mem job_zero ConfBuf)" by (simp add: job_zero_def is_bytes_def)
  have h: "\<not> Initialized job_zero" "pending job_zero = None" "(\<lambda>_. 0) (nand_calls job_zero) = NAND_RESULT_OK"
    "6 \<le> length (map good_answer [0, 0x4000, 0, 0, -12, 0])"
    by (simp_all add: job_zero_def NAND_RESULT_OK_def)
  have d: "na_data (map good_answer [0, 0x4000, 0, 0, -12, 0] ! 1) = sc_mem (ClearConfBuf ConfBuf job_zero) ConfBuf"
    by (simp add: good_answer_def)
  have "conf_rep (snd (SCCheckStatus s')) [] (lut_of [])"
    using b cleared_ok(1,2) [of job_zero] cleared_ok(3) [OF b]
    by (intro SCInit_loads [OF h s', THEN conjunct2, THEN conjunct2, THEN conjunct2, rule_format])
       (simp add: d NAND_RESULT_OK_def, simp add: good_answer_def slot_at_def SC_ITEM_MAX_def)
  then show ?thesis using SCInit_loads [OF h s'] s' by blast
qed

section \<open>What a refused read does to the component\<close>

text \<open>When the file could be opened and the read is refused, the result that is recorded is
  the success of opening.  The component then becomes ready with a file of size 0, which the
  parser rejects, and without a table no item can be found or created.\<close>

lemma refused_read_recorded_as_success:
  assumes "openFileType s = 0" "nand (nand_calls s) \<noteq> NAND_RESULT_OK" "nand (nand_calls s + 1) = NAND_RESULT_OK"
  shows "asyncResult (OpenCallbackFromReload nand NAND_RESULT_OK s) = NAND_RESULT_OK"
    "fileSizes (OpenCallbackFromReload nand NAND_RESULT_OK s) 0 = 0"
  using assms by (simp_all add: OpenCallbackFromReload_def call_nand_def Let_def ErrorFromReload_def SC_CONF_FILE_SYSTEM_def)

lemma empty_file_rejected: "ParseConfBuf b 0 s = (False, s)"
  by (simp add: ParseConfBuf_def SC_CONF_MIN_SIZE_def)

lemma no_table:
  assumes "ItemIDOffsetTblOffset s = 0"
  shows "FindItemByID ident s = None" "CreateItemByID ident t src len s = (False, s)"
  using assms by (simp_all add: FindItemByID_def CreateItemByID_def Let_def)

end
