(* ===== verification/ScApi.thy ===== *)
theory ScApi
  imports ScDict
begin

text \<open>
  \<^verbatim>\<open>sc/scapi.c\<close> and \<^verbatim>\<open>sc/scapi_prdinfo.c\<close>: the settings by name, each with the
  value that stands in for a missing or an invalid one, and the product information, a text
  file that is encrypted with a key that is rotated for every byte.
\<close>

section \<open>Single settings\<close>

definition s8 :: "int \<Rightarrow> int" where
  "s8 x = (x + 128) mod 256 - 128"

definition be32 :: "int list \<Rightarrow> int" where
  "be32 d = foldl (\<lambda>v x. v * 256 + x) 0 (take 4 d)"

definition SC_ITEM_IPL_CB :: nat where "SC_ITEM_IPL_CB = 0"
definition SC_ITEM_IPL_AR :: nat where "SC_ITEM_IPL_AR = 1"
definition SC_ITEM_IPL_DH :: nat where "SC_ITEM_IPL_DH = 5"
definition SC_ITEM_IPL_E60 :: nat where "SC_ITEM_IPL_E60 = 6"
definition SC_ITEM_IPL_IDL :: nat where "SC_ITEM_IPL_IDL = 9"
definition SC_ITEM_IPL_LNG :: nat where "SC_ITEM_IPL_LNG = 11"
definition SC_ITEM_IPL_PGS :: nat where "SC_ITEM_IPL_PGS = 14"
definition SC_ITEM_IPL_SSV :: nat where "SC_ITEM_IPL_SSV = 15"
definition SC_ITEM_IPL_SND :: nat where "SC_ITEM_IPL_SND = 17"
definition SC_ITEM_BT_DINF :: nat where "SC_ITEM_BT_DINF = 28"
definition SC_ITEM_BT_SENS :: nat where "SC_ITEM_BT_SENS = 29"
definition SC_ITEM_BT_SPKV :: nat where "SC_ITEM_BT_SPKV = 30"
definition SC_ITEM_BT_MOT :: nat where "SC_ITEM_BT_MOT = 31"
definition SC_ITEM_BT_BAR :: nat where "SC_ITEM_BT_BAR = 32"

text \<open>The destination is a variable that is only read after a successful call.\<close>

definition SCFindU8Item :: "nat \<Rightarrow> 'a sc_state_scheme \<Rightarrow> int option \<times> 'a sc_state_scheme" where
  "SCFindU8Item ident s =
     (case SCFindIntegerItem [0] ident SC_ITEM_BYTE s of (found, d, s) \<Rightarrow> (if found then Some (hd d) else None, s))"

definition SCFindS8Item :: "nat \<Rightarrow> 'a sc_state_scheme \<Rightarrow> int option \<times> 'a sc_state_scheme" where
  "SCFindS8Item ident s =
     (case SCFindIntegerItem [0] ident SC_ITEM_BYTE s of (found, d, s) \<Rightarrow> (if found then Some (s8 (hd d)) else None, s))"

definition SCFindU32Item :: "nat \<Rightarrow> 'a sc_state_scheme \<Rightarrow> int option \<times> 'a sc_state_scheme" where
  "SCFindU32Item ident s =
     (case SCFindIntegerItem [0, 0, 0, 0] ident SC_ITEM_LONG s of (found, d, s) \<Rightarrow> (if found then Some (be32 d) else None, s))"

definition SCReplaceU8Item :: "int \<Rightarrow> nat \<Rightarrow> 'a sc_state_scheme \<Rightarrow> bool \<times> 'a sc_state_scheme" where
  "SCReplaceU8Item v ident s = SCReplaceIntegerItem [v] ident SC_ITEM_BYTE s"

definition SCGetAspectRatio :: "'a sc_state_scheme \<Rightarrow> int \<times> 'a sc_state_scheme" where
  "SCGetAspectRatio s = (case SCFindU8Item SC_ITEM_IPL_AR s of
     (None, s) \<Rightarrow> (0, s) | (Some item, s) \<Rightarrow> (if item \<noteq> 1 then 0 else item, s))"

definition SCGetDisplayOffsetH :: "'a sc_state_scheme \<Rightarrow> int \<times> 'a sc_state_scheme" where
  "SCGetDisplayOffsetH s = (case SCFindS8Item SC_ITEM_IPL_DH s of (found, s) \<Rightarrow>
     let item = (case found of None \<Rightarrow> 0
                 | Some item \<Rightarrow> if item < -32 then -32 else if item > 32 then 32 else item)
     in (and item (not 1), s))"

definition SCGetEuRgb60Mode :: "'a sc_state_scheme \<Rightarrow> int \<times> 'a sc_state_scheme" where
  "SCGetEuRgb60Mode s = (case SCFindU8Item SC_ITEM_IPL_E60 s of
     (None, s) \<Rightarrow> (0, s) | (Some item, s) \<Rightarrow> (if item \<noteq> 1 then 0 else item, s))"

definition SCGetIdleMode :: "int list option \<Rightarrow> 'a sc_state_scheme \<Rightarrow> int list option \<times> 'a sc_state_scheme" where
  "SCGetIdleMode mode s = snd (SCFindByteArrayItem mode 2 SC_ITEM_IPL_IDL s)"

definition SCGetProgressiveMode :: "'a sc_state_scheme \<Rightarrow> int \<times> 'a sc_state_scheme" where
  "SCGetProgressiveMode s = (case SCFindU8Item SC_ITEM_IPL_PGS s of
     (None, s) \<Rightarrow> (0, s) | (Some item, s) \<Rightarrow> (if item \<noteq> 1 then 0 else item, s))"

definition SCGetScreenSaverMode :: "'a sc_state_scheme \<Rightarrow> int \<times> 'a sc_state_scheme" where
  "SCGetScreenSaverMode s = (case SCFindU8Item SC_ITEM_IPL_SSV s of
     (None, s) \<Rightarrow> (1, s) | (Some item, s) \<Rightarrow> (if item \<noteq> 1 then 0 else item, s))"

definition SCGetSoundMode :: "'a sc_state_scheme \<Rightarrow> int \<times> 'a sc_state_scheme" where
  "SCGetSoundMode s = (case SCFindU8Item SC_ITEM_IPL_SND s of
     (None, s) \<Rightarrow> (1, s)
   | (Some item, s) \<Rightarrow> (if item \<noteq> 0 \<and> item \<noteq> 1 \<and> item \<noteq> 2 then 1 else item, s))"

definition SCGetCounterBias :: "'a sc_state_scheme \<Rightarrow> int \<times> 'a sc_state_scheme" where
  "SCGetCounterBias s = (case SCFindU32Item SC_ITEM_IPL_CB s of
     (None, s) \<Rightarrow> (2192 * 24 * 60 * 60, s) | (Some item, s) \<Rightarrow> (item, s))"

definition BT_INFO_SIZE :: int where "BT_INFO_SIZE = 0x461"

definition SCGetBtDeviceInfoArray :: "int list option \<Rightarrow> 'a sc_state_scheme \<Rightarrow> int list option \<times> 'a sc_state_scheme" where
  "SCGetBtDeviceInfoArray info s = snd (SCFindByteArrayItem info BT_INFO_SIZE SC_ITEM_BT_DINF s)"

definition SCSetBtDeviceInfoArray :: "int list option \<Rightarrow> 'a sc_state_scheme \<Rightarrow> bool \<times> 'a sc_state_scheme" where
  "SCSetBtDeviceInfoArray info s = SCReplaceByteArrayItem info BT_INFO_SIZE SC_ITEM_BT_DINF s"

definition SCGetBtDpdSensibility :: "'a sc_state_scheme \<Rightarrow> int \<times> 'a sc_state_scheme" where
  "SCGetBtDpdSensibility s = (case SCFindU32Item SC_ITEM_BT_SENS s of
     (None, s) \<Rightarrow> (2, s) | (Some item, s) \<Rightarrow> (if item < 1 then 1 else if item > 5 then 5 else item, s))"

definition SCGetWpadMotorMode :: "'a sc_state_scheme \<Rightarrow> int \<times> 'a sc_state_scheme" where
  "SCGetWpadMotorMode s = (case SCFindU8Item SC_ITEM_BT_MOT s of
     (None, s) \<Rightarrow> (1, s) | (Some item, s) \<Rightarrow> (if item \<noteq> 1 then 0 else item, s))"

text \<open>The two setters have no return statement; the model gives the state they leave.\<close>

definition SCSetWpadMotorMode :: "int \<Rightarrow> 'a sc_state_scheme \<Rightarrow> 'a sc_state_scheme" where
  "SCSetWpadMotorMode mode s = snd (SCReplaceU8Item mode SC_ITEM_BT_MOT s)"

definition SCGetWpadSensorBarPosition :: "'a sc_state_scheme \<Rightarrow> int \<times> 'a sc_state_scheme" where
  "SCGetWpadSensorBarPosition s = (case SCFindU8Item SC_ITEM_BT_BAR s of
     (None, s) \<Rightarrow> (0, s) | (Some item, s) \<Rightarrow> (if item \<noteq> 1 then 0 else item, s))"

definition SCGetWpadSpeakerVolume :: "'a sc_state_scheme \<Rightarrow> int \<times> 'a sc_state_scheme" where
  "SCGetWpadSpeakerVolume s = (case SCFindU8Item SC_ITEM_BT_SPKV s of
     (None, s) \<Rightarrow> (89, s) | (Some item, s) \<Rightarrow> (if item > 127 then 127 else item, s))"

definition SCSetWpadSpeakerVolume :: "int \<Rightarrow> 'a sc_state_scheme \<Rightarrow> 'a sc_state_scheme" where
  "SCSetWpadSpeakerVolume vol s = snd (SCReplaceU8Item vol SC_ITEM_BT_SPKV s)"

section \<open>Product information\<close>

definition XOR_KEY :: int where "XOR_KEY = 0x73B5DBFA"
definition SC_PRDINFO_SIZE :: nat where "SC_PRDINFO_SIZE = 0x100"

definition rotate_key :: "int \<Rightarrow> int" where
  "rotate_key key = or (key div 2 ^ 31) (u32 (key * 2))"

text \<open>The search for the name, with \<open>k\<close> bytes left.  The name is NUL-terminated; \<open>None\<close> stands
  for a read behind its end.  The result is the index behind the \<open>=\<close> and the key of the \<open>=\<close>.\<close>

definition name_byte :: "int list \<Rightarrow> nat \<Rightarrow> int option" where
  "name_byte type k = (if k < length type then Some (type ! k) else if k = length type then Some 0 else None)"

fun scf1_find :: "bytes \<Rightarrow> int list \<Rightarrow> nat \<Rightarrow> nat \<Rightarrow> int \<Rightarrow> nat \<Rightarrow> (nat \<times> int) option option" where
  "scf1_find settings type 0 i key typeOfs = Some None"
| "scf1_find settings type (Suc k) i key typeOfs =
     (let ptext = settings (int i)
      in if ptext = 0 then scf1_find settings type k (i + 1) (rotate_key key) typeOfs
         else
           let ptext = u8 (xor ptext key)
           in case name_byte type typeOfs of None \<Rightarrow> None | Some c \<Rightarrow>
              if c = 0 \<and> ptext = 0x3D then Some (Some (i + 1, key))
              else scf1_find settings type k (i + 1) (rotate_key key)
                     (if and (xor ptext c) 0xDF = 0 then typeOfs + 1 else 0))"

text \<open>The copy of the value: \<open>k\<close> bytes of the file and \<open>sz\<close> of the buffer are left.\<close>

fun scf1_copy :: "bytes \<Rightarrow> nat \<Rightarrow> nat \<Rightarrow> int \<Rightarrow> nat \<Rightarrow> bool \<times> int list" where
  "scf1_copy settings 0 i key sz = (False, [])"
| "scf1_copy settings (Suc k) i key sz =
     (if sz = 0 then (False, [])
      else
        let key = rotate_key key;
            ptext = settings (int i);
            ptext = (if ptext \<noteq> 0 then let p = u8 (xor ptext key) in if p = 13 \<or> p = 10 then 0 else p else ptext)
        in if ptext = 0 then (True, [0])
           else case scf1_copy settings k (i + 1) key (sz - 1) of (found, out) \<Rightarrow> (found, ptext # out))"

definition SCF1 :: "int list \<Rightarrow> nat \<Rightarrow> 'a sc_state_scheme \<Rightarrow> (bool \<times> int list) option" where
  "SCF1 type sz s =
     (let settings = sc_mem s PrdInfo
      in case scf1_find settings type SC_PRDINFO_SIZE 0 XOR_KEY 0 of
           None \<Rightarrow> None
         | Some None \<Rightarrow> Some (False, [])
         | Some (Some (i, key)) \<Rightarrow> Some (scf1_copy settings (SC_PRDINFO_SIZE - i) i key sz))"

definition SCGetProductAreaString :: "nat \<Rightarrow> 'a sc_state_scheme \<Rightarrow> (bool \<times> int list) option" where
  "SCGetProductAreaString sz s = SCF1 (ascii ''AREA'') sz s"

definition ProductAreaAndStringTbl :: "(int \<times> string) list" where
  "ProductAreaAndStringTbl = [(0, ''JPN''), (1, ''USA''), (2, ''EUR''), (3, ''AUS''), (4, ''BRA''), (5, ''TWN''), (5, ''ROC''),
     (6, ''KOR''), (7, ''HKG''), (8, ''ASI''), (9, ''LTN''), (10, ''SAF'')]"

definition SCGetProductArea :: "'a sc_state_scheme \<Rightarrow> int option" where
  "SCGetProductArea s = (case SCGetProductAreaString 4 s of
     None \<Rightarrow> None
   | Some (found, name) \<Rightarrow> Some (if found
       then case find (\<lambda>(area, n). ascii n @ [0] = name) ProductAreaAndStringTbl of None \<Rightarrow> -1 | Some (area, _) \<Rightarrow> area
       else -1))"

definition SC_AREA_JPN :: int where "SC_AREA_JPN = 0"

definition SCGetLanguage :: "'a sc_state_scheme \<Rightarrow> (int \<times> 'a sc_state_scheme) option" where
  "SCGetLanguage s = (case SCFindU8Item SC_ITEM_IPL_LNG s of
     (None, s) \<Rightarrow> (case SCGetProductArea s of None \<Rightarrow> None | Some area \<Rightarrow> Some (if area = SC_AREA_JPN then 0 else 1, s))
   | (Some item, s) \<Rightarrow> Some (if item > 9 then 1 else item, s))"

section \<open>Values stay in their ranges\<close>

lemma SCFindU8Item_byte:
  assumes "is_bytes (sc_mem s ConfBuf)" "SCFindU8Item ident s = (Some v, t)"
  shows "0 \<le> v" "v < 256"
proof -
  have "0 \<le> hd (bytes_of (sc_mem s ConfBuf) a n @ drop (nat n) [0]) \<and> hd (bytes_of (sc_mem s ConfBuf) a n @ drop (nat n) [0]) < 256" for a n
    using assms(1) by (cases "nat n") (simp_all add: bytes_of_def upt_rec is_bytes_def)
  then show "0 \<le> v" "v < 256"
    using assms(2)
    by (auto simp: SCFindU8Item_def SCFindIntegerItem_def OSDisableInterrupts_def OSRestoreInterrupts_def SCGetConfBuf_def
        split: option.splits if_splits)
qed

lemma even_mask: "and x (- 2) = x - x mod (2::int)"
  using and_neg_exp [of x 1] by simp

text \<open>C34. Whatever the settings file holds, every getter returns a value of its type: an
  enumeration value, an even offset between -32 and 32, a sensitivity between 1 and 5, a volume
  up to 127.\<close>

theorem settings_in_range:
  assumes "is_bytes (sc_mem s ConfBuf)"
  shows "fst (SCGetAspectRatio s) \<in> {0, 1} \<and> fst (SCGetEuRgb60Mode s) \<in> {0, 1} \<and> fst (SCGetProgressiveMode s) \<in> {0, 1}
    \<and> fst (SCGetScreenSaverMode s) \<in> {0, 1} \<and> fst (SCGetSoundMode s) \<in> {0, 1, 2} \<and> fst (SCGetWpadMotorMode s) \<in> {0, 1}
    \<and> fst (SCGetWpadSensorBarPosition s) \<in> {0, 1} \<and> fst (SCGetBtDpdSensibility s) \<in> {1..5}
    \<and> fst (SCGetWpadSpeakerVolume s) \<in> {0..127} \<and> fst (SCGetDisplayOffsetH s) \<in> {-32..32} \<and> even (fst (SCGetDisplayOffsetH s))
    \<and> (\<forall>l t. SCGetLanguage s = Some (l, t) \<longrightarrow> l \<in> {0..9})"
proof (intro conjI allI impI)
  show "fst (SCGetAspectRatio s) \<in> {0, 1}" "fst (SCGetEuRgb60Mode s) \<in> {0, 1}" "fst (SCGetProgressiveMode s) \<in> {0, 1}"
    "fst (SCGetScreenSaverMode s) \<in> {0, 1}" "fst (SCGetSoundMode s) \<in> {0, 1, 2}" "fst (SCGetWpadMotorMode s) \<in> {0, 1}"
    "fst (SCGetWpadSensorBarPosition s) \<in> {0, 1}" "fst (SCGetBtDpdSensibility s) \<in> {1..5}"
    by (auto simp: SCGetAspectRatio_def SCGetEuRgb60Mode_def SCGetProgressiveMode_def SCGetScreenSaverMode_def SCGetSoundMode_def
        SCGetWpadMotorMode_def SCGetWpadSensorBarPosition_def SCGetBtDpdSensibility_def split: prod.split option.split)
  show "fst (SCGetWpadSpeakerVolume s) \<in> {0..127}"
    using SCFindU8Item_byte(1) [OF assms] by (auto simp: SCGetWpadSpeakerVolume_def split: prod.split option.split)
  have "x - x mod 2 \<in> {-32..32} \<and> even (x - x mod 2)" if "-32 \<le> x" "x \<le> 32" for x :: int
    using that by (auto simp: minus_mod_eq_mult_div)
  then show "fst (SCGetDisplayOffsetH s) \<in> {-32..32}" "even (fst (SCGetDisplayOffsetH s))"
    by (simp_all add: SCGetDisplayOffsetH_def even_mask split: prod.split option.split)
  show "l \<in> {0..9}" if "SCGetLanguage s = Some (l, t)" for l t
    using that SCFindU8Item_byte(1) [OF assms] by (auto simp: SCGetLanguage_def split: prod.splits option.splits if_splits)
qed

theorem settings_in_range_witness:
  "fst (SCGetSoundMode sc_demo) \<in> {0, 1, 2} \<and> fst (SCGetWpadSpeakerVolume sc_demo) \<in> {0..127}
   \<and> fst (SCGetDisplayOffsetH sc_demo) \<in> {-32..32} \<and> even (fst (SCGetDisplayOffsetH sc_demo))"
  using settings_in_range [OF conf_repD(6) [OF sc_demo_rep(1)]] by blast

lemma SCFindU8Item_dict:
  assumes rep: "conf_rep s items lut" and d: "dict items lut ident = Some (SC_ITEM_BYTE, [v])"
  shows "SCFindU8Item ident s = (Some v, s)"
  using SCFindIntegerItem_dict [OF rep, of SC_ITEM_BYTE "[0]" ident] d
  by (simp add: SCFindU8Item_def item_types)

lemma SCReplaceU8Item_dict:
  assumes rep: "conf_rep s items lut" and ident: "ident < 35" and v: "0 \<le> v" "v < 256"
    and room: "14 \<le> ItemRestSize s"
  shows "\<exists>s' items' lut'. SCReplaceU8Item v ident s = (True, s') \<and> conf_rep s' items' lut'
    \<and> dict items' lut' = (dict items lut)(ident \<mapsto> (SC_ITEM_BYTE, [v]))"
proof -
  have "item_len (new_item ident SC_ITEM_BYTE [v]) \<le> 10"
    using name_of_ok(2) [OF ident] by (simp add: new_item_def enc_def stored_type_def len_bytes_def item_types)
  moreover have "0 \<le> freed items lut ident" by (simp add: freed_def split: option.split)
  ultimately have "item_len (new_item ident SC_ITEM_BYTE [v]) + 4 \<le> ItemRestSize s + freed items lut ident" using room by simp
  then obtain s' items' lut' where "SCReplaceIntegerItem [v] ident SC_ITEM_BYTE s = (True, s')" "conf_rep s' items' lut'"
    "dict items' lut' = (dict items lut)(ident \<mapsto> (SC_ITEM_BYTE, [v]))"
    using SCReplaceIntegerItem_dict [OF rep ident, of "[v]" SC_ITEM_BYTE] v
    by (auto simp: all_bytes_def len_ok_def item_types)
  then show ?thesis unfolding SCReplaceU8Item_def by blast
qed

text \<open>The setters and getters of the remote: what was set is what is got, limited to the
  range.\<close>

lemma speaker_volume_roundtrip:
  assumes rep: "conf_rep s items lut" and v: "0 \<le> v" "v < 256" and room: "14 \<le> ItemRestSize s"
  shows "fst (SCGetWpadSpeakerVolume (SCSetWpadSpeakerVolume v s)) = min v 127"
proof -
  have "SC_ITEM_BT_SPKV < 35" by (simp add: SC_ITEM_BT_SPKV_def)
  from SCReplaceU8Item_dict [OF rep this v room] obtain s' items' lut' where r:
    "SCReplaceU8Item v SC_ITEM_BT_SPKV s = (True, s')" "conf_rep s' items' lut'"
    "dict items' lut' = (dict items lut)(SC_ITEM_BT_SPKV \<mapsto> (SC_ITEM_BYTE, [v]))" by blast
  have "SCFindU8Item SC_ITEM_BT_SPKV s' = (Some v, s')" by (rule SCFindU8Item_dict [OF r(2)]) (simp add: r(3))
  then show ?thesis by (simp add: SCSetWpadSpeakerVolume_def SCGetWpadSpeakerVolume_def r(1) min_def)
qed

lemma motor_mode_roundtrip:
  assumes rep: "conf_rep s items lut" and v: "v \<in> {0, 1}" and room: "14 \<le> ItemRestSize s"
  shows "fst (SCGetWpadMotorMode (SCSetWpadMotorMode v s)) = v"
proof -
  have "SC_ITEM_BT_MOT < 35" "0 \<le> v" "v < 256" using v by (auto simp: SC_ITEM_BT_MOT_def)
  from SCReplaceU8Item_dict [OF rep this room] obtain s' items' lut' where r:
    "SCReplaceU8Item v SC_ITEM_BT_MOT s = (True, s')" "conf_rep s' items' lut'"
    "dict items' lut' = (dict items lut)(SC_ITEM_BT_MOT \<mapsto> (SC_ITEM_BYTE, [v]))" by blast
  have "SCFindU8Item SC_ITEM_BT_MOT s' = (Some v, s')" by (rule SCFindU8Item_dict [OF r(2)]) (simp add: r(3))
  then show ?thesis using v by (auto simp: SCSetWpadMotorMode_def SCGetWpadMotorMode_def r(1))
qed

section \<open>Decoding the product information\<close>

definition key_at :: "nat \<Rightarrow> int" where
  "key_at i = (rotate_key ^^ i) XOR_KEY"

lemma key_at_Suc: "rotate_key (key_at i) = key_at (Suc i)"
  by (simp add: key_at_def)

lemma key_at_0: "key_at 0 = XOR_KEY"
  by (simp add: key_at_def)

text \<open>The file holds \<open>text\<close> from position \<open>i\<close> on: no byte is stored as 0, which the reader would
  take as it is.\<close>

definition hides :: "bytes \<Rightarrow> nat \<Rightarrow> int list \<Rightarrow> bool" where
  "hides settings i text \<longleftrightarrow> (\<forall>j<length text. settings (int (i + j)) \<noteq> 0
     \<and> u8 (xor (settings (int (i + j))) (key_at (i + j))) = text ! j)"

lemma hides_Cons: "hides settings i (x # text) \<longleftrightarrow>
    settings (int i) \<noteq> 0 \<and> u8 (xor (settings (int i)) (key_at i)) = x \<and> hides settings (Suc i) text"
proof -
  have len: "length (x # text) = Suc (length text)" by simp
  show ?thesis unfolding hides_def len All_less_Suc2 by simp
qed

lemma hides_append: "hides settings i (xs @ ys) \<longleftrightarrow> hides settings i xs \<and> hides settings (i + length xs) ys"
  by (induction xs arbitrary: i) (simp_all add: hides_Cons, simp add: hides_def)

lemma scf1_find_Cons:
  assumes "hides settings i (x # text)" "name_byte type o' = Some c"
  shows "scf1_find settings type (Suc k) i (key_at i) o' =
    (if c = 0 \<and> x = 0x3D then Some (Some (Suc i, key_at i))
     else scf1_find settings type k (Suc i) (key_at (Suc i)) (if and (xor x c) 0xDF = 0 then o' + 1 else 0))"
  using assms by (simp add: hides_Cons Let_def key_at_Suc)

lemma scf1_find_skip:
  assumes "name_byte type 0 = Some c" "c \<noteq> 0"
  shows "hides settings i pre \<Longrightarrow> \<forall>x\<in>set pre. and (xor x c) 0xDF \<noteq> 0 \<Longrightarrow>
    scf1_find settings type (length pre + k) i (key_at i) 0 = scf1_find settings type k (i + length pre) (key_at (i + length pre)) 0"
proof (induction pre arbitrary: i)
  case (Cons x pre)
  have "scf1_find settings type (Suc (length pre + k)) i (key_at i) 0
      = scf1_find settings type (length pre + k) (Suc i) (key_at (Suc i)) 0"
    using scf1_find_Cons [OF Cons.prems(1) assms(1)] assms(2) Cons.prems(2) by simp
  then show ?case using Cons by (simp add: hides_Cons)
qed simp

lemma scf1_copy_text:
  "hides settings (Suc i) (val @ [c]) \<Longrightarrow> c \<in> {10, 13} \<Longrightarrow> \<forall>x\<in>set val. x \<notin> {0, 10, 13} \<Longrightarrow> length val < sz
   \<Longrightarrow> length val < k \<Longrightarrow> scf1_copy settings k (Suc i) (key_at i) sz = (True, val @ [0])"
proof (induction val arbitrary: i k sz)
  case Nil
  then obtain k' where "k = Suc k'" by (cases k) auto
  then show ?case using Nil by (auto simp: hides_Cons Let_def key_at_Suc)
next
  case (Cons x val)
  obtain k' where k: "k = Suc k'" using Cons.prems(5) by (cases k) auto
  have h: "settings (int (Suc i)) \<noteq> 0" "u8 (xor (settings (int (Suc i))) (key_at (Suc i))) = x" "hides settings (Suc (Suc i)) (val @ [c])"
    using Cons.prems(1) by (simp_all add: hides_Cons)
  have "scf1_copy settings k' (Suc (Suc i)) (key_at (Suc i)) (sz - 1) = (True, val @ [0])"
    using Cons.prems h(3) k by (intro Cons.IH) auto
  then show ?case using h(1,2) k Cons.prems(3,4) by (simp add: Let_def key_at_Suc)
qed

text \<open>The value of the line \<^verbatim>\<open>AREA=...\<close> is found when nothing before it looks like an A,
  as in the files that the console carries.\<close>

lemma SCGetProductAreaString_text:
  assumes t: "hides (sc_mem s PrdInfo) 0 (pre @ ascii ''AREA='' @ val @ [c])"
    and len: "length pre + 5 + length val < SC_PRDINFO_SIZE" "length val < sz"
    and pre: "\<forall>x\<in>set pre. and (xor x 65) 0xDF \<noteq> 0" and val: "\<forall>x\<in>set val. x \<notin> {0, 10, 13}" and c: "c \<in> {10, 13}"
  shows "SCGetProductAreaString sz s = Some (True, val @ [0])"
proof -
  let ?S = "sc_mem s PrdInfo" and ?t = "ascii ''AREA''" and ?i = "length pre"
  obtain k where k: "SC_PRDINFO_SIZE = length pre + Suc (Suc (Suc (Suc (Suc k))))" "length val < k"
    using len(1) that [of "SC_PRDINFO_SIZE - (length pre + 5)"] by simp
  have a: "ascii ''AREA='' = [65, 82, 69, 65, 61]" "?t = [65, 82, 69, 65]" by (simp_all add: ascii_def)
  have h: "hides ?S 0 pre" "hides ?S ?i ([65, 82, 69, 65, 61] @ val @ [c])" using t by (simp_all add: hides_append a)
  then have h5: "hides ?S (Suc (Suc (Suc (Suc (Suc ?i))))) (val @ [c])" by (simp add: hides_Cons)
  have nb: "name_byte ?t 0 = Some 65" "name_byte ?t (Suc 0) = Some 82" "name_byte ?t (Suc (Suc 0)) = Some 69"
    "name_byte ?t (Suc (Suc (Suc 0))) = Some 65" "name_byte ?t (Suc (Suc (Suc (Suc 0)))) = Some 0"
    by (simp_all add: name_byte_def a(2))
  have "scf1_find ?S ?t SC_PRDINFO_SIZE 0 XOR_KEY 0 = scf1_find ?S ?t (Suc (Suc (Suc (Suc (Suc k))))) ?i (key_at ?i) 0"
    using scf1_find_skip [OF nb(1) _ h(1) pre, of "Suc (Suc (Suc (Suc (Suc k))))"]
    unfolding k(1) key_at_0 [symmetric] by simp
  also have "\<dots> = Some (Some (Suc (Suc (Suc (Suc (Suc ?i)))), key_at (Suc (Suc (Suc (Suc ?i))))))"
    using h(2) nb by (simp add: hides_Cons Let_def key_at_Suc)
  finally have f: "scf1_find ?S ?t SC_PRDINFO_SIZE 0 XOR_KEY 0
      = Some (Some (Suc (Suc (Suc (Suc (Suc ?i)))), key_at (Suc (Suc (Suc (Suc ?i))))))" .
  have "SC_PRDINFO_SIZE - Suc (Suc (Suc (Suc (Suc ?i)))) = k" using k(1) by simp
  then show ?thesis
    using scf1_copy_text [OF h5 c val len(2) k(2)] by (simp add: SCGetProductAreaString_def SCF1_def f Let_def)
qed

lemma SCGetProductArea_text:
  assumes t: "hides (sc_mem s PrdInfo) 0 (pre @ ascii ''AREA='' @ ascii n @ [c])"
    and len: "length pre + 8 < SC_PRDINFO_SIZE" and pre: "\<forall>x\<in>set pre. and (xor x 65) 0xDF \<noteq> 0" and c: "c \<in> {10, 13}"
    and n: "(area, n) \<in> set ProductAreaAndStringTbl"
  shows "SCGetProductArea s = Some area"
proof -
  have all: "\<forall>(a, m)\<in>set ProductAreaAndStringTbl. length (ascii m) = 3 \<and> (\<forall>x\<in>set (ascii m). x \<notin> {0, 10, 13})
      \<and> find (\<lambda>(b, k). ascii k @ [0] = ascii m @ [0]) ProductAreaAndStringTbl = Some (a, m)"
    by code_simp
  then have m: "length (ascii n) = 3" "\<forall>x\<in>set (ascii n). x \<notin> {0, 10, 13}"
    "find (\<lambda>(b, k). ascii k @ [0] = ascii n @ [0]) ProductAreaAndStringTbl = Some (area, n)"
    using n by auto
  have "SCGetProductAreaString 4 s = Some (True, ascii n @ [0])"
    using len m(1) by (intro SCGetProductAreaString_text [OF t _ _ pre m(2) c]) simp_all
  then show ?thesis using m(3) by (simp add: SCGetProductArea_def)
qed

text \<open>A space behind the name makes the search read behind the end of the name.\<close>

lemma SCF1_reads_past_name:
  assumes "hides (sc_mem s PrdInfo) 0 (ascii ''AREA  '')"
  shows "SCGetProductAreaString sz s = None"
proof -
  have a: "ascii ''AREA  '' = [65, 82, 69, 65, 32, 32]" "ascii ''AREA'' = [65, 82, 69, 65]" by (simp_all add: ascii_def)
  obtain k where k: "SC_PRDINFO_SIZE = Suc (Suc (Suc (Suc (Suc (Suc k)))))" using that [of 250] by (simp add: SC_PRDINFO_SIZE_def)
  have nb: "name_byte [65, 82, 69, 65] 0 = Some 65" "name_byte [65, 82, 69, 65] (Suc 0) = Some 82"
    "name_byte [65, 82, 69, 65] (Suc (Suc 0)) = Some 69" "name_byte [65, 82, 69, 65] (Suc (Suc (Suc 0))) = Some 65"
    "name_byte [65, 82, 69, 65] (Suc (Suc (Suc (Suc 0)))) = Some 0" "name_byte [65, 82, 69, 65] (Suc (Suc (Suc (Suc (Suc 0))))) = None"
    by (simp_all add: name_byte_def)
  show ?thesis
    using assms nb unfolding a SCGetProductAreaString_def SCF1_def k key_at_0 [symmetric]
    by (simp add: hides_Cons Let_def key_at_Suc)
qed

end
