(* ===== verification/NandApi.thy ===== *)
theory NandApi
  imports NandPath
begin

text \<open>
  The NAND library (\<^verbatim>\<open>nand/\<close>): the operations of \<^verbatim>\<open>nand.c\<close>, \<^verbatim>\<open>NANDCore.c\<close>,
  \<^verbatim>\<open>NANDOpenClose.c\<close> and \<^verbatim>\<open>NANDCheck.c\<close> on top of the file system client
  \<^verbatim>\<open>fs/fs.c\<close>, whose calls are logged as requests.  What the client returns from its
  \<open>n\<close>-th call is the parameter \<open>fs\<close>; what a request that was accepted answers later comes
  with \<open>on_isfs\<close>, which runs the callback that the request named.

  Files, command blocks, status records, buffers and other variables of the caller are named
  by numbers.  A callback of the caller is a number too, its calls are logged.  An operation
  returns \<open>None\<close> where the C code uses an uninitialised path.
\<close>

section \<open>State\<close>

datatype isfs_req =
    IsfsOpenLib
  | IsfsOpen string int
  | IsfsClose int
  | IsfsRead int nat int
  | IsfsWrite int "int list"
  | IsfsSeek int int int
  | IsfsCreateFile string int int int int
  | IsfsCreateDir string int int int int
  | IsfsDelete string
  | IsfsRename string string
  | IsfsReadDir string
  | IsfsGetAttr string
  | IsfsGetUsage string
  | IsfsGetFileStats int
  | IsfsShutdown

record fs_answer =
  fa_result :: int
  fa_ownerId :: int
  fa_groupId :: int
  fa_attr :: int
  fa_ownerPerm :: int
  fa_groupPerm :: int
  fa_otherPerm :: int
  fa_length :: int
  fa_position :: int
  fa_blocks :: int
  fa_files :: int
  fa_data :: "int list"

datatype fs_cb = NandCallback | GetTypeCallback | OpenCallback | CloseCallback | SafeOpenCallback | ReadOpenCallback
  | SafeCloseCallback | ReadCloseCallback | GetStatusCallback | GetFileStatusCallback

record NANDStatus =
  ns_ownerId :: int
  ns_groupId :: int
  ns_attr :: int
  ns_perm :: int

record NANDFileInfo =
  ni_fd :: int
  ni_tempFd :: int
  ni_openPath :: string
  ni_tempPath :: string
  ni_access :: int
  ni_stage :: int
  ni_mark :: int

text \<open>\<open>nb_stats\<close> (length and position) is the part of \<^verbatim>\<open>path\<close> that serves as a work buffer.\<close>

record NANDCommandBlock =
  nb_userData :: int
  nb_callback :: nat
  nb_info :: nat
  nb_status :: nat
  nb_ownerId :: int
  nb_groupId :: int
  nb_attr :: int
  nb_ownerPerm :: int
  nb_groupPerm :: int
  nb_otherPerm :: int
  nb_dirFileCount :: int
  nb_path :: string
  nb_stats :: "int \<times> int"
  nb_length :: "nat option"
  nb_position :: "nat option"
  nb_state :: int
  nb_buffer :: nat
  nb_bufferSize :: int
  nb_type :: nat
  nb_uniqueNo :: int

datatype NANDLibState = Uninitialized | Initializing | Initialized

record nand_state = irq +
  s_libState :: NANDLibState
  s_currentDir :: string
  s_homeDir :: string
  s_counter :: int
  nd_block :: "nat \<Rightarrow> NANDCommandBlock"
  nd_info :: "nat \<Rightarrow> NANDFileInfo"
  nd_status :: "nat \<Rightarrow> NANDStatus"
  nd_var :: "nat \<Rightarrow> int"
  nd_buf :: "nat \<Rightarrow> int list"
  nd_requests :: "isfs_req list"
  nd_pending :: "nat \<Rightarrow> (isfs_req \<times> fs_cb) list"
  nd_called :: "(nat \<times> int \<times> nat) list"

definition upd_block :: "nat \<Rightarrow> (NANDCommandBlock \<Rightarrow> NANDCommandBlock) \<Rightarrow> nand_state \<Rightarrow> nand_state" where
  "upd_block b f s = s\<lparr>nd_block := (nd_block s)(b := f (nd_block s b))\<rparr>"

definition upd_info :: "nat \<Rightarrow> (NANDFileInfo \<Rightarrow> NANDFileInfo) \<Rightarrow> nand_state \<Rightarrow> nand_state" where
  "upd_info i f s = s\<lparr>nd_info := (nd_info s)(i := f (nd_info s i))\<rparr>"

definition upd_status :: "nat \<Rightarrow> (NANDStatus \<Rightarrow> NANDStatus) \<Rightarrow> nand_state \<Rightarrow> nand_state" where
  "upd_status t f s = s\<lparr>nd_status := (nd_status s)(t := f (nd_status s t))\<rparr>"

definition upd_var :: "nat \<Rightarrow> int \<Rightarrow> nand_state \<Rightarrow> nand_state" where
  "upd_var v x s = s\<lparr>nd_var := (nd_var s)(v := x)\<rparr>"

section \<open>Calls of the file system client\<close>

text \<open>A read puts its data into the buffer; the number of bytes is the result.\<close>

definition read_effect :: "isfs_req \<Rightarrow> fs_answer \<Rightarrow> nand_state \<Rightarrow> nand_state" where
  "read_effect req a s =
     (case req of
        IsfsRead fd buf len \<Rightarrow>
          let n = nat (fa_result a)
          in s\<lparr>nd_buf := (nd_buf s)(buf := take n (fa_data a) @ drop n (nd_buf s buf))\<rparr>
      | _ \<Rightarrow> s)"

definition isfs :: "(nat \<Rightarrow> fs_answer) \<Rightarrow> isfs_req \<Rightarrow> nand_state \<Rightarrow> fs_answer \<times> nand_state" where
  "isfs fs req s =
     (let a = fs (length (nd_requests s))
      in (a, read_effect req a (s\<lparr>nd_requests := nd_requests s @ [req]\<rparr>)))"

definition isfs_result :: "(nat \<Rightarrow> fs_answer) \<Rightarrow> isfs_req \<Rightarrow> nand_state \<Rightarrow> int \<times> nand_state" where
  "isfs_result fs req s = (case isfs fs req s of (a, s) \<Rightarrow> (fa_result a, s))"

definition isfs_async :: "(nat \<Rightarrow> fs_answer) \<Rightarrow> isfs_req \<Rightarrow> fs_cb \<Rightarrow> nat \<Rightarrow> nand_state \<Rightarrow> int \<times> nand_state" where
  "isfs_async fs req cb b s =
     (let r = fa_result (fs (length (nd_requests s)));
          s = s\<lparr>nd_requests := nd_requests s @ [req]\<rparr>
      in (r, if r = IPC_RESULT_OK then s\<lparr>nd_pending := (nd_pending s)(b := nd_pending s b @ [(req, cb)])\<rparr> else s))"

text \<open>The call of the callback of a block.\<close>

definition notify :: "nat \<Rightarrow> int \<Rightarrow> nand_state \<Rightarrow> nand_state" where
  "notify b result s = s\<lparr>nd_called := nd_called s @ [(nb_callback (nd_block s b), result, b)]\<rparr>"

definition nandIsInitialized :: "nand_state \<Rightarrow> bool" where
  "nandIsInitialized s = (s_libState s = Initialized)"

text \<open>The first test of every operation, and the conversion of the result at its end.\<close>

definition api :: "(nand_state \<Rightarrow> (int \<times> nand_state) option) \<Rightarrow> nand_state \<Rightarrow> (int \<times> nand_state) option" where
  "api f s =
     (if \<not> nandIsInitialized s then Some (NAND_RESULT_FATAL_ERROR, s)
      else map_option (\<lambda>(r, s). (nandConvertErrorCode r, s)) (f s))"

section \<open>Initialisation and directories\<close>

text \<open>The answers of \<^verbatim>\<open>/dev/es\<close>: the descriptor, the title, and its data directory.\<close>

record es_lib =
  es_open :: int
  es_titleResult :: int
  es_title :: int
  es_dirResult :: "int \<Rightarrow> int"
  es_dir :: "int \<Rightarrow> string"

definition ES_InitLib :: "es_lib \<Rightarrow> int \<times> int" where
  "ES_InitLib e = (es_open e, if es_open e < 0 then es_open e else IPC_RESULT_OK)"

definition ES_GetTitleId :: "es_lib \<Rightarrow> int \<Rightarrow> int \<times> int option" where
  "ES_GetTitleId e fd =
     (if fd < 0 then (-0x3F9, None)
      else (es_titleResult e, if es_titleResult e = IPC_RESULT_OK then Some (es_title e) else None))"

definition ES_GetDataDir :: "es_lib \<Rightarrow> int \<Rightarrow> int \<Rightarrow> int \<times> string option" where
  "ES_GetDataDir e fd tid =
     (if fd < 0 then (-0x3F9, None)
      else (es_dirResult e tid, if es_dirResult e tid = IPC_RESULT_OK then Some (es_dir e tid) else None))"

text \<open>The two directories are set only when every call succeeded; the library counts as
  initialised in any case.\<close>

definition set_home :: "es_lib \<Rightarrow> nand_state \<Rightarrow> nand_state" where
  "set_home e s =
     (case ES_InitLib e of (fd, result) \<Rightarrow>
      if result \<noteq> IPC_RESULT_OK then s
      else case ES_GetTitleId e fd of (_, None) \<Rightarrow> s | (_, Some tid) \<Rightarrow>
        (case ES_GetDataDir e fd tid of (_, None) \<Rightarrow> s
         | (_, Some dir) \<Rightarrow> s\<lparr>s_homeDir := dir, s_currentDir := dir\<rparr>))"

definition NANDInit :: "(nat \<Rightarrow> fs_answer) \<Rightarrow> es_lib \<Rightarrow> nand_state \<Rightarrow> int \<times> nand_state" where
  "NANDInit fs e s =
     (case OSDisableInterrupts s of (enabled, s) \<Rightarrow>
      if s_libState s = Initializing then (NAND_RESULT_BUSY, OSRestoreInterrupts enabled s)
      else if s_libState s = Initialized then (NAND_RESULT_OK, OSRestoreInterrupts enabled s)
      else
        let s = OSRestoreInterrupts enabled (s\<lparr>s_libState := Initializing\<rparr>)
        in case isfs_result fs IsfsOpenLib s of (result, s) \<Rightarrow>
           if result = IPC_RESULT_OK then (NAND_RESULT_OK, (set_home e s)\<lparr>s_libState := Initialized\<rparr>)
           else (nandConvertErrorCode result, s\<lparr>s_libState := Uninitialized\<rparr>))"

definition NANDGetCurrentDir :: "nand_state \<Rightarrow> int \<times> string option" where
  "NANDGetCurrentDir s =
     (if \<not> nandIsInitialized s then (NAND_RESULT_FATAL_ERROR, None) else (NAND_RESULT_OK, Some (s_currentDir s)))"

definition NANDGetHomeDir :: "nand_state \<Rightarrow> int \<times> string option" where
  "NANDGetHomeDir s =
     (if \<not> nandIsInitialized s then (NAND_RESULT_FATAL_ERROR, None) else (NAND_RESULT_OK, Some (s_homeDir s)))"

definition nandGetHomeDir :: "nand_state \<Rightarrow> string" where
  "nandGetHomeDir s = s_homeDir s"

section \<open>Files and folders\<close>

definition nandCreate :: "(nat \<Rightarrow> fs_answer) \<Rightarrow> string \<Rightarrow> int \<Rightarrow> int \<Rightarrow> nat \<Rightarrow> bool \<Rightarrow> bool \<Rightarrow> nand_state \<Rightarrow> (int \<times> nand_state) option" where
  "nandCreate fs path perm attr b async priv s = do {
     absPath \<leftarrow> nandGenerateAbsPath (s_currentDir s) path;
     Some (if \<not> priv \<and> nandIsPrivatePath absPath then (IPC_RESULT_ACCESS, s)
           else if \<not> nandInspectPermission perm then (IPC_RESULT_INVALID, s)
           else case nandSplitPerm perm of (ownerPerm, groupPerm, otherPerm) \<Rightarrow>
             let req = IsfsCreateFile absPath attr ownerPerm groupPerm otherPerm
             in if async then isfs_async fs req NandCallback b s else isfs_result fs req s) }"

definition set_callback :: "nat \<Rightarrow> nat \<Rightarrow> nand_state \<Rightarrow> nand_state" where
  "set_callback b cb = upd_block b (\<lambda>k. k\<lparr>nb_callback := cb\<rparr>)"

definition NANDCreate :: "(nat \<Rightarrow> fs_answer) \<Rightarrow> string \<Rightarrow> int \<Rightarrow> int \<Rightarrow> nand_state \<Rightarrow> (int \<times> nand_state) option" where
  "NANDCreate fs path perm attr = api (nandCreate fs path perm attr 0 False False)"

definition NANDPrivateCreate :: "(nat \<Rightarrow> fs_answer) \<Rightarrow> string \<Rightarrow> int \<Rightarrow> int \<Rightarrow> nand_state \<Rightarrow> (int \<times> nand_state) option" where
  "NANDPrivateCreate fs path perm attr = api (nandCreate fs path perm attr 0 False True)"

definition NANDPrivateCreateAsync ::
  "(nat \<Rightarrow> fs_answer) \<Rightarrow> string \<Rightarrow> int \<Rightarrow> int \<Rightarrow> nat \<Rightarrow> nat \<Rightarrow> nand_state \<Rightarrow> (int \<times> nand_state) option" where
  "NANDPrivateCreateAsync fs path perm attr cb b =
     api (\<lambda>s. nandCreate fs path perm attr b True True (set_callback b cb s))"

definition nandDelete :: "(nat \<Rightarrow> fs_answer) \<Rightarrow> string \<Rightarrow> nat \<Rightarrow> bool \<Rightarrow> bool \<Rightarrow> nand_state \<Rightarrow> (int \<times> nand_state) option" where
  "nandDelete fs path b async priv s = do {
     absPath \<leftarrow> nandGenerateAbsPath (s_currentDir s) path;
     Some (if \<not> priv \<and> nandIsPrivatePath absPath then (IPC_RESULT_ACCESS, s)
           else if async then isfs_async fs (IsfsDelete absPath) NandCallback b s
           else isfs_result fs (IsfsDelete absPath) s) }"

definition NANDDelete :: "(nat \<Rightarrow> fs_answer) \<Rightarrow> string \<Rightarrow> nand_state \<Rightarrow> (int \<times> nand_state) option" where
  "NANDDelete fs path = api (nandDelete fs path 0 False False)"

definition NANDPrivateDelete :: "(nat \<Rightarrow> fs_answer) \<Rightarrow> string \<Rightarrow> nand_state \<Rightarrow> (int \<times> nand_state) option" where
  "NANDPrivateDelete fs path = api (nandDelete fs path 0 False True)"

definition NANDPrivateDeleteAsync :: "(nat \<Rightarrow> fs_answer) \<Rightarrow> string \<Rightarrow> nat \<Rightarrow> nat \<Rightarrow> nand_state \<Rightarrow> (int \<times> nand_state) option" where
  "NANDPrivateDeleteAsync fs path cb b = api (\<lambda>s. nandDelete fs path b True True (set_callback b cb s))"

definition NANDRead :: "(nat \<Rightarrow> fs_answer) \<Rightarrow> nat \<Rightarrow> nat \<Rightarrow> int \<Rightarrow> nand_state \<Rightarrow> (int \<times> nand_state) option" where
  "NANDRead fs i buf len = api (\<lambda>s. Some (isfs_result fs (IsfsRead (ni_fd (nd_info s i)) buf len) s))"

definition NANDReadAsync :: "(nat \<Rightarrow> fs_answer) \<Rightarrow> nat \<Rightarrow> nat \<Rightarrow> int \<Rightarrow> nat \<Rightarrow> nat \<Rightarrow> nand_state \<Rightarrow> (int \<times> nand_state) option" where
  "NANDReadAsync fs i buf len cb b =
     api (\<lambda>s. Some (isfs_async fs (IsfsRead (ni_fd (nd_info s i)) buf len) NandCallback b (set_callback b cb s)))"

definition NANDWrite :: "(nat \<Rightarrow> fs_answer) \<Rightarrow> nat \<Rightarrow> nat \<Rightarrow> int \<Rightarrow> nand_state \<Rightarrow> (int \<times> nand_state) option" where
  "NANDWrite fs i buf len =
     api (\<lambda>s. Some (isfs_result fs (IsfsWrite (ni_fd (nd_info s i)) (take (nat len) (nd_buf s buf))) s))"

definition NANDWriteAsync :: "(nat \<Rightarrow> fs_answer) \<Rightarrow> nat \<Rightarrow> nat \<Rightarrow> int \<Rightarrow> nat \<Rightarrow> nat \<Rightarrow> nand_state \<Rightarrow> (int \<times> nand_state) option" where
  "NANDWriteAsync fs i buf len cb b =
     api (\<lambda>s. Some (isfs_async fs (IsfsWrite (ni_fd (nd_info s i)) (take (nat len) (nd_buf s buf))) NandCallback b (set_callback b cb s)))"

text \<open>The seek modes of the two libraries have the same numbers 0, 1 and 2; another is -1.\<close>

definition nandSeek :: "(nat \<Rightarrow> fs_answer) \<Rightarrow> int \<Rightarrow> int \<Rightarrow> int \<Rightarrow> nat \<Rightarrow> bool \<Rightarrow> nand_state \<Rightarrow> int \<times> nand_state" where
  "nandSeek fs fd offset whence b async s =
     (let mode = (if whence \<in> {0, 1, 2} then whence else -1)
      in if async then isfs_async fs (IsfsSeek fd offset mode) NandCallback b s
         else isfs_result fs (IsfsSeek fd offset mode) s)"

definition NANDSeek :: "(nat \<Rightarrow> fs_answer) \<Rightarrow> nat \<Rightarrow> int \<Rightarrow> int \<Rightarrow> nand_state \<Rightarrow> (int \<times> nand_state) option" where
  "NANDSeek fs i offset whence = api (\<lambda>s. Some (nandSeek fs (ni_fd (nd_info s i)) offset whence 0 False s))"

definition NANDSeekAsync :: "(nat \<Rightarrow> fs_answer) \<Rightarrow> nat \<Rightarrow> int \<Rightarrow> int \<Rightarrow> nat \<Rightarrow> nat \<Rightarrow> nand_state \<Rightarrow> (int \<times> nand_state) option" where
  "NANDSeekAsync fs i offset whence cb b =
     api (\<lambda>s. Some (nandSeek fs (ni_fd (nd_info s i)) offset whence b True (set_callback b cb s)))"

definition nandCreateDir :: "(nat \<Rightarrow> fs_answer) \<Rightarrow> string \<Rightarrow> int \<Rightarrow> int \<Rightarrow> nat \<Rightarrow> bool \<Rightarrow> bool \<Rightarrow> nand_state \<Rightarrow> (int \<times> nand_state) option" where
  "nandCreateDir fs path perm attr b async priv s = do {
     absPath \<leftarrow> nandGenerateAbsPath (s_currentDir s) path;
     Some (if \<not> priv \<and> nandIsPrivatePath absPath then (IPC_RESULT_ACCESS, s)
           else if \<not> nandInspectPermission perm then (IPC_RESULT_INVALID, s)
           else case nandSplitPerm perm of (ownerPerm, groupPerm, otherPerm) \<Rightarrow>
             let req = IsfsCreateDir absPath attr ownerPerm groupPerm otherPerm
             in if async then isfs_async fs req NandCallback b s else isfs_result fs req s) }"

definition NANDPrivateCreateDir :: "(nat \<Rightarrow> fs_answer) \<Rightarrow> string \<Rightarrow> int \<Rightarrow> int \<Rightarrow> nand_state \<Rightarrow> (int \<times> nand_state) option" where
  "NANDPrivateCreateDir fs path perm attr = api (nandCreateDir fs path perm attr 0 False True)"

definition NANDPrivateCreateDirAsync ::
  "(nat \<Rightarrow> fs_answer) \<Rightarrow> string \<Rightarrow> int \<Rightarrow> int \<Rightarrow> nat \<Rightarrow> nat \<Rightarrow> nand_state \<Rightarrow> (int \<times> nand_state) option" where
  "NANDPrivateCreateDirAsync fs path perm attr cb b =
     api (\<lambda>s. nandCreateDir fs path perm attr b True True (set_callback b cb s))"

definition nandMove :: "(nat \<Rightarrow> fs_answer) \<Rightarrow> string \<Rightarrow> string \<Rightarrow> nat \<Rightarrow> bool \<Rightarrow> bool \<Rightarrow> nand_state \<Rightarrow> (int \<times> nand_state) option" where
  "nandMove fs from dest b async priv s = do {
     absPathFrom \<leftarrow> nandGenerateAbsPath (s_currentDir s) from;
     absPathTo \<leftarrow> nandGenerateAbsPath (s_currentDir s) dest;
     let relativeName = nandGetRelativeName absPathFrom;
         absPathTo = (if absPathTo = ''/'' then ''/'' @ relativeName else absPathTo @ ''/'' @ relativeName)
     in Some (if \<not> priv \<and> (nandIsPrivatePath absPathFrom \<or> nandIsPrivatePath absPathTo) then (IPC_RESULT_ACCESS, s)
              else if async then isfs_async fs (IsfsRename absPathFrom absPathTo) NandCallback b s
              else isfs_result fs (IsfsRename absPathFrom absPathTo) s) }"

definition NANDMove :: "(nat \<Rightarrow> fs_answer) \<Rightarrow> string \<Rightarrow> string \<Rightarrow> nand_state \<Rightarrow> (int \<times> nand_state) option" where
  "NANDMove fs from dest = api (nandMove fs from dest 0 False False)"

section \<open>Lengths, types and status\<close>

text \<open>A variable of the caller that a null pointer stands for is not written.\<close>

definition put_var :: "nat option \<Rightarrow> int \<Rightarrow> nand_state \<Rightarrow> nand_state" where
  "put_var v x s = (case v of None \<Rightarrow> s | Some v \<Rightarrow> upd_var v x s)"

definition nandGetFileStatus :: "(nat \<Rightarrow> fs_answer) \<Rightarrow> int \<Rightarrow> nat option \<Rightarrow> nat option \<Rightarrow> nand_state \<Rightarrow> int \<times> nand_state" where
  "nandGetFileStatus fs fd lengthOut positionOut s =
     (case isfs fs (IsfsGetFileStats fd) s of (a, s) \<Rightarrow>
      (fa_result a, if fa_result a = IPC_RESULT_OK
                    then put_var positionOut (fa_position a) (put_var lengthOut (fa_length a) s) else s))"

definition NANDGetLength :: "(nat \<Rightarrow> fs_answer) \<Rightarrow> nat \<Rightarrow> nat option \<Rightarrow> nand_state \<Rightarrow> (int \<times> nand_state) option" where
  "NANDGetLength fs i len = api (\<lambda>s. Some (nandGetFileStatus fs (ni_fd (nd_info s i)) len None s))"

definition nandGetFileStatusAsync :: "(nat \<Rightarrow> fs_answer) \<Rightarrow> int \<Rightarrow> nat \<Rightarrow> nand_state \<Rightarrow> int \<times> nand_state" where
  "nandGetFileStatusAsync fs fd b s = isfs_async fs (IsfsGetFileStats fd) GetFileStatusCallback b s"

definition nandGetFileStatusAsyncCallback :: "int \<Rightarrow> nat \<Rightarrow> nand_state \<Rightarrow> nand_state" where
  "nandGetFileStatusAsyncCallback result b s =
     (let blk = nd_block s b;
          s = (if result = IPC_RESULT_OK
               then put_var (nb_position blk) (snd (nb_stats blk)) (put_var (nb_length blk) (fst (nb_stats blk)) s) else s)
      in notify b (nandConvertErrorCode result) s)"

definition NANDGetLengthAsync :: "(nat \<Rightarrow> fs_answer) \<Rightarrow> nat \<Rightarrow> nat option \<Rightarrow> nat \<Rightarrow> nat \<Rightarrow> nand_state \<Rightarrow> (int \<times> nand_state) option" where
  "NANDGetLengthAsync fs i lengthOut cb b =
     api (\<lambda>s. Some (nandGetFileStatusAsync fs (ni_fd (nd_info s i)) b
       (upd_block b (\<lambda>k. k\<lparr>nb_callback := cb, nb_length := lengthOut, nb_position := None\<rparr>) s)))"

definition nandGetStatus :: "(nat \<Rightarrow> fs_answer) \<Rightarrow> string \<Rightarrow> nat \<Rightarrow> nat \<Rightarrow> bool \<Rightarrow> bool \<Rightarrow> nand_state \<Rightarrow> (int \<times> nand_state) option" where
  "nandGetStatus fs path status b async priv s = do {
     absPath \<leftarrow> nandGenerateAbsPath (s_currentDir s) path;
     Some (if \<not> priv \<and> nandIsUnderPrivatePath absPath then (IPC_RESULT_ACCESS, s)
           else if async then isfs_async fs (IsfsGetAttr absPath) GetStatusCallback b s
           else case isfs fs (IsfsGetAttr absPath) s of (a, s) \<Rightarrow>
             (fa_result a,
              if fa_result a = IPC_RESULT_OK
              then upd_status status (\<lambda>_. \<lparr>ns_ownerId = fa_ownerId a, ns_groupId = fa_groupId a, ns_attr = u8 (fa_attr a),
                     ns_perm = nandComposePerm (fa_ownerPerm a) (fa_groupPerm a) (fa_otherPerm a)\<rparr>) s
              else s)) }"

definition nandGetStatusCallback :: "int \<Rightarrow> nat \<Rightarrow> nand_state \<Rightarrow> nand_state" where
  "nandGetStatusCallback result b s =
     (let blk = nd_block s b;
          s = (if result = IPC_RESULT_OK
               then upd_status (nb_status blk) (\<lambda>t. t\<lparr>ns_attr := u8 (nb_attr blk),
                      ns_perm := nandComposePerm (nb_ownerPerm blk) (nb_groupPerm blk) (nb_otherPerm blk)\<rparr>) s
               else s)
      in notify b (nandConvertErrorCode result) s)"

definition NANDGetStatus :: "(nat \<Rightarrow> fs_answer) \<Rightarrow> string \<Rightarrow> nat \<Rightarrow> nand_state \<Rightarrow> (int \<times> nand_state) option" where
  "NANDGetStatus fs path status = api (nandGetStatus fs path status 0 False False)"

definition NANDPrivateGetStatusAsync ::
  "(nat \<Rightarrow> fs_answer) \<Rightarrow> string \<Rightarrow> nat \<Rightarrow> nat \<Rightarrow> nat \<Rightarrow> nand_state \<Rightarrow> (int \<times> nand_state) option" where
  "NANDPrivateGetStatusAsync fs path status cb b =
     api (\<lambda>s. nandGetStatus fs path status b True True
       (upd_block b (\<lambda>k. k\<lparr>nb_callback := cb, nb_status := status\<rparr>) s))"

text \<open>The type of a file from the result of reading it as a folder; \<open>None\<close> for an error.\<close>

definition type_of :: "int \<Rightarrow> int option" where
  "type_of result =
     (if result = IPC_RESULT_OK \<or> result = IPC_RESULT_ACCESS then Some NAND_FILE_TYPE_DIR
      else if result = IPC_RESULT_INVALID then Some NAND_FILE_TYPE_FILE
      else None)"

definition nandGetType :: "(nat \<Rightarrow> fs_answer) \<Rightarrow> string \<Rightarrow> nat \<Rightarrow> nat \<Rightarrow> bool \<Rightarrow> bool \<Rightarrow> nand_state \<Rightarrow> (int \<times> nand_state) option" where
  "nandGetType fs path type b async priv s =
     (if path = [] then Some (IPC_RESULT_INVALID, s)
      else do {
        absPath \<leftarrow> nandGenerateAbsPath (s_currentDir s) path;
        Some (if async then
                let s = upd_block b (\<lambda>k. k\<lparr>nb_path := absPath\<rparr>) s
                in if \<not> priv \<and> nandIsUnderPrivatePath absPath then (IPC_RESULT_ACCESS, s)
                   else isfs_async fs (IsfsReadDir absPath) GetTypeCallback b (upd_block b (\<lambda>k. k\<lparr>nb_type := type\<rparr>) s)
              else if \<not> priv \<and> nandIsUnderPrivatePath absPath then (IPC_RESULT_ACCESS, s)
              else case isfs_result fs (IsfsReadDir absPath) s of (result, s) \<Rightarrow>
                (case type_of result of Some t \<Rightarrow> (IPC_RESULT_OK, upd_var type t s) | None \<Rightarrow> (result, s))) })"

definition nandGetTypeCallback :: "int \<Rightarrow> nat \<Rightarrow> nand_state \<Rightarrow> nand_state" where
  "nandGetTypeCallback result b s =
     (case type_of result of
        Some t \<Rightarrow> notify b (nandConvertErrorCode IPC_RESULT_OK) (upd_var (nb_type (nd_block s b)) t s)
      | None \<Rightarrow> notify b (nandConvertErrorCode result) s)"

definition NANDGetType :: "(nat \<Rightarrow> fs_answer) \<Rightarrow> string \<Rightarrow> nat \<Rightarrow> nand_state \<Rightarrow> (int \<times> nand_state) option" where
  "NANDGetType fs path type = api (nandGetType fs path type 0 False False)"

definition NANDPrivateGetTypeAsync :: "(nat \<Rightarrow> fs_answer) \<Rightarrow> string \<Rightarrow> nat \<Rightarrow> nat \<Rightarrow> nat \<Rightarrow> nand_state \<Rightarrow> (int \<times> nand_state) option" where
  "NANDPrivateGetTypeAsync fs path type cb b = api (\<lambda>s. nandGetType fs path type b True True (set_callback b cb s))"

definition NANDSetUserData :: "nat \<Rightarrow> int \<Rightarrow> nand_state \<Rightarrow> nand_state" where
  "NANDSetUserData b data = upd_block b (\<lambda>k. k\<lparr>nb_userData := data\<rparr>)"

definition NANDGetUserData :: "nat \<Rightarrow> nand_state \<Rightarrow> int" where
  "NANDGetUserData b s = nb_userData (nd_block s b)"

definition nandCallback :: "int \<Rightarrow> nat \<Rightarrow> nand_state \<Rightarrow> nand_state" where
  "nandCallback result b s = notify b (nandConvertErrorCode result) s"

section \<open>Opening and closing\<close>

definition nandOpen :: "(nat \<Rightarrow> fs_answer) \<Rightarrow> string \<Rightarrow> int \<Rightarrow> nat \<Rightarrow> bool \<Rightarrow> bool \<Rightarrow> nand_state \<Rightarrow> (int \<times> nand_state) option" where
  "nandOpen fs path mode b async priv s = do {
     absPath \<leftarrow> nandGenerateAbsPath (s_currentDir s) path;
     let ipcMode = (if mode = NAND_ACCESS_RW then 3 else if mode = NAND_ACCESS_READ then 1
                    else if mode = NAND_ACCESS_WRITE then 2 else 0)
     in Some (if \<not> priv \<and> nandIsPrivatePath absPath then (IPC_RESULT_ACCESS, s)
              else if async then isfs_async fs (IsfsOpen absPath ipcMode) OpenCallback b s
              else isfs_result fs (IsfsOpen absPath ipcMode) s) }"

text \<open>What the two synchronous calls do with the descriptor.\<close>

definition opened :: "nat \<Rightarrow> int \<times> nand_state \<Rightarrow> int \<times> nand_state" where
  "opened i = (\<lambda>(result, s).
     if result \<ge> 0 then (NAND_RESULT_OK, upd_info i (\<lambda>f. f\<lparr>ni_fd := result, ni_mark := 1\<rparr>) s) else (result, s))"

definition NANDOpen :: "(nat \<Rightarrow> fs_answer) \<Rightarrow> string \<Rightarrow> nat \<Rightarrow> int \<Rightarrow> nand_state \<Rightarrow> (int \<times> nand_state) option" where
  "NANDOpen fs path i mode = api (\<lambda>s. map_option (opened i) (nandOpen fs path mode 0 False False s))"

definition NANDPrivateOpen :: "(nat \<Rightarrow> fs_answer) \<Rightarrow> string \<Rightarrow> nat \<Rightarrow> int \<Rightarrow> nand_state \<Rightarrow> (int \<times> nand_state) option" where
  "NANDPrivateOpen fs path i mode = api (\<lambda>s. map_option (opened i) (nandOpen fs path mode 0 False True s))"

definition set_file :: "nat \<Rightarrow> nat \<Rightarrow> nat \<Rightarrow> nand_state \<Rightarrow> nand_state" where
  "set_file b cb i = upd_block b (\<lambda>k. k\<lparr>nb_callback := cb, nb_info := i\<rparr>)"

definition NANDOpenAsync :: "(nat \<Rightarrow> fs_answer) \<Rightarrow> string \<Rightarrow> nat \<Rightarrow> int \<Rightarrow> nat \<Rightarrow> nat \<Rightarrow> nand_state \<Rightarrow> (int \<times> nand_state) option" where
  "NANDOpenAsync fs path i mode cb b = api (\<lambda>s. nandOpen fs path mode b True False (set_file b cb i s))"

definition NANDPrivateOpenAsync :: "(nat \<Rightarrow> fs_answer) \<Rightarrow> string \<Rightarrow> nat \<Rightarrow> int \<Rightarrow> nat \<Rightarrow> nat \<Rightarrow> nand_state \<Rightarrow> (int \<times> nand_state) option" where
  "NANDPrivateOpenAsync fs path i mode cb b = api (\<lambda>s. nandOpen fs path mode b True True (set_file b cb i s))"

definition nandOpenCallback :: "int \<Rightarrow> nat \<Rightarrow> nand_state \<Rightarrow> nand_state" where
  "nandOpenCallback result b s =
     (if result \<ge> 0
      then notify b NAND_RESULT_OK
             (upd_info (nb_info (nd_block s b)) (\<lambda>f. f\<lparr>ni_fd := result, ni_stage := 2, ni_mark := 1\<rparr>) s)
      else notify b (nandConvertErrorCode result) s)"

definition NANDClose :: "(nat \<Rightarrow> fs_answer) \<Rightarrow> nat \<Rightarrow> nand_state \<Rightarrow> int \<times> nand_state" where
  "NANDClose fs i s =
     (if \<not> nandIsInitialized s then (NAND_RESULT_FATAL_ERROR, s)
      else if ni_mark (nd_info s i) \<noteq> 1 then (NAND_RESULT_INVALID, s)
      else case isfs_result fs (IsfsClose (ni_fd (nd_info s i))) s of (result, s) \<Rightarrow>
        (nandConvertErrorCode result,
         if result = IPC_RESULT_OK then upd_info i (\<lambda>f. f\<lparr>ni_mark := 2\<rparr>) s else s))"

definition NANDCloseAsync :: "(nat \<Rightarrow> fs_answer) \<Rightarrow> nat \<Rightarrow> nat \<Rightarrow> nat \<Rightarrow> nand_state \<Rightarrow> int \<times> nand_state" where
  "NANDCloseAsync fs i cb b s =
     (if \<not> nandIsInitialized s then (NAND_RESULT_FATAL_ERROR, s)
      else if ni_mark (nd_info s i) \<noteq> 1 then (NAND_RESULT_INVALID, s)
      else case isfs_async fs (IsfsClose (ni_fd (nd_info s i))) CloseCallback b (set_file b cb i s) of
             (result, s) \<Rightarrow> (nandConvertErrorCode result, s))"

definition nandCloseCallback :: "int \<Rightarrow> nat \<Rightarrow> nand_state \<Rightarrow> nand_state" where
  "nandCloseCallback result b s =
     notify b (nandConvertErrorCode result)
       (if result = IPC_RESULT_OK
        then upd_info (nb_info (nd_block s b)) (\<lambda>f. f\<lparr>ni_stage := 7, ni_mark := 2\<rparr>) s else s)"

section \<open>Free space\<close>

definition USER_DIR_LIST :: "string list" where
  "USER_DIR_LIST =
     [''/meta'', ''/ticket'', ''/title/00010000'', ''/title/00010001'', ''/title/00010003'',
      ''/title/00010004'', ''/title/00010005'', ''/title/00010006'', ''/title/00010007'', ''/shared2/title'']"

text \<open>The sums are \<^verbatim>\<open>s32\<close>; the loop ends at the first result that is neither success nor a
  missing folder.\<close>

fun usage_loop :: "(nat \<Rightarrow> fs_answer) \<Rightarrow> string list \<Rightarrow> int \<Rightarrow> int \<Rightarrow> int \<Rightarrow> nand_state \<Rightarrow> int \<times> int \<times> int \<times> nand_state" where
  "usage_loop fs [] result blocks files s = (result, blocks, files, s)"
| "usage_loop fs (dir # dirs) result blocks files s =
     (case isfs fs (IsfsGetUsage dir) s of (a, s) \<Rightarrow>
      if fa_result a = IPC_RESULT_OK
      then usage_loop fs dirs IPC_RESULT_OK (s32 (blocks + fa_blocks a)) (s32 (files + fa_files a)) s
      else if fa_result a = IPC_RESULT_NOEXISTS then usage_loop fs dirs IPC_RESULT_OK blocks files s
      else (fa_result a, blocks, files, s))"

definition nandCalcUsage :: "(nat \<Rightarrow> fs_answer) \<Rightarrow> string list \<Rightarrow> nand_state \<Rightarrow> int \<times> int \<times> int \<times> nand_state" where
  "nandCalcUsage fs dirs s = usage_loop fs dirs (-117) 0 0 s"

definition nandCalcUserUsage :: "(nat \<Rightarrow> fs_answer) \<Rightarrow> nand_state \<Rightarrow> int \<times> int \<times> int \<times> nand_state" where
  "nandCalcUserUsage fs s = nandCalcUsage fs USER_DIR_LIST s"

definition NAND_CHECK_TOO_MANY_APP_BLOCKS :: int where "NAND_CHECK_TOO_MANY_APP_BLOCKS = 1"
definition NAND_CHECK_TOO_MANY_APP_FILES :: int where "NAND_CHECK_TOO_MANY_APP_FILES = 2"
definition NAND_CHECK_TOO_MANY_USER_BLOCKS :: int where "NAND_CHECK_TOO_MANY_USER_BLOCKS = 4"
definition NAND_CHECK_TOO_MANY_USER_FILES :: int where "NAND_CHECK_TOO_MANY_USER_FILES = 8"

lemmas check_flags = NAND_CHECK_TOO_MANY_APP_BLOCKS_def NAND_CHECK_TOO_MANY_APP_FILES_def
  NAND_CHECK_TOO_MANY_USER_BLOCKS_def NAND_CHECK_TOO_MANY_USER_FILES_def

definition nandCheck :: "int \<Rightarrow> int \<Rightarrow> int \<Rightarrow> int \<Rightarrow> int \<Rightarrow> int \<Rightarrow> int" where
  "nandCheck neededBlocks neededFiles homeDirBlocks homeDirFiles userBlocks userFiles =
     (let answer = 0;
          answer = flag_if (u32 (homeDirBlocks + neededBlocks) > 0x400) NAND_CHECK_TOO_MANY_APP_BLOCKS answer;
          answer = flag_if (u32 (homeDirFiles + neededFiles) > 0x21) NAND_CHECK_TOO_MANY_APP_FILES answer;
          answer = flag_if (u32 (userBlocks + neededBlocks) > 0x4400) NAND_CHECK_TOO_MANY_USER_BLOCKS answer;
          answer = flag_if (u32 (userFiles + neededFiles) > 0xFA0) NAND_CHECK_TOO_MANY_USER_FILES answer
      in answer)"

definition NANDCheck :: "(nat \<Rightarrow> fs_answer) \<Rightarrow> int \<Rightarrow> int \<Rightarrow> nat \<Rightarrow> nand_state \<Rightarrow> int \<times> nand_state" where
  "NANDCheck fs neededBlocks neededFiles answer s =
     (if \<not> nandIsInitialized s then (NAND_RESULT_FATAL_ERROR, s)
      else case isfs fs (IsfsGetUsage (nandGetHomeDir s)) s of (home, s) \<Rightarrow>
        if fa_result home \<noteq> IPC_RESULT_OK then (nandConvertErrorCode (fa_result home), s)
        else case nandCalcUserUsage fs s of (result, userBlocks, userFiles, s) \<Rightarrow>
          if result \<noteq> IPC_RESULT_OK then (nandConvertErrorCode result, s)
          else (NAND_RESULT_OK,
                upd_var answer (nandCheck neededBlocks neededFiles (fa_blocks home) (fa_files home) userBlocks userFiles) s))"

section \<open>Shutdown and banners\<close>

text \<open>The shutdown function asks the file system to shut down in the first pass, and waits at
  most half a second for the answer; it never holds the shutdown up.\<close>

definition OS_SD_EVENT_SHUTDOWN :: int where "OS_SD_EVENT_SHUTDOWN = 2"

definition nandOnShutdown :: "bool \<Rightarrow> int \<Rightarrow> nand_state \<Rightarrow> bool \<times> nand_state" where
  "nandOnShutdown final event s =
     (True, if \<not> final \<and> event = OS_SD_EVENT_SHUTDOWN then s\<lparr>nd_requests := nd_requests s @ [IsfsShutdown]\<rparr> else s)"

definition NAND_BANNER_MAGIC :: int where "NAND_BANNER_MAGIC = 0x5749424E"
definition NAND_BANNER_TITLE_MAX :: nat where "NAND_BANNER_TITLE_MAX = 32"

text \<open>The part of a banner in front of its pictures, which are cleared.\<close>

record NANDBanner =
  bn_magic :: int
  bn_flags :: int
  bn_iconSpeed :: int
  bn_title :: "int list"
  bn_subtitle :: "int list"

text \<open>\<^verbatim>\<open>wcsncpy\<close> of a string without its NUL: what is left of the field is cleared.\<close>

definition title_field :: "int list \<Rightarrow> int list" where
  "title_field str = (let t = (if str = [] then [0x20] else str)
     in take NAND_BANNER_TITLE_MAX t @ replicate (NAND_BANNER_TITLE_MAX - length t) 0)"

definition NANDInitBanner :: "int \<Rightarrow> int list \<Rightarrow> int list \<Rightarrow> NANDBanner" where
  "NANDInitBanner flags title subtitle =
     \<lparr>bn_magic = NAND_BANNER_MAGIC, bn_flags = flags, bn_iconSpeed = 0,
      bn_title = title_field title, bn_subtitle = title_field subtitle\<rparr>"

lemma title_field_length: "length (title_field str) = 32"
  by (simp add: title_field_def NAND_BANNER_TITLE_MAX_def Let_def)

end
