(* ===== verification/NandSafe.thy ===== *)
theory NandSafe
  imports NandApi
begin

text \<open>
  The safe open and close of \<^verbatim>\<open>nand/NANDOpenClose.c\<close>: a file that is opened for writing is
  first copied to a new folder of its own under \<^verbatim>\<open>/tmp/sys\<close>; the caller works on the copy,
  and closing it renames the copy over the file.  Each is a chain of callbacks with the number
  of the next step in the command block.
\<close>

section \<open>The chains\<close>

definition hex_digit :: "int \<Rightarrow> char" where
  "hex_digit d = ''0123456789abcdef'' ! nat (d mod 16)"

text \<open>\<^verbatim>\<open>%08x\<close>\<close>

definition hex8 :: "int \<Rightarrow> string" where
  "hex8 x = map (\<lambda>k. hex_digit (u32 x div 16 ^ k)) [7, 6, 5, 4, 3, 2, 1, 0]"

definition temp_dir :: "int \<Rightarrow> string" where
  "temp_dir uniqueNo = ''/tmp/sys/'' @ hex8 uniqueNo"

definition nandGetUniqueNumber :: "nand_state \<Rightarrow> int \<times> nand_state" where
  "nandGetUniqueNumber s =
     (case OSDisableInterrupts s of (enabled, s) \<Rightarrow>
      let num = s_counter s
      in (num, OSRestoreInterrupts enabled (s\<lparr>s_counter := u32 (s_counter s + 1)\<rparr>)))"

definition nandSafeOpenAsync ::
  "(nat \<Rightarrow> fs_answer) \<Rightarrow> string \<Rightarrow> nat \<Rightarrow> int \<Rightarrow> nat \<Rightarrow> int \<Rightarrow> nat \<Rightarrow> nat \<Rightarrow> bool \<Rightarrow> nand_state \<Rightarrow> (int \<times> nand_state) option" where
  "nandSafeOpenAsync fs path i access buffer bufferSize cb b priv s =
     (if \<not> nandIsInitialized s then Some (NAND_RESULT_FATAL_ERROR, s)
      else do {
        openPath \<leftarrow> nandGenerateAbsPath (s_currentDir s) path;
        let s = upd_info i (\<lambda>f. f\<lparr>ni_access := access, ni_stage := 0, ni_openPath := openPath\<rparr>) s
        in Some (if \<not> priv \<and> nandIsPrivatePath openPath then (NAND_RESULT_ACCESS, s)
             else if access = NAND_ACCESS_READ
             then case isfs_async fs (IsfsOpen openPath 1) ReadOpenCallback b (set_file b cb i s) of
                    (result, s) \<Rightarrow> (if result = IPC_RESULT_OK then NAND_RESULT_OK else nandConvertErrorCode result, s)
             else if access = NAND_ACCESS_WRITE \<or> access = NAND_ACCESS_RW
             then case isfs_async fs (IsfsCreateDir ''/tmp/sys'' 0 3 3 3) SafeOpenCallback b
                         (upd_block b (\<lambda>k. k\<lparr>nb_state := 0, nb_buffer := buffer, nb_bufferSize := bufferSize\<rparr>) (set_file b cb i s)) of
                    (result, s) \<Rightarrow> (if result = IPC_RESULT_OK then NAND_RESULT_OK else nandConvertErrorCode result, s)
             else (NAND_RESULT_INVALID, s)) })"

definition NANDPrivateSafeOpenAsync ::
  "(nat \<Rightarrow> fs_answer) \<Rightarrow> string \<Rightarrow> nat \<Rightarrow> int \<Rightarrow> nat \<Rightarrow> int \<Rightarrow> nat \<Rightarrow> nat \<Rightarrow> nand_state \<Rightarrow> (int \<times> nand_state) option" where
  "NANDPrivateSafeOpenAsync fs path i access buffer bufferSize cb b =
     nandSafeOpenAsync fs path i access buffer bufferSize cb b True"

text \<open>The request of the step that has just been entered; -117 when there is none.\<close>

definition safe_open_step :: "(nat \<Rightarrow> fs_answer) \<Rightarrow> int \<Rightarrow> nat \<Rightarrow> nand_state \<Rightarrow> int \<times> nand_state" where
  "safe_open_step fs result b s =
     (let blk = nd_block s b; i = nb_info blk; info = nd_info s i;
          ask = (\<lambda>req. isfs_async fs req SafeOpenCallback b)
      in if nb_state blk = 1 then ask (IsfsGetAttr (ni_openPath info)) s
         else if nb_state blk = 2 then ask (IsfsOpen (ni_openPath info) 1) s
         else if nb_state blk = 3 then
           (case nandGetUniqueNumber (upd_info i (\<lambda>f. f\<lparr>ni_stage := 2\<rparr>) s) of (num, s) \<Rightarrow>
            ask (IsfsCreateDir (temp_dir num) 0 3 0 0)
              (upd_info i (\<lambda>f. f\<lparr>ni_tempFd := result\<rparr>) (upd_block b (\<lambda>k. k\<lparr>nb_uniqueNo := num\<rparr>) s)))
         else if nb_state blk = 4 then
           let tempPath = temp_dir (nb_uniqueNo blk) @ ''/'' @ nandGetRelativeName (ni_openPath info)
           in ask (IsfsCreateFile tempPath (nb_attr blk) (nb_ownerPerm blk) (nb_groupPerm blk) (nb_otherPerm blk))
                (upd_info i (\<lambda>f. f\<lparr>ni_stage := 3, ni_tempPath := tempPath\<rparr>) s)
         else if nb_state blk = 5 then
           let s = upd_info i (\<lambda>f. f\<lparr>ni_stage := 4\<rparr>) s
           in if ni_access info = NAND_ACCESS_WRITE then ask (IsfsOpen (ni_tempPath info) 2) s
              else if ni_access info = NAND_ACCESS_RW then ask (IsfsOpen (ni_tempPath info) 3) s
              else (-117, s)
         else if nb_state blk = 6 then
           ask (IsfsRead (ni_tempFd info) (nb_buffer blk) (nb_bufferSize blk))
             (upd_block b (\<lambda>k. k\<lparr>nb_state := 7\<rparr>) (upd_info i (\<lambda>f. f\<lparr>ni_fd := result, ni_stage := 5\<rparr>) s))
         else if nb_state blk = 7 then ask (IsfsRead (ni_tempFd info) (nb_buffer blk) (nb_bufferSize blk)) s
         else if nb_state blk = 8 then
           if result > 0
           then ask (IsfsWrite (ni_fd info) (take (nat result) (nd_buf s (nb_buffer blk)))) (upd_block b (\<lambda>k. k\<lparr>nb_state := 6\<rparr>) s)
           else if result = IPC_RESULT_OK then ask (IsfsSeek (ni_fd info) 0 0) s
           else (-117, s)
         else (-117, s))"

definition nandSafeOpenCallback :: "(nat \<Rightarrow> fs_answer) \<Rightarrow> int \<Rightarrow> nat \<Rightarrow> nand_state \<Rightarrow> nand_state" where
  "nandSafeOpenCallback fs result b s =
     (let blk = nd_block s b; i = nb_info blk
      in if result \<ge> 0 \<or> (result = IPC_RESULT_EXISTS \<and> nb_state blk = 0) then
           let s = (if nb_state blk = 0 then upd_info i (\<lambda>f. f\<lparr>ni_stage := 1\<rparr>) s else s);
               s = upd_block b (\<lambda>k. k\<lparr>nb_state := nb_state k + 1\<rparr>) s
           in if nb_state blk + 1 = 9 then
                if result = IPC_RESULT_OK
                then notify b (nandConvertErrorCode IPC_RESULT_OK) (upd_info i (\<lambda>f. f\<lparr>ni_mark := 3\<rparr>) s)
                else notify b (nandConvertErrorCode result) s
              else case safe_open_step fs result b s of (myResult, s) \<Rightarrow>
                if myResult \<noteq> IPC_RESULT_OK then notify b (nandConvertErrorCode myResult) s else s
         else notify b (nandConvertErrorCode result) s)"

definition nandReadOpenCallback :: "int \<Rightarrow> nat \<Rightarrow> nand_state \<Rightarrow> nand_state" where
  "nandReadOpenCallback result b s =
     (if result \<ge> 0
      then notify b NAND_RESULT_OK
             (upd_info (nb_info (nd_block s b)) (\<lambda>f. f\<lparr>ni_fd := result, ni_stage := 2, ni_mark := 3\<rparr>) s)
      else notify b (nandConvertErrorCode result) s)"

definition NANDSafeCloseAsync :: "(nat \<Rightarrow> fs_answer) \<Rightarrow> nat \<Rightarrow> nat \<Rightarrow> nat \<Rightarrow> nand_state \<Rightarrow> int \<times> nand_state" where
  "NANDSafeCloseAsync fs i cb b s =
     (let info = nd_info s i
      in if \<not> nandIsInitialized s then (NAND_RESULT_FATAL_ERROR, s)
         else if ni_mark info \<noteq> 3 then (NAND_RESULT_INVALID, s)
         else
           case (if ni_access info = NAND_ACCESS_READ
                 then isfs_async fs (IsfsClose (ni_fd info)) ReadCloseCallback b (set_file b cb i s)
                 else if ni_access info = NAND_ACCESS_WRITE \<or> ni_access info = NAND_ACCESS_RW
                 then isfs_async fs (IsfsClose (ni_fd info)) SafeCloseCallback b
                        (upd_block b (\<lambda>k. k\<lparr>nb_state := 10\<rparr>) (set_file b cb i s))
                 else (IPC_RESULT_INVALID, s))
           of (result, s) \<Rightarrow> (nandConvertErrorCode result, s))"

definition safe_close_step :: "(nat \<Rightarrow> fs_answer) \<Rightarrow> nat \<Rightarrow> nand_state \<Rightarrow> (int \<times> nand_state) option" where
  "safe_close_step fs b s =
     (let blk = nd_block s b; i = nb_info blk; info = nd_info s i;
          ask = (\<lambda>req. isfs_async fs req SafeCloseCallback b);
          stage = (\<lambda>n. upd_info i (\<lambda>f. f\<lparr>ni_stage := n\<rparr>) s)
      in if nb_state blk = 11 then Some (ask (IsfsClose (ni_tempFd info)) (stage 6))
         else if nb_state blk = 12 then Some (ask (IsfsRename (ni_tempPath info) (ni_openPath info)) (stage 7))
         else if nb_state blk = 13 then do {
           parentDir \<leftarrow> nandGetParentDirectory (ni_tempPath info);
           Some (ask (IsfsDelete parentDir) (stage 8)) }
         else Some (-117, s))"

definition nandSafeCloseCallback :: "(nat \<Rightarrow> fs_answer) \<Rightarrow> int \<Rightarrow> nat \<Rightarrow> nand_state \<Rightarrow> nand_state option" where
  "nandSafeCloseCallback fs result b s =
     (if result = IPC_RESULT_OK then
        let s = upd_block b (\<lambda>k. k\<lparr>nb_state := nb_state k + 1\<rparr>) s; blk = nd_block s b
        in if nb_state blk = 14
           then Some (notify b (nandConvertErrorCode result) (upd_info (nb_info blk) (\<lambda>f. f\<lparr>ni_stage := 9, ni_mark := 4\<rparr>) s))
           else do {
             (myResult, s) \<leftarrow> safe_close_step fs b s;
             Some (if myResult \<noteq> IPC_RESULT_OK then notify b (nandConvertErrorCode myResult) s else s) }
      else Some (notify b (nandConvertErrorCode result) s))"

definition nandReadCloseCallback :: "int \<Rightarrow> nat \<Rightarrow> nand_state \<Rightarrow> nand_state" where
  "nandReadCloseCallback result b s =
     notify b (nandConvertErrorCode result)
       (if result = IPC_RESULT_OK
        then upd_info (nb_info (nd_block s b)) (\<lambda>f. f\<lparr>ni_stage := 7, ni_mark := 4\<rparr>) s else s)"

section \<open>Answers\<close>

text \<open>What an answer writes before its callback runs: data, attributes, counters.\<close>

definition answer_effect :: "isfs_req \<Rightarrow> fs_cb \<Rightarrow> nat \<Rightarrow> fs_answer \<Rightarrow> nand_state \<Rightarrow> nand_state" where
  "answer_effect req cb b a s =
     (let s = read_effect req a s; blk = nd_block s b;
          perms = (\<lambda>k. k\<lparr>nb_attr := fa_attr a, nb_ownerPerm := fa_ownerPerm a, nb_groupPerm := fa_groupPerm a, nb_otherPerm := fa_otherPerm a\<rparr>)
      in if fa_result a \<noteq> IPC_RESULT_OK then s
         else case req of
           IsfsGetAttr _ \<Rightarrow>
             if cb = GetStatusCallback
             then upd_status (nb_status blk) (\<lambda>t. t\<lparr>ns_ownerId := fa_ownerId a, ns_groupId := fa_groupId a\<rparr>) (upd_block b perms s)
             else upd_block b (\<lambda>k. (perms k)\<lparr>nb_ownerId := fa_ownerId a, nb_groupId := fa_groupId a\<rparr>) s
         | IsfsReadDir _ \<Rightarrow> upd_block b (\<lambda>k. k\<lparr>nb_dirFileCount := fa_files a\<rparr>) s
         | IsfsGetFileStats _ \<Rightarrow> upd_block b (\<lambda>k. k\<lparr>nb_stats := (fa_length a, fa_position a)\<rparr>) s
         | _ \<Rightarrow> s)"

definition run_callback :: "(nat \<Rightarrow> fs_answer) \<Rightarrow> fs_cb \<Rightarrow> int \<Rightarrow> nat \<Rightarrow> nand_state \<Rightarrow> nand_state option" where
  "run_callback fs cb result b s =
     (case cb of
        NandCallback \<Rightarrow> Some (nandCallback result b s)
      | GetTypeCallback \<Rightarrow> Some (nandGetTypeCallback result b s)
      | OpenCallback \<Rightarrow> Some (nandOpenCallback result b s)
      | CloseCallback \<Rightarrow> Some (nandCloseCallback result b s)
      | SafeOpenCallback \<Rightarrow> Some (nandSafeOpenCallback fs result b s)
      | ReadOpenCallback \<Rightarrow> Some (nandReadOpenCallback result b s)
      | SafeCloseCallback \<Rightarrow> nandSafeCloseCallback fs result b s
      | ReadCloseCallback \<Rightarrow> Some (nandReadCloseCallback result b s)
      | GetStatusCallback \<Rightarrow> Some (nandGetStatusCallback result b s)
      | GetFileStatusCallback \<Rightarrow> Some (nandGetFileStatusAsyncCallback result b s))"

text \<open>The oldest request of block \<open>b\<close> is answered.\<close>

definition on_isfs :: "(nat \<Rightarrow> fs_answer) \<Rightarrow> nat \<Rightarrow> fs_answer \<Rightarrow> nand_state \<Rightarrow> nand_state option" where
  "on_isfs fs b a s =
     (case nd_pending s b of
        [] \<Rightarrow> Some s
      | (req, cb) # rest \<Rightarrow>
          run_callback fs cb (fa_result a) b (answer_effect req cb b a (s\<lparr>nd_pending := (nd_pending s)(b := rest)\<rparr>)))"

fun isfs_answers :: "(nat \<Rightarrow> fs_answer) \<Rightarrow> nat \<Rightarrow> fs_answer list \<Rightarrow> nand_state \<Rightarrow> nand_state option" where
  "isfs_answers fs b [] s = Some s"
| "isfs_answers fs b (a # as) s = on_isfs fs b a s \<bind> isfs_answers fs b as"

end
