(* ===== verification/NandProps.thy ===== *)
theory NandProps
  imports NandSafe
begin

text \<open>
  What the NAND library promises its callers: the chains of requests behind a safe open and a safe close,
  one call of the callback per operation, what the public operations may ask the file system for, and the
  answer of the check for free space.
\<close>

section \<open>Reading the state after an update\<close>

lemma upd_simps [simp]:
  "nd_block (upd_block b f s) = (nd_block s)(b := f (nd_block s b))" "nd_info (upd_block b f s) = nd_info s"
  "nd_pending (upd_block b f s) = nd_pending s" "nd_called (upd_block b f s) = nd_called s"
  "nd_requests (upd_block b f s) = nd_requests s" "nd_buf (upd_block b f s) = nd_buf s"
  "s_currentDir (upd_block b f s) = s_currentDir s" "s_libState (upd_block b f s) = s_libState s"
  "nd_info (upd_info i g s) = (nd_info s)(i := g (nd_info s i))" "nd_block (upd_info i g s) = nd_block s"
  "nd_pending (upd_info i g s) = nd_pending s" "nd_called (upd_info i g s) = nd_called s"
  "nd_requests (upd_info i g s) = nd_requests s" "nd_buf (upd_info i g s) = nd_buf s"
  "s_currentDir (upd_info i g s) = s_currentDir s" "s_libState (upd_info i g s) = s_libState s"
  by (simp_all add: upd_block_def upd_info_def)

lemma upd_other_simps [simp]:
  "nd_block (upd_status t h s) = nd_block s" "nd_info (upd_status t h s) = nd_info s"
  "nd_pending (upd_status t h s) = nd_pending s" "nd_called (upd_status t h s) = nd_called s"
  "nd_requests (upd_status t h s) = nd_requests s" "nd_buf (upd_status t h s) = nd_buf s"
  "nd_block (upd_var v x s) = nd_block s" "nd_info (upd_var v x s) = nd_info s"
  "nd_pending (upd_var v x s) = nd_pending s" "nd_called (upd_var v x s) = nd_called s"
  "nd_requests (upd_var v x s) = nd_requests s"
  by (simp_all add: upd_status_def upd_var_def)

lemma put_var_simps [simp]:
  "nd_block (put_var p x s) = nd_block s" "nd_info (put_var p x s) = nd_info s"
  "nd_pending (put_var p x s) = nd_pending s" "nd_called (put_var p x s) = nd_called s"
  "nd_requests (put_var p x s) = nd_requests s"
  by (simp_all add: put_var_def split: option.split)

lemma notify_simps [simp]:
  "nd_block (notify b r s) = nd_block s" "nd_info (notify b r s) = nd_info s" "nd_pending (notify b r s) = nd_pending s"
  "nd_called (notify b r s) = nd_called s @ [(nb_callback (nd_block s b), r, b)]" "nd_requests (notify b r s) = nd_requests s"
  by (simp_all add: notify_def)

lemma unique_number [simp]:
  "nandGetUniqueNumber s = (s_counter s, s\<lparr>s_counter := u32 (s_counter s + 1)\<rparr>)"
  by (simp add: nandGetUniqueNumber_def OSDisableInterrupts_def OSRestoreInterrupts_def)

lemma read_effect_simps [simp]:
  "nd_block (read_effect req a s) = nd_block s" "nd_info (read_effect req a s) = nd_info s"
  "nd_pending (read_effect req a s) = nd_pending s" "nd_called (read_effect req a s) = nd_called s"
  "nd_requests (read_effect req a s) = nd_requests s" "s_counter (read_effect req a s) = s_counter s"
  by (simp_all add: read_effect_def Let_def split: isfs_req.split)

section \<open>One callback\<close>

text \<open>Block \<open>b\<close> has had its callback called with some result, or still waits for one
  answer.\<close>

definition done_once :: "nat \<Rightarrow> nand_state \<Rightarrow> nand_state \<Rightarrow> bool" where
  "done_once b s t \<longleftrightarrow> nd_pending t b = [] \<and> (\<exists>r. nd_called t = nd_called s @ [(nb_callback (nd_block s b), r, b)])"

definition parent_known :: "nat \<Rightarrow> fs_cb \<Rightarrow> nand_state \<Rightarrow> bool" where
  "parent_known b cb s \<longleftrightarrow> (cb = SafeCloseCallback \<longrightarrow> CHR ''/'' \<in> set (ni_tempPath (nd_info s (nb_info (nd_block s b)))))"

definition waiting_one :: "nat \<Rightarrow> nand_state \<Rightarrow> nand_state \<Rightarrow> bool" where
  "waiting_one b s t \<longleftrightarrow> (\<exists>req cb. nd_pending t b = [(req, cb)] \<and> parent_known b cb t) \<and> nd_called t = nd_called s
     \<and> nb_callback (nd_block t b) = nb_callback (nd_block s b)"

lemma isfs_async_waits:
  "isfs_async fs req cb b s = (r, t) \<Longrightarrow> nd_pending s b = [] \<Longrightarrow> parent_known b cb s \<Longrightarrow>
    nd_called t = nd_called s \<and> nb_callback (nd_block t b) = nb_callback (nd_block s b) \<and> nd_block t = nd_block s
    \<and> (if r = IPC_RESULT_OK then waiting_one b s t else nd_pending t b = [])"
  by (auto simp: isfs_async_def Let_def waiting_one_def parent_known_def split: if_splits)

lemma safe_open_step_waits:
  assumes "safe_open_step fs result b s = (r, t)" "nd_pending s b = []"
  shows "nd_called t = nd_called s \<and> nb_callback (nd_block t b) = nb_callback (nd_block s b)
    \<and> (if r = IPC_RESULT_OK then waiting_one b s t else nd_pending t b = [])"
  using assms
  by (auto simp: safe_open_step_def Let_def isfs_async_def waiting_one_def parent_known_def IPC_RESULT_OK_def split: if_splits)

lemma last_slash: "CHR ''/'' \<in> set path \<Longrightarrow> \<exists>i. slash_before path (length path) = Some i"
proof (rule ccontr)
  assume m: "CHR ''/'' \<in> set path" and n: "\<nexists>i. slash_before path (length path) = Some i"
  have "slash_before path k = None \<Longrightarrow> j < k \<Longrightarrow> path ! j \<noteq> CHR ''/''" for j k
    by (induction k) (auto simp: less_Suc_eq split: if_splits)
  then show False using m n by (metis in_set_conv_nth not_Some_eq)
qed

lemma safe_close_step_waits:
  assumes "nd_pending s b = []" "parent_known b SafeCloseCallback s"
  shows "\<exists>r t. safe_close_step fs b s = Some (r, t) \<and> nd_called t = nd_called s \<and> nb_callback (nd_block t b) = nb_callback (nd_block s b)
    \<and> (if r = IPC_RESULT_OK then waiting_one b s t else nd_pending t b = [])"
proof -
  obtain k where "slash_before (ni_tempPath (nd_info s (nb_info (nd_block s b)))) (length (ni_tempPath (nd_info s (nb_info (nd_block s b))))) = Some k"
    using assms(2) last_slash by (auto simp: parent_known_def)
  then show ?thesis
    using assms
    by (auto simp: safe_close_step_def Let_def isfs_async_def waiting_one_def parent_known_def IPC_RESULT_OK_def nandGetParentDirectory_def)
qed

lemma done_once_notify:
  "nd_pending t b = [] \<Longrightarrow> nd_called t = nd_called s \<Longrightarrow> nb_callback (nd_block t b) = nb_callback (nd_block s b) \<Longrightarrow>
    done_once b s (notify b r t)"
  by (simp add: done_once_def)

lemma safe_open_once:
  assumes p: "nd_pending s b = []"
  shows "done_once b s (nandSafeOpenCallback fs result b s) \<or> waiting_one b s (nandSafeOpenCallback fs result b s)"
proof -
  obtain s1 where s1: "s1 = upd_block b (\<lambda>k. k\<lparr>nb_state := nb_state k + 1\<rparr>)
      (if nb_state (nd_block s b) = 0 then upd_info (nb_info (nd_block s b)) (\<lambda>f. f\<lparr>ni_stage := 1\<rparr>) s else s)" by blast
  have e: "nd_pending s1 b = []" "nd_called s1 = nd_called s" "nb_callback (nd_block s1 b) = nb_callback (nd_block s b)"
    using p by (simp_all add: s1)
  obtain r t where t: "safe_open_step fs result b s1 = (r, t)" by fastforce
  have w: "nd_called t = nd_called s" "nb_callback (nd_block t b) = nb_callback (nd_block s b)"
    "if r = IPC_RESULT_OK then waiting_one b s t else nd_pending t b = []"
    using safe_open_step_waits [OF t e(1)] e by (auto simp: waiting_one_def split: if_splits)
  have cb: "nandSafeOpenCallback fs result b s =
    (if result \<ge> 0 \<or> (result = IPC_RESULT_EXISTS \<and> nb_state (nd_block s b) = 0)
     then if nb_state (nd_block s b) + 1 = 9
          then if result = IPC_RESULT_OK
               then notify b (nandConvertErrorCode IPC_RESULT_OK) (upd_info (nb_info (nd_block s b)) (\<lambda>f. f\<lparr>ni_mark := 3\<rparr>) s1)
               else notify b (nandConvertErrorCode result) s1
          else if r \<noteq> IPC_RESULT_OK then notify b (nandConvertErrorCode r) t else t
     else notify b (nandConvertErrorCode result) s)"
    by (simp only: nandSafeOpenCallback_def Let_def s1 [symmetric] t case_prod_conv)
  show ?thesis
    unfolding cb using e w p by (auto intro: done_once_notify)
qed

lemma safe_close_once:
  assumes p: "nd_pending s b = []" and k: "parent_known b SafeCloseCallback s"
  shows "\<exists>t. nandSafeCloseCallback fs result b s = Some t \<and> (done_once b s t \<or> waiting_one b s t)"
proof -
  obtain s1 where s1: "s1 = upd_block b (\<lambda>k. k\<lparr>nb_state := nb_state k + 1\<rparr>) s" by blast
  have e: "nd_pending s1 b = []" "parent_known b SafeCloseCallback s1" "nd_called s1 = nd_called s"
    "nb_callback (nd_block s1 b) = nb_callback (nd_block s b)"
    using p k by (simp_all add: s1 parent_known_def)
  obtain r t where t: "safe_close_step fs b s1 = Some (r, t)" and w: "nd_called t = nd_called s"
    "nb_callback (nd_block t b) = nb_callback (nd_block s b)" "if r = IPC_RESULT_OK then waiting_one b s t else nd_pending t b = []"
    using safe_close_step_waits [OF e(1,2), of fs] e(3,4) by (auto simp: waiting_one_def split: if_splits)
  have cb: "nandSafeCloseCallback fs result b s =
    (if result = IPC_RESULT_OK
     then if nb_state (nd_block s1 b) = 14
          then Some (notify b (nandConvertErrorCode result) (upd_info (nb_info (nd_block s1 b)) (\<lambda>f. f\<lparr>ni_stage := 9, ni_mark := 4\<rparr>) s1))
          else Some (if r \<noteq> IPC_RESULT_OK then notify b (nandConvertErrorCode r) t else t)
     else Some (notify b (nandConvertErrorCode result) s))"
    by (simp only: nandSafeCloseCallback_def Let_def s1 [symmetric] t case_prod_conv bind.bind_lunit)
  show ?thesis
    unfolding cb using e w p by (auto intro: done_once_notify)
qed

lemma run_callback_once:
  assumes "nd_pending s b = []" "parent_known b cb s"
  shows "\<exists>t. run_callback fs cb result b s = Some t \<and> (done_once b s t \<or> waiting_one b s t)"
proof (cases "cb = SafeOpenCallback \<or> cb = SafeCloseCallback")
  case True
  then show ?thesis
    using safe_open_once [OF assms(1)] safe_close_once [OF assms(1)] assms(2) by (auto simp: run_callback_def)
next
  case False
  then show ?thesis
    using assms(1)
    by (cases cb) (simp_all add: run_callback_def done_once_def nandCallback_def nandGetTypeCallback_def nandOpenCallback_def
        nandCloseCallback_def nandReadOpenCallback_def nandReadCloseCallback_def nandGetStatusCallback_def
        nandGetFileStatusAsyncCallback_def Let_def split: option.split)
qed

lemma answer_effect_keeps:
  "nd_pending (answer_effect req cb b a s) = nd_pending s" "nd_called (answer_effect req cb b a s) = nd_called s"
  "nb_callback (nd_block (answer_effect req cb b a s) c) = nb_callback (nd_block s c)"
  "nd_info (answer_effect req cb b a s) = nd_info s" "nb_info (nd_block (answer_effect req cb b a s) c) = nb_info (nd_block s c)"
  "nd_requests (answer_effect req cb b a s) = nd_requests s"
  by (simp_all add: answer_effect_def Let_def split: isfs_req.split)

lemma on_isfs_once:
  assumes w: "waiting_one b s t"
  shows "\<exists>u. on_isfs fs b a t = Some u \<and> (done_once b s u \<or> waiting_one b s u)"
proof -
  obtain req cb where r: "nd_pending t b = [(req, cb)]" "parent_known b cb t" "nd_called t = nd_called s"
    "nb_callback (nd_block t b) = nb_callback (nd_block s b)" using w by (auto simp: waiting_one_def)
  let ?t = "answer_effect req cb b a (t\<lparr>nd_pending := (nd_pending t)(b := [])\<rparr>)"
  have e: "nd_pending ?t b = []" "parent_known b cb ?t" "nd_called ?t = nd_called s"
    "nb_callback (nd_block ?t b) = nb_callback (nd_block s b)"
    using r by (simp_all add: answer_effect_keeps parent_known_def)
  from run_callback_once [OF e(1,2)] obtain u where "run_callback fs cb (fa_result a) b ?t = Some u"
    "done_once b ?t u \<or> waiting_one b ?t u" by blast
  then show ?thesis using r(1) e(3,4) by (simp add: on_isfs_def done_once_def waiting_one_def)
qed

text \<open>C38. Whatever the file system answers, and whatever it accepts, the callback of an
  asynchronous operation is called at most once, and exactly once when nothing is under way for
  the block any more.  This holds for the single requests and for the two chains of the safe
  open and close.\<close>

theorem nand_callback_once:
  assumes "nd_pending s b = [(req, cb)]" "parent_known b cb s"
  shows "\<exists>t. isfs_answers fs b as s = Some t
    \<and> ((\<exists>req cb. nd_pending t b = [(req, cb)]) \<and> nd_called t = nd_called s
       \<or> nd_pending t b = [] \<and> (\<exists>r. nd_called t = nd_called s @ [(nb_callback (nd_block s b), r, b)]))"
proof -
  have idle: "isfs_answers fs b as t = Some t" if "nd_pending t b = []" for as t
    using that by (induction as) (simp_all add: on_isfs_def)
  have "\<exists>u. isfs_answers fs b as t = Some u \<and> (done_once b s u \<or> waiting_one b s u)" if "waiting_one b s t" for t
    using that
  proof (induction as arbitrary: t)
    case (Cons a as)
    from on_isfs_once [OF Cons.prems] obtain u where u: "on_isfs fs b a t = Some u" "done_once b s u \<or> waiting_one b s u" by blast
    show ?case
    proof (cases "done_once b s u")
      case True
      then show ?thesis using u idle [of u as] by (simp add: done_once_def)
    next
      case False
      then show ?thesis using u Cons.IH [of u] by simp
    qed
  qed simp
  from this [of s] assms show ?thesis by (fastforce simp: waiting_one_def done_once_def)
qed

section \<open>Opening a file safely copies it\<close>

text \<open>The chain of \<open>nandSafeOpenCallback\<close> with \<open>k\<close> steps behind it: \<open>req\<close> is under way, the
  requests so far are \<open>R\<close>.  The constants of the chain are in one record.\<close>

record safe_env =
  se_cb :: nat
  se_called :: "(nat \<times> int \<times> nat) list"
  se_file :: nat
  se_buf :: nat
  se_size :: int
  se_access :: int
  se_path :: string
  se_num :: int
  se_attrs :: fs_answer
  se_tempFd :: int
  se_fd :: int

definition temp_path :: "safe_env \<Rightarrow> string" where
  "temp_path e = temp_dir (se_num e) @ ''/'' @ nandGetRelativeName (se_path e)"

definition open_mode :: "int \<Rightarrow> int" where
  "open_mode access = (if access = NAND_ACCESS_WRITE then 2 else 3)"

definition attrs_set :: "safe_env \<Rightarrow> nat \<Rightarrow> nand_state \<Rightarrow> bool" where
  "attrs_set e b t \<longleftrightarrow>
     nb_attr (nd_block t b) = fa_attr (se_attrs e) \<and> nb_ownerPerm (nd_block t b) = fa_ownerPerm (se_attrs e)
     \<and> nb_groupPerm (nd_block t b) = fa_groupPerm (se_attrs e) \<and> nb_otherPerm (nd_block t b) = fa_otherPerm (se_attrs e)"

definition so_frame :: "safe_env \<Rightarrow> nat \<Rightarrow> int \<Rightarrow> isfs_req list \<Rightarrow> nand_state \<Rightarrow> bool" where
  "so_frame e b k R t \<longleftrightarrow>
     nd_requests t = R \<and> nd_called t = se_called e
     \<and> nb_callback (nd_block t b) = se_cb e \<and> nb_info (nd_block t b) = se_file e
     \<and> nb_buffer (nd_block t b) = se_buf e \<and> nb_bufferSize (nd_block t b) = se_size e
     \<and> ni_access (nd_info t (se_file e)) = se_access e \<and> ni_openPath (nd_info t (se_file e)) = se_path e
     \<and> (k \<le> 2 \<longrightarrow> s_counter t = se_num e) \<and> (k \<ge> 3 \<longrightarrow> nb_uniqueNo (nd_block t b) = se_num e)
     \<and> (k \<ge> 2 \<longrightarrow> attrs_set e b t) \<and> (k \<ge> 3 \<longrightarrow> ni_tempFd (nd_info t (se_file e)) = se_tempFd e)
     \<and> (k \<ge> 4 \<longrightarrow> ni_tempPath (nd_info t (se_file e)) = temp_path e)
     \<and> (k \<ge> 6 \<longrightarrow> ni_fd (nd_info t (se_file e)) = se_fd e)"

definition so_at :: "safe_env \<Rightarrow> nat \<Rightarrow> int \<Rightarrow> isfs_req \<Rightarrow> isfs_req list \<Rightarrow> nand_state \<Rightarrow> bool" where
  "so_at e b k req R t \<longleftrightarrow>
     nd_pending t b = [(req, SafeOpenCallback)] \<and> nb_state (nd_block t b) = k \<and> so_frame e b k R t"

definition accepts :: "(nat \<Rightarrow> fs_answer) \<Rightarrow> bool" where
  "accepts fs \<longleftrightarrow> (\<forall>n. fa_result (fs n) = IPC_RESULT_OK)"

lemma accepts_async:
  "accepts fs \<Longrightarrow> isfs_async fs req cb b s =
    (IPC_RESULT_OK, s\<lparr>nd_requests := nd_requests s @ [req], nd_pending := (nd_pending s)(b := nd_pending s b @ [(req, cb)])\<rparr>)"
  by (simp add: isfs_async_def accepts_def Let_def)

lemma s_counter_simps [simp]:
  "s_counter (upd_block b f s) = s_counter s" "s_counter (upd_info i g s) = s_counter s" "s_counter (upd_status v h s) = s_counter s"
  by (simp_all add: upd_block_def upd_info_def upd_status_def)

lemma answer_effect_block:
  "nb_state (nd_block (answer_effect req cb b a s) c) = nb_state (nd_block s c)"
  "nb_buffer (nd_block (answer_effect req cb b a s) c) = nb_buffer (nd_block s c)"
  "nb_bufferSize (nd_block (answer_effect req cb b a s) c) = nb_bufferSize (nd_block s c)"
  "nb_uniqueNo (nd_block (answer_effect req cb b a s) c) = nb_uniqueNo (nd_block s c)"
  "s_counter (answer_effect req cb b a s) = s_counter s"
  by (simp_all add: answer_effect_def Let_def split: isfs_req.split)

lemma answer_effect_attrs:
  "(\<And>p. req \<noteq> IsfsGetAttr p) \<Longrightarrow> attrs_set e b (answer_effect req cb b a s) = attrs_set e b s"
  "fa_result (se_attrs e) = IPC_RESULT_OK \<Longrightarrow> attrs_set e b (answer_effect (IsfsGetAttr p) SafeOpenCallback b (se_attrs e) s)"
  by (simp_all add: answer_effect_def attrs_set_def Let_def split: isfs_req.split)

lemma answer_effect_buf:
  "nd_buf (answer_effect (IsfsRead fd buf len) cb b a s) buf = take (nat (fa_result a)) (fa_data a) @ drop (nat (fa_result a)) (nd_buf s buf)"
  by (simp add: answer_effect_def read_effect_def Let_def)

text \<open>An answer that is no error enters the next step.\<close>

lemma so_enter:
  assumes at: "so_at e b k req R t" and k: "k \<noteq> 8" and x: "0 \<le> fa_result x \<or> k = 0 \<and> fa_result x = IPC_RESULT_EXISTS"
    and na: "k \<ge> 2 \<Longrightarrow> (\<And>p. req \<noteq> IsfsGetAttr p)"
  obtains s where "on_isfs fs b x t = Some (case safe_open_step fs (fa_result x) b s of (r, u) \<Rightarrow>
      if r \<noteq> IPC_RESULT_OK then notify b (nandConvertErrorCode r) u else u)"
    "nd_pending s b = []" "nb_state (nd_block s b) = k + 1" "so_frame e b k R s"
    "\<And>p. req = IsfsGetAttr p \<Longrightarrow> x = se_attrs e \<Longrightarrow> fa_result x = IPC_RESULT_OK \<Longrightarrow> attrs_set e b s"
    "\<And>fd len. req = IsfsRead fd (se_buf e) len \<Longrightarrow>
      nd_buf s (se_buf e) = take (nat (fa_result x)) (fa_data x) @ drop (nat (fa_result x)) (nd_buf t (se_buf e))"
proof -
  obtain u where u: "u = answer_effect req SafeOpenCallback b x (t\<lparr>nd_pending := (nd_pending t)(b := [])\<rparr>)" by blast
  obtain s where s: "s = upd_block b (\<lambda>k. k\<lparr>nb_state := nb_state k + 1\<rparr>)
      (if nb_state (nd_block u b) = 0 then upd_info (nb_info (nd_block u b)) (\<lambda>f. f\<lparr>ni_stage := 1\<rparr>) u else u)" by blast
  note a = at [unfolded so_at_def so_frame_def]
  have uk: "nb_state (nd_block u b) = k" using a by (simp add: u answer_effect_block)
  have as: "k \<ge> 2 \<Longrightarrow> attrs_set e b u"
    using a na by (simp add: u answer_effect_attrs(1)) (simp add: attrs_set_def)
  show ?thesis
  proof (rule that)
    have "on_isfs fs b x t = Some (nandSafeOpenCallback fs (fa_result x) b u)"
      using a by (simp add: on_isfs_def run_callback_def u)
    also have "nandSafeOpenCallback fs (fa_result x) b u = (case safe_open_step fs (fa_result x) b s of (r, u) \<Rightarrow>
      if r \<noteq> IPC_RESULT_OK then notify b (nandConvertErrorCode r) u else u)"
    proof -
      have "nandSafeOpenCallback fs (fa_result x) b u =
        (if 0 \<le> fa_result x \<or> fa_result x = IPC_RESULT_EXISTS \<and> nb_state (nd_block u b) = 0
         then if nb_state (nd_block u b) + 1 = 9
              then if fa_result x = IPC_RESULT_OK
                   then notify b (nandConvertErrorCode IPC_RESULT_OK) (upd_info (nb_info (nd_block u b)) (\<lambda>f. f\<lparr>ni_mark := 3\<rparr>) s)
                   else notify b (nandConvertErrorCode (fa_result x)) s
              else case safe_open_step fs (fa_result x) b s of (r, u) \<Rightarrow>
                if r \<noteq> IPC_RESULT_OK then notify b (nandConvertErrorCode r) u else u
         else notify b (nandConvertErrorCode (fa_result x)) u)"
        by (simp only: nandSafeOpenCallback_def Let_def s [symmetric])
      then show ?thesis using x k uk by auto
    qed
    finally show "on_isfs fs b x t = Some (case safe_open_step fs (fa_result x) b s of (r, u) \<Rightarrow>
      if r \<noteq> IPC_RESULT_OK then notify b (nandConvertErrorCode r) u else u)" .
    show "nd_pending s b = []" "nb_state (nd_block s b) = k + 1"
      using a uk by (simp_all add: s u answer_effect_keeps)
    show "so_frame e b k R s"
      using a as uk unfolding so_frame_def
      by (simp add: s u answer_effect_keeps answer_effect_block) (simp add: attrs_set_def)
    show "attrs_set e b s" if "req = IsfsGetAttr p" "x = se_attrs e" "fa_result x = IPC_RESULT_OK" for p
    proof -
      have "attrs_set e b u" using that answer_effect_attrs(2) by (simp add: u)
      then show ?thesis by (simp add: s attrs_set_def)
    qed
    show "nd_buf s (se_buf e) = take (nat (fa_result x)) (fa_data x) @ drop (nat (fa_result x)) (nd_buf t (se_buf e))"
      if "req = IsfsRead fd (se_buf e) len" for fd len
      using that by (simp add: s u answer_effect_buf)
  qed
qed

text \<open>The steps, each when its request is accepted.\<close>

lemma so_next:
  assumes "on_isfs fs b x t = Some (case safe_open_step fs (fa_result x) b s of (r, u) \<Rightarrow>
      if r \<noteq> IPC_RESULT_OK then notify b (nandConvertErrorCode r) u else u)"
    and step: "safe_open_step fs (fa_result x) b s = isfs_async fs req SafeOpenCallback b u" and acc: "accepts fs"
    and u: "nd_pending u b = []" "nb_state (nd_block u b) = k" "so_frame e b k R u"
  shows "\<exists>t'. on_isfs fs b x t = Some t' \<and> so_at e b k req (R @ [req]) t'"
proof -
  have "nd_requests u = R" using u(3) by (simp add: so_frame_def)
  then show ?thesis
    using assms(1) u by (simp add: step accepts_async [OF acc] so_at_def so_frame_def attrs_set_def)
qed

lemma so_0:
  assumes acc: "accepts fs" and at: "so_at e b 0 (IsfsCreateDir d a v g w) R t"
    and x: "fa_result x \<ge> 0 \<or> fa_result x = IPC_RESULT_EXISTS"
  shows "\<exists>t'. on_isfs fs b x t = Some t' \<and> so_at e b 1 (IsfsGetAttr (se_path e)) (R @ [IsfsGetAttr (se_path e)]) t'"
proof -
  obtain s where s: "on_isfs fs b x t = Some (case safe_open_step fs (fa_result x) b s of (r, u) \<Rightarrow>
      if r \<noteq> IPC_RESULT_OK then notify b (nandConvertErrorCode r) u else u)"
    "nd_pending s b = []" "nb_state (nd_block s b) = 0 + 1" "so_frame e b 0 R s"
    by (rule so_enter [OF at]) (use x in auto)
  show ?thesis
    using s(2-4) by (intro so_next [OF s(1) _ acc, of _ s]) (simp_all add: safe_open_step_def so_frame_def)
qed

lemma so_1:
  assumes acc: "accepts fs" and at: "so_at e b 1 (IsfsGetAttr p) R t" and x: "fa_result (se_attrs e) = IPC_RESULT_OK"
  shows "\<exists>t'. on_isfs fs b (se_attrs e) t = Some t' \<and> so_at e b 2 (IsfsOpen (se_path e) 1) (R @ [IsfsOpen (se_path e) 1]) t'"
proof -
  obtain s where s: "on_isfs fs b (se_attrs e) t = Some (case safe_open_step fs (fa_result (se_attrs e)) b s of (r, u) \<Rightarrow>
      if r \<noteq> IPC_RESULT_OK then notify b (nandConvertErrorCode r) u else u)"
    "nd_pending s b = []" "nb_state (nd_block s b) = 1 + 1" "so_frame e b 1 R s" "attrs_set e b s"
    by (rule so_enter [OF at, of "se_attrs e"]) (use x in \<open>auto simp: IPC_RESULT_OK_def\<close>)
  show ?thesis
    using s(2-5) by (intro so_next [OF s(1) _ acc, of _ s]) (simp_all add: safe_open_step_def so_frame_def)
qed

lemma so_2:
  assumes acc: "accepts fs" and at: "so_at e b 2 (IsfsOpen p m) R t" and x: "fa_result x = se_tempFd e" "0 \<le> se_tempFd e"
  shows "\<exists>t'. on_isfs fs b x t = Some t'
    \<and> so_at e b 3 (IsfsCreateDir (temp_dir (se_num e)) 0 3 0 0) (R @ [IsfsCreateDir (temp_dir (se_num e)) 0 3 0 0]) t'"
proof -
  obtain s where s: "on_isfs fs b x t = Some (case safe_open_step fs (fa_result x) b s of (r, u) \<Rightarrow>
      if r \<noteq> IPC_RESULT_OK then notify b (nandConvertErrorCode r) u else u)"
    "nd_pending s b = []" "nb_state (nd_block s b) = 2 + 1" "so_frame e b 2 R s"
    by (rule so_enter [OF at, of x]) (use x in auto)
  obtain u where u: "u = upd_info (se_file e) (\<lambda>f. f\<lparr>ni_tempFd := fa_result x\<rparr>)
      (upd_block b (\<lambda>k. k\<lparr>nb_uniqueNo := se_num e\<rparr>)
        ((upd_info (se_file e) (\<lambda>f. f\<lparr>ni_stage := 2\<rparr>) s)\<lparr>s_counter := u32 (se_num e + 1)\<rparr>))" by blast
  note f = s(4) [unfolded so_frame_def]
  have "safe_open_step fs (fa_result x) b s = isfs_async fs (IsfsCreateDir (temp_dir (se_num e)) 0 3 0 0) SafeOpenCallback b u"
    using f s(3) by (simp add: safe_open_step_def Let_def u)
  then show ?thesis
    using f s(2,3) x by (intro so_next [OF s(1) _ acc, of _ u]) (simp_all add: u so_frame_def attrs_set_def)
qed

definition create_copy :: "safe_env \<Rightarrow> isfs_req" where
  "create_copy e = IsfsCreateFile (temp_path e) (fa_attr (se_attrs e)) (fa_ownerPerm (se_attrs e))
     (fa_groupPerm (se_attrs e)) (fa_otherPerm (se_attrs e))"

lemma so_3:
  assumes acc: "accepts fs" and at: "so_at e b 3 (IsfsCreateDir d a v g w) R t" and x: "0 \<le> fa_result x"
  shows "\<exists>t'. on_isfs fs b x t = Some t' \<and> so_at e b 4 (create_copy e) (R @ [create_copy e]) t'"
proof -
  obtain s where s: "on_isfs fs b x t = Some (case safe_open_step fs (fa_result x) b s of (r, u) \<Rightarrow>
      if r \<noteq> IPC_RESULT_OK then notify b (nandConvertErrorCode r) u else u)"
    "nd_pending s b = []" "nb_state (nd_block s b) = 3 + 1" "so_frame e b 3 R s"
    by (rule so_enter [OF at, of x]) (use x in auto)
  obtain u where u: "u = upd_info (se_file e) (\<lambda>f. f\<lparr>ni_stage := 3, ni_tempPath := temp_path e\<rparr>) s" by blast
  note f = s(4) [unfolded so_frame_def attrs_set_def]
  have "safe_open_step fs (fa_result x) b s = isfs_async fs (create_copy e) SafeOpenCallback b u"
    using f s(3) by (simp add: safe_open_step_def Let_def u create_copy_def temp_path_def)
  then show ?thesis
    using f s(2,3) by (intro so_next [OF s(1) _ acc, of _ u]) (simp_all add: u so_frame_def attrs_set_def)
qed

lemma so_4:
  assumes acc: "accepts fs" and at: "so_at e b 4 (create_copy e) R t" and x: "0 \<le> fa_result x"
    and m: "se_access e = NAND_ACCESS_WRITE \<or> se_access e = NAND_ACCESS_RW"
  shows "\<exists>t'. on_isfs fs b x t = Some t'
    \<and> so_at e b 5 (IsfsOpen (temp_path e) (open_mode (se_access e))) (R @ [IsfsOpen (temp_path e) (open_mode (se_access e))]) t'"
proof -
  obtain s where s: "on_isfs fs b x t = Some (case safe_open_step fs (fa_result x) b s of (r, u) \<Rightarrow>
      if r \<noteq> IPC_RESULT_OK then notify b (nandConvertErrorCode r) u else u)"
    "nd_pending s b = []" "nb_state (nd_block s b) = 4 + 1" "so_frame e b 4 R s"
    by (rule so_enter [OF at, of x]) (use x in \<open>auto simp: create_copy_def\<close>)
  obtain u where u: "u = upd_info (se_file e) (\<lambda>f. f\<lparr>ni_stage := 4\<rparr>) s" by blast
  note f = s(4) [unfolded so_frame_def attrs_set_def]
  have "safe_open_step fs (fa_result x) b s = isfs_async fs (IsfsOpen (temp_path e) (open_mode (se_access e))) SafeOpenCallback b u"
    using f s(3) m by (auto simp: safe_open_step_def Let_def u open_mode_def nand_perms)
  then show ?thesis
    using f s(2,3) by (intro so_next [OF s(1) _ acc, of _ u]) (simp_all add: u so_frame_def attrs_set_def)
qed

definition read_copy :: "safe_env \<Rightarrow> isfs_req" where
  "read_copy e = IsfsRead (se_tempFd e) (se_buf e) (se_size e)"

lemma so_5:
  assumes acc: "accepts fs" and at: "so_at e b 5 (IsfsOpen p m) R t" and x: "fa_result x = se_fd e" "0 \<le> se_fd e"
  shows "\<exists>t'. on_isfs fs b x t = Some t' \<and> so_at e b 7 (read_copy e) (R @ [read_copy e]) t'"
proof -
  obtain s where s: "on_isfs fs b x t = Some (case safe_open_step fs (fa_result x) b s of (r, u) \<Rightarrow>
      if r \<noteq> IPC_RESULT_OK then notify b (nandConvertErrorCode r) u else u)"
    "nd_pending s b = []" "nb_state (nd_block s b) = 5 + 1" "so_frame e b 5 R s"
    by (rule so_enter [OF at, of x]) (use x in auto)
  obtain u where u: "u = upd_block b (\<lambda>k. k\<lparr>nb_state := 7\<rparr>)
      (upd_info (se_file e) (\<lambda>f. f\<lparr>ni_fd := fa_result x, ni_stage := 5\<rparr>) s)" by blast
  note f = s(4) [unfolded so_frame_def attrs_set_def]
  have "safe_open_step fs (fa_result x) b s = isfs_async fs (read_copy e) SafeOpenCallback b u"
    using f s(3) by (simp add: safe_open_step_def Let_def u read_copy_def)
  then show ?thesis
    using f s(2,3) x by (intro so_next [OF s(1) _ acc, of _ u]) (simp_all add: u so_frame_def attrs_set_def)
qed

lemma so_read:
  assumes acc: "accepts fs" and at: "so_at e b 7 (read_copy e) R t"
    and x: "fa_result x = int (length (fa_data x))" "fa_data x \<noteq> []"
  shows "\<exists>t'. on_isfs fs b x t = Some t'
    \<and> so_at e b 6 (IsfsWrite (se_fd e) (fa_data x)) (R @ [IsfsWrite (se_fd e) (fa_data x)]) t'"
proof -
  obtain s where s: "on_isfs fs b x t = Some (case safe_open_step fs (fa_result x) b s of (r, u) \<Rightarrow>
      if r \<noteq> IPC_RESULT_OK then notify b (nandConvertErrorCode r) u else u)"
    "nd_pending s b = []" "nb_state (nd_block s b) = 7 + 1" "so_frame e b 7 R s"
    "nd_buf s (se_buf e) = take (nat (fa_result x)) (fa_data x) @ drop (nat (fa_result x)) (nd_buf t (se_buf e))"
    by (rule so_enter [OF at, of x]) (use x in \<open>auto simp: read_copy_def\<close>)
  obtain u where u: "u = upd_block b (\<lambda>k. k\<lparr>nb_state := 6\<rparr>) s" by blast
  note f = s(4) [unfolded so_frame_def attrs_set_def]
  have "safe_open_step fs (fa_result x) b s = isfs_async fs (IsfsWrite (se_fd e) (fa_data x)) SafeOpenCallback b u"
    using f s(3,5) x by (simp add: safe_open_step_def Let_def u)
  then show ?thesis
    using f s(2,3) by (intro so_next [OF s(1) _ acc, of _ u]) (simp_all add: u so_frame_def attrs_set_def)
qed

lemma so_written:
  assumes acc: "accepts fs" and at: "so_at e b 6 (IsfsWrite fd data) R t" and x: "0 \<le> fa_result x"
  shows "\<exists>t'. on_isfs fs b x t = Some t' \<and> so_at e b 7 (read_copy e) (R @ [read_copy e]) t'"
proof -
  obtain s where s: "on_isfs fs b x t = Some (case safe_open_step fs (fa_result x) b s of (r, u) \<Rightarrow>
      if r \<noteq> IPC_RESULT_OK then notify b (nandConvertErrorCode r) u else u)"
    "nd_pending s b = []" "nb_state (nd_block s b) = 6 + 1" "so_frame e b 6 R s"
    by (rule so_enter [OF at, of x]) (use x in auto)
  note f = s(4) [unfolded so_frame_def attrs_set_def]
  have "safe_open_step fs (fa_result x) b s = isfs_async fs (read_copy e) SafeOpenCallback b s"
    using f s(3) by (simp add: safe_open_step_def Let_def read_copy_def)
  then show ?thesis
    using f s(2,3) by (intro so_next [OF s(1) _ acc, of _ s]) (simp_all add: so_frame_def attrs_set_def)
qed

lemma so_end:
  assumes acc: "accepts fs" and at: "so_at e b 7 (read_copy e) R t" and x: "fa_result x = 0"
  shows "\<exists>t'. on_isfs fs b x t = Some t' \<and> so_at e b 8 (IsfsSeek (se_fd e) 0 0) (R @ [IsfsSeek (se_fd e) 0 0]) t'"
proof -
  obtain s where s: "on_isfs fs b x t = Some (case safe_open_step fs (fa_result x) b s of (r, u) \<Rightarrow>
      if r \<noteq> IPC_RESULT_OK then notify b (nandConvertErrorCode r) u else u)"
    "nd_pending s b = []" "nb_state (nd_block s b) = 7 + 1" "so_frame e b 7 R s"
    by (rule so_enter [OF at, of x]) (use x in \<open>auto simp: read_copy_def\<close>)
  note f = s(4) [unfolded so_frame_def attrs_set_def]
  have "safe_open_step fs (fa_result x) b s = isfs_async fs (IsfsSeek (se_fd e) 0 0) SafeOpenCallback b s"
    using f s(3) x by (simp add: safe_open_step_def Let_def IPC_RESULT_OK_def)
  then show ?thesis
    using f s(2,3) by (intro so_next [OF s(1) _ acc, of _ s]) (simp_all add: so_frame_def attrs_set_def)
qed

lemma so_done:
  assumes "so_at e b 8 (IsfsSeek fd p m) R t" "fa_result x = 0"
  shows "\<exists>t'. on_isfs fs b x t = Some t' \<and> nd_pending t' b = [] \<and> nd_called t' = se_called e @ [(se_cb e, NAND_RESULT_OK, b)]
    \<and> nd_requests t' = R \<and> nd_info t' (se_file e) = (nd_info t (se_file e))\<lparr>ni_mark := 3\<rparr> \<and> nd_info t (se_file e) \<in>
      {f. ni_access f = se_access e \<and> ni_openPath f = se_path e \<and> ni_tempPath f = temp_path e \<and> ni_fd f = se_fd e \<and> ni_tempFd f = se_tempFd e}"
  using assms
  by (simp add: so_at_def so_frame_def on_isfs_def run_callback_def nandSafeOpenCallback_def Let_def answer_effect_keeps
      answer_effect_block nandConvertErrorCode_def NAND_RESULT_OK_def IPC_RESULT_OK_def)

lemma isfs_answers_append: "isfs_answers fs b (as @ bs) s = isfs_answers fs b as s \<bind> isfs_answers fs b bs"
  by (induction as arbitrary: s) (simp_all split: bind_split)

text \<open>A piece of the file: the answer to the read, and the one to the write of its data.\<close>

definition good_piece :: "fs_answer \<times> fs_answer \<Rightarrow> bool" where
  "good_piece = (\<lambda>(x, w). fa_result x = int (length (fa_data x)) \<and> fa_data x \<noteq> [] \<and> 0 \<le> fa_result w)"

definition piece_answers :: "(fs_answer \<times> fs_answer) list \<Rightarrow> fs_answer list" where
  "piece_answers ps = concat (map (\<lambda>(x, w). [x, w]) ps)"

lemma so_copy:
  assumes "accepts fs" "so_at e b 7 (read_copy e) R t" "\<forall>p\<in>set ps. good_piece p"
  shows "\<exists>t'. isfs_answers fs b (piece_answers ps) t = Some t'
    \<and> so_at e b 7 (read_copy e) (R @ concat (map (\<lambda>(x, w). [IsfsWrite (se_fd e) (fa_data x), read_copy e]) ps)) t'"
  using assms(2,3)
proof (induction ps arbitrary: R t)
  case (Cons p ps)
  obtain x w where p: "p = (x, w)" by fastforce
  have g: "fa_result x = int (length (fa_data x))" "fa_data x \<noteq> []" "0 \<le> fa_result w"
    using Cons.prems(2) by (auto simp: p good_piece_def)
  obtain t1 where t1: "on_isfs fs b x t = Some t1" "so_at e b 6 (IsfsWrite (se_fd e) (fa_data x)) (R @ [IsfsWrite (se_fd e) (fa_data x)]) t1"
    using so_read [OF assms(1) Cons.prems(1) g(1,2)] by blast
  obtain t2 where t2: "on_isfs fs b w t1 = Some t2"
    "so_at e b 7 (read_copy e) ((R @ [IsfsWrite (se_fd e) (fa_data x)]) @ [read_copy e]) t2"
    using so_written [OF assms(1) t1(2) g(3)] by blast
  have "\<forall>p\<in>set ps. good_piece p" using Cons.prems(2) by simp
  from Cons.IH [OF t2(2) this] t1(1) t2(1) show ?case
    by (simp add: p piece_answers_def)
qed (simp add: piece_answers_def)

text \<open>C36. Opening a file safely for writing ends with success when the file system keeps its
  side: the file and its new copy in a folder of its own are opened, and the pieces read from
  the one are written to the other, in order and to the last.  The file itself is only opened
  for reading; the descriptor that the caller gets is the one of the copy.\<close>

theorem nandSafeOpen_copies:
  assumes init: "nandIsInitialized s" "nd_pending s b = []" "nandGenerateAbsPath (s_currentDir s) path = Some p"
    and mode: "access = NAND_ACCESS_WRITE \<or> access = NAND_ACCESS_RW" and acc: "accepts fs"
    and ans: "0 \<le> fa_result d \<or> fa_result d = IPC_RESULT_EXISTS" "fa_result attrs = IPC_RESULT_OK" "0 \<le> fa_result orig"
      "0 \<le> fa_result folder" "0 \<le> fa_result file" "0 \<le> fa_result copy" "\<forall>p\<in>set ps. good_piece p"
      "fa_result over = 0" "fa_result seek = 0"
    and temp: "temp = temp_dir (s_counter s) @ ''/'' @ nandGetRelativeName p"
  shows "\<exists>t u. NANDPrivateSafeOpenAsync fs path i access buf len cb b s = Some (NAND_RESULT_OK, t)
    \<and> isfs_answers fs b ([d, attrs, orig, folder, file, copy] @ piece_answers ps @ [over, seek]) t = Some u
    \<and> nd_called u = nd_called s @ [(cb, NAND_RESULT_OK, b)] \<and> nd_pending u b = []
    \<and> ni_fd (nd_info u i) = fa_result copy \<and> ni_tempFd (nd_info u i) = fa_result orig \<and> ni_mark (nd_info u i) = 3
    \<and> ni_access (nd_info u i) = access \<and> ni_openPath (nd_info u i) = p \<and> ni_tempPath (nd_info u i) = temp
    \<and> nd_requests u = nd_requests s
        @ [IsfsCreateDir ''/tmp/sys'' 0 3 3 3, IsfsGetAttr p, IsfsOpen p 1, IsfsCreateDir (temp_dir (s_counter s)) 0 3 0 0,
           IsfsCreateFile temp (fa_attr attrs) (fa_ownerPerm attrs) (fa_groupPerm attrs) (fa_otherPerm attrs),
           IsfsOpen temp (open_mode access), IsfsRead (fa_result orig) buf len]
        @ concat (map (\<lambda>(x, w). [IsfsWrite (fa_result copy) (fa_data x), IsfsRead (fa_result orig) buf len]) ps)
        @ [IsfsSeek (fa_result copy) 0 0]"
proof -
  obtain e where e: "e = \<lparr>se_cb = cb, se_called = nd_called s, se_file = i, se_buf = buf, se_size = len, se_access = access,
    se_path = p, se_num = s_counter s, se_attrs = attrs, se_tempFd = fa_result orig, se_fd = fa_result copy\<rparr>" by blast
  obtain t where t: "NANDPrivateSafeOpenAsync fs path i access buf len cb b s = Some (NAND_RESULT_OK, t)"
    "so_at e b 0 (IsfsCreateDir ''/tmp/sys'' 0 3 3 3) (nd_requests s @ [IsfsCreateDir ''/tmp/sys'' 0 3 3 3]) t"
    using init mode by (auto simp: NANDPrivateSafeOpenAsync_def nandSafeOpenAsync_def accepts_async [OF acc] nand_perms
        set_file_def so_at_def so_frame_def e attrs_set_def)
  obtain t0 where t0: "on_isfs fs b d t = Some t0" "so_at e b 1 (IsfsGetAttr p) (nd_requests s @ [IsfsCreateDir ''/tmp/sys'' 0 3 3 3, IsfsGetAttr p]) t0"
    using so_0 [OF acc t(2) ans(1)] by (auto simp: e)
  obtain t1 where t1: "on_isfs fs b attrs t0 = Some t1" "so_at e b 2 (IsfsOpen p 1) (nd_requests s @ [IsfsCreateDir ''/tmp/sys'' 0 3 3 3, IsfsGetAttr p, IsfsOpen p 1]) t1"
    using so_1 [OF acc t0(2)] ans(2) by (auto simp: e)
  note s2 = so_2 [OF acc t1(2), of orig]
  obtain t2 where t2: "on_isfs fs b orig t1 = Some t2"
    "so_at e b 3 (IsfsCreateDir (temp_dir (s_counter s)) 0 3 0 0) (nd_requests s @ [IsfsCreateDir ''/tmp/sys'' 0 3 3 3,
      IsfsGetAttr p, IsfsOpen p 1, IsfsCreateDir (temp_dir (s_counter s)) 0 3 0 0]) t2"
    using s2 ans(3) by (auto simp: e)
  obtain t3 where t3: "on_isfs fs b folder t2 = Some t3"
    "so_at e b 4 (create_copy e) (nd_requests s @ [IsfsCreateDir ''/tmp/sys'' 0 3 3 3,
      IsfsGetAttr p, IsfsOpen p 1, IsfsCreateDir (temp_dir (s_counter s)) 0 3 0 0, create_copy e]) t3"
    using so_3 [OF acc t2(2) ans(4)] by auto
  obtain t4 where t4: "on_isfs fs b file t3 = Some t4"
    "so_at e b 5 (IsfsOpen temp (open_mode access)) (nd_requests s @ [IsfsCreateDir ''/tmp/sys'' 0 3 3 3,
      IsfsGetAttr p, IsfsOpen p 1, IsfsCreateDir (temp_dir (s_counter s)) 0 3 0 0, create_copy e, IsfsOpen temp (open_mode access)]) t4"
    using so_4 [OF acc t3(2) ans(5)] mode by (auto simp: e temp temp_path_def)
  let ?R = "nd_requests s @ [IsfsCreateDir ''/tmp/sys'' 0 3 3 3, IsfsGetAttr p, IsfsOpen p 1,
    IsfsCreateDir (temp_dir (s_counter s)) 0 3 0 0, create_copy e, IsfsOpen temp (open_mode access), read_copy e]"
  obtain t5 where t5: "on_isfs fs b copy t4 = Some t5" "so_at e b 7 (read_copy e) ?R t5"
    using so_5 [OF acc t4(2), of copy] ans(6) by (auto simp: e)
  obtain t6 where t6: "isfs_answers fs b (piece_answers ps) t5 = Some t6"
    "so_at e b 7 (read_copy e) (?R @ concat (map (\<lambda>(x, w). [IsfsWrite (se_fd e) (fa_data x), read_copy e]) ps)) t6"
    using so_copy [OF acc t5(2) ans(7)] by blast
  obtain t7 where t7: "on_isfs fs b over t6 = Some t7" "so_at e b 8 (IsfsSeek (se_fd e) 0 0)
      ((?R @ concat (map (\<lambda>(x, w). [IsfsWrite (se_fd e) (fa_data x), read_copy e]) ps)) @ [IsfsSeek (se_fd e) 0 0]) t7"
    using so_end [OF acc t6(2) ans(8)] by blast
  obtain u where u: "on_isfs fs b seek t7 = Some u" "nd_pending u b = []" "nd_called u = se_called e @ [(se_cb e, NAND_RESULT_OK, b)]"
    "nd_requests u = (?R @ concat (map (\<lambda>(x, w). [IsfsWrite (se_fd e) (fa_data x), read_copy e]) ps)) @ [IsfsSeek (se_fd e) 0 0]"
    "nd_info u (se_file e) = (nd_info t7 (se_file e))\<lparr>ni_mark := 3\<rparr>"
    "ni_access (nd_info t7 (se_file e)) = se_access e" "ni_openPath (nd_info t7 (se_file e)) = se_path e"
    "ni_tempPath (nd_info t7 (se_file e)) = temp_path e" "ni_fd (nd_info t7 (se_file e)) = se_fd e"
    "ni_tempFd (nd_info t7 (se_file e)) = se_tempFd e"
    using so_done [OF t7(2) ans(9)] by auto
  have a: "isfs_answers fs b ([d, attrs, orig, folder, file, copy] @ piece_answers ps @ [over, seek]) t = Some u"
    using t0(1) t1(1) t2(1) t3(1) t4(1) t5(1) t6(1) t7(1) u(1) by (simp add: isfs_answers_append)
  show ?thesis
    using t(1) a u(2-) by (intro exI [of _ t] exI [of _ u]) (simp add: e temp temp_path_def create_copy_def read_copy_def)
qed

section \<open>Closing a file safely replaces it\<close>

text \<open>The requests of the close, and the state with \<open>k\<close> of them answered.\<close>

definition close_requests :: "NANDFileInfo \<Rightarrow> int \<Rightarrow> isfs_req list" where
  "close_requests f n = [IsfsClose (ni_fd f), IsfsClose (ni_tempFd f), IsfsRename (ni_tempPath f) (ni_openPath f), IsfsDelete (temp_dir n)]"

definition same_file :: "NANDFileInfo \<Rightarrow> NANDFileInfo \<Rightarrow> bool" where
  "same_file f g \<longleftrightarrow> ni_tempFd f = ni_tempFd g \<and> ni_tempPath f = ni_tempPath g \<and> ni_openPath f = ni_openPath g"

definition sc_at :: "nat \<Rightarrow> nat \<Rightarrow> nat \<Rightarrow> NANDFileInfo \<Rightarrow> int \<Rightarrow> isfs_req list \<Rightarrow> (nat \<times> int \<times> nat) list \<Rightarrow> nat \<Rightarrow> nand_state \<Rightarrow> bool" where
  "sc_at cb b i f n R C k t \<longleftrightarrow>
     nd_pending t b = [(close_requests f n ! k, SafeCloseCallback)] \<and> nd_requests t = R @ take (k + 1) (close_requests f n)
     \<and> nd_called t = C \<and> nb_state (nd_block t b) = 10 + int k \<and> nb_callback (nd_block t b) = cb \<and> nb_info (nd_block t b) = i
     \<and> same_file (nd_info t i) f"

lemma temp_parent: "CHR ''/'' \<notin> set name \<Longrightarrow> nandGetParentDirectory (temp_dir n @ CHR ''/'' # name) = Some (temp_dir n)"
  using slash_before_end [of name "temp_dir n"] by (simp add: nandGetParentDirectory_def) (simp add: temp_dir_def)

lemma sc_next:
  assumes acc: "accepts fs" and at: "sc_at cb b i f n R C k t" and k: "k < 3" and x: "fa_result a = 0"
    and temp: "ni_tempPath f = temp_dir n @ CHR ''/'' # name" "CHR ''/'' \<notin> set name"
  shows "\<exists>u. on_isfs fs b a t = Some u \<and> sc_at cb b i f n R C (k + 1) u"
proof -
  note a = at [unfolded sc_at_def same_file_def close_requests_def]
  note step = on_isfs_def run_callback_def nandSafeCloseCallback_def safe_close_step_def Let_def answer_effect_keeps
    answer_effect_block sc_at_def same_file_def close_requests_def accepts_async [OF acc] IPC_RESULT_OK_def
  consider "k = 0" | "k = 1" | "k = 2" using k by linarith
  then show ?thesis
  proof cases
    case 3
    then show ?thesis using a x temp temp_parent [OF temp(2), of n] by (simp add: step)
  qed (use a x in \<open>simp add: step\<close>)+
qed

lemma sc_stop:
  assumes at: "sc_at cb b i f n R C k t" and k: "k < 4" and x: "fa_result a \<noteq> 0 \<or> k = 3"
  shows "\<exists>u. on_isfs fs b a t = Some u \<and> nd_pending u b = [] \<and> nd_requests u = R @ take (k + 1) (close_requests f n)
    \<and> nd_called u = C @ [(cb, nandConvertErrorCode (fa_result a), b)] \<and> (fa_result a = 0 \<longrightarrow> ni_mark (nd_info u i) = 4)"
  using at k x
  by (auto simp: sc_at_def on_isfs_def run_callback_def nandSafeCloseCallback_def Let_def answer_effect_keeps
      answer_effect_block IPC_RESULT_OK_def)

lemma idle_answers: "nd_pending t b = [] \<Longrightarrow> isfs_answers fs b as t = Some t"
  by (induction as) (simp_all add: on_isfs_def)

lemma sc_run:
  assumes acc: "accepts fs" and temp: "ni_tempPath f = temp_dir n @ CHR ''/'' # name" "CHR ''/'' \<notin> set name"
    and at: "sc_at cb b i f n R C j t" and j: "j < 4" and k: "k = length (takeWhile (\<lambda>a. fa_result a = 0) as)"
  shows "\<exists>u. isfs_answers fs b as t = Some u \<and> nd_requests u = R @ take (j + k + 1) (close_requests f n)
    \<and> (4 \<le> j + k \<longrightarrow> nd_called u = C @ [(cb, NAND_RESULT_OK, b)] \<and> ni_mark (nd_info u i) = 4)
    \<and> (j + k < 4 \<and> k < length as \<longrightarrow> nd_called u = C @ [(cb, nandConvertErrorCode (fa_result (as ! k)), b)])"
  using at j k
proof (induction as arbitrary: j k t)
  case Nil
  then show ?case by (simp add: sc_at_def)
next
  case (Cons a as)
  have l: "length (close_requests f n) = 4" by (simp add: close_requests_def)
  show ?case
  proof (cases "fa_result a \<noteq> 0 \<or> j = 3")
    case True
    obtain u where u: "on_isfs fs b a t = Some u" "nd_pending u b = []" "nd_requests u = R @ take (j + 1) (close_requests f n)"
      "nd_called u = C @ [(cb, nandConvertErrorCode (fa_result a), b)]" "fa_result a = 0 \<longrightarrow> ni_mark (nd_info u i) = 4"
      using sc_stop [OF Cons.prems(1,2) True] by blast
    have "isfs_answers fs b (a # as) t = Some u" using u(1) idle_answers [OF u(2)] by simp
    then show ?thesis using u(3-5) True Cons.prems(2,3) l
      by (intro exI [of _ u]) (auto simp: nandConvertErrorCode_def NAND_RESULT_OK_def)
  next
    case False
    then have j: "j < 3" and a: "fa_result a = 0" using Cons.prems(2) by auto
    obtain u where u: "on_isfs fs b a t = Some u" "sc_at cb b i f n R C (j + 1) u"
      using sc_next [OF acc Cons.prems(1) j a temp] by blast
    show ?thesis using Cons.IH [OF u(2) _ refl] u(1) j a Cons.prems(3) by simp
  qed
qed

text \<open>C37. Closing a file that was opened safely for writing asks for four things in this order:
  to close the copy, to close the file, to rename the copy over the file, to delete the folder
  of the copy.  It goes as far as the answers are successes.  So the file is replaced only
  after everything was written and both descriptors are closed, and in one step; the caller is
  told success exactly when all four succeeded, and otherwise the error of the one that failed.\<close>

theorem NANDSafeClose_replaces:
  assumes init: "nandIsInitialized s" "nd_pending s b = []" and f: "f = nd_info s i" "ni_mark f = 3"
    and mode: "ni_access f = NAND_ACCESS_WRITE \<or> ni_access f = NAND_ACCESS_RW" and acc: "accepts fs"
    and temp: "ni_tempPath f = temp_dir n @ CHR ''/'' # name" "CHR ''/'' \<notin> set name"
    and k: "k = length (takeWhile (\<lambda>a. fa_result a = 0) as)"
  shows "\<exists>t u. NANDSafeCloseAsync fs i cb b s = (NAND_RESULT_OK, t) \<and> isfs_answers fs b as t = Some u
    \<and> nd_requests u = nd_requests s @ take (k + 1) [IsfsClose (ni_fd f), IsfsClose (ni_tempFd f),
        IsfsRename (ni_tempPath f) (ni_openPath f), IsfsDelete (temp_dir n)]
    \<and> (4 \<le> k \<longrightarrow> nd_called u = nd_called s @ [(cb, NAND_RESULT_OK, b)] \<and> ni_mark (nd_info u i) = 4)
    \<and> (k < 4 \<and> k < length as \<longrightarrow> nd_called u = nd_called s @ [(cb, nandConvertErrorCode (fa_result (as ! k)), b)])"
proof -
  have m: "ni_access f \<noteq> NAND_ACCESS_READ" using mode by (auto simp: nand_perms)
  obtain t where t: "NANDSafeCloseAsync fs i cb b s = (NAND_RESULT_OK, t)"
    "sc_at cb b i f n (nd_requests s) (nd_called s) 0 t"
    using init f mode m
    by (auto simp: NANDSafeCloseAsync_def Let_def accepts_async [OF acc] set_file_def sc_at_def same_file_def close_requests_def
        nandConvertErrorCode_def NAND_RESULT_OK_def IPC_RESULT_OK_def)
  show ?thesis using sc_run [OF acc temp t(2) _ k] t(1) by (simp add: close_requests_def)
qed

section \<open>The private part of the tree\<close>

text \<open>A request that leaves the private tree alone: it does not name \<^verbatim>\<open>/shared2\<close> (also no
  sibling whose name starts with those letters), and for the two requests that look at a folder or a
  file's attributes, nothing below it.\<close>

definition public_request :: "isfs_req \<Rightarrow> bool" where
  "public_request req =
     (case req of
        IsfsOpen p _ \<Rightarrow> \<not> nandIsPrivatePath p
      | IsfsCreateFile p _ _ _ _ \<Rightarrow> \<not> nandIsPrivatePath p
      | IsfsCreateDir p _ _ _ _ \<Rightarrow> \<not> nandIsPrivatePath p
      | IsfsDelete p \<Rightarrow> \<not> nandIsPrivatePath p
      | IsfsRename p q \<Rightarrow> \<not> nandIsPrivatePath p \<and> \<not> nandIsPrivatePath q
      | IsfsReadDir p \<Rightarrow> \<not> nandIsUnderPrivatePath p
      | IsfsGetAttr p \<Rightarrow> \<not> nandIsUnderPrivatePath p
      | IsfsGetUsage p \<Rightarrow> \<not> nandIsPrivatePath p
      | _ \<Rightarrow> True)"

text \<open>A request on an open file.\<close>

definition names_no_path :: "isfs_req \<Rightarrow> bool" where
  "names_no_path req =
     (case req of IsfsClose _ \<Rightarrow> True | IsfsRead _ _ _ \<Rightarrow> True | IsfsWrite _ _ \<Rightarrow> True | IsfsSeek _ _ _ \<Rightarrow> True
      | IsfsGetFileStats _ \<Rightarrow> True | _ \<Rightarrow> False)"

text \<open>The operations without \<^verbatim>\<open>Private\<close> in their name that ask the file system for something, beside
  \<^verbatim>\<open>NANDInit\<close> and \<^verbatim>\<open>NANDCheck\<close>: by path (two of them only look), and by open file.\<close>

definition public_look_ops :: "(nat \<Rightarrow> fs_answer) \<Rightarrow> string \<Rightarrow> (nand_state \<Rightarrow> (int \<times> nand_state) option) set" where
  "public_look_ops fs path = {NANDGetStatus fs path status | status. True} \<union> {NANDGetType fs path type | type. True}"

definition public_path_ops :: "(nat \<Rightarrow> fs_answer) \<Rightarrow> string \<Rightarrow> (nand_state \<Rightarrow> (int \<times> nand_state) option) set" where
  "public_path_ops fs path =
     {NANDOpen fs path i mode | i mode. True} \<union> {NANDOpenAsync fs path i mode cb b | i mode cb b. True}
     \<union> {NANDCreate fs path perm attr | perm attr. True} \<union> {NANDDelete fs path}
     \<union> {NANDMove fs path dest | dest. True} \<union> public_look_ops fs path"

definition public_file_ops :: "(nat \<Rightarrow> fs_answer) \<Rightarrow> (nand_state \<Rightarrow> (int \<times> nand_state) option) set" where
  "public_file_ops fs =
     {NANDRead fs i buf len | i buf len. True} \<union> {NANDReadAsync fs i buf len cb b | i buf len cb b. True}
     \<union> {NANDWrite fs i buf len | i buf len. True} \<union> {NANDWriteAsync fs i buf len cb b | i buf len cb b. True}
     \<union> {NANDSeek fs i offset whence | i offset whence. True} \<union> {NANDSeekAsync fs i offset whence cb b | i offset whence cb b. True}
     \<union> {NANDGetLength fs i len | i len. True} \<union> {NANDGetLengthAsync fs i len cb b | i len cb b. True}
     \<union> {\<lambda>s. Some (NANDClose fs i s) | i. True} \<union> {\<lambda>s. Some (NANDCloseAsync fs i cb b s) | i cb b. True}
     \<union> {\<lambda>s. Some (NANDSafeCloseAsync fs i cb b s) | i cb b. True}"

lemma isfs_requests:
  "isfs_result fs req s = (r, t) \<Longrightarrow> nd_requests t = nd_requests s @ [req]"
  "isfs_async fs req cb b s = (r, t) \<Longrightarrow> nd_requests t = nd_requests s @ [req]"
  "isfs fs req s = (a, t) \<Longrightarrow> nd_requests t = nd_requests s @ [req]"
  by (auto simp: isfs_result_def isfs_async_def isfs_def Let_def)

lemma set_requests [simp]: "nd_requests (set_file b cb i s) = nd_requests s" "s_currentDir (set_file b cb i s) = s_currentDir s"
  by (simp_all add: set_file_def)

definition adds :: "(isfs_req \<Rightarrow> bool) \<Rightarrow> nand_state \<Rightarrow> nand_state \<Rightarrow> bool" where
  "adds P s t \<longleftrightarrow> (\<exists>reqs. nd_requests t = nd_requests s @ reqs \<and> (\<forall>req\<in>set reqs. P req))"

abbreviation adds_public :: "nand_state \<Rightarrow> nand_state \<Rightarrow> bool" where
  "adds_public \<equiv> adds public_request"

lemma adds_intro:
  "nd_requests t = nd_requests s \<Longrightarrow> adds P s t"
  "nd_requests t = nd_requests s @ [req] \<Longrightarrow> P req \<Longrightarrow> adds P s t"
  by (simp_all add: adds_def)

lemma api_public:
  assumes "api f s = Some (r, t)" "\<And>r t. f s = Some (r, t) \<Longrightarrow> adds_public s t \<and> (bad \<longrightarrow> r = IPC_RESULT_ACCESS \<and> nd_requests t = nd_requests s)"
  shows "adds_public s t \<and> (bad \<and> nandIsInitialized s \<longrightarrow> r = NAND_RESULT_ACCESS \<and> nd_requests t = nd_requests s)"
  using assms by (auto simp: api_def adds_def nandConvertErrorCode_def errorMap_def ipc_results nand_results split: if_splits)

lemma open_public:
  assumes "nandOpen fs path mode b async False s = Some (r, t)" "nandGenerateAbsPath (s_currentDir s) path = Some p"
  shows "adds_public s t \<and> (nandIsPrivatePath p \<longrightarrow> r = IPC_RESULT_ACCESS \<and> nd_requests t = nd_requests s)"
  using assms
  by (auto simp: nandOpen_def Let_def public_request_def dest!: isfs_requests intro: adds_intro split: if_splits)

lemma create_public:
  assumes "nandCreate fs path perm attr b async False s = Some (r, t)" "nandGenerateAbsPath (s_currentDir s) path = Some p"
  shows "adds_public s t \<and> (nandIsPrivatePath p \<longrightarrow> r = IPC_RESULT_ACCESS \<and> nd_requests t = nd_requests s)"
  using assms
  by (auto simp: nandCreate_def Let_def public_request_def dest!: isfs_requests intro: adds_intro split: if_splits prod.splits)

lemma delete_public:
  assumes "nandDelete fs path b async False s = Some (r, t)" "nandGenerateAbsPath (s_currentDir s) path = Some p"
  shows "adds_public s t \<and> (nandIsPrivatePath p \<longrightarrow> r = IPC_RESULT_ACCESS \<and> nd_requests t = nd_requests s)"
  using assms
  by (auto simp: nandDelete_def public_request_def dest!: isfs_requests intro: adds_intro split: if_splits)

lemma move_public:
  assumes "nandMove fs path dest b async False s = Some (r, t)" "nandGenerateAbsPath (s_currentDir s) path = Some p"
  shows "adds_public s t \<and> (nandIsPrivatePath p \<longrightarrow> r = IPC_RESULT_ACCESS \<and> nd_requests t = nd_requests s)"
  using assms
  by (auto simp: nandMove_def Let_def public_request_def dest!: isfs_requests intro: adds_intro
      split: if_splits bind_splits)

lemma status_public:
  assumes "nandGetStatus fs path status b async False s = Some (r, t)" "nandGenerateAbsPath (s_currentDir s) path = Some p"
  shows "adds_public s t \<and> (nandIsUnderPrivatePath p \<longrightarrow> r = IPC_RESULT_ACCESS \<and> nd_requests t = nd_requests s)"
  using assms
  by (auto simp: nandGetStatus_def Let_def public_request_def dest!: isfs_requests intro: adds_intro
      split: if_splits prod.splits)

lemma type_public:
  assumes "nandGetType fs path type b async False s = Some (r, t)" "nandGenerateAbsPath (s_currentDir s) path = Some p"
  shows "adds_public s t \<and> (nandIsUnderPrivatePath p \<longrightarrow> r = IPC_RESULT_ACCESS \<and> nd_requests t = nd_requests s)"
proof (cases "path = []")
  case True
  then show ?thesis using assms
    by (auto simp: nandGetType_def nandGenerateAbsPath_def nandIsUnderPrivatePath_def intro: adds_intro)
next
  case False
  then show ?thesis using assms
    by (auto simp: nandGetType_def Let_def public_request_def dest!: isfs_requests intro: adds_intro
        split: if_splits prod.splits option.splits)
qed

lemma path_op_public:
  assumes f: "op \<in> public_path_ops fs path" "op s = Some (r, t)"
  shows "(\<exists>reqs. nd_requests t = nd_requests s @ reqs \<and> (\<forall>req\<in>set reqs. public_request req))
    \<and> (nandIsInitialized s \<and> nandGenerateAbsPath (s_currentDir s) path = Some p \<and>
        (nandIsUnderPrivatePath p \<or> op \<notin> public_look_ops fs path \<and> nandIsPrivatePath p) \<longrightarrow>
        r = NAND_RESULT_ACCESS \<and> nd_requests t = nd_requests s)"
proof -
  let ?gen = "nandGenerateAbsPath (s_currentDir s) path"
  define bad where "bad p \<longleftrightarrow> nandIsUnderPrivatePath p \<or> op \<notin> public_look_ops fs path \<and> nandIsPrivatePath p" for p
  have under: "nandIsPrivatePath p" if "nandIsUnderPrivatePath p" for p
  proof -
    have "take 8 (take 9 p) = take 8 ''/shared2/''"
      using that unfolding nandIsUnderPrivatePath_def by (simp only:)
    then show ?thesis by (simp add: nandIsPrivatePath_def)
  qed
  have priv: "bad p \<Longrightarrow> nandIsPrivatePath p" for p using under by (auto simp: bad_def)
  have key: ?thesis if a: "api g s = Some (r, t)" and n: "?gen = None \<Longrightarrow> g s = None"
    and g: "\<And>p r t. ?gen = Some p \<Longrightarrow> g s = Some (r, t) \<Longrightarrow>
      adds_public s t \<and> (bad p \<longrightarrow> r = IPC_RESULT_ACCESS \<and> nd_requests t = nd_requests s)" for g
  proof (cases ?gen)
    case None
    then show ?thesis using a n by (auto simp: api_def split: if_splits)
  next
    case (Some p)
    have "adds_public s t \<and> (bad p \<and> nandIsInitialized s \<longrightarrow> r = NAND_RESULT_ACCESS \<and> nd_requests t = nd_requests s)"
      by (rule api_public [OF a]) (rule g [OF Some])
    then show ?thesis using Some by (auto simp: adds_def bad_def)
  qed
  have opened: "adds_public s u \<and> (bad p \<longrightarrow> q = IPC_RESULT_ACCESS \<and> nd_requests u = nd_requests s)"
    if "?gen = Some p" "map_option (opened i) (nandOpen fs path mode b async False s) = Some (q, u)" for p i mode b async q u
    using that open_public [of fs path mode b async s] priv
    by (fastforce simp: opened_def adds_def IPC_RESULT_ACCESS_def split: if_splits)
  from f(1) consider
      i mode where "op = NANDOpen fs path i mode" | i mode cb b where "op = NANDOpenAsync fs path i mode cb b"
    | perm attr where "op = NANDCreate fs path perm attr" | "op = NANDDelete fs path" | dest where "op = NANDMove fs path dest"
    | status where "op = NANDGetStatus fs path status" | type where "op = NANDGetType fs path type"
    by (auto simp: public_path_ops_def public_look_ops_def)
  then show ?thesis
  proof cases
    case 1
    then show ?thesis using f(2)
      by (intro key [of "\<lambda>s. map_option (opened i) (nandOpen fs path mode 0 False False s)"])
        (simp_all add: NANDOpen_def nandOpen_def [of _ _ _ _ _ _ s] opened [unfolded nandOpen_def])
  next
    case 2
    have "adds_public s u \<and> (bad p \<longrightarrow> q = IPC_RESULT_ACCESS \<and> nd_requests u = nd_requests s)"
      if "?gen = Some p" "nandOpen fs path mode b True False (set_file b cb i s) = Some (q, u)" for p q u
      using open_public [OF that(2), of p] that(1) priv by (simp add: adds_def)
    then show ?thesis using 2 f(2)
      by (intro key [of "\<lambda>s. nandOpen fs path mode b True False (set_file b cb i s)"])
        (simp_all add: NANDOpenAsync_def nandOpen_def)
  next
    case 3
    then show ?thesis using f(2) create_public [of fs path perm attr 0 False s] priv
      by (intro key [of "nandCreate fs path perm attr 0 False False"]) (auto simp: NANDCreate_def nandCreate_def [of _ _ _ _ _ _ _ s])
  next
    case 4
    then show ?thesis using f(2) delete_public [of fs path 0 False s] priv
      by (intro key [of "nandDelete fs path 0 False False"]) (auto simp: NANDDelete_def nandDelete_def [of _ _ _ _ _ s])
  next
    case 5
    then show ?thesis using f(2) move_public [of fs path dest 0 False s] priv
      by (intro key [of "nandMove fs path dest 0 False False"]) (auto simp: NANDMove_def nandMove_def [of _ _ _ _ _ _ s])
  next
    case 6
    then have look: "bad p \<Longrightarrow> nandIsUnderPrivatePath p" for p by (auto simp: bad_def public_look_ops_def)
    from 6 show ?thesis using f(2) status_public [of fs path status 0 False s] look
      by (intro key [of "nandGetStatus fs path status 0 False False"]) (auto simp: NANDGetStatus_def nandGetStatus_def [of _ _ _ _ _ _ s])
  next
    case 7
    then have look: "bad p \<Longrightarrow> nandIsUnderPrivatePath p" for p by (auto simp: bad_def public_look_ops_def)
    have "?gen = None \<Longrightarrow> path \<noteq> []" by (auto simp: nandGenerateAbsPath_def)
    then show ?thesis using 7 f(2) type_public [of fs path type 0 False s] look
      by (intro key [of "nandGetType fs path type 0 False False"]) (auto simp: NANDGetType_def nandGetType_def [of _ _ _ _ _ _ s])
  qed
qed

definition usable :: "fs_answer \<Rightarrow> bool" where
  "usable a \<longleftrightarrow> fa_result a = IPC_RESULT_OK \<or> fa_result a = IPC_RESULT_NOEXISTS"

lemma api_adds:
  assumes "api g s = Some (r, t)" "\<And>r t. g s = Some (r, t) \<Longrightarrow> adds names_no_path s t"
  shows "adds names_no_path s t"
  using assms by (auto simp: api_def adds_intro split: if_splits)

lemma requests_upd [simp]:
  "nd_requests (upd_block b g s) = nd_requests s" "nd_requests (upd_info i h s) = nd_requests s"
  "nd_requests (set_callback b cb s) = nd_requests s" "nd_requests (put_var v x s) = nd_requests s"
  by (simp_all add: upd_block_def upd_info_def set_callback_def put_var_def upd_var_def split: option.split)

lemma isfs_adds:
  "isfs_result fs req u = (r, t) \<Longrightarrow> nd_requests u = nd_requests s \<Longrightarrow> names_no_path req \<Longrightarrow> adds names_no_path s t"
  "isfs_async fs req cb b u = (r, t) \<Longrightarrow> nd_requests u = nd_requests s \<Longrightarrow> names_no_path req \<Longrightarrow> adds names_no_path s t"
  by (auto dest!: isfs_requests intro: adds_intro)

lemma adds_upd [simp]:
  "adds names_no_path s (upd_info i h t) = adds names_no_path s t" "adds names_no_path s (put_var v x t) = adds names_no_path s t"
  by (simp_all add: adds_def)

lemma file_requests [simp]:
  "names_no_path (IsfsRead fd buf len)" "names_no_path (IsfsWrite fd data)" "names_no_path (IsfsSeek fd offset whence)"
  "names_no_path (IsfsGetFileStats fd)" "names_no_path (IsfsClose fd)"
  by (simp_all add: names_no_path_def)

lemma transfer_no_path:
  "NANDRead fs i buf len s = Some (r, t) \<Longrightarrow> adds names_no_path s t"
  "NANDReadAsync fs i buf len cb b s = Some (r, t) \<Longrightarrow> adds names_no_path s t"
  "NANDWrite fs i buf len s = Some (r, t) \<Longrightarrow> adds names_no_path s t"
  "NANDWriteAsync fs i buf len cb b s = Some (r, t) \<Longrightarrow> adds names_no_path s t"
  unfolding NANDRead_def NANDReadAsync_def NANDWrite_def NANDWriteAsync_def
  by (erule api_adds, auto dest: isfs_adds)+

lemma seek_no_path:
  "NANDSeek fs i offset whence s = Some (r, t) \<Longrightarrow> adds names_no_path s t"
  "NANDSeekAsync fs i offset whence cb b s = Some (r, t) \<Longrightarrow> adds names_no_path s t"
  unfolding NANDSeek_def NANDSeekAsync_def
  by (erule api_adds, auto simp: nandSeek_def Let_def dest: isfs_adds)+

lemma length_no_path:
  "NANDGetLength fs i len s = Some (r, t) \<Longrightarrow> adds names_no_path s t"
  "NANDGetLengthAsync fs i len cb b s = Some (r, t) \<Longrightarrow> adds names_no_path s t"
  unfolding NANDGetLength_def NANDGetLengthAsync_def
  by (erule api_adds, auto simp: nandGetFileStatus_def nandGetFileStatusAsync_def dest: isfs_adds dest!: isfs_requests(3)
      intro: adds_intro split: prod.splits if_splits)+

lemma close_no_path:
  "NANDClose fs i s = (r, t) \<Longrightarrow> adds names_no_path s t"
  "NANDCloseAsync fs i cb b s = (r, t) \<Longrightarrow> adds names_no_path s t"
  "NANDSafeCloseAsync fs i cb b s = (r, t) \<Longrightarrow> adds names_no_path s t"
  unfolding NANDClose_def NANDCloseAsync_def NANDSafeCloseAsync_def Let_def
  by (auto dest: isfs_requests isfs_adds intro: adds_intro split: if_splits prod.splits)

lemma set_home_requests [simp]: "nd_requests (set_home e s) = nd_requests s"
  by (simp add: set_home_def split: prod.split option.split)

lemma init_requests: "NANDInit fs e s = (r, t) \<Longrightarrow> nd_requests t = nd_requests s \<or> nd_requests t = nd_requests s @ [IsfsOpenLib]"
  unfolding NANDInit_def OSDisableInterrupts_def OSRestoreInterrupts_def Let_def
  by (auto dest!: isfs_requests split: if_splits prod.splits)

lemma file_op_no_path:
  assumes "op \<in> public_file_ops fs" "op s = Some (r, t)"
  shows "adds names_no_path s t"
  using assms unfolding public_file_ops_def Un_iff mem_Collect_eq
  by (elim disjE exE conjE) (auto dest: transfer_no_path seek_no_path length_no_path close_no_path)

text \<open>The check asks for the usage of its folders one by one, until one fails.\<close>

lemma usage_loop_requests:
  "\<exists>n. nd_requests (snd (snd (snd (usage_loop fs dirs result blocks files s)))) = nd_requests s @ map IsfsGetUsage (take n dirs)"
proof (induction dirs arbitrary: result blocks files s)
  case Nil
  then show ?case by simp
next
  case (Cons d dirs)
  obtain a u where u: "isfs fs (IsfsGetUsage d) s = (a, u)" by fastforce
  have q: "nd_requests u = nd_requests s @ [IsfsGetUsage d]" by (rule isfs_requests(3) [OF u])
  show ?case
  proof (cases "usable a")
    case True
    have "\<exists>b f. usage_loop fs (d # dirs) result blocks files s = usage_loop fs dirs IPC_RESULT_OK b f u"
      using True by (auto simp: u usable_def)
    then obtain m where "nd_requests (snd (snd (snd (usage_loop fs (d # dirs) result blocks files s)))) = nd_requests u @ map IsfsGetUsage (take m dirs)"
      using Cons.IH [of IPC_RESULT_OK _ _ u] by metis
    then show ?thesis using q by (intro exI [of _ "Suc m"]) simp
  next
    case False
    then show ?thesis using q by (intro exI [of _ 1]) (simp add: u usable_def)
  qed
qed

lemma check_requests:
  assumes "NANDCheck fs blocks files answer s = (r, t)"
  shows "\<exists>n. nd_requests t = nd_requests s @ map IsfsGetUsage (take n (nandGetHomeDir s # USER_DIR_LIST))"
proof (cases "nandIsInitialized s")
  case False
  then show ?thesis using assms by (intro exI [of _ 0]) (auto simp: NANDCheck_def)
next
  case True
  obtain a u where u: "isfs fs (IsfsGetUsage (nandGetHomeDir s)) s = (a, u)" by fastforce
  have q: "nd_requests u = nd_requests s @ [IsfsGetUsage (nandGetHomeDir s)]" by (rule isfs_requests(3) [OF u])
  obtain result b f v where v: "nandCalcUserUsage fs u = (result, b, f, v)" by (cases "nandCalcUserUsage fs u")
  obtain n where n: "nd_requests v = nd_requests u @ map IsfsGetUsage (take n USER_DIR_LIST)"
    using usage_loop_requests [of fs USER_DIR_LIST "-117" 0 0 u] v by (auto simp: nandCalcUserUsage_def nandCalcUsage_def)
  show ?thesis
  proof (cases "fa_result a = IPC_RESULT_OK")
    case False
    then show ?thesis using assms True q by (intro exI [of _ 1]) (auto simp: NANDCheck_def u)
  next
    case ok: True
    then show ?thesis using assms True q n
      by (intro exI [of _ "Suc n"]) (auto simp: NANDCheck_def u v upd_var_def split: if_splits)
  qed
qed

text \<open>C39. What a call of a public operation asks the file system for.  None by path asks for something below
  the private tree \<^verbatim>\<open>/shared2\<close>, whatever the path is, and only a request to list a folder or to
  read attributes may name \<^verbatim>\<open>/shared2\<close> itself (\<open>public_request\<close>).  On a path below it (for a
  move, the path of the source) each asks for nothing at all and returns \<^verbatim>\<open>NAND_RESULT_ACCESS\<close>, and
  all but the two that look, \<^verbatim>\<open>NANDGetStatus\<close> and \<^verbatim>\<open>NANDGetType\<close>, do so on
  \<^verbatim>\<open>/shared2\<close> too.  A call by open file asks for something that names no path (what a safe close
  asks for later, as the answers arrive, is another theorem's matter), and the initialisation at most opens
  the file system.  The check for free space does touch the private tree: it asks for the usage of the home
  directory and then of the folders of a fixed list, one by one, and for nothing else; one folder of the
  list, \<^verbatim>\<open>/shared2/title\<close>, is private.\<close>

theorem nand_public_requests:
  "(\<forall>op r t. op \<in> public_path_ops fs path \<and> op s = Some (r, t) \<longrightarrow>
      (\<exists>reqs. nd_requests t = nd_requests s @ reqs \<and> (\<forall>req\<in>set reqs. public_request req)) \<and>
      (\<forall>p. nandIsInitialized s \<and> nandGenerateAbsPath (s_currentDir s) path = Some p \<and>
          (nandIsUnderPrivatePath p \<or> op \<notin> public_look_ops fs path \<and> nandIsPrivatePath p) \<longrightarrow>
        r = NAND_RESULT_ACCESS \<and> nd_requests t = nd_requests s))
    \<and> (\<forall>op r t. op \<in> public_file_ops fs \<and> op s = Some (r, t) \<longrightarrow>
      (\<exists>reqs. nd_requests t = nd_requests s @ reqs \<and> (\<forall>req\<in>set reqs. names_no_path req)))
    \<and> (\<forall>e r t. NANDInit fs e s = (r, t) \<longrightarrow> nd_requests t = nd_requests s \<or> nd_requests t = nd_requests s @ [IsfsOpenLib])
    \<and> (\<forall>blocks files answer r t. NANDCheck fs blocks files answer s = (r, t) \<longrightarrow>
      (\<exists>n. nd_requests t = nd_requests s @ map IsfsGetUsage (take n (nandGetHomeDir s # USER_DIR_LIST))))
    \<and> List.filter nandIsPrivatePath USER_DIR_LIST = [''/shared2/title'']"
proof (intro conjI)
  show "\<forall>op r t. op \<in> public_path_ops fs path \<and> op s = Some (r, t) \<longrightarrow>
      (\<exists>reqs. nd_requests t = nd_requests s @ reqs \<and> (\<forall>req\<in>set reqs. public_request req)) \<and>
      (\<forall>p. nandIsInitialized s \<and> nandGenerateAbsPath (s_currentDir s) path = Some p \<and>
          (nandIsUnderPrivatePath p \<or> op \<notin> public_look_ops fs path \<and> nandIsPrivatePath p) \<longrightarrow>
        r = NAND_RESULT_ACCESS \<and> nd_requests t = nd_requests s)"
    using path_op_public by blast
  show "\<forall>op r t. op \<in> public_file_ops fs \<and> op s = Some (r, t) \<longrightarrow>
      (\<exists>reqs. nd_requests t = nd_requests s @ reqs \<and> (\<forall>req\<in>set reqs. names_no_path req))"
    using file_op_no_path unfolding adds_def by blast
  show "\<forall>e r t. NANDInit fs e s = (r, t) \<longrightarrow> nd_requests t = nd_requests s \<or> nd_requests t = nd_requests s @ [IsfsOpenLib]"
    using init_requests by blast
  show "\<forall>blocks files answer r t. NANDCheck fs blocks files answer s = (r, t) \<longrightarrow>
      (\<exists>n. nd_requests t = nd_requests s @ map IsfsGetUsage (take n (nandGetHomeDir s # USER_DIR_LIST)))"
    using check_requests by blast
  show "List.filter nandIsPrivatePath USER_DIR_LIST = [''/shared2/title'']"
    by (simp add: USER_DIR_LIST_def nandIsPrivatePath_def)
qed

section \<open>Free space\<close>

text \<open>What a folder counts for: a missing one for nothing.\<close>

definition usage :: "(fs_answer \<Rightarrow> int) \<Rightarrow> fs_answer \<Rightarrow> int" where
  "usage f a = (if fa_result a = IPC_RESULT_OK then f a else 0)"

lemma isfs_usage: "isfs fs (IsfsGetUsage d) s = (fs (length (nd_requests s)), s\<lparr>nd_requests := nd_requests s @ [IsfsGetUsage d]\<rparr>)"
  by (simp add: isfs_def Let_def read_effect_def)

lemma usage_loop_sums:
  assumes "\<forall>k<length dirs. usable (fs (length (nd_requests s) + k)) \<and> 0 \<le> usage fa_blocks (fs (length (nd_requests s) + k))
      \<and> 0 \<le> usage fa_files (fs (length (nd_requests s) + k))"
    and "0 \<le> bl" "0 \<le> fl" "bl + (\<Sum>k<length dirs. usage fa_blocks (fs (length (nd_requests s) + k))) < 2 ^ 31"
    "fl + (\<Sum>k<length dirs. usage fa_files (fs (length (nd_requests s) + k))) < 2 ^ 31" and "dirs \<noteq> [] \<or> r = IPC_RESULT_OK"
  shows "usage_loop fs dirs r bl fl s =
    (IPC_RESULT_OK, bl + (\<Sum>k<length dirs. usage fa_blocks (fs (length (nd_requests s) + k))),
     fl + (\<Sum>k<length dirs. usage fa_files (fs (length (nd_requests s) + k))),
     s\<lparr>nd_requests := nd_requests s @ map IsfsGetUsage dirs\<rparr>)"
  using assms
proof (induction dirs arbitrary: r bl fl s)
  case (Cons d dirs)
  let ?a = "\<lambda>k. fs (length (nd_requests s) + k)" and ?s = "s\<lparr>nd_requests := nd_requests s @ [IsfsGetUsage d]\<rparr>"
  have shift: "(\<Sum>k<length (d # dirs). usage f (?a k)) = usage f (?a 0) + (\<Sum>k<length dirs. usage f (?a (Suc k)))" for f
    by (simp add: sum.lessThan_Suc_shift del: sum.lessThan_Suc)
  have h: "usable (?a 0)" "0 \<le> usage fa_blocks (?a 0)" "0 \<le> usage fa_files (?a 0)" using Cons.prems(1) by force+
  have tl: "\<forall>k<length dirs. usable (?a (Suc k)) \<and> 0 \<le> usage fa_blocks (?a (Suc k)) \<and> 0 \<le> usage fa_files (?a (Suc k))"
  proof (intro allI impI)
    show "usable (?a (Suc k)) \<and> 0 \<le> usage fa_blocks (?a (Suc k)) \<and> 0 \<le> usage fa_files (?a (Suc k))" if "k < length dirs" for k
      using Cons.prems(1) [rule_format, of "Suc k"] that by simp
  qed
  have nn: "0 \<le> (\<Sum>k<length dirs. usage fa_blocks (?a (Suc k)))" "0 \<le> (\<Sum>k<length dirs. usage fa_files (?a (Suc k)))"
    using tl by (auto intro: sum_nonneg)
  note m = Cons.prems(4,5) [unfolded shift]
  have id: "s32 (bl + usage fa_blocks (?a 0)) = bl + usage fa_blocks (?a 0)" "s32 (fl + usage fa_files (?a 0)) = fl + usage fa_files (?a 0)"
    using m nn h Cons.prems(2,3) by (auto intro!: s32_id)
  have IH: "usage_loop fs dirs IPC_RESULT_OK (bl + usage fa_blocks (?a 0)) (fl + usage fa_files (?a 0)) ?s =
    (IPC_RESULT_OK, bl + usage fa_blocks (?a 0) + (\<Sum>k<length dirs. usage fa_blocks (?a (Suc k))),
     fl + usage fa_files (?a 0) + (\<Sum>k<length dirs. usage fa_files (?a (Suc k))),
     ?s\<lparr>nd_requests := nd_requests ?s @ map IsfsGetUsage dirs\<rparr>)"
    using Cons.IH [of ?s "bl + usage fa_blocks (?a 0)" "fl + usage fa_files (?a 0)" IPC_RESULT_OK] tl h m Cons.prems(2,3)
    by (simp add: add.assoc)
  have "usage_loop fs (d # dirs) r bl fl s =
    usage_loop fs dirs IPC_RESULT_OK (bl + usage fa_blocks (?a 0)) (fl + usage fa_files (?a 0)) ?s"
    using h(1) id by (auto simp: isfs_usage usable_def usage_def IPC_RESULT_OK_def IPC_RESULT_NOEXISTS_def)
  then show ?case unfolding shift IH by simp
qed simp

lemma usage_loop_fails:
  assumes "k < length dirs" "\<not> usable (fs (length (nd_requests s) + k))"
  shows "case usage_loop fs dirs r bl fl s of (r', _, _, t) \<Rightarrow> r' \<noteq> IPC_RESULT_OK \<and> nd_var t = nd_var s"
  using assms
proof (induction dirs arbitrary: r bl fl s k)
  case (Cons d dirs)
  let ?s = "s\<lparr>nd_requests := nd_requests s @ [IsfsGetUsage d]\<rparr>"
  have next_ok: "case usage_loop fs dirs r' bl' fl' ?s of (r'', _, _, t) \<Rightarrow> r'' \<noteq> IPC_RESULT_OK \<and> nd_var t = nd_var s"
    if "usable (fs (length (nd_requests s)))" for r' bl' fl'
  proof -
    have "k \<noteq> 0" using that Cons.prems(2) by (metis add_0_right)
    then obtain j where "k = Suc j" by (cases k) auto
    then show ?thesis using Cons.IH [of j ?s] Cons.prems by simp
  qed
  then show ?case by (auto simp: isfs_usage usable_def)
qed simp

definition flags :: "bool \<Rightarrow> bool \<Rightarrow> bool \<Rightarrow> bool \<Rightarrow> int" where
  "flags a b c d = of_bool a + 2 * of_bool b + 4 * of_bool c + 8 * of_bool d"

lemma nandCheck_flags:
  assumes "0 \<le> hb + nb" "hb + nb < 2 ^ 32" "0 \<le> hf + nf" "hf + nf < 2 ^ 32" "0 \<le> ub + nb" "ub + nb < 2 ^ 32" "0 \<le> uf + nf" "uf + nf < 2 ^ 32"
  shows "nandCheck nb nf hb hf ub uf = flags (hb + nb > 0x400) (hf + nf > 0x21) (ub + nb > 0x4400) (uf + nf > 0xFA0)"
  using assms by (simp add: nandCheck_def Let_def flag_if_def check_flags flags_def u32_id)

text \<open>C40. The check answers with one flag for each limit that would be passed: 1024 blocks and
  33 files in the home directory, 17408 blocks and 4000 files in all folders of the user, where
  a missing folder counts for nothing.  When a usage cannot be read the call fails and nothing
  is answered.\<close>

theorem NANDCheck_answer:
  assumes init: "nandIsInitialized s" and home: "home = fs (length (nd_requests s))"
    and user: "user = (\<lambda>k. fs (length (nd_requests s) + 1 + k))"
  shows "(fa_result home = IPC_RESULT_OK \<and> 0 \<le> nb \<and> 0 \<le> nf \<and> 0 \<le> fa_blocks home \<and> 0 \<le> fa_files home
      \<and> nb + fa_blocks home < 2 ^ 32 \<and> nf + fa_files home < 2 ^ 32
      \<and> (\<forall>k<10. usable (user k) \<and> 0 \<le> usage fa_blocks (user k) \<and> 0 \<le> usage fa_files (user k))
      \<and> ub = (\<Sum>k<10. usage fa_blocks (user k)) \<and> uf = (\<Sum>k<10. usage fa_files (user k))
      \<and> ub < 2 ^ 31 \<and> uf < 2 ^ 31 \<and> nb + ub < 2 ^ 32 \<and> nf + uf < 2 ^ 32 \<longrightarrow>
        fst (NANDCheck fs nb nf v s) = NAND_RESULT_OK
        \<and> nd_var (snd (NANDCheck fs nb nf v s)) v =
            flags (fa_blocks home + nb > 0x400) (fa_files home + nf > 0x21) (ub + nb > 0x4400) (uf + nf > 0xFA0)
        \<and> nd_requests (snd (NANDCheck fs nb nf v s)) = nd_requests s @ IsfsGetUsage (s_homeDir s) # map IsfsGetUsage USER_DIR_LIST)
    \<and> (fa_result home \<noteq> IPC_RESULT_OK \<or> (\<exists>k<10. \<not> usable (user k)) \<longrightarrow>
        fst (NANDCheck fs nb nf v s) \<noteq> NAND_RESULT_OK \<and> nd_var (snd (NANDCheck fs nb nf v s)) = nd_var s)"
proof (intro conjI impI)
  let ?s = "s\<lparr>nd_requests := nd_requests s @ [IsfsGetUsage (nandGetHomeDir s)]\<rparr>"
  have l: "length USER_DIR_LIST = 10" by (simp add: USER_DIR_LIST_def)
  have conv: "nandConvertErrorCode r \<noteq> NAND_RESULT_OK" if "r \<noteq> IPC_RESULT_OK" for r
    using that nandConvertErrorCode_negative [of r] by (cases "r < 0") (auto simp: nandConvertErrorCode_def NAND_RESULT_OK_def IPC_RESULT_OK_def)
  have c: "NANDCheck fs nb nf v s = (if fa_result home \<noteq> IPC_RESULT_OK then (nandConvertErrorCode (fa_result home), ?s)
    else case usage_loop fs USER_DIR_LIST (-117) 0 0 ?s of (result, userBlocks, userFiles, s) \<Rightarrow>
      if result \<noteq> IPC_RESULT_OK then (nandConvertErrorCode result, s)
      else (NAND_RESULT_OK, upd_var v (nandCheck nb nf (fa_blocks home) (fa_files home) userBlocks userFiles) s))"
    using init by (simp add: NANDCheck_def isfs_usage home [symmetric] nandCalcUserUsage_def nandCalcUsage_def)
  {
    assume a: "fa_result home = IPC_RESULT_OK \<and> 0 \<le> nb \<and> 0 \<le> nf \<and> 0 \<le> fa_blocks home \<and> 0 \<le> fa_files home
      \<and> nb + fa_blocks home < 2 ^ 32 \<and> nf + fa_files home < 2 ^ 32
      \<and> (\<forall>k<10. usable (user k) \<and> 0 \<le> usage fa_blocks (user k) \<and> 0 \<le> usage fa_files (user k))
      \<and> ub = (\<Sum>k<10. usage fa_blocks (user k)) \<and> uf = (\<Sum>k<10. usage fa_files (user k))
      \<and> ub < 2 ^ 31 \<and> uf < 2 ^ 31 \<and> nb + ub < 2 ^ 32 \<and> nf + uf < 2 ^ 32"
    have "usage_loop fs USER_DIR_LIST (-117) 0 0 ?s =
      (IPC_RESULT_OK, ub, uf, ?s\<lparr>nd_requests := nd_requests ?s @ map IsfsGetUsage USER_DIR_LIST\<rparr>)"
      using a usage_loop_sums [of USER_DIR_LIST fs ?s 0 0 "-117"] by (simp add: l user USER_DIR_LIST_def [THEN arg_cong [of _ _ "\<lambda>d. d = []"]])
    moreover have "0 \<le> ub" "0 \<le> uf" using a by (auto intro: sum_nonneg)
    ultimately show "fst (NANDCheck fs nb nf v s) = NAND_RESULT_OK"
      "nd_var (snd (NANDCheck fs nb nf v s)) v =
         flags (fa_blocks home + nb > 0x400) (fa_files home + nf > 0x21) (ub + nb > 0x4400) (uf + nf > 0xFA0)"
      "nd_requests (snd (NANDCheck fs nb nf v s)) = nd_requests s @ IsfsGetUsage (s_homeDir s) # map IsfsGetUsage USER_DIR_LIST"
      using a by (simp_all add: c upd_var_def nandGetHomeDir_def nandCheck_flags add.commute)
  }
  assume b: "fa_result home \<noteq> IPC_RESULT_OK \<or> (\<exists>k<10. \<not> usable (user k))"
  have "case usage_loop fs USER_DIR_LIST (-117) 0 0 ?s of (r', _, _, t) \<Rightarrow> r' \<noteq> IPC_RESULT_OK \<and> nd_var t = nd_var s"
    if ok: "fa_result home = IPC_RESULT_OK"
  proof -
    obtain k where "k < 10" "\<not> usable (user k)" using b ok by blast
    then show ?thesis using usage_loop_fails [of k USER_DIR_LIST fs ?s] by (simp add: l user)
  qed
  then show "fst (NANDCheck fs nb nf v s) \<noteq> NAND_RESULT_OK" "nd_var (snd (NANDCheck fs nb nf v s)) = nd_var s"
    using conv by (auto simp: c split: prod.splits)
qed

section \<open>A concrete library\<close>

text \<open>Initialised, in \<^verbatim>\<open>/title/data\<close>, with nothing under way; file 0 was opened safely for
  writing.\<close>

definition answer :: "int \<Rightarrow> int list \<Rightarrow> fs_answer" where
  "answer r xs = \<lparr>fa_result = r, fa_ownerId = 0, fa_groupId = 0, fa_attr = 0, fa_ownerPerm = 3, fa_groupPerm = 3, fa_otherPerm = 0,
     fa_length = 0, fa_position = 0, fa_blocks = 4, fa_files = 1, fa_data = xs\<rparr>"

definition nand_demo :: nand_state where
  "nand_demo = \<lparr>irq_enabled = True, s_libState = Initialized, s_currentDir = ''/title/data'', s_homeDir = ''/title/data'', s_counter = 7,
     nd_block = \<lambda>_. \<lparr>nb_userData = 0, nb_callback = 9, nb_info = 0, nb_status = 0, nb_ownerId = 0, nb_groupId = 0, nb_attr = 0,
       nb_ownerPerm = 0, nb_groupPerm = 0, nb_otherPerm = 0, nb_dirFileCount = 0, nb_path = [], nb_stats = (0, 0), nb_length = None,
       nb_position = None, nb_state = 0, nb_buffer = 0, nb_bufferSize = 0, nb_type = 0, nb_uniqueNo = 0\<rparr>,
     nd_info = \<lambda>_. \<lparr>ni_fd = 12, ni_tempFd = 11, ni_openPath = ''/title/data/save'',
       ni_tempPath = temp_dir 6 @ ''/save'', ni_access = 2, ni_stage = 5, ni_mark = 3\<rparr>,
     nd_status = \<lambda>_. \<lparr>ns_ownerId = 0, ns_groupId = 0, ns_attr = 0, ns_perm = 0\<rparr>, nd_var = \<lambda>_. 0, nd_buf = \<lambda>_. [],
     nd_requests = [], nd_pending = \<lambda>_. [], nd_called = []\<rparr>"

theorem nand_callback_once_witness:
  "\<exists>t. isfs_answers (\<lambda>_. answer 0 []) 1 [answer (-106) []] (nand_demo\<lparr>nd_pending := (\<lambda>_. [])(1 := [(IsfsDelete ''/x'', NandCallback)])\<rparr>) = Some t
    \<and> ((\<exists>req cb. nd_pending t 1 = [(req, cb)]) \<and> nd_called t = [] \<or> nd_pending t 1 = [] \<and> (\<exists>r. nd_called t = [(9, r, 1)]))"
  using nand_callback_once [of "nand_demo\<lparr>nd_pending := (\<lambda>_. [])(1 := [(IsfsDelete ''/x'', NandCallback)])\<rparr>" 1
      "IsfsDelete ''/x''" NandCallback "\<lambda>_. answer 0 []" "[answer (-106) []]"]
  by (simp add: parent_known_def nand_demo_def)

theorem nandSafeOpen_copies_witness:
  "\<exists>t u. NANDPrivateSafeOpenAsync (\<lambda>_. answer 0 []) ''save'' 0 NAND_ACCESS_WRITE 5 64 8 1 nand_demo = Some (NAND_RESULT_OK, t)
    \<and> isfs_answers (\<lambda>_. answer 0 []) 1 ([answer IPC_RESULT_EXISTS [], answer 0 [], answer 20 [], answer 0 [], answer 0 [], answer 21 []]
        @ piece_answers [(answer 3 [1, 2, 3], answer 3 [])] @ [answer 0 [], answer 0 []]) t = Some u
    \<and> nd_called u = [(8, NAND_RESULT_OK, 1)] \<and> ni_fd (nd_info u 0) = 21"
proof -
  have p: "nandGenerateAbsPath (s_currentDir nand_demo) ''save'' = Some ''/title/data/save''"
    by (simp add: nand_demo_def nandGenerateAbsPath_def nandIsRelativePath_def nandConvertPath.simps)
  show ?thesis
    using nandSafeOpen_copies [OF _ _ p, of 1 NAND_ACCESS_WRITE "\<lambda>_. answer 0 []" "answer IPC_RESULT_EXISTS []" "answer 0 []"
        "answer 20 []" "answer 0 []" "answer 0 []" "answer 21 []" "[(answer 3 [1, 2, 3], answer 3 [])]" "answer 0 []" "answer 0 []" _ 0 5 64 8]
    by (simp add: nand_demo_def nandIsInitialized_def accepts_def answer_def good_piece_def IPC_RESULT_OK_def IPC_RESULT_EXISTS_def)
       blast
qed

theorem NANDSafeClose_replaces_witness:
  "\<exists>t u. NANDSafeCloseAsync (\<lambda>_. answer 0 []) 0 8 1 nand_demo = (NAND_RESULT_OK, t)
    \<and> isfs_answers (\<lambda>_. answer 0 []) 1 [answer 0 [], answer 0 [], answer (-114) []] t = Some u
    \<and> nd_requests u = [IsfsClose 12, IsfsClose 11, IsfsRename (temp_dir 6 @ ''/save'') ''/title/data/save'']
    \<and> nd_called u = [(8, NAND_RESULT_ECC_CRIT, 1)]"
  using NANDSafeClose_replaces [of nand_demo 1 "nd_info nand_demo 0" 0 "\<lambda>_. answer 0 []" 6 "''save''" 2
      "[answer 0 [], answer 0 [], answer (-114) []]" 8]
  by (simp add: nand_demo_def nandIsInitialized_def accepts_def answer_def nand_perms IPC_RESULT_OK_def
      nandConvertErrorCode_def errorMap_def ipc_results)

theorem nand_public_requests_witness:
  "\<exists>r t. NANDDelete (\<lambda>_. answer 0 []) ''../../shared2/sys'' nand_demo = Some (r, t) \<and> r = NAND_RESULT_ACCESS \<and> nd_requests t = []"
proof -
  have p: "nandGenerateAbsPath (s_currentDir nand_demo) ''../../shared2/sys'' = Some ''/shared2/sys''"
    using nandConvertPath_walks [of "[''title'', ''data'']" "''../../shared2/sys''"]
    by (simp add: nand_demo_def nandGenerateAbsPath_def nandIsRelativePath_def path_of_def names_def enter_def)
  have i: "nandIsInitialized nand_demo" "nd_requests nand_demo = []" "nandIsUnderPrivatePath ''/shared2/sys''"
    by (simp_all add: nand_demo_def nandIsInitialized_def nandIsUnderPrivatePath_def)
  have "NANDDelete (\<lambda>_. answer 0 []) ''../../shared2/sys'' nand_demo \<noteq> None"
    using i p by (simp add: NANDDelete_def api_def nandDelete_def)
  moreover have m': "NANDDelete (\<lambda>_. answer 0 []) ''../../shared2/sys'' \<in> public_path_ops (\<lambda>_. answer 0 []) ''../../shared2/sys''"
    by (simp add: public_path_ops_def)
  ultimately obtain r t where d: "NANDDelete (\<lambda>_. answer 0 []) ''../../shared2/sys'' nand_demo = Some (r, t)" by auto
  show ?thesis
    using nand_public_requests [of "\<lambda>_. answer 0 []" "''../../shared2/sys''" nand_demo, THEN conjunct1, rule_format, OF conjI, OF m' d] i p d
    by auto
qed

theorem NANDCheck_answer_witness:
  "fst (NANDCheck (\<lambda>_. answer 0 []) 1020 40 3 nand_demo) = NAND_RESULT_OK
   \<and> nd_var (snd (NANDCheck (\<lambda>_. answer 0 []) 1021 40 3 nand_demo)) 3 = flags True True False False"
proof
  have i: "nandIsInitialized nand_demo" by (simp add: nand_demo_def nandIsInitialized_def)
  have u: "usable (answer 0 [])" "usage fa_blocks (answer 0 []) = 4" "usage fa_files (answer 0 []) = 1"
    "fa_result (answer 0 []) = IPC_RESULT_OK" "fa_blocks (answer 0 []) = 4" "fa_files (answer 0 []) = 1"
    by (simp_all add: usable_def usage_def answer_def IPC_RESULT_OK_def)
  note c = NANDCheck_answer [OF i refl refl, of "\<lambda>_. answer 0 []" _ _ "\<Sum>k<10::nat. usage fa_blocks (answer 0 [])" "\<Sum>k<10::nat. usage fa_files (answer 0 [])" 3]
  show "fst (NANDCheck (\<lambda>_. answer 0 []) 1020 40 3 nand_demo) = NAND_RESULT_OK"
    using c [of 1020 40] by (simp add: u)
  show "nd_var (snd (NANDCheck (\<lambda>_. answer 0 []) 1021 40 3 nand_demo)) 3 = flags True True False False"
    using c [of 1021 40] by (simp add: u)
qed

end
