(* ===== verification/Spec2Isabelle.thy ===== *)
theory Spec2Isabelle
  imports MemList KernelProps Alarm Calendar OSAlloc IpcBlocks HeapCommon FrmHeap ExpHeap Fst Arc DvdQueue DvdFs DvdDrive DvdApi DvdProps DvdLow AxAlloc ScJobProps ScApi NandProps
begin

text \<open>
  The system software in C that a Wii game is linked with: the kernel (threads, mutexes,
  messages, alarms, heaps, calendar), the heaps of the MEM library, the archive and disc file
  systems, the disc drive, the voices of the audio library, the system settings, and the NAND
  library that keeps files in flash memory.  The sources are under
  \<^verbatim>\<open>src/src/Revolution/src\<close>; file names below are relative to it.  Definitions carry the
  names of the C functions (\<^verbatim>\<open>__OSFoo\<close> becomes \<open>OSFoo\<close>, \<^verbatim>\<open>Foo_\<close>
  becomes \<open>Foo\<close>), record fields those of the C structs with a prefix per struct.

  \<^bold>\<open>How the program is modelled.\<close>
  Objects that C reaches through pointers live in maps from an identifier or an address to
  a record: \<open>threads\<close>, \<open>mutexes\<close>, \<open>dblocks\<close>, \<open>vpb\<close>, \<open>cells\<close>
  and so on; a null pointer is \<open>None\<close>.  An operation takes the state record and returns
  the new one.  Dereferencing a null pointer, or a loop that does not end, is the value
  \<open>None\<close> of an option result: a theorem that an operation returns says
  \<open>= Some ...\<close>.  Loops over memory are \<^theory_text>\<open>partial_function (option)\<close>; there is no
  fuel in the model except in the three functions that only exist to state theorems
  (\<open>get_all\<close>, \<open>pop_all\<close>, \<open>read_all\<close>: repeat an operation a given number of
  times).  Machine integers are \<open>int\<close> with the conversion written out (\<open>u32\<close>,
  \<open>s32\<close>, \<open>s64\<close> of \<open>Prelude\<close>) wherever the C type can wrap; bit masks are
  words.  A call that blocks is split where the thread sleeps: the part up to the sleep and
  the part after the wake-up are two definitions (\<open>LockMutex_try\<close> and
  \<open>LockMutex_resume\<close>, \<open>JoinThread_begin\<close> and \<open>JoinThread_resume\<close>, one round
  of \<open>OSSendMessage\<close>).  A user callback is a parameter, or an entry in a log of calls.

  \<^bold>\<open>Prelude and lists.\<close>
  \<^theory_text>\<open>Prelude\<close>: integer conversions, rounding macros, the interrupt flag
  (\<^verbatim>\<open>OSDisableInterrupts\<close>, \<^verbatim>\<open>OSRestoreInterrupts\<close>), and \<open>seek\<close>, the loop
  that follows a pointer until a test succeeds.  \<^theory_text>\<open>IpcResult\<close>: the result codes of
  the IO processor.  \<^theory_text>\<open>DList\<close>: the doubly linked queue
  that the C macros of \<^verbatim>\<open>OSThread.c\<close> and \<^verbatim>\<open>OSAlarm.c\<close> expand to, with its
  representation as a list of objects; the locale \<open>intrusive_list\<close> states what every
  such list promises and is interpreted on the queues and on \<^verbatim>\<open>mem/mem_list.c\<close>
  (\<^theory_text>\<open>MemList\<close>).

  \<^bold>\<open>Kernel.\<close>
  \<^theory_text>\<open>Thread\<close> is the scheduler of \<^verbatim>\<open>os/OSThread.c\<close>: 32 run queues and their bit
  mask, effective priorities with inheritance along the chain of mutex owners, the choice of
  the next thread, suspend, resume, sleep, wake up.  \<^theory_text>\<open>ThreadInv\<close> holds the scheduler
  invariant and what each building block does to it, \<^theory_text>\<open>ThreadProps\<close> and
  \<^theory_text>\<open>Priority\<close> the behaviour of the entry points.  \<^theory_text>\<open>Mutex\<close> is
  \<^verbatim>\<open>os/OSMutex.c\<close>, \<^theory_text>\<open>ThreadLife\<close> creation, exit, cancel, join and detach,
  \<^theory_text>\<open>Message\<close> is \<^verbatim>\<open>os/OSMessage.c\<close> with the locale \<open>bounded_deque\<close> for
  the ring buffer.  \<^theory_text>\<open>KernelProps\<close> states the properties of these parts on one
  concrete kernel, \<open>demo\<close>.  \<^theory_text>\<open>Alarm\<close> is \<^verbatim>\<open>os/OSAlarm.c\<close> and the timed
  sleep of \<^verbatim>\<open>OSThread.c\<close>; it uses the scheduler to resume sleepers.
  \<^theory_text>\<open>Calendar\<close> is \<^verbatim>\<open>os/OSTime.c\<close>, with its 32-bit sums of days as they wrap.

  \<^bold>\<open>Heaps.\<close>
  \<^theory_text>\<open>OSAlloc\<close>: the kernel's heaps, refined to lists of (address, size) pairs: first fit
  with splitting, release with merging.  \<^theory_text>\<open>IpcHeap\<close>: \<^verbatim>\<open>ipc/memory.c\<close>, best fit
  with alignment; it reuses the cell lists of \<^theory_text>\<open>OSAlloc\<close> through \<open>as_cells\<close>.
  \<^theory_text>\<open>IpcBlocks\<close>: the blocks that such a heap has handed out; the locale
  \<open>block_heap\<close> states what a client may rely on, and is interpreted on the code's heaps.
  \<^theory_text>\<open>HeapCommon\<close>, \<^theory_text>\<open>FrmHeap\<close>, \<^theory_text>\<open>ExpHeap\<close>: the MEM library's forest of
  heaps (on top of \<^theory_text>\<open>MemList\<close>), its frame heap and its expandable heap.  The states that
  a frame heap records lie in the bytes it hands out; \<open>frm_client\<close> is a client that allocates and
  writes into its blocks.

  \<^bold>\<open>Files.\<close>
  \<^theory_text>\<open>Fst\<close>: the table of names that \<^verbatim>\<open>arc/arc.c\<close> and \<^verbatim>\<open>dvd/dvdfs.c\<close> share,
  its meaning as a tree (\<open>trail_at\<close>), and path lookup; the locale \<open>fst_search\<close>
  asks of each client that its search finds the entry of a folder, and gives it the
  resolution of whole paths.  \<^theory_text>\<open>Arc\<close> and \<^theory_text>\<open>DvdFs\<close> interpret it.

  \<^bold>\<open>Disc drive.\<close>
  \<^theory_text>\<open>DvdQueue\<close>: the waiting queues of \<^verbatim>\<open>dvd/dvdqueue.c\<close>.  \<^theory_text>\<open>DvdDrive\<close>:
  the state machine of \<^verbatim>\<open>dvd/dvd.c\<close>.  The functions \<^verbatim>\<open>stateReady\<close>,
  \<^verbatim>\<open>stateBusy\<close> and \<^verbatim>\<open>stateCoverClosed\<close> call each other as their last action: each
  is one step that returns what is to be done next, and \<open>run_tasks\<close> runs the steps.
  Requests to the low-level driver are logged in the state, and \<open>on_answer\<close> delivers an
  answer to the handler that the request named.  \<^theory_text>\<open>DvdApi\<close>: what clients call, of
  \<^verbatim>\<open>dvd.c\<close> and \<^verbatim>\<open>dvdfs.c\<close>.  \<^theory_text>\<open>DvdProps\<close>: the theorems about both.
  They say when the drive can be idle with a command waiting (only after a resumption, in one case), and
  tell the start-up setting, in which a fatal error shows a message and ends nothing, from the one after
  \<^verbatim>\<open>DVDSetAutoFatalMessaging(FALSE)\<close> of \<^verbatim>\<open>dvd/dvdFatal.c\<close>.
  \<^theory_text>\<open>DvdLow\<close>: \<^verbatim>\<open>dvd/dvd_broadway.c\<close>, the requests as messages to the IO
  processor, with the four contexts refined to a ring through refusals and answers in any order, and the
  handlers of \<^verbatim>\<open>dvd.c\<close> behind the answers.

  \<^bold>\<open>Audio.\<close>
  \<^theory_text>\<open>AxAlloc\<close>: \<^verbatim>\<open>ax/AXAlloc.c\<close>, voices in stacks by priority, on the links of
  \<^theory_text>\<open>DList\<close>.

  \<^bold>\<open>System settings.\<close>
  \<^theory_text>\<open>ScConf\<close>: the part of \<^verbatim>\<open>sc/scsystem.c\<close> that works on the settings file in
  memory, a buffer of bytes.  \<^theory_text>\<open>ScItems\<close>: what such a buffer means, a list of items
  with their slots (\<open>conf_rep\<close>), kept by the deletion and the creation of an item.
  \<^theory_text>\<open>ScDict\<close>: the parser accepts exactly such buffers, and the interface is a
  dictionary from item IDs to values.  \<^theory_text>\<open>ScJobs\<close> and \<^theory_text>\<open>ScJobProps\<close>: loading and
  writing back, chains of callbacks of the NAND library.  Which of its calls are accepted is
  the parameter \<open>nand\<close> (call number to result), what the accepted ones answer a list of
  \<open>nand_answer\<close>; \<open>answers\<close> delivers them in turn.  \<^theory_text>\<open>ScApi\<close>:
  \<^verbatim>\<open>sc/scapi.c\<close> and the encrypted product information of
  \<^verbatim>\<open>sc/scapi_prdinfo.c\<close>.

  \<^bold>\<open>NAND library.\<close>
  \<^theory_text>\<open>NandPath\<close>: result codes, permissions and paths of \<^verbatim>\<open>nand/NANDCore.c\<close> and
  \<^verbatim>\<open>nand/nand.c\<close>; a path means the list of names that lead to a file (\<open>names\<close>,
  \<open>enter\<close>).  \<^theory_text>\<open>NandApi\<close>: every operation, as requests to the file system
  client.  That client is outside the library: the parameter \<open>fs\<close> is what its n-th call
  returns, a request is logged in \<open>nd_requests\<close>, and the answer to an asynchronous one
  comes later, through \<open>on_isfs\<close>, to the handler that the request named; the calls to the
  ticket service are the record \<open>es_lib\<close>.  \<^theory_text>\<open>NandSafe\<close>: the chains of callbacks by
  which a file is copied before it is written and the copy renamed over it.
  \<^theory_text>\<open>NandProps\<close>: the theorems about both.  Strings have no bound in the model;
  \<open>abs_path_fits\<close> says when a path fits the buffers of the code.  The parameter
  \<open>nand\<close> of \<^theory_text>\<open>ScJobs\<close> stands for the results of these operations.

  \<^bold>\<open>What is not modelled.\<close>
  The game itself (\<^verbatim>\<open>src/src/SB\<close>), the home button menu and the other C++ parts; the
  Bluetooth stack, the C library, the debugger and other code from third parties; everything
  that only writes hardware registers (graphics, audio output, serial interfaces, caches, the
  save and load of a context in assembly); the client of the IO processor and of its file system
  (\<^verbatim>\<open>ipc/ipcclt.c\<close>, \<^verbatim>\<open>fs/fs.c\<close>), whose results are parameters of the drive and
  of the NAND library.  Of the modelled files: the register saves of the
  exception entries, printed messages, and, in \<^verbatim>\<open>mem_expHeap.c\<close>, three functions whose
  bodies are empty in the source.  Interrupts are disabled while an operation of the model
  runs, as the code does itself; so operations do not interleave inside one another, but their
  order is free, and answers of the drive and wake-ups come as separate steps.
\<close>

end
